(* ===== verification/Prelude.thy ===== *)
theory Prelude
  imports Main "HOL-Library.Char_ord" "HOL-Library.List_Lexorder" "HOL-Library.While_Combinator"
begin

text \<open>
  What every component theory shares: the way a Go statement can end (it returns, it panics, or
  it never returns), Go's 64-bit \<open>int\<close> with its wrap-around, the collections of facts the
  component proofs add to the simplifier, a few facts on lists and maps, and the contract of a
  component that is a state with a step function and an invariant.
\<close>

subsection \<open>Collections of facts\<close>

named_theorems outcome_simps "how the outcome of a statement sequence computes"

named_theorems wf_simps "the well-formedness predicates of the components, unfolded"

subsection \<open>Outcomes of Go statements\<close>

text \<open>
  \<open>Done x\<close>: control leaves the statement with state or value \<open>x\<close>. \<open>Panics\<close>: a run-time panic
  (an index out of range, a send on a closed channel, a nil dereference). \<open>Hangs\<close>: control never
  leaves the statement (a loop that does not end, a send that blocks for ever).
\<close>

datatype 'a outcome = Done 'a | Panics | Hangs

fun and_then :: "'a outcome \<Rightarrow> ('a \<Rightarrow> 'b outcome) \<Rightarrow> 'b outcome" where
  "and_then (Done x) f = f x"
| "and_then Panics f = Panics"
| "and_then Hangs f = Hangs"

text \<open>A loop over a list of values: the body runs for each of them, in order.\<close>

fun for_each :: "('x \<Rightarrow> 's \<Rightarrow> 's outcome) \<Rightarrow> 'x list \<Rightarrow> 's \<Rightarrow> 's outcome" where
  "for_each body [] s = Done s"
| "for_each body (x # xs) s = and_then (body x s) (for_each body xs)"

definition returns :: "'a outcome \<Rightarrow> bool" where
  "returns r \<longleftrightarrow> (\<exists>x. r = Done x)"

lemma and_then_Done_iff [outcome_simps]:
  "and_then r f = Done y \<longleftrightarrow> (\<exists>x. r = Done x \<and> f x = Done y)"
  by (cases r) auto

lemma and_then_Panics_iff [outcome_simps]:
  "and_then r f = Panics \<longleftrightarrow> r = Panics \<or> (\<exists>x. r = Done x \<and> f x = Panics)"
  by (cases r) auto

lemma and_then_cong [fundef_cong]:
  "r = r' \<Longrightarrow> (\<And>x. r' = Done x \<Longrightarrow> f x = g x) \<Longrightarrow> and_then r f = and_then r' g"
  by (cases r') auto

lemma and_then_assoc: "and_then (and_then r f) g = and_then r (\<lambda>x. and_then (f x) g)"
  by (cases r) auto

lemma for_each_append:
  "for_each body (xs @ ys) s = and_then (for_each body xs s) (for_each body ys)"
proof (induction xs arbitrary: s)
  case Nil
  then show ?case by simp
next
  case (Cons x xs)
  then show ?case by (cases "body x s") simp_all
qed

text \<open>A body that always succeeds and keeps an invariant makes the whole loop succeed.\<close>

lemma for_each_invariant:
  assumes "\<And>x s. x \<in> set xs \<Longrightarrow> I s \<Longrightarrow> \<exists>t. body x s = Done t \<and> I t"
    and "I s"
  shows "\<exists>t. for_each body xs s = Done t \<and> I t"
  using assms
proof (induction xs arbitrary: s)
  case Nil
  then show ?case by simp
next
  case (Cons x xs)
  from Cons.prems obtain t where t: "body x s = Done t" "I t" by (meson list.set_intros(1))
  from Cons.IH [of t] Cons.prems t show ?case by auto
qed

subsection \<open>Go's 64-bit integers\<close>

text \<open>
  Go's \<open>int\<close> has 64 bits on the platforms the program is built for. Where a sum can leave the
  range, the model writes \<open>wrap64\<close> around it: two's complement wrap-around.
\<close>

definition max_int64 :: int where
  "max_int64 = 9223372036854775807"

definition min_int64 :: int where
  "min_int64 = - 9223372036854775808"

definition wrap64 :: "int \<Rightarrow> int" where
  "wrap64 x = (x + 9223372036854775808) mod 18446744073709551616 - 9223372036854775808"

lemma wrap64_id: "min_int64 \<le> x \<Longrightarrow> x \<le> max_int64 \<Longrightarrow> wrap64 x = x"
  by (simp add: wrap64_def min_int64_def max_int64_def)

lemma wrap64_bounds: "min_int64 \<le> wrap64 x \<and> wrap64 x \<le> max_int64"
  by (simp add: wrap64_def min_int64_def max_int64_def)

lemma wrap64_over:
  "max_int64 < x \<Longrightarrow> x \<le> 2 * max_int64 + 1 \<Longrightarrow> wrap64 x = x - 18446744073709551616"
proof -
  assume "max_int64 < x" and "x \<le> 2 * max_int64 + 1"
  then have "0 \<le> x + 9223372036854775808 - 18446744073709551616"
    and "x + 9223372036854775808 - 18446744073709551616 < 18446744073709551616"
    by (simp_all add: max_int64_def)
  then have "(x + 9223372036854775808 - 18446744073709551616) mod 18446744073709551616 =
    x + 9223372036854775808 - 18446744073709551616"
    by (rule mod_pos_pos_trivial)
  then have "(x + 9223372036854775808) mod 18446744073709551616 =
    x + 9223372036854775808 - 18446744073709551616"
    by (simp only: minus_mod_self2)
  then show ?thesis by (simp only: wrap64_def)
qed

subsection \<open>Lists\<close>

text \<open>
  \<open>last_n n xs\<close> is Go's \<open>xs[len(xs)-n:]\<close> for \<open>n \<le> len(xs)\<close>; \<open>last_opt\<close> and \<open>first_index\<close> are
  the searches the components share.
\<close>

definition last_n :: "nat \<Rightarrow> 'a list \<Rightarrow> 'a list" where
  "last_n n xs = drop (length xs - n) xs"

lemma length_last_n [simp]: "length (last_n n xs) = min n (length xs)"
  by (simp add: last_n_def)

lemma set_last_n: "set (last_n n xs) \<subseteq> set xs"
  by (simp add: last_n_def set_drop_subset)

lemma last_n_all [simp]: "length xs \<le> n \<Longrightarrow> last_n n xs = xs"
  by (simp add: last_n_def)

lemma last_n_suffix: "\<exists>ys. xs = ys @ last_n n xs"
  by (metis append_take_drop_id last_n_def)

lemma last_n_append_prefix: "last_n n (last_n n xs @ ys) = last_n n (xs @ ys)"
  by (cases "n \<le> length xs") (auto simp: last_n_def add.commute)

lemma take_range_split:
  "a \<le> b \<Longrightarrow> b \<le> c \<Longrightarrow> take (c - a) (drop a xs) = take (b - a) (drop a xs) @ take (c - b) (drop b xs)"
  using take_add [of "b - a" "c - b" "drop a xs"] by simp

fun first_index :: "('a \<Rightarrow> bool) \<Rightarrow> 'a list \<Rightarrow> nat option" where
  "first_index P [] = None"
| "first_index P (x # xs) = (if P x then Some 0 else map_option Suc (first_index P xs))"

lemma first_index_None: "first_index P xs = None \<longleftrightarrow> (\<forall>x\<in>set xs. \<not> P x)"
  by (induction xs) auto

lemma first_index_Some:
  "first_index P xs = Some i \<Longrightarrow> i < length xs \<and> P (xs ! i) \<and> (\<forall>x\<in>set (take i xs). \<not> P x)"
  by (induction xs arbitrary: i) (auto split: if_splits)

lemma first_index_append:
  "\<forall>x\<in>set xs. \<not> P x \<Longrightarrow>
   first_index P (xs @ ys) = map_option (\<lambda>i. length xs + i) (first_index P ys)"
  by (induction xs; cases "first_index P ys") auto

subsection \<open>Machines with an invariant\<close>

text \<open>
  The contract several components share: a total step function whose every step keeps an
  invariant. Then every run of steps keeps it.
\<close>

locale machine =
  fixes step :: "'e \<Rightarrow> 's \<Rightarrow> 's"
    and inv :: "'s \<Rightarrow> bool"
  assumes step_inv: "inv s \<Longrightarrow> inv (step e s)"
begin

lemma run_inv: "inv s \<Longrightarrow> inv (fold step es s)"
  by (induction es arbitrary: s) (auto simp: step_inv)

end

text \<open>
  The same contract for steps that may fail: from a good state a step does not panic, and where it
  returns, the new state is good.
\<close>

locale failing_machine =
  fixes step :: "'e \<Rightarrow> 's \<Rightarrow> 's outcome"
    and inv :: "'s \<Rightarrow> bool"
  assumes step_safe: "inv s \<Longrightarrow> step e s \<noteq> Panics"
    and step_keeps: "inv s \<Longrightarrow> step e s = Done t \<Longrightarrow> inv t"
begin

lemma run_safe: "inv s \<Longrightarrow> for_each step es s \<noteq> Panics"
proof (induction es arbitrary: s)
  case Nil
  then show ?case by simp
next
  case (Cons e es)
  then show ?case
    by (cases "step e s") (auto dest: step_safe step_keeps)
qed

lemma run_keeps: "inv s \<Longrightarrow> for_each step es s = Done t \<Longrightarrow> inv t"
  by (induction es arbitrary: s) (auto simp: outcome_simps dest: step_keeps)

lemma run_returns:
  assumes "\<And>e s. e \<in> set es \<Longrightarrow> inv s \<Longrightarrow> step e s \<noteq> Hangs" and "inv s"
  shows "\<exists>t. for_each step es s = Done t \<and> inv t"
proof (rule for_each_invariant [where I = inv, OF _ assms(2)])
  fix e s
  assume "e \<in> set es" and i: "inv s"
  then have "step e s \<noteq> Hangs" by (rule assms(1))
  with step_safe [OF i, of e] obtain t where "step e s = Done t"
    by (cases "step e s") auto
  with step_keeps [OF i] show "\<exists>t. step e s = Done t \<and> inv t" by auto
qed

end

end
