(* ===== verification/Utf8.thy ===== *)
theory Utf8
  imports Prelude
begin

text \<open>
  Go strings are byte sequences, here HOL strings (one \<open>char\<close> is one byte). This theory holds what
  the program uses of the packages \<open>unicode/utf8\<close> and \<open>unicode\<close>: the decoding of a string into
  runes as \<open>utf8.DecodeRune\<close> and a \<open>range\<close> loop do it (an invalid byte is the rune 65533 of
  width 1), the encoding \<open>utf8.AppendRune\<close>, \<open>utf8.RuneStart\<close> and \<open>unicode.IsSpace\<close>. The lemmas are
  the round trip of encoding and decoding, and that decoding splits a string into pieces.
\<close>

type_synonym rune = nat

abbreviation byte :: "char \<Rightarrow> nat" where
  "byte c \<equiv> of_char c"

definition rune_error :: rune where
  "rune_error = 65533"

definition is_cont :: "char \<Rightarrow> bool" where
  "is_cont c \<longleftrightarrow> 128 \<le> byte c \<and> byte c < 192"

definition in_range :: "nat \<Rightarrow> nat \<Rightarrow> char \<Rightarrow> bool" where
  "in_range lo hi c \<longleftrightarrow> lo \<le> byte c \<and> byte c \<le> hi"

definition rune_start :: "char \<Rightarrow> bool" where
  "rune_start c \<longleftrightarrow> \<not> is_cont c"

text \<open>The first rune of a string and the number of bytes it takes.\<close>

fun decode_rune :: "string \<Rightarrow> rune \<times> nat" where
  "decode_rune [] = (rune_error, 0)"
| "decode_rune (a # s) =
     (let x = byte a in
      if x < 128 then (x, 1)
      else if 194 \<le> x \<and> x \<le> 223 then
        (case s of
           b # _ \<Rightarrow> if is_cont b then ((x - 192) * 64 + (byte b - 128), 2) else (rune_error, 1)
         | [] \<Rightarrow> (rune_error, 1))
      else if 224 \<le> x \<and> x \<le> 239 then
        (case s of
           b # c # _ \<Rightarrow>
             if in_range (if x = 224 then 160 else 128) (if x = 237 then 159 else 191) b
                \<and> is_cont c
             then ((x - 224) * 4096 + (byte b - 128) * 64 + (byte c - 128), 3)
             else (rune_error, 1)
         | _ \<Rightarrow> (rune_error, 1))
      else if 240 \<le> x \<and> x \<le> 244 then
        (case s of
           b # c # d # _ \<Rightarrow>
             if in_range (if x = 240 then 144 else 128) (if x = 244 then 143 else 191) b
                \<and> is_cont c \<and> is_cont d
             then ((x - 240) * 262144 + (byte b - 128) * 4096 + (byte c - 128) * 64
                     + (byte d - 128), 4)
             else (rune_error, 1)
         | _ \<Rightarrow> (rune_error, 1))
      else (rune_error, 1))"

lemma decode_rune_width:
  "s \<noteq> [] \<Longrightarrow> 0 < snd (decode_rune s) \<and> snd (decode_rune s) \<le> length s"
  by (cases s) (auto simp: Let_def split: list.splits)

text \<open>A string as the pieces its runes take: the order a \<open>range\<close> loop visits them in.\<close>

function pieces :: "string \<Rightarrow> (rune \<times> string) list" where
  "pieces s =
     (if s = [] then []
      else (fst (decode_rune s), take (snd (decode_rune s)) s)
             # pieces (drop (snd (decode_rune s)) s))"
  by pat_completeness auto
termination
  by (relation "measure length") (auto simp: decode_rune_width)

declare pieces.simps [simp del]

lemma pieces_Nil [simp]: "pieces [] = []"
  by (subst pieces.simps) simp

definition runes :: "string \<Rightarrow> rune list" where
  "runes s = map fst (pieces s)"

lemma concat_pieces: "concat (map snd (pieces s)) = s"
proof (induction s rule: pieces.induct)
  case (1 s)
  show ?case
  proof (cases "s = []")
    case False
    then show ?thesis
      using "1.IH" [OF False] by (simp add: pieces.simps [of s])
  qed simp
qed

lemma pieces_nonempty: "p \<in> set (pieces s) \<Longrightarrow> snd p \<noteq> []"
proof (induction s rule: pieces.induct)
  case (1 s)
  show ?case
  proof (cases "s = []")
    case False
    with "1.prems" "1.IH" [OF False] decode_rune_width [OF False] show ?thesis
      by (auto simp: pieces.simps [of s])
  qed (use "1.prems" in simp)
qed

text \<open>\<open>utf8.AppendRune\<close>: a rune that is not a Unicode scalar value is encoded as 65533.\<close>

definition valid_rune :: "rune \<Rightarrow> bool" where
  "valid_rune r \<longleftrightarrow> r < 55296 \<or> (57344 \<le> r \<and> r < 1114112)"

definition encode_valid :: "rune \<Rightarrow> string" where
  "encode_valid r =
     (if r < 128 then [char_of r]
      else if r < 2048 then [char_of (192 + r div 64), char_of (128 + r mod 64)]
      else if r < 65536 then
        [char_of (224 + r div 4096), char_of (128 + r div 64 mod 64), char_of (128 + r mod 64)]
      else
        [char_of (240 + r div 262144), char_of (128 + r div 4096 mod 64),
         char_of (128 + r div 64 mod 64), char_of (128 + r mod 64)])"

definition encode_rune :: "rune \<Rightarrow> string" where
  "encode_rune r = encode_valid (if valid_rune r then r else rune_error)"

definition string_of_runes :: "rune list \<Rightarrow> string" where
  "string_of_runes rs = concat (map encode_rune rs)"

lemma byte_char_of: "n < 256 \<Longrightarrow> byte (char_of n) = n"
  by simp

lemma encode_rune_nonempty [simp]: "encode_rune r \<noteq> []"
  by (simp add: encode_rune_def encode_valid_def)

lemma decode_encode_valid:
  assumes "valid_rune r"
  shows "decode_rune (encode_valid r @ s) = (r, length (encode_valid r))"
proof -
  consider "r < 128" | "128 \<le> r" "r < 2048" | "2048 \<le> r" "r < 65536" | "65536 \<le> r"
    by linarith
  then show ?thesis
  proof cases
    case 1
    then show ?thesis by (simp add: encode_valid_def)
  next
    case 2
    define x y where "x = r div 64" and "y = r mod 64"
    have r: "r = x * 64 + y" and y: "y < 64" by (auto simp: x_def y_def)
    have x: "x < 32" "2 \<le> x" using 2 r y by simp_all
    have e: "encode_valid r = [char_of (192 + x), char_of (128 + y)]"
      using 2 by (simp add: encode_valid_def x_def y_def)
    show ?thesis
      unfolding e using x y by (simp add: r is_cont_def Let_def)
  next
    case 3
    define x y z where "x = r div 4096" and "y = r div 64 mod 64" and "z = r mod 64"
    have r64: "r = r div 64 * 64 + z" and r4096: "r div 64 = x * 64 + y"
      by (simp_all add: x_def y_def z_def div_mult2_eq [of r 64 64, simplified])
    have r: "r = x * 4096 + y * 64 + z" using r64 unfolding r4096 by simp
    have yz: "y < 64" "z < 64" and x: "x < 16" using 3 by (auto simp: x_def y_def z_def)
    have lo: "x = 0 \<Longrightarrow> 32 \<le> y" using 3 r yz by simp
    have hi: "x = 13 \<Longrightarrow> y < 32" using assms r yz by (auto simp: valid_rune_def)
    have e: "encode_valid r = [char_of (224 + x), char_of (128 + y), char_of (128 + z)]"
      using 3 by (simp add: encode_valid_def x_def y_def z_def)
    show ?thesis
      unfolding e using x yz lo hi by (auto simp: r is_cont_def in_range_def Let_def)
  next
    case 4
    define w x y z where "w = r div 262144" and "x = r div 4096 mod 64" and "y = r div 64 mod 64"
      and "z = r mod 64"
    have r64: "r = r div 64 * 64 + z" and r4096: "r div 64 = r div 4096 * 64 + y"
      and rw: "r div 4096 = w * 64 + x"
      by (simp_all add: w_def x_def y_def z_def div_mult2_eq [of r 64 64, simplified]
          div_mult2_eq [of r 4096 64, simplified])
    have r: "r = w * 262144 + x * 4096 + y * 64 + z" using r64 unfolding r4096 rw by simp
    have b: "x < 64" "y < 64" "z < 64" by (auto simp: x_def y_def z_def)
    have lim: "r < 1114112" using 4 assms by (auto simp: valid_rune_def)
    have w: "w < 5" using lim by (simp add: w_def)
    have lo: "w = 0 \<Longrightarrow> 16 \<le> x" using 4 r b by simp
    have hi: "w = 4 \<Longrightarrow> x < 16" using lim r b by simp
    have e: "encode_valid r =
        [char_of (240 + w), char_of (128 + x), char_of (128 + y), char_of (128 + z)]"
      using 4 by (simp add: encode_valid_def w_def x_def y_def z_def)
    show ?thesis
      unfolding e using w b lo hi by (auto simp: r is_cont_def in_range_def Let_def)
  qed
qed

lemma decode_encode:
  "valid_rune r \<Longrightarrow> decode_rune (encode_rune r @ s) = (r, length (encode_rune r))"
  by (simp add: encode_rune_def decode_encode_valid)

lemma pieces_encode:
  "valid_rune r \<Longrightarrow> pieces (encode_rune r @ s) = (r, encode_rune r) # pieces s"
  by (simp add: pieces.simps [of "encode_rune r @ s"] decode_encode)

lemma runes_string_of_runes:
  "\<forall>r\<in>set rs. valid_rune r \<Longrightarrow> runes (string_of_runes rs) = rs"
  by (induction rs) (auto simp: runes_def string_of_runes_def pieces_encode)

subsection \<open>Valid strings\<close>

definition valid_utf8 :: "string \<Rightarrow> bool" where
  "valid_utf8 s \<longleftrightarrow> string_of_runes (runes s) = s"

lemma string_of_runes_Cons: "string_of_runes (r # rs) = encode_rune r @ string_of_runes rs"
  by (simp add: string_of_runes_def)

lemma valid_string_of_runes: "valid_utf8 (string_of_runes rs)"
proof -
  let ?fix = "\<lambda>r. if valid_rune r then r else rune_error"
  have e: "valid_rune rune_error" by (simp add: valid_rune_def rune_error_def)
  have "encode_rune (?fix r) = encode_rune r" for r using e by (simp add: encode_rune_def)
  then have eq: "string_of_runes rs = string_of_runes (map ?fix rs)"
    by (simp add: string_of_runes_def o_def)
  have "runes (string_of_runes (map ?fix rs)) = map ?fix rs"
    using e by (intro runes_string_of_runes) auto
  then show ?thesis using eq by (simp add: valid_utf8_def)
qed

lemma string_of_runes_append: "string_of_runes (xs @ ys) = string_of_runes xs @ string_of_runes ys"
  by (simp add: string_of_runes_def)

lemma string_of_runes_Nil [simp]: "string_of_runes [] = []"
  by (simp add: string_of_runes_def)

lemma string_of_runes_eq_Nil [simp]:
  "string_of_runes rs = [] \<longleftrightarrow> rs = []" "[] = string_of_runes rs \<longleftrightarrow> rs = []"
  by (auto simp: string_of_runes_def)

lemma pieces_string_of_runes:
  "\<forall>r\<in>set rs. valid_rune r \<Longrightarrow> pieces (string_of_runes rs) = map (\<lambda>r. (r, encode_rune r)) rs"
  by (induction rs) (simp_all add: string_of_runes_Cons pieces_encode)

text \<open>A valid string is the encoding of valid runes.\<close>

lemma valid_utf8_runes: "valid_utf8 s \<Longrightarrow> \<exists>rs. s = string_of_runes rs \<and> (\<forall>r\<in>set rs. valid_rune r)"
proof -
  assume v: "valid_utf8 s"
  let ?fix = "\<lambda>r. if valid_rune r then r else rune_error"
  have e: "valid_rune rune_error" by (simp add: valid_rune_def rune_error_def)
  then have "encode_rune (?fix r) = encode_rune r" for r by (simp add: encode_rune_def)
  then have "string_of_runes (map ?fix (runes s)) = s"
    using v by (simp add: valid_utf8_def string_of_runes_def o_def)
  moreover have "\<forall>r\<in>set (map ?fix (runes s)). valid_rune r" using e by auto
  ultimately show ?thesis by metis
qed

subsection \<open>White space\<close>

text \<open>\<open>unicode.IsSpace\<close>: the Unicode property \<open>White_Space\<close>.\<close>

definition is_space :: "rune \<Rightarrow> bool" where
  "is_space r \<longleftrightarrow> r \<in> {9, 10, 11, 12, 13, 32, 133, 160, 5760, 8232, 8233, 8239, 8287, 12288}
     \<or> (8192 \<le> r \<and> r \<le> 8202)"

definition bytes_of :: "(rune \<times> string) list \<Rightarrow> string" where
  "bytes_of ps = concat (map snd ps)"

text \<open>\<open>strings.TrimSpace\<close> and \<open>strings.Fields\<close>.\<close>

definition trim_space :: "string \<Rightarrow> string" where
  "trim_space s =
     bytes_of (rev (dropWhile (is_space \<circ> fst) (rev (dropWhile (is_space \<circ> fst) (pieces s)))))"

fun fields_from :: "string \<Rightarrow> (rune \<times> string) list \<Rightarrow> string list" where
  "fields_from acc [] = (if acc = [] then [] else [acc])"
| "fields_from acc ((r, b) # ps) =
     (if is_space r then (if acc = [] then fields_from [] ps else acc # fields_from [] ps)
      else fields_from (acc @ b) ps)"

definition fields :: "string \<Rightarrow> string list" where
  "fields s = fields_from [] (pieces s)"

lemma fields_from_nonempty: "f \<in> set (fields_from acc ps) \<Longrightarrow> (\<forall>p\<in>set ps. snd p \<noteq> []) \<Longrightarrow> f \<noteq> []"
  by (induction acc ps rule: fields_from.induct) (auto split: if_splits)

lemma fields_nonempty: "f \<in> set (fields s) \<Longrightarrow> f \<noteq> []"
  unfolding fields_def by (rule fields_from_nonempty) (auto dest: pieces_nonempty)

lemma decode_rune_ascii: "byte a < 128 \<Longrightarrow> decode_rune (a # s) = (byte a, 1)"
  by simp

lemma pieces_ascii: "byte a < 128 \<Longrightarrow> pieces (a # s) = (byte a, [a]) # pieces s"
  by (simp add: pieces.simps [of "a # s"])

lemma ascii_string:
  "\<forall>c\<in>set s. byte c < 128 \<Longrightarrow> runes s = map byte s \<and> string_of_runes (map byte s) = s"
  by (induction s) (simp_all add: runes_def pieces_ascii string_of_runes_Cons encode_rune_def encode_valid_def
      valid_rune_def)

lemma ascii_valid: "\<forall>c\<in>set s. byte c < 128 \<Longrightarrow> valid_utf8 s"
  by (simp add: valid_utf8_def ascii_string)

end
