(* ===== verification/GoStrings.thy ===== *)
theory GoStrings
  imports Utf8
begin

text \<open>
  What the program uses of Go's packages \<open>strings\<close> and \<open>strconv\<close>, on byte strings: prefixes and
  suffixes, searching, splitting and joining, and \<open>strconv.Atoi\<close> with its three ways to end.
  A search that Go answers with -1 is \<open>None\<close> here.
\<close>

subsection \<open>Prefixes, suffixes, searching\<close>

definition has_prefix :: "string \<Rightarrow> string \<Rightarrow> bool" where
  "has_prefix s p \<longleftrightarrow> take (length p) s = p"

definition trim_prefix :: "string \<Rightarrow> string \<Rightarrow> string" where
  "trim_prefix s p = (if has_prefix s p then drop (length p) s else s)"

definition has_suffix :: "string \<Rightarrow> string \<Rightarrow> bool" where
  "has_suffix s p \<longleftrightarrow> length p \<le> length s \<and> drop (length s - length p) s = p"

definition trim_suffix :: "string \<Rightarrow> string \<Rightarrow> string" where
  "trim_suffix s p = (if has_suffix s p then take (length s - length p) s else s)"

definition index_byte :: "string \<Rightarrow> char \<Rightarrow> nat option" where
  "index_byte s c = first_index (\<lambda>x. x = c) s"

definition last_index_byte :: "string \<Rightarrow> char \<Rightarrow> nat option" where
  "last_index_byte s c = map_option (\<lambda>i. length s - 1 - i) (index_byte (rev s) c)"

fun index_sub :: "string \<Rightarrow> string \<Rightarrow> nat option" where
  "index_sub s t =
     (if has_prefix s t then Some 0
      else (case s of [] \<Rightarrow> None | _ # s' \<Rightarrow> map_option Suc (index_sub s' t)))"

declare index_sub.simps [simp del]

lemma index_sub_code [code]:
  "index_sub [] t = (if t = [] then Some 0 else None)"
  "index_sub (x # s) t = (if has_prefix (x # s) t then Some 0 else map_option Suc (index_sub s t))"
  by (subst index_sub.simps, simp add: has_prefix_def)+

definition contains_sub :: "string \<Rightarrow> string \<Rightarrow> bool" where
  "contains_sub s t \<longleftrightarrow> index_sub s t \<noteq> None"

lemma has_prefix_append [simp]: "has_prefix (p @ s) p"
  by (simp add: has_prefix_def)

lemma has_prefix_iff: "has_prefix s p \<longleftrightarrow> (\<exists>t. s = p @ t)"
  by (metis append_eq_conv_conj append_take_drop_id has_prefix_def)

lemma index_byte_Some:
  "index_byte s c = Some i \<Longrightarrow> i < length s \<and> s ! i = c \<and> c \<notin> set (take i s)"
  unfolding index_byte_def by (drule first_index_Some) auto

lemma index_byte_split: "index_byte s c = Some i \<Longrightarrow> s = take i s @ c # drop (Suc i) s"
  by (metis id_take_nth_drop index_byte_Some)

lemma index_byte_append: "c \<notin> set s \<Longrightarrow> index_byte (s @ c # t) c = Some (length s)"
  unfolding index_byte_def by (subst first_index_append) auto

lemma index_byte_None: "index_byte s c = None \<longleftrightarrow> c \<notin> set s"
  by (auto simp: index_byte_def first_index_None)

subsection \<open>Splitting and joining\<close>

text \<open>\<open>strings.Split\<close> with a separator of one byte: never the empty list.\<close>

fun split_byte :: "char \<Rightarrow> string \<Rightarrow> string list" where
  "split_byte c [] = [[]]"
| "split_byte c (x # xs) =
     (if x = c then [] # split_byte c xs
      else (x # hd (split_byte c xs)) # tl (split_byte c xs))"

text \<open>The same without evaluating the rest twice.\<close>

lemma split_byte_span [code]:
  "split_byte c s =
     (case dropWhile (\<lambda>x. x \<noteq> c) s of
        [] \<Rightarrow> [s]
      | _ # rest \<Rightarrow> takeWhile (\<lambda>x. x \<noteq> c) s # split_byte c rest)"
  by (induction s) (auto split: list.splits simp del: dropWhile_eq_Nil_conv)

text \<open>\<open>strings.SplitN\<close> with a separator of one byte.\<close>

fun split_n :: "nat \<Rightarrow> char \<Rightarrow> string \<Rightarrow> string list" where
  "split_n 0 c s = []"
| "split_n (Suc 0) c s = [s]"
| "split_n (Suc (Suc n)) c s =
     (case index_byte s c of
        None \<Rightarrow> [s]
      | Some i \<Rightarrow> take i s # split_n (Suc n) c (drop (Suc i) s))"

fun join :: "string \<Rightarrow> string list \<Rightarrow> string" where
  "join sep [] = []"
| "join sep [x] = x"
| "join sep (x # y # ys) = x @ sep @ join sep (y # ys)"

lemma split_byte_nonempty [simp]: "split_byte c s \<noteq> []"
  by (cases s) auto

lemma join_Cons: "xs \<noteq> [] \<Longrightarrow> join sep (x # xs) = x @ sep @ join sep xs"
  by (cases xs) auto

lemma join_split_byte: "join [c] (split_byte c s) = s"
proof (induction s)
  case Nil
  then show ?case by simp
next
  case (Cons x s)
  obtain y ys where y: "split_byte c s = y # ys"
    by (meson neq_Nil_conv split_byte_nonempty)
  with Cons show ?case by (cases ys) (auto simp: join_Cons)
qed

lemma split_byte_no_sep: "p \<in> set (split_byte c s) \<Longrightarrow> c \<notin> set p"
proof (induction s arbitrary: p)
  case Nil
  then show ?case by simp
next
  case (Cons x s)
  obtain y ys where "split_byte c s = y # ys"
    by (meson neq_Nil_conv split_byte_nonempty)
  with Cons show ?case by (auto split: if_splits)
qed

lemma split_byte_none: "c \<notin> set s \<Longrightarrow> split_byte c s = [s]"
  by (induction s) auto

lemma split_byte_append:
  "c \<notin> set p \<Longrightarrow> split_byte c (p @ c # s) = p # split_byte c s"
  by (induction p) auto

lemma split_n_three:
  assumes "c \<notin> set a" and "c \<notin> set b"
  shows "split_n 3 c (a @ c # b @ c # d) = [a, b, d]"
  using assms by (simp add: numeral_3_eq_3 index_byte_append)

subsection \<open>Lines\<close>

text \<open>
  The lines a \<open>bufio.Scanner\<close> delivers: without the line end and a carriage return in front of it,
  up to the first line that fills its buffer of 65536 bytes.
\<close>

definition scanLines :: "string \<Rightarrow> string list" where
  "scanLines text =
     (let ls = split_byte (CHR 0x0A) text;
          raw = (if last ls = [] then butlast ls else ls) in
      map (\<lambda>l. trim_suffix l [CHR 0x0D]) (takeWhile (\<lambda>l. length l < 65536) raw))"

subsection \<open>Numbers\<close>

text \<open>
  \<open>strconv.Atoi\<close>: an optional sign and decimal digits. The result is the number, or the nearest
  64-bit value together with a range error, or a syntax error (with the value 0).
\<close>

datatype atoi_result = AtoiOk int | AtoiRange int | AtoiSyntax

fun digits_val :: "nat \<Rightarrow> string \<Rightarrow> nat option" where
  "digits_val acc [] = Some acc"
| "digits_val acc (c # cs) =
     (if 48 \<le> byte c \<and> byte c \<le> 57 then digits_val (acc * 10 + (byte c - 48)) cs else None)"

definition atoi_digits :: "bool \<Rightarrow> string \<Rightarrow> atoi_result" where
  "atoi_digits negative ds =
     (if ds = [] then AtoiSyntax
      else (case digits_val 0 ds of
          None \<Rightarrow> AtoiSyntax
        | Some n \<Rightarrow>
            if negative then
              (if min_int64 \<le> - int n then AtoiOk (- int n) else AtoiRange min_int64)
            else (if int n \<le> max_int64 then AtoiOk (int n) else AtoiRange max_int64)))"

definition atoi :: "string \<Rightarrow> atoi_result" where
  "atoi s =
     (case s of
        [] \<Rightarrow> AtoiSyntax
      | c # cs \<Rightarrow>
          if c = CHR ''-'' then atoi_digits True cs
          else if c = CHR ''+'' then atoi_digits False cs
          else atoi_digits False s)"

text \<open>The value when the error is dropped, and the value when there is no error.\<close>

fun atoi_value :: "atoi_result \<Rightarrow> int" where
  "atoi_value (AtoiOk n) = n"
| "atoi_value (AtoiRange n) = n"
| "atoi_value AtoiSyntax = 0"

fun atoi_ok :: "atoi_result \<Rightarrow> int option" where
  "atoi_ok (AtoiOk n) = Some n"
| "atoi_ok _ = None"

lemma atoi_digits_bounds:
  "min_int64 \<le> atoi_value (atoi_digits neg s) \<and> atoi_value (atoi_digits neg s) \<le> max_int64"
  by (auto simp: atoi_digits_def min_int64_def max_int64_def split: option.splits)

lemma atoi_bounds: "min_int64 \<le> atoi_value (atoi s) \<and> atoi_value (atoi s) \<le> max_int64"
  by (auto simp: atoi_def atoi_digits_bounds split: list.split)
    (auto simp: min_int64_def max_int64_def)

lemma atoi_ok_value: "atoi_ok r = Some n \<Longrightarrow> atoi_value r = n"
  by (cases r) auto

lemma atoi_ok_bounds: "atoi_ok (atoi s) = Some n \<Longrightarrow> min_int64 \<le> n \<and> n \<le> max_int64"
  using atoi_bounds [of s] atoi_ok_value [of "atoi s" n] by simp

text \<open>Printing a number and reading it back.\<close>

fun decimal :: "nat \<Rightarrow> string" where
  "decimal n = (if n < 10 then [char_of (48 + n)] else decimal (n div 10) @ [char_of (48 + n mod 10)])"

declare decimal.simps [simp del]

lemma digits_val_append: "digits_val acc (s @ t) = Option.bind (digits_val acc s) (\<lambda>v. digits_val v t)"
  by (induction s arbitrary: acc) auto

lemma digits_val_decimal: "digits_val 0 (decimal n) = Some n"
proof (induction n rule: decimal.induct)
  case (1 n)
  show ?case
  proof (cases "n < 10")
    case True
    then show ?thesis by (subst decimal.simps) simp
  next
    case False
    with 1 have "digits_val 0 (decimal (n div 10)) = Some (n div 10)" by simp
    moreover have "n mod 10 < 10" by simp
    moreover have "byte (char_of (48 + n mod 10) :: char) = 48 + n mod 10"
      by (rule byte_char_of) (use \<open>n mod 10 < 10\<close> in linarith)
    ultimately show ?thesis
      using False by (simp add: decimal.simps [of n] digits_val_append)
  qed
qed

lemma decimal_digits: "c \<in> set (decimal n) \<Longrightarrow> 48 \<le> byte c \<and> byte c \<le> 57"
proof (induction n rule: decimal.induct)
  case (1 n)
  have m: "n mod 10 < 10" by simp
  have b: "byte (char_of (48 + n mod 10) :: char) = 48 + n mod 10"
    by (rule byte_char_of) (use m in linarith)
  show ?case
  proof (cases "n < 10")
    case True
    with "1.prems" show ?thesis by (subst (asm) decimal.simps) simp
  next
    case False
    with "1.prems" consider "c \<in> set (decimal (n div 10))" | "c = char_of (48 + n mod 10)"
      by (auto simp: decimal.simps [of n])
    then show ?thesis
    proof cases
      case 1
      with "1.IH" [OF False] show ?thesis by blast
    next
      case 2
      with b m show ?thesis by simp
    qed
  qed
qed

lemma decimal_nonempty [simp]: "decimal n \<noteq> []"
  by (subst decimal.simps) simp

lemma atoi_decimal:
  assumes "int n \<le> max_int64"
  shows "atoi (decimal n) = AtoiOk (int n)"
proof -
  obtain c cs where c: "decimal n = c # cs" by (meson decimal_nonempty neq_Nil_conv)
  then have "48 \<le> byte c" using decimal_digits [of c n] by simp
  then have "c \<noteq> CHR ''-''" "c \<noteq> CHR ''+''" by auto
  moreover have "atoi_digits False (decimal n) = AtoiOk (int n)"
    using assms by (simp add: atoi_digits_def digits_val_decimal)
  ultimately show ?thesis using c by (simp add: atoi_def)
qed

end
