(* ===== verification/ScreenBuffer.thy ===== *)
theory ScreenBuffer
  imports GoStrings
begin

text \<open>
  The terminal screen model of \<open>internal/util/screenbuffer/screenbuffer.go\<close>: a state machine
  that consumes the bytes of a pseudo terminal and keeps a grid of runes, a cursor, a saved
  cursor, a scrollback and, while the alternate screen is shown, a copy of the primary one.
  The record mirrors the struct \<open>Buffer\<close> (its mutex left out: every exported operation holds it
  from start to end). Every index into the grid is checked: out of range is \<open>Panics\<close>. The loop
  of the tab character is a \<open>while_option\<close>, and a loop that does not end is \<open>Hangs\<close>.
\<close>

subsection \<open>State\<close>

datatype pstate = StNormal | StEsc | StCsi | StOsc | StEscString | StEscCharset

type_synonym grid = "rune list list"

record buffer =
  maxLines :: int
  rows :: int
  cols :: int
  grid :: grid
  cursorRow :: int
  cursorCol :: int
  savedRow :: int
  savedCol :: int
  scrollback :: "string list"
  altScreen :: bool
  primaryGrid :: "grid option"
  primaryCursorRow :: int
  primaryCursorCol :: int
  primarySavedRow :: int
  primarySavedCol :: int
  primaryScrollback :: "string list"
  pst :: pstate
  csiBuffer :: string
  oscEsc :: bool

definition sanitizeSize :: "int \<Rightarrow> int \<Rightarrow> int \<times> int" where
  "sanitizeSize r c = (if r \<le> 0 then 24 else r, if c \<le> 0 then 80 else c)"

definition blankRow :: "int \<Rightarrow> rune list" where
  "blankRow c = replicate (nat c) 32"

definition makeScreen :: "int \<Rightarrow> int \<Rightarrow> grid" where
  "makeScreen r c = replicate (nat r) (blankRow c)"

definition newWithSize :: "int \<Rightarrow> int \<Rightarrow> int \<Rightarrow> buffer" where
  "newWithSize ml r0 c0 =
     (let (r, c) = sanitizeSize r0 c0 in
      \<lparr>maxLines = ml, rows = r, cols = c, grid = makeScreen r c,
       cursorRow = 0, cursorCol = 0, savedRow = 0, savedCol = 0, scrollback = [],
       altScreen = False, primaryGrid = None, primaryCursorRow = 0, primaryCursorCol = 0,
       primarySavedRow = 0, primarySavedCol = 0, primaryScrollback = [],
       pst = StNormal, csiBuffer = [], oscEsc = False\<rparr>)"

definition newBuffer :: "int \<Rightarrow> buffer" where
  "newBuffer ml = newWithSize ml 24 80"

subsection \<open>Cells, cursor, scrolling\<close>

text \<open>The assignment \<open>self.screen[row][col] = value\<close>, with Go's bounds checks.\<close>

definition setCell :: "int \<Rightarrow> rune \<Rightarrow> int \<Rightarrow> buffer \<Rightarrow> buffer outcome" where
  "setCell r v c b =
     (if 0 \<le> r \<and> r < int (length (grid b)) \<and> 0 \<le> c \<and> c < int (length (grid b ! nat r))
      then Done (b\<lparr>grid := (grid b)[nat r := (grid b ! nat r)[nat c := v]]\<rparr>)
      else Panics)"

definition clampCursor :: "buffer \<Rightarrow> buffer" where
  "clampCursor b =
     (let r0 = (if cursorRow b < 0 then 0 else cursorRow b);
          c0 = (if cursorCol b < 0 then 0 else cursorCol b)
      in b\<lparr>cursorRow := (if r0 \<ge> rows b then rows b - 1 else r0),
           cursorCol := (if c0 \<ge> cols b then cols b - 1 else c0)\<rparr>)"

definition appendScrollback :: "string \<Rightarrow> buffer \<Rightarrow> buffer" where
  "appendScrollback line b =
     (if maxLines b \<le> 0 then b
      else b\<lparr>scrollback := last_n (nat (maxLines b)) (scrollback b @ [line])\<rparr>)"

definition trimRightSpaces :: "rune list \<Rightarrow> rune list" where
  "trimRightSpaces row = rev (dropWhile (\<lambda>r. r = 32) (rev row))"

definition rowText :: "rune list \<Rightarrow> string" where
  "rowText row = string_of_runes (trimRightSpaces row)"

text \<open>
  \<open>lineFeed\<close>: in the last row the first row moves to the scrollback, the others move up (the
  \<open>copy\<close>) and the last row becomes blank. \<open>self.screen[0]\<close> and \<open>self.screen[self.rows-1]\<close> are checked.
\<close>

definition lineFeed :: "buffer \<Rightarrow> buffer outcome" where
  "lineFeed b =
     (if cursorRow b = rows b - 1 then
        (case grid b of
           [] \<Rightarrow> Panics
         | row0 # rest \<Rightarrow>
             (let b1 = appendScrollback (rowText row0) b;
                  shifted = rest @ [last (row0 # rest)]
              in if 0 \<le> rows b - 1 \<and> rows b - 1 < int (length shifted)
                 then Done (b1\<lparr>grid := shifted[nat (rows b - 1) := blankRow (cols b)]\<rparr>)
                 else Panics))
      else Done (b\<lparr>cursorRow := cursorRow b + 1\<rparr>))"

definition putRune :: "rune \<Rightarrow> buffer \<Rightarrow> buffer outcome" where
  "putRune v b0 =
     (let b = clampCursor b0 in
      and_then (setCell (cursorRow b) v (cursorCol b) b)
        (\<lambda>b1. let b2 = b1\<lparr>cursorCol := cursorCol b1 + 1\<rparr> in
           if cursorCol b2 \<ge> cols b2 then lineFeed (b2\<lparr>cursorCol := 0\<rparr>) else Done b2))"

definition reverseIndex :: "buffer \<Rightarrow> buffer" where
  "reverseIndex b =
     (if cursorRow b > 0 then b\<lparr>cursorRow := cursorRow b - 1\<rparr>
      else (let g = blankRow (cols b) # grid b in
        b\<lparr>grid := (if int (length g) > rows b then take (nat (rows b)) g else g)\<rparr>))"

definition reset :: "buffer \<Rightarrow> buffer" where
  "reset b = b\<lparr>grid := makeScreen (rows b) (cols b), cursorRow := 0, cursorCol := 0,
     savedRow := 0, savedCol := 0, scrollback := [], pst := StNormal, csiBuffer := [],
     oscEsc := False\<rparr>"

subsection \<open>Erasing\<close>

definition blankCells :: "int \<Rightarrow> int list \<Rightarrow> buffer \<Rightarrow> buffer outcome" where
  "blankCells r cs b = for_each (\<lambda>c. setCell r 32 c) cs b"

definition blankRows :: "int list \<Rightarrow> buffer \<Rightarrow> buffer outcome" where
  "blankRows rs b = for_each (\<lambda>r b1. blankCells r [0..cols b1 - 1] b1) rs b"

definition eraseLine :: "int \<Rightarrow> buffer \<Rightarrow> buffer outcome" where
  "eraseLine mode b0 =
     (let b = clampCursor b0 in
      if mode = 0 then blankCells (cursorRow b) [cursorCol b..cols b - 1] b
      else if mode = 1 then blankCells (cursorRow b) [0..min (cursorCol b) (cols b - 1)] b
      else blankCells (cursorRow b) [0..cols b - 1] b)"

definition eraseDisplay :: "int \<Rightarrow> buffer \<Rightarrow> buffer outcome" where
  "eraseDisplay mode b =
     (if mode = 0 then
        and_then (eraseLine 0 b) (\<lambda>b1. blankRows [cursorRow b1 + 1..rows b1 - 1] b1)
      else if mode = 1 then
        and_then (blankRows [0..cursorRow b - 1] b)
          (\<lambda>b1. blankCells (cursorRow b1) [0..min (cursorCol b1) (cols b1 - 1)] b1)
      else blankRows [0..rows b - 1] b)"

subsection \<open>The alternate screen\<close>

definition enterAltScreen :: "buffer \<Rightarrow> buffer" where
  "enterAltScreen b =
     (if altScreen b then b
      else b\<lparr>primaryGrid := Some (grid b), primaryCursorRow := cursorRow b,
             primaryCursorCol := cursorCol b, primarySavedRow := savedRow b,
             primarySavedCol := savedCol b, primaryScrollback := scrollback b,
             altScreen := True, grid := makeScreen (rows b) (cols b),
             cursorRow := 0, cursorCol := 0, savedRow := 0, savedCol := 0, scrollback := []\<rparr>)"

definition exitAltScreen :: "buffer \<Rightarrow> buffer" where
  "exitAltScreen b =
     (if \<not> altScreen b then b
      else clampCursor
        (b\<lparr>grid := (case primaryGrid b of None \<Rightarrow> grid b | Some g \<Rightarrow> g),
           cursorRow := primaryCursorRow b, cursorCol := primaryCursorCol b,
           savedRow := primarySavedRow b, savedCol := primarySavedCol b,
           scrollback := primaryScrollback b,
           primaryGrid := None, primaryScrollback := [], altScreen := False\<rparr>))"

text \<open>The loop of \<open>handlePrivateMode\<close> over the parameters.\<close>

definition privateMode1 :: "bool \<Rightarrow> int \<Rightarrow> buffer \<Rightarrow> buffer" where
  "privateMode1 enable p b =
     (if p \<in> {47, 1047, 1049} then (if enable then enterAltScreen b else exitAltScreen b) else b)"

definition handlePrivateMode :: "bool \<Rightarrow> int list \<Rightarrow> buffer \<Rightarrow> buffer" where
  "handlePrivateMode enable ps b = fold (privateMode1 enable) ps b"

subsection \<open>Control sequences\<close>

definition parseCsiParameters :: "string \<Rightarrow> int list" where
  "parseCsiParameters v =
     (if v = [] then [0]
      else map (\<lambda>part. if part = [] then 0
                       else (case atoi_ok (atoi part) of None \<Rightarrow> 0 | Some n \<Rightarrow> n))
             (split_byte (CHR '';'') v))"

definition getParameter :: "int list \<Rightarrow> nat \<Rightarrow> int \<Rightarrow> int" where
  "getParameter ps i fallback = (if i \<ge> length ps then fallback else ps ! i)"

text \<open>
  \<open>csiParts\<close> is the first half of \<open>handleCsi\<close>: the optional private prefix byte, and the
  parameters up to the first intermediate byte (0x20 to 0x2f).
\<close>

definition csiParts :: "string \<Rightarrow> string \<times> int list" where
  "csiParts raw0 =
     (let (prefix, raw) =
        (case raw0 of
           [] \<Rightarrow> ([], [])
         | p # rest \<Rightarrow> if p \<in> {CHR ''?'', CHR ''>'', CHR ''!'', CHR ''=''} then ([p], rest)
                        else ([], raw0));
          part = (case first_index (\<lambda>c. 32 \<le> byte c \<and> byte c \<le> 47) raw of
                    None \<Rightarrow> raw | Some i \<Rightarrow> take i raw)
      in (prefix, parseCsiParameters part))"

definition arg1 :: "int list \<Rightarrow> nat \<Rightarrow> int" where
  "arg1 ps i = max 1 (getParameter ps i 1)"

text \<open>The switch of \<open>handleCsi\<close> on the final byte; cursor arithmetic is 64-bit.\<close>

definition csiAction :: "char \<Rightarrow> string \<Rightarrow> int list \<Rightarrow> buffer \<Rightarrow> buffer outcome" where
  "csiAction final prefix ps b =
     (if final = CHR ''A'' then Done (b\<lparr>cursorRow := wrap64 (cursorRow b - arg1 ps 0)\<rparr>)
      else if final = CHR ''B'' then Done (b\<lparr>cursorRow := wrap64 (cursorRow b + arg1 ps 0)\<rparr>)
      else if final = CHR ''C'' then Done (b\<lparr>cursorCol := wrap64 (cursorCol b + arg1 ps 0)\<rparr>)
      else if final = CHR ''D'' then Done (b\<lparr>cursorCol := wrap64 (cursorCol b - arg1 ps 0)\<rparr>)
      else if final = CHR ''E'' then
        Done (b\<lparr>cursorRow := wrap64 (cursorRow b + arg1 ps 0), cursorCol := 0\<rparr>)
      else if final = CHR ''F'' then
        Done (b\<lparr>cursorRow := wrap64 (cursorRow b - arg1 ps 0), cursorCol := 0\<rparr>)
      else if final = CHR ''G'' then Done (b\<lparr>cursorCol := arg1 ps 0 - 1\<rparr>)
      else if final = CHR ''d'' then Done (b\<lparr>cursorRow := arg1 ps 0 - 1\<rparr>)
      else if final \<in> {CHR ''H'', CHR ''f''} then
        Done (b\<lparr>cursorRow := arg1 ps 0 - 1, cursorCol := arg1 ps 1 - 1\<rparr>)
      else if final = CHR ''J'' then eraseDisplay (getParameter ps 0 0) b
      else if final = CHR ''K'' then eraseLine (getParameter ps 0 0) b
      else if final = CHR ''s'' then Done (b\<lparr>savedRow := cursorRow b, savedCol := cursorCol b\<rparr>)
      else if final = CHR ''u'' then Done (b\<lparr>cursorRow := savedRow b, cursorCol := savedCol b\<rparr>)
      else if final \<in> {CHR ''h'', CHR ''l''} then
        Done (if prefix = ''?'' then handlePrivateMode (final = CHR ''h'') ps b else b)
      else Done b)"

definition handleCsi :: "char \<Rightarrow> string \<Rightarrow> buffer \<Rightarrow> buffer outcome" where
  "handleCsi final raw b =
     (let (prefix, ps) = csiParts raw in
      and_then (csiAction final prefix ps b) (\<lambda>b1. Done (clampCursor b1)))"

subsection \<open>The byte-by-byte parser\<close>

definition consumeCsi :: "char \<Rightarrow> buffer \<Rightarrow> buffer outcome" where
  "consumeCsi x b =
     (if 64 \<le> byte x \<and> byte x \<le> 126 then
        and_then (handleCsi x (csiBuffer b) b)
          (\<lambda>b1. Done (b1\<lparr>csiBuffer := [], pst := StNormal\<rparr>))
      else Done (b\<lparr>csiBuffer := csiBuffer b @ [x]\<rparr>))"

definition consumeOsc :: "char \<Rightarrow> buffer \<Rightarrow> buffer" where
  "consumeOsc x b =
     (if byte x = 7 then b\<lparr>pst := StNormal, oscEsc := False\<rparr>
      else if oscEsc b then
        (let b1 = b\<lparr>oscEsc := False\<rparr> in if byte x = 92 then b1\<lparr>pst := StNormal\<rparr> else b1)
      else b\<lparr>oscEsc := (byte x = 27)\<rparr>)"

definition consumeEscString :: "char \<Rightarrow> buffer \<Rightarrow> buffer" where
  "consumeEscString x b =
     (if oscEsc b then
        (let b1 = b\<lparr>oscEsc := False\<rparr> in if byte x = 92 then b1\<lparr>pst := StNormal\<rparr> else b1)
      else b\<lparr>oscEsc := (byte x = 27)\<rparr>)"

definition toNormal :: "buffer \<Rightarrow> buffer outcome" where
  "toNormal b = Done (b\<lparr>pst := StNormal\<rparr>)"

definition consumeEsc :: "char \<Rightarrow> buffer \<Rightarrow> buffer outcome" where
  "consumeEsc x b =
     (if x = CHR ''['' then Done (b\<lparr>pst := StCsi, csiBuffer := []\<rparr>)
      else if x = CHR '']'' then Done (b\<lparr>pst := StOsc, oscEsc := False\<rparr>)
      else if x \<in> {CHR ''P'', CHR ''^'', CHR ''_''} then
        Done (b\<lparr>pst := StEscString, oscEsc := False\<rparr>)
      else if x \<in> {CHR ''('', CHR '')'', CHR ''*'', CHR ''+'', CHR ''-'', CHR ''.'', CHR ''/''}
      then Done (b\<lparr>pst := StEscCharset\<rparr>)
      else if x = CHR ''7'' then
        toNormal (b\<lparr>savedRow := cursorRow b, savedCol := cursorCol b\<rparr>)
      else if x = CHR ''8'' then
        toNormal (clampCursor (b\<lparr>cursorRow := savedRow b, cursorCol := savedCol b\<rparr>))
      else if x = CHR ''D'' then and_then (lineFeed b) toNormal
      else if x = CHR ''E'' then and_then (lineFeed (b\<lparr>cursorCol := 0\<rparr>)) toNormal
      else if x = CHR ''M'' then toNormal (reverseIndex b)
      else if x = CHR ''c'' then toNormal (reset b)
      else toNormal b)"

text \<open>
  The tab loop \<open>for self.cursorCol < nextStop { self.putRune(' ') }\<close>: it stops when the guard
  fails or when its body panics; with no such iteration it never ends.
\<close>

fun tabGuard :: "int \<Rightarrow> buffer outcome \<Rightarrow> bool" where
  "tabGuard stop (Done b) = (cursorCol b < stop)"
| "tabGuard stop _ = False"

definition tabLoop :: "int \<Rightarrow> buffer \<Rightarrow> buffer outcome" where
  "tabLoop stop b =
     (case while_option (tabGuard stop) (\<lambda>r. and_then r (putRune 32)) (Done b) of
        None \<Rightarrow> Hangs
      | Some r \<Rightarrow> r)"

definition nextStop :: "buffer \<Rightarrow> int" where
  "nextStop b = (cursorCol b div 8 + 1) * 8"

definition consumeNormal :: "char \<Rightarrow> buffer \<Rightarrow> buffer outcome" where
  "consumeNormal x b =
     (if byte x = 27 then Done (b\<lparr>pst := StEsc\<rparr>)
      else if byte x = 155 then Done (b\<lparr>pst := StCsi, csiBuffer := []\<rparr>)
      else if byte x = 10 then and_then (lineFeed b) (\<lambda>b1. Done (b1\<lparr>cursorCol := 0\<rparr>))
      else if byte x = 13 then Done (b\<lparr>cursorCol := 0\<rparr>)
      else if byte x = 8 then
        Done (if cursorCol b > 0 then b\<lparr>cursorCol := cursorCol b - 1\<rparr> else b)
      else if byte x = 9 then tabLoop (nextStop b) b
      else if byte x \<in> {14, 15} then Done b
      else if 32 \<le> byte x \<and> byte x \<noteq> 127 then putRune (byte x) b
      else Done b)"

definition writeByte :: "char \<Rightarrow> buffer \<Rightarrow> buffer outcome" where
  "writeByte x b =
     (case pst b of
        StEsc \<Rightarrow> consumeEsc x b
      | StCsi \<Rightarrow> consumeCsi x b
      | StOsc \<Rightarrow> Done (consumeOsc x b)
      | StEscString \<Rightarrow> Done (consumeEscString x b)
      | StEscCharset \<Rightarrow> Done (b\<lparr>pst := StNormal\<rparr>)
      | StNormal \<Rightarrow> consumeNormal x b)"

definition writeBytes :: "string \<Rightarrow> buffer \<Rightarrow> buffer outcome" where
  "writeBytes input b = for_each writeByte input b"

subsection \<open>Screenshot and resize\<close>

definition renderScreenLines :: "grid \<Rightarrow> string list" where
  "renderScreenLines g = map rowText g"

definition dropBlankTail :: "string list \<Rightarrow> string list" where
  "dropBlankTail ls = rev (dropWhile (\<lambda>l. l = []) (rev ls))"

definition keepLast :: "int \<Rightarrow> 'a list \<Rightarrow> 'a list" where
  "keepLast n xs = (if n > 0 \<and> int (length xs) > n then last_n (nat n) xs else xs)"

definition screenshotLines :: "int \<Rightarrow> buffer \<Rightarrow> string list" where
  "screenshotLines ml b =
     keepLast ml (keepLast (maxLines b)
       (dropBlankTail (scrollback b @ renderScreenLines (grid b))))"

definition screenshot :: "int \<Rightarrow> buffer \<Rightarrow> string" where
  "screenshot ml b = join [CHR 0x0A] (screenshotLines ml b)"

definition resizeScreen :: "grid \<Rightarrow> int \<Rightarrow> int \<Rightarrow> int \<Rightarrow> int \<Rightarrow> grid" where
  "resizeScreen g oldRows oldCols newRows newCols =
     map (\<lambda>r. map (\<lambda>c.
         if int r < min (min oldRows (int (length g))) newRows
            \<and> int c < min (min oldCols (int (length (g ! r)))) newCols
         then g ! r ! c else 32) [0..<nat newCols]) [0..<nat newRows]"

definition clampTo :: "int \<Rightarrow> int \<Rightarrow> int" where
  "clampTo n x = (if x \<ge> n then n - 1 else x)"

definition resize :: "int \<Rightarrow> int \<Rightarrow> buffer \<Rightarrow> buffer" where
  "resize r0 c0 b =
     (let (r, c) = sanitizeSize r0 c0 in
      if r = rows b \<and> c = cols b then b
      else
        (let b1 = b\<lparr>grid := resizeScreen (grid b) (rows b) (cols b) r c,
                    primaryGrid := map_option (\<lambda>g. resizeScreen g (rows b) (cols b) r c)
                      (primaryGrid b),
                    rows := r, cols := c,
                    cursorRow := clampTo r (cursorRow b), cursorCol := clampTo c (cursorCol b),
                    savedRow := clampTo r (savedRow b), savedCol := clampTo c (savedCol b)\<rparr>
         in if primaryGrid b1 \<noteq> None
            then b1\<lparr>primaryCursorRow := clampTo r (primaryCursorRow b1),
                    primaryCursorCol := clampTo c (primaryCursorCol b1),
                    primarySavedRow := clampTo r (primarySavedRow b1),
                    primarySavedCol := clampTo c (primarySavedCol b1)\<rparr>
            else b1))"

end
