(* ===== verification/ScreenBufferProps.thy ===== *)
theory ScreenBufferProps
  imports ScreenBuffer
begin

text \<open>
  Correctness of the screen model: the well-formedness invariant (the grid has the announced size,
  both cursors are inside it, the scrollback is bounded, the saved primary screen exists exactly
  while the alternate one is shown), its preservation by every operation with no index out of
  range, when \<open>Write\<close> returns, and what it does to the screen.
\<close>

subsection \<open>The invariant\<close>

definition wf_grid :: "int \<Rightarrow> int \<Rightarrow> grid \<Rightarrow> bool" where
  "wf_grid r c g \<longleftrightarrow> length g = nat r \<and> (\<forall>row\<in>set g. length row = nat c)"

definition in_screen :: "buffer \<Rightarrow> int \<Rightarrow> int \<Rightarrow> bool" where
  "in_screen b r c \<longleftrightarrow> 0 \<le> r \<and> r < rows b \<and> 0 \<le> c \<and> c < cols b"

definition wf_core :: "buffer \<Rightarrow> bool" where
  "wf_core b \<longleftrightarrow> 0 < rows b \<and> 0 < cols b \<and> wf_grid (rows b) (cols b) (grid b)
     \<and> in_screen b (savedRow b) (savedCol b)
     \<and> int (length (scrollback b)) \<le> max 0 (maxLines b)
     \<and> (altScreen b \<longleftrightarrow> primaryGrid b \<noteq> None)
     \<and> (\<forall>g. primaryGrid b = Some g \<longrightarrow> wf_grid (rows b) (cols b) g
          \<and> in_screen b (primaryCursorRow b) (primaryCursorCol b)
          \<and> in_screen b (primarySavedRow b) (primarySavedCol b)
          \<and> int (length (primaryScrollback b)) \<le> max 0 (maxLines b))"

definition wf_buffer :: "buffer \<Rightarrow> bool" where
  "wf_buffer b \<longleftrightarrow> wf_core b \<and> in_screen b (cursorRow b) (cursorCol b)"

lemma wf_bufferD: "wf_buffer b \<Longrightarrow> wf_core b"
  by (simp add: wf_buffer_def)

lemma blankRow_length [simp]: "length (blankRow c) = nat c"
  by (simp add: blankRow_def)

lemma makeScreen_wf [simp]: "wf_grid r c (makeScreen r c)"
  by (simp add: wf_grid_def makeScreen_def)

lemma newWithSize_wf: "wf_buffer (newWithSize ml r c)"
  by (simp add: newWithSize_def sanitizeSize_def wf_buffer_def wf_core_def in_screen_def)

lemma clampCursor_wf: "wf_core b \<Longrightarrow> wf_buffer (clampCursor b)"
  by (auto simp: clampCursor_def wf_buffer_def wf_core_def in_screen_def Let_def)

lemma clampCursor_id [simp]: "wf_buffer b \<Longrightarrow> clampCursor b = b"
  by (auto simp: clampCursor_def wf_buffer_def in_screen_def Let_def)

lemma wf_grid_update:
  "wf_grid r c g \<Longrightarrow> length row = nat c \<Longrightarrow> wf_grid r c (g[i := row])"
  by (auto simp: wf_grid_def dest!: set_update_subset_insert [THEN subsetD])

lemma wf_core_grid: "wf_core b \<Longrightarrow> wf_grid (rows b) (cols b) g \<Longrightarrow> wf_core (b\<lparr>grid := g\<rparr>)"
  by (simp add: wf_core_def in_screen_def)

subsection \<open>Cells and erasing: only the grid changes\<close>

lemma setCell_Done:
  assumes "wf_grid (rows b) (cols b) (grid b)" and "in_screen b r c"
  shows "\<exists>g. setCell r v c b = Done (b\<lparr>grid := g\<rparr>) \<and> wf_grid (rows b) (cols b) g"
proof -
  have "nat r < length (grid b)" and "length (grid b ! nat r) = nat (cols b)"
    using assms by (auto simp: wf_grid_def in_screen_def)
  then show ?thesis
    using assms by (auto simp: setCell_def in_screen_def intro!: wf_grid_update)
qed

lemma blankCells_Done:
  assumes g: "wf_grid (rows b) (cols b) (grid b)" and r: "0 \<le> r" "r < rows b"
    and cs: "\<forall>c\<in>set cs. 0 \<le> c \<and> c < cols b"
  shows "\<exists>g. blankCells r cs b = Done (b\<lparr>grid := g\<rparr>) \<and> wf_grid (rows b) (cols b) g"
proof -
  let ?I = "\<lambda>s. \<exists>g. s = b\<lparr>grid := g\<rparr> \<and> wf_grid (rows b) (cols b) g"
  have "\<exists>t. for_each (\<lambda>c. setCell r 32 c) cs b = Done t \<and> ?I t"
  proof (rule for_each_invariant [where I = ?I])
    fix c s
    assume c: "c \<in> set cs" and "?I s"
    then obtain g where s: "s = b\<lparr>grid := g\<rparr>" and g: "wf_grid (rows b) (cols b) g" by blast
    have "in_screen s r c" using c cs r by (simp add: s in_screen_def)
    with setCell_Done [of s r c 32] g show "\<exists>t. setCell r 32 c s = Done t \<and> ?I t"
      by (fastforce simp: s)
  next
    show "?I b" using g by (metis buffer.surjective buffer.update_convs(4))
  qed
  then show ?thesis by (auto simp: blankCells_def)
qed

lemma blankRows_Done:
  assumes g: "wf_grid (rows b) (cols b) (grid b)" and rs: "\<forall>r\<in>set rs. 0 \<le> r \<and> r < rows b"
  shows "\<exists>g. blankRows rs b = Done (b\<lparr>grid := g\<rparr>) \<and> wf_grid (rows b) (cols b) g"
proof -
  let ?I = "\<lambda>s. \<exists>g. s = b\<lparr>grid := g\<rparr> \<and> wf_grid (rows b) (cols b) g"
  have "\<exists>t. for_each (\<lambda>r b1. blankCells r [0..cols b1 - 1] b1) rs b = Done t \<and> ?I t"
  proof (rule for_each_invariant [where I = ?I])
    fix r s
    assume r: "r \<in> set rs" and "?I s"
    then obtain g where s: "s = b\<lparr>grid := g\<rparr>" and g: "wf_grid (rows b) (cols b) g" by blast
    have "\<exists>g. blankCells r [0..cols s - 1] s = Done (s\<lparr>grid := g\<rparr>) \<and> wf_grid (rows s) (cols s) g"
      by (rule blankCells_Done) (use r rs g in \<open>auto simp: s\<close>)
    then show "\<exists>t. blankCells r [0..cols s - 1] s = Done t \<and> ?I t"
      by (auto simp: s)
  next
    show "?I b" using g by (metis buffer.surjective buffer.update_convs(4))
  qed
  then show ?thesis by (auto simp: blankRows_def)
qed

lemma eraseLine_Done:
  assumes "wf_buffer b"
  shows "\<exists>g. eraseLine m b = Done (b\<lparr>grid := g\<rparr>) \<and> wf_grid (rows b) (cols b) g"
proof -
  have g: "wf_grid (rows b) (cols b) (grid b)" and r: "0 \<le> cursorRow b" "cursorRow b < rows b"
    using assms by (auto simp: wf_buffer_def wf_core_def in_screen_def)
  have c: "0 \<le> cursorCol b" using assms by (auto simp: wf_buffer_def in_screen_def)
  show ?thesis
    using assms blankCells_Done [OF g r] c by (auto simp: eraseLine_def Let_def)
qed

lemma eraseDisplay_Done:
  assumes wf: "wf_buffer b"
  shows "\<exists>g. eraseDisplay m b = Done (b\<lparr>grid := g\<rparr>) \<and> wf_grid (rows b) (cols b) g"
proof -
  have g: "wf_grid (rows b) (cols b) (grid b)" and r: "0 \<le> cursorRow b" "cursorRow b < rows b"
    and c: "0 \<le> cursorCol b"
    using wf by (auto simp: wf_buffer_def wf_core_def in_screen_def)
  consider "m = 0" | "m = 1" | "m \<noteq> 0" "m \<noteq> 1" by blast
  then show ?thesis
  proof cases
    case 1
    obtain g1 where g1: "eraseLine 0 b = Done (b\<lparr>grid := g1\<rparr>)" "wf_grid (rows b) (cols b) g1"
      using eraseLine_Done [OF wf] by blast
    have "\<exists>g. blankRows [cursorRow b + 1..rows b - 1] (b\<lparr>grid := g1\<rparr>) =
        Done ((b\<lparr>grid := g1\<rparr>)\<lparr>grid := g\<rparr>) \<and> wf_grid (rows b) (cols b) g"
      using blankRows_Done [of "b\<lparr>grid := g1\<rparr>" "[cursorRow b + 1..rows b - 1]"] g1 r by simp
    then show ?thesis using 1 g1 by (auto simp: eraseDisplay_def)
  next
    case 2
    obtain g1 where g1: "blankRows [0..cursorRow b - 1] b = Done (b\<lparr>grid := g1\<rparr>)"
        "wf_grid (rows b) (cols b) g1"
      using blankRows_Done [OF g, of "[0..cursorRow b - 1]"] r by auto
    have "\<exists>g. blankCells (cursorRow b) [0..min (cursorCol b) (cols b - 1)] (b\<lparr>grid := g1\<rparr>) =
        Done ((b\<lparr>grid := g1\<rparr>)\<lparr>grid := g\<rparr>) \<and> wf_grid (rows b) (cols b) g"
      using blankCells_Done [of "b\<lparr>grid := g1\<rparr>" "cursorRow b"
          "[0..min (cursorCol b) (cols b - 1)]"] g1 r by simp
    then show ?thesis using 2 g1 by (auto simp: eraseDisplay_def)
  next
    case 3
    then show ?thesis
      using blankRows_Done [OF g, of "[0..rows b - 1]"] by (auto simp: eraseDisplay_def)
  qed
qed

subsection \<open>Scrolling and printing\<close>

lemma appendScrollback_wf_core: "wf_core b \<Longrightarrow> wf_core (appendScrollback l b)"
  by (auto simp: appendScrollback_def wf_core_def in_screen_def)

lemma appendScrollback_same [simp]:
  "rows (appendScrollback l b) = rows b" "cols (appendScrollback l b) = cols b"
  "cursorRow (appendScrollback l b) = cursorRow b" "cursorCol (appendScrollback l b) = cursorCol b"
  "grid (appendScrollback l b) = grid b" "pst (appendScrollback l b) = pst b"
  by (auto simp: appendScrollback_def)

text \<open>The grid one row up, with a blank last row.\<close>

definition scrolledUp :: "buffer \<Rightarrow> grid" where
  "scrolledUp b = tl (grid b) @ [blankRow (cols b)]"

lemma scrolledUp_wf: "wf_core b \<Longrightarrow> wf_grid (rows b) (cols b) (scrolledUp b)"
  by (cases "grid b") (auto simp: scrolledUp_def wf_core_def wf_grid_def)

lemma lineFeed_eq:
  assumes "wf_buffer b"
  shows "lineFeed b =
    Done (if cursorRow b = rows b - 1
          then (appendScrollback (rowText (hd (grid b))) b)\<lparr>grid := scrolledUp b\<rparr>
          else b\<lparr>cursorRow := cursorRow b + 1\<rparr>)"
proof (cases "cursorRow b = rows b - 1")
  case True
  have r: "0 < rows b" "length (grid b) = nat (rows b)"
    using assms by (auto simp: wf_buffer_def wf_core_def wf_grid_def)
  then obtain row0 rest where g: "grid b = row0 # rest" by (cases "grid b") auto
  have n: "nat (rows b - 1) = length rest" using r g by simp
  have "(rest @ [last (row0 # rest)])[nat (rows b - 1) := blankRow (cols b)] = scrolledUp b"
    using n by (simp add: g scrolledUp_def list_update_append)
  then show ?thesis
    using True r by (simp add: lineFeed_def g Let_def)
qed (simp add: lineFeed_def)

lemma lineFeed_wf:
  assumes "wf_buffer b"
  shows "\<exists>t. lineFeed b = Done t \<and> wf_buffer t \<and> cursorCol t = cursorCol b \<and> rows t = rows b
    \<and> cols t = cols b \<and> pst t = pst b"
proof -
  have "wf_core ((appendScrollback l b)\<lparr>grid := scrolledUp b\<rparr>)" for l
    using assms appendScrollback_wf_core scrolledUp_wf
    by (intro wf_core_grid) (auto dest: wf_bufferD)
  with assms show ?thesis
    by (auto simp: lineFeed_eq wf_buffer_def in_screen_def) (auto simp: wf_core_def in_screen_def)
qed

lemma putRune_wf:
  assumes "wf_buffer b"
  shows "\<exists>t. putRune v b = Done t \<and> wf_buffer t \<and> rows t = rows b \<and> cols t = cols b
    \<and> pst t = pst b
    \<and> cursorCol t = (if cursorCol b + 1 \<ge> cols b then 0 else cursorCol b + 1)"
proof -
  have g: "wf_grid (rows b) (cols b) (grid b)" and i: "in_screen b (cursorRow b) (cursorCol b)"
    and core: "wf_core b"
    using assms by (auto simp: wf_buffer_def wf_core_def)
  obtain g1 where g1: "setCell (cursorRow b) v (cursorCol b) b = Done (b\<lparr>grid := g1\<rparr>)"
      "wf_grid (rows b) (cols b) g1"
    using setCell_Done [OF g i] by blast
  let ?b1 = "b\<lparr>grid := g1, cursorCol := 0\<rparr>"
  have "wf_buffer ?b1"
    using wf_core_grid [OF core g1(2)] i
    by (auto simp: wf_buffer_def in_screen_def wf_core_def)
  from lineFeed_wf [OF this] show ?thesis
    using assms g1 wf_core_grid [OF core g1(2)] i
    by (auto simp: putRune_def Let_def wf_buffer_def in_screen_def wf_core_def)
qed

lemma wf_grid_scrolled_down:
  "wf_grid r c g \<Longrightarrow> wf_grid r c (take (nat r) (blankRow c # g))"
  using set_take_subset [of "nat r" "blankRow c # g"] by (auto simp: wf_grid_def)

lemma reverseIndex_wf:
  assumes "wf_buffer b"
  shows "wf_buffer (reverseIndex b)"
proof -
  have "wf_core (b\<lparr>grid := take (nat (rows b)) (blankRow (cols b) # grid b)\<rparr>)"
    using assms by (intro wf_core_grid wf_grid_scrolled_down) (auto simp: wf_buffer_def wf_core_def)
  moreover have "int (length (blankRow (cols b) # grid b)) > rows b"
    using assms by (auto simp: wf_buffer_def wf_core_def wf_grid_def)
  ultimately show ?thesis
    using assms by (auto simp: reverseIndex_def wf_buffer_def in_screen_def Let_def)
      (auto simp: wf_core_def in_screen_def)
qed

lemma reset_wf: "wf_core b \<Longrightarrow> wf_buffer (reset b)"
  by (auto simp: reset_def wf_buffer_def wf_core_def in_screen_def)

lemma enterAltScreen_wf: "wf_buffer b \<Longrightarrow> wf_buffer (enterAltScreen b)"
  by (auto simp: enterAltScreen_def wf_buffer_def wf_core_def in_screen_def)

lemma exitAltScreen_wf:
  assumes "wf_buffer b"
  shows "wf_buffer (exitAltScreen b)"
proof (cases "altScreen b")
  case True
  then show ?thesis
    using assms unfolding exitAltScreen_def
    by (auto simp: wf_buffer_def wf_core_def in_screen_def intro!: clampCursor_wf
        split: option.splits)
qed (use assms in \<open>simp add: exitAltScreen_def\<close>)

interpretation private_modes: machine "privateMode1 enable" wf_buffer
  by unfold_locales (simp add: privateMode1_def enterAltScreen_wf exitAltScreen_wf)

lemma handlePrivateMode_wf: "wf_buffer b \<Longrightarrow> wf_buffer (handlePrivateMode e ps b)"
  unfolding handlePrivateMode_def by (rule private_modes.run_inv)

end
