(* ===== verification/ScreenBufferWrite.thy ===== *)
theory ScreenBufferWrite
  imports ScreenBufferProps
begin

text \<open>
  The byte interpreter of \<open>Write\<close>: control sequences keep the invariant, a tab returns exactly when
  its tab stop lies inside the row, and so when a whole \<open>Write\<close> returns and in which state.
\<close>

subsection \<open>Control sequences\<close>

lemma wf_core_cursor [simp]:
  "wf_core (b\<lparr>cursorRow := r\<rparr>) = wf_core b" "wf_core (b\<lparr>cursorCol := c\<rparr>) = wf_core b"
  "wf_core (b\<lparr>cursorRow := r, cursorCol := c\<rparr>) = wf_core b"
  by (simp_all add: wf_core_def in_screen_def)

lemma wf_core_parser [simp]:
  "wf_core (b\<lparr>pst := p\<rparr>) = wf_core b" "wf_core (b\<lparr>csiBuffer := s\<rparr>) = wf_core b"
  "wf_core (b\<lparr>oscEsc := e\<rparr>) = wf_core b"
  by (simp_all add: wf_core_def in_screen_def)

lemma wf_buffer_parser [simp]:
  "wf_buffer (b\<lparr>pst := p\<rparr>) = wf_buffer b" "wf_buffer (b\<lparr>csiBuffer := s\<rparr>) = wf_buffer b"
  "wf_buffer (b\<lparr>oscEsc := e\<rparr>) = wf_buffer b"
  by (simp_all add: wf_buffer_def in_screen_def)

lemma wf_buffer_col: "wf_buffer b \<Longrightarrow> 0 \<le> c \<Longrightarrow> c < cols b \<Longrightarrow> wf_buffer (b\<lparr>cursorCol := c\<rparr>)"
  by (simp add: wf_buffer_def in_screen_def)

lemma wf_core_saved:
  "wf_core b \<Longrightarrow> in_screen b r c \<Longrightarrow> wf_core (b\<lparr>savedRow := r, savedCol := c\<rparr>)"
  by (simp add: wf_core_def in_screen_def)

lemma wf_buffer_colI: "wf_buffer b \<Longrightarrow> wf_buffer (b\<lparr>cursorCol := 0\<rparr>)"
  by (rule wf_buffer_col) (simp_all add: wf_buffer_def wf_core_def)

lemma csiAction_wf:
  assumes wf: "wf_buffer b"
  shows "\<exists>t. csiAction f p ps b = Done t \<and> wf_core t"
proof -
  have core: "wf_core b" using wf by (rule wf_bufferD)
  obtain g where g: "eraseDisplay (getParameter ps 0 0) b = Done (b\<lparr>grid := g\<rparr>)"
      "wf_core (b\<lparr>grid := g\<rparr>)"
    using eraseDisplay_Done [OF wf] wf_core_grid [OF core] by blast
  obtain h where h: "eraseLine (getParameter ps 0 0) b = Done (b\<lparr>grid := h\<rparr>)"
      "wf_core (b\<lparr>grid := h\<rparr>)"
    using eraseLine_Done [OF wf] wf_core_grid [OF core] by blast
  have s: "wf_core (b\<lparr>savedRow := cursorRow b, savedCol := cursorCol b\<rparr>)"
    using wf core by (auto simp: wf_buffer_def intro: wf_core_saved)
  have m: "wf_core (handlePrivateMode e ps b)" for e
    using handlePrivateMode_wf [OF wf] by (rule wf_bufferD)
  show ?thesis
    unfolding csiAction_def by (simp add: core g h s m)
qed

lemma handleCsi_wf: "wf_buffer b \<Longrightarrow> \<exists>t. handleCsi f raw b = Done t \<and> wf_buffer t"
proof -
  assume wf: "wf_buffer b"
  obtain t where "csiAction f (fst (csiParts raw)) (snd (csiParts raw)) b = Done t" "wf_core t"
    using csiAction_wf [OF wf] by blast
  then show ?thesis by (simp add: handleCsi_def case_prod_beta clampCursor_wf)
qed

lemma consumeCsi_wf: "wf_buffer b \<Longrightarrow> \<exists>t. consumeCsi x b = Done t \<and> wf_buffer t"
  using handleCsi_wf [of b x "csiBuffer b"] by (auto simp: consumeCsi_def)

lemma consumeOsc_wf: "wf_buffer b \<Longrightarrow> wf_buffer (consumeOsc x b)"
  by (simp add: consumeOsc_def Let_def)

lemma consumeEscString_wf: "wf_buffer b \<Longrightarrow> wf_buffer (consumeEscString x b)"
  by (simp add: consumeEscString_def Let_def)

lemma lineFeed_then:
  assumes "wf_buffer b" and "\<And>t. wf_buffer t \<Longrightarrow> \<exists>u. f t = Done u \<and> wf_buffer u"
  shows "\<exists>u. and_then (lineFeed b) f = Done u \<and> wf_buffer u"
  using lineFeed_wf [OF assms(1)] assms(2) by fastforce

lemma toNormal_wf: "wf_buffer b \<Longrightarrow> \<exists>u. toNormal b = Done u \<and> wf_buffer u"
  by (simp add: toNormal_def)

lemma consumeEsc_wf:
  assumes wf: "wf_buffer b"
  shows "\<exists>t. consumeEsc x b = Done t \<and> wf_buffer t"
proof -
  have core: "wf_core b" using wf by (rule wf_bufferD)
  have s: "wf_buffer (b\<lparr>savedRow := cursorRow b, savedCol := cursorCol b\<rparr>)"
    using wf by (auto simp: wf_buffer_def in_screen_def wf_core_saved)
  have c: "wf_buffer (clampCursor (b\<lparr>cursorRow := savedRow b, cursorCol := savedCol b\<rparr>))"
    by (rule clampCursor_wf) (simp add: core)
  have d: "\<exists>u. and_then (lineFeed b) toNormal = Done u \<and> wf_buffer u"
    using wf by (rule lineFeed_then) (rule toNormal_wf)
  have e: "\<exists>u. and_then (lineFeed (b\<lparr>cursorCol := 0\<rparr>)) toNormal = Done u \<and> wf_buffer u"
    using wf_buffer_colI [OF wf] by (rule lineFeed_then) (rule toNormal_wf)
  show ?thesis
    unfolding consumeEsc_def
    by (simp add: wf core s c d e toNormal_wf reverseIndex_wf reset_wf)
qed

subsection \<open>The tab loop\<close>

lemma tabLoop_step:
  assumes "cursorCol b < stop"
  shows "tabLoop stop b =
    (case putRune 32 b of Done t \<Rightarrow> tabLoop stop t | Panics \<Rightarrow> Panics | Hangs \<Rightarrow> Hangs)"
  using assms unfolding tabLoop_def
  by (subst while_option_unfold) (cases "putRune 32 b"; simp add: while_option_unfold)

lemma tabLoop_stop: "stop \<le> cursorCol b \<Longrightarrow> tabLoop stop b = Done b"
  unfolding tabLoop_def by (simp add: while_option_unfold)

lemma tabLoop_inside:
  assumes "wf_buffer b" and "stop < cols b" and "cursorCol b \<le> stop"
  shows "\<exists>t. tabLoop stop b = Done t \<and> wf_buffer t \<and> cursorCol t = stop \<and> pst t = pst b"
  using assms
proof (induction "nat (stop - cursorCol b)" arbitrary: b)
  case 0
  then show ?case by (simp add: tabLoop_stop)
next
  case (Suc n)
  then have lt: "cursorCol b < stop" by simp
  obtain t where t: "putRune 32 b = Done t" "wf_buffer t" "cols t = cols b"
      "pst t = pst b" "cursorCol t = cursorCol b + 1"
    using putRune_wf [OF Suc.prems(1), of 32] Suc.prems lt by auto
  with Suc.hyps(1) [of t] Suc.hyps(2) Suc.prems lt show ?case by (auto simp: tabLoop_step)
qed

text \<open>Beyond the last column the guard holds in every state the loop reaches, so it never ends.\<close>

lemma tabLoop_hangs:
  assumes wf: "wf_buffer b" and stop: "cols b \<le> stop"
  shows "tabLoop stop b = Hangs"
proof -
  let ?P = "\<lambda>r. \<exists>t. r = Done t \<and> wf_buffer t \<and> cols t = cols b"
  have "while_option (tabGuard stop) (\<lambda>r. and_then r (putRune 32)) (Done b) = None"
  proof (rule ccontr)
    assume "\<not> ?thesis"
    then obtain r where r: "while_option (tabGuard stop) (\<lambda>r. and_then r (putRune 32)) (Done b) =
        Some r" by blast
    have "?P r"
    proof (rule while_option_rule [OF _ r])
      show "?P (Done b)" using wf by simp
    next
      fix s assume "?P s"
      then obtain t where "s = Done t" "wf_buffer t" "cols t = cols b" by blast
      with putRune_wf [of t 32] show "?P (and_then s (putRune 32))" by auto
    qed
    then obtain t where t: "r = Done t" "wf_buffer t" "cols t = cols b" by blast
    then have "cursorCol t < stop" using stop by (auto simp: wf_buffer_def in_screen_def)
    with while_option_stop [OF r] t show False by simp
  qed
  then show ?thesis by (simp add: tabLoop_def)
qed

lemma nextStop_gt: "cursorCol b < nextStop b"
  by (simp add: nextStop_def)

lemma consumeNormal_tab: "byte x = 9 \<Longrightarrow> consumeNormal x b = tabLoop (nextStop b) b"
  by (simp add: consumeNormal_def)

lemma consumeNormal_wf:
  assumes wf: "wf_buffer b" and x: "byte x \<noteq> 9"
  shows "\<exists>t. consumeNormal x b = Done t \<and> wf_buffer t"
proof -
  have l: "\<exists>u. and_then (lineFeed b) (\<lambda>b1. Done (b1\<lparr>cursorCol := 0\<rparr>)) = Done u \<and> wf_buffer u"
    using wf by (rule lineFeed_then) (simp add: wf_buffer_colI)
  have bs: "0 < cursorCol b \<Longrightarrow> wf_buffer (b\<lparr>cursorCol := cursorCol b - 1\<rparr>)"
    using wf by (intro wf_buffer_col) (auto simp: wf_buffer_def in_screen_def)
  have p: "\<exists>t. putRune (byte x) b = Done t \<and> wf_buffer t" using putRune_wf [OF wf] by blast
  show ?thesis
    unfolding consumeNormal_def by (simp add: wf l bs p x wf_buffer_colI)
qed

subsection \<open>Writing\<close>

lemma writeByte_wf:
  assumes wf: "wf_buffer b" and x: "pst b = StNormal \<longrightarrow> byte x \<noteq> 9"
  shows "\<exists>t. writeByte x b = Done t \<and> wf_buffer t"
  using consumeEsc_wf [OF wf] consumeCsi_wf [OF wf] consumeOsc_wf [OF wf]
    consumeEscString_wf [OF wf] consumeNormal_wf [OF wf, of x] x wf
  by (cases "pst b") (simp_all add: writeByte_def)

lemma writeByte_tab:
  assumes wf: "wf_buffer b" and n: "pst b = StNormal" and x: "byte x = 9"
  shows "if nextStop b < cols b
    then \<exists>t. writeByte x b = Done t \<and> wf_buffer t \<and> cursorCol t = nextStop b
    else writeByte x b = Hangs"
  using tabLoop_inside [OF wf, of "nextStop b"] tabLoop_hangs [OF wf, of "nextStop b"]
    nextStop_gt [of b] n x
  by (auto simp: writeByte_def consumeNormal_tab)

lemma writeByte_cases:
  assumes "wf_buffer b"
  shows "writeByte x b = Hangs \<or> (\<exists>t. writeByte x b = Done t \<and> wf_buffer t)"
proof (cases "pst b = StNormal \<and> byte x = 9")
  case True
  with writeByte_tab [OF assms, of x] show ?thesis by (auto split: if_splits)
next
  case False
  with writeByte_wf [OF assms, of x] show ?thesis by blast
qed

interpretation terminal: failing_machine writeByte wf_buffer
proof unfold_locales
  fix s e assume "wf_buffer s"
  from writeByte_cases [OF this, of e] show "writeByte e s \<noteq> Panics" by auto
next
  fix s e t assume "wf_buffer s" "writeByte e s = Done t"
  then show "wf_buffer t" using writeByte_cases [of s e] by auto
qed

lemmas writeBytes_keeps = terminal.run_keeps [folded writeBytes_def]

text \<open>C1: Write never indexes the screen out of range: in a well-formed buffer no input makes it
  panic, and when it returns, the buffer is well-formed again (grid of the announced size, cursors
  inside it, scrollback within its bound, saved primary screen consistent).\<close>

theorem write_never_panics:
  assumes "wf_buffer b"
  shows "writeBytes input b \<noteq> Panics \<and> (\<forall>t. writeBytes input b = Done t \<longrightarrow> wf_buffer t)"
  using terminal.run_safe [OF assms] terminal.run_keeps [OF assms]
  by (auto simp: writeBytes_def)

lemma write_never_panics_witness:
  "writeBytes ''a'' (newBuffer 10) \<noteq> Panics"
  using write_never_panics [of "newBuffer 10" "''a''"]
  by (simp add: newBuffer_def newWithSize_wf)

text \<open>An input without tab characters is always processed to its end.\<close>

theorem write_returns:
  assumes "wf_buffer b" and "\<forall>x\<in>set input. byte x \<noteq> 9"
  shows "\<exists>t. writeBytes input b = Done t \<and> wf_buffer t"
proof -
  have "\<exists>t. for_each writeByte input b = Done t \<and> wf_buffer t"
  proof (rule terminal.run_returns [OF _ assms(1)])
    fix e s assume "e \<in> set input" and "wf_buffer s"
    with writeByte_wf [of s e] assms(2) show "writeByte e s \<noteq> Hangs" by auto
  qed
  then show ?thesis by (simp add: writeBytes_def)
qed

lemma write_returns_witness:
  "\<exists>t. writeBytes [CHR ''a'', CHR 0x1B, CHR ''c''] (newBuffer 10) = Done t \<and> wf_buffer t"
  by (rule write_returns) (simp_all add: newBuffer_def newWithSize_wf)

text \<open>A tab in the last tab stop of a row never returns: the loop prints blanks until the cursor
  column reaches the next multiple of eight, but printing in the last column wraps the cursor to
  column 0, so a stop at or beyond the width is never reached. With a stop inside the row the tab
  returns with the cursor on it.\<close>

theorem tab_hangs_iff:
  assumes "wf_buffer b" and "pst b = StNormal"
  shows "writeByte (CHR 0x09) b = Hangs \<longleftrightarrow> cols b \<le> nextStop b"
  using writeByte_tab [OF assms, of "CHR 0x09"] by (auto split: if_splits)

lemma tab_hangs_witness:
  "writeByte (CHR 0x09) ((newBuffer 10)\<lparr>cursorCol := 72\<rparr>) = Hangs"
proof -
  have "wf_buffer ((newBuffer 10)\<lparr>cursorCol := 72\<rparr>)"
    unfolding newBuffer_def
    by (rule wf_buffer_col [OF newWithSize_wf]) (simp_all add: newWithSize_def sanitizeSize_def)
  from tab_hangs_iff [OF this] show ?thesis
    by (simp add: newBuffer_def newWithSize_def sanitizeSize_def nextStop_def)
qed

end
