(* ===== verification/ScreenBufferText.thy ===== *)
theory ScreenBufferText
  imports ScreenBufferWrite
begin

text \<open>
  What the screen shows: printing inside a row, newlines and scrolling, the screenshot of a text
  written line by line, the alternate screen session, the cursor-down sequence and resizing.
\<close>

subsection \<open>Printing inside a row\<close>

definition plain :: "char \<Rightarrow> bool" where
  "plain x \<longleftrightarrow> 32 \<le> byte x \<and> byte x < 127"

definition setRow :: "int \<Rightarrow> rune list \<Rightarrow> buffer \<Rightarrow> buffer" where
  "setRow c row b = b\<lparr>grid := (grid b)[nat (cursorRow b) := row], cursorCol := c\<rparr>"

definition currentRow :: "buffer \<Rightarrow> rune list" where
  "currentRow b = grid b ! nat (cursorRow b)"

lemma currentRow_length:
  assumes "wf_buffer b"
  shows "length (currentRow b) = nat (cols b)" and "nat (cursorRow b) < length (grid b)"
  using assms by (auto simp: wf_buffer_def wf_core_def wf_grid_def in_screen_def currentRow_def)

lemma setRow_wf:
  "wf_buffer b \<Longrightarrow> length row = nat (cols b) \<Longrightarrow> 0 \<le> c \<Longrightarrow> c < cols b \<Longrightarrow> wf_buffer (setRow c row b)"
  by (auto simp: setRow_def wf_buffer_def in_screen_def wf_core_def intro: wf_grid_update)

lemma putRune_inside:
  assumes wf: "wf_buffer b" and c: "cursorCol b + 1 < cols b"
  shows "putRune v b =
    Done (setRow (cursorCol b + 1) ((currentRow b)[nat (cursorCol b) := v]) b)"
  using currentRow_length [OF wf] wf c
  by (auto simp: putRune_def Let_def setCell_def setRow_def currentRow_def wf_buffer_def
      in_screen_def)

lemma writeByte_plain:
  assumes "plain x" and "pst b = StNormal"
  shows "writeByte x b = putRune (byte x) b"
proof -
  have "byte x \<notin> {27, 155, 10, 13, 8, 9, 14, 15, 127}" and "32 \<le> byte x"
    using assms(1) by (auto simp: plain_def)
  then show ?thesis using assms(2) by (simp add: writeByte_def consumeNormal_def)
qed

lemma update_as_append:
  "n < length row \<Longrightarrow> take (Suc n) (row[n := v]) = take n row @ [v]"
  by (simp add: take_Suc_conv_app_nth)

lemma write_plain:
  assumes "wf_buffer b" and "pst b = StNormal" and "\<forall>x\<in>set s. plain x"
    and "cursorCol b + int (length s) < cols b"
  shows "writeBytes s b = Done (setRow (cursorCol b + int (length s))
      (take (nat (cursorCol b)) (currentRow b) @ map of_char s
        @ drop (nat (cursorCol b) + length s) (currentRow b)) b)"
  using assms
proof (induction s arbitrary: b)
  case Nil
  have "nat (cursorRow b) < length (grid b)" using currentRow_length [OF Nil.prems(1)] by simp
  then show ?case by (simp add: writeBytes_def setRow_def currentRow_def)
next
  case (Cons x s)
  let ?c = "cursorCol b" and ?row = "currentRow b"
  let ?b = "setRow (?c + 1) (?row[nat ?c := byte x]) b"
  have len: "length ?row = nat (cols b)" and i: "nat (cursorRow b) < length (grid b)"
    using currentRow_length [OF Cons.prems(1)] .
  have c0: "0 \<le> ?c" using Cons.prems(1) by (simp add: wf_buffer_def in_screen_def)
  have step: "writeByte x b = Done ?b"
    using Cons.prems by (simp add: writeByte_plain putRune_inside)
  have wf: "wf_buffer ?b" using Cons.prems c0 len by (intro setRow_wf) auto
  have b: "pst ?b = StNormal" "cursorCol ?b = ?c + 1" "cols ?b = cols b"
      "currentRow ?b = ?row[nat ?c := byte x]" "cursorRow ?b = cursorRow b"
    using Cons.prems(2) i by (simp_all add: setRow_def currentRow_def)
  have n: "nat (?c + 1) = Suc (nat ?c)" "nat ?c < length ?row"
    using c0 Cons.prems(4) len by auto
  have "writeBytes s ?b = Done (setRow (?c + 1 + int (length s))
      (take (Suc (nat ?c)) (?row[nat ?c := byte x]) @ map of_char s
        @ drop (Suc (nat ?c) + length s) (?row[nat ?c := byte x])) ?b)"
    using Cons.IH [OF wf b(1)] Cons.prems b(2-4) n by simp
  also have "\<dots> = Done (setRow (?c + int (length (x # s)))
      (take (nat ?c) ?row @ map of_char (x # s) @ drop (nat ?c + length (x # s)) ?row) b)"
    using n by (simp add: update_as_append setRow_def algebra_simps)
  finally show ?case using step by (simp add: writeBytes_def)
qed

subsection \<open>A text written line by line\<close>

definition pad :: "int \<Rightarrow> string \<Rightarrow> rune list" where
  "pad c s = map of_char s @ replicate (nat c - length s) 32"

definition line_ok :: "int \<Rightarrow> string \<Rightarrow> bool" where
  "line_ok c s \<longleftrightarrow> (\<forall>x\<in>set s. plain x) \<and> int (length s) < c \<and> (s \<noteq> [] \<longrightarrow> last s \<noteq> CHR '' '')"

text \<open>The buffer holds the lines \<open>old @ shown\<close>, the cursor behind the last of them.\<close>

definition shows_text :: "buffer \<Rightarrow> string list \<Rightarrow> string list \<Rightarrow> bool" where
  "shows_text b old shown \<longleftrightarrow> wf_buffer b \<and> pst b = StNormal \<and> 0 < maxLines b
     \<and> scrollback b = last_n (nat (maxLines b)) old
     \<and> grid b = map (pad (cols b)) shown @ replicate (nat (rows b) - length shown) (blankRow (cols b))
     \<and> shown \<noteq> [] \<and> cursorRow b = int (length shown) - 1 \<and> cursorCol b = int (length (last shown))
     \<and> (old \<noteq> [] \<longrightarrow> int (length shown) = rows b)
     \<and> (\<forall>l\<in>set (old @ shown). line_ok (cols b) l)"

lemma pad_blank [simp]: "pad c [] = blankRow c"
  by (simp add: pad_def blankRow_def)

lemma pad_length: "int (length s) < c \<Longrightarrow> length (pad c s) = nat c"
  by (simp add: pad_def)

lemma encode_ascii: "r < 128 \<Longrightarrow> encode_rune r = [char_of r]"
  by (simp add: encode_rune_def encode_valid_def valid_rune_def)

lemma string_of_runes_ascii: "\<forall>x\<in>set s. byte x < 128 \<Longrightarrow> string_of_runes (map of_char s) = s"
  by (induction s) (auto simp: string_of_runes_def encode_ascii)

lemma rowText_pad:
  assumes "line_ok c s"
  shows "rowText (pad c s) = s"
proof -
  have "trimRightSpaces (pad c s) = map of_char s"
  proof (cases s rule: rev_cases)
    case Nil
    then show ?thesis by (simp add: trimRightSpaces_def pad_def dropWhile_replicate)
  next
    case (snoc t x)
    have "byte x \<noteq> 32"
    proof
      assume "byte x = 32"
      then have "byte x = byte (CHR '' '')" by simp
      then have "x = CHR '' ''" by (simp only: of_char_eq_iff)
      with snoc assms show False by (simp add: line_ok_def)
    qed
    then show ?thesis by (simp add: trimRightSpaces_def pad_def snoc dropWhile_append3)
  qed
  moreover have "\<forall>x\<in>set s. byte x < 128" using assms by (auto simp: line_ok_def plain_def)
  ultimately show ?thesis by (simp add: rowText_def string_of_runes_ascii)
qed

lemma shows_text_print:
  assumes b: "shows_text b old (shown @ [[]])" and s: "line_ok (cols b) s"
  shows "\<exists>t. writeBytes s b = Done t \<and> shows_text t old (shown @ [s]) \<and> cols t = cols b
    \<and> maxLines t = maxLines b \<and> rows t = rows b"
proof -
  have wf: "wf_buffer b" and c: "cursorCol b = 0" and r: "nat (cursorRow b) = length shown"
    using b by (auto simp: shows_text_def)
  have row: "currentRow b = blankRow (cols b)"
    using b r by (simp add: shows_text_def currentRow_def nth_append)
  have p: "take 0 (blankRow (cols b)) @ map of_char s @ drop (length s) (blankRow (cols b)) =
      pad (cols b) s"
    by (simp add: pad_def blankRow_def)
  let ?t = "setRow (int (length s)) (pad (cols b) s) b"
  have w: "writeBytes s b = Done ?t"
    using write_plain [OF wf, of s] b s p by (simp add: c row shows_text_def line_ok_def)
  have "wf_buffer ?t" using s by (intro setRow_wf [OF wf]) (auto simp: line_ok_def pad_length)
  moreover have "grid ?t = map (pad (cols b)) (shown @ [s]) @
      replicate (nat (rows b) - length (shown @ [s])) (blankRow (cols b))"
    using b r by (simp add: setRow_def shows_text_def list_update_append)
  ultimately have "shows_text ?t old (shown @ [s])"
    using b s by (auto simp: shows_text_def setRow_def)
  then show ?thesis using w by (auto simp: setRow_def)
qed

lemma writeByte_newline:
  assumes "wf_buffer b" and "pst b = StNormal"
  shows "writeByte (CHR 0x0A) b =
    Done ((if cursorRow b = rows b - 1
          then (appendScrollback (rowText (hd (grid b))) b)\<lparr>grid := scrolledUp b\<rparr>
          else b\<lparr>cursorRow := cursorRow b + 1\<rparr>)\<lparr>cursorCol := 0\<rparr>)"
  using assms by (simp add: writeByte_def consumeNormal_def lineFeed_eq)

lemma shows_text_newline:
  assumes b: "shows_text b old shown"
  shows "\<exists>t old' shown'. writeByte (CHR 0x0A) b = Done t \<and> shows_text t old' (shown' @ [[]])
    \<and> old' @ shown' = old @ shown \<and> cols t = cols b \<and> maxLines t = maxLines b \<and> rows t = rows b"
proof -
  have wf: "wf_buffer b" and n: "pst b = StNormal" and ne: "shown \<noteq> []"
    using b by (auto simp: shows_text_def)
  obtain t where t: "writeByte (CHR 0x0A) b = Done t" "wf_buffer t"
    using writeByte_wf [OF wf, of "CHR 0x0A"] by auto
  note eq = writeByte_newline [OF wf n]
  have empty_ok: "line_ok (cols b) []"
    using wf by (simp add: line_ok_def wf_buffer_def wf_core_def)
  show ?thesis
  proof (cases "cursorRow b = rows b - 1")
    case True
    obtain l ls where s: "shown = l # ls" using ne by (cases shown) auto
    have full: "int (length shown) = rows b" using b True by (auto simp: shows_text_def)
    have l: "rowText (pad (cols b) l) = l"
      using b by (intro rowText_pad) (auto simp: shows_text_def s)
    have "t = (appendScrollback l b)\<lparr>grid := scrolledUp b, cursorCol := 0\<rparr>"
      using t(1) eq True b l by (simp add: shows_text_def s)
    then have "shows_text t (old @ [l]) (ls @ [[]])"
      using b t(2) full empty_ok
      by (auto simp: shows_text_def s scrolledUp_def appendScrollback_def last_n_append_prefix)
    then have "shows_text t (old @ [l]) (ls @ [[]]) \<and> (old @ [l]) @ ls = old @ shown"
      by (simp add: s)
    then show ?thesis
      using t(1) \<open>t = _\<close> by (intro exI [of _ t] exI [of _ "old @ [l]"] exI [of _ ls])
        (auto simp: appendScrollback_def)
  next
    case False
    then have lt: "length shown < nat (rows b)" and old: "old = []"
      using b by (auto simp: shows_text_def wf_buffer_def in_screen_def)
    have teq: "t = b\<lparr>cursorRow := cursorRow b + 1, cursorCol := 0\<rparr>"
      using t(1) eq False by simp
    have "nat (rows b) - length shown = Suc (nat (rows b) - Suc (length shown))" using lt by simp
    then have "shows_text t old (shown @ [[]])"
      using b t(2) teq empty_ok old by (simp add: shows_text_def)
    then show ?thesis using t(1) teq by (intro exI [of _ t] exI [of _ old] exI [of _ shown]) auto
  qed
qed

lemma shows_text_lines:
  assumes "shows_text b old (shown @ [[]])" and "ls \<noteq> []" and "\<forall>l\<in>set ls. line_ok (cols b) l"
  shows "\<exists>t old' shown'. writeBytes (join [CHR 0x0A] ls) b = Done t \<and> shows_text t old' shown'
    \<and> old' @ shown' = old @ shown @ ls \<and> maxLines t = maxLines b"
  using assms
proof (induction "[CHR 0x0A]" ls arbitrary: b old shown rule: join.induct)
  case 1
  then show ?case by simp
next
  case (2 l)
  then show ?case using shows_text_print [of b old shown l] by fastforce
next
  case (3 l k ls)
  obtain t where t: "writeBytes l b = Done t" "shows_text t old (shown @ [l])" "cols t = cols b"
      "maxLines t = maxLines b"
    using shows_text_print [OF 3(2), of l] 3(4) by auto
  obtain u old1 shown1 where u: "writeByte (CHR 0x0A) t = Done u" "shows_text u old1 (shown1 @ [[]])"
      "old1 @ shown1 = old @ shown @ [l]" "cols u = cols t" "maxLines u = maxLines t"
    using shows_text_newline [OF t(2)] by auto
  obtain v old2 shown2 where v: "writeBytes (join [CHR 0x0A] (k # ls)) u = Done v"
      "shows_text v old2 shown2" "old2 @ shown2 = old1 @ shown1 @ k # ls" "maxLines v = maxLines u"
    using 3(1) [OF u(2)] 3(4) t(3) u(4) by auto
  have "writeBytes (join [CHR 0x0A] (l # k # ls)) b = Done v"
    using t(1) u(1) v(1) by (simp add: writeBytes_def for_each_append)
  moreover have "old2 @ shown2 = old @ shown @ l # k # ls" using v(3) u(3) by simp
  ultimately show ?case using v(2,4) u(5) t(4) by auto
qed

subsection \<open>Screenshots\<close>

lemma dropBlankTail_id: "ls \<noteq> [] \<Longrightarrow> last ls \<noteq> [] \<Longrightarrow> dropBlankTail (ls @ replicate n []) = ls"
proof -
  assume "ls \<noteq> []" and "last ls \<noteq> []"
  then obtain ks k where "ls = ks @ [k]" "k \<noteq> []" by (cases ls rule: rev_cases) auto
  then show ?thesis by (simp add: dropBlankTail_def dropWhile_append3)
qed

lemma rowText_blank [simp]: "rowText (blankRow c) = []"
  by (simp add: rowText_def trimRightSpaces_def blankRow_def dropWhile_replicate string_of_runes_def)

lemma keepLast_last_n:
  assumes "0 < m"
  shows "keepLast m (last_n (nat m) xs @ ys) = last_n (nat m) (xs @ ys)"
proof (cases "int (length (last_n (nat m) xs @ ys)) > m")
  case True
  then show ?thesis using assms by (simp add: keepLast_def last_n_append_prefix)
next
  case False
  then have "last_n (nat m) (last_n (nat m) xs @ ys) = last_n (nat m) xs @ ys"
    by (intro last_n_all) linarith
  with False show ?thesis by (simp add: keepLast_def last_n_append_prefix)
qed

lemma screenshotLines_text:
  assumes t: "shows_text t old shown" and l: "last shown \<noteq> []"
  shows "screenshotLines n t = keepLast n (last_n (nat (maxLines t)) (old @ shown))"
proof -
  let ?m = "nat (maxLines t)"
  have ne: "shown \<noteq> []" and m: "0 < maxLines t" and s: "scrollback t = last_n ?m old"
    using t by (auto simp: shows_text_def)
  have "renderScreenLines (grid t) = shown @ replicate (nat (rows t) - length shown) []"
    using t by (auto simp: shows_text_def renderScreenLines_def rowText_pad intro!: map_idI)
  then have "dropBlankTail (scrollback t @ renderScreenLines (grid t)) = last_n ?m old @ shown"
    using ne l dropBlankTail_id [of "last_n ?m old @ shown"] by (simp add: s)
  moreover have "keepLast (maxLines t) (last_n ?m old @ shown) = last_n ?m (old @ shown)"
    using m by (rule keepLast_last_n)
  ultimately show ?thesis by (simp add: screenshotLines_def)
qed

lemma newWithSize_shows_text:
  assumes "0 < ml" and "0 < r" and "0 < c"
  shows "shows_text (newWithSize ml r c) [] ([] @ [[]])"
proof -
  have "nat r = Suc (nat r - 1)" using assms by simp
  then have "makeScreen r c = blankRow c # replicate (nat r - 1) (blankRow c)"
    unfolding makeScreen_def by (metis replicate_Suc)
  then show ?thesis
    using newWithSize_wf [of ml r c] assms
    by (simp add: shows_text_def newWithSize_def sanitizeSize_def line_ok_def)
qed

text \<open>A text of printable lines, each shorter than the screen is wide and without trailing
  blanks, is what the screenshot shows: however often the screen scrolled, it is the text's last
  lines, as many as the buffer keeps and the caller asks for.\<close>

theorem screenshot_of_text:
  assumes "0 < ml" and "0 < r" and "0 < c" and "ls \<noteq> []" and "last ls \<noteq> []"
    and "\<forall>l\<in>set ls. line_ok c l"
  shows "\<exists>t. writeBytes (join [CHR 0x0A] ls) (newWithSize ml r c) = Done t
    \<and> screenshot n t = join [CHR 0x0A] (keepLast n (last_n (nat ml) ls))"
proof -
  have c: "cols (newWithSize ml r c) = c" "maxLines (newWithSize ml r c) = ml"
    using assms by (simp_all add: newWithSize_def sanitizeSize_def)
  obtain t old shown where t: "writeBytes (join [CHR 0x0A] ls) (newWithSize ml r c) = Done t"
      "shows_text t old shown" "old @ shown = ls" "maxLines t = ml"
    using shows_text_lines [OF newWithSize_shows_text [OF assms(1-3)] assms(4)] assms(6) c by auto
  have "shown \<noteq> []" using t(2) by (simp add: shows_text_def)
  then have "last shown \<noteq> []" using t(3) assms(5) by (auto simp: last_append)
  from screenshotLines_text [OF t(2) this] t show ?thesis by (auto simp: screenshot_def)
qed

lemma screenshot_of_text_witness:
  "\<exists>t. writeBytes (join [CHR 0x0A] [''ls'', '''', ''ok'']) (newWithSize 2 2 8) = Done t
    \<and> screenshot 0 t = [CHR 0x0A] @ ''ok''"
  using screenshot_of_text [of 2 2 8 "[''ls'', '''', ''ok'']" 0]
  by (simp add: line_ok_def plain_def keepLast_def last_n_def)

lemma keepLast_suffix: "\<exists>older. xs = older @ keepLast n xs"
  using last_n_suffix [of xs "nat n"] by (auto simp: keepLast_def)

lemma dropBlankTail_snoc:
  "dropBlankTail (ls @ [l]) = (if l = [] then dropBlankTail ls else ls @ [l])"
  by (simp add: dropBlankTail_def)

lemma dropBlankTail_split: "\<exists>k. ls = dropBlankTail ls @ replicate k []"
proof (induction ls rule: rev_induct)
  case Nil
  then show ?case by (simp add: dropBlankTail_def)
next
  case (snoc l ls)
  then obtain k where k: "ls = dropBlankTail ls @ replicate k []" by blast
  have "ls @ [l] = dropBlankTail (ls @ [l]) @ replicate (if l = [] then Suc k else 0) []"
    using k by (auto simp: dropBlankTail_snoc simp flip: replicate_append_same)
  then show ?case by blast
qed

lemma dropBlankTail_last: "dropBlankTail ls = [] \<or> last (dropBlankTail ls) \<noteq> []"
  by (induction ls rule: rev_induct) (simp_all add: dropBlankTail_snoc, simp add: dropBlankTail_def)

text \<open>A screenshot has no more lines than the caller asks for and than the buffer keeps; they are
  consecutive lines of the scrollback and the screen, only blank lines follow them, and the last
  one is not blank.\<close>

theorem screenshot_bounded:
  assumes "0 < ml" and "0 < maxLines b"
  shows "int (length (screenshotLines ml b)) \<le> min ml (maxLines b)
    \<and> (\<exists>older k. scrollback b @ renderScreenLines (grid b) =
          older @ screenshotLines ml b @ replicate k [])
    \<and> (screenshotLines ml b = [] \<or> last (screenshotLines ml b) \<noteq> [])"
proof -
  let ?all = "scrollback b @ renderScreenLines (grid b)"
  let ?d = "dropBlankTail ?all" and ?s = "screenshotLines ml b"
  obtain k where k: "?all = ?d @ replicate k []" using dropBlankTail_split by blast
  obtain o1 o2 where "?d = o1 @ keepLast (maxLines b) ?d"
    "keepLast (maxLines b) ?d = o2 @ ?s"
    using keepLast_suffix unfolding screenshotLines_def by metis
  then have d: "?d = (o1 @ o2) @ ?s" by simp
  then have "\<exists>older k. ?all = older @ ?s @ replicate k []" using k by (metis append_assoc)
  moreover have "?s = [] \<or> last ?s \<noteq> []"
    using dropBlankTail_last [of ?all] d by (metis append_is_Nil_conv last_appendR)
  moreover have "int (length ?s) \<le> min ml (maxLines b)"
    using assms by (auto simp: screenshotLines_def keepLast_def)
  ultimately show ?thesis by blast
qed

lemma screenshot_bounded_witness:
  "int (length (screenshotLines 3 (newWithSize 5 2 4))) \<le> 3"
  using screenshot_bounded [of 3 "newWithSize 5 2 4"] by (simp add: newWithSize_def sanitizeSize_def)

end
