(* ===== verification/ScreenBufferSession.thy ===== *)
theory ScreenBufferSession
  imports ScreenBufferText
begin

text \<open>
  The alternate screen session (what a full-screen program draws leaves the primary screen alone),
  the cursor-down sequence with its 64-bit sum, and resizing.
\<close>

subsection \<open>The saved primary screen\<close>

definition saved_primary :: "buffer \<Rightarrow> grid option \<times> int \<times> int \<times> int \<times> int \<times> string list" where
  "saved_primary b = (primaryGrid b, primaryCursorRow b, primaryCursorCol b, primarySavedRow b,
     primarySavedCol b, primaryScrollback b)"

text \<open>No operation but entering and leaving the alternate screen touches it.\<close>

definition same_screens :: "buffer \<Rightarrow> buffer \<Rightarrow> bool" where
  "same_screens b t \<longleftrightarrow> saved_primary t = saved_primary b \<and> altScreen t = altScreen b
     \<and> rows t = rows b \<and> cols t = cols b"

lemma same_screens_refl [simp]: "same_screens b b"
  by (simp add: same_screens_def)

lemma same_screens_trans: "same_screens b t \<Longrightarrow> same_screens t u \<Longrightarrow> same_screens b u"
  by (simp add: same_screens_def)

lemma same_screens_updates [simp]:
  "same_screens b (b\<lparr>grid := g\<rparr>)" "same_screens b (b\<lparr>cursorRow := x\<rparr>)"
  "same_screens b (b\<lparr>cursorCol := y\<rparr>)" "same_screens b (b\<lparr>cursorRow := x, cursorCol := y\<rparr>)"
  "same_screens b (b\<lparr>grid := g, cursorCol := y\<rparr>)"
  "same_screens b (b\<lparr>savedRow := x, savedCol := y\<rparr>)"
  "same_screens b (b\<lparr>savedRow := x, savedCol := y, pst := p\<rparr>)"
  "same_screens b (b\<lparr>pst := p\<rparr>)"
  "same_screens b (b\<lparr>pst := p, csiBuffer := s\<rparr>)" "same_screens b (b\<lparr>csiBuffer := s\<rparr>)"
  "same_screens b (b\<lparr>csiBuffer := s, pst := p\<rparr>)"
  "same_screens b (b\<lparr>oscEsc := e\<rparr>)" "same_screens b (b\<lparr>pst := p, oscEsc := e\<rparr>)"
  "same_screens b (b\<lparr>oscEsc := e, pst := p\<rparr>)"
  by (simp_all add: same_screens_def saved_primary_def)

lemma same_screens_total [simp]:
  "same_screens b (clampCursor b)" "same_screens b (reset b)" "same_screens b (reverseIndex b)"
  "same_screens b (appendScrollback l b)"
  by (simp_all add: same_screens_def saved_primary_def clampCursor_def reset_def reverseIndex_def
      appendScrollback_def Let_def)

lemma lineFeed_same:
  assumes "wf_buffer b" and "lineFeed b = Done t"
  shows "same_screens b t"
  using assms same_screens_trans [OF same_screens_total(4) same_screens_updates(1)]
  by (auto simp: lineFeed_eq split: if_splits)

lemma putRune_same:
  assumes wf: "wf_buffer b" and t: "putRune v b = Done t"
  shows "same_screens b t"
proof -
  have g: "wf_grid (rows b) (cols b) (grid b)" and i: "in_screen b (cursorRow b) (cursorCol b)"
    and core: "wf_core b"
    using wf by (auto simp: wf_buffer_def wf_core_def)
  obtain g1 where g1: "setCell (cursorRow b) v (cursorCol b) b = Done (b\<lparr>grid := g1\<rparr>)"
      "wf_grid (rows b) (cols b) g1"
    using setCell_Done [OF g i] by blast
  have "wf_buffer (b\<lparr>grid := g1\<rparr>)"
    using wf_core_grid [OF core g1(2)] i by (auto simp: wf_buffer_def in_screen_def)
  then have "wf_buffer (b\<lparr>grid := g1, cursorCol := 0\<rparr>)" by (rule wf_buffer_colI)
  from lineFeed_same [OF this]
  have "lineFeed (b\<lparr>grid := g1, cursorCol := 0\<rparr>) = Done t \<Longrightarrow> same_screens b t"
    using same_screens_trans same_screens_updates(5) by blast
  then show ?thesis
    using t wf g1 by (auto simp: putRune_def Let_def split: if_splits)
qed

lemma tabLoop_same:
  assumes wf: "wf_buffer b" and t: "tabLoop stop b = Done t"
  shows "same_screens b t"
proof -
  let ?P = "\<lambda>r. \<forall>u. r = Done u \<longrightarrow> wf_buffer u \<and> same_screens b u"
  obtain r where r: "while_option (tabGuard stop) (\<lambda>r. and_then r (putRune 32)) (Done b) = Some r"
    using t by (auto simp: tabLoop_def split: option.splits)
  have "?P r"
  proof (rule while_option_rule [OF _ r])
    show "?P (Done b)" using wf by simp
  next
    fix s assume s: "?P s"
    show "?P (and_then s (putRune 32))"
    proof (intro allI impI)
      fix u assume "and_then s (putRune 32) = Done u"
      then obtain v where v: "s = Done v" "putRune 32 v = Done u" by (auto simp: outcome_simps)
      with s have "wf_buffer v" "same_screens b v" by auto
      with v putRune_wf [of v 32] putRune_same [of v 32 u]
      show "wf_buffer u \<and> same_screens b u" by (auto intro: same_screens_trans)
    qed
  qed
  then show ?thesis using t r by (simp add: tabLoop_def)
qed

subsection \<open>Steps that do not leave the alternate screen\<close>

lemma private_alt:
  assumes "altScreen b"
  shows "handlePrivateMode enable ps b = b \<or> \<not> altScreen (handlePrivateMode enable ps b)"
proof -
  have off: "\<not> altScreen t \<Longrightarrow> handlePrivateMode False qs t = t" for qs t
    by (induction qs) (simp_all add: handlePrivateMode_def privateMode1_def exitAltScreen_def)
  have on: "altScreen t \<Longrightarrow> handlePrivateMode True qs t = t" for qs t
    by (induction qs) (simp_all add: handlePrivateMode_def privateMode1_def enterAltScreen_def)
  show ?thesis
  proof (cases enable)
    case True
    then show ?thesis using assms on by simp
  next
    case False
    have "handlePrivateMode False qs b = b \<or> \<not> altScreen (handlePrivateMode False qs b)" for qs
    proof (induction qs)
      case Nil
      then show ?case by (simp add: handlePrivateMode_def)
    next
      case (Cons q qs)
      have eq: "handlePrivateMode False (q # qs) b = handlePrivateMode False qs (privateMode1 False q b)"
        by (simp add: handlePrivateMode_def)
      show ?case
      proof (cases "q \<in> {47, 1047, 1049}")
        case True
        then have p: "privateMode1 False q b = exitAltScreen b" by (simp add: privateMode1_def)
        have o: "\<not> altScreen (exitAltScreen b)"
          using assms by (simp add: exitAltScreen_def clampCursor_def Let_def)
        show ?thesis unfolding eq p off [OF o] using o by simp
      next
        case False
        then have "privateMode1 False q b = b" by (auto simp: privateMode1_def)
        then show ?thesis using Cons.IH eq by simp
      qed
    qed
    with False show ?thesis by simp
  qed
qed

definition alt_keeps :: "buffer \<Rightarrow> buffer outcome \<Rightarrow> bool" where
  "alt_keeps b r \<longleftrightarrow> (\<forall>t. r = Done t \<longrightarrow> altScreen t \<longrightarrow> same_screens b t)"

lemma alt_keeps_Done [simp]: "same_screens b t \<Longrightarrow> alt_keeps b (Done t)"
  by (simp add: alt_keeps_def)

lemma same_screens_cursor3 [simp]:
  "same_screens b (b\<lparr>cursorRow := x, cursorCol := y\<rparr>)"
  "same_screens b (b\<lparr>cursorCol := y, cursorRow := x\<rparr>)"
  by (simp_all add: same_screens_def saved_primary_def)

lemma csiAction_alt:
  assumes wf: "wf_buffer b" and a: "altScreen b" and t: "csiAction f p ps b = Done t"
    and at: "altScreen t"
  shows "same_screens b t"
proof -
  obtain g where g: "eraseDisplay (getParameter ps 0 0) b = Done (b\<lparr>grid := g\<rparr>)"
    using eraseDisplay_Done [OF wf] by blast
  obtain h where h: "eraseLine (getParameter ps 0 0) b = Done (b\<lparr>grid := h\<rparr>)"
    using eraseLine_Done [OF wf] by blast
  have p: "alt_keeps b (Done (handlePrivateMode e ps b))" for e
    using private_alt [OF a, of e ps] by (auto simp: alt_keeps_def)
  have "alt_keeps b (csiAction f p ps b)"
    unfolding csiAction_def by (simp add: g h p)
  then show ?thesis using t at by (simp add: alt_keeps_def)
qed

lemma clampCursor_alt [simp]: "altScreen (clampCursor b) = altScreen b"
  by (simp add: clampCursor_def Let_def)

lemma consumeCsi_alt:
  assumes wf: "wf_buffer b" and a: "altScreen b" and t: "consumeCsi x b = Done t" "altScreen t"
  shows "same_screens b t"
proof (cases "64 \<le> byte x \<and> byte x \<le> 126")
  case True
  then obtain u where u: "csiAction x (fst (csiParts (csiBuffer b))) (snd (csiParts (csiBuffer b))) b = Done u"
      "t = (clampCursor u)\<lparr>csiBuffer := [], pst := StNormal\<rparr>"
    using t(1) by (auto simp: consumeCsi_def handleCsi_def case_prod_beta outcome_simps)
  have "same_screens b u" using csiAction_alt [OF wf a u(1)] u(2) t(2) by simp
  moreover have "same_screens u t"
    unfolding u(2) by (rule same_screens_trans [OF same_screens_total(1) same_screens_updates(11)])
  ultimately show ?thesis by (rule same_screens_trans)
qed (use t in \<open>auto simp: consumeCsi_def\<close>)

lemma toNormal_same: "same_screens b u \<Longrightarrow> toNormal u = Done t \<Longrightarrow> same_screens b t"
  using same_screens_trans by (fastforce simp: toNormal_def)

lemma consumeEsc_alt:
  assumes wf: "wf_buffer b" and t: "consumeEsc x b = Done t" and at: "altScreen t"
  shows "same_screens b t"
proof -
  have n: "same_screens b u \<Longrightarrow> alt_keeps b (toNormal u)" for u
    using toNormal_same by (auto simp: alt_keeps_def)
  have l: "alt_keeps b (and_then (lineFeed b) toNormal)"
    using lineFeed_same [OF wf] toNormal_same by (auto simp: alt_keeps_def outcome_simps)
  have "same_screens b t" if "lineFeed (b\<lparr>cursorCol := 0\<rparr>) = Done u" "toNormal u = Done t" for u t
  proof (rule toNormal_same [OF _ that(2)])
    show "same_screens b u"
      by (rule same_screens_trans [OF same_screens_updates(3)
            lineFeed_same [OF wf_buffer_colI [OF wf] that(1)]])
  qed
  then have e: "alt_keeps b (and_then (lineFeed (b\<lparr>cursorCol := 0\<rparr>)) toNormal)"
    by (auto simp: alt_keeps_def outcome_simps)
  have c: "same_screens b (clampCursor (b\<lparr>cursorRow := r, cursorCol := k\<rparr>))" for r k
    by (rule same_screens_trans [OF same_screens_updates(4) same_screens_total(1)])
  have "alt_keeps b (consumeEsc x b)"
    unfolding consumeEsc_def by (simp add: n l e c)
  then show ?thesis using t at by (simp add: alt_keeps_def)
qed

lemma consumeNormal_same:
  assumes wf: "wf_buffer b" and t: "consumeNormal x b = Done t"
  shows "same_screens b t"
proof -
  have "and_then (lineFeed b) (\<lambda>b1. Done (b1\<lparr>cursorCol := 0\<rparr>)) = Done t \<Longrightarrow> same_screens b t"
    using lineFeed_same [OF wf] same_screens_trans same_screens_updates(3)
    by (fastforce simp: outcome_simps)
  then show ?thesis
    using t tabLoop_same [OF wf] putRune_same [OF wf]
    unfolding consumeNormal_def by (auto split: if_splits)
qed

lemma writeByte_alt:
  assumes wf: "wf_buffer b" and a: "altScreen b" and t: "writeByte x b = Done t" "altScreen t"
  shows "same_screens b t"
proof (cases "pst b")
  case StNormal
  then show ?thesis using t consumeNormal_same [OF wf] by (simp add: writeByte_def)
next
  case StEsc
  then show ?thesis using t consumeEsc_alt [OF wf] by (simp add: writeByte_def)
next
  case StCsi
  then show ?thesis using t consumeCsi_alt [OF wf a] by (simp add: writeByte_def)
next
  case StOsc
  then show ?thesis using t by (auto simp: writeByte_def consumeOsc_def Let_def split: if_splits)
next
  case StEscString
  then show ?thesis using t by (auto simp: writeByte_def consumeEscString_def Let_def split: if_splits)
next
  case StEscCharset
  then show ?thesis using t by (auto simp: writeByte_def)
qed

text \<open>A run of writes through which the alternate screen stays shown.\<close>

inductive alt_run :: "buffer \<Rightarrow> string \<Rightarrow> buffer \<Rightarrow> bool" where
  alt_stop: "alt_run b [] b"
| alt_byte: "writeByte x b = Done t \<Longrightarrow> altScreen t \<Longrightarrow> alt_run t s u \<Longrightarrow> alt_run b (x # s) u"

lemma alt_run_same:
  "alt_run b s u \<Longrightarrow> wf_buffer b \<Longrightarrow> altScreen b \<Longrightarrow> wf_buffer u \<and> altScreen u \<and> same_screens b u"
proof (induction rule: alt_run.induct)
  case (alt_stop b)
  then show ?case by simp
next
  case (alt_byte x b t s u)
  then have "wf_buffer t" using terminal.step_keeps by blast
  with alt_byte writeByte_alt [of b x t] show ?case by (auto intro: same_screens_trans)
qed

text \<open>Whatever is written while the alternate screen is shown, leaving it brings back the
  primary screen: its cells, its cursor, its saved cursor and its scrollback.\<close>

theorem alt_screen_restores_primary:
  assumes "wf_buffer b" and "\<not> altScreen b" and "alt_run (enterAltScreen b) s u"
  shows "grid (exitAltScreen u) = grid b \<and> scrollback (exitAltScreen u) = scrollback b
    \<and> (cursorRow (exitAltScreen u), cursorCol (exitAltScreen u)) = (cursorRow b, cursorCol b)
    \<and> (savedRow (exitAltScreen u), savedCol (exitAltScreen u)) = (savedRow b, savedCol b)
    \<and> \<not> altScreen (exitAltScreen u)"
proof -
  have e: "altScreen (enterAltScreen b)"
    "saved_primary (enterAltScreen b) =
      (Some (grid b), cursorRow b, cursorCol b, savedRow b, savedCol b, scrollback b)"
    "rows (enterAltScreen b) = rows b" "cols (enterAltScreen b) = cols b"
    using assms(2) by (auto simp: enterAltScreen_def saved_primary_def)
  have u: "altScreen u" "same_screens (enterAltScreen b) u"
    using alt_run_same [OF assms(3) enterAltScreen_wf [OF assms(1)] e(1)] by auto
  have i: "in_screen b (cursorRow b) (cursorCol b)" using assms(1) by (simp add: wf_buffer_def)
  show ?thesis
    using u e i
    by (simp add: exitAltScreen_def clampCursor_def Let_def same_screens_def saved_primary_def
        in_screen_def)
qed

lemma alt_screen_restores_primary_witness:
  "\<exists>u. alt_run (enterAltScreen (newWithSize 5 2 4)) ''x'' u
    \<and> grid (exitAltScreen u) = grid (newWithSize 5 2 4)"
proof -
  let ?b = "newWithSize 5 2 4"
  have wf: "wf_buffer ?b" by (rule newWithSize_wf)
  have p: "pst (enterAltScreen ?b) = StNormal"
    by (simp add: enterAltScreen_def newWithSize_def sanitizeSize_def)
  obtain t where t: "writeByte (CHR ''x'') (enterAltScreen ?b) = Done t"
    using writeByte_wf [OF enterAltScreen_wf [OF wf], of "CHR ''x''"] by auto
  have "putRune (byte (CHR ''x'')) (enterAltScreen ?b) = Done t"
    using t p by (simp add: writeByte_plain plain_def)
  then have "same_screens (enterAltScreen ?b) t"
    using putRune_same [OF enterAltScreen_wf [OF wf]] by blast
  then have "altScreen t"
    by (simp add: same_screens_def enterAltScreen_def newWithSize_def sanitizeSize_def)
  then have r: "alt_run (enterAltScreen ?b) ''x'' t" using t by (auto intro: alt_run.intros)
  have "\<not> altScreen ?b" by (simp add: newWithSize_def sanitizeSize_def)
  from alt_screen_restores_primary [OF wf this r] r show ?thesis by blast
qed

subsection \<open>Cursor down\<close>

lemma csiParts_decimal: "csiParts (decimal n) = ([], [case atoi_ok (atoi (decimal n)) of None \<Rightarrow> 0 | Some k \<Rightarrow> k])"
proof -
  have d: "x \<in> set (decimal n) \<Longrightarrow> 48 \<le> byte x \<and> byte x \<le> 57" for x by (rule decimal_digits)
  have i: "first_index (\<lambda>c. 32 \<le> byte c \<and> byte c \<le> 47) (decimal n) = None"
    using d by (auto simp: first_index_None dest!: d)
  have no: "CHR '';'' \<notin> set (decimal n)" using d [of "CHR '';''"] by auto
  obtain p rest where p: "decimal n = p # rest" by (cases "decimal n") auto
  then have "48 \<le> byte p \<and> byte p \<le> 57" using d [of p] by simp
  then have "p \<notin> {CHR ''?'', CHR ''>'', CHR ''!'', CHR ''=''}" by auto
  then have "csiParts (decimal n) = ([], parseCsiParameters (decimal n))"
    using i p by (simp add: csiParts_def Let_def)
  moreover have "parseCsiParameters (decimal n) = [case atoi_ok (atoi (decimal n)) of None \<Rightarrow> 0 | Some k \<Rightarrow> k]"
    using no by (simp add: parseCsiParameters_def split_byte_none)
  ultimately show ?thesis by simp
qed

text \<open>The sequence ESC [ n B moves the cursor n rows down and stops in the last row, as long as
  the sum of row and n fits in 64 bits; beyond that the sum wraps around to a negative number
  and the cursor lands in the first row instead.\<close>

theorem cursor_down:
  assumes "wf_buffer b" and "1 \<le> n" and "int n \<le> max_int64" and "rows b \<le> 65535"
  shows "handleCsi (CHR ''B'') (decimal n) b =
    Done (b\<lparr>cursorRow := if cursorRow b + int n \<le> max_int64
                         then min (cursorRow b + int n) (rows b - 1) else 0\<rparr>)"
proof -
  have i: "0 \<le> cursorRow b" "cursorRow b < rows b" "0 \<le> cursorCol b" "cursorCol b < cols b"
    using assms(1) by (auto simp: wf_buffer_def in_screen_def)
  have a: "csiAction (CHR ''B'') [] [int n] b = Done (b\<lparr>cursorRow := wrap64 (cursorRow b + int n)\<rparr>)"
    using assms(2) by (simp add: csiAction_def arg1_def getParameter_def)
  have "handleCsi (CHR ''B'') (decimal n) b = Done (clampCursor (b\<lparr>cursorRow := wrap64 (cursorRow b + int n)\<rparr>))"
    using assms(3) by (simp add: handleCsi_def csiParts_decimal atoi_decimal a)
  also have "clampCursor (b\<lparr>cursorRow := wrap64 (cursorRow b + int n)\<rparr>) =
    b\<lparr>cursorRow := if cursorRow b + int n \<le> max_int64
                    then min (cursorRow b + int n) (rows b - 1) else 0\<rparr>"
  proof (cases "cursorRow b + int n \<le> max_int64")
    case True
    then have "wrap64 (cursorRow b + int n) = cursorRow b + int n"
      using i by (intro wrap64_id) (auto simp: min_int64_def)
    with True i show ?thesis by (auto simp: clampCursor_def Let_def min_def)
  next
    case False
    then have "wrap64 (cursorRow b + int n) = cursorRow b + int n - 18446744073709551616"
      using i assms(3,4) by (intro wrap64_over) (auto simp: max_int64_def)
    with False i assms(3,4) show ?thesis by (auto simp: clampCursor_def Let_def max_int64_def)
  qed
  finally show ?thesis .
qed

lemma cursor_down_witness:
  "handleCsi (CHR ''B'') (decimal 9223372036854775807) ((newBuffer 10)\<lparr>cursorRow := 3\<rparr>) =
    Done ((newBuffer 10)\<lparr>cursorRow := 0\<rparr>)"
proof -
  have "wf_buffer ((newBuffer 10)\<lparr>cursorRow := 3\<rparr>)"
    using newWithSize_wf [of 10 24 80]
    by (auto simp: newBuffer_def wf_buffer_def in_screen_def newWithSize_def sanitizeSize_def
        wf_core_def)
  from cursor_down [OF this, of 9223372036854775807] show ?thesis
    by (simp add: max_int64_def newBuffer_def newWithSize_def sanitizeSize_def)
qed

subsection \<open>Resizing\<close>

lemma resizeScreen_wf: "wf_grid r c (resizeScreen g r0 c0 r c)"
  by (simp add: wf_grid_def resizeScreen_def)

lemma clampTo_in: "0 < n \<Longrightarrow> 0 \<le> x \<Longrightarrow> 0 \<le> clampTo n x \<and> clampTo n x < n"
  by (simp add: clampTo_def)

lemma resize_wf:
  assumes "wf_buffer b"
  shows "wf_buffer (resize r0 c0 b)"
proof -
  obtain r c where rc: "sanitizeSize r0 c0 = (r, c)" "0 < r" "0 < c"
    by (auto simp: sanitizeSize_def)
  show ?thesis
  proof (cases "r = rows b \<and> c = cols b")
    case True
    with assms rc show ?thesis by (simp add: resize_def)
  next
    case False
    note in_new = clampTo_in [OF rc(2)] clampTo_in [OF rc(3)]
    show ?thesis
    proof (cases "primaryGrid b")
      case None
      with False assms rc in_new show ?thesis
        by (simp add: resize_def wf_buffer_def wf_core_def in_screen_def Let_def resizeScreen_wf)
    next
      case (Some g)
      with False assms rc in_new show ?thesis
        by (simp add: resize_def wf_buffer_def wf_core_def in_screen_def Let_def resizeScreen_wf)
    qed
  qed
qed

text \<open>Resizing keeps the buffer well formed, gives it the requested size (24 by 80 where a
  dimension is zero), keeps every cell of the top-left part the two sizes share and fills the rest
  with blanks.\<close>

theorem resize_keeps_top_left:
  assumes "wf_buffer b" and "0 \<le> i" and "i < fst (sanitizeSize r c)"
    and "0 \<le> j" and "j < snd (sanitizeSize r c)"
  shows "wf_buffer (resize r c b) \<and> (rows (resize r c b), cols (resize r c b)) = sanitizeSize r c
    \<and> grid (resize r c b) ! nat i ! nat j =
        (if i < rows b \<and> j < cols b then grid b ! nat i ! nat j else 32)"
proof -
  obtain r1 c1 where rc: "sanitizeSize r c = (r1, c1)" by (cases "sanitizeSize r c")
  have g: "length (grid b) = nat (rows b)" "\<And>k. k < nat (rows b) \<Longrightarrow> length (grid b ! k) = nat (cols b)"
    using assms(1) by (auto simp: wf_buffer_def wf_core_def wf_grid_def)
  show ?thesis
  proof (cases "r1 = rows b \<and> c1 = cols b")
    case True
    with assms rc show ?thesis by (simp add: resize_def)
  next
    case False
    have "grid (resize r c b) = resizeScreen (grid b) (rows b) (cols b) r1 c1"
      "rows (resize r c b) = r1" "cols (resize r c b) = c1"
      using False rc by (auto simp: resize_def Let_def)
    moreover have "resizeScreen (grid b) (rows b) (cols b) r1 c1 ! nat i ! nat j =
        (if i < rows b \<and> j < cols b then grid b ! nat i ! nat j else 32)"
      using assms rc g(1) g(2) [of "nat i"] by (auto simp: resizeScreen_def nth_map)
    ultimately show ?thesis using resize_wf [OF assms(1)] rc by simp
  qed
qed

lemma resize_keeps_top_left_witness:
  "rows (resize 3 9 (newBuffer 10)) = 3 \<and> grid (resize 3 9 (newBuffer 10)) ! 2 ! 1 = 32"
  using resize_keeps_top_left [of "newBuffer 10" 2 3 9 1] newWithSize_wf [of 10 24 80]
  by (simp add: newBuffer_def newWithSize_def sanitizeSize_def makeScreen_def blankRow_def)

end
