(* ===== verification/Channels.thy ===== *)
theory Channels
  imports Prelude
begin

text \<open>
  Go channels as the brokers use them, in an explicit heap because a registry and the goroutine
  that waits share them, and the contract of a registry of one-shot waiters: an identifier owns a
  buffered channel until the first delivery or cancellation. What a waiter sees is decided once.
\<close>

subsection \<open>Channels\<close>

record 'v chan =
  capacity :: nat
  buffered :: "'v list"
  isClosed :: bool

type_synonym 'v heap = "nat \<rightharpoonup> 'v chan"

text \<open>
  A send on a nil channel or on a full one blocks (no receiver is part of the statement), on a
  closed one it panics. Closing a nil or a closed channel panics.
\<close>

definition send :: "nat option \<Rightarrow> 'v \<Rightarrow> 'v heap \<Rightarrow> 'v heap outcome" where
  "send c v h =
     (case Option.bind c h of
        None \<Rightarrow> Hangs
      | Some ch \<Rightarrow>
          if isClosed ch then Panics
          else if length (buffered ch) < capacity ch
               then Done (h(the c \<mapsto> ch\<lparr>buffered := buffered ch @ [v]\<rparr>))
               else Hangs)"

definition closeChan :: "nat option \<Rightarrow> 'v heap \<Rightarrow> 'v heap outcome" where
  "closeChan c h =
     (case Option.bind c h of
        None \<Rightarrow> Panics
      | Some ch \<Rightarrow> if isClosed ch then Panics else Done (h(the c \<mapsto> ch\<lparr>isClosed := True\<rparr>)))"

text \<open>What a receiver gets: a value, the zero value of a closed channel, or nothing yet.\<close>

datatype 'v received = Got 'v | Closed | Blocked

definition receive :: "'v chan \<Rightarrow> 'v received" where
  "receive ch = (case buffered ch of v # _ \<Rightarrow> Got v | [] \<Rightarrow> if isClosed ch then Closed else Blocked)"

definition waiting :: "'v chan" where
  "waiting = \<lparr>capacity = 1, buffered = [], isClosed = False\<rparr>"

definition delivered :: "'v \<Rightarrow> 'v chan" where
  "delivered v = \<lparr>capacity = 1, buffered = [v], isClosed = False\<rparr>"

definition delivered_closed :: "'v \<Rightarrow> 'v chan" where
  "delivered_closed v = \<lparr>capacity = 1, buffered = [v], isClosed = True\<rparr>"

definition closed_empty :: "'v chan" where
  "closed_empty = \<lparr>capacity = 1, buffered = [], isClosed = True\<rparr>"

lemmas chan_defs = waiting_def delivered_def delivered_closed_def closed_empty_def

lemma send_waiting [simp]: "h c = Some waiting \<Longrightarrow> send (Some c) v h = Done (h(c \<mapsto> delivered v))"
  by (simp add: send_def chan_defs)

lemma close_waiting [simp]: "h c = Some waiting \<Longrightarrow> closeChan (Some c) h = Done (h(c \<mapsto> closed_empty))"
  by (simp add: closeChan_def chan_defs)

lemma close_delivered [simp]:
  "h c = Some (delivered v) \<Longrightarrow> closeChan (Some c) h = Done (h(c \<mapsto> delivered_closed v))"
  by (simp add: closeChan_def chan_defs)

lemma receive_simps [simp]:
  "receive waiting = Blocked" "receive (delivered v) = Got v"
  "receive (delivered_closed v) = Got v" "receive closed_empty = Closed"
  by (simp_all add: receive_def chan_defs)

subsection \<open>One-shot waiters\<close>

datatype ('k, 'v) signal = Deliver 'k 'v | Cancel 'k

fun signal_key :: "('k, 'v) signal \<Rightarrow> 'k" where
  "signal_key (Deliver k v) = k"
| "signal_key (Cancel k) = k"

fun apply_signal ::
  "('k \<Rightarrow> 'v \<Rightarrow> 's \<Rightarrow> 's outcome) \<Rightarrow> ('k \<Rightarrow> 's \<Rightarrow> 's outcome) \<Rightarrow> ('k, 'v) signal \<Rightarrow> 's \<Rightarrow> 's outcome"
where
  "apply_signal d c (Deliver k v) = d k v"
| "apply_signal d c (Cancel k) = c k"

text \<open>The first signal for a key in a run of signals.\<close>

definition first_signal :: "'k \<Rightarrow> ('k, 'v) signal list \<Rightarrow> ('k, 'v) signal option" where
  "first_signal k ops = find (\<lambda>x. signal_key x = k) ops"

definition wf_waiters :: "('k \<rightharpoonup> nat) \<Rightarrow> 'v heap \<Rightarrow> bool" where
  "wf_waiters p h \<longleftrightarrow> (\<forall>k c. p k = Some c \<longrightarrow> h c = Some waiting)
     \<and> (\<forall>k l c. p k = Some c \<longrightarrow> p l = Some c \<longrightarrow> k = l)"

lemma wf_waitersD: "wf_waiters p h \<Longrightarrow> p k = Some c \<Longrightarrow> h c = Some waiting"
  by (auto simp: wf_waiters_def)

lemma wf_waiters_resolved:
  "wf_waiters p h \<Longrightarrow> p k = Some c \<Longrightarrow> wf_waiters (p(k := None)) (h(c \<mapsto> ch))"
  by (auto simp: wf_waiters_def)

lemma wf_waiters_removed: "wf_waiters p h \<Longrightarrow> wf_waiters (p(k := None)) h"
  by (auto simp: wf_waiters_def)

lemma wf_waiters_registered:
  "wf_waiters p h \<Longrightarrow> \<forall>k. p k \<noteq> Some c \<Longrightarrow> wf_waiters (p(k \<mapsto> c)) (h(c \<mapsto> waiting))"
  by (auto simp: wf_waiters_def)

text \<open>
  The contract: \<open>pend\<close> gives the channel an identifier owns; a delivery to a pending identifier
  leaves its channel as \<open>answered v\<close> says, a cancellation as \<open>cancelled\<close>, both forget the identifier,
  and both do nothing to an identifier that is not pending.
\<close>

locale one_shot =
  fixes pend :: "'s \<Rightarrow> 'k \<rightharpoonup> nat"
    and heap_of :: "'s \<Rightarrow> 'v heap"
    and good :: "'s \<Rightarrow> bool"
    and deliver :: "'k \<Rightarrow> 'v \<Rightarrow> 's \<Rightarrow> 's outcome"
    and cancel :: "'k \<Rightarrow> 's \<Rightarrow> 's outcome"
    and answered :: "'v \<Rightarrow> 'v chan"
    and cancelled :: "'v chan"
  assumes deliver_hit: "good s \<Longrightarrow> pend s k = Some c \<Longrightarrow> heap_of s c = Some waiting \<Longrightarrow>
      \<exists>t. deliver k v s = Done t \<and> good t \<and> pend t = (pend s)(k := None)
        \<and> heap_of t = (heap_of s)(c \<mapsto> answered v)"
    and deliver_miss: "good s \<Longrightarrow> pend s k = None \<Longrightarrow> deliver k v s = Done s"
    and cancel_hit: "good s \<Longrightarrow> pend s k = Some c \<Longrightarrow> heap_of s c = Some waiting \<Longrightarrow>
      \<exists>t. cancel k s = Done t \<and> good t \<and> pend t = (pend s)(k := None)
        \<and> heap_of t = (heap_of s)(c \<mapsto> cancelled)"
    and cancel_miss: "good s \<Longrightarrow> pend s k = None \<Longrightarrow> cancel k s = Done s"
begin

text \<open>The invariant of a run.\<close>

lemma signal_step:
  assumes g: "good s" and wf: "wf_waiters (pend s) (heap_of s)"
  shows "\<exists>t. apply_signal deliver cancel x s = Done t \<and> good t \<and> wf_waiters (pend t) (heap_of t)
    \<and> pend t = (pend s)(signal_key x := None)
    \<and> (\<forall>c. heap_of t c = (if pend s (signal_key x) = Some c
            then Some (case x of Deliver k v \<Rightarrow> answered v | Cancel k \<Rightarrow> cancelled)
            else heap_of s c))"
proof (cases "pend s (signal_key x)")
  case None
  then have "apply_signal deliver cancel x s = Done s"
    using deliver_miss [OF g] cancel_miss [OF g] by (cases x) auto
  moreover have "pend s = (pend s)(signal_key x := None)" using None by auto
  ultimately show ?thesis using None wf g by auto
next
  case (Some c)
  note w = wf_waitersD [OF wf Some] and r = wf_waiters_resolved [OF wf Some]
  show ?thesis
  proof (cases x)
    case (Deliver k v)
    then obtain t where t: "deliver k v s = Done t" "good t" "pend t = (pend s)(k := None)"
        "heap_of t = (heap_of s)(c \<mapsto> answered v)"
      using deliver_hit [OF g] Some w by fastforce
    then show ?thesis using Some r Deliver by auto
  next
    case (Cancel k)
    then obtain t where t: "cancel k s = Done t" "good t" "pend t = (pend s)(k := None)"
        "heap_of t = (heap_of s)(c \<mapsto> cancelled)"
      using cancel_hit [OF g] Some w by fastforce
    then show ?thesis using Some r Cancel by auto
  qed
qed

text \<open>
  Every run of deliveries and cancellations returns; it forgets exactly the identifiers it names;
  a channel no identifier owns is not touched, and the first signal for an identifier wins.
\<close>

lemma run_signals:
  assumes "good s" and "wf_waiters (pend s) (heap_of s)"
  shows "\<exists>t. for_each (apply_signal deliver cancel) ops s = Done t
    \<and> good t \<and> wf_waiters (pend t) (heap_of t)
    \<and> (\<forall>k. pend t k = (if k \<in> signal_key ` set ops then None else pend s k))
    \<and> (\<forall>c. (\<forall>k. pend s k \<noteq> Some c) \<longrightarrow> heap_of t c = heap_of s c)
    \<and> (\<forall>k c. pend s k = Some c \<longrightarrow> heap_of t c = Some (case first_signal k ops of
          None \<Rightarrow> waiting | Some (Deliver _ v) \<Rightarrow> answered v | Some (Cancel _) \<Rightarrow> cancelled))"
  using assms
proof (induction ops arbitrary: s)
  case Nil
  then show ?case using wf_waitersD by (fastforce simp: first_signal_def)
next
  case (Cons x ops)
  obtain t where t: "apply_signal deliver cancel x s = Done t" "good t"
      "wf_waiters (pend t) (heap_of t)" "pend t = (pend s)(signal_key x := None)"
      "\<And>c. heap_of t c = (if pend s (signal_key x) = Some c
            then Some (case x of Deliver k v \<Rightarrow> answered v | Cancel k \<Rightarrow> cancelled)
            else heap_of s c)"
    using signal_step [OF Cons.prems, of x] by metis
  obtain u where u: "for_each (apply_signal deliver cancel) ops t = Done u" "good u"
      "wf_waiters (pend u) (heap_of u)"
      "\<And>k. pend u k = (if k \<in> signal_key ` set ops then None else pend t k)"
      "\<And>c. (\<forall>k. pend t k \<noteq> Some c) \<Longrightarrow> heap_of u c = heap_of t c"
      "\<And>k c. pend t k = Some c \<Longrightarrow> heap_of u c = Some (case first_signal k ops of
          None \<Rightarrow> waiting | Some (Deliver _ v) \<Rightarrow> answered v | Some (Cancel _) \<Rightarrow> cancelled)"
    using Cons.IH [OF t(2,3)] by metis
  have inj: "pend s k = Some c \<Longrightarrow> pend s l = Some c \<Longrightarrow> k = l" for k l c
    using Cons.prems(2) by (auto simp: wf_waiters_def)
  have named: "heap_of u c = Some (case first_signal k (x # ops) of
          None \<Rightarrow> waiting | Some (Deliver _ v) \<Rightarrow> answered v | Some (Cancel _) \<Rightarrow> cancelled)"
    if k: "pend s k = Some c" for k c
  proof (cases "signal_key x = k")
    case True
    then have "\<forall>l. pend t l \<noteq> Some c" using t(4) k inj by auto
    then have "heap_of u c = heap_of t c" by (rule u(5))
    then show ?thesis using t(5) [of c] True k by (simp add: first_signal_def split: signal.splits)
  next
    case False
    then have "pend t k = Some c" using t(4) k by simp
    from u(6) [OF this] False show ?thesis by (simp add: first_signal_def)
  qed
  have free: "heap_of u c = heap_of s c" if "\<forall>k. pend s k \<noteq> Some c" for c
    using u(5) [of c] t(4,5) that by auto
  have pend: "pend u k = (if k \<in> signal_key ` set (x # ops) then None else pend s k)" for k
    using u(4) [of k] t(4) by auto
  show ?case using t(1) u(1-3) named free pend by auto
qed

text \<open>A delivery to every key of a list.\<close>

lemma run_deliveries:
  assumes "good s" and "wf_waiters (pend s) (heap_of s)" and "distinct ks"
  shows "\<exists>t. for_each (\<lambda>k. deliver k (f k)) ks s = Done t \<and> good t \<and> wf_waiters (pend t) (heap_of t)
    \<and> (\<forall>k. pend t k = (if k \<in> set ks then None else pend s k))
    \<and> (\<forall>k c. k \<in> set ks \<longrightarrow> pend s k = Some c \<longrightarrow> heap_of t c = Some (answered (f k)))
    \<and> (\<forall>k c. k \<notin> set ks \<longrightarrow> pend s k = Some c \<longrightarrow> heap_of t c = Some waiting)"
proof -
  have eq: "for_each (\<lambda>k. deliver k (f k)) ks s =
      for_each (apply_signal deliver cancel) (map (\<lambda>k. Deliver k (f k)) ks) s" for s
  proof (induction ks arbitrary: s)
    case Nil
    then show ?case by simp
  next
    case (Cons k ks)
    then show ?case by (cases "deliver k (f k) s") simp_all
  qed
  have hit: "k \<in> set ks \<Longrightarrow> first_signal k (map (\<lambda>k. Deliver k (f k)) ks) = Some (Deliver k (f k))" for k
    by (induction ks) (auto simp: first_signal_def)
  have miss: "k \<notin> set ks \<Longrightarrow> first_signal k (map (\<lambda>k. Deliver k (f k)) ks) = None" for k
    by (induction ks) (auto simp: first_signal_def)
  have keys: "signal_key ` set (map (\<lambda>k. Deliver k (f k)) ks) = set ks" by (force simp: image_iff)
  show ?thesis
    using run_signals [OF assms(1,2), of "map (\<lambda>k. Deliver k (f k)) ks"]
    unfolding eq keys by (auto simp: hit miss)
qed

end

end
