(* ===== verification/QuestionBroker.thy ===== *)
theory QuestionBroker
  imports Channels "HOL-Library.List_Lexorder" "HOL-Library.Char_ord"
begin

text \<open>
  The question broker (\<open>internal/integrations/questions/broker.go\<close>): the pending questions by
  identifier, each with the channel its tool waits on. The broker's mutex is held by every
  operation around its map accesses, so each operation is one step; a Go map is a partial function,
  and where the code ranges over one, the model takes the iteration order as an argument.
\<close>

record answer =
  answerText :: string
  otherText :: string

record question =
  questionId :: string
  questionConversation :: string
  questionAgent :: string
  questionUser :: string
  questionRun :: string
  questionToolCall :: string
  questionText :: string
  questionChoices :: "string list"
  questionAllowOther :: bool
  questionOtherLabel :: string
  questionOtherPlaceholder :: string
  answerChan :: "nat option"

record question_broker =
  questions :: "string \<rightharpoonup> question"
  answers :: "answer heap"

datatype question_error = QuestionNotFound string | QuestionNotAuthorized

definition newQuestionBroker :: question_broker where
  "newQuestionBroker = \<lparr>questions = Map.empty, answers = Map.empty\<rparr>"

text \<open>\<open>MakeAnswerChan\<close> at a fresh heap address, and \<open>SetAnswerChan\<close>.\<close>

definition makeAnswerChan :: "nat \<Rightarrow> question_broker \<Rightarrow> question_broker" where
  "makeAnswerChan c b =
     b\<lparr>answers := (answers b)(c \<mapsto> \<lparr>capacity = 1, buffered = [], isClosed = False\<rparr>)\<rparr>"

definition setAnswerChan :: "nat \<Rightarrow> question \<Rightarrow> question" where
  "setAnswerChan c q = q\<lparr>answerChan := Some c\<rparr>"

definition registerQuestion :: "question \<Rightarrow> question_broker \<Rightarrow> question_broker" where
  "registerQuestion q b = b\<lparr>questions := (questions b)(questionId q \<mapsto> q)\<rparr>"

definition forgetQuestion :: "string \<Rightarrow> question_broker \<Rightarrow> question_broker" where
  "forgetQuestion k b = b\<lparr>questions := (questions b)(k := None)\<rparr>"

definition sendAnswer :: "question \<Rightarrow> answer \<Rightarrow> question_broker \<Rightarrow> question_broker outcome" where
  "sendAnswer q v b =
     and_then (send (answerChan q) v (answers b)) (\<lambda>h. Done (b\<lparr>answers := h\<rparr>))"

definition answerQuestion ::
  "string \<Rightarrow> answer \<Rightarrow> question_broker \<Rightarrow> (question_error option \<times> question_broker) outcome" where
  "answerQuestion k v b =
     (case questions b k of
        None \<Rightarrow> Done (Some (QuestionNotFound k), b)
      | Some q \<Rightarrow> and_then (sendAnswer q v (forgetQuestion k b)) (\<lambda>t. Done (None, t)))"

definition cancelQuestion :: "string \<Rightarrow> question_broker \<Rightarrow> question_broker outcome" where
  "cancelQuestion k b =
     (case questions b k of
        None \<Rightarrow> Done b
      | Some q \<Rightarrow>
          and_then (closeChan (answerChan q) (answers b))
            (\<lambda>h. Done ((forgetQuestion k b)\<lparr>answers := h\<rparr>)))"

definition pendingForConversation :: "string list \<Rightarrow> string \<Rightarrow> question_broker \<Rightarrow> question list" where
  "pendingForConversation order conversation b =
     filter (\<lambda>q. questionConversation q = conversation) (List.map_filter (questions b) order)"

definition verifyOwnership :: "string \<Rightarrow> string \<Rightarrow> question_broker \<Rightarrow> question_error option" where
  "verifyOwnership k caller b =
     (case questions b k of
        None \<Rightarrow> Some (QuestionNotFound k)
      | Some q \<Rightarrow> if questionUser q \<noteq> caller then Some QuestionNotAuthorized else None)"

text \<open>
  \<open>AnswerBatch\<close>: phase 1 checks every identifier in the iteration order of \<open>answers\<close> and collects the
  questions, phase 2 delivers in the iteration order of the collected map.
\<close>

fun checkAnswers ::
  "string list \<Rightarrow> string \<Rightarrow> question_broker \<Rightarrow> (string \<rightharpoonup> question)
   \<Rightarrow> question_error + (string \<rightharpoonup> question)" where
  "checkAnswers [] caller b found = Inr found"
| "checkAnswers (k # ks) caller b found =
     (case questions b k of
        None \<Rightarrow> Inl (QuestionNotFound k)
      | Some q \<Rightarrow>
          if questionUser q \<noteq> caller then Inl QuestionNotAuthorized
          else checkAnswers ks caller b (found(k \<mapsto> q)))"

definition deliverAnswer ::
  "(string \<rightharpoonup> question) \<Rightarrow> (string \<Rightarrow> answer) \<Rightarrow> string \<Rightarrow> question_broker \<Rightarrow> question_broker outcome"
where
  "deliverAnswer found given k b =
     (case found k of None \<Rightarrow> Done b | Some q \<Rightarrow> sendAnswer q (given k) (forgetQuestion k b))"

definition answerBatch ::
  "string list \<Rightarrow> string list \<Rightarrow> (string \<Rightarrow> answer) \<Rightarrow> string \<Rightarrow> question_broker
   \<Rightarrow> (question_error option \<times> question_broker) outcome" where
  "answerBatch checkOrder deliverOrder given caller b =
     (case checkAnswers checkOrder caller b Map.empty of
        Inl e \<Rightarrow> Done (Some e, b)
      | Inr found \<Rightarrow>
          and_then (for_each (deliverAnswer found given) deliverOrder b) (\<lambda>t. Done (None, t)))"

subsection \<open>The registry contract\<close>

definition question_waiters :: "question_broker \<Rightarrow> string \<rightharpoonup> nat" where
  "question_waiters b k = Option.bind (questions b k) answerChan"

definition all_have_chan :: "question_broker \<Rightarrow> bool" where
  "all_have_chan b \<longleftrightarrow> (\<forall>k q. questions b k = Some q \<longrightarrow> answerChan q \<noteq> None)"

definition wf_questions :: "question_broker \<Rightarrow> bool" where
  "wf_questions b \<longleftrightarrow> all_have_chan b \<and> wf_waiters (question_waiters b) (answers b)"

definition answer_signal :: "string \<Rightarrow> answer \<Rightarrow> question_broker \<Rightarrow> question_broker outcome" where
  "answer_signal k v b = and_then (answerQuestion k v b) (\<lambda>r. Done (snd r))"

lemma question_waiters_forget:
  "question_waiters ((forgetQuestion k b)\<lparr>answers := h\<rparr>) = (question_waiters b)(k := None)"
  "all_have_chan b \<Longrightarrow> all_have_chan ((forgetQuestion k b)\<lparr>answers := h\<rparr>)"
  by (auto simp: question_waiters_def forgetQuestion_def all_have_chan_def fun_eq_iff)

lemma question_waiters_hit:
  "question_waiters b k = Some c \<Longrightarrow> \<exists>q. questions b k = Some q \<and> answerChan q = Some c"
  by (cases "questions b k") (auto simp: question_waiters_def)

lemma question_waiters_miss:
  "all_have_chan b \<Longrightarrow> question_waiters b k = None \<Longrightarrow> questions b k = None"
  by (cases "questions b k") (fastforce simp: question_waiters_def all_have_chan_def)+

lemma forget_answers [simp]: "answers (forgetQuestion k b) = answers b"
  by (simp add: forgetQuestion_def)

interpretation qreg: one_shot question_waiters answers all_have_chan answer_signal cancelQuestion
  delivered closed_empty
proof unfold_locales
  fix s k c v
  assume s: "all_have_chan s" "question_waiters s k = Some c" "answers s c = Some waiting"
  then obtain q where q: "questions s k = Some q" "answerChan q = Some c"
    using question_waiters_hit by blast
  show "\<exists>t. answer_signal k v s = Done t \<and> all_have_chan t
      \<and> question_waiters t = (question_waiters s)(k := None) \<and> answers t = (answers s)(c \<mapsto> delivered v)"
    using s q question_waiters_forget
    by (simp add: answer_signal_def answerQuestion_def sendAnswer_def)
  show "\<exists>t. cancelQuestion k s = Done t \<and> all_have_chan t
      \<and> question_waiters t = (question_waiters s)(k := None) \<and> answers t = (answers s)(c \<mapsto> closed_empty)"
    using s q question_waiters_forget by (simp add: cancelQuestion_def)
next
  fix s k v
  assume "all_have_chan s" "question_waiters s k = None"
  then have "questions s k = None" by (rule question_waiters_miss)
  then show "answer_signal k v s = Done s" "cancelQuestion k s = Done s"
    by (simp_all add: answer_signal_def answerQuestion_def cancelQuestion_def)
qed

lemma registerQuestion_wf:
  assumes "wf_questions b" and "\<forall>k. question_waiters b k \<noteq> Some c"
  shows "wf_questions (registerQuestion (setAnswerChan c q) (makeAnswerChan c b))"
proof -
  let ?t = "registerQuestion (setAnswerChan c q) (makeAnswerChan c b)"
  have "question_waiters ?t = (question_waiters b)(questionId q \<mapsto> c)"
    by (auto simp: question_waiters_def registerQuestion_def setAnswerChan_def makeAnswerChan_def fun_eq_iff)
  moreover have "answers ?t = (answers b)(c \<mapsto> waiting)"
    by (simp add: registerQuestion_def makeAnswerChan_def waiting_def)
  moreover have "all_have_chan ?t"
    using assms(1) by (auto simp: wf_questions_def all_have_chan_def registerQuestion_def setAnswerChan_def makeAnswerChan_def)
  ultimately show ?thesis
    using wf_waiters_registered [OF _ assms(2), of "answers b"] assms(1) by (simp add: wf_questions_def)
qed

subsection \<open>Batches\<close>

lemma verifyOwnership_None:
  "verifyOwnership k caller b = None \<longleftrightarrow> (\<exists>q. questions b k = Some q \<and> questionUser q = caller)"
  by (auto simp: verifyOwnership_def split: option.splits)

lemma checkAnswers_Inr:
  "\<forall>k\<in>set ks. verifyOwnership k caller b = None \<Longrightarrow>
   checkAnswers ks caller b found = Inr (\<lambda>k. if k \<in> set ks then questions b k else found k)"
proof (induction ks arbitrary: found)
  case Nil
  then show ?case by simp
next
  case (Cons k ks)
  then obtain q where q: "questions b k = Some q" "questionUser q = caller"
    by (auto simp: verifyOwnership_None)
  have eq: "(\<lambda>l. if l \<in> set ks then questions b l else (found(k \<mapsto> q)) l) =
      (\<lambda>l. if l \<in> set (k # ks) then questions b l else found l)"
    using q by auto
  have "checkAnswers (k # ks) caller b found = checkAnswers ks caller b (found(k \<mapsto> q))"
    using q by simp
  also have "\<dots> = Inr (\<lambda>l. if l \<in> set ks then questions b l else (found(k \<mapsto> q)) l)"
    by (rule Cons.IH) (use Cons.prems in simp)
  finally show ?case by (simp only: eq)
qed

lemma checkAnswers_Inl:
  "\<exists>k\<in>set ks. verifyOwnership k caller b \<noteq> None \<Longrightarrow>
   \<exists>e. checkAnswers ks caller b found = Inl e \<and> (\<exists>k\<in>set ks. verifyOwnership k caller b = Some e)"
proof (induction ks arbitrary: found)
  case Nil
  then show ?case by simp
next
  case (Cons k ks)
  show ?case
  proof (cases "verifyOwnership k caller b")
    case None
    then obtain q where "questions b k = Some q" "questionUser q = caller"
      by (auto simp: verifyOwnership_None)
    then show ?thesis using Cons None by auto
  next
    case (Some e)
    then have "checkAnswers (k # ks) caller b found = Inl e"
      by (auto simp: verifyOwnership_def split: option.splits if_splits)
    with Some show ?thesis by auto
  qed
qed

text \<open>The delivery loop is the delivery of the single answers, one after the other.\<close>

lemma deliverAnswer_signal:
  "found k = questions b k \<Longrightarrow> questions b k \<noteq> None \<Longrightarrow>
   deliverAnswer found given k b = answer_signal k (given k) b"
  by (cases "sendAnswer (the (questions b k)) (given k) (forgetQuestion k b)")
    (auto simp: deliverAnswer_def answer_signal_def answerQuestion_def)

lemma answer_signal_frame:
  "answer_signal k v b = Done t \<Longrightarrow> l \<noteq> k \<Longrightarrow> questions t l = questions b l"
  by (auto simp: answer_signal_def answerQuestion_def sendAnswer_def forgetQuestion_def outcome_simps
      split: option.splits)

lemma deliver_loop:
  assumes "distinct ks" and "\<forall>k\<in>set ks. found k = questions b k \<and> questions b k \<noteq> None"
  shows "for_each (deliverAnswer found given) ks b = for_each (\<lambda>k. answer_signal k (given k)) ks b"
  using assms
proof (induction ks arbitrary: b)
  case Nil
  then show ?case by simp
next
  case (Cons k ks)
  have d: "deliverAnswer found given k b = answer_signal k (given k) b"
    using Cons.prems by (intro deliverAnswer_signal) auto
  show ?case
  proof (cases "answer_signal k (given k) b")
    case (Done t)
    have "\<forall>l\<in>set ks. questions t l = questions b l"
      using answer_signal_frame [OF Done] Cons.prems(1) by (metis distinct.simps(2))
    then show ?thesis using Cons d Done by simp
  qed (simp_all add: d)
qed

text \<open>The first answer or cancellation of a pending question decides what its tool receives, every
  later one finds nothing to do, and none of them blocks or panics.\<close>

theorem question_first_wins:
  assumes "wf_questions b" and "question_waiters b k = Some c"
  shows "\<exists>t. for_each (apply_signal answer_signal cancelQuestion) ops b = Done t \<and> wf_questions t
    \<and> map_option receive (answers t c) = Some (case first_signal k ops of
          None \<Rightarrow> Blocked | Some (Deliver _ v) \<Rightarrow> Got v | Some (Cancel _) \<Rightarrow> Closed)"
  using qreg.run_signals [of b ops] assms
  by (fastforce simp: wf_questions_def split: option.splits signal.splits)

text \<open>A batch of answers is all or nothing, in whatever order the two maps are ranged over. If
  every question is pending and belongs to the caller, all of them receive their answers and are
  forgotten, and no other question is touched; otherwise the error is that of one of the
  questions and nothing changes. No delivery blocks while the mutex is held.\<close>

theorem answer_batch_atomic:
  assumes wf: "wf_questions b" and o1: "set checkOrder = ids" and o2: "set deliverOrder = ids"
    and d: "distinct deliverOrder"
  shows "if \<forall>k\<in>ids. verifyOwnership k caller b = None
    then \<exists>t. answerBatch checkOrder deliverOrder given caller b = Done (None, t) \<and> wf_questions t
      \<and> (\<forall>k. question_waiters t k = (if k \<in> ids then None else question_waiters b k))
      \<and> (\<forall>k c. question_waiters b k = Some c \<longrightarrow>
            answers t c = Some (if k \<in> ids then delivered (given k) else waiting))
    else \<exists>e. answerBatch checkOrder deliverOrder given caller b = Done (Some e, b)
      \<and> (\<exists>k\<in>ids. verifyOwnership k caller b = Some e)"
proof (cases "\<forall>k\<in>ids. verifyOwnership k caller b = None")
  case True
  let ?found = "\<lambda>k. if k \<in> ids then questions b k else None"
  have "checkAnswers checkOrder caller b Map.empty = Inr ?found"
    using checkAnswers_Inr [of checkOrder caller b Map.empty] True o1 by simp
  moreover have "for_each (deliverAnswer ?found given) deliverOrder b =
      for_each (\<lambda>k. answer_signal k (given k)) deliverOrder b"
    using True o2 by (intro deliver_loop [OF d]) (auto simp: verifyOwnership_None)
  ultimately show ?thesis
    using qreg.run_deliveries [of b deliverOrder given] wf d o2 True
    by (fastforce simp: answerBatch_def wf_questions_def)
next
  case False
  then obtain e where "checkAnswers checkOrder caller b Map.empty = Inl e"
      "\<exists>k\<in>ids. verifyOwnership k caller b = Some e"
    using checkAnswers_Inl [of checkOrder caller b Map.empty] o1 by blast
  with False show ?thesis by (auto simp: answerBatch_def)
qed

definition sampleQuestion :: question where
  "sampleQuestion =
     \<lparr>questionId = ''q'', questionConversation = ''c'', questionAgent = ''a'', questionUser = ''u'',
      questionRun = ''r'', questionToolCall = ''t'', questionText = ''Sure?'',
      questionChoices = [''yes'', ''no''], questionAllowOther = False, questionOtherLabel = [],
      questionOtherPlaceholder = [], answerChan = None\<rparr>"

definition sampleQuestions :: question_broker where
  "sampleQuestions =
     registerQuestion (setAnswerChan 7 sampleQuestion) (makeAnswerChan 7 newQuestionBroker)"

lemma sampleQuestions_wf: "wf_questions sampleQuestions"
  unfolding sampleQuestions_def
  by (rule registerQuestion_wf)
    (auto simp: wf_questions_def newQuestionBroker_def all_have_chan_def wf_waiters_def question_waiters_def)

lemma sampleQuestions_waiter: "question_waiters sampleQuestions ''q'' = Some 7"
  by (simp add: sampleQuestions_def sampleQuestion_def question_waiters_def registerQuestion_def
      setAnswerChan_def makeAnswerChan_def)

lemma question_first_wins_witness:
  "\<exists>t. for_each (apply_signal answer_signal cancelQuestion)
      [Deliver ''q'' \<lparr>answerText = ''yes'', otherText = []\<rparr>, Cancel ''q''] sampleQuestions = Done t
    \<and> map_option receive (answers t 7) = Some (Got \<lparr>answerText = ''yes'', otherText = []\<rparr>)"
  using question_first_wins [OF sampleQuestions_wf sampleQuestions_waiter,
      of "[Deliver ''q'' \<lparr>answerText = ''yes'', otherText = []\<rparr>, Cancel ''q'']"]
  by (auto simp: first_signal_def)

lemma answer_batch_atomic_witness:
  "\<exists>t. answerBatch [''q''] [''q''] (\<lambda>_. \<lparr>answerText = ''no'', otherText = []\<rparr>) ''u'' sampleQuestions =
      Done (None, t) \<and> question_waiters t ''q'' = None"
proof -
  have "verifyOwnership ''q'' ''u'' sampleQuestions = None"
    by (simp add: verifyOwnership_def sampleQuestions_def sampleQuestion_def registerQuestion_def
        setAnswerChan_def makeAnswerChan_def)
  then show ?thesis
    using answer_batch_atomic [OF sampleQuestions_wf, of "[''q'']" "{''q''}" "[''q'']" "''u''"
        "\<lambda>_. \<lparr>answerText = ''no'', otherText = []\<rparr>"] by auto
qed

end
