(* ===== verification/ApprovalBroker.thy ===== *)
theory ApprovalBroker
  imports Channels "HOL-Library.List_Lexorder" "HOL-Library.Char_ord"
begin

text \<open>
  The approval broker (\<open>internal/integrations/approvals\<close>): tool calls that wait for the user's
  verdict. Batches are validated as a whole and then delivered, each channel closed after its
  verdict; the list for a conversation is sorted by identifier.
\<close>

datatype verdict = Approved | Rejected

record approval_payload =
  verdict_of :: verdict
  reason :: string

record approval =
  approvalId :: string
  approvalConversation :: string
  approvalAgent :: string
  approvalUser :: string
  approvalRun :: string
  approvalToolCall :: string
  approvalToolName :: string
  approvalArguments :: string
  policyReason :: string
  approvalRisk :: string
  approvalChan :: "nat option"

record approval_broker =
  approvals :: "string \<rightharpoonup> approval"
  verdicts :: "approval_payload heap"

datatype approval_error = EmptyPayloads | ApprovalNotFound string | ApprovalNotOwned

definition newApprovalBroker :: approval_broker where
  "newApprovalBroker = \<lparr>approvals = Map.empty, verdicts = Map.empty\<rparr>"

definition makeApprovalChan :: "nat \<Rightarrow> approval_broker \<Rightarrow> approval_broker" where
  "makeApprovalChan c b =
     b\<lparr>verdicts := (verdicts b)(c \<mapsto> \<lparr>capacity = 1, buffered = [], isClosed = False\<rparr>)\<rparr>"

definition setApprovalChan :: "nat \<Rightarrow> approval \<Rightarrow> approval" where
  "setApprovalChan c p = p\<lparr>approvalChan := Some c\<rparr>"

text \<open>\<open>Register\<close> ignores a nil approval and one without identifier.\<close>

definition registerApproval :: "approval option \<Rightarrow> approval_broker \<Rightarrow> approval_broker" where
  "registerApproval p b =
     (case p of
        None \<Rightarrow> b
      | Some a \<Rightarrow>
          if approvalId a = [] then b
          else b\<lparr>approvals := (approvals b)(approvalId a \<mapsto> a)\<rparr>)"

definition approvalsForConversation :: "string list \<Rightarrow> string \<Rightarrow> approval_broker \<Rightarrow> approval list" where
  "approvalsForConversation order conversation b =
     (if conversation = [] then []
      else sort_key approvalId
        (filter (\<lambda>a. approvalConversation a = conversation) (List.map_filter (approvals b) order)))"

definition forgetApproval :: "string \<Rightarrow> approval_broker \<Rightarrow> approval_broker" where
  "forgetApproval k b = b\<lparr>approvals := (approvals b)(k := None)\<rparr>"

definition checkApproval :: "string \<Rightarrow> string \<Rightarrow> approval_broker \<Rightarrow> approval_error option" where
  "checkApproval caller k b =
     (case approvals b k of
        None \<Rightarrow> Some (ApprovalNotFound k)
      | Some a \<Rightarrow> if approvalUser a \<noteq> caller then Some ApprovalNotOwned else None)"

fun checkApprovals :: "string list \<Rightarrow> string \<Rightarrow> approval_broker \<Rightarrow> approval_error option" where
  "checkApprovals [] caller b = None"
| "checkApprovals (k # ks) caller b =
     (case checkApproval caller k b of Some e \<Rightarrow> Some e | None \<Rightarrow> checkApprovals ks caller b)"

text \<open>The second loop's body; \<open>pending\<close> is nil for an identifier that is not in the map.\<close>

definition resolveApproval :: "string \<Rightarrow> approval_payload \<Rightarrow> approval_broker \<Rightarrow> approval_broker outcome" where
  "resolveApproval k v b =
     (case approvals b k of
        None \<Rightarrow> Panics
      | Some a \<Rightarrow>
          (case approvalChan a of
             None \<Rightarrow> Done (forgetApproval k b)
           | Some c \<Rightarrow>
               and_then (send (Some c) v (verdicts b))
                 (\<lambda>h. and_then (closeChan (Some c) h)
                        (\<lambda>h'. Done ((forgetApproval k b)\<lparr>verdicts := h'\<rparr>)))))"

definition resolveBatch ::
  "string list \<Rightarrow> string list \<Rightarrow> (string \<Rightarrow> approval_payload) \<Rightarrow> string \<Rightarrow> approval_broker
   \<Rightarrow> (approval_error option \<times> approval_broker) outcome" where
  "resolveBatch checkOrder deliverOrder payloads caller b =
     (if checkOrder = [] then Done (Some EmptyPayloads, b)
      else (case checkApprovals checkOrder caller b of
              Some e \<Rightarrow> Done (Some e, b)
            | None \<Rightarrow>
                and_then (for_each (\<lambda>k. resolveApproval k (payloads k)) deliverOrder b)
                  (\<lambda>t. Done (None, t))))"

definition cancelApproval :: "string \<Rightarrow> approval_broker \<Rightarrow> approval_broker outcome" where
  "cancelApproval k b =
     (if k = [] then Done b
      else (case Option.bind (approvals b k) approvalChan of
              None \<Rightarrow> Done (forgetApproval k b)
            | Some c \<Rightarrow>
                and_then (closeChan (Some c) (verdicts b))
                  (\<lambda>h. Done ((forgetApproval k b)\<lparr>verdicts := h\<rparr>))))"

subsection \<open>The registry contract\<close>

definition approval_waiters :: "approval_broker \<Rightarrow> string \<rightharpoonup> nat" where
  "approval_waiters b k = Option.bind (approvals b k) approvalChan"

text \<open>Approvals are stored under their own, non-empty identifier and have a channel.\<close>

definition good_approvals :: "approval_broker \<Rightarrow> bool" where
  "good_approvals b \<longleftrightarrow> (\<forall>k a. approvals b k = Some a \<longrightarrow> approvalId a = k \<and> k \<noteq> [] \<and> approvalChan a \<noteq> None)"

definition wf_approvals :: "approval_broker \<Rightarrow> bool" where
  "wf_approvals b \<longleftrightarrow> good_approvals b \<and> wf_waiters (approval_waiters b) (verdicts b)"

text \<open>A resolution of one identifier by its owner, as a signal to the waiting runner.\<close>

definition resolve_signal :: "string \<Rightarrow> approval_payload \<Rightarrow> approval_broker \<Rightarrow> approval_broker outcome" where
  "resolve_signal k v b =
     and_then (resolveBatch [k] [k] (\<lambda>_. v)
         (case approvals b k of None \<Rightarrow> [] | Some a \<Rightarrow> approvalUser a) b)
       (\<lambda>r. Done (snd r))"

lemma approval_waiters_forget:
  "approval_waiters ((forgetApproval k b)\<lparr>verdicts := h\<rparr>) = (approval_waiters b)(k := None)"
  "good_approvals b \<Longrightarrow> good_approvals ((forgetApproval k b)\<lparr>verdicts := h\<rparr>)"
  by (auto simp: approval_waiters_def forgetApproval_def good_approvals_def fun_eq_iff)

lemma approval_waiters_hit:
  "approval_waiters b k = Some c \<Longrightarrow> \<exists>a. approvals b k = Some a \<and> approvalChan a = Some c"
  by (cases "approvals b k") (auto simp: approval_waiters_def)

lemma approval_waiters_miss:
  assumes "good_approvals b" and "approval_waiters b k = None"
  shows "approvals b k = None"
proof (cases "approvals b k")
  case (Some a)
  with assms show ?thesis by (force simp: good_approvals_def approval_waiters_def)
qed

lemma resolveApproval_hit:
  assumes "approvals b k = Some a" and "approvalChan a = Some c" and "verdicts b c = Some waiting"
  shows "resolveApproval k v b =
    Done ((forgetApproval k b)\<lparr>verdicts := (verdicts b)(c \<mapsto> delivered_closed v)\<rparr>)"
  using assms by (simp add: resolveApproval_def)

lemma resolve_signal_hit:
  assumes "approvals b k = Some a"
  shows "resolve_signal k v b = resolveApproval k v b"
  using assms
  by (cases "resolveApproval k v b")
    (simp_all add: resolve_signal_def resolveBatch_def checkApproval_def)

lemma resolve_signal_miss: "approvals b k = None \<Longrightarrow> resolve_signal k v b = Done b"
  by (simp add: resolve_signal_def resolveBatch_def checkApproval_def)

lemma forgetApproval_miss:
  assumes "approvals b k = None"
  shows "forgetApproval k b = b"
proof -
  have "(approvals b)(k := None) = approvals b" using assms by auto
  then show ?thesis by (simp add: forgetApproval_def)
qed

interpretation areg: one_shot approval_waiters verdicts good_approvals resolve_signal cancelApproval
  delivered_closed closed_empty
proof unfold_locales
  fix s k c v
  assume s: "good_approvals s" "approval_waiters s k = Some c" "verdicts s c = Some waiting"
  then obtain a where a: "approvals s k = Some a" "approvalChan a = Some c"
    using approval_waiters_hit by blast
  then have "k \<noteq> []" using s(1) by (auto simp: good_approvals_def)
  then show "\<exists>t. cancelApproval k s = Done t \<and> good_approvals t
      \<and> approval_waiters t = (approval_waiters s)(k := None) \<and> verdicts t = (verdicts s)(c \<mapsto> closed_empty)"
    using s a approval_waiters_forget by (simp add: cancelApproval_def)
  show "\<exists>t. resolve_signal k v s = Done t \<and> good_approvals t
      \<and> approval_waiters t = (approval_waiters s)(k := None) \<and> verdicts t = (verdicts s)(c \<mapsto> delivered_closed v)"
    using s a approval_waiters_forget by (simp add: resolve_signal_hit resolveApproval_hit)
next
  fix s k v
  assume "good_approvals s" "approval_waiters s k = None"
  then have n: "approvals s k = None" by (rule approval_waiters_miss)
  then show "resolve_signal k v s = Done s" by (rule resolve_signal_miss)
  from n show "cancelApproval k s = Done s"
    by (simp add: cancelApproval_def forgetApproval_miss)
qed

lemma registerApproval_wf:
  assumes "wf_approvals b" and "\<forall>k. approval_waiters b k \<noteq> Some c"
  shows "wf_approvals (registerApproval (Some (setApprovalChan c a)) (makeApprovalChan c b))"
proof -
  let ?t = "registerApproval (Some (setApprovalChan c a)) (makeApprovalChan c b)"
  have v: "verdicts ?t = (verdicts b)(c \<mapsto> waiting)"
    by (simp add: registerApproval_def makeApprovalChan_def waiting_def)
  have g: "good_approvals ?t"
    using assms(1) by (auto simp: wf_approvals_def good_approvals_def registerApproval_def setApprovalChan_def makeApprovalChan_def)
  show ?thesis
  proof (cases "approvalId a = []")
    case True
    then have "approval_waiters ?t = approval_waiters b"
      by (auto simp: approval_waiters_def registerApproval_def setApprovalChan_def makeApprovalChan_def)
    then show ?thesis using assms v g by (auto simp: wf_approvals_def wf_waiters_def)
  next
    case False
    then have "approval_waiters ?t = (approval_waiters b)(approvalId a \<mapsto> c)"
      by (auto simp: approval_waiters_def registerApproval_def setApprovalChan_def makeApprovalChan_def fun_eq_iff)
    then show ?thesis
      using wf_waiters_registered [OF _ assms(2), of "verdicts b"] assms(1) v g
      by (simp add: wf_approvals_def)
  qed
qed

subsection \<open>Batches\<close>

lemma checkApprovals_None:
  "checkApprovals ks caller b = None \<longleftrightarrow> (\<forall>k\<in>set ks. checkApproval caller k b = None)"
  by (induction ks) (auto split: option.split)

lemma checkApprovals_Some:
  "checkApprovals ks caller b = Some e \<Longrightarrow> \<exists>k\<in>set ks. checkApproval caller k b = Some e"
  by (induction ks) (auto split: option.splits)

lemma checkApproval_None: "checkApproval caller k b = None \<Longrightarrow> approvals b k \<noteq> None"
  by (auto simp: checkApproval_def split: option.splits)

lemma resolveApproval_frame:
  "resolveApproval k v b = Done t \<Longrightarrow> l \<noteq> k \<Longrightarrow> approvals t l = approvals b l"
  by (auto simp: resolveApproval_def forgetApproval_def outcome_simps split: option.splits)

lemma resolve_loop:
  assumes "distinct ks" and "\<forall>k\<in>set ks. approvals b k \<noteq> None"
  shows "for_each (\<lambda>k. resolveApproval k (f k)) ks b = for_each (\<lambda>k. resolve_signal k (f k)) ks b"
  using assms
proof (induction ks arbitrary: b)
  case Nil
  then show ?case by simp
next
  case (Cons k ks)
  have d: "resolve_signal k (f k) b = resolveApproval k (f k) b"
    using Cons.prems by (auto simp: resolve_signal_hit)
  show ?case
  proof (cases "resolveApproval k (f k) b")
    case (Done t)
    have "\<forall>l\<in>set ks. approvals t l \<noteq> None"
      using resolveApproval_frame [OF Done] Cons.prems by (metis distinct.simps(2) list.set_intros(2))
    then show ?thesis using Cons d Done by simp
  qed (simp_all add: d)
qed

text \<open>A batch of verdicts is all or nothing, in whatever order the map is ranged over. If every
  approval is pending and belongs to the caller, every waiting runner receives its own verdict on a
  then closed channel and nothing else changes; otherwise the broker stays as it was and the
  error is that of one of the identifiers. An empty batch is refused. No delivery blocks or
  panics while the mutex is held.\<close>

theorem resolve_batch_atomic:
  assumes wf: "wf_approvals b" and o1: "set checkOrder = ids" and o2: "set deliverOrder = ids"
    and d: "distinct deliverOrder"
  shows "if ids = {} then resolveBatch checkOrder deliverOrder payloads caller b = Done (Some EmptyPayloads, b)
    else if \<forall>k\<in>ids. checkApproval caller k b = None
    then \<exists>t. resolveBatch checkOrder deliverOrder payloads caller b = Done (None, t) \<and> wf_approvals t
      \<and> (\<forall>k. approval_waiters t k = (if k \<in> ids then None else approval_waiters b k))
      \<and> (\<forall>k c. approval_waiters b k = Some c \<longrightarrow>
            verdicts t c = Some (if k \<in> ids then delivered_closed (payloads k) else waiting))
    else \<exists>e. resolveBatch checkOrder deliverOrder payloads caller b = Done (Some e, b)
      \<and> (\<exists>k\<in>ids. checkApproval caller k b = Some e)"
proof (cases "ids = {}")
  case True
  then show ?thesis using o1 by (simp add: resolveBatch_def)
next
  case False
  then have ne: "checkOrder \<noteq> []" using o1 by auto
  have w: "good_approvals b" "wf_waiters (approval_waiters b) (verdicts b)"
    using wf by (auto simp: wf_approvals_def)
  show ?thesis
  proof (cases "\<forall>k\<in>ids. checkApproval caller k b = None")
    case True
    have "checkApprovals checkOrder caller b = None" using True o1 by (simp add: checkApprovals_None)
    moreover have "for_each (\<lambda>k. resolveApproval k (payloads k)) deliverOrder b =
        for_each (\<lambda>k. resolve_signal k (payloads k)) deliverOrder b"
      using True o2 checkApproval_None by (intro resolve_loop [OF d]) blast
    moreover obtain t where t: "for_each (\<lambda>k. resolve_signal k (payloads k)) deliverOrder b = Done t"
        "wf_approvals t" "\<forall>k. approval_waiters t k = (if k \<in> ids then None else approval_waiters b k)"
        "\<forall>k c. k \<in> ids \<longrightarrow> approval_waiters b k = Some c \<longrightarrow> verdicts t c = Some (delivered_closed (payloads k))"
        "\<forall>k c. k \<notin> ids \<longrightarrow> approval_waiters b k = Some c \<longrightarrow> verdicts t c = Some waiting"
      using areg.run_deliveries [OF w d, of payloads] unfolding o2 wf_approvals_def by blast
    ultimately have "resolveBatch checkOrder deliverOrder payloads caller b = Done (None, t)"
      using ne by (simp add: resolveBatch_def)
    moreover have "\<forall>k c. approval_waiters b k = Some c \<longrightarrow>
        verdicts t c = Some (if k \<in> ids then delivered_closed (payloads k) else waiting)"
      using t(4,5) by simp
    ultimately show ?thesis
      using t(2,3) unfolding if_not_P [OF False] if_P [OF True] by blast
  next
    case fail: False
    then obtain e where e: "checkApprovals checkOrder caller b = Some e"
      using o1 checkApprovals_None by (metis not_None_eq)
    then have "\<exists>k\<in>ids. checkApproval caller k b = Some e"
      using checkApprovals_Some o1 by metis
    with e fail False ne show ?thesis by (auto simp: resolveBatch_def)
  qed
qed

subsection \<open>Listing\<close>

text \<open>The approvals of a conversation are listed in the order of their identifiers, each pending
  one of the conversation exactly once, and so the same list whatever order the map is ranged over.\<close>

theorem approvals_listing:
  assumes g: "good_approvals b" and o: "set order = dom (approvals b)" "distinct order"
    and c: "conversation \<noteq> []"
  shows "map approvalId (approvalsForConversation order conversation b) =
      sorted_list_of_set {k. \<exists>a. approvals b k = Some a \<and> approvalConversation a = conversation}
    \<and> (\<forall>a\<in>set (approvalsForConversation order conversation b). approvals b (approvalId a) = Some a)"
proof -
  let ?l = "List.map_filter (approvals b) order"
  let ?f = "filter (\<lambda>a. approvalConversation a = conversation) ?l"
  have mf: "map approvalId (List.map_filter (approvals b) ks) = filter (\<lambda>k. approvals b k \<noteq> None) ks"
    if "set ks \<subseteq> dom (approvals b)" for ks
    using that g by (induction ks) (auto simp: List.map_filter_simps good_approvals_def)
  have ids: "map approvalId ?l = order" using mf [of order] o by (auto simp: dom_def intro!: filter_True)
  have inl: "\<forall>a\<in>set ?l. approvals b (approvalId a) = Some a"
  proof
    fix a assume "a \<in> set ?l"
    then obtain k where "approvals b k = Some a" by (auto simp: List.map_filter_def)
    with g show "approvals b (approvalId a) = Some a" by (auto simp: good_approvals_def)
  qed
  then have sound: "\<forall>a\<in>set (approvalsForConversation order conversation b). approvals b (approvalId a) = Some a"
    by (auto simp: approvalsForConversation_def)
  have dl: "distinct (map approvalId ?f)"
    by (rule distinct_map_filter) (simp only: ids o(2))
  have s: "set (map approvalId ?f) = {k. \<exists>a. approvals b k = Some a \<and> approvalConversation a = conversation}"
  proof (rule set_eqI, rule iffI)
    fix k assume "k \<in> set (map approvalId ?f)"
    then show "k \<in> {k. \<exists>a. approvals b k = Some a \<and> approvalConversation a = conversation}"
      using inl by auto
  next
    fix k assume "k \<in> {k. \<exists>a. approvals b k = Some a \<and> approvalConversation a = conversation}"
    then obtain a where a: "approvals b k = Some a" "approvalConversation a = conversation" by blast
    then have "k \<in> set (map approvalId ?l)" using ids o(1) by auto
    then obtain a' where "a' \<in> set ?l" "approvalId a' = k" by auto
    then have "a' = a" using inl a(1) by auto
    then show "k \<in> set (map approvalId ?f)" using \<open>a' \<in> set ?l\<close> \<open>approvalId a' = k\<close> a(2) by auto
  qed
  have "sorted (map approvalId (sort_key approvalId ?f))" by simp
  moreover have "distinct (map approvalId (sort_key approvalId ?f))"
    using dl by (simp add: distinct_map)
  moreover have "set (map approvalId (sort_key approvalId ?f)) = set (map approvalId ?f)" by simp
  ultimately have "map approvalId (sort_key approvalId ?f) = sorted_list_of_set (set (map approvalId ?f))"
    by (metis sorted_list_of_set.idem_if_sorted_distinct)
  then show ?thesis using s c sound by (simp add: approvalsForConversation_def)
qed

subsection \<open>Witnesses\<close>

definition sampleApproval :: approval where
  "sampleApproval =
     \<lparr>approvalId = ''p'', approvalConversation = ''c'', approvalAgent = ''a'', approvalUser = ''u'',
      approvalRun = ''r'', approvalToolCall = ''t'', approvalToolName = ''exec'',
      approvalArguments = ''{}'', policyReason = ''risk'', approvalRisk = [], approvalChan = None\<rparr>"

definition sampleApprovals :: approval_broker where
  "sampleApprovals =
     registerApproval (Some (setApprovalChan 3 sampleApproval)) (makeApprovalChan 3 newApprovalBroker)"

lemma sampleApprovals_wf: "wf_approvals sampleApprovals"
  unfolding sampleApprovals_def
  by (rule registerApproval_wf)
    (auto simp: wf_approvals_def newApprovalBroker_def good_approvals_def wf_waiters_def approval_waiters_def)

lemma sampleApprovals_map: "approvals sampleApprovals = [''p'' \<mapsto> setApprovalChan 3 sampleApproval]"
  by (simp add: sampleApprovals_def registerApproval_def setApprovalChan_def sampleApproval_def
      makeApprovalChan_def newApprovalBroker_def)

lemma resolve_batch_atomic_witness:
  "\<exists>t. resolveBatch [''p''] [''p''] (\<lambda>_. \<lparr>verdict_of = Approved, reason = []\<rparr>) ''u'' sampleApprovals =
      Done (None, t) \<and> approval_waiters t ''p'' = None"
proof -
  have "checkApproval ''u'' ''p'' sampleApprovals = None"
    by (simp add: checkApproval_def sampleApprovals_map setApprovalChan_def sampleApproval_def)
  then show ?thesis
    using resolve_batch_atomic [OF sampleApprovals_wf, of "[''p'']" "{''p''}" "[''p'']"
        "\<lambda>_. \<lparr>verdict_of = Approved, reason = []\<rparr>" "''u''"] by auto
qed

lemma approvals_listing_witness:
  "map approvalId (approvalsForConversation [''p''] ''c'' sampleApprovals) = [''p'']"
proof -
  have "good_approvals sampleApprovals" using sampleApprovals_wf by (simp add: wf_approvals_def)
  from approvals_listing [OF this, of "[''p'']" "''c''"] show ?thesis
    by (simp add: sampleApprovals_map setApprovalChan_def sampleApproval_def)
qed

end
