(* ===== verification/TabBroker.thy ===== *)
theory TabBroker
  imports Channels
begin

text \<open>
  The tab broker (\<open>internal/integrations/tabs/broker.go\<close>): which browser tab is attached to which
  conversation and by which connection, and the tool calls that wait for the browser extension.
  \<open>time.Now\<close> is an argument of \<open>attach\<close>; the two loops of \<open>DetachAllForConnection\<close> take the iteration
  orders of their maps.
\<close>

record tool_result =
  resultText :: string
  resultError :: string

record tool_call =
  callId :: string
  callUser :: string
  callAgent :: string
  callConversation :: string
  callTool :: string
  callArguments :: string
  resultChan :: "nat option"

record attachment =
  attUser :: string
  attAgent :: string
  attConversation :: string
  tabUrl :: string
  tabTitle :: string
  tabId :: int
  attachedAt :: int
  connectionId :: string

record tab_broker =
  attachments :: "string \<rightharpoonup> attachment"
  calls :: "string \<rightharpoonup> tool_call"
  results :: "tool_result heap"

definition newTabBroker :: tab_broker where
  "newTabBroker = \<lparr>attachments = Map.empty, calls = Map.empty, results = Map.empty\<rparr>"

definition makeResultChan :: "nat \<Rightarrow> tab_broker \<Rightarrow> tab_broker" where
  "makeResultChan c b =
     b\<lparr>results := (results b)(c \<mapsto> \<lparr>capacity = 1, buffered = [], isClosed = False\<rparr>)\<rparr>"

definition attachmentKey :: "string \<Rightarrow> string \<Rightarrow> string \<Rightarrow> string" where
  "attachmentKey user agent conversation = user @ '':'' @ agent @ '':'' @ conversation"

definition attach :: "int \<Rightarrow> attachment \<Rightarrow> string \<Rightarrow> tab_broker \<Rightarrow> attachment option \<times> tab_broker" where
  "attach now a0 connection b =
     (let a = a0\<lparr>connectionId := connection, attachedAt := now\<rparr>;
          key = attachmentKey (attUser a) (attAgent a) (attConversation a);
          old = attachments b key;
          b' = b\<lparr>attachments := (attachments b)(key \<mapsto> a)\<rparr>
      in (case old of
            None \<Rightarrow> (None, b')
          | Some x \<Rightarrow>
              if connectionId x \<noteq> connection \<or> tabId x \<noteq> tabId a then (Some x, b') else (None, b')))"

definition detach :: "string \<Rightarrow> string \<Rightarrow> string \<Rightarrow> string \<Rightarrow> tab_broker \<Rightarrow> bool \<times> tab_broker" where
  "detach user agent conversation connection b =
     (let key = attachmentKey user agent conversation in
      (case attachments b key of
         None \<Rightarrow> (False, b)
       | Some x \<Rightarrow>
           if connectionId x \<noteq> connection then (False, b)
           else (True, b\<lparr>attachments := (attachments b)(key := None)\<rparr>)))"

definition getAttachment :: "string \<Rightarrow> string \<Rightarrow> string \<Rightarrow> tab_broker \<Rightarrow> attachment option" where
  "getAttachment user agent conversation b = attachments b (attachmentKey user agent conversation)"

definition hasAttachment :: "string \<Rightarrow> string \<Rightarrow> string \<Rightarrow> tab_broker \<Rightarrow> bool" where
  "hasAttachment user agent conversation b \<longleftrightarrow>
     attachments b (attachmentKey user agent conversation) \<noteq> None"

definition listForUser :: "string list \<Rightarrow> string \<Rightarrow> tab_broker \<Rightarrow> attachment list" where
  "listForUser order user b = filter (\<lambda>a. attUser a = user) (List.map_filter (attachments b) order)"

definition registerPending :: "tool_call \<Rightarrow> tab_broker \<Rightarrow> tab_broker" where
  "registerPending p b = b\<lparr>calls := (calls b)(callId p \<mapsto> p)\<rparr>"

definition forgetCall :: "string \<Rightarrow> tab_broker \<Rightarrow> tab_broker" where
  "forgetCall k b = b\<lparr>calls := (calls b)(k := None)\<rparr>"

definition sendResult :: "tool_call \<Rightarrow> tool_result \<Rightarrow> tab_broker \<Rightarrow> tab_broker outcome" where
  "sendResult p v b = and_then (send (resultChan p) v (results b)) (\<lambda>h. Done (b\<lparr>results := h\<rparr>))"

text \<open>\<open>Resolve\<close> with the boolean that stands for its not-found error.\<close>

definition resolveCall :: "string \<Rightarrow> tool_result \<Rightarrow> tab_broker \<Rightarrow> (bool \<times> tab_broker) outcome" where
  "resolveCall k v b =
     (case calls b k of
        None \<Rightarrow> Done (False, b)
      | Some p \<Rightarrow> and_then (sendResult p v (forgetCall k b)) (\<lambda>t. Done (True, t)))"

definition cancelPending :: "string \<Rightarrow> tab_broker \<Rightarrow> tab_broker outcome" where
  "cancelPending k b =
     (case calls b k of
        None \<Rightarrow> Done b
      | Some p \<Rightarrow>
          and_then (closeChan (resultChan p) (results b))
            (\<lambda>h. Done ((forgetCall k b)\<lparr>results := h\<rparr>)))"

definition detachStep ::
  "string \<Rightarrow> string \<Rightarrow> string set \<times> tab_broker \<Rightarrow> string set \<times> tab_broker" where
  "detachStep connection key s =
     (case attachments (snd s) key of
        None \<Rightarrow> s
      | Some a \<Rightarrow>
          if connectionId a = connection
          then (insert (attUser a @ '':'' @ attConversation a) (fst s),
                (snd s)\<lparr>attachments := (attachments (snd s))(key := None)\<rparr>)
          else s)"

definition rejectStep :: "(tool_call \<Rightarrow> bool) \<Rightarrow> string \<Rightarrow> string \<Rightarrow> tab_broker \<Rightarrow> tab_broker outcome" where
  "rejectStep hit message k b =
     (case calls b k of
        None \<Rightarrow> Done b
      | Some p \<Rightarrow>
          if hit p
          then sendResult p \<lparr>resultText = [], resultError = message\<rparr> (forgetCall k b)
          else Done b)"

definition detachAllForConnection ::
  "string list \<Rightarrow> string list \<Rightarrow> string \<Rightarrow> tab_broker \<Rightarrow> tab_broker outcome" where
  "detachAllForConnection keyOrder callOrder connection b =
     (let (detachedKeys, b1) = fold (detachStep connection) keyOrder ({}, b) in
      for_each (rejectStep (\<lambda>p. callUser p @ '':'' @ callConversation p \<in> detachedKeys)
          ''extension disconnected'') callOrder b1)"

definition cancelPendingForAttachment ::
  "string list \<Rightarrow> string \<Rightarrow> string \<Rightarrow> string \<Rightarrow> tab_broker \<Rightarrow> tab_broker outcome" where
  "cancelPendingForAttachment callOrder user agent conversation b =
     for_each (rejectStep (\<lambda>p. callUser p = user \<and> callAgent p = agent \<and> callConversation p = conversation)
        ''tab detached'') callOrder b"

subsection \<open>The registry contract\<close>

definition call_waiters :: "tab_broker \<Rightarrow> string \<rightharpoonup> nat" where
  "call_waiters b k = Option.bind (calls b k) resultChan"

definition calls_have_chan :: "tab_broker \<Rightarrow> bool" where
  "calls_have_chan b \<longleftrightarrow> (\<forall>k p. calls b k = Some p \<longrightarrow> resultChan p \<noteq> None)"

definition wf_calls :: "tab_broker \<Rightarrow> bool" where
  "wf_calls b \<longleftrightarrow> calls_have_chan b \<and> wf_waiters (call_waiters b) (results b)"

definition resolve_call_signal :: "string \<Rightarrow> tool_result \<Rightarrow> tab_broker \<Rightarrow> tab_broker outcome" where
  "resolve_call_signal k v b = and_then (resolveCall k v b) (\<lambda>r. Done (snd r))"

lemma call_waiters_forget:
  "call_waiters ((forgetCall k b)\<lparr>results := h\<rparr>) = (call_waiters b)(k := None)"
  "calls_have_chan b \<Longrightarrow> calls_have_chan ((forgetCall k b)\<lparr>results := h\<rparr>)"
  by (auto simp: call_waiters_def forgetCall_def calls_have_chan_def fun_eq_iff)

lemma call_waiters_hit:
  "call_waiters b k = Some c \<Longrightarrow> \<exists>p. calls b k = Some p \<and> resultChan p = Some c"
  by (cases "calls b k") (auto simp: call_waiters_def)

lemma call_waiters_miss: "calls_have_chan b \<Longrightarrow> call_waiters b k = None \<Longrightarrow> calls b k = None"
  by (cases "calls b k") (fastforce simp: call_waiters_def calls_have_chan_def)+

lemma forget_results [simp]: "results (forgetCall k b) = results b"
  by (simp add: forgetCall_def)

interpretation treg: one_shot call_waiters results calls_have_chan resolve_call_signal cancelPending
  delivered closed_empty
proof unfold_locales
  fix s k c v
  assume s: "calls_have_chan s" "call_waiters s k = Some c" "results s c = Some waiting"
  then obtain p where p: "calls s k = Some p" "resultChan p = Some c"
    using call_waiters_hit by blast
  show "\<exists>t. resolve_call_signal k v s = Done t \<and> calls_have_chan t
      \<and> call_waiters t = (call_waiters s)(k := None) \<and> results t = (results s)(c \<mapsto> delivered v)"
    using s p call_waiters_forget by (simp add: resolve_call_signal_def resolveCall_def sendResult_def)
  show "\<exists>t. cancelPending k s = Done t \<and> calls_have_chan t
      \<and> call_waiters t = (call_waiters s)(k := None) \<and> results t = (results s)(c \<mapsto> closed_empty)"
    using s p call_waiters_forget by (simp add: cancelPending_def)
next
  fix s k v
  assume "calls_have_chan s" "call_waiters s k = None"
  then have "calls s k = None" by (rule call_waiters_miss)
  then show "resolve_call_signal k v s = Done s" "cancelPending k s = Done s"
    by (simp_all add: resolve_call_signal_def resolveCall_def cancelPending_def)
qed

text \<open>The first result, or the cancellation, of a pending tool call decides what the blocked tool
  receives; later ones find nothing to do, and none of them blocks or panics.\<close>

theorem tool_call_first_wins:
  assumes "wf_calls b" and "call_waiters b k = Some c"
  shows "\<exists>t. for_each (apply_signal resolve_call_signal cancelPending) ops b = Done t \<and> wf_calls t
    \<and> map_option receive (results t c) = Some (case first_signal k ops of
          None \<Rightarrow> Blocked | Some (Deliver _ v) \<Rightarrow> Got v | Some (Cancel _) \<Rightarrow> Closed)"
  using treg.run_signals [of b ops] assms
  by (fastforce simp: wf_calls_def split: option.splits signal.splits)

subsection \<open>A connection goes away\<close>

definition detached_owners :: "string \<Rightarrow> string set \<Rightarrow> (string \<rightharpoonup> attachment) \<Rightarrow> string set" where
  "detached_owners connection ks m =
     {attUser a @ '':'' @ attConversation a | k a. k \<in> ks \<and> m k = Some a \<and> connectionId a = connection}"

definition kept_attachments ::
  "string \<Rightarrow> string set \<Rightarrow> (string \<rightharpoonup> attachment) \<Rightarrow> (string \<rightharpoonup> attachment)" where
  "kept_attachments connection ks m k =
     (case m k of Some a \<Rightarrow> if k \<in> ks \<and> connectionId a = connection then None else Some a | None \<Rightarrow> None)"

lemma detached_owners_hit:
  assumes "m k = Some a" and "connectionId a = connection" and "k \<notin> ks"
  shows "detached_owners connection (insert k ks) m =
    insert (attUser a @ '':'' @ attConversation a) (detached_owners connection ks (m(k := None)))"
proof -
  have "l \<in> ks \<Longrightarrow> (m(k := None)) l = m l" for l using assms(3) by auto
  then have "detached_owners connection ks (m(k := None)) = detached_owners connection ks m"
    unfolding detached_owners_def by metis
  then show ?thesis using assms(1,2) by (auto simp: detached_owners_def)
qed

lemma detached_owners_miss:
  "\<not> (\<exists>a. m k = Some a \<and> connectionId a = connection) \<Longrightarrow>
   detached_owners connection (insert k ks) m = detached_owners connection ks m"
  by (auto simp: detached_owners_def)

lemma kept_attachments_hit:
  assumes "m k = Some a" and "connectionId a = connection"
  shows "kept_attachments connection (insert k ks) m = kept_attachments connection ks (m(k := None))"
  using assms by (auto simp: kept_attachments_def fun_eq_iff split: option.split)

lemma kept_attachments_miss:
  "\<not> (\<exists>a. m k = Some a \<and> connectionId a = connection) \<Longrightarrow>
   kept_attachments connection (insert k ks) m = kept_attachments connection ks m"
  by (auto simp: kept_attachments_def fun_eq_iff split: option.split)

lemma detach_fold:
  assumes "distinct order"
  shows "fold (detachStep connection) order (ds, b) =
    (ds \<union> detached_owners connection (set order) (attachments b),
     b\<lparr>attachments := kept_attachments connection (set order) (attachments b)\<rparr>)"
  using assms
proof (induction order arbitrary: ds b)
  case Nil
  have "kept_attachments connection {} (attachments b) = attachments b"
    by (auto simp: kept_attachments_def fun_eq_iff split: option.split)
  then show ?case by (simp add: detached_owners_def)
next
  case (Cons key order)
  show ?case
  proof (cases "\<exists>a. attachments b key = Some a \<and> connectionId a = connection")
    case True
    then obtain a where a: "attachments b key = Some a" "connectionId a = connection" by blast
    then have "detachStep connection key (ds, b) =
        (insert (attUser a @ '':'' @ attConversation a) ds, b\<lparr>attachments := (attachments b)(key := None)\<rparr>)"
      by (simp add: detachStep_def)
    then show ?thesis
      using Cons detached_owners_hit [of "attachments b", OF a] kept_attachments_hit [of "attachments b", OF a]
      by (simp add: Un_insert_left)
  next
    case False
    then have "detachStep connection key (ds, b) = (ds, b)"
      by (auto simp: detachStep_def split: option.split)
    then show ?thesis
      using Cons detached_owners_miss [of "attachments b", OF False]
        kept_attachments_miss [of "attachments b", OF False] by simp
  qed
qed

lemma rejectStep_signal:
  "calls b k = Some p \<Longrightarrow> hit p \<Longrightarrow>
   rejectStep hit m k b = resolve_call_signal k \<lparr>resultText = [], resultError = m\<rparr> b"
  by (cases "sendResult p \<lparr>resultText = [], resultError = m\<rparr> (forgetCall k b)")
    (simp_all add: rejectStep_def resolve_call_signal_def resolveCall_def)

lemma resolve_call_frame:
  "resolve_call_signal k v b = Done t \<Longrightarrow> l \<noteq> k \<Longrightarrow> calls t l = calls b l"
  by (auto simp: resolve_call_signal_def resolveCall_def sendResult_def forgetCall_def outcome_simps
      split: option.splits)

lemma reject_loop:
  assumes "distinct order"
  shows "for_each (rejectStep hit m) order b =
    for_each (\<lambda>k. resolve_call_signal k \<lparr>resultText = [], resultError = m\<rparr>)
      (filter (\<lambda>k. \<exists>p. calls b k = Some p \<and> hit p) order) b"
  using assms
proof (induction order arbitrary: b)
  case Nil
  then show ?case by simp
next
  case (Cons k order)
  show ?case
  proof (cases "\<exists>p. calls b k = Some p \<and> hit p")
    case True
    then have d: "rejectStep hit m k b = resolve_call_signal k \<lparr>resultText = [], resultError = m\<rparr> b"
      using rejectStep_signal by blast
    show ?thesis
    proof (cases "resolve_call_signal k \<lparr>resultText = [], resultError = m\<rparr> b")
      case (Done t)
      have "filter (\<lambda>l. \<exists>p. calls t l = Some p \<and> hit p) order =
          filter (\<lambda>l. \<exists>p. calls b l = Some p \<and> hit p) order"
        using resolve_call_frame [OF Done] Cons.prems
        by (intro filter_cong) (simp_all, metis)
      then show ?thesis using True Cons d Done by simp
    qed (use True d in simp_all)
  next
    case False
    then have "rejectStep hit m k b = Done b" by (auto simp: rejectStep_def split: option.split)
    moreover have "filter (\<lambda>l. \<exists>p. calls b l = Some p \<and> hit p) (k # order) =
        filter (\<lambda>l. \<exists>p. calls b l = Some p \<and> hit p) order"
      by (simp only: filter.simps(2) if_not_P [OF False])
    ultimately show ?thesis using Cons by (simp only: for_each.simps and_then.simps distinct.simps)
  qed
qed

lemma rejected_run:
  assumes wf: "wf_calls b" and o: "set order = dom (calls b)" "distinct order"
  shows "\<exists>t. for_each (rejectStep hit m) order b = Done t \<and> wf_calls t
    \<and> (\<forall>k p c. calls b k = Some p \<longrightarrow> resultChan p = Some c \<longrightarrow>
         (if hit p then call_waiters t k = None
            \<and> results t c = Some (delivered \<lparr>resultText = [], resultError = m\<rparr>)
          else call_waiters t k = Some c \<and> results t c = Some waiting))"
proof -
  let ?ks = "filter (\<lambda>k. \<exists>p. calls b k = Some p \<and> hit p) order"
  have w: "calls_have_chan b" "wf_waiters (call_waiters b) (results b)"
    using wf by (auto simp: wf_calls_def)
  have "distinct ?ks" using o(2) by simp
  from treg.run_deliveries [OF w this, of "\<lambda>_. \<lparr>resultText = [], resultError = m\<rparr>"]
  obtain t where t: "for_each (rejectStep hit m) order b = Done t" "wf_calls t"
      "\<And>k. call_waiters t k = (if k \<in> set ?ks then None else call_waiters b k)"
      "\<And>k c. k \<in> set ?ks \<Longrightarrow> call_waiters b k = Some c \<Longrightarrow>
          results t c = Some (delivered \<lparr>resultText = [], resultError = m\<rparr>)"
      "\<And>k c. k \<notin> set ?ks \<Longrightarrow> call_waiters b k = Some c \<Longrightarrow> results t c = Some waiting"
    unfolding reject_loop [OF o(2)] wf_calls_def by blast
  have "if hit p then call_waiters t k = None
            \<and> results t c = Some (delivered \<lparr>resultText = [], resultError = m\<rparr>)
          else call_waiters t k = Some c \<and> results t c = Some waiting"
    if k: "calls b k = Some p" "resultChan p = Some c" for k p c
  proof -
    have cw: "call_waiters b k = Some c" using k by (simp add: call_waiters_def)
    have "k \<in> set order" using k o by auto
    then have mem: "k \<in> set ?ks \<longleftrightarrow> hit p" using k(1) by auto
    show ?thesis
      using t(3) [of k] t(4) [OF _ cw] t(5) [OF _ cw] cw by (cases "hit p") (simp_all only: mem if_True if_False, simp_all)
  qed
  then show ?thesis using t(1,2) by blast
qed

text \<open>When a connection goes away, exactly its attachments are removed, and every tool call of a
  user and conversation one of them named is rejected with an error instead of being left
  waiting; the other calls stay pending. The agent of the attachment is not compared, so this also
  rejects a call of another agent's attachment in the same conversation.\<close>

theorem detach_all_rejects:
  assumes wf: "wf_calls b" and k: "set keyOrder = dom (attachments b)" "distinct keyOrder"
    and o: "set callOrder = dom (calls b)" "distinct callOrder"
  shows "\<exists>t. detachAllForConnection keyOrder callOrder connection b = Done t \<and> wf_calls t
    \<and> attachments t = (\<lambda>key. case attachments b key of
          Some a \<Rightarrow> if connectionId a = connection then None else Some a | None \<Rightarrow> None)
    \<and> (\<forall>key p c. calls b key = Some p \<longrightarrow> resultChan p = Some c \<longrightarrow>
         (if \<exists>l a. attachments b l = Some a \<and> connectionId a = connection
             \<and> callUser p @ '':'' @ callConversation p = attUser a @ '':'' @ attConversation a
          then call_waiters t key = None
            \<and> results t c = Some (delivered \<lparr>resultText = [], resultError = ''extension disconnected''\<rparr>)
          else call_waiters t key = Some c \<and> results t c = Some waiting))"
proof -
  let ?ds = "detached_owners connection (set keyOrder) (attachments b)"
  let ?at = "\<lambda>key. case attachments b key of
          Some a \<Rightarrow> if connectionId a = connection then None else Some a | None \<Rightarrow> None"
  let ?b1 = "b\<lparr>attachments := ?at\<rparr>"
  have at: "kept_attachments connection (set keyOrder) (attachments b) = ?at"
    using k(1) by (auto simp: kept_attachments_def fun_eq_iff split: option.split)
  have wf1: "wf_calls ?b1"
    using wf by (simp add: wf_calls_def calls_have_chan_def call_waiters_def [abs_def])
  have o1: "set callOrder = dom (calls ?b1)" using o by simp
  let ?hit = "\<lambda>p. \<exists>l a. attachments b l = Some a \<and> connectionId a = connection
             \<and> callUser p @ '':'' @ callConversation p = attUser a @ '':'' @ attConversation a"
  have hit: "(\<lambda>p. callUser p @ '':'' @ callConversation p \<in> ?ds) = ?hit"
    using k(1) by (auto simp: detached_owners_def fun_eq_iff)
  obtain t where t: "for_each (rejectStep ?hit ''extension disconnected'') callOrder ?b1 = Done t"
      "wf_calls t"
      "\<forall>key p c. calls ?b1 key = Some p \<longrightarrow> resultChan p = Some c \<longrightarrow>
         (if ?hit p then call_waiters t key = None
            \<and> results t c = Some (delivered \<lparr>resultText = [], resultError = ''extension disconnected''\<rparr>)
          else call_waiters t key = Some c \<and> results t c = Some waiting)"
    using rejected_run [OF wf1 o1 o(2), of ?hit "''extension disconnected''"] by blast
  have frame: "attachments u = attachments s"
    if "rejectStep hit m key s = Done u" for hit m key s u
    using that by (auto simp: rejectStep_def sendResult_def forgetCall_def outcome_simps
        split: option.splits if_splits)
  have frames: "for_each (rejectStep hit m) ks s = Done u \<Longrightarrow> attachments u = attachments s" for hit m ks s u
    by (induction ks arbitrary: s) (auto simp: outcome_simps dest!: frame)
  have "attachments t = ?at" using frames [OF t(1)] by simp
  moreover from detach_fold [OF k(2), of connection "{}" b]
  have "detachAllForConnection keyOrder callOrder connection b =
      for_each (rejectStep (\<lambda>p. callUser p @ '':'' @ callConversation p \<in> ?ds) ''extension disconnected'')
        callOrder ?b1"
    by (simp add: detachAllForConnection_def at)
  then have "detachAllForConnection keyOrder callOrder connection b = Done t"
    unfolding hit using t(1) by (rule trans)
  moreover have "calls ?b1 = calls b" by simp
  note t(3) [unfolded this]
  ultimately show ?thesis using t(2) by blast
qed

subsection \<open>Witnesses\<close>

definition sampleCall :: tool_call where
  "sampleCall = \<lparr>callId = ''k'', callUser = ''u'', callAgent = ''two'', callConversation = ''c'',
     callTool = ''click'', callArguments = [], resultChan = Some 4\<rparr>"

definition sampleAttachment :: attachment where
  "sampleAttachment = \<lparr>attUser = ''u'', attAgent = ''one'', attConversation = ''c'', tabUrl = [],
     tabTitle = [], tabId = 1, attachedAt = 0, connectionId = ''ws''\<rparr>"

definition sampleTabs :: tab_broker where
  "sampleTabs = \<lparr>attachments = [''u:one:c'' \<mapsto> sampleAttachment], calls = [''k'' \<mapsto> sampleCall],
     results = [4 \<mapsto> waiting]\<rparr>"

lemma sampleTabs_wf: "wf_calls sampleTabs"
  by (auto simp: wf_calls_def sampleTabs_def calls_have_chan_def sampleCall_def wf_waiters_def
      call_waiters_def split: if_splits)

lemma tool_call_first_wins_witness:
  "\<exists>t. for_each (apply_signal resolve_call_signal cancelPending) [Cancel ''k''] sampleTabs = Done t
    \<and> map_option receive (results t 4) = Some Closed"
proof -
  have "call_waiters sampleTabs ''k'' = Some 4"
    by (simp add: sampleTabs_def call_waiters_def sampleCall_def)
  from tool_call_first_wins [OF sampleTabs_wf this, of "[Cancel ''k'']"] show ?thesis
    by (auto simp: first_signal_def)
qed

text \<open>The call of agent \<open>two\<close> is rejected because agent \<open>one\<close>'s attachment goes away.\<close>

lemma detach_all_rejects_witness:
  "\<exists>t. detachAllForConnection [''u:one:c''] [''k''] ''ws'' sampleTabs = Done t
    \<and> call_waiters t ''k'' = None"
proof -
  obtain t where t: "detachAllForConnection [''u:one:c''] [''k''] ''ws'' sampleTabs = Done t"
      "\<forall>key p c. calls sampleTabs key = Some p \<longrightarrow> resultChan p = Some c \<longrightarrow>
         (if \<exists>l a. attachments sampleTabs l = Some a \<and> connectionId a = ''ws''
             \<and> callUser p @ '':'' @ callConversation p = attUser a @ '':'' @ attConversation a
          then call_waiters t key = None
            \<and> results t c = Some (delivered \<lparr>resultText = [], resultError = ''extension disconnected''\<rparr>)
          else call_waiters t key = Some c \<and> results t c = Some waiting)"
    using detach_all_rejects [OF sampleTabs_wf, of "[''u:one:c'']" "[''k'']" "''ws''"]
    by (auto simp: sampleTabs_def)
  have "calls sampleTabs ''k'' = Some sampleCall" "resultChan sampleCall = Some 4"
    by (simp_all add: sampleTabs_def sampleCall_def)
  moreover have "\<exists>l a. attachments sampleTabs l = Some a \<and> connectionId a = ''ws''
             \<and> callUser sampleCall @ '':'' @ callConversation sampleCall = attUser a @ '':'' @ attConversation a"
    by (auto simp: sampleTabs_def sampleAttachment_def sampleCall_def)
  ultimately have "call_waiters t ''k'' = None" using t(2) by auto
  with t(1) show ?thesis by blast
qed

end
