(* ===== verification/PendingRequests.thy ===== *)
theory PendingRequests
  imports Channels
begin

text \<open>
  The request/response correlation map of \<open>internal/util/pending/pending.go\<close>: identifiers are handed
  out in increasing order (Go's \<open>int\<close>, so with wrap-around), every identifier owns a channel of
  capacity one, and a result is delivered at most once.
\<close>

record request_result =
  resultData :: string
  resultError :: string

record requests =
  channels :: "int \<rightharpoonup> nat"
  nextId :: int
  results :: "request_result heap"

definition newRequests :: requests where
  "newRequests = \<lparr>channels = Map.empty, nextId = 0, results = Map.empty\<rparr>"

text \<open>\<open>Allocate\<close> with the heap address of the channel it makes.\<close>

definition allocate :: "nat \<Rightarrow> requests \<Rightarrow> (int \<times> nat) \<times> requests" where
  "allocate c r =
     ((nextId r, c),
      r\<lparr>nextId := wrap64 (nextId r + 1), channels := (channels r)(nextId r \<mapsto> c),
        results := (results r)(c \<mapsto> \<lparr>capacity = 1, buffered = [], isClosed = False\<rparr>)\<rparr>)"

definition resolve :: "int \<Rightarrow> request_result \<Rightarrow> requests \<Rightarrow> (bool \<times> requests) outcome" where
  "resolve i v r =
     (case channels r i of
        None \<Rightarrow> Done (False, r)
      | Some c \<Rightarrow>
          and_then (send (Some c) v (results r))
            (\<lambda>h. Done (True, r\<lparr>channels := (channels r)(i := None), results := h\<rparr>)))"

definition cancelRequest :: "int \<Rightarrow> requests \<Rightarrow> requests" where
  "cancelRequest i r = r\<lparr>channels := (channels r)(i := None)\<rparr>"

definition rejectOne :: "string \<Rightarrow> int \<Rightarrow> requests \<Rightarrow> requests outcome" where
  "rejectOne message i r =
     and_then (send (channels r i) \<lparr>resultData = [], resultError = message\<rparr> (results r))
       (\<lambda>h. Done (r\<lparr>channels := (channels r)(i := None), results := h\<rparr>))"

definition rejectAll :: "int list \<Rightarrow> string \<Rightarrow> requests \<Rightarrow> requests outcome" where
  "rejectAll order message r = for_each (rejectOne message) order r"

definition wf_requests :: "requests \<Rightarrow> bool" where
  "wf_requests r \<longleftrightarrow> wf_waiters (channels r) (results r) \<and> 0 \<le> nextId r \<and> nextId r \<le> max_int64
     \<and> (\<forall>i\<in>dom (channels r). 0 \<le> i \<and> i < nextId r)"

definition resolve_request_signal :: "int \<Rightarrow> request_result \<Rightarrow> requests \<Rightarrow> requests outcome" where
  "resolve_request_signal i v r = and_then (resolve i v r) (\<lambda>p. Done (snd p))"

definition cancel_request_signal :: "int \<Rightarrow> requests \<Rightarrow> requests outcome" where
  "cancel_request_signal i r = Done (cancelRequest i r)"

text \<open>The part of the invariant that the signals keep.\<close>

definition bounded_ids :: "requests \<Rightarrow> bool" where
  "bounded_ids r \<longleftrightarrow> 0 \<le> nextId r \<and> nextId r \<le> max_int64 \<and> (\<forall>i\<in>dom (channels r). 0 \<le> i \<and> i < nextId r)"

lemma wf_requests_split:
  "wf_requests r \<longleftrightarrow> bounded_ids r \<and> wf_waiters (channels r) (results r)"
  by (auto simp: wf_requests_def bounded_ids_def)

text \<open>A cancelled channel is neither written nor closed: its owner stopped waiting.\<close>

interpretation rreg: one_shot channels results bounded_ids resolve_request_signal cancel_request_signal
  delivered waiting
proof unfold_locales
  fix s k c v
  assume s: "bounded_ids s" "channels s k = Some c" "results s c = Some waiting"
  then show "\<exists>t. resolve_request_signal k v s = Done t \<and> bounded_ids t
      \<and> channels t = (channels s)(k := None) \<and> results t = (results s)(c \<mapsto> delivered v)"
    by (simp add: resolve_request_signal_def resolve_def bounded_ids_def)
  have "(results s)(c \<mapsto> waiting) = results s" using s(3) by auto
  then show "\<exists>t. cancel_request_signal k s = Done t \<and> bounded_ids t
      \<and> channels t = (channels s)(k := None) \<and> results t = (results s)(c \<mapsto> waiting)"
    using s by (simp add: cancel_request_signal_def cancelRequest_def bounded_ids_def)
next
  fix s :: requests and k v
  assume n: "channels s k = None"
  then show "resolve_request_signal k v s = Done s"
    by (simp add: resolve_request_signal_def resolve_def)
  have "(channels s)(k := None) = channels s" using n by auto
  then show "cancel_request_signal k s = Done s"
    by (simp add: cancel_request_signal_def cancelRequest_def)
qed

lemma newRequests_wf: "wf_requests newRequests"
  by (auto simp: wf_requests_def newRequests_def wf_waiters_def max_int64_def)

lemma allocate_wf:
  assumes wf: "wf_requests r" and c: "c \<notin> ran (channels r)" and n: "nextId r < max_int64"
  shows "wf_requests (snd (allocate c r)) \<and> channels r (fst (fst (allocate c r))) = None
    \<and> channels (snd (allocate c r)) = (channels r)(nextId r \<mapsto> c)"
proof -
  have w: "wrap64 (nextId r + 1) = nextId r + 1"
    using wf n by (intro wrap64_id) (auto simp: wf_requests_def min_int64_def)
  have "wf_waiters ((channels r)(nextId r \<mapsto> c)) ((results r)(c \<mapsto> waiting))"
    using wf c by (intro wf_waiters_registered) (auto simp: wf_requests_def ran_def)
  moreover have "channels r (nextId r) = None"
    using wf by (auto simp: wf_requests_def)
  moreover have "\<forall>i\<in>dom ((channels r)(nextId r \<mapsto> c)). 0 \<le> i \<and> i < nextId r + 1"
    using wf by (auto simp: wf_requests_def intro: less_imp_le)
  ultimately show ?thesis
    using wf n by (simp add: wf_requests_def allocate_def w waiting_def)
qed

text \<open>Every request gets an identifier no pending request has, until 2^63 - 1 of them were handed
  out, and whatever results and cancellations then arrive, in any order and for any identifiers,
  its channel receives the first result, and nothing if the request was cancelled first; no
  delivery blocks.\<close>

theorem request_answered_once:
  assumes "wf_requests r" and "c \<notin> ran (channels r)" and "nextId r < max_int64"
    and "allocate c r = ((i, c'), r1)"
  shows "channels r i = None \<and> (\<exists>t. for_each (apply_signal resolve_request_signal cancel_request_signal) ops r1 = Done t
    \<and> wf_requests t \<and> map_option receive (results t c') = Some (case first_signal i ops of
          Some (Deliver _ v) \<Rightarrow> Got v | _ \<Rightarrow> Blocked))"
proof -
  have a: "i = nextId r" "c' = c" "r1 = snd (allocate c r)"
    using assms(4) by (auto simp: allocate_def)
  note wf = allocate_wf [OF assms(1-3), folded a(3)]
  have "channels r1 i = Some c" using wf a by simp
  moreover have "bounded_ids r1" "wf_waiters (channels r1) (results r1)"
    using wf by (auto simp: wf_requests_split)
  ultimately obtain t where t: "for_each (apply_signal resolve_request_signal cancel_request_signal) ops r1 = Done t"
      "wf_requests t" "results t c = Some (case first_signal i ops of
          None \<Rightarrow> waiting | Some (Deliver _ v) \<Rightarrow> delivered v | Some (Cancel _) \<Rightarrow> waiting)"
    using rreg.run_signals [of r1 ops] unfolding wf_requests_split by blast
  then show ?thesis using wf assms(4) a(2) by (auto split: option.splits signal.splits)
qed

lemma request_answered_once_witness:
  "\<exists>t. for_each (apply_signal resolve_request_signal cancel_request_signal)
      [Deliver 0 \<lparr>resultData = ''1'', resultError = []\<rparr>] (snd (allocate 5 newRequests)) = Done t
    \<and> map_option receive (results t 5) = Some (Got \<lparr>resultData = ''1'', resultError = []\<rparr>)"
  using request_answered_once [OF newRequests_wf, of 5 0 5 "snd (allocate 5 newRequests)"
      "[Deliver 0 \<lparr>resultData = ''1'', resultError = []\<rparr>]"]
  by (auto simp: newRequests_def allocate_def max_int64_def first_signal_def)

lemma rejectOne_signal:
  assumes "channels r i = Some c"
  shows "rejectOne m i r = resolve_request_signal i \<lparr>resultData = [], resultError = m\<rparr> r"
  using assms
  by (cases "send (Some c) \<lparr>resultData = [], resultError = m\<rparr> (results r)")
    (simp_all add: rejectOne_def resolve_request_signal_def resolve_def)

lemma rejectOne_frame: "rejectOne m i r = Done t \<Longrightarrow> channels t = (channels r)(i := None)"
  by (auto simp: rejectOne_def outcome_simps)

lemma rejectAll_signals:
  assumes "distinct order" and "set order \<subseteq> dom (channels r)"
  shows "rejectAll order m r =
    for_each (\<lambda>i. resolve_request_signal i \<lparr>resultData = [], resultError = m\<rparr>) order r"
  using assms
proof (induction order arbitrary: r)
  case Nil
  then show ?case by (simp add: rejectAll_def)
next
  case (Cons i order)
  then obtain c where "channels r i = Some c" by auto
  note eq = rejectOne_signal [OF this, of m]
  show ?case
  proof (cases "rejectOne m i r")
    case (Done t)
    have "set order \<subseteq> dom (channels t)" using rejectOne_frame [OF Done] Cons.prems by auto
    then show ?thesis using Cons Done eq by (simp add: rejectAll_def)
  qed (use eq in \<open>simp_all add: rejectAll_def\<close>)
qed

text \<open>\<open>RejectAll\<close> delivers the error to every pending request, in whatever order the map is ranged
  over, leaves none pending, and never blocks.\<close>

theorem reject_all_clears:
  assumes wf: "wf_requests r" and o: "set order = dom (channels r)" "distinct order"
  shows "\<exists>t. rejectAll order m r = Done t \<and> wf_requests t \<and> channels t = Map.empty
    \<and> (\<forall>c\<in>ran (channels r). results t c = Some (delivered \<lparr>resultData = [], resultError = m\<rparr>))"
proof -
  have w: "bounded_ids r" "wf_waiters (channels r) (results r)" using wf by (auto simp: wf_requests_split)
  from rreg.run_deliveries [OF w o(2), of "\<lambda>_. \<lparr>resultData = [], resultError = m\<rparr>"]
  obtain t where t: "rejectAll order m r = Done t" "wf_requests t"
      "\<And>i. channels t i = (if i \<in> set order then None else channels r i)"
      "\<And>i c. i \<in> set order \<Longrightarrow> channels r i = Some c \<Longrightarrow>
        results t c = Some (delivered \<lparr>resultData = [], resultError = m\<rparr>)"
    unfolding rejectAll_signals [OF o(2) equalityD1 [OF o(1)]] wf_requests_split by blast
  have "channels t i = None" for i using t(3) [of i] o(1) by auto
  then have "channels t = Map.empty" by auto
  with t o(1) show ?thesis by (auto simp: ran_def)
qed

lemma reject_all_clears_witness:
  "\<exists>t. rejectAll [0] ''gone'' (snd (allocate 5 newRequests)) = Done t \<and> channels t = Map.empty"
proof -
  have "wf_requests (snd (allocate 5 newRequests))"
    using allocate_wf [OF newRequests_wf, of 5] by (simp add: newRequests_def max_int64_def)
  from reject_all_clears [OF this, of "[0]" "''gone''"] show ?thesis
    by (auto simp: allocate_def newRequests_def)
qed

end
