(* ===== verification/SessionTracker.thy ===== *)
theory SessionTracker
  imports Prelude
begin

text \<open>
  Reference counting of the connections of a session
  (\<open>internal/util/sessiontracker/sessiontracker.go\<close>), and the event broadcast of
  \<open>internal/pubsub/pubsub.go\<close>.
\<close>

subsection \<open>Sessions\<close>

type_synonym sessions = "string \<rightharpoonup> int"

definition markConnected :: "string \<Rightarrow> sessions \<Rightarrow> sessions" where
  "markConnected k m =
     (if k = [] then m
      else m(k \<mapsto> (case m k of None \<Rightarrow> 0 | Some n \<Rightarrow> n) + 1))"

definition markDisconnected :: "string \<Rightarrow> sessions \<Rightarrow> sessions" where
  "markDisconnected k m =
     (if k = [] then m
      else (case m k of
              None \<Rightarrow> m
            | Some n \<Rightarrow> if n \<le> 1 then m(k := None) else m(k \<mapsto> n - 1)))"

definition isConnected :: "string \<Rightarrow> sessions \<Rightarrow> bool" where
  "isConnected k m \<longleftrightarrow> k \<noteq> [] \<and> (case m k of None \<Rightarrow> 0 | Some n \<Rightarrow> n) > 0"

datatype session_event = Connected string | Disconnected string

fun session_step :: "session_event \<Rightarrow> sessions \<Rightarrow> sessions" where
  "session_step (Connected k) = markConnected k"
| "session_step (Disconnected k) = markDisconnected k"

text \<open>Every stored count is positive: a session without connections has no entry.\<close>

definition positive_counts :: "sessions \<Rightarrow> bool" where
  "positive_counts m \<longleftrightarrow> (\<forall>k n. m k = Some n \<longrightarrow> 0 < n \<and> k \<noteq> [])"

interpretation sessions: machine session_step positive_counts
proof unfold_locales
  fix s e assume "positive_counts s"
  then show "positive_counts (session_step e s)"
    by (cases e) (fastforce simp: positive_counts_def markConnected_def markDisconnected_def
        split: option.splits)+
qed

text \<open>The abstract count: connections opened minus closed, never below zero.\<close>

fun open_connections :: "string \<Rightarrow> session_event list \<Rightarrow> int" where
  "open_connections k [] = 0"
| "open_connections k (e # es) =
     (case e of
        Connected l \<Rightarrow> open_connections k es + (if l = k then 1 else 0)
      | Disconnected l \<Rightarrow> (if l = k then max 0 (open_connections k es - 1) else open_connections k es))"

text \<open>Whatever connects and disconnects in whatever order, a session counts as connected exactly
  while more of its connections were opened than closed, surplus disconnects being ignored, and
  one session's connections never affect another's. (The events are listed latest first.)\<close>

theorem session_counts:
  assumes "k \<noteq> []"
  shows "(case foldr session_step es Map.empty k of None \<Rightarrow> 0 | Some n \<Rightarrow> n) = open_connections k es
    \<and> (isConnected k (foldr session_step es Map.empty) \<longleftrightarrow> 0 < open_connections k es)"
proof -
  have pos: "positive_counts (foldr session_step es Map.empty)"
    using sessions.run_inv [of Map.empty "rev es"] by (simp add: foldr_conv_fold positive_counts_def)
  have count: "(case foldr session_step es Map.empty k of None \<Rightarrow> 0 | Some n \<Rightarrow> n) = open_connections k es"
  proof (induction es)
    case Nil
    then show ?case by simp
  next
    case (Cons e es)
    have "positive_counts (foldr session_step es Map.empty)"
      using sessions.run_inv [of Map.empty "rev es"] by (simp add: foldr_conv_fold positive_counts_def)
    then have "foldr session_step es Map.empty k = Some n \<Longrightarrow> 0 < n" for n
      by (auto simp: positive_counts_def)
    then show ?case
      using Cons.IH assms
      by (cases e) (auto simp: markConnected_def markDisconnected_def max_def split: option.splits)
  qed
  then show ?thesis using assms by (simp add: isConnected_def)
qed

lemma session_counts_witness:
  "isConnected ''s'' (foldr session_step [Disconnected ''s'', Connected ''s'', Connected ''s''] Map.empty)"
  using session_counts [of "''s''" "[Disconnected ''s'', Connected ''s'', Connected ''s'']"] by simp

subsection \<open>Broadcasting\<close>

text \<open>
  Subscribers are a set (the keys of the Go map). \<open>Broadcast\<close> takes a snapshot, in the map's
  iteration order, and calls every one of them; a callback may change the subscriptions. The
  callbacks are a parameter: the state subscriber \<open>x\<close> leaves and whether it ends in a panic, which
  the deferred \<open>Recover\<close> absorbs. The field \<open>handled\<close> records the calls made.
\<close>

record 'x pubsub =
  subscribers :: "'x set"
  handled :: "'x list"

definition newPubSub :: "'x pubsub" where
  "newPubSub = \<lparr>subscribers = {}, handled = []\<rparr>"

definition subscribe :: "'x \<Rightarrow> 'x pubsub \<Rightarrow> 'x pubsub" where
  "subscribe x p = p\<lparr>subscribers := insert x (subscribers p)\<rparr>"

definition unsubscribe :: "'x \<Rightarrow> 'x pubsub \<Rightarrow> 'x pubsub" where
  "unsubscribe x p = p\<lparr>subscribers := subscribers p - {x}\<rparr>"

definition recovered :: "'x pubsub \<times> bool \<Rightarrow> 'x pubsub" where
  "recovered r = (case r of (p, panicked) \<Rightarrow> p)"

definition notify ::
  "('x \<Rightarrow> 'x pubsub \<Rightarrow> 'x pubsub \<times> bool) \<Rightarrow> 'x \<Rightarrow> 'x pubsub \<Rightarrow> 'x pubsub" where
  "notify onEvent x p = recovered (onEvent x (p\<lparr>handled := handled p @ [x]\<rparr>))"

definition broadcast ::
  "('x \<Rightarrow> 'x pubsub \<Rightarrow> 'x pubsub \<times> bool) \<Rightarrow> 'x list \<Rightarrow> 'x pubsub \<Rightarrow> 'x pubsub" where
  "broadcast onEvent order p = fold (notify onEvent) order p"

text \<open>A broadcast calls every subscriber of the moment it starts exactly once, and nobody else,
  even when callbacks subscribe, unsubscribe or panic while it runs. (The callbacks return or
  panic and do not themselves broadcast.)\<close>

theorem broadcast_reaches_all:
  assumes order: "set order = subscribers p" "distinct order"
    and cb: "\<And>x s. handled (fst (onEvent x s)) = handled s"
  shows "handled (broadcast onEvent order p) = handled p @ order
    \<and> (\<forall>x. count_list order x = (if x \<in> subscribers p then 1 else 0))"
proof -
  have "handled (fold (notify onEvent) xs s) = handled s @ xs" for xs s
    by (induction xs arbitrary: s) (simp_all add: notify_def recovered_def case_prod_beta cb)
  moreover have "distinct ys \<Longrightarrow> count_list ys x = (if x \<in> set ys then 1 else 0)" for ys and x :: 'a
    by (induction ys) auto
  ultimately show ?thesis using order by (simp add: broadcast_def)
qed

lemma broadcast_reaches_all_witness:
  "handled (broadcast (\<lambda>x s. (unsubscribe 1 s, x = (2::nat))) [1, 2, 3]
      \<lparr>subscribers = {1, 2, 3}, handled = []\<rparr>) = [1, 2, 3]"
  using broadcast_reaches_all [of "[1, 2, 3]" "\<lparr>subscribers = {1, 2, 3}, handled = []\<rparr>"
      "\<lambda>x s. (unsubscribe 1 s, x = (2::nat))"]
  by (simp add: unsubscribe_def)

end
