(* ===== verification/Surfaces.thy ===== *)
theory Surfaces
  imports Prelude
begin

text \<open>
  Generative surfaces and interrupts (\<open>internal/integrations/surfaces\<close>): the component tree, its
  validation, and the registry of active surfaces. A nil pointer is \<open>None\<close>; the Go maps are partial
  functions, and the loops over them take the iteration order.
\<close>

subsection \<open>The model\<close>

record key_value_item =
  itemKey :: string
  itemValue :: string

record surface_button =
  buttonLabel :: string
  buttonAction :: string
  buttonStyle :: string
  buttonValue :: string

record form_field =
  fieldType :: string
  fieldName :: string
  fieldLabel :: string
  fieldPlaceholder :: string
  fieldOptions :: "string list"
  fieldRequired :: bool
  fieldDefault :: string

record timeline_event =
  eventTitle :: string
  eventTimestamp :: string
  eventDescription :: string
  eventStatus :: string

datatype surface_component = SurfaceComponent
  (componentType: string) (componentTitle: string) (children: "surface_component list")
  (componentText: string) (componentLanguage: string) (componentItems: "key_value_item list")
  (componentColumns: "string list") (componentRows: "string list list")
  (componentStatus: string) (componentLabel: string) (componentButtons: "surface_button list")
  (componentFields: "form_field list") (submitLabel: string) (submitActionId: string)
  (componentEvents: "timeline_event list")

record surface =
  surfaceId :: string
  schemaVersion :: int
  surfaceLocation :: string
  surfaceTitle :: string
  surfaceComponents :: "surface_component list"
  surfaceConversation :: string
  surfaceAgent :: string
  surfaceRun :: string

record interrupt =
  interruptId :: string
  interruptKind :: string
  interruptTitle :: string
  interruptPrompt :: string
  interruptChoices :: "string list"
  interruptFields :: "form_field list"
  interruptSurface :: "surface option"
  interruptSurfaceId :: string
  interruptConversation :: string
  interruptAgent :: string
  interruptRun :: string

definition validComponentTypes :: "string list" where
  "validComponentTypes =
     [''Section'', ''Markdown'', ''KeyValueList'', ''Table'', ''StatusBadge'', ''ButtonRow'',
      ''Form'', ''CodeBlock'', ''Timeline'']"

definition validFieldTypes :: "string list" where
  "validFieldTypes = [''TextInput'', ''Textarea'', ''Select'', ''Checkbox'']"

subsection \<open>Validation\<close>

datatype surface_error =
    NilSurface | InvalidLocation string | NoComponents
  | UnknownComponent string | UnknownField string | NamelessField
  | NilInterrupt | InvalidKind string | NoChoices | NoFields

fun validateFields :: "form_field list \<Rightarrow> surface_error option" where
  "validateFields [] = None"
| "validateFields (f # fs) =
     (if fieldType f \<notin> set validFieldTypes then Some (UnknownField (fieldType f))
      else if fieldName f = [] then Some NamelessField
      else validateFields fs)"

fun validateComponent :: "surface_component \<Rightarrow> surface_error option"
and validateComponents :: "surface_component list \<Rightarrow> surface_error option" where
  "validateComponent (SurfaceComponent ty title cs text lang items columns rws status label buttons
      fs submit action evs) =
     (if ty \<notin> set validComponentTypes then Some (UnknownComponent ty)
      else (case validateComponents cs of
              Some e \<Rightarrow> Some e
            | None \<Rightarrow> validateFields fs))"
| "validateComponents [] = None"
| "validateComponents (c # cs) =
     (case validateComponent c of Some e \<Rightarrow> Some e | None \<Rightarrow> validateComponents cs)"

definition validateSurface :: "surface option \<Rightarrow> surface_error option" where
  "validateSurface s =
     (case s of
        None \<Rightarrow> Some NilSurface
      | Some x \<Rightarrow>
          if surfaceLocation x \<noteq> ''inline'' \<and> surfaceLocation x \<noteq> ''right_panel''
          then Some (InvalidLocation (surfaceLocation x))
          else if surfaceComponents x = [] then Some NoComponents
          else validateComponents (surfaceComponents x))"

definition validateInterrupt :: "interrupt option \<Rightarrow> surface_error option" where
  "validateInterrupt i =
     (case i of
        None \<Rightarrow> Some NilInterrupt
      | Some x \<Rightarrow>
          if interruptKind x \<notin> {''question'', ''approval'', ''choice'', ''form'', ''review''}
          then Some (InvalidKind (interruptKind x))
          else if interruptKind x = ''choice'' \<and> interruptChoices x = [] then Some NoChoices
          else if interruptKind x = ''form'' \<and> interruptFields x = [] then Some NoFields
          else if interruptKind x = ''review'' \<and> interruptSurface x \<noteq> None
               then validateSurface (interruptSurface x)
          else None)"

subsection \<open>What validation accepts\<close>

text \<open>All components of a tree, and the faults of one tree in the order the code looks for them.\<close>

fun subcomponents :: "surface_component \<Rightarrow> surface_component list" where
  "subcomponents (SurfaceComponent ty title cs text lang items columns rws status label buttons
      fs submit action evs) =
     SurfaceComponent ty title cs text lang items columns rws status label buttons fs submit action evs
       # concat (map subcomponents cs)"

definition field_ok :: "form_field \<Rightarrow> bool" where
  "field_ok f \<longleftrightarrow> fieldType f \<in> set validFieldTypes \<and> fieldName f \<noteq> []"

definition component_ok :: "surface_component \<Rightarrow> bool" where
  "component_ok c \<longleftrightarrow> componentType c \<in> set validComponentTypes \<and> (\<forall>f\<in>set (componentFields c). field_ok f)"

definition component_fault :: "surface_component \<Rightarrow> surface_error \<Rightarrow> bool" where
  "component_fault c e \<longleftrightarrow>
     (case e of
        UnknownComponent t \<Rightarrow> componentType c = t \<and> t \<notin> set validComponentTypes
      | UnknownField t \<Rightarrow> t \<notin> set validFieldTypes \<and> (\<exists>f\<in>set (componentFields c). fieldType f = t)
      | NamelessField \<Rightarrow> (\<exists>f\<in>set (componentFields c). fieldName f = [])
      | _ \<Rightarrow> False)"

lemma validateFields_None: "validateFields fs = None \<longleftrightarrow> (\<forall>f\<in>set fs. field_ok f)"
  by (induction fs) (auto simp: field_ok_def)

lemma validateFields_Some:
  "validateFields fs = Some e \<Longrightarrow>
   (\<exists>f\<in>set fs. e = UnknownField (fieldType f) \<and> fieldType f \<notin> set validFieldTypes)
   \<or> e = NamelessField \<and> (\<exists>f\<in>set fs. fieldName f = [])"
  by (induction fs) (auto split: if_splits)

lemma validate_accepts:
  "validateComponent c = None \<longleftrightarrow> (\<forall>d\<in>set (subcomponents c). component_ok d)"
  "validateComponents cs = None \<longleftrightarrow> (\<forall>c\<in>set cs. \<forall>d\<in>set (subcomponents c). component_ok d)"
  by (induction c and cs rule: validateComponent_validateComponents.induct)
    (auto simp: component_ok_def validateFields_None split: option.split)

lemma validate_reports:
  "validateComponent c = Some e \<Longrightarrow> \<exists>d\<in>set (subcomponents c). component_fault d e"
  "validateComponents cs = Some e \<Longrightarrow> \<exists>c\<in>set cs. \<exists>d\<in>set (subcomponents c). component_fault d e"
proof (induction c and cs rule: validateComponent_validateComponents.induct)
  case (1 ty x1 cs x2 x3 x4 x5 x6 x7 x8 x9 fs x10 x11 x12)
  let ?c = "SurfaceComponent ty x1 cs x2 x3 x4 x5 x6 x7 x8 x9 fs x10 x11 x12"
  show ?case
  proof (cases "ty \<in> set validComponentTypes")
    case False
    then have "component_fault ?c e" using "1.prems" by (auto simp: component_fault_def)
    then show ?thesis by simp
  next
    case ty: True
    show ?thesis
    proof (cases "validateComponents cs")
      case None
      then have "validateFields fs = Some e" using "1.prems" ty by simp
      from validateFields_Some [OF this] have "component_fault ?c e" by (auto simp: component_fault_def)
      then show ?thesis by simp
    next
      case (Some e')
      with "1.prems" ty have "validateComponents cs = Some e" by simp
      from "1.IH" [OF _ this] ty show ?thesis by auto
    qed
  qed
next
  case 2
  then show ?case by simp
next
  case (3 c cs)
  then show ?case by (auto split: option.splits)
qed

text \<open>A surface is accepted exactly when it is present, its location is one of the two known ones,
  it has a component, and in the whole component tree every component has a known type and every
  form field a known type and a name. An error about a component or a field is about one that
  occurs in the tree.\<close>

theorem surface_validation:
  "(validateSurface (Some s) = None \<longleftrightarrow>
      surfaceLocation s \<in> {''inline'', ''right_panel''} \<and> surfaceComponents s \<noteq> []
      \<and> list_all (\<lambda>c. list_all component_ok (subcomponents c)) (surfaceComponents s))
   \<and> (case validateSurface (Some s) of
        Some (UnknownComponent t) \<Rightarrow> list_ex (\<lambda>c. list_ex (\<lambda>d. component_fault d (UnknownComponent t)) (subcomponents c)) (surfaceComponents s)
      | Some (UnknownField t) \<Rightarrow> list_ex (\<lambda>c. list_ex (\<lambda>d. component_fault d (UnknownField t)) (subcomponents c)) (surfaceComponents s)
      | Some NamelessField \<Rightarrow> list_ex (\<lambda>c. list_ex (\<lambda>d. component_fault d NamelessField) (subcomponents c)) (surfaceComponents s)
      | _ \<Rightarrow> True)"
proof -
  have "validateSurface (Some s) = Some e \<Longrightarrow>
      e \<in> {InvalidLocation (surfaceLocation s), NoComponents}
      \<or> list_ex (\<lambda>c. list_ex (\<lambda>d. component_fault d e) (subcomponents c)) (surfaceComponents s)" for e
    using validate_reports(2) [of "surfaceComponents s" e]
    by (auto simp: validateSurface_def list_ex_iff split: if_splits)
  then show ?thesis
    using validate_accepts(2) [of "surfaceComponents s"]
    by (auto simp: validateSurface_def list_all_iff split: option.split surface_error.split)
qed

subsection \<open>The registry\<close>

record surface_broker =
  surfaces :: "string \<rightharpoonup> surface"
  interrupts :: "string \<rightharpoonup> interrupt"

definition newSurfaceBroker :: surface_broker where
  "newSurfaceBroker = \<lparr>surfaces = Map.empty, interrupts = Map.empty\<rparr>"

definition registerSurface :: "surface option \<Rightarrow> surface_broker \<Rightarrow> surface_broker" where
  "registerSurface s b =
     (case s of
        None \<Rightarrow> b
      | Some x \<Rightarrow> if surfaceId x = [] then b else b\<lparr>surfaces := (surfaces b)(surfaceId x \<mapsto> x)\<rparr>)"

definition registerInterrupt :: "interrupt option \<Rightarrow> surface_broker \<Rightarrow> surface_broker" where
  "registerInterrupt i b =
     (case i of
        None \<Rightarrow> b
      | Some x \<Rightarrow> if interruptId x = [] then b else b\<lparr>interrupts := (interrupts b)(interruptId x \<mapsto> x)\<rparr>)"

definition lookupSurface :: "string \<Rightarrow> surface_broker \<Rightarrow> surface option" where
  "lookupSurface k b = surfaces b k"

definition lookupInterrupt :: "string \<Rightarrow> surface_broker \<Rightarrow> interrupt option" where
  "lookupInterrupt k b = interrupts b k"

definition removeSurface :: "string \<Rightarrow> surface_broker \<Rightarrow> surface_broker" where
  "removeSurface k b = b\<lparr>surfaces := (surfaces b)(k := None)\<rparr>"

definition removeInterrupt :: "string \<Rightarrow> surface_broker \<Rightarrow> surface_broker" where
  "removeInterrupt k b = b\<lparr>interrupts := (interrupts b)(k := None)\<rparr>"

definition surfacesForConversation :: "string list \<Rightarrow> string \<Rightarrow> surface_broker \<Rightarrow> surface list" where
  "surfacesForConversation order conversation b =
     filter (\<lambda>s. surfaceConversation s = conversation) (List.map_filter (surfaces b) order)"

definition interruptsForConversation :: "string list \<Rightarrow> string \<Rightarrow> surface_broker \<Rightarrow> interrupt list" where
  "interruptsForConversation order conversation b =
     filter (\<lambda>i. interruptConversation i = conversation) (List.map_filter (interrupts b) order)"

definition interruptsForSurface :: "string list \<Rightarrow> string \<Rightarrow> surface_broker \<Rightarrow> interrupt list" where
  "interruptsForSurface order k b =
     filter (\<lambda>i. interruptSurfaceId i = k) (List.map_filter (interrupts b) order)"

datatype surface_op =
    RegisterSurface "surface option" | RegisterInterrupt "interrupt option"
  | RemoveSurface string | RemoveInterrupt string

fun surface_step :: "surface_op \<Rightarrow> surface_broker \<Rightarrow> surface_broker" where
  "surface_step (RegisterSurface s) = registerSurface s"
| "surface_step (RegisterInterrupt i) = registerInterrupt i"
| "surface_step (RemoveSurface k) = removeSurface k"
| "surface_step (RemoveInterrupt k) = removeInterrupt k"

definition wf_surfaces :: "surface_broker \<Rightarrow> bool" where
  "wf_surfaces b \<longleftrightarrow> (\<forall>k s. surfaces b k = Some s \<longrightarrow> surfaceId s = k \<and> k \<noteq> [])
     \<and> (\<forall>k i. interrupts b k = Some i \<longrightarrow> interruptId i = k \<and> k \<noteq> [])"

interpretation surface_registry: machine surface_step wf_surfaces
proof unfold_locales
  fix s e assume "wf_surfaces s"
  then show "wf_surfaces (surface_step e s)"
    by (cases e) (auto simp: wf_surfaces_def registerSurface_def registerInterrupt_def
        removeSurface_def removeInterrupt_def split: option.splits)
qed

end
