(* ===== verification/Coordinator.thy ===== *)
theory Coordinator
  imports Prelude
begin

text \<open>
  The message coordinator (\<open>internal/coordinators/coordinator.go\<close>): per conversation a queue, a
  processor goroutine that runs the queued messages one after the other, injection of messages
  into a running turn, and abort. Every section the code runs under a mutex (or as one operation
  of a \<open>sync.Map\<close>) is one action; goroutines are explicit program counters, so an interleaving is
  a list of actions. What a runner does with a turn is left open: it may take the injected
  messages at any time and ends with success, failure or a panic.
\<close>

subsection \<open>State\<close>

text \<open>
  A queued message: who waits for its result (a spilled mid-run message has nobody), its text, and
  whether it asks for compaction.
\<close>

datatype queued_message = Message (waiter: "nat option") (message_text: string) (compact: bool)

datatype result_kind = RunOk | RunFailed | NoRunner | Canceled | Injected

datatype message_result = Result (kind: result_kind) (was_aborted: bool)

record conversation_runner =
  queue :: "queued_message list"
  processing :: bool
  runner :: "nat option"
  cancel :: "nat option"
  aborted :: bool

text \<open>
  Where a processor goroutine is: at the top of its loop, running a message (with the runner it
  picked up and the number of the run context), about to deliver the result, about to drain the
  runner's mid-run messages, about to queue the drained ones again, or gone: because its queue was
  empty, or because the run panicked, which \<open>deferutil.Recover\<close> logs and nothing else.
\<close>

datatype processor_pc =
    AtTop
  | Running queued_message "nat option" nat
  | Finishing queued_message "nat option" result_kind
  | Spilling queued_message "nat option"
  | Requeueing queued_message "string list"
  | Stopped
  | Panicked queued_message

record processor =
  proc_conversation :: string
  proc_instance :: nat
  pc :: processor_pc

text \<open>Where a caller of \<open>dispatchMessage\<close> or \<open>CompactConversation\<close> is.\<close>

datatype caller_pc =
    Loaded string nat queued_message
  | Signalling nat queued_message
  | Waiting

text \<open>
  \<open>activeRunners\<close> maps a conversation to an index into \<open>instances\<close> (the heap of conversation
  runners); \<open>midRun\<close> is the pending mid-run list of a runner; \<open>results\<close> is what was sent on a
  caller's channel of capacity one.
\<close>

record coordinator =
  activeRunners :: "string \<rightharpoonup> nat"
  instances :: "conversation_runner list"
  processors :: "processor list"
  callers :: "nat \<rightharpoonup> caller_pc"
  aborters :: "nat \<rightharpoonup> nat"
  results :: "nat \<Rightarrow> message_result list"
  midRun :: "nat \<Rightarrow> string list"
  nextRunner :: nat
  nextRun :: nat
  cancelledRuns :: "nat set"

definition emptyRunner :: conversation_runner where
  "emptyRunner = \<lparr>queue = [], processing = False, runner = None, cancel = None, aborted = False\<rparr>"

definition newCoordinator :: coordinator where
  "newCoordinator = \<lparr>activeRunners = Map.empty, instances = [], processors = [], callers = Map.empty,
     aborters = Map.empty, results = (\<lambda>_. []), midRun = (\<lambda>_. []), nextRunner = 0, nextRun = 0, cancelledRuns = {}\<rparr>"

definition setInstance :: "nat \<Rightarrow> conversation_runner \<Rightarrow> coordinator \<Rightarrow> coordinator" where
  "setInstance i r s = s\<lparr>instances := (instances s)[i := r]\<rparr>"

definition setPc :: "nat \<Rightarrow> processor_pc \<Rightarrow> coordinator \<Rightarrow> coordinator" where
  "setPc p c s = s\<lparr>processors := (processors s)[p := (processors s ! p)\<lparr>pc := c\<rparr>]\<rparr>"

definition sendResult :: "nat option \<Rightarrow> message_result \<Rightarrow> coordinator \<Rightarrow> coordinator" where
  "sendResult w r s =
     (case w of None \<Rightarrow> s | Some v \<Rightarrow> s\<lparr>results := (results s)(v := results s v @ [r])\<rparr>)"

subsection \<open>Callers\<close>

text \<open>\<open>LoadOrStore\<close>, the first statement of \<open>enqueueMessage\<close>.\<close>

definition submit :: "nat \<Rightarrow> string \<Rightarrow> string \<Rightarrow> bool \<Rightarrow> coordinator \<Rightarrow> coordinator option" where
  "submit w conversation txt compaction s =
     (if callers s w \<noteq> None then None
      else (let m = Message (Some w) txt compaction in
        (case activeRunners s conversation of
           Some i \<Rightarrow> Some (s\<lparr>callers := (callers s)(w \<mapsto> Loaded conversation i m)\<rparr>)
         | None \<Rightarrow>
             Some (s\<lparr>callers := (callers s)(w \<mapsto> Loaded conversation (length (instances s)) m),
                     activeRunners := (activeRunners s)(conversation \<mapsto> length (instances s)),
                     instances := instances s @ [emptyRunner]\<rparr>))))"

text \<open>
  The critical section of \<open>enqueueMessage\<close>; \<open>created\<close> says whether \<open>createRunner\<close> finds the agent.
\<close>

definition enqueue :: "nat \<Rightarrow> bool \<Rightarrow> coordinator \<Rightarrow> coordinator option" where
  "enqueue w created s =
     (case callers s w of
        Some (Loaded conversation i m) \<Rightarrow>
          (let r = instances s ! i in
           if aborted r then
             Some (sendResult (Some w) (Result Canceled False) (s\<lparr>callers := (callers s)(w \<mapsto> Waiting)\<rparr>))
           else (case (if processing r \<and> \<not> compact m then runner r else None) of
             Some k \<Rightarrow> Some (s\<lparr>callers := (callers s)(w \<mapsto> Signalling k m)\<rparr>)
           | None \<Rightarrow>
               (let r1 = r\<lparr>queue := queue r @ [m]\<rparr>;
                    s1 = s\<lparr>callers := (callers s)(w \<mapsto> Waiting)\<rparr> in
                if processing r then Some (setInstance i r1 s1)
                else Some ((setInstance i
                       (r1\<lparr>processing := True, runner := (if created then Some (nextRunner s) else None)\<rparr>) s1)
                     \<lparr>nextRunner := nextRunner s + 1,
                      processors := processors s @
                        [\<lparr>proc_conversation = conversation, proc_instance = i, pc = AtTop\<rparr>]\<rparr>))))
      | _ \<Rightarrow> None)"

text \<open>\<open>SignalMidRunMessage\<close> and the \<open>injected\<close> result, after the mutex is released.\<close>

definition signal :: "nat \<Rightarrow> coordinator \<Rightarrow> coordinator option" where
  "signal w s =
     (case callers s w of
        Some (Signalling k m) \<Rightarrow>
          Some (sendResult (Some w) (Result Injected False)
            (s\<lparr>callers := (callers s)(w \<mapsto> Waiting),
               midRun := (midRun s)(k := midRun s k @ [message_text m])\<rparr>))
      | _ \<Rightarrow> None)"

subsection \<open>The processor goroutine\<close>

definition processTop :: "nat \<Rightarrow> coordinator \<Rightarrow> coordinator option" where
  "processTop p s =
     (if p < length (processors s) \<and> pc (processors s ! p) = AtTop then
        (let i = proc_instance (processors s ! p); r = instances s ! i in
         (case queue r of
            [] \<Rightarrow>
              Some ((setPc p Stopped (setInstance i (r\<lparr>processing := False, runner := None\<rparr>) s))
                \<lparr>activeRunners := (activeRunners s)(proc_conversation (processors s ! p) := None)\<rparr>)
          | m # rest \<Rightarrow>
              Some ((setPc p (Running m (runner r) (nextRun s))
                  (setInstance i (r\<lparr>queue := rest,
                     cancel := (if compact m then cancel r else Some (nextRun s))\<rparr>) s))
                \<lparr>nextRun := nextRun s + 1\<rparr>)))
      else None)"

text \<open>The runner takes the pending mid-run messages into its turn.\<close>

definition runnerDrains :: "nat \<Rightarrow> coordinator \<Rightarrow> coordinator option" where
  "runnerDrains p s =
     (if p < length (processors s) then
        (case pc (processors s ! p) of
           Running m (Some k) n \<Rightarrow> if compact m then None else Some (s\<lparr>midRun := (midRun s)(k := [])\<rparr>)
         | _ \<Rightarrow> None)
      else None)"

definition runnerReturns :: "nat \<Rightarrow> bool \<Rightarrow> coordinator \<Rightarrow> coordinator option" where
  "runnerReturns p ok s =
     (if p < length (processors s) then
        (case pc (processors s ! p) of
           Running m k n \<Rightarrow>
             Some (setPc p (Finishing m k
               (if k = None then NoRunner else if ok then RunOk else RunFailed)) s)
         | _ \<Rightarrow> None)
      else None)"

text \<open>A run that panics: the deferred \<open>Recover\<close> ends the goroutine and touches nothing of the instance.\<close>

definition runnerPanics :: "nat \<Rightarrow> coordinator \<Rightarrow> coordinator option" where
  "runnerPanics p s =
     (if p < length (processors s) then
        (case pc (processors s ! p) of
           Running m (Some k) n \<Rightarrow> Some (setPc p (Panicked m) s)
         | _ \<Rightarrow> None)
      else None)"

definition deliverResult :: "nat \<Rightarrow> coordinator \<Rightarrow> coordinator option" where
  "deliverResult p s =
     (if p < length (processors s) then
        (case pc (processors s ! p) of
           Finishing m k res \<Rightarrow>
             Some (setPc p (Spilling m k)
               (sendResult (waiter m) (Result res (aborted (instances s ! proc_instance (processors s ! p)))) s))
         | _ \<Rightarrow> None)
      else None)"

definition drainSpilled :: "nat \<Rightarrow> coordinator \<Rightarrow> coordinator option" where
  "drainSpilled p s =
     (if p < length (processors s) then
        (case pc (processors s ! p) of
           Spilling m None \<Rightarrow> Some (setPc p AtTop s)
         | Spilling m (Some k) \<Rightarrow>
             Some (setPc p (if midRun s k = [] then AtTop else Requeueing m (midRun s k))
               (s\<lparr>midRun := (midRun s)(k := [])\<rparr>))
         | _ \<Rightarrow> None)
      else None)"

definition requeueSpilled :: "nat \<Rightarrow> coordinator \<Rightarrow> coordinator option" where
  "requeueSpilled p s =
     (if p < length (processors s) then
        (case pc (processors s ! p) of
           Requeueing m txts \<Rightarrow>
             (let i = proc_instance (processors s ! p); r = instances s ! i in
              Some (setPc p AtTop
                (setInstance i (r\<lparr>queue := queue r @ map (\<lambda>t. Message None t False) txts\<rparr>) s)))
         | _ \<Rightarrow> None)
      else None)"

subsection \<open>Abort\<close>

text \<open>
  \<open>AbortConversationRun\<close> loads the instance first; \<open>None\<close> is its result \<open>false\<close>. Then, under the
  instance's mutex, it marks the instance, cancels the recorded run context and rejects the queue.
\<close>

definition abortLoad :: "nat \<Rightarrow> string \<Rightarrow> coordinator \<Rightarrow> coordinator option" where
  "abortLoad x conversation s =
     (case activeRunners s conversation of
        None \<Rightarrow> None
      | Some i \<Rightarrow> Some (s\<lparr>aborters := (aborters s)(x \<mapsto> i)\<rparr>))"

definition abortLocked :: "nat \<Rightarrow> coordinator \<Rightarrow> coordinator option" where
  "abortLocked x s =
     (case aborters s x of
        None \<Rightarrow> None
      | Some i \<Rightarrow>
          (let r = instances s ! i;
               s1 = fold (\<lambda>m. sendResult (waiter m) (Result Canceled False)) (queue r) s in
           Some ((setInstance i (r\<lparr>aborted := True, queue := []\<rparr>) s1)
              \<lparr>aborters := (aborters s)(x := None),
               cancelledRuns := (case cancel r of None \<Rightarrow> cancelledRuns s | Some n \<Rightarrow> insert n (cancelledRuns s))\<rparr>)))"

definition getActiveConversationRunner :: "string \<Rightarrow> coordinator \<Rightarrow> nat option" where
  "getActiveConversationRunner conversation s =
     (case activeRunners s conversation of None \<Rightarrow> None | Some i \<Rightarrow> runner (instances s ! i))"

subsection \<open>Interleavings\<close>

datatype action =
    Submit nat string string bool | Enqueue nat bool | Signal nat
  | Top nat | Drains nat | Returns nat bool | Panics nat | Delivers nat | DrainSpilled nat | Requeue nat
  | AbortLoad nat string | AbortLocked nat

fun exec :: "action \<Rightarrow> coordinator \<Rightarrow> coordinator option" where
  "exec (Submit w c t k) s = submit w c t k s"
| "exec (Enqueue w b) s = enqueue w b s"
| "exec (Signal w) s = signal w s"
| "exec (Top p) s = processTop p s"
| "exec (Drains p) s = runnerDrains p s"
| "exec (Returns p ok) s = runnerReturns p ok s"
| "exec (Panics p) s = runnerPanics p s"
| "exec (Delivers p) s = deliverResult p s"
| "exec (DrainSpilled p) s = drainSpilled p s"
| "exec (Requeue p) s = requeueSpilled p s"
| "exec (AbortLoad x c) s = abortLoad x c s"
| "exec (AbortLocked x) s = abortLocked x s"

fun execs :: "action list \<Rightarrow> coordinator \<Rightarrow> coordinator option" where
  "execs [] s = Some s"
| "execs (a # as) s = Option.bind (exec a s) (execs as)"

inductive reachable :: "coordinator \<Rightarrow> bool" where
  reachable_init: "reachable newCoordinator"
| reachable_step: "reachable s \<Longrightarrow> exec a s = Some t \<Longrightarrow> reachable t"

lemma reachable_execs: "reachable s \<Longrightarrow> execs as s = Some t \<Longrightarrow> reachable t"
  by (induction as arbitrary: s) (auto intro: reachable_step split: Option.bind_splits)

text \<open>The messages a conversation has running at the moment.\<close>

definition running_in :: "string \<Rightarrow> coordinator \<Rightarrow> queued_message list" where
  "running_in conversation s =
     List.map_filter (\<lambda>q. case pc q of
         Running m k n \<Rightarrow> if proc_conversation q = conversation then Some m else None
       | _ \<Rightarrow> None) (processors s)"

end
