(* ===== verification/CoordinatorProps.thy ===== *)
theory CoordinatorProps
  imports Coordinator
begin

text \<open>
  What holds in every interleaving of the coordinator: one processor per conversation runner, and
  every submitted message is in exactly one place until its single result is delivered. And two
  interleavings that the code allows although it means to exclude them.
\<close>

subsection \<open>Processors and instances\<close>

definition live :: "(nat \<times> bool) list \<Rightarrow> nat list" where
  "live l = map fst (filter snd l)"

definition threads :: "coordinator \<Rightarrow> (nat \<times> bool) list" where
  "threads s = map (\<lambda>q. (proc_instance q, pc q \<noteq> Stopped)) (processors s)"

text \<open>
  The live processors are those of the instances marked as processing, one for each, and only
  such instances have queued messages. All indices are valid.
\<close>

definition wf_threads :: "coordinator \<Rightarrow> bool" where
  "wf_threads s \<longleftrightarrow> distinct (live (threads s))
     \<and> set (live (threads s)) = {i. i < length (instances s) \<and> processing (instances s ! i)}
     \<and> (\<forall>i<length (instances s). queue (instances s ! i) \<noteq> [] \<longrightarrow> processing (instances s ! i))
     \<and> (\<forall>c i. activeRunners s c = Some i \<longrightarrow> i < length (instances s))
     \<and> (\<forall>w c i m. callers s w = Some (Loaded c i m) \<longrightarrow> i < length (instances s))
     \<and> (\<forall>x i. aborters s x = Some i \<longrightarrow> i < length (instances s))
     \<and> (\<forall>q\<in>set (processors s). proc_instance q < length (instances s))"

lemma wf_loaded: "wf_threads s \<Longrightarrow> callers s w = Some (Loaded c i m) \<Longrightarrow> i < length (instances s)"
  unfolding wf_threads_def by blast

lemma wf_active: "wf_threads s \<Longrightarrow> activeRunners s c = Some i \<Longrightarrow> i < length (instances s)"
  unfolding wf_threads_def by blast

lemma wf_aborter: "wf_threads s \<Longrightarrow> aborters s x = Some i \<Longrightarrow> i < length (instances s)"
  unfolding wf_threads_def by blast

lemma wf_proc: "wf_threads s \<Longrightarrow> p < length (processors s) \<Longrightarrow> proc_instance (processors s ! p) < length (instances s)"
  unfolding wf_threads_def by simp

lemma wf_queue:
  "wf_threads s \<Longrightarrow> i < length (instances s) \<Longrightarrow> queue (instances s ! i) \<noteq> [] \<Longrightarrow> processing (instances s ! i)"
  unfolding wf_threads_def by blast

lemma wf_live:
  "wf_threads s \<Longrightarrow> i \<in> set (live (threads s)) \<longleftrightarrow> i < length (instances s) \<and> processing (instances s ! i)"
  "wf_threads s \<Longrightarrow> distinct (live (threads s))"
  unfolding wf_threads_def by auto

lemma wf_threadsI:
  assumes "distinct (live (threads s))"
    and "\<And>i. i \<in> set (live (threads s)) \<longleftrightarrow> i < length (instances s) \<and> processing (instances s ! i)"
    and "\<And>i. i < length (instances s) \<Longrightarrow> queue (instances s ! i) \<noteq> [] \<Longrightarrow> processing (instances s ! i)"
    and "\<And>c i. activeRunners s c = Some i \<Longrightarrow> i < length (instances s)"
    and "\<And>w c i m. callers s w = Some (Loaded c i m) \<Longrightarrow> i < length (instances s)"
    and "\<And>x i. aborters s x = Some i \<Longrightarrow> i < length (instances s)"
    and "\<And>q. q \<in> set (processors s) \<Longrightarrow> proc_instance q < length (instances s)"
  shows "wf_threads s"
  using assms unfolding wf_threads_def by blast

lemma live_append: "live (l @ [(i, b)]) = live l @ (if b then [i] else [])"
  by (simp add: live_def)

lemma live_stop:
  assumes "p < length l" and "l ! p = (i, True)" and "distinct (live l)"
  shows "live (l[p := (i, False)]) = remove1 i (live l)"
proof -
  have l: "l = take p l @ (i, True) # drop (Suc p) l" using assms(1,2) by (metis id_take_nth_drop)
  have "l[p := (i, False)] = take p l @ (i, False) # drop (Suc p) l"
    using assms(1) by (rule upd_conv_take_nth_drop)
  then have a: "live (l[p := (i, False)]) = live (take p l) @ live (drop (Suc p) l)"
    by (simp add: live_def)
  have b: "live l = live (take p l) @ i # live (drop (Suc p) l)"
    by (subst l) (simp add: live_def)
  then have "i \<notin> set (live (take p l))" using assms(3) by auto
  then show ?thesis by (simp add: a b remove1_append)
qed

lemma threads_setPc:
  assumes "p < length (processors s)" and "pc (processors s ! p) \<noteq> Stopped" and "c \<noteq> Stopped"
  shows "threads (setPc p c s) = threads s"
  using assms by (simp add: threads_def setPc_def map_update list_update_same_conv)

lemma threads_same [simp]:
  "threads (setInstance i r s) = threads s" "threads (sendResult w x s) = threads s"
  by (auto simp: threads_def setInstance_def sendResult_def split: option.split)

lemma setPc_fields [simp]:
  "activeRunners (setPc p c s) = activeRunners s" "instances (setPc p c s) = instances s"
  "callers (setPc p c s) = callers s" "aborters (setPc p c s) = aborters s"
  "results (setPc p c s) = results s" "length (processors (setPc p c s)) = length (processors s)"
  by (simp_all add: setPc_def)

lemma setInstance_fields [simp]:
  "activeRunners (setInstance i r s) = activeRunners s" "processors (setInstance i r s) = processors s"
  "callers (setInstance i r s) = callers s" "aborters (setInstance i r s) = aborters s"
  "results (setInstance i r s) = results s"
  "instances (setInstance i r s) = (instances s)[i := r]"
  by (simp_all add: setInstance_def)

lemma sendResult_fields [simp]:
  "activeRunners (sendResult w x s) = activeRunners s" "instances (sendResult w x s) = instances s"
  "callers (sendResult w x s) = callers s" "aborters (sendResult w x s) = aborters s"
  "processors (sendResult w x s) = processors s"
  by (auto simp: sendResult_def split: option.split)

lemma processors_setPc_instance:
  assumes "q \<in> set (processors (setPc p c s))" and "p < length (processors s)"
  shows "\<exists>q'\<in>set (processors s). proc_instance q' = proc_instance q"
  using assms set_update_subset_insert [of "processors s" p] by (fastforce simp: setPc_def)

text \<open>Actions that leave instances, their flags and the live processors as they are.\<close>

lemma wf_threads_cong:
  assumes wf: "wf_threads s" and th: "threads t = threads s" and ins: "instances t = instances s"
    and "\<And>c i. activeRunners t c = Some i \<Longrightarrow> i < length (instances s)"
    and "\<And>x i. aborters t x = Some i \<Longrightarrow> i < length (instances s)"
    and "\<And>w c i m. callers t w = Some (Loaded c i m) \<Longrightarrow> i < length (instances s)"
  shows "wf_threads t"
proof (rule wf_threadsI)
  have e: "map proc_instance (processors t) = map proc_instance (processors s)"
    using arg_cong [OF th, of "map fst"] by (simp add: threads_def comp_def)
  fix q assume "q \<in> set (processors t)"
  then have "proc_instance q \<in> set (map proc_instance (processors t))" by simp
  then obtain p where "p < length (processors s)" "proc_instance q = proc_instance (processors s ! p)"
    unfolding e by (auto simp: in_set_conv_nth)
  then show "proc_instance q < length (instances t)" using wf_proc [OF wf] ins by simp
qed (use assms wf_live [OF wf] wf_queue [OF wf] in \<open>simp_all add: th ins\<close>)

text \<open>An instance may change as long as its processing flag stays and its queue stays with it.\<close>

lemma wf_threads_setInstance:
  assumes wf: "wf_threads s" and i: "i < length (instances s)"
    and r: "processing r = processing (instances s ! i)" "queue r \<noteq> [] \<Longrightarrow> processing r"
  shows "wf_threads (setInstance i r s)"
proof -
  have "processing ((instances s)[i := r] ! j) = processing (instances s ! j)" for j
    using r(1) i by (cases "i = j") simp_all
  moreover have "queue ((instances s)[i := r] ! j) \<noteq> [] \<Longrightarrow> j < length (instances s) \<Longrightarrow>
      processing ((instances s)[i := r] ! j)" for j
    using r(2) wf_queue [OF wf] by (cases "i = j") simp_all
  ultimately show ?thesis using wf by (simp add: wf_threads_def)
qed

lemma submit_threads:
  assumes wf: "wf_threads s" and t: "submit w c txt k s = Some t"
  shows "wf_threads t"
proof (cases "activeRunners s c")
  case (Some i)
  then have t: "t = s\<lparr>callers := (callers s)(w \<mapsto> Loaded c i (Message (Some w) txt k))\<rparr>"
    using t by (auto simp: submit_def split: if_splits)
  show ?thesis
    by (rule wf_threads_cong [OF wf])
      (use wf_active [OF wf] wf_loaded [OF wf] wf_aborter [OF wf] Some in
        \<open>auto simp: t threads_def split: if_splits\<close>)
next
  case None
  let ?n = "length (instances s)"
  have t: "t = s\<lparr>callers := (callers s)(w \<mapsto> Loaded c ?n (Message (Some w) txt k)),
      activeRunners := (activeRunners s)(c \<mapsto> ?n), instances := instances s @ [emptyRunner]\<rparr>"
    using t None by (auto simp: submit_def split: if_splits)
  have th: "threads t = threads s" by (simp add: t threads_def)
  show ?thesis
  proof (rule wf_threadsI)
    show "distinct (live (threads t))" using wf_live [OF wf] th by simp
    show "i \<in> set (live (threads t)) \<longleftrightarrow> i < length (instances t) \<and> processing (instances t ! i)" for i
      using wf_live [OF wf] th by (auto simp: t nth_append emptyRunner_def less_Suc_eq)
    show "i < length (instances t) \<Longrightarrow> queue (instances t ! i) \<noteq> [] \<Longrightarrow> processing (instances t ! i)" for i
      using wf_queue [OF wf, of i] by (auto simp: t nth_append emptyRunner_def less_Suc_eq split: if_splits)
    show "activeRunners t d = Some i \<Longrightarrow> i < length (instances t)" for d i
      using wf_active [OF wf, of d i] by (auto simp: t split: if_splits)
    show "callers t v = Some (Loaded d i m) \<Longrightarrow> i < length (instances t)" for v d i m
      using wf_loaded [OF wf, of v d i m] by (auto simp: t split: if_splits)
    show "aborters t x = Some i \<Longrightarrow> i < length (instances t)" for x i
      using wf_aborter [OF wf, of x i] by (auto simp: t)
    show "q \<in> set (processors t) \<Longrightarrow> proc_instance q < length (instances t)" for q
      using wf by (auto simp: t wf_threads_def intro: less_SucI)
  qed
qed

lemma start_threads:
  assumes wf: "wf_threads s" and i: "i < length (instances s)" "\<not> processing (instances s ! i)"
    and r: "processing r"
  shows "wf_threads ((setInstance i r s)\<lparr>nextRunner := n, processors := processors s @
      [\<lparr>proc_conversation = c, proc_instance = i, pc = AtTop\<rparr>]\<rparr>)" (is "wf_threads ?t")
proof (rule wf_threadsI)
  have th: "live (threads ?t) = live (threads s) @ [i]" by (simp add: threads_def live_def)
  show "distinct (live (threads ?t))" using wf_live [OF wf] th i by auto
  show "j \<in> set (live (threads ?t)) \<longleftrightarrow> j < length (instances ?t) \<and> processing (instances ?t ! j)" for j
    using wf_live [OF wf] th i r by (cases "j = i") simp_all
  show "j < length (instances ?t) \<Longrightarrow> queue (instances ?t ! j) \<noteq> [] \<Longrightarrow> processing (instances ?t ! j)" for j
    using wf_queue [OF wf, of j] r by (cases "j = i") simp_all
  show "q \<in> set (processors ?t) \<Longrightarrow> proc_instance q < length (instances ?t)" for q
    using wf i by (auto simp: wf_threads_def)
qed (use wf_active [OF wf] wf_loaded [OF wf] wf_aborter [OF wf] in simp_all)

lemma enqueue_threads:
  assumes wf: "wf_threads s" and t: "enqueue w created s = Some t"
  shows "wf_threads t"
proof -
  obtain c i m where cl: "callers s w = Some (Loaded c i m)"
    using t by (auto simp: enqueue_def split: option.splits caller_pc.splits)
  let ?r = "instances s ! i"
  have i: "i < length (instances s)" by (rule wf_loaded [OF wf cl])
  let ?s1 = "s\<lparr>callers := (callers s)(w \<mapsto> Waiting)\<rparr>"
  have s1: "wf_threads ?s1"
    by (rule wf_threads_cong [OF wf])
      (use wf_active [OF wf] wf_loaded [OF wf] wf_aborter [OF wf] in \<open>auto simp: threads_def split: if_splits\<close>)
  consider "aborted ?r" | k where "\<not> aborted ?r" "processing ?r \<and> \<not> compact m" "runner ?r = Some k"
    | "\<not> aborted ?r" "processing ?r" "compact m \<or> runner ?r = None"
    | "\<not> aborted ?r" "\<not> processing ?r" by fastforce
  then show ?thesis
  proof cases
    case 1
    then have "t = sendResult (Some w) (Result Canceled False) ?s1"
      using t cl by (simp add: enqueue_def)
    then show ?thesis
      by (intro wf_threads_cong [OF s1])
        (use wf_active [OF s1] wf_loaded [OF s1] wf_aborter [OF s1] in simp_all)
  next
    case 2
    then have t: "t = s\<lparr>callers := (callers s)(w \<mapsto> Signalling k m)\<rparr>"
      using t cl by (simp add: enqueue_def)
    show ?thesis
      by (rule wf_threads_cong [OF wf])
        (use wf_active [OF wf] wf_loaded [OF wf] wf_aborter [OF wf] in \<open>auto simp: t threads_def split: if_splits\<close>)
  next
    case 3
    then have "t = setInstance i (?r\<lparr>queue := queue ?r @ [m]\<rparr>) ?s1"
      using t cl by (auto simp: enqueue_def Let_def split: if_splits)
    then show ?thesis using 3 i by (auto intro!: wf_threads_setInstance [OF s1])
  next
    case 4
    then show ?thesis
      using t cl i start_threads [OF s1, of i] by (auto simp: enqueue_def Let_def)
  qed
qed

lemma wf_threads_setPc:
  assumes "wf_threads s" and "p < length (processors s)" and "pc (processors s ! p) \<noteq> Stopped"
    and "c \<noteq> Stopped"
  shows "wf_threads (setPc p c s)"
  by (rule wf_threads_cong [OF assms(1) threads_setPc [OF assms(2-4)]])
    (use wf_active [OF assms(1)] wf_loaded [OF assms(1)] wf_aborter [OF assms(1)] in simp_all)

lemma wf_threads_misc [simp]:
  "wf_threads (s\<lparr>midRun := x\<rparr>) = wf_threads s" "wf_threads (s\<lparr>nextRun := n\<rparr>) = wf_threads s"
  "wf_threads (s\<lparr>cancelledRuns := cs\<rparr>) = wf_threads s" "wf_threads (s\<lparr>results := rs\<rparr>) = wf_threads s"
  by (simp_all add: wf_threads_def threads_def)

lemma wf_threads_sendResult [simp]: "wf_threads (sendResult w x s) = wf_threads s"
  by (simp add: wf_threads_def)

lemma processTop_threads:
  assumes wf: "wf_threads s" and t: "processTop p s = Some t"
  shows "wf_threads t"
proof -
  let ?i = "proc_instance (processors s ! p)"
  let ?r = "instances s ! ?i"
  have p: "p < length (processors s)" "pc (processors s ! p) = AtTop"
    using t by (auto simp: processTop_def split: if_splits)
  have i: "?i < length (instances s)" using wf p by (auto simp: wf_threads_def)
  have tp: "threads s ! p = (?i, True)" using p by (simp add: threads_def)
  have "?i \<in> set (live (threads s))"
    using p tp nth_mem [of p "threads s"] by (force simp: live_def threads_def)
  then have proc: "processing ?r" using wf by (simp add: wf_threads_def)
  show ?thesis
  proof (cases "queue ?r")
    case Nil
    define r1 where "r1 = ?r\<lparr>processing := False, runner := None\<rparr>"
    have t: "t = (setPc p Stopped (setInstance ?i r1 s))
        \<lparr>activeRunners := (activeRunners s)(proc_conversation (processors s ! p) := None)\<rparr>"
      using t p Nil by (simp add: processTop_def Let_def r1_def)
    have "threads t = (threads s)[p := (?i, False)]"
      by (simp add: t threads_def setPc_def map_update)
    then have l: "live (threads t) = remove1 ?i (live (threads s))"
      using live_stop [of p "threads s", OF _ tp] wf p by (simp add: threads_def wf_threads_def)
    show ?thesis
    proof (rule wf_threadsI)
      show "distinct (live (threads t))" using wf_live [OF wf] l by simp
      show "j \<in> set (live (threads t)) \<longleftrightarrow> j < length (instances t) \<and> processing (instances t ! j)" for j
        using wf_live [OF wf] l i by (cases "j = ?i") (simp_all add: t r1_def)
      show "j < length (instances t) \<Longrightarrow> queue (instances t ! j) \<noteq> [] \<Longrightarrow> processing (instances t ! j)" for j
        using wf_queue [OF wf, of j] Nil by (cases "j = ?i") (simp_all add: t r1_def)
      show "q \<in> set (processors t) \<Longrightarrow> proc_instance q < length (instances t)" for q
        using wf processors_setPc_instance [of q p Stopped s] p
        by (fastforce simp: t wf_threads_def setPc_def setInstance_def)
    qed (use wf_active [OF wf] wf_loaded [OF wf] wf_aborter [OF wf] in \<open>auto simp: t split: if_splits\<close>)
  next
    case (Cons m rest)
    have "wf_threads (setPc p (Running m (runner ?r) (nextRun s)) (setInstance ?i
        (?r\<lparr>queue := rest, cancel := if compact m then cancel ?r else Some (nextRun s)\<rparr>) s))"
      using proc i p wf by (intro wf_threads_setPc wf_threads_setInstance) simp_all
    then show ?thesis using t p Cons by (auto simp: processTop_def Let_def)
  qed
qed

lemma runner_threads:
  "wf_threads s \<Longrightarrow> runnerDrains p s = Some t \<Longrightarrow> wf_threads t"
  "wf_threads s \<Longrightarrow> runnerReturns p ok s = Some t \<Longrightarrow> wf_threads t"
  "wf_threads s \<Longrightarrow> runnerPanics p s = Some t \<Longrightarrow> wf_threads t"
  "wf_threads s \<Longrightarrow> deliverResult p s = Some t \<Longrightarrow> wf_threads t"
  "wf_threads s \<Longrightarrow> drainSpilled p s = Some t \<Longrightarrow> wf_threads t"
  by (auto simp: runnerDrains_def runnerReturns_def runnerPanics_def deliverResult_def drainSpilled_def
      intro!: wf_threads_setPc split: if_splits processor_pc.splits option.splits)

lemma requeueSpilled_threads:
  assumes wf: "wf_threads s" and t: "requeueSpilled p s = Some t"
  shows "wf_threads t"
proof -
  let ?i = "proc_instance (processors s ! p)"
  obtain m txts where p: "p < length (processors s)" "pc (processors s ! p) = Requeueing m txts"
    using t by (auto simp: requeueSpilled_def split: if_splits processor_pc.splits)
  have i: "?i < length (instances s)" using wf p by (auto simp: wf_threads_def)
  have "threads s ! p = (?i, True)" using p by (simp add: threads_def)
  then have "?i \<in> set (live (threads s))"
    using p nth_mem [of p "threads s"] by (force simp: live_def threads_def)
  then have proc: "processing (instances s ! ?i)" using wf by (simp add: wf_threads_def)
  have "wf_threads (setPc p AtTop (setInstance ?i
      ((instances s ! ?i)\<lparr>queue := queue (instances s ! ?i) @ map (\<lambda>t. Message None t False) txts\<rparr>) s))"
    using proc i p wf by (intro wf_threads_setPc wf_threads_setInstance) simp_all
  then show ?thesis using t p by (simp add: requeueSpilled_def Let_def)
qed

lemma fold_sendResult_fields [simp]:
  "activeRunners (fold (\<lambda>m. sendResult (waiter m) x) ms s) = activeRunners s"
  "instances (fold (\<lambda>m. sendResult (waiter m) x) ms s) = instances s"
  "callers (fold (\<lambda>m. sendResult (waiter m) x) ms s) = callers s"
  "aborters (fold (\<lambda>m. sendResult (waiter m) x) ms s) = aborters s"
  "processors (fold (\<lambda>m. sendResult (waiter m) x) ms s) = processors s"
  by (induction ms arbitrary: s) simp_all

lemma abort_threads:
  assumes wf: "wf_threads s"
  shows "abortLoad x c s = Some t \<Longrightarrow> wf_threads t" and "abortLocked x s = Some t \<Longrightarrow> wf_threads t"
proof -
  show "abortLoad x c s = Some t \<Longrightarrow> wf_threads t"
    by (rule wf_threads_cong [OF wf])
      (use wf_active [OF wf] wf_loaded [OF wf] wf_aborter [OF wf] in
        \<open>auto simp: abortLoad_def threads_def split: option.splits if_splits\<close>)
  assume t: "abortLocked x s = Some t"
  then obtain i where i: "aborters s x = Some i" by (auto simp: abortLocked_def split: option.splits)
  let ?r = "instances s ! i"
  let ?s1 = "fold (\<lambda>m. sendResult (waiter m) (Result Canceled False)) (queue ?r) s"
  have "wf_threads ?s1"
    by (rule wf_threads_cong [OF wf])
      (use wf_active [OF wf] wf_loaded [OF wf] wf_aborter [OF wf] in \<open>simp_all add: threads_def\<close>)
  then have w: "wf_threads (setInstance i (?r\<lparr>aborted := True, queue := []\<rparr>) ?s1)"
    using wf_aborter [OF wf i] wf_queue [OF wf] by (intro wf_threads_setInstance) simp_all
  then have "wf_threads ((setInstance i (?r\<lparr>aborted := True, queue := []\<rparr>) ?s1)\<lparr>aborters := (aborters s)(x := None)\<rparr>)"
    by (rule wf_threads_cong)
      (use wf_active [OF wf] wf_loaded [OF wf] wf_aborter [OF wf] in \<open>auto simp: threads_def split: if_splits\<close>)
  then show "wf_threads t" using t i by (auto simp: abortLocked_def Let_def)
qed

lemma signal_threads:
  assumes wf: "wf_threads s" and t: "signal w s = Some t"
  shows "wf_threads t"
proof -
  obtain k m where "t = sendResult (Some w) (Result Injected False)
      (s\<lparr>callers := (callers s)(w \<mapsto> Waiting), midRun := (midRun s)(k := midRun s k @ [message_text m])\<rparr>)"
    using t by (auto simp: signal_def split: option.splits caller_pc.splits)
  then show ?thesis
    by (intro wf_threads_cong [OF wf])
      (use wf_active [OF wf] wf_loaded [OF wf] wf_aborter [OF wf] in
        \<open>auto simp: threads_def split: if_splits\<close>)
qed

lemma exec_threads: "wf_threads s \<Longrightarrow> exec a s = Some t \<Longrightarrow> wf_threads t"
  by (cases a) (auto intro: submit_threads enqueue_threads signal_threads processTop_threads
      runner_threads requeueSpilled_threads abort_threads)

subsection \<open>Where a message is\<close>

definition in_queue :: "nat \<Rightarrow> conversation_runner \<Rightarrow> nat" where
  "in_queue w r = count_list (map waiter (queue r)) (Some w)"

fun in_processor :: "nat \<Rightarrow> processor_pc \<Rightarrow> nat" where
  "in_processor w (Running m k n) = (if waiter m = Some w then 1 else 0)"
| "in_processor w (Finishing m k res) = (if waiter m = Some w then 1 else 0)"
| "in_processor w (Panicked m) = (if waiter m = Some w then 1 else 0)"
| "in_processor w _ = 0"

fun in_caller :: "caller_pc option \<Rightarrow> nat" where
  "in_caller (Some (Loaded c i m)) = 1"
| "in_caller (Some (Signalling k m)) = 1"
| "in_caller _ = 0"

text \<open>Every place that holds the message of caller \<open>w\<close> or the answer to it.\<close>

definition places :: "nat \<Rightarrow> coordinator \<Rightarrow> nat" where
  "places w s = in_caller (callers s w) + sum_list (map (in_queue w) (instances s))
     + sum_list (map (\<lambda>q. in_processor w (pc q)) (processors s)) + length (results s w)"

definition own_messages :: "coordinator \<Rightarrow> bool" where
  "own_messages s \<longleftrightarrow> (\<forall>w c i m. callers s w = Some (Loaded c i m) \<longrightarrow> waiter m = Some w)
     \<and> (\<forall>w k m. callers s w = Some (Signalling k m) \<longrightarrow> waiter m = Some w)"

definition one_place :: "coordinator \<Rightarrow> bool" where
  "one_place s \<longleftrightarrow> own_messages s \<and> (\<forall>w. places w s = (if callers s w = None then 0 else 1))"

lemma sum_list_update_nat:
  "i < length xs \<Longrightarrow> sum_list (map f (xs[i := x])) + f (xs ! i) = sum_list (map f xs) + (f x :: nat)"
  by (induction xs arbitrary: i) (auto split: nat.splits)

lemma queues_setInstance:
  "i < length (instances s) \<Longrightarrow>
   sum_list (map (in_queue w) (instances (setInstance i r s))) + in_queue w (instances s ! i) =
   sum_list (map (in_queue w) (instances s)) + in_queue w r"
  by (simp add: sum_list_update_nat)

lemma processors_setPc:
  "p < length (processors s) \<Longrightarrow>
   sum_list (map (\<lambda>q. in_processor w (pc q)) (processors (setPc p c s))) + in_processor w (pc (processors s ! p)) =
   sum_list (map (\<lambda>q. in_processor w (pc q)) (processors s)) + in_processor w c"
  using sum_list_update_nat [of p "processors s" "\<lambda>q. in_processor w (pc q)"] by (simp add: setPc_def)

lemma results_sendResult:
  "length (results (sendResult x r s) w) = length (results s w) + (if x = Some w then 1 else 0)"
  by (cases x) (auto simp: sendResult_def)

lemma results_rejected:
  "length (results (fold (\<lambda>m. sendResult (waiter m) r) ms s) w) =
   length (results s w) + count_list (map waiter ms) (Some w)"
  by (induction ms arbitrary: s) (simp_all add: results_sendResult)

lemma one_place_eq:
  "one_place s \<Longrightarrow> own_messages t \<Longrightarrow> (\<And>w. callers t w = None \<longleftrightarrow> callers s w = None)
    \<Longrightarrow> (\<And>w. places w t = places w s) \<Longrightarrow> one_place t"
  by (simp add: one_place_def)

lemma own_loaded: "own_messages s \<Longrightarrow> callers s w = Some (Loaded c i m) \<Longrightarrow> waiter m = Some w"
  unfolding own_messages_def by blast

lemma own_signalling: "own_messages s \<Longrightarrow> callers s w = Some (Signalling k m) \<Longrightarrow> waiter m = Some w"
  unfolding own_messages_def by blast

lemma own_same: "own_messages s \<Longrightarrow> callers t = callers s \<Longrightarrow> own_messages t"
  by (simp add: own_messages_def)

lemma own_waits: "own_messages s \<Longrightarrow> callers t = (callers s)(w \<mapsto> Waiting) \<Longrightarrow> own_messages t"
  by (auto simp: own_messages_def)

lemma submit_place:
  assumes o: "one_place s" and t: "submit w c txt k s = Some t"
  shows "one_place t"
proof -
  have n: "callers s w = None" using t by (auto simp: submit_def split: if_splits)
  have "own_messages s" using o by (simp add: one_place_def)
  then have own: "own_messages t"
    using t by (auto simp: own_messages_def submit_def Let_def split: if_splits option.splits)
  have "places v t = places v s + (if v = w then 1 else 0)" for v
    using t n by (auto simp: submit_def Let_def places_def in_queue_def emptyRunner_def split: if_splits option.splits)
  moreover have "callers t v = None \<longleftrightarrow> callers s v = None \<and> v \<noteq> w" for v
    using t by (auto simp: submit_def Let_def split: if_splits option.splits)
  ultimately show ?thesis using o own n by (auto simp: one_place_def)
qed

lemma enqueue_place:
  assumes wf: "wf_threads s" and o: "one_place s" and t: "enqueue w created s = Some t"
  shows "one_place t"
proof -
  obtain c i m where cl: "callers s w = Some (Loaded c i m)"
    using t by (auto simp: enqueue_def split: option.splits caller_pc.splits)
  let ?r = "instances s ! i" and ?s1 = "s\<lparr>callers := (callers s)(w \<mapsto> Waiting)\<rparr>"
  have own: "own_messages s" using o by (simp add: one_place_def)
  have m: "waiter m = Some w" by (rule own_loaded [OF own cl])
  have i: "i < length (instances s)" by (rule wf_loaded [OF wf cl])
  have q: "sum_list (map (in_queue v) ((instances s)[i := r])) =
      sum_list (map (in_queue v) (instances s)) + (if v = w then 1 else 0)"
    if "queue r = queue ?r @ [m]" for r v
    using sum_list_update_nat [OF i, of "in_queue v" r] that m by (simp add: in_queue_def)
  consider "aborted ?r" | k where "\<not> aborted ?r" "processing ?r \<and> \<not> compact m" "runner ?r = Some k"
    | "\<not> aborted ?r" "processing ?r" "compact m \<or> runner ?r = None"
    | "\<not> aborted ?r" "\<not> processing ?r" by fastforce
  then show ?thesis
  proof cases
    case 1
    then have t: "t = sendResult (Some w) (Result Canceled False) ?s1"
      using t cl by (simp add: enqueue_def)
    show ?thesis
      by (rule one_place_eq [OF o])
        (use cl own_waits [OF own] in \<open>auto simp: t places_def results_sendResult\<close>)
  next
    case 2
    then have t: "t = s\<lparr>callers := (callers s)(w \<mapsto> Signalling k m)\<rparr>"
      using t cl by (simp add: enqueue_def)
    show ?thesis
      by (rule one_place_eq [OF o]) (use cl own m in \<open>auto simp: t places_def own_messages_def\<close>)
  next
    case 3
    then have t: "t = setInstance i (?r\<lparr>queue := queue ?r @ [m]\<rparr>) ?s1"
      using t cl by (auto simp: enqueue_def Let_def split: if_splits)
    show ?thesis
      by (rule one_place_eq [OF o])
        (use cl own_waits [OF own] q in \<open>auto simp: t places_def\<close>)
  next
    case 4
    define r where "r = ?r\<lparr>queue := queue ?r @ [m], processing := True,
      runner := (if created then Some (nextRunner s) else None)\<rparr>"
    have r: "queue r = queue ?r @ [m]" by (simp add: r_def)
    have t: "t = (setInstance i r ?s1)\<lparr>nextRunner := nextRunner s + 1, processors := processors s @
        [\<lparr>proc_conversation = c, proc_instance = i, pc = AtTop\<rparr>]\<rparr>"
      using t cl 4 by (auto simp: enqueue_def Let_def r_def)
    show ?thesis
      by (rule one_place_eq [OF o])
        (use cl own_waits [OF own] q [OF r] in \<open>auto simp: t places_def\<close>)
  qed
qed

lemma signal_place:
  assumes o: "one_place s" and t: "signal w s = Some t"
  shows "one_place t"
proof -
  have own: "own_messages s" using o by (simp add: one_place_def)
  obtain k m where cl: "callers s w = Some (Signalling k m)"
    and t: "t = sendResult (Some w) (Result Injected False)
      (s\<lparr>callers := (callers s)(w \<mapsto> Waiting), midRun := (midRun s)(k := midRun s k @ [message_text m])\<rparr>)"
    using t by (auto simp: signal_def split: option.splits caller_pc.splits)
  show ?thesis
    by (rule one_place_eq [OF o])
      (use cl own_waits [OF own] in \<open>auto simp: t places_def results_sendResult\<close>)
qed

lemma processTop_place:
  assumes wf: "wf_threads s" and o: "one_place s" and t: "processTop p s = Some t"
  shows "one_place t"
proof -
  let ?i = "proc_instance (processors s ! p)"
  let ?r = "instances s ! ?i"
  have own: "own_messages s" using o by (simp add: one_place_def)
  have p: "p < length (processors s)" "pc (processors s ! p) = AtTop"
    using t by (auto simp: processTop_def split: if_splits)
  have i: "?i < length (instances s)" by (rule wf_proc [OF wf p(1)])
  show ?thesis
  proof (cases "queue ?r")
    case Nil
    define r where "r = ?r\<lparr>processing := False, runner := None\<rparr>"
    have r: "queue r = []" using Nil by (simp add: r_def)
    have t: "t = (setPc p Stopped (setInstance ?i r s))
        \<lparr>activeRunners := (activeRunners s)(proc_conversation (processors s ! p) := None)\<rparr>"
      using t p Nil by (simp add: processTop_def Let_def r_def)
    have "places v t = places v s" for v
      using sum_list_update_nat [OF i, of "in_queue v" r] processors_setPc [of p "setInstance ?i r s" v Stopped] p Nil r
      by (simp add: t places_def in_queue_def)
    then show ?thesis by (intro one_place_eq [OF o] own_same [OF own]) (simp_all add: t)
  next
    case (Cons m rest)
    define r where "r = ?r\<lparr>queue := rest, cancel := (if compact m then cancel ?r else Some (nextRun s))\<rparr>"
    have r: "queue r = rest" by (simp add: r_def)
    have t: "t = (setPc p (Running m (runner ?r) (nextRun s)) (setInstance ?i r s))\<lparr>nextRun := nextRun s + 1\<rparr>"
      using t p Cons by (simp add: processTop_def Let_def r_def)
    have "places v t = places v s" for v
      using sum_list_update_nat [OF i, of "in_queue v" r]
        processors_setPc [of p "setInstance ?i r s" v "Running m (runner ?r) (nextRun s)"] p Cons r
      by (simp add: t places_def in_queue_def split: if_splits)
    then show ?thesis by (intro one_place_eq [OF o] own_same [OF own]) (simp_all add: t)
  qed
qed

lemma setPc_place:
  assumes o: "one_place s" and p: "p < length (processors s)"
    and c: "\<And>v. in_processor v c = in_processor v (pc (processors s ! p))"
  shows "one_place (setPc p c s)"
proof (rule one_place_eq [OF o])
  show "own_messages (setPc p c s)" using o own_same [of s "setPc p c s"] by (simp add: one_place_def)
  show "places v (setPc p c s) = places v s" for v
    using processors_setPc [OF p, of v c] c [of v] by (simp add: places_def)
qed simp

lemma one_place_midRun [simp]: "one_place (s\<lparr>midRun := x\<rparr>) = one_place s"
  by (simp add: one_place_def own_messages_def places_def)

lemma runnerReturns_place:
  assumes o: "one_place s" and t: "runnerReturns p ok s = Some t"
  shows "one_place t"
proof -
  obtain m k n where p: "p < length (processors s)" "pc (processors s ! p) = Running m k n"
    using t by (auto simp: runnerReturns_def split: if_splits processor_pc.splits)
  then have "t = setPc p (Finishing m k (if k = None then NoRunner else if ok then RunOk else RunFailed)) s"
    using t by (simp add: runnerReturns_def)
  then show ?thesis using setPc_place [OF o p(1)] p by simp
qed

lemma runnerPanics_place:
  assumes o: "one_place s" and t: "runnerPanics p s = Some t"
  shows "one_place t"
proof -
  obtain m k n where p: "p < length (processors s)" "pc (processors s ! p) = Running m (Some k) n"
    using t by (auto simp: runnerPanics_def split: if_splits processor_pc.splits option.splits)
  then have "t = setPc p (Panicked m) s" using t by (simp add: runnerPanics_def)
  then show ?thesis using setPc_place [OF o p(1)] p by simp
qed

lemma drainSpilled_place:
  assumes o: "one_place s" and t: "drainSpilled p s = Some t"
  shows "one_place t"
proof -
  obtain m k where p: "p < length (processors s)" "pc (processors s ! p) = Spilling m k"
    using t by (auto simp: drainSpilled_def split: if_splits processor_pc.splits)
  show ?thesis
  proof (cases k)
    case None
    then have "t = setPc p AtTop s" using t p by (simp add: drainSpilled_def)
    then show ?thesis using setPc_place [OF o p(1)] p by simp
  next
    case (Some l)
    let ?c = "if midRun s l = [] then AtTop else Requeueing m (midRun s l)"
    have "t = setPc p ?c (s\<lparr>midRun := (midRun s)(l := [])\<rparr>)" using t p Some by (simp add: drainSpilled_def)
    then show ?thesis using setPc_place [of "s\<lparr>midRun := (midRun s)(l := [])\<rparr>" p ?c] o p by simp
  qed
qed

lemma deliverResult_place:
  assumes o: "one_place s" and t: "deliverResult p s = Some t"
  shows "one_place t"
proof -
  have own: "own_messages s" using o by (simp add: one_place_def)
  obtain m k res where p: "p < length (processors s)" "pc (processors s ! p) = Finishing m k res"
    using t by (auto simp: deliverResult_def split: if_splits processor_pc.splits)
  then obtain x where t: "t = setPc p (Spilling m k) (sendResult (waiter m) x s)"
    using t by (auto simp: deliverResult_def)
  have "places v t = places v s" for v
    using processors_setPc [of p "sendResult (waiter m) x s" v "Spilling m k"] p
    by (simp add: t places_def results_sendResult split: if_splits)
  then show ?thesis by (intro one_place_eq [OF o] own_same [OF own]) (simp_all add: t)
qed

lemma requeueSpilled_place:
  assumes wf: "wf_threads s" and o: "one_place s" and t: "requeueSpilled p s = Some t"
  shows "one_place t"
proof -
  let ?i = "proc_instance (processors s ! p)"
  let ?r = "instances s ! ?i"
  have own: "own_messages s" using o by (simp add: one_place_def)
  obtain m txts where p: "p < length (processors s)" "pc (processors s ! p) = Requeueing m txts"
    using t by (auto simp: requeueSpilled_def split: if_splits processor_pc.splits)
  have i: "?i < length (instances s)" by (rule wf_proc [OF wf p(1)])
  define r where "r = ?r\<lparr>queue := queue ?r @ map (\<lambda>x. Message None x False) txts\<rparr>"
  have r: "queue r = queue ?r @ map (\<lambda>x. Message None x False) txts" by (simp add: r_def)
  have t: "t = setPc p AtTop (setInstance ?i r s)"
    using t p by (simp add: requeueSpilled_def Let_def r_def)
  have none: "count_list (map (waiter \<circ> (\<lambda>x. Message None x False)) txts) (Some v) = 0" for v
    by (induction txts) simp_all
  have "places v t = places v s" for v
    using sum_list_update_nat [OF i, of "in_queue v" r] processors_setPc [of p "setInstance ?i r s" v AtTop] p r none
    by (simp add: t places_def in_queue_def comp_def)
  then show ?thesis by (intro one_place_eq [OF o] own_same [OF own]) (simp_all add: t)
qed

lemma abort_place:
  assumes wf: "wf_threads s" and o: "one_place s"
  shows "abortLoad x c s = Some t \<Longrightarrow> one_place t" and "abortLocked x s = Some t \<Longrightarrow> one_place t"
proof -
  have own: "own_messages s" using o by (simp add: one_place_def)
  show "abortLoad x c s = Some t \<Longrightarrow> one_place t"
    by (rule one_place_eq [OF o])
      (use own in \<open>auto simp: abortLoad_def own_messages_def places_def split: option.splits\<close>)
  assume t: "abortLocked x s = Some t"
  then obtain i where i: "aborters s x = Some i" by (auto simp: abortLocked_def split: option.splits)
  let ?r = "instances s ! i"
  let ?s1 = "fold (\<lambda>m. sendResult (waiter m) (Result Canceled False)) (queue ?r) s"
  define r where "r = ?r\<lparr>aborted := True, queue := []\<rparr>"
  have r: "queue r = []" by (simp add: r_def)
  obtain cs where t: "t = (setInstance i r ?s1)\<lparr>aborters := (aborters s)(x := None), cancelledRuns := cs\<rparr>"
    using t i by (auto simp: abortLocked_def Let_def r_def)
  have "places v t = places v s" for v
    using sum_list_update_nat [OF wf_aborter [OF wf i], of "in_queue v" r] r
      results_rejected [of "Result Canceled False" "queue ?r" s v]
    by (simp add: t places_def in_queue_def)
  then show "one_place t" by (intro one_place_eq [OF o] own_same [OF own]) (simp_all add: t)
qed

lemma exec_place: "wf_threads s \<Longrightarrow> one_place s \<Longrightarrow> exec a s = Some t \<Longrightarrow> one_place t"
  by (cases a) (auto intro: submit_place enqueue_place signal_place processTop_place
      runnerReturns_place runnerPanics_place drainSpilled_place deliverResult_place requeueSpilled_place abort_place
      simp: runnerDrains_def split: if_splits processor_pc.splits option.splits)

lemma reachable_inv: "reachable s \<Longrightarrow> wf_threads s \<and> one_place s"
proof (induction rule: reachable.induct)
  case reachable_init
  show ?case
    by (simp add: newCoordinator_def wf_threads_def threads_def live_def one_place_def
        own_messages_def places_def)
next
  case (reachable_step s a t)
  then show ?case using exec_threads exec_place by blast
qed

subsection \<open>Properties\<close>

text \<open>A processor goroutine that is gone, and a state in which nothing is under way: no goroutine, no caller
  before its result.\<close>

fun gone :: "processor_pc \<Rightarrow> bool" where
  "gone Stopped = True"
| "gone (Panicked m) = True"
| "gone _ = False"

definition quiet :: "coordinator \<Rightarrow> bool" where
  "quiet s \<longleftrightarrow> (\<forall>q\<in>set (processors s). gone (pc q)) \<and> (\<forall>w. callers s w \<in> {None, Some Waiting})"

text \<open>The message of a caller was run when the run panicked, or is queued behind that run.\<close>

definition stranded :: "nat \<Rightarrow> coordinator \<Rightarrow> bool" where
  "stranded w s \<longleftrightarrow> (\<exists>q\<in>set (processors s). \<exists>m. pc q = Panicked m
     \<and> (waiter m = Some w \<or> Some w \<in> waiter ` set (queue (instances s ! proc_instance q))))"

lemma queued_count: "Some w \<in> waiter ` set (queue r) \<longleftrightarrow> in_queue w r \<noteq> 0"
proof -
  have "count_list xs x = 0 \<longleftrightarrow> x \<notin> set xs" for xs and x :: "nat option" by (induction xs) auto
  then show ?thesis by (auto simp: in_queue_def)
qed

lemma sum_list_zero_iff: "sum_list (map f xs) = (0 :: nat) \<longleftrightarrow> (\<forall>x\<in>set xs. f x = 0)"
  by (induction xs) auto

lemma quiet_places:
  assumes wf: "wf_threads s" and q: "quiet s"
  shows "stranded w s \<longleftrightarrow> places w s \<noteq> length (results s w)"
proof -
  have caller: "in_caller (callers s w) = 0" using q by (auto simp: quiet_def dest!: spec [of _ w])
  have pcs: "pc x = Stopped \<or> (\<exists>m. pc x = Panicked m)" if "x \<in> set (processors s)" for x
    using q that by (cases "pc x") (auto simp: quiet_def)
  have "places w s \<noteq> length (results s w) \<longleftrightarrow>
      (\<exists>r\<in>set (instances s). in_queue w r \<noteq> 0) \<or> (\<exists>x\<in>set (processors s). in_processor w (pc x) \<noteq> 0)"
    using sum_list_zero_iff [of "in_queue w" "instances s"] sum_list_zero_iff [of "\<lambda>x. in_processor w (pc x)" "processors s"]
    by (auto simp: places_def caller)
  also have "\<dots> \<longleftrightarrow> stranded w s"
  proof
    assume "stranded w s"
    then obtain x m where x: "x \<in> set (processors s)" "pc x = Panicked m"
      "waiter m = Some w \<or> in_queue w (instances s ! proc_instance x) \<noteq> 0" by (auto simp: stranded_def queued_count)
    have "proc_instance x < length (instances s)" using wf x(1) by (simp add: wf_threads_def)
    with x show "(\<exists>r\<in>set (instances s). in_queue w r \<noteq> 0) \<or> (\<exists>x\<in>set (processors s). in_processor w (pc x) \<noteq> 0)"
      by (metis in_processor.simps(3) nth_mem zero_neq_one)
  next
    assume "(\<exists>r\<in>set (instances s). in_queue w r \<noteq> 0) \<or> (\<exists>x\<in>set (processors s). in_processor w (pc x) \<noteq> 0)"
    then show "stranded w s"
    proof
      assume "\<exists>r\<in>set (instances s). in_queue w r \<noteq> 0"
      then obtain i where i: "i < length (instances s)" "in_queue w (instances s ! i) \<noteq> 0" by (auto simp: in_set_conv_nth)
      then have "queue (instances s ! i) \<noteq> []" by (auto simp: in_queue_def)
      then have "i \<in> set (live (threads s))" using wf_queue [OF wf i(1)] wf_live(1) [OF wf, of i] i(1) by blast
      then obtain x where "x \<in> set (processors s)" "proc_instance x = i" "pc x \<noteq> Stopped"
        by (auto simp: live_def threads_def)
      with pcs [of x] i(2) show ?thesis by (auto simp: stranded_def queued_count)
    next
      assume "\<exists>x\<in>set (processors s). in_processor w (pc x) \<noteq> 0"
      with pcs show ?thesis by (fastforce simp: stranded_def split: if_splits)
    qed
  qed
  finally show ?thesis by blast
qed

text \<open>C3: In every interleaving each submitted message is answered at most once, so no send on its
  channel of capacity one ever blocks a processor, an abort or an enqueue. And none is lost but by a panic:
  when no goroutine is under way any more, every caller has exactly one result, except those whose message
  was being run when the run panicked or is queued behind that run, which have none.\<close>

theorem coordinator_answers_once:
  assumes "reachable s"
  shows "length (results s w) \<le> 1
    \<and> (quiet s \<longrightarrow> length (results s w) = (if callers s w = None \<or> stranded w s then 0 else 1))"
proof -
  have wf: "wf_threads s" and o: "one_place s" using reachable_inv [OF assms] by auto
  have pl: "places w s = (if callers s w = None then 0 else 1)" using o by (simp add: one_place_def)
  have le: "length (results s w) \<le> places w s" by (simp add: places_def)
  then have "length (results s w) \<le> 1" using pl by (simp split: if_splits)
  moreover have "length (results s w) = (if callers s w = None \<or> stranded w s then 0 else 1)" if q: "quiet s"
  proof -
    define n where "n = length (results s w)"
    have "stranded w s \<longleftrightarrow> places w s \<noteq> n" "n \<le> places w s"
      using quiet_places [OF wf q, of w] le by (simp_all add: n_def)
    then have "n = (if callers s w = None \<or> stranded w s then 0 else 1)" using pl by (auto split: if_splits)
    then show ?thesis by (simp only: n_def)
  qed
  ultimately show ?thesis by blast
qed

text \<open>C4: A conversation runner is processed by at most one goroutine at a time, so its messages are
  run one after the other, and as long as it has queued messages it has such a goroutine, unless one of
  its runs has panicked; then it has none.\<close>

theorem coordinator_one_processor:
  assumes "reachable s" and "i < length (instances s)"
  shows "length (filter (\<lambda>q. proc_instance q = i \<and> \<not> gone (pc q)) (processors s)) \<le> 1
    \<and> (queue (instances s ! i) = [] \<or>
        length (filter (\<lambda>q. proc_instance q = i \<and> \<not> gone (pc q)) (processors s)) = 1 \<or>
        (\<exists>q\<in>set (processors s). \<exists>m. proc_instance q = i \<and> pc q = Panicked m))
    \<and> ((\<exists>q\<in>set (processors s). \<exists>m. proc_instance q = i \<and> pc q = Panicked m) \<longrightarrow>
        filter (\<lambda>q. proc_instance q = i \<and> \<not> gone (pc q)) (processors s) = [])"
proof -
  let ?live = "filter (\<lambda>q. proc_instance q = i \<and> pc q \<noteq> Stopped) (processors s)"
  let ?here = "filter (\<lambda>q. proc_instance q = i \<and> \<not> gone (pc q)) (processors s)"
  let ?dead = "filter (\<lambda>q. proc_instance q = i \<and> (\<exists>m. pc q = Panicked m)) (processors s)"
  have wf: "wf_threads s" using reachable_inv [OF assms(1)] by blast
  have "length (filter (\<lambda>q. proc_instance q = i \<and> pc q \<noteq> Stopped) qs) =
      count_list (live (map (\<lambda>q. (proc_instance q, pc q \<noteq> Stopped)) qs)) i" for qs
    by (induction qs) (auto simp: live_def)
  then have c: "length ?live = count_list (live (threads s)) i" by (simp add: threads_def)
  have d: "distinct xs \<Longrightarrow> count_list xs i = (if i \<in> set xs then 1 else 0)" for xs
    by (induction xs) auto
  have le: "length ?live \<le> 1" and one: "queue (instances s ! i) \<noteq> [] \<Longrightarrow> length ?live = 1"
    using wf_live [OF wf] wf_queue [OF wf assms(2)] assms(2) unfolding c by (auto simp: d)
  have pcs: "(pc q \<noteq> Stopped) = (\<not> gone (pc q) \<or> (\<exists>m. pc q = Panicked m))" "gone (pc q) \<or> \<not> (\<exists>m. pc q = Panicked m)" for q
    by (cases "pc q"; simp)+
  have "length (filter (\<lambda>q. proc_instance q = i \<and> pc q \<noteq> Stopped) qs) = length (filter (\<lambda>q. proc_instance q = i \<and> \<not> gone (pc q)) qs)
      + length (filter (\<lambda>q. proc_instance q = i \<and> (\<exists>m. pc q = Panicked m)) qs)" for qs
    by (induction qs) (use pcs in auto)
  then have sum: "length ?live = length ?here + length ?dead" .
  have dead: "(\<exists>q\<in>set (processors s). \<exists>m. proc_instance q = i \<and> pc q = Panicked m) \<longleftrightarrow> ?dead \<noteq> []"
    by (auto simp: filter_empty_conv)
  show ?thesis unfolding dead using le one sum
    by (cases "queue (instances s ! i) = []"; cases ?dead) auto
qed

definition one_message_trace :: "action list" where
  "one_message_trace = [Submit 0 ''c'' ''hello'' False, Enqueue 0 True, Top 0, Returns 0 True,
     Delivers 0, DrainSpilled 0, Top 0]"

lemmas exec_defs = submit_def enqueue_def signal_def processTop_def runnerDrains_def
  runnerReturns_def runnerPanics_def deliverResult_def drainSpilled_def requeueSpilled_def abortLoad_def
  abortLocked_def setInstance_def setPc_def sendResult_def emptyRunner_def newCoordinator_def

lemma coordinator_answers_once_witness:
  "\<exists>s. execs one_message_trace newCoordinator = Some s \<and> quiet s \<and> length (results s 0) = 1"
proof -
  obtain s where s: "execs one_message_trace newCoordinator = Some s" "quiet s" "callers s 0 \<noteq> None" "\<not> stranded 0 s"
    by (simp add: one_message_trace_def exec_defs quiet_def stranded_def)
  have "reachable s" by (rule reachable_execs [OF reachable_init s(1)])
  from coordinator_answers_once [OF this, of 0] s show ?thesis by auto
qed

lemma coordinator_one_processor_witness:
  "\<exists>s. execs [Submit 0 ''c'' ''hello'' False, Enqueue 0 True] newCoordinator = Some s
    \<and> length (filter (\<lambda>q. proc_instance q = 0 \<and> \<not> gone (pc q)) (processors s)) = 1"
proof -
  obtain s where s: "execs [Submit 0 ''c'' ''hello'' False, Enqueue 0 True] newCoordinator = Some s"
      "0 < length (instances s)" "queue (instances s ! 0) \<noteq> []" "\<forall>q\<in>set (processors s). \<not> gone (pc q)"
    by (simp add: exec_defs)
  have "reachable s" by (rule reachable_execs [OF reachable_init s(1)])
  moreover have "\<nexists>q m. q \<in> set (processors s) \<and> pc q = Panicked m" using s(4) by force
  ultimately show ?thesis using coordinator_one_processor [OF _ s(2)] s(1,3) by blast
qed

text \<open>Two runs of the same conversation can be under way at once. A caller that loaded the
  conversation runner just before its processor found the queue empty and removed it from the map
  enqueues on the removed runner and starts a processor for it, while a later caller gets a new
  runner for the same conversation.\<close>

theorem coordinator_double_run:
  "\<exists>s. reachable s \<and> map message_text (running_in ''c'' s) = [''second'', ''third'']"
proof -
  let ?as = "[Submit 0 ''c'' ''first'' False, Enqueue 0 True, Top 0, Returns 0 True, Delivers 0,
    DrainSpilled 0, Submit 1 ''c'' ''second'' False, Top 0, Submit 2 ''c'' ''third'' False,
    Enqueue 1 True, Enqueue 2 True, Top 1, Top 2]"
  obtain s where s: "execs ?as newCoordinator = Some s"
      "map message_text (running_in ''c'' s) = [''second'', ''third'']"
    by (simp add: exec_defs running_in_def List.map_filter_def)
  from reachable_execs [OF reachable_init s(1)] s(2) show ?thesis by (intro exI [of _ s] conjI)
qed

text \<open>An abort does not stop the messages that were injected into the aborted run and not yet
  taken by it: the processor queues them again behind the drained queue and runs them, under a run
  context the abort never cancelled.\<close>

theorem aborted_run_continues:
  "\<exists>s n. reachable s \<and> aborted (instances s ! 0)
    \<and> pc (processors s ! 0) = Running (Message None ''more'' False) (Some 0) n \<and> n \<notin> cancelledRuns s"
proof -
  let ?as = "[Submit 0 ''c'' ''first'' False, Enqueue 0 True, Top 0, Submit 1 ''c'' ''more'' False,
    Enqueue 1 True, Signal 1, AbortLoad 0 ''c'', AbortLocked 0, Returns 0 False, Delivers 0,
    DrainSpilled 0, Requeue 0, Top 0]"
  have "case execs ?as newCoordinator of None \<Rightarrow> False
    | Some s \<Rightarrow> aborted (instances s ! 0)
        \<and> pc (processors s ! 0) = Running (Message None ''more'' False) (Some 0) 1 \<and> 1 \<notin> cancelledRuns s"
    by code_simp
  then obtain s where s: "execs ?as newCoordinator = Some s" "aborted (instances s ! 0)"
      "pc (processors s ! 0) = Running (Message None ''more'' False) (Some 0) 1" "1 \<notin> cancelledRuns s"
    by (cases "execs ?as newCoordinator") (simp_all only: option.case, blast)
  from reachable_execs [OF reachable_init s(1)] s(2-4) show ?thesis by blast
qed

end
