(* ===== verification/CoordinatorPanics.thy ===== *)
theory CoordinatorPanics
  imports CoordinatorProps
begin

text \<open>
  What a run that panics leaves behind: its conversation keeps a runner that is marked as processing and
  that no goroutine will ever serve again.
\<close>

subsection \<open>After a panic\<close>

text \<open>Every step but the last of its processor leaves the runner of an instance under way alone.\<close>

lemma processor_gone:
  assumes wf: "wf_threads s" and "p < length (processors s)" "q < length (processors s)" "p \<noteq> q"
    and "pc (processors s ! p) \<noteq> Stopped" "pc (processors s ! q) \<noteq> Stopped"
  shows "proc_instance (processors s ! p) \<noteq> proc_instance (processors s ! q)"
proof -
  have "distinct (live l) \<Longrightarrow> i < length l \<Longrightarrow> j < length l \<Longrightarrow> i \<noteq> j \<Longrightarrow> snd (l ! i) \<Longrightarrow> snd (l ! j) \<Longrightarrow> fst (l ! i) \<noteq> fst (l ! j)" for l i j
  proof (induction l arbitrary: i j)
    case (Cons a l)
    have m: "k < length l \<Longrightarrow> snd (l ! k) \<Longrightarrow> fst (l ! k) \<in> set (live l)" for k by (force simp: live_def)
    have "distinct (live l)" "snd a \<Longrightarrow> fst a \<notin> set (live l)" using Cons.prems(1) by (auto simp: live_def split: if_splits)
    then show ?case using Cons.IH Cons.prems(2-) m by (cases i; cases j) fastforce+
  qed simp
  from this [of "threads s" p q] wf_live(2) [OF wf] assms(2-) show ?thesis by (simp add: threads_def)
qed

lemma live_processing:
  assumes "wf_threads s" and "p < length (processors s)" and "pc (processors s ! p) \<noteq> Stopped"
  shows "processing (instances s ! proc_instance (processors s ! p))" "proc_instance (processors s ! p) < length (instances s)"
proof -
  have "proc_instance (processors s ! p) \<in> set (live (threads s))"
    using assms(2,3) by (force simp: live_def threads_def)
  then show "processing (instances s ! proc_instance (processors s ! p))" using wf_live(1) [OF assms(1)] by blast
qed (rule wf_proc [OF assms(1,2)])

lemma processor_stays:
  assumes "exec a s = Some t" and "p < length (processors s)"
  shows "p < length (processors t)" "proc_instance (processors t ! p) = proc_instance (processors s ! p)"
    "gone (pc (processors s ! p)) \<Longrightarrow> pc (processors t ! p) = pc (processors s ! p)"
  using assms
  by (cases a; auto simp: exec_defs nth_append nth_list_update Let_def split: option.splits caller_pc.splits if_splits processor_pc.splits list.splits)+


lemma update_runner: "(j = i \<Longrightarrow> runner r = runner (xs ! i)) \<Longrightarrow> runner (xs[j := r] ! i) = runner (xs ! i)"
  by (cases "j = i"; cases "j < length xs") (simp_all add: linorder_not_less list_update_beyond)

lemma runner_kept:
  assumes wf: "wf_threads s" and t: "exec a s = Some t" and p: "p < length (processors s)"
    and l: "pc (processors s ! p) \<noteq> Stopped" "pc (processors t ! p) \<noteq> Stopped"
  shows "runner (instances t ! proc_instance (processors s ! p)) = runner (instances s ! proc_instance (processors s ! p))"
proof -
  let ?i = "proc_instance (processors s ! p)"
  note i = live_processing [OF wf p l(1)]
  show ?thesis
  proof (cases a)
    case (Top q)
    have q: "q < length (processors s)" "pc (processors s ! q) = AtTop"
      using t Top by (auto simp: processTop_def split: if_splits)
    show ?thesis
    proof (cases "queue (instances s ! proc_instance (processors s ! q)) = []")
      case True
      then have "pc (processors t ! q) = Stopped" using t Top q by (auto simp: processTop_def setPc_def setInstance_def Let_def)
      then have "p \<noteq> q" using l(2) by blast
      then have "?i \<noteq> proc_instance (processors s ! q)" using processor_gone [OF wf p q(1)] l(1) q(2) by simp
      then show ?thesis using t Top q True by (auto simp: processTop_def setPc_def setInstance_def Let_def)
    next
      case False
      then show ?thesis using t Top q i(2) wf_proc [OF wf q(1)]
        by (auto simp: processTop_def setPc_def setInstance_def Let_def nth_list_update split: list.splits)
    qed
  next
    case (Enqueue w b)
    then show ?thesis using t i
      by (auto simp: enqueue_def setInstance_def sendResult_def Let_def intro!: update_runner split: option.splits caller_pc.splits if_splits)
  next
    case (Submit w c x b)
    then show ?thesis using t i(2) by (auto simp: submit_def nth_append Let_def split: option.splits if_splits)
  next
    case (AbortLocked x)
    then show ?thesis using t i(2) by (auto simp: abortLocked_def setInstance_def Let_def intro!: update_runner split: option.splits)
  qed (use t i(2) in \<open>auto simp: exec_defs Let_def intro!: update_runner split: option.splits caller_pc.splits if_splits processor_pc.splits\<close>)
qed

text \<open>The processor of a run holds the runner of its instance, and it stays there after a panic.\<close>

lemma runner_held:
  "reachable s \<Longrightarrow> p < length (processors s) \<Longrightarrow>
    (\<forall>m k n. pc (processors s ! p) = Running m (Some k) n \<longrightarrow> runner (instances s ! proc_instance (processors s ! p)) = Some k)
    \<and> (\<forall>m. pc (processors s ! p) = Panicked m \<longrightarrow> runner (instances s ! proc_instance (processors s ! p)) \<noteq> None)"
proof (induction arbitrary: p rule: reachable.induct)
  case reachable_init
  then show ?case by (simp add: newCoordinator_def)
next
  case (reachable_step s a t)
  have wf: "wf_threads s" using reachable_inv [OF reachable_step(1)] by blast
  show ?case
  proof (cases "p < length (processors s)")
    case False
    then have "pc (processors t ! p) = AtTop" using reachable_step(2,4)
      by (cases a) (auto simp: exec_defs Let_def nth_append less_Suc_eq split: option.splits caller_pc.splits if_splits processor_pc.splits list.splits)
    then show ?thesis by simp
  next
    case True
    note same = processor_stays [OF reachable_step(2) True]
    show ?thesis
    proof (cases "pc (processors s ! p) = Stopped \<or> pc (processors t ! p) = Stopped")
      case True
      then show ?thesis using same(3) by (cases "pc (processors s ! p) = Stopped") auto
    next
      case False
      note r = runner_kept [OF wf reachable_step(2) True, unfolded same(2) [symmetric]]
      have "(\<exists>n'. pc (processors s ! p) = Running m k n' ) \<or> k = runner (instances t ! proc_instance (processors s ! p))"
        if "pc (processors t ! p) = Running m k n" for m k n
        using that reachable_step(2) True wf_proc [OF wf True]
        by (cases a) (auto simp: exec_defs nth_append nth_list_update Let_def split: option.splits caller_pc.splits if_splits processor_pc.splits list.splits)
      moreover have "(\<exists>k n'. pc (processors s ! p) = Running m (Some k) n' ) \<or> pc (processors s ! p) = Panicked m"
        if "pc (processors t ! p) = Panicked m" for m
        using that reachable_step(2) True wf_proc [OF wf True]
        by (cases a) (auto simp: exec_defs nth_append nth_list_update Let_def split: option.splits caller_pc.splits if_splits processor_pc.splits list.splits)
      ultimately show ?thesis using reachable_step(3) [OF True] r False same(2) by fastforce
    qed
  qed
qed

lemma panicked_stays:
  "execs as s = Some t \<Longrightarrow> p < length (processors s) \<Longrightarrow> pc (processors s ! p) = Panicked m \<Longrightarrow>
    p < length (processors t) \<and> pc (processors t ! p) = Panicked m \<and> proc_instance (processors t ! p) = proc_instance (processors s ! p)"
proof (induction as arbitrary: s)
  case (Cons a as)
  then obtain u where u: "exec a s = Some u" "execs as u = Some t" by (auto simp: bind_eq_Some_conv)
  show ?case using Cons.IH [OF u(2)] processor_stays [OF u(1) Cons.prems(2)] Cons.prems(3) by simp
qed simp

lemma holds_no_result:
  assumes "reachable s" and "0 < in_caller (callers s w) + sum_list (map (\<lambda>q. in_processor w (pc q)) (processors s))"
  shows "results s w = []"
proof -
  have "places w s \<le> 1" using reachable_inv [OF assms(1)] by (simp add: one_place_def)
  with assms(2) have "length (results s w) = 0" unfolding places_def by linarith
  then show ?thesis by simp
qed

lemma no_goroutine:
  assumes "wf_threads s" and "p < length (processors s)" and "pc (processors s ! p) = Panicked m" and "q \<in> set (processors s)"
    and "proc_instance q = proc_instance (processors s ! p)"
  shows "gone (pc q)"
proof (rule ccontr)
  assume g: "\<not> gone (pc q)"
  obtain j where j: "j < length (processors s)" "q = processors s ! j" using assms(4) by (auto simp: in_set_conv_nth)
  have "p \<noteq> j" using g assms(3) j(2) by auto
  moreover have "pc (processors s ! j) \<noteq> Stopped" using g j(2) by auto
  ultimately show False using processor_gone [OF assms(1,2) j(1)] assms(3,5) j(2) by simp
qed

text \<open>C2: A run that panics leaves its conversation runner marked as processing, with nobody to process it, for good:
  whatever happens afterwards, no goroutine ever serves it again and the caller of the panicked message never
  gets a result. Every later message that reaches this runner, unless it has been aborted, is reported as injected
  into the run that is gone, and a compaction is queued and never run.\<close>

theorem panic_strands_the_conversation:
  assumes "reachable s" and "p < length (processors s)" and "pc (processors s ! p) = Panicked m"
    and "execs as s = Some t" and "i = proc_instance (processors s ! p)"
  shows "filter (\<lambda>q. proc_instance q = i \<and> \<not> gone (pc q)) (processors t) = []
    \<and> (\<forall>w. waiter m = Some w \<longrightarrow> results t w = [])
    \<and> (\<forall>w c x b. callers t w = Some (Loaded c i x) \<and> \<not> aborted (instances t ! i) \<longrightarrow>
        (if compact x then \<exists>u. execs [Enqueue w b] t = Some u \<and> x \<in> set (queue (instances u ! i)) \<and> results u w = []
         else \<exists>u. execs [Enqueue w b, Signal w] t = Some u \<and> results u w = [Result Injected False]))"
proof (intro conjI allI impI)
  have r: "reachable t" by (rule reachable_execs [OF assms(1,4)])
  note d = panicked_stays [OF assms(4,2,3), folded assms(5)]
  have wf: "wf_threads t" using reachable_inv [OF r] by blast
  have i: "processing (instances t ! i)" "i < length (instances t)" using live_processing [OF wf, of p] d by simp_all
  have q: "processors t ! p \<in> set (processors t)" using d by simp
  then show "filter (\<lambda>q. proc_instance q = i \<and> \<not> gone (pc q)) (processors t) = []"
    using no_goroutine [OF wf] d by (auto simp: filter_empty_conv)
  obtain k where k: "runner (instances t ! i) = Some k" using runner_held [OF r, of p] d by auto
  show "results t w = []" if "waiter m = Some w" for w
  proof (rule holds_no_result [OF r])
    have "in_processor w (pc (processors t ! p)) \<le> sum_list (map (\<lambda>q. in_processor w (pc q)) (processors t))"
      using member_le_sum_list [of "in_processor w (pc (processors t ! p))" "map (\<lambda>q. in_processor w (pc q)) (processors t)"] q by simp
    then show "0 < in_caller (callers t w) + sum_list (map (\<lambda>q. in_processor w (pc q)) (processors t))" using d that by simp
  qed
  fix w c x b assume x: "callers t w = Some (Loaded c i x) \<and> \<not> aborted (instances t ! i)"
  have n: "results t w = []" by (rule holds_no_result [OF r]) (use x in simp)
  show "if compact x then \<exists>u. execs [Enqueue w b] t = Some u \<and> x \<in> set (queue (instances u ! i)) \<and> results u w = []
         else \<exists>u. execs [Enqueue w b, Signal w] t = Some u \<and> results u w = [Result Injected False]"
    using x n i k by (simp add: enqueue_def signal_def setInstance_def sendResult_def Let_def)
qed

definition panic_trace :: "action list" where
  "panic_trace = [Submit 0 ''c'' ''first'' False, Enqueue 0 True, Top 0, Panics 0]"

lemma panic_strands_the_conversation_witness:
  "\<exists>t u. execs (panic_trace @ [Submit 1 ''c'' ''second'' False]) newCoordinator = Some t \<and> results t 0 = []
    \<and> execs [Enqueue 1 True, Signal 1] t = Some u \<and> results u 1 = [Result Injected False]"
proof -
  obtain s where s: "execs panic_trace newCoordinator = Some s" "processors s = [\<lparr>proc_conversation = ''c'', proc_instance = 0, pc = Panicked (Message (Some 0) ''first'' False)\<rparr>]"
    by (simp add: panic_trace_def exec_defs)
  obtain t where t: "execs (panic_trace @ [Submit 1 ''c'' ''second'' False]) newCoordinator = Some t"
    "execs [Submit 1 ''c'' ''second'' False] s = Some t" "callers t 1 = Some (Loaded ''c'' 0 (Message (Some 1) ''second'' False))" "\<not> aborted (instances t ! 0)"
    using s(1) by (simp add: panic_trace_def exec_defs) auto
  have "reachable s" by (rule reachable_execs [OF reachable_init s(1)])
  from panic_strands_the_conversation [OF this _ _ t(2), of 0 "Message (Some 0) ''first'' False" 0] s(2) t(3,4)
  have "results t 0 = []" "\<exists>u. execs [Enqueue 1 True, Signal 1] t = Some u \<and> results u 1 = [Result Injected False]" by fastforce+
  with t(1) show ?thesis by blast
qed

end
