(* ===== verification/CoordinatorRuns.thy ===== *)
theory CoordinatorRuns
  imports Prelude
begin

text \<open>
  The entry point \<open>Coordinator.Run\<close> (\<open>internal/coordinators/coordinator.go\<close>) and its handle
  (\<open>handle.go\<close>): the checks before a run, the two indexes between run and conversation
  identifiers, the events a run broadcasts and how its handle is resolved. Whether the agent exists
  and which conversation is created is the store's business: \<open>agentExists\<close> and the fresh identifiers
  are arguments.
\<close>

subsection \<open>The handle\<close>

datatype 'r completion = Pending | Completed "'r option" "string option"

text \<open>\<open>Resolve\<close> under \<open>sync.Once\<close>.\<close>

definition resolveHandle :: "'r option \<Rightarrow> string option \<Rightarrow> 'r completion \<Rightarrow> 'r completion" where
  "resolveHandle r e h = (case h of Pending \<Rightarrow> Completed r e | _ \<Rightarrow> h)"

subsection \<open>State\<close>

record run_index =
  runConversation :: "string \<rightharpoonup> string"
  conversationRun :: "string \<rightharpoonup> string"
  previousRun :: "string \<rightharpoonup> string"
  events :: "(string \<times> string) list"
  handles :: "string \<rightharpoonup> string completion"

definition newRunIndex :: run_index where
  "newRunIndex = \<lparr>runConversation = Map.empty, conversationRun = Map.empty,
     previousRun = Map.empty, events = [], handles = Map.empty\<rparr>"

datatype run_error = NoUser | NoDefaultAgent | AgentNotFound string

text \<open>
  What a dispatched message comes back with: the response of the run, an error, whether it was
  aborted, whether it was injected.
\<close>

record dispatch_result =
  dispatched_response :: string
  dispatched_error :: "string option"
  dispatched_aborted :: bool
  dispatched_injected :: bool

definition broadcastState :: "string \<Rightarrow> string \<Rightarrow> run_index \<Rightarrow> run_index" where
  "broadcastState st run s = s\<lparr>events := events s @ [(st, run)]\<rparr>"

text \<open>
  The synchronous part: user, agent, conversation, indexes, the user message event. The mapping the
  new run replaces is remembered (\<open>previousRunId\<close>).
\<close>

definition resolveAgent :: "string \<Rightarrow> string \<Rightarrow> string \<Rightarrow> run_error + string" where
  "resolveAgent user agent defaultAgent =
     (if user = [] then Inl NoUser
      else if agent \<noteq> [] then Inr agent
      else if defaultAgent = [] then Inl NoDefaultAgent
      else Inr defaultAgent)"

definition beginRun :: "string \<Rightarrow> string \<Rightarrow> run_index \<Rightarrow> run_index" where
  "beginRun run conversation s =
     (let s1 = s\<lparr>runConversation := (runConversation s)(run \<mapsto> conversation),
               previousRun := (previousRun s)(run := conversationRun s conversation),
               conversationRun := (conversationRun s)(conversation \<mapsto> run),
               handles := (handles s)(run \<mapsto> Pending)\<rparr>
      in broadcastState ''conversations'' run (broadcastState ''user_message'' run s1))"

definition startRun ::
  "string \<Rightarrow> string \<Rightarrow> string \<Rightarrow> (string \<Rightarrow> bool) \<Rightarrow> string \<Rightarrow> string \<Rightarrow> string \<Rightarrow> run_index
   \<Rightarrow> (run_error + string) \<times> run_index" where
  "startRun user agent defaultAgent agentExists conversation freshConversation run s =
     (case resolveAgent user agent defaultAgent of
        Inl e \<Rightarrow> (Inl e, s)
      | Inr a \<Rightarrow>
          if \<not> agentExists a then (Inl (AgentNotFound a), s)
          else (Inr run, beginRun run (if conversation = [] then freshConversation else conversation) s))"

text \<open>The outcome: which event is broadcast and how the handle is resolved.\<close>

definition announce :: "string \<Rightarrow> dispatch_result \<Rightarrow> run_index \<Rightarrow> run_index" where
  "announce run d s =
     (let (st, r, e) =
        (if dispatched_injected d then (''injected'', None, None)
         else if dispatched_aborted d then (''aborted'', None, dispatched_error d)
         else if dispatched_error d \<noteq> None then (''error'', None, dispatched_error d)
         else (''final'', Some (dispatched_response d), None))
      in (broadcastState st run s)
           \<lparr>handles := (handles s)(run := map_option (resolveHandle r e) (handles s run))\<rparr>)"

text \<open>
  The deferred clean-up: the run's own entry goes; an injected run puts the replaced mapping back
  if the conversation still points to it (\<open>CompareAndSwap\<close>), every other run removes the mapping if
  it still points to it (\<open>CompareAndDelete\<close>).
\<close>

definition cleanUp :: "string \<Rightarrow> bool \<Rightarrow> run_index \<Rightarrow> run_index" where
  "cleanUp run injected s =
     (case runConversation s run of
        None \<Rightarrow> s
      | Some conversation \<Rightarrow>
          (let s1 = s\<lparr>runConversation := (runConversation s)(run := None)\<rparr> in
           if conversationRun s conversation \<noteq> Some run then s1
           else (case (if injected then previousRun s run else None) of
                   Some previous \<Rightarrow> s1\<lparr>conversationRun := (conversationRun s)(conversation \<mapsto> previous)\<rparr>
                 | None \<Rightarrow> s1\<lparr>conversationRun := (conversationRun s)(conversation := None)\<rparr>)))"

definition finishRun :: "string \<Rightarrow> dispatch_result \<Rightarrow> run_index \<Rightarrow> run_index" where
  "finishRun run d s = cleanUp run (dispatched_injected d) (announce run d s)"

text \<open>The last deferred call resolves the handle if the goroutine panicked before.\<close>

definition safetyNet :: "string \<Rightarrow> run_index \<Rightarrow> run_index" where
  "safetyNet run s = s\<lparr>handles := (handles s)(run :=
     map_option (resolveHandle None (Some ''coordinators: run terminated unexpectedly'')) (handles s run))\<rparr>"

definition getActiveConversationRunID :: "string \<Rightarrow> run_index \<Rightarrow> string" where
  "getActiveConversationRunID conversation s =
     (case conversationRun s conversation of None \<Rightarrow> [] | Some r \<Rightarrow> r)"

datatype run_event = Begin string string | Finish string dispatch_result

fun run_step :: "run_event \<Rightarrow> run_index \<Rightarrow> run_index" where
  "run_step (Begin run conversation) = beginRun run conversation"
| "run_step (Finish run d) = finishRun run d"

subsection \<open>Properties\<close>

text \<open>A conversation only points to runs that are under way in it.\<close>

definition index_sound :: "run_index \<Rightarrow> bool" where
  "index_sound s \<longleftrightarrow> (\<forall>c r. conversationRun s c = Some r \<longrightarrow> runConversation s r = Some c)"

lemma index_soundD: "index_sound s \<Longrightarrow> conversationRun s c = Some r \<Longrightarrow> runConversation s r = Some c"
  unfolding index_sound_def by blast

lemma index_soundI:
  "(\<And>c r. conversationRun s c = Some r \<Longrightarrow> runConversation s r = Some c) \<Longrightarrow> index_sound s"
  unfolding index_sound_def by blast

lemma announce_index [simp]:
  "runConversation (announce run d s) = runConversation s"
  "conversationRun (announce run d s) = conversationRun s"
  "previousRun (announce run d s) = previousRun s"
  by (simp_all add: announce_def broadcastState_def Let_def case_prod_beta)

lemma beginRun_sound:
  "index_sound s \<Longrightarrow> runConversation s run = None \<Longrightarrow> index_sound (beginRun run c s)"
proof -
  assume i: "index_sound s" and n: "runConversation s run = None"
  have f: "conversationRun (beginRun run c s) = (conversationRun s)(c \<mapsto> run)"
    "runConversation (beginRun run c s) = (runConversation s)(run \<mapsto> c)"
    by (simp_all add: beginRun_def broadcastState_def Let_def)
  show ?thesis
  proof (rule index_soundI)
    fix k r assume k: "conversationRun (beginRun run c s) k = Some r"
    show "runConversation (beginRun run c s) r = Some k"
    proof (cases "k = c")
      case True
      then show ?thesis using k unfolding f by simp
    next
      case False
      then have "conversationRun s k = Some r" using k unfolding f by simp
      from index_soundD [OF i this] n show ?thesis unfolding f by auto
    qed
  qed
qed

lemma finishRun_sound:
  assumes "index_sound s" and "\<not> dispatched_injected d"
  shows "index_sound (finishRun run d s)"
proof (rule index_soundI)
  fix k r assume k: "conversationRun (finishRun run d s) k = Some r"
  show "runConversation (finishRun run d s) r = Some k"
  proof (cases "runConversation s run")
    case None
    then have "finishRun run d s = announce run d s" by (simp add: finishRun_def cleanUp_def)
    then show ?thesis using k index_soundD [OF assms(1)] by simp
  next
    case (Some c)
    have f: "runConversation (finishRun run d s) = (runConversation s)(run := None)"
      "conversationRun (finishRun run d s) =
        (if conversationRun s c = Some run then (conversationRun s)(c := None) else conversationRun s)"
      using Some assms(2) by (simp_all add: finishRun_def cleanUp_def Let_def)
    have old: "conversationRun s k = Some r" "k = c \<Longrightarrow> conversationRun s c \<noteq> Some run"
      using k unfolding f by (auto split: if_splits)
    note r = index_soundD [OF assms(1) old(1)]
    have "r \<noteq> run"
    proof
      assume "r = run"
      then have "k = c" using r Some by simp
      with old \<open>r = run\<close> show False by simp
    qed
    with r show ?thesis unfolding f by simp
  qed
qed

text \<open>Runs get fresh identifiers and none of them ends as injected.\<close>

fun plain_runs :: "run_event list \<Rightarrow> run_index \<Rightarrow> bool" where
  "plain_runs [] s = True"
| "plain_runs (e # es) s =
     ((case e of Begin run c \<Rightarrow> runConversation s run = None | Finish run d \<Rightarrow> \<not> dispatched_injected d)
      \<and> plain_runs es (run_step e s))"

text \<open>While no message is injected into a running turn, the active run reported for a conversation
  is always a run that is under way in it, whatever runs overlap.\<close>

theorem active_run_is_running:
  assumes "plain_runs es newRunIndex" and "getActiveConversationRunID c (fold run_step es newRunIndex) = r"
    and "r \<noteq> []"
  shows "runConversation (fold run_step es newRunIndex) r = Some c"
proof -
  have "index_sound s \<Longrightarrow> plain_runs es s \<Longrightarrow> index_sound (fold run_step es s)" for s
  proof (induction es arbitrary: s)
    case Nil
    then show ?case by simp
  next
    case (Cons e es)
    then have "index_sound (run_step e s)"
      by (cases e) (auto intro: beginRun_sound finishRun_sound)
    with Cons show ?case by simp
  qed
  moreover have "index_sound newRunIndex" by (rule index_soundI) (simp add: newRunIndex_def)
  ultimately have "index_sound (fold run_step es newRunIndex)" using assms(1) by blast
  then show ?thesis
    using assms(2,3) index_soundD by (cases "conversationRun (fold run_step es newRunIndex) c")
      (auto simp: getActiveConversationRunID_def)
qed

definition okResult :: dispatch_result where
  "okResult = \<lparr>dispatched_response = ''ok'', dispatched_error = None, dispatched_aborted = False,
     dispatched_injected = False\<rparr>"

definition injectedResult :: dispatch_result where
  "injectedResult = okResult\<lparr>dispatched_injected := True\<rparr>"

lemma active_run_is_running_witness:
  "runConversation (fold run_step [Begin ''r1'' ''c'', Begin ''r2'' ''c'', Finish ''r1'' okResult] newRunIndex) ''r2'' = Some ''c''"
  by (rule active_run_is_running)
    (simp_all add: newRunIndex_def beginRun_def finishRun_def cleanUp_def announce_def
      broadcastState_def okResult_def getActiveConversationRunID_def resolveHandle_def Let_def)

text \<open>One message injected into a running turn leaves the turn's run as the active one. Two that
  overlap do not: the second restores the first, which is over, so after all three runs ended the
  conversation still reports an active run.\<close>

theorem injected_runs_leave_stale_index:
  "getActiveConversationRunID ''c''
      (fold run_step [Begin ''r1'' ''c'', Begin ''r2'' ''c'', Finish ''r2'' injectedResult] newRunIndex) = ''r1''
   \<and> getActiveConversationRunID ''c''
      (fold run_step [Begin ''r1'' ''c'', Begin ''r2'' ''c'', Begin ''r3'' ''c'', Finish ''r2'' injectedResult,
         Finish ''r3'' injectedResult, Finish ''r1'' okResult] newRunIndex) = ''r2''
   \<and> runConversation
      (fold run_step [Begin ''r1'' ''c'', Begin ''r2'' ''c'', Begin ''r3'' ''c'', Finish ''r2'' injectedResult,
         Finish ''r3'' injectedResult, Finish ''r1'' okResult] newRunIndex) ''r2'' = None"
  by (simp add: newRunIndex_def beginRun_def finishRun_def cleanUp_def announce_def
      broadcastState_def okResult_def injectedResult_def getActiveConversationRunID_def Let_def)

text \<open>Whatever a run ends with, its handle is completed exactly once: with the response, nothing or
  the error according to the outcome, and neither a second resolution nor the safety net of the
  goroutine changes it.\<close>

theorem handle_resolved_once:
  assumes "handles s run = Some Pending"
  shows "handles (safetyNet run (finishRun run d s)) run =
    Some (if dispatched_injected d then Completed None None
          else if dispatched_aborted d \<or> dispatched_error d \<noteq> None then Completed None (dispatched_error d)
          else Completed (Some (dispatched_response d)) None)"
proof -
  have "handles (finishRun run d s) = handles (announce run d s)"
    by (auto simp: finishRun_def cleanUp_def Let_def split: option.split)
  then show ?thesis
    using assms by (auto simp: safetyNet_def announce_def broadcastState_def resolveHandle_def Let_def)
qed

lemma handle_resolved_once_witness:
  "handles (safetyNet ''r1'' (finishRun ''r1'' okResult (beginRun ''r1'' ''c'' newRunIndex))) ''r1'' =
    Some (Completed (Some ''ok'') None)"
  using handle_resolved_once [of "beginRun ''r1'' ''c'' newRunIndex" "''r1''" okResult]
  by (simp add: beginRun_def broadcastState_def okResult_def Let_def)

end
