(* ===== verification/Messages.thy ===== *)
theory Messages
  imports GoStrings "HOL-Library.Sublist"
begin

text \<open>
  Chat messages as the runner sends them to a provider (\<open>providers.ChatMessage\<close>) and conversation
  rows as the store keeps them (\<open>models.ConversationMessage\<close>), with the passes of
  \<open>internal/runners/runner.go\<close> that repair the pairing of tool calls and results and that find
  where the verbatim transcript resumes after a summary. The JSON columns of a row (content,
  tool calls, metadata) appear decoded.
\<close>

subsection \<open>Chat messages\<close>

record tool_call =
  callId :: string
  callName :: string
  callArguments :: string

datatype content_part = TextPart string | ImagePart string

datatype content = NoContent | Text string | Parts "content_part list"

record chat_message =
  role :: string
  content :: content
  toolCalls :: "tool_call list"
  toolCallId :: string
  toolName :: string
  sourceMessageId :: string

fun partText :: "content_part \<Rightarrow> string" where
  "partText (TextPart t) = t"
| "partText (ImagePart u) = []"

text \<open>\<open>ChatMessage.ContentText\<close>: parts that are not text contribute nothing.\<close>

fun contentText :: "content \<Rightarrow> string" where
  "contentText NoContent = []"
| "contentText (Text t) = t"
| "contentText (Parts ps) = concat (map partText ps)"

definition systemMessage :: "string \<Rightarrow> chat_message" where
  "systemMessage t = \<lparr>role = ''system'', content = Text t, toolCalls = [], toolCallId = [],
     toolName = [], sourceMessageId = []\<rparr>"

subsection \<open>Interrupted tool calls\<close>

definition interruptedText :: string where
  "interruptedText = ''Tool call was interrupted and did not complete.''"

definition syntheticResult :: "tool_call \<Rightarrow> chat_message" where
  "syntheticResult tc = \<lparr>role = ''tool'', content = Text interruptedText, toolCalls = [],
     toolCallId = callId tc, toolName = callName tc, sourceMessageId = []\<rparr>"

text \<open>The messages behind an assistant message up to the next assistant or user message.\<close>

definition turn :: "chat_message list \<Rightarrow> chat_message list" where
  "turn ms = takeWhile (\<lambda>m. role m \<noteq> ''assistant'' \<and> role m \<noteq> ''user'') ms"

definition answeredIds :: "chat_message list \<Rightarrow> string list" where
  "answeredIds ms = map toolCallId (filter (\<lambda>m. role m = ''tool'' \<and> toolCallId m \<noteq> []) (turn ms))"

definition missingResults :: "chat_message \<Rightarrow> chat_message list \<Rightarrow> chat_message list" where
  "missingResults m rest =
     map syntheticResult (filter (\<lambda>tc. callId tc \<notin> set (answeredIds rest)) (toolCalls m))"

text \<open>
  The loop over the messages from the last to the first; what follows a message has been repaired
  when the message is looked at.
\<close>

fun fixInterruptedToolCalls :: "chat_message list \<Rightarrow> chat_message list" where
  "fixInterruptedToolCalls [] = []"
| "fixInterruptedToolCalls (m # ms) =
     (let rest = fixInterruptedToolCalls ms in
      if role m \<noteq> ''assistant'' \<or> toolCalls m = [] then m # rest
      else m # takeWhile (\<lambda>x. role x = ''tool'') rest @ missingResults m rest
             @ dropWhile (\<lambda>x. role x = ''tool'') rest)"

text \<open>\<open>dropUnpairedToolResults\<close>: the announced identifiers so far are the accumulator.\<close>

fun dropUnpaired :: "string set \<Rightarrow> chat_message list \<Rightarrow> chat_message list" where
  "dropUnpaired announced [] = []"
| "dropUnpaired announced (m # ms) =
     (let announced' = announced \<union> callId ` set (toolCalls m) in
      if role m = ''tool'' \<and> toolCallId m \<noteq> [] \<and> toolCallId m \<notin> announced'
      then dropUnpaired announced' ms
      else m # dropUnpaired announced' ms)"

definition dropUnpairedToolResults :: "chat_message list \<Rightarrow> chat_message list" where
  "dropUnpairedToolResults ms = dropUnpaired {} ms"

subsection \<open>What the repairs achieve\<close>

text \<open>
  Every tool call of an assistant message has a result before the next assistant or user message,
  and every identified tool result has an assistant message before it that announced it.
\<close>

fun calls_answered :: "chat_message list \<Rightarrow> bool" where
  "calls_answered [] = True"
| "calls_answered (m # ms) =
     ((role m = ''assistant'' \<longrightarrow>
        (\<forall>tc\<in>set (toolCalls m). \<exists>t\<in>set (turn ms). role t = ''tool'' \<and> toolCallId t = callId tc))
      \<and> calls_answered ms)"

fun results_announced :: "string set \<Rightarrow> chat_message list \<Rightarrow> bool" where
  "results_announced announced [] = True"
| "results_announced announced (m # ms) =
     (let announced' = announced \<union> callId ` set (toolCalls m) in
      (role m = ''tool'' \<longrightarrow> toolCallId m = [] \<or> toolCallId m \<in> announced')
      \<and> results_announced announced' ms)"

lemma turn_tools:
  "\<forall>x\<in>set xs. role x = ''tool'' \<Longrightarrow> turn (xs @ ys) = xs @ turn ys"
  by (induction xs) (simp_all add: turn_def)

lemma turn_Nil [simp]: "turn [] = []"
  by (simp add: turn_def)

lemma takeWhile_tools: "\<forall>x\<in>set (takeWhile (\<lambda>x. role x = ''tool'') ms). role x = ''tool''"
  by (auto dest: set_takeWhileD)

lemma missing_tools: "\<forall>x\<in>set (missingResults m rest). role x = ''tool''"
  by (auto simp: missingResults_def syntheticResult_def)

lemma calls_answered_tools:
  "\<forall>x\<in>set xs. role x = ''tool'' \<Longrightarrow> calls_answered (xs @ zs) = calls_answered zs"
  by (induction xs) simp_all

lemma calls_answered_drop: "calls_answered ms \<Longrightarrow> calls_answered (dropWhile P ms)"
  by (induction ms) simp_all

lemma answeredIds_hit:
  "i \<in> set (answeredIds ms) \<Longrightarrow> \<exists>t\<in>set (turn ms). role t = ''tool'' \<and> toolCallId t = i"
  by (auto simp: answeredIds_def)

lemma fixed_answers: "calls_answered (fixInterruptedToolCalls ms)"
proof (induction ms)
  case Nil
  then show ?case by simp
next
  case (Cons m ms)
  let ?rest = "fixInterruptedToolCalls ms"
  let ?tw = "takeWhile (\<lambda>x. role x = ''tool'') ?rest"
  let ?dw = "dropWhile (\<lambda>x. role x = ''tool'') ?rest"
  show ?case
  proof (cases "role m \<noteq> ''assistant'' \<or> toolCalls m = []")
    case True
    then show ?thesis using Cons by auto
  next
    case False
    have dw: "calls_answered ?dw" using Cons by (rule calls_answered_drop)
    have tools: "\<forall>x\<in>set (?tw @ missingResults m ?rest). role x = ''tool''"
      using takeWhile_tools [of ?rest] missing_tools by auto
    have new: "calls_answered ((?tw @ missingResults m ?rest) @ ?dw)"
      using calls_answered_tools [OF tools] dw by blast
    have turn_new: "turn ((?tw @ missingResults m ?rest) @ ?dw) = (?tw @ missingResults m ?rest) @ turn ?dw"
      by (rule turn_tools [OF tools])
    have turn_old: "turn ?rest = ?tw @ turn ?dw"
      using turn_tools [OF takeWhile_tools, of ?rest ?dw] by simp
    have "\<exists>t\<in>set (turn ((?tw @ missingResults m ?rest) @ ?dw)). role t = ''tool'' \<and> toolCallId t = callId tc"
      if tc: "tc \<in> set (toolCalls m)" for tc
    proof (cases "callId tc \<in> set (answeredIds ?rest)")
      case True
      then show ?thesis using answeredIds_hit [OF True] unfolding turn_old turn_new by auto
    next
      case False
      then have "syntheticResult tc \<in> set (missingResults m ?rest)"
        using tc by (auto simp: missingResults_def)
      then show ?thesis unfolding turn_new by (force simp: syntheticResult_def)
    qed
    with False new show ?thesis by (simp add: Let_def)
  qed
qed

text \<open>Only assistant messages carry tool calls (\<open>assembleMessages\<close> attaches them to no other).\<close>

definition only_assistants_call :: "chat_message list \<Rightarrow> bool" where
  "only_assistants_call ms \<longleftrightarrow> (\<forall>m\<in>set ms. role m = ''assistant'' \<or> toolCalls m = [])"

lemma only_assistants_fixed: "only_assistants_call ms \<Longrightarrow> only_assistants_call (fixInterruptedToolCalls ms)"
proof (induction ms)
  case Nil
  then show ?case by simp
next
  case (Cons m ms)
  have "only_assistants_call (fixInterruptedToolCalls ms)"
    using Cons by (simp add: only_assistants_call_def)
  then have "\<forall>x\<in>set (takeWhile P (fixInterruptedToolCalls ms)) \<union> set (dropWhile P (fixInterruptedToolCalls ms)).
      role x = ''assistant'' \<or> toolCalls x = []" for P
    by (auto simp: only_assistants_call_def dest: set_takeWhileD set_dropWhileD)
  moreover have "\<forall>x\<in>set (missingResults m (fixInterruptedToolCalls ms)). toolCalls x = []"
    by (auto simp: missingResults_def syntheticResult_def)
  ultimately show ?case
    using Cons by (auto simp: only_assistants_call_def Let_def)
qed

lemma dropUnpaired_announced: "only_assistants_call ms \<Longrightarrow> results_announced A (dropUnpaired A ms)"
  by (induction ms arbitrary: A) (auto simp: Let_def only_assistants_call_def)

lemma dropUnpaired_keeps_answer:
  assumes "t \<in> set (turn ms)" and "toolCallId t \<in> A"
  shows "t \<in> set (turn (dropUnpaired A ms))"
  using assms
proof (induction ms arbitrary: A)
  case Nil
  then show ?case by simp
next
  case (Cons m ms)
  let ?A = "A \<union> callId ` set (toolCalls m)"
  have m: "role m \<noteq> ''assistant'' \<and> role m \<noteq> ''user''"
    using Cons.prems(1) by (auto simp: turn_def split: if_splits)
  show ?case
  proof (cases "t = m")
    case True
    then show ?thesis using Cons.prems(2) m by (simp add: turn_def)
  next
    case False
    then have "t \<in> set (turn ms)" using Cons.prems(1) m by (simp add: turn_def)
    then have "t \<in> set (turn (dropUnpaired ?A ms))" using Cons by blast
    then show ?thesis using m by (simp add: Let_def turn_def)
  qed
qed

lemma dropUnpaired_answers: "calls_answered ms \<Longrightarrow> calls_answered (dropUnpaired A ms)"
proof (induction ms arbitrary: A)
  case Nil
  then show ?case by simp
next
  case (Cons m ms)
  let ?A = "A \<union> callId ` set (toolCalls m)"
  have "\<exists>t\<in>set (turn (dropUnpaired ?A ms)). role t = ''tool'' \<and> toolCallId t = callId tc"
    if "role m = ''assistant''" "tc \<in> set (toolCalls m)" for tc
    using dropUnpaired_keeps_answer [of _ ms ?A] Cons.prems that by fastforce
  with Cons show ?case by (simp add: Let_def)
qed

lemma subseq_takeWhile_insert: "subseq ms (takeWhile P ms @ ys @ dropWhile P ms)"
proof -
  have "subseq (takeWhile P ms @ dropWhile P ms) (takeWhile P ms @ ys @ dropWhile P ms)"
    by (intro list_emb_append_mono) (auto intro: list_emb_append2)
  then show ?thesis by simp
qed

lemma fixed_keeps: "subseq ms (fixInterruptedToolCalls ms)"
proof (induction ms)
  case Nil
  then show ?case by simp
next
  case (Cons m ms)
  let ?rest = "fixInterruptedToolCalls ms"
  have "subseq ms (takeWhile P ?rest @ ys @ dropWhile P ?rest)" for P ys
    using Cons subseq_takeWhile_insert by (rule subseq_order.trans)
  with Cons show ?case by (simp add: Let_def)
qed

lemma dropUnpaired_subseq: "subseq (dropUnpaired A ms) ms"
  by (induction ms arbitrary: A) (auto simp: Let_def)

definition repairMessages :: "chat_message list \<Rightarrow> chat_message list" where
  "repairMessages ms = dropUnpairedToolResults (fixInterruptedToolCalls ms)"

lemma fixed_id:
  assumes "calls_answered ms" and "\<forall>m\<in>set ms. \<forall>tc\<in>set (toolCalls m). callId tc \<noteq> []"
  shows "fixInterruptedToolCalls ms = ms"
  using assms
proof (induction ms)
  case Nil
  then show ?case by simp
next
  case (Cons m ms)
  have "role m = ''assistant'' \<Longrightarrow> \<forall>tc\<in>set (toolCalls m). callId tc \<in> set (answeredIds ms)"
    using Cons.prems by (force simp: answeredIds_def)
  then have "role m = ''assistant'' \<Longrightarrow> missingResults m ms = []"
    by (simp add: missingResults_def filter_empty_conv)
  with Cons show ?case by (simp add: Let_def)
qed

lemma dropUnpaired_id: "results_announced A ms \<Longrightarrow> dropUnpaired A ms = ms"
  by (induction ms arbitrary: A) (auto simp: Let_def)

lemma dropUnpaired_other: "m \<in> set ms \<Longrightarrow> role m \<noteq> ''tool'' \<Longrightarrow> m \<in> set (dropUnpaired A ms)"
  by (induction ms arbitrary: A) (auto simp: Let_def)

text \<open>After the two repairs every tool call of the prompt has a result before the next assistant or
  user message and every identified tool result follows an assistant message that announced it;
  no other message is lost or reordered, and a prompt that was already well paired is not
  changed.\<close>

theorem repaired_prompt_is_paired:
  assumes "only_assistants_call ms"
  shows "calls_answered (repairMessages ms) \<and> results_announced {} (repairMessages ms)
   \<and> subseq (filter (\<lambda>m. role m \<noteq> ''tool'') ms) (repairMessages ms)
   \<and> (calls_answered ms \<and> results_announced {} ms \<and> list_all (\<lambda>m. list_all (\<lambda>tc. callId tc \<noteq> []) (toolCalls m)) ms
        \<longrightarrow> repairMessages ms = ms)"
proof -
  have drop_other: "subseq (filter (\<lambda>m. role m \<noteq> ''tool'') xs) (dropUnpaired A xs)" for A xs
    by (induction xs arbitrary: A) (auto simp: Let_def)
  have "subseq (filter (\<lambda>m. role m \<noteq> ''tool'') ms) (filter (\<lambda>m. role m \<noteq> ''tool'') (fixInterruptedToolCalls ms))"
    by (rule subseq_filter [OF fixed_keeps])
  then have "subseq (filter (\<lambda>m. role m \<noteq> ''tool'') ms) (repairMessages ms)"
    using drop_other [of "fixInterruptedToolCalls ms" "{}"] subseq_order.trans
    by (auto simp: repairMessages_def dropUnpairedToolResults_def)
  then show ?thesis
    using fixed_answers dropUnpaired_answers dropUnpaired_announced [OF only_assistants_fixed [OF assms]]
      fixed_id dropUnpaired_id
    by (auto simp: repairMessages_def dropUnpairedToolResults_def list_all_iff)
qed

definition sampleCallMessage :: chat_message where
  "sampleCallMessage = \<lparr>role = ''assistant'', content = NoContent,
     toolCalls = [\<lparr>callId = ''t'', callName = ''exec'', callArguments = []\<rparr>],
     toolCallId = [], toolName = [], sourceMessageId = ''a''\<rparr>"

lemma repaired_prompt_is_paired_witness:
  "repairMessages [sampleCallMessage, syntheticResult \<lparr>callId = ''t'', callName = ''exec'', callArguments = []\<rparr>] =
    [sampleCallMessage, syntheticResult \<lparr>callId = ''t'', callName = ''exec'', callArguments = []\<rparr>]"
  using repaired_prompt_is_paired [of "[sampleCallMessage,
      syntheticResult \<lparr>callId = ''t'', callName = ''exec'', callArguments = []\<rparr>]"]
  by (simp add: sampleCallMessage_def syntheticResult_def turn_def only_assistants_call_def)

end
