(* ===== verification/Transcript.thy ===== *)
theory Transcript
  imports Messages
begin

text \<open>
  From conversation rows to the prompt (\<open>internal/runners/runner.go\<close>: \<open>buildMessages\<close>,
  \<open>assembleMessages\<close> and the search for the point where the verbatim transcript resumes after a
  context summary). A history is a list of row pointers, so a row may be nil. The system prompt,
  the overlays and the media store are arguments.
\<close>

subsection \<open>Rows\<close>

record block =
  blockType :: string
  blockText :: string
  blockFormat :: string
  blockMedia :: string
  blockFile :: string

record row =
  rowId :: string
  rowRole :: string
  rowContent :: string
  rowBlocks :: "block list"
  rowCalls :: "tool_call list"
  rowToolCallId :: string
  rowToolName :: string
  rowStop :: string
  rowResume :: string
  rowCoverage :: bool

type_synonym history = "row option list"

definition isSummary :: "row \<Rightarrow> bool" where
  "isSummary r \<longleftrightarrow> rowRole r = ''system'' \<and> rowStop r = ''context_summary''"

text \<open>
  \<open>findLastSummaryIndex\<close> walks backwards and dereferences every row it passes.
\<close>

fun lastSummaryBefore :: "nat \<Rightarrow> history \<Rightarrow> nat option outcome" where
  "lastSummaryBefore 0 h = Done None"
| "lastSummaryBefore (Suc n) h =
     (case h ! n of
        None \<Rightarrow> Panics
      | Some r \<Rightarrow> if isSummary r then Done (Some n) else lastSummaryBefore n h)"

definition findLastSummaryIndex :: "history \<Rightarrow> nat option outcome" where
  "findLastSummaryIndex h = lastSummaryBefore (length h) h"

definition summaryResumeFrom :: "row option \<Rightarrow> string \<times> bool" where
  "summaryResumeFrom r = (case r of None \<Rightarrow> ([], False) | Some x \<Rightarrow> (rowResume x, rowCoverage x))"

definition recordedResumeIndex :: "history \<Rightarrow> nat \<Rightarrow> nat option" where
  "recordedResumeIndex h i =
     (let (resume, coverage) = summaryResumeFrom (h ! i) in
      if \<not> coverage then None
      else if resume = [] then Some (i + 1)
      else first_index (\<lambda>r. case r of None \<Rightarrow> False | Some x \<Rightarrow> rowId x = resume) h)"

fun skipLoop :: "nat \<Rightarrow> history \<Rightarrow> nat option" where
  "skipLoop i [] = None"
| "skipLoop i (None # rs) = skipLoop (Suc i) rs"
| "skipLoop i (Some r # rs) =
     (if rowRole r = ''user'' then Some i
      else if rowStop r \<noteq> [] \<and> rowStop r \<noteq> ''tool_calls'' \<and> rowStop r \<noteq> ''context_summary'' then Some (Suc i)
      else skipLoop (Suc i) rs)"

definition skipOrphanedTurnFragments :: "history \<Rightarrow> nat \<Rightarrow> nat" where
  "skipOrphanedTurnFragments h start =
     (if start \<ge> length h then start
      else (case h ! start of
              None \<Rightarrow> start
            | Some r \<Rightarrow>
                if rowRole r = ''user'' then start
                else (case skipLoop start (drop start h) of None \<Rightarrow> start | Some i \<Rightarrow> i)))"

fun latestUserBefore :: "nat \<Rightarrow> history \<Rightarrow> nat option" where
  "latestUserBefore 0 h = None"
| "latestUserBefore (Suc n) h =
     (case h ! n of
        Some r \<Rightarrow> if rowRole r = ''user'' then Some n else latestUserBefore n h
      | None \<Rightarrow> latestUserBefore n h)"

definition latestUserMessageIndex :: "history \<Rightarrow> nat" where
  "latestUserMessageIndex h =
     (case latestUserBefore (length h) h of None \<Rightarrow> length h | Some i \<Rightarrow> i)"

definition rowTextOf :: "row option \<Rightarrow> string" where
  "rowTextOf r = (case r of None \<Rightarrow> [] | Some x \<Rightarrow> rowContent x)"

definition summaryStartIndex :: "history \<Rightarrow> (nat \<times> string) outcome" where
  "summaryStartIndex h =
     and_then (findLastSummaryIndex h) (\<lambda>found. Done
       (case found of
          None \<Rightarrow> (0, [])
        | Some i \<Rightarrow>
            (case recordedResumeIndex h i of
               Some k \<Rightarrow> k
             | None \<Rightarrow> min (skipOrphanedTurnFragments h (i + 1)) (latestUserMessageIndex h),
             rowTextOf (h ! i))))"

definition summaryTextOnly :: "history \<Rightarrow> (nat \<times> string) outcome" where
  "summaryTextOnly h = and_then (summaryStartIndex h) (\<lambda>(start, txt). Done (0, txt))"

subsection \<open>Chat messages of rows\<close>

text \<open>
  \<open>strings.ToLower\<close> followed by a comparison with lower-case ASCII constants: besides the letters A to
  Z, only the Kelvin sign and the dotted capital I have an ASCII lower case.
\<close>

definition lower_to_ascii :: "rune \<Rightarrow> rune" where
  "lower_to_ascii r = (if 65 \<le> r \<and> r \<le> 90 then r + 32 else if r = 8490 then 107 else if r = 304 then 105 else r)"

definition lowers_to :: "string \<Rightarrow> string \<Rightarrow> bool" where
  "lowers_to s t \<longleftrightarrow> map lower_to_ascii (runes s) = map of_char t"

definition isImageFormat :: "string \<Rightarrow> bool" where
  "isImageFormat format \<longleftrightarrow>
     list_ex (lowers_to format) [''png'', ''jpeg'', ''jpg'', ''gif'', ''webp'']"

definition contentBlocks :: "row \<Rightarrow> block list" where
  "contentBlocks r =
     (case rowBlocks r of
        b # bs \<Rightarrow> if blockType b \<noteq> [] then b # bs
                  else [\<lparr>blockType = ''text'', blockText = rowContent r, blockFormat = [], blockMedia = [], blockFile = []\<rparr>]
      | [] \<Rightarrow> [\<lparr>blockType = ''text'', blockText = rowContent r, blockFormat = [], blockMedia = [], blockFile = []\<rparr>])"

definition partsOfBlock :: "(string \<Rightarrow> string) \<Rightarrow> block \<Rightarrow> content_part list" where
  "partsOfBlock media b =
     (if blockType b = ''text'' then (if blockText b \<noteq> [] then [TextPart (blockText b)] else [])
      else if blockType b = ''attachment'' then
        (if isImageFormat (blockFormat b)
         then (let url = media (blockMedia b) in if url \<noteq> [] then [ImagePart url] else [])
         else (let label = (if blockFile b = [] then blockMedia b else blockFile b) in
               [TextPart (''[Attached file: '' @ label @ '' ('' @ blockFormat b @ '')]'')]))
      else [])"

definition buildMultimodalContent :: "(string \<Rightarrow> string) \<Rightarrow> block list \<Rightarrow> content_part list" where
  "buildMultimodalContent media bs =
     (let parts = concat (map (partsOfBlock media) bs) in if parts = [] then [TextPart []] else parts)"

definition chatMessageOf :: "(string \<Rightarrow> string) \<Rightarrow> row \<Rightarrow> chat_message" where
  "chatMessageOf media r =
     \<lparr>role = rowRole r,
      content = (if list_ex (\<lambda>b. blockType b = ''attachment'') (contentBlocks r) \<and> rowRole r = ''user''
                 then Parts (buildMultimodalContent media (contentBlocks r))
                 else Text (rowContent r)),
      toolCalls = (if rowRole r = ''assistant'' then rowCalls r else []),
      toolCallId = (if rowRole r = ''tool'' then rowToolCallId r else []),
      toolName = (if rowRole r = ''tool'' then rowToolName r else []),
      sourceMessageId = rowId r\<rparr>"

definition transcriptOf :: "(string \<Rightarrow> string) \<Rightarrow> history \<Rightarrow> chat_message list" where
  "transcriptOf media h =
     map (chatMessageOf media) (filter (\<lambda>r. rowStop r \<noteq> ''context_summary'') (List.map_filter id h))"

definition assembleMessages ::
  "string \<Rightarrow> (string \<Rightarrow> string) \<Rightarrow> history \<Rightarrow> nat \<times> string \<Rightarrow> chat_message list outcome" where
  "assembleMessages prompt media h startAndSummary =
     (let (start, summary) = startAndSummary in
      if start > length h then Panics
      else Done (repairMessages
        (systemMessage prompt
         # (if summary \<noteq> [] then [systemMessage (''Previous conversation summary:'' @ [CHR 0x0A] @ summary)] else [])
         @ transcriptOf media (drop start h))))"

definition hasTranscript :: "chat_message list \<Rightarrow> bool" where
  "hasTranscript ms \<longleftrightarrow> list_ex (\<lambda>m. role m \<noteq> ''system'') ms"

definition buildMessages ::
  "string \<Rightarrow> (string \<Rightarrow> string) \<Rightarrow> string list \<Rightarrow> string \<Rightarrow> history \<Rightarrow> chat_message list outcome" where
  "buildMessages prompt media overlays voice h =
     and_then (and_then (summaryStartIndex h) (assembleMessages prompt media h)) (\<lambda>ms.
       and_then
         (if hasTranscript ms then Done ms
          else and_then (summaryTextOnly h) (assembleMessages prompt media h))
         (\<lambda>ms'. Done (ms' @ map systemMessage overlays
                        @ (if voice \<noteq> [] then [systemMessage voice] else []))))"

definition findResumeFromMessageId :: "history \<Rightarrow> chat_message list \<Rightarrow> string" where
  "findResumeFromMessageId h kept =
     (let ids = filter (\<lambda>i. i \<noteq> []) (map sourceMessageId kept) in
      if ids = [] then []
      else (case first_index (\<lambda>r. case r of None \<Rightarrow> False | Some x \<Rightarrow> rowId x \<in> set ids) h of
              None \<Rightarrow> []
            | Some i \<Rightarrow> (case h ! i of None \<Rightarrow> [] | Some x \<Rightarrow> rowId x)))"

subsection \<open>The resume point\<close>

definition no_nil :: "history \<Rightarrow> bool" where
  "no_nil h \<longleftrightarrow> None \<notin> set h"

lemma lastSummaryBefore_Done:
  "no_nil h \<Longrightarrow> n \<le> length h \<Longrightarrow> \<exists>f. lastSummaryBefore n h = Done f \<and> (\<forall>i. f = Some i \<longrightarrow> i < n)"
proof (induction n)
  case 0
  then show ?case by simp
next
  case (Suc n)
  then have "h ! n \<in> set h" by simp
  then obtain r where "h ! n = Some r" using Suc.prems(1) by (metis no_nil_def not_None_eq)
  moreover obtain f where "lastSummaryBefore n h = Done f" "\<forall>i. f = Some i \<longrightarrow> i < n" using Suc by auto
  ultimately show ?case by (simp add: less_SucI)
qed

lemma lastSummaryBefore_skip:
  "\<forall>j. n \<le> j \<longrightarrow> j < m \<longrightarrow> (\<exists>r. h ! j = Some r \<and> \<not> isSummary r) \<Longrightarrow> n \<le> m \<Longrightarrow>
   lastSummaryBefore m h = lastSummaryBefore n h"
proof (induction m)
  case 0
  then show ?case by simp
next
  case (Suc m)
  show ?case
  proof (cases "n \<le> m")
    case True
    then obtain r where "h ! m = Some r" "\<not> isSummary r" using Suc.prems(1) by auto
    with True Suc show ?thesis by simp
  next
    case False
    then have "n = Suc m" using Suc.prems(2) by simp
    then show ?thesis by simp
  qed
qed

lemma recordedResumeIndex_le: "i < length h \<Longrightarrow> recordedResumeIndex h i = Some k \<Longrightarrow> k \<le> length h"
  by (auto simp: recordedResumeIndex_def Let_def split: if_splits prod.splits dest!: first_index_Some)

lemma latestUserBefore_less: "latestUserBefore n h = Some i \<Longrightarrow> i < n"
  by (induction n) (auto split: option.splits if_splits intro: less_SucI)

lemma latestUserMessageIndex_le: "latestUserMessageIndex h \<le> length h"
  using latestUserBefore_less [of "length h" h]
  by (auto simp: latestUserMessageIndex_def split: option.split)

lemma summaryStartIndex_Done:
  assumes "no_nil h"
  shows "\<exists>k t. summaryStartIndex h = Done (k, t) \<and> k \<le> length h"
proof -
  obtain f where f: "findLastSummaryIndex h = Done f" "\<forall>i. f = Some i \<longrightarrow> i < length h"
    using lastSummaryBefore_Done [OF assms, of "length h"] by (auto simp: findLastSummaryIndex_def)
  show ?thesis
  proof (cases f)
    case None
    then show ?thesis using f by (simp add: summaryStartIndex_def)
  next
    case (Some i)
    then show ?thesis
      using f recordedResumeIndex_le [of i h] latestUserMessageIndex_le [of h]
      by (auto simp: summaryStartIndex_def split: option.split)
  qed
qed


subsection \<open>The prompt\<close>

lemma transcriptOf_mem:
  assumes "Some r \<in> set h" and "rowStop r \<noteq> ''context_summary''"
  shows "chatMessageOf media r \<in> set (transcriptOf media h)"
proof -
  have "r \<in> set (List.map_filter id h)"
    using assms(1) by (induction h) (auto simp: map_filter_simps split: option.split)
  then show ?thesis using assms(2) by (simp add: transcriptOf_def)
qed

lemma transcriptOf_calls: "m \<in> set (transcriptOf media h) \<Longrightarrow> role m = ''assistant'' \<or> toolCalls m = []"
  by (auto simp: transcriptOf_def chatMessageOf_def split: if_splits)

lemma assembled:
  assumes "k \<le> length h"
  shows "\<exists>ms. assembleMessages prompt media h (k, t) = Done (repairMessages (systemMessage prompt # ms))
    \<and> only_assistants_call (systemMessage prompt # ms) \<and> set (transcriptOf media (drop k h)) \<subseteq> set ms"
proof (intro exI conjI)
  let ?ms = "(if t \<noteq> [] then [systemMessage (''Previous conversation summary:'' @ [CHR 0x0A] @ t)] else [])
     @ transcriptOf media (drop k h)"
  show "assembleMessages prompt media h (k, t) = Done (repairMessages (systemMessage prompt # ?ms))"
    using assms by (simp add: assembleMessages_def)
  show "only_assistants_call (systemMessage prompt # ?ms)"
    using transcriptOf_calls [of _ media "drop k h"]
    by (auto simp: only_assistants_call_def systemMessage_def)
  show "set (transcriptOf media (drop k h)) \<subseteq> set ?ms" by auto
qed

lemma calls_answered_systems:
  "calls_answered ms \<Longrightarrow> calls_answered (ms @ map systemMessage ts)"
proof (induction ms)
  case Nil
  then show ?case by (induction ts) (simp_all add: systemMessage_def)
next
  case (Cons m ms)
  have "set (turn ms) \<subseteq> set (turn (ms @ map systemMessage ts))"
    by (auto simp: turn_def takeWhile_append dest: set_takeWhileD)
  with Cons show ?case by fastforce
qed

lemma results_announced_systems:
  "results_announced A ms \<Longrightarrow> results_announced A (ms @ map systemMessage ts)"
proof (induction ms arbitrary: A)
  case Nil
  have "results_announced B (map systemMessage ts)" for B
    by (induction ts arbitrary: B) (simp_all add: systemMessage_def Let_def)
  then show ?case by simp
qed (simp add: Let_def)

lemma repaired_mem: "m \<in> set ms \<Longrightarrow> role m \<noteq> ''tool'' \<Longrightarrow> m \<in> set (repairMessages ms)"
  unfolding repairMessages_def dropUnpairedToolResults_def
  by (rule dropUnpaired_other) (use list_emb_set [OF fixed_keeps] in blast)+

lemma repaired_sound:
  assumes "only_assistants_call ms"
  shows "calls_answered (repairMessages ms) \<and> results_announced {} (repairMessages ms)
    \<and> only_assistants_call (repairMessages ms)"
proof -
  have "set (dropUnpaired {} (fixInterruptedToolCalls ms)) \<subseteq> set (fixInterruptedToolCalls ms)"
    using list_emb_set [OF dropUnpaired_subseq] by blast
  then have "only_assistants_call (repairMessages ms)"
    using only_assistants_fixed [OF assms]
    unfolding only_assistants_call_def repairMessages_def dropUnpairedToolResults_def by blast
  then show ?thesis
    using dropUnpaired_answers [OF fixed_answers] dropUnpaired_announced [OF only_assistants_fixed [OF assms]]
    by (simp add: repairMessages_def dropUnpairedToolResults_def)
qed

lemma repaired_system: "\<exists>zs. repairMessages (systemMessage p # ms) = systemMessage p # zs"
  by (simp add: repairMessages_def dropUnpairedToolResults_def systemMessage_def Let_def)

lemma buildMessages_shape:
  assumes "no_nil h"
  shows "\<exists>zs ts. buildMessages prompt media overlays voice h =
      Done (repairMessages (systemMessage prompt # zs) @ map systemMessage ts)
    \<and> only_assistants_call (systemMessage prompt # zs)
    \<and> (hasTranscript (repairMessages (systemMessage prompt # zs)) \<or> set (transcriptOf media h) \<subseteq> set zs)"
proof -
  let ?ts = "overlays @ (if voice \<noteq> [] then [voice] else [])"
  obtain k t where kt: "summaryStartIndex h = Done (k, t)" "k \<le> length h"
    using summaryStartIndex_Done [OF assms] by blast
  obtain xs where xs: "assembleMessages prompt media h (k, t) = Done (repairMessages (systemMessage prompt # xs))"
      "only_assistants_call (systemMessage prompt # xs)"
    using assembled [OF kt(2)] by blast
  obtain ys where ys: "assembleMessages prompt media h (0, t) = Done (repairMessages (systemMessage prompt # ys))"
      "only_assistants_call (systemMessage prompt # ys)" "set (transcriptOf media h) \<subseteq> set ys"
    using assembled [of 0 h prompt media t] by auto
  show ?thesis
  proof (cases "hasTranscript (repairMessages (systemMessage prompt # xs))")
    case True
    then have "buildMessages prompt media overlays voice h =
        Done (repairMessages (systemMessage prompt # xs) @ map systemMessage ?ts)"
      using kt xs by (simp add: buildMessages_def)
    then show ?thesis using xs(2) True by blast
  next
    case False
    then have "buildMessages prompt media overlays voice h =
        Done (repairMessages (systemMessage prompt # ys) @ map systemMessage ?ts)"
      using kt xs ys by (simp add: buildMessages_def summaryTextOnly_def)
    then show ?thesis using ys(2,3) by blast
  qed
qed

text \<open>What the runner relies on in every round: the prompt starts with the system prompt and is paired.\<close>

lemma buildMessages_paired:
  assumes "no_nil h"
  shows "\<exists>zs. buildMessages prompt media overlays voice h = Done (systemMessage prompt # zs)
    \<and> calls_answered (systemMessage prompt # zs) \<and> results_announced {} (systemMessage prompt # zs)
    \<and> only_assistants_call (systemMessage prompt # zs)"
proof -
  obtain zs ts where z: "buildMessages prompt media overlays voice h =
      Done (repairMessages (systemMessage prompt # zs) @ map systemMessage ts)"
      "only_assistants_call (systemMessage prompt # zs)"
    using buildMessages_shape [OF assms] by blast
  obtain ys where y: "repairMessages (systemMessage prompt # zs) = systemMessage prompt # ys"
    using repaired_system by blast
  let ?ms = "repairMessages (systemMessage prompt # zs) @ map systemMessage ts"
  note s = repaired_sound [OF z(2)]
  have "only_assistants_call ?ms" using s by (auto simp: only_assistants_call_def systemMessage_def)
  then show ?thesis
    using s z(1) calls_answered_systems [of "repairMessages (systemMessage prompt # zs)" ts]
      results_announced_systems [of "{}" "repairMessages (systemMessage prompt # zs)" ts]
    unfolding y by auto
qed

text \<open>Building the prompt of a conversation without nil rows never panics, every tool call and tool
  result in it is paired, and it holds something to continue from as soon as the conversation
  holds a user or assistant message, wherever a summary cut the transcript.\<close>

theorem prompt_is_usable:
  assumes "no_nil h" and "Some r \<in> set h" and "rowRole r \<in> {''user'', ''assistant''}"
    and "rowStop r \<noteq> ''context_summary''"
  shows "\<exists>ms. buildMessages prompt media overlays voice h = Done ms
    \<and> hasTranscript ms \<and> calls_answered ms \<and> results_announced {} ms"
proof -
  obtain zs ts where z: "buildMessages prompt media overlays voice h =
      Done (repairMessages (systemMessage prompt # zs) @ map systemMessage ts)"
      "hasTranscript (repairMessages (systemMessage prompt # zs)) \<or> set (transcriptOf media h) \<subseteq> set zs"
    using buildMessages_shape [OF assms(1)] by blast
  have "chatMessageOf media r \<in> set (repairMessages (systemMessage prompt # zs))"
    if "set (transcriptOf media h) \<subseteq> set zs"
  proof (rule repaired_mem)
    show "chatMessageOf media r \<in> set (systemMessage prompt # zs)"
      using transcriptOf_mem [OF assms(2,4), of media] that by auto
    show "role (chatMessageOf media r) \<noteq> ''tool''" using assms(3) by (auto simp: chatMessageOf_def)
  qed
  moreover have "role (chatMessageOf media r) \<noteq> ''system''" using assms(3) by (auto simp: chatMessageOf_def)
  ultimately have "hasTranscript (repairMessages (systemMessage prompt # zs))"
    using z(2) unfolding hasTranscript_def list_ex_iff by blast
  then have "hasTranscript (repairMessages (systemMessage prompt # zs) @ map systemMessage ts)"
    by (simp add: hasTranscript_def)
  then show ?thesis using z(1) buildMessages_paired [OF assms(1), of prompt media overlays voice] by auto
qed

subsection \<open>Witnesses\<close>

definition sampleRow :: "string \<Rightarrow> string \<Rightarrow> row" where
  "sampleRow i r = \<lparr>rowId = i, rowRole = r, rowContent = ''hi'', rowBlocks = [], rowCalls = [],
     rowToolCallId = [], rowToolName = [], rowStop = [], rowResume = [], rowCoverage = False\<rparr>"

lemma prompt_is_usable_witness:
  "\<exists>ms. buildMessages ''You are'' (\<lambda>_. []) [] [] [Some (sampleRow ''1'' ''user'')] = Done ms \<and> hasTranscript ms"
  using prompt_is_usable [of "[Some (sampleRow ''1'' ''user'')]" "sampleRow ''1'' ''user''" "''You are''" "\<lambda>_. []" "[]" "[]"]
  by (auto simp: no_nil_def sampleRow_def)


end
