(* ===== verification/CompactionCut.thy ===== *)
theory CompactionCut
  imports Transcript
begin

text \<open>
  Where compaction cuts a prompt (\<open>internal/runners/compact.go\<close>, first half): the token estimates,
  the truncation of tool results and the boundary between the prefix that is summarized and the
  tail that is kept verbatim. Parsing and printing JSON text is an argument (\<open>codec\<close>); what the
  program does with the parsed value is modelled.
\<close>

subsection \<open>JSON values\<close>

datatype json =
    JNull | JBool bool | JNumber string | JString string
  | JArray "json list" | JObject "(string \<times> json) list"

record codec =
  decodeJson :: "string \<Rightarrow> json option"
  encodeJson :: "json \<Rightarrow> string option"

text \<open>
  \<open>strings.EqualFold(key, "details")\<close>: simple folding relates the seven letters to their capitals
  and the letter s also to U+017F.
\<close>

definition fold_details :: "rune \<Rightarrow> rune" where
  "fold_details r = (if 65 \<le> r \<and> r \<le> 90 then r + 32 else if r = 383 then 115 else r)"

definition isDetailsKey :: "string \<Rightarrow> bool" where
  "isDetailsKey k \<longleftrightarrow> map fold_details (runes k) = map of_char ''details''"

fun stripDetailsFields :: "json \<Rightarrow> json" where
  "stripDetailsFields (JObject kvs) =
     JObject (map (\<lambda>(k, v). (k, stripDetailsFields v)) (filter (\<lambda>(k, v). \<not> isDetailsKey k) kvs))"
| "stripDetailsFields (JArray vs) = JArray (map stripDetailsFields vs)"
| "stripDetailsFields v = v"

definition sanitizeToolResultForCompaction :: "codec \<Rightarrow> string \<Rightarrow> string" where
  "sanitizeToolResultForCompaction c t =
     (if t = [] then t
      else (case decodeJson c t of
              None \<Rightarrow> t
            | Some v \<Rightarrow> (case encodeJson c (stripDetailsFields v) of None \<Rightarrow> t | Some u \<Rightarrow> u)))"

subsection \<open>Token estimates\<close>

definition estimateTokens :: "string \<Rightarrow> nat" where
  "estimateTokens t = (length t + 3) div 4"

definition estimateMessageTokens :: "codec \<Rightarrow> chat_message \<Rightarrow> nat" where
  "estimateMessageTokens c m =
     (let t = contentText (content m) in
      estimateTokens (if role m = ''tool'' then sanitizeToolResultForCompaction c t else t) + 4
      + sum_list (map (\<lambda>tc. estimateTokens (callName tc) + estimateTokens (callArguments tc) + 4) (toolCalls m))
      + (if toolName m \<noteq> [] then estimateTokens (toolName m) else 0))"

record tool_definition =
  definitionName :: string
  definitionDescription :: string
  definitionParameters :: "json option"

definition estimateToolDefinitionsTokens :: "codec \<Rightarrow> tool_definition list \<Rightarrow> nat" where
  "estimateToolDefinitionsTokens c ds =
     sum_list (map (\<lambda>d. estimateTokens (definitionName d) + estimateTokens (definitionDescription d)
       + (case definitionParameters d of
            None \<Rightarrow> 0
          | Some p \<Rightarrow> estimateTokens (case encodeJson c p of None \<Rightarrow> [] | Some u \<Rightarrow> u))) ds)"

definition promptTokens :: "codec \<Rightarrow> chat_message list \<Rightarrow> nat" where
  "promptTokens c ms = sum_list (map (estimateMessageTokens c) ms)"

lemma estimateTokens_bounds: "length t \<le> 4 * estimateTokens t \<and> 4 * estimateTokens t \<le> length t + 3"
  by (simp add: estimateTokens_def)

lemma promptTokens_append [simp]: "promptTokens c (xs @ ys) = promptTokens c xs + promptTokens c ys"
  by (simp add: promptTokens_def)

lemma promptTokens_Nil [simp]: "promptTokens c [] = 0"
  by (simp add: promptTokens_def)

lemma promptTokens_Cons [simp]: "promptTokens c (m # ms) = estimateMessageTokens c m + promptTokens c ms"
  by (simp add: promptTokens_def)

subsection \<open>Truncating tool results\<close>

text \<open>The first three quarters and the last quarter of the limit; the limits in use are constants.\<close>

definition trimToolResultText :: "string \<Rightarrow> nat \<Rightarrow> string" where
  "trimToolResultText t maxChars =
     (if maxChars = 0 \<or> length t \<le> maxChars then t
      else (let headChars = (if maxChars * 3 div 4 = 0 then maxChars div 2 else maxChars * 3 div 4);
                tailChars = maxChars - headChars in
            take headChars t @ [CHR 0x0A] @ ''...'' @ [CHR 0x0A] @ last_n tailChars t
            @ [CHR 0x0A] @ ''... (truncated)''))"

definition clearedPlaceholder :: string where
  "clearedPlaceholder = ''[Old tool result content cleared due to context limits]''"

definition truncateToolResult :: "nat \<Rightarrow> chat_message \<Rightarrow> chat_message" where
  "truncateToolResult maxChars m =
     (case content m of
        Text t \<Rightarrow>
          if role m \<noteq> ''tool'' then m
          else if maxChars > 0 \<and> length t > maxChars * 4 then m\<lparr>content := Text clearedPlaceholder\<rparr>
          else if maxChars > 0 \<and> length t > maxChars then m\<lparr>content := Text (trimToolResultText t maxChars)\<rparr>
          else m
      | _ \<Rightarrow> m)"

definition truncateOldToolResults :: "chat_message list \<Rightarrow> nat \<Rightarrow> nat \<Rightarrow> chat_message list" where
  "truncateOldToolResults ms minKeep maxChars =
     (if length ms \<le> minKeep then ms
      else (let boundary = length ms - minKeep in
            map (truncateToolResult maxChars) (take boundary ms) @ drop boundary ms))"

definition truncateAllToolResults :: "chat_message list \<Rightarrow> nat \<Rightarrow> chat_message list" where
  "truncateAllToolResults ms maxChars = map (truncateToolResult maxChars) ms"

lemma length_trimToolResultText:
  "0 < n \<Longrightarrow> n < length t \<Longrightarrow> length (trimToolResultText t n) = n + 21"
  by (auto simp: trimToolResultText_def Let_def min_def)

lemma truncateToolResult_same [simp]:
  "role (truncateToolResult n m) = role m" "toolCalls (truncateToolResult n m) = toolCalls m"
  "toolCallId (truncateToolResult n m) = toolCallId m" "toolName (truncateToolResult n m) = toolName m"
  "sourceMessageId (truncateToolResult n m) = sourceMessageId m"
  by (auto simp: truncateToolResult_def split: content.split)

lemma answer_truncate:
  "(\<exists>t\<in>set (turn (map (truncateToolResult n) xs @ ys)). role t = ''tool'' \<and> toolCallId t = i) =
   (\<exists>t\<in>set (turn (xs @ ys)). role t = ''tool'' \<and> toolCallId t = i)"
  by (induction xs) (simp_all add: turn_def Bex_def ex_disj_distrib conj_disj_distribR)

lemma calls_answered_truncate:
  "calls_answered (map (truncateToolResult n) xs @ ys) = calls_answered (xs @ ys)"
  by (induction xs) (simp_all add: answer_truncate)

lemma results_announced_truncate:
  "results_announced A (map (truncateToolResult n) xs @ ys) = results_announced A (xs @ ys)"
  by (induction xs arbitrary: A) (simp_all add: Let_def)

lemma truncateToolResult_short:
  assumes "0 < n" and "role m = ''tool''" and "content (truncateToolResult n m) = Text t"
  shows "length t \<le> max (n + 21) (length clearedPlaceholder)"
  using assms by (auto simp: truncateToolResult_def length_trimToolResultText split: content.splits if_splits)

text \<open>Truncating old tool results changes neither the number of messages nor the pairing of tool calls
  and results, leaves the last messages and everything that is not a tool text as it was, and
  bounds every older tool text by the limit plus the marker.\<close>

theorem truncation_is_safe:
  assumes "0 < n"
  shows "let ms' = truncateOldToolResults ms k n in
    length ms' = length ms \<and> last_n k ms' = last_n k ms
    \<and> calls_answered ms' = calls_answered ms \<and> results_announced A ms' = results_announced A ms
    \<and> list_all2 (\<lambda>m m'. role m' = role m \<and> toolCalls m' = toolCalls m \<and> toolCallId m' = toolCallId m
          \<and> (role m \<noteq> ''tool'' \<longrightarrow> m' = m)) ms ms'
    \<and> list_all (\<lambda>m. role m = ''tool'' \<longrightarrow> (\<forall>t. content m = Text t \<longrightarrow>
          length t \<le> max (n + 21) (length clearedPlaceholder))) (take (length ms - k) ms')"
proof (cases "length ms \<le> k")
  case True
  then show ?thesis by (simp add: truncateOldToolResults_def list_all2_same)
next
  case False
  let ?xs = "take (length ms - k) ms" and ?ys = "drop (length ms - k) ms"
  have eq: "truncateOldToolResults ms k n = map (truncateToolResult n) ?xs @ ?ys"
    using False by (simp add: truncateOldToolResults_def Let_def)
  have other: "role m \<noteq> ''tool'' \<Longrightarrow> truncateToolResult n m = m" for m
    by (simp add: truncateToolResult_def split: content.split)
  have "list_all2 (\<lambda>m m'. role m' = role m \<and> toolCalls m' = toolCalls m \<and> toolCallId m' = toolCallId m
          \<and> (role m \<noteq> ''tool'' \<longrightarrow> m' = m)) (?xs @ ?ys) (map (truncateToolResult n) ?xs @ ?ys)"
    by (rule list_all2_appendI) (simp_all add: list_all2_conv_all_nth other)
  moreover have "calls_answered (map (truncateToolResult n) ?xs @ ?ys) = calls_answered ms"
    "results_announced A (map (truncateToolResult n) ?xs @ ?ys) = results_announced A ms"
    using calls_answered_truncate [of n ?xs ?ys] results_announced_truncate [of A n ?xs ?ys] by simp_all
  moreover have "last_n k (map (truncateToolResult n) ?xs @ ?ys) = last_n k ms"
    using False by (simp add: last_n_def)
  moreover have "list_all (\<lambda>m. role m = ''tool'' \<longrightarrow> (\<forall>t. content m = Text t \<longrightarrow>
          length t \<le> max (n + 21) (length clearedPlaceholder))) (map (truncateToolResult n) ?xs)"
    using truncateToolResult_short [OF assms] by (simp add: list_all_iff)
  ultimately show ?thesis unfolding eq Let_def using False by simp
qed

subsection \<open>The boundary of the verbatim tail\<close>

definition calls_tools :: "chat_message \<Rightarrow> bool" where
  "calls_tools m \<longleftrightarrow> role m = ''assistant'' \<and> toolCalls m \<noteq> []"

text \<open>
  The loop of \<open>findKeepBoundary\<close>, one decrement at a time: over a tool result, and then over an
  assistant message with tool calls in front of the boundary. An index past the last message
  panics (a target with nothing to keep).
\<close>

fun keepLoop :: "chat_message list \<Rightarrow> nat \<Rightarrow> nat outcome" where
  "keepLoop ms 0 = Done 0"
| "keepLoop ms (Suc n) =
     (if Suc n \<ge> length ms then Panics
      else if role (ms ! Suc n) = ''tool'' then keepLoop ms n
      else if calls_tools (ms ! n) then keepLoop ms n
      else Done (Suc n))"

definition findKeepBoundary :: "chat_message list \<Rightarrow> nat \<Rightarrow> nat outcome" where
  "findKeepBoundary ms minKeep =
     (if length ms \<le> minKeep then Done 0 else keepLoop ms (length ms - minKeep))"

fun expandLoop :: "codec \<Rightarrow> chat_message list \<Rightarrow> nat \<Rightarrow> nat \<Rightarrow> nat \<Rightarrow> nat" where
  "expandLoop c ms wanted 0 kept = 0"
| "expandLoop c ms wanted (Suc k) kept =
     (if Suc k > 1 \<and> kept < wanted then expandLoop c ms wanted k (kept + estimateMessageTokens c (ms ! k))
      else Suc k)"

definition expandKeepBoundaryForRecentTokens :: "codec \<Rightarrow> chat_message list \<Rightarrow> nat \<Rightarrow> nat \<Rightarrow> nat" where
  "expandKeepBoundaryForRecentTokens c ms k wanted =
     (if wanted = 0 \<or> k < 1 \<or> k \<ge> length ms then k
      else expandLoop c ms wanted k (promptTokens c (drop k ms)))"

definition computeKeepBoundary :: "codec \<Rightarrow> chat_message list \<Rightarrow> nat \<Rightarrow> nat \<Rightarrow> nat outcome" where
  "computeKeepBoundary c ms minKeep wanted =
     (if ms = [] then Panics
      else and_then (findKeepBoundary (tl ms) minKeep) (\<lambda>k0.
        let k = expandKeepBoundaryForRecentTokens c ms (k0 + 1) wanted in
        and_then (findKeepBoundary (tl ms) (length ms - k)) (\<lambda>k1. Done (k1 + 1))))"

definition splitForCompaction ::
  "codec \<Rightarrow> chat_message list \<Rightarrow> nat \<Rightarrow> (chat_message list \<times> chat_message list) outcome" where
  "splitForCompaction c ms minKeep =
     (if length ms < 2 then Done ([], [])
      else and_then (computeKeepBoundary c ms minKeep 0)
             (\<lambda>k. Done (tl (take k ms), drop k ms)))"

subsection \<open>Where the boundary lands\<close>

definition safe_cut :: "chat_message list \<Rightarrow> nat \<Rightarrow> bool" where
  "safe_cut ms k \<longleftrightarrow> k = 0 \<or> (k < length ms \<and> role (ms ! k) \<noteq> ''tool'' \<and> \<not> calls_tools (ms ! (k - 1)))"

lemma keepLoop_Done: "n < length ms \<Longrightarrow> \<exists>k. keepLoop ms n = Done k \<and> k \<le> n \<and> safe_cut ms k"
proof (induction n)
  case 0
  then show ?case by (simp add: safe_cut_def)
next
  case (Suc n)
  then obtain k where "keepLoop ms n = Done k" "k \<le> n" "safe_cut ms k" by auto
  with Suc.prems show ?case by (auto simp: safe_cut_def intro: le_SucI)
qed

lemma findKeepBoundary_Done:
  assumes "0 < minKeep"
  shows "\<exists>k. findKeepBoundary ms minKeep = Done k \<and> k \<le> length ms - minKeep \<and> safe_cut ms k"
proof (cases "length ms \<le> minKeep")
  case True
  then show ?thesis by (simp add: findKeepBoundary_def safe_cut_def)
next
  case False
  then show ?thesis using keepLoop_Done [of "length ms - minKeep" ms] assms
    by (simp add: findKeepBoundary_def)
qed

lemma expandLoop_bounds:
  "0 < k \<Longrightarrow> 1 \<le> expandLoop c ms w k t \<and> expandLoop c ms w k t \<le> k"
  by (induction k arbitrary: t) (auto intro: le_SucI)

lemma expandLoop_tokens:
  "0 < k \<Longrightarrow> k \<le> length ms \<Longrightarrow> t = promptTokens c (drop k ms) \<Longrightarrow>
   expandLoop c ms w k t = 1 \<or> w \<le> promptTokens c (drop (expandLoop c ms w k t) ms)"
proof (induction k arbitrary: t)
  case 0
  then show ?case by simp
next
  case (Suc k)
  show ?case
  proof (cases "0 < k \<and> t < w")
    case True
    have "drop k ms = ms ! k # drop (Suc k) ms" using Suc.prems by (simp add: Cons_nth_drop_Suc)
    then have "t + estimateMessageTokens c (ms ! k) = promptTokens c (drop k ms)" using Suc.prems by simp
    then show ?thesis using Suc True by simp
  next
    case False
    then show ?thesis using Suc.prems by auto
  qed
qed

lemma promptTokens_drop_mono: "j \<le> k \<Longrightarrow> promptTokens c (drop k ms) \<le> promptTokens c (drop j ms)"
proof -
  assume "j \<le> k"
  then have "drop j ms = take (k - j) (drop j ms) @ drop k ms"
    by (metis append_take_drop_id drop_drop le_add_diff_inverse2)
  then show ?thesis by (metis le_add2 promptTokens_append)
qed

lemma expandKeepBoundary_bounds:
  assumes "1 \<le> k" and "k \<le> length ms"
  shows "1 \<le> expandKeepBoundaryForRecentTokens c ms k w \<and> expandKeepBoundaryForRecentTokens c ms k w \<le> k
    \<and> (k < length ms \<longrightarrow> expandKeepBoundaryForRecentTokens c ms k w = 1
         \<or> w \<le> promptTokens c (drop (expandKeepBoundaryForRecentTokens c ms k w) ms))"
  using expandLoop_bounds [of k c ms w "promptTokens c (drop k ms)"]
    expandLoop_tokens [of k ms "promptTokens c (drop k ms)" c w] assms
  by (simp add: expandKeepBoundaryForRecentTokens_def)

lemma computeKeepBoundary_Done:
  assumes "ms \<noteq> []" and "0 < minKeep"
  shows "\<exists>k. computeKeepBoundary c ms minKeep wanted = Done (Suc k)
    \<and> Suc k \<le> max 1 (length ms - minKeep)
    \<and> (k = 0 \<or> wanted \<le> promptTokens c (drop (Suc k) ms))
    \<and> safe_cut (tl ms) k"
proof -
  obtain k0 where k0: "findKeepBoundary (tl ms) minKeep = Done k0" "k0 \<le> length (tl ms) - minKeep"
    using findKeepBoundary_Done [OF assms(2)] by blast
  define k where "k = expandKeepBoundaryForRecentTokens c ms (Suc k0) wanted"
  have len: "k0 + 1 \<le> max 1 (length ms - minKeep)" using k0(2) by simp
  have "k0 + 1 \<le> length ms" using len assms(1) by (cases ms) auto
  note e = expandKeepBoundary_bounds [OF _ this, of c wanted, simplified, folded k_def]
  have small: "k = 1 \<or> wanted \<le> promptTokens c (drop k ms)"
  proof (cases "k0 + 1 < length ms")
    case True
    then show ?thesis using e by simp
  next
    case False
    then have "k0 = 0" using len assms(2) by (cases "length ms - minKeep") auto
    then show ?thesis using e by simp
  qed
  show ?thesis
  proof (cases "k < length ms")
    case True
    then obtain k1 where k1: "findKeepBoundary (tl ms) (length ms - k) = Done k1"
        "k1 \<le> length (tl ms) - (length ms - k)" "safe_cut (tl ms) k1"
      using findKeepBoundary_Done [of "length ms - k" "tl ms"] by auto
    have le: "Suc k1 \<le> k" using k1(2) True e by simp linarith
    have "computeKeepBoundary c ms minKeep wanted = Done (Suc k1)"
      using assms(1) k0(1) k1(1) by (simp add: computeKeepBoundary_def k_def [symmetric])
    moreover have "k1 = 0 \<or> wanted \<le> promptTokens c (drop (Suc k1) ms)"
      using small le promptTokens_drop_mono [OF le, of c ms] e by auto
    ultimately show ?thesis using le e len k1(3) by auto
  next
    case False
    have "0 < length ms" using assms(1) by simp
    with False e len assms(2) have one: "length ms = 1" "k = 1" "k0 = 0" by linarith+
    then have "tl ms = []" by (cases ms) simp_all
    then have "computeKeepBoundary c ms minKeep wanted = Done (Suc 0)"
      using assms(1) k0(1) one by (simp add: computeKeepBoundary_def k_def [symmetric] findKeepBoundary_def)
    then show ?thesis by (auto simp: safe_cut_def)
  qed
qed

text \<open>C6: The compaction boundary keeps at least the wanted number of messages and of recent tokens (or
  everything behind the system prompt) and never lands between an assistant message with tool
  calls and the results behind it; the computation never panics while one message is to be kept.\<close>

theorem boundary_is_pairing_safe:
  assumes "ms \<noteq> []" and "0 < minKeep"
  shows "\<exists>k. computeKeepBoundary c ms minKeep wanted = Done k
    \<and> 1 \<le> k \<and> k \<le> max 1 (length ms - minKeep)
    \<and> (k = 1 \<or> wanted \<le> promptTokens c (drop k ms))
    \<and> (k = 1 \<or> role (ms ! k) \<noteq> ''tool'' \<and> \<not> calls_tools (ms ! (k - 1)))"
proof -
  obtain k where k: "computeKeepBoundary c ms minKeep wanted = Done (Suc k)"
      "Suc k \<le> max 1 (length ms - minKeep)" "k = 0 \<or> wanted \<le> promptTokens c (drop (Suc k) ms)"
      "safe_cut (tl ms) k"
    using computeKeepBoundary_Done [OF assms] by blast
  have "k = 0 \<or> role (ms ! Suc k) \<noteq> ''tool'' \<and> \<not> calls_tools (ms ! k)"
    using k(4) assms(1) by (cases ms) (auto simp: safe_cut_def nth_Cons')
  with k show ?thesis by auto
qed

text \<open>
  \<open>grouped\<close>: every identified tool result stands in the unbroken run of tool results behind an
  assistant message that announced it, which is where the runner and the repair pass put them.
\<close>

fun grouped :: "string set \<Rightarrow> chat_message list \<Rightarrow> bool" where
  "grouped announced [] = True"
| "grouped announced (m # ms) =
     (if role m = ''tool'' then (toolCallId m = [] \<or> toolCallId m \<in> announced) \<and> grouped announced ms
      else grouped (callId ` set (toolCalls m)) ms)"

lemma grouped_announced: "grouped A ms \<Longrightarrow> A \<subseteq> B \<Longrightarrow> results_announced B ms"
proof (induction ms arbitrary: A B)
  case Nil
  then show ?case by simp
next
  case (Cons m ms)
  show ?case
  proof (cases "role m = ''tool''")
    case True
    then show ?thesis using Cons.prems Cons.IH [of A "B \<union> callId ` set (toolCalls m)"] by (auto simp: Let_def)
  next
    case False
    then show ?thesis using Cons.prems Cons.IH [of "callId ` set (toolCalls m)" "B \<union> callId ` set (toolCalls m)"]
      by (simp add: Let_def)
  qed
qed

lemma grouped_drop:
  "grouped A ms \<Longrightarrow> k < length ms \<Longrightarrow> role (ms ! k) \<noteq> ''tool'' \<Longrightarrow> grouped B (drop k ms)"
proof (induction ms arbitrary: A k)
  case Nil
  then show ?case by simp
next
  case (Cons m ms)
  show ?case
  proof (cases k)
    case 0
    then show ?thesis using Cons.prems by simp
  next
    case (Suc j)
    then show ?thesis using Cons.prems Cons.IH [of A j] Cons.IH [of "callId ` set (toolCalls m)" j]
      by (simp split: if_splits)
  qed
qed

text \<open>Cutting a prompt at the compaction boundary never orphans a tool result: in the tail kept
  verbatim every identified tool result still has its assistant message before it.\<close>

theorem kept_tail_is_paired:
  assumes "grouped {} (p # ms)" and "role p = ''system''" and "toolCalls p = []" and "0 < minKeep"
  shows "\<exists>k. computeKeepBoundary c (p # ms) minKeep wanted = Done k
    \<and> grouped {} (drop k (p # ms)) \<and> dropUnpairedToolResults (drop k (p # ms)) = drop k (p # ms)"
proof -
  obtain k where k: "computeKeepBoundary c (p # ms) minKeep wanted = Done (Suc k)" "safe_cut ms k"
    using computeKeepBoundary_Done [of "p # ms" minKeep c wanted] assms(4) by auto
  have "grouped {} ms" using assms(1-3) by simp
  then have "grouped {} (drop k ms)" using k(2) grouped_drop [of "{}" ms k "{}"] by (auto simp: safe_cut_def)
  then show ?thesis
    using k(1) dropUnpaired_id [OF grouped_announced] by (auto simp: dropUnpairedToolResults_def)
qed

subsection \<open>Witnesses\<close>

definition plainMessage :: "string \<Rightarrow> string \<Rightarrow> chat_message" where
  "plainMessage r t = \<lparr>role = r, content = Text t, toolCalls = [], toolCallId = [], toolName = [], sourceMessageId = []\<rparr>"

definition rawCodec :: codec where
  "rawCodec = \<lparr>decodeJson = (\<lambda>t. None), encodeJson = (\<lambda>v. None)\<rparr>"

definition samplePrompt :: "chat_message list" where
  "samplePrompt = [plainMessage ''user'' ''hello'', sampleCallMessage,
     syntheticResult \<lparr>callId = ''t'', callName = ''exec'', callArguments = []\<rparr>, plainMessage ''assistant'' ''done'']"

lemma truncation_is_safe_witness:
  "length (truncateOldToolResults [plainMessage ''tool'' ''0123456789'', plainMessage ''user'' ''hi''] 1 4) = 2"
  using truncation_is_safe [of 4 "[plainMessage ''tool'' ''0123456789'', plainMessage ''user'' ''hi'']" 1 "{}"]
  by (simp add: Let_def)

lemma boundary_is_pairing_safe_witness:
  "\<exists>k. computeKeepBoundary rawCodec (plainMessage ''system'' ''s'' # samplePrompt) 2 0 = Done k \<and> k \<le> 3"
  using boundary_is_pairing_safe [of "plainMessage ''system'' ''s'' # samplePrompt" 2 rawCodec 0]
  by (auto simp: samplePrompt_def)

lemma kept_tail_is_paired_witness:
  "\<exists>k. computeKeepBoundary rawCodec (plainMessage ''system'' ''s'' # samplePrompt) 2 0 = Done k
     \<and> grouped {} (drop k (plainMessage ''system'' ''s'' # samplePrompt))"
  using kept_tail_is_paired [of "plainMessage ''system'' ''s''" samplePrompt 2 rawCodec 0]
  by (auto simp: samplePrompt_def plainMessage_def sampleCallMessage_def syntheticResult_def)

end
