(* ===== verification/CompactionSummary.thy ===== *)
theory CompactionSummary
  imports CompactionCut
begin

text \<open>
  What compaction writes instead of the prefix (\<open>internal/runners/compact.go\<close>, second half, with
  the prompt constants of \<open>internal/prompts/prompts.go\<close>): the text of the messages, the structured
  summary and its merge, the summarizer in stages and its fallbacks, \<open>summarizeAndPersist\<close> and
  \<open>compressContext\<close>. The summarizer model is an argument that answers the n-th request with an
  error or with the contents of its choices; the lower-casing of Unicode text and the decoding
  of a JSON summary are arguments too.
\<close>

subsection \<open>The text of messages\<close>

definition messageLine :: "codec \<Rightarrow> nat \<Rightarrow> chat_message \<Rightarrow> string" where
  "messageLine c maxMessage m =
     (let label = (if role m = ''tool'' \<and> toolName m \<noteq> [] then ''tool('' @ toolName m @ '')'' else role m);
          t = contentText (content m);
          u = (if role m = ''tool'' then sanitizeToolResultForCompaction c t else t);
          v = (if maxMessage > 0 \<and> length u > maxMessage then take maxMessage u @ ''...'' else u) in
      ''['' @ label @ '']: '' @ v @ [CHR 0x0A])"

text \<open>The lines from the newest message back, until the total is reached; the last one is cut.\<close>

fun collectLines :: "codec \<Rightarrow> nat \<Rightarrow> nat \<Rightarrow> nat \<Rightarrow> chat_message list \<Rightarrow> string list" where
  "collectLines c maxTotal maxMessage used [] = []"
| "collectLines c maxTotal maxMessage used (m # ms) =
     (let line = messageLine c maxMessage m in
      if maxTotal > 0 \<and> used + length line > maxTotal
      then (if maxTotal > used then [take (maxTotal - used) line] else [])
      else line # collectLines c maxTotal maxMessage (used + length line) ms)"

definition chatMessagesText :: "codec \<Rightarrow> chat_message list \<Rightarrow> nat \<Rightarrow> nat \<Rightarrow> string" where
  "chatMessagesText c ms maxTotal maxMessage = concat (rev (collectLines c maxTotal maxMessage 0 (rev ms)))"

subsection \<open>Structured summaries\<close>

record critical_facts =
  decisions :: "string list"
  todos :: "string list"
  constraints :: "string list"
  userPreferences :: "string list"
  openQuestions :: "string list"

record structured_summary =
  summary :: string
  facts :: critical_facts

definition noFacts :: critical_facts where
  "noFacts = \<lparr>decisions = [], todos = [], constraints = [], userPreferences = [], openQuestions = []\<rparr>"

definition plainSummary :: "string \<Rightarrow> structured_summary" where
  "plainSummary t = \<lparr>summary = t, facts = noFacts\<rparr>"

fun uniqueLines :: "(string \<Rightarrow> string) \<Rightarrow> string set \<Rightarrow> string list \<Rightarrow> string list" where
  "uniqueLines lower seen [] = []"
| "uniqueLines lower seen (x # xs) =
     (if x = [] then uniqueLines lower seen xs
      else if lower x \<in> seen then uniqueLines lower seen xs
      else x # uniqueLines lower (insert (lower x) seen) xs)"

definition normalizeFactLines :: "(string \<Rightarrow> string) \<Rightarrow> string list \<Rightarrow> string list" where
  "normalizeFactLines lower xs = take 8 (uniqueLines lower {} xs)"

definition normalizeStructuredSummary :: "(string \<Rightarrow> string) \<Rightarrow> structured_summary \<Rightarrow> structured_summary" where
  "normalizeStructuredSummary lower s =
     \<lparr>summary = trim_space (summary s),
      facts = \<lparr>decisions = normalizeFactLines lower (decisions (facts s)),
               todos = normalizeFactLines lower (todos (facts s)),
               constraints = normalizeFactLines lower (constraints (facts s)),
               userPreferences = normalizeFactLines lower (userPreferences (facts s)),
               openQuestions = normalizeFactLines lower (openQuestions (facts s))\<rparr>\<rparr>"

definition factSection :: "string \<Rightarrow> string list \<Rightarrow> string" where
  "factSection title ls =
     (if ls = [] then []
      else title @ '':'' @ [CHR 0x0A] @ concat (map (\<lambda>l. ''- '' @ l @ [CHR 0x0A]) ls))"

definition formatStructuredSummary :: "(string \<Rightarrow> string) \<Rightarrow> structured_summary \<Rightarrow> string" where
  "formatStructuredSummary lower s =
     (let n = normalizeStructuredSummary lower s; f = facts n;
          t = (if summary n = [] then ''Context summary unavailable.'' else summary n) in
      if decisions f = [] \<and> todos f = [] \<and> constraints f = [] \<and> userPreferences f = [] \<and> openQuestions f = []
      then t
      else t @ [CHR 0x0A, CHR 0x0A] @ ''Critical facts:'' @ [CHR 0x0A]
        @ factSection ''Decisions'' (decisions f) @ factSection ''Todos'' (todos f)
        @ factSection ''Constraints'' (constraints f) @ factSection ''User preferences'' (userPreferences f)
        @ factSection ''Open questions'' (openQuestions f))"

definition mergeStructuredSummaries ::
  "(string \<Rightarrow> string) \<Rightarrow> structured_summary \<Rightarrow> structured_summary \<Rightarrow> structured_summary" where
  "mergeStructuredSummaries lower b i = normalizeStructuredSummary lower
     \<lparr>summary = (if summary i = [] then summary b else summary i),
      facts = \<lparr>decisions = decisions (facts b) @ decisions (facts i),
               todos = todos (facts b) @ todos (facts i),
               constraints = constraints (facts b) @ constraints (facts i),
               userPreferences = userPreferences (facts b) @ userPreferences (facts i),
               openQuestions = openQuestions (facts b) @ openQuestions (facts i)\<rparr>\<rparr>"

subsection \<open>Chunks\<close>

fun chunkLoop :: "codec \<Rightarrow> nat \<Rightarrow> chat_message list \<Rightarrow> nat \<Rightarrow> chat_message list \<Rightarrow> chat_message list list" where
  "chunkLoop c budget chunk tokens [] = (if chunk \<noteq> [] then [chunk] else [])"
| "chunkLoop c budget chunk tokens (m # ms) =
     (let t = estimateMessageTokens c m in
      if chunk \<noteq> [] \<and> tokens + t > budget then chunk # chunkLoop c budget [m] t ms
      else chunkLoop c budget (chunk @ [m]) (tokens + t) ms)"

definition splitMessagesByTokenBudget :: "codec \<Rightarrow> chat_message list \<Rightarrow> nat \<Rightarrow> chat_message list list" where
  "splitMessagesByTokenBudget c ms maxTokens =
     (if ms = [] then [] else chunkLoop c (if maxTokens = 0 then 12000 else maxTokens) [] 0 ms)"

lemma chunkLoop_concat: "concat (chunkLoop c b chunk t ms) = chunk @ ms"
  by (induction c b chunk t ms rule: chunkLoop.induct) (simp_all add: Let_def)

lemma chunkLoop_budget:
  assumes "t = promptTokens c chunk" and "length chunk \<le> 1 \<or> t \<le> b"
  shows "\<forall>x\<in>set (chunkLoop c b chunk t ms). x \<noteq> [] \<and> (length x = 1 \<or> promptTokens c x \<le> b)"
  using assms
proof (induction c b chunk t ms rule: chunkLoop.induct)
  case (1 c b chunk t)
  then show ?case by (cases chunk) auto
next
  case (2 c b chunk t m ms)
  then show ?case by (cases chunk) (auto simp: Let_def le_Suc_eq)
qed

lemma chunkLoop_head:
  "chunk \<noteq> [] \<Longrightarrow> \<exists>ys rest. chunkLoop c b chunk t ms = (chunk @ ys) # rest"
proof (induction ms arbitrary: chunk t)
  case Nil
  then show ?case by simp
next
  case (Cons m ms)
  from Cons.IH [of "chunk @ [m]" "t + estimateMessageTokens c m"] Cons.prems show ?case
    by (auto simp: Let_def)
qed

text \<open>Two neighbouring chunks could not have been one message less apart.\<close>

fun chunks_maximal :: "codec \<Rightarrow> nat \<Rightarrow> chat_message list list \<Rightarrow> bool" where
  "chunks_maximal c b (x # y # zs) \<longleftrightarrow>
     b < promptTokens c x + estimateMessageTokens c (hd y) \<and> chunks_maximal c b (y # zs)"
| "chunks_maximal c b _ \<longleftrightarrow> True"

lemma chunkLoop_maximal:
  "t = promptTokens c chunk \<Longrightarrow> chunks_maximal c b (chunkLoop c b chunk t ms)"
proof (induction c b chunk t ms rule: chunkLoop.induct)
  case (1 c b chunk t)
  then show ?case by simp
next
  case (2 c b chunk t m ms)
  obtain ys rest where r: "chunkLoop c b [m] (estimateMessageTokens c m) ms = ([m] @ ys) # rest"
    using chunkLoop_head [of "[m]" c b "estimateMessageTokens c m" ms] by auto
  show ?case
  proof (cases "chunk \<noteq> [] \<and> t + estimateMessageTokens c m > b")
    case True
    then show ?thesis using 2 r by (simp add: Let_def)
  next
    case False
    then show ?thesis using 2 by (auto simp: Let_def)
  qed
qed

text \<open>Splitting a prompt by a token budget loses, repeats and reorders nothing, makes no empty chunk,
  keeps every chunk of two or more messages within the budget, and starts a new chunk only when
  the next message would have exceeded it.\<close>

theorem chunks_partition_the_prompt:
  "let b = (if maxTokens = 0 then 12000 else maxTokens); chunks = splitMessagesByTokenBudget c ms maxTokens in
   concat chunks = ms \<and> [] \<notin> set chunks \<and> chunks_maximal c b chunks
   \<and> list_all (\<lambda>x. length x = 1 \<or> promptTokens c x \<le> b) chunks"
proof -
  define b where "b = (if maxTokens = 0 then 12000 else maxTokens)"
  have "splitMessagesByTokenBudget c ms maxTokens = chunkLoop c b [] 0 ms"
    by (simp add: splitMessagesByTokenBudget_def b_def)
  then show ?thesis
    using chunkLoop_concat [of c b "[]" 0 ms] chunkLoop_budget [of 0 c "[]" b ms]
      chunkLoop_maximal [of 0 c "[]" b ms]
    unfolding Let_def b_def [symmetric] by (auto simp: list_all_iff)
qed

subsection \<open>Bounds on the text and on the fact lines\<close>

lemma collectLines_bound:
  "0 < mt \<Longrightarrow> used \<le> mt \<Longrightarrow> used + length (concat (collectLines c mt mm used ms)) \<le> mt"
proof (induction c mt mm used ms rule: collectLines.induct)
  case (1 c mt mm used)
  then show ?case by simp
next
  case (2 c mt mm used m ms)
  then show ?case by (auto simp: Let_def)
qed

lemma collectLines_all:
  "mt = 0 \<or> used + length (concat (map (messageLine c mm) ms)) \<le> mt \<Longrightarrow>
   collectLines c mt mm used ms = map (messageLine c mm) ms"
proof (induction c mt mm used ms rule: collectLines.induct)
  case (1 c mt mm used)
  then show ?case by simp
next
  case (2 c mt mm used m ms)
  then show ?case by (auto simp: Let_def)
qed

lemma length_concat_rev: "length (concat (rev xs)) = length (concat xs)"
  by (simp add: length_concat rev_map [symmetric])

text \<open>The text handed to the summarizer never exceeds a positive limit, and when everything fits (or
  there is no limit) it is the lines of all messages in their order.\<close>

theorem messages_text_bounded:
  "(maxTotal = 0 \<or> length (chatMessagesText c ms maxTotal maxMessage) \<le> maxTotal)
   \<and> (chatMessagesText c ms maxTotal maxMessage = concat (map (messageLine c maxMessage) ms)
      \<or> maxTotal \<noteq> 0 \<and> maxTotal < length (concat (map (messageLine c maxMessage) ms)))"
proof -
  have "length (concat (map (messageLine c maxMessage) (rev ms))) = length (concat (map (messageLine c maxMessage) ms))"
    by (metis length_concat_rev rev_map)
  then have "chatMessagesText c ms maxTotal maxMessage = concat (map (messageLine c maxMessage) ms)"
    if "maxTotal = 0 \<or> length (concat (map (messageLine c maxMessage) ms)) \<le> maxTotal"
    using collectLines_all [of maxTotal 0 c maxMessage "rev ms"] that
    by (simp add: chatMessagesText_def rev_map)
  moreover have "maxTotal = 0 \<or> length (chatMessagesText c ms maxTotal maxMessage) \<le> maxTotal"
    using collectLines_bound [of maxTotal 0 c maxMessage "rev ms"]
    by (auto simp: chatMessagesText_def length_concat_rev)
  ultimately show ?thesis by (meson not_le_imp_less)
qed

lemma uniqueLines_subseq: "subseq (uniqueLines lower seen xs) xs"
  by (induction lower seen xs rule: uniqueLines.induct) auto

lemma uniqueLines_new:
  "distinct (map lower (uniqueLines lower seen xs))
   \<and> lower ` set (uniqueLines lower seen xs) \<inter> seen = {} \<and> [] \<notin> set (uniqueLines lower seen xs)"
  by (induction lower seen xs rule: uniqueLines.induct) auto

lemma uniqueLines_id:
  "distinct (map lower xs) \<Longrightarrow> lower ` set xs \<inter> seen = {} \<Longrightarrow> [] \<notin> set xs \<Longrightarrow> uniqueLines lower seen xs = xs"
  by (induction xs arbitrary: seen) auto

lemma uniqueLines_covers:
  "x \<in> set xs \<Longrightarrow> x \<noteq> [] \<Longrightarrow> lower x \<in> seen \<union> lower ` set (uniqueLines lower seen xs)"
  by (induction lower seen xs rule: uniqueLines.induct) auto

text \<open>Normalizing fact lines keeps at most eight lines, in their order, none of them empty and no two
  equal up to case; below eight, every line that is not empty is still represented; and
  normalizing again changes nothing.\<close>

theorem fact_lines_normal:
  "let ys = normalizeFactLines lower xs in
   length ys \<le> 8 \<and> subseq ys xs \<and> [] \<notin> set ys \<and> distinct (map lower ys)
   \<and> (length ys = 8 \<or> lower ` (set xs - {[]}) = lower ` set ys)
   \<and> normalizeFactLines lower ys = ys"
proof -
  let ?us = "uniqueLines lower {} xs"
  have "subseq (take 8 ?us) xs"
    using uniqueLines_subseq [of lower "{}" xs] subseq_order.trans [of "take 8 ?us" ?us xs]
      take_is_prefix prefix_imp_subseq by blast
  moreover have d: "distinct (map lower (take 8 ?us))" "[] \<notin> set (take 8 ?us)"
    using uniqueLines_new [of lower "{}" xs] distinct_take [of "map lower ?us" 8] set_take_subset [of 8 ?us]
    by (auto simp: take_map)
  moreover have "lower ` (set xs - {[]}) = lower ` set (take 8 ?us)" if "length (take 8 ?us) \<noteq> 8"
  proof -
    have "take 8 ?us = ?us" using that by simp
    moreover have "set ?us \<subseteq> set xs" using list_emb_set [OF uniqueLines_subseq] by blast
    moreover have "[] \<notin> set ?us" using uniqueLines_new by blast
    ultimately show ?thesis using uniqueLines_covers [of _ xs lower "{}"] by auto
  qed
  moreover have "normalizeFactLines lower (take 8 ?us) = take 8 ?us"
    using uniqueLines_id [OF d(1) _ d(2), of "{}"] by (simp add: normalizeFactLines_def)
  moreover have "length (take 8 ?us) \<le> 8" by simp
  ultimately show ?thesis unfolding normalizeFactLines_def Let_def by blast
qed

subsection \<open>The summarizer\<close>

definition noPriorHistory :: string where
  "noPriorHistory = ''No prior history.''"

definition buildStructuredSummaryUserPrompt :: "string \<Rightarrow> string \<Rightarrow> string \<Rightarrow> string" where
  "buildStructuredSummaryUserPrompt previous focus chunk =
     (let nl = [CHR 0x0A]; q = [CHR 0x22]; arr = (\<lambda>k. q @ k @ q @ '':['' @ q @ ''...'' @ q @ '']'') in
      ''Summarize the provided conversation chunk. Return JSON only with this schema:'' @ nl
      @ ''{'' @ q @ ''summary'' @ q @ '':'' @ q @ ''...'' @ q @ '', '' @ q @ ''criticalFacts'' @ q @ '':{''
      @ arr ''decisions'' @ '','' @ arr ''todos'' @ '','' @ arr ''constraints'' @ '',''
      @ arr ''userPreferences'' @ '','' @ arr ''openQuestions'' @ ''}}''
      @ nl @ nl @ ''Requirements:'' @ nl
      @ ''- Keep summary under 500 words.'' @ nl
      @ ''- Keep criticalFacts concise and factual.'' @ nl
      @ ''- Include unresolved tasks in todos/openQuestions.'' @ nl
      @ (if focus \<noteq> [] then ''- Additional focus: '' @ focus @ nl else [])
      @ (if previous \<noteq> [] then nl @ ''Previous merged summary for continuity:'' @ nl @ previous @ nl else [])
      @ nl @ ''Conversation chunk:'' @ nl @ chunk)"

record summarizer =
  answerRequest :: "nat \<Rightarrow> chat_message list \<Rightarrow> content list option"
  decodeSummary :: "string \<Rightarrow> structured_summary option"
  lowerText :: "string \<Rightarrow> string"
  jsonText :: codec

definition parseStructuredSummaryResponse :: "summarizer \<Rightarrow> string \<Rightarrow> structured_summary" where
  "parseStructuredSummaryResponse z raw =
     (if raw = [] then plainSummary []
      else (let t = (if has_prefix raw ''```''
                     then trim_space (trim_suffix (trim_prefix (trim_prefix raw ''```json'') ''```'') ''```'')
                     else raw) in
            (case decodeSummary z t of
               Some s \<Rightarrow> normalizeStructuredSummary (lowerText z) s
             | None \<Rightarrow>
                 (case (index_byte t (CHR ''{''), last_index_byte t (CHR ''}'')) of
                    (Some i, Some j) \<Rightarrow>
                      if j > i then
                        (case decodeSummary z (drop i (take (j + 1) t)) of
                           Some s \<Rightarrow> normalizeStructuredSummary (lowerText z) s
                         | None \<Rightarrow> plainSummary raw)
                      else plainSummary raw
                  | _ \<Rightarrow> plainSummary raw))))"

definition userMessage :: "string \<Rightarrow> chat_message" where
  "userMessage t = (systemMessage t)\<lparr>role := ''user''\<rparr>"

text \<open>One request: the summary or an error, and the number of requests made so far.\<close>

definition summarizeChunk ::
  "summarizer \<Rightarrow> nat \<Rightarrow> string \<Rightarrow> string \<Rightarrow> string \<Rightarrow> structured_summary option \<times> nat" where
  "summarizeChunk z n chunk previous focus =
     (if chunk = [] then (Some (plainSummary []), n)
      else (case answerRequest z n
                   [systemMessage ''You produce compact, faithful conversation state for long-running agents.'',
                    userMessage (buildStructuredSummaryUserPrompt previous focus chunk)] of
              None \<Rightarrow> (None, n + 1)
            | Some [] \<Rightarrow> (None, n + 1)
            | Some (a # as) \<Rightarrow>
                if contentText a = [] then (None, n + 1)
                else (Some (parseStructuredSummaryResponse z (contentText a)), n + 1)))"

fun stageLoop ::
  "summarizer \<Rightarrow> string \<Rightarrow> nat \<Rightarrow> structured_summary \<Rightarrow> chat_message list list \<Rightarrow>
   structured_summary option \<times> nat" where
  "stageLoop z focus n merged [] = (Some (normalizeStructuredSummary (lowerText z) merged), n)"
| "stageLoop z focus n merged (chunk # chunks) =
     (case summarizeChunk z n (chatMessagesText (jsonText z) chunk 0 2000)
             (formatStructuredSummary (lowerText z) merged) focus of
        (None, n') \<Rightarrow> (None, n')
      | (Some s, n') \<Rightarrow> stageLoop z focus n' (mergeStructuredSummaries (lowerText z) merged s) chunks)"

definition chunkBudget :: "nat \<Rightarrow> nat" where
  "chunkBudget window = min 12000 (max 2000 (window div 3))"

definition summarizeMessagesInStages ::
  "summarizer \<Rightarrow> nat \<Rightarrow> chat_message list \<Rightarrow> nat \<Rightarrow> string \<Rightarrow> structured_summary option \<times> nat" where
  "summarizeMessagesInStages z n ms window focus =
     (if ms = [] then (Some (plainSummary noPriorHistory), n)
      else stageLoop z focus n (plainSummary [])
             (splitMessagesByTokenBudget (jsonText z) ms (chunkBudget window)))"

definition buildLastMessagesFallback :: "codec \<Rightarrow> chat_message list \<Rightarrow> structured_summary" where
  "buildLastMessagesFallback c ms =
     (if ms = [] then plainSummary noPriorHistory
      else (let t = chatMessagesText c (last_n (min 8 (length ms)) ms) 4000 500 in
            plainSummary (''Context summary degraded due to size limits. Preserved recent turns:'' @ [CHR 0x0A]
              @ (if t = [] then ''Recent context unavailable.'' else t))))"

definition describeOmittedMessage :: "chat_message \<Rightarrow> nat \<Rightarrow> string" where
  "describeOmittedMessage m tokens =
     (if role m = ''tool'' \<and> toolName m \<noteq> []
      then role m @ '' result from '' @ toolName m @ '' (~'' @ decimal tokens @ '' tokens)''
      else role m @ '' message (~'' @ decimal tokens @ '' tokens)'')"

definition trim_right_newlines :: "string \<Rightarrow> string" where
  "trim_right_newlines s = rev (dropWhile (\<lambda>c. c = CHR 0x0A) (rev s))"

definition appendOmissionNotes :: "(string \<Rightarrow> string) \<Rightarrow> string \<Rightarrow> string list \<Rightarrow> string" where
  "appendOmissionNotes lower s omissions =
     (if omissions = [] then s
      else (let named = normalizeFactLines lower omissions;
                remaining = length omissions - length named in
            trim_right_newlines
              (s @ [CHR 0x0A, CHR 0x0A] @ ''Too large to summarize, omitted from this summary:'' @ [CHR 0x0A]
               @ concat (map (\<lambda>l. ''- '' @ l @ [CHR 0x0A]) named)
               @ (if remaining > 0 then ''- and '' @ decimal remaining @ '' more'' @ [CHR 0x0A] else []))))"

definition oversizedThreshold :: "nat \<Rightarrow> nat" where
  "oversizedThreshold window =
     max 2000 (if window > 0 \<and> window div 4 < 8000 then window div 4 else 8000)"

definition omittedNotes :: "codec \<Rightarrow> nat \<Rightarrow> chat_message list \<Rightarrow> string list" where
  "omittedNotes c limit ms =
     map (\<lambda>m. describeOmittedMessage m (estimateMessageTokens c m))
       (filter (\<lambda>m. estimateMessageTokens c m > limit) ms)"

definition summarizeMessagesWithFallback ::
  "summarizer \<Rightarrow> nat \<Rightarrow> chat_message list \<Rightarrow> nat \<Rightarrow> string \<Rightarrow> structured_summary \<times> bool \<times> nat" where
  "summarizeMessagesWithFallback z n ms window focus =
     (let c = jsonText z; limit = oversizedThreshold window;
          (full, n1) = summarizeMessagesInStages z n ms window focus;
          small = filter (\<lambda>m. estimateMessageTokens c m \<le> limit) ms;
          (part, n2) = (if small \<noteq> [] then summarizeMessagesInStages z n1 small window focus else (None, n1));
          degraded = (buildLastMessagesFallback c ms, True, n2);
          second = (case part of
                      Some p \<Rightarrow> if summary p \<noteq> []
                                then (p\<lparr>summary := appendOmissionNotes (lowerText z) (summary p) (omittedNotes c limit ms)\<rparr>,
                                      False, n2)
                                else degraded
                    | None \<Rightarrow> degraded) in
      (case full of
         Some s \<Rightarrow> if summary s \<noteq> [] then (s, False, n1) else second
       | None \<Rightarrow> second))"

lemma summarizeChunk_count: "summarizeChunk z n t p f = (r, n') \<Longrightarrow> n \<le> n' \<and> n' \<le> Suc n"
  by (auto simp: summarizeChunk_def split: if_splits option.splits list.splits)

lemma stageLoop_count:
  "stageLoop z f n merged chunks = (r, n') \<Longrightarrow> n \<le> n' \<and> n' \<le> n + length chunks"
proof (induction z f n merged chunks arbitrary: r n' rule: stageLoop.induct)
  case (1 z f n merged)
  then show ?case by simp
next
  case (2 z f n merged chunk chunks)
  obtain s m where m: "summarizeChunk z n (chatMessagesText (jsonText z) chunk 0 2000)
      (formatStructuredSummary (lowerText z) merged) f = (s, m)" by fastforce
  note c = summarizeChunk_count [OF m]
  show ?case
  proof (cases s)
    case None
    then show ?thesis using 2 m c by auto
  next
    case (Some x)
    then show ?thesis using "2.prems" "2.IH" [OF m [symmetric] Some] m c by fastforce
  qed
qed

lemma length_nonempty_parts: "[] \<notin> set xss \<Longrightarrow> length xss \<le> length (concat xss)"
proof (induction xss)
  case Nil
  then show ?case by simp
next
  case (Cons xs xss)
  then have "1 \<le> length xs" by (cases xs) auto
  with Cons show ?case by simp
qed

lemma stage_chunks:
  "ms \<noteq> [] \<Longrightarrow> splitMessagesByTokenBudget c ms (chunkBudget w) = chunkLoop c (chunkBudget w) [] 0 ms"
proof -
  have "chunkBudget w \<noteq> 0" by (simp add: chunkBudget_def)
  then show "ms \<noteq> [] \<Longrightarrow> ?thesis" by (simp add: splitMessagesByTokenBudget_def)
qed

lemma stages_count:
  assumes "summarizeMessagesInStages z n ms w f = (r, n')"
  shows "n \<le> n' \<and> n' \<le> n + length ms"
proof (cases "ms = []")
  case True
  then show ?thesis using assms by (simp add: summarizeMessagesInStages_def)
next
  case False
  let ?b = "chunkBudget w"
  have "length (chunkLoop (jsonText z) ?b [] 0 ms) \<le> length (concat (chunkLoop (jsonText z) ?b [] 0 ms))"
    using chunkLoop_budget [of 0 "jsonText z" "[]" ?b ms] by (intro length_nonempty_parts) auto
  then show ?thesis
    using stageLoop_count [of z f n "plainSummary []" "chunkLoop (jsonText z) ?b [] 0 ms" r n'] assms False
    by (simp add: summarizeMessagesInStages_def chunkLoop_concat stage_chunks)
qed

lemma trim_right_newlines_nonempty: "c \<in> set s \<Longrightarrow> c \<noteq> CHR 0x0A \<Longrightarrow> trim_right_newlines s \<noteq> []"
  by (auto simp: trim_right_newlines_def dropWhile_eq_Nil_conv)

lemma appendOmissionNotes_nonempty: "s \<noteq> [] \<Longrightarrow> appendOmissionNotes lower s os \<noteq> []"
  unfolding appendOmissionNotes_def Let_def
  by (simp only: split: if_split) (intro impI conjI; simp?; rule trim_right_newlines_nonempty [of "CHR ''T''"]; simp)

lemma fallback_nonempty: "summary (buildLastMessagesFallback c ms) \<noteq> []"
  by (simp add: buildLastMessagesFallback_def plainSummary_def noPriorHistory_def Let_def)

lemma fallback_bound: "length (summary (buildLastMessagesFallback c ms)) \<le> 4069"
proof -
  let ?xs = "last_n (min 8 (length ms)) ms"
  have "length (chatMessagesText c ?xs 4000 500) \<le> 4000"
    using collectLines_bound [of 4000 0 c 500 "rev ?xs"] by (simp add: chatMessagesText_def length_concat_rev)
  then show ?thesis
    by (simp add: buildLastMessagesFallback_def plainSummary_def noPriorHistory_def Let_def)
qed

lemma stages_fail:
  assumes "\<forall>k req. answerRequest z k req = None" and "ms \<noteq> []"
  shows "fst (summarizeMessagesInStages z n ms w f) = None"
proof -
  let ?b = "chunkBudget w"
  obtain chunk chunks where ch: "splitMessagesByTokenBudget (jsonText z) ms ?b = chunk # chunks"
    using chunkLoop_concat [of "jsonText z" ?b "[]" 0 ms] assms(2) stage_chunks [OF assms(2)]
    by (cases "splitMessagesByTokenBudget (jsonText z) ms ?b") auto
  moreover have "chunk \<noteq> []"
    using ch chunkLoop_budget [of 0 "jsonText z" "[]" ?b ms] stage_chunks [OF assms(2)] by auto
  then have "chatMessagesText (jsonText z) chunk 0 2000 \<noteq> []"
    using collectLines_all [of 0 0 "jsonText z" 2000 "rev chunk"]
    by (cases chunk) (simp_all add: chatMessagesText_def messageLine_def Let_def)
  ultimately show ?thesis
    using assms by (simp add: summarizeMessagesInStages_def summarizeChunk_def)
qed

text \<open>The summary is never empty whatever the model answers, costs at most two requests per message,
  and when it is degraded it is the bounded text of the most recent messages; a model that
  answers nothing leads exactly there.\<close>

theorem fallback_summary:
  "case summarizeMessagesWithFallback z n ms window focus of (s, degraded, n') \<Rightarrow>
     summary s \<noteq> [] \<and> n \<le> n' \<and> n' \<le> n + 2 * length ms
     \<and> (degraded \<longrightarrow> s = buildLastMessagesFallback (jsonText z) ms \<and> length (summary s) \<le> 4069)
     \<and> ((\<forall>k req. answerRequest z k req = None) \<and> ms \<noteq> [] \<longrightarrow> degraded)"
proof -
  let ?c = "jsonText z" and ?limit = "oversizedThreshold window"
  let ?small = "filter (\<lambda>m. estimateMessageTokens ?c m \<le> ?limit) ms"
  obtain full n1 where full: "summarizeMessagesInStages z n ms window focus = (full, n1)" by fastforce
  obtain part n2 where part: "(if ?small \<noteq> [] then summarizeMessagesInStages z n1 ?small window focus else (None, n1)) = (part, n2)"
    by fastforce
  have c1: "n \<le> n1 \<and> n1 \<le> n + length ms" by (rule stages_count [OF full])
  have c2: "n1 \<le> n2 \<and> n2 \<le> n1 + length ms"
    using part stages_count [of z n1 ?small window focus part n2] length_filter_le [of _ ms]
    by (auto split: if_splits intro: order_trans)
  have failed: "full = None \<and> part = None" if "\<forall>k req. answerRequest z k req = None" "ms \<noteq> []"
    using stages_fail [OF that, of n window focus] stages_fail [OF that(1), of ?small n1 window focus] full part
    by (auto split: if_splits)
  define deg where "deg = (buildLastMessagesFallback ?c ms, True, n2)"
  define second where "second = (case part of
      Some p \<Rightarrow> if summary p \<noteq> []
        then (p\<lparr>summary := appendOmissionNotes (lowerText z) (summary p) (omittedNotes ?c ?limit ms)\<rparr>, False, n2)
        else deg
    | None \<Rightarrow> deg)"
  define r where "r = (case full of Some s \<Rightarrow> if summary s \<noteq> [] then (s, False, n1) else second | None \<Rightarrow> second)"
  have r: "summarizeMessagesWithFallback z n ms window focus = r"
    unfolding summarizeMessagesWithFallback_def Let_def full prod.case part r_def second_def deg_def by (rule refl)
  have cases: "(\<exists>s. r = (s, False, n1) \<and> summary s \<noteq> [] \<and> full = Some s)
      \<or> (\<exists>p. r = (p, False, n2) \<and> summary p \<noteq> [] \<and> part \<noteq> None) \<or> r = deg"
    unfolding r_def second_def using appendOmissionNotes_nonempty by (auto split: option.split)
  then show ?thesis
    unfolding r using c1 c2 failed fallback_nonempty fallback_bound by (auto simp: deg_def)
qed

subsection \<open>Persisting a summary and compressing the prompt\<close>

text \<open>
  What the rest of the process contributes to a compaction: the configured context window (None when
  the configuration cannot be read or has no models section), the summarizer that the provider
  registry resolves (None: reading the configuration, resolving the model or its chat interface
  failed), whether appending a row succeeds, and the identifier the new row gets.
\<close>

record compaction_env =
  windowSetting :: "int option"
  summarizerModel :: "summarizer option"
  appendSucceeds :: bool
  newRowId :: string

definition resolveContextWindow :: "compaction_env \<Rightarrow> nat" where
  "resolveContextWindow e =
     (case windowSetting e of None \<Rightarrow> 128000 | Some w \<Rightarrow> if w \<le> 0 then 128000 else nat w)"

definition defaultFocus :: string where
  "defaultFocus = ''Preserve decisions, todos, constraints, user preferences, and open questions.''"

definition summaryRow :: "string \<Rightarrow> string \<Rightarrow> string \<Rightarrow> bool \<Rightarrow> row" where
  "summaryRow i t resume coverage =
     \<lparr>rowId = i, rowRole = ''system'', rowContent = t, rowBlocks = [], rowCalls = [], rowToolCallId = [],
      rowToolName = [], rowStop = ''context_summary'', rowResume = resume, rowCoverage = coverage\<rparr>"

text \<open>The summary text or an error, the row that was appended, and the request counter.\<close>

definition summarizeAndPersist ::
  "compaction_env \<Rightarrow> nat \<Rightarrow> history \<Rightarrow> chat_message list \<Rightarrow> chat_message list \<Rightarrow> nat \<Rightarrow>
   string option \<times> row option \<times> nat" where
  "summarizeAndPersist e n h ms kept window =
     (if ms = [] then (Some [], None, n)
      else (case summarizerModel e of
              None \<Rightarrow> (None, None, n)
            | Some z \<Rightarrow>
                (let (s, degraded, n') = summarizeMessagesWithFallback z n ms window defaultFocus;
                     t = formatStructuredSummary (lowerText z) s in
                 if appendSucceeds e
                 then (Some t, Some (summaryRow (newRowId e) t (findResumeFromMessageId h kept) (\<not> degraded)), n')
                 else (None, None, n'))))"

text \<open>
  The thresholds in use are 0.8 and 0.0; a limit is given in tenths. For windows below two to the
  fiftieth the floating-point product, truncated, is this quotient.
\<close>

record compression_limits =
  thresholdTenths :: nat
  minKeepMessages :: nat
  minKeepRecentTokens :: nat

definition compressContext ::
  "compaction_env \<Rightarrow> codec \<Rightarrow> nat \<Rightarrow> history \<Rightarrow> chat_message list \<Rightarrow> tool_definition list \<Rightarrow>
   compression_limits \<Rightarrow> (chat_message list \<times> row option \<times> nat) outcome" where
  "compressContext e c n h ms ds l =
     (let window = resolveContextWindow e in
      if estimateToolDefinitionsTokens c ds + promptTokens c ms \<le> window * thresholdTenths l div 10
      then Done (ms, None, n)
      else and_then (computeKeepBoundary c ms (minKeepMessages l) (minKeepRecentTokens l)) (\<lambda>k.
        if k \<le> 1 then Done (ms, None, n)
        else (case summarizeAndPersist e n h (tl (take k ms)) (drop k ms) window of
                (None, r, n') \<Rightarrow> Done (ms, r, n')
              | (Some t, r, n') \<Rightarrow>
                  Done (dropUnpairedToolResults
                          (hd ms # systemMessage (''Previous conversation summary:'' @ [CHR 0x0A] @ t) # drop k ms),
                        r, n'))))"

text \<open>
  \<open>CompactConversation\<close> on the history and the prompt built from it: an error, or the number of
  rows and the length of the summary.
\<close>

definition compactConversation ::
  "compaction_env \<Rightarrow> codec \<Rightarrow> nat \<Rightarrow> history \<Rightarrow> chat_message list \<Rightarrow>
   ((nat \<times> nat) option \<times> row option \<times> nat) outcome" where
  "compactConversation e c n h ms =
     (if h = [] then Done (None, None, n)
      else and_then (splitForCompaction c ms 2) (\<lambda>(prefix, kept).
        case summarizeAndPersist e n h prefix kept (resolveContextWindow e) of
          (None, r, n') \<Rightarrow> Done (None, r, n')
        | (Some t, r, n') \<Rightarrow> Done (Some (length h, length t), r, n')))"

lemma persisted_row:
  assumes "summarizeAndPersist e n h ms kept w = (t, r, n')" and "ms \<noteq> []"
  shows "(t = None \<and> r = None) \<or> (\<exists>x. r = Some x \<and> t = Some (rowContent x) \<and> isSummary x
    \<and> rowResume x = findResumeFromMessageId h kept)"
  using assms
  by (auto simp: summarizeAndPersist_def summaryRow_def isSummary_def Let_def
      split: option.splits if_splits prod.splits)

text \<open>
  The weaker contract the run loop uses, for any paired prompt: whatever the cut separates, the last
  pass over the compressed prompt restores the pairing.
\<close>

lemma calls_answered_suffix: "calls_answered ms \<Longrightarrow> calls_answered (drop k ms)"
proof (induction ms arbitrary: k)
  case Nil
  then show ?case by simp
next
  case (Cons m ms)
  then show ?case by (cases k) simp_all
qed

text \<open>Either the prompt is left as it is, or it is cut at a safe place, the summary in front of what is kept.\<close>

definition summaryMessageText :: "string \<Rightarrow> string" where
  "summaryMessageText t = ''Previous conversation summary:'' @ [CHR 0x0A] @ t"

lemma compress_cases:
  assumes "role p = ''system''" and "toolCalls p = []" and "0 < minKeepMessages l"
  shows "\<exists>k ms' r n'. compressContext e c n h (p # ms) ds l = Done (ms', r, n') \<and> safe_cut ms k
    \<and> min (minKeepMessages l) (length ms) \<le> length ms - k
    \<and> (ms' = p # ms \<and> r = None
       \<or> (\<exists>x. r = Some x \<and> isSummary x \<and> rowResume x = findResumeFromMessageId h (drop k ms)
            \<and> ms' = p # systemMessage (summaryMessageText (rowContent x)) # dropUnpaired {} (drop k ms)))"
proof -
  obtain k where k: "computeKeepBoundary c (p # ms) (minKeepMessages l) (minKeepRecentTokens l) = Done (Suc k)"
      "Suc k \<le> max 1 (length (p # ms) - minKeepMessages l)" "safe_cut ms k"
    using computeKeepBoundary_Done [of "p # ms" "minKeepMessages l" c "minKeepRecentTokens l"] assms(3) by auto
  have len: "min (minKeepMessages l) (length ms) \<le> length ms - k" using k(2) by (auto simp: max_def split: if_splits)
  obtain t r n' where srp: "summarizeAndPersist e n h (take k ms) (drop k ms) (resolveContextWindow e) = (t, r, n')"
    by (metis prod_cases3)
  let ?new = "\<lambda>t. p # systemMessage (summaryMessageText t) # dropUnpaired {} (drop k ms)"
  have dr: "dropUnpairedToolResults (p # systemMessage (summaryMessageText t) # drop k ms) = ?new t" for t
    using assms(1,2) by (simp add: dropUnpairedToolResults_def systemMessage_def)
  consider (fits) "compressContext e c n h (p # ms) ds l = Done (p # ms, None, n)"
    | (cut) "0 < k" "compressContext e c n h (p # ms) ds l =
        (case t of None \<Rightarrow> Done (p # ms, r, n') | Some u \<Rightarrow> Done (?new u, r, n'))"
  proof (cases "estimateToolDefinitionsTokens c ds + promptTokens c (p # ms)
      \<le> resolveContextWindow e * thresholdTenths l div 10 \<or> k = 0")
    case True
    then show ?thesis using that(1) by (auto simp: compressContext_def k(1) Let_def simp del: promptTokens_Cons)
  next
    case False
    then show ?thesis using that(2) srp dr
      by (simp add: compressContext_def summaryMessageText_def k(1) Let_def del: promptTokens_Cons split: option.split)
  qed
  then show ?thesis
  proof cases
    case fits
    then show ?thesis using k(3) len by blast
  next
    case cut
    then have "take k ms \<noteq> []" using k(3) by (auto simp: safe_cut_def)
    from persisted_row [OF srp this] show ?thesis
    proof (elim disjE exE conjE)
      assume "t = None" "r = None"
      then have "compressContext e c n h (p # ms) ds l = Done (p # ms, None, n')" using cut(2) by simp
      then show ?thesis using k(3) len by blast
    next
      fix x assume x: "r = Some x" "t = Some (rowContent x)" "isSummary x"
        "rowResume x = findResumeFromMessageId h (drop k ms)"
      then have "compressContext e c n h (p # ms) ds l = Done (?new (rowContent x), Some x, n')" using cut(2) by simp
      then show ?thesis using x(3,4) k(3) len by blast
    qed
  qed
qed

text \<open>What the cut separates, the last pass over the compressed prompt pairs again.\<close>

lemma cut_is_paired:
  assumes "calls_answered (p # ms)" and "only_assistants_call (p # ms)" and "role p = ''system''" and "toolCalls p = []"
  shows "calls_answered (p # systemMessage t # dropUnpaired {} (drop k ms))"
    and "results_announced {} (p # systemMessage t # dropUnpaired {} (drop k ms))"
    and "only_assistants_call (p # systemMessage t # dropUnpaired {} (drop k ms))"
proof -
  have "calls_answered ms" using assms(1) by simp
  from dropUnpaired_answers [OF calls_answered_suffix [OF this], of "{}" k]
  show "calls_answered (p # systemMessage t # dropUnpaired {} (drop k ms))"
    using assms(3) by (simp add: systemMessage_def)
  have only: "only_assistants_call (drop k ms)"
    using assms(2) unfolding only_assistants_call_def by (auto dest: in_set_dropD)
  from dropUnpaired_announced [OF this]
  show "results_announced {} (p # systemMessage t # dropUnpaired {} (drop k ms))"
    using assms(3,4) by (simp add: systemMessage_def)
  from only have "only_assistants_call (dropUnpaired {} (drop k ms))"
    using list_emb_set [OF dropUnpaired_subseq, of _ "{}" "drop k ms"]
    unfolding only_assistants_call_def by blast
  then show "only_assistants_call (p # systemMessage t # dropUnpaired {} (drop k ms))"
    using assms(4) by (simp add: only_assistants_call_def systemMessage_def)
qed

lemma compress_keeps_pairing:
  assumes "calls_answered (systemMessage p # ms)" and "results_announced {} (systemMessage p # ms)"
    and "only_assistants_call (systemMessage p # ms)" and "0 < minKeepMessages l"
  shows "\<exists>zs r n'. compressContext e c n h (systemMessage p # ms) ds l = Done (systemMessage p # zs, r, n')
    \<and> calls_answered (systemMessage p # zs) \<and> results_announced {} (systemMessage p # zs)
    \<and> only_assistants_call (systemMessage p # zs)
    \<and> (\<forall>x. r = Some x \<longrightarrow> isSummary x)"
proof -
  have p: "role (systemMessage p) = ''system''" "toolCalls (systemMessage p) = []" by (simp_all add: systemMessage_def)
  note cut = cut_is_paired [OF assms(1,3) p]
  show ?thesis using compress_cases [OF p assms(4), of e c n h ms ds] assms(1-3) cut by fastforce
qed

text \<open>
  The identifier a summary row records: none when no row of the history is among the kept messages, else
  that of the first row that is.
\<close>

definition oldestKept :: "history \<Rightarrow> chat_message list \<Rightarrow> string \<Rightarrow> bool" where
  "oldestKept h kept i \<longleftrightarrow>
     (let ids = set (map sourceMessageId kept) - {[]} in
      if \<forall>x. Some x \<in> set h \<longrightarrow> rowId x \<notin> ids then i = []
      else \<exists>j x. j < length h \<and> h ! j = Some x \<and> rowId x = i \<and> i \<in> ids
             \<and> (\<forall>j'<j. \<forall>y. h ! j' = Some y \<longrightarrow> rowId y \<notin> ids))"

lemma resume_is_oldest: "oldestKept h kept (findResumeFromMessageId h kept)"
proof -
  let ?ids = "filter (\<lambda>i. i \<noteq> []) (map sourceMessageId kept)"
  let ?P = "\<lambda>r. case r of None \<Rightarrow> False | Some x \<Rightarrow> rowId x \<in> set ?ids"
  have ids: "set ?ids = set (map sourceMessageId kept) - {[]}" by auto
  show ?thesis
  proof (cases "first_index ?P h")
    case None
    then have "\<forall>r\<in>set h. \<not> ?P r" by (simp add: first_index_None)
    then have "\<forall>x. Some x \<in> set h \<longrightarrow> rowId x \<notin> set ?ids" by force
    moreover have "findResumeFromMessageId h kept = []"
      unfolding findResumeFromMessageId_def Let_def None by (simp only: option.case if_cancel)
    ultimately show ?thesis unfolding oldestKept_def Let_def ids [symmetric] by simp
  next
    case (Some i)
    note fi = first_index_Some [OF Some]
    obtain x where x: "h ! i = Some x" "rowId x \<in> set ?ids" using fi by (auto split: option.splits)
    have "?ids \<noteq> []" using x(2) by (metis empty_iff empty_set)
    then have r: "findResumeFromMessageId h kept = rowId x"
      unfolding findResumeFromMessageId_def Let_def by (simp only: if_False Some option.case x(1))
    have "\<forall>y. h ! j = Some y \<longrightarrow> rowId y \<notin> set ?ids" if "j < i" for j
    proof -
      have "h ! j \<in> set (take i h)" using that fi by (auto simp: in_set_conv_nth intro!: exI [of _ j])
      then show ?thesis using fi by (metis option.simps(5))
    qed
    moreover have "Some x \<in> set h" using x(1) fi by (metis nth_mem)
    ultimately show ?thesis using x fi unfolding r oldestKept_def Let_def ids [symmetric] by auto
  qed
qed

lemma grouped_tail:
  assumes "grouped {} (p # ms)" and "role p = ''system''" and "toolCalls p = []" and "safe_cut ms k"
  shows "dropUnpaired {} (drop k ms) = drop k ms"
proof -
  have "grouped {} ms" using assms(1-3) by simp
  then have "grouped {} (drop k ms)" using assms(4) grouped_drop [of "{}" ms k "{}"] by (auto simp: safe_cut_def)
  then show ?thesis using dropUnpaired_id [OF grouped_announced] by simp
qed

text \<open>C7: As long as one message is to be kept, compressing a well-paired prompt behind a system prompt, as every
  prompt of a run is, never panics and hands the provider a well-paired prompt with the same system prompt. Either
  nothing was persisted and the prompt is the old one, or exactly one summary row was, and the prompt is the
  system prompt, that summary and the kept tail, at least as long as asked. Of the tail at most tool results are
  missing whose call was cut off, and none when every result stands in the run of results behind its call. The
  summary row names the oldest row of the history among the kept messages, or nothing when there is none.\<close>

theorem compressed_prompt_is_sound:
  assumes "calls_answered (p # ms)" and "results_announced {} (p # ms)" and "only_assistants_call (p # ms)"
    and "role p = ''system''" and "toolCalls p = []" and "0 < minKeepMessages l"
  shows "\<exists>ms' r n'. compressContext e c n h (p # ms) ds l = Done (ms', r, n')
    \<and> hd ms' = p \<and> calls_answered ms' \<and> results_announced {} ms' \<and> only_assistants_call ms'
    \<and> (ms' = p # ms \<and> r = None
       \<or> (\<exists>k x. r = Some x \<and> isSummary x \<and> oldestKept h (drop k ms) (rowResume x)
            \<and> min (minKeepMessages l) (length ms) \<le> length ms - k
            \<and> ms' = p # systemMessage (summaryMessageText (rowContent x)) # dropUnpaired {} (drop k ms)
            \<and> (grouped {} (p # ms) \<longrightarrow> dropUnpaired {} (drop k ms) = drop k ms)))"
proof -
  obtain k ms' r n' where c: "compressContext e c n h (p # ms) ds l = Done (ms', r, n')" "safe_cut ms k"
    "min (minKeepMessages l) (length ms) \<le> length ms - k"
    "ms' = p # ms \<and> r = None \<or> (\<exists>x. r = Some x \<and> isSummary x \<and> rowResume x = findResumeFromMessageId h (drop k ms)
            \<and> ms' = p # systemMessage (summaryMessageText (rowContent x)) # dropUnpaired {} (drop k ms))"
    using compress_cases [OF assms(4-6), of e c n h ms ds] by blast
  from c(4) show ?thesis
  proof (elim disjE exE conjE)
    assume "ms' = p # ms" "r = None"
    then show ?thesis using c(1) assms(1-3) by auto
  next
    fix x assume x: "r = Some x" "isSummary x" "rowResume x = findResumeFromMessageId h (drop k ms)"
      "ms' = p # systemMessage (summaryMessageText (rowContent x)) # dropUnpaired {} (drop k ms)"
    have "oldestKept h (drop k ms) (rowResume x)" unfolding x(3) by (rule resume_is_oldest)
    moreover note cut_is_paired [OF assms(1,3-5), of "summaryMessageText (rowContent x)" k, folded x(4)]
    ultimately show ?thesis using c(1,3) x(1,2,4) grouped_tail [OF _ assms(4,5) c(2)]
      by (intro exI [of _ ms'] exI [of _ r] exI [of _ n'] conjI disjI2 exI [of _ k] exI [of _ x]) simp_all
  qed
qed

definition silentSummarizer :: summarizer where
  "silentSummarizer = \<lparr>answerRequest = (\<lambda>n req. None), decodeSummary = (\<lambda>t. None), lowerText = (\<lambda>t. t),
     jsonText = rawCodec\<rparr>"

lemma fallback_summary_witness:
  "fst (snd (summarizeMessagesWithFallback silentSummarizer 0 [plainMessage ''user'' ''hello''] 128000 []))"
  using fallback_summary [where z = silentSummarizer and n = 0 and ms = "[plainMessage ''user'' ''hello'']"
      and window = 128000 and focus = "[]"]
  by (auto simp: silentSummarizer_def split: prod.splits)

lemma messages_text_bounded_witness:
  "length (chatMessagesText rawCodec [plainMessage ''user'' ''hello''] 7 0) \<le> 7"
  using messages_text_bounded [of 7 rawCodec "[plainMessage ''user'' ''hello'']" 0] by simp

lemma fact_lines_normal_witness:
  "length (normalizeFactLines (\<lambda>t. t) [''a'', ''b'', ''a'', []]) \<le> 8"
  using fact_lines_normal [of "\<lambda>t. t" "[''a'', ''b'', ''a'', []]"] by (simp add: Let_def)

definition fullEnv :: compaction_env where
  "fullEnv = \<lparr>windowSetting = Some 60, summarizerModel = Some silentSummarizer, appendSucceeds = True, newRowId = ''s''\<rparr>"

definition keptRow :: "string \<Rightarrow> string \<Rightarrow> row" where
  "keptRow i r = \<lparr>rowId = i, rowRole = r, rowContent = ''hi'', rowBlocks = [], rowCalls = [],
     rowToolCallId = [], rowToolName = [], rowStop = [], rowResume = [], rowCoverage = False\<rparr>"

definition longPrompt :: "chat_message list" where
  "longPrompt = map (chatMessageOf (\<lambda>m. [])) [keptRow ''1'' ''user'', keptRow ''2'' ''assistant'', keptRow ''3'' ''user'', keptRow ''4'' ''assistant'']"

lemma long_prompt_is_cut:
  "\<exists>ms' x n'. compressContext fullEnv rawCodec 0 [Some (keptRow ''1'' ''user''), Some (keptRow ''3'' ''user'')] (plainMessage ''system'' ''s'' # longPrompt) []
      \<lparr>thresholdTenths = 0, minKeepMessages = 2, minKeepRecentTokens = 0\<rparr> = Done (ms', Some x, n') \<and> rowResume x = ''3''"
proof -
  have "computeKeepBoundary rawCodec (plainMessage ''system'' ''s'' # longPrompt) 2 0 = Done 3" by code_simp
  moreover have "0 < estimateToolDefinitionsTokens rawCodec [] + promptTokens rawCodec (plainMessage ''system'' ''s'' # longPrompt)" by code_simp
  moreover have "findResumeFromMessageId [Some (keptRow ''1'' ''user''), Some (keptRow ''3'' ''user'')] (drop 3 (plainMessage ''system'' ''s'' # longPrompt)) = ''3''"
    by code_simp
  moreover have "tl (take 3 (plainMessage ''system'' ''s'' # longPrompt)) \<noteq> []" by (simp add: longPrompt_def)
  ultimately show ?thesis
    by (simp add: compressContext_def summarizeAndPersist_def fullEnv_def summaryRow_def Let_def split: prod.split)
qed

lemma compressed_prompt_is_sound_witness:
  "\<exists>ms' x n'. compressContext fullEnv rawCodec 0 [Some (keptRow ''1'' ''user''), Some (keptRow ''3'' ''user'')] (plainMessage ''system'' ''s'' # longPrompt) []
      \<lparr>thresholdTenths = 0, minKeepMessages = 2, minKeepRecentTokens = 0\<rparr> = Done (ms', Some x, n')
    \<and> results_announced {} ms' \<and> rowResume x = ''3''
    \<and> (\<exists>k. ms' = plainMessage ''system'' ''s'' # systemMessage (summaryMessageText (rowContent x)) # dropUnpaired {} (drop k longPrompt))"
proof -
  let ?p = "plainMessage ''system'' ''s''"
  have p: "calls_answered (?p # longPrompt)" "results_announced {} (?p # longPrompt)" "only_assistants_call (?p # longPrompt)"
    "role ?p = ''system''" "toolCalls ?p = []"
    by (simp_all add: longPrompt_def keptRow_def chatMessageOf_def plainMessage_def only_assistants_call_def)
  let ?l = "\<lparr>thresholdTenths = 0, minKeepMessages = 2, minKeepRecentTokens = 0\<rparr>"
  let ?h = "[Some (keptRow ''1'' ''user''), Some (keptRow ''3'' ''user'')]"
  have l: "0 < minKeepMessages ?l" by simp
  obtain ms' x n' where d: "compressContext fullEnv rawCodec 0 ?h (?p # longPrompt) [] ?l = Done (ms', Some x, n')" "rowResume x = ''3''"
    using long_prompt_is_cut by blast
  obtain ms'' r n'' where c: "compressContext fullEnv rawCodec 0 ?h (?p # longPrompt) [] ?l = Done (ms'', r, n'')"
    "results_announced {} ms''" "ms'' = ?p # longPrompt \<and> r = None \<or> (\<exists>k x. r = Some x
      \<and> ms'' = ?p # systemMessage (summaryMessageText (rowContent x)) # dropUnpaired {} (drop k longPrompt))"
    using compressed_prompt_is_sound [OF p l, of fullEnv rawCodec 0 ?h "[]"] by blast
  have "ms'' = ms'" "r = Some x" using c(1) d(1) by simp_all
  with c(2,3) d show ?thesis by blast
qed

end
