(* ===== verification/ToolRegistry.thy ===== *)
theory ToolRegistry
  imports CompactionCut "HOL-Library.AList" "HOL-Library.Product_Lexorder"
begin

text \<open>
  The tool registry of a run and the policy on tool calls (\<open>internal/tools/tools.go\<close>,
  \<open>internal/tools/toolsearch/toolsearch.go\<close>, \<open>internal/util/allowlist\<close> and the prompt profile of
  \<open>internal/runners/profile.go\<close> and \<open>runner.go\<close>). A Go map is an association list without repeated
  keys; the order of its entries is never observed, because every listing sorts the names. The
  maps \<open>deferred\<close> and \<open>activated\<close> only ever hold the value true and are lists of their keys.
\<close>

subsection \<open>Policies\<close>

datatype policy_action = PolicyAllow | PolicyDeny | PolicyRequireApproval

record policy_decision =
  decisionAction :: policy_action
  decisionReason :: string
  decisionRisk :: string

definition allowPolicy :: policy_decision where
  "allowPolicy = \<lparr>decisionAction = PolicyAllow, decisionReason = [], decisionRisk = []\<rparr>"

definition denyPolicy :: "string \<Rightarrow> policy_decision" where
  "denyPolicy reason = \<lparr>decisionAction = PolicyDeny, decisionReason = reason, decisionRisk = []\<rparr>"

definition approvalPolicy :: "string \<Rightarrow> string \<Rightarrow> policy_decision" where
  "approvalPolicy reason risk = \<lparr>decisionAction = PolicyRequireApproval, decisionReason = reason, decisionRisk = risk\<rparr>"

record policy_group =
  policyGroupName :: string
  policyGroupDefault :: string
  policyGroupActions :: "string list"

record policy_entry =
  entryTool :: string
  entryGroup :: string
  entryLevel :: string

text \<open>What the context of a call carries: the configured entries and whether the user is an admin.\<close>

record policy_context =
  configuredPolicies :: "policy_entry list"
  callerIsAdmin :: bool

record tool =
  toolDefinition :: tool_definition
  toolPolicyGroups :: "policy_group list"
  toolArgumentPolicy :: "(string \<Rightarrow> policy_decision) option"
  toolOverlay :: "string option option"

definition parseAction :: "codec \<Rightarrow> (string \<Rightarrow> string) \<Rightarrow> string \<Rightarrow> string" where
  "parseAction c lower arguments =
     (case decodeJson c arguments of
        Some (JObject kvs) \<Rightarrow> (case map_of kvs ''action'' of Some (JString a) \<Rightarrow> lower a | _ \<Rightarrow> lower [])
      | Some JNull \<Rightarrow> lower []
      | _ \<Rightarrow> [])"

fun findGroupForAction :: "policy_group list \<Rightarrow> string \<Rightarrow> policy_group outcome" where
  "findGroupForAction [] action = Panics"
| "findGroupForAction (g # gs) action =
     (case find (\<lambda>g. action \<in> set (policyGroupActions g)) (g # gs) of
        Some x \<Rightarrow> Done x
      | None \<Rightarrow> Done (last (g # gs)))"

definition applyPolicyLevel :: "bool \<Rightarrow> string \<Rightarrow> string \<Rightarrow> string \<Rightarrow> policy_decision" where
  "applyPolicyLevel isAdmin level name groupName =
     (let label = (if groupName \<noteq> ''*'' then name @ ''.'' @ groupName else name) in
      if level = ''disabled'' then denyPolicy (label @ '' is disabled by policy'')
      else if level = ''admin_approval'' then
        (if \<not> isAdmin then denyPolicy (''admin access required for '' @ label)
         else approvalPolicy (label @ '' requires approval'') ''high'')
      else if level = ''admin_only'' then
        (if \<not> isAdmin then denyPolicy (''admin access required for '' @ label) else allowPolicy)
      else if level = ''anyone_approval'' then approvalPolicy (label @ '' requires approval'') ''medium''
      else if level = ''anyone'' then allowPolicy
      else denyPolicy (''unknown policy level for '' @ label))"

text \<open>The walk over the configured entries; the first wildcard entry is remembered.\<close>

fun configuredLevel :: "string \<Rightarrow> string \<Rightarrow> string option \<Rightarrow> policy_entry list \<Rightarrow> string option" where
  "configuredLevel name g wildcard [] = wildcard"
| "configuredLevel name g wildcard (e # es) =
     (if entryTool e \<noteq> name then configuredLevel name g wildcard es
      else if entryGroup e = g then Some (entryLevel e)
      else if entryGroup e = ''*'' \<and> wildcard = None then configuredLevel name g (Some (entryLevel e)) es
      else configuredLevel name g wildcard es)"

definition resolveConfiguredPolicy :: "policy_context \<Rightarrow> string \<Rightarrow> string \<Rightarrow> policy_decision option" where
  "resolveConfiguredPolicy x name g =
     map_option (\<lambda>level. applyPolicyLevel (callerIsAdmin x) level name g)
       (configuredLevel name g None (configuredPolicies x))"

definition resolveToolPolicy ::
  "codec \<Rightarrow> (string \<Rightarrow> string) \<Rightarrow> policy_context \<Rightarrow> tool \<Rightarrow> string \<Rightarrow> string \<Rightarrow> policy_decision outcome" where
  "resolveToolPolicy c lower x t name arguments =
     (let argumentDecision = (case toolArgumentPolicy t of None \<Rightarrow> allowPolicy | Some p \<Rightarrow> p arguments) in
      if decisionAction argumentDecision = PolicyDeny then Done argumentDecision
      else and_then (findGroupForAction (toolPolicyGroups t) (parseAction c lower arguments)) (\<lambda>g.
        let declared = applyPolicyLevel (callerIsAdmin x) (policyGroupDefault g) name (policyGroupName g);
            base = (case resolveConfiguredPolicy x name (policyGroupName g) of None \<Rightarrow> declared | Some d \<Rightarrow> d) in
        Done (if decisionAction base \<noteq> PolicyAllow then base
              else if decisionAction argumentDecision = PolicyRequireApproval then argumentDecision
              else base)))"

subsection \<open>What a policy decides\<close>

fun strictness :: "policy_action \<Rightarrow> nat" where
  "strictness PolicyAllow = 0"
| "strictness PolicyRequireApproval = 1"
| "strictness PolicyDeny = 2"

text \<open>The level in force: the configured one for the group, else the tool's wildcard, else the default.\<close>

definition levelFor :: "policy_context \<Rightarrow> string \<Rightarrow> policy_group \<Rightarrow> string" where
  "levelFor x name g =
     (case find (\<lambda>e. entryTool e = name \<and> entryGroup e = policyGroupName g) (configuredPolicies x) of
        Some e \<Rightarrow> entryLevel e
      | None \<Rightarrow>
          (case find (\<lambda>e. entryTool e = name \<and> entryGroup e = ''*'') (configuredPolicies x) of
             Some e \<Rightarrow> entryLevel e
           | None \<Rightarrow> policyGroupDefault g))"

lemma configuredLevel_spec:
  "configuredLevel name g w es =
     (case find (\<lambda>e. entryTool e = name \<and> entryGroup e = g) es of
        Some e \<Rightarrow> Some (entryLevel e)
      | None \<Rightarrow> (case w of
          Some l \<Rightarrow> Some l
        | None \<Rightarrow> map_option entryLevel (find (\<lambda>e. entryTool e = name \<and> entryGroup e = ''*'') es)))"
  by (induction name g w es rule: configuredLevel.induct) (auto split: option.splits)

lemma baseDecision_spec:
  "(case resolveConfiguredPolicy x name (policyGroupName g) of
      None \<Rightarrow> applyPolicyLevel (callerIsAdmin x) (policyGroupDefault g) name (policyGroupName g)
    | Some d \<Rightarrow> d) =
   applyPolicyLevel (callerIsAdmin x) (levelFor x name g) name (policyGroupName g)"
  by (simp add: resolveConfiguredPolicy_def configuredLevel_spec levelFor_def split: option.split)

lemma findGroup_Done: "gs \<noteq> [] \<Longrightarrow> \<exists>g. findGroupForAction gs a = Done g \<and> g \<in> set gs
    \<and> (a \<in> set (policyGroupActions g) \<or> g = last gs)"
proof -
  assume "gs \<noteq> []"
  then obtain h rest where gs: "gs = h # rest" by (cases gs) auto
  let ?f = "find (\<lambda>g. a \<in> set (policyGroupActions g)) gs"
  show ?thesis
  proof (cases ?f)
    case None
    then have "findGroupForAction gs a = Done (last gs)" by (simp only: gs findGroupForAction.simps option.case)
    then show ?thesis using gs last_in_set [of gs] by auto
  next
    case (Some g)
    then have "findGroupForAction gs a = Done g" by (simp only: gs findGroupForAction.simps option.case)
    moreover have "g \<in> set gs" "a \<in> set (policyGroupActions g)"
      using Some by (auto simp: find_Some_iff)
    ultimately show ?thesis by blast
  qed
qed

text \<open>The group of an action: the first one that lists it, or the last one when none does.\<close>

definition isGroupOf :: "policy_group \<Rightarrow> policy_group list \<Rightarrow> string \<Rightarrow> bool" where
  "isGroupOf g gs a \<longleftrightarrow>
     (if \<forall>x\<in>set gs. a \<notin> set (policyGroupActions x) then gs \<noteq> [] \<and> g = last gs
      else \<exists>i<length gs. gs ! i = g \<and> a \<in> set (policyGroupActions g) \<and> (\<forall>j<i. a \<notin> set (policyGroupActions (gs ! j))))"

lemma findGroup_isGroupOf: "gs \<noteq> [] \<Longrightarrow> \<exists>g. findGroupForAction gs a = Done g \<and> isGroupOf g gs a"
proof -
  assume "gs \<noteq> []"
  then obtain h rest where gs: "gs = h # rest" by (cases gs) auto
  show ?thesis
  proof (cases "find (\<lambda>g. a \<in> set (policyGroupActions g)) gs")
    case None
    then have "findGroupForAction gs a = Done (last gs)" by (simp only: gs findGroupForAction.simps option.case)
    moreover have "\<forall>x\<in>set gs. a \<notin> set (policyGroupActions x)" using None unfolding find_None_iff by blast
    ultimately show ?thesis unfolding isGroupOf_def using \<open>gs \<noteq> []\<close> by simp
  next
    case (Some g)
    then have f: "findGroupForAction gs a = Done g" by (simp only: gs findGroupForAction.simps option.case)
    obtain i where i: "i < length gs" "a \<in> set (policyGroupActions (gs ! i))" "g = gs ! i" "\<forall>j<i. a \<notin> set (policyGroupActions (gs ! j))"
      using Some unfolding find_Some_iff by blast
    then have "\<not> (\<forall>x\<in>set gs. a \<notin> set (policyGroupActions x))" by (meson nth_mem)
    then have "isGroupOf g gs a" unfolding isGroupOf_def using i by auto
    with f show ?thesis by blast
  qed
qed

text \<open>C8: A call of a tool that declares policy groups is decided by the stricter of its argument policy and the
  level in force for the group of its action: the first group that lists the action of the arguments, or the last
  group when none does. In force is a configured entry for the group before a configured wildcard before the
  declared default, whichever order the entries have; in particular no call of a disabled group, and none
  of an admin-only group by a user without admin rights, is ever allowed.\<close>

theorem policy_is_strictest:
  assumes "toolPolicyGroups t \<noteq> []"
  shows "\<exists>d g. resolveToolPolicy c lower x t name arguments = Done d
    \<and> isGroupOf g (toolPolicyGroups t) (parseAction c lower arguments)
    \<and> strictness (decisionAction d) = max (strictness (decisionAction
          (case toolArgumentPolicy t of None \<Rightarrow> allowPolicy | Some p \<Rightarrow> p arguments)))
        (strictness (decisionAction (applyPolicyLevel (callerIsAdmin x) (levelFor x name g) name (policyGroupName g))))
    \<and> (levelFor x name g = ''disabled'' \<longrightarrow> decisionAction d = PolicyDeny)
    \<and> (levelFor x name g \<in> {''admin_only'', ''admin_approval''} \<and> \<not> callerIsAdmin x \<longrightarrow> decisionAction d = PolicyDeny)"
proof -
  define ad where "ad = (case toolArgumentPolicy t of None \<Rightarrow> allowPolicy | Some p \<Rightarrow> p arguments)"
  obtain g where g: "findGroupForAction (toolPolicyGroups t) (parseAction c lower arguments) = Done g"
      "isGroupOf g (toolPolicyGroups t) (parseAction c lower arguments)"
    using findGroup_isGroupOf [OF assms] by blast
  define base where "base = applyPolicyLevel (callerIsAdmin x) (levelFor x name g) name (policyGroupName g)"
  define d where "d = (if decisionAction ad = PolicyDeny then ad
      else if decisionAction base \<noteq> PolicyAllow then base
      else if decisionAction ad = PolicyRequireApproval then ad else base)"
  have "resolveToolPolicy c lower x t name arguments = Done d"
    unfolding resolveToolPolicy_def Let_def ad_def [symmetric] g(1) and_then.simps baseDecision_spec base_def [symmetric]
    by (simp add: d_def)
  moreover have "strictness (decisionAction d) = max (strictness (decisionAction ad)) (strictness (decisionAction base))"
    by (cases "decisionAction ad"; cases "decisionAction base") (simp_all add: d_def)
  moreover have "decisionAction base = PolicyDeny \<Longrightarrow> decisionAction d = PolicyDeny" by (simp add: d_def)
  moreover have "levelFor x name g = ''disabled'' \<Longrightarrow> decisionAction base = PolicyDeny"
    and "levelFor x name g \<in> {''admin_only'', ''admin_approval''} \<and> \<not> callerIsAdmin x \<Longrightarrow> decisionAction base = PolicyDeny"
    by (auto simp: base_def applyPolicyLevel_def denyPolicy_def Let_def)
  ultimately show ?thesis using g(2) unfolding ad_def base_def by blast
qed

subsection \<open>The registry\<close>

record registry =
  registered :: "(string \<times> tool) list"
  deferred :: "string list"
  activated :: "string list"

definition newEmptyToolRegistry :: registry where
  "newEmptyToolRegistry = \<lparr>registered = [], deferred = [], activated = []\<rparr>"

definition toolKey :: "tool \<Rightarrow> string" where
  "toolKey t = definitionName (toolDefinition t)"

definition register :: "tool \<Rightarrow> registry \<Rightarrow> registry" where
  "register t r = r\<lparr>registered := AList.update (toolKey t) t (registered r)\<rparr>"

definition getTool :: "registry \<Rightarrow> string \<Rightarrow> tool option" where
  "getTool r name = map_of (registered r) name"

definition removeTool :: "string \<Rightarrow> registry \<Rightarrow> registry" where
  "removeTool name r =
     \<lparr>registered = AList.delete name (registered r), deferred = filter (\<lambda>n. n \<noteq> name) (deferred r),
      activated = filter (\<lambda>n. n \<noteq> name) (activated r)\<rparr>"

definition names :: "registry \<Rightarrow> string list" where
  "names r = sort (map fst (registered r))"

definition isLoaded :: "registry \<Rightarrow> string \<Rightarrow> bool" where
  "isLoaded r name \<longleftrightarrow> name \<in> set (map fst (registered r)) \<and> (name \<notin> set (deferred r) \<or> name \<in> set (activated r))"

definition isAllowed :: "string \<Rightarrow> string list \<Rightarrow> bool" where
  "isAllowed name allowed \<longleftrightarrow> allowed = [] \<or> list_ex (\<lambda>e. e = name) allowed"

definition applyFilter :: "string list \<Rightarrow> registry \<Rightarrow> registry" where
  "applyFilter allowed r =
     (if allowed = [] then r
      else fold (\<lambda>n r. if isAllowed n allowed then r else removeTool n r) (map fst (registered r)) r)"

definition deferTools :: "string list \<Rightarrow> registry \<Rightarrow> registry" where
  "deferTools keepLoaded r =
     r\<lparr>deferred := filter (\<lambda>n. n \<notin> set keepLoaded) (map fst (registered r)), activated := []\<rparr>"

fun activateLoop :: "string list \<Rightarrow> string list \<Rightarrow> string list \<Rightarrow> string list" where
  "activateLoop ds as [] = []"
| "activateLoop ds as (n # ns) =
     (if n \<notin> set ds \<or> n \<in> set as then activateLoop ds as ns else n # activateLoop ds (n # as) ns)"

definition activate :: "string list \<Rightarrow> registry \<Rightarrow> string list \<times> registry" where
  "activate ns r =
     (let new = activateLoop (deferred r) (activated r) ns in
      (sort new, r\<lparr>activated := activated r @ new\<rparr>))"

definition maxCatalogSummaryCharacters :: nat where
  "maxCatalogSummaryCharacters = 110"

definition summarizeDescription :: "string \<Rightarrow> string" where
  "summarizeDescription d =
     (let s0 = trim_space (map (\<lambda>c. if c = CHR 0x0A then CHR '' '' else c) d);
          s1 = (case index_sub s0 ''. '' of None \<Rightarrow> s0 | Some i \<Rightarrow> take (i + 1) s0) in
      if length s1 \<le> maxCatalogSummaryCharacters then s1
      else (let s2 = take maxCatalogSummaryCharacters s1;
                s3 = (case last_index_byte s2 (CHR '' '') of
                        Some i \<Rightarrow> if i > 0 then take i s2 else s2
                      | None \<Rightarrow> s2) in
            rev (dropWhile (\<lambda>c. c \<in> set '' ,;:'') (rev s3)) @ ''...''))"

record catalog_entry =
  catalogName :: string
  catalogSummary :: string

definition deferredCatalog :: "registry \<Rightarrow> catalog_entry list" where
  "deferredCatalog r =
     map (\<lambda>(n, t). \<lparr>catalogName = n, catalogSummary = summarizeDescription (definitionDescription (toolDefinition t))\<rparr>)
       (List.map_filter (\<lambda>n. map_option (\<lambda>t. (n, t)) (getTool r n))
          (sort (filter (\<lambda>n. n \<notin> set (activated r)) (deferred r))))"

definition loadedNames :: "registry \<Rightarrow> string list" where
  "loadedNames r = filter (isLoaded r) (names r)"

definition definitionOf :: "registry \<Rightarrow> string \<Rightarrow> tool_definition list" where
  "definitionOf r n = (case getTool r n of None \<Rightarrow> [] | Some t \<Rightarrow> [toolDefinition t])"

definition allDefinitions :: "registry \<Rightarrow> tool_definition list" where
  "allDefinitions r = concat (map (definitionOf r) (names r))"

definition definitions :: "registry \<Rightarrow> tool_definition list" where
  "definitions r = concat (map (definitionOf r) (filter (isLoaded r) (names r)))"

definition loadAll :: "registry \<Rightarrow> registry" where
  "loadAll r = r\<lparr>deferred := [], activated := []\<rparr>"

definition buildOverlays :: "registry \<Rightarrow> string list" where
  "buildOverlays r =
     concat (map (\<lambda>n. case getTool r n of
         Some t \<Rightarrow> (case toolOverlay t of Some (Some o1) \<Rightarrow> if o1 \<noteq> [] then [o1] else [] | _ \<Rightarrow> [])
       | None \<Rightarrow> []) (names r))"

definition toolActionGroups :: "registry \<Rightarrow> string \<Rightarrow> (string \<times> string) list option" where
  "toolActionGroups r n =
     map_option (\<lambda>t. map (\<lambda>g. (policyGroupName g, policyGroupDefault g)) (toolPolicyGroups t)) (getTool r n)"

subsection \<open>The registry invariant\<close>

definition wf_registry :: "registry \<Rightarrow> bool" where
  "wf_registry r \<longleftrightarrow> distinct (map fst (registered r)) \<and> (\<forall>p\<in>set (registered r). fst p = toolKey (snd p))
     \<and> distinct (deferred r) \<and> set (deferred r) \<subseteq> fst ` set (registered r)
     \<and> distinct (activated r) \<and> set (activated r) \<subseteq> set (deferred r)"

datatype registry_op =
  Register tool | Remove string | ApplyFilter "string list" | Defer "string list"
| Activate "string list" | LoadAll

fun apply_op :: "registry_op \<Rightarrow> registry \<Rightarrow> registry" where
  "apply_op (Register t) r = register t r"
| "apply_op (Remove n) r = removeTool n r"
| "apply_op (ApplyFilter allowed) r = applyFilter allowed r"
| "apply_op (Defer keep) r = deferTools keep r"
| "apply_op (Activate ns) r = snd (activate ns r)"
| "apply_op LoadAll r = loadAll r"

lemma activateLoop_new:
  "distinct (activateLoop ds as ns) \<and> set (activateLoop ds as ns) = (set ns \<inter> set ds) - set as"
  by (induction ds as ns rule: activateLoop.induct) auto

lemma activateLoop_id: "distinct ns \<Longrightarrow> set ns \<subseteq> set ds - set as \<Longrightarrow> activateLoop ds as ns = ns"
proof (induction ns arbitrary: as)
  case Nil
  then show ?case by simp
next
  case (Cons n ns)
  then have "set ns \<subseteq> set ds - set (n # as)" by auto
  with Cons show ?case by simp
qed

lemma distinct_map_filter: "distinct (map f xs) \<Longrightarrow> distinct (map f (filter P xs))"
  by (induction xs) auto

lemma update_entries: "p \<in> set (AList.update k v al) \<Longrightarrow> p = (k, v) \<or> p \<in> set al"
  by (induction al) (auto split: if_splits)

lemma delete_names: "fst ` set (AList.delete k al) = fst ` set al - {k}"
  by (induction al) auto

lemma wf_remove: "wf_registry r \<Longrightarrow> wf_registry (removeTool n r)"
proof -
  assume w: "wf_registry r"
  have "distinct (map fst (AList.delete n (registered r)))"
    using w by (simp add: wf_registry_def AList.delete_eq distinct_map_filter)
  moreover have "set (AList.delete n (registered r)) \<subseteq> set (registered r)" by (auto simp: AList.delete_eq)
  ultimately show ?thesis using w by (auto simp: wf_registry_def removeTool_def delete_names)
qed

lemma wf_filter_fold: "wf_registry r \<Longrightarrow>
   wf_registry (fold (\<lambda>n r. if isAllowed n allowed then r else removeTool n r) ns r)"
  by (induction ns arbitrary: r) (simp_all add: wf_remove)

lemma update_names: "fst ` set (AList.update k v al) = insert k (fst ` set al)"
  by (induction al) auto

lemma wf_register: "wf_registry r \<Longrightarrow> wf_registry (register t r)"
proof -
  assume w: "wf_registry r"
  have "distinct (map fst (AList.update (toolKey t) t (registered r)))"
    using w unfolding wf_registry_def by (blast intro: distinct_update)
  moreover have "fst p = toolKey (snd p)" if "p \<in> set (AList.update (toolKey t) t (registered r))" for p
    using update_entries [OF that] w unfolding wf_registry_def by auto
  moreover have "distinct (deferred r)" "set (deferred r) \<subseteq> fst ` set (AList.update (toolKey t) t (registered r))"
    "distinct (activated r)" "set (activated r) \<subseteq> set (deferred r)"
    using w unfolding wf_registry_def update_names by blast+
  moreover have "registered (register t r) = AList.update (toolKey t) t (registered r)"
    "deferred (register t r) = deferred r" "activated (register t r) = activated r"
    by (simp_all add: register_def)
  ultimately show ?thesis unfolding wf_registry_def by (metis (no_types, lifting))
qed

lemma wf_activate: "wf_registry r \<Longrightarrow> wf_registry (snd (activate ns r))"
  using activateLoop_new [of "deferred r" "activated r" ns]
  by (auto simp: wf_registry_def activate_def Let_def)

lemma wf_op: "wf_registry r \<Longrightarrow> wf_registry (apply_op e r)"
proof (cases e)
  case (Defer keep)
  assume "wf_registry r"
  with Defer show ?thesis by (auto simp: wf_registry_def deferTools_def)
next
  case LoadAll
  assume "wf_registry r"
  with LoadAll show ?thesis by (simp add: wf_registry_def loadAll_def)
qed (simp_all add: wf_remove wf_register wf_activate wf_filter_fold applyFilter_def)

interpretation tool_registry: machine apply_op wf_registry
  by unfold_locales (rule wf_op)

subsection \<open>What the registry lists\<close>

lemma wf_empty: "wf_registry newEmptyToolRegistry"
  by (simp add: wf_registry_def newEmptyToolRegistry_def)

lemma registry_run: "wf_registry (fold apply_op es newEmptyToolRegistry)"
  by (rule tool_registry.run_inv [OF wf_empty])

lemma set_names [simp]: "set (names r) = fst ` set (registered r)"
  by (simp add: names_def)

lemma definitionOf_name:
  assumes "wf_registry r" and "n \<in> fst ` set (registered r)"
  shows "\<exists>t. getTool r n = Some t \<and> map definitionName (definitionOf r n) = [n]"
proof -
  from assms(2) obtain t where t: "(n, t) \<in> set (registered r)" by auto
  then have "getTool r n = Some t" using assms(1) by (simp add: getTool_def wf_registry_def)
  moreover have "n = toolKey t" using assms(1) t by (force simp: wf_registry_def)
  ultimately show ?thesis by (simp add: definitionOf_def toolKey_def)
qed

lemma definitions_names:
  "wf_registry r \<Longrightarrow> set ns \<subseteq> fst ` set (registered r) \<Longrightarrow>
   map definitionName (concat (map (definitionOf r) ns)) = ns"
proof (induction ns)
  case Nil
  then show ?case by simp
next
  case (Cons n ns)
  then show ?case using definitionOf_name [of r n] by auto
qed

lemma catalog_names:
  assumes "wf_registry r"
  shows "map catalogName (deferredCatalog r) = sort (filter (\<lambda>n. n \<notin> set (activated r)) (deferred r))"
proof -
  have "set ns \<subseteq> fst ` set (registered r) \<Longrightarrow>
      map fst (List.map_filter (\<lambda>n. map_option (\<lambda>t. (n, t)) (getTool r n)) ns) = ns" for ns
    using definitionOf_name [OF assms] by (induction ns) (fastforce simp: map_filter_simps)+
  moreover have "set (sort (filter (\<lambda>n. n \<notin> set (activated r)) (deferred r))) \<subseteq> fst ` set (registered r)"
    using assms by (auto simp: wf_registry_def)
  ultimately show ?thesis by (simp add: deferredCatalog_def comp_def case_prod_beta)
qed

lemma loaded_set: "set (loadedNames r) = {n \<in> fst ` set (registered r). n \<notin> set (deferred r) \<or> n \<in> set (activated r)}"
  by (auto simp: loadedNames_def isLoaded_def)

text \<open>After any sequence of registrations, removals, filters, deferrals and activations the tool names
  are listed once each and sorted, the definitions of the request are exactly those of the loaded
  names in that order (so the request prefix is stable), and every registered tool is either
  loaded or in the deferred catalog, never both.\<close>

theorem registry_lists_every_tool_once:
  "let r = fold apply_op es newEmptyToolRegistry in
   distinct (names r) \<and> sorted (names r)
   \<and> map definitionName (definitions r) = loadedNames r \<and> map definitionName (allDefinitions r) = names r
   \<and> set (loadedNames r) \<inter> set (map catalogName (deferredCatalog r)) = {}
   \<and> set (loadedNames r) \<union> set (map catalogName (deferredCatalog r)) = set (names r)"
proof -
  define r where "r = fold apply_op es newEmptyToolRegistry"
  have w: "wf_registry r" unfolding r_def by (rule registry_run)
  have "map definitionName (definitions r) = loadedNames r"
    unfolding definitions_def loadedNames_def by (rule definitions_names [OF w]) auto
  moreover have "map definitionName (allDefinitions r) = names r"
    unfolding allDefinitions_def by (rule definitions_names [OF w]) simp
  moreover have "set (deferred r) \<subseteq> fst ` set (registered r)" using w unfolding wf_registry_def by blast
  ultimately show ?thesis
    using w unfolding Let_def r_def [symmetric] catalog_names [OF w] loaded_set
    by (auto simp: names_def wf_registry_def)
qed

text \<open>Activating names loads exactly those of them that were waiting in the catalog, reports them sorted
  and without repetition, unloads nothing, and leaves the set of tools as it was.\<close>

theorem activation_loads_what_was_deferred:
  "let r = fold apply_op es newEmptyToolRegistry; (new, r') = activate ns r in
   sorted new \<and> distinct new \<and> set new = set ns \<inter> set (map catalogName (deferredCatalog r))
   \<and> set (loadedNames r') = set (loadedNames r) \<union> set new
   \<and> set (map catalogName (deferredCatalog r')) = set (map catalogName (deferredCatalog r)) - set new
   \<and> names r' = names r"
proof -
  define r where "r = fold apply_op es newEmptyToolRegistry"
  have w: "wf_registry r" unfolding r_def by (rule registry_run)
  have w': "wf_registry (snd (activate ns r))" using wf_op [OF w, of "Activate ns"] by simp
  let ?new = "activateLoop (deferred r) (activated r) ns"
  have eq: "activate ns r = (sort ?new, r\<lparr>activated := activated r @ ?new\<rparr>)" by (simp add: activate_def Let_def)
  note new = activateLoop_new [of "deferred r" "activated r" ns]
  have "set (deferred r) \<subseteq> fst ` set (registered r)" using w unfolding wf_registry_def by blast
  with new show ?thesis
    unfolding Let_def r_def [symmetric] eq prod.case catalog_names [OF w] catalog_names [OF w' [unfolded eq snd_conv]] loaded_set
    by (auto simp: names_def)
qed

subsection \<open>Searching the catalog\<close>

fun fieldsAlnum :: "string \<Rightarrow> string \<Rightarrow> string list" where
  "fieldsAlnum acc [] = (if acc = [] then [] else [acc])"
| "fieldsAlnum acc (c # cs) =
     (if (97 \<le> byte c \<and> byte c \<le> 122) \<or> (48 \<le> byte c \<and> byte c \<le> 57) then fieldsAlnum (acc @ [c]) cs
      else if acc = [] then fieldsAlnum [] cs else acc # fieldsAlnum [] cs)"

definition queryTerms :: "(string \<Rightarrow> string) \<Rightarrow> string \<Rightarrow> string list" where
  "queryTerms lower query = filter (\<lambda>f. length f > 1) (fieldsAlnum [] (lower query))"

definition scoreEntry :: "(string \<Rightarrow> string) \<Rightarrow> catalog_entry \<Rightarrow> string list \<Rightarrow> nat" where
  "scoreEntry lower e terms =
     sum_list (map (\<lambda>t. (if contains_sub (lower (catalogName e)) t then 2 else 0)
                      + (if contains_sub (lower (catalogSummary e)) t then 1 else 0)) terms)"

fun matchNames :: "catalog_entry list \<Rightarrow> string set \<Rightarrow> string list \<Rightarrow> catalog_entry list" where
  "matchNames catalog claimed [] = []"
| "matchNames catalog claimed (n # ns) =
     (case map_of (map (\<lambda>e. (catalogName e, e)) catalog) (trim_space n) of
        None \<Rightarrow> matchNames catalog claimed ns
      | Some e \<Rightarrow>
          if catalogName e \<in> claimed then matchNames catalog claimed ns
          else e # matchNames catalog (insert (catalogName e) claimed) ns)"

definition selectMatches ::
  "(string \<Rightarrow> string) \<Rightarrow> catalog_entry list \<Rightarrow> string list \<Rightarrow> string \<Rightarrow> catalog_entry list" where
  "selectMatches lower catalog ns query =
     (let named = matchNames catalog {} ns; terms = queryTerms lower query in
      if terms = [] then named
      else named @ sort_key (\<lambda>e. (- int (scoreEntry lower e terms), catalogName e))
             (filter (\<lambda>e. catalogName e \<notin> set (map catalogName named) \<and> scoreEntry lower e terms > 0) catalog))"

definition maxActivationsPerCall :: nat where
  "maxActivationsPerCall = 5"

record search_result =
  searchLoaded :: "string list"
  searchMatched :: "catalog_entry list"
  searchRemaining :: nat
  searchMessage :: string

definition searchTools ::
  "(string \<Rightarrow> string) \<Rightarrow> string list \<Rightarrow> string \<Rightarrow> registry \<Rightarrow> search_result \<times> registry" where
  "searchTools lower ns query r =
     (let catalog = deferredCatalog r;
          matches = take maxActivationsPerCall (selectMatches lower catalog ns query);
          (new, r') = activate (map catalogName matches) r in
      (\<lparr>searchLoaded = new, searchMatched = matches, searchRemaining = length (deferredCatalog r'),
        searchMessage =
          (if new = [] \<and> catalog = [] then ''No tools are deferred; everything available is already loaded.''
           else if new = [] then
             ''No catalog entry matched. Check the 'Additional Tools' list and retry with an exact name.''
           else ''Loaded '' @ decimal (length new) @ '' tool(s). They are callable on your next turn.'')\<rparr>, r'))"

lemma matchNames_spec:
  "distinct (map catalogName (matchNames catalog claimed ns))
   \<and> set (map catalogName (matchNames catalog claimed ns)) \<inter> claimed = {}
   \<and> set (matchNames catalog claimed ns) \<subseteq> set catalog"
proof (induction catalog claimed ns rule: matchNames.induct)
  case (1 catalog claimed)
  then show ?case by simp
next
  case (2 catalog claimed n ns)
  show ?case
  proof (cases "map_of (map (\<lambda>e. (catalogName e, e)) catalog) (trim_space n)")
    case None
    then show ?thesis using "2.IH"(1) by simp
  next
    case (Some e)
    then have "e \<in> set catalog" by (auto dest: map_of_SomeD)
    then show ?thesis using "2.IH"(2,3) [OF Some] Some by auto
  qed
qed

lemma selectMatches_spec:
  assumes "distinct (map catalogName catalog)"
  shows "distinct (map catalogName (selectMatches lower catalog ns query))
    \<and> set (selectMatches lower catalog ns query) \<subseteq> set catalog"
proof -
  let ?named = "matchNames catalog {} ns"
  let ?P = "\<lambda>e. catalogName e \<notin> set (map catalogName ?named) \<and> scoreEntry lower e (queryTerms lower query) > 0"
  note n = matchNames_spec [of catalog "{}" ns]
  have "distinct (map catalogName (filter ?P catalog))" using assms by (rule distinct_map_filter)
  then have "distinct (map catalogName (sort_key k (filter ?P catalog)))" for k :: "catalog_entry \<Rightarrow> int \<times> string"
    by (simp add: distinct_map)
  then show ?thesis using n by (auto simp: selectMatches_def Let_def) (metis imageI)+
qed

text \<open>A search loads at most five tools, each once, all from the catalog; it reports as loaded exactly
  what it matched, sorted, and the catalog shrinks by exactly these.\<close>

theorem search_loads_its_matches:
  "let r = fold apply_op es newEmptyToolRegistry; (res, r') = searchTools lower ns query r in
   length (searchMatched res) \<le> 5 \<and> distinct (map catalogName (searchMatched res))
   \<and> set (searchMatched res) \<subseteq> set (deferredCatalog r)
   \<and> searchLoaded res = sort (map catalogName (searchMatched res))
   \<and> searchRemaining res + length (searchMatched res) = length (deferredCatalog r)"
proof -
  define r where "r = fold apply_op es newEmptyToolRegistry"
  have w: "wf_registry r" unfolding r_def by (rule registry_run)
  have dc: "distinct (map catalogName (deferredCatalog r))"
    using w unfolding catalog_names [OF w] wf_registry_def by simp
  let ?ms = "take maxActivationsPerCall (selectMatches lower (deferredCatalog r) ns query)"
  note sel = selectMatches_spec [OF dc, of lower ns query]
  have dm: "distinct (map catalogName ?ms)" using sel by (simp add: take_map [symmetric] distinct_take)
  have sub: "set ?ms \<subseteq> set (deferredCatalog r)" using sel set_take_subset by fast
  have names: "set (map catalogName ?ms) \<subseteq> set (map catalogName (deferredCatalog r))" using sub by auto
  then have free: "set (map catalogName ?ms) \<subseteq> set (deferred r) - set (activated r)"
    unfolding catalog_names [OF w] by auto
  let ?r' = "r\<lparr>activated := activated r @ map catalogName ?ms\<rparr>"
  have act: "activate (map catalogName ?ms) r = (sort (map catalogName ?ms), ?r')"
    using activateLoop_id [OF dm free] by (simp add: activate_def Let_def)
  have w': "wf_registry ?r'" using wf_op [OF w, of "Activate (map catalogName ?ms)"] act by simp
  have "length (deferredCatalog ?r') = length (filter (\<lambda>n. n \<notin> set (activated ?r')) (deferred r))"
    using arg_cong [OF catalog_names [OF w'], of length] by simp
  also have "\<dots> + length ?ms = length (filter (\<lambda>n. n \<notin> set (activated r)) (deferred r))"
  proof -
    have "distinct (deferred r)" using w unfolding wf_registry_def by blast
    then have "length (filter P (deferred r)) = card {n \<in> set (deferred r). P n}" for P
      by (metis distinct_card distinct_filter set_filter)
    moreover have "{n \<in> set (deferred r). n \<notin> set (activated r)} =
        {n \<in> set (deferred r). n \<notin> set (activated ?r')} \<union> set (map catalogName ?ms)"
      using free by auto
    moreover have "{n \<in> set (deferred r). n \<notin> set (activated ?r')} \<inter> set (map catalogName ?ms) = {}" by auto
    moreover have "card (set (map catalogName ?ms)) = length ?ms" using distinct_card [OF dm] by simp
    ultimately show ?thesis by (simp add: card_Un_disjoint)
  qed
  also have "\<dots> = length (deferredCatalog r)" using arg_cong [OF catalog_names [OF w], of length] by simp
  finally have count: "length (deferredCatalog ?r') + length ?ms = length (deferredCatalog r)" .
  show ?thesis
    unfolding Let_def r_def [symmetric] searchTools_def act prod.case
    using dm sub count by (simp add: maxActivationsPerCall_def)
qed

subsection \<open>Prompt profiles\<close>

datatype prompt_profile = PromptProfileFull | PromptProfileCompact

text \<open>The quarter of the window, compared exactly.\<close>

definition resolvePromptProfile :: "int \<Rightarrow> int \<Rightarrow> prompt_profile" where
  "resolvePromptProfile window tokens =
     (if window \<le> 0 \<or> tokens \<le> 0 then PromptProfileFull
      else if 4 * tokens > window then PromptProfileCompact
      else PromptProfileFull)"

definition workspaceFileCharacters :: "prompt_profile \<Rightarrow> nat" where
  "workspaceFileCharacters p = (if p = PromptProfileCompact then 2000 else 8000)"

definition toolSearchName :: string where
  "toolSearchName = ''tool_search''"

record profiled_runner =
  runnerTools :: registry
  allowedTools :: "string list"
  promptProfile :: prompt_profile
  toolsDeferred :: bool

definition estimateStaticPrefixTokens :: "codec \<Rightarrow> string \<Rightarrow> registry \<Rightarrow> nat" where
  "estimateStaticPrefixTokens c systemPrompt r =
     estimateTokens systemPrompt
     + estimateToolDefinitionsTokens c (filter (\<lambda>d. definitionName d \<noteq> toolSearchName) (allDefinitions r))"

definition defaultCoreTools :: "string list" where
  "defaultCoreTools = [''ask_user_question'', ''datetime'', ''filesystem'', ''shell'', ''user_memory'',
     ''user_workspace'', ''web_fetch'', ''web_search'']"

definition resolveCoreTools :: "string list option \<Rightarrow> string list" where
  "resolveCoreTools configured =
     (case configured of Some ts \<Rightarrow> if ts \<noteq> [] then ts else defaultCoreTools | None \<Rightarrow> defaultCoreTools)"

definition minimumDeferrableTools :: int where
  "minimumDeferrableTools = 4"

text \<open>
  \<open>applyPromptProfile\<close>: \<open>search\<close> is the tool built by \<open>toolsearch.New\<close>, the static prefix is
  measured by the caller of the model.
\<close>

definition applyPromptProfile :: "tool \<Rightarrow> string list \<Rightarrow> int \<Rightarrow> int \<Rightarrow> profiled_runner \<Rightarrow> profiled_runner" where
  "applyPromptProfile search core window tokens p0 =
     (let profile = resolvePromptProfile window tokens; p = p0\<lparr>promptProfile := profile\<rparr>; r = runnerTools p in
      if toolsDeferred p then
        (if profile = PromptProfileFull
         then p\<lparr>runnerTools := removeTool toolSearchName (loadAll r), toolsDeferred := False\<rparr>
         else p)
      else if profile \<noteq> PromptProfileCompact then p
      else if \<not> isAllowed toolSearchName (allowedTools p) then p
      else if int (length (names r)) - int (length (filter (\<lambda>n. getTool r n \<noteq> None) core)) < minimumDeferrableTools then p
      else if getTool r toolSearchName \<noteq> None then p
      else p\<lparr>runnerTools := deferTools (core @ [toolSearchName]) (register search r), toolsDeferred := True\<rparr>)"

subsection \<open>Turns of one runner\<close>

text \<open>
  A runner between turns: a turn applies the profile with its window, its measure and its core
  tools; within a turn the model searches or calls a deferred tool, which activates names.
\<close>

datatype turn_event = Turn "string list" int int | Activated "string list"

fun turn_step :: "tool \<Rightarrow> turn_event \<Rightarrow> profiled_runner \<Rightarrow> profiled_runner" where
  "turn_step search (Turn core window tokens) p = applyPromptProfile search core window tokens p"
| "turn_step search (Activated ns) p = p\<lparr>runnerTools := snd (activate ns (runnerTools p))\<rparr>"

definition turn_inv :: "tool \<Rightarrow> string set \<Rightarrow> string list \<Rightarrow> profiled_runner \<Rightarrow> bool" where
  "turn_inv search B allowed p \<longleftrightarrow> toolKey search = toolSearchName \<and> wf_registry (runnerTools p) \<and> allowedTools p = allowed
     \<and> (if toolsDeferred p
        then set (names (runnerTools p)) = insert toolSearchName B \<and> toolSearchName \<notin> B
          \<and> toolSearchName \<notin> set (deferred (runnerTools p)) \<and> isAllowed toolSearchName allowed
        else set (names (runnerTools p)) = B \<and> deferred (runnerTools p) = [])"

lemma names_register: "set (names (register t r)) = insert (toolKey t) (set (names r))"
  by (simp add: register_def dom_update [symmetric] update_conv' dom_map_of_conv_image_fst [symmetric])

lemma names_remove: "set (names (removeTool n r)) = set (names r) - {n}"
  by (simp add: removeTool_def delete_names)

lemma getTool_None: "getTool r n = None \<longleftrightarrow> n \<notin> set (names r)"
  by (simp add: getTool_def map_of_eq_None_iff)

lemma names_update [simp]: "names (r\<lparr>deferred := ds\<rparr>) = names r" "names (r\<lparr>activated := as\<rparr>) = names r"
  by (simp_all add: names_def)

lemma turn_inv_profile:
  assumes i: "turn_inv search B allowed p"
  shows "turn_inv search B allowed (applyPromptProfile search core window tokens p)"
proof (cases "toolsDeferred p")
  case True
  have w: "wf_registry (removeTool toolSearchName (loadAll (runnerTools p)))"
    using i wf_op [of "runnerTools p" LoadAll] wf_remove by (simp add: turn_inv_def)
  have n: "set (names (removeTool toolSearchName (loadAll (runnerTools p)))) = B"
    unfolding names_remove using i True by (simp add: turn_inv_def loadAll_def)
  show ?thesis using i True w n
    by (simp add: applyPromptProfile_def turn_inv_def Let_def) (simp add: removeTool_def loadAll_def)
next
  case False
  let ?r = "runnerTools p"
  let ?new = "deferTools (core @ [toolSearchName]) (register search ?r)"
  have w: "wf_registry ?new"
    using i wf_op [of ?r "Register search"] wf_op [of "register search ?r" "Defer (core @ [toolSearchName])"]
    by (simp add: turn_inv_def)
  have n: "set (names ?new) = insert toolSearchName B"
    using i False names_register [of search ?r] by (simp add: turn_inv_def deferTools_def)
  have d: "toolSearchName \<notin> set (deferred ?new)" by (simp add: deferTools_def)
  have b: "getTool ?r toolSearchName = None \<Longrightarrow> toolSearchName \<notin> B"
    using i False by (simp add: getTool_None turn_inv_def)
  show ?thesis using i False w n d b
    by (simp add: applyPromptProfile_def turn_inv_def Let_def)
qed

lemma turn_inv_activate:
  assumes "turn_inv search B allowed p"
  shows "turn_inv search B allowed (p\<lparr>runnerTools := snd (activate ns (runnerTools p))\<rparr>)"
  using assms wf_op [of "runnerTools p" "Activate ns"]
  by (auto simp: turn_inv_def activate_def Let_def split: if_splits)

lemma turn_inv_step: "turn_inv search B allowed p \<Longrightarrow> turn_inv search B allowed (turn_step search e p)"
  by (cases e) (simp_all add: turn_inv_profile turn_inv_activate)

interpretation turns: machine "turn_step search" "turn_inv search B allowed" for search B allowed
  by unfold_locales (rule turn_inv_step)

lemma full_lists_all: "wf_registry r \<Longrightarrow> deferred r = [] \<Longrightarrow> loadedNames r = names r"
  by (auto simp: loadedNames_def isLoaded_def intro!: filter_True)

text \<open>Over any sequence of turns, whatever windows and measures they see, the prompt profile neither adds
  nor removes a tool of the agent: only the search tool comes and goes, it is there exactly while
  definitions are deferred and never against the allow-list, every other tool stays registered
  and is either loaded or in the catalog, and without deferral everything is loaded.\<close>

theorem profile_keeps_the_tools:
  assumes "toolKey search = toolSearchName" and "wf_registry (runnerTools p)" and "deferred (runnerTools p) = []"
    and "\<not> toolsDeferred p"
  shows "let q = fold (turn_step search) es p; r = runnerTools q in
    (if toolsDeferred q
     then set (names r) = insert toolSearchName (set (names (runnerTools p)))
       \<and> toolSearchName \<in> set (loadedNames r) \<and> isAllowed toolSearchName (allowedTools p)
     else names r = loadedNames r \<and> set (names r) = set (names (runnerTools p)))
    \<and> set (loadedNames r) \<union> set (map catalogName (deferredCatalog r)) = set (names r)"
proof -
  define q where "q = fold (turn_step search) es p"
  have "turn_inv search (set (names (runnerTools p))) (allowedTools p) p"
    using assms by (simp add: turn_inv_def)
  then have i: "turn_inv search (set (names (runnerTools p))) (allowedTools p) q"
    unfolding q_def by (rule turns.run_inv)
  then have w: "wf_registry (runnerTools q)" by (simp add: turn_inv_def)
  have "set (deferred (runnerTools q)) \<subseteq> fst ` set (registered (runnerTools q))"
    using w unfolding wf_registry_def by blast
  then have "set (loadedNames (runnerTools q)) \<union> set (map catalogName (deferredCatalog (runnerTools q))) =
      set (names (runnerTools q))"
    unfolding catalog_names [OF w] loaded_set by auto
  moreover have "toolsDeferred q \<Longrightarrow> toolSearchName \<in> set (loadedNames (runnerTools q))"
    using i unfolding loaded_set turn_inv_def set_names by auto
  moreover have "\<not> toolsDeferred q \<Longrightarrow> names (runnerTools q) = loadedNames (runnerTools q)"
    using full_lists_all [OF w] i unfolding turn_inv_def by simp
  ultimately show ?thesis
    using i unfolding Let_def q_def [symmetric] turn_inv_def by (cases "toolsDeferred q") simp_all
qed

subsection \<open>Witnesses\<close>

definition sampleTool :: "string \<Rightarrow> tool" where
  "sampleTool n = \<lparr>toolDefinition = \<lparr>definitionName = n, definitionDescription = ''A tool. It helps.'',
       definitionParameters = None\<rparr>,
     toolPolicyGroups = [\<lparr>policyGroupName = ''*'', policyGroupDefault = ''admin_only'', policyGroupActions = []\<rparr>],
     toolArgumentPolicy = None, toolOverlay = None\<rparr>"

definition groupedTool :: tool where
  "groupedTool = (sampleTool ''jobs'')\<lparr>toolPolicyGroups :=
     [\<lparr>policyGroupName = ''read'', policyGroupDefault = ''anyone'', policyGroupActions = [''list'']\<rparr>,
      \<lparr>policyGroupName = ''write'', policyGroupDefault = ''admin_only'', policyGroupActions = [''add'']\<rparr>]\<rparr>"

definition actionCodec :: "string \<Rightarrow> codec" where
  "actionCodec a = rawCodec\<lparr>decodeJson := \<lambda>t. Some (JObject [(''action'', JString a)])\<rparr>"

lemma policy_is_strictest_witness:
  "\<exists>d. resolveToolPolicy (actionCodec ''add'') (\<lambda>s. s) \<lparr>configuredPolicies = [], callerIsAdmin = False\<rparr> groupedTool ''jobs'' [] =
    Done d \<and> decisionAction d = PolicyDeny"
proof -
  have l: "isGroupOf g (toolPolicyGroups groupedTool) ''add'' \<Longrightarrow> policyGroupDefault g = ''admin_only''" for g
    by (auto simp: isGroupOf_def groupedTool_def less_Suc_eq split: if_splits)
  have "toolPolicyGroups groupedTool \<noteq> []" "parseAction (actionCodec ''add'') (\<lambda>s. s) [] = ''add''"
    by (simp_all add: groupedTool_def parseAction_def actionCodec_def)
  with policy_is_strictest [of groupedTool "actionCodec ''add''" "\<lambda>s. s"
      "\<lparr>configuredPolicies = [], callerIsAdmin = False\<rparr>" "''jobs''" "[]"] l
  show ?thesis by (fastforce simp: levelFor_def)
qed

definition sampleRunner :: profiled_runner where
  "sampleRunner = \<lparr>runnerTools = newEmptyToolRegistry, allowedTools = [], promptProfile = PromptProfileFull,
     toolsDeferred = False\<rparr>"

lemma profile_keeps_the_tools_witness:
  "set (names (runnerTools (fold (turn_step (sampleTool toolSearchName)) [Turn [''a''] 100 90, Turn [''a''] 100000 90]
      sampleRunner))) \<subseteq> {toolSearchName}"
proof -
  have pre: "toolKey (sampleTool toolSearchName) = toolSearchName" "wf_registry (runnerTools sampleRunner)"
      "deferred (runnerTools sampleRunner) = []" "\<not> toolsDeferred sampleRunner"
    using wf_empty by (simp_all add: sampleRunner_def toolKey_def sampleTool_def newEmptyToolRegistry_def)
  have "set (names (runnerTools sampleRunner)) = {}" by (simp add: sampleRunner_def newEmptyToolRegistry_def)
  then show ?thesis
    using profile_keeps_the_tools [OF pre, of "[Turn [''a''] 100 90, Turn [''a''] 100000 90]"]
    unfolding Let_def by (metis order_refl subset_insertI)
qed

end
