(* ===== verification/RunLoop.thy ===== *)
theory RunLoop
  imports CompactionSummary ToolRegistry "HOL-Library.Multiset"
begin

text \<open>
  The agent loop of \<open>internal/runners/runner.go\<close>: \<open>executeRun\<close> from its first round on, with the
  mid-run queue, the assembly of streamed tool calls and the three phases of a tool round. What
  the outside contributes (the model's answers, the results of tools, approvals, mid-run messages,
  cancellation, the identifiers of new rows, failing appends) is a record of functions that are
  asked with the number of the request, the append, the drain or the round, so every schedule of
  outside events is one such record. Usage counters, callbacks and logging are left out, and the
  stored form of an image result is the result itself.
\<close>

subsection \<open>Streams\<close>

record call_delta =
  deltaIndex :: int
  deltaId :: string
  deltaName :: string
  deltaArguments :: string

record stream_choice =
  choiceContent :: string
  choiceFinish :: string
  choiceDeltas :: "call_delta list"

datatype stream_event = StreamError | StreamDone | StreamEmpty | StreamChunk "stream_choice list"

definition applyDelta :: "call_delta \<Rightarrow> (int \<times> tool_call) list \<Rightarrow> (int \<times> tool_call) list" where
  "applyDelta d m =
     (let tc = (case map_of m (deltaIndex d) of
                  None \<Rightarrow> \<lparr>callId = [], callName = [], callArguments = []\<rparr>
                | Some tc \<Rightarrow> tc) in
      AList.update (deltaIndex d)
        \<lparr>callId = (if deltaId d \<noteq> [] then deltaId d else callId tc),
         callName = callName tc @ deltaName d, callArguments = callArguments tc @ deltaArguments d\<rparr> m)"

definition assembleToolCalls :: "call_delta list \<Rightarrow> tool_call list" where
  "assembleToolCalls ds = map snd (sort_key fst (fold applyDelta ds []))"

record collected =
  streamText :: string
  streamStop :: string
  streamDeltas :: "call_delta list"

definition collectChoice :: "stream_choice \<Rightarrow> collected \<Rightarrow> collected" where
  "collectChoice x c =
     \<lparr>streamText = streamText c @ choiceContent x,
      streamStop = (if choiceFinish x \<noteq> [] then choiceFinish x else streamStop c),
      streamDeltas = streamDeltas c @ choiceDeltas x\<rparr>"

text \<open>The events up to the first error or end; None stands for a stream error.\<close>

fun collectStream :: "collected \<Rightarrow> stream_event list \<Rightarrow> collected option" where
  "collectStream c [] = Some c"
| "collectStream c (StreamError # es) = None"
| "collectStream c (StreamDone # es) = Some c"
| "collectStream c (StreamEmpty # es) = collectStream c es"
| "collectStream c (StreamChunk xs # es) = collectStream (fold collectChoice xs c) es"

subsection \<open>The assembled calls\<close>

definition deltasOf :: "int \<Rightarrow> call_delta list \<Rightarrow> call_delta list" where
  "deltasOf i ds = filter (\<lambda>d. deltaIndex d = i) ds"

text \<open>The reference: the call of an index is read off the deltas of that index.\<close>

definition referenceCall :: "int \<Rightarrow> call_delta list \<Rightarrow> tool_call" where
  "referenceCall i ds =
     \<lparr>callId = (let ids = filter (\<lambda>s. s \<noteq> []) (map deltaId (deltasOf i ds)) in if ids = [] then [] else last ids),
      callName = concat (map deltaName (deltasOf i ds)),
      callArguments = concat (map deltaArguments (deltasOf i ds))\<rparr>"

lemma applyDelta_distinct: "distinct (map fst m) \<Longrightarrow> distinct (map fst (applyDelta d m))"
  by (simp add: applyDelta_def Let_def distinct_update)

lemma applyDelta_keys: "set (map fst (applyDelta d m)) = insert (deltaIndex d) (set (map fst m))"
  by (simp only: applyDelta_def Let_def update_keys set_map split: if_split) auto

lemma applyDelta_lookup:
  "map_of (applyDelta d m) i =
    (if i = deltaIndex d
     then (let tc = (case map_of m i of None \<Rightarrow> \<lparr>callId = [], callName = [], callArguments = []\<rparr> | Some tc \<Rightarrow> tc) in
       Some \<lparr>callId = (if deltaId d \<noteq> [] then deltaId d else callId tc),
             callName = callName tc @ deltaName d, callArguments = callArguments tc @ deltaArguments d\<rparr>)
     else map_of m i)"
  by (simp add: applyDelta_def Let_def update_conv)

lemma referenceCall_snoc:
  "referenceCall i (ds @ [d]) =
    (if deltaIndex d = i
     then \<lparr>callId = (if deltaId d \<noteq> [] then deltaId d else callId (referenceCall i ds)),
           callName = callName (referenceCall i ds) @ deltaName d,
           callArguments = callArguments (referenceCall i ds) @ deltaArguments d\<rparr>
     else referenceCall i ds)"
  by (simp add: referenceCall_def deltasOf_def)

lemma referenceCall_none:
  "i \<notin> deltaIndex ` set ds \<Longrightarrow> referenceCall i ds = \<lparr>callId = [], callName = [], callArguments = []\<rparr>"
proof -
  assume "i \<notin> deltaIndex ` set ds"
  then have "deltasOf i ds = []" by (auto simp: deltasOf_def filter_empty_conv)
  then show ?thesis by (simp add: referenceCall_def)
qed

lemma fold_deltas:
  "distinct (map fst (fold applyDelta ds [])) \<and> set (map fst (fold applyDelta ds [])) = deltaIndex ` set ds
   \<and> (\<forall>i. map_of (fold applyDelta ds []) i =
        (if i \<in> deltaIndex ` set ds then Some (referenceCall i ds) else None))"
proof (induction ds rule: rev_induct)
  case Nil
  then show ?case by simp
next
  case (snoc d ds)
  define m where "m = fold applyDelta ds []"
  have m: "distinct (map fst m)" "set (map fst m) = deltaIndex ` set ds"
    "\<And>i. map_of m i = (if i \<in> deltaIndex ` set ds then Some (referenceCall i ds) else None)"
    using snoc unfolding m_def by blast+
  have "map_of (applyDelta d m) i =
      (if i \<in> deltaIndex ` set (ds @ [d]) then Some (referenceCall i (ds @ [d])) else None)" for i
    unfolding applyDelta_lookup m(3) referenceCall_snoc
    using referenceCall_none [of i ds] by (cases "i = deltaIndex d") (auto simp: Let_def)
  moreover have "set (map fst (applyDelta d m)) = deltaIndex ` set (ds @ [d])"
    unfolding applyDelta_keys m(2) by simp
  moreover have "fold applyDelta (ds @ [d]) [] = applyDelta d m" by (simp add: m_def)
  ultimately show ?case using applyDelta_distinct [OF m(1)] by (simp only: simp_thms)
qed

lemma assembled_reference:
  "assembleToolCalls ds = map (\<lambda>i. referenceCall i ds) (sorted_list_of_set (deltaIndex ` set ds))"
proof -
  let ?m = "fold applyDelta ds []"
  let ?s = "sort_key fst ?m"
  note f = fold_deltas [of ds]
  have d: "distinct (map fst ?s)" using f by (simp add: distinct_map)
  have "map fst ?s = sorted_list_of_set (set (map fst ?s))"
    using d sorted_sort_key [of fst ?m] by (metis sorted_list_of_set.idem_if_sorted_distinct)
  then have keys: "map fst ?s = sorted_list_of_set (deltaIndex ` set ds)" using f by simp
  have "snd p = referenceCall (fst p) ds" if "p \<in> set ?s" for p
  proof -
    have "p \<in> set ?m" using that by simp
    then have "map_of ?m (fst p) = Some (snd p)" using conjunct1 [OF f] by (metis map_of_is_SomeI surjective_pairing)
    moreover have "map_of ?m (fst p) =
        (if fst p \<in> deltaIndex ` set ds then Some (referenceCall (fst p) ds) else None)" using f by blast
    ultimately show ?thesis by (simp split: if_splits)
  qed
  then have "map snd ?s = map (\<lambda>i. referenceCall i ds) (map fst ?s)" by simp
  then show ?thesis unfolding assembleToolCalls_def keys .
qed

text \<open>However the provider cuts and interleaves the pieces of its tool calls, the calls come out one
  per index, in the order of the indices, each with the concatenation of its name and argument
  pieces and its last identifier.\<close>

theorem assembled_calls_match_reference:
  "assembleToolCalls ds = map (\<lambda>i. referenceCall i ds) (sorted_list_of_set (deltaIndex ` set ds))"
  by (rule assembled_reference)

subsection \<open>The state of a run\<close>

record mid_message =
  midText :: string
  midAttachments :: "block list"

datatype answer = RequestError string | Streamed "stream_event list"

definition isContextLengthError :: "string \<Rightarrow> bool" where
  "isContextLengthError err \<longleftrightarrow>
     contains_sub err ''context_length_exceeded'' \<or> contains_sub err ''maximum context length''
     \<or> contains_sub err ''tokens exceed'' \<or> contains_sub err ''too many tokens''
     \<or> contains_sub err ''input too long''"

datatype approval_answer = Approved | Rejected string | ApprovalError string | Interrupted

record run_env =
  answerOf :: "nat \<Rightarrow> chat_message list \<Rightarrow> tool_definition list \<Rightarrow> answer"
  execute :: "nat \<Rightarrow> tool_call \<Rightarrow> string + string"
  activates :: "nat \<Rightarrow> tool_call \<Rightarrow> string list"
  approvalOf :: "nat \<Rightarrow> tool_call \<Rightarrow> approval_answer"
  arrivals :: "nat \<Rightarrow> mid_message list"
  cancelled :: "nat \<Rightarrow> bool"
  appendOk :: "nat \<Rightarrow> bool"
  freshId :: "nat \<Rightarrow> string"
  compaction :: "nat \<Rightarrow> compaction_env"
  policyOf :: policy_context
  fromWeb :: bool
  repair :: "string \<Rightarrow> string"
  lower :: "string \<Rightarrow> string"
  jsonCodec :: codec
  systemPrompt :: string
  mediaUrl :: "string \<Rightarrow> string"
  overlays :: "string list"
  voice :: string

text \<open>
  \<open>live\<close> is the in-memory history, \<open>persisted\<close> the rows appended by this run; \<open>prompts\<close> logs what the
  model was asked; the counters number the drains, the cancellation checks and the summarizer
  requests.
\<close>

record run_state =
  live :: history
  persisted :: "row list"
  toolset :: registry
  prompts :: "chat_message list list"
  contextRetries :: nat
  drains :: nat
  checks :: nat
  summaryRequests :: nat
  responseText :: string
  stopReason :: string

datatype 's step = Next 's | Break 's | Fail 's | Crash

fun then_step :: "'s step \<Rightarrow> ('s \<Rightarrow> 's step) \<Rightarrow> 's step" where
  "then_step (Next s) f = f s"
| "then_step (Break s) f = Break s"
| "then_step (Fail s) f = Fail s"
| "then_step Crash f = Crash"

subsection \<open>Rows\<close>

definition textRow :: "string \<Rightarrow> string \<Rightarrow> row" where
  "textRow r t = \<lparr>rowId = [], rowRole = r, rowContent = t, rowBlocks = [], rowCalls = [], rowToolCallId = [],
     rowToolName = [], rowStop = [], rowResume = [], rowCoverage = False\<rparr>"

definition midRunRow :: "mid_message \<Rightarrow> row" where
  "midRunRow m =
     (if midAttachments m \<noteq> []
      then (textRow ''user'' (midText m))\<lparr>rowBlocks :=
             \<lparr>blockType = ''text'', blockText = midText m, blockFormat = [], blockMedia = [], blockFile = []\<rparr>
             # map (\<lambda>b. b\<lparr>blockType := ''attachment'', blockText := []\<rparr>) (midAttachments m)\<rparr>
      else textRow ''user'' (midText m))"

definition newToolMessage :: "string \<Rightarrow> string \<Rightarrow> string \<Rightarrow> row" where
  "newToolMessage i n t = (textRow ''tool'' t)\<lparr>rowToolCallId := i, rowToolName := n\<rparr>"

text \<open>
  \<open>appendConversationMessage\<close> takes the row by value: a row without an identifier gets a fresh one in
  the store only, and the caller then appends its own copy to the in-memory history.
\<close>

definition appendRow :: "run_env \<Rightarrow> row \<Rightarrow> run_state \<Rightarrow> run_state step" where
  "appendRow e r s =
     (let n = length (persisted s) in
      if \<not> appendOk e n then Fail s
      else Next (s\<lparr>persisted := persisted s @ [if rowId r = [] then r\<lparr>rowId := freshId e n\<rparr> else r],
                   live := live s @ [Some r]\<rparr>))"

fun appendRows :: "run_env \<Rightarrow> row list \<Rightarrow> run_state \<Rightarrow> run_state step" where
  "appendRows e [] s = Next s"
| "appendRows e (r # rs) s = then_step (appendRow e r s) (appendRows e rs)"

definition drain :: "run_env \<Rightarrow> run_state \<Rightarrow> mid_message list \<times> run_state" where
  "drain e s = (arrivals e (drains s), s\<lparr>drains := drains s + 1\<rparr>)"

definition checkCancelled :: "run_env \<Rightarrow> run_state \<Rightarrow> run_state step" where
  "checkCancelled e s =
     (if cancelled e (checks s) then Fail (s\<lparr>checks := checks s + 1\<rparr>) else Next (s\<lparr>checks := checks s + 1\<rparr>))"

subsection \<open>One round\<close>

definition roundLimits :: compression_limits where
  "roundLimits = \<lparr>thresholdTenths = 8, minKeepMessages = 10, minKeepRecentTokens = 8000\<rparr>"

definition retryLimits :: compression_limits where
  "retryLimits = \<lparr>thresholdTenths = 0, minKeepMessages = 6, minKeepRecentTokens = 4000\<rparr>"

text \<open>\<open>compressContext\<close> within a run: a summary row goes to the store, not to the in-memory history.\<close>

definition compress ::
  "run_env \<Rightarrow> compression_limits \<Rightarrow> chat_message list \<Rightarrow> run_state \<Rightarrow>
   (chat_message list \<times> run_state) outcome" where
  "compress e l ms s =
     and_then (compressContext (compaction e (length (persisted s))) (jsonCodec e) (summaryRequests s) (live s) ms
                 (definitions (toolset s)) l)
       (\<lambda>(ms', r, n). Done (ms', s\<lparr>summaryRequests := n,
          persisted := persisted s @ (case r of None \<Rightarrow> [] | Some x \<Rightarrow> [x])\<rparr>))"

definition roundPrompt :: "run_env \<Rightarrow> run_state \<Rightarrow> (chat_message list \<times> run_state) outcome" where
  "roundPrompt e s =
     and_then (buildMessages (systemPrompt e) (mediaUrl e) (overlays e) (voice e) (live s)) (\<lambda>ms.
       compress e roundLimits (truncateOldToolResults ms 10 8000) s)"

text \<open>The first phase, one call at a time: the calls to execute and the number of refused ones.\<close>

record filter_state =
  work :: "tool_call list"
  denied :: nat
  interrupted :: bool
  runState :: run_state

definition refuse :: "run_env \<Rightarrow> tool_call \<Rightarrow> string \<Rightarrow> filter_state \<Rightarrow> filter_state step" where
  "refuse e tc result f =
     (case appendRow e (newToolMessage (callId tc) (callName tc) result) (runState f) of
        Next s \<Rightarrow> Next (f\<lparr>runState := s, denied := denied f + 1\<rparr>)
      | Break s \<Rightarrow> Break (f\<lparr>runState := s\<rparr>)
      | Fail s \<Rightarrow> Fail (f\<lparr>runState := s\<rparr>)
      | Crash \<Rightarrow> Crash)"

definition accept :: "tool_call \<Rightarrow> filter_state \<Rightarrow> filter_state" where
  "accept tc f = f\<lparr>work := work f @ [tc]\<rparr>"

definition filterCall :: "run_env \<Rightarrow> tool_call \<Rightarrow> filter_state \<Rightarrow> filter_state step" where
  "filterCall e tc f =
     (let s = runState f; name = callName tc in
      case getTool (toolset s) name of
        None \<Rightarrow> Next f
      | Some t \<Rightarrow>
          if \<not> isLoaded (toolset s) name
          then refuse e tc
                 (''error: '' @ name @ '' was not loaded, so its parameters were not available to you and the call was not executed. ''
                  @ ''Its definition is now loaded '' @ [CHR 0xE2, CHR 0x80, CHR 0x94]
                  @ '' call it again with arguments that match the schema.'')
                 (f\<lparr>runState := s\<lparr>toolset := snd (activate [name] (toolset s))\<rparr>\<rparr>)
          else
            (case resolveToolPolicy (jsonCodec e) (lower e) (policyOf e) t name (repair e (callArguments tc)) of
               Done d \<Rightarrow>
                 (case decisionAction d of
                    PolicyDeny \<Rightarrow> refuse e tc (''error: '' @ decisionReason d) f
                  | PolicyRequireApproval \<Rightarrow>
                      if \<not> fromWeb e
                      then refuse e tc ''error: this action requires approval via the web interface'' f
                      else (case approvalOf e (length (persisted s)) tc of
                              Interrupted \<Rightarrow> Break (f\<lparr>interrupted := True\<rparr>)
                            | Approved \<Rightarrow> Next (accept tc f)
                            | Rejected reason \<Rightarrow>
                                refuse e tc (''error: approval denied '' @ [CHR 0xE2, CHR 0x80, CHR 0x94] @ '' ''
                                  @ (if reason \<noteq> [] then reason else decisionReason d)) f
                            | ApprovalError err \<Rightarrow>
                                refuse e tc (''error: approval denied '' @ [CHR 0xE2, CHR 0x80, CHR 0x94] @ '' '' @ err) f)
                  | PolicyAllow \<Rightarrow> Next (accept tc f))
             | _ \<Rightarrow> Crash))"

fun filterCalls :: "run_env \<Rightarrow> tool_call list \<Rightarrow> filter_state \<Rightarrow> filter_state step" where
  "filterCalls e [] f = Next f"
| "filterCalls e (tc # tcs) f = then_step (filterCall e tc f) (filterCalls e tcs)"

text \<open>The second phase: a tool that is executed may load deferred ones, as the tool search does.\<close>

definition executeCalls :: "run_env \<Rightarrow> tool_call list \<Rightarrow> run_state \<Rightarrow> run_state" where
  "executeCalls e tcs s =
     s\<lparr>toolset := fold (\<lambda>tc r. snd (activate (activates e (length (persisted s)) tc) r)) tcs (toolset s)\<rparr>"

text \<open>The third phase: one row per executed call, in the order of the calls.\<close>

definition resultRow :: "run_env \<Rightarrow> nat \<Rightarrow> tool_call \<Rightarrow> row" where
  "resultRow e n tc =
     newToolMessage (callId tc) (callName tc)
       (case execute e n (tc\<lparr>callArguments := repair e (callArguments tc)\<rparr>) of
          Inl err \<Rightarrow> ''error: '' @ err | Inr result \<Rightarrow> result)"

text \<open>The tool phases of a round.\<close>

definition toolPhase :: "run_env \<Rightarrow> tool_call list \<Rightarrow> run_state \<Rightarrow> run_state step" where
  "toolPhase e calls s =
     (case filterCalls e calls \<lparr>work = [], denied = 0, interrupted = False, runState = s\<rparr> of
        Crash \<Rightarrow> Crash
      | Fail f \<Rightarrow> Fail (runState f)
      | Break f \<Rightarrow> Next (runState f)
      | Next f \<Rightarrow>
          if work f = [] then (if denied f > 0 then Next (runState f) else Break (runState f))
          else then_step (checkCancelled e (executeCalls e (work f) (runState f))) (\<lambda>s'.
                 appendRows e (map (resultRow e (length (persisted s'))) (work f)) s'))"

definition assistantRow :: "run_env \<Rightarrow> string \<Rightarrow> collected \<Rightarrow> row" where
  "assistantRow e i c =
     (textRow ''assistant'' (streamText c))\<lparr>rowId := i, rowStop := streamStop c,
        rowCalls := assembleToolCalls (streamDeltas c)\<rparr>"

text \<open>What follows a complete stream.\<close>

definition answerPhase :: "run_env \<Rightarrow> collected \<Rightarrow> run_state \<Rightarrow> run_state step" where
  "answerPhase e c s =
     then_step (appendRow e (assistantRow e (freshId e (length (persisted s))) c)
                  (s\<lparr>responseText := streamText c, stopReason := streamStop c\<rparr>)) (\<lambda>s1.
       let calls = assembleToolCalls (streamDeltas c) in
       if calls = [] then
         (let (pending, s2) = drain e s1 in
          if pending = [] then Break s2 else appendRows e (map midRunRow pending) s2)
       else toolPhase e calls s1)"

definition askModel :: "run_env \<Rightarrow> chat_message list \<Rightarrow> run_state \<Rightarrow> run_state step" where
  "askModel e ms s0 =
     (let s = s0\<lparr>prompts := prompts s0 @ [ms]\<rparr> in
      case answerOf e (length (prompts s0)) ms (definitions (toolset s0)) of
        RequestError err \<Rightarrow>
          if isContextLengthError err \<and> contextRetries s < 2
          then (case compress e retryLimits ms (s\<lparr>contextRetries := contextRetries s + 1\<rparr>) of
                  Done (ms', s') \<Rightarrow> Next s'
                | _ \<Rightarrow> Crash)
          else Fail s
      | Streamed es \<Rightarrow>
          (case collectStream \<lparr>streamText = [], streamStop = stopReason s, streamDeltas = []\<rparr> es of
             None \<Rightarrow> Fail (s\<lparr>contextRetries := 0\<rparr>)
           | Some c \<Rightarrow> then_step (checkCancelled e (s\<lparr>contextRetries := 0\<rparr>)) (answerPhase e c)))"

definition round_step :: "run_env \<Rightarrow> run_state \<Rightarrow> run_state step" where
  "round_step e s =
     then_step (checkCancelled e s) (\<lambda>s1.
       let (pending, s2) = drain e s1 in
       then_step (appendRows e (map midRunRow pending) s2) (\<lambda>s3.
         case roundPrompt e s3 of
           Done (ms, s4) \<Rightarrow> askModel e ms s4
         | _ \<Rightarrow> Crash))"

text \<open>At most 250 rounds; running out of rounds ends the run like a final answer.\<close>

fun run_rounds :: "run_env \<Rightarrow> nat \<Rightarrow> run_state \<Rightarrow> run_state step" where
  "run_rounds e 0 s = Break s"
| "run_rounds e (Suc n) s = then_step (round_step e s) (run_rounds e n)"

definition executeRun :: "run_env \<Rightarrow> run_state \<Rightarrow> run_state step" where
  "executeRun e s = run_rounds e 250 s"

subsection \<open>Every state of a run\<close>

fun step_all :: "('s \<Rightarrow> bool) \<Rightarrow> 's step \<Rightarrow> bool" where
  "step_all P (Next s) = P s"
| "step_all P (Break s) = P s"
| "step_all P (Fail s) = P s"
| "step_all P Crash = False"

lemma then_step_all:
  "step_all P st \<Longrightarrow> (\<And>s. P s \<Longrightarrow> step_all Q (f s)) \<Longrightarrow> (\<And>s. P s \<Longrightarrow> Q s) \<Longrightarrow> step_all Q (then_step st f)"
  by (cases st) auto

lemma step_all_mono: "step_all P st \<Longrightarrow> (\<And>s. P s \<Longrightarrow> Q s) \<Longrightarrow> step_all Q st"
  by (cases st) auto

definition erase :: "row \<Rightarrow> row" where
  "erase r = r\<lparr>rowId := []\<rparr>"

definition paired :: "chat_message list \<Rightarrow> bool" where
  "paired ms \<longleftrightarrow> calls_answered ms \<and> results_announced {} ms"

definition groups_declared :: "registry \<Rightarrow> bool" where
  "groups_declared r \<longleftrightarrow> (\<forall>p\<in>set (registered r). toolPolicyGroups (snd p) \<noteq> [])"

definition recorded :: "history \<Rightarrow> run_state \<Rightarrow> bool" where
  "recorded h s \<longleftrightarrow> (\<exists>rs. live s = h @ map Some rs
     \<and> map erase (filter (\<lambda>r. \<not> isSummary r) (persisted s)) = map erase rs)"

definition run_inv :: "history \<Rightarrow> nat \<Rightarrow> run_state \<Rightarrow> bool" where
  "run_inv h k s \<longleftrightarrow> no_nil (live s) \<and> list_all paired (prompts s) \<and> groups_declared (toolset s)
     \<and> recorded h s \<and> length (prompts s) \<le> k"

lemma run_inv_counters [simp]:
  "run_inv h k (s\<lparr>drains := n\<rparr>) = run_inv h k s" "run_inv h k (s\<lparr>checks := n\<rparr>) = run_inv h k s"
  "run_inv h k (s\<lparr>contextRetries := n\<rparr>) = run_inv h k s" "run_inv h k (s\<lparr>responseText := t\<rparr>) = run_inv h k s"
  "run_inv h k (s\<lparr>stopReason := t\<rparr>) = run_inv h k s"
  by (simp_all add: run_inv_def recorded_def)

lemma run_inv_more: "run_inv h k s \<Longrightarrow> k \<le> j \<Longrightarrow> run_inv h j s"
  by (simp add: run_inv_def)

lemma appendRow_inv:
  assumes "run_inv h k s" and "rowRole r \<noteq> ''system''"
  shows "step_all (run_inv h k) (appendRow e r s)"
proof -
  let ?r = "if rowId r = [] then r\<lparr>rowId := freshId e (length (persisted s))\<rparr> else r"
  obtain rs where rs: "live s = h @ map Some rs"
      "map erase (filter (\<lambda>r. \<not> isSummary r) (persisted s)) = map erase rs"
    using assms(1) by (auto simp: run_inv_def recorded_def)
  have "\<not> isSummary ?r" "erase ?r = erase r" using assms(2) by (auto simp: isSummary_def erase_def)
  then have "map erase (filter (\<lambda>r. \<not> isSummary r) (persisted s @ [?r])) = map erase (rs @ [r])"
    using rs(2) by simp
  moreover have "live s @ [Some r] = h @ map Some (rs @ [r])" using rs(1) by simp
  ultimately have "recorded h (s\<lparr>persisted := persisted s @ [?r], live := live s @ [Some r]\<rparr>)"
    unfolding recorded_def by (intro exI [of _ "rs @ [r]"]) simp
  moreover have "no_nil (live s @ [Some r])" using assms(1) by (simp add: run_inv_def no_nil_def)
  ultimately show ?thesis using assms(1) by (simp add: appendRow_def Let_def run_inv_def)
qed

lemma appendRows_inv:
  "run_inv h k s \<Longrightarrow> list_all (\<lambda>r. rowRole r \<noteq> ''system'') rs \<Longrightarrow> step_all (run_inv h k) (appendRows e rs s)"
proof (induction rs arbitrary: s)
  case Nil
  then show ?case by simp
next
  case (Cons r rs)
  then show ?case by (auto intro!: then_step_all [of "run_inv h k"] appendRow_inv)
qed

lemma checkCancelled_inv: "run_inv h k s \<Longrightarrow> step_all (run_inv h k) (checkCancelled e s)"
  by (simp add: checkCancelled_def)

lemma drain_inv: "run_inv h k s \<Longrightarrow> run_inv h k (snd (drain e s))"
  by (simp add: drain_def)

lemma roles [simp]:
  "rowRole (midRunRow m) = ''user''" "rowRole (newToolMessage i n t) = ''tool''"
  "rowRole (assistantRow e i c) = ''assistant''" "rowRole (resultRow e j tc) = ''tool''"
  by (simp_all add: midRunRow_def newToolMessage_def assistantRow_def resultRow_def textRow_def)

subsection \<open>The invariant through the phases\<close>

lemma compress_inv:
  assumes "run_inv h k s" and "calls_answered (systemMessage p # ms)" and "results_announced {} (systemMessage p # ms)"
    and "only_assistants_call (systemMessage p # ms)" and "0 < minKeepMessages l"
  shows "\<exists>zs s'. compress e l (systemMessage p # ms) s = Done (systemMessage p # zs, s')
    \<and> paired (systemMessage p # zs) \<and> only_assistants_call (systemMessage p # zs) \<and> run_inv h k s' \<and> prompts s' = prompts s \<and> live s' = live s
    \<and> toolset s' = toolset s \<and> contextRetries s' = contextRetries s"
proof -
  obtain zs r n' where c: "compressContext (compaction e (length (persisted s))) (jsonCodec e) (summaryRequests s) (live s)
        (systemMessage p # ms) (definitions (toolset s)) l = Done (systemMessage p # zs, r, n')"
      "calls_answered (systemMessage p # zs)" "results_announced {} (systemMessage p # zs)"
      "only_assistants_call (systemMessage p # zs)" "\<forall>x. r = Some x \<longrightarrow> isSummary x"
    using compress_keeps_pairing [OF assms(2-5)] by blast
  let ?s = "s\<lparr>summaryRequests := n', persisted := persisted s @ (case r of None \<Rightarrow> [] | Some x \<Rightarrow> [x])\<rparr>"
  have "compress e l (systemMessage p # ms) s = Done (systemMessage p # zs, ?s)"
    unfolding compress_def c(1) by simp
  moreover have "run_inv h k ?s"
    using assms(1) c(5) by (cases r) (auto simp: run_inv_def recorded_def)
  ultimately show ?thesis using c(2-4) by (auto simp: paired_def)
qed

lemma truncateOld_system:
  "\<exists>zs. truncateOldToolResults (systemMessage p # ms) k n = systemMessage p # zs"
proof (cases "length (systemMessage p # ms) \<le> k")
  case True
  then show ?thesis by (simp add: truncateOldToolResults_def)
next
  case False
  then obtain b where "length (systemMessage p # ms) - k = Suc b" by (metis Suc_diff_Suc not_le)
  moreover have "truncateToolResult n (systemMessage p) = systemMessage p"
    by (simp add: truncateToolResult_def systemMessage_def)
  ultimately show ?thesis using False by (simp add: truncateOldToolResults_def Let_def)
qed

lemma truncateOld_eq:
  "truncateOldToolResults ms k n = map (truncateToolResult n) (take (length ms - k) ms) @ drop (length ms - k) ms"
  by (simp add: truncateOldToolResults_def Let_def)

lemma truncateOld_pairing:
  assumes "calls_answered ms" and "results_announced {} ms" and "only_assistants_call ms"
  shows "calls_answered (truncateOldToolResults ms k n) \<and> results_announced {} (truncateOldToolResults ms k n)
    \<and> only_assistants_call (truncateOldToolResults ms k n)"
  using assms calls_answered_truncate [of n "take (length ms - k) ms" "drop (length ms - k) ms"]
    results_announced_truncate [of "{}" n "take (length ms - k) ms" "drop (length ms - k) ms"]
  by (auto simp: truncateOld_eq only_assistants_call_def dest: in_set_takeD in_set_dropD)

lemma roundPrompt_inv:
  assumes "run_inv h k s"
  shows "\<exists>zs ms s'. roundPrompt e s = Done (zs, s') \<and> zs = systemMessage (systemPrompt e) # ms \<and> paired zs
    \<and> only_assistants_call zs \<and> run_inv h k s' \<and> prompts s' = prompts s"
proof -
  have "no_nil (live s)" using assms by (simp add: run_inv_def)
  then obtain xs where xs: "buildMessages (systemPrompt e) (mediaUrl e) (overlays e) (voice e) (live s) =
        Done (systemMessage (systemPrompt e) # xs)"
      "calls_answered (systemMessage (systemPrompt e) # xs)" "results_announced {} (systemMessage (systemPrompt e) # xs)"
      "only_assistants_call (systemMessage (systemPrompt e) # xs)"
    using buildMessages_paired by blast
  obtain ys where ys: "truncateOldToolResults (systemMessage (systemPrompt e) # xs) 10 8000 = systemMessage (systemPrompt e) # ys"
    using truncateOld_system by blast
  note t = truncateOld_pairing [OF xs(2-4), of 10 8000, unfolded ys]
  obtain zs s' where "compress e roundLimits (systemMessage (systemPrompt e) # ys) s = Done (systemMessage (systemPrompt e) # zs, s')"
      "paired (systemMessage (systemPrompt e) # zs)" "only_assistants_call (systemMessage (systemPrompt e) # zs)"
      "run_inv h k s'" "prompts s' = prompts s"
    using compress_inv [OF assms, of "systemPrompt e" ys roundLimits e] t by (auto simp: roundLimits_def)
  then show ?thesis unfolding roundPrompt_def xs(1) and_then.simps ys by blast
qed

lemma groups_activate: "groups_declared r \<Longrightarrow> groups_declared (snd (activate ns r))"
  by (simp add: groups_declared_def activate_def Let_def)

lemma run_inv_toolset: "run_inv h k s \<Longrightarrow> groups_declared r \<Longrightarrow> run_inv h k (s\<lparr>toolset := r\<rparr>)"
  by (simp add: run_inv_def recorded_def)

lemma executeCalls_inv: "run_inv h k s \<Longrightarrow> run_inv h k (executeCalls e tcs s)"
proof -
  assume i: "run_inv h k s"
  have "groups_declared r \<Longrightarrow> groups_declared (fold (\<lambda>tc r. snd (activate (activates e n tc) r)) tcs r)" for n r
    by (induction tcs arbitrary: r) (simp_all add: groups_activate)
  then show ?thesis using run_inv_toolset [OF i] i by (simp add: executeCalls_def run_inv_def)
qed

definition filter_inv :: "history \<Rightarrow> nat \<Rightarrow> filter_state \<Rightarrow> bool" where
  "filter_inv h k f \<longleftrightarrow> run_inv h k (runState f)"

lemma refuse_inv: "filter_inv h k f \<Longrightarrow> step_all (filter_inv h k) (refuse e tc t f)"
proof -
  assume "filter_inv h k f"
  then have "step_all (run_inv h k) (appendRow e (newToolMessage (callId tc) (callName tc) t) (runState f))"
    by (intro appendRow_inv) (simp_all add: filter_inv_def)
  then show ?thesis
    by (cases "appendRow e (newToolMessage (callId tc) (callName tc) t) (runState f)")
      (simp_all add: refuse_def filter_inv_def)
qed

lemma policy_Done:
  assumes "groups_declared r" and "getTool r n = Some t"
  shows "\<exists>d. resolveToolPolicy c l x t n a = Done d"
proof -
  have "(n, t) \<in> set (registered r)" using assms(2) by (simp add: getTool_def map_of_SomeD)
  then have "toolPolicyGroups t \<noteq> []" using assms(1) by (force simp: groups_declared_def)
  then obtain g where "findGroupForAction (toolPolicyGroups t) (parseAction c l a) = Done g"
    using findGroup_Done by blast
  then show ?thesis unfolding resolveToolPolicy_def Let_def by simp
qed

lemma filterCall_inv:
  assumes f: "filter_inv h k f"
  shows "step_all (filter_inv h k) (filterCall e tc f)"
proof (cases "getTool (toolset (runState f)) (callName tc)")
  case None
  then show ?thesis using f by (simp add: filterCall_def Let_def)
next
  case (Some t)
  have g: "groups_declared (toolset (runState f))" using f by (simp add: filter_inv_def run_inv_def)
  obtain d where d: "resolveToolPolicy (jsonCodec e) (lower e) (policyOf e) t (callName tc) (repair e (callArguments tc)) = Done d"
    using policy_Done [OF g Some] by blast
  have act: "filter_inv h k (f\<lparr>runState := (runState f)\<lparr>toolset := snd (activate ns (toolset (runState f)))\<rparr>\<rparr>)" for ns
    using f run_inv_toolset groups_activate [OF g] by (simp add: filter_inv_def)
  have other: "filter_inv h k (accept tc f)" "filter_inv h k (f\<lparr>interrupted := True\<rparr>)"
    using f by (simp_all add: filter_inv_def accept_def)
  show ?thesis
    unfolding filterCall_def Let_def Some option.case d outcome.case
    using refuse_inv [OF act] refuse_inv [OF f] other
    by (simp split: policy_action.split approval_answer.split)
qed

lemma filterCalls_inv: "filter_inv h k f \<Longrightarrow> step_all (filter_inv h k) (filterCalls e tcs f)"
proof (induction tcs arbitrary: f)
  case Nil
  then show ?case by simp
next
  case (Cons tc tcs)
  then show ?case by (auto intro!: then_step_all [of "filter_inv h k"] filterCall_inv)
qed

lemma toolPhase_inv:
  assumes i: "run_inv h k s"
  shows "step_all (run_inv h k) (toolPhase e calls s)"
proof -
  let ?f = "\<lparr>work = [], denied = 0, interrupted = False, runState = s\<rparr>"
  have "filter_inv h k ?f" using i by (simp add: filter_inv_def)
  then have a: "step_all (filter_inv h k) (filterCalls e calls ?f)" by (rule filterCalls_inv)
  have rows: "step_all (run_inv h k) (then_step (checkCancelled e s1) (\<lambda>s'. appendRows e (map (g s') ws) s'))"
    if "run_inv h k s1" "\<And>s' w. rowRole (g s' w) \<noteq> ''system''" for s1 g ws
    by (rule then_step_all [of "run_inv h k", OF checkCancelled_inv [OF that(1)]])
      (use that(2) in \<open>auto intro!: appendRows_inv simp: list_all_iff\<close>)
  show ?thesis
  proof (cases "filterCalls e calls ?f")
    case (Next f)
    then have "run_inv h k (runState f)" using a by (simp add: filter_inv_def)
    then show ?thesis using Next rows [OF executeCalls_inv, of "runState f" "\<lambda>s'. resultRow e (length (persisted s'))"]
      by (simp add: toolPhase_def)
  qed (use a in \<open>auto simp: toolPhase_def filter_inv_def\<close>)
qed

lemma answerPhase_inv:
  assumes i: "run_inv h k s"
  shows "step_all (run_inv h k) (answerPhase e c s)"
  unfolding answerPhase_def
proof (rule then_step_all [of "run_inv h k", OF appendRow_inv])
  show "run_inv h k (s\<lparr>responseText := streamText c, stopReason := streamStop c\<rparr>)" using i by simp
  show "step_all (run_inv h k) (let calls = assembleToolCalls (streamDeltas c) in
      if calls = [] then
        (let (pending, s2) = drain e s1 in if pending = [] then Break s2 else appendRows e (map midRunRow pending) s2)
      else toolPhase e calls s1)" if "run_inv h k s1" for s1
    using that toolPhase_inv [OF that]
      appendRows_inv [of h k "s1\<lparr>drains := drains s1 + 1\<rparr>" "map midRunRow (arrivals e (drains s1))" e]
    by (simp add: Let_def drain_def list_all_iff)
qed simp_all

lemma run_inv_prompt: "run_inv h k s \<Longrightarrow> paired ms \<Longrightarrow> run_inv h (Suc k) (s\<lparr>prompts := prompts s @ [ms]\<rparr>)"
  by (simp add: run_inv_def recorded_def)

lemma askModel_inv:
  assumes i: "run_inv h k s" and p: "paired (systemMessage p # ms)" "only_assistants_call (systemMessage p # ms)"
  shows "step_all (run_inv h (Suc k)) (askModel e (systemMessage p # ms) s)"
proof -
  let ?s = "s\<lparr>prompts := prompts s @ [systemMessage p # ms]\<rparr>"
  have i': "run_inv h (Suc k) ?s" by (rule run_inv_prompt [OF i p(1)])
  show ?thesis
  proof (cases "answerOf e (length (prompts s)) (systemMessage p # ms) (definitions (toolset s))")
    case (RequestError err)
    obtain zs s' where "compress e retryLimits (systemMessage p # ms) (?s\<lparr>contextRetries := contextRetries ?s + 1\<rparr>) =
        Done (systemMessage p # zs, s')" "run_inv h (Suc k) s'"
      using compress_inv [of h "Suc k" "?s\<lparr>contextRetries := contextRetries ?s + 1\<rparr>" p ms retryLimits e] i' p
      by (auto simp: paired_def retryLimits_def)
    then show ?thesis using RequestError i' by (simp add: askModel_def Let_def)
  next
    case (Streamed es)
    have "step_all (run_inv h (Suc k)) (then_step (checkCancelled e (?s\<lparr>contextRetries := 0\<rparr>)) (answerPhase e c))" for c
      by (rule then_step_all [of "run_inv h (Suc k)"]) (use i' in \<open>auto intro!: checkCancelled_inv answerPhase_inv\<close>)
    then show ?thesis using Streamed i' by (simp add: askModel_def Let_def split: option.split)
  qed
qed

lemma round_inv:
  assumes i: "run_inv h k s"
  shows "step_all (run_inv h (Suc k)) (round_step e s)"
  unfolding round_step_def
proof (rule then_step_all [of "run_inv h k", OF checkCancelled_inv [OF i]])
  fix s1 assume s1: "run_inv h k s1"
  show "step_all (run_inv h (Suc k)) (let (pending, s2) = drain e s1 in
       then_step (appendRows e (map midRunRow pending) s2) (\<lambda>s3.
         case roundPrompt e s3 of Done (ms, s4) \<Rightarrow> askModel e ms s4 | _ \<Rightarrow> Crash))"
    unfolding drain_def Let_def prod.case
  proof (rule then_step_all [of "run_inv h k"])
    show "step_all (run_inv h k) (appendRows e (map midRunRow (arrivals e (drains s1))) (s1\<lparr>drains := drains s1 + 1\<rparr>))"
      using s1 by (intro appendRows_inv) (simp_all add: list_all_iff)
    fix s3 assume "run_inv h k s3"
    from roundPrompt_inv [OF this, of e] show "step_all (run_inv h (Suc k))
        (case roundPrompt e s3 of Done (ms, s4) \<Rightarrow> askModel e ms s4 | _ \<Rightarrow> Crash)"
      using askModel_inv by auto
  qed (simp add: run_inv_def)
qed (simp add: run_inv_def)

lemma rounds_inv: "run_inv h k s \<Longrightarrow> step_all (run_inv h (k + n)) (run_rounds e n s)"
proof (induction n arbitrary: k s)
  case 0
  then show ?case by simp
next
  case (Suc n)
  show ?case unfolding run_rounds.simps
  proof (rule then_step_all [of "run_inv h (Suc k)", OF round_inv [OF Suc.prems]])
    fix t assume "run_inv h (Suc k) t"
    then show "step_all (run_inv h (k + Suc n)) (run_rounds e n t)" using Suc.IH [of "Suc k" t] by simp
  qed (simp add: run_inv_def)
qed

text \<open>C9: A run never crashes and asks the model at most 250 times, and every prompt it sends is well paired:
  each tool call in it has a result before the next user or assistant message, and each tool
  result follows a call that announced it; this holds for every schedule of answers, tool
  results, approvals, interruptions, failing appends, compactions and refusals.\<close>

theorem every_prompt_is_paired:
  assumes "no_nil (live s)" and "prompts s = []" and "persisted s = []" and "groups_declared (toolset s)"
  shows "step_all (\<lambda>t. length (prompts t) \<le> 250
    \<and> list_all (\<lambda>ms. calls_answered ms \<and> results_announced {} ms) (prompts t)) (executeRun e s)"
proof -
  have "run_inv (live s) 0 s" using assms by (simp add: run_inv_def recorded_def)
  from rounds_inv [OF this, of 250 e] show ?thesis
    unfolding executeRun_def by (rule step_all_mono) (simp add: run_inv_def paired_def list_all_iff)
qed

text \<open>However a run ends, the rows it stored and the rows it added to its in-memory history are the same
  rows in the same order, up to the identifiers the store assigned and apart from the summaries,
  which only the store holds.\<close>

theorem stored_rows_match_history:
  assumes "no_nil (live s)" and "prompts s = []" and "persisted s = []" and "groups_declared (toolset s)"
  shows "step_all (\<lambda>t. \<exists>rs. live t = live s @ map Some rs
    \<and> map erase rs = map erase (filter (\<lambda>r. \<not> isSummary r) (persisted t))) (executeRun e s)"
proof -
  have "run_inv (live s) 0 s" using assms by (simp add: run_inv_def recorded_def)
  from rounds_inv [OF this, of 250 e] show ?thesis
    unfolding executeRun_def by (rule step_all_mono) (auto simp: run_inv_def recorded_def)
qed

subsection \<open>One result for every call\<close>

abbreviation answered_by :: "row list \<Rightarrow> tool_call list \<Rightarrow> bool" where
  "answered_by rows calls \<equiv> mset (map rowToolCallId rows) = mset (map callId calls)"

lemma appendRow_Next:
  "appendRow e r s = Next t \<Longrightarrow> \<exists>r'. persisted t = persisted s @ [r'] \<and> rowToolCallId r' = rowToolCallId r
     \<and> rowRole r' = rowRole r \<and> toolset t = toolset s"
  by (auto simp: appendRow_def Let_def split: if_splits)

lemma appendRow_not_Break: "appendRow e r s \<noteq> Break t"
  by (simp add: appendRow_def Let_def)

lemma getTool_activate: "getTool (snd (activate ns r)) n = getTool r n"
  by (simp add: getTool_def activate_def Let_def)

lemma refuse_Next:
  assumes "refuse e tc t f = Next f'"
  shows "\<exists>r. persisted (runState f') = persisted (runState f) @ [r] \<and> rowToolCallId r = callId tc \<and> rowRole r = ''tool''
    \<and> work f' = work f \<and> toolset (runState f') = toolset (runState f)"
proof (cases "appendRow e (newToolMessage (callId tc) (callName tc) t) (runState f)")
  case (Next s)
  from appendRow_Next [OF this] show ?thesis using assms Next
    by (auto simp: refuse_def newToolMessage_def textRow_def)
qed (use assms in \<open>auto simp: refuse_def\<close>)

lemma refuse_not_Break: "refuse e tc t f \<noteq> Break f'"
  using appendRow_not_Break by (auto simp: refuse_def split: step.split)

text \<open>What one step of the filter contributes: nothing, a tool row, or a call to execute.\<close>

lemma filterCall_Next:
  assumes "filterCall e tc f = Next f'"
  shows "\<exists>rows ws. persisted (runState f') = persisted (runState f) @ rows \<and> work f' = work f @ ws
    \<and> list_all (\<lambda>r. rowRole r = ''tool'') rows
    \<and> mset (map rowToolCallId rows) + mset (map callId ws) =
       mset (map callId (filter (\<lambda>tc. getTool (toolset (runState f)) (callName tc) \<noteq> None) [tc]))
    \<and> (\<forall>n. getTool (toolset (runState f')) n = getTool (toolset (runState f)) n)"
proof (cases "getTool (toolset (runState f)) (callName tc)")
  case None
  then show ?thesis using assms by (simp add: filterCall_def Let_def)
next
  case (Some t)
  have refused: ?thesis
    if "refuse e tc u g = Next f'" "persisted (runState g) = persisted (runState f)" "work g = work f"
      "\<forall>n. getTool (toolset (runState g)) n = getTool (toolset (runState f)) n" for u g
  proof -
    from refuse_Next [OF that(1)]
    obtain r where "persisted (runState f') = persisted (runState g) @ [r]" "rowToolCallId r = callId tc"
        "rowRole r = ''tool''" "work f' = work g" "toolset (runState f') = toolset (runState g)"
      by blast
    then show ?thesis using that(2-4) Some by (intro exI [of _ "[r]"] exI [of _ "[]"]) simp
  qed
  have accepted: ?thesis if "accept tc f = f'"
    using that Some by (intro exI [of _ "[]"] exI [of _ "[tc]"]) (auto simp: accept_def)
  show ?thesis
  proof (cases "isLoaded (toolset (runState f)) (callName tc)")
    case False
    then obtain u where "refuse e tc u (f\<lparr>runState := (runState f)\<lparr>toolset := snd (activate [callName tc] (toolset (runState f)))\<rparr>\<rparr>) = Next f'"
      using assms Some by (auto simp: filterCall_def Let_def)
    then show ?thesis by (rule refused) (simp_all add: getTool_activate)
  next
    case True
    then have "(\<exists>u. refuse e tc u f = Next f') \<or> accept tc f = f'"
      using assms Some
      by (auto simp: filterCall_def Let_def split: outcome.splits policy_action.splits approval_answer.splits if_splits)
    then show ?thesis using refused [of _ f] accepted by auto
  qed
qed

lemma filterCall_Break:
  assumes "filterCall e tc f = Break f'"
  shows "\<exists>n. approvalOf e n tc = Interrupted"
  using assms refuse_not_Break
  by (auto simp: filterCall_def Let_def split: option.splits outcome.splits policy_action.splits
      approval_answer.splits if_splits)

lemma filterCalls_Next:
  assumes "filterCalls e calls f = Next f'"
  shows "\<exists>rows ws. persisted (runState f') = persisted (runState f) @ rows \<and> work f' = work f @ ws
    \<and> list_all (\<lambda>r. rowRole r = ''tool'') rows
    \<and> mset (map rowToolCallId rows) + mset (map callId ws) =
       mset (map callId (filter (\<lambda>tc. getTool (toolset (runState f)) (callName tc) \<noteq> None) calls))"
  using assms
proof (induction calls arbitrary: f)
  case Nil
  then show ?case by auto
next
  case (Cons tc calls)
  then obtain g where g: "filterCall e tc f = Next g" "filterCalls e calls g = Next f'"
    by (cases "filterCall e tc f") auto
  obtain r1 w1 where 1: "persisted (runState g) = persisted (runState f) @ r1" "work g = work f @ w1"
      "list_all (\<lambda>r. rowRole r = ''tool'') r1"
      "mset (map rowToolCallId r1) + mset (map callId w1) =
        mset (map callId (filter (\<lambda>tc. getTool (toolset (runState f)) (callName tc) \<noteq> None) [tc]))"
      "\<forall>n. getTool (toolset (runState g)) n = getTool (toolset (runState f)) n"
    using filterCall_Next [OF g(1)] by blast
  obtain r2 w2 where 2: "persisted (runState f') = persisted (runState g) @ r2" "work f' = work g @ w2"
      "list_all (\<lambda>r. rowRole r = ''tool'') r2"
      "mset (map rowToolCallId r2) + mset (map callId w2) =
        mset (map callId (filter (\<lambda>tc. getTool (toolset (runState f)) (callName tc) \<noteq> None) calls))"
    using Cons.IH [OF g(2)] 1(5) by auto
  have "mset (map rowToolCallId (r1 @ r2)) + mset (map callId (w1 @ w2)) =
      (mset (map rowToolCallId r1) + mset (map callId w1)) + (mset (map rowToolCallId r2) + mset (map callId w2))"
    by simp
  also have "\<dots> = mset (map callId (filter (\<lambda>tc. getTool (toolset (runState f)) (callName tc) \<noteq> None) (tc # calls)))"
    unfolding 1(4) 2(4) by simp
  finally show ?case using 1(1-3) 2(1-3)
    by (intro exI [of _ "r1 @ r2"] exI [of _ "w1 @ w2"]) simp
qed

lemma filterCalls_Break:
  "filterCalls e calls f = Break f' \<Longrightarrow> \<exists>n tc. tc \<in> set calls \<and> approvalOf e n tc = Interrupted"
proof (induction calls arbitrary: f)
  case Nil
  then show ?case by simp
next
  case (Cons tc calls)
  show ?case
  proof (cases "filterCall e tc f")
    case (Next g)
    then have "filterCalls e calls g = Break f'" using Cons.prems by simp
    from Cons.IH [OF this] show ?thesis by auto
  next
    case (Break g)
    from filterCall_Break [OF this] show ?thesis by auto
  qed (use Cons.prems in auto)
qed

lemma appendRows_Next:
  "appendRows e rows s = Next t \<Longrightarrow> \<exists>rs. persisted t = persisted s @ rs
     \<and> map rowToolCallId rs = map rowToolCallId rows \<and> map rowRole rs = map rowRole rows"
proof (induction rows arbitrary: s)
  case Nil
  then show ?case by simp
next
  case (Cons r rows)
  then obtain u where u: "appendRow e r s = Next u" "appendRows e rows u = Next t"
    by (cases "appendRow e r s") auto
  obtain r' where "persisted u = persisted s @ [r']" "rowToolCallId r' = rowToolCallId r" "rowRole r' = rowRole r"
    using appendRow_Next [OF u(1)] by blast
  moreover obtain rs where "persisted t = persisted u @ rs" "map rowToolCallId rs = map rowToolCallId rows"
      "map rowRole rs = map rowRole rows"
    using Cons.IH [OF u(2)] by blast
  ultimately show ?case by (intro exI [of _ "r' # rs"]) simp
qed

lemma appendRows_not_Break: "appendRows e rows s \<noteq> Break t"
proof (induction rows arbitrary: s)
  case Nil
  then show ?case by simp
next
  case (Cons r rows)
  then show ?case using appendRow_not_Break by (cases "appendRow e r s") auto
qed

lemma list_all_tools: "map rowRole rs = map (\<lambda>x. ''tool'') ws \<Longrightarrow> list_all (\<lambda>r. rowRole r = ''tool'') rs"
  by (induction rs arbitrary: ws) (case_tac ws; force)+

lemma appendRow_Fail: "appendRow e r s = Fail t \<Longrightarrow> t = s" "appendRow e r s \<noteq> Crash"
  by (auto simp: appendRow_def Let_def split: if_splits)

lemma refuse_Fail: "refuse e tc t f = Fail f' \<Longrightarrow> runState f' = runState f" "refuse e tc t f \<noteq> Crash"
  using appendRow_Fail by (auto simp: refuse_def split: step.splits)

lemma filterCall_Fail: "filterCall e tc f = Fail f' \<Longrightarrow> persisted (runState f') = persisted (runState f)"
  by (auto simp: filterCall_def Let_def split: option.splits outcome.splits policy_action.splits approval_answer.splits if_splits
      dest!: refuse_Fail(1))

lemma filterCall_not_Crash:
  assumes "\<forall>n t. getTool (toolset (runState f)) n = Some t \<longrightarrow> toolPolicyGroups t \<noteq> []"
  shows "filterCall e tc f \<noteq> Crash"
proof (cases "getTool (toolset (runState f)) (callName tc)")
  case None
  then show ?thesis by (simp add: filterCall_def Let_def)
next
  case (Some t)
  then obtain g where "findGroupForAction (toolPolicyGroups t) (parseAction (jsonCodec e) (lower e) (repair e (callArguments tc))) = Done g"
    using assms findGroup_Done by blast
  then have "\<exists>d. resolveToolPolicy (jsonCodec e) (lower e) (policyOf e) t (callName tc) (repair e (callArguments tc)) = Done d"
    unfolding resolveToolPolicy_def Let_def by simp
  then obtain d where d: "resolveToolPolicy (jsonCodec e) (lower e) (policyOf e) t (callName tc) (repair e (callArguments tc)) = Done d" ..
  show ?thesis unfolding filterCall_def Let_def Some option.case d outcome.case
    using refuse_Fail(2) by (simp split: policy_action.split approval_answer.split)
qed

lemma filterCalls_Fail:
  assumes "\<forall>n t. getTool (toolset (runState f)) n = Some t \<longrightarrow> toolPolicyGroups t \<noteq> []"
  shows "filterCalls e calls f \<noteq> Crash
    \<and> (filterCalls e calls f = Fail f' \<longrightarrow> (\<exists>rows. persisted (runState f') = persisted (runState f) @ rows
        \<and> list_all (\<lambda>r. rowRole r = ''tool'') rows
        \<and> mset (map rowToolCallId rows) \<subseteq>#
           mset (map callId (filter (\<lambda>tc. getTool (toolset (runState f)) (callName tc) \<noteq> None) calls))))"
  using assms
proof (induction calls arbitrary: f)
  case Nil
  then show ?case by simp
next
  case (Cons tc calls)
  show ?case
  proof (cases "filterCall e tc f")
    case (Next g)
    obtain r1 w1 where 1: "persisted (runState g) = persisted (runState f) @ r1" "list_all (\<lambda>r. rowRole r = ''tool'') r1"
      "work g = work f @ w1" "mset (map rowToolCallId r1) + mset (map callId w1) =
        mset (map callId (filter (\<lambda>tc. getTool (toolset (runState f)) (callName tc) \<noteq> None) [tc]))"
      "\<forall>n. getTool (toolset (runState g)) n = getTool (toolset (runState f)) n"
      using filterCall_Next [OF Next] by (elim exE conjE) (rule that; assumption)
    have g: "\<forall>n t. getTool (toolset (runState g)) n = Some t \<longrightarrow> toolPolicyGroups t \<noteq> []" using 1(5) Cons.prems by simp
    note IH = Cons.IH [OF g, unfolded 1(5) [rule_format]]
    have sub: "mset (map rowToolCallId r1) \<subseteq>#
        mset (map callId (filter (\<lambda>tc. getTool (toolset (runState f)) (callName tc) \<noteq> None) [tc]))"
      unfolding 1(4) [symmetric] by simp
    have all: "mset (map callId (filter (\<lambda>tc. getTool (toolset (runState f)) (callName tc) \<noteq> None) (tc # calls)))
      = mset (map callId (filter (\<lambda>tc. getTool (toolset (runState f)) (callName tc) \<noteq> None) [tc]))
        + mset (map callId (filter (\<lambda>tc. getTool (toolset (runState f)) (callName tc) \<noteq> None) calls))" by simp
    show ?thesis
    proof (intro conjI impI)
      show "filterCalls e (tc # calls) f \<noteq> Crash" using IH Next by simp
      assume "filterCalls e (tc # calls) f = Fail f'"
      then obtain r2 where 2: "persisted (runState f') = persisted (runState g) @ r2" "list_all (\<lambda>r. rowRole r = ''tool'') r2"
        "mset (map rowToolCallId r2) \<subseteq># mset (map callId (filter (\<lambda>tc. getTool (toolset (runState f)) (callName tc) \<noteq> None) calls))"
        using IH Next by auto
      show "\<exists>rows. persisted (runState f') = persisted (runState f) @ rows \<and> list_all (\<lambda>r. rowRole r = ''tool'') rows
        \<and> mset (map rowToolCallId rows) \<subseteq># mset (map callId (filter (\<lambda>tc. getTool (toolset (runState f)) (callName tc) \<noteq> None) (tc # calls)))"
        unfolding all using 1(1,2) 2 subset_mset.add_mono [OF sub 2(3)] by (intro exI [of _ "r1 @ r2"]) simp
    qed
  next
    case (Fail g)
    then show ?thesis using filterCall_Fail [OF Fail] by auto
  qed (use filterCall_not_Crash [OF Cons.prems, of e tc] in auto)
qed

lemma appendRows_Fail:
  "appendRows e rows s \<noteq> Crash
   \<and> (appendRows e rows s = Fail t \<longrightarrow> (\<exists>rs k. persisted t = persisted s @ rs
        \<and> map rowToolCallId rs = map rowToolCallId (take k rows) \<and> map rowRole rs = map rowRole (take k rows)))"
proof (induction rows arbitrary: s)
  case Nil
  then show ?case by simp
next
  case (Cons r rows)
  show ?case
  proof (cases "appendRow e r s")
    case (Next u)
    obtain r' where r': "persisted u = persisted s @ [r']" "rowToolCallId r' = rowToolCallId r" "rowRole r' = rowRole r"
      using appendRow_Next [OF Next] by blast
    show ?thesis
    proof (intro conjI impI)
      show "appendRows e (r # rows) s \<noteq> Crash" using Next Cons.IH by simp
      assume "appendRows e (r # rows) s = Fail t"
      then obtain rs k where "persisted t = persisted u @ rs" "map rowToolCallId rs = map rowToolCallId (take k rows)"
        "map rowRole rs = map rowRole (take k rows)" using Next Cons.IH [of u] by auto
      then show "\<exists>rs k. persisted t = persisted s @ rs \<and> map rowToolCallId rs = map rowToolCallId (take k (r # rows))
        \<and> map rowRole rs = map rowRole (take k (r # rows))"
        using r' by (intro exI [of _ "r' # rs"] exI [of _ "Suc k"]) simp
    qed
  next
    case (Fail u)
    then show ?thesis using appendRow_Fail(1) [OF Fail] by (auto intro!: exI [of _ "[]"] exI [of _ 0])
  qed (use appendRow_Fail(2) appendRow_not_Break in auto)
qed

text \<open>C10: A tool round in which no mid-run message interrupts an approval, over tools that declare policy groups
  (looking up the group of another one panics), never crashes and stores exactly one tool row per call of a
  registered tool, counted by identifier, whether the call was executed, failed, denied by policy, refused because
  its definition was not loaded, or rejected by the user. A round that ends the run early, because it was
  cancelled or a row could not be stored, stores at most one row per call.\<close>

theorem every_call_gets_one_result:
  assumes "list_all (\<lambda>tc. \<forall>n. approvalOf e n tc \<noteq> Interrupted) calls"
    and "\<forall>n t. getTool (toolset s) n = Some t \<longrightarrow> toolPolicyGroups t \<noteq> []"
  shows "toolPhase e calls s \<noteq> Crash
    \<and> (\<forall>t. toolPhase e calls s = Next t \<or> toolPhase e calls s = Break t \<longrightarrow>
        (\<exists>rows. persisted t = persisted s @ rows \<and> list_all (\<lambda>r. rowRole r = ''tool'') rows
          \<and> mset (map rowToolCallId rows) =
             mset (map callId (filter (\<lambda>tc. getTool (toolset s) (callName tc) \<noteq> None) calls))))
    \<and> (\<forall>t. toolPhase e calls s = Fail t \<longrightarrow>
        (\<exists>rows. persisted t = persisted s @ rows \<and> list_all (\<lambda>r. rowRole r = ''tool'') rows
          \<and> mset (map rowToolCallId rows) \<subseteq>#
             mset (map callId (filter (\<lambda>tc. getTool (toolset s) (callName tc) \<noteq> None) calls))))"
proof -
  let ?f = "\<lparr>work = [], denied = 0, interrupted = False, runState = s\<rparr>"
  let ?all = "mset (map callId (filter (\<lambda>tc. getTool (toolset s) (callName tc) \<noteq> None) calls))"
  have nb: "filterCalls e calls ?f \<noteq> Break f" for f
    using filterCalls_Break [of e calls ?f f] assms(1) by (auto simp: list_all_iff)
  have ff: "filterCalls e calls ?f \<noteq> Crash" "filterCalls e calls ?f = Fail f' \<longrightarrow> (\<exists>rows. persisted (runState f') = persisted s @ rows
      \<and> list_all (\<lambda>r. rowRole r = ''tool'') rows \<and> mset (map rowToolCallId rows) \<subseteq># ?all)" for f'
    using filterCalls_Fail [of ?f e calls f'] assms(2) by simp_all
  show ?thesis
  proof (cases "filterCalls e calls ?f")
    case (Next f)
    obtain rows ws where w: "persisted (runState f) = persisted s @ rows" "work f = ws"
        "list_all (\<lambda>r. rowRole r = ''tool'') rows" "mset (map rowToolCallId rows) + mset (map callId ws) = ?all"
      using filterCalls_Next [OF Next] by auto
    have sub: "mset (map rowToolCallId rows) \<subseteq># ?all" unfolding w(4) [symmetric] by simp
    show ?thesis
    proof (cases "ws = []")
      case True
      then show ?thesis using w by (auto simp: toolPhase_def Next)
    next
      case False
      define s1 where "s1 = (executeCalls e ws (runState f))\<lparr>checks := checks (runState f) + 1\<rparr>"
      have s1: "persisted s1 = persisted (runState f)" "checks (executeCalls e ws (runState f)) = checks (runState f)"
        by (simp_all add: s1_def executeCalls_def)
      let ?rs = "map (resultRow e (length (persisted s1))) ws"
      have tp: "toolPhase e calls s = (if cancelled e (checks (runState f)) then Fail s1 else appendRows e ?rs s1)"
        using w(2) False by (simp add: toolPhase_def Next checkCancelled_def s1_def executeCalls_def)
      have res: "rowToolCallId (resultRow e n tc) = callId tc" "rowRole (resultRow e n tc) = ''tool''" for n tc
        by (simp_all add: resultRow_def newToolMessage_def textRow_def)
      have part: "list_all (\<lambda>r. rowRole r = ''tool'') rs \<and> mset (map rowToolCallId (rows @ rs)) = mset (map rowToolCallId rows) + mset (map callId (take k ws))"
        if "map rowToolCallId rs = map rowToolCallId (take k ?rs)" "map rowRole rs = map rowRole (take k ?rs)" for rs k
      proof -
        have "map rowToolCallId rs = map callId (take k ws)" "map rowRole rs = map (\<lambda>x. ''tool'') (take k ws)"
          using that by (simp_all add: take_map res comp_def)
        then show ?thesis using list_all_tools by simp
      qed
      have le: "mset (map rowToolCallId rows) + mset (map callId (take k ws)) \<subseteq># ?all" for k
      proof -
        have "mset (map callId ws) = mset (map callId (take k ws)) + mset (map callId (drop k ws))"
          by (metis append_take_drop_id map_append mset_append)
        then show ?thesis unfolding w(4) [symmetric] by (simp add: add.assoc [symmetric])
      qed
      show ?thesis
      proof (intro conjI allI impI)
        show "toolPhase e calls s \<noteq> Crash" using appendRows_Fail by (simp add: tp)
      next
        fix t assume "toolPhase e calls s = Next t \<or> toolPhase e calls s = Break t"
        then have "appendRows e ?rs s1 = Next t" using appendRows_not_Break by (auto simp: tp split: if_splits)
        then obtain rs where rs: "persisted t = persisted s1 @ rs" "map rowToolCallId rs = map rowToolCallId ?rs" "map rowRole rs = map rowRole ?rs"
          using appendRows_Next by blast
        have "list_all (\<lambda>r. rowRole r = ''tool'') rs \<and> mset (map rowToolCallId (rows @ rs)) = ?all"
          using part [of rs "length ws"] rs(2,3) w(4) by simp
        then show "\<exists>rows. persisted t = persisted s @ rows \<and> list_all (\<lambda>r. rowRole r = ''tool'') rows \<and> mset (map rowToolCallId rows) = ?all"
          using rs(1) s1(1) w(1,3) by (intro exI [of _ "rows @ rs"]) simp
      next
        fix t assume "toolPhase e calls s = Fail t"
        then have "t = s1 \<or> appendRows e ?rs s1 = Fail t" unfolding tp by (metis step.inject(3))
        then show "\<exists>rows. persisted t = persisted s @ rows \<and> list_all (\<lambda>r. rowRole r = ''tool'') rows \<and> mset (map rowToolCallId rows) \<subseteq># ?all"
        proof
          assume "t = s1"
          then show ?thesis using s1(1) w(1,3) sub by auto
        next
          assume "appendRows e ?rs s1 = Fail t"
          then obtain rs k where rs: "persisted t = persisted s1 @ rs" "map rowToolCallId rs = map rowToolCallId (take k ?rs)"
            "map rowRole rs = map rowRole (take k ?rs)" using appendRows_Fail by blast
          show ?thesis using part [OF rs(2,3)] le [of k] rs(1) s1(1) w(1,3) by (intro exI [of _ "rows @ rs"]) simp
        qed
      qed
    qed
  next
    case (Fail f)
    then show ?thesis using ff(2) [of f] by (auto simp: toolPhase_def)
  qed (use nb ff(1) in auto)
qed

subsection \<open>The retry after a context-length error\<close>

definition fits_window :: "run_env \<Rightarrow> run_state \<Rightarrow> chat_message list \<Rightarrow> bool" where
  "fits_window e s ms \<longleftrightarrow> (\<forall>n. estimateToolDefinitionsTokens (jsonCodec e) (definitions (toolset s)) + promptTokens (jsonCodec e) ms
     \<le> resolveContextWindow (compaction e n) * 8 div 10)"

lemma roundPrompt_again:
  assumes "buildMessages (systemPrompt e) (mediaUrl e) (overlays e) (voice e) (live s) = Done ms"
    and "fits_window e s (truncateOldToolResults ms 10 8000)"
    and "live s' = live s" and "toolset s' = toolset s"
  shows "roundPrompt e s' = Done (truncateOldToolResults ms 10 8000, s')"
proof -
  have "compressContext (compaction e n) (jsonCodec e) k (live s) (truncateOldToolResults ms 10 8000)
      (definitions (toolset s)) roundLimits = Done (truncateOldToolResults ms 10 8000, None, k)" for n k
    using assms(2) by (simp add: compressContext_def Let_def fits_window_def roundLimits_def)
  then show ?thesis using assms(1,3,4) by (simp add: roundPrompt_def compress_def)
qed

lemma retry_round:
  assumes build: "buildMessages (systemPrompt e) (mediaUrl e) (overlays e) (voice e) (live s) = Done ms"
    and fits: "fits_window e s (truncateOldToolResults ms 10 8000)"
    and quiet: "arrivals e = (\<lambda>n. [])" "cancelled e = (\<lambda>n. False)"
    and long: "\<forall>n. answerOf e n (truncateOldToolResults ms 10 8000) (definitions (toolset s)) = RequestError err"
      "isContextLengthError err"
    and same: "live s' = live s" "toolset s' = toolset s" and inv: "run_inv h k s'"
  shows "\<exists>t. round_step e s' = (if contextRetries s' < 2 then Next t else Fail t)
    \<and> prompts t = prompts s' @ [truncateOldToolResults ms 10 8000]
    \<and> (contextRetries s' < 2 \<longrightarrow> live t = live s \<and> toolset t = toolset s \<and> contextRetries t = Suc (contextRetries s')
         \<and> run_inv h (Suc k) t)"
proof -
  let ?ms = "truncateOldToolResults ms 10 8000"
  define s3 where "s3 = s'\<lparr>checks := checks s' + 1, drains := drains s' + 1\<rparr>"
  have s3: "live s3 = live s" "toolset s3 = toolset s" "prompts s3 = prompts s'" "contextRetries s3 = contextRetries s'"
      "run_inv h k s3"
    using same inv by (simp_all add: s3_def run_inv_def recorded_def)
  have prompt: "roundPrompt e s3 = Done (?ms, s3)" by (rule roundPrompt_again [OF build fits s3(1,2)])
  have step: "round_step e s' = askModel e ?ms s3"
    unfolding round_step_def checkCancelled_def drain_def Let_def
    using quiet prompt by (simp add: s3_def)
  let ?p = "s3\<lparr>prompts := prompts s3 @ [?ms]\<rparr>"
  obtain zs where zs: "?ms = systemMessage (systemPrompt e) # zs" "paired ?ms" "only_assistants_call ?ms"
    using roundPrompt_inv [OF s3(5), of e] unfolding prompt by auto
  have ip: "run_inv h (Suc k) (?p\<lparr>contextRetries := contextRetries ?p + 1\<rparr>)"
    using run_inv_prompt [OF s3(5) zs(2)] by simp
  obtain ys s4 where s4: "compress e retryLimits ?ms (?p\<lparr>contextRetries := contextRetries ?p + 1\<rparr>) = Done (ys, s4)"
      "run_inv h (Suc k) s4" "prompts s4 = prompts ?p" "live s4 = live ?p" "toolset s4 = toolset ?p"
      "contextRetries s4 = contextRetries ?p + 1"
    using compress_inv [OF ip, of "systemPrompt e" zs retryLimits e] zs
    by (auto simp: paired_def retryLimits_def)
  have ask: "askModel e ?ms s3 = (if contextRetries s3 < 2 then Next s4 else Fail ?p)"
    using long s3(2) s4(1) by (simp add: askModel_def Let_def)
  show ?thesis
  proof (cases "contextRetries s' < 2")
    case True
    then show ?thesis using step ask s3 s4 by (intro exI [of _ s4]) simp
  next
    case False
    then show ?thesis using step ask s3 by (intro exI [of _ ?p]) simp
  qed
qed

text \<open>When the provider rejects a prompt as too long although the runner's own estimate fits the window,
  the advertised compact-and-retry changes nothing the model sees: the compacted and truncated
  messages are dropped, the in-memory history does not learn of the stored summary, so the run
  sends the identical prompt three times and fails.\<close>

theorem context_retry_resends_the_prompt:
  assumes "buildMessages (systemPrompt e) (mediaUrl e) (overlays e) (voice e) (live s) = Done ms"
    and "fits_window e s (truncateOldToolResults ms 10 8000)"
    and "arrivals e = (\<lambda>n. [])" and "cancelled e = (\<lambda>n. False)"
    and "\<forall>n. answerOf e n (truncateOldToolResults ms 10 8000) (definitions (toolset s)) = RequestError err"
    and "isContextLengthError err"
    and "no_nil (live s)" and "groups_declared (toolset s)" and "persisted s = []" and "prompts s = []"
    and "contextRetries s = 0"
  shows "\<exists>t. executeRun e s = Fail t \<and> prompts t = replicate 3 (truncateOldToolResults ms 10 8000)"
proof -
  note again = retry_round [OF assms(1-6)]
  have "run_inv (live s) 0 s" using assms by (simp add: run_inv_def recorded_def)
  from again [OF refl refl this] assms(10,11)
  obtain t1 where t1: "round_step e s = Next t1" "prompts t1 = [truncateOldToolResults ms 10 8000]" "live t1 = live s"
      "toolset t1 = toolset s" "contextRetries t1 = 1" "run_inv (live s) 1 t1"
    by auto
  from again [OF t1(3,4,6)] t1(2,5)
  obtain t2 where t2: "round_step e t1 = Next t2"
      "prompts t2 = [truncateOldToolResults ms 10 8000, truncateOldToolResults ms 10 8000]" "live t2 = live s"
      "toolset t2 = toolset s" "contextRetries t2 = 2" "run_inv (live s) 2 t2"
    by (auto simp: numeral_2_eq_2)
  from again [OF t2(3,4,6)] t2(2,5)
  obtain t3 where t3: "round_step e t2 = Fail t3" "prompts t3 = replicate 3 (truncateOldToolResults ms 10 8000)"
    by (auto simp: numeral_3_eq_3)
  have "executeRun e s = Fail t3"
    using t1(1) t2(1) t3(1) unfolding executeRun_def
    by (simp add: numeral_eq_Suc)
  with t3(2) show ?thesis by blast
qed

subsection \<open>A mid-run message behind the cut\<close>

text \<open>
  A mid-run message is stored with an identifier the in-memory copy does not get. The sample
  conversation has one as the oldest message a compaction keeps.
\<close>

definition storedConversation :: "row list" where
  "storedConversation =
     [(textRow ''user'' ''start'')\<lparr>rowId := ''a''\<rparr>, (textRow ''assistant'' ''working'')\<lparr>rowId := ''b''\<rparr>,
      (textRow ''user'' ''change of plan'')\<lparr>rowId := ''m''\<rparr>, (textRow ''assistant'' ''done'')\<lparr>rowId := ''c''\<rparr>]"

definition liveConversation :: "row list" where
  "liveConversation = map (\<lambda>r. if rowId r = ''m'' then r\<lparr>rowId := []\<rparr> else r) storedConversation"

definition keptOfLive :: "chat_message list" where
  "keptOfLive = transcriptOf (\<lambda>u. u) (map Some (drop 2 liveConversation))"

text \<open>A mid-run message that is the oldest message kept verbatim by a compaction is lost to later runs:
  its in-memory copy has no identifier, so the resume point recorded is the row behind it, and
  the next prompt holds neither the message nor a summary that read it.\<close>

theorem kept_mid_run_message_is_cut:
  "case buildMessages [] (\<lambda>u. u) [] [] (map Some (storedConversation
      @ [summaryRow ''s'' ''summary'' (findResumeFromMessageId (map Some liveConversation) keptOfLive) True])) of
     Done ms \<Rightarrow> ''change of plan'' \<in> set (map (contentText \<circ> content) keptOfLive)
       \<and> ''change of plan'' \<notin> set (map (contentText \<circ> content) ms)
       \<and> ''done'' \<in> set (map (contentText \<circ> content) ms)
   | _ \<Rightarrow> False"
  by code_simp

subsection \<open>Witnesses\<close>

definition idleCompaction :: compaction_env where
  "idleCompaction = \<lparr>windowSetting = None, summarizerModel = None, appendSucceeds = True, newRowId = ''s''\<rparr>"

definition rejectingEnv :: run_env where
  "rejectingEnv = \<lparr>answerOf = (\<lambda>n ms ds. RequestError ''too many tokens''), execute = (\<lambda>n tc. Inr []), activates = (\<lambda>n tc. []), approvalOf = (\<lambda>n tc. Approved),
     arrivals = (\<lambda>n. []), cancelled = (\<lambda>n. False), appendOk = (\<lambda>n. True), freshId = (\<lambda>n. ''i''),
     compaction = (\<lambda>n. idleCompaction), policyOf = \<lparr>configuredPolicies = [], callerIsAdmin = False\<rparr>, fromWeb = True,
     repair = (\<lambda>a. a), lower = (\<lambda>t. t), jsonCodec = rawCodec, systemPrompt = ''You are'', mediaUrl = (\<lambda>m. []),
     overlays = [], voice = []\<rparr>"

definition freshRun :: run_state where
  "freshRun = \<lparr>live = [Some (sampleRow ''1'' ''user'')], persisted = [], toolset = newEmptyToolRegistry, prompts = [],
     contextRetries = 0, drains = 0, checks = 0, summaryRequests = 0, responseText = [], stopReason = []\<rparr>"

definition freshPrompt :: "chat_message list" where
  "freshPrompt = [systemMessage ''You are'', chatMessageOf (\<lambda>m. []) (sampleRow ''1'' ''user'')]"

lemma freshRun_ok:
  "no_nil (live freshRun)" "prompts freshRun = []" "persisted freshRun = []" "groups_declared (toolset freshRun)"
  "contextRetries freshRun = 0"
  by (simp_all add: freshRun_def no_nil_def groups_declared_def newEmptyToolRegistry_def)

lemma freshRun_prompt:
  "buildMessages (systemPrompt rejectingEnv) (mediaUrl rejectingEnv) (overlays rejectingEnv) (voice rejectingEnv)
     (live freshRun) = Done freshPrompt"
  unfolding rejectingEnv_def run_env.simps by code_simp

lemma freshRun_fits: "fits_window rejectingEnv freshRun (truncateOldToolResults freshPrompt 10 8000)"
proof -
  have "truncateOldToolResults freshPrompt 10 8000 = freshPrompt"
    by (simp add: truncateOldToolResults_def freshPrompt_def)
  moreover have "promptTokens rawCodec freshPrompt \<le> 20"
    by (simp add: freshPrompt_def estimateMessageTokens_def systemMessage_def chatMessageOf_def sampleRow_def
        contentBlocks_def estimateTokens_def)
  moreover have "definitions newEmptyToolRegistry = []"
    by (simp add: definitions_def names_def newEmptyToolRegistry_def)
  ultimately show ?thesis
    by (simp add: fits_window_def rejectingEnv_def freshRun_def idleCompaction_def resolveContextWindow_def
        estimateToolDefinitionsTokens_def)
qed

lemma tooMany: "isContextLengthError ''too many tokens''"
  by code_simp

lemma context_retry_resends_the_prompt_witness:
  "\<exists>t. executeRun rejectingEnv freshRun = Fail t \<and> length (prompts t) = 3"
  using context_retry_resends_the_prompt [OF freshRun_prompt freshRun_fits _ _ _ tooMany freshRun_ok(1,4,3,2,5)]
  by (force simp: rejectingEnv_def)

lemma every_prompt_is_paired_witness:
  "step_all (\<lambda>t. length (prompts t) \<le> 250) (executeRun rejectingEnv freshRun)"
  using every_prompt_is_paired [OF freshRun_ok(1-4), of rejectingEnv] by (rule step_all_mono) simp

lemma stored_rows_match_history_witness:
  "step_all (\<lambda>t. \<exists>rs. live t = Some (sampleRow ''1'' ''user'') # rs) (executeRun rejectingEnv freshRun)"
  using stored_rows_match_history [OF freshRun_ok(1-4), of rejectingEnv]
  by (rule step_all_mono) (auto simp: freshRun_def)

definition unknownCall :: tool_call where
  "unknownCall = \<lparr>callId = ''t'', callName = ''missing'', callArguments = []\<rparr>"

definition toolRun :: run_state where
  "toolRun = freshRun\<lparr>toolset := register (sampleTool ''jobs'') (register ((sampleTool ''clock'')\<lparr>toolPolicyGroups :=
     [\<lparr>policyGroupName = ''*'', policyGroupDefault = ''anyone'', policyGroupActions = []\<rparr>]\<rparr>) newEmptyToolRegistry)\<rparr>"

definition toolCalls3 :: "tool_call list" where
  "toolCalls3 = [\<lparr>callId = ''t1'', callName = ''jobs'', callArguments = []\<rparr>, \<lparr>callId = ''t2'', callName = ''clock'', callArguments = []\<rparr>, unknownCall]"

lemma every_call_gets_one_result_witness:
  "\<exists>t rows. toolPhase rejectingEnv toolCalls3 toolRun = Next t \<and> persisted t = rows \<and> mset (map rowToolCallId rows) = {#''t1'', ''t2''#}"
proof -
  have "case toolPhase rejectingEnv toolCalls3 toolRun of Next t \<Rightarrow> True | _ \<Rightarrow> False"
    by (simp add: toolPhase_def toolCalls3_def unknownCall_def toolRun_def freshRun_def register_def newEmptyToolRegistry_def getTool_def toolKey_def
      sampleTool_def filterCall_def isLoaded_def resolveToolPolicy_def rejectingEnv_def rawCodec_def parseAction_def applyPolicyLevel_def denyPolicy_def
      allowPolicy_def resolveConfiguredPolicy_def refuse_def appendRow_def accept_def checkCancelled_def executeCalls_def Let_def)
  then obtain t where t: "toolPhase rejectingEnv toolCalls3 toolRun = Next t" by (cases "toolPhase rejectingEnv toolCalls3 toolRun") auto
  have tools: "getTool (toolset toolRun) n = (if n = ''jobs'' then Some (sampleTool ''jobs'') else if n = ''clock'' then Some ((sampleTool ''clock'')\<lparr>toolPolicyGroups :=
     [\<lparr>policyGroupName = ''*'', policyGroupDefault = ''anyone'', policyGroupActions = []\<rparr>]\<rparr>) else None)" for n
    by (simp add: toolRun_def register_def newEmptyToolRegistry_def getTool_def toolKey_def sampleTool_def)
  have "list_all (\<lambda>tc. \<forall>n. approvalOf rejectingEnv n tc \<noteq> Interrupted) toolCalls3" by (simp add: rejectingEnv_def list_all_iff)
  moreover have "\<forall>n t. getTool (toolset toolRun) n = Some t \<longrightarrow> toolPolicyGroups t \<noteq> []" by (simp add: tools sampleTool_def)
  moreover have "persisted toolRun = []" by (simp add: toolRun_def freshRun_def)
  ultimately obtain rows where "persisted t = rows"
    "mset (map rowToolCallId rows) = mset (map callId (filter (\<lambda>tc. getTool (toolset toolRun) (callName tc) \<noteq> None) toolCalls3))"
    using every_call_gets_one_result [of rejectingEnv toolCalls3 toolRun] t by auto
  then show ?thesis using t by (simp add: tools toolCalls3_def unknownCall_def)
qed

end
