(* ===== verification/Semver.thy ===== *)
theory Semver
  imports GoStrings "HOL-Library.Product_Lexorder"
begin

text \<open>
  The versions of \<open>internal/updater/version.go\<close>: \<open>parseSemver\<close> with its git-describe suffix, and the
  comparison \<open>IsNewer\<close>. The struct \<open>semver\<close> becomes an instance of \<open>linorder\<close>; that the chain of
  early returns in \<open>IsNewer\<close> computes this order is the refinement proved here, and a printer for
  release names, pre-releases and git-describe names gives the round trip of the parser.
\<close>

subsection \<open>Parsing\<close>

datatype semver = Semver (Major: int) (Minor: int) (Patch: int) (Prerelease: string) (CommitsAhead: int)

datatype semver_error = InvalidSemver | InvalidMajor | InvalidMinor | InvalidPatch

definition is_digit :: "char \<Rightarrow> bool" where
  "is_digit c \<longleftrightarrow> 48 \<le> byte c \<and> byte c \<le> 57"

definition is_hex :: "char \<Rightarrow> bool" where
  "is_hex c \<longleftrightarrow> is_digit c \<or> (97 \<le> byte c \<and> byte c \<le> 102)"

text \<open>
  The pattern \<open>^(\d+)-g([0-9a-f]+)$\<close>. The first group is the longest run of digits, because a
  minus sign has to follow it.
\<close>

definition gitDescribe :: "string \<Rightarrow> string option" where
  "gitDescribe s =
     (let ahead = takeWhile is_digit s; rest = dropWhile is_digit s in
      if ahead \<noteq> [] \<and> has_prefix rest ''-g'' \<and> drop 2 rest \<noteq> [] \<and> list_all is_hex (drop 2 rest)
      then Some ahead else None)"

definition splitBuild :: "string \<Rightarrow> string" where
  "splitBuild v = (case index_byte v (CHR ''+'') of None \<Rightarrow> v | Some i \<Rightarrow> take i v)"

text \<open>The version proper, the pre-release and the number of commits ahead.\<close>

definition splitSuffix :: "string \<Rightarrow> string \<times> string \<times> int" where
  "splitSuffix v =
     (case index_byte v (CHR ''-'') of
        None \<Rightarrow> (v, [], 0)
      | Some i \<Rightarrow>
          (let suffix = drop (Suc i) v in
           case gitDescribe suffix of
             Some ahead \<Rightarrow> (take i v, [], atoi_value (atoi ahead))
           | None \<Rightarrow> (take i v, suffix, 0)))"

definition parseSemver :: "string \<Rightarrow> semver_error + semver" where
  "parseSemver version =
     (let (v, prerelease, ahead) = splitSuffix (splitBuild (trim_prefix version ''v'')) in
      case split_n 3 (CHR ''.'') v of
        [a, b, c] \<Rightarrow>
          (case atoi_ok (atoi a) of
             None \<Rightarrow> Inl InvalidMajor
           | Some major \<Rightarrow>
               (case atoi_ok (atoi b) of
                  None \<Rightarrow> Inl InvalidMinor
                | Some minor \<Rightarrow>
                    (case atoi_ok (atoi c) of
                       None \<Rightarrow> Inl InvalidPatch
                     | Some patch \<Rightarrow> Inr (Semver major minor patch prerelease ahead))))
      | _ \<Rightarrow> Inl InvalidSemver)"

subsection \<open>Comparing\<close>

datatype compare_error = RemoteInvalid semver_error | LocalInvalid semver_error

text \<open>The comparison of two parsed versions, early return by early return.\<close>

definition newerThan :: "semver \<Rightarrow> semver \<Rightarrow> bool" where
  "newerThan remote local =
     (if Major remote \<noteq> Major local then Major local < Major remote
      else if Minor remote \<noteq> Minor local then Minor local < Minor remote
      else if Patch remote \<noteq> Patch local then Patch local < Patch remote
      else if 0 < CommitsAhead local \<and> CommitsAhead remote = 0 then False
      else if 0 < CommitsAhead remote \<and> CommitsAhead local = 0 then True
      else if CommitsAhead local \<noteq> CommitsAhead remote then CommitsAhead local < CommitsAhead remote
      else if Prerelease local = [] \<and> Prerelease remote \<noteq> [] then False
      else if Prerelease local \<noteq> [] \<and> Prerelease remote = [] then True
      else Prerelease local < Prerelease remote)"

definition isNewer :: "string \<Rightarrow> string \<Rightarrow> compare_error + bool" where
  "isNewer remoteVersion localVersion =
     (case parseSemver remoteVersion of
        Inl e \<Rightarrow> Inl (RemoteInvalid e)
      | Inr remote \<Rightarrow>
          (case parseSemver localVersion of
             Inl e \<Rightarrow> Inl (LocalInvalid e)
           | Inr local \<Rightarrow> Inr (newerThan remote local)))"

definition isAheadOfRelease :: "string \<Rightarrow> string \<Rightarrow> bool" where
  "isAheadOfRelease remoteVersion localVersion =
     (case (parseSemver remoteVersion, parseSemver localVersion) of
        (Inr remote, Inr local) \<Rightarrow>
          0 < CommitsAhead local \<and> Major remote = Major local \<and> Minor remote = Minor local
          \<and> Patch remote = Patch local
      | _ \<Rightarrow> False)"

subsection \<open>The order of versions\<close>

text \<open>
  The abstract order: lexicographic by the three numbers, the commits ahead and the pre-release,
  where no pre-release counts as the greatest one.
\<close>

definition version_key :: "semver \<Rightarrow> int \<times> int \<times> int \<times> int \<times> bool \<times> string" where
  "version_key v = (Major v, Minor v, Patch v, CommitsAhead v, Prerelease v = [], Prerelease v)"

lemma version_key_inject: "version_key a = version_key b \<longleftrightarrow> a = b"
  by (cases a; cases b) (auto simp: version_key_def)

instantiation semver :: linorder
begin

definition less_eq_semver :: "semver \<Rightarrow> semver \<Rightarrow> bool" where
  "less_eq_semver a b \<longleftrightarrow> version_key a \<le> version_key b"

definition less_semver :: "semver \<Rightarrow> semver \<Rightarrow> bool" where
  "less_semver a b \<longleftrightarrow> version_key a < version_key b"

instance
  by standard
    (auto simp: less_eq_semver_def less_semver_def order.strict_iff_order version_key_inject
      simp flip: version_key_inject)

end

lemma newerThan_less: "newerThan remote local \<longleftrightarrow> local < remote"
  if "0 \<le> CommitsAhead remote" and "0 \<le> CommitsAhead local"
  using that by (auto simp: newerThan_def less_semver_def version_key_def)

lemma takeWhile_digits: "list_all is_digit (takeWhile is_digit s)"
  by (induction s) auto

lemma atoi_digits_nonneg:
  assumes "list_all is_digit ds"
  shows "0 \<le> atoi_value (atoi ds)"
proof (cases ds)
  case Nil
  then show ?thesis by (simp add: atoi_def)
next
  case (Cons c cs)
  then have "c \<noteq> CHR ''-''" "c \<noteq> CHR ''+''" using assms by (auto simp: is_digit_def)
  then show ?thesis
    using Cons by (auto simp: atoi_def atoi_digits_def max_int64_def split: option.split)
qed

lemma splitSuffix_nonneg: "splitSuffix v = (w, p, n) \<Longrightarrow> 0 \<le> n"
  using atoi_digits_nonneg [OF takeWhile_digits]
  by (auto simp: splitSuffix_def gitDescribe_def Let_def split: option.splits if_splits)

lemma parse_commits: "parseSemver s = Inr v \<Longrightarrow> 0 \<le> CommitsAhead v"
  by (auto simp: parseSemver_def dest!: splitSuffix_nonneg split: prod.splits list.splits option.splits)

text \<open>C11: \<open>IsNewer\<close> is the strict order of the parsed versions: a total order, so no two builds are each
  newer than the other and no chain of updates returns to where it started; the only other results
  are the parse errors, that of the remote version first.\<close>

theorem isNewer_is_the_version_order:
  "isNewer remote local =
    (case (parseSemver remote, parseSemver local) of
       (Inl e, _) \<Rightarrow> Inl (RemoteInvalid e)
     | (Inr r, Inl e) \<Rightarrow> Inl (LocalInvalid e)
     | (Inr r, Inr l) \<Rightarrow> Inr (l < r))"
  using newerThan_less parse_commits by (auto simp: isNewer_def split: sum.splits)

text \<open>What a release, a pre-release or a git-describe build is called.\<close>

definition versionText :: "nat \<Rightarrow> nat \<Rightarrow> nat \<Rightarrow> string" where
  "versionText a b c = decimal a @ ''.'' @ decimal b @ ''.'' @ decimal c"

definition describeSuffix :: "nat \<Rightarrow> string \<Rightarrow> string" where
  "describeSuffix n commit = ''-'' @ decimal n @ ''-g'' @ commit"

lemma decimal_is_digit: "list_all is_digit (decimal n)"
  using decimal_digits by (auto simp: list_all_iff is_digit_def)

lemma decimal_free: "\<not> is_digit c \<Longrightarrow> c \<notin> set (decimal n)"
  using decimal_is_digit [of n] by (auto simp: list_all_iff)

lemma separators: "\<not> is_digit (CHR ''.'')" "\<not> is_digit (CHR ''-'')" "\<not> is_digit (CHR ''+'')" "\<not> is_digit (CHR ''v'')"
  by (simp_all add: is_digit_def)

lemma versionText_free: "c \<noteq> CHR ''.'' \<Longrightarrow> \<not> is_digit c \<Longrightarrow> c \<notin> set (versionText a b c')"
  by (simp add: versionText_def decimal_free)

lemma numbers_read:
  assumes "int a \<le> max_int64" and "int b \<le> max_int64" and "int c \<le> max_int64"
  shows "split_n 3 (CHR ''.'') (versionText a b c) = [decimal a, decimal b, decimal c]"
    and "atoi_ok (atoi (decimal a)) = Some (int a)"
    and "atoi_ok (atoi (decimal b)) = Some (int b)"
    and "atoi_ok (atoi (decimal c)) = Some (int c)"
  using assms by (simp_all add: versionText_def split_n_three decimal_free separators atoi_decimal)

lemma gitDescribe_suffix:
  assumes "commit \<noteq> []" and "list_all is_hex commit"
  shows "gitDescribe (decimal n @ ''-g'' @ commit) = Some (decimal n)"
proof -
  have "takeWhile is_digit (decimal n @ ''-g'' @ commit) = decimal n"
    using decimal_is_digit by (simp add: list_all_iff separators)
  moreover have "dropWhile is_digit (decimal n @ ''-g'' @ commit) = ''-g'' @ commit"
    using decimal_is_digit by (simp add: list_all_iff separators)
  ultimately show ?thesis using assms by (simp add: gitDescribe_def has_prefix_def)
qed

lemma splitSuffix_none: "CHR ''-'' \<notin> set v \<Longrightarrow> splitSuffix v = (v, [], 0)"
  by (simp add: splitSuffix_def iffD2 [OF index_byte_None])

lemma splitSuffix_at: "CHR ''-'' \<notin> set v \<Longrightarrow> splitSuffix (v @ CHR ''-'' # s) =
    (case gitDescribe s of Some ahead \<Rightarrow> (v, [], atoi_value (atoi ahead)) | None \<Rightarrow> (v, s, 0))"
  by (simp add: splitSuffix_def index_byte_append split: option.split)

lemma splitBuild_none: "CHR ''+'' \<notin> set v \<Longrightarrow> splitBuild v = v"
  by (simp add: splitBuild_def iffD2 [OF index_byte_None])

lemma splitBuild_at: "CHR ''+'' \<notin> set v \<Longrightarrow> splitBuild (v @ CHR ''+'' # s) = v"
  by (simp add: splitBuild_def index_byte_append)

text \<open>Printing: a release, a pre-release or a git-describe build, with or without build metadata.\<close>

definition suffixText :: "semver \<Rightarrow> string \<Rightarrow> string" where
  "suffixText v commit =
     (if 0 < CommitsAhead v then describeSuffix (nat (CommitsAhead v)) commit
      else if Prerelease v \<noteq> [] then CHR ''-'' # Prerelease v else [])"

definition printVersion :: "semver \<Rightarrow> string \<Rightarrow> string option \<Rightarrow> string" where
  "printVersion v commit build =
     versionText (nat (Major v)) (nat (Minor v)) (nat (Patch v)) @ suffixText v commit
     @ (case build of None \<Rightarrow> [] | Some b \<Rightarrow> CHR ''+'' # b)"

definition in_field :: "int \<Rightarrow> bool" where
  "in_field n \<longleftrightarrow> 0 \<le> n \<and> n \<le> max_int64"

definition printable :: "semver \<Rightarrow> string \<Rightarrow> bool" where
  "printable v commit \<longleftrightarrow>
     in_field (Major v) \<and> in_field (Minor v) \<and> in_field (Patch v) \<and> in_field (CommitsAhead v)
     \<and> CHR ''+'' \<notin> set (Prerelease v) \<and> gitDescribe (Prerelease v) = None
     \<and> (0 < CommitsAhead v \<longrightarrow> Prerelease v = [])
     \<and> commit \<noteq> [] \<and> list_all is_hex commit"

lemma suffix_free: "printable v commit \<Longrightarrow> CHR ''+'' \<notin> set (suffixText v commit)"
  by (auto simp: printable_def suffixText_def describeSuffix_def decimal_free separators list_all_iff is_hex_def)

lemma splitBuild_print: "printable v commit \<Longrightarrow> splitBuild (printVersion v commit build) =
    versionText (nat (Major v)) (nat (Minor v)) (nat (Patch v)) @ suffixText v commit"
  using suffix_free [of v commit] splitBuild_none splitBuild_at
  by (cases build) (auto simp: printVersion_def versionText_free separators simp flip: append_assoc)

lemma splitSuffix_print:
  assumes "printable v commit" and "CHR ''-'' \<notin> set w"
  shows "splitSuffix (w @ suffixText v commit) = (w, Prerelease v, CommitsAhead v)"
proof -
  have c: "atoi_value (atoi (decimal (nat (CommitsAhead v)))) = CommitsAhead v"
    using assms(1) by (simp add: printable_def in_field_def atoi_decimal)
  have z: "\<not> 0 < CommitsAhead v \<Longrightarrow> CommitsAhead v = 0"
    using assms(1) by (simp add: printable_def in_field_def)
  show ?thesis
    using assms c z gitDescribe_suffix [of commit "nat (CommitsAhead v)"]
    by (auto simp: suffixText_def describeSuffix_def printable_def splitSuffix_none splitSuffix_at)
qed

lemma printVersion_digit: "\<exists>c s. printVersion v commit build = c # s \<and> is_digit c"
proof -
  obtain c s where "decimal (nat (Major v)) = c # s" by (meson decimal_nonempty neq_Nil_conv)
  then show ?thesis
    using decimal_is_digit [of "nat (Major v)"] by (auto simp: printVersion_def versionText_def)
qed

lemma trim_v: "trim_prefix (printVersion v commit build) ''v'' = printVersion v commit build"
  using printVersion_digit [of v commit build] separators(4)
  by (auto simp: trim_prefix_def has_prefix_def)

text \<open>Parsing what a build is called gives the version back, with or without the leading v and whatever
  the build metadata: a release, a pre-release, and a git-describe name, whose number of commits is
  read as such and not as a pre-release.\<close>

theorem parse_print_version:
  assumes "printable v commit"
  shows "parseSemver (printVersion v commit build) = Inr v \<and> parseSemver (CHR ''v'' # printVersion v commit build) = Inr v"
proof -
  let ?w = "versionText (nat (Major v)) (nat (Minor v)) (nat (Patch v))"
  have r: "int (nat x) \<le> max_int64" "int (nat x) = x" if "in_field x" for x
    using that by (simp_all add: in_field_def)
  have "CHR ''-'' \<notin> set ?w" by (simp add: versionText_free separators)
  note parts = splitSuffix_print [OF assms this] splitBuild_print [OF assms, of build]
  have f: "in_field (Major v)" "in_field (Minor v)" "in_field (Patch v)"
    using assms by (simp_all add: printable_def)
  have "trim_prefix (CHR ''v'' # printVersion v commit build) ''v'' = printVersion v commit build"
    by (simp add: trim_prefix_def has_prefix_def)
  then show ?thesis
    using parts trim_v [of v commit build]
      numbers_read [OF r(1) [OF f(1)] r(1) [OF f(2)] r(1) [OF f(3)]] r(2) f
    by (simp add: parseSemver_def)
qed

lemma parse_print_version_witness:
  "parseSemver (printVersion (Semver 0 1 4 [] 2) ''2191b71'' (Some ''linux'')) = Inr (Semver 0 1 4 [] 2)"
proof -
  have "printable (Semver 0 1 4 [] 2) ''2191b71''"
    by (simp add: printable_def in_field_def max_int64_def gitDescribe_def is_hex_def is_digit_def)
  from parse_print_version [OF this, of "Some ''linux''"] show ?thesis by simp
qed

end
