(* ===== verification/UpdateApply.thy ===== *)
theory UpdateApply
  imports GoStrings
begin

text \<open>
  Swapping the executable, \<open>internal/updater/apply_unix.go\<close>: the current binary is renamed to a
  backup, the staged one renamed (or, across file systems, copied) into place, and the backup
  restored when that fails. The disk is a map from paths to contents, as the system calls see it, together with
  every state it went through, so the death of the process is a cut of that list; what a power failure leaves of
  data that was never synced is not modelled. Each system call may fail, as a record of answers says; a
  rename is atomic, a copy is not. Permissions are left out.
\<close>

subsection \<open>The disk\<close>

type_synonym files = "string \<Rightarrow> string option"

record disk =
  content_of :: files
  seen :: "files list"

definition change :: "(files \<Rightarrow> files) \<Rightarrow> disk \<Rightarrow> disk" where
  "change f d = \<lparr>content_of = f (content_of d), seen = seen d @ [f (content_of d)]\<rparr>"

definition putFile :: "string \<Rightarrow> string option \<Rightarrow> disk \<Rightarrow> disk" where
  "putFile p x = change (\<lambda>f. f(p := x))"

definition removeFile :: "bool \<Rightarrow> string \<Rightarrow> disk \<Rightarrow> disk" where
  "removeFile ok p d = (if ok then putFile p None d else d)"

text \<open>\<open>os.Rename\<close>, which replaces the target and fails without a source.\<close>

datatype rename_answer = RenameOk | RenameCrossDevice | RenameFails

definition renameFile :: "rename_answer \<Rightarrow> string \<Rightarrow> string \<Rightarrow> disk \<Rightarrow> rename_answer \<times> disk" where
  "renameFile answer a b d =
     (if answer = RenameOk \<and> content_of d a \<noteq> None
      then (RenameOk, change (\<lambda>f. f(b := f a, a := None)) d)
      else (if answer = RenameOk then RenameFails else answer, d))"

subsection \<open>The swap\<close>

text \<open>
  The answers of the system calls of one swap. \<open>copyStops\<close> is the number of bytes after which the
  copy fails, if it does; \<open>copyHalf\<close> is a point of the copy at which a crash may fall.
\<close>

record swap_env =
  staleRemoved :: bool
  backupAnswer :: rename_answer
  stageAnswer :: rename_answer
  sourceReadable :: bool
  tempName :: string
  tempCreated :: bool
  copyHalf :: nat
  copyStops :: "nat option"
  modeSet :: bool
  tempClosed :: bool
  tempAnswer :: rename_answer
  tempRemoved :: bool
  sourceRemoved :: bool
  restoreAnswer :: rename_answer
  backupRemoved :: bool

definition copyFile :: "swap_env \<Rightarrow> string \<Rightarrow> string \<Rightarrow> disk \<Rightarrow> bool \<times> disk" where
  "copyFile e source destination d =
     (case content_of d source of
        None \<Rightarrow> (False, d)
      | Some x \<Rightarrow>
          if \<not> sourceReadable e \<or> \<not> tempCreated e then (False, d)
          else
            (let discard = removeFile (tempRemoved e) (tempName e);
                 d1 = putFile (tempName e) (Some (take (copyHalf e) x)) (putFile (tempName e) (Some []) d) in
             case copyStops e of
               Some n \<Rightarrow> (False, discard (putFile (tempName e) (Some (take n x)) d1))
             | None \<Rightarrow>
                 (let d2 = putFile (tempName e) (Some x) d1 in
                  if \<not> modeSet e then (False, discard d2)
                  else if \<not> tempClosed e then (False, discard d2)
                  else (case renameFile (tempAnswer e) (tempName e) destination d2 of
                          (RenameOk, d3) \<Rightarrow> (True, removeFile (sourceRemoved e) source d3)
                        | (_, d3) \<Rightarrow> (False, discard d3)))))"

definition renameOrCopy :: "swap_env \<Rightarrow> string \<Rightarrow> string \<Rightarrow> disk \<Rightarrow> bool \<times> disk" where
  "renameOrCopy e source destination d =
     (case renameFile (stageAnswer e) source destination d of
        (RenameOk, d1) \<Rightarrow> (True, d1)
      | (RenameCrossDevice, d1) \<Rightarrow> copyFile e source destination d1
      | (RenameFails, d1) \<Rightarrow> (False, d1))"

datatype swap_result = Applied | BackupFailed | Restored | Critical

definition backupOf :: "string \<Rightarrow> string" where
  "backupOf path = path @ ''.bak''"

definition platformApply :: "swap_env \<Rightarrow> string \<Rightarrow> string \<Rightarrow> disk \<Rightarrow> swap_result \<times> disk" where
  "platformApply e currentPath stagedPath d =
     (let backupPath = backupOf currentPath in
      case renameFile (backupAnswer e) currentPath backupPath (removeFile (staleRemoved e) backupPath d) of
        (RenameOk, d1) \<Rightarrow>
          (case renameOrCopy e stagedPath currentPath d1 of
             (True, d2) \<Rightarrow> (Applied, removeFile (backupRemoved e) backupPath d2)
           | (False, d2) \<Rightarrow>
               (case renameFile (restoreAnswer e) backupPath currentPath d2 of
                  (RenameOk, d3) \<Rightarrow> (Restored, d3)
                | (_, d3) \<Rightarrow> (Critical, d3)))
      | (_, d1) \<Rightarrow> (BackupFailed, d1))"

text \<open>The same swap step by step, as it interleaves with another one; a copy touches the executable only by its
  last rename, so it is one step.\<close>

datatype swap_pc = Starting | Cleaned | BackedUp | StagingFailed | Installed | Swapped swap_result

fun swapStep :: "swap_env \<Rightarrow> string \<Rightarrow> string \<Rightarrow> swap_pc \<times> disk \<Rightarrow> swap_pc \<times> disk" where
  "swapStep e path staged (Starting, d) = (Cleaned, removeFile (staleRemoved e) (backupOf path) d)"
| "swapStep e path staged (Cleaned, d) =
     (case renameFile (backupAnswer e) path (backupOf path) d of
        (RenameOk, d1) \<Rightarrow> (BackedUp, d1)
      | (_, d1) \<Rightarrow> (Swapped BackupFailed, d1))"
| "swapStep e path staged (BackedUp, d) =
     (case renameOrCopy e staged path d of (True, d1) \<Rightarrow> (Installed, d1) | (False, d1) \<Rightarrow> (StagingFailed, d1))"
| "swapStep e path staged (StagingFailed, d) =
     (case renameFile (restoreAnswer e) (backupOf path) path d of
        (RenameOk, d1) \<Rightarrow> (Swapped Restored, d1)
      | (_, d1) \<Rightarrow> (Swapped Critical, d1))"
| "swapStep e path staged (Installed, d) = (Swapped Applied, removeFile (backupRemoved e) (backupOf path) d)"
| "swapStep e path staged (Swapped r, d) = (Swapped r, d)"

lemma swap_steps:
  "(swapStep e path staged ^^ 4) (Starting, d) = (case platformApply e path staged d of (r, t) \<Rightarrow> (Swapped r, t))"
  by (simp add: numeral_nat platformApply_def Let_def split: prod.split rename_answer.split bool.split)

text \<open>Several swaps of one executable, each with its answers and its staged binary, scheduled step by step.\<close>

fun swaps :: "(nat \<Rightarrow> swap_env \<times> string) \<Rightarrow> string \<Rightarrow> nat list \<Rightarrow> (nat \<Rightarrow> swap_pc) \<times> disk \<Rightarrow> (nat \<Rightarrow> swap_pc) \<times> disk" where
  "swaps es path [] s = s"
| "swaps es path (i # js) (pcs, d) =
     (case swapStep (fst (es i)) path (snd (es i)) (pcs i, d) of (c, d1) \<Rightarrow> swaps es path js (pcs(i := c), d1))"

subsection \<open>What a crash can leave\<close>

text \<open>
  A disk state is recoverable when the executable is the old or the new binary, complete, or is
  missing while the backup is the old one.
\<close>

definition recoverable :: "string \<Rightarrow> string \<Rightarrow> string \<Rightarrow> files \<Rightarrow> bool" where
  "recoverable path old new f \<longleftrightarrow>
     f path = Some old \<or> f path = Some new \<or> (f path = None \<and> f (backupOf path) = Some old)"

definition swap_paths :: "swap_env \<Rightarrow> string \<Rightarrow> string \<Rightarrow> bool" where
  "swap_paths e path staged \<longleftrightarrow>
     distinct [path, backupOf path, staged, tempName e]"

lemmas disk_defs = change_def putFile_def removeFile_def renameFile_def

lemma backup_differs [simp]: "backupOf path \<noteq> path" "path \<noteq> backupOf path"
  by (simp_all add: backupOf_def)

lemma copyFile_safe:
  assumes "swap_paths e path staged" and "content_of d staged = Some new"
    and "content_of d path = None" and "content_of d (backupOf path) = Some old"
    and "list_all (recoverable path old new) (seen d)"
    and "copyFile e staged path d = (ok, t)"
  shows "content_of t path = (if ok then Some new else None) \<and> content_of t (backupOf path) = Some old
    \<and> list_all (recoverable path old new) (seen t) \<and> set (seen d) \<subseteq> set (seen t)"
  using assms
  by (auto simp: copyFile_def disk_defs swap_paths_def recoverable_def Let_def
      split: option.splits if_splits rename_answer.splits prod.splits)

lemma renameOrCopy_safe:
  assumes "swap_paths e path staged" and "content_of d staged = Some new"
    and "content_of d path = None" and "content_of d (backupOf path) = Some old"
    and "list_all (recoverable path old new) (seen d)"
    and "renameOrCopy e staged path d = (ok, t)"
  shows "content_of t path = (if ok then Some new else None) \<and> content_of t (backupOf path) = Some old
    \<and> list_all (recoverable path old new) (seen t) \<and> set (seen d) \<subseteq> set (seen t)"
proof (cases "stageAnswer e = RenameCrossDevice")
  case True
  then show ?thesis using assms copyFile_safe [OF assms(1-5)] by (simp add: renameOrCopy_def renameFile_def)
next
  case False
  then show ?thesis
    using assms
    by (auto simp: renameOrCopy_def disk_defs swap_paths_def recoverable_def
        split: rename_answer.splits if_splits)
qed

lemma swap_outcome:
  assumes "swap_paths e path staged" and "content_of d path = Some old" and "content_of d staged = Some new"
    and "list_all (recoverable path old new) (seen d)" and "platformApply e path staged d = (r, t)"
  shows "list_all (recoverable path old new) (seen t)
    \<and> content_of t path =
        (case r of Applied \<Rightarrow> Some new | BackupFailed \<Rightarrow> Some old | Restored \<Rightarrow> Some old | Critical \<Rightarrow> None)
    \<and> recoverable path old new (content_of t)
    \<and> (r \<noteq> BackupFailed \<longrightarrow> list_ex (\<lambda>f. f path = None) (seen t))"
proof -
  let ?d = "removeFile (staleRemoved e) (backupOf path) d"
  have p: "staged \<noteq> path" "staged \<noteq> backupOf path" using assms(1) by (auto simp: swap_paths_def)
  have d: "content_of ?d path = Some old" "content_of ?d staged = Some new"
      "list_all (recoverable path old new) (seen ?d)"
    using assms p by (auto simp: disk_defs recoverable_def)
  show ?thesis
  proof (cases "backupAnswer e = RenameOk")
    case False
    then show ?thesis
      using assms(5) d by (auto simp: platformApply_def renameFile_def Let_def recoverable_def split: rename_answer.splits)
  next
    case True
    let ?d1 = "change (\<lambda>f. f(backupOf path := f path, path := None)) ?d"
    obtain ok d2 where roc: "renameOrCopy e staged path ?d1 = (ok, d2)" by force
    have "content_of ?d1 staged = Some new" "content_of ?d1 path = None" "content_of ?d1 (backupOf path) = Some old"
        "list_all (recoverable path old new) (seen ?d1)"
      using d p by (simp_all add: change_def recoverable_def)
    note s = renameOrCopy_safe [OF assms(1) this roc]
    have gap: "list_ex (\<lambda>f. f path = None) (seen d2)"
    proof -
      have "content_of ?d1 \<in> set (seen d2)" using s by (auto simp: change_def)
      moreover have "content_of ?d1 path = None" by (simp add: change_def)
      ultimately show ?thesis by (auto simp: list_ex_iff)
    qed
    have eq: "platformApply e path staged d =
        (if ok then (Applied, removeFile (backupRemoved e) (backupOf path) d2)
         else (case renameFile (restoreAnswer e) (backupOf path) path d2 of
                 (RenameOk, d3) \<Rightarrow> (Restored, d3) | (_, d3) \<Rightarrow> (Critical, d3)))"
      using True d roc by (simp add: platformApply_def renameFile_def Let_def)
    show ?thesis
    proof (cases ok)
      case True
      then show ?thesis using eq s gap assms(5) by (auto simp: disk_defs recoverable_def)
    next
      case False
      then show ?thesis
        using eq s gap assms(5)
        by (auto simp: disk_defs recoverable_def split: rename_answer.splits if_splits)
    qed
  qed
qed

text \<open>C12: As long as no other swap of the same executable runs and the executable, its backup, the staged and the
  temporary file have different names, whatever system call of the swap fails and wherever the process dies, the
  old binary is never lost: at every moment the executable is, for every later process, the complete old or new
  binary, or it is missing and the backup is the old one. When the swap returns, the result says which: the new
  binary after success, the old one after an error, and only after a failed restore none. Between the two renames
  there is always a moment without an executable.\<close>

theorem swap_never_loses_the_binary:
  assumes "swap_paths e path staged" and "content_of d path = Some old" and "content_of d staged = Some new"
    and "list_all (recoverable path old new) (seen d)" and "platformApply e path staged d = (r, t)"
  shows "list_all (recoverable path old new) (seen t)
    \<and> content_of t path =
        (case r of Applied \<Rightarrow> Some new | BackupFailed \<Rightarrow> Some old | Restored \<Rightarrow> Some old | Critical \<Rightarrow> None)
    \<and> recoverable path old new (content_of t)
    \<and> (r \<noteq> BackupFailed \<longrightarrow> list_ex (\<lambda>f. f path = None) (seen t))"
  by (rule swap_outcome [OF assms])

subsection \<open>Two swaps at once\<close>

text \<open>C13: Nothing keeps two swaps of the executable apart, and together they can lose it: the second one begins by
  removing a stale backup, which is the only copy the first one has left between its two renames. A crash at that
  moment leaves no binary, though no system call has failed; and when the staged binary of the first swap cannot
  be moved into place, both swaps return with an error and neither the executable nor a backup exists.\<close>

theorem overlapping_swaps_lose_the_binary:
  assumes "content_of d path = Some old" and "staleRemoved (fst (es 0))" and "staleRemoved (fst (es 1))"
    and "backupAnswer (fst (es 0)) = RenameOk" and "stageAnswer (fst (es 0)) = RenameFails"
  shows "(case swaps es path [0, 0, 1] ((\<lambda>i. Starting), d) of (pcs, t) \<Rightarrow>
        pcs 0 = BackedUp \<and> pcs 1 = Cleaned \<and> content_of t path = None \<and> content_of t (backupOf path) = None)
    \<and> (case swaps es path [0, 0, 1, 0, 0, 1] ((\<lambda>i. Starting), d) of (pcs, t) \<Rightarrow>
        pcs 0 = Swapped Critical \<and> pcs 1 = Swapped BackupFailed \<and> content_of t path = None \<and> content_of t (backupOf path) = None)"
  using assms by (simp add: disk_defs renameOrCopy_def split: rename_answer.split)

definition crossDeviceSwap :: swap_env where
  "crossDeviceSwap = \<lparr>staleRemoved = True, backupAnswer = RenameOk, stageAnswer = RenameCrossDevice,
     sourceReadable = True, tempName = ''/bin/.t'', tempCreated = True, copyHalf = 1, copyStops = Some 2,
     modeSet = True, tempClosed = True, tempAnswer = RenameOk, tempRemoved = False, sourceRemoved = True,
     restoreAnswer = RenameFails, backupRemoved = True\<rparr>"

definition sampleDisk :: disk where
  "sampleDisk = \<lparr>content_of = [''/bin/n'' \<mapsto> ''old'', ''/tmp/n'' \<mapsto> ''new''], seen = []\<rparr>"

lemma overlapping_swaps_lose_the_binary_witness:
  "case swaps (\<lambda>i. (crossDeviceSwap\<lparr>stageAnswer := RenameFails\<rparr>, ''/tmp/n'')) ''/bin/n'' [0, 0, 1, 0, 0, 1] ((\<lambda>i. Starting), sampleDisk) of (pcs, t) \<Rightarrow>
     content_of t ''/bin/n'' = None \<and> content_of t (backupOf ''/bin/n'') = None"
  using overlapping_swaps_lose_the_binary [of sampleDisk "''/bin/n''" "''old''" "\<lambda>i. (crossDeviceSwap\<lparr>stageAnswer := RenameFails\<rparr>, ''/tmp/n'')"]
  by (auto simp: sampleDisk_def crossDeviceSwap_def split: prod.splits)

lemma swap_never_loses_the_binary_witness:
  "recoverable ''/bin/n'' ''old'' ''new'' (content_of (snd (platformApply crossDeviceSwap ''/bin/n'' ''/tmp/n'' sampleDisk)))"
proof -
  have "swap_paths crossDeviceSwap ''/bin/n'' ''/tmp/n''"
    by (simp add: swap_paths_def backupOf_def crossDeviceSwap_def)
  from swap_never_loses_the_binary [OF this, of sampleDisk "''old''" "''new''"] show ?thesis
    by (cases "platformApply crossDeviceSwap ''/bin/n'' ''/tmp/n'' sampleDisk") (simp add: sampleDisk_def)
qed

end
