(* ===== verification/Updater.thy ===== *)
theory Updater
  imports Semver UpdateApply
begin

text \<open>
  The self-updater, \<open>internal/updater\<close>, one check or apply after the other: finding the archive of a release and its checksum
  (\<open>release.go\<close>, \<open>download.go\<close>), the status with its checks and policies (\<open>updater.go\<close>) and the
  installation (\<open>apply.go\<close> on top of the swap). What the network answers, the SHA-256 function, the
  archive formats, the configuration and the clock of each event are a record of that event, so a
  list of events is a history of the process. Lifecycle requests and logging are left out: the
  running version stays the same until the process ends.
\<close>

subsection \<open>Releases and downloads\<close>

record asset =
  assetLabel :: string
  assetUrl :: string

record release =
  tagName :: string
  releaseAssets :: "asset list"

definition releaseVersion :: "release \<Rightarrow> string" where
  "releaseVersion r = trim_prefix (tagName r) ''v''"

definition archiveAssetName :: "string \<Rightarrow> string \<Rightarrow> string \<Rightarrow> string" where
  "archiveAssetName v os arch =
     ''teanode_'' @ v @ ''_'' @ os @ ''_'' @ arch @ ''.'' @ (if os = ''windows'' then ''zip'' else ''tar.gz'')"

definition checksumAssetName :: "string \<Rightarrow> string" where
  "checksumAssetName v = ''teanode_'' @ v @ ''_SHA256SUMS''"

definition findAsset :: "string \<Rightarrow> release \<Rightarrow> asset option" where
  "findAsset name r = find (\<lambda>a. assetLabel a = name) (releaseAssets r)"

fun checksumIn :: "(string \<Rightarrow> string) \<Rightarrow> string \<Rightarrow> string list \<Rightarrow> string option" where
  "checksumIn lower fileName [] = None"
| "checksumIn lower fileName (l # ls) =
     (let parts = Utf8.fields (trim_space l) in
      if 2 \<le> length parts \<and> last parts = fileName then Some (lower (hd parts))
      else checksumIn lower fileName ls)"

definition parseChecksumForFile :: "(string \<Rightarrow> string) \<Rightarrow> string \<Rightarrow> string \<Rightarrow> string option" where
  "parseChecksumForFile lower text fileName = checksumIn lower fileName (scanLines text)"

record fetch_env =
  operatingSystem :: string
  architecture :: string
  bodyOf :: "string \<Rightarrow> string option"
  sha256 :: "string \<Rightarrow> string"
  extractBinary :: "string \<Rightarrow> string \<Rightarrow> string option"
  lowerCase :: "string \<Rightarrow> string"
  stagingWorks :: bool

definition download :: "fetch_env \<Rightarrow> string \<Rightarrow> nat \<Rightarrow> string option" where
  "download e url maxSize =
     (case bodyOf e url of None \<Rightarrow> None | Some b \<Rightarrow> if maxSize < length b then None else Some b)"

datatype download_error =
    NoArchive | NoChecksumFile | ChecksumUnavailable | ChecksumUnknown | StagingFailed
  | ArchiveUnavailable | ChecksumMismatch | NotInArchive

definition targetBinary :: "fetch_env \<Rightarrow> string" where
  "targetBinary e = (if operatingSystem e = ''windows'' then ''teanode.exe'' else ''teanode'')"

definition downloadAndVerify :: "fetch_env \<Rightarrow> release \<Rightarrow> download_error + string \<times> string" where
  "downloadAndVerify e r =
     (let v = releaseVersion r; archiveName = archiveAssetName v (operatingSystem e) (architecture e) in
      case findAsset archiveName r of
        None \<Rightarrow> Inl NoArchive
      | Some a \<Rightarrow>
      (case findAsset (checksumAssetName v) r of
        None \<Rightarrow> Inl NoChecksumFile
      | Some c \<Rightarrow>
      (case download e (assetUrl c) 65536 of
        None \<Rightarrow> Inl ChecksumUnavailable
      | Some sums \<Rightarrow>
      (case parseChecksumForFile (lowerCase e) sums archiveName of
        None \<Rightarrow> Inl ChecksumUnknown
      | Some expected \<Rightarrow>
          if \<not> stagingWorks e then Inl StagingFailed
          else (case download e (assetUrl a) 536870912 of
            None \<Rightarrow> Inl ArchiveUnavailable
          | Some archive \<Rightarrow>
              if sha256 e archive \<noteq> expected then Inl ChecksumMismatch
              else (case extractBinary e archive (targetBinary e) of
                None \<Rightarrow> Inl NotInArchive
              | Some binary \<Rightarrow> Inr (binary, sha256 e archive)))))))"

subsection \<open>Policies and status\<close>

definition normalizePolicy :: "string \<Rightarrow> string" where
  "normalizePolicy p = (if p \<in> {''disabled'', ''notify'', ''auto''} then p else ''notify'')"

definition isValidPolicy :: "string \<Rightarrow> bool" where
  "isValidPolicy p \<longleftrightarrow> p = normalizePolicy p"

record update_config =
  configuredPolicy :: string
  configuredHours :: int

text \<open>Intervals are 64-bit nanoseconds; the product with an hour wraps.\<close>

definition defaultCheckInterval :: int where
  "defaultCheckInterval = 21600000000000"

definition readConfig :: "update_config option \<Rightarrow> string \<times> int" where
  "readConfig c =
     (case c of
        None \<Rightarrow> (''notify'', defaultCheckInterval)
      | Some x \<Rightarrow>
          (if configuredPolicy x \<noteq> [] \<and> isValidPolicy (configuredPolicy x) then configuredPolicy x else ''notify'',
           if 0 < configuredHours x then wrap64 (configuredHours x * 3600000000000) else defaultCheckInterval))"

datatype check_error = FetchFailed string | CompareFailed compare_error

record update_status =
  available :: "release option"
  latestVersion :: string
  updateAvailable :: bool
  aheadOfRelease :: bool
  lastChecked :: "int option"
  statusError :: "check_error option"
  policy :: string

record updater =
  status :: update_status
  isContainer :: bool
  running :: string
  executablePath :: string
  diskFiles :: files
  installs :: "(release \<times> string \<times> fetch_env) list"

definition newUpdater :: "bool \<Rightarrow> string \<Rightarrow> string \<Rightarrow> files \<Rightarrow> updater" where
  "newUpdater container version path d =
     \<lparr>status = \<lparr>available = None, latestVersion = [], updateAvailable = False, aheadOfRelease = False,
                lastChecked = None, statusError = None, policy = ''notify''\<rparr>,
      isContainer = container, running = version, executablePath = path, diskFiles = d, installs = []\<rparr>"

record event_env =
  config :: "update_config option"
  latest :: "string + release"
  clock :: int
  fetching :: fetch_env
  swapping :: swap_env
  stagedPath :: string
  directoryWritable :: bool

definition check :: "event_env \<Rightarrow> updater \<Rightarrow> updater" where
  "check e u =
     (let s = (status u)\<lparr>lastChecked := Some (clock e)\<rparr> in
      u\<lparr>status :=
        (case latest e of
           Inl err \<Rightarrow> s\<lparr>statusError := Some (FetchFailed err)\<rparr>
         | Inr r \<Rightarrow>
             (let s1 = s\<lparr>statusError := None, latestVersion := releaseVersion r\<rparr> in
              case isNewer (releaseVersion r) (running u) of
                Inl c \<Rightarrow> s1\<lparr>statusError := Some (CompareFailed c)\<rparr>
              | Inr newer \<Rightarrow>
                  s1\<lparr>updateAvailable := newer,
                     aheadOfRelease := isAheadOfRelease (releaseVersion r) (running u),
                     available := (if newer then Some r else None)\<rparr>))\<rparr>)"

subsection \<open>Applying\<close>

datatype apply_error =
    InContainer | OnWindows | NoUpdate | DownloadFailed download_error | NoExecutable | TooSmall
  | NotWritable | SwapFailed swap_result

text \<open>\<open>Apply\<close> of a staged binary; the staging directory is removed afterwards in any case.\<close>

definition applyStaged :: "event_env \<Rightarrow> string \<Rightarrow> updater \<Rightarrow> apply_error option \<times> files" where
  "applyStaged e binary u =
     (let f = (diskFiles u)(stagedPath e \<mapsto> binary) in
      if f (executablePath u) = None then (Some NoExecutable, f)
      else if length binary < 1048576 then (Some TooSmall, f)
      else if \<not> directoryWritable e then (Some NotWritable, f)
      else (case platformApply (swapping e) (executablePath u) (stagedPath e) \<lparr>content_of = f, seen = []\<rparr> of
              (Applied, t) \<Rightarrow> (None, content_of t)
            | (r, t) \<Rightarrow> (Some (SwapFailed r), content_of t)))"

definition installRelease :: "event_env \<Rightarrow> release \<Rightarrow> updater \<Rightarrow> apply_error option \<times> updater" where
  "installRelease e r u =
     (case downloadAndVerify (fetching e) r of
        Inl err \<Rightarrow> (Some (DownloadFailed err), u)
      | Inr (binary, digest) \<Rightarrow>
          (let (err, f) = applyStaged e binary u in
           (err, u\<lparr>diskFiles := f(stagedPath e := None),
                   installs := (if err = None then installs u @ [(r, binary, fetching e)] else installs u)\<rparr>)))"

definition applyUpdate :: "event_env \<Rightarrow> updater \<Rightarrow> apply_error option \<times> updater" where
  "applyUpdate e u =
     (if isContainer u then (Some InContainer, u)
      else if operatingSystem (fetching e) = ''windows'' then (Some OnWindows, u)
      else (let u1 = (if available (status u) = None then check e u else u) in
            case available (status u1) of
              None \<Rightarrow> (Some NoUpdate, u1)
            | Some r \<Rightarrow> installRelease e r u1))"

definition applyRuntimeConfig :: "event_env \<Rightarrow> updater \<Rightarrow> int \<times> updater" where
  "applyRuntimeConfig e u =
     (let (p, interval) = readConfig (config e);
          p' = (if operatingSystem (fetching e) = ''windows'' \<and> p = ''auto'' then ''notify'' else p) in
      (interval, u\<lparr>status := (status u)\<lparr>policy := p'\<rparr>\<rparr>))"

definition shouldCheck :: "int \<Rightarrow> int \<Rightarrow> update_status \<Rightarrow> bool" where
  "shouldCheck interval now s = (case lastChecked s of None \<Rightarrow> True | Some t \<Rightarrow> interval \<le> now - t)"

definition runCycle :: "event_env \<Rightarrow> updater \<Rightarrow> updater" where
  "runCycle e u =
     (let (interval, u1) = applyRuntimeConfig e u in
      if policy (status u1) = ''disabled'' then u1
      else if \<not> shouldCheck interval (clock e) (status u1) then u1
      else (let u2 = check e u1 in
            if policy (status u1) = ''auto'' \<and> available (status u2) \<noteq> None then snd (applyUpdate e u2)
            else u2))"

text \<open>A cycle of the background loop (which never starts in a container), a check and an apply on request.\<close>

datatype update_event = Cycle event_env | CheckRequest event_env | ApplyRequest event_env

fun update_step :: "update_event \<Rightarrow> updater \<Rightarrow> updater" where
  "update_step (Cycle e) u = (if isContainer u then u else runCycle e u)"
| "update_step (CheckRequest e) u = check e (snd (applyRuntimeConfig e u))"
| "update_step (ApplyRequest e) u = snd (applyUpdate e u)"

subsection \<open>What may be installed\<close>

text \<open>
  A binary is verified for a release when it was extracted from the archive named after the version
  and the platform, and the digest of that archive is the one the checksum file of the release
  lists for it.
\<close>

definition verified :: "fetch_env \<Rightarrow> release \<Rightarrow> string \<Rightarrow> bool" where
  "verified e r binary \<longleftrightarrow>
     (let name = archiveAssetName (releaseVersion r) (operatingSystem e) (architecture e) in
      \<exists>a c sums archive. findAsset name r = Some a
        \<and> findAsset (checksumAssetName (releaseVersion r)) r = Some c
        \<and> bodyOf e (assetUrl c) = Some sums \<and> bodyOf e (assetUrl a) = Some archive
        \<and> parseChecksumForFile (lowerCase e) sums name = Some (sha256 e archive)
        \<and> extractBinary e archive (targetBinary e) = Some binary)"

lemma download_Some: "download e url n = Some b \<Longrightarrow> bodyOf e url = Some b"
  by (auto simp: download_def split: option.splits if_splits)

lemma downloadAndVerify_verified: "downloadAndVerify e r = Inr (binary, digest) \<Longrightarrow> verified e r binary"
  by (auto simp: downloadAndVerify_def verified_def Let_def dest!: download_Some
      split: option.splits if_splits)

definition newer_release :: "updater \<Rightarrow> release \<Rightarrow> bool" where
  "newer_release u r \<longleftrightarrow> isNewer (releaseVersion r) (running u) = Inr True"

text \<open>
  The invariant of the updater: the release on offer is newer than the running version, so is every
  release that was installed, whose binary was verified, and the executable is the initial or an
  installed binary or is missing with such a binary as its backup.
\<close>

definition known_binary :: "string \<Rightarrow> updater \<Rightarrow> string \<Rightarrow> bool" where
  "known_binary initial u b \<longleftrightarrow> b = initial \<or> b \<in> (fst \<circ> snd) ` set (installs u)"

definition executable_known :: "string \<Rightarrow> updater \<Rightarrow> bool" where
  "executable_known initial u \<longleftrightarrow>
     (case diskFiles u (executablePath u) of
        Some b \<Rightarrow> known_binary initial u b
      | None \<Rightarrow> (\<exists>b. diskFiles u (backupOf (executablePath u)) = Some b \<and> known_binary initial u b))"

definition updater_inv :: "string \<Rightarrow> updater \<Rightarrow> bool" where
  "updater_inv initial u \<longleftrightarrow>
     (\<forall>r. available (status u) = Some r \<longrightarrow> newer_release u r)
     \<and> list_all (\<lambda>(r, b, e). newer_release u r \<and> verified e r b) (installs u)
     \<and> executable_known initial u"

text \<open>The paths of an event: staging and temporary files are not the executable or its backup.\<close>

definition good_paths :: "updater \<Rightarrow> event_env \<Rightarrow> bool" where
  "good_paths u e \<longleftrightarrow> swap_paths (swapping e) (executablePath u) (stagedPath e)"

definition same_process :: "updater \<Rightarrow> updater \<Rightarrow> bool" where
  "same_process u t \<longleftrightarrow> running t = running u \<and> executablePath t = executablePath u \<and> isContainer t = isContainer u"

lemma same_process_refl [simp]: "same_process u u"
  by (simp add: same_process_def)

lemma executable_known_status [simp]: "executable_known initial (u\<lparr>status := x\<rparr>) = executable_known initial u"
  by (simp add: executable_known_def known_binary_def split: option.split)

lemma newer_release_status [simp]: "newer_release (u\<lparr>status := x\<rparr>) = newer_release u"
  by (simp add: newer_release_def fun_eq_iff)

lemma updater_inv_status:
  "updater_inv initial u \<Longrightarrow> (\<And>r. available x = Some r \<Longrightarrow> newer_release u r) \<Longrightarrow>
   updater_inv initial (u\<lparr>status := x\<rparr>)"
  by (simp add: updater_inv_def)

lemma check_inv: "updater_inv initial u \<Longrightarrow> updater_inv initial (check e u) \<and> same_process u (check e u)"
proof -
  assume inv: "updater_inv initial u"
  obtain x where x: "check e u = u\<lparr>status := x\<rparr>"
    "x = (case latest e of
           Inl err \<Rightarrow> (status u)\<lparr>lastChecked := Some (clock e), statusError := Some (FetchFailed err)\<rparr>
         | Inr r \<Rightarrow>
             (let s1 = (status u)\<lparr>lastChecked := Some (clock e), statusError := None, latestVersion := releaseVersion r\<rparr> in
              case isNewer (releaseVersion r) (running u) of
                Inl c \<Rightarrow> s1\<lparr>statusError := Some (CompareFailed c)\<rparr>
              | Inr newer \<Rightarrow>
                  s1\<lparr>updateAvailable := newer,
                     aheadOfRelease := isAheadOfRelease (releaseVersion r) (running u),
                     available := (if newer then Some r else None)\<rparr>))"
    by (simp add: check_def Let_def)
  have "newer_release u r" if "available x = Some r" for r
    using inv that x(2)
    by (auto simp: updater_inv_def newer_release_def Let_def split: sum.splits if_splits)
  then show ?thesis using updater_inv_status [OF inv, of x] x(1) by (simp add: same_process_def)
qed

lemma config_inv: "updater_inv initial u \<Longrightarrow> applyRuntimeConfig e u = (i, t) \<Longrightarrow>
    updater_inv initial t \<and> same_process u t"
  by (auto simp: applyRuntimeConfig_def same_process_def updater_inv_def Let_def
      intro!: updater_inv_status split: prod.splits)

lemma applyStaged_files:
  assumes "good_paths u e" and "applyStaged e b u = (err, f)" and "executable_known initial u"
  shows "(err = None \<longrightarrow> f (executablePath u) = Some b)
    \<and> (err \<noteq> None \<longrightarrow> executable_known initial (u\<lparr>diskFiles := f\<rparr>))"
proof -
  let ?p = "executablePath u" and ?f = "(diskFiles u)(stagedPath e \<mapsto> b)"
  have ne: "stagedPath e \<noteq> ?p" "stagedPath e \<noteq> backupOf ?p"
    using assms(1) by (auto simp: good_paths_def swap_paths_def)
  have kept: "executable_known initial (u\<lparr>diskFiles := ?f\<rparr>)"
    using assms(3) ne by (simp add: executable_known_def known_binary_def split: option.splits)
  show ?thesis
  proof (cases "?f ?p = None \<or> length b < 1048576 \<or> \<not> directoryWritable e")
    case True
    then have "err \<noteq> None \<and> f = ?f" using assms(2) by (auto simp: applyStaged_def Let_def split: if_splits)
    then show ?thesis using kept by auto
  next
    case False
    then obtain old where old: "?f ?p = Some old" by auto
    then have known: "known_binary initial u old"
      using ne assms(3) by (simp add: executable_known_def)
    obtain r t where swap: "platformApply (swapping e) ?p (stagedPath e) \<lparr>content_of = ?f, seen = []\<rparr> = (r, t)"
      by force
    have res: "f = content_of t \<and> (err = None \<longleftrightarrow> r = Applied)"
      using False assms(2) swap by (auto simp: applyStaged_def Let_def split: swap_result.splits)
    have "content_of t ?p =
        (case r of Applied \<Rightarrow> Some b | BackupFailed \<Rightarrow> Some old | Restored \<Rightarrow> Some old | Critical \<Rightarrow> None)
      \<and> recoverable ?p old b (content_of t)"
      using swap_outcome [of "swapping e" ?p "stagedPath e" "\<lparr>content_of = ?f, seen = []\<rparr>" old b r t]
        assms(1) old swap by (simp add: good_paths_def)
    then show ?thesis
      using res known
      by (cases r) (auto simp: executable_known_def known_binary_def recoverable_def)
  qed
qed

lemma installRelease_inv:
  assumes "good_paths u e" and "updater_inv initial u" and "newer_release u r"
    and "installRelease e r u = (err, t)"
  shows "updater_inv initial t \<and> same_process u t"
proof (cases "downloadAndVerify (fetching e) r")
  case (Inl x)
  then show ?thesis using assms by (simp add: installRelease_def)
next
  case (Inr x)
  obtain b d where x: "x = (b, d)" by force
  obtain err' f where st: "applyStaged e b u = (err', f)" by force
  have t: "t = u\<lparr>diskFiles := f(stagedPath e := None),
      installs := (if err' = None then installs u @ [(r, b, fetching e)] else installs u)\<rparr>"
    using Inr x st assms(4) by (auto simp: installRelease_def)
  have ne: "stagedPath e \<noteq> executablePath u" "stagedPath e \<noteq> backupOf (executablePath u)"
    using assms(1) by (auto simp: good_paths_def swap_paths_def)
  have "executable_known initial u" using assms(2) by (simp add: updater_inv_def)
  note f = applyStaged_files [OF assms(1) st this]
  have v: "verified (fetching e) r b" using Inr x downloadAndVerify_verified by simp
  have "executable_known initial t"
    using f ne unfolding t
    by (auto simp: executable_known_def known_binary_def split: option.splits)
  then show ?thesis
    using assms(2,3) v unfolding t by (auto simp: updater_inv_def newer_release_def same_process_def)
qed

lemma good_paths_same: "same_process u t \<Longrightarrow> good_paths t = good_paths u"
  by (auto simp: good_paths_def same_process_def fun_eq_iff)

lemma same_process_trans: "same_process u t \<Longrightarrow> same_process t v \<Longrightarrow> same_process u v"
  by (simp add: same_process_def)

lemma applyUpdate_inv:
  assumes "good_paths u e" and "updater_inv initial u"
  shows "updater_inv initial (snd (applyUpdate e u)) \<and> same_process u (snd (applyUpdate e u))"
proof -
  define u1 where "u1 = (if available (status u) = None then check e u else u)"
  have u1: "updater_inv initial u1 \<and> same_process u u1"
    using check_inv [OF assms(2), of e] assms(2) by (simp add: u1_def)
  show ?thesis
  proof (cases "isContainer u \<or> operatingSystem (fetching e) = ''windows'' \<or> available (status u1) = None")
    case True
    then show ?thesis using assms(2) u1 by (auto simp: applyUpdate_def u1_def Let_def)
  next
    case False
    then obtain r where r: "available (status u1) = Some r" by auto
    obtain err t where t: "installRelease e r u1 = (err, t)" by force
    have "snd (applyUpdate e u) = t"
      using False r t by (simp add: applyUpdate_def u1_def [symmetric])
    moreover have "good_paths u1 e" using assms(1) good_paths_same [of u u1] u1 by simp
    moreover have "newer_release u1 r" using u1 r by (simp add: updater_inv_def)
    ultimately show ?thesis
      using installRelease_inv [OF _ _ _ t] u1 same_process_trans by blast
  qed
qed

lemma runCycle_inv:
  assumes "good_paths u e" and "updater_inv initial u"
  shows "updater_inv initial (runCycle e u) \<and> same_process u (runCycle e u)"
proof -
  obtain i u1 where c: "applyRuntimeConfig e u = (i, u1)" by force
  have u1: "updater_inv initial u1" "same_process u u1" using config_inv [OF assms(2) c] by auto
  have u2: "updater_inv initial (check e u1)" "same_process u (check e u1)"
    using check_inv [OF u1(1), of e] same_process_trans [OF u1(2)] by auto
  have "good_paths (check e u1) e" using assms(1) good_paths_same [OF u2(2)] by simp
  then have "updater_inv initial (snd (applyUpdate e (check e u1))) \<and> same_process u (snd (applyUpdate e (check e u1)))"
    using applyUpdate_inv u2 same_process_trans by blast
  then show ?thesis using c u1 u2 by (simp add: runCycle_def Let_def)
qed

fun event_of :: "update_event \<Rightarrow> event_env" where
  "event_of (Cycle e) = e"
| "event_of (CheckRequest e) = e"
| "event_of (ApplyRequest e) = e"

lemma update_step_inv:
  assumes "good_paths u (event_of x)" and "updater_inv initial u"
  shows "updater_inv initial (update_step x u) \<and> same_process u (update_step x u)"
proof (cases x)
  case (Cycle e)
  then show ?thesis using assms runCycle_inv by simp
next
  case (CheckRequest e)
  obtain i u1 where c: "applyRuntimeConfig e u = (i, u1)" by force
  then show ?thesis
    using CheckRequest config_inv [OF assms(2) c] check_inv [of initial u1 e] same_process_trans by auto
next
  case (ApplyRequest e)
  then show ?thesis using assms applyUpdate_inv by simp
qed

lemma update_steps_inv:
  assumes "list_all (\<lambda>x. good_paths u (event_of x)) es" and "updater_inv initial u"
  shows "updater_inv initial (fold update_step es u) \<and> same_process u (fold update_step es u)"
  using assms
proof (induction es arbitrary: u)
  case Nil
  then show ?case by simp
next
  case (Cons x es)
  have s: "updater_inv initial (update_step x u)" "same_process u (update_step x u)"
    using Cons.prems update_step_inv by auto
  then show ?case
    using Cons.IH [of "update_step x u"] Cons.prems good_paths_same [OF s(2)] same_process_trans by auto
qed

text \<open>C14: As long as one check or apply ends before the next begins and the staged file is none of the files of the
  swap, whatever the network, the configuration and the users do, every binary the updater ever puts in place
  comes from a release newer than the running version, from the archive whose SHA-256 the checksum file of that
  release lists; the executable is always the initial binary or one of those, or it is missing and its backup is.\<close>

theorem only_newer_verified_binaries:
  assumes "list_all (\<lambda>x. swap_paths (swapping (event_of x)) path (stagedPath (event_of x))) es"
    and "f path = Some initial"
  shows "list_all (\<lambda>(r, b, e). isNewer (releaseVersion r) version = Inr True \<and> verified e r b)
      (installs (fold update_step es (newUpdater container version path f)))
    \<and> executable_known initial (fold update_step es (newUpdater container version path f))"
proof -
  let ?u = "newUpdater container version path f"
  have "updater_inv initial ?u"
    using assms(2) by (simp add: updater_inv_def newUpdater_def executable_known_def known_binary_def)
  moreover have "list_all (\<lambda>x. good_paths ?u (event_of x)) es"
    using assms(1) by (simp add: good_paths_def newUpdater_def)
  ultimately have "updater_inv initial (fold update_step es ?u)" "same_process ?u (fold update_step es ?u)"
    using update_steps_inv by blast+
  then show ?thesis
    by (simp add: updater_inv_def newer_release_def same_process_def newUpdater_def)
qed

text \<open>The background loop touches the executable only under the policy \<open>auto\<close>, outside containers and
  off Windows; under \<open>disabled\<close> it does not even ask for the latest release.\<close>

theorem background_needs_auto:
  assumes "isContainer u \<or> fst (readConfig (config e)) \<noteq> ''auto'' \<or> operatingSystem (fetching e) = ''windows''"
  shows "installs (update_step (Cycle e) u) = installs u \<and> diskFiles (update_step (Cycle e) u) = diskFiles u
    \<and> (fst (readConfig (config e)) = ''disabled'' \<longrightarrow>
         lastChecked (status (update_step (Cycle e) u)) = lastChecked (status u)
         \<and> available (status (update_step (Cycle e) u)) = available (status u))"
proof -
  have c: "installs (check e v) = installs v" "diskFiles (check e v) = diskFiles v" for v
    by (simp_all add: check_def Let_def)
  show ?thesis
    using assms by (cases "readConfig (config e)") (auto simp: runCycle_def applyRuntimeConfig_def c Let_def)
qed

text \<open>A history: a check that offers 0.2.0 to 0.1.9, then an apply whose archive is too small to be installed.\<close>

definition sampleRelease :: release where
  "sampleRelease = \<lparr>tagName = ''v0.2.0'', releaseAssets =
     [\<lparr>assetLabel = ''teanode_0.2.0_linux_amd64.tar.gz'', assetUrl = ''a''\<rparr>,
      \<lparr>assetLabel = ''teanode_0.2.0_SHA256SUMS'', assetUrl = ''c''\<rparr>]\<rparr>"

definition sampleEvent :: event_env where
  "sampleEvent = \<lparr>config = None, latest = Inr sampleRelease, clock = 0,
     fetching = \<lparr>operatingSystem = ''linux'', architecture = ''amd64'',
       bodyOf = [''a'' \<mapsto> ''x'', ''c'' \<mapsto> ''x  teanode_0.2.0_linux_amd64.tar.gz''],
       sha256 = id, extractBinary = (\<lambda>a t. Some a), lowerCase = id, stagingWorks = True\<rparr>,
     swapping = crossDeviceSwap, stagedPath = ''/tmp/n'', directoryWritable = True\<rparr>"

lemma background_needs_auto_witness:
  "installs (update_step (Cycle (sampleEvent\<lparr>config := Some \<lparr>configuredPolicy = ''notify'', configuredHours = 1\<rparr>\<rparr>))
     (newUpdater False ''0.1.9'' ''/bin/n'' Map.empty)) = []"
  using background_needs_auto [of "newUpdater False ''0.1.9'' ''/bin/n'' Map.empty"
      "sampleEvent\<lparr>config := Some \<lparr>configuredPolicy = ''notify'', configuredHours = 1\<rparr>\<rparr>"]
  by (simp add: readConfig_def isValidPolicy_def normalizePolicy_def newUpdater_def)

lemma only_newer_verified_binaries_witness:
  "executable_known ''old'' (fold update_step [CheckRequest sampleEvent, ApplyRequest sampleEvent]
     (newUpdater False ''0.1.9'' ''/bin/n'' [''/bin/n'' \<mapsto> ''old'']))"
proof -
  have "list_all (\<lambda>x. swap_paths (swapping (event_of x)) ''/bin/n'' (stagedPath (event_of x)))
      [CheckRequest sampleEvent, ApplyRequest sampleEvent]"
    by (simp add: sampleEvent_def crossDeviceSwap_def swap_paths_def backupOf_def)
  from only_newer_verified_binaries [OF this, of "[''/bin/n'' \<mapsto> ''old'']" "''old''" "''0.1.9''" False]
  show ?thesis by simp
qed

end
