(* ===== verification/CronExpr.thy ===== *)
theory CronExpr
  imports GoStrings
begin

text \<open>
  Cron expressions, \<open>internal/util/cronexpr/cronexpr.go\<close>: the five fields as lists of booleans, the
  parser of a field with its ranges and steps, and \<open>Matches\<close>. The loop counter of a step is a
  64-bit integer and is kept at its width, so a step near its largest value wraps and the index
  that follows panics. The meaning of a field is given separately, and the parser is proved to
  compute it.
\<close>

subsection \<open>Parsing\<close>

record cron_expr =
  minuteBits :: "bool list"
  hourBits :: "bool list"
  dayOfMonthBits :: "bool list"
  monthBits :: "bool list"
  dayOfWeekBits :: "bool list"

datatype cron_error = FieldCount nat | InvalidStep | InvalidRange | InvalidValue | OutOfRange

text \<open>
  The range of one part of a field: lowest and highest value and step.
\<close>

definition splitStep :: "string \<Rightarrow> cron_error + string \<times> int" where
  "splitStep part =
     (case index_byte part (CHR ''/'') of
        None \<Rightarrow> Inr (part, 1)
      | Some i \<Rightarrow>
          (case atoi_ok (atoi (drop (Suc i) part)) of
             None \<Rightarrow> Inl InvalidStep
           | Some step \<Rightarrow> if step \<le> 0 then Inl InvalidStep else Inr (take i part, step)))"

definition parseRange :: "string \<Rightarrow> int \<Rightarrow> int \<Rightarrow> cron_error + int \<times> int" where
  "parseRange rangeString lo hi =
     (if rangeString = ''*'' then Inr (lo, hi)
      else (case index_byte rangeString (CHR ''-'') of
          Some i \<Rightarrow>
            (case atoi_ok (atoi (take i rangeString)) of
               None \<Rightarrow> Inl InvalidRange
             | Some low \<Rightarrow>
                 (case atoi_ok (atoi (drop (Suc i) rangeString)) of
                    None \<Rightarrow> Inl InvalidRange
                  | Some high \<Rightarrow> Inr (low, high)))
        | None \<Rightarrow>
            (case atoi_ok (atoi rangeString) of
               None \<Rightarrow> Inl InvalidValue
             | Some v \<Rightarrow> Inr (v, v))))"

definition parsePart :: "string \<Rightarrow> int \<Rightarrow> int \<Rightarrow> cron_error + int \<times> int \<times> int" where
  "parsePart part lo hi =
     (case splitStep part of
        Inl e \<Rightarrow> Inl e
      | Inr (rangeString, step) \<Rightarrow>
          (case parseRange rangeString lo hi of
             Inl e \<Rightarrow> Inl e
           | Inr (low, high) \<Rightarrow>
               if low < lo \<or> high > hi \<or> low > high then Inl OutOfRange else Inr (low, high, step)))"

text \<open>
  \<open>for value := low; value <= high; value += step\<close>, with fuel: every iteration sets a bit further up
  or panics, so one more than the number of bits is enough. An index outside the bits panics; the
  counter wraps.
\<close>

fun setBits :: "nat \<Rightarrow> int \<Rightarrow> int \<Rightarrow> int \<Rightarrow> int \<Rightarrow> bool list \<Rightarrow> bool list outcome" where
  "setBits 0 offset high step v bits = Hangs"
| "setBits (Suc n) offset high step v bits =
     (if high < v then Done bits
      else if v < offset \<or> int (length bits) \<le> v - offset then Panics
      else setBits n offset high step (wrap64 (v + step)) (bits[nat (v - offset) := True]))"

fun parseParts :: "string list \<Rightarrow> int \<Rightarrow> int \<Rightarrow> bool list \<Rightarrow> (cron_error + bool list) outcome" where
  "parseParts [] lo hi bits = Done (Inr bits)"
| "parseParts (part # parts) lo hi bits =
     (case parsePart part lo hi of
        Inl e \<Rightarrow> Done (Inl e)
      | Inr (low, high, step) \<Rightarrow>
          and_then (setBits (length bits + 1) lo high step low bits) (parseParts parts lo hi))"

definition parseField :: "string \<Rightarrow> int \<Rightarrow> int \<Rightarrow> (cron_error + bool list) outcome" where
  "parseField field lo hi =
     parseParts (split_byte (CHR '','') field) lo hi (replicate (nat (hi - lo + 1)) False)"

fun or_error :: "(cron_error + 'a) outcome \<Rightarrow> ('a \<Rightarrow> (cron_error + 'b) outcome) \<Rightarrow> (cron_error + 'b) outcome" where
  "or_error (Done (Inr x)) f = f x"
| "or_error (Done (Inl e)) f = Done (Inl e)"
| "or_error Panics f = Panics"
| "or_error Hangs f = Hangs"

definition parseCron :: "string \<Rightarrow> (cron_error + cron_expr) outcome" where
  "parseCron expression =
     (case Utf8.fields expression of
        [a, b, c, d, e] \<Rightarrow>
          or_error (parseField a 0 59) (\<lambda>minutes.
          or_error (parseField b 0 23) (\<lambda>hours.
          or_error (parseField c 1 31) (\<lambda>days.
          or_error (parseField d 1 12) (\<lambda>months.
          or_error (parseField e 0 6) (\<lambda>weekdays.
            Done (Inr \<lparr>minuteBits = minutes, hourBits = hours, dayOfMonthBits = days, monthBits = months,
                       dayOfWeekBits = weekdays\<rparr>))))))
      | fs \<Rightarrow> Done (Inl (FieldCount (length fs))))"

text \<open>A civil time; months and days count from 1 and Sunday is day 0 of the week.\<close>

record civil_time =
  minute :: nat
  hour :: nat
  day :: nat
  month :: nat
  weekday :: nat

definition civil :: "civil_time \<Rightarrow> bool" where
  "civil t \<longleftrightarrow> minute t < 60 \<and> hour t < 24 \<and> 1 \<le> day t \<and> day t \<le> 31 \<and> 1 \<le> month t \<and> month t \<le> 12 \<and> weekday t < 7"

definition matches :: "cron_expr \<Rightarrow> civil_time \<Rightarrow> bool" where
  "matches x t \<longleftrightarrow>
     minuteBits x ! minute t \<and> hourBits x ! hour t \<and> dayOfMonthBits x ! (day t - 1)
     \<and> monthBits x ! (month t - 1) \<and> dayOfWeekBits x ! weekday t"

subsection \<open>What a field means\<close>

text \<open>A value is allowed by a part when it is in the range and a number of steps above its start.\<close>

definition allowed_by :: "int \<Rightarrow> int \<Rightarrow> int \<Rightarrow> string \<Rightarrow> bool" where
  "allowed_by lo hi v part \<longleftrightarrow>
     (case parsePart part lo hi of
        Inl e \<Rightarrow> False
      | Inr (low, high, step) \<Rightarrow> low \<le> v \<and> v \<le> high \<and> (v - low) mod step = 0)"

definition field_allows :: "int \<Rightarrow> int \<Rightarrow> string \<Rightarrow> int \<Rightarrow> bool" where
  "field_allows lo hi field v \<longleftrightarrow> list_ex (allowed_by lo hi v) (split_byte (CHR '','') field)"

text \<open>The step of a part, and whether the counter of its loop can wrap.\<close>

definition small_step :: "int \<Rightarrow> int \<Rightarrow> string \<Rightarrow> bool" where
  "small_step lo hi part \<longleftrightarrow>
     (case parsePart part lo hi of Inl e \<Rightarrow> True | Inr (low, high, step) \<Rightarrow> step \<le> max_int64 - hi)"

lemma mod_step: "0 < (s::int) \<Longrightarrow> v < u \<Longrightarrow> u < v + s \<Longrightarrow> (u - v) mod s \<noteq> 0"
  by (simp add: mod_pos_pos_trivial)

lemma mod_shift: "(u - (v + s)) mod (s::int) = (u - v) mod s"
  by (metis diff_diff_eq minus_mod_self2)

lemma setBits_Done:
  assumes "0 < step" and "offset \<le> v" and "high - offset < int (length bits)" and "nat (high + 1 - v) < n"
    and "high + step \<le> max_int64" and "min_int64 \<le> v"
  shows "\<exists>bs. setBits n offset high step v bits = Done bs \<and> length bs = length bits
    \<and> (\<forall>i<length bits. bs ! i \<longleftrightarrow> bits ! i \<or>
         (v \<le> offset + int i \<and> offset + int i \<le> high \<and> (offset + int i - v) mod step = 0))"
  using assms
proof (induction n arbitrary: v bits)
  case 0
  then show ?case by simp
next
  case (Suc n)
  show ?case
  proof (cases "high < v")
    case True
    then show ?thesis by auto
  next
    case False
    have w: "wrap64 (v + step) = v + step" using Suc.prems False by (intro wrap64_id) auto
    let ?b = "bits[nat (v - offset) := True]"
    have "\<exists>bs. setBits n offset high step (v + step) ?b = Done bs \<and> length bs = length ?b
      \<and> (\<forall>i<length ?b. bs ! i \<longleftrightarrow> ?b ! i \<or>
           (v + step \<le> offset + int i \<and> offset + int i \<le> high \<and> (offset + int i - (v + step)) mod step = 0))"
      using Suc.prems False by (intro Suc.IH) auto
    then obtain bs where bs: "setBits n offset high step (v + step) ?b = Done bs" "length bs = length bits"
      "\<forall>i<length bits. bs ! i \<longleftrightarrow> ?b ! i \<or>
         (v + step \<le> offset + int i \<and> offset + int i \<le> high \<and> (offset + int i - v) mod step = 0)"
      by (auto simp: mod_shift)
    have "bs ! i \<longleftrightarrow> bits ! i \<or>
       (v \<le> offset + int i \<and> offset + int i \<le> high \<and> (offset + int i - v) mod step = 0)" if i: "i < length bits" for i
    proof (cases "offset + int i = v")
      case True
      then have "i = nat (v - offset)" by simp
      then show ?thesis using bs(3) i True False by auto
    next
      case ne: False
      then have "i \<noteq> nat (v - offset)" using Suc.prems(2) by auto
      then have "bs ! i \<longleftrightarrow> bits ! i \<or>
          (v + step \<le> offset + int i \<and> offset + int i \<le> high \<and> (offset + int i - v) mod step = 0)"
        using bs(3) i by simp
      moreover have "v + step \<le> offset + int i \<longleftrightarrow> v \<le> offset + int i"
        if "(offset + int i - v) mod step = 0"
        using mod_step [OF Suc.prems(1), of v "offset + int i"] that ne Suc.prems(1) by force
      ultimately show ?thesis by (cases "(offset + int i - v) mod step = 0") auto
    qed
    then show ?thesis using bs False Suc.prems w by auto
  qed
qed

lemma one_in_range: "1 \<le> max_int64"
  by (simp add: max_int64_def)

lemma atoi_ok_le: "atoi_ok (atoi s) = Some n \<Longrightarrow> n \<le> max_int64"
  using atoi_ok_bounds by blast

lemma splitStep_range: "splitStep part = Inr (r, step) \<Longrightarrow> 0 < step \<and> step \<le> max_int64"
  using one_in_range atoi_ok_le [of _ step]
  by (cases "index_byte part (CHR ''/'')") (auto simp: splitStep_def split: option.splits if_splits)

lemma parsePart_range: "parsePart part lo hi = Inr (low, high, step) \<Longrightarrow>
    lo \<le> low \<and> low \<le> high \<and> high \<le> hi \<and> 0 < step \<and> step \<le> max_int64"
  using splitStep_range [of part _ step]
  by (auto simp: parsePart_def split: sum.splits if_splits)

lemma parseParts_Done:
  assumes "list_all (small_step lo hi) parts" and "length bits = nat (hi - lo + 1)" and "0 \<le> lo" and "hi \<le> 59"
    and "parseParts parts lo hi bits = Done (Inr bs)"
  shows "length bs = length bits
    \<and> (\<forall>i<length bits. bs ! i \<longleftrightarrow> bits ! i \<or> list_ex (allowed_by lo hi (lo + int i)) parts)"
  using assms
proof (induction parts arbitrary: bits)
  case Nil
  then show ?case by auto
next
  case (Cons part parts)
  obtain low high step where p: "parsePart part lo hi = Inr (low, high, step)"
    using Cons.prems(5) by (auto split: sum.splits)
  note range = parsePart_range [OF p]
  have small: "step \<le> max_int64 - hi" using Cons.prems(1) p by (simp add: small_step_def)
  have "\<exists>cs. setBits (length bits + 1) lo high step low bits = Done cs \<and> length cs = length bits
    \<and> (\<forall>i<length bits. cs ! i \<longleftrightarrow> bits ! i \<or>
         (low \<le> lo + int i \<and> lo + int i \<le> high \<and> (lo + int i - low) mod step = 0))"
    using Cons.prems(2-4) range small by (intro setBits_Done) (auto simp: min_int64_def)
  then obtain cs where cs: "setBits (length bits + 1) lo high step low bits = Done cs" "length cs = length bits"
    "\<forall>i<length bits. cs ! i \<longleftrightarrow> bits ! i \<or> allowed_by lo hi (lo + int i) part"
    using p by (auto simp: allowed_by_def)
  have "parseParts parts lo hi cs = Done (Inr bs)" using Cons.prems(5) p cs(1) by simp
  then show ?case using Cons.IH [of cs] Cons.prems cs by auto
qed

lemma parseParts_total:
  assumes "list_all (small_step lo hi) parts" and "length bits = nat (hi - lo + 1)" and "0 \<le> lo" and "hi \<le> 59"
  shows "\<exists>r. parseParts parts lo hi bits = Done r"
  using assms
proof (induction parts arbitrary: bits)
  case Nil
  then show ?case by simp
next
  case (Cons part parts)
  show ?case
  proof (cases "parsePart part lo hi")
    case (Inl e)
    then show ?thesis by simp
  next
    case (Inr x)
    obtain low high step where x: "x = (low, high, step)" by (cases x)
    with Inr have p: "parsePart part lo hi = Inr (low, high, step)" by simp
    note range = parsePart_range [OF p]
    have small: "step \<le> max_int64 - hi" using Cons.prems(1) p by (simp add: small_step_def)
    have "\<exists>cs. setBits (length bits + 1) lo high step low bits = Done cs \<and> length cs = length bits
      \<and> (\<forall>i<length bits. cs ! i \<longleftrightarrow> bits ! i \<or>
           (low \<le> lo + int i \<and> lo + int i \<le> high \<and> (lo + int i - low) mod step = 0))"
      using Cons.prems(2-4) range small by (intro setBits_Done) (auto simp: min_int64_def)
    then obtain cs where "setBits (length bits + 1) lo high step low bits = Done cs" "length cs = length bits"
      by blast
    then show ?thesis using Cons p by auto
  qed
qed

definition small_steps :: "int \<Rightarrow> int \<Rightarrow> string \<Rightarrow> bool" where
  "small_steps lo hi field \<longleftrightarrow> list_all (small_step lo hi) (split_byte (CHR '','') field)"

lemma parseField_Done:
  assumes "small_steps lo hi field" and "0 \<le> lo" and "hi \<le> 59" and "parseField field lo hi = Done (Inr bs)"
    and "lo \<le> v" and "v \<le> hi"
  shows "bs ! nat (v - lo) \<longleftrightarrow> field_allows lo hi field v"
  using parseParts_Done [of lo hi "split_byte (CHR '','') field" "replicate (nat (hi - lo + 1)) False" bs] assms
  by (auto simp: parseField_def small_steps_def field_allows_def)

lemma parseField_total:
  "small_steps lo hi field \<Longrightarrow> 0 \<le> lo \<Longrightarrow> hi \<le> 59 \<Longrightarrow> \<exists>r. parseField field lo hi = Done r"
  using parseParts_total [of lo hi "split_byte (CHR '','') field" "replicate (nat (hi - lo + 1)) False"]
  by (simp add: parseField_def small_steps_def)

lemma or_error_Done_iff: "or_error r f = Done (Inr y) \<longleftrightarrow> (\<exists>x. r = Done (Inr x) \<and> f x = Done (Inr y))"
  by (cases "(r, f)" rule: or_error.cases) auto

lemma or_error_total: "\<exists>r. x = Done r \<Longrightarrow> (\<And>y. \<exists>r. f y = Done r) \<Longrightarrow> \<exists>r. or_error x f = Done r"
  by (metis or_error.simps(1) or_error.simps(2) sum.exhaust)

definition small_expression :: "string \<Rightarrow> bool" where
  "small_expression expression \<longleftrightarrow>
     (case Utf8.fields expression of
        [a, b, c, d, e] \<Rightarrow>
          small_steps 0 59 a \<and> small_steps 0 23 b \<and> small_steps 1 31 c \<and> small_steps 1 12 d \<and> small_steps 0 6 e
      | _ \<Rightarrow> True)"

text \<open>C15: An expression whose steps leave room in a 64-bit counter always parses or is refused, never
  panics, and when it parses it matches exactly the civil times each of whose five components its
  field allows: some part of the list has it in its range, a multiple of the step above the start.\<close>

theorem cron_means_its_fields:
  assumes "small_expression expression" and "civil t"
  shows "\<exists>r. parseCron expression = Done r
    \<and> (\<forall>x. r = Inr x \<longrightarrow> (\<exists>a b c d e. Utf8.fields expression = [a, b, c, d, e]
         \<and> (matches x t \<longleftrightarrow> field_allows 0 59 a (int (minute t)) \<and> field_allows 0 23 b (int (hour t))
             \<and> field_allows 1 31 c (int (day t)) \<and> field_allows 1 12 d (int (month t))
             \<and> field_allows 0 6 e (int (weekday t)))))"
proof (cases "\<exists>a b c d e. Utf8.fields expression = [a, b, c, d, e]")
  case False
  then have "parseCron expression = Done (Inl (FieldCount (length (Utf8.fields expression))))"
    by (auto simp: parseCron_def split: list.split)
  then show ?thesis by simp
next
  case True
  then obtain a b c d e where f: "Utf8.fields expression = [a, b, c, d, e]" by blast
  have s: "small_steps 0 59 a" "small_steps 0 23 b" "small_steps 1 31 c" "small_steps 1 12 d" "small_steps 0 6 e"
    using assms(1) f by (simp_all add: small_expression_def)
  have total: "\<exists>r. parseCron expression = Done r"
    unfolding parseCron_def f list.case
    by (intro or_error_total parseField_total s) simp_all
  have "matches x t \<longleftrightarrow> field_allows 0 59 a (int (minute t)) \<and> field_allows 0 23 b (int (hour t))
      \<and> field_allows 1 31 c (int (day t)) \<and> field_allows 1 12 d (int (month t)) \<and> field_allows 0 6 e (int (weekday t))"
    if parsed: "parseCron expression = Done (Inr x)" for x
  proof -
    obtain m h dm mo dw where bits: "parseField a 0 59 = Done (Inr m)" "parseField b 0 23 = Done (Inr h)"
      "parseField c 1 31 = Done (Inr dm)" "parseField d 1 12 = Done (Inr mo)" "parseField e 0 6 = Done (Inr dw)"
      "Done (Inr \<lparr>minuteBits = m, hourBits = h, dayOfMonthBits = dm, monthBits = mo, dayOfWeekBits = dw\<rparr>) = (Done (Inr x) :: (cron_error + cron_expr) outcome)"
      using parsed by (auto simp: parseCron_def f or_error_Done_iff)
    have "m ! nat (int (minute t) - 0) \<longleftrightarrow> field_allows 0 59 a (int (minute t))"
      using assms(2) by (intro parseField_Done s bits) (auto simp: civil_def)
    moreover have "h ! nat (int (hour t) - 0) \<longleftrightarrow> field_allows 0 23 b (int (hour t))"
      using assms(2) by (intro parseField_Done s bits) (auto simp: civil_def)
    moreover have "dm ! nat (int (day t) - 1) \<longleftrightarrow> field_allows 1 31 c (int (day t))"
      using assms(2) by (intro parseField_Done s bits) (auto simp: civil_def)
    moreover have "mo ! nat (int (month t) - 1) \<longleftrightarrow> field_allows 1 12 d (int (month t))"
      using assms(2) by (intro parseField_Done s bits) (auto simp: civil_def)
    moreover have "dw ! nat (int (weekday t) - 0) \<longleftrightarrow> field_allows 0 6 e (int (weekday t))"
      using assms(2) by (intro parseField_Done s bits) (auto simp: civil_def)
    moreover have "nat (int (day t) - 1) = day t - 1" "nat (int (month t) - 1) = month t - 1" by simp_all
    ultimately show ?thesis using bits(6) by (auto simp: matches_def)
  qed
  with total f show ?thesis by auto
qed

lemma sample_fields: "Utf8.fields ''*/15 9-17 * * 1-5'' = [''*/15'', ''9-17'', ''*'', ''*'', ''1-5'']"
  by (simp add: Utf8.fields_def pieces_ascii is_space_def)

lemmas part_simps = parsePart_def splitStep_def parseRange_def index_byte_def atoi_def atoi_digits_def max_int64_def

lemma cron_means_its_fields_witness:
  "\<exists>r. parseCron ''*/15 9-17 * * 1-5'' = Done r"
proof -
  have small: "small_expression ''*/15 9-17 * * 1-5''"
    by (simp add: small_expression_def sample_fields small_steps_def small_step_def part_simps)
  have "civil \<lparr>minute = 30, hour = 9, day = 2, month = 3, weekday = 1\<rparr>" by (simp add: civil_def)
  from cron_means_its_fields [OF small this] show ?thesis by blast
qed

lemma setBits_wraps:
  assumes "0 \<le> offset" and "offset \<le> v" and "v \<le> high" and "v - offset < int (length bits)"
    and "v + step = max_int64 + 1"
  shows "setBits (Suc (Suc n)) offset high step v bits = Panics"
proof -
  have "wrap64 (v + step) = min_int64" using assms(5) by (simp add: wrap64_def max_int64_def min_int64_def)
  then show ?thesis using assms by (simp add: min_int64_def)
qed

text \<open>
  The counter wraps: with the largest 64-bit step the second value of the loop is negative, still
  below the end of the range, and indexes the bits.
\<close>

definition overflowingSchedule :: string where
  "overflowingSchedule = ''1-59/9223372036854775807 * * * *''"

lemma overflowing_minutes: "parseField ''1-59/9223372036854775807'' 0 59 = Panics"
proof -
  have part: "parsePart ''1-59/9223372036854775807'' 0 59 = Inr (1, 59, 9223372036854775807)"
    by (simp add: part_simps)
  have split: "split_byte (CHR '','') ''1-59/9223372036854775807'' = [''1-59/9223372036854775807'']"
    by (rule split_byte_none) simp
  let ?bits = "replicate (nat (59 - 0 + 1)) False"
  have n: "length ?bits + 1 = Suc (Suc 59)" by simp
  have "setBits (length ?bits + 1) 0 59 9223372036854775807 1 ?bits = Panics"
    unfolding n by (rule setBits_wraps) (simp_all add: max_int64_def)
  then show ?thesis by (simp only: parseField_def split parseParts.simps part sum.case prod.case and_then.simps)
qed

lemma overflowing_schedule_panics: "parseCron overflowingSchedule = Panics"
proof -
  have "Utf8.fields overflowingSchedule = [''1-59/9223372036854775807'', ''*'', ''*'', ''*'', ''*'']"
    by (simp add: overflowingSchedule_def Utf8.fields_def pieces_ascii is_space_def)
  then show ?thesis by (simp only: parseCron_def list.case overflowing_minutes or_error.simps)
qed

end
