(* ===== verification/Scheduler.thy ===== *)
theory Scheduler
  imports CronExpr
begin

text \<open>
  The job scheduler, \<open>internal/jobs/scheduler.go\<close>: the jobs and job runs of the store, the tick with
  its map of the last fired minutes, triggering and the end of a run. Times are milliseconds; the
  calendar of the local zone is a parameter of a tick. A tick is one step: the list of jobs it
  reads is the one it works on. A panic inside a tick is recovered by the deferred handler of the
  goroutine, which then is over. Names, prompts and the request data of a trigger are left out.
\<close>

subsection \<open>The state\<close>

record job =
  jobId :: string
  jobUser :: string
  jobEnabled :: bool
  isWebhook :: bool
  runAt :: "int option"
  schedule :: string
  oneShot :: bool
  jobAgent :: string
  jobConversation :: string
  lastStatusOk :: "bool option"

datatype run_status = JobRunning | JobSuccess | JobError

datatype trigger_kind = Manual | Scheduled | Webhook

text \<open>\<open>firedAt\<close> is not stored: the time of the tick, or of the request, that triggered the run.\<close>

record job_run =
  runJob :: string
  runTrigger :: trigger_kind
  firedAt :: int
  startedAt :: int
  runStatus :: run_status

record scheduler =
  jobs :: "job list"
  jobRuns :: "job_run list"
  lastCronFire :: "string \<rightharpoonup> int"
  alive :: bool

definition newScheduler :: "job list \<Rightarrow> scheduler" where
  "newScheduler js = \<lparr>jobs = js, jobRuns = [], lastCronFire = Map.empty, alive = True\<rparr>"

text \<open>
  What the outside answers during one tick: its time, the clock when the run of a job is stored, the calendar
  and the store.
\<close>

record tick_env =
  now :: int
  clock :: "string \<Rightarrow> int"
  calendar :: "int \<Rightarrow> civil_time"
  listOk :: bool
  modifyOk :: "string \<Rightarrow> bool"
  createOk :: "string \<Rightarrow> bool"

definition minuteBoundary :: "int \<Rightarrow> int" where
  "minuteBoundary t = t - t mod 60000"

definition findJob :: "string \<Rightarrow> scheduler \<Rightarrow> job option" where
  "findJob i s = find (\<lambda>j. jobId j = i) (jobs s)"

definition modifyJob :: "string \<Rightarrow> (job \<Rightarrow> job) \<Rightarrow> scheduler \<Rightarrow> scheduler" where
  "modifyJob i f s = s\<lparr>jobs := map (\<lambda>j. if jobId j = i then f j else j) (jobs s)\<rparr>"

definition deleteJob :: "string \<Rightarrow> scheduler \<Rightarrow> scheduler" where
  "deleteJob i s = s\<lparr>jobs := filter (\<lambda>j. jobId j \<noteq> i) (jobs s)\<rparr>"

subsection \<open>Triggering and ticking\<close>

definition triggerJob :: "trigger_kind \<Rightarrow> int \<Rightarrow> int \<Rightarrow> bool \<Rightarrow> string \<Rightarrow> scheduler \<Rightarrow> scheduler" where
  "triggerJob k t c ok i s =
     (if findJob i s = None \<or> \<not> ok then s
      else s\<lparr>jobRuns := jobRuns s @ [\<lparr>runJob = i, runTrigger = k, firedAt = t, startedAt = c, runStatus = JobRunning\<rparr>]\<rparr>)"

definition tickOnce :: "tick_env \<Rightarrow> job \<Rightarrow> scheduler \<Rightarrow> scheduler" where
  "tickOnce e j s =
     (if findJob (jobId j) s = None \<or> \<not> modifyOk e (jobId j) then s
      else triggerJob Scheduled (now e) (clock e (jobId j)) (createOk e (jobId j)) (jobId j)
             (modifyJob (jobId j) (\<lambda>x. x\<lparr>jobEnabled := False\<rparr>) s))"

definition tickCron :: "tick_env \<Rightarrow> job \<Rightarrow> scheduler \<Rightarrow> scheduler" where
  "tickCron e j s =
     (case parseCron (schedule j) of
        Done (Inl err) \<Rightarrow> s
      | Done (Inr x) \<Rightarrow>
          if \<not> matches x (calendar e (now e)) then s
          else if lastCronFire s (jobId j) = Some (minuteBoundary (now e)) then s
          else triggerJob Scheduled (now e) (clock e (jobId j)) (createOk e (jobId j)) (jobId j)
                 (s\<lparr>lastCronFire := (lastCronFire s)(jobId j \<mapsto> minuteBoundary (now e))\<rparr>)
      | _ \<Rightarrow> s\<lparr>alive := False\<rparr>)"

definition tickJob :: "tick_env \<Rightarrow> job \<Rightarrow> scheduler \<Rightarrow> scheduler" where
  "tickJob e j s =
     (if \<not> jobEnabled j \<or> jobUser j = [] \<or> isWebhook j then s
      else (case runAt j of
              Some t \<Rightarrow> if t \<le> now e then tickOnce e j s else s
            | None \<Rightarrow> tickCron e j s))"

fun tickJobs :: "tick_env \<Rightarrow> job list \<Rightarrow> scheduler \<Rightarrow> scheduler" where
  "tickJobs e [] s = s"
| "tickJobs e (j # js) s = (let t = tickJob e j s in if alive t then tickJobs e js t else t)"

definition tick :: "tick_env \<Rightarrow> scheduler \<Rightarrow> scheduler" where
  "tick e s = (if \<not> alive s \<or> \<not> listOk e then s else tickJobs e (jobs s) s)"

subsection \<open>The end of a run\<close>

text \<open>
  What the outside answers while a run is executed: whether the run callback is set, whether agent
  and conversation could be resolved, how the run ended, whether the store writes, and whether a
  failed transaction undoes its first write (the database store does, the file store does not).
\<close>

record execute_env =
  callbackSet :: bool
  resolved :: bool
  runFailed :: bool
  runWriteOk :: bool
  jobWriteOk :: bool
  rollsBack :: bool

definition setStatus :: "nat \<Rightarrow> run_status \<Rightarrow> scheduler \<Rightarrow> scheduler" where
  "setStatus n x s = s\<lparr>jobRuns := (jobRuns s)[n := (jobRuns s ! n)\<lparr>runStatus := x\<rparr>]\<rparr>"

definition completeJobRun :: "execute_env \<Rightarrow> nat \<Rightarrow> bool \<Rightarrow> scheduler \<Rightarrow> scheduler" where
  "completeJobRun e n failed s =
     (if runWriteOk e then setStatus n (if failed then JobError else JobSuccess) s else s)"

definition executeJob :: "execute_env \<Rightarrow> nat \<Rightarrow> job \<Rightarrow> scheduler \<Rightarrow> scheduler" where
  "executeJob e n j s =
     (if \<not> callbackSet e then completeJobRun e n True s
      else if (jobAgent j = [] \<or> jobConversation j = []) \<and> \<not> resolved e then completeJobRun e n True s
      else if \<not> runWriteOk e then s
      else (let s1 = setStatus n (if runFailed e then JobError else JobSuccess) s in
            if findJob (jobId j) s = None \<or> \<not> jobWriteOk e then (if rollsBack e then s else s1)
            else if oneShot j then deleteJob (jobId j) s1
            else modifyJob (jobId j) (\<lambda>x. x\<lparr>lastStatusOk := Some (\<not> runFailed e)\<rparr>) s1))"

text \<open>
  The steps: ticks, the end of a run with the job as it was when the run was triggered, a trigger
  on request and a deletion by a user.
\<close>

datatype scheduler_event =
    Tick tick_env | Finish execute_env nat job | OnRequest trigger_kind int bool string | Delete string

fun scheduler_step :: "scheduler_event \<Rightarrow> scheduler \<Rightarrow> scheduler" where
  "scheduler_step (Tick e) s = tick e s"
| "scheduler_step (Finish e n j) s = (if n < length (jobRuns s) then executeJob e n j s else s)"
| "scheduler_step (OnRequest k t ok i) s = triggerJob k t t ok i s"
| "scheduler_step (Delete i) s = deleteJob i s"

subsection \<open>When a job fires\<close>

definition fires :: "string \<Rightarrow> scheduler \<Rightarrow> int list" where
  "fires i s = map firedAt (filter (\<lambda>r. runJob r = i \<and> runTrigger r = Scheduled) (jobRuns s))"

text \<open>A firing of a cron job is justified by a tick at its time whose calendar matches the schedule.\<close>

definition justified :: "tick_env set \<Rightarrow> job \<Rightarrow> int \<Rightarrow> bool" where
  "justified P j f \<longleftrightarrow>
     (\<exists>e\<in>P. now e = f \<and> (\<exists>x. parseCron (schedule j) = Done (Inr x) \<and> matches x (calendar e f)))"

definition fires_ok :: "tick_env set \<Rightarrow> int \<Rightarrow> scheduler \<Rightarrow> job \<Rightarrow> bool" where
  "fires_ok P T s j \<longleftrightarrow>
     (let fs = fires (jobId j) s in
      case runAt j of
        Some t \<Rightarrow>
          length fs \<le> 1 \<and> (\<forall>f\<in>set fs. t \<le> f)
          \<and> (fs \<noteq> [] \<longrightarrow> (\<forall>k\<in>set (jobs s). jobId k = jobId j \<longrightarrow> \<not> jobEnabled k))
      | None \<Rightarrow>
          sorted_wrt (\<lambda>a b. minuteBoundary a < minuteBoundary b) fs
          \<and> (\<forall>f\<in>set fs. justified P j f \<and> (\<exists>b. lastCronFire s (jobId j) = Some b \<and> minuteBoundary f \<le> b))
          \<and> (\<forall>b. lastCronFire s (jobId j) = Some b \<longrightarrow> b \<le> minuteBoundary T))"

definition same_job :: "job \<Rightarrow> job \<Rightarrow> bool" where
  "same_job j k \<longleftrightarrow> jobId k = jobId j \<and> runAt k = runAt j \<and> schedule k = schedule j"

definition sched_inv :: "job list \<Rightarrow> tick_env set \<Rightarrow> int \<Rightarrow> scheduler \<Rightarrow> bool" where
  "sched_inv js P T s \<longleftrightarrow>
     distinct (map jobId js) \<and> distinct (map jobId (jobs s))
     \<and> (\<forall>k\<in>set (jobs s). \<exists>j\<in>set js. same_job j k) \<and> (\<forall>j\<in>set js. fires_ok P T s j)"

lemma minuteBoundary_mono: "a \<le> b \<Longrightarrow> minuteBoundary a \<le> minuteBoundary b"
proof -
  have "minuteBoundary t = t div 60000 * 60000" for t by (simp add: minuteBoundary_def minus_mod_eq_div_mult)
  then show "a \<le> b \<Longrightarrow> minuteBoundary a \<le> minuteBoundary b" by (simp add: zdiv_mono1)
qed

lemma minuteBoundary_le: "minuteBoundary t \<le> t"
  by (simp add: minuteBoundary_def)

lemma find_distinct: "distinct (map jobId js) \<Longrightarrow> j \<in> set js \<Longrightarrow> find (\<lambda>k. jobId k = jobId j) js = Some j"
  by (induction js) force+

lemma findJob_mem: "distinct (map jobId (jobs s)) \<Longrightarrow> j \<in> set (jobs s) \<Longrightarrow> findJob (jobId j) s = Some j"
  by (simp add: findJob_def find_distinct)

lemma fires_trigger: "fires i (triggerJob k t c ok i' s) =
    fires i s @ (if findJob i' s \<noteq> None \<and> ok \<and> i' = i \<and> k = Scheduled then [t] else [])"
  by (simp add: fires_def triggerJob_def)

lemma trigger_same [simp]: "jobs (triggerJob k t c ok i s) = jobs s"
    "lastCronFire (triggerJob k t c ok i s) = lastCronFire s" "alive (triggerJob k t c ok i s) = alive s"
  by (simp_all add: triggerJob_def)

lemma modify_same [simp]: "fires i (modifyJob k f s) = fires i s" "lastCronFire (modifyJob k f s) = lastCronFire s"
    "fires i (deleteJob k s) = fires i s" "lastCronFire (deleteJob k s) = lastCronFire s"
    "fires i (s\<lparr>lastCronFire := m\<rparr>) = fires i s" "fires i (s\<lparr>alive := a\<rparr>) = fires i s"
    "findJob k (s\<lparr>lastCronFire := m\<rparr>) = findJob k s"
  by (simp_all add: fires_def modifyJob_def deleteJob_def findJob_def)

lemma fires_status [simp]: "n < length (jobRuns s) \<Longrightarrow> fires i (setStatus n x s) = fires i s"
proof -
  assume n: "n < length (jobRuns s)"
  have "map (\<lambda>r. (runJob r, runTrigger r, firedAt r)) ((jobRuns s)[n := (jobRuns s ! n)\<lparr>runStatus := x\<rparr>]) =
      map (\<lambda>r. (runJob r, runTrigger r, firedAt r)) (jobRuns s)"
    using n by (intro nth_equalityI) (auto simp: nth_list_update)
  moreover have "fires i s = map (\<lambda>(_, _, t). t) (filter (\<lambda>(j, k, _). j = i \<and> k = Scheduled)
      (map (\<lambda>r. (runJob r, runTrigger r, firedAt r)) (jobRuns s)))" for s
    by (simp add: fires_def filter_map o_def)
  ultimately show ?thesis by (simp add: setStatus_def)
qed

lemma status_same [simp]: "jobs (setStatus n x s) = jobs s" "lastCronFire (setStatus n x s) = lastCronFire s"
  by (simp_all add: setStatus_def)

text \<open>The invariant only looks at the firings, the last minutes and the jobs, which may shrink or be disabled.\<close>

lemma sched_inv_mono:
  assumes "sched_inv js P T s" and "\<And>i. fires i t = fires i s" and "lastCronFire t = lastCronFire s"
    and "distinct (map jobId (jobs t))"
    and "\<forall>k\<in>set (jobs t). \<exists>l\<in>set (jobs s). same_job l k \<and> (jobEnabled k \<longrightarrow> jobEnabled l)"
  shows "sched_inv js P T t"
proof -
  have "\<forall>k\<in>set (jobs t). \<exists>j\<in>set js. same_job j k"
    using assms(1,5) unfolding sched_inv_def same_job_def by metis
  moreover have "fires_ok P T t j" if ok: "fires_ok P T s j" for j
  proof (cases "runAt j")
    case None
    then show ?thesis using ok assms(2,3) by (simp add: fires_ok_def)
  next
    case (Some r)
    have "\<forall>k\<in>set (jobs t). jobId k = jobId j \<longrightarrow> \<not> jobEnabled k"
      if "\<forall>k\<in>set (jobs s). jobId k = jobId j \<longrightarrow> \<not> jobEnabled k"
      using that assms(5) by (auto simp: same_job_def)
    then show ?thesis using ok Some assms(2) by (auto simp: fires_ok_def Let_def)
  qed
  ultimately show ?thesis using assms(1,4) by (simp add: sched_inv_def)
qed

lemma sched_inv_time: "sched_inv js P T s \<Longrightarrow> T \<le> T' \<Longrightarrow> P \<subseteq> P' \<Longrightarrow> sched_inv js P' T' s"
proof -
  assume a: "sched_inv js P T s" and t: "T \<le> T'" and p: "P \<subseteq> P'"
  have "fires_ok P' T' s j" if "fires_ok P T s j" for j
    using that p order_trans [OF _ minuteBoundary_mono [OF t]]
    by (auto simp: fires_ok_def Let_def justified_def split: option.splits) blast+
  with a show "sched_inv js P' T' s" by (simp add: sched_inv_def)
qed

lemma tickCron_jobs [simp]: "jobs (tickCron e j s) = jobs s"
  by (simp add: tickCron_def split: outcome.split sum.split)

lemma tickCron_frame:
  "k \<noteq> jobId j \<Longrightarrow> fires k (tickCron e j s) = fires k s \<and> lastCronFire (tickCron e j s) k = lastCronFire s k"
  by (simp add: tickCron_def fires_trigger split: outcome.split sum.split)

lemma tickOnce_frame:
  "k \<noteq> jobId j \<Longrightarrow> fires k (tickOnce e j s) = fires k s \<and> lastCronFire (tickOnce e j s) k = lastCronFire s k"
  by (simp add: tickOnce_def fires_trigger)

lemma tickOnce_jobs: "jobs (tickOnce e j s) = jobs s \<or>
    jobs (tickOnce e j s) = map (\<lambda>k. if jobId k = jobId j then k\<lparr>jobEnabled := False\<rparr> else k) (jobs s)"
  by (simp add: tickOnce_def modifyJob_def)

lemma tickJob_disj:
  "tickJob e j s = s \<or> (\<exists>t. tickJob e j s = tickOnce e j s \<and> runAt j = Some t \<and> t \<le> now e \<and> jobEnabled j)
   \<or> (tickJob e j s = tickCron e j s \<and> runAt j = None)"
  by (simp add: tickJob_def split: option.split)

lemma tickJob_cases:
  obtains "tickJob e j s = s"
  | t where "tickJob e j s = tickOnce e j s" and "runAt j = Some t" and "t \<le> now e" and "jobEnabled j"
  | "tickJob e j s = tickCron e j s" and "runAt j = None"
  using tickJob_disj [of e j s] by metis

lemma tickJob_frame:
  assumes "k \<noteq> jobId j"
  shows "fires k (tickJob e j s) = fires k s" and "lastCronFire (tickJob e j s) k = lastCronFire s k"
  using assms tickCron_frame tickOnce_frame by (cases rule: tickJob_cases [of e j s]; simp)+

lemma tickJob_others:
  "jobId l \<noteq> jobId j \<Longrightarrow> l \<in> set (jobs (tickJob e j s)) \<longleftrightarrow> l \<in> set (jobs s)"
  using tickOnce_jobs [of e j s] by (cases rule: tickJob_cases [of e j s]) auto

lemma tickJob_ids [simp]: "map jobId (jobs (tickJob e j s)) = map jobId (jobs s)"
proof -
  have "map jobId (map (\<lambda>k. if jobId k = jobId j then k\<lparr>jobEnabled := False\<rparr> else k) ks) = map jobId ks" for ks
    by (induction ks) auto
  then show ?thesis using tickOnce_jobs [of e j s] by (cases rule: tickJob_cases [of e j s]) auto
qed

lemma tickJob_jobs:
  "\<forall>k\<in>set (jobs (tickJob e j s)). \<exists>l\<in>set (jobs s). same_job l k \<and> (jobEnabled k \<longrightarrow> jobEnabled l)"
proof -
  let ?off = "map (\<lambda>k. if jobId k = jobId j then k\<lparr>jobEnabled := False\<rparr> else k) (jobs s)"
  let ?from = "\<lambda>k. \<exists>l\<in>set (jobs s). same_job l k \<and> (jobEnabled k \<longrightarrow> jobEnabled l)"
  have "same_job l (if jobId l = jobId j then l\<lparr>jobEnabled := False\<rparr> else l)
      \<and> (jobEnabled (if jobId l = jobId j then l\<lparr>jobEnabled := False\<rparr> else l) \<longrightarrow> jobEnabled l)" for l
    by (simp add: same_job_def)
  then have off: "\<forall>k\<in>set ?off. ?from k"
    unfolding set_map by blast
  have same: "\<forall>k\<in>set (jobs s). ?from k"
    by (auto simp: same_job_def)
  have "jobs (tickJob e j s) = jobs s \<or> jobs (tickJob e j s) = ?off"
    using tickOnce_jobs [of e j s] by (cases rule: tickJob_cases [of e j s]) auto
  then show ?thesis using off same by (elim disjE) (simp_all only:)
qed

lemma tickOnce_fires_ok:
  assumes "fires_ok P (now e) s j0" and "same_job j0 j" and "runAt j = Some t" and "t \<le> now e"
    and "jobEnabled j" and "j \<in> set (jobs s)"
  shows "fires_ok P (now e) (tickOnce e j s) j0"
proof -
  have j0: "runAt j0 = Some t" "jobId j0 = jobId j" using assms(2,3) by (simp_all add: same_job_def)
  have none: "fires (jobId j) s = []" using assms(1,5,6) j0 by (auto simp: fires_ok_def Let_def)
  have "\<not> jobEnabled k" if "k \<in> set (jobs (modifyJob (jobId j) (\<lambda>x. x\<lparr>jobEnabled := False\<rparr>) s))" "jobId k = jobId j" for k
    using that by (auto simp: modifyJob_def split: if_splits)
  then show ?thesis
    using assms(1,4) none j0 by (auto simp: fires_ok_def tickOnce_def fires_trigger Let_def)
qed

lemma tickCron_fires_ok:
  assumes "fires_ok P (now e) s j0" and "same_job j0 j" and "runAt j = None" and "e \<in> P"
  shows "fires_ok P (now e) (tickCron e j s) j0"
proof -
  let ?i = "jobId j" and ?b = "minuteBoundary (now e)"
  have j0: "runAt j0 = None" "jobId j0 = ?i" "schedule j0 = schedule j"
    using assms(2,3) by (simp_all add: same_job_def)
  have old: "sorted_wrt (\<lambda>a b. minuteBoundary a < minuteBoundary b) (fires ?i s)"
      "\<forall>f\<in>set (fires ?i s). justified P j0 f \<and> (\<exists>b. lastCronFire s ?i = Some b \<and> minuteBoundary f \<le> b)"
      "\<forall>b. lastCronFire s ?i = Some b \<longrightarrow> b \<le> ?b"
    using assms(1) j0 by (simp_all add: fires_ok_def Let_def)
  show ?thesis
  proof (cases "\<exists>x. parseCron (schedule j) = Done (Inr x) \<and> matches x (calendar e (now e)) \<and> lastCronFire s ?i \<noteq> Some ?b")
    case False
    then have "fires ?i (tickCron e j s) = fires ?i s" "lastCronFire (tickCron e j s) = lastCronFire s"
      by (auto simp: tickCron_def split: outcome.splits sum.splits if_splits)
    then show ?thesis using assms(1) j0 by (simp add: fires_ok_def)
  next
    case True
    then obtain x where x: "parseCron (schedule j) = Done (Inr x)" "matches x (calendar e (now e))"
      "lastCronFire s ?i \<noteq> Some ?b" by blast
    then have step: "tickCron e j s = triggerJob Scheduled (now e) (clock e ?i) (createOk e ?i) ?i
        (s\<lparr>lastCronFire := (lastCronFire s)(?i \<mapsto> ?b)\<rparr>)"
      by (simp add: tickCron_def)
    have before: "minuteBoundary f < ?b" if f: "f \<in> set (fires ?i s)" for f
    proof -
      obtain b where b: "lastCronFire s ?i = Some b" "minuteBoundary f \<le> b" using bspec [OF old(2) f] by blast
      have "b \<le> ?b" by (rule mp [OF spec [OF old(3)] b(1)])
      moreover have "b \<noteq> ?b" using x(3) unfolding b(1) by simp
      ultimately show ?thesis using b(2) by linarith
    qed
    have just: "justified P j0 (now e)" using x assms(4) j0 by (auto simp: justified_def)
    have last: "lastCronFire (tickCron e j s) ?i = Some ?b" by (simp add: step)
    have new: "fires ?i (tickCron e j s) = fires ?i s \<or> fires ?i (tickCron e j s) = fires ?i s @ [now e]"
      by (simp add: step fires_trigger)
    then have "sorted_wrt (\<lambda>a b. minuteBoundary a < minuteBoundary b) (fires ?i (tickCron e j s))"
      using old(1) before by (auto simp: sorted_wrt_append)
    moreover have "justified P j0 f \<and> minuteBoundary f \<le> ?b" if "f \<in> set (fires ?i (tickCron e j s))" for f
    proof -
      have "f \<in> set (fires ?i s) \<or> f = now e" using new that by auto
      then show ?thesis using old(2) before [of f] just by auto
    qed
    ultimately show ?thesis using last j0 by (simp add: fires_ok_def)
  qed
qed

lemma tickJob_inv:
  assumes inv: "sched_inv js P (now e) s" and j: "j \<in> set (jobs s)" and P: "e \<in> P"
  shows "sched_inv js P (now e) (tickJob e j s)"
proof -
  have ids: "distinct (map jobId (jobs s))" "distinct (map jobId js)" using inv by (simp_all add: sched_inv_def)
  obtain j0 where j0: "j0 \<in> set js" "same_job j0 j" using inv j by (auto simp: sched_inv_def)
  have "fires_ok P (now e) (tickJob e j s) k" if k: "k \<in> set js" for k
  proof (cases "jobId k = jobId j")
    case True
    then have "k = j0" using j0 k ids(2) by (auto simp: same_job_def distinct_map inj_on_def)
    moreover have "fires_ok P (now e) s j0" using inv j0 by (simp add: sched_inv_def)
    ultimately show ?thesis
      using tickOnce_fires_ok [OF _ j0(2) _ _ _ j] tickCron_fires_ok [OF _ j0(2) _ P]
      by (cases rule: tickJob_cases [of e j s]) auto
  next
    case False
    then show ?thesis
      using inv k tickJob_frame [of "jobId k" j e s] tickJob_others [of _ j e s]
      by (auto simp: sched_inv_def fires_ok_def Let_def split: option.splits)
  qed
  moreover have "\<forall>k\<in>set (jobs (tickJob e j s)). \<exists>l\<in>set js. same_job l k"
    using tickJob_jobs [of e j s] inv unfolding sched_inv_def same_job_def by metis
  ultimately show ?thesis using ids by (simp add: sched_inv_def)
qed

lemma tickJobs_inv:
  assumes "sched_inv js P (now e) s" and "set ks \<subseteq> set (jobs s)" and "distinct (map jobId ks)" and "e \<in> P"
  shows "sched_inv js P (now e) (tickJobs e ks s)"
  using assms
proof (induction ks arbitrary: s)
  case Nil
  then show ?case by simp
next
  case (Cons j ks)
  let ?t = "tickJob e j s"
  have "sched_inv js P (now e) ?t" using Cons.prems tickJob_inv by simp
  moreover have "set ks \<subseteq> set (jobs ?t)"
    using Cons.prems tickJob_others [of _ j e s] by (fastforce simp: image_iff)
  ultimately show ?case using Cons.IH [of ?t] Cons.prems by (simp add: Let_def)
qed

lemma tick_inv:
  assumes "sched_inv js P T s" and "T \<le> now e"
  shows "sched_inv js (insert e P) (now e) (tick e s)"
proof -
  have s: "sched_inv js (insert e P) (now e) s" using sched_inv_time [OF assms] by blast
  moreover have "distinct (map jobId (jobs s))" using assms(1) by (simp add: sched_inv_def)
  ultimately show ?thesis using tickJobs_inv [OF s] by (simp add: tick_def)
qed

lemma executeJob_inv:
  assumes "sched_inv js P T s" and "n < length (jobRuns s)"
  shows "sched_inv js P T (executeJob e n j s)"
proof (rule sched_inv_mono [OF assms(1)])
  let ?t = "executeJob e n j s" and ?done = "\<lambda>x. x\<lparr>lastStatusOk := Some (\<not> runFailed e)\<rparr>"
  have shape: "jobs ?t = jobs s \<or> jobs ?t = filter (\<lambda>k. jobId k \<noteq> jobId j) (jobs s)
      \<or> jobs ?t = map (\<lambda>k. if jobId k = jobId j then ?done k else k) (jobs s)"
    by (simp add: executeJob_def completeJobRun_def Let_def deleteJob_def modifyJob_def)
  show "fires i ?t = fires i s" for i
    using assms(2) by (simp add: executeJob_def completeJobRun_def Let_def)
  show "lastCronFire ?t = lastCronFire s"
    by (simp add: executeJob_def completeJobRun_def Let_def)
  have d: "distinct (map jobId (jobs s))" using assms(1) by (simp add: sched_inv_def)
  have ids: "map jobId (map (\<lambda>k. if jobId k = jobId j then ?done k else k) ks) = map jobId ks" for ks
    by (induction ks) auto
  show "distinct (map jobId (jobs ?t))"
    using shape
  proof (elim disjE)
    assume t: "jobs ?t = map (\<lambda>k. if jobId k = jobId j then ?done k else k) (jobs s)"
    show ?thesis unfolding t ids by (rule d)
  qed (use d in \<open>simp_all add: distinct_map_filter\<close>)
  have "same_job l (if jobId l = jobId j then ?done l else l)
      \<and> (jobEnabled (if jobId l = jobId j then ?done l else l) \<longrightarrow> jobEnabled l)" for l
    by (simp add: same_job_def)
  then have "\<forall>k\<in>set (map (\<lambda>k. if jobId k = jobId j then ?done k else k) (jobs s)).
      \<exists>l\<in>set (jobs s). same_job l k \<and> (jobEnabled k \<longrightarrow> jobEnabled l)"
    unfolding set_map by blast
  moreover have same: "\<forall>k\<in>set (jobs s). \<exists>l\<in>set (jobs s). same_job l k \<and> (jobEnabled k \<longrightarrow> jobEnabled l)"
    by (auto simp: same_job_def)
  moreover have "\<forall>k\<in>set (filter (\<lambda>k. jobId k \<noteq> jobId j) (jobs s)).
      \<exists>l\<in>set (jobs s). same_job l k \<and> (jobEnabled k \<longrightarrow> jobEnabled l)"
    using same unfolding set_filter by blast
  ultimately show "\<forall>k\<in>set (jobs ?t). \<exists>l\<in>set (jobs s). same_job l k \<and> (jobEnabled k \<longrightarrow> jobEnabled l)"
    using shape by (elim disjE) (simp_all only:)
qed

lemma other_steps_inv:
  assumes "sched_inv js P T s"
  shows "k \<noteq> Scheduled \<Longrightarrow> sched_inv js P T (triggerJob k t c ok i s)" and "sched_inv js P T (deleteJob i s)"
proof -
  have same: "\<forall>k\<in>set ks. \<exists>l\<in>set (jobs s). same_job l k \<and> (jobEnabled k \<longrightarrow> jobEnabled l)"
    if "set ks \<subseteq> set (jobs s)" for ks
    using that by (auto simp: same_job_def)
  have d: "distinct (map jobId (jobs s))" using assms by (simp add: sched_inv_def)
  show "sched_inv js P T (triggerJob k t c ok i s)" if "k \<noteq> Scheduled"
    using that d same [OF subset_refl] by (intro sched_inv_mono [OF assms]) (simp_all add: fires_trigger)
  show "sched_inv js P T (deleteJob i s)"
    using d by (intro sched_inv_mono [OF assms] same) (simp_all add: distinct_map_filter, auto simp: deleteJob_def distinct_map_filter same_job_def)
qed

text \<open>The times of the ticks do not go back, and only ticks trigger on schedule.\<close>

fun in_order :: "int \<Rightarrow> scheduler_event list \<Rightarrow> bool" where
  "in_order T [] = True"
| "in_order T (Tick e # es) = (T \<le> now e \<and> in_order (now e) es)"
| "in_order T (OnRequest k t ok i # es) = (k \<noteq> Scheduled \<and> in_order T es)"
| "in_order T (x # es) = in_order T es"

lemma steps_inv:
  assumes "sched_inv js P T s" and "in_order T es"
  shows "\<exists>T'. sched_inv js (P \<union> {e. Tick e \<in> set es}) T' (fold scheduler_step es s)"
  using assms
proof (induction es arbitrary: P T s)
  case Nil
  then show ?case by auto
next
  case (Cons x es)
  have keep: ?case if "sched_inv js P T (scheduler_step x s)" and "in_order T es" and "\<And>e. x \<noteq> Tick e"
  proof -
    have "{e. Tick e \<in> set (x # es)} = {e. Tick e \<in> set es}" using that(3) by auto
    then show ?thesis using Cons.IH [OF that(1,2)] by simp
  qed
  show ?case
  proof (cases x)
    case (Tick e)
    have "insert e P \<union> {e. Tick e \<in> set es} = P \<union> {e. Tick e \<in> set (x # es)}" using Tick by auto
    then show ?thesis
      using Cons.IH [of "insert e P" "now e" "tick e s"] tick_inv [OF Cons.prems(1)] Cons.prems(2) Tick by simp
  next
    case (Finish e n j)
    then show ?thesis using keep Cons.prems executeJob_inv by simp
  next
    case (OnRequest k t ok i)
    then show ?thesis using keep Cons.prems other_steps_inv(1) by simp
  next
    case (Delete i)
    then show ?thesis using keep Cons.prems other_steps_inv(2) by simp
  qed
qed

text \<open>C16: Whatever the store answers, however runs end and whatever users trigger or delete, as long as the times
  of the ticks do not go back: a job with a run time fires on schedule at most once and never before its time, and a cron job fires at most
  once a minute, in strictly later minutes, and only at a tick whose local calendar time its
  schedule matches.\<close>

theorem jobs_fire_once:
  assumes "distinct (map jobId js)" and "in_order T es" and "j \<in> set js"
  shows "(let fs = fires (jobId j) (fold scheduler_step es (newScheduler js)) in
    case runAt j of
      Some t \<Rightarrow> length fs \<le> 1 \<and> list_all (\<lambda>f. t \<le> f) fs
    | None \<Rightarrow> sorted_wrt (\<lambda>a b. minuteBoundary a < minuteBoundary b) fs
        \<and> list_all (\<lambda>f. justified {e. Tick e \<in> set es} j f) fs)"
proof -
  have "fires i (newScheduler js) = []" for i by (simp add: fires_def newScheduler_def)
  then have "sched_inv js {} T (newScheduler js)"
    using assms(1) by (auto simp: sched_inv_def fires_ok_def newScheduler_def same_job_def split: option.split)
  from steps_inv [OF this assms(2)] assms(3) show ?thesis
    by (auto simp: sched_inv_def fires_ok_def Let_def list_all_iff split: option.splits)
qed

text \<open>A job that is due while the store works, and schedules whose steps are small.\<close>

definition due :: "tick_env \<Rightarrow> scheduler \<Rightarrow> job \<Rightarrow> bool" where
  "due e s j \<longleftrightarrow> jobEnabled j \<and> jobUser j \<noteq> [] \<and> \<not> isWebhook j \<and> createOk e (jobId j) \<and> modifyOk e (jobId j)
     \<and> (case runAt j of
          Some t \<Rightarrow> t \<le> now e
        | None \<Rightarrow> lastCronFire s (jobId j) \<noteq> Some (minuteBoundary (now e))
            \<and> (\<exists>x. parseCron (schedule j) = Done (Inr x) \<and> matches x (calendar e (now e))))"

lemma parseCron_total: "small_expression s \<Longrightarrow> \<exists>r. parseCron s = Done r"
proof (cases "\<exists>a b c d e. Utf8.fields s = [a, b, c, d, e]")
  case False
  then show ?thesis by (auto simp: parseCron_def split: list.split)
next
  case True
  then obtain a b c d e where f: "Utf8.fields s = [a, b, c, d, e]" by blast
  assume "small_expression s"
  with f show ?thesis
    unfolding parseCron_def f list.case small_expression_def
    by (intro or_error_total parseField_total) simp_all
qed

lemma tickCron_alive: "small_expression (schedule j) \<Longrightarrow> alive (tickCron e j s) = alive s"
proof -
  assume "small_expression (schedule j)"
  then obtain r where "parseCron (schedule j) = Done r" using parseCron_total by blast
  then show ?thesis by (cases r) (simp_all add: tickCron_def)
qed

lemma tickOnce_alive: "alive (tickOnce e j s) = alive s"
  by (simp add: tickOnce_def modifyJob_def)

lemma tickJob_alive: "small_expression (schedule j) \<Longrightarrow> alive (tickJob e j s) = alive s"
  using tickCron_alive tickOnce_alive by (cases rule: tickJob_cases [of e j s]) auto

lemma tickJob_due:
  assumes "due e s j" and "distinct (map jobId (jobs s))" and "j \<in> set (jobs s)"
  shows "fires (jobId j) (tickJob e j s) = fires (jobId j) s @ [now e]"
proof -
  have f: "findJob (jobId j) s = Some j" using findJob_mem assms(2,3) by blast
  have "findJob (jobId j) (modifyJob (jobId j) (\<lambda>x. x\<lparr>jobEnabled := False\<rparr>) s) \<noteq> None"
    using assms(3) by (auto simp: findJob_def modifyJob_def find_None_iff)
  then show ?thesis
    using assms(1) f
    by (auto simp: due_def tickJob_def tickOnce_def tickCron_def fires_trigger split: option.splits)
qed

lemma tickJobs_due:
  assumes "alive s" and "list_all (\<lambda>k. small_expression (schedule k)) ks" and "distinct (map jobId (jobs s))"
    and "distinct (map jobId ks)" and "set ks \<subseteq> set (jobs s)" and "j \<in> set ks" and "due e s j"
  shows "alive (tickJobs e ks s) \<and> fires (jobId j) (tickJobs e ks s) = fires (jobId j) s @ [now e]"
  using assms
proof (induction ks arbitrary: s)
  case Nil
  then show ?case by simp
next
  case (Cons k ks)
  let ?t = "tickJob e k s"
  have t: "alive ?t" using Cons.prems tickJob_alive by simp
  have ids: "distinct (map jobId (jobs ?t))" using Cons.prems(3) by simp
  have sub: "set ks \<subseteq> set (jobs ?t)"
    using Cons.prems tickJob_others [of _ k e s] by (fastforce simp: image_iff)
  have rest: "alive (tickJobs e ms u) \<and> fires i (tickJobs e ms u) = fires i u"
    if "alive u" "list_all (\<lambda>k. small_expression (schedule k)) ms" "i \<notin> jobId ` set ms" for ms u i
    using that
  proof (induction ms arbitrary: u)
    case Nil
    then show ?case by simp
  next
    case (Cons m ms)
    then show ?case using tickJob_alive [of m e u] tickJob_frame(1) [of i m e u] by (simp add: Let_def)
  qed
  show ?case
  proof (cases "j = k")
    case True
    have "fires (jobId j) ?t = fires (jobId j) s @ [now e]"
      using tickJob_due [of e s j] Cons.prems True by simp
    then show ?thesis
      using rest [of ?t ks "jobId j"] t Cons.prems True by (simp add: Let_def)
  next
    case False
    then have j: "j \<in> set ks" "jobId j \<noteq> jobId k" using Cons.prems by (auto simp: image_iff)
    then have "due e ?t j"
      using Cons.prems(7) tickJob_frame(2) [of "jobId j" k e s] by (simp add: due_def split: option.splits)
    then show ?thesis
      using Cons.IH [of ?t] Cons.prems t ids sub j tickJob_frame(1) [of "jobId j" k e s] by (simp add: Let_def)
  qed
qed

text \<open>C17: As long as no step of a schedule is near the 64-bit limit the scheduler survives every tick, and a
  job that is due at a tick with a working store fires at that tick, exactly once, whatever the
  other jobs are.\<close>

theorem due_jobs_fire:
  assumes "alive s" and "listOk e" and "distinct (map jobId (jobs s))"
    and "list_all (\<lambda>k. small_expression (schedule k)) (jobs s)" and "j \<in> set (jobs s)" and "due e s j"
  shows "alive (tick e s) \<and> fires (jobId j) (tick e s) = fires (jobId j) s @ [now e]"
  using tickJobs_due [OF assms(1,4,3,3) subset_refl assms(5,6)] assms(1,2) by (simp add: tick_def)

text \<open>One schedule with a step near the 64-bit limit stops the scheduler for everyone: the tick that
  reaches its job panics, the goroutine is over, and no later tick fires any job.\<close>

theorem one_schedule_stops_all:
  assumes "jobs s = before @ j # after" and "schedule j = overflowingSchedule" and "jobEnabled j"
    and "jobUser j \<noteq> []" and "\<not> isWebhook j" and "runAt j = None" and "alive s" and "listOk e"
  shows "\<not> alive (tick e s) \<and> tick e' (tick e s) = tick e s"
proof -
  have dead: "\<not> alive (tickJobs e (ks @ j # after) u)" for ks u
  proof (induction ks arbitrary: u)
    case Nil
    then show ?case
      using assms(2-6) overflowing_schedule_panics by (simp add: tickJob_def tickCron_def)
  next
    case (Cons k ks)
    then show ?case by (simp add: Let_def)
  qed
  then have "\<not> alive (tick e s)" using assms(1,7,8) by (simp add: tick_def)
  then show ?thesis by (simp add: tick_def)
qed

definition reminder :: job where
  "reminder = \<lparr>jobId = ''r'', jobUser = ''u'', jobEnabled = True, isWebhook = False, runAt = Some 5,
     schedule = [], oneShot = True, jobAgent = ''a'', jobConversation = ''c'', lastStatusOk = None\<rparr>"

definition attack :: job where
  "attack = reminder\<lparr>jobId := ''x'', runAt := None, schedule := overflowingSchedule\<rparr>"

definition sampleTick :: tick_env where
  "sampleTick = \<lparr>now = 7, clock = (\<lambda>i. 8), calendar = (\<lambda>t. \<lparr>minute = 0, hour = 0, day = 1, month = 1, weekday = 4\<rparr>),
     listOk = True, modifyOk = (\<lambda>_. True), createOk = (\<lambda>_. True)\<rparr>"

lemma jobs_fire_once_witness:
  "length (fires ''r'' (fold scheduler_step [Tick sampleTick, Tick sampleTick] (newScheduler [reminder]))) \<le> 1"
  using jobs_fire_once [of "[reminder]" 0 "[Tick sampleTick, Tick sampleTick]" reminder]
  by (simp add: reminder_def sampleTick_def Let_def)

lemma due_jobs_fire_witness:
  "fires ''r'' (tick sampleTick (newScheduler [reminder])) = [7]"
proof -
  have "small_expression (schedule reminder)"
    by (simp add: reminder_def small_expression_def Utf8.fields_def)
  moreover have "due sampleTick (newScheduler [reminder]) reminder"
    by (simp add: due_def reminder_def sampleTick_def)
  ultimately have "fires (jobId reminder) (tick sampleTick (newScheduler [reminder])) =
      fires (jobId reminder) (newScheduler [reminder]) @ [now sampleTick]"
    using due_jobs_fire [of "newScheduler [reminder]" sampleTick reminder]
    by (simp add: newScheduler_def sampleTick_def)
  then show ?thesis by (simp add: reminder_def sampleTick_def newScheduler_def fires_def)
qed

lemma one_schedule_stops_all_witness:
  "\<not> alive (tick sampleTick (newScheduler [attack, reminder]))"
  using one_schedule_stops_all [of "newScheduler [attack, reminder]" "[]" attack "[reminder]" sampleTick sampleTick]
  by (simp add: newScheduler_def attack_def reminder_def sampleTick_def)

end
