(* ===== verification/TextSplit.thy ===== *)
theory TextSplit
  imports GoStrings
begin

text \<open>
  Cutting text for chat platforms: \<open>internal/util/textsplit/textsplit.go\<close> and the loops of the
  Telegram and Discord bots (\<open>sendChunked\<close> in \<open>internal/channels/*/bot.go\<close>) that send a long text
  chunk by chunk. The send loop is a partial function: None is a loop that does not end.
\<close>

subsection \<open>Cutting\<close>

fun runeCut :: "string \<Rightarrow> nat \<Rightarrow> nat" where
  "runeCut t 0 = 0"
| "runeCut t (Suc n) = (if rune_start (t ! Suc n) then Suc n else runeCut t n)"

definition truncateUtf8 :: "string \<Rightarrow> nat \<Rightarrow> string" where
  "truncateUtf8 t maximum = (if length t \<le> maximum then t else take (runeCut t maximum) t)"

text \<open>The last newline at \<open>n - 1\<close> or before, not below \<open>lowest\<close>.\<close>

fun newlineCut :: "string \<Rightarrow> nat \<Rightarrow> nat \<Rightarrow> nat option" where
  "newlineCut w lowest 0 = None"
| "newlineCut w lowest (Suc n) =
     (if n < lowest then None else if w ! n = CHR 0x0A then Some n else newlineCut w lowest n)"

definition chunkPoint :: "string \<Rightarrow> nat \<Rightarrow> nat" where
  "chunkPoint t maximum =
     (if length t \<le> maximum then length t
      else (let window = truncateUtf8 t maximum in
            case newlineCut window (maximum div 2) (length window) of
              None \<Rightarrow> length window
            | Some i \<Rightarrow> i))"

text \<open>
  \<open>sendChunked\<close>: \<open>accepted\<close> says of which chunks the platform accepts (for Telegram, in one of the
  two parse modes). The result lists the chunks that were sent.
\<close>

partial_function (option) sendChunked :: "nat \<Rightarrow> (string \<Rightarrow> bool) \<Rightarrow> string \<Rightarrow> string list option" where
  [code]: "sendChunked maximum accepted t =
     (if t = [] then Some []
      else (let chunk = take (chunkPoint t maximum) t in
            if \<not> accepted chunk then Some []
            else Option.bind (sendChunked maximum accepted (drop (length chunk) t)) (\<lambda>cs. Some (chunk # cs))))"

subsection \<open>Rune boundaries\<close>

lemma encode_rune_shape:
  "\<exists>c cs. encode_rune r = c # cs \<and> rune_start c \<and> list_all is_cont cs \<and> length cs \<le> 3"
proof -
  have shape: "\<exists>c cs. encode_valid q = c # cs \<and> rune_start c \<and> list_all is_cont cs \<and> length cs \<le> 3"
    if q: "valid_rune q" for q
  proof -
    have lim: "q < 1114112" using q by (auto simp: valid_rune_def)
    have m: "128 + x mod 64 < 192" for x :: nat by simp
    consider "q < 128" | "128 \<le> q" "q < 2048" | "2048 \<le> q" "q < 65536" | "65536 \<le> q" by linarith
    then show ?thesis
    proof cases
      case 1
      then show ?thesis by (simp add: encode_valid_def rune_start_def is_cont_def)
    next
      case 2
      then have "q div 64 < 32" by simp
      then show ?thesis using 2 by (simp add: encode_valid_def rune_start_def is_cont_def)
    next
      case 3
      then have "q div 4096 < 16" by simp
      then show ?thesis using 3 by (simp add: encode_valid_def rune_start_def is_cont_def)
    next
      case 4
      then have "q div 262144 < 8" using lim by simp
      then show ?thesis using 4 by (simp add: encode_valid_def rune_start_def is_cont_def)
    qed
  qed
  have "valid_rune rune_error" by (simp add: valid_rune_def rune_error_def)
  then show ?thesis using shape by (simp add: encode_rune_def)
qed

lemma cut_at_boundary:
  assumes "k < length (string_of_runes rs) \<Longrightarrow> rune_start (string_of_runes rs ! k)"
  shows "\<exists>j. take k (string_of_runes rs) = string_of_runes (take j rs)
    \<and> drop k (string_of_runes rs) = string_of_runes (drop j rs)"
  using assms
proof (induction rs arbitrary: k)
  case Nil
  then show ?case by (simp add: string_of_runes_def)
next
  case (Cons r rs)
  obtain c cs where c: "encode_rune r = c # cs" "rune_start c" "list_all is_cont cs"
    using encode_rune_shape by blast
  let ?s = "string_of_runes rs" and ?n = "length (encode_rune r)"
  consider "k = 0" | "0 < k" "k < ?n" | "?n \<le> k" by linarith
  then show ?case
  proof cases
    case 1
    then show ?thesis by (intro exI [of _ 0]) (simp add: string_of_runes_def)
  next
    case 2
    then have "string_of_runes (r # rs) ! k = cs ! (k - 1)"
      by (cases k) (auto simp: string_of_runes_Cons c nth_append)
    moreover have "is_cont (cs ! (k - 1))" using 2 c by (auto simp: list_all_length)
    ultimately have False using Cons.prems 2 by (simp add: string_of_runes_Cons rune_start_def)
    then show ?thesis ..
  next
    case 3
    have "k - ?n < length ?s \<Longrightarrow> rune_start (?s ! (k - ?n))"
      using Cons.prems 3 by (auto simp: string_of_runes_Cons nth_append)
    from Cons.IH [OF this] obtain j where "take (k - ?n) ?s = string_of_runes (take j rs)"
      "drop (k - ?n) ?s = string_of_runes (drop j rs)" by blast
    then show ?thesis using 3 by (intro exI [of _ "Suc j"]) (simp add: string_of_runes_Cons)
  qed
qed

lemma runeCut_le: "runeCut t n \<le> n"
  by (induction n) (auto simp: le_SucI)

lemma runeCut_start: "t \<noteq> [] \<Longrightarrow> rune_start (t ! 0) \<Longrightarrow> rune_start (t ! runeCut t n)"
  by (induction n) auto

lemma start_of_rest: "rs \<noteq> [] \<Longrightarrow> string_of_runes rs \<noteq> [] \<and> rune_start (string_of_runes rs ! 0)"
proof -
  assume "rs \<noteq> []"
  then obtain r rs' where "rs = r # rs'" by (cases rs) auto
  moreover obtain c cs where "encode_rune r = c # cs" "rune_start c" using encode_rune_shape by blast
  ultimately show ?thesis by (simp add: string_of_runes_Cons)
qed

text \<open>No four bytes in a row are all continuation bytes.\<close>

lemma no_four_conts:
  assumes "m + 3 < length (string_of_runes rs)"
  shows "\<exists>i<4. rune_start (string_of_runes rs ! (m + i))"
  using assms
proof (induction rs arbitrary: m)
  case Nil
  then show ?case by (simp add: string_of_runes_def)
next
  case (Cons r rs)
  obtain c cs where c: "encode_rune r = c # cs" "rune_start c" "length cs \<le> 3"
    using encode_rune_shape by blast
  let ?n = "length (encode_rune r)"
  consider "m = 0" | "0 < m" "m < ?n" | "?n \<le> m" by linarith
  then show ?case
  proof cases
    case 1
    then show ?thesis using c by (intro exI [of _ 0]) (simp add: string_of_runes_Cons)
  next
    case 2
    then have "rs \<noteq> []" using Cons.prems c by (auto simp: string_of_runes_Cons string_of_runes_def)
    then have "rune_start (string_of_runes (r # rs) ! (m + (?n - m)))"
      using start_of_rest 2 by (simp add: string_of_runes_Cons nth_append)
    moreover have "?n - m < 4" using 2 c by simp
    ultimately show ?thesis by blast
  next
    case 3
    have "m - ?n + 3 < length (string_of_runes rs)" using Cons.prems 3 by (simp add: string_of_runes_Cons)
    from Cons.IH [OF this] obtain i where "i < 4" "rune_start (string_of_runes rs ! (m - ?n + i))" by blast
    then show ?thesis using 3 by (intro exI [of _ i]) (simp add: string_of_runes_Cons nth_append)
  qed
qed

lemma runeCut_conts: "runeCut t n < m \<Longrightarrow> m \<le> n \<Longrightarrow> \<not> rune_start (t ! m)"
  by (induction n) (auto simp: le_Suc_eq split: if_splits)

lemma runeCut_near:
  assumes "n < length (string_of_runes rs)"
  shows "n < runeCut (string_of_runes rs) n + 4"
proof (rule ccontr)
  let ?t = "string_of_runes rs"
  assume far: "\<not> n < runeCut ?t n + 4"
  then have "(runeCut ?t n + 1) + 3 < length ?t" using assms by simp
  then obtain i where i: "i < 4" "rune_start (?t ! (runeCut ?t n + 1 + i))" using no_four_conts by blast
  have "\<not> rune_start (?t ! (runeCut ?t n + 1 + i))" by (rule runeCut_conts [where n = n]) (use far i(1) in linarith)+
  with i(2) show False by simp
qed

lemma newlineCut_Some: "newlineCut w lowest n = Some i \<Longrightarrow> lowest \<le> i \<and> i < n \<and> w ! i = CHR 0x0A"
  by (induction n) (auto split: if_splits)

lemma newline_start: "rune_start (CHR 0x0A)"
  by (simp add: rune_start_def is_cont_def)

text \<open>The cut: inside the limit, at a boundary, and behind at least half the limit when anything is left.\<close>

lemma chunkPoint_cut:
  assumes "t = string_of_runes rs" and "t \<noteq> []" and "4 \<le> maximum"
  shows "0 < chunkPoint t maximum \<and> chunkPoint t maximum \<le> maximum \<and> chunkPoint t maximum \<le> length t
    \<and> (chunkPoint t maximum < length t \<longrightarrow> rune_start (t ! chunkPoint t maximum)
         \<and> min (maximum div 2) (maximum - 3) \<le> chunkPoint t maximum)"
proof (cases "length t \<le> maximum")
  case True
  then show ?thesis using assms(2) by (simp add: chunkPoint_def)
next
  case False
  let ?k = "runeCut t maximum"
  have k: "?k \<le> maximum" "maximum < ?k + 4" "rune_start (t ! ?k)"
    using runeCut_le runeCut_near [of maximum rs] False assms(1,2) start_of_rest [of rs] runeCut_start [of t maximum]
    by (auto simp: string_of_runes_def)
  have w: "truncateUtf8 t maximum = take ?k t" "length (take ?k t) = ?k"
    using False k(1) by (simp_all add: truncateUtf8_def)
  show ?thesis
  proof (cases "newlineCut (take ?k t) (maximum div 2) ?k")
    case None
    then show ?thesis using False k w assms(3) by (simp add: chunkPoint_def Let_def)
  next
    case (Some i)
    then have i: "maximum div 2 \<le> i" "i < ?k" "t ! i = CHR 0x0A"
      using newlineCut_Some [of "take ?k t"] by fastforce+
    have "2 \<le> maximum div 2" using assms(3) by simp
    then show ?thesis
      using False k w i Some newline_start by (simp add: chunkPoint_def Let_def)
  qed
qed

text \<open>C18: A long text of valid UTF-8 is sent in order and completely, or up to the first chunk the platform
  refuses, and the loop always ends: every chunk is non-empty, valid UTF-8 and within the limit of
  the platform, and every chunk but the last fills at least half of it.\<close>

theorem chunks_are_sent_in_full:
  assumes "valid_utf8 t" and "6 \<le> maximum"
  shows "\<exists>chunks rest. sendChunked maximum accepted t = Some chunks \<and> t = concat chunks @ rest
    \<and> (rest \<noteq> [] \<longrightarrow> \<not> accepted (take (chunkPoint rest maximum) rest))
    \<and> list_all (\<lambda>c. c \<noteq> [] \<and> length c \<le> maximum \<and> valid_utf8 c \<and> accepted c) chunks
    \<and> list_all (\<lambda>c. maximum div 2 \<le> length c) (butlast chunks)"
proof -
  have half: "min (maximum div 2) (maximum - 3) = maximum div 2" using assms(2) by simp
  define rs where "rs = runes t"
  have "t = string_of_runes rs" using assms(1) by (simp add: valid_utf8_def rs_def)
  then show ?thesis
  proof (induction "length t" arbitrary: t rs rule: less_induct)
    case less
    show ?case
    proof (cases "t = []")
      case True
      then show ?thesis by (intro exI [of _ "[]"]) (simp add: sendChunked.simps)
    next
      case False
      let ?k = "chunkPoint t maximum"
      let ?c = "take ?k t"
      have k: "0 < ?k" "?k \<le> maximum" "?k \<le> length t" "?k < length t \<Longrightarrow> rune_start (t ! ?k)"
        "?k < length t \<Longrightarrow> maximum div 2 \<le> ?k"
        using chunkPoint_cut [OF less.prems False, of maximum] assms(2) half by auto
      obtain j where j: "?c = string_of_runes (take j rs)" "drop ?k t = string_of_runes (drop j rs)"
        using cut_at_boundary [of ?k rs] k(4) less.prems by blast
      have len: "length ?c = ?k" using k(3) by simp
      show ?thesis
      proof (cases "accepted ?c")
        case no: False
        then show ?thesis using False by (intro exI [of _ "[]"] exI [of _ t]) (simp add: sendChunked.simps Let_def)
      next
        case True
        have "length (drop ?k t) < length t" using k(1) False by simp
        from less.hyps [OF this j(2)] obtain cs rest where cs:
          "sendChunked maximum accepted (drop ?k t) = Some cs" "drop ?k t = concat cs @ rest"
          "rest \<noteq> [] \<longrightarrow> \<not> accepted (take (chunkPoint rest maximum) rest)"
          "list_all (\<lambda>c. c \<noteq> [] \<and> length c \<le> maximum \<and> valid_utf8 c \<and> accepted c) cs"
          "list_all (\<lambda>c. maximum div 2 \<le> length c) (butlast cs)" by blast
        have "sendChunked maximum accepted t = Some (?c # cs)"
          using False True cs(1) len by (subst sendChunked.simps) (simp add: Let_def)
        moreover have "t = concat (?c # cs) @ rest"
          using cs(2) append_take_drop_id [of ?k t] by simp
        moreover have "valid_utf8 ?c" using j(1) valid_string_of_runes by simp
        moreover have "cs \<noteq> [] \<Longrightarrow> maximum div 2 \<le> length ?c"
          using k(3,5) cs(2,4) len by (cases "?k = length t") (auto simp: neq_Nil_conv)
        ultimately show ?thesis
          using cs(3-5) k(1,2) len False True by (intro exI [of _ "?c # cs"] exI [of _ rest]) auto
      qed
    qed
  qed
qed

lemma chunks_are_sent_in_full_witness:
  "\<exists>chunks. sendChunked 2000 (\<lambda>_. True) (replicate 5000 (CHR ''a'')) = Some chunks"
proof -
  have letter: "encode_rune 97 = ''a''"
    by (simp add: encode_rune_def encode_valid_def valid_rune_def char_of_eq_iff)
  have "replicate n (CHR ''a'') = string_of_runes (replicate n 97)" for n
    using letter by (induction n) (simp_all add: string_of_runes_def)
  then have "valid_utf8 (replicate 5000 (CHR ''a''))" using valid_string_of_runes by metis
  from chunks_are_sent_in_full [OF this, of 2000 "\<lambda>_. True"] show ?thesis by auto
qed

end
