(* ===== verification/VoiceFrames.thy ===== *)
theory VoiceFrames
  imports Prelude "HOL-Library.Word"
begin

text \<open>
  The audio formats of voice calls: the binary frames of the websocket
  (\<open>internal/voice/binary.go\<close>) and the WAV container (\<open>internal/voice/audio.go\<close>). Bytes are 8-bit
  words; the integers of the package \<open>encoding/binary\<close> are read and written byte by byte.
\<close>

unbundle bit_operations_syntax

type_synonym bytes = "8 word list"

subsection \<open>Integers as bytes\<close>

definition be_nat :: "bytes \<Rightarrow> nat" where
  "be_nat bs = foldl (\<lambda>acc b. 256 * acc + unat b) 0 bs"

fun be_bytes :: "nat \<Rightarrow> nat \<Rightarrow> bytes" where
  "be_bytes 0 n = []"
| "be_bytes (Suc k) n = be_bytes k (n div 256) @ [of_nat n]"

definition le_nat :: "bytes \<Rightarrow> nat" where
  "le_nat bs = be_nat (rev bs)"

definition le_bytes :: "nat \<Rightarrow> nat \<Rightarrow> bytes" where
  "le_bytes k n = rev (be_bytes k n)"

lemma be_nat_simps [simp]: "be_nat [] = 0" "be_nat (bs @ [b]) = 256 * be_nat bs + unat b"
  by (simp_all add: be_nat_def)

lemma length_be_bytes [simp]: "length (be_bytes k n) = k"
  by (induction k arbitrary: n) simp_all

lemma length_le_bytes [simp]: "length (le_bytes k n) = k"
  by (simp add: le_bytes_def)

lemma unat_byte: "unat (of_nat n :: 8 word) = n mod 256"
  by (simp add: unat_of_nat)

lemma be_nat_be_bytes [simp]: "be_nat (be_bytes k n) = n mod 256 ^ k"
proof (induction k arbitrary: n)
  case 0
  then show ?case by simp
next
  case (Suc k)
  then show ?case by (simp add: unat_byte mod_mult2_eq)
qed

lemma be_nat_less: "be_nat bs < 256 ^ length bs"
proof (induction bs rule: rev_induct)
  case Nil
  then show ?case by simp
next
  case (snoc b bs)
  have "unat b < 256" using unsigned_less [of b, where ?'a = nat] by simp
  with snoc show ?case by simp
qed

lemma be_bytes_be_nat [simp]: "be_bytes (length bs) (be_nat bs) = bs"
proof (induction bs rule: rev_induct)
  case Nil
  then show ?case by simp
next
  case (snoc b bs)
  have b: "unat b < 256" using unsigned_less [of b, where ?'a = nat] by simp
  then have "(256 * be_nat bs + unat b) div 256 = be_nat bs" by simp
  moreover have "(of_nat (256 * be_nat bs + unat b) :: 8 word) = b"
  proof -
    have "unat (of_nat (256 * be_nat bs + unat b) :: 8 word) = unat b"
      using b by (simp only: unat_byte) simp
    then show ?thesis by (simp only: word_unat_eq_iff)
  qed
  ultimately show ?case using snoc by simp
qed

lemma le_nat_le_bytes [simp]: "le_nat (le_bytes k n) = n mod 256 ^ k"
  by (simp add: le_nat_def le_bytes_def)

subsection \<open>Frames\<close>

definition BinaryMagic :: "8 word" where "BinaryMagic = 0xA1"
definition FrameTypeAudioIn :: "8 word" where "FrameTypeAudioIn = 1"
definition FrameTypeAudioOut :: "8 word" where "FrameTypeAudioOut = 2"
definition FrameTypeFlush :: "8 word" where "FrameTypeFlush = 3"
definition BinaryHeaderSize :: nat where "BinaryHeaderSize = 18"
definition maxUint48 :: "64 word" where "maxUint48 = 2 ^ 48 - 1"

lemmas frame_constants =
  BinaryMagic_def FrameTypeAudioIn_def FrameTypeAudioOut_def FrameTypeFlush_def BinaryHeaderSize_def

record audio_frame =
  frameType :: "8 word"
  frameSeq :: "64 word"
  captureTimestamp :: "64 word"
  durationMs :: "16 word"
  frameData :: bytes

datatype frame_error = FrameTooShort | InvalidMagic "8 word" | InvalidFrameType "8 word" | FlushWithPayload

definition parseBinaryAudioFrame :: "bytes \<Rightarrow> frame_error + audio_frame" where
  "parseBinaryAudioFrame raw =
     (if length raw < BinaryHeaderSize then Inl FrameTooShort
      else if raw ! 0 \<noteq> BinaryMagic then Inl (InvalidMagic (raw ! 0))
      else if raw ! 1 \<noteq> FrameTypeAudioIn \<and> raw ! 1 \<noteq> FrameTypeAudioOut \<and> raw ! 1 \<noteq> FrameTypeFlush
        then Inl (InvalidFrameType (raw ! 1))
      else
        (let frame = \<lparr> frameType = raw ! 1,
              frameSeq = of_nat (be_nat ([0, 0] @ take 6 (drop 2 raw))),
              captureTimestamp = of_nat (be_nat (take 8 (drop 8 raw))),
              durationMs = of_nat (be_nat (take 2 (drop 16 raw))),
              frameData = drop 18 raw \<rparr> in
         if frameType frame = FrameTypeFlush \<and> frameData frame \<noteq> [] then Inl FlushWithPayload
         else Inr frame))"

text \<open>What \<open>EncodeBinaryAudioFrame\<close> does to its argument before it writes it.\<close>

definition normal_frame :: "audio_frame \<Rightarrow> audio_frame" where
  "normal_frame f =
     (let f = (if frameSeq f > maxUint48 then f\<lparr> frameSeq := frameSeq f AND maxUint48 \<rparr> else f) in
      if frameType f = FrameTypeFlush then f\<lparr> frameData := [], durationMs := 0 \<rparr> else f)"

definition encodeBinaryAudioFrame :: "audio_frame \<Rightarrow> bytes" where
  "encodeBinaryAudioFrame frame =
     (let f = normal_frame frame in
      [BinaryMagic, frameType f]
      @ drop 2 (be_bytes 8 (unat (frameSeq f)))
      @ be_bytes 8 (unat (captureTimestamp f))
      @ be_bytes 2 (unat (durationMs f))
      @ frameData f)"

text \<open>The shortest turn worth a transcription, about 200 ms of audio.\<close>

definition minCommittedTurnBytes :: nat where "minCommittedTurnBytes = 6400"

definition known_type :: "8 word \<Rightarrow> bool" where
  "known_type t \<longleftrightarrow> t = FrameTypeAudioIn \<or> t = FrameTypeAudioOut \<or> t = FrameTypeFlush"

lemma be_nat_zeros: "be_nat ([0, 0] @ bs) = be_nat bs"
  by (simp add: be_nat_def)

lemma be_bytes_small: "n < 256 ^ k \<Longrightarrow> be_bytes (Suc (Suc k)) n = [0, 0] @ be_bytes k n"
proof (induction k arbitrary: n)
  case 0
  then show ?case by simp
next
  case (Suc k)
  then have "n div 256 < 256 ^ k" by (simp add: less_mult_imp_div_less)
  from Suc.IH [OF this] show ?case by simp
qed

lemma and_max48: "(w :: 64 word) AND maxUint48 = take_bit 48 w"
  by (simp add: take_bit_eq_mask mask_eq_exp_minus_1 maxUint48_def)

lemma unat_take_48: "unat (take_bit 48 (w :: 64 word)) = unat w mod 2 ^ 48"
  using take_bit_eq_mod [of 48 "unat w"] by (simp add: unsigned_take_bit_eq)

lemma normal_seq: "unat (frameSeq (normal_frame f)) = unat (frameSeq f) mod 2 ^ 48"
proof (cases "frameSeq f > maxUint48")
  case True
  then have "frameSeq (normal_frame f) = take_bit 48 (frameSeq f)"
    by (simp add: normal_frame_def and_max48 Let_def)
  then show ?thesis by (simp only: unat_take_48)
next
  case False
  then have "unat (frameSeq f) \<le> unat maxUint48" by (simp add: word_less_nat_alt)
  then have "unat (frameSeq f) < 2 ^ 48" by (simp add: maxUint48_def)
  moreover have "frameSeq (normal_frame f) = frameSeq f" using False by (simp add: normal_frame_def Let_def)
  ultimately show ?thesis by simp
qed

lemma normal_fields [simp]:
  "frameType (normal_frame f) = frameType f"
  "captureTimestamp (normal_frame f) = captureTimestamp f"
  "frameType f = FrameTypeFlush \<Longrightarrow> frameData (normal_frame f) = []"
  by (simp_all add: normal_frame_def Let_def)

lemma seq_bytes: "n < 2 ^ 48 \<Longrightarrow> drop 2 (be_bytes 8 n) = be_bytes 6 n"
  using be_bytes_small [of n 6] by simp

lemma encode_layout:
  "encodeBinaryAudioFrame f =
     [BinaryMagic, frameType f] @ be_bytes 6 (unat (frameSeq (normal_frame f)))
     @ be_bytes 8 (unat (captureTimestamp f)) @ be_bytes 2 (unat (durationMs (normal_frame f)))
     @ frameData (normal_frame f)"
proof -
  have "unat (frameSeq (normal_frame f)) < 2 ^ 48" unfolding normal_seq by simp
  from seq_bytes [OF this] show ?thesis by (simp add: encodeBinaryAudioFrame_def Let_def)
qed

lemma parse_layout:
  assumes "length s = 6" "length c = 8" "length d = 2"
  shows "parseBinaryAudioFrame ([BinaryMagic, t] @ s @ c @ d @ payload) =
    (if \<not> known_type t then Inl (InvalidFrameType t)
     else if t = FrameTypeFlush \<and> payload \<noteq> [] then Inl FlushWithPayload
     else Inr \<lparr> frameType = t, frameSeq = of_nat (be_nat s), captureTimestamp = of_nat (be_nat c),
       durationMs = of_nat (be_nat d), frameData = payload \<rparr>)"
  using assms
  by (simp add: parseBinaryAudioFrame_def known_type_def BinaryHeaderSize_def Let_def be_nat_zeros [simplified])

lemma drop_split: "drop n xs = take k (drop n xs) @ drop (n + k) xs"
  by (metis append_take_drop_id drop_drop add.commute)

lemma parsed_layout:
  assumes "parseBinaryAudioFrame raw = Inr f"
  shows "\<exists>s c d. raw = [BinaryMagic, frameType f] @ s @ c @ d @ frameData f
    \<and> length s = 6 \<and> length c = 8 \<and> length d = 2"
proof -
  have len: "18 \<le> length raw" and magic: "raw ! 0 = BinaryMagic"
    and f: "frameType f = raw ! 1" "frameData f = drop 18 raw"
    using assms by (auto simp: parseBinaryAudioFrame_def BinaryHeaderSize_def Let_def split: if_splits)
  have two: "take 2 raw = [raw ! 0, raw ! 1]"
    using len by (intro nth_equalityI) (auto simp: less_Suc_eq nth_Cons' numeral_2_eq_2)
  have "raw = take 2 raw @ take 6 (drop 2 raw) @ take 8 (drop 8 raw) @ take 2 (drop 16 raw) @ drop 18 raw"
    using drop_split [of 2 raw 6] drop_split [of 8 raw 8] drop_split [of 16 raw 2] by simp
  then have "raw = [BinaryMagic, frameType f] @ take 6 (drop 2 raw) @ take 8 (drop 8 raw)
      @ take 2 (drop 16 raw) @ frameData f"
    by (simp only: two magic f)
  then show ?thesis using len
    by (intro exI [of _ "take 6 (drop 2 raw)"] exI [of _ "take 8 (drop 8 raw)"] exI [of _ "take 2 (drop 16 raw)"])
      simp
qed

lemma be_bytes_of_word:
  fixes w :: "'a::len word"
  assumes "w = of_nat (be_nat bs)" "256 ^ length bs \<le> (2 :: nat) ^ LENGTH('a)"
  shows "be_bytes (length bs) (unat w) = bs"
proof -
  have "be_nat bs < 2 ^ LENGTH('a)" using be_nat_less [of bs] assms(2) by linarith
  then have "unat w = be_nat bs" using assms(1) by (simp add: unat_of_nat)
  then show ?thesis by simp
qed

lemma parsed_values:
  assumes "parseBinaryAudioFrame ([BinaryMagic, t] @ s @ c @ d @ payload) = Inr f"
    and "length s = 6" "length c = 8" "length d = 2"
  shows "be_bytes 6 (unat (frameSeq f)) = s" "be_bytes 8 (unat (captureTimestamp f)) = c"
    "be_bytes 2 (unat (durationMs f)) = d" "frameSeq f \<le> maxUint48" "frameData f = payload"
    "frameType f = t" "t = FrameTypeFlush \<longrightarrow> payload = []"
proof -
  have f: "f = \<lparr> frameType = t, frameSeq = of_nat (be_nat s), captureTimestamp = of_nat (be_nat c),
       durationMs = of_nat (be_nat d), frameData = payload \<rparr>"
    and flush: "\<not> (t = FrameTypeFlush \<and> payload \<noteq> [])"
    using assms(1) [unfolded parse_layout [OF assms(2-4)]] by (simp_all split: if_splits)
  show "be_bytes 6 (unat (frameSeq f)) = s"
    using be_bytes_of_word [of "frameSeq f" s] by (simp add: f assms(2))
  show "be_bytes 8 (unat (captureTimestamp f)) = c"
    using be_bytes_of_word [of "captureTimestamp f" c] by (simp add: f assms(3))
  show "be_bytes 2 (unat (durationMs f)) = d"
    using be_bytes_of_word [of "durationMs f" d] by (simp add: f assms(4))
  have "be_nat s < 2 ^ 48" using be_nat_less [of s] assms(2) by simp
  then show "frameSeq f \<le> maxUint48" by (simp add: f word_le_nat_alt unat_of_nat maxUint48_def)
  show "frameData f = payload" "frameType f = t" "t = FrameTypeFlush \<longrightarrow> payload = []"
    using flush by (auto simp: f)
qed

lemma parse_encode:
  "parseBinaryAudioFrame (encodeBinaryAudioFrame f) =
     (if known_type (frameType f) then Inr (normal_frame f) else Inl (InvalidFrameType (frameType f)))"
proof -
  have "unat (frameSeq (normal_frame f)) mod 256 ^ 6 = unat (frameSeq (normal_frame f))"
    by (simp add: normal_seq)
  then have "(of_nat (unat (frameSeq (normal_frame f)) mod 256 ^ 6) :: 64 word) = frameSeq (normal_frame f)"
    by simp
  moreover have "unat (captureTimestamp f) mod 256 ^ 8 = unat (captureTimestamp f)"
    using unsigned_less [of "captureTimestamp f", where ?'a = nat] by simp
  moreover have "unat (durationMs (normal_frame f)) mod 256 ^ 2 = unat (durationMs (normal_frame f))"
    using unsigned_less [of "durationMs (normal_frame f)", where ?'a = nat] by simp
  ultimately show ?thesis
    unfolding encode_layout by (subst parse_layout) (auto intro!: audio_frame.equality)
qed

lemma encode_parse:
  assumes "parseBinaryAudioFrame raw = Inr f"
  shows "encodeBinaryAudioFrame f = (if frameType f = FrameTypeFlush then take 16 raw @ [0, 0] else raw)"
proof -
  obtain s c d where raw: "raw = [BinaryMagic, frameType f] @ s @ c @ d @ frameData f"
    and len: "length s = 6" "length c = 8" "length d = 2"
    using parsed_layout [OF assms] by blast
  note v = parsed_values [OF assms [unfolded raw] len]
  have seq: "frameSeq (normal_frame f) = frameSeq f"
    using v(4) by (auto simp: normal_frame_def Let_def dest: leD)
  show ?thesis
  proof (cases "frameType f = FrameTypeFlush")
    case True
    then have "durationMs (normal_frame f) = 0" by (simp add: normal_frame_def Let_def)
    moreover have "be_bytes 2 0 = [0, 0]" by (simp add: numeral_2_eq_2)
    ultimately show ?thesis
      using True v len raw by (simp add: encode_layout seq)
  next
    case False
    then have "durationMs (normal_frame f) = durationMs f" "frameData (normal_frame f) = frameData f"
      by (simp_all add: normal_frame_def Let_def)
    then show ?thesis using False v raw by (simp add: encode_layout seq)
  qed
qed

text \<open>A frame that is encoded and parsed comes back as it is, its sequence number cut to 48 bits and a
  flush frame without payload and duration; an unknown type is refused. A frame that was parsed and
  is encoded again gives back the same bytes, but for the duration of a flush frame.\<close>

theorem frames_round_trip:
  "parseBinaryAudioFrame (encodeBinaryAudioFrame frame) =
     (if known_type (frameType frame) then Inr (normal_frame frame) else Inl (InvalidFrameType (frameType frame)))
   \<and> unat (frameSeq (normal_frame frame)) = unat (frameSeq frame) mod 2 ^ 48
   \<and> (parseBinaryAudioFrame raw = Inr f \<longrightarrow>
        encodeBinaryAudioFrame f = (if frameType f = FrameTypeFlush then take 16 raw @ [0, 0] else raw))"
  using parse_encode normal_seq encode_parse by blast

lemma frames_round_trip_witness:
  "let raw = [0xA1, 1, 0, 0, 0, 0, 1, 2, 0, 0, 0, 0, 0, 0, 0, 9, 0, 20, 7, 7] in
   \<exists>f. parseBinaryAudioFrame raw = Inr f \<and> encodeBinaryAudioFrame f = raw \<and> frameSeq f = 258"
proof -
  let ?raw = "[0xA1, 1, 0, 0, 0, 0, 1, 2, 0, 0, 0, 0, 0, 0, 0, 9, 0, 20, 7, 7] :: bytes"
  obtain f where f: "parseBinaryAudioFrame ?raw = Inr f" "frameType f \<noteq> FrameTypeFlush" "frameSeq f = 258"
    by (simp add: parseBinaryAudioFrame_def frame_constants be_nat_def Let_def)
  then show ?thesis using frames_round_trip [of undefined ?raw f] by (simp add: Let_def)
qed

end
