(* ===== verification/VoiceWav.thy ===== *)
theory VoiceWav
  imports VoiceFrames "HOL-Library.Sublist" "HOL-Library.Signed_Division"
begin

text \<open>
  WAV files in and out of voice calls, \<open>internal/voice/audio.go\<close>: \<open>pcmToWav\<close> wraps a captured turn for
  transcription, \<open>wavToPcm16Le\<close> unwraps what a speech service sends, by walking the chunks and, when
  that finds no audio, by searching for the next \<open>data\<close> marker. A slice out of range panics.
\<close>

subsection \<open>Slices and marks\<close>

definition slice :: "bytes \<Rightarrow> nat \<Rightarrow> nat \<Rightarrow> bytes outcome" where
  "slice bs a b = (if a \<le> b \<and> b \<le> length bs then Done (take (b - a) (drop a bs)) else Panics)"

definition put_le :: "nat \<Rightarrow> int \<Rightarrow> bytes" where
  "put_le k x = le_bytes k (nat (x mod 256 ^ k))"

definition mark_riff :: bytes where "mark_riff = [0x52, 0x49, 0x46, 0x46]"
definition mark_wave :: bytes where "mark_wave = [0x57, 0x41, 0x56, 0x45]"
definition mark_fmt :: bytes where "mark_fmt = [0x66, 0x6D, 0x74, 0x20]"
definition mark_data :: bytes where "mark_data = [0x64, 0x61, 0x74, 0x61]"

fun index_bytes :: "bytes \<Rightarrow> bytes \<Rightarrow> nat option" where
  "index_bytes [] sep = (if sep = [] then Some 0 else None)"
| "index_bytes (b # bs) sep =
     (if take (length sep) (b # bs) = sep then Some 0 else map_option Suc (index_bytes bs sep))"

subsection \<open>Decoding\<close>

datatype wav_error = WavTooShort | InvalidWavHeader | UnsupportedFormat nat | UnsupportedChannels nat
  | UnsupportedBits nat | DataChunkNotFound

record wav_format =
  audioFormat :: nat
  wavChannels :: nat
  bitsPerSample :: nat

definition readFormat :: "bytes \<Rightarrow> nat \<Rightarrow> wav_format outcome" where
  "readFormat wav chunkStart =
     and_then (slice wav chunkStart (chunkStart + 2)) (\<lambda>a.
     and_then (slice wav (chunkStart + 2) (chunkStart + 4)) (\<lambda>c.
     and_then (slice wav (chunkStart + 14) (chunkStart + 16)) (\<lambda>b.
     Done \<lparr> audioFormat = le_nat a, wavChannels = le_nat c, bitsPerSample = le_nat b \<rparr>)))"

definition dataChunk :: "bytes \<Rightarrow> wav_format \<Rightarrow> nat \<Rightarrow> nat \<Rightarrow> (wav_error + bytes) outcome" where
  "dataChunk wav fmt chunkStart chunkEnd =
     (if audioFormat fmt \<noteq> 1 then Done (Inl (UnsupportedFormat (audioFormat fmt)))
      else if wavChannels fmt \<noteq> 1 then Done (Inl (UnsupportedChannels (wavChannels fmt)))
      else if bitsPerSample fmt \<noteq> 16 then Done (Inl (UnsupportedBits (bitsPerSample fmt)))
      else and_then (slice wav chunkStart chunkEnd) (\<lambda>pcm. Done (Inr pcm)))"

text \<open>The chunk loop: None when it ends without a result, and the fallback takes over.\<close>

function walkChunks :: "bytes \<Rightarrow> nat \<Rightarrow> wav_format \<Rightarrow> (wav_error + bytes) option outcome" where
  "walkChunks wav index fmt =
     (if index + 8 \<le> length wav then
        and_then (slice wav index (index + 4)) (\<lambda>chunkId.
        and_then (slice wav (index + 4) (index + 8)) (\<lambda>sizeBytes.
          let chunkSize = le_nat sizeBytes; chunkStart = index + 8; chunkEnd = chunkStart + chunkSize in
          if chunkEnd > length wav then Done None
          else and_then (if chunkId = mark_fmt \<and> chunkSize \<ge> 16 then readFormat wav chunkStart else Done fmt)
            (\<lambda>fmt.
              if chunkId = mark_data then and_then (dataChunk wav fmt chunkStart chunkEnd) (\<lambda>r. Done (Some r))
              else walkChunks wav (chunkEnd + chunkEnd mod 2) fmt)))
      else Done None)"
  by pat_completeness auto
termination
  by (relation "measure (\<lambda>(wav, index, _). length wav - index)") auto

function searchData :: "bytes \<Rightarrow> nat \<Rightarrow> (wav_error + bytes) outcome" where
  "searchData wav dataOffset =
     (if dataOffset + 8 \<le> length wav then
        case index_bytes (drop dataOffset wav) mark_data of
          None \<Rightarrow> Done (Inl DataChunkNotFound)
        | Some index \<Rightarrow>
            (let header = dataOffset + index in
             if header + 8 > length wav then Done (Inl DataChunkNotFound)
             else and_then (slice wav (header + 4) (header + 8)) (\<lambda>sizeBytes.
               let chunkStart = header + 8; chunkEnd = min (chunkStart + le_nat sizeBytes) (length wav) in
               if chunkStart \<ge> length wav then Done (Inl DataChunkNotFound)
               else and_then (slice wav chunkStart chunkEnd) (\<lambda>pcm.
                 let pcm = (if length pcm mod 2 = 1 then take (length pcm - 1) pcm else pcm) in
                 if pcm \<noteq> [] then Done (Inr pcm) else searchData wav chunkStart)))
      else Done (Inl DataChunkNotFound))"
  by pat_completeness auto
termination
  by (relation "measure (\<lambda>(wav, dataOffset). length wav - dataOffset)") auto

declare walkChunks.simps [simp del] searchData.simps [simp del]

definition wavToPcm16Le :: "bytes \<Rightarrow> (wav_error + bytes) outcome" where
  "wavToPcm16Le wav =
     (if length wav < 44 then Done (Inl WavTooShort)
      else and_then (slice wav 0 4) (\<lambda>riff. and_then (slice wav 8 12) (\<lambda>wave.
        if riff \<noteq> mark_riff \<or> wave \<noteq> mark_wave then Done (Inl InvalidWavHeader)
        else and_then (walkChunks wav 12 \<lparr> audioFormat = 0, wavChannels = 0, bitsPerSample = 0 \<rparr>) (\<lambda>r.
          case r of Some result \<Rightarrow> Done result | None \<Rightarrow> searchData wav 12))))"

subsection \<open>Encoding\<close>

definition pcmToWav :: "bytes \<Rightarrow> int \<Rightarrow> int \<Rightarrow> bytes" where
  "pcmToWav pcm sampleRate channels =
     (let channels = (if channels \<le> 0 then 1 else channels);
          sampleRate = (if sampleRate \<le> 0 then 16000 else sampleRate);
          dataSize = length pcm - length pcm mod 2;
          blockAlign = wrap64 (channels * 16) sdiv 8;
          byteRate = wrap64 (sampleRate * blockAlign) in
      mark_riff @ put_le 4 (36 + int dataSize) @ mark_wave
      @ mark_fmt @ put_le 4 16 @ put_le 2 1 @ put_le 2 channels @ put_le 4 sampleRate @ put_le 4 byteRate
      @ put_le 2 blockAlign @ put_le 2 16
      @ mark_data @ put_le 4 (int dataSize) @ take dataSize pcm)"

subsection \<open>Decoding never fails badly\<close>

lemma slice_ok [simp]: "a \<le> b \<Longrightarrow> b \<le> length bs \<Longrightarrow> slice bs a b = Done (take (b - a) (drop a bs))"
  by (simp add: slice_def)

lemma sublist_slice: "sublist (take n (drop a bs)) bs"
  by (metis sublist_drop sublist_take sublist_order.order_trans)

lemma index_bytes_Some: "index_bytes bs sep = Some i \<Longrightarrow> i \<le> length bs"
  by (induction bs sep arbitrary: i rule: index_bytes.induct) (auto split: if_splits)

lemma readFormat_ok: "start + 16 \<le> length wav \<Longrightarrow> \<exists>fmt. readFormat wav start = Done fmt"
  by (simp add: readFormat_def)

lemma dataChunk_ok:
  "start \<le> stop \<Longrightarrow> stop \<le> length wav \<Longrightarrow>
   \<exists>r. dataChunk wav fmt start stop = Done r \<and> (\<forall>pcm. r = Inr pcm \<longrightarrow> sublist pcm wav)"
  by (auto simp: dataChunk_def sublist_slice)

lemma walkChunks_ok:
  "\<exists>r. walkChunks wav index fmt = Done r \<and> (\<forall>pcm. r = Some (Inr pcm) \<longrightarrow> sublist pcm wav)"
proof (induction "length wav - index" arbitrary: index fmt rule: less_induct)
  case less
  let ?id = "take 4 (drop index wav)" and ?size = "le_nat (take 4 (drop (index + 4) wav))"
  let ?stop = "index + 8 + ?size"
  show ?case
  proof (cases "index + 8 \<le> length wav \<and> ?stop \<le> length wav")
    case False
    then show ?thesis by (subst walkChunks.simps) (auto simp: Let_def)
  next
    case True
    have "\<exists>f. (if ?id = mark_fmt \<and> 16 \<le> ?size then readFormat wav (index + 8) else Done fmt) = Done f"
    proof (cases "?id = mark_fmt \<and> 16 \<le> ?size")
      case big: True
      then have "index + 8 + 16 \<le> length wav" using True by linarith
      from readFormat_ok [OF this] show ?thesis by (simp only: big simp_thms if_True)
    next
      case False
      then show ?thesis by (simp only: if_False simp_thms) blast
    qed
    then obtain fmt' where
      f: "(if ?id = mark_fmt \<and> 16 \<le> ?size then readFormat wav (index + 8) else Done fmt) = Done fmt'" by blast
    have step: "walkChunks wav index fmt =
      (if ?id = mark_data then and_then (dataChunk wav fmt' (index + 8) ?stop) (\<lambda>r. Done (Some r))
       else walkChunks wav (?stop + ?stop mod 2) fmt')"
      by (subst walkChunks.simps) (use True f in \<open>simp add: Let_def\<close>)
    have "length wav - (?stop + ?stop mod 2) < length wav - index" using True by linarith
    from less.hyps [OF this, of fmt'] show ?thesis
      using dataChunk_ok [of "index + 8" ?stop wav fmt'] True by (auto simp: step)
  qed
qed

lemma searchData_ok:
  "\<exists>r. searchData wav offset = Done r \<and> (\<forall>pcm. r = Inr pcm \<longrightarrow> sublist pcm wav \<and> even (length pcm))"
proof (induction "length wav - offset" arbitrary: offset rule: less_induct)
  case less
  show ?case
  proof (cases "offset + 8 \<le> length wav")
    case False
    then show ?thesis by (subst searchData.simps) simp
  next
    case True
    show ?thesis
    proof (cases "index_bytes (drop offset wav) mark_data")
      case None
      then show ?thesis by (subst searchData.simps) (simp add: True)
    next
      case (Some i)
      define start where "start = offset + i + 8"
      define stop where "stop = min (start + le_nat (take 4 (drop (offset + i + 4) wav))) (length wav)"
      define pcm where "pcm = take (stop - start) (drop start wav)"
      define whole where "whole = (if length pcm mod 2 = 1 then take (length pcm - 1) pcm else pcm)"
      have "length whole = length pcm - length pcm mod 2" by (auto simp: whole_def)
      then have even: "even (length whole)" by presburger
      have sub: "sublist whole wav"
        using sublist_slice [of _ start wav] by (simp add: whole_def pcm_def take_take)
      show ?thesis
      proof (cases "start < length wav")
        case False
        then show ?thesis using True Some by (subst searchData.simps) (auto simp: Let_def start_def)
      next
        case in_range: True
        have "start \<le> stop" "stop \<le> length wav" using in_range by (simp_all add: stop_def)
        then have cut: "slice wav start stop = Done pcm" by (simp add: pcm_def)
        have size: "slice wav (offset + i + 4) start = Done (take 4 (drop (offset + i + 4) wav))"
          using in_range by (simp add: start_def)
        have step: "searchData wav offset = (if whole \<noteq> [] then Done (Inr whole) else searchData wav start)"
          using True Some in_range size cut
          by (subst searchData.simps)
            (simp add: Let_def flip: start_def stop_def del: slice_ok, simp add: whole_def)
        have "length wav - start < length wav - offset" using in_range by (simp add: start_def)
        from less.hyps [OF this] show ?thesis using even sub by (simp only: step) auto
      qed
    qed
  qed
qed

lemma wavToPcm_ok: "\<exists>r. wavToPcm16Le wav = Done r \<and> (\<forall>pcm. r = Inr pcm \<longrightarrow> sublist pcm wav)"
proof -
  obtain w where "walkChunks wav 12 \<lparr> audioFormat = 0, wavChannels = 0, bitsPerSample = 0 \<rparr> = Done w"
    "\<forall>pcm. w = Some (Inr pcm) \<longrightarrow> sublist pcm wav"
    using walkChunks_ok by blast
  moreover obtain r where "searchData wav 12 = Done r" "\<forall>pcm. r = Inr pcm \<longrightarrow> sublist pcm wav"
    using searchData_ok by blast
  ultimately show ?thesis by (cases w) (auto simp: wavToPcm16Le_def)
qed

subsection \<open>The round trip\<close>

lemma length_marks [simp]:
  "length mark_riff = 4" "length mark_wave = 4" "length mark_fmt = 4" "length mark_data = 4"
  by (simp_all add: mark_riff_def mark_wave_def mark_fmt_def mark_data_def)

lemma length_put_le [simp]: "length (put_le k x) = k"
  by (simp add: put_le_def)

lemma le_nat_put_le: "le_nat (put_le k x) = nat (x mod 256 ^ k)"
  by (simp add: put_le_def nat_less_iff)

lemma marks_differ [simp]: "mark_fmt \<noteq> mark_data" "mark_data \<noteq> mark_fmt"
  by (simp_all add: mark_fmt_def mark_data_def)

lemma walk_format:
  assumes "length head = 12" "length skip = 10"
  shows "walkChunks (head @ mark_fmt @ put_le 4 16 @ put_le 2 f @ put_le 2 c @ skip @ put_le 2 b @ rest) 12 fmt =
    walkChunks (head @ mark_fmt @ put_le 4 16 @ put_le 2 f @ put_le 2 c @ skip @ put_le 2 b @ rest) 36
      \<lparr> audioFormat = nat (f mod 65536), wavChannels = nat (c mod 65536), bitsPerSample = nat (b mod 65536) \<rparr>"
  using assms
  by (subst walkChunks.simps) (simp add: Let_def le_nat_put_le readFormat_def)

lemma walk_data:
  assumes "length head = 36" "length pcm < 2 ^ 32"
  shows "walkChunks (head @ mark_data @ put_le 4 (int (length pcm)) @ pcm) 36 fmt =
    and_then (dataChunk (head @ mark_data @ put_le 4 (int (length pcm)) @ pcm) fmt 44 (44 + length pcm)) (\<lambda>r. Done (Some r))"
  using assms by (subst walkChunks.simps) (simp add: Let_def le_nat_put_le)

lemma decode_layout:
  assumes "length riff = 4" "length skip = 10" "length pcm < 2 ^ 32"
  shows "wavToPcm16Le (mark_riff @ riff @ mark_wave @ mark_fmt @ put_le 4 16 @ put_le 2 1 @ put_le 2 c @ skip
      @ put_le 2 16 @ mark_data @ put_le 4 (int (length pcm)) @ pcm) =
    Done (if c mod 65536 = 1 then Inr pcm else Inl (UnsupportedChannels (nat (c mod 65536))))"
proof -
  let ?head = "mark_riff @ riff @ mark_wave"
  let ?head2 = "?head @ mark_fmt @ put_le 4 16 @ put_le 2 1 @ put_le 2 c @ skip @ put_le 2 16"
  let ?wav = "?head2 @ mark_data @ put_le 4 (int (length pcm)) @ pcm"
  define fmt where "fmt = \<lparr> audioFormat = 1, wavChannels = nat (c mod 65536), bitsPerSample = 16 \<rparr>"
  have l: "length ?head = 12" "length ?head2 = 36" using assms by simp_all
  have one: "c mod 65536 \<noteq> 1 \<longleftrightarrow> nat (c mod 65536) \<noteq> Suc 0" by linarith
  have "walkChunks ?wav 12 f0 = walkChunks ?wav 36 fmt" for f0
    using walk_format [OF l(1) assms(2), of 1 c 16 "mark_data @ put_le 4 (int (length pcm)) @ pcm" f0]
    by (simp add: fmt_def)
  moreover have "walkChunks ?wav 36 fmt =
      and_then (dataChunk ?wav fmt 44 (44 + length pcm)) (\<lambda>r. Done (Some r))"
    by (rule walk_data [OF l(2) assms(3)])
  moreover have "dataChunk ?wav fmt 44 (44 + length pcm) =
      Done (if c mod 65536 = 1 then Inr pcm else Inl (UnsupportedChannels (nat (c mod 65536))))"
    using assms by (auto simp: dataChunk_def fmt_def one)
  ultimately have "walkChunks ?wav 12 f0 =
      Done (Some (if c mod 65536 = 1 then Inr pcm else Inl (UnsupportedChannels (nat (c mod 65536)))))" for f0
    by simp
  then have "wavToPcm16Le ?wav = Done (if c mod 65536 = 1 then Inr pcm else Inl (UnsupportedChannels (nat (c mod 65536))))"
    using assms by (simp add: wavToPcm16Le_def)
  then show ?thesis by simp
qed

lemma pcmToWav_layout:
  "\<exists>riff skip. length riff = 4 \<and> length skip = 10 \<and>
    pcmToWav pcm sampleRate channels =
      mark_riff @ riff @ mark_wave @ mark_fmt @ put_le 4 16 @ put_le 2 1
      @ put_le 2 (if channels \<le> 0 then 1 else channels) @ skip @ put_le 2 16 @ mark_data
      @ put_le 4 (int (length pcm - length pcm mod 2)) @ take (length pcm - length pcm mod 2) pcm"
proof -
  let ?ch = "if channels \<le> 0 then 1 else channels" and ?rate = "if sampleRate \<le> 0 then 16000 else sampleRate"
  let ?align = "wrap64 (?ch * 16) sdiv 8"
  show ?thesis
    by (intro exI [of _ "put_le 4 (36 + int (length pcm - length pcm mod 2))"]
        exI [of _ "put_le 4 ?rate @ put_le 4 (wrap64 (?rate * ?align)) @ put_le 2 ?align"])
      (simp add: pcmToWav_def Let_def)
qed

lemma wav_round:
  assumes "length pcm < 2 ^ 32"
  shows "wavToPcm16Le (pcmToWav pcm sampleRate channels) =
    Done (if channels \<le> 0 \<or> channels mod 2 ^ 16 = 1 then Inr (take (length pcm - length pcm mod 2) pcm)
          else Inl (UnsupportedChannels (nat (channels mod 2 ^ 16))))"
proof -
  let ?pcm = "take (length pcm - length pcm mod 2) pcm" and ?c = "if channels \<le> 0 then 1 else channels"
  obtain riff skip where l: "length riff = 4" "length skip = 10"
    and w: "pcmToWav pcm sampleRate channels =
      mark_riff @ riff @ mark_wave @ mark_fmt @ put_le 4 16 @ put_le 2 1 @ put_le 2 ?c @ skip @ put_le 2 16
      @ mark_data @ put_le 4 (int (length ?pcm)) @ ?pcm"
    using pcmToWav_layout [of pcm sampleRate channels] by auto
  have "length ?pcm < 2 ^ 32" using assms by simp
  from decode_layout [OF l this, of ?c] show ?thesis by (simp only: w) auto
qed

text \<open>C19: Whatever a speech service sends, unwrapping it never slices out of range, always ends, and returns
  either an error or a piece of the file as it is. What \<open>pcmToWav\<close> wraps comes back without a
  trailing half sample, as long as the audio is mono and shorter than 2^32 bytes; other channel counts are
  refused by name.\<close>

theorem wav_round_trip:
  "(\<exists>r. wavToPcm16Le wav = Done r \<and> (\<forall>audio. r = Inr audio \<longrightarrow> sublist audio wav))
   \<and> (length pcm < 2 ^ 32 \<longrightarrow>
        wavToPcm16Le (pcmToWav pcm sampleRate channels) =
          Done (if channels \<le> 0 \<or> channels mod 2 ^ 16 = 1 then Inr (take (length pcm - length pcm mod 2) pcm)
                else Inl (UnsupportedChannels (nat (channels mod 2 ^ 16)))))"
  using wavToPcm_ok wav_round by blast

lemma wav_round_trip_witness:
  "wavToPcm16Le (pcmToWav [1, 2, 3, 4, 5] 16000 1) = Done (Inr [1, 2, 3, 4])"
  using wav_round_trip [of undefined "[1, 2, 3, 4, 5]" 16000 1] by simp

end
