(* ===== verification/VoiceSentences.thy ===== *)
theory VoiceSentences
  imports GoStrings
begin

text \<open>
  How a voice call turns a streamed reply into sentences to speak: \<open>internal/voice/sentences.go\<close> and
  the text bookkeeping of \<open>llmEventForwarder\<close> (\<open>internal/voice/loop_llm_forwarder.go\<close>). \<open>unicode.IsUpper\<close>
  and \<open>strings.ToLower\<close> are parameters. \<open>splitSentences\<close> works on runes and counts bytes at the end.
\<close>

subsection \<open>Splitting into sentences\<close>

definition abbreviations :: "string list" where
  "abbreviations = [''mr'', ''mrs'', ''ms'', ''dr'', ''prof'', ''sr'', ''jr'', ''st'', ''vs'', ''etc'',
     ''approx'', ''inc'', ''ltd'', ''corp'', ''u.s'', ''u.k'', ''e.g'', ''i.e'']"

definition isASCIIPunct :: "rune \<Rightarrow> bool" where
  "isASCIIPunct r \<longleftrightarrow> r = 46 \<or> r = 33 \<or> r = 63"

definition isSentenceEndRune :: "rune \<Rightarrow> bool" where
  "isSentenceEndRune r \<longleftrightarrow> isASCIIPunct r \<or> r = 12290 \<or> r = 65281 \<or> r = 65311"

definition looksLikeAbbreviation :: "(string \<Rightarrow> string) \<Rightarrow> rune list \<Rightarrow> bool" where
  "looksLikeAbbreviation lower sentenceRunes =
     (let s = string_of_runes sentenceRunes in
      if \<not> has_suffix s ''.'' then False
      else (let parts = fields (trim_suffix s ''.'') in
            if parts = [] then False else lower (last parts) \<in> set abbreviations))"

function skipSpaces :: "rune list \<Rightarrow> nat \<Rightarrow> nat" where
  "skipSpaces rs j = (if j < length rs \<and> is_space (rs ! j) then skipSpaces rs (Suc j) else j)"
  by pat_completeness auto
termination
  by (relation "measure (\<lambda>(rs, j). length rs - j)") auto

declare skipSpaces.simps [simp del]

text \<open>After one of the marks . ! ? the text must go on with white space and then an upper-case letter, or end.\<close>

definition clearBoundary :: "(rune \<Rightarrow> bool) \<Rightarrow> rune list \<Rightarrow> nat \<Rightarrow> bool" where
  "clearBoundary upper rs index =
     (if index + 1 < length rs \<and> \<not> is_space (rs ! (index + 1)) then False
      else if index + 1 < length rs then
        (let inner = skipSpaces rs (index + 1) in \<not> (inner < length rs \<and> \<not> upper (rs ! inner)))
      else True)"

function splitLoop ::
  "(rune \<Rightarrow> bool) \<Rightarrow> (string \<Rightarrow> string) \<Rightarrow> rune list \<Rightarrow> nat \<Rightarrow> nat \<Rightarrow> nat \<Rightarrow> string list \<Rightarrow> string list \<times> nat" where
  "splitLoop upper lower rs index start lastConsumed out =
     (if index < length rs then
        (let r = rs ! index; sentenceRunes = take (index + 1 - start) (drop start rs) in
         if \<not> isSentenceEndRune r then splitLoop upper lower rs (Suc index) start lastConsumed out
         else if r = 46 \<and> looksLikeAbbreviation lower sentenceRunes
           then splitLoop upper lower rs (Suc index) start lastConsumed out
         else if isASCIIPunct r \<and> \<not> clearBoundary upper rs index
           then splitLoop upper lower rs (Suc index) start lastConsumed out
         else
           (let sentence = string_of_runes sentenceRunes;
                out = (if sentence \<noteq> [] then out @ [sentence] else out);
                next = skipSpaces rs (index + 1) in
            splitLoop upper lower rs (Suc index) next next out))
      else (out, lastConsumed))"
  by pat_completeness auto
termination
  by (relation "measure (\<lambda>(_, _, rs, index, _). length rs - index)") auto

declare splitLoop.simps [simp del]

definition byteOffsetForRuneIndex :: "string \<Rightarrow> nat \<Rightarrow> nat" where
  "byteOffsetForRuneIndex t runeIndex = length (bytes_of (take runeIndex (pieces t)))"

definition splitSentences :: "(rune \<Rightarrow> bool) \<Rightarrow> (string \<Rightarrow> string) \<Rightarrow> string \<Rightarrow> string list \<times> nat" where
  "splitSentences upper lower t =
     (let rs = runes t in
      if rs = [] then ([], 0)
      else (case splitLoop upper lower rs 0 0 0 [] of (out, lastConsumed) \<Rightarrow>
        (out, byteOffsetForRuneIndex (string_of_runes rs) lastConsumed)))"

definition extractCompleteSentences ::
  "(rune \<Rightarrow> bool) \<Rightarrow> (string \<Rightarrow> string) \<Rightarrow> string \<Rightarrow> nat \<Rightarrow> string list \<times> nat" where
  "extractCompleteSentences upper lower t alreadyEnqueued =
     (let all = fst (splitSentences upper lower t) in
      if alreadyEnqueued \<ge> length all then ([], length all) else (drop alreadyEnqueued all, length all))"

definition flushRemaining ::
  "(rune \<Rightarrow> bool) \<Rightarrow> (string \<Rightarrow> string) \<Rightarrow> string \<Rightarrow> nat \<Rightarrow> string outcome" where
  "flushRemaining upper lower t alreadyEnqueued =
     (case splitSentences upper lower t of (all, consumed) \<Rightarrow>
        if all = [] then Done t
        else if consumed > length t then Panics
        else if alreadyEnqueued \<ge> length all then Done (drop consumed t)
        else if alreadyEnqueued = 0 then Done t
        else (let partialConsumed = snd (splitSentences upper lower (join '' '' (take alreadyEnqueued all))) in
              if partialConsumed > length t then Done [] else Done (drop partialConsumed t)))"

subsection \<open>The bookkeeping of the forwarder\<close>

record speech =
  streamText :: string
  sentencesEnqueued :: nat
  sawDelta :: bool

definition noSpeech :: speech where
  "noSpeech = \<lparr> streamText = [], sentencesEnqueued = 0, sawDelta = False \<rparr>"

text \<open>A delta event: the new state and the sentences put into the queue of the synthesizer.\<close>

definition speechDelta ::
  "(rune \<Rightarrow> bool) \<Rightarrow> (string \<Rightarrow> string) \<Rightarrow> string \<Rightarrow> speech \<Rightarrow> speech \<times> string list" where
  "speechDelta upper lower delta sp =
     (let sp = (if delta \<noteq> [] then sp\<lparr> streamText := streamText sp @ delta, sawDelta := True \<rparr> else sp) in
      case extractCompleteSentences upper lower (streamText sp) (sentencesEnqueued sp) of (new, n) \<Rightarrow>
        (sp\<lparr> sentencesEnqueued := n \<rparr>, new))"

text \<open>A terminal event: what is put into the queue, the empty string marks the end of the response.\<close>

definition speechFinal ::
  "(rune \<Rightarrow> bool) \<Rightarrow> (string \<Rightarrow> string) \<Rightarrow> string \<Rightarrow> speech \<Rightarrow> string list outcome" where
  "speechFinal upper lower t sp =
     (let streamForFlush = (if \<not> sawDelta sp \<and> trim_space t \<noteq> [] then t else streamText sp) in
      and_then (flushRemaining upper lower streamForFlush (sentencesEnqueued sp)) (\<lambda>rest.
        let remaining = trim_space rest in
        Done ((if remaining \<noteq> [] then [remaining] else []) @ [[]])))"

fun speakDeltas ::
  "(rune \<Rightarrow> bool) \<Rightarrow> (string \<Rightarrow> string) \<Rightarrow> string list \<Rightarrow> speech \<Rightarrow> speech \<times> string list" where
  "speakDeltas upper lower [] sp = (sp, [])"
| "speakDeltas upper lower (d # ds) sp =
     (case speechDelta upper lower d sp of (sp', new) \<Rightarrow>
        case speakDeltas upper lower ds sp' of (sp'', rest) \<Rightarrow> (sp'', new @ rest))"

text \<open>What a fresh forwarder puts into the queue when these deltas reach it and then the end of the reply with
  a final text. The events themselves, with runs that were interrupted, are in \<open>VoiceReplies\<close>.\<close>

definition spoken ::
  "(rune \<Rightarrow> bool) \<Rightarrow> (string \<Rightarrow> string) \<Rightarrow> string list \<Rightarrow> string \<Rightarrow> string list outcome" where
  "spoken upper lower deltas finalText =
     (case speakDeltas upper lower deltas noSpeech of (sp, new) \<Rightarrow>
        and_then (speechFinal upper lower finalText sp) (\<lambda>rest. Done (new @ rest)))"

subsection \<open>No text is lost between the sentences\<close>

definition nonblank_runes :: "rune list \<Rightarrow> rune list" where
  "nonblank_runes rs = filter (\<lambda>r. \<not> is_space r) rs"

definition nonblank :: "string \<Rightarrow> rune list" where
  "nonblank s = nonblank_runes (runes s)"

lemma nonblank_runes_append [simp]: "nonblank_runes (xs @ ys) = nonblank_runes xs @ nonblank_runes ys"
  by (simp add: nonblank_runes_def)

lemma nonblank_string [simp]:
  "\<forall>r\<in>set rs. valid_rune r \<Longrightarrow> nonblank (string_of_runes rs) = nonblank_runes rs"
  by (simp add: nonblank_def runes_string_of_runes)

lemma end_not_space: "isSentenceEndRune r \<Longrightarrow> \<not> is_space r"
  by (auto simp: isSentenceEndRune_def isASCIIPunct_def is_space_def)

lemma skipSpaces_spec:
  "j \<le> length rs \<Longrightarrow> j \<le> skipSpaces rs j \<and> skipSpaces rs j \<le> length rs
     \<and> (\<forall>i. j \<le> i \<and> i < skipSpaces rs j \<longrightarrow> is_space (rs ! i))
     \<and> (skipSpaces rs j < length rs \<longrightarrow> \<not> is_space (rs ! skipSpaces rs j))"
proof (induction rs j rule: skipSpaces.induct)
  case (1 rs j)
  show ?case
  proof (cases "j < length rs \<and> is_space (rs ! j)")
    case True
    then have "skipSpaces rs j = skipSpaces rs (Suc j)" by (subst skipSpaces.simps) simp
    moreover have "i = j \<or> Suc j \<le> i" if "j \<le> i" for i using that by linarith
    ultimately show ?thesis using "1.IH" [OF True] True by (metis Suc_leD Suc_leI)
  next
    case False
    then have "skipSpaces rs j = j" by (subst skipSpaces.simps) (simp only: if_False)
    then show ?thesis using False "1.prems" by auto
  qed
qed

text \<open>One step of the loop: a sentence ends at \<open>index\<close>, or it goes on.\<close>

definition sentenceEndsAt :: "(rune \<Rightarrow> bool) \<Rightarrow> (string \<Rightarrow> string) \<Rightarrow> rune list \<Rightarrow> nat \<Rightarrow> nat \<Rightarrow> bool" where
  "sentenceEndsAt upper lower rs index start \<longleftrightarrow> isSentenceEndRune (rs ! index)
     \<and> \<not> (rs ! index = 46 \<and> looksLikeAbbreviation lower (take (index + 1 - start) (drop start rs)))
     \<and> \<not> (isASCIIPunct (rs ! index) \<and> \<not> clearBoundary upper rs index)"

lemma splitLoop_end: "\<not> index < length rs \<Longrightarrow> splitLoop upper lower rs index start c out = (out, c)"
  by (subst splitLoop.simps) simp

lemma splitLoop_step:
  assumes "index < length rs" "start \<le> length rs" "\<forall>i. index \<le> i \<and> i < start \<longrightarrow> is_space (rs ! i)"
  shows "splitLoop upper lower rs index start c out =
    (if sentenceEndsAt upper lower rs index start
     then splitLoop upper lower rs (Suc index) (skipSpaces rs (Suc index)) (skipSpaces rs (Suc index))
       (out @ [string_of_runes (take (index + 1 - start) (drop start rs))])
     else splitLoop upper lower rs (Suc index) start c out)"
proof (cases "sentenceEndsAt upper lower rs index start")
  case True
  then have "\<not> is_space (rs ! index)" using end_not_space by (simp add: sentenceEndsAt_def)
  then have "start \<le> index" using assms(3) by (meson not_le order_refl)
  then have "take (index + 1 - start) (drop start rs) \<noteq> []" using assms(1) by simp
  then show ?thesis
    using True assms(1) by (subst splitLoop.simps) (auto simp: sentenceEndsAt_def Let_def)
next
  case False
  then show ?thesis
    using assms(1) by (subst splitLoop.simps) (auto simp: sentenceEndsAt_def Let_def)
qed

lemma nonblank_spaces: "\<forall>r\<in>set rs. is_space r \<Longrightarrow> nonblank_runes rs = []"
  by (simp add: nonblank_runes_def filter_empty_conv)

lemma splitLoop_content:
  assumes "index \<le> length rs" "start \<le> length rs" "\<forall>i. index \<le> i \<and> i < start \<longrightarrow> is_space (rs ! i)"
    "\<forall>r\<in>set rs. valid_rune r" "splitLoop upper lower rs index start start out = (out', c)"
  shows "\<exists>new. out' = out @ new \<and> start \<le> c \<and> c \<le> length rs \<and> (new = [] \<longrightarrow> c = start) \<and> [] \<notin> set new
    \<and> concat (map nonblank new) = nonblank_runes (take (c - start) (drop start rs))"
  using assms
proof (induction "length rs - index" arbitrary: index start out rule: less_induct)
  case less
  show ?case
  proof (cases "index < length rs")
    case False
    then show ?thesis using less.prems by (simp add: splitLoop_end nonblank_runes_def)
  next
    case True
    have dec: "length rs - Suc index < length rs - index" using True by simp
    note step = splitLoop_step [OF True less.prems(2,3)]
    show ?thesis
    proof (cases "sentenceEndsAt upper lower rs index start")
      case False
      then have run: "splitLoop upper lower rs (Suc index) start start out = (out', c)"
        using less.prems(5) step by simp
      show ?thesis
        by (rule less.hyps [OF dec _ _ _ _ run]) (use True less.prems in auto)
    next
      case ends: True
      let ?next = "skipSpaces rs (Suc index)"
      let ?s = "take (index + 1 - start) (drop start rs)"
      have sk: "Suc index \<le> ?next" "?next \<le> length rs" "\<forall>i. Suc index \<le> i \<and> i < ?next \<longrightarrow> is_space (rs ! i)"
        using skipSpaces_spec [of "Suc index" rs] True by auto
      have ns: "\<not> is_space (rs ! index)" using ends end_not_space by (simp add: sentenceEndsAt_def)
      then have le: "start \<le> index" using less.prems(3) by (meson not_le order_refl)
      have run: "splitLoop upper lower rs (Suc index) ?next ?next (out @ [string_of_runes ?s]) = (out', c)"
        using less.prems(5) step ends by simp
      obtain new where new: "out' = (out @ [string_of_runes ?s]) @ new" "?next \<le> c" "c \<le> length rs" "[] \<notin> set new"
        "concat (map nonblank new) = nonblank_runes (take (c - ?next) (drop ?next rs))"
        using less.hyps [OF dec _ sk(2,3) less.prems(4) run] True by auto
      have v: "\<forall>r\<in>set ?s. valid_rune r" using less.prems(4) by (auto dest: in_set_takeD in_set_dropD)
      have ne: "?s \<noteq> []" using le True by simp
      have gap: "nonblank_runes (take (?next - Suc index) (drop (Suc index) rs)) = []"
        using sk by (intro nonblank_spaces) (auto simp: in_set_conv_nth)
      have "take (c - start) (drop start rs) =
          ?s @ take (?next - Suc index) (drop (Suc index) rs) @ take (c - ?next) (drop ?next rs)"
        using take_range_split [of start "Suc index" c rs] take_range_split [of "Suc index" ?next c rs] le sk(1) new(2)
        by simp
      then show ?thesis using new le sk gap v ne by (intro exI [of _ "string_of_runes ?s # new"]) simp
    qed
  qed
qed

subsection \<open>A longer text keeps the sentences of a settled one\<close>

text \<open>
  A text is settled when it does not end, up to white space, in one of the marks . ! ? whose meaning the
  next letters decide.
\<close>

definition settled_runes :: "rune list \<Rightarrow> bool" where
  "settled_runes rs = (case dropWhile is_space (rev rs) of [] \<Rightarrow> True | r # _ \<Rightarrow> \<not> isASCIIPunct r)"

definition settled :: "string \<Rightarrow> bool" where
  "settled t = settled_runes (runes t)"

lemma settled_later:
  assumes "settled_runes rs" "index < length rs" "isASCIIPunct (rs ! index)"
  shows "\<exists>j>index. j < length rs \<and> \<not> is_space (rs ! j)"
proof (rule ccontr)
  assume "\<not> ?thesis"
  then have sp: "\<forall>r\<in>set (drop (Suc index) rs). is_space r" by (auto simp: in_set_conv_nth)
  have "rev rs = rev (drop (Suc index) rs) @ rs ! index # rev (take index rs)"
    using id_take_nth_drop [OF assms(2)] by (metis append.assoc append_Cons append_Nil rev.simps(2) rev_append)
  moreover have "\<not> is_space (rs ! index)" using assms(3) by (intro end_not_space) (simp add: isSentenceEndRune_def)
  ultimately have "dropWhile is_space (rev rs) = rs ! index # rev (take index rs)"
    using sp dropWhile_append2 [of "rev (drop (Suc index) rs)" is_space "rs ! index # rev (take index rs)"] by simp
  then show False using assms(1,3) by (simp add: settled_runes_def)
qed

lemma skipSpaces_unique:
  assumes "j \<le> k" "k < length rs" "\<not> is_space (rs ! k)" "\<forall>i. j \<le> i \<and> i < k \<longrightarrow> is_space (rs ! i)"
  shows "skipSpaces rs j = k"
proof -
  note sk = skipSpaces_spec [of j rs]
  have "\<not> skipSpaces rs j < k" using sk assms by (metis le_trans less_imp_le less_trans)
  moreover have "\<not> k < skipSpaces rs j" using sk assms by (meson le_trans less_imp_le)
  ultimately show ?thesis by simp
qed

lemma skipSpaces_append:
  assumes "j \<le> length rs" "skipSpaces rs j < length rs"
  shows "skipSpaces (rs @ qs) j = skipSpaces rs j"
  using skipSpaces_spec [OF assms(1)] assms by (intro skipSpaces_unique) (auto simp: nth_append)

lemma clearBoundary_append:
  assumes "settled_runes rs" "index < length rs" "isASCIIPunct (rs ! index)"
  shows "clearBoundary upper (rs @ qs) index = clearBoundary upper rs index"
proof -
  obtain j where j: "index < j" "j < length rs" "\<not> is_space (rs ! j)" using settled_later [OF assms] by blast
  then have in_range: "index + 1 < length rs" by simp
  have "skipSpaces rs (Suc index) < length rs"
    using skipSpaces_spec [of "Suc index" rs] j by (metis Suc_leI in_range less_imp_le_nat less_le_trans not_less Suc_eq_plus1)
  moreover from this have "skipSpaces (rs @ qs) (Suc index) = skipSpaces rs (Suc index)"
    using in_range by (intro skipSpaces_append) auto
  ultimately show ?thesis using in_range by (auto simp: clearBoundary_def nth_append Let_def)
qed

lemma sentenceEndsAt_append:
  assumes "settled_runes rs" "index < length rs"
  shows "sentenceEndsAt upper lower (rs @ qs) index start = sentenceEndsAt upper lower rs index start"
proof -
  have "take (index + 1 - start) (drop start (rs @ qs)) = take (index + 1 - start) (drop start rs)"
    using assms(2) by (cases "start \<le> index") simp_all
  then show ?thesis
    using clearBoundary_append [OF assms] assms(2) by (auto simp: sentenceEndsAt_def nth_append)
qed

lemma splitLoop_extends:
  assumes "start \<le> length rs" "\<forall>i. index \<le> i \<and> i < start \<longrightarrow> is_space (rs ! i)"
  shows "\<exists>new. fst (splitLoop upper lower rs index start c out) = out @ new"
  using assms
proof (induction "length rs - index" arbitrary: index start c out rule: less_induct)
  case less
  show ?case
  proof (cases "index < length rs")
    case False
    then show ?thesis by (simp add: splitLoop_end)
  next
    case True
    have dec: "length rs - Suc index < length rs - index" using True by simp
    have sk: "skipSpaces rs (Suc index) \<le> length rs"
      "\<forall>i. Suc index \<le> i \<and> i < skipSpaces rs (Suc index) \<longrightarrow> is_space (rs ! i)"
      using skipSpaces_spec [of "Suc index" rs] True by auto
    show ?thesis
      using less.hyps [OF dec sk, of "skipSpaces rs (Suc index)"
          "out @ [string_of_runes (take (index + 1 - start) (drop start rs))]"]
        less.hyps [OF dec less.prems(1), of c out] less.prems
      by (auto simp: splitLoop_step [OF True less.prems])
  qed
qed

lemma splitLoop_no_ends:
  assumes "start \<le> length rs" "\<forall>i. index \<le> i \<and> i < length rs \<longrightarrow> is_space (rs ! i)"
  shows "splitLoop upper lower rs index start c out = (out, c)"
  using assms
proof (induction "length rs - index" arbitrary: index rule: less_induct)
  case less
  show ?case
  proof (cases "index < length rs")
    case False
    then show ?thesis by (simp add: splitLoop_end)
  next
    case True
    then have "\<not> sentenceEndsAt upper lower rs index start"
      using less.prems(2) end_not_space by (auto simp: sentenceEndsAt_def)
    then show ?thesis
      using less.hyps [of "Suc index"] True less.prems by (subst splitLoop_step) auto
  qed
qed

lemma splitLoop_append:
  assumes "settled_runes rs" "start \<le> length rs" "\<forall>i. index \<le> i \<and> i < start \<longrightarrow> is_space (rs ! i)"
  shows "\<exists>new. fst (splitLoop upper lower (rs @ qs) index start c' out) =
    fst (splitLoop upper lower rs index start c out) @ new"
  using assms(2,3)
proof (induction "length rs - index" arbitrary: index start c c' out rule: less_induct)
  case less
  let ?all = "rs @ qs"
  have start: "start \<le> length ?all" using less.prems by simp
  have spaces: "\<forall>i. index \<le> i \<and> i < start \<longrightarrow> is_space (?all ! i)"
    using less.prems by (auto simp: nth_append)
  show ?case
  proof (cases "index < length rs")
    case False
    then show ?thesis using splitLoop_extends [OF start spaces] by (simp add: splitLoop_end)
  next
    case True
    have dec: "length rs - Suc index < length rs - index" using True by simp
    have in_all: "index < length ?all" using True by simp
    have same: "sentenceEndsAt upper lower ?all index start = sentenceEndsAt upper lower rs index start"
      by (rule sentenceEndsAt_append [OF assms(1) True])
    note steps = splitLoop_step [OF True less.prems] splitLoop_step [OF in_all start spaces]
    show ?thesis
    proof (cases "sentenceEndsAt upper lower rs index start")
      case False
      then show ?thesis using less.hyps [OF dec less.prems(1), of c' out c] less.prems same by (simp add: steps)
    next
      case ends: True
      let ?s = "take (index + 1 - start) (drop start rs)"
      let ?next = "skipSpaces rs (Suc index)"
      have "\<not> is_space (rs ! index)" using ends end_not_space by (simp add: sentenceEndsAt_def)
      then have "start \<le> index" using less.prems(2) by (meson not_le order_refl)
      then have cut: "take (index + 1 - start) (drop start ?all) = ?s" using True by simp
      have sk: "Suc index \<le> ?next" "?next \<le> length rs" "\<forall>i. Suc index \<le> i \<and> i < ?next \<longrightarrow> is_space (rs ! i)"
        using skipSpaces_spec [of "Suc index" rs] True by auto
      show ?thesis
      proof (cases "?next < length rs")
        case inside: True
        then have "skipSpaces ?all (Suc index) = ?next" using True by (intro skipSpaces_append) auto
        then show ?thesis
          using less.hyps [OF dec sk(2,3), of ?next "out @ [string_of_runes ?s]" ?next]
          by (simp only: steps same ends cut if_True)
      next
        case False
        then have "splitLoop upper lower rs (Suc index) ?next ?next o' = (o', ?next)" for o'
          using sk by (intro splitLoop_no_ends) auto
        moreover have "\<exists>new. fst (splitLoop upper lower ?all (Suc index) (skipSpaces ?all (Suc index)) c'' o') = o' @ new"
          for c'' o' using skipSpaces_spec [of "Suc index" ?all] in_all by (intro splitLoop_extends) auto
        ultimately show ?thesis by (simp only: steps same ends cut if_True fst_conv)
      qed
    qed
  qed
qed

subsection \<open>Speaking a streamed reply\<close>

definition sentences_of :: "(rune \<Rightarrow> bool) \<Rightarrow> (string \<Rightarrow> string) \<Rightarrow> string \<Rightarrow> string list" where
  "sentences_of upper lower t = fst (splitSentences upper lower t)"

definition rest_of :: "(rune \<Rightarrow> bool) \<Rightarrow> (string \<Rightarrow> string) \<Rightarrow> string \<Rightarrow> string" where
  "rest_of upper lower t = drop (snd (splitSentences upper lower t)) t"

lemma split_valid:
  assumes "\<forall>r\<in>set rs. valid_rune r"
  shows "splitSentences upper lower (string_of_runes rs) =
    (case splitLoop upper lower rs 0 0 0 [] of (out, c) \<Rightarrow> (out, length (string_of_runes (take c rs))))"
proof -
  have "bytes_of (take c (pieces (string_of_runes rs))) = string_of_runes (take c rs)" for c
    using assms by (simp add: pieces_string_of_runes take_map bytes_of_def) (simp add: string_of_runes_def o_def)
  then show ?thesis
    using assms by (auto simp: splitSentences_def runes_string_of_runes byteOffsetForRuneIndex_def Let_def
        splitLoop_end split: prod.splits)
qed

lemma sentences_split:
  "\<forall>r\<in>set rs. valid_rune r \<Longrightarrow>
   sentences_of upper lower (string_of_runes rs) = fst (splitLoop upper lower rs 0 0 0 [])"
  by (simp add: sentences_of_def split_valid split: prod.splits)

lemma split_content:
  assumes "\<forall>r\<in>set rs. valid_rune r"
  shows "\<exists>c\<le>length rs. rest_of upper lower (string_of_runes rs) = string_of_runes (drop c rs)
    \<and> snd (splitSentences upper lower (string_of_runes rs)) \<le> length (string_of_runes rs)
    \<and> (sentences_of upper lower (string_of_runes rs) = [] \<longrightarrow> c = 0)
    \<and> [] \<notin> set (sentences_of upper lower (string_of_runes rs))
    \<and> concat (map nonblank (sentences_of upper lower (string_of_runes rs))) = nonblank_runes (take c rs)"
proof -
  obtain out c where loop: "splitLoop upper lower rs 0 0 0 [] = (out, c)" by fastforce
  then have c: "c \<le> length rs" "out = [] \<longrightarrow> c = 0" "[] \<notin> set out" "concat (map nonblank out) = nonblank_runes (take c rs)"
    using splitLoop_content [of 0 rs 0 upper lower "[]" out c] assms by auto
  have app: "string_of_runes rs = string_of_runes (take c rs) @ string_of_runes (drop c rs)"
    by (simp flip: string_of_runes_append)
  have "drop (length (string_of_runes (take c rs))) (string_of_runes rs) = string_of_runes (drop c rs)"
    by (subst app) simp
  moreover have "length (string_of_runes (take c rs)) \<le> length (string_of_runes rs)" using arg_cong [OF app, of length] by simp
  ultimately show ?thesis
    using c by (auto simp: rest_of_def sentences_of_def split_valid [OF assms] loop)
qed

lemma flush_enqueued:
  assumes "valid_utf8 t"
  shows "flushRemaining upper lower t (length (sentences_of upper lower t)) = Done (rest_of upper lower t)"
proof -
  obtain rs where rs: "t = string_of_runes rs" "\<forall>r\<in>set rs. valid_rune r" using valid_utf8_runes [OF assms] by blast
  from split_content [OF rs(2), of upper lower] show ?thesis
    by (auto simp: flushRemaining_def sentences_of_def rest_of_def rs(1) split: prod.splits)
qed

lemma sentences_append:
  assumes "valid_utf8 t" "valid_utf8 d" "settled t"
  shows "\<exists>new. sentences_of upper lower (t @ d) = sentences_of upper lower t @ new"
proof -
  obtain rs where rs: "t = string_of_runes rs" "\<forall>r\<in>set rs. valid_rune r" using valid_utf8_runes [OF assms(1)] by blast
  obtain qs where qs: "d = string_of_runes qs" "\<forall>r\<in>set qs. valid_rune r" using valid_utf8_runes [OF assms(2)] by blast
  have td: "t @ d = string_of_runes (rs @ qs)" "\<forall>r\<in>set (rs @ qs). valid_rune r"
    using rs qs by (auto simp: string_of_runes_append)
  have "settled_runes rs" using assms(3) rs by (simp add: settled_def runes_string_of_runes)
  from splitLoop_append [OF this, of 0 0 upper lower qs 0 "[]" 0] obtain new where
    "fst (splitLoop upper lower (rs @ qs) 0 0 0 []) = fst (splitLoop upper lower rs 0 0 0 []) @ new" by auto
  moreover have "sentences_of upper lower (t @ d) = fst (splitLoop upper lower (rs @ qs) 0 0 0 [])"
    by (simp only: td(1) sentences_split [OF td(2)])
  moreover have "sentences_of upper lower t = fst (splitLoop upper lower rs 0 0 0 [])"
    by (simp only: rs(1) sentences_split [OF rs(2)])
  ultimately show ?thesis by auto
qed

lemma valid_utf8_append: "valid_utf8 s \<Longrightarrow> valid_utf8 t \<Longrightarrow> valid_utf8 (s @ t)"
  using valid_utf8_runes valid_string_of_runes by (metis string_of_runes_append)

lemma valid_utf8_concat: "\<forall>d\<in>set ds. valid_utf8 d \<Longrightarrow> valid_utf8 (concat ds)"
  by (induction ds) (use valid_string_of_runes [of "[]"] in \<open>auto intro: valid_utf8_append\<close>)

lemma speechDelta_step:
  assumes "valid_utf8 (streamText sp)" "valid_utf8 d" "settled (streamText sp)"
    "sentencesEnqueued sp = length (sentences_of upper lower (streamText sp))"
  shows "\<exists>new. speechDelta upper lower d sp =
      (\<lparr> streamText = streamText sp @ d, sentencesEnqueued = length (sentences_of upper lower (streamText sp @ d)),
         sawDelta = (sawDelta sp \<or> d \<noteq> []) \<rparr>, new)
    \<and> sentences_of upper lower (streamText sp @ d) = sentences_of upper lower (streamText sp) @ new"
proof -
  obtain new where "sentences_of upper lower (streamText sp @ d) = sentences_of upper lower (streamText sp) @ new"
    using sentences_append [OF assms(1-3)] by blast
  then show ?thesis
    using assms(4) by (auto simp: speechDelta_def extractCompleteSentences_def sentences_of_def Let_def
        intro!: speech.equality)
qed

lemma speakDeltas_run:
  assumes "valid_utf8 (streamText sp)" "\<forall>d\<in>set ds. valid_utf8 d"
    "\<forall>k<length ds. settled (streamText sp @ concat (take k ds))"
    "sentencesEnqueued sp = length (sentences_of upper lower (streamText sp))"
  shows "\<exists>new. speakDeltas upper lower ds sp =
      (\<lparr> streamText = streamText sp @ concat ds,
         sentencesEnqueued = length (sentences_of upper lower (streamText sp @ concat ds)),
         sawDelta = (sawDelta sp \<or> concat ds \<noteq> []) \<rparr>, new)
    \<and> sentences_of upper lower (streamText sp @ concat ds) = sentences_of upper lower (streamText sp) @ new"
  using assms
proof (induction ds arbitrary: sp)
  case Nil
  then show ?case by (auto intro: speech.equality)
next
  case (Cons d ds)
  have "settled (streamText sp)" using Cons.prems(3) by force
  then obtain new1 where step: "speechDelta upper lower d sp =
      (\<lparr> streamText = streamText sp @ d, sentencesEnqueued = length (sentences_of upper lower (streamText sp @ d)),
         sawDelta = (sawDelta sp \<or> d \<noteq> []) \<rparr>, new1)" (is "_ = (?sp, _)")
    and all1: "sentences_of upper lower (streamText sp @ d) = sentences_of upper lower (streamText sp) @ new1"
    using speechDelta_step [OF Cons.prems(1) _ _ Cons.prems(4), of d] Cons.prems(2) by auto
  have "settled (streamText ?sp @ concat (take k ds))" if "k < length ds" for k
    using Cons.prems(3) that by (auto dest: spec [of _ "Suc k"])
  moreover have "valid_utf8 (streamText ?sp)" using Cons.prems(1,2) by (simp add: valid_utf8_append)
  ultimately obtain new2 where "speakDeltas upper lower ds ?sp =
      (\<lparr> streamText = streamText ?sp @ concat ds,
         sentencesEnqueued = length (sentences_of upper lower (streamText ?sp @ concat ds)),
         sawDelta = (sawDelta ?sp \<or> concat ds \<noteq> []) \<rparr>, new2)"
    "sentences_of upper lower (streamText ?sp @ concat ds) = sentences_of upper lower (streamText ?sp) @ new2"
    using Cons.IH [of ?sp] Cons.prems(2) by auto
  then show ?case using step all1 by (intro exI [of _ "new1 @ new2"]) auto
qed

lemma trim_runes:
  assumes "\<forall>r\<in>set rs. valid_rune r"
  shows "\<exists>qs. trim_space (string_of_runes rs) = string_of_runes qs \<and> (\<forall>r\<in>set qs. valid_rune r)
    \<and> nonblank_runes qs = nonblank_runes rs"
proof -
  let ?d = "dropWhile is_space" and ?e = "\<lambda>r. (r, encode_rune r)"
  have dw: "dropWhile (is_space \<circ> fst) (map ?e xs) = map ?e (?d xs)" for xs
    by (simp add: dropWhile_map o_def)
  have nb: "nonblank_runes (?d xs) = nonblank_runes xs" for xs
    by (induction xs) (simp_all add: nonblank_runes_def)
  have nr: "nonblank_runes (rev xs) = rev (nonblank_runes xs)" for xs
    by (simp add: nonblank_runes_def rev_filter)
  let ?q = "rev (?d (rev (?d rs)))"
  have "trim_space (string_of_runes rs) = string_of_runes ?q"
    using assms by (simp add: trim_space_def pieces_string_of_runes dw rev_map)
      (simp add: bytes_of_def string_of_runes_def o_def rev_map)
  moreover have "set ?q \<subseteq> set rs" by (metis set_dropWhileD set_rev subsetI)
  then have "\<forall>r\<in>set ?q. valid_rune r" using assms by blast
  moreover have "nonblank_runes ?q = nonblank_runes rs" by (simp add: nr nb)
  ultimately show ?thesis by blast
qed

lemma trim_nonblank: "valid_utf8 t \<Longrightarrow> nonblank (trim_space t) = nonblank t"
  using trim_runes valid_utf8_runes by (metis nonblank_string)

lemma trim_empty_nonblank: "valid_utf8 t \<Longrightarrow> trim_space t = [] \<Longrightarrow> nonblank t = []"
  using trim_nonblank [of t] by (simp add: nonblank_def runes_def nonblank_runes_def)

lemma spoken_value:
  assumes "\<forall>d\<in>set ds. valid_utf8 d" "\<forall>k<length ds. settled (concat (take k ds))" "concat ds \<noteq> []"
  shows "spoken upper lower ds finalText =
    (let t = concat ds; rest = trim_space (rest_of upper lower t) in
     Done (sentences_of upper lower t @ (if rest \<noteq> [] then [rest] else []) @ [[]]))"
proof -
  have "sentences_of upper lower [] = []" by (simp add: sentences_of_def splitSentences_def runes_def)
  then obtain new where "speakDeltas upper lower ds noSpeech =
      (\<lparr> streamText = concat ds, sentencesEnqueued = length (sentences_of upper lower (concat ds)), sawDelta = True \<rparr>, new)"
    "sentences_of upper lower (concat ds) = new"
    using speakDeltas_run [of noSpeech ds upper lower] assms valid_string_of_runes [of "[]"]
    by (auto simp: noSpeech_def)
  moreover from this(2) have "flushRemaining upper lower (concat ds) (length new) =
      Done (rest_of upper lower (concat ds))"
    using flush_enqueued [OF valid_utf8_concat [OF assms(1)], of upper lower] by simp
  ultimately show ?thesis by (simp add: spoken_def speechFinal_def Let_def)
qed

lemma spoken_final_only:
  assumes "concat ds = []" "valid_utf8 finalText"
  shows "spoken upper lower ds finalText =
    Done ((if trim_space finalText \<noteq> [] then [trim_space finalText] else []) @ [[]])"
proof -
  have "speechDelta upper lower [] noSpeech = (noSpeech, [])"
    by (simp add: speechDelta_def noSpeech_def extractCompleteSentences_def splitSentences_def runes_def Let_def)
  then have "speakDeltas upper lower ds noSpeech = (noSpeech, [])"
    using assms(1) by (induction ds) simp_all
  moreover obtain rs where rs: "finalText = string_of_runes rs" "\<forall>r\<in>set rs. valid_rune r"
    using valid_utf8_runes [OF assms(2)] by blast
  have "flushRemaining upper lower finalText 0 = Done finalText"
    using split_content [OF rs(2), of upper lower]
    by (auto simp: flushRemaining_def sentences_of_def rs(1) split: prod.splits)
  moreover have "flushRemaining upper lower [] 0 = Done []"
    by (simp add: flushRemaining_def splitSentences_def runes_def)
  moreover have "trim_space [] = []" by (simp add: trim_space_def bytes_of_def)
  ultimately show ?thesis by (simp add: spoken_def speechFinal_def noSpeech_def Let_def)
qed

text \<open>A forwarder that starts afresh and gets every delta puts the letters of the reply into the queue, once and in
  order, with the end of the response last, and the pieces are those of a reply in a single delta.\<close>

lemma spoken_content:
  assumes "\<forall>d\<in>set deltas. valid_utf8 d" and "valid_utf8 finalText"
    and "\<forall>k<length deltas. settled (concat (take k deltas))"
  shows "\<exists>xs. spoken upper lower deltas finalText = Done (xs @ [[]]) \<and> [] \<notin> set xs
    \<and> concat (map nonblank xs) = nonblank (if concat deltas = [] then finalText else concat deltas)
    \<and> spoken upper lower deltas finalText = spoken upper lower [concat deltas] finalText"
proof (cases "concat deltas = []")
  case True
  note spoken_final_only [OF _ assms(2), of _ upper lower]
  then show ?thesis
    using True trim_nonblank [OF assms(2)] trim_empty_nonblank [OF assms(2)]
    by (intro exI [of _ "if trim_space finalText \<noteq> [] then [trim_space finalText] else []"]) simp
next
  case False
  let ?t = "concat deltas" and ?rest = "trim_space (rest_of upper lower (concat deltas))"
  have v: "valid_utf8 ?t" by (rule valid_utf8_concat [OF assms(1)])
  obtain rs where rs: "?t = string_of_runes rs" "\<forall>r\<in>set rs. valid_rune r" using valid_utf8_runes [OF v] by blast
  obtain c where c: "rest_of upper lower ?t = string_of_runes (drop c rs)" "[] \<notin> set (sentences_of upper lower ?t)"
    "concat (map nonblank (sentences_of upper lower ?t)) = nonblank_runes (take c rs)"
    using split_content [OF rs(2), of upper lower] by (auto simp: rs(1))
  have vd: "\<forall>r\<in>set (drop c rs). valid_rune r" using rs(2) by (auto dest: in_set_dropD)
  have rest: "nonblank ?rest = nonblank_runes (drop c rs)" "?rest = [] \<Longrightarrow> nonblank_runes (drop c rs) = []"
    using trim_nonblank [of "rest_of upper lower ?t"] trim_empty_nonblank [of "rest_of upper lower ?t"]
      valid_string_of_runes c(1) vd by auto
  have one: "settled []" by (simp add: settled_def settled_runes_def runes_def)
  have "nonblank ?t = nonblank_runes (take c rs) @ nonblank_runes (drop c rs)"
    using rs by (simp flip: nonblank_runes_append)
  then show ?thesis
    using spoken_value [OF assms(1,3) False, of upper lower finalText]
      spoken_value [of "[?t]" upper lower finalText] v one False c rest
    by (intro exI [of _ "sentences_of upper lower ?t @ (if ?rest \<noteq> [] then [?rest] else [])"]) (auto simp: Let_def)
qed

lemmas split_eval = splitLoop.simps isSentenceEndRune_def isASCIIPunct_def clearBoundary_def is_space_def
  skipSpaces.simps Let_def

lemma number_strings:
  "string_of_runes [36, 51, 46] = ''$3.''" "runes ''$3.'' = [36, 51, 46]"
  "string_of_runes [36, 51, 46, 53, 48, 32, 100, 117, 101, 46] = ''$3.50 due.''"
  "runes ''$3.50 due.'' = [36, 51, 46, 53, 48, 32, 100, 117, 101, 46]"
  "runes ''$3.50 due'' = [36, 51, 46, 53, 48, 32, 100, 117, 101]"
  using ascii_string [of "''$3.''"] ascii_string [of "''$3.50 due.''"] ascii_string [of "''$3.50 due''"]
  by simp_all

lemma number_not_abbreviated:
  "\<not> looksLikeAbbreviation (\<lambda>s. s) [36, 51, 46]"
  "\<not> looksLikeAbbreviation (\<lambda>s. s) [36, 51, 46, 53, 48, 32, 100, 117, 101, 46]"
  by (simp_all add: looksLikeAbbreviation_def number_strings has_suffix_def trim_suffix_def Utf8.fields_def
      pieces_ascii is_space_def abbreviations_def Let_def)

lemma number_splits:
  "splitSentences upper (\<lambda>s. s) ''$3.'' = ([''$3.''], 3)"
  "splitSentences upper (\<lambda>s. s) ''$3.50 due.'' = ([''$3.50 due.''], 10)"
  "splitSentences upper (\<lambda>s. s) ''$3.50 due'' = ([], 0)"
  by (simp_all add: splitSentences_def split_eval number_strings number_not_abbreviated
      byteOffsetForRuneIndex_def pieces_ascii bytes_of_def)

text \<open>A cut behind a decimal point breaks the speech. After `$3.` and `50 due.` the rest of the number and of the
  sentence is never spoken; after `$3.` and `50 due` the number is spoken twice, once cut off and
  once whole.\<close>

theorem decimal_point_breaks_speech:
  "spoken upper (\<lambda>s. s) [''$3.'', ''50 due.''] [] = Done [''$3.'', []]
   \<and> spoken upper (\<lambda>s. s) [''$3.'', ''50 due''] [] = Done [''$3.'', ''$3.50 due'', []]"
proof -
  have "trim_space [] = []" "trim_space ''$3.50 due'' = ''$3.50 due''"
    by (simp_all add: trim_space_def bytes_of_def pieces_ascii is_space_def)
  then show ?thesis
    by (simp add: spoken_def speechDelta_def speechFinal_def flushRemaining_def extractCompleteSentences_def
        noSpeech_def number_splits Let_def)
qed

end
