(* ===== verification/VoiceSession.thy ===== *)
theory VoiceSession
  imports VoiceFrames VoiceSentences "HOL-Library.Multiset"
begin

text \<open>
  A voice call: \<open>internal/voice/session.go\<close>, \<open>turn_commit.go\<close>, \<open>barge_in.go\<close>, \<open>pipeline.go\<close> and the loops
  \<open>loop_llm_forwarder.go\<close>, \<open>loop_tts_synth.go\<close>, \<open>loop_audio_output.go\<close>. Several goroutines share one
  session. A goroutine is the list of instructions it still has to run; an instruction is one
  critical section of the session's mutex, one atomic operation or one channel operation, named
  after the statement it stands for, and \<open>execute\<close> says what it does to the session, which instructions replace
  it and which goroutines it starts. Goroutines interleave between any two instructions.

  What other parts answer is an argument of the step: the clock, fresh identifiers, the result of \<open>Dispatcher.Run\<close>,
  the transcriber's text, the chunks of the synthesizer and when they end. Identifiers are strings, the empty one means none.
  Observers, log messages and the cancel functions of the synthesizer's context are left out (after a
  cancellation the chunks may end at any time, as they may without).
\<close>

subsection \<open>State\<close>

datatype drop_reason = EmptyAudio | TooShortAudio | EmptyTranscript | TooShortText | QueueOverflow

datatype voice_event =
    TurnDropped string drop_reason nat
  | InputCommitted string string
  | TranscriptFinal string string
  | TurnCommitted string
  | TurnQueued string nat
  | BargeInTriggered
  | ResponseStarted string string
  | ResponseCompleted string string

datatype event_state = Queued | Delta | Final | Errored | Aborted | OtherState

record llm_event =
  eventState :: event_state
  eventText :: string
  eventRun :: string

record session =
  currentTurnId :: string
  pendingTurns :: "(string \<times> string) list"
  maxPendingTurns :: int
  committedTurns :: "string set"
  lastCommittedText :: string
  transcribeInFlight :: "string set"
  currentRunId :: string
  currentResponseId :: string
  currentResponseTurnId :: string
  canceledRuns :: "string set"
  runTurn :: "string \<rightharpoonup> string"
  speechReady :: bool
  userSpeaking :: bool
  explicitAudioBuffer :: bytes
  streaming :: bool
  interimText :: string
  streamingFinalTurnId :: string
  streamingFinalText :: string
  bargeInGen :: "64 word"
  bargeInFired :: "64 word"
  outSeq :: "64 word"
  ttsIn :: "string list"
  audioOut :: "bytes list"
  eventChannel :: "llm_event list"
  forwarder :: speech
  sentJson :: "(64 word \<times> voice_event) list"
  sentBinary :: "bytes list"
  dispatched :: "(string \<times> string) list"
  abortedRuns :: "string list"
  attempts :: "string list"

text \<open>
  The last five fields are what the rest of the program has seen: the events and frames sent to the client, the
  turns and texts given to \<open>Dispatcher.Run\<close>, the runs aborted, and the turns whose transcription was
  started.
\<close>

definition newSession :: session where
  "newSession = \<lparr> currentTurnId = [], pendingTurns = [], maxPendingTurns = 3, committedTurns = {},
     lastCommittedText = [], transcribeInFlight = {}, currentRunId = [], currentResponseId = [],
     currentResponseTurnId = [], canceledRuns = {}, runTurn = Map.empty, speechReady = False,
     userSpeaking = False, explicitAudioBuffer = [], streaming = False, interimText = [],
     streamingFinalTurnId = [], streamingFinalText = [], bargeInGen = 1, bargeInFired = 0, outSeq = 0,
     ttsIn = [], audioOut = [], eventChannel = [], forwarder = noSpeech, sentJson = [], sentBinary = [],
     dispatched = [], abortedRuns = [], attempts = [] \<rparr>"

definition minCommittedTextRunes :: nat where "minCommittedTextRunes = 1"
definition minStreamingFinalRunes :: nat where "minStreamingFinalRunes = 5"
definition defaultTtsSentenceBuffer :: nat where "defaultTtsSentenceBuffer = 32"
definition defaultAudioOutBufferFrames :: nat where "defaultAudioOutBufferFrames = 128"
definition eventBuffer :: nat where "eventBuffer = 128"

subsection \<open>Operations of the session\<close>

definition sendVoiceEvent :: "voice_event \<Rightarrow> session \<Rightarrow> session" where
  "sendVoiceEvent e s = s\<lparr> outSeq := outSeq s + 1, sentJson := sentJson s @ [(outSeq s + 1, e)] \<rparr>"

definition startTurn :: "string \<Rightarrow> session \<Rightarrow> session" where
  "startTurn turnId s = s\<lparr> currentTurnId := turnId, interimText := [], streamingFinalTurnId := [],
     streamingFinalText := [] \<rparr>"

definition enqueueAudioOut :: "bytes \<Rightarrow> session \<Rightarrow> session" where
  "enqueueAudioOut payload s =
     (if length (audioOut s) < defaultAudioOutBufferFrames then s\<lparr> audioOut := audioOut s @ [payload] \<rparr> else s)"

definition sendAudio :: "64 word \<Rightarrow> bytes \<Rightarrow> session \<Rightarrow> session" where
  "sendAudio now audio s =
     enqueueAudioOut (encodeBinaryAudioFrame \<lparr> frameType = FrameTypeAudioOut, frameSeq = outSeq s + 1,
       captureTimestamp = now, durationMs = 0, frameData = audio \<rparr>) (s\<lparr> outSeq := outSeq s + 1 \<rparr>)"

definition trySendFlushFrame :: "64 word \<Rightarrow> session \<Rightarrow> session" where
  "trySendFlushFrame now s =
     enqueueAudioOut (encodeBinaryAudioFrame \<lparr> frameType = FrameTypeFlush, frameSeq = outSeq s + 1,
       captureTimestamp = now, durationMs = 0, frameData = [] \<rparr>) (s\<lparr> outSeq := outSeq s + 1 \<rparr>)"

definition tryStartTurnTranscription :: "string \<Rightarrow> session \<Rightarrow> session option" where
  "tryStartTurnTranscription turnId s =
     (if turnId = [] then None
      else if turnId \<in> committedTurns s then None
      else if turnId \<in> transcribeInFlight s then None
      else Some (s\<lparr> transcribeInFlight := insert turnId (transcribeInFlight s), attempts := attempts s @ [turnId] \<rparr>))"

definition finishTurnTranscription :: "string \<Rightarrow> session \<Rightarrow> session" where
  "finishTurnTranscription turnId s =
     (if turnId = [] then s else s\<lparr> transcribeInFlight := transcribeInFlight s - {turnId} \<rparr>)"

definition markTurnCommitted :: "string \<Rightarrow> session \<Rightarrow> session" where
  "markTurnCommitted turnId s = (if turnId = [] then s else s\<lparr> committedTurns := insert turnId (committedTurns s) \<rparr>)"

definition markRunCanceled :: "string \<Rightarrow> session \<Rightarrow> session" where
  "markRunCanceled runId s = (if runId = [] then s else s\<lparr> canceledRuns := insert runId (canceledRuns s) \<rparr>)"

definition isRunCanceled :: "string \<Rightarrow> session \<Rightarrow> bool" where
  "isRunCanceled runId s \<longleftrightarrow> runId \<noteq> [] \<and> runId \<in> canceledRuns s"

definition clearCanceledRun :: "string \<Rightarrow> session \<Rightarrow> session" where
  "clearCanceledRun runId s = (if runId = [] then s else s\<lparr> canceledRuns := canceledRuns s - {runId} \<rparr>)"

definition mapRunToTurn :: "string \<Rightarrow> string \<Rightarrow> session \<Rightarrow> session" where
  "mapRunToTurn runId turnId s =
     (if runId = [] \<or> turnId = [] then s else s\<lparr> runTurn := (runTurn s)(runId \<mapsto> turnId) \<rparr>)"

definition turnIdForRun :: "string \<Rightarrow> session \<Rightarrow> string" where
  "turnIdForRun runId s = (if runId = [] then [] else case runTurn s runId of None \<Rightarrow> [] | Some t \<Rightarrow> t)"

definition clearRunTurn :: "string \<Rightarrow> session \<Rightarrow> session" where
  "clearRunTurn runId s = (if runId = [] then s else s\<lparr> runTurn := (runTurn s)(runId := None) \<rparr>)"

definition setCurrentResponseID :: "string \<Rightarrow> session \<Rightarrow> session" where
  "setCurrentResponseID i s =
     (let s = s\<lparr> currentResponseId := i \<rparr> in if i = [] then s\<lparr> currentResponseTurnId := [] \<rparr> else s)"

text \<open>The dropped turn, if any, and the depth of the queue afterwards.\<close>

definition enqueuePendingTurn :: "string \<Rightarrow> string \<Rightarrow> session \<Rightarrow> session \<times> (string \<times> string) option \<times> nat" where
  "enqueuePendingTurn turnId txt s =
     (if turnId = [] \<or> txt = [] then (s, None, 0)
      else
        (let maxPending = nat (if maxPendingTurns s \<le> 0 then 3 else maxPendingTurns s);
             dropped = (if length (pendingTurns s) \<ge> maxPending then Some (hd (pendingTurns s)) else None);
             kept = (if length (pendingTurns s) \<ge> maxPending then tl (pendingTurns s) else pendingTurns s);
             pending = kept @ [(turnId, txt)] in
         (s\<lparr> pendingTurns := pending \<rparr>, dropped, length pending)))"

definition enqueueTranscriptTurn :: "string \<Rightarrow> string \<Rightarrow> session \<Rightarrow> session" where
  "enqueueTranscriptTurn turnId txt s =
     (case enqueuePendingTurn turnId txt s of (s, dropped, depth) \<Rightarrow>
        let s = (case dropped of None \<Rightarrow> s | Some d \<Rightarrow> sendVoiceEvent (TurnDropped (fst d) QueueOverflow depth) s) in
        sendVoiceEvent (TurnQueued turnId depth) s)"

definition takeStreamingFinalText :: "string \<Rightarrow> session \<Rightarrow> session \<times> string" where
  "takeStreamingFinalText turnId s =
     (if streamingFinalTurnId s \<noteq> turnId then (s, [])
      else (s\<lparr> streamingFinalTurnId := [], streamingFinalText := [] \<rparr>, streamingFinalText s))"

text \<open>\<open>OnEvent\<close>: what the subscriber does with an event of its conversation.\<close>

definition critical :: "event_state \<Rightarrow> bool" where
  "critical st \<longleftrightarrow> st = Final \<or> st = Errored \<or> st = Aborted \<or> st = Queued"

definition onEvent :: "llm_event \<Rightarrow> llm_event list \<Rightarrow> llm_event list" where
  "onEvent e chan =
     (if \<not> critical (eventState e) then (if length chan < eventBuffer then chan @ [e] else chan)
      else if length chan < eventBuffer then chan @ [e]
      else (let chan = tl chan in if length chan < eventBuffer then chan @ [e] else chan))"

subsection \<open>Instructions\<close>

datatype barge_instr =
    StartTurn string | AddGeneration | StoreFired "64 word"
  | LoadGeneration | FireBargeIn "64 word" | ReadRunToCancel | MarkRunCanceled string
  | DrainTtsQueue | DrainAudioOutQueue | SendFlush | AbortRun string | AnnounceBargeIn
  | ClearCurrentRun | ClearCurrentResponse

datatype turn_instr =
    InputCommit string | TakeExplicitAudio string string | TryTranscribe string bytes | CommitCapturedTurn string bytes
  | AwaitStreamingFinal string bytes | TakeStreamingFinal string bytes | Transcribe string bytes
  | SendTranscript string string | CheckResponse | CheckRun string string | EnqueueTurn string string
  | CheckCommitted string string | CommitTurn string string | Dispatch string string
  | MarkTurnCommitted string | SetCurrentRun string | MapRun string string | AnnounceCommitted string
  | FinishTranscription string

datatype forward_instr =
    HandleEvent llm_event | NoteRun llm_event | SpeakDelta string | FlushSpeech string string | SendTts string
  | ClearRunTurn string | ClearCanceledRun string | ResetSpeech | CommitNextPending | DequeuePending
  | CheckNext string string

datatype speak_instr =
    TakeSentence | CompleteResponse | AnnounceResponseCompleted string | Synthesize string
  | PlayChunks bool "bytes list" | StartResponse | SetResponse string | AnnounceResponseStarted string
  | SendAudio bytes | WriteAudioOut

datatype instruction = Barge barge_instr | Turn turn_instr | Forward forward_instr | Speak speak_instr | Dead

record answers =
  now :: "64 word"
  freshId :: string
  runResult :: "string option"
  transcript :: "string option"
  chunks :: "bytes list option"
  chunksEnd :: bool
  upperCase :: "rune \<Rightarrow> bool"
  lowerCase :: "string \<Rightarrow> string"

type_synonym goroutine = "instruction list"

text \<open>Instructions that wait: for a full or empty channel, or for the end of the user's speech.\<close>

definition ready :: "instruction \<Rightarrow> session \<Rightarrow> bool" where
  "ready i s =
     (case i of
        Forward (SendTts x) \<Rightarrow> length (ttsIn s) < defaultTtsSentenceBuffer
      | Speak TakeSentence \<Rightarrow> ttsIn s \<noteq> []
      | Speak (Synthesize x) \<Rightarrow> \<not> userSpeaking s
      | Speak WriteAudioOut \<Rightarrow> audioOut s \<noteq> []
      | Dead \<Rightarrow> False
      | _ \<Rightarrow> True)"

text \<open>\<open>triggerBargeIn\<close> is \<open>[Barge LoadGeneration]\<close>, \<open>startNewTurn t\<close> is
  \<open>[Barge (StartTurn t), Barge AddGeneration]\<close>.\<close>

fun bargeInStep :: "answers \<Rightarrow> barge_instr \<Rightarrow> session \<Rightarrow> session \<times> instruction list" where
  "bargeInStep a (StartTurn t) s = (startTurn t s, [])"
| "bargeInStep a AddGeneration s = (s\<lparr> bargeInGen := bargeInGen s + 1 \<rparr>, [Barge (StoreFired (bargeInGen s + 1))])"
| "bargeInStep a (StoreFired newGen) s = (s\<lparr> bargeInFired := newGen - 1 \<rparr>, [])"
| "bargeInStep a LoadGeneration s = (s, [Barge (FireBargeIn (bargeInGen s))])"
| "bargeInStep a (FireBargeIn gen) s =
     (if bargeInFired s = gen - 1 then (s\<lparr> bargeInFired := gen \<rparr>, [Barge ReadRunToCancel]) else (s, []))"
| "bargeInStep a ReadRunToCancel s =
     (s, map Barge [MarkRunCanceled (currentRunId s), DrainTtsQueue, DrainAudioOutQueue, SendFlush,
          AbortRun (currentRunId s), ClearCurrentRun, ClearCurrentResponse, AnnounceBargeIn])"
| "bargeInStep a (MarkRunCanceled r) s = (markRunCanceled r s, [])"
| "bargeInStep a DrainTtsQueue s =
     (case ttsIn s of [] \<Rightarrow> (s, []) | x # xs \<Rightarrow> (s\<lparr> ttsIn := xs \<rparr>, [Barge DrainTtsQueue]))"
| "bargeInStep a DrainAudioOutQueue s =
     (case audioOut s of [] \<Rightarrow> (s, []) | x # xs \<Rightarrow> (s\<lparr> audioOut := xs \<rparr>, [Barge DrainAudioOutQueue]))"
| "bargeInStep a SendFlush s = (trySendFlushFrame (now a) s, [])"
| "bargeInStep a (AbortRun r) s = (if r \<noteq> [] then s\<lparr> abortedRuns := abortedRuns s @ [r] \<rparr> else s, [])"
| "bargeInStep a AnnounceBargeIn s = (sendVoiceEvent BargeInTriggered s, [])"
| "bargeInStep a ClearCurrentRun s = (s\<lparr> currentRunId := [] \<rparr>, [])"
| "bargeInStep a ClearCurrentResponse s = (setCurrentResponseID [] s, [])"

text \<open>From captured audio to a run of the agent; the third component are the goroutines started.\<close>

fun turnStep :: "answers \<Rightarrow> turn_instr \<Rightarrow> session \<Rightarrow> session \<times> instruction list \<times> goroutine list" where
  "turnStep a (InputCommit reason) s =
     (if currentTurnId s = []
      then (s, [Barge (StartTurn (freshId a)), Barge AddGeneration, Turn (TakeExplicitAudio (freshId a) reason)], [])
      else (s, [Turn (TakeExplicitAudio (currentTurnId s) reason)], []))"
| "turnStep a (TakeExplicitAudio t reason) s =
     (let audio = explicitAudioBuffer s; s = s\<lparr> explicitAudioBuffer := [] \<rparr> in
      if audio = [] then (sendVoiceEvent (TurnDropped t EmptyAudio 0) s, [], [])
      else if length audio < minCommittedTurnBytes then (sendVoiceEvent (TurnDropped t TooShortAudio 0) s, [], [])
      else ((sendVoiceEvent (InputCommitted t reason) s)\<lparr> speechReady := False \<rparr>, [Turn (TryTranscribe t audio)], []))"
| "turnStep a (TryTranscribe t audio) s =
     (case tryStartTurnTranscription t s of
        None \<Rightarrow> (s, [], [])
      | Some s \<Rightarrow> (s, [], [map Turn [Transcribe t audio, FinishTranscription t]]))"
| "turnStep a (CommitCapturedTurn t audio) s =
     (case tryStartTurnTranscription t s of
        None \<Rightarrow> (s, [], [])
      | Some s' \<Rightarrow>
          (s', [], [map Turn [if streaming s then AwaitStreamingFinal t audio else Transcribe t audio,
            FinishTranscription t]]))"
| "turnStep a (AwaitStreamingFinal t audio) s =
     (s, if t \<noteq> [] \<and> t \<in> committedTurns s then [] else [Turn (TakeStreamingFinal t audio)], [])"
| "turnStep a (TakeStreamingFinal t audio) s =
     (case takeStreamingFinalText t s of (s, x) \<Rightarrow>
        let finalText = trim_space x in
        (s, if finalText \<noteq> [] \<and> length (runes finalText) \<ge> minStreamingFinalRunes then [Turn (SendTranscript t finalText)]
            else [Turn (Transcribe t audio)], []))"
| "turnStep a (Transcribe t audio) s =
     (s, if audio = [] then [] else
         (case transcript a of None \<Rightarrow> [] | Some x \<Rightarrow> [Turn (SendTranscript t (trim_space x))]), [])"
| "turnStep a (SendTranscript t rawText) s =
     (let txt = trim_space rawText in
      if txt = [] then (sendVoiceEvent (TurnDropped t EmptyTranscript 0) s, [], [])
      else if length (runes txt) < minCommittedTextRunes then (sendVoiceEvent (TurnDropped t TooShortText 0) s, [], [])
      else (s, map Turn [CheckResponse, CheckRun t txt], []))"
| "turnStep a CheckResponse s = (s, if currentResponseId s \<noteq> [] then [Barge LoadGeneration] else [], [])"
| "turnStep a (CheckRun t txt) s =
     (s, if currentRunId s \<noteq> [] then [Turn (EnqueueTurn t txt)] else [Turn (CheckCommitted t txt)], [])"
| "turnStep a (EnqueueTurn t txt) s = (enqueueTranscriptTurn t txt s, [], [])"
| "turnStep a (CheckCommitted t txt) s =
     (s, if t \<noteq> [] \<and> t \<in> committedTurns s then [] else [Turn (CommitTurn t txt)], [])"
| "turnStep a (CommitTurn t txt) s =
     (sendVoiceEvent (TranscriptFinal t txt) (s\<lparr> lastCommittedText := txt \<rparr>), [Turn (Dispatch t txt)], [])"
| "turnStep a (Dispatch t txt) s =
     (s\<lparr> dispatched := dispatched s @ [(t, txt)] \<rparr>,
      case runResult a of None \<Rightarrow> []
      | Some r \<Rightarrow> map Turn [MarkTurnCommitted t, SetCurrentRun r, MapRun r t, AnnounceCommitted t], [])"
| "turnStep a (MarkTurnCommitted t) s = (markTurnCommitted t s, [], [])"
| "turnStep a (SetCurrentRun r) s = (s\<lparr> currentRunId := r \<rparr>, [], [])"
| "turnStep a (MapRun r t) s = (mapRunToTurn r t s, [], [])"
| "turnStep a (AnnounceCommitted t) s = (sendVoiceEvent (TurnCommitted t) s, [], [])"
| "turnStep a (FinishTranscription t) s = (finishTurnTranscription t s, [], [])"

text \<open>The forwarder: events of the agent become sentences, the end of a run commits the next pending turn.\<close>

definition terminal :: "event_state \<Rightarrow> bool" where
  "terminal st \<longleftrightarrow> st = Final \<or> st = Aborted \<or> st = Errored"

fun forwardStep :: "answers \<Rightarrow> forward_instr \<Rightarrow> session \<Rightarrow> (session \<times> instruction list) outcome" where
  "forwardStep a (HandleEvent e) s =
     Done (s, if isRunCanceled (eventRun e) s
              then (if terminal (eventState e) then [Forward (ClearCanceledRun (eventRun e))] else [])
              else [Forward (NoteRun e)])"
| "forwardStep a (NoteRun e) s =
     Done (if eventRun e \<noteq> [] \<and> (eventState e = Queued \<or> eventState e = Delta)
           then s\<lparr> currentRunId := eventRun e \<rparr> else s,
           if eventState e = Delta then [Forward (SpeakDelta (eventText e))]
           else if terminal (eventState e) then [Forward (FlushSpeech (eventText e) (eventRun e))] else [])"
| "forwardStep a (SpeakDelta d) s =
     (case speechDelta (upperCase a) (lowerCase a) d (forwarder s) of (sp, new) \<Rightarrow>
        Done (s\<lparr> forwarder := sp \<rparr>, map (\<lambda>x. Forward (SendTts x)) new))"
| "forwardStep a (FlushSpeech t r) s =
     and_then (speechFinal (upperCase a) (lowerCase a) t (forwarder s)) (\<lambda>new.
       Done (s, map (\<lambda>x. Forward (SendTts x)) new @ [Barge ClearCurrentRun]
         @ map Forward [ClearRunTurn r, ClearCanceledRun r, ResetSpeech, CommitNextPending]))"
| "forwardStep a (SendTts x) s = Done (s\<lparr> ttsIn := ttsIn s @ [x] \<rparr>, [])"
| "forwardStep a (ClearRunTurn r) s = Done (clearRunTurn r s, [])"
| "forwardStep a (ClearCanceledRun r) s = Done (clearCanceledRun r s, [])"
| "forwardStep a ResetSpeech s = Done (s\<lparr> forwarder := noSpeech \<rparr>, [])"
| "forwardStep a CommitNextPending s = Done (s, if currentRunId s \<noteq> [] then [] else [Forward DequeuePending])"
| "forwardStep a DequeuePending s =
     Done (case pendingTurns s of [] \<Rightarrow> (s, [])
           | (t, x) # ps \<Rightarrow> (s\<lparr> pendingTurns := ps \<rparr>, [Forward (CheckNext t x)]))"
| "forwardStep a (CheckNext t x) s =
     Done (s, if x = [] \<or> t = [] \<or> t \<in> committedTurns s then [] else [Turn (CommitTurn t x)])"

text \<open>The synthesizer and the writer of audio frames.\<close>

fun speakStep :: "answers \<Rightarrow> speak_instr \<Rightarrow> session \<Rightarrow> session \<times> instruction list" where
  "speakStep a TakeSentence s =
     (case ttsIn s of [] \<Rightarrow> (s, [])
      | x # xs \<Rightarrow> (s\<lparr> ttsIn := xs \<rparr>, if x = [] then [Speak CompleteResponse] else [Speak (Synthesize x)]))"
| "speakStep a CompleteResponse s =
     (s, (if currentResponseId s \<noteq> [] then [Speak (AnnounceResponseCompleted (currentResponseId s))] else [])
         @ [Barge ClearCurrentResponse])"
| "speakStep a (AnnounceResponseCompleted rid) s =
     (sendVoiceEvent (ResponseCompleted rid
        (if currentResponseTurnId s = [] then currentTurnId s else currentResponseTurnId s)) s, [])"
| "speakStep a (Synthesize x) s =
     (s, case chunks a of None \<Rightarrow> [] | Some cs \<Rightarrow> [Speak (PlayChunks (currentResponseId s \<noteq> []) cs)])"
| "speakStep a (PlayChunks started cs) s =
     (s, if chunksEnd a then []
         else (case cs of [] \<Rightarrow> []
               | c # cs' \<Rightarrow> if c = [] then [Speak (PlayChunks started cs')]
                   else (if started then [] else [Speak StartResponse]) @ map Speak [SendAudio c, PlayChunks True cs']))"
| "speakStep a StartResponse s =
     (s, (if currentResponseId s = [] then map Speak [SetResponse (freshId a), AnnounceResponseStarted (freshId a)]
          else [Speak (AnnounceResponseStarted (currentResponseId s))]))"
| "speakStep a (SetResponse i) s = (setCurrentResponseID i s, [])"
| "speakStep a (AnnounceResponseStarted i) s =
     (let t = (if turnIdForRun (currentRunId s) s = [] then currentTurnId s else turnIdForRun (currentRunId s) s) in
      (sendVoiceEvent (ResponseStarted i t) (s\<lparr> currentResponseTurnId := t \<rparr>), []))"
| "speakStep a (SendAudio c) s = (sendAudio (now a) c s, [])"
| "speakStep a WriteAudioOut s =
     (case audioOut s of [] \<Rightarrow> (s, [])
      | x # xs \<Rightarrow> (s\<lparr> audioOut := xs, sentBinary := sentBinary s @ [x] \<rparr>, []))"

definition execute ::
  "answers \<Rightarrow> instruction \<Rightarrow> session \<Rightarrow> (session \<times> instruction list \<times> goroutine list) outcome" where
  "execute a i s =
     (case i of
        Barge b \<Rightarrow> Done (case bargeInStep a b s of (s, next) \<Rightarrow> (s, next, []))
      | Turn t \<Rightarrow> Done (turnStep a t s)
      | Forward f \<Rightarrow> and_then (forwardStep a f s) (\<lambda>(s, next). Done (s, next, []))
      | Speak p \<Rightarrow> Done (case speakStep a p s of (s, next) \<Rightarrow> (s, next, []))
      | Dead \<Rightarrow> Hangs)"

subsection \<open>Interleaving\<close>

text \<open>
  The goroutines 0, 1 and 2 are the loops of the forwarder, the synthesizer and the audio writer, which go
  round when they have nothing left to do; the others are transcriptions and calls of the audio input
  loop and of the websocket handlers. A panic ends its goroutine (\<open>deferutil.Recover\<close>).
\<close>

record call =
  sess :: session
  goroutines :: "goroutine list"

datatype stimulus =
    SpeechStarted string | CapturedTurn string bytes | CommitInput string | CancelResponse
  | AudioFrame bytes | UserSpeaking bool | InterimResult string | FinalResult string | StreamClosed | AgentEvent llm_event

fun stimulate :: "stimulus \<Rightarrow> call \<Rightarrow> call" where
  "stimulate (SpeechStarted t) c = c\<lparr> goroutines := goroutines c @ [map Barge [StartTurn t, AddGeneration]] \<rparr>"
| "stimulate (CapturedTurn t audio) c = c\<lparr> goroutines := goroutines c @ [[Turn (CommitCapturedTurn t audio)]] \<rparr>"
| "stimulate (CommitInput reason) c = c\<lparr> goroutines := goroutines c @ [[Turn (InputCommit reason)]] \<rparr>"
| "stimulate CancelResponse c = c\<lparr> goroutines := goroutines c @ [[Barge LoadGeneration]] \<rparr>"
| "stimulate (AudioFrame frame) c =
     c\<lparr> sess := (sess c)\<lparr> explicitAudioBuffer := explicitAudioBuffer (sess c) @ frame \<rparr> \<rparr>"
| "stimulate (UserSpeaking b) c = c\<lparr> sess := (sess c)\<lparr> userSpeaking := b \<rparr> \<rparr>"
| "stimulate (InterimResult x) c = c\<lparr> sess := (sess c)\<lparr> interimText := x \<rparr> \<rparr>"
| "stimulate (FinalResult x) c =
     (if currentTurnId (sess c) = [] then c
      else c\<lparr> sess := (sess c)\<lparr> interimText := x, streamingFinalTurnId := currentTurnId (sess c),
             streamingFinalText := x \<rparr> \<rparr>)"
| "stimulate StreamClosed c = c\<lparr> sess := (sess c)\<lparr> streaming := False \<rparr> \<rparr>"
| "stimulate (AgentEvent e) c =
     c\<lparr> sess := (sess c)\<lparr> eventChannel := onEvent e (eventChannel (sess c)) \<rparr> \<rparr>"

definition newCall :: "bool \<Rightarrow> call" where
  "newCall withStream = \<lparr> sess = newSession\<lparr> streaming := withStream \<rparr>, goroutines = [[], [], []] \<rparr>"

definition runGoroutine :: "answers \<Rightarrow> nat \<Rightarrow> call \<Rightarrow> call" where
  "runGoroutine a g c =
     (if g < length (goroutines c) then
        (case goroutines c ! g of
           [] \<Rightarrow>
             (if g = 0 then
                (case eventChannel (sess c) of [] \<Rightarrow> c
                 | e # es \<Rightarrow> c\<lparr> sess := (sess c)\<lparr> eventChannel := es \<rparr>,
                     goroutines := (goroutines c)[0 := [Forward (HandleEvent e)]] \<rparr>)
              else if g = 1 then c\<lparr> goroutines := (goroutines c)[1 := [Speak TakeSentence]] \<rparr>
              else if g = 2 then c\<lparr> goroutines := (goroutines c)[2 := [Speak WriteAudioOut]] \<rparr>
              else c)
         | i # rest \<Rightarrow>
             (if \<not> ready i (sess c) then c
              else (case execute a i (sess c) of
                      Done (s, next, new) \<Rightarrow>
                        c\<lparr> sess := s, goroutines := (goroutines c)[g := next @ rest] @ new \<rparr>
                    | _ \<Rightarrow> c\<lparr> goroutines := (goroutines c)[g := [Dead]] \<rparr>)))
      else c)"

datatype call_move = Run answers nat | Stimulus stimulus

fun makeMove :: "call_move \<Rightarrow> call \<Rightarrow> call" where
  "makeMove (Run a g) c = runGoroutine a g c"
| "makeMove (Stimulus x) c = stimulate x c"

definition runCall :: "bool \<Rightarrow> call_move list \<Rightarrow> call" where
  "runCall withStream ms = fold makeMove ms (newCall withStream)"

end
