(* ===== verification/VoiceTurns.thy ===== *)
theory VoiceTurns
  imports VoiceSession
begin

text \<open>
  What holds of a voice call in every interleaving of its goroutines: how often a turn is transcribed and
  given to the agent, the bound of the pending queue, and how barge-in behaves.
\<close>

subsection \<open>Counting over goroutines\<close>

definition held :: "(instruction \<Rightarrow> nat) \<Rightarrow> goroutine list \<Rightarrow> nat" where
  "held h gs = (\<Sum>g\<leftarrow>gs. \<Sum>i\<leftarrow>g. h i)"

lemma held_append [simp]: "held h (gs @ hs) = held h gs + held h hs"
  by (simp add: held_def)

lemma held_simps [simp]: "held h [] = 0" "held h (g # gs) = (\<Sum>i\<leftarrow>g. h i) + held h gs"
  by (simp_all add: held_def)

lemma held_update:
  "g < length gs \<Longrightarrow> held h (gs[g := is]) + (\<Sum>i\<leftarrow>gs ! g. h i) = held h gs + (\<Sum>i\<leftarrow>is. h i)"
proof (induction gs arbitrary: g)
  case Nil
  then show ?case by simp
next
  case (Cons x gs)
  then show ?case by (cases g) auto
qed

text \<open>What a goroutine can do to the session in one go.\<close>

lemma runGoroutine_session:
  "sess (runGoroutine a g c) = sess c
   \<or> (\<exists>e es. eventChannel (sess c) = e # es \<and> sess (runGoroutine a g c) = (sess c)\<lparr> eventChannel := es \<rparr>)
   \<or> (\<exists>i nxt new. ready i (sess c) \<and> execute a i (sess c) = Done (sess (runGoroutine a g c), nxt, new))"
proof (cases "g < length (goroutines c)")
  case False
  then show ?thesis by (simp add: runGoroutine_def)
next
  case g: True
  show ?thesis
  proof (cases "goroutines c ! g")
    case Nil
    then show ?thesis using g by (cases "eventChannel (sess c)") (simp_all add: runGoroutine_def)
  next
    case (Cons i rest)
    show ?thesis
    proof (cases "ready i (sess c)")
      case False
      then show ?thesis using g Cons by (simp add: runGoroutine_def)
    next
      case True
      show ?thesis
      proof (cases "execute a i (sess c)")
        case (Done r)
        then have "sess (runGoroutine a g c) = fst r" using True g Cons by (simp add: runGoroutine_def split: prod.splits)
        then show ?thesis using Done True by (metis prod.collapse)
      qed (use True g Cons in \<open>simp_all add: runGoroutine_def\<close>)
    qed
  qed
qed

subsection \<open>A measure that no instruction raises\<close>

text \<open>
  A resource of the session (\<open>amount\<close>) together with what the goroutines still hold of it never exceeds
  what was handed out (\<open>granted\<close>).
\<close>

locale resource =
  fixes amount granted :: "session \<Rightarrow> nat"
    and hold :: "instruction \<Rightarrow> nat"
  assumes execute_balanced: "execute a i s = Done (s', next, new) \<Longrightarrow>
      amount s' + (\<Sum>j\<leftarrow>next. hold j) + held hold new + granted s \<le> amount s + hold i + granted s'"
    and stimulate_balanced: "amount (sess (stimulate x c)) + held hold (goroutines (stimulate x c)) + granted (sess c)
      \<le> amount (sess c) + held hold (goroutines c) + granted (sess (stimulate x c))"
    and channel_free: "amount (s\<lparr> eventChannel := es \<rparr>) = amount s" "granted (s\<lparr> eventChannel := es \<rparr>) = granted s"
    and loops_hold_nothing: "hold (Forward (HandleEvent e)) = 0" "hold (Speak TakeSentence) = 0"
      "hold (Speak WriteAudioOut) = 0" "hold Dead = 0"
begin

definition balanced :: "call \<Rightarrow> bool" where
  "balanced c \<longleftrightarrow> amount (sess c) + held hold (goroutines c) \<le> granted (sess c)"

lemma goroutine_balanced:
  assumes "balanced c"
  shows "balanced (runGoroutine a g c)"
proof (cases "g < length (goroutines c)")
  case False
  then show ?thesis using assms by (simp add: runGoroutine_def)
next
  case g: True
  show ?thesis
  proof (cases "goroutines c ! g")
    case Nil
    have "held hold ((goroutines c)[g := [i]]) = held hold (goroutines c) + hold i" for i
      using held_update [OF g, of hold "[i]"] Nil by simp
    then show ?thesis
      using assms g Nil by (auto simp: runGoroutine_def balanced_def channel_free loops_hold_nothing split: list.splits)
  next
    case (Cons i rest)
    show ?thesis
    proof (cases "ready i (sess c)")
      case False
      then show ?thesis using assms g Cons by (simp add: runGoroutine_def)
    next
      case True
      show ?thesis
      proof (cases "execute a i (sess c)")
        case (Done r)
        obtain s' nxt new where r: "r = (s', nxt, new)" by (cases r)
        have "held hold ((goroutines c)[g := nxt @ rest]) + hold i = held hold (goroutines c) + (\<Sum>j\<leftarrow>nxt. hold j)"
          using held_update [OF g, of hold "nxt @ rest"] Cons by simp
        then show ?thesis
          using assms g Cons True Done r execute_balanced [of a i "sess c" s' nxt new]
          by (simp add: runGoroutine_def balanced_def)
      next
        case Panics
        have "held hold ((goroutines c)[g := [Dead]]) \<le> held hold (goroutines c)"
          using held_update [OF g, of hold "[Dead]"] by (simp add: loops_hold_nothing)
        then show ?thesis using assms g Cons True Panics by (simp add: runGoroutine_def balanced_def)
      next
        case Hangs
        have "held hold ((goroutines c)[g := [Dead]]) \<le> held hold (goroutines c)"
          using held_update [OF g, of hold "[Dead]"] by (simp add: loops_hold_nothing)
        then show ?thesis using assms g Cons True Hangs by (simp add: runGoroutine_def balanced_def)
      qed
    qed
  qed
qed

lemma move_balanced: "balanced c \<Longrightarrow> balanced (makeMove m c)"
proof (cases m)
  case (Stimulus x)
  assume "balanced c"
  then show ?thesis using stimulate_balanced [of x c] Stimulus by (simp add: balanced_def)
qed (simp add: goroutine_balanced)

end

sublocale resource \<subseteq> machine makeMove balanced
  by unfold_locales (rule move_balanced)

subsection \<open>A transcript leads to at most one run\<close>

fun turn_claim :: "string \<Rightarrow> turn_instr \<Rightarrow> nat" where
  "turn_claim t (AwaitStreamingFinal u _) = of_bool (u = t)"
| "turn_claim t (TakeStreamingFinal u _) = of_bool (u = t)"
| "turn_claim t (Transcribe u _) = of_bool (u = t)"
| "turn_claim t (SendTranscript u _) = of_bool (u = t)"
| "turn_claim t (CheckRun u _) = of_bool (u = t)"
| "turn_claim t (EnqueueTurn u _) = of_bool (u = t)"
| "turn_claim t (CheckCommitted u _) = of_bool (u = t)"
| "turn_claim t (CommitTurn u _) = of_bool (u = t)"
| "turn_claim t (Dispatch u _) = of_bool (u = t)"
| "turn_claim t _ = 0"

fun claim :: "string \<Rightarrow> instruction \<Rightarrow> nat" where
  "claim t (Turn i) = turn_claim t i"
| "claim t (Forward (CheckNext u _)) = of_bool (u = t)"
| "claim t _ = 0"

definition runs_of :: "string \<Rightarrow> session \<Rightarrow> nat" where
  "runs_of t s = count_list (map fst (dispatched s)) t"

definition claims_of :: "string \<Rightarrow> session \<Rightarrow> nat" where
  "claims_of t s = runs_of t s + count_list (map fst (pendingTurns s)) t"

definition attempts_of :: "string \<Rightarrow> session \<Rightarrow> nat" where
  "attempts_of t s = count_list (attempts s) t"

lemmas count_defs = runs_of_def claims_of_def attempts_of_def
lemmas session_ops = sendVoiceEvent_def startTurn_def enqueueAudioOut_def sendAudio_def trySendFlushFrame_def
  finishTurnTranscription_def markTurnCommitted_def markRunCanceled_def clearCanceledRun_def mapRunToTurn_def
  clearRunTurn_def setCurrentResponseID_def takeStreamingFinalText_def Let_def

lemma count_tl: "count_list (map fst (tl xs)) t \<le> count_list (map fst xs) t"
  by (cases xs) auto

lemma enqueue_claims:
  "claims_of t (enqueueTranscriptTurn u x s) \<le> claims_of t s + of_bool (u = t)"
  "attempts (enqueueTranscriptTurn u x s) = attempts s"
  using count_tl [of "pendingTurns s" t]
  by (auto simp: enqueueTranscriptTurn_def enqueuePendingTurn_def sendVoiceEvent_def count_defs Let_def
      split: option.splits)

lemma barge_claims:
  "bargeInStep a i s = (s', next) \<Longrightarrow>
   claims_of t s' = claims_of t s \<and> attempts_of t s' = attempts_of t s \<and> (\<Sum>j\<leftarrow>next. claim t j) = 0"
  by (cases i) (auto simp: count_defs session_ops split: list.splits if_splits)

lemma speak_claims:
  "speakStep a i s = (s', next) \<Longrightarrow>
   claims_of t s' = claims_of t s \<and> attempts_of t s' = attempts_of t s \<and> (\<Sum>j\<leftarrow>next. claim t j) = 0"
  by (cases i) (auto simp: count_defs session_ops split: list.splits if_splits option.splits)

lemma forward_claims:
  "forwardStep a i s = Done (s', next) \<Longrightarrow>
   claims_of t s' + (\<Sum>j\<leftarrow>next. claim t j) \<le> claims_of t s + claim t (Forward i)
   \<and> attempts_of t s' = attempts_of t s"
  by (cases i) (auto simp: count_defs session_ops and_then_Done_iff o_def split: list.splits if_splits prod.splits)

lemma turn_claims:
  assumes "turnStep a i s = (s', nxt, new)"
  shows "claims_of t s' + (\<Sum>j\<leftarrow>nxt. claim t j) + held (claim t) new + attempts_of t s
     \<le> claims_of t s + turn_claim t i + attempts_of t s'"
proof (cases "\<exists>u x. i = EnqueueTurn u x")
  case True
  then obtain u x where i: "i = EnqueueTurn u x" by blast
  then show ?thesis
    using assms enqueue_claims(1) [of t u x s] enqueue_claims(2) [of u x s] by (simp add: attempts_of_def)
next
  case False
  then show ?thesis
    using assms by (cases i) (auto simp: count_defs session_ops tryStartTurnTranscription_def
        split: list.splits if_splits prod.splits option.splits)
qed

lemma execute_claims:
  "execute a i s = Done (s', next, new) \<Longrightarrow>
   claims_of t s' + (\<Sum>j\<leftarrow>next. claim t j) + held (claim t) new + attempts_of t s
     \<le> claims_of t s + claim t i + attempts_of t s'"
  by (cases i) (auto simp: execute_def and_then_Done_iff split: prod.splits
      dest!: barge_claims [where t = t] speak_claims [where t = t] forward_claims [where t = t] turn_claims [where t = t])

interpretation claims: resource "claims_of t" "attempts_of t" "claim t" for t
proof
  show "execute a i s = Done (s', nxt, new) \<Longrightarrow>
      claims_of t s' + (\<Sum>j\<leftarrow>nxt. claim t j) + held (claim t) new + attempts_of t s
        \<le> claims_of t s + claim t i + attempts_of t s'" for a i s s' nxt new
    by (rule execute_claims)
  show "claims_of t (sess (stimulate x c)) + held (claim t) (goroutines (stimulate x c)) + attempts_of t (sess c)
      \<le> claims_of t (sess c) + held (claim t) (goroutines c) + attempts_of t (sess (stimulate x c))" for x c
    by (cases x) (auto simp: count_defs)
qed (simp_all add: count_defs)

subsection \<open>One transcription per turn\<close>

fun finish :: "string \<Rightarrow> instruction \<Rightarrow> nat" where
  "finish t (Turn (FinishTranscription u)) = of_bool (u = t)"
| "finish t _ = 0"

definition in_flight :: "string \<Rightarrow> session \<Rightarrow> nat" where
  "in_flight t s = of_bool (t \<in> transcribeInFlight s \<and> t \<noteq> [])"

lemma execute_finish:
  assumes "execute a i s = Done (s', nxt, new)"
  shows "(\<Sum>j\<leftarrow>nxt. finish t j) + held (finish t) new + in_flight t s \<le> finish t i + in_flight t s'"
proof (cases i)
  case (Barge b)
  then show ?thesis
    using assms by (cases b) (auto simp: execute_def in_flight_def session_ops split: list.splits if_splits)
next
  case (Turn j)
  then show ?thesis
    using assms by (cases j) (auto simp: execute_def in_flight_def session_ops enqueueTranscriptTurn_def
        enqueuePendingTurn_def tryStartTurnTranscription_def split: list.splits if_splits prod.splits option.splits)
next
  case (Forward f)
  then show ?thesis
    using assms by (cases f) (auto simp: execute_def in_flight_def session_ops and_then_Done_iff o_def
        split: list.splits if_splits prod.splits)
next
  case (Speak p)
  then show ?thesis
    using assms by (cases p) (auto simp: execute_def in_flight_def session_ops split: list.splits if_splits option.splits)
next
  case Dead
  then show ?thesis using assms by (simp add: execute_def)
qed

interpretation transcriptions: resource "\<lambda>_. 0" "in_flight t" "finish t" for t
proof
  show "execute a i s = Done (s', nxt, new) \<Longrightarrow>
      0 + (\<Sum>j\<leftarrow>nxt. finish t j) + held (finish t) new + in_flight t s \<le> 0 + finish t i + in_flight t s'"
    for a i s s' nxt new using execute_finish by simp
  show "0 + held (finish t) (goroutines (stimulate x c)) + in_flight t (sess c)
      \<le> 0 + held (finish t) (goroutines c) + in_flight t (sess (stimulate x c))" for x c
    by (cases x) (auto simp: in_flight_def)
qed (simp_all add: in_flight_def)

subsection \<open>The bound of the queues\<close>

definition bounded :: "call \<Rightarrow> bool" where
  "bounded c \<longleftrightarrow> maxPendingTurns (sess c) = 3 \<and> length (pendingTurns (sess c)) \<le> 3
     \<and> length (ttsIn (sess c)) \<le> 32 \<and> length (audioOut (sess c)) \<le> 128 \<and> length (eventChannel (sess c)) \<le> 128"

lemmas bound_defs = defaultTtsSentenceBuffer_def defaultAudioOutBufferFrames_def eventBuffer_def

lemma execute_bounded:
  assumes "execute a i s = Done (s', nxt, new)" "ready i s"
    "maxPendingTurns s = 3" "length (pendingTurns s) \<le> 3" "length (ttsIn s) \<le> 32" "length (audioOut s) \<le> 128"
  shows "maxPendingTurns s' = 3" "length (pendingTurns s') \<le> 3" "length (ttsIn s') \<le> 32" "length (audioOut s') \<le> 128"
    "eventChannel s' = eventChannel s"
proof -
  have "maxPendingTurns s' = 3 \<and> length (pendingTurns s') \<le> 3 \<and> length (ttsIn s') \<le> 32
    \<and> length (audioOut s') \<le> 128 \<and> eventChannel s' = eventChannel s"
  proof (cases i)
    case (Barge b)
    then show ?thesis
      using assms by (cases b) (auto simp: execute_def session_ops bound_defs split: list.splits if_splits)
  next
    case (Turn j)
    then show ?thesis
      using assms by (cases j) (auto simp: execute_def session_ops enqueueTranscriptTurn_def bound_defs
          enqueuePendingTurn_def tryStartTurnTranscription_def split: list.splits if_splits prod.splits option.splits)
  next
    case (Forward f)
    then show ?thesis
      using assms by (cases f) (auto simp: execute_def session_ops and_then_Done_iff ready_def bound_defs
          split: list.splits if_splits prod.splits)
  next
    case (Speak p)
    then show ?thesis
      using assms by (cases p) (auto simp: execute_def session_ops bound_defs
          split: list.splits if_splits option.splits)
  next
    case Dead
    then show ?thesis using assms by (simp add: execute_def)
  qed
  then show "maxPendingTurns s' = 3" "length (pendingTurns s') \<le> 3" "length (ttsIn s') \<le> 32"
    "length (audioOut s') \<le> 128" "eventChannel s' = eventChannel s" by blast+
qed

lemma goroutine_bounded: "bounded c \<Longrightarrow> bounded (runGoroutine a g c)"
  using runGoroutine_session [of a g c]
proof (elim disjE exE conjE)
  assume b: "bounded c"
  fix i nxt new
  assume "ready i (sess c)" "execute a i (sess c) = Done (sess (runGoroutine a g c), nxt, new)"
  then show "bounded (runGoroutine a g c)"
    using execute_bounded [of a i "sess c" "sess (runGoroutine a g c)" nxt new] b by (simp add: bounded_def)
qed (simp_all add: bounded_def)

lemma stimulate_bounded: "bounded c \<Longrightarrow> bounded (stimulate x c)"
  by (cases x) (auto simp: bounded_def onEvent_def bound_defs Let_def)

interpretation queues: machine makeMove bounded
proof
  show "bounded c \<Longrightarrow> bounded (makeMove m c)" for c m
    by (cases m) (simp_all add: goroutine_bounded stimulate_bounded)
qed

text \<open>C21: However the goroutines of a call interleave and whatever the transcriber, the agent and the client do, each
  transcription of a turn leads to at most one request to the agent, at most one transcription of
  a turn is under way at a time, at most three turns wait, and no channel is filled past its capacity.\<close>

theorem utterances_are_answered_once:
  "runs_of t (sess (runCall withStream ms)) \<le> attempts_of t (sess (runCall withStream ms))
   \<and> held (finish t) (goroutines (runCall withStream ms)) \<le> 1
   \<and> bounded (runCall withStream ms)"
proof -
  have start: "claims.balanced t (newCall withStream)" "transcriptions.balanced t (newCall withStream)"
    "bounded (newCall withStream)"
    by (simp_all add: claims.balanced_def transcriptions.balanced_def newCall_def newSession_def count_defs
        in_flight_def bounded_def)
  have "claims.balanced t (runCall withStream ms)"
    unfolding runCall_def by (rule claims.run_inv [OF start(1)])
  moreover have "transcriptions.balanced t (runCall withStream ms)"
    unfolding runCall_def by (rule transcriptions.run_inv [OF start(2)])
  moreover have "bounded (runCall withStream ms)"
    unfolding runCall_def by (rule queues.run_inv [OF start(3)])
  ultimately show ?thesis
    by (auto simp: claims.balanced_def transcriptions.balanced_def claims_of_def in_flight_def of_bool_def
        split: if_splits)
qed

end
