(* ===== verification/VoiceCalls.thy ===== *)
theory VoiceCalls
  imports VoiceTurns
begin

text \<open>
  What each handler of a voice call does when nothing interferes, on every branch: the client's commit of
  push-to-talk audio, the end of a run in the forwarder, barge-in.
\<close>

subsection \<open>A goroutine on its own\<close>

text \<open>Runs a program for at most \<open>n\<close> instructions; None when it waits, panics or is not through.\<close>

fun alone :: "answers \<Rightarrow> nat \<Rightarrow> goroutine \<Rightarrow> session \<Rightarrow> (session \<times> goroutine list) option" where
  "alone a n [] s = Some (s, [])"
| "alone a 0 (i # rest) s = None"
| "alone a (Suc n) (i # rest) s =
     (if ready i s then
        (case execute a i s of
           Done (s', next, new) \<Rightarrow> map_option (\<lambda>(t, more). (t, new @ more)) (alone a n (next @ rest) s')
         | _ \<Rightarrow> None)
      else None)"

lemma alone_runs:
  assumes "alone a n prog s = Some (s', new)" "g < length (goroutines c)" "goroutines c ! g = prog" "sess c = s"
  shows "\<exists>k\<le>n. (runGoroutine a g ^^ k) c =
    c\<lparr> sess := s', goroutines := (goroutines c)[g := []] @ new \<rparr>"
  using assms
proof (induction a n prog s arbitrary: c s' new rule: alone.induct)
  case (1 a n s)
  then have "(goroutines c)[g := []] = goroutines c" by (metis list_update_id)
  with 1 show ?case by (intro exI [of _ 0]) auto
next
  case (2 a i rest s)
  then show ?case by simp
next
  case (3 a n i rest s)
  from "3.prems"(1) obtain s1 nxt n1 n2 where step: "ready i s" "execute a i s = Done (s1, nxt, n1)"
    "alone a n (nxt @ rest) s1 = Some (s', n2)" "new = n1 @ n2"
    by (auto split: if_splits outcome.splits prod.splits)
  let ?c = "c\<lparr> sess := s1, goroutines := (goroutines c)[g := nxt @ rest] @ n1 \<rparr>"
  have one: "runGoroutine a g c = ?c" using "3.prems"(2-4) step by (simp add: runGoroutine_def)
  have "g < length (goroutines ?c)" "goroutines ?c ! g = nxt @ rest" "sess ?c = s1"
    using "3.prems"(2) by (simp_all add: nth_append nth_list_update)
  from "3.IH" [OF step(1,2) refl refl step(3) this] obtain k where
    "k \<le> n" "(runGoroutine a g ^^ k) ?c = ?c\<lparr> sess := s', goroutines := (goroutines ?c)[g := []] @ n2 \<rparr>" by blast
  then have "(runGoroutine a g ^^ Suc k) c = c\<lparr> sess := s', goroutines := (goroutines c)[g := []] @ new \<rparr>"
    using one "3.prems"(2) step(4) by (simp add: funpow_swap1 list_update_append)
  then show ?case using \<open>k \<le> n\<close> by (intro exI [of _ "Suc k"]) simp
qed

lemma alone_Cons:
  "0 < n \<Longrightarrow> alone a n (i # rest) s =
     (if ready i s then
        (case execute a i s of
           Done (s', next, new) \<Rightarrow> map_option (\<lambda>(t, more). (t, new @ more)) (alone a (n - 1) (next @ rest) s')
         | _ \<Rightarrow> None)
      else None)"
  by (cases n) (simp_all split: outcome.split)

lemma alone_step:
  "0 < n \<Longrightarrow> ready i s \<Longrightarrow> execute a i s = Done (s', nxt, []) \<Longrightarrow>
   alone a n (i # rest) s = alone a (n - 1) (nxt @ rest) s'"
  by (simp add: alone_Cons option.map_id [unfolded id_def] split_def)

text \<open>The program runs to its end.\<close>

definition finishes :: "answers \<Rightarrow> goroutine \<Rightarrow> session \<Rightarrow> session \<times> goroutine list \<Rightarrow> bool" where
  "finishes a prog s r \<longleftrightarrow> (\<exists>n. alone a n prog s = Some r)"

lemma finishes_Nil: "finishes a [] s r \<longleftrightarrow> r = (s, [])"
  by (auto simp: finishes_def)

lemma finishes_step:
  assumes "ready i s" "execute a i s = Done (s', nxt, [])"
  shows "finishes a (i # rest) s r \<longleftrightarrow> finishes a (nxt @ rest) s' r"
proof
  assume "finishes a (i # rest) s r"
  then obtain n where "alone a n (i # rest) s = Some r" by (auto simp: finishes_def)
  then show "finishes a (nxt @ rest) s' r"
    using alone_step [OF _ assms, of n rest] by (cases n) (auto simp: finishes_def)
next
  assume "finishes a (nxt @ rest) s' r"
  then obtain n where "alone a n (nxt @ rest) s' = Some r" by (auto simp: finishes_def)
  then have "alone a (Suc n) (i # rest) s = Some r" using alone_step [OF _ assms, of "Suc n" rest] by simp
  then show "finishes a (i # rest) s r" unfolding finishes_def by blast
qed

lemmas run_on = finishes_step ready_def execute_def

lemmas alone_eval = alone_Cons ready_def execute_def session_ops

subsection \<open>Push-to-talk\<close>

definition spoken_to :: "answers \<Rightarrow> session \<Rightarrow> string" where
  "spoken_to a s = (if currentTurnId s = [] then freshId a else currentTurnId s)"

definition commit_event :: "string \<Rightarrow> string \<Rightarrow> bytes \<Rightarrow> voice_event" where
  "commit_event t reason audio =
     (if audio = [] then TurnDropped t EmptyAudio 0
      else if length audio < minCommittedTurnBytes then TurnDropped t TooShortAudio 0
      else InputCommitted t reason)"

definition transcribers :: "string \<Rightarrow> session \<Rightarrow> goroutine list" where
  "transcribers t s =
     (if minCommittedTurnBytes \<le> length (explicitAudioBuffer s) \<and> t \<noteq> [] \<and> t \<notin> committedTurns s
         \<and> t \<notin> transcribeInFlight s
      then [map Turn [Transcribe t (explicitAudioBuffer s), FinishTranscription t]] else [])"

lemma take_explicit:
  assumes "2 \<le> n"
  shows "\<exists>s'. alone a n [Turn (TakeExplicitAudio t reason)] s = Some (s', transcribers t s)
    \<and> explicitAudioBuffer s' = [] \<and> currentTurnId s' = currentTurnId s \<and> dispatched s' = dispatched s
    \<and> pendingTurns s' = pendingTurns s
    \<and> sentJson s' = sentJson s @ [(outSeq s + 1, commit_event t reason (explicitAudioBuffer s))]"
proof -
  let ?audio = "explicitAudioBuffer s"
  note eval = alone_eval tryStartTurnTranscription_def transcribers_def commit_event_def
  have n: "0 < n" "0 < n - Suc 0" using assms by simp_all
  have ne: "?audio \<noteq> []" if "minCommittedTurnBytes \<le> length ?audio"
    using that by (auto simp: minCommittedTurnBytes_def)
  have none_iff: "tryStartTurnTranscription t s = None \<longleftrightarrow> t = [] \<or> t \<in> committedTurns s \<or> t \<in> transcribeInFlight s"
    by (auto simp: tryStartTurnTranscription_def)
  consider (short) "length ?audio < minCommittedTurnBytes"
    | (again) "?audio \<noteq> []" "minCommittedTurnBytes \<le> length ?audio" "tryStartTurnTranscription t s = None"
    | (fresh) "?audio \<noteq> []" "minCommittedTurnBytes \<le> length ?audio" "t \<noteq> []" "t \<notin> committedTurns s" "t \<notin> transcribeInFlight s"
    using ne none_iff by (metis not_le)
  then show ?thesis
  proof cases
    case short
    then show ?thesis using n by (cases "?audio = []") (simp_all add: eval minCommittedTurnBytes_def)
  next
    case again
    then have "t = [] \<or> t \<in> committedTurns s \<or> t \<in> transcribeInFlight s"
      by (simp add: none_iff)
    then have "tryStartTurnTranscription t s' = None" if "committedTurns s' = committedTurns s"
      "transcribeInFlight s' = transcribeInFlight s" for s' using that by (auto simp: tryStartTurnTranscription_def)
    moreover have "transcribers t s = []"
      using \<open>t = [] \<or> _\<close> by (auto simp: transcribers_def)
    ultimately show ?thesis using n again by (simp add: alone_eval commit_event_def)
  next
    case fresh
    then show ?thesis using n by (simp add: eval)
  qed
qed

text \<open>What a client's commit of its recorded audio does: the buffer is emptied, and the audio goes to a transcription of the
  current turn, or of a new one if there is none, if it is long enough and the turn is neither being
  transcribed nor committed already. Else it is thrown away. As the turn of a call without voice
  detection never changes once it is set, only the first recording that is committed reaches the agent.\<close>

theorem input_commit:
  "\<exists>s'. alone a 6 [Turn (InputCommit reason)] s = Some (s', transcribers (spoken_to a s) s)
    \<and> explicitAudioBuffer s' = [] \<and> currentTurnId s' = spoken_to a s
    \<and> dispatched s' = dispatched s \<and> pendingTurns s' = pendingTurns s
    \<and> sentJson s' = sentJson s @ [(outSeq s + 1, commit_event (spoken_to a s) reason (explicitAudioBuffer s))]"
proof (cases "currentTurnId s = []")
  case False
  then have "alone a 6 [Turn (InputCommit reason)] s = alone a 5 [Turn (TakeExplicitAudio (currentTurnId s) reason)] s"
    by (subst alone_step [of _ _ s a s]) (simp_all add: ready_def execute_def)
  then show ?thesis using take_explicit [of 5 a "currentTurnId s" reason s] False by (simp add: spoken_to_def)
next
  case True
  let ?s = "(startTurn (freshId a) s)\<lparr> bargeInGen := bargeInGen s + 1, bargeInFired := bargeInGen s \<rparr>"
  have "alone a 6 [Turn (InputCommit reason)] s = alone a 2 [Turn (TakeExplicitAudio (freshId a) reason)] ?s"
    using True by (simp add: alone_step ready_def execute_def startTurn_def)
  moreover have "transcribers (freshId a) ?s = transcribers (freshId a) s" by (simp add: transcribers_def startTurn_def)
  ultimately show ?thesis
    using take_explicit [of 2 a "freshId a" reason ?s] True by (simp add: spoken_to_def startTurn_def)
qed

subsection \<open>The end of a run\<close>

lemma finishes_sends:
  "length (ttsIn s) + length xs \<le> defaultTtsSentenceBuffer \<Longrightarrow>
   finishes a (map (\<lambda>x. Forward (SendTts x)) xs @ rest) s r \<longleftrightarrow> finishes a rest (s\<lparr> ttsIn := ttsIn s @ xs \<rparr>) r"
proof (induction xs arbitrary: s)
  case Nil
  then show ?case by simp
next
  case (Cons x xs)
  then show ?case by (simp add: run_on)
qed

text \<open>From a terminal event of a run that was not interrupted to the point where the next turn may be committed.\<close>

definition after_run :: "llm_event \<Rightarrow> string list \<Rightarrow> session \<Rightarrow> session" where
  "after_run e new s =
     (clearCanceledRun (eventRun e) (clearRunTurn (eventRun e) (s\<lparr> ttsIn := ttsIn s @ new, currentRunId := [] \<rparr>)))
       \<lparr> forwarder := noSpeech \<rparr>"

lemma after_run_fields [simp]:
  "currentRunId (after_run e new s) = []" "pendingTurns (after_run e new s) = pendingTurns s"
  "committedTurns (after_run e new s) = committedTurns s" "dispatched (after_run e new s) = dispatched s"
  "ttsIn (after_run e new s) = ttsIn s @ new" "forwarder (after_run e new s) = noSpeech"
  "sentJson (after_run e new s) = sentJson s"
  by (simp_all add: after_run_def session_ops)

lemma terminal_steps:
  assumes "terminal (eventState e)" "\<not> isRunCanceled (eventRun e) s"
    "speechFinal (upperCase a) (lowerCase a) (eventText e) (forwarder s) = Done new"
    "length (ttsIn s) + length new \<le> defaultTtsSentenceBuffer"
  shows "finishes a [Forward (HandleEvent e)] s r \<longleftrightarrow> finishes a [Forward CommitNextPending] (after_run e new s) r"
proof -
  have st: "eventState e \<noteq> Queued" "eventState e \<noteq> Delta" using assms(1) by (auto simp: terminal_def)
  have "finishes a [Forward (HandleEvent e)] s r \<longleftrightarrow>
      finishes a (map (\<lambda>x. Forward (SendTts x)) new @ [Barge ClearCurrentRun]
         @ map Forward [ClearRunTurn (eventRun e), ClearCanceledRun (eventRun e), ResetSpeech, CommitNextPending]) s r"
    using assms(1-3) st by (simp add: run_on)
  also have "\<dots> \<longleftrightarrow> finishes a [Forward CommitNextPending] (after_run e new s) r"
    unfolding finishes_sends [OF assms(4)] by (simp add: run_on after_run_def)
  finally show ?thesis .
qed

text \<open>When a run ends by itself, the forwarder hands the rest of its speech to the synthesizer, resets its text
  and commits the oldest pending turn. When the run was interrupted it does none of this: the
  turns that waited for the run keep waiting although nothing runs, until some later run ends by itself.\<close>

theorem end_of_run:
  assumes "terminal (eventState e)" and "pendingTurns s = (t, x) # ps" and "t \<noteq> []" and "x \<noteq> []"
    and "t \<notin> committedTurns s" and "speechFinal (upperCase a) (lowerCase a) (eventText e) (forwarder s) = Done new"
    and "length (ttsIn s) + length new \<le> defaultTtsSentenceBuffer"
  shows "\<exists>s'. finishes a [Forward (HandleEvent e)] s (s', [])
    \<and> (if isRunCanceled (eventRun e) s
       then pendingTurns s' = pendingTurns s \<and> dispatched s' = dispatched s \<and> forwarder s' = forwarder s
         \<and> ttsIn s' = ttsIn s \<and> currentRunId s' = currentRunId s
       else pendingTurns s' = ps \<and> dispatched s' = dispatched s @ [(t, x)] \<and> forwarder s' = noSpeech
         \<and> ttsIn s' = ttsIn s @ new \<and> currentRunId s' = (case runResult a of None \<Rightarrow> [] | Some r \<Rightarrow> r))"
proof (cases "isRunCanceled (eventRun e) s")
  case True
  then have "finishes a [Forward (HandleEvent e)] s (clearCanceledRun (eventRun e) s, [])"
    using assms(1) by (simp add: run_on finishes_Nil)
  then show ?thesis
    using True by (intro exI [of _ "clearCanceledRun (eventRun e) s"]) (simp add: clearCanceledRun_def)
next
  case False
  let ?s = "after_run e new s"
  have run: "finishes a [Forward (HandleEvent e)] s r \<longleftrightarrow>
      finishes a [Turn (Dispatch t x)]
        (sendVoiceEvent (TranscriptFinal t x) (?s\<lparr> pendingTurns := ps, lastCommittedText := x \<rparr>)) r" for r
    unfolding terminal_steps [OF assms(1) False assms(6,7)] using assms(2-5) by (simp add: run_on)
  show ?thesis
  proof (cases "runResult a")
    case None
    then show ?thesis unfolding run using False by (simp add: run_on finishes_Nil session_ops)
  next
    case (Some i)
    then show ?thesis unfolding run using False by (simp add: run_on finishes_Nil session_ops)
  qed
qed

definition silent :: answers where
  "silent = \<lparr> now = 0, freshId = ''n1'', runResult = Some ''r2'', transcript = None, chunks = None, chunksEnd = False,
     upperCase = (\<lambda>r. 65 \<le> r \<and> r \<le> 90), lowerCase = (\<lambda>x. x) \<rparr>"

lemma flush_of_nothing: "speechFinal upper lower [] noSpeech = Done [[]]"
proof -
  have "trim_space [] = []" by (simp add: trim_space_def bytes_of_def)
  then show ?thesis
    by (simp add: speechFinal_def noSpeech_def flushRemaining_def splitSentences_def runes_def Let_def)
qed

lemma end_of_run_witness:
  "let s = newSession\<lparr> pendingTurns := [(''t2'', ''ok'')] \<rparr>; e = \<lparr> eventState = Final, eventText = [], eventRun = ''r1'' \<rparr> in
   (\<exists>s'. finishes silent [Forward (HandleEvent e)] s (s', []) \<and> dispatched s' = [(''t2'', ''ok'')])
   \<and> (\<exists>s'. finishes silent [Forward (HandleEvent e)] (s\<lparr> canceledRuns := {''r1''} \<rparr>) (s', [])
        \<and> pendingTurns s' = [(''t2'', ''ok'')] \<and> dispatched s' = [])"
proof -
  let ?s = "newSession\<lparr> pendingTurns := [(''t2'', ''ok'')] \<rparr>"
  let ?e = "\<lparr> eventState = Final, eventText = [], eventRun = ''r1'' \<rparr>"
  note facts = newSession_def isRunCanceled_def terminal_def flush_of_nothing defaultTtsSentenceBuffer_def
  have "\<exists>s'. finishes silent [Forward (HandleEvent ?e)] ?s (s', []) \<and> dispatched s' = [(''t2'', ''ok'')]"
    using end_of_run [of ?e ?s "''t2''" "''ok''" "[]" silent "[[]]"] by (simp add: facts) blast
  moreover have "\<exists>s'. finishes silent [Forward (HandleEvent ?e)] (?s\<lparr> canceledRuns := {''r1''} \<rparr>) (s', [])
      \<and> pendingTurns s' = [(''t2'', ''ok'')] \<and> dispatched s' = []"
    using end_of_run [of ?e "?s\<lparr> canceledRuns := {''r1''} \<rparr>" "''t2''" "''ok''" "[]" silent "[[]]"]
    by (simp add: facts) blast
  ultimately show ?thesis by (simp add: Let_def)
qed

subsection \<open>What an interrupted reply leaves behind\<close>

text \<open>The forwarder keeps the text of an interrupted reply: the events of the run, its end included, leave it as it is,
  and the first words of the next reply are appended to it. So the last words before the
  interruption, which were not a sentence yet, are spoken as the beginning of the next sentence.\<close>

theorem interrupted_reply_leaks:
  assumes "isRunCanceled (eventRun e) s" and "eventState d = Delta" and "\<not> isRunCanceled (eventRun d) s"
    and "speechDelta (upperCase a) (lowerCase a) (eventText d) (forwarder s) = (sp, new)"
    and "length (ttsIn s) + length new \<le> defaultTtsSentenceBuffer"
  shows "\<exists>s1 s2. finishes a [Forward (HandleEvent e)] s (s1, []) \<and> finishes a [Forward (HandleEvent d)] s1 (s2, [])
    \<and> ttsIn s2 = ttsIn s @ new \<and> streamText (forwarder s2) = streamText (forwarder s) @ eventText d"
proof -
  define s1 where "s1 = (if terminal (eventState e) then clearCanceledRun (eventRun e) s else s)"
  have one: "finishes a [Forward (HandleEvent e)] s (s1, [])"
    using assms(1) by (simp add: run_on finishes_Nil s1_def)
  have s1: "forwarder s1 = forwarder s" "ttsIn s1 = ttsIn s" "\<not> isRunCanceled (eventRun d) s1"
    using assms(3) by (auto simp: s1_def clearCanceledRun_def isRunCanceled_def)
  let ?s = "if eventRun d \<noteq> [] then s1\<lparr> currentRunId := eventRun d \<rparr> else s1"
  let ?s2 = "?s\<lparr> forwarder := sp, ttsIn := ttsIn s @ new \<rparr>"
  have joined: "streamText sp = streamText (forwarder s) @ eventText d"
    using assms(4) by (auto simp: speechDelta_def Let_def split: prod.splits if_splits)
  have fits: "length (ttsIn (?s\<lparr> forwarder := sp \<rparr>)) + length new \<le> defaultTtsSentenceBuffer"
    using assms(5) s1 by simp
  have "finishes a [Forward (HandleEvent d)] s1 r \<longleftrightarrow>
      finishes a (map (\<lambda>x. Forward (SendTts x)) new @ []) (?s\<lparr> forwarder := sp \<rparr>) r" for r
    using assms(2,4) s1 by (simp add: run_on)
  then have "finishes a [Forward (HandleEvent d)] s1 (?s2, [])"
    unfolding finishes_sends [OF fits] using s1 by (simp add: finishes_Nil)
  then show ?thesis using one joined by (intro exI [of _ s1] exI [of _ ?s2]) simp
qed

lemma interrupted_reply_leaks_witness:
  "let s = newSession\<lparr> canceledRuns := {''r1''},
             forwarder := \<lparr> streamText = ''$'', sentencesEnqueued = 0, sawDelta = True \<rparr> \<rparr> in
   \<exists>s1 s2. finishes silent [Forward (HandleEvent \<lparr> eventState = Aborted, eventText = [], eventRun = ''r1'' \<rparr>)] s (s1, [])
     \<and> finishes silent [Forward (HandleEvent \<lparr> eventState = Delta, eventText = ''3.'', eventRun = ''r2'' \<rparr>)] s1 (s2, [])
     \<and> ttsIn s2 = [''$3.'']"
proof -
  let ?s = "newSession\<lparr> canceledRuns := {''r1''},
             forwarder := \<lparr> streamText = ''$'', sentencesEnqueued = 0, sawDelta = True \<rparr> \<rparr>"
  let ?e = "\<lparr> eventState = Aborted, eventText = [], eventRun = ''r1'' \<rparr>"
  let ?d = "\<lparr> eventState = Delta, eventText = ''3.'', eventRun = ''r2'' \<rparr>"
  have "speechDelta (upperCase silent) (lowerCase silent) (eventText ?d) (forwarder ?s) =
      (\<lparr> streamText = ''$3.'', sentencesEnqueued = 1, sawDelta = True \<rparr>, [''$3.''])"
    by (simp add: speechDelta_def extractCompleteSentences_def silent_def number_splits Let_def)
  from interrupted_reply_leaks [OF _ _ _ this, of ?e] show ?thesis
    by (simp add: newSession_def isRunCanceled_def defaultTtsSentenceBuffer_def Let_def) blast
qed

subsection \<open>Barge-in\<close>

lemma finishes_drain_tts:
  "finishes a (Barge DrainTtsQueue # rest) s r \<longleftrightarrow> finishes a rest (s\<lparr> ttsIn := [] \<rparr>) r"
proof (induction "ttsIn s" arbitrary: s)
  case Nil
  then show ?case by (cases s) (simp add: run_on)
next
  case (Cons x xs)
  then have "ttsIn s = x # xs" by simp
  then show ?case using Cons.hyps(1) [of "s\<lparr> ttsIn := xs \<rparr>"] by (simp add: run_on)
qed

lemma finishes_drain_audio:
  "finishes a (Barge DrainAudioOutQueue # rest) s r \<longleftrightarrow> finishes a rest (s\<lparr> audioOut := [] \<rparr>) r"
proof (induction "audioOut s" arbitrary: s)
  case Nil
  then show ?case by (cases s) (simp add: run_on)
next
  case (Cons x xs)
  then have "audioOut s = x # xs" by simp
  then show ?case using Cons.hyps(1) [of "s\<lparr> audioOut := xs \<rparr>"] by (simp add: run_on)
qed

definition flush_frame :: "64 word \<Rightarrow> 64 word \<Rightarrow> audio_frame" where
  "flush_frame seq ts = \<lparr> frameType = FrameTypeFlush, frameSeq = seq, captureTimestamp = ts, durationMs = 0, frameData = [] \<rparr>"

definition audio_out_frame :: "64 word \<Rightarrow> 64 word \<Rightarrow> bytes \<Rightarrow> audio_frame" where
  "audio_out_frame seq ts audio =
     \<lparr> frameType = FrameTypeAudioOut, frameSeq = seq, captureTimestamp = ts, durationMs = 0, frameData = audio \<rparr>"

text \<open>A barge-in silences the call once per turn: unless it already fired in this turn it empties both queues, leaves exactly one
  frame to send, which the client reads as a flush, cancels and aborts the current run and ends
  the response, and a second one does nothing. But the synthesizer does not look: a chunk it already
  had is sent right behind the flush frame.\<close>

theorem barge_in_silences:
  "if bargeInFired s \<noteq> bargeInGen s - 1 then finishes a [Barge LoadGeneration] s (s, [])
   else \<exists>s' frame. finishes a [Barge LoadGeneration] s (s', []) \<and> ttsIn s' = [] \<and> audioOut s' = [frame]
     \<and> parseBinaryAudioFrame frame = Inr (normal_frame (flush_frame (outSeq s + 1) (now a)))
     \<and> currentRunId s' = [] \<and> currentResponseId s' = []
     \<and> abortedRuns s' = abortedRuns s @ (if currentRunId s = [] then [] else [currentRunId s])
     \<and> canceledRuns s' = canceledRuns s \<union> (if currentRunId s = [] then {} else {currentRunId s})
     \<and> finishes a [Barge LoadGeneration] s' (s', [])
     \<and> (\<exists>s''. finishes a [Speak (SendAudio chunk)] s' (s'', [])
          \<and> audioOut s'' = [frame, encodeBinaryAudioFrame (audio_out_frame (outSeq s' + 1) (now a) chunk)])"
proof (cases "bargeInFired s = bargeInGen s - 1")
  case False
  then show ?thesis by (simp add: run_on finishes_Nil)
next
  case True
  let ?r = "currentRunId s"
  let ?frame = "encodeBinaryAudioFrame (flush_frame (outSeq s + 1) (now a))"
  have differ: "w \<noteq> w - 1" for w :: "64 word" by simp
  define s1 where "s1 = (markRunCanceled ?r (s\<lparr> bargeInFired := bargeInGen s \<rparr>))
      \<lparr> ttsIn := [], outSeq := outSeq s + 1, audioOut := [?frame] \<rparr>"
  define s2 where "s2 = (if ?r \<noteq> [] then s1\<lparr> abortedRuns := abortedRuns s1 @ [?r] \<rparr> else s1)"
  define s' where "s' = sendVoiceEvent BargeInTriggered (setCurrentResponseID [] (s2\<lparr> currentRunId := [] \<rparr>))"
  have "finishes a [Barge LoadGeneration] s (s', [])"
    using True
    by (simp add: run_on finishes_drain_tts finishes_drain_audio finishes_Nil trySendFlushFrame_def enqueueAudioOut_def
        defaultAudioOutBufferFrames_def flush_frame_def s'_def s2_def s1_def markRunCanceled_def)
  moreover have fields: "ttsIn s' = []" "audioOut s' = [?frame]" "currentRunId s' = []" "currentResponseId s' = []"
    "bargeInFired s' = bargeInGen s'"
    "abortedRuns s' = abortedRuns s @ (if ?r = [] then [] else [?r])"
    "canceledRuns s' = canceledRuns s \<union> (if ?r = [] then {} else {?r})"
    by (simp_all add: s'_def s2_def s1_def session_ops)
  moreover have "parseBinaryAudioFrame ?frame = Inr (normal_frame (flush_frame (outSeq s + 1) (now a)))"
    by (simp add: parse_encode known_type_def flush_frame_def)
  moreover have "finishes a [Barge LoadGeneration] s' (s', [])"
    using fields(5) by (simp add: run_on finishes_Nil)
  moreover have "finishes a [Speak (SendAudio chunk)] s' (sendAudio (now a) chunk s', [])"
    by (simp add: run_on finishes_Nil)
  moreover have "audioOut (sendAudio (now a) chunk s') =
      [?frame, encodeBinaryAudioFrame (audio_out_frame (outSeq s' + 1) (now a) chunk)]"
    using fields(2) by (simp add: sendAudio_def enqueueAudioOut_def defaultAudioOutBufferFrames_def audio_out_frame_def)
  ultimately show ?thesis
    using True by (simp only: simp_thms if_False) (rule exI [of _ s'], rule exI [of _ ?frame],
      intro conjI exI [of _ "sendAudio (now a) chunk s'"]; assumption)
qed

end
