(* ===== verification/VoiceReplies.thy ===== *)
theory VoiceReplies
  imports VoiceSession
begin

text \<open>
  What is spoken for the events of a conversation (\<open>internal/voice/loop_llm_forwarder.go\<close>): events arrive through
  \<open>OnEvent\<close> in a channel of 128 places and are taken by the forwarder one after the other, in any order of
  arrivals and takings. The text, the count of sentences and the flag live on from one event to the next;
  only the end of a reply that was not interrupted resets them.
\<close>

subsection \<open>Arrivals and takings\<close>

text \<open>\<open>Takes c\<close>: the forwarder takes the oldest event, whose run is canceled at that moment if \<open>c\<close>. On an
  empty channel it waits.\<close>

datatype feed = Arrives llm_event | Takes bool

fun deliver :: "feed list \<Rightarrow> llm_event list \<Rightarrow> llm_event list \<times> (bool \<times> llm_event) list" where
  "deliver [] chan = (chan, [])"
| "deliver (Arrives e # fs) chan = deliver fs (onEvent e chan)"
| "deliver (Takes c # fs) chan =
     (case chan of [] \<Rightarrow> deliver fs []
      | e # es \<Rightarrow> (case deliver fs es of (rest, taken) \<Rightarrow> (rest, (c, e) # taken)))"

definition arrivals :: "feed list \<Rightarrow> llm_event list" where
  "arrivals fs = concat (map (\<lambda>f. case f of Arrives e \<Rightarrow> [e] | Takes c \<Rightarrow> []) fs)"

text \<open>No event finds the channel full.\<close>

fun roomy :: "feed list \<Rightarrow> nat \<Rightarrow> bool" where
  "roomy [] n \<longleftrightarrow> True"
| "roomy (Arrives e # fs) n \<longleftrightarrow> n < eventBuffer \<and> roomy fs (Suc n)"
| "roomy (Takes c # fs) n \<longleftrightarrow> roomy fs (n - 1)"

lemma nothing_is_dropped:
  "roomy fs (length chan) \<Longrightarrow> chan @ arrivals fs = map snd (snd (deliver fs chan)) @ fst (deliver fs chan)"
proof (induction fs chan rule: deliver.induct)
  case (3 c fs chan)
  then show ?case by (cases chan) (auto simp: arrivals_def split: prod.splits)
qed (auto simp: arrivals_def onEvent_def Let_def)

subsection \<open>The loop of the forwarder\<close>

text \<open>The state of the loop and what it puts into the queue of the synthesizer, for events with the mark whether
  their run is canceled.\<close>

fun forwardEvents ::
  "(rune \<Rightarrow> bool) \<Rightarrow> (string \<Rightarrow> string) \<Rightarrow> (bool \<times> llm_event) list \<Rightarrow> speech \<Rightarrow> (speech \<times> string list) outcome" where
  "forwardEvents upper lower [] sp = Done (sp, [])"
| "forwardEvents upper lower ((canceled, e) # es) sp =
     (if canceled then forwardEvents upper lower es sp
      else if eventState e = Delta then
        (case speechDelta upper lower (eventText e) sp of (sp, new) \<Rightarrow>
          and_then (forwardEvents upper lower es sp) (\<lambda>(sp, rest). Done (sp, new @ rest)))
      else if terminal (eventState e) then
        and_then (speechFinal upper lower (eventText e) sp) (\<lambda>new.
          and_then (forwardEvents upper lower es noSpeech) (\<lambda>(sp, rest). Done (sp, new @ rest)))
      else forwardEvents upper lower es sp)"

text \<open>The texts of the deltas that were not canceled, and whether no reply ends among the events.\<close>

definition liveDeltas :: "(bool \<times> llm_event) list \<Rightarrow> string list" where
  "liveDeltas es = [eventText e. (canceled, e) \<leftarrow> es, \<not> canceled \<and> eventState e = Delta]"

definition unfinished :: "(bool \<times> llm_event) list \<Rightarrow> bool" where
  "unfinished es \<longleftrightarrow> (\<forall>(canceled, e) \<in> set es. terminal (eventState e) \<longrightarrow> canceled)"

lemma forwardEvents_deltas:
  "unfinished es \<Longrightarrow> forwardEvents upper lower (es @ later) sp =
     (case speakDeltas upper lower (liveDeltas es) sp of (sp', new) \<Rightarrow>
        and_then (forwardEvents upper lower later sp') (\<lambda>(sp, rest). Done (sp, new @ rest)))"
proof (induction es arbitrary: sp)
  case Nil
  then show ?case by (cases "forwardEvents upper lower later sp") (auto simp: liveDeltas_def)
next
  case (Cons x es)
  obtain c e where x: "x = (c, e)" by (cases x)
  have "unfinished es" using Cons.prems by (simp add: unfinished_def)
  note IH = Cons.IH [OF this]
  show ?case
  proof (cases "\<not> c \<and> eventState e = Delta")
    case True
    then show ?thesis
      by (cases "forwardEvents upper lower later
            (fst (speakDeltas upper lower (liveDeltas es) (fst (speechDelta upper lower (eventText e) sp))))")
        (auto simp: x liveDeltas_def IH [unfolded liveDeltas_def] split: prod.splits)
  next
    case False
    then have "forwardEvents upper lower ((x # es) @ later) sp = forwardEvents upper lower (es @ later) sp"
      using Cons.prems by (auto simp: x unfinished_def)
    moreover have "liveDeltas (x # es) = liveDeltas es" using False by (auto simp: x liveDeltas_def)
    ultimately show ?thesis by (simp only: IH)
  qed
qed

lemma forwardEvents_reply:
  assumes "unfinished es" "terminal (eventState e)"
    "spoken upper lower (liveDeltas es) (eventText e) = Done xs"
  shows "forwardEvents upper lower (es @ [(False, e)]) noSpeech = Done (noSpeech, xs)"
proof -
  have "eventState e \<noteq> Delta" using assms(2) by (auto simp: terminal_def)
  then show ?thesis
    using assms(2,3)
    by (cases "speechFinal upper lower (eventText e) (fst (speakDeltas upper lower (liveDeltas es) noSpeech))")
      (auto simp: forwardEvents_deltas [OF assms(1)] spoken_def split: prod.splits)
qed

text \<open>C20: What is spoken between the ends of two replies that were not interrupted is the text of the deltas in
  between whose run was not interrupted when they were taken: all of their letters, in order and once,
  however the provider cuts the text, with the end of the response last; without deltas it is the
  final text. So a reply is spoken completely when no interrupted one stands before it, and behind the
  text an interrupted one has left otherwise. This holds as long as no event finds the channel of 128
  places full (then none of the events is dropped), the deltas are valid UTF-8, and no cut follows
  one of the marks . ! ? before the next letter has arrived. The pieces are then those of the same
  text in a single delta.\<close>

theorem speech_follows_the_reply:
  assumes "roomy fs 0" and "deliver fs [] = ([], es @ [(False, e)])"
    and "unfinished es" and "terminal (eventState e)"
    and "\<forall>d\<in>set (liveDeltas es). valid_utf8 d" and "valid_utf8 (eventText e)"
    and "\<forall>k<length (liveDeltas es). settled (concat (take k (liveDeltas es)))"
  shows "arrivals fs = map snd es @ [e]
    \<and> (\<exists>xs. forwardEvents upper lower (es @ [(False, e)]) noSpeech = Done (noSpeech, xs @ [[]]) \<and> [] \<notin> set xs
      \<and> concat (map nonblank xs) =
          nonblank (if concat (liveDeltas es) = [] then eventText e else concat (liveDeltas es))
      \<and> spoken upper lower [concat (liveDeltas es)] (eventText e) = Done (xs @ [[]]))"
proof -
  have "arrivals fs = map snd es @ [e]" using nothing_is_dropped [of fs "[]"] assms(1,2) by simp
  moreover obtain xs where xs: "spoken upper lower (liveDeltas es) (eventText e) = Done (xs @ [[]])" "[] \<notin> set xs"
    "concat (map nonblank xs) = nonblank (if concat (liveDeltas es) = [] then eventText e else concat (liveDeltas es))"
    "spoken upper lower (liveDeltas es) (eventText e) = spoken upper lower [concat (liveDeltas es)] (eventText e)"
    using spoken_content [OF assms(5,6,7)] by metis
  ultimately show ?thesis using forwardEvents_reply [OF assms(3,4) xs(1)] by auto
qed

text \<open>An interrupted reply has left \<open>Hi\<close> behind, its end is skipped; \<open>you.\<close> follows.\<close>

lemma speech_follows_the_reply_witness:
  "let d1 = \<lparr> eventState = Delta, eventText = ''Hi'', eventRun = ''r1'' \<rparr>;
       d2 = \<lparr> eventState = Delta, eventText = '' you.'', eventRun = ''r2'' \<rparr>;
       gone = \<lparr> eventState = Aborted, eventText = [], eventRun = ''r1'' \<rparr>;
       e = \<lparr> eventState = Final, eventText = ''you.'', eventRun = ''r2'' \<rparr> in
   \<exists>xs. forwardEvents (\<lambda>r. 65 \<le> r \<and> r \<le> 90) (\<lambda>s. s) [(False, d1), (True, gone), (False, d2), (False, e)] noSpeech
      = Done (noSpeech, xs @ [[]]) \<and> concat (map nonblank xs) = nonblank ''Hi you.''"
proof -
  let ?d1 = "\<lparr> eventState = Delta, eventText = ''Hi'', eventRun = ''r1'' \<rparr>"
  let ?d2 = "\<lparr> eventState = Delta, eventText = '' you.'', eventRun = ''r2'' \<rparr>"
  let ?gone = "\<lparr> eventState = Aborted, eventText = [], eventRun = ''r1'' \<rparr>"
  let ?e = "\<lparr> eventState = Final, eventText = ''you.'', eventRun = ''r2'' \<rparr>"
  let ?fs = "[Arrives ?d1, Takes False, Arrives ?gone, Arrives ?d2, Takes True, Arrives ?e, Takes False, Takes False]"
  let ?es = "[(False, ?d1), (True, ?gone), (False, ?d2)]"
  have fed: "roomy ?fs 0" "deliver ?fs [] = ([], ?es @ [(False, ?e)])"
    by (simp_all add: onEvent_def eventBuffer_def critical_def)
  have es: "unfinished ?es" "liveDeltas ?es = [''Hi'', '' you.'']" "terminal (eventState ?e)"
    by (simp_all add: unfinished_def liveDeltas_def terminal_def)
  have v: "valid_utf8 ''Hi''" "valid_utf8 '' you.''" "valid_utf8 ''you.''" by (simp_all add: ascii_valid)
  have "runes ''Hi'' = [72, 105]" by (simp add: ascii_string)
  then have "settled ''Hi''" "settled []"
    by (simp_all add: settled_def settled_runes_def isASCIIPunct_def is_space_def runes_def)
  then have "\<forall>k<length (liveDeltas ?es). settled (concat (take k (liveDeltas ?es)))"
    by (simp add: es less_Suc_eq numeral_2_eq_2)
  from speech_follows_the_reply [OF fed es(1,3) _ _ this, of "\<lambda>r. 65 \<le> r \<and> r \<le> 90" "\<lambda>s. s"] v es
  show ?thesis by (auto simp: Let_def)
qed

end
