(* ===== verification/VoiceInput.thy ===== *)
theory VoiceInput
  imports VoiceFrames GoStrings Complex_Main "HOL-Library.Sublist"
begin

text \<open>
  From audio frames to turns: the speech detector (\<open>internal/voice/vad.go\<close>), the turn strategies
  (\<open>turn_strategy.go\<close>, \<open>turn_strategy_balanced.go\<close>) and the input loop (\<open>loop_audio_input.go\<close>). The loudness of a
  frame (a floating-point root mean square) is an input, with the order of the reals; so is what the loop reads of the session.
  What it does to the session is a list of effects, each one of the calls of the loop.
\<close>

subsection \<open>Speech detection\<close>

record energy_vad =
  isSpeaking :: bool
  speechFrames :: nat
  redemptionCount :: nat

definition vadPositiveThreshold :: real where "vadPositiveThreshold = 4 / 100"
definition vadNegativeThreshold :: real where "vadNegativeThreshold = 2 / 100"
definition vadMinSpeechFrames :: nat where "vadMinSpeechFrames = 10"
definition vadRedemptionFrames :: nat where "vadRedemptionFrames = 16"

definition freshVad :: energy_vad where
  "freshVad = \<lparr> isSpeaking = False, speechFrames = 0, redemptionCount = 0 \<rparr>"

text \<open>The new state, and whether speech started or ended.\<close>

definition processFrame :: "real \<Rightarrow> energy_vad \<Rightarrow> energy_vad \<times> bool \<times> bool" where
  "processFrame rms v =
     (if \<not> isSpeaking v then
        (if rms \<ge> vadPositiveThreshold then
           (let v = v\<lparr> speechFrames := speechFrames v + 1 \<rparr> in
            if speechFrames v \<ge> vadMinSpeechFrames
            then (v\<lparr> isSpeaking := True, redemptionCount := 0 \<rparr>, True, False)
            else (v, False, False))
         else (v\<lparr> speechFrames := 0 \<rparr>, False, False))
      else
        (let v = v\<lparr> speechFrames := 0 \<rparr> in
         if rms < vadNegativeThreshold then
           (let v = v\<lparr> redemptionCount := redemptionCount v + 1 \<rparr> in
            if redemptionCount v \<ge> vadRedemptionFrames
            then (v\<lparr> isSpeaking := False, speechFrames := 0, redemptionCount := 0 \<rparr>, False, True)
            else (v, False, False))
         else (v\<lparr> redemptionCount := 0 \<rparr>, False, False)))"

subsection \<open>Turn strategies\<close>

datatype turn_decision = Ignore | Candidate | Trigger

record turn_context =
  vadScore :: real
  speechDurationMs :: int
  silenceDurationMs :: int
  runActive :: bool
  responseActive :: bool
  contextText :: string

datatype strategy = LegacyStrategy | BalancedStrategy

definition danglingConjunctions :: "string list" where
  "danglingConjunctions = [''and'', ''or'', ''but'', ''so'', ''because'', ''if'', ''then'']"

definition endsWithSentenceTerminator :: "string \<Rightarrow> bool" where
  "endsWithSentenceTerminator t =
     (let trimmed = trim_space t in has_suffix trimmed ''.'' \<or> has_suffix trimmed ''!'' \<or> has_suffix trimmed ''?'')"

definition endsWithDanglingConjunction :: "(string \<Rightarrow> string) \<Rightarrow> string \<Rightarrow> bool" where
  "endsWithDanglingConjunction lower t =
     (let words = Utf8.fields (lower (trim_space t)) in
      if words = [] then False else last words \<in> set danglingConjunctions)"

fun evaluateBargeIn :: "strategy \<Rightarrow> turn_context \<Rightarrow> turn_decision" where
  "evaluateBargeIn LegacyStrategy ctx =
     (if \<not> runActive ctx \<and> \<not> responseActive ctx then Ignore
      else if vadScore ctx \<ge> 6 / 100 then Trigger else Ignore)"
| "evaluateBargeIn BalancedStrategy ctx =
     (if \<not> runActive ctx \<and> \<not> responseActive ctx then Ignore
      else if vadScore ctx < 12 / 100 then Ignore
      else if speechDurationMs ctx < 120 then Candidate else Trigger)"

fun shouldCommitTurn :: "strategy \<Rightarrow> (string \<Rightarrow> string) \<Rightarrow> int \<Rightarrow> string \<Rightarrow> bool" where
  "shouldCommitTurn LegacyStrategy lower silence interim = True"
| "shouldCommitTurn BalancedStrategy lower silence interim =
     (if silence \<ge> 700 then True
      else (let t = trim_space interim in
            if t = [] then False
            else if endsWithSentenceTerminator t \<and> silence \<ge> 120 then True
            else if endsWithDanglingConjunction lower t then False
            else silence \<ge> 300))"

subsection \<open>The input loop\<close>

record features =
  serverVad :: bool
  serverTurn :: bool
  bargeIn :: bool
  turnStrategy :: strategy
  frameMs :: int

record input_loop =
  vad :: energy_vad
  speechBuffer :: bytes
  preSpeech :: "bytes list"
  speaking :: bool
  candidateActive :: bool
  pendingCommitTurnId :: string
  pendingCommitAudio :: bytes
  pendingSilenceMs :: int

definition newInputLoop :: input_loop where
  "newInputLoop = \<lparr> vad = freshVad, speechBuffer = [], preSpeech = [], speaking = False, candidateActive = False,
     pendingCommitTurnId = [], pendingCommitAudio = [], pendingSilenceMs = 0 \<rparr>"

text \<open>
  What the loop reads while it handles a frame: the loudness, a fresh turn identifier, the current turn, which output is
  active, the transcript so far, the clock, and how many frames the transcription stream takes (None: there is no stream).
\<close>

record readings =
  loudness :: real
  newTurnId :: string
  readTurnId :: string
  armed :: bool
  runIsActive :: bool
  responseIsActive :: bool
  interim :: string
  durationNow :: int
  streamTakes :: "nat option"
  lower :: "string \<Rightarrow> string"

datatype effect =
    AccumulateExplicit bytes | SetUserSpeaking bool | StartNewTurn string | TriggerBargeIn | SpeechStartedEvent string
  | StreamAudio bytes | StreamLost | BargeInCandidate string | BargeInSuppressed string
  | SpeechEndedEvent string | SetSpeechReady | DropTooShort string | CommitCaptured string bytes

definition vadPreRollFrames :: nat where "vadPreRollFrames = 8"

definition duePending :: "features \<Rightarrow> readings \<Rightarrow> input_loop \<Rightarrow> input_loop \<times> effect list" where
  "duePending f r l =
     (if pendingCommitTurnId l \<noteq> [] then
        (let l = l\<lparr> pendingSilenceMs := wrap64 (pendingSilenceMs l + (if frameMs f \<le> 0 then 20 else frameMs f)) \<rparr> in
         if shouldCommitTurn (turnStrategy f) (lower r) (pendingSilenceMs l) (interim r)
         then (l\<lparr> pendingCommitTurnId := [], pendingCommitAudio := [], pendingSilenceMs := 0 \<rparr>,
               [CommitCaptured (pendingCommitTurnId l) (pendingCommitAudio l)])
         else (l, []))
      else (l, []))"

definition preRoll :: "bytes \<Rightarrow> input_loop \<Rightarrow> input_loop" where
  "preRoll frame l =
     (if \<not> speaking l
      then (let pre = preSpeech l @ [frame] in
            l\<lparr> preSpeech := (if length pre > vadPreRollFrames then tl pre else pre) \<rparr>)
      else l)"

definition speechStarts :: "features \<Rightarrow> readings \<Rightarrow> input_loop \<Rightarrow> input_loop \<times> effect list" where
  "speechStarts f r l =
     (l\<lparr> speaking := True, candidateActive := False, speechBuffer := concat (preSpeech l), preSpeech := [] \<rparr>,
      [SetUserSpeaking True, StartNewTurn (newTurnId r)]
      @ (if turnStrategy f = BalancedStrategy \<and> bargeIn f \<and> armed r then [TriggerBargeIn] else [])
      @ [SpeechStartedEvent (newTurnId r)])"

definition streamFrames :: "nat option \<Rightarrow> bytes list \<Rightarrow> effect list" where
  "streamFrames takes frames =
     (case takes of None \<Rightarrow> []
      | Some k \<Rightarrow> map StreamAudio (take k frames) @ (if k < length frames then [StreamLost] else []))"

definition whileSpeaking ::
  "features \<Rightarrow> readings \<Rightarrow> bytes \<Rightarrow> bool \<Rightarrow> bytes list \<Rightarrow> input_loop \<Rightarrow> input_loop \<times> effect list" where
  "whileSpeaking f r frame started preRollFrames l =
     (let l = (if \<not> started then l\<lparr> speechBuffer := speechBuffer l @ frame \<rparr> else l);
          stream = streamFrames (streamTakes r) (if started \<and> preRollFrames \<noteq> [] then preRollFrames else [frame]) in
      if bargeIn f \<and> (runIsActive r \<or> responseIsActive r) then
        (case evaluateBargeIn (turnStrategy f) \<lparr> vadScore = loudness r, speechDurationMs = durationNow r,
             silenceDurationMs = 0, runActive = runIsActive r, responseActive = responseIsActive r,
             contextText = interim r \<rparr> of
           Trigger \<Rightarrow> (l\<lparr> candidateActive := False \<rparr>, stream @ [TriggerBargeIn])
         | Candidate \<Rightarrow>
             (if \<not> candidateActive l then (l\<lparr> candidateActive := True \<rparr>, stream @ [BargeInCandidate (readTurnId r)])
              else (l, stream))
         | Ignore \<Rightarrow>
             (if candidateActive l then (l\<lparr> candidateActive := False \<rparr>, stream @ [BargeInSuppressed (readTurnId r)])
              else (l, stream)))
      else (l, stream))"

definition speechEnds :: "features \<Rightarrow> readings \<Rightarrow> input_loop \<Rightarrow> input_loop \<times> effect list" where
  "speechEnds f r l =
     (let l = l\<lparr> speaking := False \<rparr>; turnId = readTurnId r;
          ended = [SetUserSpeaking False, SpeechEndedEvent turnId] in
      if \<not> serverTurn f then (l, ended @ [SetSpeechReady])
      else
        (let captured = speechBuffer l; l = l\<lparr> speechBuffer := [], candidateActive := False \<rparr> in
         if length captured < minCommittedTurnBytes then (l, ended @ [DropTooShort turnId])
         else if shouldCommitTurn (turnStrategy f) (lower r) 0 (interim r)
           then (l, ended @ [CommitCaptured turnId captured])
         else (l\<lparr> pendingCommitTurnId := turnId, pendingCommitAudio := captured, pendingSilenceMs := 0 \<rparr>, ended)))"

definition inputFrame :: "features \<Rightarrow> readings \<Rightarrow> bytes \<Rightarrow> input_loop \<Rightarrow> input_loop \<times> effect list" where
  "inputFrame f r frame l =
     (if \<not> serverVad f then (l, [AccumulateExplicit frame])
      else
        (case duePending f r l of (l, e1) \<Rightarrow>
           let l = preRoll frame l in
           case processFrame (loudness r) (vad l) of (v, started, ended) \<Rightarrow>
             let l = l\<lparr> vad := v \<rparr>; pre = preSpeech l in
             case (if started then speechStarts f r l else (l, [])) of (l, e2) \<Rightarrow>
               case (if speaking l then whileSpeaking f r frame started (if started then pre else []) l else (l, []))
               of (l, e3) \<Rightarrow>
                 case (if ended then speechEnds f r l else (l, [])) of (l, e4) \<Rightarrow> (l, e1 @ e2 @ e3 @ e4)))"

fun inputLoop :: "features \<Rightarrow> (readings \<times> bytes) list \<Rightarrow> input_loop \<Rightarrow> input_loop \<times> effect list" where
  "inputLoop f [] l = (l, [])"
| "inputLoop f ((r, frame) # rest) l =
     (case inputFrame f r frame l of (l, e) \<Rightarrow> case inputLoop f rest l of (l, es) \<Rightarrow> (l, e @ es))"

subsection \<open>When speech starts and ends\<close>

definition loud :: "real \<Rightarrow> bool" where "loud x \<longleftrightarrow> x \<ge> vadPositiveThreshold"
definition quiet :: "real \<Rightarrow> bool" where "quiet x \<longleftrightarrow> x < vadNegativeThreshold"

definition heard :: "real list \<Rightarrow> energy_vad" where
  "heard xs = fold (\<lambda>x v. fst (processFrame x v)) xs freshVad"

definition trailing :: "('a \<Rightarrow> bool) \<Rightarrow> 'a list \<Rightarrow> nat" where
  "trailing P xs = length (takeWhile P (rev xs))"

lemma trailing_snoc [simp]: "trailing P (xs @ [x]) = (if P x then Suc (trailing P xs) else 0)"
  by (simp add: trailing_def)

lemma trailing_Nil [simp]: "trailing P [] = 0"
  by (simp add: trailing_def)

lemma trailing_ge: "n \<le> trailing P xs \<longleftrightarrow> n \<le> length xs \<and> list_all P (last_n n xs)"
proof (induction xs arbitrary: n rule: rev_induct)
  case Nil
  then show ?case by (simp add: last_n_def)
next
  case (snoc x xs)
  then show ?case by (cases n) (auto simp: last_n_def)
qed

lemma not_both: "loud x \<Longrightarrow> \<not> quiet x"
  by (simp add: loud_def quiet_def vadPositiveThreshold_def vadNegativeThreshold_def)

lemma heard_snoc: "heard (xs @ [x]) = fst (processFrame x (heard xs))"
  by (simp add: heard_def)

lemma heard_counters:
  "if isSpeaking (heard xs) then redemptionCount (heard xs) = trailing quiet xs \<and> trailing quiet xs < 16
   else speechFrames (heard xs) = trailing loud xs \<and> trailing loud xs < 10"
proof (induction xs rule: rev_induct)
  case Nil
  then show ?case by (simp add: heard_def freshVad_def)
next
  case (snoc x xs)
  then show ?case
    using not_both [of x]
    by (auto simp: heard_snoc processFrame_def Let_def loud_def quiet_def vadMinSpeechFrames_def
        vadRedemptionFrames_def split: if_splits)
qed

text \<open>The detector is the hysteresis it is meant to be, whatever the loudness of the frames: after ten loud frames
  in a row the caller is speaking, after sixteen quiet ones he is not, and else it stays as it was; a start and an
  end are reported exactly when that changes.\<close>

theorem vad_is_hysteresis:
  "isSpeaking (heard (xs @ [x])) =
     (if 10 \<le> length (xs @ [x]) \<and> list_all loud (last_n 10 (xs @ [x])) then True
      else if 16 \<le> length (xs @ [x]) \<and> list_all quiet (last_n 16 (xs @ [x])) then False
      else isSpeaking (heard xs))
   \<and> snd (processFrame x (heard xs)) =
     (\<not> isSpeaking (heard xs) \<and> isSpeaking (heard (xs @ [x])), isSpeaking (heard xs) \<and> \<not> isSpeaking (heard (xs @ [x])))"
  using heard_counters [of xs] not_both [of x]
  unfolding trailing_ge [symmetric] heard_snoc
  by (auto simp: processFrame_def Let_def loud_def quiet_def vadMinSpeechFrames_def vadRedemptionFrames_def
      split: if_splits)

subsection \<open>What a committed turn carries\<close>

definition stretch_of :: "bytes list \<Rightarrow> bytes \<Rightarrow> bool" where
  "stretch_of frames audio \<longleftrightarrow> (\<exists>mid. sublist mid frames \<and> audio = concat mid)"

text \<open>Two kinds of effects: an utterance ends; a captured turn leaves the loop.\<close>

definition ending :: "effect \<Rightarrow> bool" where
  "ending e = (case e of SpeechEndedEvent _ \<Rightarrow> True | _ \<Rightarrow> False)"

definition leaving :: "effect \<Rightarrow> bool" where
  "leaving e = (case e of CommitCaptured _ _ \<Rightarrow> True | DropTooShort _ \<Rightarrow> True | _ \<Rightarrow> False)"

definition good_effect :: "bytes list \<Rightarrow> effect \<Rightarrow> bool" where
  "good_effect frames e =
     (case e of CommitCaptured t audio \<Rightarrow> stretch_of frames audio \<and> minCommittedTurnBytes \<le> length audio | _ \<Rightarrow> True)"

definition loop_inv :: "bytes list \<Rightarrow> input_loop \<Rightarrow> bool" where
  "loop_inv frames l \<longleftrightarrow> speaking l = isSpeaking (vad l)
     \<and> (if speaking l then (\<exists>mid. suffix mid frames \<and> speechBuffer l = concat mid) \<and> preSpeech l = []
        else suffix (preSpeech l) frames)
     \<and> (pendingCommitTurnId l \<noteq> [] \<longrightarrow>
          stretch_of frames (pendingCommitAudio l) \<and> minCommittedTurnBytes \<le> length (pendingCommitAudio l))"

lemma stretch_snoc: "stretch_of frames audio \<Longrightarrow> stretch_of (frames @ [x]) audio"
  unfolding stretch_of_def by (metis sublist_append_rightI sublist_order.order_trans)

lemma suffix_stretch: "suffix mid frames \<Longrightarrow> stretch_of frames (concat mid)"
  unfolding stretch_of_def using suffix_imp_sublist by blast

lemma suffix_snoc_both: "suffix mid frames \<Longrightarrow> suffix (mid @ [x]) (frames @ [x])"
  by (auto simp: suffix_def)

lemma suffix_tl_both: "suffix mid frames \<Longrightarrow> suffix (tl mid) frames"
  by (metis suffix_order.trans suffix_tl)

lemma processFrame_flags:
  "processFrame x v = (v', started, ended) \<Longrightarrow>
   isSpeaking v' = (started \<or> isSpeaking v \<and> \<not> ended) \<and> (started \<longrightarrow> \<not> isSpeaking v) \<and> (ended \<longrightarrow> isSpeaking v)
   \<and> \<not> (started \<and> ended)"
  by (auto simp: processFrame_def Let_def split: if_splits)

lemma streamFrames_plain:
  "e \<in> set (streamFrames takes frames) \<Longrightarrow> \<not> ending e \<and> \<not> leaving e \<and> good_effect fs e"
  by (auto simp: streamFrames_def ending_def leaving_def good_effect_def split: option.splits if_splits)

definition heardOn :: "bool \<Rightarrow> bytes \<Rightarrow> input_loop \<Rightarrow> input_loop" where
  "heardOn started frame l = (if \<not> started then l\<lparr> speechBuffer := speechBuffer l @ frame \<rparr> else l)"

lemma same_candidate: "l\<lparr> candidateActive := candidateActive l \<rparr> = l"
  by (cases l) simp

lemma whileSpeaking_shape:
  "\<exists>c more. whileSpeaking f r frame started pre l =
      ((heardOn started frame l)\<lparr> candidateActive := c \<rparr>,
       streamFrames (streamTakes r) (if started \<and> pre \<noteq> [] then pre else [frame]) @ more)
    \<and> more \<in> {[], [TriggerBargeIn], [BargeInCandidate (readTurnId r)], [BargeInSuppressed (readTurnId r)]}"
proof -
  let ?l = "heardOn started frame l"
  define d where "d = evaluateBargeIn (turnStrategy f) \<lparr> vadScore = loudness r, speechDurationMs = durationNow r,
             silenceDurationMs = 0, runActive = runIsActive r, responseActive = responseIsActive r,
             contextText = interim r \<rparr>"
  note w = whileSpeaking_def [of f r frame started pre l, folded d_def heardOn_def, unfolded Let_def]
  show ?thesis
  proof (cases "bargeIn f \<and> (runIsActive r \<or> responseIsActive r)")
    case False
    then show ?thesis by (intro exI [of _ "candidateActive ?l"] exI [of _ "[]"])
      (simp only: w False if_False same_candidate append_Nil2 insertI1 simp_thms)
  next
    case True
    show ?thesis
    proof (cases d)
      case Trigger
      then show ?thesis using True by (intro exI [of _ False] exI [of _ "[TriggerBargeIn]"]) (simp add: w)
    next
      case Candidate
      then show ?thesis using True
        by (intro exI [of _ True] exI [of _ "if candidateActive ?l then [] else [BargeInCandidate (readTurnId r)]"])
          (use same_candidate [of ?l] in \<open>simp add: w\<close>)
    next
      case Ignore
      then show ?thesis using True
        by (intro exI [of _ False] exI [of _ "if candidateActive ?l then [BargeInSuppressed (readTurnId r)] else []"])
          (use same_candidate [of ?l] in \<open>simp add: w\<close>)
    qed
  qed
qed

lemma whileSpeaking_frame:
  assumes "whileSpeaking f r frame started pre l = (l', es)"
  shows "speechBuffer l' = (if started then speechBuffer l else speechBuffer l @ frame)" "vad l' = vad l"
    "speaking l' = speaking l" "preSpeech l' = preSpeech l" "pendingCommitTurnId l' = pendingCommitTurnId l"
    "pendingCommitAudio l' = pendingCommitAudio l" "\<forall>e\<in>set es. \<not> ending e \<and> \<not> leaving e \<and> good_effect fs e"
proof -
  obtain c more where l': "l' = (heardOn started frame l)\<lparr> candidateActive := c \<rparr>"
    and es: "es = streamFrames (streamTakes r) (if started \<and> pre \<noteq> [] then pre else [frame]) @ more"
    and tail: "more \<in> {[], [TriggerBargeIn], [BargeInCandidate (readTurnId r)], [BargeInSuppressed (readTurnId r)]}"
    using whileSpeaking_shape [of f r frame started pre l] assms by auto
  show "speechBuffer l' = (if started then speechBuffer l else speechBuffer l @ frame)" "vad l' = vad l"
    "speaking l' = speaking l" "preSpeech l' = preSpeech l" "pendingCommitTurnId l' = pendingCommitTurnId l"
    "pendingCommitAudio l' = pendingCommitAudio l"
    by (simp_all add: l' heardOn_def)
  have "\<forall>e\<in>set more. \<not> ending e \<and> \<not> leaving e \<and> good_effect fs e"
    using tail by (auto simp: ending_def leaving_def good_effect_def)
  then show "\<forall>e\<in>set es. \<not> ending e \<and> \<not> leaving e \<and> good_effect fs e"
    using streamFrames_plain es by auto
qed

text \<open>The stages of a frame: what is due of an earlier turn, then the frame in or outside speech, then its end.\<close>

lemma duePending_inv:
  assumes "duePending f r l = (l', es)" "loop_inv frames l"
  shows "loop_inv frames l' \<and> (\<forall>e\<in>set es. good_effect frames e \<and> \<not> ending e)"
  using assms by (auto simp: duePending_def loop_inv_def good_effect_def ending_def Let_def split: if_splits)

lemma speechEnds_inv:
  assumes "speechEnds f r l = (l', es)" "speaking l" "\<not> isSpeaking (vad l)" "suffix mid frames" "speechBuffer l = concat mid"
    "preSpeech l = []"
    "pendingCommitTurnId l \<noteq> [] \<longrightarrow>
      stretch_of frames (pendingCommitAudio l) \<and> minCommittedTurnBytes \<le> length (pendingCommitAudio l)"
  shows "loop_inv frames l' \<and> (\<forall>e\<in>set es. good_effect frames e)"
  using assms suffix_stretch [OF assms(4)]
  by (auto simp: speechEnds_def loop_inv_def good_effect_def Let_def split: if_splits)

text \<open>The stages one after the other.\<close>

lemma inputFrame_stages:
  assumes "inputFrame f r frame l = (l', es)" "serverVad f"
  obtains l1 e1 v started ended l2 e2 l3 e3 e4 where
    "duePending f r l = (l1, e1)" "processFrame (loudness r) (vad (preRoll frame l1)) = (v, started, ended)"
    "(if started then speechStarts f r ((preRoll frame l1)\<lparr> vad := v \<rparr>) else ((preRoll frame l1)\<lparr> vad := v \<rparr>, [])) = (l2, e2)"
    "(if speaking l2 then whileSpeaking f r frame started (if started then preSpeech ((preRoll frame l1)\<lparr> vad := v \<rparr>) else []) l2
      else (l2, [])) = (l3, e3)"
    "(if ended then speechEnds f r l3 else (l3, [])) = (l', e4)" "es = e1 @ e2 @ e3 @ e4"
  using assms by (auto simp: inputFrame_def Let_def split: prod.splits)

lemma preRoll_frame:
  "vad (preRoll frame l) = vad l" "speaking (preRoll frame l) = speaking l" "speechBuffer (preRoll frame l) = speechBuffer l"
  "pendingCommitTurnId (preRoll frame l) = pendingCommitTurnId l"
  "pendingCommitAudio (preRoll frame l) = pendingCommitAudio l"
  by (simp_all add: preRoll_def Let_def)

lemma preRoll_suffix: "suffix (preSpeech l) frames \<Longrightarrow> suffix (preSpeech (preRoll frame l)) (frames @ [frame]) \<or> speaking l"
  using suffix_snoc_both [of "preSpeech l" frames frame] suffix_tl_both [of "preSpeech l @ [frame]" "frames @ [frame]"]
  by (simp add: preRoll_def Let_def del: suffix_snoc)

lemma good_snoc: "good_effect frames e \<Longrightarrow> good_effect (frames @ [x]) e"
  using stretch_snoc by (auto simp: good_effect_def split: effect.splits)

lemma inputFrame_inv:
  assumes "inputFrame f r frame l = (l', es)" "serverVad f" "loop_inv frames l"
  shows "loop_inv (frames @ [frame]) l' \<and> (\<forall>e\<in>set es. good_effect (frames @ [frame]) e)"
proof -
  from assms(1,2) obtain l1 e1 v started ended l2 e2 l3 e3 e4 where
    s1: "duePending f r l = (l1, e1)"
    and s2: "processFrame (loudness r) (vad (preRoll frame l1)) = (v, started, ended)"
    and s3: "(if started then speechStarts f r ((preRoll frame l1)\<lparr> vad := v \<rparr>) else ((preRoll frame l1)\<lparr> vad := v \<rparr>, []))
      = (l2, e2)"
    and s4: "(if speaking l2 then whileSpeaking f r frame started
        (if started then preSpeech ((preRoll frame l1)\<lparr> vad := v \<rparr>) else []) l2 else (l2, [])) = (l3, e3)"
    and s5: "(if ended then speechEnds f r l3 else (l3, [])) = (l', e4)" and es: "es = e1 @ e2 @ e3 @ e4"
    by (rule inputFrame_stages)
  let ?fs = "frames @ [frame]"
  have i1: "loop_inv frames l1" and g1: "\<forall>e\<in>set e1. good_effect ?fs e"
    using duePending_inv [OF s1 assms(3)] good_snoc by auto
  have fl: "isSpeaking v = (started \<or> speaking l1 \<and> \<not> ended)" "started \<longrightarrow> \<not> speaking l1" "ended \<longrightarrow> speaking l1"
    "\<not> (started \<and> ended)"
    using processFrame_flags [OF s2] i1 by (simp_all add: preRoll_frame loop_inv_def)
  have pend: "pendingCommitTurnId l1 \<noteq> [] \<longrightarrow>
      stretch_of ?fs (pendingCommitAudio l1) \<and> minCommittedTurnBytes \<le> length (pendingCommitAudio l1)"
    using i1 stretch_snoc by (auto simp: loop_inv_def)
  have l2: "speaking l2 = (started \<or> speaking l1)" "vad l2 = v" "pendingCommitTurnId l2 = pendingCommitTurnId l1"
    "pendingCommitAudio l2 = pendingCommitAudio l1"
    and g2: "\<forall>e\<in>set e2. good_effect ?fs e"
    using s3 by (auto simp: speechStarts_def preRoll_frame good_effect_def split: if_splits)
  show ?thesis
  proof (cases "speaking l2")
    case False
    then have quiet: "\<not> started" "\<not> speaking l1" "\<not> ended" using l2 fl by auto
    then have "l' = (preRoll frame l1)\<lparr> vad := v \<rparr>" "es = e1" using s3 s4 s5 es False by auto
    moreover have "suffix (preSpeech (preRoll frame l1)) ?fs"
      using preRoll_suffix [of l1 frames frame] i1 quiet by (simp add: loop_inv_def)
    ultimately show ?thesis
      using quiet fl pend g1 by (simp add: loop_inv_def preRoll_frame)
  next
    case True
    then have w: "whileSpeaking f r frame started (if started then preSpeech ((preRoll frame l1)\<lparr> vad := v \<rparr>) else []) l2
        = (l3, e3)" using s4 by simp
    note wf = whileSpeaking_frame [OF w]
    have "\<exists>mid. suffix mid ?fs \<and> speechBuffer l3 = concat mid"
    proof (cases started)
      case st: True
      then have "speechBuffer l2 = concat (preSpeech (preRoll frame l1))" using s3 by (auto simp: speechStarts_def)
      moreover have "suffix (preSpeech (preRoll frame l1)) ?fs"
        using preRoll_suffix [of l1 frames frame] i1 fl st by (simp add: loop_inv_def)
      ultimately show ?thesis using wf(1) st by auto
    next
      case nst: False
      then have sp: "speaking l1" using True l2 by simp
      then obtain mid where "suffix mid frames" "speechBuffer l1 = concat mid" using i1 by (auto simp: loop_inv_def)
      moreover have "speechBuffer l2 = speechBuffer l1" using s3 nst by (auto simp: preRoll_frame)
      ultimately show ?thesis
        using wf(1) nst suffix_snoc_both [of mid frames frame] by (intro exI [of _ "mid @ [frame]"]) simp
    qed
    then obtain mid where mid: "suffix mid ?fs" "speechBuffer l3 = concat mid" by blast
    have "preSpeech l2 = []"
    proof (cases started)
      case st: True
      then have "l2 = fst (speechStarts f r ((preRoll frame l1)\<lparr> vad := v \<rparr>))" using s3 by (metis fst_conv)
      then show ?thesis by (simp add: speechStarts_def)
    next
      case nst: False
      then have "l2 = (preRoll frame l1)\<lparr> vad := v \<rparr>" "speaking l1" using s3 True l2 by simp_all
      then show ?thesis using i1 by (simp add: loop_inv_def preRoll_def)
    qed
    then have pre: "preSpeech l3 = []" using wf(4) by simp
    have sp: "speaking l3" "vad l3 = v" using wf l2 True by simp_all
    have pend3: "pendingCommitTurnId l3 \<noteq> [] \<longrightarrow>
        stretch_of ?fs (pendingCommitAudio l3) \<and> minCommittedTurnBytes \<le> length (pendingCommitAudio l3)"
      using pend wf(5,6) l2 by simp
    have "loop_inv ?fs l' \<and> (\<forall>e\<in>set e4. good_effect ?fs e)"
    proof (cases ended)
      case True
      then have "\<not> isSpeaking (vad l3)" using fl sp by simp
      then show ?thesis using speechEnds_inv [of f r l3 l' e4, OF _ sp(1) _ mid pre pend3] s5 True by simp
    next
      case False
      then show ?thesis using s5 sp fl True l2 mid pre pend3 by (auto simp: loop_inv_def)
    qed
    then show ?thesis using g1 g2 wf(7) [of ?fs] es by auto
  qed
qed

text \<open>Counting effects of a kind.\<close>

definition tally :: "(effect \<Rightarrow> bool) \<Rightarrow> effect list \<Rightarrow> nat" where
  "tally P es = length (filter P es)"

lemma tally_simps [simp]: "tally P [] = 0" "tally P (e # es) = (if P e then 1 else 0) + tally P es"
  "tally P (xs @ ys) = tally P xs + tally P ys"
  by (simp_all add: tally_def)

lemma tally_none: "\<forall>e\<in>set es. \<not> P e \<Longrightarrow> tally P es = 0"
  by (simp add: tally_def filter_empty_conv)

lemma inputLoop_good:
  "inputLoop f inputs l = (l', es) \<Longrightarrow> serverVad f \<Longrightarrow> loop_inv frames l \<Longrightarrow>
   loop_inv (frames @ map snd inputs) l' \<and> (\<forall>e\<in>set es. \<exists>seen. prefix seen (frames @ map snd inputs) \<and> good_effect seen e)"
proof (induction f inputs l arbitrary: l' es frames rule: inputLoop.induct)
  case (1 f l)
  then show ?case by simp
next
  case (2 f r frame rest l)
  from "2.prems"(1) obtain l1 e1 e2 where step: "inputFrame f r frame l = (l1, e1)" "inputLoop f rest l1 = (l', e2)"
    "es = e1 @ e2" by (auto split: prod.splits)
  note one = inputFrame_inv [OF step(1) "2.prems"(2,3)]
  have "prefix (frames @ [frame]) (frames @ frame # map snd rest)" by simp
  then have "\<exists>seen. prefix seen (frames @ frame # map snd rest) \<and> good_effect seen e" if "e \<in> set e1" for e
    using one that by blast
  moreover have "loop_inv ((frames @ [frame]) @ map snd rest) l'
    \<and> (\<forall>e\<in>set e2. \<exists>seen. prefix seen ((frames @ [frame]) @ map snd rest) \<and> good_effect seen e)"
    using "2.IH" [OF step(1) [symmetric] step(2) "2.prems"(2)] one by blast
  ultimately show ?case using one step(3) by auto
qed

subsection \<open>The utterances of a stream of frames\<close>

text \<open>Frame \<open>i\<close> starts an utterance and frame \<open>j\<close> ends one when the detector changes its mind there. The audio of the
  utterance that ends with frame \<open>j\<close> runs from seven frames before its start to frame \<open>j\<close>.\<close>

definition speakingAt :: "real list \<Rightarrow> nat \<Rightarrow> bool" where
  "speakingAt xs i = isSpeaking (heard (take i xs))"

definition startsAt :: "real list \<Rightarrow> nat \<Rightarrow> bool" where
  "startsAt xs i \<longleftrightarrow> \<not> speakingAt xs i \<and> speakingAt xs (Suc i)"

definition endsAt :: "real list \<Rightarrow> nat \<Rightarrow> bool" where
  "endsAt xs j \<longleftrightarrow> speakingAt xs j \<and> \<not> speakingAt xs (Suc j)"

definition startBefore :: "real list \<Rightarrow> nat \<Rightarrow> nat" where
  "startBefore xs j = last (filter (startsAt xs) [0..<j])"

definition loudnesses :: "(readings \<times> bytes) list \<Rightarrow> real list" where
  "loudnesses inputs = map (loudness \<circ> fst) inputs"

definition audioBetween :: "(readings \<times> bytes) list \<Rightarrow> nat \<Rightarrow> nat \<Rightarrow> bytes" where
  "audioBetween inputs i j = concat (map snd (take (Suc j - i) (drop i inputs)))"

text \<open>The turn that was current when the utterance ended, and its audio.\<close>

definition utterances :: "(readings \<times> bytes) list \<Rightarrow> (string \<times> bytes) list" where
  "utterances inputs =
     map (\<lambda>j. (readTurnId (fst (inputs ! j)), audioBetween inputs (startBefore (loudnesses inputs) j - 7) j))
       (filter (endsAt (loudnesses inputs)) [0..<length inputs])"

text \<open>What leaves the loop: a turn with its audio, or a turn reported as too short.\<close>

definition outcomes :: "effect list \<Rightarrow> (string \<times> bytes option) list" where
  "outcomes es = concat (map (\<lambda>e. case e of CommitCaptured t audio \<Rightarrow> [(t, Some audio)]
     | DropTooShort t \<Rightarrow> [(t, None)] | _ \<Rightarrow> []) es)"

definition dueOutcome :: "string \<times> bytes \<Rightarrow> string \<times> bytes option" where
  "dueOutcome u = (fst u, if length (snd u) < minCommittedTurnBytes then None else Some (snd u))"

lemma outcomes_append [simp]: "outcomes (xs @ ys) = outcomes xs @ outcomes ys" "outcomes [] = []"
  by (simp_all add: outcomes_def)

lemma outcomes_none: "\<forall>e\<in>set es. \<not> leaving e \<Longrightarrow> outcomes es = []"
  by (induction es) (auto simp: outcomes_def leaving_def split: effect.splits)

lemma marks_snoc:
  "i \<le> length xs \<Longrightarrow> speakingAt (xs @ [x]) i = speakingAt xs i"
  "i < length xs \<Longrightarrow> startsAt (xs @ [x]) i = startsAt xs i"
  "i < length xs \<Longrightarrow> endsAt (xs @ [x]) i = endsAt xs i"
  by (simp_all add: speakingAt_def startsAt_def endsAt_def)

lemma startBefore_snoc: "j \<le> length xs \<Longrightarrow> startBefore (xs @ [x]) j = startBefore xs j"
  unfolding startBefore_def using marks_snoc(2) by (intro arg_cong [of _ _ last] filter_cong) auto

lemma utterances_snoc:
  "utterances (ins @ [x]) = utterances ins @
     (if endsAt (loudnesses (ins @ [x])) (length ins)
      then [(readTurnId (fst x), audioBetween (ins @ [x]) (startBefore (loudnesses ins) (length ins) - 7) (length ins))]
      else [])"
proof -
  let ?xs = "loudnesses ins"
  have l: "loudnesses (ins @ [x]) = ?xs @ [loudness (fst x)]" "length ?xs = length ins" by (simp_all add: loudnesses_def)
  have "filter (endsAt (?xs @ [loudness (fst x)])) [0..<length ins] = filter (endsAt ?xs) [0..<length ins]"
    using l(2) marks_snoc(3) by (intro filter_cong) auto
  moreover have "map (\<lambda>j. (readTurnId (fst ((ins @ [x]) ! j)),
        audioBetween (ins @ [x]) (startBefore (?xs @ [loudness (fst x)]) j - 7) j)) (filter (endsAt ?xs) [0..<length ins])
      = map (\<lambda>j. (readTurnId (fst (ins ! j)), audioBetween ins (startBefore ?xs j - 7) j))
          (filter (endsAt ?xs) [0..<length ins])"
    using l(2) by (intro map_cong) (auto simp: nth_append startBefore_snoc audioBetween_def)
  ultimately show ?thesis using l by (simp add: utterances_def startBefore_snoc)
qed

text \<open>The loop has heard the frames \<open>ins\<close>; between utterances \<open>m\<close> of them came since the last one.\<close>

definition hearing :: "(readings \<times> bytes) list \<Rightarrow> input_loop \<Rightarrow> bool" where
  "hearing ins l \<longleftrightarrow> vad l = heard (loudnesses ins) \<and> speaking l = isSpeaking (vad l) \<and> pendingCommitTurnId l = []
     \<and> (if speaking l
        then preSpeech l = [] \<and> (let s = startBefore (loudnesses ins) (length ins) in
               s < length ins \<and> speechBuffer l = concat (map snd (drop (s - 7) ins)))
        else (\<exists>m\<le>length ins. preSpeech l = last_n (min 8 m) (map snd ins) \<and> speechFrames (vad l) \<le> m))"

lemma marks_now:
  "speakingAt (loudnesses (ins @ [x])) (length ins) = isSpeaking (heard (loudnesses ins))"
  "speakingAt (loudnesses (ins @ [x])) (Suc (length ins)) = isSpeaking (heard (loudnesses (ins @ [x])))"
  by (simp_all add: speakingAt_def loudnesses_def)

lemma startBefore_step:
  "startBefore (loudnesses (ins @ [x])) (Suc (length ins)) =
     (if startsAt (loudnesses (ins @ [x])) (length ins) then length ins else startBefore (loudnesses ins) (length ins))"
  using startBefore_snoc [of "length ins" "loudnesses ins" "loudness (fst x)"]
  by (simp add: startBefore_def loudnesses_def)

lemma preRoll_last:
  assumes "\<not> speaking l" "m \<le> length fs" "preSpeech l = last_n (min 8 m) fs"
  shows "preSpeech (preRoll frame l) = last_n (min 8 (Suc m)) (fs @ [frame])"
proof (cases "m < 8")
  case True
  then show ?thesis using assms by (auto simp: preRoll_def vadPreRollFrames_def last_n_def)
next
  case False
  have "tl ys = drop 1 ys" for ys :: "bytes list" by (cases ys) simp_all
  moreover have "Suc (length fs - 8) = length fs - 7" "1 - (length fs - (length fs - 8)) = 0" using False assms(2) by linarith+
  ultimately have "tl (last_n 8 fs @ [frame]) = last_n 8 (fs @ [frame])"
    by (simp add: last_n_def)
  then show ?thesis using False assms by (auto simp: preRoll_def vadPreRollFrames_def min_def)
qed

lemma hearing_step:
  assumes "inputFrame f r frame l = (l', es)" "serverVad f" "serverTurn f" "turnStrategy f = LegacyStrategy" "hearing ins l"
  shows "hearing (ins @ [(r, frame)]) l' \<and> outcomes es =
    (if endsAt (loudnesses (ins @ [(r, frame)])) (length ins)
     then [dueOutcome (readTurnId r, audioBetween (ins @ [(r, frame)]) (startBefore (loudnesses ins) (length ins) - 7) (length ins))]
     else [])"
proof -
  from assms(1,2) obtain l1 e1 v started ended l2 e2 l3 e3 e4 where
    s1: "duePending f r l = (l1, e1)"
    and s2: "processFrame (loudness r) (vad (preRoll frame l1)) = (v, started, ended)"
    and s3: "(if started then speechStarts f r ((preRoll frame l1)\<lparr> vad := v \<rparr>) else ((preRoll frame l1)\<lparr> vad := v \<rparr>, []))
      = (l2, e2)"
    and s4: "(if speaking l2 then whileSpeaking f r frame started
        (if started then preSpeech ((preRoll frame l1)\<lparr> vad := v \<rparr>) else []) l2 else (l2, [])) = (l3, e3)"
    and s5: "(if ended then speechEnds f r l3 else (l3, [])) = (l', e4)" and es: "es = e1 @ e2 @ e3 @ e4"
    by (rule inputFrame_stages)
  let ?ins = "ins @ [(r, frame)]" and ?n = "length ins" and ?s = "startBefore (loudnesses ins) (length ins)"
  have due0: "e1 = []" "l1 = l" using s1 assms(5) by (simp_all add: duePending_def hearing_def)
  have v: "v = heard (loudnesses ?ins)"
    using s2 assms(5) by (simp add: due0 preRoll_frame hearing_def loudnesses_def heard_snoc)
  have fl: "isSpeaking v = (started \<or> speaking l \<and> \<not> ended)" "started \<longrightarrow> \<not> speaking l" "ended \<longrightarrow> speaking l"
    "\<not> (started \<and> ended)"
    using processFrame_flags [OF s2] assms(5) by (simp_all add: due0 preRoll_frame hearing_def)
  have now: "speakingAt (loudnesses ?ins) ?n = speaking l" "speakingAt (loudnesses ?ins) (Suc ?n) = isSpeaking v"
    using assms(5) by (simp_all add: marks_now v hearing_def)
  then have marks: "endsAt (loudnesses ?ins) ?n = ended" "startsAt (loudnesses ?ins) ?n = started"
    using fl by (auto simp: endsAt_def startsAt_def)
  note start = startBefore_step [of ins "(r, frame)", unfolded marks]
  have l2: "speaking l2 = (started \<or> speaking l)" "vad l2 = v" "pendingCommitTurnId l2 = []" "outcomes e2 = []"
    using s3 assms(5) by (auto simp: due0 speechStarts_def preRoll_frame hearing_def outcomes_def split: if_splits)
  show ?thesis
  proof (cases "speaking l2")
    case False
    then have out: "\<not> started" "\<not> speaking l" "\<not> ended" using l2 fl by auto
    then have l': "l' = (preRoll frame l)\<lparr> vad := v \<rparr>" "es = []" using s3 s4 s5 es False due0 by auto
    obtain m where m: "m \<le> ?n" "preSpeech l = last_n (min 8 m) (map snd ins)" "speechFrames (vad l) \<le> m"
      using assms(5) out by (auto simp: hearing_def)
    have "speechFrames v \<le> Suc (speechFrames (vad l))"
      using s2 assms(5) out by (auto simp: due0 preRoll_frame hearing_def processFrame_def Let_def split: if_splits)
    then have "\<exists>k\<le>Suc ?n. preSpeech l' = last_n (min 8 k) (map snd ?ins) \<and> speechFrames v \<le> k"
      using preRoll_last [of l m "map snd ins" frame] m out l' by (intro exI [of _ "Suc m"]) simp
    then show ?thesis using l' v fl out marks assms(5) by (simp add: hearing_def preRoll_frame)
  next
    case True
    then have w: "whileSpeaking f r frame started (if started then preSpeech ((preRoll frame l1)\<lparr> vad := v \<rparr>) else []) l2
        = (l3, e3)" using s4 by simp
    note wf = whileSpeaking_frame [OF w]
    have e3: "outcomes e3 = []" using wf(7) by (intro outcomes_none) auto
    have buffer: "speechBuffer l3 = concat (map snd (drop (startBefore (loudnesses ?ins) (Suc ?n) - 7) ?ins))
        \<and> startBefore (loudnesses ?ins) (Suc ?n) \<le> ?n \<and> preSpeech l3 = []"
    proof (cases started)
      case st: True
      then obtain m where m: "m \<le> ?n" "preSpeech l = last_n (min 8 m) (map snd ins)" "speechFrames (vad l) \<le> m"
        using assms(5) fl by (auto simp: hearing_def)
      have "9 \<le> speechFrames (vad l)"
        using s2 st by (auto simp: due0 preRoll_frame processFrame_def vadMinSpeechFrames_def Let_def split: if_splits)
      then have m9: "9 \<le> m" using m by simp
      have "l2 = fst (speechStarts f r ((preRoll frame l)\<lparr> vad := v \<rparr>))" using s3 st due0 by (metis fst_conv)
      then have "speechBuffer l2 = concat (preSpeech (preRoll frame l))" "preSpeech l2 = []"
        by (simp_all add: speechStarts_def)
      moreover have "preSpeech (preRoll frame l) = last_n 8 (map snd ?ins)"
        using preRoll_last [of l m "map snd ins" frame] m m9 st fl by simp
      moreover have "last_n 8 (map snd ?ins) = map snd (drop (?n - 7) ?ins)"
        using m m9 by (simp add: last_n_def drop_map Suc_diff_le)
      ultimately show ?thesis using wf(1,4) st start by simp
    next
      case nst: False
      then have "speaking l" "l2 = (preRoll frame l)\<lparr> vad := v \<rparr>" using True l2 s3 due0 by simp_all
      then show ?thesis using wf(1,4) nst start assms(5)
        by (auto simp: hearing_def preRoll_def Let_def)
    qed
    show ?thesis
    proof (cases ended)
      case False
      then have "l' = l3" "e4 = []" "started \<or> speaking l" using s5 True l2 by auto
      then show ?thesis
        using False marks es due0 l2 e3 buffer wf fl v True by (auto simp: hearing_def Let_def)
    next
      case e: True
      then have l': "l' = l3\<lparr> speaking := False, speechBuffer := [], candidateActive := False \<rparr>"
        "outcomes e4 = [dueOutcome (readTurnId r, speechBuffer l3)]"
        using s5 assms(3,4) by (auto simp: speechEnds_def Let_def outcomes_def dueOutcome_def split: if_splits)
      have "speechFrames v = 0" using s2 e by (auto simp: due0 processFrame_def Let_def split: if_splits)
      then have "\<exists>m\<le>Suc ?n. preSpeech l' = last_n (min 8 m) (map snd ?ins) \<and> speechFrames v \<le> m"
        using l'(1) buffer by (intro exI [of _ 0]) (simp add: last_n_def)
      then have "hearing ?ins l'" using l'(1) wf(2,5) l2 v fl e by (auto simp: hearing_def)
      moreover have "outcomes es = [dueOutcome (readTurnId r, speechBuffer l3)]"
        using es due0 l2 e3 l'(2) by simp
      moreover have "speechBuffer l3 = audioBetween ?ins (?s - 7) ?n"
        using buffer start e fl by (auto simp: audioBetween_def)
      ultimately show ?thesis using marks e by simp
    qed
  qed
qed

lemma inputLoop_utterances:
  "inputLoop f inputs l = (l', es) \<Longrightarrow> serverVad f \<Longrightarrow> serverTurn f \<Longrightarrow> turnStrategy f = LegacyStrategy \<Longrightarrow> hearing ins l \<Longrightarrow>
   map dueOutcome (utterances (ins @ inputs)) = map dueOutcome (utterances ins) @ outcomes es"
proof (induction f inputs l arbitrary: l' es ins rule: inputLoop.induct)
  case (1 f l)
  then show ?case by simp
next
  case (2 f r frame rest l)
  from "2.prems"(1) obtain l1 e1 e2 where step: "inputFrame f r frame l = (l1, e1)" "inputLoop f rest l1 = (l', e2)"
    "es = e1 @ e2" by (auto split: prod.splits)
  note one = hearing_step [OF step(1) "2.prems"(2-5)]
  from "2.IH" [OF step(1) [symmetric] step(2) "2.prems"(2-4)] one
  have "map dueOutcome (utterances ((ins @ [(r, frame)]) @ rest)) = map dueOutcome (utterances (ins @ [(r, frame)])) @ outcomes e2" by blast
  then show ?case using one step(3) by (simp add: utterances_snoc)
qed

lemma stretch_prefix: "prefix seen frames \<Longrightarrow> stretch_of seen audio \<Longrightarrow> stretch_of frames audio"
  unfolding stretch_of_def by (metis prefix_imp_sublist sublist_order.order_trans)

text \<open>C22: With server-side speech detection, whatever the caller says and whatever the loop reads meanwhile: every turn
  handed to the transcriber is one uninterrupted stretch of the received frames, in order and complete, and
  at least 6400 bytes long. When the server also ends the turns and the strategy is the legacy one, what leaves
  the loop is exactly the utterances that ended, in their order and each once, under the turn that was
  current when it ended: with all frames from the seventh before the one on which the detector
  noticed the speech to the one on which it noticed the end, or reported as too short when that is less
  than 6400 bytes.\<close>

theorem committed_audio_is_a_stretch:
  "list_all (good_effect (map snd inputs)) (snd (inputLoop (f\<lparr> serverVad := True \<rparr>) inputs newInputLoop))
   \<and> outcomes (snd (inputLoop (f\<lparr> turnStrategy := LegacyStrategy, serverTurn := True, serverVad := True \<rparr>) inputs newInputLoop))
     = map dueOutcome (utterances inputs)"
proof (intro conjI)
  let ?f = "f\<lparr> serverVad := True \<rparr>"
  obtain l' es where run: "inputLoop ?f inputs newInputLoop = (l', es)" by fastforce
  have "loop_inv [] newInputLoop" by (simp add: loop_inv_def newInputLoop_def freshVad_def)
  from inputLoop_good [OF run _ this] have
    "\<forall>e\<in>set es. \<exists>seen. prefix seen (map snd inputs) \<and> good_effect seen e" by simp
  then have "good_effect (map snd inputs) e" if "e \<in> set es" for e
    using that stretch_prefix by (fastforce simp: good_effect_def split: effect.splits)
  then show "list_all (good_effect (map snd inputs)) (snd (inputLoop ?f inputs newInputLoop))"
    by (simp add: run list_all_iff)
next
  let ?f = "f\<lparr> turnStrategy := LegacyStrategy, serverTurn := True, serverVad := True \<rparr>"
  obtain l' es where run: "inputLoop ?f inputs newInputLoop = (l', es)" by fastforce
  have "hearing [] newInputLoop"
    by (simp add: hearing_def newInputLoop_def heard_def loudnesses_def freshVad_def last_n_def)
  from inputLoop_utterances [OF run _ _ _ this] show "outcomes (snd (inputLoop ?f inputs newInputLoop)) = map dueOutcome (utterances inputs)"
    by (simp add: run utterances_def)
qed

text \<open>The balanced strategy loses turns. While one captured turn waits for the silence that commits it, the caller
  may say something more; when that ends, the new turn takes the place of the waiting one, whose audio is
  neither transcribed nor reported as dropped.\<close>

theorem second_utterance_replaces_first:
  assumes "serverVad f" and "serverTurn f" and "turnStrategy f = BalancedStrategy"
    and "speaking l" and "isSpeaking (vad l)" and "redemptionCount (vad l) = 15" and "quiet (loudness r)"
    and "pendingCommitTurnId l \<noteq> []" and "minCommittedTurnBytes \<le> length (speechBuffer l @ frame)"
    and "pendingSilenceMs l \<ge> 0" and "0 < frameMs f" and "pendingSilenceMs l + frameMs f < 700" and "trim_space (interim r) = []"
  shows "\<exists>l' es. inputFrame f r frame l = (l', es) \<and> tally ending es = 1 \<and> tally leaving es = 0
    \<and> pendingCommitTurnId l' = readTurnId r \<and> pendingCommitAudio l' = speechBuffer l @ frame
    \<and> pendingSilenceMs l' = 0"
proof -
  let ?l1 = "l\<lparr> pendingSilenceMs := pendingSilenceMs l + frameMs f \<rparr>"
  have "wrap64 (pendingSilenceMs l + frameMs f) = pendingSilenceMs l + frameMs f"
    using assms(10-12) by (intro wrap64_id) (simp_all add: min_int64_def max_int64_def)
  then have due: "duePending f r l = (?l1, [])"
    using assms(3,8,11-13) by (simp add: duePending_def Let_def)
  let ?v = "\<lparr> isSpeaking = False, speechFrames = 0, redemptionCount = 0 \<rparr>"
  have v: "processFrame (loudness r) (vad (preRoll frame ?l1)) = (?v, False, True)"
    using assms(4-7) by (cases "vad l") (simp add: processFrame_def preRoll_def quiet_def vadRedemptionFrames_def Let_def)
  obtain l3 e3 where w: "whileSpeaking f r frame False [] (?l1\<lparr> vad := ?v \<rparr>) = (l3, e3)" by fastforce
  note wf = whileSpeaking_frame [OF w]
  have "inputFrame f r frame l = (case speechEnds f r l3 of (l, e4) \<Rightarrow> (l, e3 @ e4))"
    using assms(1,4) due v w by (simp add: inputFrame_def preRoll_def Let_def)
  moreover have "speechEnds f r l3 =
      (l3\<lparr> speaking := False, speechBuffer := [], candidateActive := False, pendingCommitTurnId := readTurnId r,
           pendingCommitAudio := speechBuffer l @ frame, pendingSilenceMs := 0 \<rparr>,
       [SetUserSpeaking False, SpeechEndedEvent (readTurnId r)])"
    using assms(2,3,9,13) wf(1) by (simp add: speechEnds_def Let_def)
  ultimately show ?thesis
    using wf(7) tally_none [of e3 ending] tally_none [of e3 leaving] by (simp add: ending_def leaving_def)
qed

lemma second_utterance_replaces_first_witness:
  "let f = \<lparr> serverVad = True, serverTurn = True, bargeIn = False, turnStrategy = BalancedStrategy, frameMs = 20 \<rparr>;
       l = newInputLoop\<lparr> vad := \<lparr> isSpeaking = True, speechFrames = 0, redemptionCount = 15 \<rparr>, speaking := True,
         speechBuffer := replicate 6400 0, pendingCommitTurnId := ''t1'', pendingCommitAudio := replicate 6400 1,
         pendingSilenceMs := 500 \<rparr>;
       r = \<lparr> loudness = 0, newTurnId = [], readTurnId = ''t2'', armed = False, runIsActive = False,
         responseIsActive = False, interim = [], durationNow = 0, streamTakes = None, lower = (\<lambda>x. x) \<rparr> in
   \<exists>l' es. inputFrame f r [] l = (l', es) \<and> tally leaving es = 0 \<and> pendingCommitTurnId l' = ''t2''"
proof -
  let ?f = "\<lparr> serverVad = True, serverTurn = True, bargeIn = False, turnStrategy = BalancedStrategy, frameMs = 20 \<rparr>"
  let ?l = "newInputLoop\<lparr> vad := \<lparr> isSpeaking = True, speechFrames = 0, redemptionCount = 15 \<rparr>, speaking := True,
         speechBuffer := replicate 6400 0, pendingCommitTurnId := ''t1'', pendingCommitAudio := replicate 6400 1,
         pendingSilenceMs := 500 \<rparr>"
  let ?r = "\<lparr> loudness = 0, newTurnId = [], readTurnId = ''t2'', armed = False, runIsActive = False,
         responseIsActive = False, interim = [], durationNow = 0, streamTakes = None, lower = (\<lambda>x. x) \<rparr>"
  have "trim_space [] = []" by (simp add: trim_space_def bytes_of_def)
  then have "\<exists>l' es. inputFrame ?f ?r [] ?l = (l', es) \<and> tally ending es = 1 \<and> tally leaving es = 0
    \<and> pendingCommitTurnId l' = readTurnId ?r \<and> pendingCommitAudio l' = speechBuffer ?l @ [] \<and> pendingSilenceMs l' = 0"
    by (intro second_utterance_replaces_first)
      (simp_all add: quiet_def vadNegativeThreshold_def minCommittedTurnBytes_def)
  then show ?thesis by (simp add: Let_def) blast
qed

end
