(* ===== verification/Paths.thy ===== *)
theory Paths
  imports GoStrings
begin

text \<open>
  What the program uses of Go's package \<open>path/filepath\<close> on Unix: \<open>Clean\<close>, \<open>Join\<close>, \<open>IsAbs\<close>, \<open>Ext\<close>,
  \<open>Base\<close> and \<open>Dir\<close>, which work on the text of a path alone. A path is read as the list of its
  components; \<open>resolve\<close> is the stack machine that removes empty components and dots and lets \<open>..\<close>
  take back the component before it. The lemmas say which component lists can result and what
  joining, cleaning and comparing prefixes mean for them.
\<close>

subsection \<open>Components\<close>

abbreviation slash :: char where "slash \<equiv> CHR ''/''"

definition components :: "string \<Rightarrow> string list" where
  "components p = split_byte slash p"

definition rooted :: "string \<Rightarrow> bool" where
  "rooted p \<longleftrightarrow> has_prefix p ''/''"

definition resolveStep :: "bool \<Rightarrow> string list \<Rightarrow> string \<Rightarrow> string list" where
  "resolveStep root out c =
     (if c = [] \<or> c = ''.'' then out
      else if c = ''..'' then
        (if out \<noteq> [] \<and> last out \<noteq> ''..'' then butlast out else if root then out else out @ [''..''])
      else out @ [c])"

definition resolve :: "bool \<Rightarrow> string list \<Rightarrow> string list \<Rightarrow> string list" where
  "resolve root out cs = foldl (resolveStep root) out cs"

definition parts :: "string \<Rightarrow> string list" where
  "parts p = resolve (rooted p) [] (components p)"

subsection \<open>The functions of the package\<close>

definition render :: "bool \<Rightarrow> string list \<Rightarrow> string" where
  "render root ps =
     (if root then slash # join ''/'' ps else if ps = [] then ''.'' else join ''/'' ps)"

definition clean :: "string \<Rightarrow> string" where
  "clean p = render (rooted p) (parts p)"

definition joinPath :: "string \<Rightarrow> string \<Rightarrow> string" where
  "joinPath a b =
     (if a \<noteq> [] then clean (a @ ''/'' @ b) else if b \<noteq> [] then clean b else [])"

definition isAbs :: "string \<Rightarrow> bool" where
  "isAbs p \<longleftrightarrow> rooted p"

text \<open>The extension: from the last dot of the last component, with the dot.\<close>

definition ext :: "string \<Rightarrow> string" where
  "ext p =
     (let name = last (components p) in
      case last_index_byte name (CHR ''.'') of None \<Rightarrow> [] | Some i \<Rightarrow> drop i name)"

definition dir :: "string \<Rightarrow> string" where
  "dir p = clean (case last_index_byte p slash of None \<Rightarrow> [] | Some i \<Rightarrow> take (Suc i) p)"

definition base :: "string \<Rightarrow> string" where
  "base p =
     (if p = [] then ''.''
      else (let q = rev (dropWhile (\<lambda>c. c = slash) (rev p)) in
            if q = [] then ''/'' else last (components q)))"

subsection \<open>Splitting at the separator\<close>

lemma components_nonempty [simp]: "components p \<noteq> []"
  by (simp add: components_def)

lemma components_append: "components (a @ slash # b) = components a @ components b"
proof (induction a)
  case Nil
  then show ?case by (simp add: components_def)
next
  case (Cons x a)
  obtain y ys where "components a = y # ys" by (meson components_nonempty neq_Nil_conv)
  with Cons show ?case by (auto simp: components_def)
qed

lemma components_no_slash: "c \<in> set (components p) \<Longrightarrow> slash \<notin> set c"
  unfolding components_def by (rule split_byte_no_sep)

lemma components_single: "slash \<notin> set p \<Longrightarrow> components p = [p]"
  by (simp add: components_def split_byte_none)

lemma components_join:
  "ps \<noteq> [] \<Longrightarrow> (\<And>p. p \<in> set ps \<Longrightarrow> slash \<notin> set p) \<Longrightarrow> components (join ''/'' ps) = ps"
proof (induction ps rule: induct_list012)
  case (3 x y zs)
  have "components (x @ slash # join ''/'' (y # zs)) = components x @ components (join ''/'' (y # zs))"
    by (rule components_append)
  with 3 show ?case by (simp add: components_single)
qed (simp_all add: components_single)

lemma rooted_append [simp]: "a \<noteq> [] \<Longrightarrow> rooted (a @ b) = rooted a"
  by (cases a) (auto simp: rooted_def has_prefix_def)

lemma rooted_simps [simp]: "\<not> rooted []" "rooted (c # p) \<longleftrightarrow> c = slash"
  by (auto simp: rooted_def has_prefix_def)

subsection \<open>Which component lists result\<close>

definition normal :: "string \<Rightarrow> bool" where
  "normal c \<longleftrightarrow> c \<noteq> [] \<and> c \<noteq> ''.'' \<and> c \<noteq> ''..'' \<and> slash \<notin> set c"

definition well_resolved :: "bool \<Rightarrow> string list \<Rightarrow> bool" where
  "well_resolved root ps \<longleftrightarrow>
     (\<exists>k qs. ps = replicate k ''..'' @ qs \<and> (\<forall>q\<in>set qs. normal q) \<and> (root \<longrightarrow> k = 0))"

lemma dotdot_not_normal [simp]: "\<not> normal ''..''" "\<not> normal ''.''" "\<not> normal []"
  by (simp_all add: normal_def)

lemma well_resolvedI:
  "\<forall>q\<in>set qs. normal q \<Longrightarrow> (root \<Longrightarrow> k = 0) \<Longrightarrow> well_resolved root (replicate k ''..'' @ qs)"
  unfolding well_resolved_def by blast

lemma resolveStep_normal: "normal c \<Longrightarrow> resolveStep root out c = out @ [c]"
  by (auto simp: resolveStep_def normal_def)

lemma resolveStep_well:
  assumes "well_resolved root out" "slash \<notin> set c"
  shows "well_resolved root (resolveStep root out c)"
proof -
  obtain k qs where o: "out = replicate k ''..'' @ qs" and q: "\<forall>q\<in>set qs. normal q" and r: "root \<longrightarrow> k = 0"
    using assms(1) unfolding well_resolved_def by blast
  consider "c = [] \<or> c = ''.''" | "c = ''..''" | "normal c" using assms(2) by (auto simp: normal_def)
  then show ?thesis
  proof cases
    case 1
    then show ?thesis using assms(1) by (auto simp: resolveStep_def)
  next
    case 2
    show ?thesis
    proof (cases qs rule: rev_cases)
      case Nil
      have "replicate k ''..'' @ [''..''] = replicate (Suc k) ''..'' @ []" by (simp add: replicate_append_same)
      then show ?thesis
        using 2 o r Nil well_resolvedI [of "[]" root "Suc k"] well_resolvedI [of "[]" root k]
        by (cases root) (auto simp: resolveStep_def)
    next
      case (snoc qs' q')
      then have "q' \<noteq> ''..''" using q by auto
      then show ?thesis
        using 2 o q r snoc well_resolvedI [of qs' root k] by (simp add: resolveStep_def butlast_append)
    qed
  next
    case 3
    then show ?thesis using o q r well_resolvedI [of "qs @ [c]" root k] by (simp add: resolveStep_normal)
  qed
qed

lemma resolve_simps [simp]:
  "resolve root out [] = out"
  "resolve root out (c # cs) = resolve root (resolveStep root out c) cs"
  by (simp_all add: resolve_def)

lemma resolve_append: "resolve root out (cs @ ds) = resolve root (resolve root out cs) ds"
  by (simp add: resolve_def)

lemma resolve_well:
  "well_resolved root out \<Longrightarrow> (\<And>c. c \<in> set cs \<Longrightarrow> slash \<notin> set c) \<Longrightarrow> well_resolved root (resolve root out cs)"
  by (induction cs arbitrary: out) (auto simp: resolveStep_well)

lemma well_resolved_Nil [simp]: "well_resolved root []"
  using well_resolvedI [of "[]" root 0] by simp

lemma parts_well: "well_resolved (rooted p) (parts p)"
  unfolding parts_def by (rule resolve_well) (auto dest: components_no_slash)

lemma resolve_normal: "\<forall>c\<in>set cs. normal c \<Longrightarrow> resolve root out cs = out @ cs"
  by (induction cs arbitrary: out) (auto simp: resolveStep_normal)

lemma resolve_dots: "resolve False (replicate j ''..'') (replicate k ''..'') = replicate (j + k) ''..''"
proof (induction k arbitrary: j)
  case (Suc k)
  have "replicate j ''..'' @ [''..''] = replicate (Suc j) ''..''" by (simp add: replicate_append_same)
  moreover have "j > 0 \<Longrightarrow> last (replicate j ''..'') = ''..''" by (simp add: last_replicate)
  ultimately have "resolveStep False (replicate j ''..'') ''..'' = replicate (Suc j) ''..''"
    by (auto simp: resolveStep_def)
  with Suc.IH [of "Suc j"] show ?case by simp
qed simp

lemma resolve_resolved: "well_resolved root ps \<Longrightarrow> resolve root [] ps = ps"
  unfolding well_resolved_def
proof (elim exE conjE)
  fix k qs
  assume ps: "ps = replicate k ''..'' @ qs" and n: "\<forall>q\<in>set qs. normal q" and r: "root \<longrightarrow> k = 0"
  have "resolve root [] (replicate k ''..'') = replicate k ''..''"
    using r resolve_dots [of 0 k] by (cases root) simp_all
  then show "resolve root [] ps = ps" by (simp add: ps resolve_append resolve_normal [OF n])
qed

lemma well_resolved_part: "well_resolved root ps \<Longrightarrow> p \<in> set ps \<Longrightarrow> p = ''..'' \<or> normal p"
  unfolding well_resolved_def by (elim exE conjE) (simp, blast)

lemma well_resolved_no_slash: "well_resolved root ps \<Longrightarrow> p \<in> set ps \<Longrightarrow> slash \<notin> set p"
  by (drule (1) well_resolved_part) (auto simp: normal_def)

lemma well_resolved_nonempty: "well_resolved root ps \<Longrightarrow> [] \<notin> set ps"
  using well_resolved_part [of root ps "[]"] by auto

lemma well_resolved_normal:
  assumes "well_resolved root ps" "hd ps \<noteq> ''..''" "q \<in> set ps"
  shows "normal q"
proof -
  obtain k qs where ps: "ps = replicate k ''..'' @ qs" and n: "\<forall>q\<in>set qs. normal q"
    using assms(1) unfolding well_resolved_def by blast
  have "k = 0" using assms(2) ps by (cases k) simp_all
  then show ?thesis using ps n assms(3) by simp
qed

subsection \<open>Cleaning and joining\<close>

lemma join_starts: "ps \<noteq> [] \<Longrightarrow> hd ps \<noteq> [] \<Longrightarrow> join sep ps \<noteq> [] \<and> hd (join sep ps) = hd (hd ps)"
proof (induction ps rule: induct_list012)
  case (3 x y zs)
  then show ?case by (cases x) simp_all
qed simp_all

lemma join_append: "xs \<noteq> [] \<Longrightarrow> ys \<noteq> [] \<Longrightarrow> join sep (xs @ ys) = join sep xs @ sep @ join sep ys"
  by (induction xs rule: induct_list012) (simp_all add: join_Cons)

lemma rooted_render: "well_resolved root ps \<Longrightarrow> rooted (render root ps) = root"
proof (cases "root \<or> ps = []")
  case False
  assume w: "well_resolved root ps"
  from False have ne: "ps \<noteq> []" by simp
  then have h: "hd ps \<in> set ps" by simp
  have "hd ps \<noteq> []" using w h well_resolved_nonempty by metis
  moreover from this have "hd (hd ps) \<noteq> slash" using well_resolved_no_slash [OF w h] by (metis hd_in_set)
  ultimately show ?thesis using False join_starts [OF ne, of "''/''"]
    by (cases "join ''/'' ps") (auto simp: render_def)
qed (auto simp: render_def)

lemma components_render:
  assumes "well_resolved root ps"
  shows "components (render root ps) =
    (if root then (if ps = [] then [[], []] else [] # ps) else if ps = [] then [''.''] else ps)"
proof -
  have j: "ps \<noteq> [] \<Longrightarrow> components (join ''/'' ps) = ps"
    by (rule components_join) (auto dest: well_resolved_no_slash [OF assms])
  have "components (slash # join ''/'' ps) = [] # components (join ''/'' ps)"
    using components_append [of "[]" "join ''/'' ps"] by (simp add: components_single)
  then show ?thesis using j by (auto simp: render_def components_single)
qed

lemma parts_render: "well_resolved root ps \<Longrightarrow> parts (render root ps) = ps"
  by (auto simp: parts_def rooted_render components_render resolve_resolved resolveStep_def)

lemma parts_clean [simp]: "parts (clean p) = parts p"
  by (simp add: clean_def parts_render parts_well)

lemma rooted_clean [simp]: "rooted (clean p) = rooted p"
  by (simp add: clean_def rooted_render parts_well)

lemma clean_clean [simp]: "clean (clean p) = clean p"
  by (simp add: clean_def [of "clean p"]) (simp add: clean_def)

lemma clean_nonempty [simp]: "clean p \<noteq> []"
  using join_starts [of "parts p" "''/''"] well_resolved_nonempty [OF parts_well, of p]
  by (auto simp: clean_def render_def) (metis hd_in_set)

lemma clean_eq_iff: "clean p = clean q \<longleftrightarrow> rooted p = rooted q \<and> parts p = parts q"
proof
  assume "clean p = clean q"
  then show "rooted p = rooted q \<and> parts p = parts q" using parts_clean rooted_clean by metis
qed (simp add: clean_def)

lemma joinPath_simps [simp]:
  assumes "a \<noteq> []"
  shows "parts (joinPath a b) = resolve (rooted a) (parts a) (components b)"
    and "rooted (joinPath a b) = rooted a"
    and "joinPath a b \<noteq> []"
    and "clean (joinPath a b) = joinPath a b"
  using assms components_append [of a b]
  by (simp_all add: joinPath_def) (simp add: parts_def resolve_append)

lemma joinPath_eq:
  assumes "a \<noteq> []" "b \<noteq> []"
  shows "joinPath a x = joinPath b y \<longleftrightarrow> rooted a = rooted b \<and> parts (joinPath a x) = parts (joinPath b y)"
  using assms by (metis clean_eq_iff joinPath_simps(2) joinPath_simps(4))

text \<open>Below a clean path: the text has it and a separator as a prefix, and the components go on.\<close>

lemma clean_prefix:
  assumes "has_prefix (clean a) (clean d @ ''/'')" "parts d \<noteq> []"
  shows "rooted a = rooted d \<and> (\<exists>rest. rest \<noteq> [] \<and> parts a = parts d @ rest)"
proof -
  obtain t where t: "clean a = clean d @ slash # t" using assms(1) by (auto simp: has_prefix_iff)
  then have r: "rooted a = rooted d" by (metis clean_nonempty rooted_append rooted_clean)
  have c: "components (clean a) = components (clean d) @ components t" unfolding t by (rule components_append)
  have ca: "components (clean a) =
    (if rooted a then (if parts a = [] then [[], []] else [] # parts a) else if parts a = [] then [''.''] else parts a)"
    unfolding clean_def by (rule components_render [OF parts_well])
  have cd: "components (clean d) = (if rooted d then [] # parts d else parts d)"
    unfolding clean_def using assms(2) by (simp add: components_render [OF parts_well])
  have "parts a = parts d @ components t"
  proof (cases "parts a = []")
    case True
    then have "components (clean a) \<in> {[[], []], [''.'']}" using ca by auto
    moreover have "length (components t) \<ge> 1" by (simp add: Suc_leI)
    moreover have "length (parts d) \<ge> 1" using assms(2) by (simp add: Suc_leI)
    ultimately have "rooted d \<and> length (components (clean a)) \<ge> 3 \<or> \<not> rooted d \<and> length (components (clean a)) \<ge> 2"
      using c cd by auto
    then show ?thesis using True ca r by auto
  next
    case False
    then show ?thesis using c ca cd r by (auto split: if_splits)
  qed
  then show ?thesis using r components_nonempty by blast
qed

lemma clean_prefixI:
  assumes "rooted a = rooted d" "parts a = parts d @ rest" "rest \<noteq> []" "parts d \<noteq> []"
  shows "has_prefix (clean a) (clean d @ ''/'')"
proof -
  have "clean a = clean d @ ''/'' @ join ''/'' rest"
    using assms by (simp add: clean_def render_def join_append)
  then show ?thesis by (metis append.assoc has_prefix_append)
qed

end
