(* ===== verification/FileSystem.thy ===== *)
theory FileSystem
  imports Paths
begin

text \<open>
  The disk as the file store uses it, with \<open>util/atomicfile/atomicfile.go\<close> and \<open>util/trash/trash.go\<close>.
  A disk is an association list from component lists to files and directories. Every system call
  may fail: \<open>fault\<close> says which call fails on which path. Symbolic links, permissions and a trash on another
  device are left out. \<open>tree\<close> is the invariant of a disk: whatever exists lies in directories.
\<close>

type_synonym path = "string list"

datatype node = FileNode string | DirNode

type_synonym disk = "(path \<times> node) list"

datatype os_call = MkdirCall | CreateCall | WriteCall | RenameCall | RemoveCall | ReadCall | StatCall

text \<open>What a store operation reads besides the disk: faults, a fresh identifier, the time as the trash writes it.\<close>

record weather =
  fault :: "os_call \<Rightarrow> path \<Rightarrow> bool"
  ulid :: string
  stamp :: string

datatype store_error = NotFound | AlreadyExists | InvalidOptions | PathError | OsError

subsection \<open>System calls\<close>

definition nodeAt :: "disk \<Rightarrow> path \<Rightarrow> node option" where
  "nodeAt d p = (if p = [] then Some DirNode else map_of d p)"

definition put :: "path \<Rightarrow> node \<Rightarrow> disk \<Rightarrow> disk" where
  "put p n d = (p, n) # filter (\<lambda>e. fst e \<noteq> p) d"

definition unlink :: "path \<Rightarrow> disk \<Rightarrow> disk" where
  "unlink p d = filter (\<lambda>e. fst e \<noteq> p) d"

definition below :: "path \<Rightarrow> path \<Rightarrow> bool" where
  "below p k \<longleftrightarrow> take (length p) k = p"

fun mkdirFrom :: "weather \<Rightarrow> path \<Rightarrow> string list \<Rightarrow> disk \<Rightarrow> disk \<times> bool" where
  "mkdirFrom w p [] d = (d, True)"
| "mkdirFrom w p (c # cs) d =
     (case nodeAt d (p @ [c]) of
        None \<Rightarrow> if fault w MkdirCall (p @ [c]) then (d, False) else mkdirFrom w (p @ [c]) cs (put (p @ [c]) DirNode d)
      | Some DirNode \<Rightarrow> mkdirFrom w (p @ [c]) cs d
      | Some (FileNode x) \<Rightarrow> (d, False))"

definition mkdirAll :: "weather \<Rightarrow> path \<Rightarrow> disk \<Rightarrow> disk \<times> bool" where
  "mkdirAll w p d = mkdirFrom w [] p d"

text \<open>A path through a file is an error other than \<open>os.ErrNotExist\<close>.\<close>

definition throughFile :: "disk \<Rightarrow> path \<Rightarrow> bool" where
  "throughFile d p \<longleftrightarrow> (\<exists>i\<in>set [0..<length p]. case nodeAt d (take i p) of Some (FileNode x) \<Rightarrow> True | _ \<Rightarrow> False)"

definition statPath :: "weather \<Rightarrow> disk \<Rightarrow> path \<Rightarrow> store_error + node" where
  "statPath w d p =
     (if fault w StatCall p then Inl OsError
      else case nodeAt d p of Some n \<Rightarrow> Inr n | None \<Rightarrow> if throughFile d p then Inl OsError else Inl NotFound)"

definition readPath :: "weather \<Rightarrow> disk \<Rightarrow> path \<Rightarrow> store_error + string" where
  "readPath w d p =
     (if fault w ReadCall p then Inl OsError
      else case nodeAt d p of
          Some (FileNode x) \<Rightarrow> Inr x
        | Some DirNode \<Rightarrow> Inl OsError
        | None \<Rightarrow> if throughFile d p then Inl OsError else Inl NotFound)"

text \<open>\<open>os.Rename\<close> of a file or directory with all that lies below it.\<close>

definition moveTree :: "path \<Rightarrow> path \<Rightarrow> disk \<Rightarrow> disk" where
  "moveTree p q d = map (\<lambda>e. if below p (fst e) then (q @ drop (length p) (fst e), snd e) else e) d"

subsection \<open>Atomic writes\<close>

definition tempName :: "string \<Rightarrow> string \<Rightarrow> string" where
  "tempName name u = ''.'' @ name @ ''.'' @ u @ ''~''"

definition commitName :: "string \<Rightarrow> string option" where
  "commitName temp =
     (let ps = split_byte (CHR ''.'') temp in
      if length ps < 3 \<or> ps ! 0 \<noteq> [] \<or> \<not> has_suffix (last ps) ''~'' then None
      else Some (join ''.'' (butlast (tl ps))))"

text \<open>\<open>Discard\<close>, deferred by \<open>WriteFile\<close>: its error is dropped, and a missing file is none.\<close>

definition discardTemp :: "weather \<Rightarrow> path \<Rightarrow> disk \<Rightarrow> disk" where
  "discardTemp w temp d =
     (if commitName (last temp) = None \<or> fault w RemoveCall temp then d else unlink temp d)"

definition commitTemp :: "weather \<Rightarrow> path \<Rightarrow> string \<Rightarrow> disk \<Rightarrow> disk \<times> bool" where
  "commitTemp w temp content d =
     (case commitName (last temp) of
        None \<Rightarrow> (d, False)
      | Some name \<Rightarrow>
          let target = butlast temp @ [name] in
          if fault w RenameCall target \<or> nodeAt d target = Some DirNode then (d, False)
          else (put target (FileNode content) (unlink temp d), True))"

definition writeAtomic :: "weather \<Rightarrow> path \<Rightarrow> string \<Rightarrow> disk \<Rightarrow> disk \<times> bool" where
  "writeAtomic w p content d =
     (case mkdirAll w (butlast p) d of
        (d, False) \<Rightarrow> (d, False)
      | (d, True) \<Rightarrow>
          let temp = butlast p @ [tempName (last p) (ulid w)] in
          if fault w CreateCall temp \<or> nodeAt d temp = Some DirNode then (d, False)
          else if fault w WriteCall temp then (discardTemp w temp (put temp (FileNode []) d), False)
          else (case commitTemp w temp content (put temp (FileNode content) d) of
                  (d, ok) \<Rightarrow> (discardTemp w temp d, ok)))"

subsection \<open>The trash\<close>

fun replaceByte :: "char \<Rightarrow> char \<Rightarrow> string \<Rightarrow> string" where
  "replaceByte a b [] = []"
| "replaceByte a b (x # xs) = (if x = a then b else x) # replaceByte a b xs"

definition sanitizePathForName :: "string \<Rightarrow> string" where
  "sanitizePathForName p =
     (let s = replaceByte (CHR '':'') (CHR ''-'') (replaceByte slash (CHR ''-'') (trim_prefix (clean p) ''/'')) in
      if s = [] \<or> s = ''.'' then ''root'' else s)"

text \<open>The first free name: the base name, or the base name with the first free number behind it.\<close>

function uniqueFrom :: "weather \<Rightarrow> path \<Rightarrow> string \<Rightarrow> disk \<Rightarrow> nat \<Rightarrow> path option" where
  "uniqueFrom w directory name d index =
     (let candidate = directory @ [name @ ''-'' @ decimal index] in
      if statPath w d candidate = Inl NotFound then Some candidate
      else if index \<ge> 1000000 then None
      else uniqueFrom w directory name d (Suc index))"
  by pat_completeness auto
termination
  by (relation "measure (\<lambda>(_, _, _, _, index). 1000000 - index)") auto

declare uniqueFrom.simps [simp del]

definition uniquePath :: "weather \<Rightarrow> path \<Rightarrow> string \<Rightarrow> disk \<Rightarrow> path option" where
  "uniquePath w directory name d =
     (if statPath w d (directory @ [name]) = Inl NotFound then Some (directory @ [name])
      else uniqueFrom w directory name d 1)"

text \<open>\<open>Move\<close> to the trash \<open>root/.trash\<close>: a path below \<open>root\<close> is named relative to it.\<close>

definition trashName :: "weather \<Rightarrow> path \<Rightarrow> path \<Rightarrow> string" where
  "trashName w p trash =
     (let root = butlast trash;
          namePath = (if last trash = ''.trash'' \<and> below root p \<and> p \<noteq> root
            then join ''/'' (drop (length root) p) else ''/'' @ join ''/'' p) in
      stamp w @ ''-'' @ sanitizePathForName namePath)"

definition trashMove :: "weather \<Rightarrow> path \<Rightarrow> path \<Rightarrow> disk \<Rightarrow> disk \<times> bool" where
  "trashMove w p trash d =
     (case statPath w d p of
        Inl e \<Rightarrow> (d, False)
      | Inr n \<Rightarrow>
          (case mkdirAll w trash d of
             (d, False) \<Rightarrow> (d, False)
           | (d, True) \<Rightarrow>
               (case uniquePath w trash (trashName w p trash) d of
                  None \<Rightarrow> (d, False)
                | Some q \<Rightarrow>
                    if fault w RenameCall q \<or> below p q then (d, False) else (moveTree p q d, True))))"

subsection \<open>The invariant\<close>

definition tree :: "disk \<Rightarrow> bool" where
  "tree d \<longleftrightarrow> (\<forall>k n. map_of d k = Some n \<longrightarrow> k \<noteq> [] \<and> (\<forall>i<length k. nodeAt d (take i k) = Some DirNode))"

lemma map_of_filter_key: "map_of (filter (\<lambda>e. fst e \<noteq> p) d) k = (if k = p then None else map_of d k)"
  by (induction d) auto

lemma nodeAt_put [simp]: "p \<noteq> [] \<Longrightarrow> nodeAt (put p n d) k = (if k = p then Some n else nodeAt d k)"
  by (auto simp: nodeAt_def put_def map_of_filter_key)

lemma nodeAt_unlink [simp]: "nodeAt (unlink p d) k = (if k = p \<and> k \<noteq> [] then None else nodeAt d k)"
  by (auto simp: nodeAt_def unlink_def map_of_filter_key)

lemma nodeAt_Nil [simp]: "nodeAt d [] = Some DirNode"
  by (simp add: nodeAt_def)

lemma tree_iff:
  "tree d \<longleftrightarrow> map_of d [] = None \<and>
     (\<forall>k i. nodeAt d k \<noteq> None \<longrightarrow> i < length k \<longrightarrow> nodeAt d (take i k) = Some DirNode)"
  unfolding tree_def nodeAt_def by (auto split: if_splits)

lemma treeD: "tree d \<Longrightarrow> nodeAt d k \<noteq> None \<Longrightarrow> i < length k \<Longrightarrow> nodeAt d (take i k) = Some DirNode"
  by (simp add: tree_iff)

lemma treeI:
  assumes "map_of d [] = None"
    and "\<And>k i. nodeAt d k \<noteq> None \<Longrightarrow> i < length k \<Longrightarrow> nodeAt d (take i k) = Some DirNode"
  shows "tree d"
  using assms by (simp add: tree_iff)

lemma tree_dir_prefix:
  assumes "tree d" "nodeAt d k = Some DirNode"
  shows "nodeAt d (take i k) = Some DirNode"
  using assms treeD [of d k i] by (cases "i < length k") simp_all

lemma tree_Nil: "tree d \<Longrightarrow> map_of d [] = None"
  by (simp add: tree_iff)

lemma map_of_put_Nil: "p \<noteq> [] \<Longrightarrow> map_of (put p n d) [] = map_of d []"
  by (simp add: put_def map_of_filter_key)

lemma tree_put:
  assumes t: "tree d" and p: "p \<noteq> []" and par: "nodeAt d (butlast p) = Some DirNode"
    and ok: "n = DirNode \<or> nodeAt d p \<noteq> Some DirNode"
  shows "tree (put p n d)"
proof (rule treeI)
  show "map_of (put p n d) [] = None" using t p by (simp add: map_of_put_Nil tree_Nil)
  fix k i
  assume k: "nodeAt (put p n d) k \<noteq> None" and i: "i < length k"
  have "nodeAt d (take i k) = Some DirNode"
  proof (cases "k = p")
    case True
    with i have "take i k = take i (butlast p)" by (simp add: take_butlast)
    then show ?thesis using tree_dir_prefix [OF t par] by simp
  next
    case False
    then show ?thesis using k p i t by (simp add: treeD)
  qed
  then show "nodeAt (put p n d) (take i k) = Some DirNode" using p ok by auto
qed

lemma tree_unlink:
  assumes t: "tree d" and f: "nodeAt d p \<noteq> Some DirNode"
  shows "tree (unlink p d)"
proof (rule treeI)
  show "map_of (unlink p d) [] = None" using t by (simp add: unlink_def map_of_filter_key tree_Nil)
  fix k i
  assume "nodeAt (unlink p d) k \<noteq> None" "i < length k"
  then have "nodeAt d (take i k) = Some DirNode" using t by (auto simp: treeD split: if_splits)
  then show "nodeAt (unlink p d) (take i k) = Some DirNode" using f by auto
qed

definition fileAt :: "disk \<Rightarrow> path \<Rightarrow> string option" where
  "fileAt d p = (case nodeAt d p of Some (FileNode x) \<Rightarrow> Some x | _ \<Rightarrow> None)"

lemma fileAt_put [simp]: "p \<noteq> [] \<Longrightarrow> fileAt (put p (FileNode x) d) = (fileAt d)(p \<mapsto> x)"
  by (auto simp: fileAt_def)

lemma fileAt_put_dir: "p \<noteq> [] \<Longrightarrow> nodeAt d p = None \<Longrightarrow> fileAt (put p DirNode d) = fileAt d"
  by (auto simp: fileAt_def)

lemma fileAt_unlink [simp]: "fileAt (unlink p d) = (fileAt d)(p := None)"
  by (auto simp: fileAt_def)

lemma fileAt_None: "nodeAt d p = None \<or> nodeAt d p = Some DirNode \<Longrightarrow> fileAt d p = None"
  by (auto simp: fileAt_def)

lemma fileAt_node: "fileAt d p = Some x \<Longrightarrow> nodeAt d p = Some (FileNode x)"
  by (auto simp: fileAt_def split: option.splits node.splits)

subsection \<open>What the operations do to the files\<close>

lemma mkdirFrom_spec:
  assumes "mkdirFrom w p cs d = (d', ok)" "tree d" "nodeAt d p = Some DirNode"
  shows "tree d' \<and> fileAt d' = fileAt d \<and> (\<forall>k. nodeAt d k \<noteq> None \<longrightarrow> nodeAt d' k = nodeAt d k)
    \<and> (ok \<longrightarrow> nodeAt d' (p @ cs) = Some DirNode)
    \<and> (\<forall>k. nodeAt d k = None \<longrightarrow> \<not> below k (p @ cs) \<longrightarrow> nodeAt d' k = None)"
  using assms
proof (induction w p cs d rule: mkdirFrom.induct)
  case (1 w p d)
  then show ?case by simp
next
  case (2 w p c cs d)
  let ?q = "p @ [c]"
  have b: "below ?q (p @ c # cs)" by (simp add: below_def)
  show ?case
  proof (cases "nodeAt d ?q")
    case None
    show ?thesis
    proof (cases "fault w MkdirCall ?q")
      case True
      then show ?thesis using 2 None by simp
    next
      case False
      have t: "tree (put ?q DirNode d)" using 2 by (intro tree_put) simp_all
      have r: "mkdirFrom w ?q cs (put ?q DirNode d) = (d', ok)" using 2 None False by simp
      from "2.IH"(1) [OF None False r t] show ?thesis using None b fileAt_put_dir [of ?q d]
        by (auto split: if_splits) (metis option.distinct(1))+
    qed
  next
    case (Some n)
    show ?thesis
    proof (cases n)
      case (FileNode x)
      then show ?thesis using 2 Some by simp
    next
      case DirNode
      then have r: "mkdirFrom w ?q cs d = (d', ok)" and n: "nodeAt d ?q = Some DirNode" using 2 Some by simp_all
      from "2.IH"(2) [OF Some DirNode r "2.prems"(2) n] show ?thesis by simp
    qed
  qed
qed

lemma mkdirAll_spec:
  assumes "mkdirAll w p d = (d', ok)" "tree d"
  shows "tree d'" "fileAt d' = fileAt d" "nodeAt d k \<noteq> None \<Longrightarrow> nodeAt d' k = nodeAt d k"
    "ok \<Longrightarrow> nodeAt d' p = Some DirNode" "nodeAt d k = None \<Longrightarrow> \<not> below k p \<Longrightarrow> nodeAt d' k = None"
  using mkdirFrom_spec [of w "[]" p d d' ok] assms by (auto simp: mkdirAll_def)

text \<open>The name of a temporary file leads back to the name of the file, whatever dots that has.\<close>

lemma split_byte_snoc: "c \<notin> set t \<Longrightarrow> split_byte c (s @ c # t) = split_byte c s @ [t]"
proof (induction s)
  case (Cons x s)
  obtain y ys where "split_byte c s = y # ys" by (meson neq_Nil_conv split_byte_nonempty)
  with Cons show ?case by simp
qed (simp add: split_byte_none)

lemma commit_temp_name:
  assumes "CHR ''.'' \<notin> set u"
  shows "commitName (tempName name u) = Some name"
proof -
  have "split_byte (CHR ''.'') ((name @ [CHR ''.'']) @ u @ ''~'') = split_byte (CHR ''.'') name @ [u @ ''~'']"
    using split_byte_snoc [of "CHR ''.''" "u @ ''~''" name] assms by simp
  then have "split_byte (CHR ''.'') (tempName name u) = [] # split_byte (CHR ''.'') name @ [u @ ''~'']"
    by (simp add: tempName_def)
  moreover have "length (split_byte (CHR ''.'') name) \<ge> 1" by (simp add: Suc_leI)
  moreover have "has_suffix (u @ ''~'') ''~''" by (simp add: has_suffix_def)
  ultimately show ?thesis by (simp add: commitName_def join_split_byte)
qed

definition fresh_for :: "weather \<Rightarrow> path \<Rightarrow> disk \<Rightarrow> bool" where
  "fresh_for w p d \<longleftrightarrow> CHR ''.'' \<notin> set (ulid w) \<and> nodeAt d (butlast p @ [tempName (last p) (ulid w)]) = None"

definition fresh_weather :: "weather \<Rightarrow> disk \<Rightarrow> bool" where
  "fresh_weather w d \<longleftrightarrow> CHR ''.'' \<notin> set (ulid w) \<and> (\<forall>p name. nodeAt d (p @ [tempName name (ulid w)]) = None)"

lemma fresh_weather_for: "fresh_weather w d \<Longrightarrow> fresh_for w p d"
  by (simp add: fresh_weather_def fresh_for_def)

lemma not_below_butlast: "\<not> below (butlast p @ [x]) (butlast p)"
  by (auto simp: below_def)

lemma fresh_for_mkdir:
  assumes "fresh_for w p d" "mkdirAll w (butlast p) d = (d', ok)" "tree d"
  shows "fresh_for w p d'"
  using assms mkdirAll_spec(5) [OF assms(2,3)] not_below_butlast by (simp add: fresh_for_def)

lemma temp_not_name: "tempName name u \<noteq> name"
proof
  assume "tempName name u = name"
  then have "length (tempName name u) = length name" by simp
  then show False by (simp add: tempName_def)
qed

lemma writeAtomic_spec:
  assumes w: "writeAtomic w p c d = (d', ok)" and t: "tree d" and p: "p \<noteq> []" and f: "fresh_for w p d"
  shows "tree d' \<and> (ok \<longrightarrow> fileAt d' = (fileAt d)(p \<mapsto> c))
    \<and> (\<not> ok \<longrightarrow> (\<forall>k. fileAt d k \<noteq> None \<longrightarrow> fileAt d' k = fileAt d k))"
proof -
  let ?temp = "butlast p @ [tempName (last p) (ulid w)]"
  obtain d1 ok1 where m: "mkdirAll w (butlast p) d = (d1, ok1)" by fastforce
  note m1 = mkdirAll_spec [OF m t]
  have temp: "nodeAt d ?temp = None" using f by (simp add: fresh_for_def)
  have len: "length ?temp = Suc (length (butlast p))" by simp
  have "\<not> below ?temp (butlast p)" using len by (auto simp: below_def)
  then have temp1: "nodeAt d1 ?temp = None" using m1(5) temp by blast
  have pt: "?temp \<noteq> p" using p temp_not_name [of "last p" "ulid w"] by (metis append_butlast_last_id append1_eq_conv)
  have cn: "commitName (last ?temp) = Some (last p)" using f by (simp add: commit_temp_name fresh_for_def)
  show ?thesis
  proof (cases ok1)
    case False
    then have "d' = d1 \<and> \<not> ok" using w m by (simp add: writeAtomic_def)
    then show ?thesis using m1 by simp
  next
    case True
    then have par: "nodeAt d1 (butlast p) = Some DirNode" using m1(4) by simp
    let ?d2 = "\<lambda>x. put ?temp (FileNode x) d1"
    have t2: "tree (?d2 x)" for x using m1(1) par temp1 by (intro tree_put) simp_all
    have f2: "fileAt (?d2 x) = (fileAt d)(?temp \<mapsto> x)" for x using m1(2) by simp
    have u2: "tree (unlink ?temp (?d2 x))" "fileAt (unlink ?temp (?d2 x)) = fileAt d" for x
      using tree_unlink [OF t2] f2 fileAt_None [of d ?temp] temp by auto
    have disc: "tree (discardTemp w ?temp (?d2 x)) \<and> (\<forall>k. fileAt d k \<noteq> None \<longrightarrow> fileAt (discardTemp w ?temp (?d2 x)) k = fileAt d k)" for x
      using u2 [of x] t2 [of x] f2 [of x] fileAt_None [of d ?temp] temp by (auto simp: discardTemp_def)
    consider "fault w CreateCall ?temp" | "\<not> fault w CreateCall ?temp" "fault w WriteCall ?temp"
      | "\<not> fault w CreateCall ?temp" "\<not> fault w WriteCall ?temp" by blast
    then show ?thesis
    proof cases
      case 1
      then have "d' = d1 \<and> \<not> ok" using w m True by (simp add: writeAtomic_def Let_def)
      then show ?thesis using m1 by simp
    next
      case 2
      then have "d' = discardTemp w ?temp (?d2 []) \<and> \<not> ok" using w m True temp1 by (simp add: writeAtomic_def Let_def)
      then show ?thesis using disc [of "[]"] by blast
    next
      case 3
      show ?thesis
      proof (cases "fault w RenameCall p \<or> nodeAt (?d2 c) p = Some DirNode")
        case True
        then have "commitTemp w ?temp c (?d2 c) = (?d2 c, False)"
          using cn p by (simp add: commitTemp_def Let_def)
        then have "d' = discardTemp w ?temp (?d2 c) \<and> \<not> ok" using w m \<open>ok1\<close> temp1 3 by (simp add: writeAtomic_def Let_def)
        then show ?thesis using disc [of c] by blast
      next
        case False
        let ?d3 = "put p (FileNode c) (unlink ?temp (?d2 c))"
        have c: "commitTemp w ?temp c (?d2 c) = (?d3, True)" using False cn p by (simp add: commitTemp_def Let_def)
        have "butlast p \<noteq> ?temp" using len by (metis n_not_Suc_n)
        then have t3: "tree ?d3" using u2 [of c] p par False pt by (intro tree_put) auto
        have n3: "nodeAt ?d3 ?temp = None" using p pt by simp
        have f3: "fileAt ?d3 = (fileAt d)(p \<mapsto> c)" using u2 [of c] p by simp
        have "d' = discardTemp w ?temp ?d3 \<and> ok" using w m \<open>ok1\<close> temp1 3 c by (simp add: writeAtomic_def Let_def)
        moreover have "tree (discardTemp w ?temp ?d3)" using t3 n3 tree_unlink [of ?d3 ?temp] by (simp add: discardTemp_def)
        moreover have "fileAt (discardTemp w ?temp ?d3) = fileAt ?d3"
          using n3 fileAt_None [of ?d3 ?temp] by (auto simp: discardTemp_def)
        ultimately show ?thesis using f3 by simp
      qed
    qed
  qed
qed

lemma below_append [simp]: "below p (p @ r)"
  by (simp add: below_def)

lemma below_split: "below p k \<Longrightarrow> k = p @ drop (length p) k"
  by (metis append_take_drop_id below_def)

lemma below_length: "below p k \<Longrightarrow> length p \<le> length k"
  by (metis below_split le_add1 length_append)

lemma below_trans: "below p q \<Longrightarrow> below q k \<Longrightarrow> below p k"
  by (metis append.assoc below_append below_split)

lemma below_take: "below q (take i k) \<Longrightarrow> below q k"
  by (metis append_take_drop_id below_append below_trans)

lemma map_of_moveTree:
  assumes "\<forall>e\<in>set d. \<not> below q (fst e)"
  shows "map_of (moveTree p q d) k =
    (if below q k then map_of d (p @ drop (length q) k) else if below p k then None else map_of d k)"
  using assms
proof (induction d)
  case Nil
  then show ?case by (simp add: moveTree_def)
next
  case (Cons e d)
  obtain k0 v where e: "e = (k0, v)" by fastforce
  have IH: "map_of (moveTree p q d) k =
    (if below q k then map_of d (p @ drop (length q) k) else if below p k then None else map_of d k)"
    using Cons by simp
  have nb: "\<not> below q k0" using Cons.prems e by simp
  show ?case
  proof (cases "below p k0")
    case True
    then have k0: "k0 = p @ drop (length p) k0" by (rule below_split)
    have "q @ drop (length p) k0 = k \<longleftrightarrow> below q k \<and> k0 = p @ drop (length q) k"
    proof
      assume "q @ drop (length p) k0 = k"
      then show "below q k \<and> k0 = p @ drop (length q) k" using k0 by (metis append_eq_conv_conj below_append)
    next
      assume a: "below q k \<and> k0 = p @ drop (length q) k"
      then have "drop (length p) k0 = drop (length q) k" by simp
      then show "q @ drop (length p) k0 = k" using a below_split [of q k] by simp
    qed
    moreover have "\<not> below q k \<Longrightarrow> \<not> below p k \<Longrightarrow> k0 \<noteq> k" using True by blast
    ultimately show ?thesis using IH True e by (auto simp: moveTree_def)
  next
    case False
    then have "p @ drop (length q) k \<noteq> k0" by (metis below_append)
    moreover have "below q k \<Longrightarrow> k0 \<noteq> k" using nb by blast
    moreover have "below p k \<Longrightarrow> k0 \<noteq> k" using False by blast
    ultimately show ?thesis using IH False e by (auto simp: moveTree_def)
  qed
qed

lemma unused_below:
  assumes "tree d" "nodeAt d q = None" "e \<in> set d"
  shows "\<not> below q (fst e)"
proof
  assume b: "below q (fst e)"
  have "fst e \<in> fst ` set d" using assms(3) by simp
  then have "map_of d (fst e) \<noteq> None" by (metis map_of_eq_None_iff)
  moreover from this have "fst e \<noteq> []" using tree_Nil [OF assms(1)] by auto
  ultimately have n: "nodeAt d (fst e) \<noteq> None" by (simp add: nodeAt_def)
  have "nodeAt d q = Some DirNode \<or> q = fst e"
  proof (cases "length q < length (fst e)")
    case True
    then show ?thesis using treeD [OF assms(1) n True] b by (simp add: below_def)
  next
    case False
    then show ?thesis using b by (simp add: below_def)
  qed
  then show False using assms(2) n by auto
qed

lemma moveTree_spec:
  assumes t: "tree d" and q: "nodeAt d q = None" and p: "p \<noteq> []" and par: "nodeAt d (butlast q) = Some DirNode"
    and npq: "\<not> below p q"
  shows "tree (moveTree p q d)"
    and "nodeAt (moveTree p q d) k =
      (if below q k then nodeAt d (p @ drop (length q) k) else if below p k then None else nodeAt d k)"
proof -
  have q0: "q \<noteq> []" using q by auto
  have m: "map_of (moveTree p q d) k =
    (if below q k then map_of d (p @ drop (length q) k) else if below p k then None else map_of d k)" for k
    by (rule map_of_moveTree) (auto dest: unused_below [OF t q])
  have n: "nodeAt (moveTree p q d) k =
    (if below q k then nodeAt d (p @ drop (length q) k) else if below p k then None else nodeAt d k)" for k
    using m [of k] p q0 by (auto simp: nodeAt_def below_def)
  show "nodeAt (moveTree p q d) k =
    (if below q k then nodeAt d (p @ drop (length q) k) else if below p k then None else nodeAt d k)" by (rule n)
  show "tree (moveTree p q d)"
  proof (rule treeI)
    show "map_of (moveTree p q d) [] = None" using m [of "[]"] p q0 tree_Nil [OF t] by (auto simp: below_def)
    fix k i
    assume k: "nodeAt (moveTree p q d) k \<noteq> None" and i: "i < length k"
    show "nodeAt (moveTree p q d) (take i k) = Some DirNode"
    proof (cases "below q k")
      case True
      then have kq: "k = q @ drop (length q) k" by (rule below_split)
      have src: "nodeAt d (p @ drop (length q) k) \<noteq> None" using k n True by simp
      show ?thesis
      proof (cases "length q \<le> i")
        case True
        then have tk: "take i k = q @ take (i - length q) (drop (length q) k)"
          by (metis kq take_append take_all)
        have "nodeAt d (take (length p + (i - length q)) (p @ drop (length q) k)) = Some DirNode"
          by (rule treeD [OF t src]) (use i True in simp)
        then show ?thesis using n tk by simp
      next
        case False
        then have tk: "take i k = take i (butlast q)" by (metis kq linorder_not_le take_append append_Nil2
            diff_is_0_eq less_imp_le_nat take_0 take_butlast)
        then have "nodeAt d (take i k) = Some DirNode" using tree_dir_prefix [OF t par] by simp
        moreover have "\<not> below q (take i k)" using False below_length by fastforce
        moreover have "\<not> below p (take i k)"
        proof
          assume "below p (take i k)"
          then have "below p (butlast q)" unfolding tk by (rule below_take)
          then have "below p (take (length q - 1) q)" by (simp add: butlast_conv_take)
          then have "below p q" by (rule below_take)
          with npq show False ..
        qed
        ultimately show ?thesis using n by simp
      qed
    next
      case False
      then have "nodeAt d k \<noteq> None \<and> \<not> below p k" using k n by (auto split: if_splits)
      then have "nodeAt d (take i k) = Some DirNode" "\<not> below p (take i k)"
        using treeD [OF t _ i] below_take by blast+
      moreover have "\<not> below q (take i k)" using False below_take by blast
      ultimately show ?thesis using n by simp
    qed
  qed
qed

lemma statPath_NotFound: "statPath w d p = Inl NotFound \<Longrightarrow> nodeAt d p = None"
  by (auto simp: statPath_def split: if_splits option.splits)

lemma uniquePath_free:
  assumes "uniquePath w directory name d = Some q"
  shows "nodeAt d q = None \<and> butlast q = directory"
proof -
  have "uniqueFrom w directory name d i = Some q \<Longrightarrow> nodeAt d q = None \<and> butlast q = directory" for i
  proof (induction w directory name d i rule: uniqueFrom.induct)
    case (1 w directory name d i)
    then show ?case by (subst (asm) (2) uniqueFrom.simps) (auto simp: Let_def statPath_NotFound split: if_splits)
  qed
  then show ?thesis using assms by (auto simp: uniquePath_def statPath_NotFound split: if_splits)
qed

text \<open>What is thrown away lies whole under a name of the trash that was free.\<close>

lemma trashMove_spec:
  assumes m: "trashMove w p trash d = (d', ok)" and t: "tree d" and p: "p \<noteq> []"
  shows "tree d' \<and> (\<not> ok \<longrightarrow> fileAt d' = fileAt d)
    \<and> (ok \<longrightarrow> (\<exists>q. nodeAt d q = None \<and> butlast q = trash \<and> \<not> below p q \<and>
          fileAt d' = (\<lambda>k. if below q k then fileAt d (p @ drop (length q) k)
                           else if below p k then None else fileAt d k)))"
proof (cases "statPath w d p")
  case (Inl e)
  then show ?thesis using m t by (simp add: trashMove_def)
next
  case (Inr n)
  obtain d1 ok1 where d1: "mkdirAll w trash d = (d1, ok1)" by fastforce
  note s = mkdirAll_spec [OF d1 t]
  show ?thesis
  proof (cases "ok1 \<and> (\<exists>q. uniquePath w trash (trashName w p trash) d1 = Some q \<and> \<not> fault w RenameCall q \<and> \<not> below p q)")
    case False
    then have "d' = d1 \<and> \<not> ok \<or> (d', ok) = (d1, False)"
      using m Inr d1 by (auto simp: trashMove_def split: option.splits if_splits bool.splits)
    then show ?thesis using s by auto
  next
    case True
    then obtain q where q: "uniquePath w trash (trashName w p trash) d1 = Some q" "\<not> fault w RenameCall q" "\<not> below p q" and o: ok1 by blast
    have dd: "d' = moveTree p q d1" "ok" using m Inr d1 q o by (simp_all add: trashMove_def Let_def)
    have f: "nodeAt d1 q = None" "butlast q = trash" using uniquePath_free [OF q(1)] by simp_all
    have par: "nodeAt d1 (butlast q) = Some DirNode" using s(4) o f by simp
    note mv = moveTree_spec [OF s(1) f(1) p par q(3)]
    have "fileAt d' = (\<lambda>k. if below q k then fileAt d (p @ drop (length q) k) else if below p k then None else fileAt d k)"
      using mv(2) s(2) dd by (auto simp: fileAt_def fun_eq_iff)
    moreover have "nodeAt d q = None" using s(3) f(1) by fastforce
    ultimately show ?thesis using mv(1) dd f q(3) by blast
  qed
qed

end
