(* ===== verification/WorkspaceStores.thy ===== *)
theory WorkspaceStores
  imports FileSystem
begin

text \<open>
  Workspace files in the two stores: \<open>store/fsstore\<close> (\<open>filesystem_workspace.go\<close>, \<open>filesystem_paths.go\<close>,
  \<open>store.go\<close>) keeps them as files below a directory per agent, user or project, \<open>store/dbstore\<close>
  (\<open>database_workspace.go\<close>, \<open>database_common.go\<close>) as rows of a table with a unique index over scope,
  scope identifier and path. The locale \<open>workspace_store\<close> is what the workspace tool relies on, and both stores
  interpret it. Of the metadata of a file, the time of its change is kept.
\<close>

datatype scope = ScopeAgent | ScopeUser | ScopeProject | OtherScope

subsection \<open>Paths of the file store\<close>

definition usersDirectory :: "string \<Rightarrow> string" where
  "usersDirectory data = joinPath data ''users''"

definition userWorkspaceDirectory :: "string \<Rightarrow> string \<Rightarrow> string" where
  "userWorkspaceDirectory data userId = joinPath (joinPath (usersDirectory data) userId) ''workspace''"

definition agentsDirectory :: "string \<Rightarrow> string" where
  "agentsDirectory data = joinPath data ''agents''"

definition agentWorkspaceDirectory :: "string \<Rightarrow> string \<Rightarrow> string" where
  "agentWorkspaceDirectory data agentId = joinPath (joinPath (agentsDirectory data) agentId) ''workspace''"

definition projectsDirectory :: "string \<Rightarrow> string" where
  "projectsDirectory data = joinPath data ''projects''"

definition projectWorkspaceDirectory :: "string \<Rightarrow> string \<Rightarrow> string" where
  "projectWorkspaceDirectory data projectId = joinPath (joinPath (projectsDirectory data) projectId) ''workspace''"

definition trashDirectory :: "string \<Rightarrow> string" where
  "trashDirectory data = joinPath data ''.trash''"

fun workspaceDirectory :: "string \<Rightarrow> scope \<Rightarrow> string \<Rightarrow> string" where
  "workspaceDirectory data ScopeAgent i = agentWorkspaceDirectory data i"
| "workspaceDirectory data ScopeUser i = userWorkspaceDirectory data i"
| "workspaceDirectory data ScopeProject i = projectWorkspaceDirectory data i"
| "workspaceDirectory data OtherScope i = []"

definition storePath :: "string \<Rightarrow> string" where
  "storePath relativePath = trim_prefix (clean relativePath) ''/''"

definition workspaceFilePath :: "string \<Rightarrow> scope \<Rightarrow> string \<Rightarrow> string \<Rightarrow> store_error + string" where
  "workspaceFilePath data sc i relativePath =
     (let workspace = workspaceDirectory data sc i; normalizedPath = storePath relativePath;
          absolutePath = joinPath workspace normalizedPath in
      if workspace = [] then Inl PathError
      else if normalizedPath = ''.'' \<or> normalizedPath = [] then Inl PathError
      else if has_prefix normalizedPath ''../'' \<or> contains_sub normalizedPath ''/../'' then Inl PathError
      else if \<not> has_prefix (clean absolutePath) (clean workspace @ ''/'') then Inl PathError
      else Inr absolutePath)"

subsection \<open>The file store\<close>

definition createWorkspaceFile ::
  "weather \<Rightarrow> string \<Rightarrow> scope \<Rightarrow> string \<Rightarrow> string \<Rightarrow> string \<Rightarrow> disk \<Rightarrow> disk \<times> store_error option" where
  "createWorkspaceFile w data sc i relativePath content d =
     (case workspaceFilePath data sc i relativePath of
        Inl e \<Rightarrow> (d, Some e)
      | Inr absolutePath \<Rightarrow>
          (case mkdirAll w (butlast (parts absolutePath)) d of
             (d, False) \<Rightarrow> (d, Some OsError)
           | (d, True) \<Rightarrow>
               (case writeAtomic w (parts absolutePath) content d of
                  (d, ok) \<Rightarrow> (d, if ok then None else Some OsError))))"

definition getWorkspaceFile ::
  "weather \<Rightarrow> string \<Rightarrow> scope \<Rightarrow> string \<Rightarrow> string \<Rightarrow> disk \<Rightarrow> store_error + string" where
  "getWorkspaceFile w data sc i relativePath d =
     (case workspaceFilePath data sc i relativePath of
        Inl e \<Rightarrow> Inl e
      | Inr absolutePath \<Rightarrow>
          (case readPath w d (parts absolutePath) of
             Inl e \<Rightarrow> Inl e
           | Inr content \<Rightarrow>
               if fault w StatCall (parts absolutePath) then Inl OsError else Inr content))"

definition modifyWorkspaceFile ::
  "weather \<Rightarrow> string \<Rightarrow> scope \<Rightarrow> string \<Rightarrow> string \<Rightarrow> (string \<Rightarrow> string) \<Rightarrow> disk \<Rightarrow> disk \<times> store_error option" where
  "modifyWorkspaceFile w data sc i relativePath modifier d =
     (case getWorkspaceFile w data sc i relativePath d of
        Inl e \<Rightarrow> (d, Some e)
      | Inr content \<Rightarrow> createWorkspaceFile w data sc i (storePath relativePath) (modifier content) d)"

definition deleteWorkspaceFile ::
  "weather \<Rightarrow> string \<Rightarrow> scope \<Rightarrow> string \<Rightarrow> string \<Rightarrow> disk \<Rightarrow> disk \<times> store_error option" where
  "deleteWorkspaceFile w data sc i relativePath d =
     (case workspaceFilePath data sc i relativePath of
        Inl e \<Rightarrow> (d, Some e)
      | Inr absolutePath \<Rightarrow>
          if statPath w d (parts absolutePath) = Inl NotFound then (d, None)
          else (case trashMove w (parts absolutePath) (parts (trashDirectory data)) d of
                  (d, ok) \<Rightarrow> (d, if ok then None else Some OsError)))"

text \<open>\<open>WalkDir\<close> visits the files in lexical order; a file or directory that cannot be read is skipped.\<close>

definition readable :: "weather \<Rightarrow> path \<Rightarrow> path \<Rightarrow> bool" where
  "readable w root k \<longleftrightarrow> (\<forall>i\<in>set [length root..<Suc (length k)]. \<not> fault w ReadCall (take i k))"

definition listWorkspaceFiles ::
  "weather \<Rightarrow> string \<Rightarrow> scope \<Rightarrow> string \<Rightarrow> disk \<Rightarrow> (string \<times> string) list" where
  "listWorkspaceFiles w data sc i d =
     (let workspace = workspaceDirectory data sc i; root = parts workspace in
      if workspace = [] then []
      else
        map (\<lambda>k. (if k = root then ''.'' else join ''/'' (drop (length root) k),
                  case fileAt d k of None \<Rightarrow> [] | Some x \<Rightarrow> x))
          (filter (\<lambda>k. below root k \<and> fileAt d k \<noteq> None \<and> readable w root k) (sort (remdups (map fst d)))))"

subsection \<open>The table of the database store\<close>

record file_row =
  rowScope :: scope
  rowScopeId :: string
  rowPath :: string
  rowContent :: string
  rowModifiedAt :: nat

text \<open>What the database answers besides its rows: errors, the clock, and the order of its collation.\<close>

record db_weather =
  dbFails :: bool
  clock :: nat
  collation :: "string \<Rightarrow> string"

definition isInvalidWorkspacePath :: "string \<Rightarrow> bool" where
  "isInvalidWorkspacePath p \<longleftrightarrow>
     p = ''.'' \<or> p = [] \<or> has_prefix p ''../'' \<or> contains_sub p ''/../''"

definition sameKey :: "scope \<Rightarrow> string \<Rightarrow> string \<Rightarrow> file_row \<Rightarrow> bool" where
  "sameKey sc i p r \<longleftrightarrow> rowScope r = sc \<and> rowScopeId r = i \<and> rowPath r = p"

definition dbCreateWorkspaceFile ::
  "db_weather \<Rightarrow> scope \<Rightarrow> string \<Rightarrow> string \<Rightarrow> string \<Rightarrow> file_row list \<Rightarrow> file_row list \<times> store_error option" where
  "dbCreateWorkspaceFile w sc i relativePath content t =
     (let p = storePath relativePath in
      if isInvalidWorkspacePath p then (t, Some InvalidOptions)
      else if i = [] then (t, Some InvalidOptions)
      else if dbFails w then (t, Some OsError)
      else if \<exists>r\<in>set t. sameKey sc i p r
        then (map (\<lambda>r. if sameKey sc i p r then r\<lparr> rowContent := content, rowModifiedAt := clock w \<rparr> else r) t, None)
      else (t @ [\<lparr> rowScope = sc, rowScopeId = i, rowPath = p, rowContent = content, rowModifiedAt = clock w \<rparr>], None))"

definition dbGetWorkspaceFile ::
  "db_weather \<Rightarrow> scope \<Rightarrow> string \<Rightarrow> string \<Rightarrow> file_row list \<Rightarrow> store_error + string" where
  "dbGetWorkspaceFile w sc i relativePath t =
     (if dbFails w then Inl OsError
      else case filter (sameKey sc i (storePath relativePath)) t of
          [] \<Rightarrow> Inl NotFound
        | r # _ \<Rightarrow> Inr (rowContent r))"

definition dbModifyWorkspaceFile ::
  "db_weather \<Rightarrow> scope \<Rightarrow> string \<Rightarrow> string \<Rightarrow> (string \<Rightarrow> string) \<Rightarrow> file_row list \<Rightarrow> file_row list \<times> store_error option" where
  "dbModifyWorkspaceFile w sc i relativePath modifier t =
     (case dbGetWorkspaceFile w sc i relativePath t of
        Inl e \<Rightarrow> (t, Some e)
      | Inr content \<Rightarrow> dbCreateWorkspaceFile w sc i (storePath relativePath) (modifier content) t)"

definition dbDeleteWorkspaceFile ::
  "db_weather \<Rightarrow> scope \<Rightarrow> string \<Rightarrow> string \<Rightarrow> file_row list \<Rightarrow> file_row list \<times> store_error option" where
  "dbDeleteWorkspaceFile w sc i relativePath t =
     (if dbFails w then (t, Some OsError)
      else (filter (\<lambda>r. \<not> sameKey sc i (storePath relativePath) r) t, None))"

definition dbListWorkspaceFiles ::
  "db_weather \<Rightarrow> scope \<Rightarrow> string \<Rightarrow> file_row list \<Rightarrow> store_error + (string \<times> string) list" where
  "dbListWorkspaceFiles w sc i t =
     (if dbFails w then Inl OsError
      else Inr (map (\<lambda>r. (rowPath r, rowContent r))
        (sort_key (\<lambda>r. collation w (rowPath r)) (filter (\<lambda>r. rowScope r = sc \<and> rowScopeId r = i) t))))"

subsection \<open>Search, the same in both\<close>

definition matchedLines :: "(string \<Rightarrow> string) \<Rightarrow> string \<Rightarrow> string \<Rightarrow> string list" where
  "matchedLines lower query content =
     filter (\<lambda>line. contains_sub (lower line) (lower query)) (scanLines content)"

definition searchFiles ::
  "(string \<Rightarrow> string) \<Rightarrow> string \<Rightarrow> nat \<Rightarrow> (string \<times> string) list \<Rightarrow> (string \<times> string list) list" where
  "searchFiles lower query limit files =
     take limit (filter (\<lambda>r. snd r \<noteq> []) (map (\<lambda>(p, c). (p, matchedLines lower query c)) files))"

subsection \<open>Transactions\<close>

text \<open>The file store keeps what a failing transaction did; the database rolls it back.\<close>

definition fsTransaction :: "weather \<Rightarrow> 's \<Rightarrow> 's \<times> store_error option \<Rightarrow> 's \<times> store_error option" where
  "fsTransaction w s r = r"

definition dbTransaction :: "db_weather \<Rightarrow> 's \<Rightarrow> 's \<times> store_error option \<Rightarrow> 's \<times> store_error option" where
  "dbTransaction w s r =
     (case snd r of Some e \<Rightarrow> (s, Some e) | None \<Rightarrow> if dbFails w then (s, Some OsError) else r)"

subsection \<open>What the workspace tool relies on\<close>

definition workspace_path :: "string \<Rightarrow> bool" where
  "workspace_path p \<longleftrightarrow> clean p = p \<and> \<not> rooted p \<and> parts p \<noteq> [] \<and> hd (parts p) \<noteq> ''..''"

locale workspace_store =
  fixes get :: "'w \<Rightarrow> string \<Rightarrow> 's \<Rightarrow> store_error + string"
    and create :: "'w \<Rightarrow> string \<Rightarrow> string \<Rightarrow> 's \<Rightarrow> 's \<times> store_error option"
    and modify :: "'w \<Rightarrow> string \<Rightarrow> (string \<Rightarrow> string) \<Rightarrow> 's \<Rightarrow> 's \<times> store_error option"
    and delete :: "'w \<Rightarrow> string \<Rightarrow> 's \<Rightarrow> 's \<times> store_error option"
    and transaction :: "'w \<Rightarrow> 's \<Rightarrow> 's \<times> store_error option \<Rightarrow> 's \<times> store_error option"
    and contents :: "'s \<Rightarrow> string \<Rightarrow> string option"
    and sound :: "'s \<Rightarrow> bool"
    and ready :: "'w \<Rightarrow> 's \<Rightarrow> bool"
    and inside :: "string \<Rightarrow> string \<Rightarrow> bool"
  assumes get_content: "sound s \<Longrightarrow> workspace_path p \<Longrightarrow> get w p s = Inr c \<Longrightarrow> contents s p = Some c"
    and get_missing: "sound s \<Longrightarrow> workspace_path p \<Longrightarrow> get w p s = Inl NotFound \<Longrightarrow> contents s p = None"
    and create_done: "sound s \<Longrightarrow> workspace_path p \<Longrightarrow> ready w s \<Longrightarrow> create w p c s = (s', None) \<Longrightarrow>
      sound s' \<and> contents s' = (contents s)(p \<mapsto> c)"
    and create_failed: "sound s \<Longrightarrow> workspace_path p \<Longrightarrow> ready w s \<Longrightarrow> create w p c s = (s', Some e) \<Longrightarrow>
      sound s' \<and> contents s \<subseteq>\<^sub>m contents s' \<and> (e = AlreadyExists \<longrightarrow> s' = s)"
    and modify_done: "sound s \<Longrightarrow> workspace_path p \<Longrightarrow> ready w s \<Longrightarrow> modify w p f s = (s', None) \<Longrightarrow>
      sound s' \<and> (\<exists>c. contents s p = Some c \<and> contents s' = (contents s)(p \<mapsto> f c))"
    and modify_failed: "sound s \<Longrightarrow> workspace_path p \<Longrightarrow> ready w s \<Longrightarrow> modify w p f s = (s', Some e) \<Longrightarrow>
      sound s' \<and> contents s \<subseteq>\<^sub>m contents s' \<and> (e = NotFound \<longrightarrow> s' = s)"
    and delete_done: "sound s \<Longrightarrow> workspace_path p \<Longrightarrow> delete w p s = (s', None) \<Longrightarrow>
      sound s' \<and> contents s' = (\<lambda>q. if inside p q then None else contents s q)"
    and inside_file: "sound s \<Longrightarrow> workspace_path p \<Longrightarrow> contents s p = Some c \<Longrightarrow> contents s q \<noteq> None \<Longrightarrow>
      inside p q \<longleftrightarrow> q = p"
    and inside_self: "inside p p"
    and delete_failed: "sound s \<Longrightarrow> workspace_path p \<Longrightarrow> delete w p s = (s', Some e) \<Longrightarrow>
      sound s' \<and> contents s \<subseteq>\<^sub>m contents s'"
    and transaction_done: "transaction w s r = (s', None) \<Longrightarrow> r = (s', None)"
    and transaction_failed: "transaction w s r = (s', Some e) \<Longrightarrow> s' = s \<or> s' = fst r \<and> snd r \<noteq> None"

subsection \<open>Workspace paths\<close>

lemma workspace_path_normal:
  assumes "workspace_path p" "q \<in> set (parts p)"
  shows "normal q"
  using well_resolved_normal [OF parts_well, of p q] assms by (simp add: workspace_path_def)

lemma workspace_path_components:
  assumes "workspace_path p"
  shows "components p = parts p"
proof -
  have "components (clean p) = parts p"
    using components_render [OF parts_well, of p] assms by (simp add: workspace_path_def clean_def)
  then show ?thesis using assms by (simp add: workspace_path_def)
qed

lemma workspace_path_inj: "workspace_path p \<Longrightarrow> workspace_path q \<Longrightarrow> parts p = parts q \<longleftrightarrow> p = q"
  using clean_eq_iff [of p q] by (auto simp: workspace_path_def)

lemma contains_sub_iff: "contains_sub s t \<longleftrightarrow> (\<exists>a b. s = a @ t @ b)"
proof (induction s)
  case Nil
  then show ?case by (simp add: contains_sub_def index_sub.simps has_prefix_def)
next
  case (Cons x s)
  have "contains_sub (x # s) t \<longleftrightarrow> has_prefix (x # s) t \<or> contains_sub s t"
    by (subst (1) contains_sub_def, subst index_sub.simps) (simp add: contains_sub_def)
  also have "\<dots> \<longleftrightarrow> (\<exists>a b. x # s = a @ t @ b)"
    unfolding Cons.IH has_prefix_iff by (metis append_Cons append_Nil list.exhaust list.sel(3) tl_append2)
  finally show ?case .
qed

lemma workspace_path_accepted:
  assumes "workspace_path p"
  shows "storePath p = p" "p \<noteq> ''.''" "p \<noteq> []" "\<not> has_prefix p ''../''" "\<not> contains_sub p ''/../''"
proof -
  have c: "components p = parts p" by (rule workspace_path_components [OF assms])
  have n: "''..'' \<notin> set (components p)" using workspace_path_normal [OF assms, of "''..''"] c by auto
  show "storePath p = p" using assms
    by (auto simp: workspace_path_def storePath_def trim_prefix_def rooted_def)
  show "p \<noteq> ''.''" "p \<noteq> []"
    using c components_single [of p] workspace_path_normal [OF assms, of p] by auto
  show "\<not> has_prefix p ''../''"
  proof
    assume "has_prefix p ''../''"
    then obtain t where "p = ''..'' @ slash # t" by (auto simp: has_prefix_iff)
    then show False using n components_append [of "''..''" t] by (simp add: components_single)
  qed
  show "\<not> contains_sub p ''/../''"
  proof
    assume "contains_sub p ''/../''"
    then obtain a b where "p = a @ slash # (''..'' @ slash # b)" by (auto simp: contains_sub_iff)
    then show False
      using n components_append [of a "''..'' @ slash # b"] components_append [of "''..''" b] by (simp add: components_single)
  qed
qed

lemma workspaceDirectory_parts:
  assumes "data \<noteq> []" "normal i" "sc \<noteq> OtherScope"
  shows "workspaceDirectory data sc i \<noteq> []"
    and "rooted (workspaceDirectory data sc i) = rooted data"
    and "\<exists>kind. kind \<in> {''users'', ''agents'', ''projects''} \<and>
      parts (workspaceDirectory data sc i) = parts data @ [kind, i, ''workspace'']"
  using assms
  by (cases sc; simp add: userWorkspaceDirectory_def usersDirectory_def agentWorkspaceDirectory_def agentsDirectory_def
      projectWorkspaceDirectory_def projectsDirectory_def components_single resolveStep_normal normal_def)+

lemma workspaceFilePath_accepts:
  assumes "data \<noteq> []" "normal i" "sc \<noteq> OtherScope" "workspace_path p"
  shows "\<exists>a. workspaceFilePath data sc i p = Inr a \<and> parts a = parts (workspaceDirectory data sc i) @ parts p"
proof -
  let ?ws = "workspaceDirectory data sc i"
  note ws = workspaceDirectory_parts [OF assms(1-3)]
  have j: "parts (joinPath ?ws p) = parts ?ws @ parts p"
    using ws(1) workspace_path_components [OF assms(4)] workspace_path_normal [OF assms(4)]
    by (simp add: resolve_normal)
  have "has_prefix (clean (joinPath ?ws p)) (clean ?ws @ ''/'')"
    by (rule clean_prefixI [OF _ j]) (use ws assms(4) in \<open>auto simp: workspace_path_def\<close>)
  then show ?thesis
    using j ws(1) workspace_path_accepted [OF assms(4)] by (simp add: workspaceFilePath_def Let_def)
qed

subsection \<open>The file store keeps the contract\<close>

definition fsContents :: "string \<Rightarrow> scope \<Rightarrow> string \<Rightarrow> disk \<Rightarrow> string \<Rightarrow> string option" where
  "fsContents data sc i d p =
     (if workspace_path p then fileAt d (parts (workspaceDirectory data sc i) @ parts p) else None)"

text \<open>What goes to the trash with a path: the file, or the directory with all that lies in it.\<close>

definition insidePath :: "string \<Rightarrow> string \<Rightarrow> bool" where
  "insidePath p q \<longleftrightarrow> below (parts p) (parts q)"

definition fsSound :: "string \<Rightarrow> scope \<Rightarrow> string \<Rightarrow> disk \<Rightarrow> bool" where
  "fsSound data sc i d \<longleftrightarrow> tree d \<and> data \<noteq> [] \<and> normal i \<and> sc \<noteq> OtherScope"

lemma fsContents_upd:
  assumes "workspace_path p" "fileAt d' = (fileAt d)(parts (workspaceDirectory data sc i) @ parts p := v)"
  shows "fsContents data sc i d' = (fsContents data sc i d)(p := v)"
proof
  fix x
  show "fsContents data sc i d' x = ((fsContents data sc i d)(p := v)) x"
    using workspace_path_inj [of x p] assms by (cases "workspace_path x") (auto simp: fsContents_def)
qed

lemma fsContents_mono:
  assumes "\<forall>k. fileAt d k \<noteq> None \<longrightarrow> fileAt d' k = fileAt d k"
  shows "fsContents data sc i d \<subseteq>\<^sub>m fsContents data sc i d'"
  using assms by (auto simp: fsContents_def map_le_def)

lemma readPath_file: "readPath w d p = Inr c \<Longrightarrow> fileAt d p = Some c"
  by (auto simp: readPath_def fileAt_def split: if_splits option.splits node.splits)

lemma readPath_missing: "readPath w d p = Inl NotFound \<Longrightarrow> fileAt d p = None"
  by (auto simp: readPath_def fileAt_def split: if_splits option.splits node.splits)

lemma fs_get:
  assumes "fsSound data sc i d" "workspace_path p"
  shows "getWorkspaceFile w data sc i p d = Inr c \<Longrightarrow> fsContents data sc i d p = Some c"
    and "getWorkspaceFile w data sc i p d = Inl NotFound \<Longrightarrow> fsContents data sc i d p = None"
  using workspaceFilePath_accepts [of data i sc p] assms readPath_file readPath_missing
  by (auto simp: getWorkspaceFile_def fsContents_def fsSound_def split: sum.splits if_splits)

lemma fs_create:
  assumes s: "fsSound data sc i d" and p: "workspace_path p" and r: "fresh_weather w d"
    and c: "createWorkspaceFile w data sc i p c d = (d', e)"
  shows "fsSound data sc i d'
    \<and> (e = None \<longrightarrow> fsContents data sc i d' = (fsContents data sc i d)(p \<mapsto> c))
    \<and> (e \<noteq> None \<longrightarrow> e = Some OsError \<and> fsContents data sc i d \<subseteq>\<^sub>m fsContents data sc i d')"
proof -
  let ?k = "parts (workspaceDirectory data sc i) @ parts p"
  obtain a where a: "workspaceFilePath data sc i p = Inr a" "parts a = ?k"
    using workspaceFilePath_accepts [of data i sc p] s p by (auto simp: fsSound_def)
  have t: "tree d" using s by (simp add: fsSound_def)
  have k: "?k \<noteq> []" using p by (simp add: workspace_path_def)
  obtain d1 ok1 where m: "mkdirAll w (butlast ?k) d = (d1, ok1)" by fastforce
  note m1 = mkdirAll_spec [OF m t]
  show ?thesis
  proof (cases ok1)
    case False
    then have "d' = d1 \<and> e = Some OsError" using c a m by (simp add: createWorkspaceFile_def)
    then show ?thesis using m1 s fsContents_mono [of d d1 data sc i] by (simp add: fsSound_def)
  next
    case True
    obtain d2 ok2 where w: "writeAtomic w ?k c d1 = (d2, ok2)" by fastforce
    have f: "fresh_for w ?k d1" by (rule fresh_for_mkdir [OF fresh_weather_for [OF r] m t])
    note w2 = writeAtomic_spec [OF w m1(1) k f]
    have d2: "d' = d2 \<and> e = (if ok2 then None else Some OsError)"
      using c a m w True by (simp add: createWorkspaceFile_def)
    have g: "tree d2" using w2 by blast
    show ?thesis
    proof (cases ok2)
      case True
      then have "fileAt d2 = (fileAt d)(?k := Some c)" using w2 m1(2) by simp
      from fsContents_upd [OF p this] show ?thesis using d2 True g s by (simp add: fsSound_def)
    next
      case False
      then have "\<forall>k. fileAt d k \<noteq> None \<longrightarrow> fileAt d2 k = fileAt d k" using w2 m1(2) by simp
      from fsContents_mono [OF this, of data sc i] show ?thesis using d2 False g s by (simp add: fsSound_def)
    qed
  qed
qed

lemma fs_modify:
  assumes s: "fsSound data sc i d" and p: "workspace_path p" and r: "fresh_weather w d"
    and m: "modifyWorkspaceFile w data sc i p f d = (d', e)"
  shows "fsSound data sc i d'
    \<and> (e = None \<longrightarrow> (\<exists>c. fsContents data sc i d p = Some c \<and> fsContents data sc i d' = (fsContents data sc i d)(p \<mapsto> f c)))
    \<and> (e \<noteq> None \<longrightarrow> fsContents data sc i d \<subseteq>\<^sub>m fsContents data sc i d' \<and> (e = Some NotFound \<longrightarrow> d' = d))"
proof (cases "getWorkspaceFile w data sc i p d")
  case (Inl x)
  then have "d' = d \<and> e = Some x" using m by (simp add: modifyWorkspaceFile_def)
  then show ?thesis using s by simp
next
  case (Inr c)
  then have cr: "createWorkspaceFile w data sc i p (f c) d = (d', e)"
    using m workspace_path_accepted(1) [OF p] by (simp add: modifyWorkspaceFile_def)
  show ?thesis using fs_create [OF s p r cr] fs_get(1) [OF s p Inr] by auto
qed

lemma fsContents_below:
  assumes "fsSound data sc i d" "workspace_path p" "fsContents data sc i d q \<noteq> None" "insidePath p q"
  shows "nodeAt d (parts (workspaceDirectory data sc i) @ parts p) \<noteq> None"
    and "fsContents data sc i d p = Some c \<Longrightarrow> q = p"
proof -
  let ?ws = "parts (workspaceDirectory data sc i)"
  have q: "workspace_path q" "nodeAt d (?ws @ parts q) \<noteq> None"
    using assms(3) fileAt_None [of d "?ws @ parts q"] unfolding fsContents_def by (metis (full_types))+
  have t: "take (length (?ws @ parts p)) (?ws @ parts q) = ?ws @ parts p" and l: "length (parts p) \<le> length (parts q)"
    using assms(4) below_length [of "parts p" "parts q"] by (auto simp: insidePath_def below_def)
  have up: "nodeAt d (?ws @ parts p) = Some DirNode" if "length (parts p) < length (parts q)"
    using treeD [OF _ q(2), of "length (?ws @ parts p)"] that assms(1) t by (simp add: fsSound_def)
  have same: "?ws @ parts p = ?ws @ parts q" if "\<not> length (parts p) < length (parts q)"
    using t l that by simp
  show "nodeAt d (?ws @ parts p) \<noteq> None"
    using up same q(2) by (cases "length (parts p) < length (parts q)") auto
  assume "fsContents data sc i d p = Some c"
  then have "nodeAt d (?ws @ parts p) = Some (FileNode c)" using assms(2) fileAt_node by (auto simp: fsContents_def)
  then have "parts p = parts q" using up same by (cases "length (parts p) < length (parts q)") auto
  then show "q = p" using workspace_path_inj [OF q(1) assms(2)] by simp
qed

lemma fs_delete:
  assumes s: "fsSound data sc i d" and p: "workspace_path p"
    and e: "deleteWorkspaceFile w data sc i p d = (d', e)"
  shows "fsSound data sc i d'
    \<and> (e = None \<longrightarrow> fsContents data sc i d' = (\<lambda>q. if insidePath p q then None else fsContents data sc i d q))
    \<and> (e \<noteq> None \<longrightarrow> fsContents data sc i d \<subseteq>\<^sub>m fsContents data sc i d')"
proof -
  let ?k = "parts (workspaceDirectory data sc i) @ parts p" and ?trash = "parts (trashDirectory data)"
  obtain a where a: "workspaceFilePath data sc i p = Inr a" "parts a = ?k"
    using workspaceFilePath_accepts [of data i sc p] s p by (auto simp: fsSound_def)
  have t: "tree d" and d: "data \<noteq> []" using s by (simp_all add: fsSound_def)
  have k: "?k \<noteq> []" using p by (simp add: workspace_path_def)
  show ?thesis
  proof (cases "statPath w d ?k = Inl NotFound")
    case True
    then have "d' = d \<and> e = None" using e a by (simp add: deleteWorkspaceFile_def)
    moreover have "fsContents data sc i d q = None" if "insidePath p q" for q
      using fsContents_below(1) [OF s p _ that] statPath_NotFound [OF True] by blast
    then have "fsContents data sc i d = (\<lambda>q. if insidePath p q then None else fsContents data sc i d q)" by auto
    ultimately show ?thesis using s by simp
  next
    case False
    obtain d1 ok where m: "trashMove w ?k ?trash d = (d1, ok)" by fastforce
    note sp = trashMove_spec [OF m t k]
    have e1: "d' = d1 \<and> e = (if ok then None else Some OsError)"
      using e a m False by (simp add: deleteWorkspaceFile_def)
    show ?thesis
    proof (cases ok)
      case False
      then have "fileAt d1 = fileAt d" using sp by blast
      then have "fsContents data sc i d1 = fsContents data sc i d" by (simp add: fsContents_def fun_eq_iff)
      then show ?thesis using e1 False sp s by (simp add: fsSound_def)
    next
      case True
      then obtain q where q: "nodeAt d q = None" "butlast q = ?trash" "\<not> below ?k q"
        and f: "fileAt d1 = (\<lambda>x. if below q x then fileAt d (?k @ drop (length q) x) else if below ?k x then None else fileAt d x)"
        using sp by blast
      have tr: "?trash = parts data @ [''.trash'']"
        using d by (simp add: trashDirectory_def components_single resolveStep_normal normal_def)
      obtain kind where k3: "kind \<in> {''users'', ''agents'', ''projects''}"
        and kind: "parts (workspaceDirectory data sc i) = parts data @ [kind, i, ''workspace'']"
        using workspaceDirectory_parts(3) [of data i sc] s by (auto simp: fsSound_def)
      have trashless: "kind \<noteq> ''.trash''" using k3 by auto
      have nb: "\<not> below q (parts (workspaceDirectory data sc i) @ x)" for x
      proof
        assume b: "below q (parts (workspaceDirectory data sc i) @ x)"
        have "below ?trash q" using q(1,2) by (metis append_butlast_last_id below_append nodeAt_Nil option.distinct(1))
        from below_trans [OF this b] have "take (Suc (length (parts data))) (parts data @ [kind, i, ''workspace''] @ x) = parts data @ [''.trash'']"
          using tr kind by (simp add: below_def)
        then show False using trashless by simp
      qed
      have "fsContents data sc i d1 x = (if insidePath p x then None else fsContents data sc i d x)" for x
        using f nb [of "parts x"] by (simp add: fsContents_def insidePath_def below_def)
      then have "fsContents data sc i d1 = (\<lambda>q. if insidePath p q then None else fsContents data sc i d q)" by blast
      then show ?thesis using e1 True sp s by (simp add: fsSound_def)
    qed
  qed
qed

interpretation fs: workspace_store
  "\<lambda>w p d. getWorkspaceFile w data sc i p d"
  "\<lambda>w p c d. createWorkspaceFile w data sc i p c d"
  "\<lambda>w p f d. modifyWorkspaceFile w data sc i p f d"
  "\<lambda>w p d. deleteWorkspaceFile w data sc i p d"
  fsTransaction "fsContents data sc i" "fsSound data sc i" fresh_weather insidePath
  for data sc i
proof (unfold_locales, goal_cases)
  case 1
  then show ?case by (rule fs_get(1))
next
  case 2
  then show ?case by (rule fs_get(2))
next
  case 3
  then show ?case using fs_create [OF 3] by simp
next
  case 4
  then show ?case using fs_create [OF 4] by simp
next
  case 5
  then show ?case using fs_modify [OF 5] by simp
next
  case (6 s p w f s' e)
  then show ?case using fs_modify [OF 6] by simp
next
  case 7
  then show ?case using fs_delete [OF 7] by simp
next
  case 8
  then show ?case using fsContents_below(2) [OF 8(1,2)] by (auto simp: insidePath_def below_def)
next
  case 9
  then show ?case by (simp add: insidePath_def below_def)
next
  case 10
  then show ?case using fs_delete [OF 10] by simp
qed (simp_all add: fsTransaction_def)

subsection \<open>The database store keeps the contract\<close>

definition dbContents :: "scope \<Rightarrow> string \<Rightarrow> file_row list \<Rightarrow> string \<Rightarrow> string option" where
  "dbContents sc i t p =
     (if workspace_path p then map_option rowContent (List.find (sameKey sc i p) t) else None)"

definition rowKey :: "file_row \<Rightarrow> scope \<times> string \<times> string" where
  "rowKey r = (rowScope r, rowScopeId r, rowPath r)"

definition dbSound :: "file_row list \<Rightarrow> bool" where
  "dbSound t \<longleftrightarrow> distinct (map rowKey t)"

lemma sameKey_iff: "sameKey sc i p r \<longleftrightarrow> rowKey r = (sc, i, p)"
  by (auto simp: sameKey_def rowKey_def)

lemma find_filter: "List.find P xs = (case filter P xs of [] \<Rightarrow> None | x # _ \<Rightarrow> Some x)"
  by (induction xs) auto

lemma find_append: "List.find P (xs @ ys) = (case List.find P xs of None \<Rightarrow> List.find P ys | r \<Rightarrow> r)"
  by (induction xs) auto

lemma db_get:
  assumes "workspace_path p"
  shows "dbGetWorkspaceFile w sc i p t = Inr c \<Longrightarrow> dbContents sc i t p = Some c"
    and "dbGetWorkspaceFile w sc i p t = Inl NotFound \<Longrightarrow> dbContents sc i t p = None"
  using assms
  by (auto simp: dbGetWorkspaceFile_def dbContents_def find_filter workspace_path_accepted split: list.splits if_splits)

lemma sameKey_eta: "sameKey sc i p = (\<lambda>r. rowKey r = (sc, i, p))"
  by (simp add: sameKey_iff fun_eq_iff)

lemma rowKey_update [simp]: "rowKey (r\<lparr> rowContent := c, rowModifiedAt := m \<rparr>) = rowKey r"
  by (simp add: rowKey_def)

lemma find_updated:
  "map_option rowContent (List.find (sameKey sc i q)
      (map (\<lambda>r. if sameKey sc i p r then r\<lparr> rowContent := c, rowModifiedAt := m \<rparr> else r) t)) =
    (if q = p then map_option (\<lambda>_. c) (List.find (sameKey sc i p) t)
     else map_option rowContent (List.find (sameKey sc i q) t))"
  unfolding sameKey_eta by (induction t) auto

lemma find_update:
  assumes "\<exists>r\<in>set t. sameKey sc i p r"
  shows "map_option rowContent (List.find (sameKey sc i q)
      (map (\<lambda>r. if sameKey sc i p r then r\<lparr> rowContent := c, rowModifiedAt := m \<rparr> else r) t)) =
    (if q = p then Some c else map_option rowContent (List.find (sameKey sc i q) t))"
proof -
  have "List.find (sameKey sc i p) t \<noteq> None" using assms by (auto simp: find_None_iff)
  then show ?thesis by (auto simp: find_updated)
qed

lemma db_create:
  assumes s: "dbSound t" and p: "workspace_path p" and c: "dbCreateWorkspaceFile w sc i p c t = (t', e)"
  shows "dbSound t' \<and> (e = None \<longrightarrow> dbContents sc i t' = (dbContents sc i t)(p \<mapsto> c)) \<and> (e \<noteq> None \<longrightarrow> t' = t \<and> e \<noteq> Some AlreadyExists)"
proof -
  let ?new = "\<lparr> rowScope = sc, rowScopeId = i, rowPath = p, rowContent = c, rowModifiedAt = clock w \<rparr>"
  let ?upd = "\<lambda>r. if sameKey sc i p r then r\<lparr> rowContent := c, rowModifiedAt := clock w \<rparr> else r"
  have cases: "t' = t \<and> e \<noteq> None \<and> e \<noteq> Some AlreadyExists
    \<or> (\<exists>r\<in>set t. sameKey sc i p r) \<and> t' = map ?upd t \<and> e = None
    \<or> (\<forall>r\<in>set t. \<not> sameKey sc i p r) \<and> t' = t @ [?new] \<and> e = None"
    using c workspace_path_accepted [OF p]
    by (auto simp: dbCreateWorkspaceFile_def Let_def isInvalidWorkspacePath_def split: if_splits)
  then consider "t' = t" "e \<noteq> None" "e \<noteq> Some AlreadyExists" | "\<exists>r\<in>set t. sameKey sc i p r" "t' = map ?upd t" "e = None"
    | "\<forall>r\<in>set t. \<not> sameKey sc i p r" "t' = t @ [?new]" "e = None" by blast
  then show ?thesis
  proof cases
    case 1
    then show ?thesis using s by auto
  next
    case 2
    have "map rowKey t' = map rowKey t" using 2(2) by (simp add: rowKey_def)
    moreover have "dbContents sc i t' = (dbContents sc i t)(p \<mapsto> c)"
      using p find_update [OF 2(1)] by (auto simp: 2(2) dbContents_def fun_eq_iff)
    ultimately show ?thesis using s 2(3) by (simp add: dbSound_def)
  next
    case 3
    have none: "List.find (sameKey sc i p) t = None" using 3(1) by (simp add: find_None_iff)
    have k: "rowKey ?new = (sc, i, p)" by (simp add: rowKey_def)
    then have "dbSound t'" using s 3(1,2) by (auto simp: dbSound_def sameKey_iff)
    moreover have "dbContents sc i t' = (dbContents sc i t)(p \<mapsto> c)"
      using p none by (auto simp: 3(2) dbContents_def find_append sameKey_def fun_eq_iff split: option.splits)
    ultimately show ?thesis using 3(3) by simp
  qed
qed

lemma db_modify:
  assumes s: "dbSound t" and p: "workspace_path p" and m: "dbModifyWorkspaceFile w sc i p f t = (t', e)"
  shows "dbSound t' \<and> (e = None \<longrightarrow> (\<exists>c. dbContents sc i t p = Some c \<and> dbContents sc i t' = (dbContents sc i t)(p \<mapsto> f c)))
    \<and> (e \<noteq> None \<longrightarrow> t' = t)"
proof (cases "dbGetWorkspaceFile w sc i p t")
  case (Inl x)
  then have "t' = t \<and> e = Some x" using m by (simp add: dbModifyWorkspaceFile_def)
  then show ?thesis using s by simp
next
  case (Inr c)
  then have "dbCreateWorkspaceFile w sc i p (f c) t = (t', e)"
    using m workspace_path_accepted(1) [OF p] by (simp add: dbModifyWorkspaceFile_def)
  from db_create [OF s p this] show ?thesis using db_get(1) [OF p Inr] by simp
qed

lemma db_delete:
  assumes s: "dbSound t" and p: "workspace_path p" and e: "dbDeleteWorkspaceFile w sc i p t = (t', e)"
  shows "dbSound t' \<and> (e = None \<longrightarrow> dbContents sc i t' = (dbContents sc i t)(p := None)) \<and> (e \<noteq> None \<longrightarrow> t' = t)"
proof (cases "dbFails w")
  case True
  then show ?thesis using e s by (auto simp: dbDeleteWorkspaceFile_def)
next
  case False
  then have t': "t' = filter (\<lambda>r. \<not> sameKey sc i p r) t" "e = None"
    using e workspace_path_accepted(1) [OF p] by (simp_all add: dbDeleteWorkspaceFile_def)
  have "List.find (sameKey sc i q) (filter (\<lambda>r. \<not> sameKey sc i p r) t) =
      (if q = p then None else List.find (sameKey sc i q) t)" for q
    unfolding sameKey_eta by (induction t) auto
  then have "dbContents sc i t' = (dbContents sc i t)(p := None)"
    using p by (auto simp: t'(1) dbContents_def fun_eq_iff)
  then show ?thesis using s t' by (simp add: dbSound_def distinct_map_filter)
qed

interpretation db: workspace_store
  "\<lambda>w p t. dbGetWorkspaceFile w sc i p t"
  "\<lambda>w p c t. dbCreateWorkspaceFile w sc i p c t"
  "\<lambda>w p f t. dbModifyWorkspaceFile w sc i p f t"
  "\<lambda>w p t. dbDeleteWorkspaceFile w sc i p t"
  dbTransaction "dbContents sc i" dbSound "\<lambda>_ _. True" "\<lambda>p q. q = p"
  for sc i
proof (unfold_locales, goal_cases)
  case 1
  then show ?case by (simp add: db_get(1))
next
  case 2
  then show ?case by (simp add: db_get(2))
next
  case 3
  then show ?case using db_create [OF 3(1,2,4)] by simp
next
  case 4
  then show ?case using db_create [OF 4(1,2,4)] by simp
next
  case 5
  then show ?case using db_modify [OF 5(1,2,4)] by simp
next
  case 6
  then show ?case using db_modify [OF 6(1,2,4)] by simp
next
  case 7
  then show ?case using db_delete [OF 7] by (auto simp: fun_eq_iff)
next
  case 10
  then show ?case using db_delete [OF 10] by simp
qed (auto simp: dbTransaction_def split: option.splits if_splits)

end
