(* ===== verification/WorkspaceTool.thy ===== *)
theory WorkspaceTool
  imports WorkspaceStores
begin

text \<open>
  The workspace tools \<open>agent_workspace\<close>, \<open>user_workspace\<close> and \<open>project_workspace\<close>
  (\<open>tools/workspace/workspace.go\<close>): every action with its checks, its transaction and its errors,
  over the operations of a store. Arguments arrive decoded (the JSON decoder is a parameter), results
  are values instead of JSON texts.
\<close>

record ('w, 's) store_ops =
  storeGet :: "'w \<Rightarrow> string \<Rightarrow> 's \<Rightarrow> store_error + string"
  storeCreate :: "'w \<Rightarrow> string \<Rightarrow> string \<Rightarrow> 's \<Rightarrow> 's \<times> store_error option"
  storeModify :: "'w \<Rightarrow> string \<Rightarrow> (string \<Rightarrow> string) \<Rightarrow> 's \<Rightarrow> 's \<times> store_error option"
  storeDelete :: "'w \<Rightarrow> string \<Rightarrow> 's \<Rightarrow> 's \<times> store_error option"
  storeList :: "'w \<Rightarrow> 's \<Rightarrow> store_error + (string \<times> string) list"
  storeTransaction :: "'w \<Rightarrow> 's \<Rightarrow> 's \<times> store_error option \<Rightarrow> 's \<times> store_error option"

definition fileStore :: "string \<Rightarrow> scope \<Rightarrow> string \<Rightarrow> (weather, disk) store_ops" where
  "fileStore data sc i =
     \<lparr> storeGet = (\<lambda>w p d. getWorkspaceFile w data sc i p d),
       storeCreate = (\<lambda>w p c d. createWorkspaceFile w data sc i p c d),
       storeModify = (\<lambda>w p f d. modifyWorkspaceFile w data sc i p f d),
       storeDelete = (\<lambda>w p d. deleteWorkspaceFile w data sc i p d),
       storeList = (\<lambda>w d. Inr (listWorkspaceFiles w data sc i d)),
       storeTransaction = fsTransaction \<rparr>"

definition tableStore :: "scope \<Rightarrow> string \<Rightarrow> (db_weather, file_row list) store_ops" where
  "tableStore sc i =
     \<lparr> storeGet = (\<lambda>w p t. dbGetWorkspaceFile w sc i p t),
       storeCreate = (\<lambda>w p c t. dbCreateWorkspaceFile w sc i p c t),
       storeModify = (\<lambda>w p f t. dbModifyWorkspaceFile w sc i p f t),
       storeDelete = (\<lambda>w p t. dbDeleteWorkspaceFile w sc i p t),
       storeList = (\<lambda>w t. dbListWorkspaceFiles w sc i t),
       storeTransaction = dbTransaction \<rparr>"

subsection \<open>Paths and results\<close>

definition normalizeRelativePath :: "string \<Rightarrow> string option" where
  "normalizeRelativePath p =
     (let cleanedPath = clean p in
      if cleanedPath = ''.'' \<or> cleanedPath = [] \<or> isAbs cleanedPath \<or> cleanedPath = ''..'' \<or> has_prefix cleanedPath ''../''
      then None else Some cleanedPath)"

definition isSearchableFile :: "(string \<Rightarrow> string) \<Rightarrow> string \<Rightarrow> bool" where
  "isSearchableFile lower p \<longleftrightarrow>
     lower (ext p) \<in> set [''.md'', ''.txt'', ''.json'', ''.yaml'', ''.yml'', ''.toml'', ''.xml'', ''.csv'', ''.log'',
       ''.ini'', ''.cfg'', ''.conf'', ''.env'', ''.sh'', ''.bat'', ''.ps1'']"

datatype tool_error = InvalidPath | StoreFailed store_error | QueryRequired | UnknownAction | MissingScope | BadArguments

datatype tool_output =
    Content string | Success | Files "string list" | Matches "(string \<times> nat \<times> string) list"

definition afterTransaction :: "'s \<times> store_error option \<Rightarrow> 's \<times> (tool_error + tool_output)" where
  "afterTransaction r = (case r of (s, None) \<Rightarrow> (s, Inr Success) | (s, Some e) \<Rightarrow> (s, Inl (StoreFailed e)))"

subsection \<open>The actions\<close>

text \<open>The calls of one action see the weathers 0, 1, 2 and so on.\<close>

definition executeRead :: "('w, 's) store_ops \<Rightarrow> (nat \<Rightarrow> 'w) \<Rightarrow> string \<Rightarrow> 's \<Rightarrow> tool_error + tool_output" where
  "executeRead ops w p s =
     (case normalizeRelativePath p of
        None \<Rightarrow> Inl InvalidPath
      | Some p \<Rightarrow> (case storeGet ops (w 0) p s of Inl e \<Rightarrow> Inl (StoreFailed e) | Inr c \<Rightarrow> Inr (Content c)))"

definition executeWrite ::
  "('w, 's) store_ops \<Rightarrow> (nat \<Rightarrow> 'w) \<Rightarrow> string \<Rightarrow> string \<Rightarrow> 's \<Rightarrow> 's \<times> (tool_error + tool_output)" where
  "executeWrite ops w p content s =
     (case normalizeRelativePath p of
        None \<Rightarrow> (s, Inl InvalidPath)
      | Some p \<Rightarrow>
          afterTransaction (storeTransaction ops (w 2) s
            (case storeModify ops (w 0) p (\<lambda>_. content) s of
               (s, None) \<Rightarrow> (s, None)
             | (s, Some e) \<Rightarrow> if e \<noteq> NotFound then (s, Some e) else storeCreate ops (w 1) p content s)))"

definition executeAppend ::
  "('w, 's) store_ops \<Rightarrow> (nat \<Rightarrow> 'w) \<Rightarrow> string \<Rightarrow> string \<Rightarrow> 's \<Rightarrow> 's \<times> (tool_error + tool_output)" where
  "executeAppend ops w p content s =
     (case normalizeRelativePath p of
        None \<Rightarrow> (s, Inl InvalidPath)
      | Some p \<Rightarrow>
          afterTransaction (storeTransaction ops (w 2) s
            (case storeGet ops (w 0) p s of
               Inr existing \<Rightarrow> storeModify ops (w 1) p (\<lambda>_. existing @ content @ ''\<newline>'') s
             | Inl e \<Rightarrow> if e \<noteq> NotFound then (s, Some e) else storeCreate ops (w 1) p (content @ ''\<newline>'') s)))"

definition executeDelete ::
  "('w, 's) store_ops \<Rightarrow> (nat \<Rightarrow> 'w) \<Rightarrow> string \<Rightarrow> 's \<Rightarrow> 's \<times> (tool_error + tool_output)" where
  "executeDelete ops w p s =
     (case normalizeRelativePath p of
        None \<Rightarrow> (s, Inl InvalidPath)
      | Some p \<Rightarrow> afterTransaction (storeTransaction ops (w 1) s (storeDelete ops (w 0) p s)))"

definition executeMove ::
  "('w, 's) store_ops \<Rightarrow> (nat \<Rightarrow> 'w) \<Rightarrow> string \<Rightarrow> string \<Rightarrow> 's \<Rightarrow> 's \<times> (tool_error + tool_output)" where
  "executeMove ops w fromPath toPath s =
     (case normalizeRelativePath fromPath of
        None \<Rightarrow> (s, Inl InvalidPath)
      | Some source \<Rightarrow>
          (case normalizeRelativePath toPath of
             None \<Rightarrow> (s, Inl InvalidPath)
           | Some target \<Rightarrow>
               if source = target then (s, Inr Success)
               else afterTransaction (storeTransaction ops (w 4) s
                 (case storeGet ops (w 0) source s of
                    Inl e \<Rightarrow> (s, Some e)
                  | Inr content \<Rightarrow>
                      (case (case storeCreate ops (w 1) target content s of
                               (s, None) \<Rightarrow> (s, None)
                             | (s, Some e) \<Rightarrow> if e \<noteq> AlreadyExists then (s, Some e)
                                 else storeModify ops (w 2) target (\<lambda>_. content) s) of
                         (s, Some e) \<Rightarrow> (s, Some e)
                       | (s, None) \<Rightarrow> storeDelete ops (w 3) source s)))))"

definition executeList :: "('w, 's) store_ops \<Rightarrow> (nat \<Rightarrow> 'w) \<Rightarrow> 's \<Rightarrow> tool_error + tool_output" where
  "executeList ops w s =
     (case storeList ops (w 0) s of
        Inl e \<Rightarrow> Inl (StoreFailed e)
      | Inr files \<Rightarrow> Inr (Files (filter (\<lambda>p. p \<noteq> []) (map fst files))))"

text \<open>The loops over the results of a search; True when the limit ends them.\<close>

fun addLines ::
  "nat \<Rightarrow> string \<Rightarrow> nat \<Rightarrow> string list \<Rightarrow> (string \<times> nat \<times> string) list \<Rightarrow> (string \<times> nat \<times> string) list \<times> bool" where
  "addLines maxResults p index [] matches = (matches, False)"
| "addLines maxResults p index (line # ls) matches =
     (let matches = matches @ [(p, index + 1, line)] in
      if length matches \<ge> maxResults then (matches, True) else addLines maxResults p (Suc index) ls matches)"

fun addResults ::
  "(string \<Rightarrow> string) \<Rightarrow> nat \<Rightarrow> (string \<times> string list) list \<Rightarrow> (string \<times> nat \<times> string) list \<Rightarrow> (string \<times> nat \<times> string) list" where
  "addResults lower maxResults [] matches = matches"
| "addResults lower maxResults ((p, ls) # rs) matches =
     (if p = [] \<or> \<not> isSearchableFile lower p then addResults lower maxResults rs matches
      else (case addLines maxResults p 0 ls matches of
              (matches, True) \<Rightarrow> matches
            | (matches, False) \<Rightarrow> addResults lower maxResults rs matches))"

definition executeSearch ::
  "('w, 's) store_ops \<Rightarrow> (string \<Rightarrow> string) \<Rightarrow> (nat \<Rightarrow> 'w) \<Rightarrow> string \<Rightarrow> int \<Rightarrow> 's \<Rightarrow> tool_error + tool_output" where
  "executeSearch ops lower w query maxResults s =
     (if query = [] then Inl QueryRequired
      else
        (let maxResults = (if maxResults \<le> 0 then 10 else nat maxResults) in
         case storeList ops (w 0) s of
           Inl e \<Rightarrow> Inl (StoreFailed e)
         | Inr files \<Rightarrow>
             Inr (Matches (addResults lower maxResults (searchFiles lower query maxResults files) []))))"

subsection \<open>The tools\<close>

datatype workspace_tool = AgentWorkspace | UserWorkspace | ProjectWorkspace

record arguments =
  action :: string
  pathArgument :: string
  fromPath :: string
  toPath :: string
  contentArgument :: string
  queryArgument :: string
  maxResultsArgument :: int
  projectId :: string

record tool_context =
  runnerAgent :: "string option"
  contextUser :: "string option"

definition resolveScope :: "workspace_tool \<Rightarrow> tool_context \<Rightarrow> string \<Rightarrow> (scope \<times> string) option" where
  "resolveScope tool ctx scopeId =
     (case tool of
        AgentWorkspace \<Rightarrow> (case runnerAgent ctx of None \<Rightarrow> None | Some i \<Rightarrow> if i = [] then None else Some (ScopeAgent, i))
      | UserWorkspace \<Rightarrow> (case contextUser ctx of None \<Rightarrow> None | Some i \<Rightarrow> if i = [] then None else Some (ScopeUser, i))
      | ProjectWorkspace \<Rightarrow> if scopeId = [] then None else Some (ScopeProject, scopeId))"

text \<open>The result, and whether \<open>afterMutate\<close> is called.\<close>

definition executeAction ::
  "('w, 's) store_ops \<Rightarrow> (string \<Rightarrow> string) \<Rightarrow> (nat \<Rightarrow> 'w) \<Rightarrow> arguments \<Rightarrow> 's \<Rightarrow> ('s \<times> (tool_error + tool_output)) \<times> bool" where
  "executeAction ops lower w a s =
     (let mutating = (\<lambda>r. (r, case snd r of Inl _ \<Rightarrow> False | Inr _ \<Rightarrow> True)) in
      if action a = ''read'' then ((s, executeRead ops w (pathArgument a) s), False)
      else if action a = ''write'' then mutating (executeWrite ops w (pathArgument a) (contentArgument a) s)
      else if action a = ''list'' then ((s, executeList ops w s), False)
      else if action a = ''append'' then mutating (executeAppend ops w (pathArgument a) (contentArgument a) s)
      else if action a = ''search''
        then ((s, executeSearch ops lower w (queryArgument a) (maxResultsArgument a) s), False)
      else if action a = ''delete'' then mutating (executeDelete ops w (pathArgument a) s)
      else if action a = ''move'' then mutating (executeMove ops w (fromPath a) (toPath a) s)
      else ((s, Inl UnknownAction), False))"

definition executeTool ::
  "(scope \<Rightarrow> string \<Rightarrow> ('w, 's) store_ops) \<Rightarrow> (string \<Rightarrow> string) \<Rightarrow> (nat \<Rightarrow> 'w) \<Rightarrow> workspace_tool \<Rightarrow> tool_context \<Rightarrow>
    (string \<Rightarrow> arguments option) \<Rightarrow> string \<Rightarrow> 's \<Rightarrow> ('s \<times> (tool_error + tool_output)) \<times> (scope \<times> string) option" where
  "executeTool store lower w tool ctx decode rawArguments s =
     (case decode rawArguments of
        None \<Rightarrow> ((s, Inl BadArguments), None)
      | Some a \<Rightarrow>
          (case resolveScope tool ctx (projectId a) of
             None \<Rightarrow> ((s, Inl MissingScope), None)
           | Some (sc, i) \<Rightarrow>
               (case executeAction (store sc i) lower w a s of
                  (r, mutated) \<Rightarrow> (r, if mutated then Some (sc, i) else None))))"

subsection \<open>Every action does what it says, on both stores\<close>

definition accepted :: "string \<Rightarrow> string" where
  "accepted p = (case normalizeRelativePath p of None \<Rightarrow> [] | Some q \<Rightarrow> q)"

text \<open>What an action means for the files of its workspace. A deletion takes the file, and on the file store, where the path
  may be a directory, all files in it.\<close>

definition intended :: "(string \<Rightarrow> string \<Rightarrow> bool) \<Rightarrow> arguments \<Rightarrow> (string \<Rightarrow> string option) \<Rightarrow> string \<Rightarrow> string option" where
  "intended inside a files =
     (if action a = ''write'' then files(accepted (pathArgument a) \<mapsto> contentArgument a)
      else if action a = ''append'' then
        files(accepted (pathArgument a) \<mapsto>
          (case files (accepted (pathArgument a)) of None \<Rightarrow> [] | Some c \<Rightarrow> c) @ contentArgument a @ ''\<newline>'')
      else if action a = ''delete'' then (\<lambda>q. if inside (accepted (pathArgument a)) q then None else files q)
      else if action a = ''move'' \<and> accepted (fromPath a) \<noteq> accepted (toPath a)
        then files(accepted (toPath a) := files (accepted (fromPath a)), accepted (fromPath a) := None)
      else files)"

lemma normalize_workspace_path:
  assumes "normalizeRelativePath p = Some q"
  shows "workspace_path q"
proof -
  have q: "q = clean p" "q \<noteq> ''.''" "\<not> rooted q" "q \<noteq> ''..''" "\<not> has_prefix q ''../''"
    using assms by (auto simp: normalizeRelativePath_def isAbs_def Let_def split: if_splits)
  have c: "clean q = q" using q(1) by simp
  have n: "parts q \<noteq> []" using c q(2,3) by (auto simp: clean_def render_def)
  have "hd (parts q) \<noteq> ''..''"
  proof
    assume h: "hd (parts q) = ''..''"
    have "q = join ''/'' (parts q)" using c q(3) n by (simp add: clean_def render_def)
    then show False using h n q(4,5)
      by (cases "parts q"; cases "tl (parts q)") (auto simp: has_prefix_def)
  qed
  then show ?thesis using c q(3) n by (simp add: workspace_path_def)
qed

lemma afterTransaction_cases:
  assumes "afterTransaction r = (s', out)"
  shows "(r = (s', None) \<and> out = Inr Success) \<or> (\<exists>e. r = (s', Some e) \<and> out = Inl (StoreFailed e))"
  using assms by (cases r; cases "snd r") (auto simp: afterTransaction_def)

text \<open>What is kept of the files when an action fails: all of them, save the target of a move.\<close>

definition kept :: "arguments \<Rightarrow> (string \<Rightarrow> string option) \<Rightarrow> (string \<Rightarrow> string option) \<Rightarrow> bool" where
  "kept a files files' \<longleftrightarrow>
     (\<forall>p c. files p = Some c \<longrightarrow> \<not> (action a = ''move'' \<and> p = accepted (toPath a)) \<longrightarrow> files' p = Some c)"

lemma keptI: "files \<subseteq>\<^sub>m files' \<Longrightarrow> kept a files files'"
  by (auto simp: kept_def map_le_def dom_def)

context workspace_store begin

lemma settled:
  assumes t: "afterTransaction (transaction w s r) = (s', out)"
    and ok: "\<And>t. r = (t, None) \<Longrightarrow> sound t \<and> contents t = files"
    and failed: "\<And>t e. r = (t, Some e) \<Longrightarrow> sound t \<and> kept a (contents s) (contents t)"
    and s: "sound s"
  shows "sound s' \<and> (case out of Inr x \<Rightarrow> contents s' = files | Inl e \<Rightarrow> kept a (contents s) (contents s'))"
proof -
  obtain u x where r: "r = (u, x)" by fastforce
  from afterTransaction_cases [OF t] show ?thesis
  proof (elim disjE exE conjE)
    assume "transaction w s r = (s', None)" and out: "out = Inr Success"
    then have "r = (s', None)" using transaction_done by blast
    then show ?thesis using ok out by simp
  next
    fix e
    assume tr: "transaction w s r = (s', Some e)" and out: "out = Inl (StoreFailed e)"
    have "kept a (contents s) (contents s)" by (rule keptI) simp
    then show ?thesis using transaction_failed [OF tr] failed [of u] s r out by auto
  qed
qed

lemma unchanged: "sound s \<Longrightarrow> sound s \<and> kept a (contents s) (contents s)"
  using keptI [of "contents s" "contents s"] by simp

lemma write_spec:
  assumes "storeModify ops = modify" "storeCreate ops = create" "storeTransaction ops = transaction"
    and s: "sound s" and w: "\<And>n. ready (w n) s" and a: "action a = ''write''"
    and e: "executeWrite ops w (pathArgument a) (contentArgument a) s = (s', out)"
  shows "sound s' \<and> (case out of Inr x \<Rightarrow> contents s' = intended inside a (contents s) | Inl e \<Rightarrow> kept a (contents s) (contents s'))"
proof (cases "normalizeRelativePath (pathArgument a)")
  case None
  then show ?thesis using e unchanged [OF s, of a] by (auto simp: executeWrite_def)
next
  case (Some p)
  have p: "workspace_path p" by (rule normalize_workspace_path [OF Some])
  let ?c = "contentArgument a"
  let ?r = "case modify (w 0) p (\<lambda>_. ?c) s of
      (s, None) \<Rightarrow> (s, None) | (s, Some e) \<Rightarrow> if e \<noteq> NotFound then (s, Some e) else create (w 1) p ?c s"
  have i: "intended inside a (contents s) = (contents s)(p \<mapsto> ?c)"
    using a Some by (simp add: intended_def accepted_def)
  have r: "afterTransaction (transaction (w 2) s ?r) = (s', out)"
    using e [unfolded executeWrite_def assms(1-3)] Some by simp
  obtain s1 x where m: "modify (w 0) p (\<lambda>_. ?c) s = (s1, x)" by fastforce
  have again: "s1 = s" if "x = Some NotFound" using modify_failed [OF s p w] m that by blast
  show ?thesis unfolding i
  proof (rule settled [OF r _ _ s])
    fix t
    assume "?r = (t, None)"
    then show "sound t \<and> contents t = (contents s)(p \<mapsto> ?c)"
      using m again create_done [OF s p w] by (auto split: option.splits if_splits dest!: modify_done [OF s p w])
  next
    fix t y
    assume "?r = (t, Some y)"
    then show "sound t \<and> kept a (contents s) (contents t)"
      using m again create_failed [OF s p w] keptI
      by (auto split: option.splits if_splits dest!: modify_failed [OF s p w])
  qed
qed

lemma append_spec:
  assumes "storeModify ops = modify" "storeCreate ops = create" "storeGet ops = get" "storeTransaction ops = transaction"
    and s: "sound s" and w: "\<And>n. ready (w n) s" and a: "action a = ''append''"
    and e: "executeAppend ops w (pathArgument a) (contentArgument a) s = (s', out)"
  shows "sound s' \<and> (case out of Inr x \<Rightarrow> contents s' = intended inside a (contents s) | Inl e \<Rightarrow> kept a (contents s) (contents s'))"
proof (cases "normalizeRelativePath (pathArgument a)")
  case None
  then show ?thesis using e unchanged [OF s, of a] by (auto simp: executeAppend_def)
next
  case (Some p)
  have p: "workspace_path p" by (rule normalize_workspace_path [OF Some])
  let ?c = "contentArgument a @ ''\<newline>''"
  let ?r = "case get (w 0) p s of
      Inr existing \<Rightarrow> modify (w 1) p (\<lambda>_. existing @ ?c) s
    | Inl e \<Rightarrow> if e \<noteq> NotFound then (s, Some e) else create (w 1) p ?c s"
  have i: "intended inside a (contents s) = (contents s)(p \<mapsto> (case contents s p of None \<Rightarrow> [] | Some c \<Rightarrow> c) @ ?c)"
    using a Some by (simp add: intended_def accepted_def)
  have r: "afterTransaction (transaction (w 2) s ?r) = (s', out)"
    using e [unfolded executeAppend_def assms(1-4)] Some by simp
  show ?thesis unfolding i
  proof (rule settled [OF r _ _ s])
    fix t
    assume "?r = (t, None)"
    then show "sound t \<and> contents t = (contents s)(p \<mapsto> (case contents s p of None \<Rightarrow> [] | Some c \<Rightarrow> c) @ ?c)"
      using get_content [OF s p] get_missing [OF s p] create_done [OF s p w]
      by (auto split: sum.splits if_splits dest!: modify_done [OF s p w])
  next
    fix t y
    assume "?r = (t, Some y)"
    then show "sound t \<and> kept a (contents s) (contents t)"
      using create_failed [OF s p w] keptI unchanged [OF s]
      by (auto split: sum.splits if_splits dest!: modify_failed [OF s p w])
  qed
qed

lemma delete_spec:
  assumes "storeDelete ops = delete" "storeTransaction ops = transaction"
    and s: "sound s" and a: "action a = ''delete''"
    and e: "executeDelete ops w (pathArgument a) s = (s', out)"
  shows "sound s' \<and> (case out of Inr x \<Rightarrow> contents s' = intended inside a (contents s) | Inl e \<Rightarrow> kept a (contents s) (contents s'))"
proof (cases "normalizeRelativePath (pathArgument a)")
  case None
  then show ?thesis using e unchanged [OF s, of a] by (auto simp: executeDelete_def)
next
  case (Some p)
  have p: "workspace_path p" by (rule normalize_workspace_path [OF Some])
  have i: "intended inside a (contents s) = (\<lambda>q. if inside p q then None else contents s q)"
    using a Some by (simp add: intended_def accepted_def)
  have r: "afterTransaction (transaction (w 1) s (delete (w 0) p s)) = (s', out)"
    using e [unfolded executeDelete_def assms(1,2)] Some by simp
  show ?thesis unfolding i
    by (rule settled [OF r _ _ s]) (use delete_done [OF s p] delete_failed [OF s p] keptI in blast)+
qed

lemma move_spec:
  assumes "storeGet ops = get" "storeCreate ops = create" "storeModify ops = modify" "storeDelete ops = delete"
    "storeTransaction ops = transaction"
    and s: "sound s" and w: "\<And>n. ready (w n) s" and a: "action a = ''move''"
    and e: "executeMove ops w (fromPath a) (toPath a) s = (s', out)"
  shows "sound s' \<and> (case out of Inr x \<Rightarrow> contents s' = intended inside a (contents s) | Inl e \<Rightarrow> kept a (contents s) (contents s'))"
proof (cases "normalizeRelativePath (fromPath a) = None \<or> normalizeRelativePath (toPath a) = None")
  case True
  then show ?thesis using e unchanged [OF s, of a] by (auto simp: executeMove_def split: option.splits)
next
  case False
  then obtain p q where pq: "normalizeRelativePath (fromPath a) = Some p" "normalizeRelativePath (toPath a) = Some q" by auto
  have p: "workspace_path p" and q: "workspace_path q" using pq by (simp_all add: normalize_workspace_path)
  show ?thesis
  proof (cases "p = q")
    case True
    then show ?thesis using e pq s a by (auto simp: executeMove_def intended_def accepted_def)
  next
    case False
    let ?m = "\<lambda>c. case create (w 1) q c s of (s, None) \<Rightarrow> (s, None)
      | (s, Some e) \<Rightarrow> if e \<noteq> AlreadyExists then (s, Some e) else modify (w 2) q (\<lambda>_. c) s"
    let ?r = "case get (w 0) p s of Inl e \<Rightarrow> (s, Some e)
      | Inr c \<Rightarrow> (case ?m c of (s, Some e) \<Rightarrow> (s, Some e) | (s, None) \<Rightarrow> delete (w 3) p s)"
    have i: "intended inside a (contents s) = (contents s)(q := contents s p, p := None)"
      using a pq False by (simp add: intended_def accepted_def)
    have r: "afterTransaction (transaction (w 4) s ?r) = (s', out)"
      using e [unfolded executeMove_def assms(1-5)] pq False by simp
    have again: "t = s" if "create (w n) q c s = (t, Some AlreadyExists)" for n c t
      using create_failed [OF s q w that] by blast
    have m_ok: "sound t \<and> contents t = (contents s)(q \<mapsto> c)" if "?m c = (t, None)" for c t
      using that create_done [OF s q w]
      by (auto split: prod.splits option.splits if_splits dest!: again modify_done [OF s q w])
    have m_fail: "sound t \<and> contents s \<subseteq>\<^sub>m contents t" if "?m c = (t, Some y)" for c t y
      using that create_failed [OF s q w]
      by (auto split: prod.splits option.splits if_splits dest!: again modify_failed [OF s q w])
    have ka: "kept a (contents s) f" if "(contents s)(q \<mapsto> c) \<subseteq>\<^sub>m f" for f c
      using that a pq by (auto simp: kept_def accepted_def map_le_def dom_def)
    show ?thesis unfolding i
    proof (rule settled [OF r _ _ s])
      fix t
      assume t: "?r = (t, None)"
      then obtain c where c: "get (w 0) p s = Inr c" by (auto split: sum.splits)
      then obtain u where u: "?m c = (u, None)" and d: "delete (w 3) p u = (t, None)"
        using t by (cases "?m c"; cases "snd (?m c)") auto
      have cp: "contents s p = Some c" by (rule get_content [OF s p c])
      have uc: "sound u" "contents u = (contents s)(q \<mapsto> c)" using m_ok [OF u] by simp_all
      have "contents u p = Some c" using uc(2) cp False by simp
      from inside_file [OF uc(1) p this] have "(if inside p x then None else contents u x) = ((contents u)(p := None)) x" for x
        using inside_self by (cases "contents u x") auto
      then show "sound t \<and> contents t = (contents s)(q := contents s p, p := None)"
        using delete_done [OF uc(1) p d] uc cp by (simp add: fun_eq_iff)
    next
      fix t y
      assume t: "?r = (t, Some y)"
      show "sound t \<and> kept a (contents s) (contents t)"
      proof (cases "get (w 0) p s")
        case (Inl x)
        then show ?thesis using t unchanged [OF s] by simp
      next
        case (Inr c)
        then consider u where "?m c = (u, None)" "delete (w 3) p u = (t, Some y)" | "?m c = (t, Some y)"
          using t by (cases "?m c"; cases "snd (?m c)") auto
        then show ?thesis
        proof cases
          case (1 u)
          then show ?thesis using m_ok [OF 1(1)] delete_failed [OF _ p 1(2)] ka by auto
        next
          case 2
          then show ?thesis using m_fail [OF 2] keptI by blast
        qed
      qed
    qed
  qed
qed

lemma read_spec:
  assumes "storeGet ops = get" and s: "sound s" and e: "executeRead ops w p s = Inr (Content c)"
  shows "contents s (accepted p) = Some c"
proof -
  obtain q where q: "normalizeRelativePath p = Some q" "get (w 0) q s = Inr c"
    using e assms(1) by (auto simp: executeRead_def split: option.splits sum.splits)
  then show ?thesis using get_content [OF s normalize_workspace_path] by (simp add: accepted_def)
qed

lemma action_spec:
  assumes ops: "storeGet ops = get" "storeCreate ops = create" "storeModify ops = modify" "storeDelete ops = delete"
      "storeTransaction ops = transaction"
    and s: "sound s" and w: "\<And>n. ready (w n) s"
    and e: "executeAction ops lower w a s = ((s', out), mutated)"
  shows "sound s' \<and>
    (case out of Inr x \<Rightarrow> contents s' = intended inside a (contents s) | Inl e \<Rightarrow> kept a (contents s) (contents s')) \<and>
    (\<forall>c. action a = ''read'' \<longrightarrow> out = Inr (Content c) \<longrightarrow> contents s (accepted (pathArgument a)) = Some c)"
proof -
  have u: "sound s \<and> kept a (contents s) (contents s)" by (rule unchanged [OF s])
  consider "action a = ''write''" | "action a = ''append''" | "action a = ''delete''" | "action a = ''move''"
    | "action a \<noteq> ''write''" "action a \<noteq> ''append''" "action a \<noteq> ''delete''" "action a \<noteq> ''move''" by blast
  then show ?thesis
  proof cases
    case 1
    then have "executeWrite ops w (pathArgument a) (contentArgument a) s = (s', out)"
      using e by (simp add: executeAction_def Let_def)
    from write_spec [OF ops(3,2,5) s w 1 this] show ?thesis using 1 by simp
  next
    case 2
    then have "executeAppend ops w (pathArgument a) (contentArgument a) s = (s', out)"
      using e by (simp add: executeAction_def Let_def)
    from append_spec [OF ops(3,2,1,5) s w 2 this] show ?thesis using 2 by simp
  next
    case 3
    then have "executeDelete ops w (pathArgument a) s = (s', out)" using e by (simp add: executeAction_def Let_def)
    from delete_spec [OF ops(4,5) s 3 this] show ?thesis using 3 by simp
  next
    case 4
    then have "executeMove ops w (fromPath a) (toPath a) s = (s', out)" using e by (simp add: executeAction_def Let_def)
    from move_spec [OF ops s w 4 this] show ?thesis using 4 by simp
  next
    case 5
    then have "s' = s" "action a = ''read'' \<Longrightarrow> out = executeRead ops w (pathArgument a) s"
      using e by (auto simp: executeAction_def Let_def split: if_splits)
    moreover have "intended inside a (contents s) = contents s" using 5 by (simp add: intended_def)
    ultimately show ?thesis using u read_spec [OF ops(1) s] by (auto split: sum.splits)
  qed
qed

end

text \<open>C23: The workspace tool does to the files of its workspace what the action says, on the file store and on the
  database. When an action succeeds, the files are those that were there, with the write, the append, the
  deletion or the move applied to them, and a read returns what is there; a deletion takes the file of that
  path, and on the file store, when the path is a directory, all files in it, on the database never
  another one. When an action fails, at whatever call and for whatever reason, nothing is lost: every
  file is still there as it was, save the target of a move. (The disk is a tree in which the temporary
  names of a write are unused, paths are unique in the table, and no other process writes meanwhile.)\<close>

theorem workspace_actions_refine:
  assumes "fsSound data sc i d" and "\<And>n. fresh_weather (w n) d" and "dbSound t"
    and "executeAction (fileStore data sc i) lower w a d = ((d', out), mutated)"
    and "executeAction (tableStore sc i) lower v a t = ((t', out'), mutated')"
  shows "fsSound data sc i d' \<and> dbSound t'
    \<and> (case out of Inr x \<Rightarrow> fsContents data sc i d' = intended insidePath a (fsContents data sc i d)
         | Inl e \<Rightarrow> kept a (fsContents data sc i d) (fsContents data sc i d'))
    \<and> (case out' of Inr x \<Rightarrow> dbContents sc i t' = intended (\<lambda>p q. q = p) a (dbContents sc i t)
         | Inl e \<Rightarrow> kept a (dbContents sc i t) (dbContents sc i t'))
    \<and> (\<forall>c. action a = ''read'' \<longrightarrow> out = Inr (Content c) \<longrightarrow> fsContents data sc i d (accepted (pathArgument a)) = Some c)
    \<and> (\<forall>c. action a = ''read'' \<longrightarrow> out' = Inr (Content c) \<longrightarrow> dbContents sc i t (accepted (pathArgument a)) = Some c)"
proof -
  note f = fs.action_spec [where ops = "fileStore data sc i", OF _ _ _ _ _ assms(1,2,4)]
  note b = db.action_spec [where ops = "tableStore sc i", OF _ _ _ _ _ assms(3) _ assms(5)]
  from f b show ?thesis by (simp add: fileStore_def tableStore_def)
qed

text \<open>A disk and a database without faults, and calls for the witnesses.\<close>

definition calmWeather :: weather where
  "calmWeather = \<lparr> fault = (\<lambda>_ _. False), ulid = ''U'', stamp = ''S'' \<rparr>"

definition calmDatabase :: db_weather where
  "calmDatabase = \<lparr> dbFails = False, clock = 0, collation = id \<rparr>"

definition callOf :: "string \<Rightarrow> string \<Rightarrow> string \<Rightarrow> string \<Rightarrow> arguments" where
  "callOf act p c i = \<lparr> action = act, pathArgument = p, fromPath = [], toPath = [], contentArgument = c,
     queryArgument = [], maxResultsArgument = 0, projectId = i \<rparr>"

lemma workspace_actions_refine_witness:
  "\<exists>d' t'. executeAction (fileStore ''/d'' ScopeUser ''u'') id (\<lambda>_. calmWeather) (callOf ''write'' ''x/../n.md'' ''hi'' []) [] =
      ((d', Inr Success), True)
    \<and> executeAction (tableStore ScopeUser ''u'') id (\<lambda>_. calmDatabase) (callOf ''write'' ''x/../n.md'' ''hi'' []) [] =
      ((t', Inr Success), True)
    \<and> fsContents ''/d'' ScopeUser ''u'' d' ''n.md'' = Some ''hi'' \<and> dbContents ScopeUser ''u'' t' ''n.md'' = Some ''hi''"
proof -
  let ?a = "callOf ''write'' ''x/../n.md'' ''hi'' []"
  let ?d = "[([''d'', ''users'', ''u'', ''workspace'', ''n.md''], FileNode ''hi''), ([''d'', ''users'', ''u'', ''workspace''], DirNode),
    ([''d'', ''users'', ''u''], DirNode), ([''d'', ''users''], DirNode), ([''d''], DirNode)]"
  let ?t = "[\<lparr> rowScope = ScopeUser, rowScopeId = ''u'', rowPath = ''n.md'', rowContent = ''hi'', rowModifiedAt = 0 \<rparr>]"
  have e: "executeAction (fileStore ''/d'' ScopeUser ''u'') id (\<lambda>_. calmWeather) ?a [] = ((?d, Inr Success), True)"
    by code_simp
  have f: "executeAction (tableStore ScopeUser ''u'') id (\<lambda>_. calmDatabase) ?a [] = ((?t, Inr Success), True)"
    by code_simp
  have "fsSound ''/d'' ScopeUser ''u'' []" by (simp add: fsSound_def tree_def normal_def)
  moreover have "fresh_weather calmWeather []" by (simp add: fresh_weather_def calmWeather_def nodeAt_def)
  moreover have "dbSound []" by (simp add: dbSound_def)
  ultimately have "fsContents ''/d'' ScopeUser ''u'' ?d = intended insidePath ?a (fsContents ''/d'' ScopeUser ''u'' [])"
    and "dbContents ScopeUser ''u'' ?t = intended (\<lambda>p q. q = p) ?a (dbContents ScopeUser ''u'' [])"
    using workspace_actions_refine [OF _ _ _ e f] by simp_all
  moreover have "intended b ?a g ''n.md'' = Some ''hi''" for b g
  proof -
    have "accepted ''x/../n.md'' = ''n.md''" by code_simp
    then show ?thesis by (simp add: intended_def callOf_def)
  qed
  ultimately have "fsContents ''/d'' ScopeUser ''u'' ?d ''n.md'' = Some ''hi'' \<and> dbContents ScopeUser ''u'' ?t ''n.md'' = Some ''hi''"
    by simp
  with e f show ?thesis by blast
qed

subsection \<open>A project identifier may name another user\<close>

lemma components_cons: "slash \<notin> set c \<Longrightarrow> components (c @ slash # p) = c # components p"
  using components_append [of c p] by (simp add: components_single)

lemma project_user_directory:
  assumes "data \<noteq> []"
  shows "workspaceDirectory data ScopeProject (''../users/'' @ u) = workspaceDirectory data ScopeUser u"
proof -
  have c: "components (''../users/'' @ u) = ''..'' # ''users'' # components u"
    using components_cons [of "''..''" "''users/'' @ u"] components_cons [of "''users''" u] by simp
  have n: "resolveStep r out ''users'' = out @ [''users'']" "resolveStep r out ''projects'' = out @ [''projects'']" for r out
    by (simp_all add: resolveStep_normal normal_def)
  have up: "resolveStep r (out @ [''projects'']) ''..'' = out" for r out by (simp add: resolveStep_def)
  show ?thesis using assms
    by (simp add: projectWorkspaceDirectory_def projectsDirectory_def userWorkspaceDirectory_def usersDirectory_def
        joinPath_eq c [simplified] n up components_single)
qed

lemma fileStore_directory:
  assumes "workspaceDirectory data sc i = workspaceDirectory data sc' i'"
  shows "fileStore data sc i = fileStore data sc' i'"
proof -
  have p: "workspaceFilePath data sc i p = workspaceFilePath data sc' i' p" for p
    using assms by (simp add: workspaceFilePath_def)
  have g: "getWorkspaceFile w data sc i p d = getWorkspaceFile w data sc' i' p d" for w p d
    by (simp add: getWorkspaceFile_def p)
  have c: "createWorkspaceFile w data sc i p x d = createWorkspaceFile w data sc' i' p x d" for w p x d
    by (simp add: createWorkspaceFile_def p)
  have m: "modifyWorkspaceFile w data sc i p f d = modifyWorkspaceFile w data sc' i' p f d" for w p f d
    unfolding modifyWorkspaceFile_def g c ..
  have "deleteWorkspaceFile w data sc i p d = deleteWorkspaceFile w data sc' i' p d" for w p d
    by (simp add: deleteWorkspaceFile_def p)
  moreover have "listWorkspaceFiles w data sc i d = listWorkspaceFiles w data sc' i' d" for w d
    by (simp add: listWorkspaceFiles_def assms)
  ultimately show ?thesis by (simp add: fileStore_def g c m)
qed

text \<open>C24: On the file store the project workspace reaches into the workspaces of users. The project identifier
  comes from the arguments of the call and is joined to the directory of the projects unchecked; with
  \<open>../users/\<close> and a user's identifier in its place, whatever the action, the tool does and returns what
  the user's own workspace tool does and returns.\<close>

theorem project_id_crosses_users:
  assumes "decode rawArguments = Some a" and "projectId a = ''../users/'' @ u" and "u \<noteq> []" and "data \<noteq> []"
  shows "fst (executeTool (fileStore data) lower w ProjectWorkspace ctx decode rawArguments d) =
    fst (executeTool (fileStore data) lower w UserWorkspace \<lparr> runnerAgent = None, contextUser = Some u \<rparr> decode rawArguments d)"
  using assms fileStore_directory [OF project_user_directory [OF assms(4), of u]]
  by (simp add: executeTool_def resolveScope_def split: prod.splits)

lemma project_id_crosses_users_witness:
  "fst (executeTool (fileStore ''/d'') id (\<lambda>_. calmWeather) ProjectWorkspace
      \<lparr> runnerAgent = None, contextUser = Some ''alice'' \<rparr> (\<lambda>_. Some (callOf ''read'' ''n.md'' [] ''../users/bob'')) []
      [([''d'', ''users'', ''bob'', ''workspace'', ''n.md''], FileNode ''private'')]) =
    ([([''d'', ''users'', ''bob'', ''workspace'', ''n.md''], FileNode ''private'')], Inr (Content ''private''))"
  by (subst project_id_crosses_users [where u = "''bob''" and a = "callOf ''read'' ''n.md'' [] ''../users/bob''"])
    (simp, simp add: callOf_def, simp, simp, code_simp)

subsection \<open>Search\<close>

lemma addLines_spec:
  "addLines m p i ls ms = (ms', b) \<Longrightarrow> x \<in> set ms' \<Longrightarrow>
   x \<in> set ms \<or> (\<exists>k<length ls. x = (p, i + k + 1, ls ! k))"
proof (induction m p i ls ms rule: addLines.induct)
  case (2 m p i l ls ms)
  show ?case
  proof (cases "length (ms @ [(p, i + 1, l)]) \<ge> m")
    case True
    then show ?thesis using 2 by (auto simp: Let_def)
  next
    case False
    then have "addLines m p (Suc i) ls (ms @ [(p, i + 1, l)]) = (ms', b)" using "2.prems" by (simp add: Let_def)
    from "2.IH" [OF refl False this "2.prems"(2)]
    consider "x \<in> set ms" | "x = (p, i + 1, l)" | k where "k < length ls" "x = (p, Suc i + k + 1, ls ! k)" by auto
    then show ?thesis
    proof cases
      case 3
      then have "Suc k < length (l # ls) \<and> x = (p, i + Suc k + 1, (l # ls) ! Suc k)" by simp
      then show ?thesis by blast
    qed auto
  qed
qed simp

lemma addResults_spec:
  "x \<in> set (addResults lower m rs ms) \<Longrightarrow>
   x \<in> set ms \<or> (\<exists>p ls k. (p, ls) \<in> set rs \<and> k < length ls \<and> x = (p, k + 1, ls ! k))"
proof (induction lower m rs ms rule: addResults.induct)
  case (2 lower m p ls rs ms)
  show ?case
  proof (cases "p = [] \<or> \<not> isSearchableFile lower p")
    case True
    then show ?thesis using 2 by auto
  next
    case False
    obtain ms' b where a: "addLines m p 0 ls ms = (ms', b)" by fastforce
    have "x \<in> set ms' \<or> (\<exists>p ls k. (p, ls) \<in> set rs \<and> k < length ls \<and> x = (p, k + 1, ls ! k))"
      using "2.IH"(2) [OF False a [symmetric]] "2.prems" False a by (cases b) auto
    then show ?thesis using addLines_spec [OF a] by (metis add_0 list.set_intros(1,2))
  qed
qed simp

text \<open>The line that a search reports is not the line of the file. The store returns the matching lines of a
  file alone, and the tool numbers them from one, so the number is the rank of the match: the third line of a note
  is reported as line 1 when it is the first that matches.\<close>

theorem search_reports_ranks:
  assumes "executeSearch ops lower w query maxResults s = Inr (Matches ms)" and "(p, n, line) \<in> set ms"
  shows "\<exists>files content. storeList ops (w 0) s = Inr files \<and> (p, content) \<in> set files \<and> 0 < n \<and>
    n \<le> length (matchedLines lower query content) \<and> line = matchedLines lower query content ! (n - 1)"
proof -
  obtain m files where f: "storeList ops (w 0) s = Inr files"
    and ms: "ms = addResults lower m (searchFiles lower query m files) []"
    using assms(1) by (auto simp: executeSearch_def Let_def split: if_splits sum.splits)
  obtain ls k where k: "(p, ls) \<in> set (searchFiles lower query m files)" "k < length ls" "n = k + 1" "line = ls ! k"
    using addResults_spec [OF assms(2) [unfolded ms]] by auto
  then obtain content where "(p, content) \<in> set files" "ls = matchedLines lower query content"
    by (auto simp: searchFiles_def dest!: in_set_takeD)
  then show ?thesis using f k by auto
qed

lemma search_reports_ranks_witness:
  "executeSearch (tableStore ScopeUser ''u'') id (\<lambda>_. calmDatabase) ''tea'' 0
      [\<lparr> rowScope = ScopeUser, rowScopeId = ''u'', rowPath = ''n.md'', rowContent = ''a\<newline>b\<newline>tea'', rowModifiedAt = 0 \<rparr>] =
    Inr (Matches [(''n.md'', 1, ''tea'')])
   \<and> scanLines ''a\<newline>b\<newline>tea'' ! 2 = ''tea''
   \<and> (\<exists>files content. (''n.md'', content) \<in> set files \<and> ''tea'' = matchedLines id ''tea'' content ! 0)"
proof -
  let ?t = "[\<lparr> rowScope = ScopeUser, rowScopeId = ''u'', rowPath = ''n.md'', rowContent = ''a\<newline>b\<newline>tea'', rowModifiedAt = 0 \<rparr>]"
  have l: "scanLines ''a\<newline>b\<newline>tea'' = [''a'', ''b'', ''tea'']" by (simp add: scanLines_def trim_suffix_def has_suffix_def)
  have i: "isSearchableFile id ''n.md''" by code_simp
  have e: "executeSearch (tableStore ScopeUser ''u'') id (\<lambda>_. calmDatabase) ''tea'' 0 ?t = Inr (Matches [(''n.md'', 1, ''tea'')])"
    using i by (simp add: executeSearch_def tableStore_def calmDatabase_def dbListWorkspaceFiles_def searchFiles_def
        matchedLines_def l contains_sub_def index_sub_code has_prefix_def)
  have "scanLines ''a\<newline>b\<newline>tea'' ! 2 = ''tea''" by (simp add: l)
  moreover have "\<exists>files content. (''n.md'', content) \<in> set files \<and> ''tea'' = matchedLines id ''tea'' content ! 0"
    using search_reports_ranks [OF e, of "''n.md''" 1 "''tea''"] by auto
  ultimately show ?thesis using e by (intro conjI)
qed

end
