(* ===== verification/TodoStores.thy ===== *)
theory TodoStores
  imports Paths FileSystem Utf8
begin

text \<open>
  Todos in the two stores: \<open>store/fsstore/filesystem_todo.go\<close> keeps one file per todo in a directory of its
  project or conversation and finds a todo again by a glob over all directories,
  \<open>store/dbstore/database_todo.go\<close> keeps a table. What the todo tools need of a store is the
  locale \<open>todo_store\<close>. Pointers that may be nil are options; the text of a YAML file is the todo itself.
\<close>

record todo =
  todoId :: string
  projectOf :: "string option"
  conversationOf :: "string option"
  todoTitle :: "string option"
  todoDescription :: "string option"
  todoStatus :: "string option"
  todoPriority :: "string option"
  todoTags :: "string list option"
  completedAt :: "nat option"
  createdAt :: "nat option"
  modifiedAt :: "nat option"

definition statusOpen :: string where "statusOpen = ''open''"
definition statusDone :: string where "statusDone = ''done''"
definition priorityMedium :: string where "priorityMedium = ''medium''"

definition getTitle :: "todo \<Rightarrow> string" where
  "getTitle t = (case todoTitle t of None \<Rightarrow> [] | Some s \<Rightarrow> s)"

definition getStatus :: "todo \<Rightarrow> string" where
  "getStatus t = (case todoStatus t of None \<Rightarrow> [] | Some s \<Rightarrow> s)"

definition getPriority :: "todo \<Rightarrow> string" where
  "getPriority t = (case todoPriority t of None \<Rightarrow> [] | Some s \<Rightarrow> s)"

definition getTags :: "todo \<Rightarrow> string list" where
  "getTags t = (case todoTags t of None \<Rightarrow> [] | Some s \<Rightarrow> s)"

text \<open>
  What a call of the store meets: an error of the disk or the database, a fresh identifier, the clock (in the
  microseconds a column of the database keeps). \<open>os.WriteFile\<close>
  truncates the file first, so a write that fails may leave a part of the text: \<open>tornWrite\<close> is what the part
  reads as and whether it can be read at all, or None when the file was not opened.
\<close>

record todo_weather =
  storeFails :: bool
  tornWrite :: "(todo \<times> bool) option"
  newTodoId :: string
  todoClock :: nat

text \<open>The fields that both stores fill in when a todo is created.\<close>

definition completeTodo :: "todo_weather \<Rightarrow> todo \<Rightarrow> todo" where
  "completeTodo w t = t\<lparr> todoId := (if todoId t = [] then newTodoId w else todoId t),
     createdAt := Some (todoClock w), modifiedAt := Some (todoClock w),
     todoStatus := (case todoStatus t of None \<Rightarrow> Some statusOpen | s \<Rightarrow> s),
     todoPriority := (case todoPriority t of None \<Rightarrow> Some priorityMedium | p \<Rightarrow> p),
     todoTags := (case todoTags t of None \<Rightarrow> Some [] | g \<Rightarrow> g) \<rparr>"

subsection \<open>The file store\<close>

datatype place = ProjectPlace string | ConversationPlace string string string

record todo_file =
  filePlace :: place
  fileName :: string
  fileTodo :: todo
  fileReadable :: bool

text \<open>
  \<open>glob pattern name\<close> is the matching of \<open>path/filepath\<close>, which the models do not look into; \<open>conversations\<close> gives the
  user and the agent of a conversation that exists.
\<close>

fun placeText :: "place \<Rightarrow> string list" where
  "placeText (ProjectPlace p) = [''projects'', p]"
| "placeText (ConversationPlace u a c) = [''users'', u, a, c]"

definition isProjectPlace :: "place \<Rightarrow> bool" where
  "isProjectPlace p = (case p of ProjectPlace _ \<Rightarrow> True | _ \<Rightarrow> False)"

definition findTodoFilePath :: "(string \<Rightarrow> string \<Rightarrow> bool) \<Rightarrow> string \<Rightarrow> todo_file list \<Rightarrow> (place \<times> string) option" where
  "findTodoFilePath glob i s =
     (let keys = map (\<lambda>f. (filePlace f, fileName f))
            (sort_key (\<lambda>f. placeText (filePlace f) @ [fileName f]) (filter (\<lambda>f. glob i (fileName f)) s)) in
      case filter (\<lambda>k. isProjectPlace (fst k)) keys of
        k # _ \<Rightarrow> Some k
      | [] \<Rightarrow> (case filter (\<lambda>k. \<not> isProjectPlace (fst k)) keys of k # _ \<Rightarrow> Some k | [] \<Rightarrow> None))"

definition resolveTodoFilePath :: "(string \<Rightarrow> (string \<times> string) option) \<Rightarrow> todo \<Rightarrow> store_error + (place \<times> string)" where
  "resolveTodoFilePath conversations t =
     (case projectOf t of
        Some (c # p) \<Rightarrow> Inr (ProjectPlace (c # p), todoId t)
      | _ \<Rightarrow>
          (case conversationOf t of
             Some (c # i) \<Rightarrow>
               (case conversations (c # i) of
                  None \<Rightarrow> Inl NotFound
                | Some (user, agent) \<Rightarrow> Inr (ConversationPlace user agent (c # i), todoId t))
           | _ \<Rightarrow> Inl InvalidOptions))"

definition putTodoFile :: "place \<times> string \<Rightarrow> todo \<Rightarrow> bool \<Rightarrow> todo_file list \<Rightarrow> todo_file list" where
  "putTodoFile k t readable s =
     \<lparr> filePlace = fst k, fileName = snd k, fileTodo = t, fileReadable = readable \<rparr> # filter (\<lambda>f. (filePlace f, fileName f) \<noteq> k) s"

definition writeTodoFile :: "todo_weather \<Rightarrow> place \<times> string \<Rightarrow> todo \<Rightarrow> todo_file list \<Rightarrow> todo_file list \<times> bool" where
  "writeTodoFile w k t s =
     (if storeFails w
      then (case tornWrite w of None \<Rightarrow> (s, False) | Some (part, readable) \<Rightarrow> (putTodoFile k part readable s, False))
      else (putTodoFile k t True s, True))"

definition fsCreateTodo ::
  "(string \<Rightarrow> (string \<times> string) option) \<Rightarrow> todo_weather \<Rightarrow> todo \<Rightarrow> todo_file list \<Rightarrow> todo_file list \<times> (store_error + todo)" where
  "fsCreateTodo conversations w t s =
     (let result = completeTodo w t in
      case resolveTodoFilePath conversations result of
        Inl e \<Rightarrow> (s, Inl e)
      | Inr k \<Rightarrow> (case writeTodoFile w k result s of (s, ok) \<Rightarrow> (s, if ok then Inr result else Inl OsError)))"

definition readTodoFile :: "place \<times> string \<Rightarrow> todo_file list \<Rightarrow> store_error + todo" where
  "readTodoFile k s =
     (case List.find (\<lambda>f. (filePlace f, fileName f) = k) s of
        None \<Rightarrow> Inl NotFound
      | Some f \<Rightarrow> if fileReadable f then Inr (fileTodo f) else Inl OsError)"

definition fsModifyTodo ::
  "(string \<Rightarrow> string \<Rightarrow> bool) \<Rightarrow> todo_weather \<Rightarrow> string \<Rightarrow> (todo \<Rightarrow> todo) \<Rightarrow> todo_file list \<Rightarrow> todo_file list \<times> (store_error + todo)" where
  "fsModifyTodo glob w i modifier s =
     (case findTodoFilePath glob i s of
        None \<Rightarrow> (s, Inl NotFound)
      | Some k \<Rightarrow>
          (case readTodoFile k s of
             Inl e \<Rightarrow> (s, Inl e)
           | Inr t \<Rightarrow>
               (let t' = (modifier t)\<lparr> modifiedAt := Some (todoClock w) \<rparr> in
                case writeTodoFile w k t' s of (s, ok) \<Rightarrow> (s, if ok then Inr t' else Inl OsError))))"

definition fsDeleteTodo ::
  "(string \<Rightarrow> string \<Rightarrow> bool) \<Rightarrow> todo_weather \<Rightarrow> string \<Rightarrow> todo_file list \<Rightarrow> todo_file list \<times> store_error option" where
  "fsDeleteTodo glob w i s =
     (case findTodoFilePath glob i s of
        None \<Rightarrow> (s, Some NotFound)
      | Some k \<Rightarrow>
          if storeFails w then (s, Some OsError) else (filter (\<lambda>f. (filePlace f, fileName f) \<noteq> k) s, None))"

text \<open>
  \<open>sortTodos\<close>: open ones first, then by priority, then the newest first. \<open>sort.Slice\<close> inserts a short slice from the
  left, as written here; how it orders ties in a long one is left open by its documentation.
\<close>

definition priorityOrder :: "string \<Rightarrow> nat" where
  "priorityOrder p = (if p = ''medium'' then 1 else if p = ''low'' then 2 else 0)"

definition lessTodo :: "todo \<Rightarrow> todo \<Rightarrow> bool" where
  "lessTodo a b =
     (if getStatus a \<noteq> getStatus b then getStatus a = statusOpen
      else if priorityOrder (getPriority a) \<noteq> priorityOrder (getPriority b)
        then priorityOrder (getPriority a) < priorityOrder (getPriority b)
      else (case (createdAt a, createdAt b) of
              (Some x, Some y) \<Rightarrow> x > y
            | _ \<Rightarrow> todoId a > todoId b))"

fun insertTodo :: "todo \<Rightarrow> todo list \<Rightarrow> todo list" where
  "insertTodo x [] = [x]"
| "insertTodo x (y # ys) = (if lessTodo x y then y # insertTodo x ys else x # y # ys)"

definition sortTodos :: "todo list \<Rightarrow> todo list" where
  "sortTodos xs = rev (foldl (\<lambda>acc x. insertTodo x acc) [] xs)"

definition fsListTodos ::
  "(string \<Rightarrow> (string \<times> string) option) \<Rightarrow> todo_weather \<Rightarrow> string option \<Rightarrow> string option \<Rightarrow> todo_file list \<Rightarrow> store_error + todo list" where
  "fsListTodos conversations w project conversation s =
     (let inDirectory = (\<lambda>p. if storeFails w then Inl OsError
            else Inr (sortTodos (map fileTodo (sort_key fileName (filter (\<lambda>f. filePlace f = p \<and> fileReadable f) s))))) in
      case project of
        Some p \<Rightarrow> inDirectory (ProjectPlace p)
      | None \<Rightarrow>
          (case conversation of
             None \<Rightarrow> Inl InvalidOptions
           | Some c \<Rightarrow>
               (case conversations c of
                  None \<Rightarrow> Inr []
                | Some (user, agent) \<Rightarrow> inDirectory (ConversationPlace user agent c))))"

subsection \<open>The database store\<close>

text \<open>
  A row holds the title, the status, the priority and the tags by value: nil becomes the empty one. A statement that
  fails aborts the transaction: until its end every statement fails, and committing it rolls it back and
  reports an error. A value that is longer than its column (in characters) makes the statement fail.
\<close>

record todo_table =
  rows :: "todo list"
  aborted :: bool

definition fitsUpdate :: "todo \<Rightarrow> bool" where
  "fitsUpdate t \<longleftrightarrow> length (runes (getTitle t)) \<le> 512 \<and> length (runes (getStatus t)) \<le> 16 \<and>
     length (runes (getPriority t)) \<le> 16"

definition fitsColumns :: "todo \<Rightarrow> bool" where
  "fitsColumns t \<longleftrightarrow> fitsUpdate t \<and> length (runes (todoId t)) \<le> 32 \<and>
     (\<forall>k\<in>set_option (projectOf t) \<union> set_option (conversationOf t). length (runes k) \<le> 32)"

definition abortTransaction :: "todo_table \<Rightarrow> todo_table" where
  "abortTransaction s = s\<lparr> aborted := True \<rparr>"

definition throughRecord :: "todo \<Rightarrow> todo" where
  "throughRecord t = t\<lparr> todoTitle := Some (getTitle t), todoStatus := Some (getStatus t),
     todoPriority := Some (getPriority t), todoTags := Some (getTags t) \<rparr>"

definition dbCompleteTodo :: "todo_weather \<Rightarrow> todo \<Rightarrow> todo" where
  "dbCompleteTodo w t =
     (let r = throughRecord t in
      r\<lparr> todoId := (if todoId r = [] then newTodoId w else todoId r),
        createdAt := Some (todoClock w), modifiedAt := Some (todoClock w),
        todoStatus := (if getStatus r = [] then Some statusOpen else todoStatus r),
        todoPriority := (if getPriority r = [] then Some priorityMedium else todoPriority r) \<rparr>)"

definition dbCreateTodo :: "todo_weather \<Rightarrow> todo \<Rightarrow> todo_table \<Rightarrow> todo_table \<times> (store_error + todo)" where
  "dbCreateTodo w t s =
     (let r = dbCompleteTodo w t in
      if aborted s then (s, Inl OsError)
      else if storeFails w \<or> \<not> fitsColumns r then (abortTransaction s, Inl OsError)
      else if \<exists>x\<in>set (rows s). todoId x = todoId r then (abortTransaction s, Inl AlreadyExists)
      else (s\<lparr> rows := rows s @ [r] \<rparr>, Inr r))"

definition dbGetTodo :: "string \<Rightarrow> todo list \<Rightarrow> todo option" where
  "dbGetTodo i s = List.find (\<lambda>t. todoId t = i) s"

text \<open>The update writes every column but the keys; the row keeps its identifier and where it belongs.\<close>

definition updatedColumns :: "todo \<Rightarrow> todo_weather \<Rightarrow> todo \<Rightarrow> todo" where
  "updatedColumns t' w x = x\<lparr> todoTitle := Some (getTitle t'), todoDescription := todoDescription t',
     todoStatus := Some (getStatus t'), todoPriority := Some (getPriority t'), todoTags := Some (getTags t'),
     completedAt := completedAt t',
     modifiedAt := Some (todoClock w) \<rparr>"

definition dbModifyTodo ::
  "todo_weather \<Rightarrow> string \<Rightarrow> (todo \<Rightarrow> todo) \<Rightarrow> todo_table \<Rightarrow> todo_table \<times> (store_error + todo)" where
  "dbModifyTodo w i modifier s =
     (if aborted s then (s, Inl OsError)
      else if storeFails w then (abortTransaction s, Inl OsError)
      else case dbGetTodo i (rows s) of
          None \<Rightarrow> (s, Inl NotFound)
        | Some t \<Rightarrow>
            if \<not> fitsUpdate (modifier t) then (abortTransaction s, Inl OsError)
            else
              (let s' = map (\<lambda>x. if todoId x = i then updatedColumns (modifier t) w x else x) (rows s) in
               (s\<lparr> rows := s' \<rparr>, case dbGetTodo i s' of None \<Rightarrow> Inl NotFound | Some x \<Rightarrow> Inr x)))"

definition dbDeleteTodo :: "todo_weather \<Rightarrow> string \<Rightarrow> todo_table \<Rightarrow> todo_table \<times> store_error option" where
  "dbDeleteTodo w i s =
     (if aborted s then (s, Some OsError)
      else if storeFails w then (abortTransaction s, Some OsError)
      else if \<not> (\<exists>x\<in>set (rows s). todoId x = i) then (s, Some NotFound)
      else (s\<lparr> rows := filter (\<lambda>x. todoId x \<noteq> i) (rows s) \<rparr>, None))"

definition statusRank :: "todo \<Rightarrow> nat" where
  "statusRank t = (if getStatus t = statusOpen then 0 else 1)"

definition priorityRank :: "todo \<Rightarrow> nat" where
  "priorityRank t = (if getPriority t = ''high'' then 0 else if getPriority t = ''medium'' then 1 else 2)"

definition dbListTodos :: "todo_weather \<Rightarrow> string option \<Rightarrow> string option \<Rightarrow> todo_table \<Rightarrow> store_error + todo list" where
  "dbListTodos w project conversation s =
     (if project = None \<and> conversation = None then Inl InvalidOptions
      else if aborted s \<or> storeFails w then Inl OsError
      else Inr (sort_key statusRank (sort_key priorityRank (sort_key (\<lambda>t. case createdAt t of None \<Rightarrow> 0 | Some c \<Rightarrow> - int c)
        (filter (\<lambda>t. (project \<noteq> None \<longrightarrow> projectOf t = project) \<and> (conversation \<noteq> None \<longrightarrow> conversationOf t = conversation)) (rows s))))))"

text \<open>A transaction of the database either commits or leaves the table as it was; the file store has no way back.\<close>

definition dbTodoTransaction ::
  "todo_weather \<Rightarrow> todo_table \<Rightarrow> todo_table \<times> store_error option \<Rightarrow> todo_table \<times> store_error option" where
  "dbTodoTransaction w s r =
     (case snd r of
        Some e \<Rightarrow> (s, Some e)
      | None \<Rightarrow> if aborted (fst r) \<or> storeFails w then (s, Some OsError) else r)"

definition fsTodoTransaction :: "todo_weather \<Rightarrow> 's \<Rightarrow> 's \<times> store_error option \<Rightarrow> 's \<times> store_error option" where
  "fsTodoTransaction w s r = r"

subsection \<open>What the todo tools rely on\<close>

definition filled :: "todo \<Rightarrow> bool" where
  "filled t \<longleftrightarrow> todoTitle t \<noteq> None \<and> todoStatus t \<noteq> None \<and> getStatus t \<noteq> [] \<and>
     todoPriority t \<noteq> None \<and> getPriority t \<noteq> [] \<and> todoTags t \<noteq> None"

definition keeps_place :: "(todo \<Rightarrow> todo) \<Rightarrow> bool" where
  "keeps_place f \<longleftrightarrow> (\<forall>t. todoId (f t) = todoId t \<and> conversationOf (f t) = conversationOf t \<and> projectOf (f t) = projectOf t)"

definition agree :: "todo \<Rightarrow> todo \<Rightarrow> bool" where
  "agree a b \<longleftrightarrow> getTitle a = getTitle b \<and> todoDescription a = todoDescription b \<and> getStatus a = getStatus b \<and>
     getPriority a = getPriority b \<and> getTags a = getTags b \<and> completedAt a = completedAt b"

definition same_place :: "todo \<Rightarrow> todo \<Rightarrow> bool" where
  "same_place a b \<longleftrightarrow> todoId a = todoId b \<and> conversationOf a = conversationOf b \<and> projectOf a = projectOf b"

locale todo_store =
  fixes create :: "todo_weather \<Rightarrow> todo \<Rightarrow> 's \<Rightarrow> 's \<times> (store_error + todo)"
    and modify :: "todo_weather \<Rightarrow> string \<Rightarrow> (todo \<Rightarrow> todo) \<Rightarrow> 's \<Rightarrow> 's \<times> (store_error + todo)"
    and delete :: "todo_weather \<Rightarrow> string \<Rightarrow> 's \<Rightarrow> 's \<times> store_error option"
    and listing :: "todo_weather \<Rightarrow> string option \<Rightarrow> string option \<Rightarrow> 's \<Rightarrow> store_error + todo list"
    and transaction :: "todo_weather \<Rightarrow> 's \<Rightarrow> 's \<times> store_error option \<Rightarrow> 's \<times> store_error option"
    and find :: "'s \<Rightarrow> string \<Rightarrow> todo option"
    and sound :: "'s \<Rightarrow> bool"
    and named :: "string \<Rightarrow> bool"
    and home :: "todo \<Rightarrow> bool"
    and room :: "todo \<Rightarrow> bool"
    and working :: "'s \<Rightarrow> bool"
    and steady :: "todo_weather \<Rightarrow> bool"
  assumes find_id: "sound s \<Longrightarrow> find s i = Some t \<Longrightarrow> todoId t = i"
    and create_done: "sound s \<Longrightarrow> filled t \<Longrightarrow> find s (todoId (completeTodo w t)) = None \<Longrightarrow> create w t s = (s', Inr t') \<Longrightarrow>
      sound s' \<and> t' = completeTodo w t \<and> find s' = (find s)(todoId t' \<mapsto> t')"
    and create_known: "sound s \<Longrightarrow> working s \<Longrightarrow> filled t \<Longrightarrow> find s (todoId (completeTodo w t)) = None \<Longrightarrow>
      home (completeTodo w t) \<Longrightarrow> \<not> storeFails w \<Longrightarrow> \<exists>s' t'. create w t s = (s', Inr t')"
    and create_failed: "sound s \<Longrightarrow> steady w \<Longrightarrow> create w t s = (s', Inl e) \<Longrightarrow> sound s' \<and> find s' = find s"
    and create_working: "create w t s = (s', x) \<Longrightarrow> working s' \<Longrightarrow> working s"
    and modify_done: "sound s \<Longrightarrow> keeps_place f \<Longrightarrow> modify w i f s = (s', Inr t') \<Longrightarrow>
      sound s' \<and> (\<exists>j t. find s j = Some t \<and> (named i \<longrightarrow> j = i) \<and> find s' = (find s)(j \<mapsto> t')
        \<and> agree t' (f t) \<and> same_place t' t)"
    and modify_failed: "sound s \<Longrightarrow> steady w \<Longrightarrow> modify w i f s = (s', Inl e) \<Longrightarrow> sound s' \<and> find s' = find s"
    and modify_working: "modify w i f s = (s', y) \<Longrightarrow> working s' \<Longrightarrow> working s"
    and modify_known: "sound s \<Longrightarrow> working s \<Longrightarrow> named i \<Longrightarrow> find s i = Some t \<Longrightarrow> room (f t) \<Longrightarrow>
      \<not> storeFails w \<Longrightarrow> \<exists>s' t'. modify w i f s = (s', Inr t')"
    and delete_done: "sound s \<Longrightarrow> delete w i s = (s', None) \<Longrightarrow>
      sound s' \<and> (\<exists>j. find s j \<noteq> None \<and> (named i \<longrightarrow> j = i) \<and> find s' = (find s)(j := None))"
    and delete_failed: "sound s \<Longrightarrow> delete w i s = (s', Some e) \<Longrightarrow> sound s' \<and> find s' = find s"
    and delete_working: "delete w i s = (s', z) \<Longrightarrow> working s' \<Longrightarrow> working s"
    and delete_known: "sound s \<Longrightarrow> working s \<Longrightarrow> named i \<Longrightarrow> find s i \<noteq> None \<Longrightarrow> \<not> storeFails w \<Longrightarrow>
      \<exists>s'. delete w i s = (s', None)"
    and listing_stored: "sound s \<Longrightarrow> listing w p c s = Inr ts \<Longrightarrow> t \<in> set ts \<Longrightarrow> find s (todoId t) = Some t"
    and transaction_done: "working s \<Longrightarrow> transaction w s r = (s', None) \<Longrightarrow> r = (s', None) \<and> working s'"
    and transaction_failed: "working s \<Longrightarrow> transaction w s r = (s', Some e) \<Longrightarrow> (s' = s \<or> r = (s', Some e)) \<and> working s'"
    and transaction_known: "\<not> storeFails w \<Longrightarrow> working (fst r) \<Longrightarrow> snd r = None \<Longrightarrow> transaction w s r = r"

subsection \<open>The file store keeps the contract\<close>

definition fsTodos :: "todo_file list \<Rightarrow> string \<Rightarrow> todo option" where
  "fsTodos s = map_of (map (\<lambda>f. (fileName f, fileTodo f)) s)"

definition fsTodosSound :: "todo_file list \<Rightarrow> bool" where
  "fsTodosSound s \<longleftrightarrow> distinct (map fileName s) \<and> (\<forall>f\<in>set s. todoId (fileTodo f) = fileName f \<and> fileReadable f)"

definition literal :: "(string \<Rightarrow> string \<Rightarrow> bool) \<Rightarrow> string \<Rightarrow> bool" where
  "literal glob i \<longleftrightarrow> (\<forall>n. glob i n \<longleftrightarrow> n = i)"

lemma fsTodos_member: "distinct (map fileName s) \<Longrightarrow> f \<in> set s \<Longrightarrow> fsTodos s (fileName f) = Some (fileTodo f)"
  by (auto simp: fsTodos_def comp_def intro!: map_of_is_SomeI)

lemma fsTodos_SomeD: "fsTodos s i = Some t \<Longrightarrow> \<exists>f\<in>set s. fileName f = i \<and> fileTodo f = t"
  by (auto simp: fsTodos_def dest!: map_of_SomeD)

lemma fsTodos_filter:
  "(\<And>f. f \<in> set s \<Longrightarrow> fileName f = i \<Longrightarrow> P f) \<Longrightarrow> fsTodos (filter P s) i = fsTodos s i"
  by (induction s) (auto simp: fsTodos_def)

lemma fsTodos_filter_out:
  "distinct (map fileName s) \<Longrightarrow> f \<in> set s \<Longrightarrow>
   fsTodos (filter (\<lambda>g. (filePlace g, fileName g) \<noteq> (filePlace f, fileName f)) s) = (fsTodos s)(fileName f := None)"
proof (rule ext, goal_cases)
  case (1 i)
  show ?case
  proof (cases "i = fileName f")
    case True
    have "fsTodos (filter (\<lambda>g. (filePlace g, fileName g) \<noteq> (filePlace f, fileName f)) s) i = None"
    proof (rule ccontr)
      assume "\<not> ?thesis"
      then obtain y where "fsTodos (filter (\<lambda>g. (filePlace g, fileName g) \<noteq> (filePlace f, fileName f)) s) i = Some y" by blast
      from fsTodos_SomeD [OF this]
      obtain g where "g \<in> set s" "fileName g = i" "(filePlace g, fileName g) \<noteq> (filePlace f, fileName f)" by auto
      then show False using 1 True by (metis inj_onD distinct_map)
    qed
    then show ?thesis using True by simp
  next
    case False
    then show ?thesis using 1 by (simp add: fsTodos_filter)
  qed
qed

lemma distinct_fileName_filter: "distinct (map fileName s) \<Longrightarrow> distinct (map fileName (filter P s))"
  by (induction s) auto

lemma putTodoFile_spec:
  assumes "fsTodosSound s" "todoId t = snd k" "\<And>g. g \<in> set s \<Longrightarrow> fileName g = snd k \<Longrightarrow> filePlace g = fst k"
  shows "fsTodosSound (putTodoFile k t True s)" "fsTodos (putTodoFile k t True s) = (fsTodos s)(snd k \<mapsto> t)"
proof -
  let ?r = "filter (\<lambda>f. (filePlace f, fileName f) \<noteq> k) s"
  have "snd k \<notin> fileName ` set ?r" using assms(3) by (cases k) auto
  then show "fsTodosSound (putTodoFile k t True s)"
    using assms(1,2) distinct_fileName_filter [of s] by (auto simp: fsTodosSound_def putTodoFile_def)
  show "fsTodos (putTodoFile k t True s) = (fsTodos s)(snd k \<mapsto> t)"
  proof (rule ext)
    fix i
    have "i \<noteq> snd k \<Longrightarrow> fsTodos ?r i = fsTodos s i" by (rule fsTodos_filter) auto
    then show "fsTodos (putTodoFile k t True s) i = ((fsTodos s)(snd k \<mapsto> t)) i"
      by (cases "i = snd k") (auto simp: putTodoFile_def fsTodos_def)
  qed
qed

lemma first_of_two_filters:
  "(case filter P xs of k # _ \<Rightarrow> Some k | [] \<Rightarrow> (case filter (\<lambda>k. \<not> P k) xs of k # _ \<Rightarrow> Some k | [] \<Rightarrow> None)) = r \<Longrightarrow>
   (case r of Some k \<Rightarrow> k \<in> set xs | None \<Rightarrow> xs = [])"
  by (induction xs arbitrary: r) (auto split: list.splits option.splits if_splits dest: filter_eq_ConsD)

lemma findTodoFilePath_some:
  assumes "findTodoFilePath glob i s = Some k"
  shows "\<exists>f\<in>set s. k = (filePlace f, fileName f) \<and> glob i (fileName f)"
  using first_of_two_filters [OF assms [unfolded findTodoFilePath_def Let_def]] by auto

lemma findTodoFilePath_none:
  assumes "findTodoFilePath glob i s = None" "f \<in> set s"
  shows "\<not> glob i (fileName f)"
proof -
  have "sort_key (\<lambda>f. placeText (filePlace f) @ [fileName f]) (filter (\<lambda>f. glob i (fileName f)) s) = []"
    using first_of_two_filters [OF assms(1) [unfolded findTodoFilePath_def Let_def]] by simp
  then have "set (filter (\<lambda>f. glob i (fileName f)) s) = {}" by (metis set_empty set_sort)
  then show ?thesis using assms(2) by auto
qed

lemma readTodoFile_member:
  assumes "distinct (map fileName s)" "f \<in> set s" "fileReadable f"
  shows "readTodoFile (filePlace f, fileName f) s = Inr (fileTodo f)"
proof -
  have "\<exists>g. List.find (\<lambda>g. (filePlace g, fileName g) = (filePlace f, fileName f)) s = Some g"
    using assms(2) by (metis (mono_tags, lifting) find_None_iff not_Some_eq)
  then obtain g where g: "List.find (\<lambda>g. (filePlace g, fileName g) = (filePlace f, fileName f)) s = Some g" by blast
  then have "g \<in> set s" "fileName g = fileName f" by (auto simp: find_Some_iff)
  then have "g = f" using assms(1,2) by (metis inj_onD distinct_map)
  then show ?thesis using g assms(3) by (simp add: readTodoFile_def)
qed

lemma place_of_name:
  "distinct (map fileName s) \<Longrightarrow> f \<in> set s \<Longrightarrow> g \<in> set s \<Longrightarrow> fileName g = fileName f \<Longrightarrow> filePlace g = filePlace f"
  by (metis inj_onD distinct_map)

lemma set_insertTodo [simp]: "set (insertTodo x ys) = insert x (set ys)"
  by (induction ys) auto

lemma set_sortTodos [simp]: "set (sortTodos xs) = set xs"
proof -
  have "set (foldl (\<lambda>acc x. insertTodo x acc) acc xs) = set acc \<union> set xs" for acc
    by (induction xs arbitrary: acc) auto
  then show ?thesis by (simp add: sortTodos_def)
qed


lemma writeTodoFile_cases:
  "writeTodoFile w k t s = (s', ok) \<Longrightarrow> ok \<Longrightarrow> s' = putTodoFile k t True s"
  "writeTodoFile w k t s = (s', ok) \<Longrightarrow> \<not> ok \<Longrightarrow> tornWrite w = None \<Longrightarrow> s' = s"
  "\<not> storeFails w \<Longrightarrow> writeTodoFile w k t s = (putTodoFile k t True s, True)"
  by (auto simp: writeTodoFile_def split: if_splits option.splits)

lemma fsCreateTodo_done:
  assumes "fsTodosSound s" "filled t" "fsTodos s (todoId (completeTodo w t)) = None"
    "fsCreateTodo conversations w t s = (s', Inr t')"
  shows "fsTodosSound s' \<and> t' = completeTodo w t \<and> fsTodos s' = (fsTodos s)(todoId t' \<mapsto> t')"
proof -
  note e = assms(4) [unfolded fsCreateTodo_def Let_def]
  obtain k where k: "resolveTodoFilePath conversations (completeTodo w t) = Inr k"
    using e by (cases "resolveTodoFilePath conversations (completeTodo w t)") simp_all
  obtain u ok where u: "writeTodoFile w k (completeTodo w t) s = (u, ok)" by fastforce
  then have r: "s' = putTodoFile k (completeTodo w t) True s" "t' = completeTodo w t"
    using e k writeTodoFile_cases(1) [OF u] by (simp_all split: if_splits)
  have name: "snd k = todoId (completeTodo w t)"
    using k by (auto simp: resolveTodoFilePath_def split: option.splits list.splits)
  have d: "distinct (map fileName s)" using assms(1) by (simp add: fsTodosSound_def)
  have "g \<in> set s \<Longrightarrow> fileName g = snd k \<Longrightarrow> filePlace g = fst k" for g
    using fsTodos_member [OF d, of g] assms(3) name by simp
  then show ?thesis using putTodoFile_spec [OF assms(1), of "completeTodo w t" k] by (simp add: r name)
qed

definition fsHome :: "(string \<Rightarrow> (string \<times> string) option) \<Rightarrow> todo \<Rightarrow> bool" where
  "fsHome conversations t \<longleftrightarrow>
     (case projectOf t of
        Some (_ # _) \<Rightarrow> True
      | _ \<Rightarrow> (case conversationOf t of Some (c # i) \<Rightarrow> conversations (c # i) \<noteq> None | _ \<Rightarrow> False))"

lemma fsHome_resolves: "fsHome conversations (completeTodo w t) \<Longrightarrow> \<exists>k. resolveTodoFilePath conversations (completeTodo w t) = Inr k"
  by (auto simp: fsHome_def resolveTodoFilePath_def completeTodo_def split: option.splits list.splits)

lemma fsModifyTodo_done:
  assumes "fsTodosSound s" "keeps_place f" "fsModifyTodo glob w i f s = (s', Inr t')"
  shows "fsTodosSound s' \<and> (\<exists>j t. fsTodos s j = Some t \<and> (literal glob i \<longrightarrow> j = i) \<and> fsTodos s' = (fsTodos s)(j \<mapsto> t')
    \<and> agree t' (f t) \<and> same_place t' t)"
proof -
  obtain k t u ok where k: "findTodoFilePath glob i s = Some k" "readTodoFile k s = Inr t"
    "t' = (f t)\<lparr> modifiedAt := Some (todoClock w) \<rparr>" and w: "writeTodoFile w k t' s = (u, ok)" "ok" "s' = u"
    using assms(3) by (auto simp: fsModifyTodo_def Let_def split: option.splits sum.splits prod.splits if_splits)
  have s': "s' = putTodoFile k t' True s" using writeTodoFile_cases(1) [OF w(1,2)] w(3) by simp
  obtain x where x: "x \<in> set s" "k = (filePlace x, fileName x)" "glob i (fileName x)"
    using findTodoFilePath_some [OF k(1)] by auto
  have d: "distinct (map fileName s)" using assms(1) by (simp add: fsTodosSound_def)
  have "fileReadable x" using assms(1) x(1) by (simp add: fsTodosSound_def)
  then have t: "t = fileTodo x" using readTodoFile_member [OF d x(1)] k(2) x(2) by simp
  have place: "same_place t' t"
    using assms(2) by (simp add: k(3) keeps_place_def same_place_def)
  have id: "todoId t' = snd k"
    using assms(1) x place by (simp add: t same_place_def fsTodosSound_def)
  have "g \<in> set s \<Longrightarrow> fileName g = snd k \<Longrightarrow> filePlace g = fst k" for g
    using place_of_name [OF d x(1)] x(2) by simp
  note spec = putTodoFile_spec [OF assms(1) id this]
  have "fsTodos s (snd k) = Some t" using fsTodos_member [OF d x(1)] x(2) t by simp
  moreover have "literal glob i \<longrightarrow> snd k = i" using x(2,3) by (metis literal_def snd_conv)
  moreover have "agree t' (f t)"
    by (simp add: k(3) agree_def getTitle_def getStatus_def getPriority_def getTags_def)
  ultimately show ?thesis using spec s' place by blast
qed

lemma fs_find_literal:
  assumes "fsTodosSound s" "literal glob i"
  shows "findTodoFilePath glob i s = None \<longleftrightarrow> fsTodos s i = None"
    "findTodoFilePath glob i s = Some k \<Longrightarrow> \<exists>t. readTodoFile k s = Inr t"
proof -
  have d: "distinct (map fileName s)" using assms(1) by (simp add: fsTodosSound_def)
  have glob: "glob i n \<longleftrightarrow> n = i" for n using assms(2) by (simp add: literal_def)
  show "findTodoFilePath glob i s = None \<longleftrightarrow> fsTodos s i = None"
  proof
    assume none: "findTodoFilePath glob i s = None"
    show "fsTodos s i = None"
    proof (rule ccontr)
      assume "fsTodos s i \<noteq> None"
      then obtain f where "f \<in> set s" "fileName f = i" using fsTodos_SomeD by blast
      then show False using findTodoFilePath_none [OF none, of f] glob by simp
    qed
  next
    assume none: "fsTodos s i = None"
    show "findTodoFilePath glob i s = None"
    proof (rule ccontr)
      assume "findTodoFilePath glob i s \<noteq> None"
      then obtain k where "findTodoFilePath glob i s = Some k" by blast
      from findTodoFilePath_some [OF this] obtain f where "f \<in> set s" "fileName f = i" using glob by auto
      then show False using fsTodos_member [OF d, of f] none by simp
    qed
  qed
  assume "findTodoFilePath glob i s = Some k"
  then show "\<exists>t. readTodoFile k s = Inr t"
    using findTodoFilePath_some readTodoFile_member [OF d] assms(1) unfolding fsTodosSound_def by blast
qed

lemma fsDeleteTodo_done:
  assumes "fsTodosSound s" "fsDeleteTodo glob w i s = (s', None)"
  shows "fsTodosSound s' \<and> (\<exists>j. fsTodos s j \<noteq> None \<and> (literal glob i \<longrightarrow> j = i) \<and> fsTodos s' = (fsTodos s)(j := None))"
proof -
  obtain k where k: "findTodoFilePath glob i s = Some k" "s' = filter (\<lambda>f. (filePlace f, fileName f) \<noteq> k) s"
    using assms(2) by (auto simp: fsDeleteTodo_def split: option.splits if_splits)
  obtain x where x: "x \<in> set s" "k = (filePlace x, fileName x)" "glob i (fileName x)"
    using findTodoFilePath_some [OF k(1)] by auto
  have d: "distinct (map fileName s)" using assms(1) by (simp add: fsTodosSound_def)
  have "fsTodosSound s'"
    using assms(1) distinct_fileName_filter [OF d] by (simp add: k(2) fsTodosSound_def)
  moreover have "fsTodos s' = (fsTodos s)(snd k := None)"
    using fsTodos_filter_out [OF d x(1)] by (simp add: k(2) x(2))
  moreover have "fsTodos s (snd k) \<noteq> None" using fsTodos_member [OF d x(1)] x(2) by simp
  ultimately show ?thesis using x by (auto simp: literal_def)
qed

lemma fsListTodos_stored:
  assumes "fsTodosSound s" "fsListTodos conversations w p c s = Inr ts" "t \<in> set ts"
  shows "fsTodos s (todoId t) = Some t"
proof -
  obtain f where "f \<in> set s" "fileTodo f = t"
    using assms(2,3) by (auto simp: fsListTodos_def Let_def split: option.splits if_splits)
  then show ?thesis using fsTodos_member [of s f] assms(1) by (auto simp: fsTodosSound_def)
qed

lemma fs_failed:
  assumes "tornWrite w = None"
  shows "fsCreateTodo conversations w t s = (s', Inl e) \<Longrightarrow> s' = s"
    and "fsModifyTodo glob w i f s = (s', Inl e') \<Longrightarrow> s' = s"
  using writeTodoFile_cases(2) [OF _ _ assms]
  by (fastforce simp: fsCreateTodo_def fsModifyTodo_def Let_def split: option.splits sum.splits prod.splits if_splits)+

interpretation fsTodoStore: todo_store
  "fsCreateTodo conversations" "fsModifyTodo glob" "fsDeleteTodo glob" "fsListTodos conversations"
  fsTodoTransaction fsTodos fsTodosSound "literal glob" "fsHome conversations" "\<lambda>_. True" "\<lambda>_. True" "\<lambda>w. tornWrite w = None"
  for conversations glob
proof (unfold_locales, goal_cases)
  case 1
  then show ?case by (auto simp: fsTodosSound_def dest: fsTodos_SomeD)
next
  case 2
  then show ?case by (rule fsCreateTodo_done)
next
  case (3 s t w)
  then obtain k where "resolveTodoFilePath conversations (completeTodo w t) = Inr k" using fsHome_resolves by blast
  then show ?case using 3(6) by (simp add: fsCreateTodo_def writeTodoFile_cases Let_def)
next
  case 4
  then show ?case using fs_failed(1) by blast
next
  case 6
  then show ?case by (rule fsModifyTodo_done)
next
  case 7
  then show ?case using fs_failed(2) by blast
next
  case (9 s i t f w)
  then obtain k where "findTodoFilePath glob i s = Some k" using fs_find_literal(1) [of s glob i] by (metis not_Some_eq option.distinct(1))
  then show ?case using fs_find_literal(2) [OF 9(1,3), of k] 9(6)
    by (auto simp: fsModifyTodo_def writeTodoFile_cases(3) Let_def)
next
  case 10
  then show ?case by (rule fsDeleteTodo_done)
next
  case 11
  then show ?case by (auto simp: fsDeleteTodo_def split: option.splits if_splits)
next
  case (13 s i w)
  then obtain k where "findTodoFilePath glob i s = Some k" using fs_find_literal(1) [of s glob i] by (metis not_Some_eq)
  then show ?case using 13(5) by (simp add: fsDeleteTodo_def)
next
  case 14
  then show ?case by (rule fsListTodos_stored)
qed (simp_all add: fsTodoTransaction_def)

subsection \<open>The database store keeps the contract\<close>

definition dbRowsSound :: "todo_table \<Rightarrow> bool" where
  "dbRowsSound s \<longleftrightarrow> distinct (map todoId (rows s))"

text \<open>Between two transactions nothing is aborted.\<close>

definition dbTodosSound :: "todo_table \<Rightarrow> bool" where
  "dbTodosSound s \<longleftrightarrow> dbRowsSound s \<and> \<not> aborted s"

definition rowWith :: "todo list \<Rightarrow> string \<Rightarrow> todo option" where
  "rowWith s i = dbGetTodo i s"

definition dbTodos :: "todo_table \<Rightarrow> string \<Rightarrow> todo option" where
  "dbTodos s = rowWith (rows s)"

lemma rowWith_map_of: "rowWith s = map_of (map (\<lambda>t. (todoId t, t)) s)"
  by (rule ext, induction s) (auto simp: rowWith_def dbGetTodo_def)

lemma rowWith_SomeD: "rowWith s i = Some t \<Longrightarrow> t \<in> set s \<and> todoId t = i"
  by (auto simp: rowWith_map_of dest!: map_of_SomeD)

lemma rowWith_member: "distinct (map todoId s) \<Longrightarrow> t \<in> set s \<Longrightarrow> rowWith s (todoId t) = Some t"
  by (auto simp: rowWith_map_of comp_def intro!: map_of_is_SomeI)

lemma rowWith_none: "rowWith s i = None \<longleftrightarrow> \<not> (\<exists>x\<in>set s. todoId x = i)"
  by (auto simp: rowWith_map_of map_of_eq_None_iff image_image)

lemma rowWith_append: "rowWith s (todoId t) = None \<Longrightarrow> rowWith (s @ [t]) = (rowWith s)(todoId t \<mapsto> t)"
  by (rule ext) (auto simp: rowWith_map_of map_add_def split: option.splits)

lemma rowWith_remove: "rowWith (filter (\<lambda>x. todoId x \<noteq> i) s) = (rowWith s)(i := None)"
  by (rule ext, induction s) (auto simp: rowWith_map_of)

lemma rowWith_update:
  assumes "\<And>x. todoId (u x) = todoId x" "rowWith s i = Some t"
  shows "rowWith (map (\<lambda>x. if todoId x = i then u x else x) s) = (rowWith s)(i \<mapsto> u t)"
proof (rule ext)
  fix j
  have other: "j \<noteq> i \<Longrightarrow> rowWith (map (\<lambda>x. if todoId x = i then u x else x) s) j = rowWith s j"
    by (induction s) (auto simp: rowWith_map_of assms(1))
  have "rowWith (map (\<lambda>x. if todoId x = i then u x else x) s) i = Some (u t)"
    using assms(2) by (induction s) (auto simp: rowWith_map_of assms(1) split: if_splits)
  then show "rowWith (map (\<lambda>x. if todoId x = i then u x else x) s) j = ((rowWith s)(i \<mapsto> u t)) j"
    using other by simp
qed

lemma filled_dbCompleteTodo:
  assumes "filled t"
  shows "dbCompleteTodo w t = completeTodo w t"
  using assms by (auto simp: dbCompleteTodo_def throughRecord_def completeTodo_def filled_def Let_def
    getTitle_def getStatus_def getPriority_def getTags_def split: option.splits)

lemma agree_updatedColumns: "agree (updatedColumns t' w x) t'" "same_place (updatedColumns t' w x) x"
  by (simp_all add: agree_def same_place_def updatedColumns_def getTitle_def getStatus_def getPriority_def getTags_def)

lemma abortTransaction_keeps [simp]:
  "rows (abortTransaction s) = rows s" "aborted (abortTransaction s)" "dbTodos (abortTransaction s) = dbTodos s"
  "dbRowsSound (abortTransaction s) = dbRowsSound s"
  by (simp_all add: abortTransaction_def dbTodos_def dbRowsSound_def)

lemma dbModifyTodo_done:
  assumes "dbRowsSound s" "dbModifyTodo w i f s = (s', Inr t')"
  shows "dbRowsSound s' \<and> (\<exists>t. dbTodos s i = Some t \<and> dbTodos s' = (dbTodos s)(i \<mapsto> t') \<and> agree t' (f t) \<and> same_place t' t)"
proof -
  obtain t where t: "dbTodos s i = Some t"
    and s': "rows s' = map (\<lambda>x. if todoId x = i then updatedColumns (f t) w x else x) (rows s)" and t': "dbTodos s' i = Some t'"
    using assms(2) by (auto simp: dbModifyTodo_def dbTodos_def rowWith_def Let_def split: option.splits if_splits)
  have upd: "dbTodos s' = (dbTodos s)(i \<mapsto> updatedColumns (f t) w t)"
    unfolding s' dbTodos_def by (rule rowWith_update) (use t in \<open>simp_all add: updatedColumns_def dbTodos_def\<close>)
  moreover have "map todoId (rows s') = map todoId (rows s)" by (simp add: s' updatedColumns_def)
  ultimately show ?thesis
    using assms(1) t t' agree_updatedColumns by (auto simp: dbRowsSound_def)
qed

lemma dbModifyTodo_known:
  assumes "dbTodos s i = Some t" "\<not> aborted s" "\<not> storeFails w" "fitsUpdate (f t)"
  shows "\<exists>s' t'. dbModifyTodo w i f s = (s', Inr t')"
  using assms rowWith_update [of "updatedColumns (f t) w" "rows s" i t]
  by (simp add: dbModifyTodo_def Let_def updatedColumns_def dbTodos_def flip: rowWith_def)

lemma dbModifyTodo_failed:
  assumes "dbModifyTodo w i f s = (s', Inl e)"
  shows "s' = s \<or> s' = abortTransaction s"
proof (rule ccontr)
  assume c: "\<not> ?thesis"
  then have ok: "\<not> aborted s" "\<not> storeFails w" "\<exists>t. dbTodos s i = Some t \<and> fitsUpdate (f t)"
    using assms by (auto simp: dbModifyTodo_def dbTodos_def rowWith_def Let_def split: option.splits if_splits)
  then show False using dbModifyTodo_known [of s i _ w f] assms by auto
qed

interpretation dbTodoStore: todo_store
  dbCreateTodo dbModifyTodo dbDeleteTodo dbListTodos dbTodoTransaction dbTodos dbRowsSound "\<lambda>_. True" fitsColumns fitsUpdate
  "\<lambda>s. \<not> aborted s" "\<lambda>_. True"
proof (unfold_locales, goal_cases)
  case 1
  then show ?case using rowWith_SomeD by (simp add: dbTodos_def)
next
  case (2 s t w s' t')
  have "todoId (completeTodo w t) \<notin> todoId ` set (rows s)" using 2(3) rowWith_none by (force simp: dbTodos_def)
  then show ?case
    using 2 rowWith_append [of "rows s" "completeTodo w t"]
    by (auto simp: dbCreateTodo_def Let_def filled_dbCompleteTodo dbRowsSound_def dbTodos_def split: if_splits)
next
  case (3 s t w)
  then show ?case
    using rowWith_none [of "rows s" "todoId (completeTodo w t)"]
    by (simp add: dbCreateTodo_def Let_def filled_dbCompleteTodo dbTodos_def)
next
  case 4
  then show ?case by (auto simp: dbCreateTodo_def Let_def split: if_splits)
next
  case 5
  then show ?case by (auto simp: dbCreateTodo_def Let_def split: if_splits)
next
  case 6
  then show ?case using dbModifyTodo_done by blast
next
  case (7 s w i f s' e)
  then show ?case using dbModifyTodo_failed [OF 7(3)] by auto
next
  case (8 w i f s s' y)
  then show ?case by (auto simp: dbModifyTodo_def)
next
  case (9 s i t f w)
  then show ?case using dbModifyTodo_known by blast
next
  case 10
  then show ?case
    using rowWith_remove
    by (auto simp: dbDeleteTodo_def dbRowsSound_def dbTodos_def rowWith_none distinct_map_filter split: if_splits)
next
  case 11
  then show ?case by (auto simp: dbDeleteTodo_def split: if_splits)
next
  case 12
  then show ?case by (auto simp: dbDeleteTodo_def split: if_splits)
next
  case 13
  then show ?case by (auto simp: dbDeleteTodo_def dbTodos_def rowWith_none)
next
  case 14
  then show ?case using rowWith_member by (auto simp: dbListTodos_def dbRowsSound_def dbTodos_def split: if_splits)
next
  case (15 s w r s')
  then show ?case by (cases r) (auto simp: dbTodoTransaction_def split: option.splits if_splits)
next
  case (16 s w r s' e)
  then show ?case by (cases r) (auto simp: dbTodoTransaction_def split: option.splits if_splits)
next
  case (17 w r s)
  then show ?case by (simp add: dbTodoTransaction_def)
qed

end
