(* ===== verification/TodoTools.thy ===== *)
theory TodoTools
  imports TodoStores
begin

text \<open>
  The todo tools \<open>conversation_todo\<close> (\<open>tools/conversations/todo.go\<close>) and \<open>project_todo\<close> (\<open>tools/projects/todo.go\<close>) and
  the websocket methods beside them (\<open>api/rpc_todos.go\<close>), over the todos of either store. The three have their
  own copies of the batch; where a copy does the same, its definition here says so. Arguments arrive decoded,
  results are values, the texts of errors are a datatype. The calls of one batch meet the weathers 0, 1, 2, ...
\<close>

record 's todo_ops =
  opCreate :: "todo_weather \<Rightarrow> todo \<Rightarrow> 's \<Rightarrow> 's \<times> (store_error + todo)"
  opModify :: "todo_weather \<Rightarrow> string \<Rightarrow> (todo \<Rightarrow> todo) \<Rightarrow> 's \<Rightarrow> 's \<times> (store_error + todo)"
  opDelete :: "todo_weather \<Rightarrow> string \<Rightarrow> 's \<Rightarrow> 's \<times> store_error option"
  opList :: "todo_weather \<Rightarrow> string option \<Rightarrow> string option \<Rightarrow> 's \<Rightarrow> store_error + todo list"
  opTransaction :: "todo_weather \<Rightarrow> 's \<Rightarrow> 's \<times> store_error option \<Rightarrow> 's \<times> store_error option"

definition fsTodoOps :: "(string \<Rightarrow> (string \<times> string) option) \<Rightarrow> (string \<Rightarrow> string \<Rightarrow> bool) \<Rightarrow> todo_file list todo_ops" where
  "fsTodoOps conversations glob =
     \<lparr> opCreate = fsCreateTodo conversations, opModify = fsModifyTodo glob, opDelete = fsDeleteTodo glob,
       opList = fsListTodos conversations, opTransaction = fsTodoTransaction \<rparr>"

definition dbTodoOps :: "todo_table todo_ops" where
  "dbTodoOps = \<lparr> opCreate = dbCreateTodo, opModify = dbModifyTodo, opDelete = dbDeleteTodo,
     opList = dbListTodos, opTransaction = dbTodoTransaction \<rparr>"

subsection \<open>The items of a batch\<close>

record batch_item =
  itemOp :: string
  itemTodoId :: string
  itemTitle :: string
  itemDescription :: string
  itemPriority :: string
  itemTags :: "string list option"

datatype batch_error = TitleRequired | TodoIdRequired | UnknownOp | TodoStoreError store_error

record batch_result =
  resultIndex :: nat
  resultOp :: string
  resultSuccess :: bool
  resultTodo :: "todo option"
  resultError :: "batch_error option"
  resultTodoId :: string

definition failed :: "nat \<Rightarrow> string \<Rightarrow> batch_error \<Rightarrow> string \<Rightarrow> batch_result" where
  "failed index name e i = \<lparr> resultIndex = index, resultOp = name, resultSuccess = False, resultTodo = None,
     resultError = Some e, resultTodoId = i \<rparr>"

definition succeeded :: "nat \<Rightarrow> string \<Rightarrow> todo option \<Rightarrow> string \<Rightarrow> batch_result" where
  "succeeded index name t i = \<lparr> resultIndex = index, resultOp = name, resultSuccess = True, resultTodo = t,
     resultError = None, resultTodoId = i \<rparr>"

text \<open>The todo that an item describes; the conversation or the project that it belongs to is set by the caller.\<close>

definition itemTodo :: "string \<Rightarrow> batch_item \<Rightarrow> todo" where
  "itemTodo i item =
     \<lparr> todoId = i, projectOf = None, conversationOf = None, todoTitle = Some (itemTitle item),
       todoDescription = (if itemDescription item \<noteq> [] then Some (itemDescription item) else None),
       todoStatus = Some statusOpen,
       todoPriority = Some (if itemPriority item = [] then priorityMedium else itemPriority item),
       todoTags = Some (case itemTags item of None \<Rightarrow> [] | Some g \<Rightarrow> g),
       completedAt = None, createdAt = None, modifiedAt = None \<rparr>"

definition conversationTodo :: "string \<Rightarrow> string \<Rightarrow> batch_item \<Rightarrow> todo" where
  "conversationTodo c i item = (itemTodo i item)\<lparr> conversationOf := Some c \<rparr>"

definition projectTodo :: "string \<Rightarrow> string \<Rightarrow> batch_item \<Rightarrow> todo" where
  "projectTodo p i item = (itemTodo i item)\<lparr> projectOf := Some p \<rparr>"

definition addTodo ::
  "'s todo_ops \<Rightarrow> (string \<Rightarrow> batch_item \<Rightarrow> todo) \<Rightarrow> todo_weather \<Rightarrow> nat \<Rightarrow> batch_item \<Rightarrow> 's \<Rightarrow> 's \<times> batch_result" where
  "addTodo ops build w index item s =
     (if itemTitle item = [] then (s, failed index ''add'' TitleRequired [])
      else case opCreate ops w (build (newTodoId w) item) s of
          (s, Inl e) \<Rightarrow> (s, failed index ''add'' (TodoStoreError e) [])
        | (s, Inr created) \<Rightarrow> (s, succeeded index ''add'' (Some created) []))"

definition batchAdd :: "'s todo_ops \<Rightarrow> string \<Rightarrow> todo_weather \<Rightarrow> nat \<Rightarrow> batch_item \<Rightarrow> 's \<Rightarrow> 's \<times> batch_result" where
  "batchAdd ops c = addTodo ops (conversationTodo c)"

definition modifyTodo ::
  "'s todo_ops \<Rightarrow> string \<Rightarrow> (todo \<Rightarrow> todo) \<Rightarrow> todo_weather \<Rightarrow> nat \<Rightarrow> batch_item \<Rightarrow> 's \<Rightarrow> 's \<times> batch_result" where
  "modifyTodo ops name f w index item s =
     (if itemTodoId item = [] then (s, failed index name TodoIdRequired [])
      else case opModify ops w (itemTodoId item) f s of
          (s, Inl e) \<Rightarrow> (s, failed index name (TodoStoreError e) (itemTodoId item))
        | (s, Inr updated) \<Rightarrow> (s, succeeded index name (Some updated) []))"

definition updateFields :: "batch_item \<Rightarrow> todo \<Rightarrow> todo" where
  "updateFields item t = t\<lparr>
     todoTitle := (if itemTitle item \<noteq> [] then Some (itemTitle item) else todoTitle t),
     todoDescription := (if itemDescription item \<noteq> [] then Some (itemDescription item) else todoDescription t),
     todoPriority := (if itemPriority item \<noteq> [] then Some (itemPriority item) else todoPriority t),
     todoTags := (case itemTags item of Some g \<Rightarrow> Some g | None \<Rightarrow> todoTags t) \<rparr>"

definition batchUpdate :: "'s todo_ops \<Rightarrow> todo_weather \<Rightarrow> nat \<Rightarrow> batch_item \<Rightarrow> 's \<Rightarrow> 's \<times> batch_result" where
  "batchUpdate ops w index item = modifyTodo ops ''update'' (updateFields item) w index item"

definition batchComplete :: "'s todo_ops \<Rightarrow> todo_weather \<Rightarrow> nat \<Rightarrow> batch_item \<Rightarrow> 's \<Rightarrow> 's \<times> batch_result" where
  "batchComplete ops w =
     modifyTodo ops ''complete'' (\<lambda>t. t\<lparr> todoStatus := Some statusDone, completedAt := Some (todoClock w) \<rparr>) w"

definition batchReopen :: "'s todo_ops \<Rightarrow> todo_weather \<Rightarrow> nat \<Rightarrow> batch_item \<Rightarrow> 's \<Rightarrow> 's \<times> batch_result" where
  "batchReopen ops = modifyTodo ops ''reopen'' (\<lambda>t. t\<lparr> todoStatus := Some statusOpen, completedAt := None \<rparr>)"

definition batchDelete :: "'s todo_ops \<Rightarrow> todo_weather \<Rightarrow> nat \<Rightarrow> batch_item \<Rightarrow> 's \<Rightarrow> 's \<times> batch_result" where
  "batchDelete ops w index item s =
     (if itemTodoId item = [] then (s, failed index ''delete'' TodoIdRequired [])
      else case opDelete ops w (itemTodoId item) s of
          (s, Some e) \<Rightarrow> (s, failed index ''delete'' (TodoStoreError e) (itemTodoId item))
        | (s, None) \<Rightarrow> (s, succeeded index ''delete'' None (itemTodoId item)))"

definition dispatchItem ::
  "'s todo_ops \<Rightarrow> (todo_weather \<Rightarrow> nat \<Rightarrow> batch_item \<Rightarrow> 's \<Rightarrow> 's \<times> batch_result) \<Rightarrow>
   todo_weather \<Rightarrow> nat \<Rightarrow> batch_item \<Rightarrow> 's \<Rightarrow> 's \<times> batch_result" where
  "dispatchItem ops add w index item s =
     (if itemOp item = ''add'' then add w index item s
      else if itemOp item = ''update'' then batchUpdate ops w index item s
      else if itemOp item = ''complete'' then batchComplete ops w index item s
      else if itemOp item = ''reopen'' then batchReopen ops w index item s
      else if itemOp item = ''delete'' then batchDelete ops w index item s
      else (s, failed index (itemOp item) UnknownOp []))"

definition executeBatchItem ::
  "'s todo_ops \<Rightarrow> string \<Rightarrow> todo_weather \<Rightarrow> nat \<Rightarrow> batch_item \<Rightarrow> 's \<Rightarrow> 's \<times> batch_result" where
  "executeBatchItem ops c = dispatchItem ops (batchAdd ops c)"

text \<open>The loop over the items, inside one transaction; no item ends it.\<close>

fun batchItems ::
  "(todo_weather \<Rightarrow> nat \<Rightarrow> batch_item \<Rightarrow> 's \<Rightarrow> 's \<times> batch_result) \<Rightarrow> (nat \<Rightarrow> todo_weather) \<Rightarrow> nat \<Rightarrow> batch_item list \<Rightarrow> 's \<Rightarrow>
   's \<times> batch_result list" where
  "batchItems one w index [] s = (s, [])"
| "batchItems one w index (item # items) s =
     (let (s, r) = one (w index) index item s; (s, rs) = batchItems one w (Suc index) items s in (s, r # rs))"

subsection \<open>Lists, counts and answers\<close>

definition containsTag :: "(string \<Rightarrow> string) \<Rightarrow> string list \<Rightarrow> string \<Rightarrow> bool" where
  "containsTag lower tags tag \<longleftrightarrow> (\<exists>g\<in>set tags. lower g = lower tag)"

definition filterTodos :: "(string \<Rightarrow> string) \<Rightarrow> todo list \<Rightarrow> string \<Rightarrow> string \<Rightarrow> string \<Rightarrow> todo list" where
  "filterTodos lower todos status priority tag =
     (if status = [] \<and> priority = [] \<and> tag = [] then todos
      else filter (\<lambda>t. \<not> (status \<noteq> [] \<and> getStatus t \<noteq> status) \<and> \<not> (priority \<noteq> [] \<and> getPriority t \<noteq> priority) \<and>
             \<not> (tag \<noteq> [] \<and> \<not> containsTag lower (getTags t) tag)) todos)"

definition countByStatus :: "todo list \<Rightarrow> nat \<times> nat" where
  "countByStatus todos =
     (length (filter (\<lambda>t. getStatus t = statusOpen) todos), length (filter (\<lambda>t. getStatus t = statusDone) todos))"

datatype todo_tool_error =
    ItemsRequired | TooManyItems nat | TodoCallFailed store_error | ConversationIdRequired | AuthenticationRequired
  | ConversationNotFound | AccessDenied | AdminRequired | ProjectRequired | ProjectNotFound | UnknownTodoAction

record todo_response =
  answerTodos :: "todo list"
  answerResults :: "batch_result list"
  answerSummary :: "(nat \<times> nat \<times> nat) option"
  totalCount :: nat
  openCount :: nat
  doneCount :: nat

datatype todo_effect =
    TouchConversation string | TouchProject string | BatchEvent string string "batch_result list" | PruneEvent string string

definition countSucceeded :: "batch_result list \<Rightarrow> nat" where
  "countSucceeded results = length (filter resultSuccess results)"

text \<open>The list that follows a batch is taken for its counts alone; when it fails they are zero.\<close>

definition listedOrNone :: "store_error + todo list \<Rightarrow> todo list" where
  "listedOrNone r = (case r of Inl _ \<Rightarrow> [] | Inr todos \<Rightarrow> todos)"

definition listTodosAnswer :: "(string \<Rightarrow> string) \<Rightarrow> string \<Rightarrow> string \<Rightarrow> store_error + todo list \<Rightarrow> todo_tool_error + todo_response" where
  "listTodosAnswer lower status tag listed =
     (case listed of
        Inl e \<Rightarrow> Inl (TodoCallFailed e)
      | Inr todos \<Rightarrow> Inr \<lparr> answerTodos = filterTodos lower todos status [] tag, answerResults = [], answerSummary = None,
          totalCount = length todos, openCount = fst (countByStatus todos), doneCount = snd (countByStatus todos) \<rparr>)"

definition runBatch ::
  "'s todo_ops \<Rightarrow> (todo_weather \<Rightarrow> nat \<Rightarrow> batch_item \<Rightarrow> 's \<Rightarrow> 's \<times> batch_result) \<Rightarrow> (nat \<Rightarrow> todo_weather) \<Rightarrow>
   (batch_result list \<Rightarrow> todo_effect list) \<Rightarrow> todo_effect \<Rightarrow> string option \<Rightarrow> string option \<Rightarrow> batch_item list \<Rightarrow> 's \<Rightarrow>
   's \<times> todo_effect list \<times> (todo_tool_error + todo_response)" where
  "runBatch ops one w events touch project conversation items s =
     (if items = [] then (s, [], Inl ItemsRequired)
      else if length items > 50 then (s, [], Inl (TooManyItems (length items)))
      else
        (let n = length items; (s', results) = batchItems one w 0 items s in
         case opTransaction ops (w n) s (s', None) of
           (s', Some e) \<Rightarrow> (s', [], Inl (TodoCallFailed e))
         | (s', None) \<Rightarrow>
             (let k = countSucceeded results; todos = listedOrNone (opList ops (w (Suc n)) project conversation s') in
              (s', (if k > 0 then [touch] else []) @ events results,
               Inr \<lparr> answerTodos = [], answerResults = results, answerSummary = Some (n, k, n - k),
                 totalCount = length todos, openCount = fst (countByStatus todos), doneCount = snd (countByStatus todos) \<rparr>))))"

fun pruneLoop :: "'s todo_ops \<Rightarrow> (nat \<Rightarrow> todo_weather) \<Rightarrow> nat \<Rightarrow> todo list \<Rightarrow> nat \<Rightarrow> 's \<Rightarrow> 's \<times> nat \<times> store_error option" where
  "pruneLoop ops w index [] deleted s = (s, deleted, None)"
| "pruneLoop ops w index (t # ts) deleted s =
     (if getStatus t = statusDone then
        (case opDelete ops (w index) (todoId t) s of
           (s, Some e) \<Rightarrow> (s, deleted, Some e)
         | (s, None) \<Rightarrow> pruneLoop ops w (Suc index) ts (Suc deleted) s)
      else pruneLoop ops w (Suc index) ts deleted s)"

definition runPrune ::
  "'s todo_ops \<Rightarrow> (nat \<Rightarrow> todo_weather) \<Rightarrow> todo_effect list \<Rightarrow> string option \<Rightarrow> string option \<Rightarrow> 's \<Rightarrow>
   's \<times> todo_effect list \<times> (todo_tool_error + todo_response)" where
  "runPrune ops w effects project conversation s =
     (let listed = opList ops (w 0) project conversation s;
          (s', deleted, e) = (case listed of Inl e \<Rightarrow> (s, 0, Some e) | Inr todos \<Rightarrow> pruneLoop ops w 1 todos 0 s) in
      case opTransaction ops (w (Suc (length (listedOrNone listed)))) s (s', e) of
        (s', Some e) \<Rightarrow> (s', [], Inl (TodoCallFailed e))
      | (s', None) \<Rightarrow> (s', if deleted > 0 then effects else [],
          Inr \<lparr> answerTodos = [], answerResults = [], answerSummary = None, totalCount = 0, openCount = 0, doneCount = deleted \<rparr>))"


subsection \<open>The tool \<open>conversation_todo\<close>\<close>

definition conversationExecuteList ::
  "'s todo_ops \<Rightarrow> (string \<Rightarrow> string) \<Rightarrow> todo_weather \<Rightarrow> string \<Rightarrow> string \<Rightarrow> string \<Rightarrow> 's \<Rightarrow> todo_tool_error + todo_response" where
  "conversationExecuteList ops lower w conversationId status tag s =
     listTodosAnswer lower status tag (opList ops w None (Some conversationId) s)"

definition emitTodoBatchEvent :: "bool \<Rightarrow> string \<Rightarrow> string \<Rightarrow> batch_result list \<Rightarrow> todo_effect list" where
  "emitTodoBatchEvent hub conversationId userId results =
     (if hub then [BatchEvent conversationId userId results] else [])"

definition executeBatch ::
  "'s todo_ops \<Rightarrow> bool \<Rightarrow> (nat \<Rightarrow> todo_weather) \<Rightarrow> string \<Rightarrow> string \<Rightarrow> batch_item list \<Rightarrow> 's \<Rightarrow>
   's \<times> todo_effect list \<times> (todo_tool_error + todo_response)" where
  "executeBatch ops hub w conversationId userId =
     runBatch ops (executeBatchItem ops conversationId) w (emitTodoBatchEvent hub conversationId userId)
       (TouchConversation conversationId) None (Some conversationId)"

definition executePrune ::
  "'s todo_ops \<Rightarrow> bool \<Rightarrow> (nat \<Rightarrow> todo_weather) \<Rightarrow> string \<Rightarrow> string \<Rightarrow> 's \<Rightarrow>
   's \<times> todo_effect list \<times> (todo_tool_error + todo_response)" where
  "executePrune ops hub w conversationId userId =
     runPrune ops w (TouchConversation conversationId # (if hub then [PruneEvent conversationId userId] else []))
       None (Some conversationId)"

record todo_arguments =
  argAction :: string
  argConversation :: string
  argProject :: string
  argProjectName :: string
  argStatus :: string
  argTag :: string
  argItems :: "batch_item list"

text \<open>\<open>owner c\<close> is the user of the stored conversation c; a user is its identifier and whether it is an administrator.\<close>

definition conversationTodoExecute ::
  "'s todo_ops \<Rightarrow> (string \<Rightarrow> string) \<Rightarrow> (string \<Rightarrow> string option) \<Rightarrow> bool \<Rightarrow> string \<Rightarrow> (string \<times> bool) option \<Rightarrow>
   (nat \<Rightarrow> todo_weather) \<Rightarrow> todo_arguments \<Rightarrow> 's \<Rightarrow> 's \<times> todo_effect list \<times> (todo_tool_error + todo_response)" where
  "conversationTodoExecute ops lower owner hub runnerConversation user w a s =
     (let conversationId = (if argConversation a = [] then runnerConversation else argConversation a) in
      if conversationId = [] then (s, [], Inl ConversationIdRequired)
      else (case user of
          None \<Rightarrow> (s, [], Inl AuthenticationRequired)
        | Some (userId, admin) \<Rightarrow>
            (case owner conversationId of
               None \<Rightarrow> (s, [], Inl ConversationNotFound)
             | Some o' \<Rightarrow>
                 if o' \<noteq> userId \<and> \<not> admin then (s, [], Inl AccessDenied)
                 else if argAction a = ''list''
                   then (s, [], conversationExecuteList ops lower (w 0) conversationId (argStatus a) (argTag a) s)
                 else if argAction a = ''batch'' then executeBatch ops hub w conversationId userId (argItems a) s
                 else if argAction a = ''prune'' then executePrune ops hub w conversationId userId s
                 else (s, [], Inl UnknownTodoAction))))"

subsection \<open>The tool \<open>project_todo\<close>\<close>

definition projectBatchAdd :: "'s todo_ops \<Rightarrow> string \<Rightarrow> todo_weather \<Rightarrow> nat \<Rightarrow> batch_item \<Rightarrow> 's \<Rightarrow> 's \<times> batch_result" where
  "projectBatchAdd ops p = addTodo ops (projectTodo p)"

definition projectBatchItem ::
  "'s todo_ops \<Rightarrow> string \<Rightarrow> todo_weather \<Rightarrow> nat \<Rightarrow> batch_item \<Rightarrow> 's \<Rightarrow> 's \<times> batch_result" where
  "projectBatchItem ops p = dispatchItem ops (projectBatchAdd ops p)"

definition projectExecuteList ::
  "'s todo_ops \<Rightarrow> (string \<Rightarrow> string) \<Rightarrow> todo_weather \<Rightarrow> string \<Rightarrow> string \<Rightarrow> string \<Rightarrow> 's \<Rightarrow> todo_tool_error + todo_response" where
  "projectExecuteList ops lower w projectId status tag s =
     listTodosAnswer lower status tag (opList ops w (Some projectId) None s)"

definition projectExecuteBatch ::
  "'s todo_ops \<Rightarrow> (nat \<Rightarrow> todo_weather) \<Rightarrow> string \<Rightarrow> batch_item list \<Rightarrow> 's \<Rightarrow>
   's \<times> todo_effect list \<times> (todo_tool_error + todo_response)" where
  "projectExecuteBatch ops w projectId =
     runBatch ops (projectBatchItem ops projectId) w (\<lambda>_. []) (TouchProject projectId) (Some projectId) None"

definition projectExecutePrune ::
  "'s todo_ops \<Rightarrow> (nat \<Rightarrow> todo_weather) \<Rightarrow> string \<Rightarrow> 's \<Rightarrow> 's \<times> todo_effect list \<times> (todo_tool_error + todo_response)" where
  "projectExecutePrune ops w projectId = runPrune ops w [TouchProject projectId] (Some projectId) None"

text \<open>\<open>projects\<close> is the list of the stored projects with their names, or the error of listing them.\<close>

definition resolveProjectId ::
  "(string \<Rightarrow> string) \<Rightarrow> store_error + (string \<times> string option) list \<Rightarrow> string \<Rightarrow> string \<Rightarrow> todo_tool_error + string" where
  "resolveProjectId lower projects projectId projectName =
     (if projectId \<noteq> [] then Inr projectId
      else if projectName = [] then Inl ProjectRequired
      else case projects of
          Inl e \<Rightarrow> Inl (TodoCallFailed e)
        | Inr ps \<Rightarrow>
            (case List.find (\<lambda>p. map_option lower (snd p) = Some (lower projectName)) ps of
               Some p \<Rightarrow> Inr (fst p)
             | None \<Rightarrow> Inl ProjectNotFound))"

definition projectTodoExecute ::
  "'s todo_ops \<Rightarrow> (string \<Rightarrow> string) \<Rightarrow> store_error + (string \<times> string option) list \<Rightarrow> (string \<times> bool) option \<Rightarrow>
   (nat \<Rightarrow> todo_weather) \<Rightarrow> todo_arguments \<Rightarrow> 's \<Rightarrow> 's \<times> todo_effect list \<times> (todo_tool_error + todo_response)" where
  "projectTodoExecute ops lower projects user w a s =
     (if argAction a \<in> {''batch'', ''prune''} \<and> (case user of None \<Rightarrow> True | Some (_, admin) \<Rightarrow> \<not> admin)
      then (s, [], Inl AdminRequired)
      else case resolveProjectId lower projects (argProject a) (argProjectName a) of
          Inl e \<Rightarrow> (s, [], Inl e)
        | Inr projectId \<Rightarrow>
            if argAction a = ''list''
              then (s, [], projectExecuteList ops lower (w 0) projectId (argStatus a) (argTag a) s)
            else if argAction a = ''batch'' then projectExecuteBatch ops w projectId (argItems a) s
            else if argAction a = ''prune'' then projectExecutePrune ops w projectId s
            else (s, [], Inl UnknownTodoAction))"

subsection \<open>The websocket methods\<close>

text \<open>Each connection belongs to a user; \<open>verifyConversationAccess\<close> is the check of \<open>api/rpc.go\<close>.\<close>

definition verifyConversationAccess :: "(string \<Rightarrow> string option) \<Rightarrow> string \<times> bool \<Rightarrow> string \<Rightarrow> bool" where
  "verifyConversationAccess owner user c =
     (case owner c of None \<Rightarrow> False | Some o' \<Rightarrow> \<not> (o' \<noteq> fst user \<and> \<not> snd user))"

datatype rpc_error = BadRequest | TooManyRpcItems nat | Forbidden | ServerError store_error

definition executeRpcBatchItem ::
  "'s todo_ops \<Rightarrow> string \<Rightarrow> todo_weather \<Rightarrow> nat \<Rightarrow> batch_item \<Rightarrow> 's \<Rightarrow> 's \<times> batch_result" where
  "executeRpcBatchItem ops c = dispatchItem ops (addTodo ops (conversationTodo c))"

definition handleConversationsTodosBatch ::
  "'s todo_ops \<Rightarrow> (string \<Rightarrow> string option) \<Rightarrow> string \<times> bool \<Rightarrow> (nat \<Rightarrow> todo_weather) \<Rightarrow> string \<Rightarrow> batch_item list \<Rightarrow> 's \<Rightarrow>
   's \<times> todo_effect list \<times> (rpc_error + todo_response)" where
  "handleConversationsTodosBatch ops owner user w conversationId items s =
     (if conversationId = [] then (s, [], Inl BadRequest)
      else if items = [] then (s, [], Inl BadRequest)
      else if length items > 50 then (s, [], Inl (TooManyRpcItems (length items)))
      else if \<not> verifyConversationAccess owner user conversationId then (s, [], Inl Forbidden)
      else
        (let n = length items; (s', results) = batchItems (executeRpcBatchItem ops conversationId) w 0 items s in
         case opTransaction ops (w n) s (s', None) of
           (s', Some e) \<Rightarrow> (s', [], Inl (ServerError e))
         | (s', None) \<Rightarrow>
             (let k = countSucceeded results; todos = listedOrNone (opList ops (w (Suc n)) None (Some conversationId) s') in
              (s', (if k > 0 then [TouchConversation conversationId] else []) @ [BatchEvent conversationId (fst user) results],
               Inr \<lparr> answerTodos = [], answerResults = results, answerSummary = Some (n, k, n - k),
                 totalCount = length todos, openCount = fst (countByStatus todos), doneCount = snd (countByStatus todos) \<rparr>))))"

definition handleConversationsTodosList ::
  "'s todo_ops \<Rightarrow> (string \<Rightarrow> string option) \<Rightarrow> string \<times> bool \<Rightarrow> todo_weather \<Rightarrow> string \<Rightarrow> 's \<Rightarrow>
   rpc_error + (todo list \<times> nat \<times> nat)" where
  "handleConversationsTodosList ops owner user w conversationId s =
     (if conversationId = [] then Inl BadRequest
      else if \<not> verifyConversationAccess owner user conversationId then Inl Forbidden
      else case opList ops w None (Some conversationId) s of
          Inl e \<Rightarrow> Inl (ServerError e)
        | Inr todos \<Rightarrow> Inr (todos, countByStatus todos))"

fun summarizeProjects ::
  "'s todo_ops \<Rightarrow> (nat \<Rightarrow> todo_weather) \<Rightarrow> nat \<Rightarrow> string list \<Rightarrow> 's \<Rightarrow> store_error + (string \<times> nat \<times> nat) list" where
  "summarizeProjects ops w k [] s = Inr []"
| "summarizeProjects ops w k (p # ps) s =
     (case opList ops (w k) (Some p) None s of
        Inl e \<Rightarrow> Inl e
      | Inr todos \<Rightarrow>
          (case summarizeProjects ops w (Suc k) ps s of
             Inl e \<Rightarrow> Inl e
           | Inr rest \<Rightarrow> Inr ((p, countByStatus todos) # rest)))"

definition handleProjectsTodosSummary ::
  "'s todo_ops \<Rightarrow> string \<times> bool \<Rightarrow> (nat \<Rightarrow> todo_weather) \<Rightarrow> store_error + (string \<times> string option) list \<Rightarrow> 's \<Rightarrow>
   rpc_error + (string \<times> nat \<times> nat) list" where
  "handleProjectsTodosSummary ops user w projects s =
     (if \<not> snd user then Inl Forbidden
      else case projects of
          Inl e \<Rightarrow> Inl (ServerError e)
        | Inr ps \<Rightarrow>
            (case summarizeProjects ops w 0 (map fst ps) s of
               Inl e \<Rightarrow> Inl (ServerError e)
             | Inr summaries \<Rightarrow> Inr summaries))"

definition handleProjectsTodosList ::
  "'s todo_ops \<Rightarrow> string \<times> bool \<Rightarrow> todo_weather \<Rightarrow> store_error + (string \<times> string option) list \<Rightarrow> string \<Rightarrow> 's \<Rightarrow>
   rpc_error + (todo list \<times> nat \<times> nat)" where
  "handleProjectsTodosList ops user w projects projectId s =
     (if \<not> snd user then Inl Forbidden
      else if projectId = [] then Inl BadRequest
      else case projects of
          Inl e \<Rightarrow> Inl (ServerError e)
        | Inr ps \<Rightarrow>
            if projectId \<notin> fst ` set ps then Inl (ServerError NotFound)
            else (case opList ops w (Some projectId) None s of
                Inl e \<Rightarrow> Inl (ServerError e)
              | Inr todos \<Rightarrow> Inr (todos, countByStatus todos)))"


subsection \<open>What a batch does to the todos\<close>

definition itemChange :: "todo_weather \<Rightarrow> batch_item \<Rightarrow> todo \<Rightarrow> todo" where
  "itemChange w item =
     (if itemOp item = ''update'' then updateFields item
      else if itemOp item = ''complete'' then (\<lambda>t. t\<lparr> todoStatus := Some statusDone, completedAt := Some (todoClock w) \<rparr>)
      else (\<lambda>t. t\<lparr> todoStatus := Some statusOpen, completedAt := None \<rparr>))"

definition applyResult :: "batch_item \<Rightarrow> batch_result \<Rightarrow> (string \<Rightarrow> todo option) \<Rightarrow> string \<Rightarrow> todo option" where
  "applyResult item r m =
     (if \<not> resultSuccess r then m
      else case resultTodo r of Some t \<Rightarrow> m(todoId t \<mapsto> t) | None \<Rightarrow> m(itemTodoId item := None))"

text \<open>An item can be carried out: what is added has a title, what is changed or deleted exists.\<close>

definition item_possible :: "batch_item \<Rightarrow> (string \<Rightarrow> todo option) \<Rightarrow> bool" where
  "item_possible item m \<longleftrightarrow>
     (if itemOp item = ''add'' then itemTitle item \<noteq> []
      else itemOp item \<in> {''update'', ''complete'', ''reopen'', ''delete''} \<and> itemTodoId item \<noteq> [] \<and> m (itemTodoId item) \<noteq> None)"

text \<open>The todo of a successful result is the one of the item: added, changed as it says, or gone.\<close>

definition item_done :: "todo_weather \<Rightarrow> todo \<Rightarrow> batch_item \<Rightarrow> (string \<Rightarrow> todo option) \<Rightarrow> todo option \<Rightarrow> bool" where
  "item_done w t item m r \<longleftrightarrow>
     (if itemOp item = ''add'' then r = Some (completeTodo w t)
      else if itemOp item = ''delete'' then r = None
      else (case (m (itemTodoId item), r) of
              (Some old, Some new) \<Rightarrow> same_place new old \<and> agree new (itemChange w item old)
            | _ \<Rightarrow> False))"

text \<open>When the store works it has the room for an item if a new todo has its place there and a changed one fits.\<close>

definition item_fits ::
  "(todo \<Rightarrow> bool) \<Rightarrow> (todo \<Rightarrow> bool) \<Rightarrow> todo_weather \<Rightarrow> todo \<Rightarrow> batch_item \<Rightarrow> (string \<Rightarrow> todo option) \<Rightarrow> bool" where
  "item_fits home room w t item m \<longleftrightarrow>
     (if itemOp item = ''add'' then home (completeTodo w t)
      else if itemOp item = ''delete'' then True
      else (case m (itemTodoId item) of None \<Rightarrow> True | Some old \<Rightarrow> room (itemChange w item old)))"

definition item_spec ::
  "(todo \<Rightarrow> bool) \<Rightarrow> (todo \<Rightarrow> bool) \<Rightarrow> (string \<Rightarrow> batch_item \<Rightarrow> todo) \<Rightarrow> todo_weather \<Rightarrow> nat \<Rightarrow> batch_item \<Rightarrow> batch_result \<Rightarrow>
   (string \<Rightarrow> todo option) \<Rightarrow> bool" where
  "item_spec home room build w index item r m \<longleftrightarrow>
     resultIndex r = index \<and> resultOp r = itemOp item \<and>
     (resultSuccess r \<longrightarrow> item_possible item m) \<and>
     (item_possible item m \<and> item_fits home room w (build (newTodoId w) item) item m \<and> \<not> storeFails w \<longrightarrow> resultSuccess r) \<and>
     (resultSuccess r \<longrightarrow> item_done w (build (newTodoId w) item) item m (resultTodo r))"

fun batch_spec ::
  "(todo \<Rightarrow> bool) \<Rightarrow> (todo \<Rightarrow> bool) \<Rightarrow> (string \<Rightarrow> batch_item \<Rightarrow> todo) \<Rightarrow> (nat \<Rightarrow> todo_weather) \<Rightarrow> nat \<Rightarrow> batch_item list \<Rightarrow>
   batch_result list \<Rightarrow> (string \<Rightarrow> todo option) \<Rightarrow> (string \<Rightarrow> todo option) \<Rightarrow> bool" where
  "batch_spec home room build w index [] [] m m' \<longleftrightarrow> m' = m"
| "batch_spec home room build w index (item # items) (r # rs) m m' \<longleftrightarrow>
     item_spec home room build (w index) index item r m \<and>
     batch_spec home room build w (Suc index) items rs (applyResult item r m) m'"
| "batch_spec home room build w index _ _ m m' \<longleftrightarrow> False"

text \<open>The builder of the new todos: conversation or project; fresh identifiers, as ULIDs are.\<close>

definition builder :: "(string \<Rightarrow> batch_item \<Rightarrow> todo) \<Rightarrow> bool" where
  "builder build \<longleftrightarrow> (\<forall>i item. agree (build i item) (itemTodo i item) \<and> todoId (build i item) = i \<and> filled (build i item) = filled (itemTodo i item))"

definition fresh_ids :: "(nat \<Rightarrow> todo_weather) \<Rightarrow> nat \<Rightarrow> (string \<Rightarrow> todo option) \<Rightarrow> bool" where
  "fresh_ids w n m \<longleftrightarrow> inj_on (\<lambda>k. newTodoId (w k)) {n..} \<and>
     (\<forall>k\<ge>n. newTodoId (w k) \<noteq> [] \<and> m (newTodoId (w k)) = None)"

definition todo_ok :: "todo \<Rightarrow> bool" where
  "todo_ok t \<longleftrightarrow> getTitle t \<noteq> [] \<and>
     (getStatus t = statusOpen \<and> completedAt t = None \<or> getStatus t = statusDone \<and> completedAt t \<noteq> None)"

definition todos_ok :: "(string \<Rightarrow> todo option) \<Rightarrow> bool" where
  "todos_ok m \<longleftrightarrow> (\<forall>i t. m i = Some t \<longrightarrow> todo_ok t)"

lemma todo_ok_agree: "agree a b \<Longrightarrow> todo_ok a = todo_ok b"
  by (simp add: todo_ok_def agree_def)

lemma todos_okD: "todos_ok m \<Longrightarrow> m i = Some t \<Longrightarrow> todo_ok t"
  by (auto simp: todos_ok_def)

lemma todos_ok_upd: "todos_ok m \<Longrightarrow> todo_ok t \<Longrightarrow> todos_ok (m(i \<mapsto> t))"
  by (auto simp: todos_ok_def)

lemma todos_ok_del: "todos_ok m \<Longrightarrow> todos_ok (m(i := None))"
  by (auto simp: todos_ok_def)

lemma itemChange_ok: "todo_ok t \<Longrightarrow> todo_ok (itemChange w item t)"
  by (auto simp: itemChange_def todo_ok_def updateFields_def getTitle_def getStatus_def statusOpen_def statusDone_def)

lemma itemChange_place: "keeps_place (itemChange w item)"
  by (auto simp: keeps_place_def itemChange_def updateFields_def)

lemma itemTodo_filled: "itemTitle item \<noteq> [] \<Longrightarrow> filled (itemTodo i item)"
  by (auto simp: filled_def itemTodo_def getStatus_def getPriority_def statusOpen_def priorityMedium_def)

lemma builder_ok:
  assumes "builder build" "itemTitle item \<noteq> []"
  shows "filled (build i item)" "todoId (build i item) = i" "i \<noteq> [] \<Longrightarrow> todoId (completeTodo w (build i item)) = i"
    "todo_ok (completeTodo w (build i item))"
proof -
  show f: "filled (build i item)" "todoId (build i item) = i"
    using assms itemTodo_filled by (auto simp: builder_def)
  show "i \<noteq> [] \<Longrightarrow> todoId (completeTodo w (build i item)) = i" using f by (simp add: completeTodo_def)
  have "agree (completeTodo w (build i item)) (build i item)"
    using f(1) by (auto simp: agree_def completeTodo_def getTitle_def getStatus_def getPriority_def getTags_def filled_def
      split: option.splits)
  moreover have "agree (build i item) (itemTodo i item)" using assms(1) by (simp add: builder_def)
  moreover have "todo_ok (itemTodo i item)"
    using assms(2) by (simp add: todo_ok_def itemTodo_def getTitle_def getStatus_def)
  ultimately show "todo_ok (completeTodo w (build i item))" by (simp add: todo_ok_agree)
qed

lemma builders: "builder (conversationTodo c)" "builder (projectTodo p)"
  by (auto simp: builder_def conversationTodo_def projectTodo_def agree_def filled_def getTitle_def getStatus_def
    getPriority_def getTags_def itemTodo_def)


definition serves ::
  "'s todo_ops \<Rightarrow> (todo_weather \<Rightarrow> todo \<Rightarrow> 's \<Rightarrow> 's \<times> (store_error + todo)) \<Rightarrow>
   (todo_weather \<Rightarrow> string \<Rightarrow> (todo \<Rightarrow> todo) \<Rightarrow> 's \<Rightarrow> 's \<times> (store_error + todo)) \<Rightarrow>
   (todo_weather \<Rightarrow> string \<Rightarrow> 's \<Rightarrow> 's \<times> store_error option) \<Rightarrow>
   (todo_weather \<Rightarrow> string option \<Rightarrow> string option \<Rightarrow> 's \<Rightarrow> store_error + todo list) \<Rightarrow>
   (todo_weather \<Rightarrow> 's \<Rightarrow> 's \<times> store_error option \<Rightarrow> 's \<times> store_error option) \<Rightarrow> bool" where
  "serves ops create modify delete listing transaction \<longleftrightarrow>
     ops = \<lparr> opCreate = create, opModify = modify, opDelete = delete, opList = listing, opTransaction = transaction \<rparr>"

lemma serves_sel:
  assumes "serves ops create modify delete listing transaction"
  shows "opCreate ops = create" "opModify ops = modify" "opDelete ops = delete" "opList ops = listing"
    "opTransaction ops = transaction"
  using assms by (simp_all add: serves_def)

lemma stores_serve:
  "serves (fsTodoOps conversations glob) (fsCreateTodo conversations) (fsModifyTodo glob) (fsDeleteTodo glob)
     (fsListTodos conversations) fsTodoTransaction"
  "serves dbTodoOps dbCreateTodo dbModifyTodo dbDeleteTodo dbListTodos dbTodoTransaction"
  by (simp_all add: serves_def fsTodoOps_def dbTodoOps_def)

lemmas result_simps = failed_def succeeded_def item_spec_def applyResult_def

text \<open>One item: the store stays sound, and if its transaction still works afterwards, the item did what its result says.\<close>

definition step_spec ::
  "('s \<Rightarrow> bool) \<Rightarrow> ('s \<Rightarrow> bool) \<Rightarrow> ('s \<Rightarrow> string \<Rightarrow> todo option) \<Rightarrow> bool \<Rightarrow> (batch_result \<Rightarrow> (string \<Rightarrow> todo option) \<Rightarrow> bool) \<Rightarrow>
   batch_item \<Rightarrow> batch_result \<Rightarrow> string \<Rightarrow> 's \<Rightarrow> 's \<Rightarrow> bool" where
  "step_spec sound working look known spec item r new s s' \<longleftrightarrow>
     sound s' \<and> (working s' \<longrightarrow> working s) \<and> (known \<longrightarrow> working s' \<longrightarrow> spec r (look s)) \<and>
     (known \<longrightarrow> look s' = applyResult item r (look s)) \<and>
     (todos_ok (look s) \<longrightarrow> todos_ok (look s')) \<and> (\<forall>i. look s i = None \<longrightarrow> i \<noteq> new \<longrightarrow> look s' i = None)"

context todo_store
begin

lemma add_step:
  assumes "serves ops create modify delete listing transaction" "sound s" "builder build" "newTodoId w \<noteq> []" "steady w"
    "find s (newTodoId w) = None" "itemOp item = ''add''" "addTodo ops build w n item s = (s', r)"
  shows "step_spec sound working find True (\<lambda>r m. item_spec home room build w n item r m) item r (newTodoId w) s s'"
proof (cases "itemTitle item = []")
  case True
  then have "s' = s" "r = failed n ''add'' TitleRequired []" using assms(8) by (simp_all add: addTodo_def)
  then show ?thesis using assms(2,7) True by (simp add: step_spec_def result_simps item_possible_def)
next
  case False
  let ?t = "build (newTodoId w) item"
  note b = builder_ok [OF assms(3) False, where i = "newTodoId w"]
  have new: "find s (todoId (completeTodo w ?t)) = None" using assms(4,6) b(3) by simp
  note e = assms(8) [unfolded addTodo_def serves_sel [OF assms(1)]]
  obtain s1 res where c: "create w ?t s = (s1, res)" by fastforce
  note wk = create_working [OF c]
  show ?thesis
  proof (cases res)
    case (Inl x)
    then have eq: "sound s1" "find s1 = find s" using create_failed [OF assms(2,5)] c by blast+
    have r: "s' = s1" "r = failed n ''add'' (TodoStoreError x) []" using e False c Inl by simp_all
    have "\<not> (working s \<and> home (completeTodo w ?t) \<and> \<not> storeFails w)"
      using create_known [OF assms(2) _ b(1) new] c Inl by auto
    then show ?thesis using assms(7) False wk eq by (auto simp: r step_spec_def result_simps item_fits_def)
  next
    case (Inr t')
    then have r: "s' = s1" "r = succeeded n ''add'' (Some t') []" using e False c by simp_all
    moreover have c': "sound s1 \<and> t' = completeTodo w ?t \<and> find s1 = (find s)(todoId t' \<mapsto> t')"
      using create_done [OF assms(2) b(1) new] c Inr by blast
    moreover have "todoId t' = newTodoId w" using c' b(3) assms(4) by simp
    ultimately show ?thesis
      using assms(7) False b(4) [of w] wk by (auto simp: step_spec_def result_simps item_possible_def item_done_def todos_ok_upd)
  qed
qed

lemma modify_step:
  assumes "serves ops create modify delete listing transaction" "sound s" "steady w"
    "itemOp item = name" "name \<in> {''update'', ''complete'', ''reopen''}"
    "modifyTodo ops name (itemChange w item) w n item s = (s', r)"
  shows "step_spec sound working find (named (itemTodoId item)) (\<lambda>r m. item_spec home room build w n item r m) item r new s s'"
proof (cases "itemTodoId item = []")
  case True
  then have "s' = s" "r = failed n name TodoIdRequired []" using assms(6) by (simp_all add: modifyTodo_def)
  then show ?thesis using assms(2,4,5) True by (auto simp: step_spec_def result_simps item_possible_def)
next
  case False
  note e = assms(6) [unfolded modifyTodo_def serves_sel [OF assms(1)]]
  obtain s1 res where m: "modify w (itemTodoId item) (itemChange w item) s = (s1, res)" by fastforce
  note wk = modify_working [OF m]
  show ?thesis
  proof (cases res)
    case (Inl x)
    then have eq: "sound s1" "find s1 = find s" using modify_failed [OF assms(2,3)] m by blast+
    have r: "s' = s1" "r = failed n name (TodoStoreError x) (itemTodoId item)" using e False m Inl by simp_all
    have "storeFails w" if "working s" "named (itemTodoId item)" "find s (itemTodoId item) = Some t"
      "room (itemChange w item t)" for t
      using modify_known [where f = "itemChange w item", OF assms(2) that] m Inl by (metis Pair_inject sum.distinct(1))
    then show ?thesis using assms(4,5) False wk eq
      by (auto simp: r step_spec_def result_simps item_possible_def item_fits_def)
  next
    case (Inr t')
    then have r: "s' = s1" "r = succeeded n name (Some t') []" using e False m by simp_all
    obtain j t where c: "sound s1" "find s j = Some t" "named (itemTodoId item) \<longrightarrow> j = itemTodoId item"
      "find s1 = (find s)(j \<mapsto> t')" "agree t' (itemChange w item t)" "same_place t' t"
      using modify_done [OF assms(2) itemChange_place] m Inr by blast
    have j: "todoId t' = j" using c(6) find_id [OF assms(2) c(2)] by (simp add: same_place_def)
    have ok: "todos_ok (find s) \<Longrightarrow> todo_ok t'"
      using todo_ok_agree [OF c(5)] itemChange_ok todos_okD [where m = "find s" and i = j and t = t] c(2) by blast
    show ?thesis
      using assms(4,5) False c ok j wk by (auto simp: r step_spec_def result_simps item_possible_def item_done_def todos_ok_upd)
  qed
qed

lemma delete_step:
  assumes "serves ops create modify delete listing transaction" "sound s" "itemOp item = ''delete''"
    "batchDelete ops w n item s = (s', r)"
  shows "step_spec sound working find (named (itemTodoId item)) (\<lambda>r m. item_spec home room build w n item r m) item r new s s'"
proof (cases "itemTodoId item = []")
  case True
  then have "s' = s" "r = failed n ''delete'' TodoIdRequired []" using assms(4) by (simp_all add: batchDelete_def)
  then show ?thesis using assms(2,3) True by (auto simp: step_spec_def result_simps item_possible_def)
next
  case False
  note e = assms(4) [unfolded batchDelete_def serves_sel [OF assms(1)]]
  obtain s1 res where d: "delete w (itemTodoId item) s = (s1, res)" by fastforce
  note wk = delete_working [OF d]
  show ?thesis
  proof (cases res)
    case (Some x)
    then have eq: "sound s1" "find s1 = find s" using delete_failed [OF assms(2)] d by blast+
    have r: "s' = s1" "r = failed n ''delete'' (TodoStoreError x) (itemTodoId item)" using e False d Some by simp_all
    have "working s \<longrightarrow> named (itemTodoId item) \<longrightarrow> storeFails w \<or> find s (itemTodoId item) = None"
      using delete_known [OF assms(2)] d Some by (metis Pair_inject option.distinct(1))
    then show ?thesis using assms(3) False wk eq by (auto simp: r step_spec_def result_simps item_possible_def)
  next
    case None
    then have r: "s' = s1" "r = succeeded n ''delete'' None (itemTodoId item)" using e False d by simp_all
    obtain j where c: "sound s1" "find s j \<noteq> None" "named (itemTodoId item) \<longrightarrow> j = itemTodoId item"
      "find s1 = (find s)(j := None)"
      using delete_done [OF assms(2)] d None by blast
    show ?thesis
      using assms(3) False c wk by (auto simp: r step_spec_def result_simps item_possible_def item_done_def todos_ok_del)
  qed
qed

lemma dispatch_step:
  assumes "serves ops create modify delete listing transaction" "sound s" "builder build" "newTodoId w \<noteq> []" "steady w"
    "find s (newTodoId w) = None" "dispatchItem ops (addTodo ops build) w n item s = (s', r)"
  shows "step_spec sound working find (named (itemTodoId item)) (\<lambda>r m. item_spec home room build w n item r m) item r
    (newTodoId w) s s'"
proof -
  note d = assms(7) [unfolded dispatchItem_def]
  consider "itemOp item = ''add''" | "itemOp item \<in> {''update'', ''complete'', ''reopen''}" | "itemOp item = ''delete''"
    | "itemOp item \<notin> {''add'', ''update'', ''complete'', ''reopen'', ''delete''}" by blast
  then show ?thesis
  proof cases
    case 1
    then have "addTodo ops build w n item s = (s', r)" using d by simp
    from add_step [OF assms(1-6) 1 this] show ?thesis unfolding step_spec_def by blast
  next
    case 2
    have "modifyTodo ops (itemOp item) (itemChange w item) w n item s = (s', r)"
      using 2 d by (auto simp: batchUpdate_def batchComplete_def batchReopen_def itemChange_def)
    then show ?thesis using modify_step [OF assms(1,2,5) refl 2] by blast
  next
    case 3
    then have "batchDelete ops w n item s = (s', r)" using d by simp
    then show ?thesis using delete_step [OF assms(1,2) 3] by blast
  next
    case 4
    then have "s' = s" "r = failed n (itemOp item) UnknownOp []" using d by auto
    then show ?thesis using 4 assms(2) by (auto simp: step_spec_def result_simps item_possible_def)
  qed
qed

lemma batchItems_steps:
  assumes "serves ops create modify delete listing transaction" "builder build" "\<And>k. steady (w k)"
  shows "sound s \<Longrightarrow> fresh_ids w n (find s) \<Longrightarrow> batchItems (dispatchItem ops (addTodo ops build)) w n items s = (s', rs) \<Longrightarrow>
    sound s' \<and> (todos_ok (find s) \<longrightarrow> todos_ok (find s')) \<and> (working s' \<longrightarrow> working s) \<and>
    ((\<forall>item\<in>set items. named (itemTodoId item)) \<longrightarrow> working s' \<longrightarrow> batch_spec home room build w n items rs (find s) (find s'))"
proof (induction items arbitrary: n s rs)
  case Nil
  then show ?case by simp
next
  case (Cons item items)
  obtain s1 r where one: "dispatchItem ops (addTodo ops build) (w n) n item s = (s1, r)" by fastforce
  obtain rs' where rest: "batchItems (dispatchItem ops (addTodo ops build)) w (Suc n) items s1 = (s', rs')" "rs = r # rs'"
    using Cons.prems(3) one by (auto split: prod.splits)
  have id: "newTodoId (w n) \<noteq> []" "find s (newTodoId (w n)) = None" using Cons.prems(2) by (auto simp: fresh_ids_def)
  note step = dispatch_step [OF assms(1) Cons.prems(1) assms(2) id(1) assms(3) id(2) one, unfolded step_spec_def]
  have other: "newTodoId (w k) \<noteq> newTodoId (w n)" if "k \<ge> Suc n" for k
    using Cons.prems(2) that inj_onD [of "\<lambda>k. newTodoId (w k)" "{n..}" k n] by (auto simp: fresh_ids_def)
  have "inj_on (\<lambda>k. newTodoId (w k)) {Suc n..}"
    using Cons.prems(2) by (auto simp: fresh_ids_def intro: inj_on_subset)
  then have "fresh_ids w (Suc n) (find s1)"
    using Cons.prems(2) step other by (simp add: fresh_ids_def)
  note ih = Cons.IH [OF conjunct1 [OF step] this rest(1)]
  show ?case
    using step ih rest(2) by (simp, metis)
qed

lemma runBatch_spec:
  assumes "serves ops create modify delete listing transaction" "builder build" "sound s" "working s" "\<And>k. steady (w k)"
    "fresh_ids w 0 (find s)"
    "runBatch ops (dispatchItem ops (addTodo ops build)) w events touch p c items s = (s', effects, answer)"
  shows "sound s' \<and> working s' \<and> (todos_ok (find s) \<longrightarrow> todos_ok (find s')) \<and>
    (case answer of
       Inl e \<Rightarrow> s' = s \<and> effects = []
     | Inr a \<Rightarrow> 0 < length items \<and> length items \<le> 50 \<and>
         answerSummary a = Some (length items, countSucceeded (answerResults a), length items - countSucceeded (answerResults a)) \<and>
         effects = (if countSucceeded (answerResults a) > 0 then [touch] else []) @ events (answerResults a) \<and>
         ((\<forall>item\<in>set items. named (itemTodoId item)) \<longrightarrow>
            batch_spec home room build w 0 items (answerResults a) (find s) (find s')))"
proof (cases "items = [] \<or> length items > 50")
  case True
  then have "s' = s" "effects = []" "\<exists>e. answer = Inl e"
    using assms(7) by (cases "items = []"; force simp: runBatch_def)+
  then show ?thesis using assms(3,4) by auto
next
  case False
  obtain s1 rs where b: "batchItems (dispatchItem ops (addTodo ops build)) w 0 items s = (s1, rs)" by fastforce
  note steps = batchItems_steps [OF assms(1,2,5,3,6) b]
  obtain s2 e where t: "transaction (w (length items)) s (s1, None) = (s2, e)" by fastforce
  note run = assms(7) [unfolded runBatch_def serves_sel [OF assms(1)]]
  show ?thesis
  proof (cases e)
    case None
    then have "s2 = s1" "working s1" using transaction_done [OF assms(4), of "w (length items)" "(s1, None)" s2] t by simp_all
    then show ?thesis using run False b t None steps by (auto simp: Let_def)
  next
    case (Some x)
    then have "s2 = s" using transaction_failed [OF assms(4), of "w (length items)" "(s1, None)" s2 x] t by simp
    then show ?thesis using run False b t Some assms(3,4) by (auto simp: Let_def)
  qed
qed

lemma pruneLoop_spec:
  assumes "serves ops create modify delete listing transaction"
  shows "sound s \<Longrightarrow> pruneLoop ops w n ts k s = (s', k', e) \<Longrightarrow>
    sound s' \<and> (todos_ok (find s) \<longrightarrow> todos_ok (find s')) \<and>
    ((\<forall>t\<in>set ts. named (todoId t)) \<longrightarrow> e = None \<longrightarrow>
       k' = k + length (filter (\<lambda>t. getStatus t = statusDone) ts) \<and>
       find s' = (\<lambda>i. if \<exists>t\<in>set ts. getStatus t = statusDone \<and> todoId t = i then None else find s i))"
proof (induction ts arbitrary: n k s)
  case Nil
  then show ?case by simp
next
  case (Cons t ts)
  show ?case
  proof (cases "getStatus t = statusDone")
    case False
    then show ?thesis using Cons.prems Cons.IH [OF Cons.prems(1), of "Suc n" k] by (simp add: fun_eq_iff)
  next
    case True
    obtain s1 x where d: "delete (w n) (todoId t) s = (s1, x)" by fastforce
    show ?thesis
    proof (cases x)
      case (Some err)
      have "sound s1" "find s1 = find s" using delete_failed [OF Cons.prems(1)] d Some by blast+
      moreover have "s' = s1" "e = Some err" using Cons.prems(2) True d Some by (simp_all add: serves_sel [OF assms])
      ultimately show ?thesis by simp
    next
      case None
      obtain j where c: "sound s1" "find s j \<noteq> None" "named (todoId t) \<longrightarrow> j = todoId t" "find s1 = (find s)(j := None)"
        using delete_done [OF Cons.prems(1)] d None by blast
      have "pruneLoop ops w (Suc n) ts (Suc k) s1 = (s', k', e)"
        using Cons.prems(2) True d None by (simp add: serves_sel [OF assms])
      note ih = Cons.IH [OF c(1) this]
      have "todos_ok (find s) \<longrightarrow> todos_ok (find s1)" using c(4) todos_ok_del by simp
      moreover have "k' = k + length (filter (\<lambda>t. getStatus t = statusDone) (t # ts)) \<and>
          find s' = (\<lambda>i. if \<exists>x\<in>set (t # ts). getStatus x = statusDone \<and> todoId x = i then None else find s i)"
        if "\<forall>x\<in>set (t # ts). named (todoId x)" "e = None"
        using ih that True c(3,4) by (auto intro!: ext)
      ultimately show ?thesis using ih by blast
    qed
  qed
qed

lemma runPrune_spec:
  assumes "serves ops create modify delete listing transaction" "sound s" "working s"
    "runPrune ops w effects p c s = (s', es, answer)"
  shows "sound s' \<and> working s' \<and> (todos_ok (find s) \<longrightarrow> todos_ok (find s'))"
    "answer = Inr a \<Longrightarrow> \<exists>ts. listing (w 0) p c s = Inr ts \<and>
      ((\<forall>t\<in>set ts. named (todoId t)) \<longrightarrow> doneCount a = length (filter (\<lambda>t. getStatus t = statusDone) ts) \<and>
        find s' = (\<lambda>i. if \<exists>t\<in>set ts. getStatus t = statusDone \<and> todoId t = i then None else find s i))"
proof -
  note run = assms(4) [unfolded runPrune_def serves_sel [OF assms(1)]]
  define listed where "listed = listing (w 0) p c s"
  obtain s1 k e where l: "(case listed of Inl e \<Rightarrow> (s, 0, Some e) | Inr todos \<Rightarrow> pruneLoop ops w 1 todos 0 s) = (s1, k, e)"
    by (metis prod_cases3)
  let ?w = "w (Suc (length (listedOrNone listed)))"
  obtain s2 e2 where t: "transaction ?w s (s1, e) = (s2, e2)" by fastforce
  have s': "s' = s2" "answer = Inr a \<Longrightarrow> e2 = None \<and> doneCount a = k" for a
    using run l t by (auto simp: Let_def listed_def split: option.splits)
  have s1: "sound s1 \<and> (todos_ok (find s) \<longrightarrow> todos_ok (find s1))"
    using l pruneLoop_spec [OF assms(1,2)] assms(2) by (cases listed) auto
  have "(s2 = s \<or> s2 = s1) \<and> working s2"
    using transaction_done [OF assms(3), of ?w "(s1, e)" s2] transaction_failed [OF assms(3), of ?w "(s1, e)" s2] t
    by (cases e2) auto
  then show "sound s' \<and> working s' \<and> (todos_ok (find s) \<longrightarrow> todos_ok (find s'))" using s1 s' assms(2) by auto
  assume a: "answer = Inr a"
  then have "(s1, e) = (s2, None)" using transaction_done [OF assms(3), of ?w "(s1, e)" s2] t s' by simp
  moreover obtain ts where "listed = Inr ts" using l calculation by (cases listed) auto
  ultimately show "\<exists>ts. listing (w 0) p c s = Inr ts \<and>
      ((\<forall>t\<in>set ts. named (todoId t)) \<longrightarrow> doneCount a = length (filter (\<lambda>t. getStatus t = statusDone) ts) \<and>
        find s' = (\<lambda>i. if \<exists>t\<in>set ts. getStatus t = statusDone \<and> todoId t = i then None else find s i))"
    using l pruneLoop_spec [OF assms(1,2), of w 1 ts 0 s1 k e] s' a by (auto simp: listed_def)
qed

end

subsection \<open>The calls of all three interfaces\<close>

text \<open>What a call needs beside the store: the owners of conversations, the projects, the users' identifiers.\<close>

datatype todo_call =
    ConversationTool "(string \<times> bool) option" string todo_arguments
  | ProjectTool "(string \<times> bool) option" todo_arguments
  | SocketBatch "string \<times> bool" string "batch_item list"

fun runTodoCall ::
  "'s todo_ops \<Rightarrow> (string \<Rightarrow> string) \<Rightarrow> (string \<Rightarrow> string option) \<Rightarrow> store_error + (string \<times> string option) list \<Rightarrow> bool \<Rightarrow>
   (nat \<Rightarrow> todo_weather) \<Rightarrow> todo_call \<Rightarrow> 's \<Rightarrow> 's" where
  "runTodoCall ops lower owner projects hub w (ConversationTool user c a) s =
     fst (conversationTodoExecute ops lower owner hub c user w a s)"
| "runTodoCall ops lower owner projects hub w (ProjectTool user a) s = fst (projectTodoExecute ops lower projects user w a s)"
| "runTodoCall ops lower owner projects hub w (SocketBatch user c items) s =
     fst (handleConversationsTodosBatch ops owner user w c items s)"

lemma rpc_batch:
  assumes "verifyConversationAccess owner user c" "c \<noteq> []"
  shows "handleConversationsTodosBatch ops owner user w c items s =
    (case executeBatch ops True w c (fst user) items s of
       (s', effects, Inr a) \<Rightarrow> (s', effects, Inr a)
     | (s', effects, Inl e) \<Rightarrow> (s', effects, Inl (case e of
           TodoCallFailed e \<Rightarrow> ServerError e | TooManyItems n \<Rightarrow> TooManyRpcItems n | _ \<Rightarrow> BadRequest)))"
proof -
  have one: "executeRpcBatchItem ops c = executeBatchItem ops c"
    by (simp add: executeRpcBatchItem_def executeBatchItem_def batchAdd_def)
  show ?thesis
  proof (cases "items = [] \<or> length items > 50")
    case True
    then show ?thesis using assms(2)
      by (cases "items = []") (simp_all add: handleConversationsTodosBatch_def executeBatch_def runBatch_def)
  next
    case False
    then show ?thesis using assms
      by (simp add: handleConversationsTodosBatch_def executeBatch_def runBatch_def one emitTodoBatchEvent_def Let_def
        split: prod.split option.split)
  qed
qed

context todo_store
begin

lemma runTodoCall_keeps:
  assumes "serves ops create modify delete listing transaction" "sound s" "working s" "\<And>k. steady (w k)"
    "fresh_ids w 0 (find s)" "todos_ok (find s)"
  shows "sound (runTodoCall ops lower owner projects hub w call s) \<and> working (runTodoCall ops lower owner projects hub w call s) \<and>
    todos_ok (find (runTodoCall ops lower owner projects hub w call s))"
proof -
  have batch: "sound s' \<and> working s' \<and> todos_ok (find s')"
    if "builder build" "runBatch ops (dispatchItem ops (addTodo ops build)) w events touch p c items s = (s', r)"
    for build events touch p c items s' r
    using runBatch_spec [OF assms(1) that(1) assms(2-5), of events touch p c items s' "fst r" "snd r"] that(2) assms(6) by simp
  have conversation: "sound (fst (executeBatch ops h w c u items s)) \<and> working (fst (executeBatch ops h w c u items s)) \<and>
      todos_ok (find (fst (executeBatch ops h w c u items s)))"
    for h c u items
    using batch [OF builders(1)] by (metis batchAdd_def executeBatchItem_def executeBatch_def prod.collapse)
  have project: "sound (fst (projectExecuteBatch ops w p items s)) \<and> working (fst (projectExecuteBatch ops w p items s)) \<and>
      todos_ok (find (fst (projectExecuteBatch ops w p items s)))"
    for p items
    using batch [OF builders(2)] by (metis projectBatchAdd_def projectBatchItem_def projectExecuteBatch_def prod.collapse)
  have prune: "sound (fst (runPrune ops w effects p c s)) \<and> working (fst (runPrune ops w effects p c s)) \<and>
      todos_ok (find (fst (runPrune ops w effects p c s)))"
    for effects p c
    using runPrune_spec(1) [OF assms(1-3)] assms(6) by (metis prod.collapse)
  show ?thesis
  proof (cases call)
    case (ConversationTool user c a)
    then show ?thesis
      using conversation prune assms(2,3,6)
      by (simp add: conversationTodoExecute_def executePrune_def Let_def split: option.split prod.split)
  next
    case (ProjectTool user a)
    then show ?thesis
      using project prune assms(2,3,6)
      by (simp add: projectTodoExecute_def projectExecutePrune_def Let_def split: option.split prod.split sum.split)
  next
    case (SocketBatch user c items)
    show ?thesis
    proof (cases "verifyConversationAccess owner user c \<and> c \<noteq> []")
      case True
      then show ?thesis
        using SocketBatch conversation [of True c "fst user" items] rpc_batch [of owner user c ops w items s]
        by (auto split: prod.splits sum.splits)
    next
      case False
      then show ?thesis using SocketBatch assms(2,3,6) by (auto simp: handleConversationsTodosBatch_def)
    qed
  qed
qed

lemma dispatch_working:
  assumes "serves ops create modify delete listing transaction" "dispatchItem ops (addTodo ops build) w n item s = (s', r)"
    "working s'"
  shows "working s"
  using assms(2,3) create_working [of w "build (newTodoId w) item" s] modify_working [of w "itemTodoId item" _ s]
    delete_working [of w "itemTodoId item" s]
  by (auto simp: dispatchItem_def addTodo_def modifyTodo_def batchUpdate_def batchComplete_def batchReopen_def batchDelete_def
      serves_sel [OF assms(1)] split: if_splits prod.splits sum.splits option.splits)

lemma batchItems_working:
  assumes "serves ops create modify delete listing transaction"
  shows "batchItems (dispatchItem ops (addTodo ops build)) w n items s = (s', rs) \<Longrightarrow> working s' \<Longrightarrow> working s"
proof (induction items arbitrary: n s rs)
  case Nil
  then show ?case by simp
next
  case (Cons item items)
  obtain s1 r rs' where "dispatchItem ops (addTodo ops build) (w n) n item s = (s1, r)"
    "batchItems (dispatchItem ops (addTodo ops build)) w (Suc n) items s1 = (s', rs')"
    using Cons.prems(1) by (auto split: prod.splits)
  then show ?case using Cons.IH Cons.prems(2) dispatch_working [OF assms] by blast
qed

lemma delete_any:
  assumes "serves ops create modify delete listing transaction" "sound s" "working s" "named i" "find s i \<noteq> None" "i \<noteq> []"
    "\<not> storeFails (w 0)" "\<not> storeFails (w 1)" "itemOp item = ''delete''" "itemTodoId item = i"
    "\<And>s'. delete (w 0) i s = (s', None) \<Longrightarrow> working s'"
  shows "\<exists>s' effects a. executeBatch ops hub w c u [item] s = (s', effects, Inr a) \<and> find s' = (find s)(i := None)"
proof -
  obtain s1 where d: "delete (w 0) i s = (s1, None)" using delete_known [OF assms(2-5,7)] by blast
  have "find s1 = (find s)(i := None)" using delete_done [OF assms(2) d] assms(4) by blast
  moreover have "transaction (w 1) s (s1, None) = (s1, None)" using transaction_known [OF assms(8)] assms(11) [OF d] by simp
  ultimately show ?thesis
    using d assms(6,9,10) by (simp add: executeBatch_def runBatch_def executeBatchItem_def dispatchItem_def batchDelete_def
      serves_sel [OF assms(1)] Let_def)
qed

end

lemma owned_batch:
  assumes "c \<noteq> []" "owner c = Some user" "argConversation a = c" "argAction a = ''batch''" "argItems a = [item]"
  shows "conversationTodoExecute ops lower owner hub r (Some (user, False)) w a x = executeBatch ops hub w c user [item] x"
  using assms by (simp add: conversationTodoExecute_def)

subsection \<open>Properties\<close>

text \<open>C26: Whatever is called on the todos, through either tool or the websocket, by whomever, with whatever
  arguments, every stored todo keeps a title and is either open and without a time of completion or done and with
  one, and every todo stays stored under its own identifier. New identifiers must be unused. In the database this
  holds whatever statement fails; on the file store whatever call fails, as long as no write of a file breaks off
  after the file was truncated.\<close>

theorem todos_stay_consistent:
  assumes "fsTodosSound s" "fresh_ids w 0 (fsTodos s)" "todos_ok (fsTodos s)" "\<And>k. tornWrite (w k) = None"
    and "dbTodosSound t" "fresh_ids v 0 (dbTodos t)" "todos_ok (dbTodos t)"
  shows "fsTodosSound (runTodoCall (fsTodoOps conversations glob) lower owner projects hub w call s) \<and>
      todos_ok (fsTodos (runTodoCall (fsTodoOps conversations glob) lower owner projects hub w call s)) \<and>
      dbTodosSound (runTodoCall dbTodoOps lower owner projects hub v call t) \<and>
      todos_ok (dbTodos (runTodoCall dbTodoOps lower owner projects hub v call t))"
proof -
  have t: "dbRowsSound t" "\<not> aborted t" using assms(5) by (simp_all add: dbTodosSound_def)
  show ?thesis
    using fsTodoStore.runTodoCall_keeps [OF stores_serve(1) assms(1) _ assms(4,2,3)]
      dbTodoStore.runTodoCall_keeps [OF stores_serve(2) t _ assms(6,7)]
    unfolding dbTodosSound_def by blast
qed

text \<open>C25: A batch of the conversation tool does to the stored todos exactly what its results say, on either store.
  When the call answers, there is one result per item, in order and under its index. An item succeeds only if it
  can be carried out (a title to add, an existing todo to change or delete) and always does when the store works
  and takes the value (a place for a new todo in the file store, titles of at most 512 and priorities of at most
  16 characters in the database); a success adds the described todo, changes exactly the fields the item names and
  leaves the rest and its conversation alone, or deletes it, and a failure changes nothing. The summary counts the
  results. When the call fails as a whole, as it does in the database as soon as one statement of the batch fails,
  nothing has changed. New identifiers must be unused; on the file store the identifiers must not hold characters
  that are special in a pattern, and no write may break off after the file was truncated.\<close>

theorem todo_batches_refine:
  assumes "fsTodosSound s" "fresh_ids w 0 (fsTodos s)" "\<forall>item\<in>set items. literal glob (itemTodoId item)"
    and "\<And>k. tornWrite (w k) = None"
    and "executeBatch (fsTodoOps conversations glob) hub w c user items s = (s', effects, a)"
    and "dbTodosSound t" "fresh_ids v 0 (dbTodos t)"
    and "executeBatch dbTodoOps hub v c user items t = (t', effects', b)"
  shows "(case a of Inl e \<Rightarrow> s' = s \<and> effects = []
      | Inr a \<Rightarrow> batch_spec (fsHome conversations) (\<lambda>_. True) (conversationTodo c) w 0 items (answerResults a) (fsTodos s) (fsTodos s') \<and>
          answerSummary a = Some (length items, countSucceeded (answerResults a), length items - countSucceeded (answerResults a))) \<and>
    (case b of Inl e \<Rightarrow> t' = t \<and> effects' = []
      | Inr b \<Rightarrow> batch_spec fitsColumns fitsUpdate (conversationTodo c) v 0 items (answerResults b) (dbTodos t) (dbTodos t') \<and>
          answerSummary b = Some (length items, countSucceeded (answerResults b), length items - countSucceeded (answerResults b)))"
proof -
  note unfold = executeBatch_def executeBatchItem_def batchAdd_def
  have t: "dbRowsSound t" "\<not> aborted t" using assms(6) by (simp_all add: dbTodosSound_def)
  show ?thesis
    using fsTodoStore.runBatch_spec [OF stores_serve(1) builders(1) assms(1) _ assms(4,2) assms(5) [unfolded unfold]]
      dbTodoStore.runBatch_spec [OF stores_serve(2) builders(1) t _ assms(7) assms(8) [unfolded unfold]] assms(3)
    by (simp split: sum.splits)
qed

text \<open>C27: A user who owns any conversation can delete every todo of every other conversation and project by its identifier.
  The tool checks that the conversation of the call belongs to the user, but the items of the batch name todos of the
  whole store and nothing compares where they belong. The same call of the project tool is refused to a user who is no
  administrator.\<close>

theorem todo_ids_cross_conversations:
  assumes "fsTodosSound s" "literal glob i" "fsTodos s i \<noteq> None" "dbTodosSound t" "dbTodos t i \<noteq> None" "i \<noteq> []"
    and "\<not> storeFails (w 0)" "\<not> storeFails (w 1)"
    and "c \<noteq> []" "owner c = Some user" "argConversation a = c" "argAction a = ''batch''"
    and "argItems a = [item]" "itemOp item = ''delete''" "itemTodoId item = i"
  shows "fsTodos (fst (conversationTodoExecute (fsTodoOps conversations glob) lower owner hub r (Some (user, False)) w a s)) =
        (fsTodos s)(i := None) \<and>
      dbTodos (fst (conversationTodoExecute dbTodoOps lower owner hub r (Some (user, False)) w a t)) = (dbTodos t)(i := None) \<and>
      projectTodoExecute (fsTodoOps conversations glob) lower projects (Some (user, False)) w a s = (s, [], Inl AdminRequired)"
proof -
  note e = owned_batch [of c owner user a item, OF assms(9-13)]
  have t: "dbRowsSound t" "\<not> aborted t" using assms(4) by (simp_all add: dbTodosSound_def)
  have live: "\<not> aborted t'" if "dbDeleteTodo (w 0) i t = (t', None)" for t'
    using that t(2) by (auto simp: dbDeleteTodo_def split: if_splits)
  show ?thesis
    using fsTodoStore.delete_any [OF stores_serve(1) assms(1) TrueI assms(2,3,6-8,14,15), of conversations hub c user]
      dbTodoStore.delete_any [OF stores_serve(2) t TrueI assms(5,6-8,14,15) live, of hub c user] assms(12)
    by (auto simp: e projectTodoExecute_def)
qed

lemma long_title_aborts:
  assumes "itemOp item = ''add''" "length (runes (itemTitle item)) > 512"
    "dispatchItem dbTodoOps (addTodo dbTodoOps (conversationTodo c)) w n item t = (t', r)"
  shows "aborted t'"
proof -
  have "itemTitle item \<noteq> []" using assms(2) by (auto simp: runes_def)
  moreover have "\<not> fitsColumns (dbCompleteTodo w (conversationTodo c i item))" for i
    using assms(2) by (simp add: fitsColumns_def fitsUpdate_def dbCompleteTodo_def throughRecord_def conversationTodo_def
        itemTodo_def getTitle_def Let_def)
  ultimately show ?thesis
    using assms(1,3) by (auto simp: dispatchItem_def addTodo_def dbTodoOps_def dbCreateTodo_def Let_def split: if_splits)
qed

lemma long_title_batch:
  "\<exists>item\<in>set items. itemOp item = ''add'' \<and> length (runes (itemTitle item)) > 512 \<Longrightarrow>
   batchItems (dispatchItem dbTodoOps (addTodo dbTodoOps (conversationTodo c))) w n items t = (t', rs) \<Longrightarrow> aborted t'"
proof (induction items arbitrary: n t rs)
  case Nil
  then show ?case by simp
next
  case (Cons item items)
  obtain t1 r rs' where one: "dispatchItem dbTodoOps (addTodo dbTodoOps (conversationTodo c)) (w n) n item t = (t1, r)"
    and rest: "batchItems (dispatchItem dbTodoOps (addTodo dbTodoOps (conversationTodo c))) w (Suc n) items t1 = (t', rs')"
    using Cons.prems(2) by (auto split: prod.splits)
  show ?case
  proof (cases "itemOp item = ''add'' \<and> length (runes (itemTitle item)) > 512")
    case True
    then have "aborted t1" using long_title_aborts one by blast
    then show ?thesis using dbTodoStore.batchItems_working [OF stores_serve(2) rest] by blast
  next
    case False
    then show ?thesis using Cons.IH [OF _ rest] Cons.prems(1) by auto
  qed
qed

text \<open>In the database one title of more than 512 characters fails the whole batch, of at most 50 items. The
  statement that stores it fails and aborts the transaction of the batch, so none of the other items is carried
  out, whatever they are, and the call reports a single error instead of a result for each item.\<close>

theorem long_title_fails_the_batch:
  assumes "length items \<le> 50" and "item \<in> set items" and "itemOp item = ''add''" and "length (runes (itemTitle item)) > 512"
  shows "executeBatch dbTodoOps hub w c user items t = (t, [], Inl (TodoCallFailed OsError))"
proof -
  obtain t' rs where b: "batchItems (dispatchItem dbTodoOps (addTodo dbTodoOps (conversationTodo c))) w 0 items t = (t', rs)"
    by fastforce
  have "aborted t'" using long_title_batch [OF _ b] assms(2-4) by blast
  moreover have "items \<noteq> []" using assms(2) by auto
  ultimately show ?thesis
    using assms(1) b unfolding executeBatch_def executeBatchItem_def batchAdd_def
    by (simp add: runBatch_def dbTodoTransaction_def dbTodoOps_def Let_def)
qed

text \<open>On the file store an update that fails can destroy the todo. (Its identifier holds no character special in
  a pattern.) The file is truncated before it is written; when the write then fails, the item is reported as
  failed, and in the place of the todo stands what was written so far, a todo without a title when that is
  nothing.\<close>

theorem failed_update_destroys_the_todo:
  assumes "fsTodosSound s" and "literal glob i" and "fsTodos s i \<noteq> None" and "i \<noteq> []"
    and "storeFails (w 0)" and "tornWrite (w 0) = Some (part, True)"
    and "itemOp item = ''update''" and "itemTodoId item = i"
  shows "\<exists>s' effects a. executeBatch (fsTodoOps conversations glob) hub w c user [item] s = (s', effects, Inr a) \<and>
    map resultSuccess (answerResults a) = [False] \<and> fsTodos s' i = Some part"
proof -
  have d: "distinct (map fileName s)" using assms(1) by (simp add: fsTodosSound_def)
  obtain k where k: "findTodoFilePath glob i s = Some k" using fs_find_literal(1) [OF assms(1,2)] assms(3) by blast
  obtain f where "f \<in> set s" "k = (filePlace f, fileName f)" "glob i (fileName f)" using findTodoFilePath_some [OF k] by blast
  then have name: "snd k = i" using assms(2) by (simp add: literal_def)
  obtain t where t: "readTodoFile k s = Inr t" using fs_find_literal(2) [OF assms(1,2) k] by blast
  have "fsModifyTodo glob (w 0) i g s = (putTodoFile k part True s, Inl OsError)" for g
    using k t assms(5,6) by (simp add: fsModifyTodo_def writeTodoFile_def Let_def)
  moreover have "fsTodos (putTodoFile k part True s) i = Some part"
    using name by (simp add: putTodoFile_def fsTodos_def)
  ultimately show ?thesis
    using assms(4,7,8) by (simp add: executeBatch_def runBatch_def executeBatchItem_def dispatchItem_def batchUpdate_def
      modifyTodo_def fsTodoOps_def fsTodoTransaction_def failed_def Let_def)
qed

subsection \<open>Witnesses\<close>

definition exampleTodo :: "string \<Rightarrow> todo" where
  "exampleTodo i = (conversationTodo ''c1'' i \<lparr> itemOp = [], itemTodoId = [], itemTitle = ''t'', itemDescription = [],
     itemPriority = [], itemTags = None \<rparr>)"

definition exampleFiles :: "todo_file list" where
  "exampleFiles = [\<lparr> filePlace = ConversationPlace ''u'' ''a'' ''c1'', fileName = ''i'',
     fileTodo = exampleTodo ''i'', fileReadable = True \<rparr>]"

definition exampleTable :: todo_table where
  "exampleTable = \<lparr> rows = [exampleTodo ''i''], aborted = False \<rparr>"

definition exampleWeather :: "nat \<Rightarrow> todo_weather" where
  "exampleWeather k = \<lparr> storeFails = False, tornWrite = None, newTodoId = replicate (Suc k) (CHR ''x''), todoClock = k \<rparr>"

definition exampleDeletion :: batch_item where
  "exampleDeletion = \<lparr> itemOp = ''delete'', itemTodoId = ''i'', itemTitle = [], itemDescription = [], itemPriority = [],
     itemTags = None \<rparr>"

definition exampleArguments :: todo_arguments where
  "exampleArguments = \<lparr> argAction = ''batch'', argConversation = ''mine'', argProject = [], argProjectName = [], argStatus = [],
     argTag = [], argItems = [exampleDeletion] \<rparr>"

definition exampleConversations :: "string \<Rightarrow> (string \<times> string) option" where
  "exampleConversations c = (if c = ''c1'' then Some (''u'', ''a'') else if c = ''mine'' then Some (''v'', ''a'') else None)"

lemma example_sound: "fsTodosSound exampleFiles" "dbTodosSound exampleTable"
  by (simp_all add: fsTodosSound_def exampleFiles_def dbTodosSound_def dbRowsSound_def exampleTable_def exampleTodo_def conversationTodo_def itemTodo_def)

lemma example_todos:
  "fsTodos exampleFiles = [''i'' \<mapsto> exampleTodo ''i'']" "dbTodos exampleTable = [''i'' \<mapsto> exampleTodo ''i'']"
  by (simp_all add: fsTodos_def dbTodos_def rowWith_map_of exampleFiles_def exampleTable_def exampleTodo_def conversationTodo_def itemTodo_def)

lemma example_fresh: "fresh_ids exampleWeather 0 [''i'' \<mapsto> t]"
  by (auto simp: fresh_ids_def exampleWeather_def inj_on_def Cons_replicate_eq dest: arg_cong [where f = size])

lemma example_calm: "tornWrite (exampleWeather k) = None"
  by (simp add: exampleWeather_def)

lemma example_ok: "todos_ok [''i'' \<mapsto> exampleTodo ''i'']"
  by (simp add: todos_ok_def exampleTodo_def conversationTodo_def itemTodo_def todo_ok_def getTitle_def getStatus_def)

lemma example_literal: "literal (=) i"
  by (auto simp: literal_def)

lemma example_home: "conversationOf (exampleTodo ''i'') = Some ''c1''"
  by (simp add: exampleTodo_def conversationTodo_def)

theorem todos_stay_consistent_witness:
  "todos_ok (dbTodos (runTodoCall dbTodoOps id (\<lambda>_. Some ''v'') (Inr []) True exampleWeather
     (ConversationTool (Some (''v'', False)) [] exampleArguments) exampleTable))"
  using todos_stay_consistent [where conversations = exampleConversations and glob = "(=)" and s = exampleFiles and
      t = exampleTable and w = exampleWeather and v = exampleWeather and lower = id and owner = "\<lambda>_. Some ''v''" and
      projects = "Inr []" and hub = True and call = "ConversationTool (Some (''v'', False)) [] exampleArguments"]
    example_sound example_todos example_fresh example_ok example_calm by simp

lemma example_batches:
  "executeBatch (fsTodoOps exampleConversations (=)) True exampleWeather ''mine'' ''v'' [exampleDeletion] exampleFiles =
     ([], [TouchConversation ''mine'', BatchEvent ''mine'' ''v'' [succeeded 0 ''delete'' None ''i'']],
      Inr \<lparr> answerTodos = [], answerResults = [succeeded 0 ''delete'' None ''i''], answerSummary = Some (1, 1, 0),
        totalCount = 0, openCount = 0, doneCount = 0 \<rparr>)"
  "executeBatch dbTodoOps True exampleWeather ''mine'' ''v'' [exampleDeletion] exampleTable =
     (\<lparr> rows = [], aborted = False \<rparr>, [TouchConversation ''mine'', BatchEvent ''mine'' ''v'' [succeeded 0 ''delete'' None ''i'']],
      Inr \<lparr> answerTodos = [], answerResults = [succeeded 0 ''delete'' None ''i''], answerSummary = Some (1, 1, 0),
        totalCount = 0, openCount = 0, doneCount = 0 \<rparr>)"
  by code_simp+

theorem todo_batches_refine_witness:
  "batch_spec (fsHome exampleConversations) (\<lambda>_. True) (conversationTodo ''mine'') exampleWeather 0 [exampleDeletion]
     [succeeded 0 ''delete'' None ''i''] (fsTodos exampleFiles) (fsTodos []) \<and>
   batch_spec fitsColumns fitsUpdate (conversationTodo ''mine'') exampleWeather 0 [exampleDeletion]
     [succeeded 0 ''delete'' None ''i''] (dbTodos exampleTable) (dbTodos \<lparr> rows = [], aborted = False \<rparr>)"
  using todo_batches_refine [OF example_sound(1) _ _ example_calm example_batches(1) example_sound(2) _ example_batches(2)]
    example_fresh example_literal by (simp add: example_todos)

theorem todo_ids_cross_conversations_witness:
  "fsTodos (fst (conversationTodoExecute (fsTodoOps exampleConversations (=)) id (map_option fst \<circ> exampleConversations) True []
     (Some (''v'', False)) exampleWeather exampleArguments exampleFiles)) ''i'' = None \<and>
   conversationOf (exampleTodo ''i'') = Some ''c1''"
  using todo_ids_cross_conversations [where s = exampleFiles and glob = "(=)" and i = "''i''" and t = exampleTable and
      w = exampleWeather and c = "''mine''" and owner = "map_option fst \<circ> exampleConversations" and user = "''v''" and
      a = exampleArguments and item = exampleDeletion and conversations = exampleConversations and lower = id and
      hub = True and r = "[]" and projects = "Inr []"]
    example_sound example_literal example_home
  by (simp add: example_todos exampleWeather_def exampleConversations_def exampleArguments_def exampleDeletion_def)

theorem long_title_fails_the_batch_witness:
  "let item = exampleDeletion\<lparr> itemOp := ''add'', itemTitle := replicate 513 (CHR ''t'') \<rparr> in
   executeBatch dbTodoOps True exampleWeather ''mine'' ''v'' [exampleDeletion, item] exampleTable =
     (exampleTable, [], Inl (TodoCallFailed OsError))"
proof -
  have "length (runes (replicate 513 (CHR ''t''))) = 513" by (subst ascii_string) simp_all
  then show ?thesis
    using long_title_fails_the_batch [of "[exampleDeletion, exampleDeletion\<lparr> itemOp := ''add'', itemTitle := replicate 513 (CHR ''t'') \<rparr>]"
        "exampleDeletion\<lparr> itemOp := ''add'', itemTitle := replicate 513 (CHR ''t'') \<rparr>"] by (simp add: Let_def)
qed

theorem failed_update_destroys_the_todo_witness:
  "let w = (\<lambda>_. (exampleWeather 0)\<lparr> storeFails := True, tornWrite := Some ((exampleTodo [])\<lparr> todoTitle := None \<rparr>, True) \<rparr>);
       item = exampleDeletion\<lparr> itemOp := ''update'', itemTitle := ''new'' \<rparr> in
   \<exists>s' effects a. executeBatch (fsTodoOps exampleConversations (=)) True w ''mine'' ''v'' [item] exampleFiles = (s', effects, Inr a) \<and>
     map_option getTitle (fsTodos exampleFiles ''i'') = Some ''t'' \<and> map_option getTitle (fsTodos s' ''i'') = Some []"
proof -
  let ?w = "\<lambda>_::nat. (exampleWeather 0)\<lparr> storeFails := True, tornWrite := Some ((exampleTodo [])\<lparr> todoTitle := None \<rparr>, True) \<rparr>"
  let ?item = "exampleDeletion\<lparr> itemOp := ''update'', itemTitle := ''new'' \<rparr>"
  have "map_option getTitle (fsTodos exampleFiles ''i'') = Some ''t''"
    by (simp add: example_todos exampleTodo_def conversationTodo_def itemTodo_def getTitle_def)
  moreover have "getTitle ((exampleTodo [])\<lparr> todoTitle := None \<rparr>) = []" by (simp add: getTitle_def)
  ultimately show ?thesis
    using failed_update_destroys_the_todo [OF example_sound(1) example_literal, of "''i''" ?w _ ?item exampleConversations True "''mine''" "''v''"]
    by (auto simp: Let_def example_todos exampleDeletion_def)
qed

end
