(* ===== verification/CommandPolicy.thy ===== *)
theory CommandPolicy
  imports GoStrings ToolRegistry
begin

text \<open>
  The classification of shell commands (\<open>util/commandpolicy/commandpolicy.go\<close>) and the tool that runs them
  (\<open>tools/shell/shell.go\<close>). The patterns are regular expressions of the package \<open>regexp\<close> over runes; a small
  datatype has the constructs they use, an inductive predicate its meaning, and \<open>run\<close> decides it.
\<close>

subsection \<open>Regular expressions\<close>

datatype rx =
    Eps
  | TextBegin
  | TextEnd
  | One "rune \<Rightarrow> bool"
  | Many "rune \<Rightarrow> bool"
  | Then rx rx
  | Or rx rx

text \<open>\<open>matches r b u v\<close>: the text u matches r, v is what follows it, and b says that nothing precedes it.\<close>

inductive matches :: "rx \<Rightarrow> bool \<Rightarrow> rune list \<Rightarrow> rune list \<Rightarrow> bool" where
  eps: "matches Eps b [] v"
| text_begin: "matches TextBegin True [] v"
| text_end: "matches TextEnd b [] []"
| one: "f c \<Longrightarrow> matches (One f) b [c] v"
| many: "\<forall>c\<in>set u. f c \<Longrightarrow> matches (Many f) b u v"
| then_both: "matches r b u (v @ w) \<Longrightarrow> matches q (b \<and> u = []) v w \<Longrightarrow> matches (Then r q) b (u @ v) w"
| or_left: "matches r b u v \<Longrightarrow> matches (Or r q) b u v"
| or_right: "matches q b u v \<Longrightarrow> matches (Or r q) b u v"

inductive_simps matches_simps [simp]:
  "matches Eps b u v"
  "matches TextBegin b u v"
  "matches TextEnd b u v"
  "matches (One f) b u v"
  "matches (Many f) b u v"
  "matches (Or r q) b u v"

inductive_simps matches_Then: "matches (Then r q) b u v"

text \<open>All that a match may leave over, each with the mark that nothing was read yet.\<close>

fun manyRests :: "(rune \<Rightarrow> bool) \<Rightarrow> bool \<times> rune list \<Rightarrow> (bool \<times> rune list) list" where
  "manyRests f (b, []) = [(b, [])]"
| "manyRests f (b, c # s) = (b, c # s) # (if f c then manyRests f (False, s) else [])"

fun run :: "rx \<Rightarrow> bool \<times> rune list \<Rightarrow> (bool \<times> rune list) list" where
  "run Eps p = [p]"
| "run TextBegin p = (if fst p then [p] else [])"
| "run TextEnd p = (if snd p = [] then [p] else [])"
| "run (One f) p = (case snd p of c # s \<Rightarrow> if f c then [(False, s)] else [] | [] \<Rightarrow> [])"
| "run (Many f) p = manyRests f p"
| "run (Then r q) p = concat (map (run q) (run r p))"
| "run (Or r q) p = run r p @ run q p"

fun anywhere :: "rx \<Rightarrow> bool \<times> rune list \<Rightarrow> bool" where
  "anywhere r (b, []) = (run r (b, []) \<noteq> [])"
| "anywhere r (b, c # s) = (run r (b, c # s) \<noteq> [] \<or> anywhere r (False, s))"

definition matchString :: "rx \<Rightarrow> string \<Rightarrow> bool" where
  "matchString r s = anywhere r (True, runes s)"

lemma manyRests_iff:
  "(b', v) \<in> set (manyRests f (b, s)) \<longleftrightarrow> (\<exists>u. s = u @ v \<and> (\<forall>c\<in>set u. f c) \<and> b' = (b \<and> u = []))"
proof (induction f "(b, s)" arbitrary: b s rule: manyRests.induct)
  case (1 f b)
  then show ?case by auto
next
  case (2 f b c s)
  show ?case
  proof (cases "v = c # s")
    case True
    then show ?thesis using 2 by (auto simp: append_eq_Cons_conv)
  next
    case False
    then show ?thesis using 2 by (auto simp: Cons_eq_append_conv)
  qed
qed

lemma run_iff: "(b', v) \<in> set (run r (b, s)) \<longleftrightarrow> (\<exists>u. s = u @ v \<and> matches r b u v \<and> b' = (b \<and> u = []))"
proof (induction r arbitrary: b s b' v)
  case (One f)
  then show ?case by (cases s) auto
next
  case (Many f)
  then show ?case by (simp add: manyRests_iff)
next
  case (Then r q)
  have "(b', v) \<in> set (run (Then r q) (b, s)) \<longleftrightarrow>
    (\<exists>b1 s1. (b1, s1) \<in> set (run r (b, s)) \<and> (b', v) \<in> set (run q (b1, s1)))" by auto
  also have "\<dots> \<longleftrightarrow> (\<exists>u1 u2. s = u1 @ u2 @ v \<and> matches r b u1 (u2 @ v) \<and> matches q (b \<and> u1 = []) u2 v \<and>
      b' = ((b \<and> u1 = []) \<and> u2 = []))"
    unfolding Then by blast
  also have "\<dots> \<longleftrightarrow> (\<exists>u1 u2. s = (u1 @ u2) @ v \<and> (matches r b u1 (u2 @ v) \<and> matches q (b \<and> u1 = []) u2 v) \<and>
      b' = (b \<and> u1 @ u2 = []))" by (simp only: append_assoc append_is_Nil_conv conj_assoc)
  finally show ?case unfolding matches_Then by blast
qed auto

lemma run_nonempty: "run r (b, s) \<noteq> [] \<longleftrightarrow> (\<exists>u v. s = u @ v \<and> matches r b u v)"
proof -
  have "run r (b, s) \<noteq> [] \<longleftrightarrow> (\<exists>p. p \<in> set (run r (b, s)))" by (cases "run r (b, s)") auto
  also have "\<dots> \<longleftrightarrow> (\<exists>b' v. (b', v) \<in> set (run r (b, s)))" by (rule split_paired_Ex)
  finally show ?thesis by (simp add: run_iff) blast
qed

lemma anywhere_iff: "anywhere r (b, s) \<longleftrightarrow> (\<exists>u v w. s = u @ v @ w \<and> matches r (b \<and> u = []) v w)"
proof (induction r "(b, s)" arbitrary: b s rule: anywhere.induct)
  case (1 r b)
  then show ?case by (simp add: run_nonempty)
next
  case (2 r b c s)
  have "(\<exists>u v w. c # s = u @ v @ w \<and> matches r (b \<and> u = []) v w) \<longleftrightarrow>
    (\<exists>v w. c # s = v @ w \<and> matches r b v w) \<or> (\<exists>u v w. s = u @ v @ w \<and> matches r False v w)"
    (is "?l \<longleftrightarrow> ?r")
  proof
    assume ?l
    then obtain u v w where "c # s = u @ v @ w" "matches r (b \<and> u = []) v w" by blast
    then show ?r by (cases u) auto
  next
    assume ?r
    then show ?l by (elim disjE exE conjE) (force intro: exI [of _ "[]"], metis append_Cons list.distinct(1))
  qed
  then show ?case using 2 by (simp add: run_nonempty)
qed

lemma matchString_iff: "matchString r s \<longleftrightarrow> (\<exists>u v w. runes s = u @ v @ w \<and> matches r (u = []) v w)"
  by (simp add: matchString_def anywhere_iff)

subsection \<open>The classes and words of the patterns\<close>

text \<open>
  With the flag \<open>i\<close> a character class also takes the other case of its letters; beyond ASCII the letter k has the
  Kelvin sign and s the long s. The classes without letters stay as they are.
\<close>

definition orbit :: "rune \<Rightarrow> rune list" where
  "orbit r =
     (let l = (if 65 \<le> r \<and> r \<le> 90 then r + 32 else if r = 8490 then 107 else if r = 383 then 115 else r) in
      if 97 \<le> l \<and> l \<le> 122 then [l, l - 32] @ (if l = 107 then [8490] else if l = 115 then [383] else []) else [l])"

definition insensitive :: "(rune \<Rightarrow> bool) \<Rightarrow> rune \<Rightarrow> bool" where
  "insensitive f r \<longleftrightarrow> (\<exists>q\<in>set (orbit r). f q)"

definition between :: "string \<Rightarrow> string \<Rightarrow> rune \<Rightarrow> bool" where
  "between a b r \<longleftrightarrow> byte (hd a) \<le> r \<and> r \<le> byte (hd b)"

definition among :: "string \<Rightarrow> rune \<Rightarrow> bool" where
  "among cs r \<longleftrightarrow> r \<in> set (map byte cs)"

definition spaceClass :: "rune \<Rightarrow> bool" where
  "spaceClass r \<longleftrightarrow> r \<in> {9, 10, 11, 12, 13, 32}"

definition perlSpace :: "rune \<Rightarrow> bool" where
  "perlSpace r \<longleftrightarrow> r \<in> {9, 10, 12, 13, 32}"

definition separator :: "rune \<Rightarrow> bool" where
  "separator r \<longleftrightarrow> among '';&|()'' r \<or> spaceClass r"

definition noSeparator :: "rune \<Rightarrow> bool" where
  "noSeparator r \<longleftrightarrow> \<not> among '';&|'' r"

definition alnum :: "rune \<Rightarrow> bool" where
  "alnum r \<longleftrightarrow> insensitive (\<lambda>r. between ''0'' ''9'' r \<or> between ''A'' ''Z'' r \<or> between ''a'' ''z'' r) r"

definition letter :: "rune \<Rightarrow> bool" where
  "letter r \<longleftrightarrow> insensitive (between ''a'' ''z'') r"

definition digit :: "rune \<Rightarrow> bool" where
  "digit r \<longleftrightarrow> between ''0'' ''9'' r"

definition thens :: "rx list \<Rightarrow> rx" where "thens rs = foldr Then rs Eps"

fun ors :: "rx list \<Rightarrow> rx" where
  "ors [] = Eps"
| "ors [r] = r"
| "ors (r # rs) = Or r (ors rs)"

definition lit :: "char \<Rightarrow> rx" where "lit c = One (insensitive (\<lambda>r. r = byte c))"
definition word :: "string \<Rightarrow> rx" where "word s = thens (map lit s)"
definition plus :: "(rune \<Rightarrow> bool) \<Rightarrow> rx" where "plus f = Then (One f) (Many f)"

definition wordStart :: rx where "wordStart = Or TextBegin (One separator)"
definition wordEnd :: rx where "wordEnd = ors [One spaceClass, TextEnd, One (among '';&|'')]"

text \<open>The flags that hold both letters, in either order.\<close>

definition recursiveForce :: rx where
  "recursiveForce = Or (thens [Many alnum, lit (CHR ''r''), Many alnum, lit (CHR ''f'')])
                       (thens [Many alnum, lit (CHR ''f''), Many alnum, lit (CHR ''r'')])"

definition device :: rx where
  "device = ors
     [thens [word ''sd'', One letter, Many digit],
      thens [word ''vd'', One letter, Many digit],
      thens [word ''xvd'', One letter, Many digit],
      thens [word ''nvme'', plus digit, lit (CHR ''n''), plus digit, Or (lit (CHR ''p'')) Eps, Many digit],
      thens [word ''mapper/'', plus (\<lambda>r. alnum r \<or> among ''_.-'' r)]]"

subsection \<open>The patterns\<close>

definition neverRunPatterns :: "(rx \<times> string) list" where
  "neverRunPatterns =
     [(thens [wordStart, word ''rm'', plus spaceClass, Many noSeparator, lit (CHR ''-''), recursiveForce, Many alnum,
         Many noSeparator, plus spaceClass, lit (CHR ''/''), ors [lit (CHR ''*''), One spaceClass, TextEnd, One (among '';&|'')]],
       ''refusing to recursively remove the root filesystem''),
      (thens [wordStart, word ''rm'', plus spaceClass, Many noSeparator, lit (CHR ''-''), recursiveForce, Many alnum,
         Many noSeparator, plus spaceClass, word ''/*'', wordEnd],
       ''refusing to recursively remove root filesystem contents''),
      (thens [wordStart, word ''mkfs'', Or (Then (lit (CHR ''.'')) (plus (\<lambda>r. alnum r \<or> among ''_+-'' r))) Eps, plus spaceClass,
         Many noSeparator, word ''/dev/'', device],
       ''refusing to format a block device''),
      (thens [wordStart, word ''dd'', plus spaceClass, Many noSeparator, word ''of=/dev/'', device],
       ''refusing to overwrite a block device''),
      (thens [wordStart, word ''shred'', plus spaceClass, Many noSeparator, word ''/dev/'', device],
       ''refusing to shred a block device''),
      (thens (foldr (\<lambda>c rs. One (\<lambda>r. r = byte c) # Many perlSpace # rs) '':(){:|:&};'' [One (\<lambda>r. r = byte (CHR '':''))]),
       ''refusing to run a fork bomb'')]"

definition approvalPatterns :: "(rx \<times> string) list" where
  "approvalPatterns =
     [(thens [wordStart, word ''rm'', plus spaceClass, Many noSeparator, lit (CHR ''-''), recursiveForce, Many alnum, plus spaceClass],
       ''recursive forced removal requires approval''),
      (thens [wordStart, word ''sudo'', plus spaceClass], ''sudo command requires approval''),
      (thens [wordStart, word ''chmod'', plus spaceClass, Many noSeparator,
         Or (word ''777'') (thens [lit (CHR ''-''), Many alnum, lit (CHR ''R''), Many alnum])],
       ''broad chmod change requires approval''),
      (thens [wordStart, word ''chown'', plus spaceClass, Many noSeparator, lit (CHR ''-''), Many alnum, lit (CHR ''R''), Many alnum],
       ''recursive ownership change requires approval''),
      (Then wordStart (Or
         (thens [word ''systemctl'', plus spaceClass, ors (map word [''stop'', ''restart'', ''disable'', ''mask'']), plus spaceClass])
         (thens [word ''service'', plus spaceClass, plus (\<lambda>r. noSeparator r \<and> \<not> spaceClass r), plus spaceClass,
            ors (map word [''stop'', ''restart'', ''disable'', ''mask'']), wordEnd])),
       ''service control command requires approval''),
      (thens [wordStart, ors (map word [''reboot'', ''shutdown'', ''poweroff'', ''halt'']), wordEnd],
       ''system shutdown command requires approval'')]"

subsection \<open>The decision\<close>

datatype command_action = AllowCommand | RequireApproval | DenyCommand

record command_decision =
  commandAction :: command_action
  commandReason :: string
  commandRisk :: string

fun joinContinuations :: "string \<Rightarrow> string" where
  "joinContinuations (c # d # s) =
     (if c = CHR 0x5C \<and> d = CHR 0x0A then CHR '' '' # joinContinuations s else c # joinContinuations (d # s))"
| "joinContinuations s = s"

definition normalizeCommand :: "string \<Rightarrow> string" where
  "normalizeCommand command = join '' '' (Utf8.fields (joinContinuations command))"

definition allowCommand :: command_decision where
  "allowCommand = \<lparr> commandAction = AllowCommand, commandReason = [], commandRisk = [] \<rparr>"

definition evaluate :: "string \<Rightarrow> command_decision" where
  "evaluate command =
     (let normalized = normalizeCommand command in
      if normalized = [] then allowCommand
      else case List.find (\<lambda>e. matchString (fst e) normalized) neverRunPatterns of
          Some e \<Rightarrow> \<lparr> commandAction = DenyCommand, commandReason = snd e, commandRisk = ''critical'' \<rparr>
        | None \<Rightarrow>
            (case List.find (\<lambda>e. matchString (fst e) normalized) approvalPatterns of
               Some e \<Rightarrow> \<lparr> commandAction = RequireApproval, commandReason = snd e, commandRisk = ''high'' \<rparr>
             | None \<Rightarrow> allowCommand))"

definition isShellInterpreter :: "string \<Rightarrow> bool" where
  "isShellInterpreter command =
     (let command = trim_space command;
          command = (case last_index_byte command (CHR ''/'') of None \<Rightarrow> command | Some i \<Rightarrow> drop (i + 1) command) in
      command \<in> {''sh'', ''bash'', ''zsh'', ''dash'', ''ksh''})"

definition evaluateCommandParts :: "string list \<Rightarrow> command_decision" where
  "evaluateCommandParts parts =
     (if parts = [] then allowCommand
      else if length parts \<ge> 3 \<and> isShellInterpreter (parts ! 0) \<and> parts ! 1 = ''-c'' then evaluate (parts ! 2)
      else evaluate (join '' '' parts))"

subsection \<open>The shell tool\<close>

definition shellCommandPolicyDecision :: "string \<Rightarrow> policy_decision" where
  "shellCommandPolicyDecision command =
     (let decision = evaluate command in
      case commandAction decision of
        DenyCommand \<Rightarrow> denyPolicy (commandReason decision)
      | RequireApproval \<Rightarrow> approvalPolicy (commandReason decision) (commandRisk decision)
      | AllowCommand \<Rightarrow> allowPolicy)"

definition enforceShellCommandBlocklist :: "string \<Rightarrow> string option" where
  "enforceShellCommandBlocklist command =
     (let decision = evaluate command in if commandAction decision = DenyCommand then Some (commandReason decision) else None)"

definition second :: int where "second = 1000000000"
definition defaultTimeout :: int where "defaultTimeout = 120 * second"
definition maxTimeout :: int where "maxTimeout = 600 * second"
definition maxOutputBytes :: nat where "maxOutputBytes = 256 * 1024"

record shell_arguments =
  shellCommand :: string
  shellDirectory :: string
  shellTimeout :: int
  shellEnvironment :: "(string \<times> string) list"

text \<open>What \<open>cmdexec.Run\<close> starts, and what comes of it; the context is over when the timeout is.\<close>

record process =
  processCommand :: "string list"
  processDirectory :: string
  processEnvironment :: "string list"
  processTimeout :: int

record process_result =
  processOut :: string
  processErr :: string
  processExit :: int
  processFailed :: bool
  processExpired :: bool

datatype shell_error = NoShellArguments | CommandRequired | CommandBlocked string | NoHomeDirectory | ShellFailed

record shell_output =
  shellOut :: string
  shellErr :: string
  shellExit :: int
  outTruncated :: bool
  errTruncated :: bool
  shellTimedOut :: bool

definition resolveTimeout :: "int \<Rightarrow> int" where
  "resolveTimeout t =
     (if t > 0 then let timeout = wrap64 (t * second) in if timeout > maxTimeout then maxTimeout else timeout
      else defaultTimeout)"

definition shellOutcome :: "process_result \<Rightarrow> shell_error + shell_output" where
  "shellOutcome r =
     (if processFailed r \<and> \<not> processExpired r then Inl ShellFailed
      else Inr \<lparr> shellOut = take maxOutputBytes (processOut r), shellErr = take maxOutputBytes (processErr r),
        shellExit = (if processFailed r then - 1 else processExit r),
        outTruncated = length (processOut r) > maxOutputBytes, errTruncated = length (processErr r) > maxOutputBytes,
        shellTimedOut = processExpired r \<rparr>)"

definition shellExecute ::
  "string option \<Rightarrow> (process \<Rightarrow> process_result) \<Rightarrow> shell_arguments option \<Rightarrow> process option \<times> (shell_error + shell_output)" where
  "shellExecute home exec arguments =
     (case arguments of
        None \<Rightarrow> (None, Inl NoShellArguments)
      | Some a \<Rightarrow>
          if shellCommand a = [] then (None, Inl CommandRequired)
          else case enforceShellCommandBlocklist (shellCommand a) of
              Some reason \<Rightarrow> (None, Inl (CommandBlocked reason))
            | None \<Rightarrow>
                if shellDirectory a = [] \<and> home = None then (None, Inl NoHomeDirectory)
                else
                  (let p = \<lparr> processCommand = [''sh'', ''-c'', shellCommand a],
                             processDirectory = (if shellDirectory a = [] then the home else shellDirectory a),
                             processEnvironment = map (\<lambda>(k, v). k @ ''='' @ v) (shellEnvironment a),
                             processTimeout = resolveTimeout (shellTimeout a) \<rparr> in
                   (Some p, shellOutcome (exec p))))"

subsection \<open>The shell actions of skills\<close>

text \<open>\<open>instantiate\<close> is the template engine on the arguments of the call.\<close>

definition evaluateSkillShellAction :: "(string \<Rightarrow> string) \<Rightarrow> string list \<Rightarrow> command_decision" where
  "evaluateSkillShellAction instantiate command = evaluateCommandParts (map instantiate command)"

definition enforceSkillShellActionBlocklist :: "(string \<Rightarrow> string) \<Rightarrow> string list \<Rightarrow> string option" where
  "enforceSkillShellActionBlocklist instantiate command =
     (let decision = evaluateSkillShellAction instantiate command in
      if commandAction decision = DenyCommand then Some (commandReason decision) else None)"

definition enforceWorkflowSkillShellActionPolicy :: "(string \<Rightarrow> string) \<Rightarrow> string list \<Rightarrow> string option" where
  "enforceWorkflowSkillShellActionPolicy instantiate command =
     (let decision = evaluateSkillShellAction instantiate command in
      case commandAction decision of
        DenyCommand \<Rightarrow> Some (commandReason decision)
      | RequireApproval \<Rightarrow> Some (commandReason decision)
      | AllowCommand \<Rightarrow> None)"

definition skillShellArgumentPolicy :: "bool \<Rightarrow> (string \<Rightarrow> string) \<Rightarrow> string list \<Rightarrow> policy_decision" where
  "skillShellArgumentPolicy admin instantiate command =
     (if \<not> admin then denyPolicy ''admin access required for shell skill tool''
      else
        (let decision = evaluateSkillShellAction instantiate command in
         case commandAction decision of
           DenyCommand \<Rightarrow> denyPolicy (commandReason decision)
         | RequireApproval \<Rightarrow> approvalPolicy (commandReason decision) (commandRisk decision)
         | AllowCommand \<Rightarrow> allowPolicy))"

subsection \<open>Matching the shapes of the patterns\<close>

lemma matches_thens [simp]:
  "matches (thens []) b u v \<longleftrightarrow> u = []"
  "matches (thens (r # rs)) b u v \<longleftrightarrow>
     (\<exists>x y. u = x @ y \<and> matches r b x (y @ v) \<and> matches (thens rs) (b \<and> x = []) y v)"
  by (auto simp: thens_def matches_Then)

lemma orbit_self: "r \<in> set (orbit r)"
  by (auto simp: orbit_def Let_def)

lemma insensitive_self: "f r \<Longrightarrow> insensitive f r"
  using orbit_self by (auto simp: insensitive_def)

lemma matches_lit: "matches (lit c) b u v \<longleftrightarrow> (\<exists>r. u = [r] \<and> insensitive (\<lambda>r. r = byte c) r)"
  by (auto simp: lit_def)

lemma matches_word: "matches (word cs) b (map byte cs) v"
proof (induction cs arbitrary: b)
  case Nil
  then show ?case by (simp add: word_def)
next
  case (Cons c cs)
  have "matches (lit c) b [byte c] (map byte cs @ v)" by (simp add: matches_lit insensitive_self)
  then show ?case using Cons [of False]
    by (simp add: word_def) (intro exI [of _ "[byte c]"] exI [of _ "map byte cs"], simp)
qed

lemma matches_plus: "matches (plus f) b u v \<longleftrightarrow> u \<noteq> [] \<and> (\<forall>r\<in>set u. f r)"
proof
  assume "matches (plus f) b u v"
  then show "u \<noteq> [] \<and> (\<forall>r\<in>set u. f r)" by (auto simp: plus_def matches_Then)
next
  assume "u \<noteq> [] \<and> (\<forall>r\<in>set u. f r)"
  then show "matches (plus f) b u v"
    by (cases u) (simp_all add: plus_def matches_Then, metis append_Cons append_Nil)
qed

lemma matches_recursiveForce:
  "matches recursiveForce b u v \<Longrightarrow> (\<exists>r\<in>set u. insensitive (\<lambda>r. r = 114) r) \<and> (\<exists>r\<in>set u. insensitive (\<lambda>r. r = 102) r) \<and>
     (\<forall>r\<in>set u. alnum r \<or> insensitive (\<lambda>r. r = 114) r \<or> insensitive (\<lambda>r. r = 102) r)"
  by (auto simp: recursiveForce_def matches_lit)

lemma both_in_order:
  assumes "p \<in> set xs" "q \<in> set xs" "p \<noteq> q"
  shows "(\<exists>x y z. xs = x @ p # y @ q # z) \<or> (\<exists>x y z. xs = x @ q # y @ p # z)"
proof -
  obtain x z where xz: "xs = x @ p # z" using assms(1) by (meson split_list)
  then have "q \<in> set x \<or> q \<in> set z" using assms(2,3) by auto
  then show ?thesis
  proof
    assume "q \<in> set x"
    then obtain x1 x2 where "x = x1 @ q # x2" by (meson split_list)
    then have "xs = x1 @ q # x2 @ p # z" using xz by simp
    then show ?thesis by blast
  next
    assume "q \<in> set z"
    then obtain z1 z2 where "z = z1 @ q # z2" by (meson split_list)
    then have "xs = x @ p # z1 @ q # z2" using xz by simp
    then show ?thesis by blast
  qed
qed

lemma recursiveForce_matches:
  assumes "\<forall>r\<in>set fl. alnum r" "\<exists>r\<in>set fl. insensitive (\<lambda>r. r = 114) r" "\<exists>r\<in>set fl. insensitive (\<lambda>r. r = 102) r"
  shows "\<exists>x y. fl = x @ y \<and> matches recursiveForce b x v \<and> (\<forall>r\<in>set y. alnum r)"
proof -
  let ?r = "insensitive (\<lambda>r. r = 114)" and ?f = "insensitive (\<lambda>r. r = 102)"
  obtain p q where pq: "p \<in> set fl" "?r p" "q \<in> set fl" "?f q" using assms(2,3) by blast
  have "p \<noteq> q" using pq(2,4) by (auto simp: insensitive_def orbit_def Let_def split: if_splits)
  then have "(\<exists>x y z. fl = x @ p # y @ q # z) \<or> (\<exists>x y z. fl = x @ q # y @ p # z)"
    using both_in_order pq by metis
  then show ?thesis
  proof (elim disjE exE conjE)
    fix x y z
    assume e: "fl = x @ p # y @ q # z"
    have "matches recursiveForce b (x @ [p] @ y @ [q]) v"
      unfolding recursiveForce_def matches_simps(6) matches_thens matches_lit using e pq assms(1)
      by (intro disjI1 exI conjI refl) auto
    then show ?thesis using e assms(1) by (intro exI [of _ "x @ [p] @ y @ [q]"] exI [of _ z]) auto
  next
    fix x y z
    assume e: "fl = x @ q # y @ p # z"
    have "matches recursiveForce b (x @ [q] @ y @ [p]) v"
      unfolding recursiveForce_def matches_simps(6) matches_thens matches_lit using e pq assms(1)
      by (intro disjI2 exI conjI refl) auto
    then show ?thesis using e assms(1) by (intro exI [of _ "x @ [q] @ y @ [p]"] exI [of _ z]) auto
  qed
qed

lemma root_pattern_matches:
  assumes "before = [] \<or> separator (last before)" "\<forall>r\<in>set args. noSeparator r" "\<forall>r\<in>set mid. noSeparator r"
    and "\<forall>r\<in>set fl. alnum r" "\<exists>r\<in>set fl. insensitive (\<lambda>r. r = 114) r" "\<exists>r\<in>set fl. insensitive (\<lambda>r. r = 102) r"
    and "rest = [] \<or> hd rest = 42 \<or> spaceClass (hd rest) \<or> among '';&|'' (hd rest)"
    and "runes s = before @ map byte ''rm'' @ [32] @ args @ [45] @ fl @ mid @ [32] @ [47] @ rest"
  shows "matchString (fst (neverRunPatterns ! 0)) s"
proof -
  define u where "u = (if before = [] then [] else butlast before)"
  define x0 where "x0 = (if before = [] then [] else [last before])"
  define e where "e = take 1 rest"
  define z where "z = drop 1 rest"
  obtain x y where xy: "fl = x @ y"
    "\<And>b v. matches recursiveForce b x v" "\<forall>r\<in>set y. alnum r"
  proof -
    obtain x y where "fl = x @ y" "matches recursiveForce False x []" "\<forall>r\<in>set y. alnum r"
      using recursiveForce_matches [OF assms(4-6), of False "[]"] by blast
    moreover have "matches recursiveForce b x v" if "matches recursiveForce False x []" for b v
      using that by (auto simp: recursiveForce_def matches_lit)
    ultimately show ?thesis using that by blast
  qed
  have start: "matches wordStart (u = []) x0 v" for v
    using assms(1) by (auto simp: wordStart_def x0_def u_def)
  have last: "matches (ors [lit (CHR ''*''), One spaceClass, TextEnd, One (among '';&|'')]) b e ([] @ z)" for b
    using assms(7) by (cases rest) (auto simp: e_def z_def matches_lit insensitive_self)
  have space: "matches (plus spaceClass) b [32] v" for b v by (simp add: matches_plus spaceClass_def)
  have dash: "matches (lit (CHR ''-'')) b [45] v" "matches (lit (CHR ''/'')) b [47] v" for b v
    by (simp_all add: matches_lit insensitive_self)
  have "matches (fst (neverRunPatterns ! 0)) (u = [])
      (x0 @ map byte ''rm'' @ [32] @ args @ [45] @ x @ y @ mid @ [32] @ [47] @ e @ []) z"
    unfolding neverRunPatterns_def nth_Cons_0 fst_conv matches_thens
    by (intro exI conjI; (rule refl start matches_word space dash xy(2) last)?)
      (use assms(2,3) xy(3) in simp_all)
  moreover have "runes s = u @ (x0 @ map byte ''rm'' @ [32] @ args @ [45] @ x @ y @ mid @ [32] @ [47] @ e @ []) @ z"
    by (simp add: assms(8) xy(1) u_def x0_def e_def z_def)
  ultimately show ?thesis unfolding matchString_iff by blast
qed

lemma denied:
  assumes "matchString (fst (neverRunPatterns ! k)) (normalizeCommand c)" "k < length neverRunPatterns"
  shows "commandAction (evaluate c) = DenyCommand"
proof -
  have "normalizeCommand c \<noteq> [] \<or> commandAction (evaluate c) = DenyCommand"
  proof (rule disjCI)
    assume d: "commandAction (evaluate c) \<noteq> DenyCommand"
    show "normalizeCommand c \<noteq> []"
    proof
      assume "normalizeCommand c = []"
      then have "anywhere (fst (neverRunPatterns ! k)) (True, [])"
        using assms(1) by (simp add: matchString_def runes_def)
      then have "\<exists>e\<in>set neverRunPatterns. anywhere (fst e) (True, [])" using assms(2) nth_mem by blast
      then show False
        by (auto simp: neverRunPatterns_def run_nonempty wordStart_def word_def matches_lit)
    qed
  qed
  moreover have "List.find (\<lambda>e. matchString (fst e) (normalizeCommand c)) neverRunPatterns \<noteq> None"
    using assms nth_mem by (metis (mono_tags, lifting) find_None_iff)
  ultimately show ?thesis by (auto simp: evaluate_def Let_def)
qed

lemma blocked:
  assumes "commandAction (evaluate c) = DenyCommand"
  shows "fst (shellExecute home exec (Some (a\<lparr> shellCommand := c \<rparr>))) = None"
    "decisionAction (shellCommandPolicyDecision c) = PolicyDeny"
  using assms by (auto simp: shellExecute_def enforceShellCommandBlocklist_def Let_def shellCommandPolicyDecision_def denyPolicy_def)

subsection \<open>Commands that no pattern takes\<close>

lemma joinContinuations_none: "CHR 0x5C \<notin> set s \<Longrightarrow> joinContinuations s = s"
  by (induction s rule: joinContinuations.induct) auto

lemma fields_word:
  assumes "\<forall>c\<in>set p. byte c < 128 \<and> \<not> is_space (byte c)"
  shows "fields_from acc (pieces p) = (if acc @ p = [] then [] else [acc @ p])"
    "fields_from acc (pieces (p @ CHR '' '' # q)) =
       (if acc @ p = [] then [] else [acc @ p]) @ fields_from [] (pieces q)"
  using assms by (induction p arbitrary: acc) (auto simp: pieces_ascii is_space_def)

text \<open>A word of a pattern stands at the start of the text or behind a separator.\<close>

lemma wordStart_position:
  assumes "matchString (Then wordStart q) s"
  shows "\<exists>x v w b. runes s = x @ v @ w \<and> (x = [] \<or> separator (last x)) \<and> matches q b v w"
proof -
  obtain u v w where m: "runes s = u @ v @ w" "matches (Then wordStart q) (u = []) v w"
    using assms by (auto simp: matchString_iff)
  then obtain v1 v2 where v: "v = v1 @ v2" "matches wordStart (u = []) v1 (v2 @ w)"
    "matches q (u = [] \<and> v1 = []) v2 w"
    by (auto simp: matches_Then)
  have "u @ v1 = [] \<or> separator (last (u @ v1))" using v(2) by (auto simp: wordStart_def)
  moreover have "runes s = (u @ v1) @ v2 @ w" using m v by simp
  ultimately show ?thesis using v(3) by blast
qed

lemma matches_word_iff:
  "matches (word cs) b u v \<longleftrightarrow> list_all2 (\<lambda>c r. insensitive (\<lambda>q. q = byte c) r) cs u"
proof (induction cs arbitrary: b u)
  case Nil
  then show ?case by (simp add: word_def)
next
  case (Cons c cs)
  show ?case
  proof
    assume "matches (word (c # cs)) b u v"
    then show "list_all2 (\<lambda>c r. insensitive (\<lambda>q. q = byte c) r) (c # cs) u"
      using Cons by (auto simp: word_def matches_lit)
  next
    assume "list_all2 (\<lambda>c r. insensitive (\<lambda>q. q = byte c) r) (c # cs) u"
    then obtain r us where "u = [r] @ us" "insensitive (\<lambda>q. q = byte c) r"
      "list_all2 (\<lambda>c r. insensitive (\<lambda>q. q = byte c) r) cs us" by (auto simp: list_all2_Cons1)
    then show "matches (word (c # cs)) b u v"
      using Cons [of False us] by (simp add: word_def matches_lit) (intro exI [of _ "[r]"] exI [of _ us], simp)
  qed
qed

definition plainFlags :: "rune list" where
  "plainFlags = map byte ''rm -r -f ''"

lemma plain_positions:
  assumes "plainFlags @ p = x @ y" "x = [] \<or> separator (last x)" "\<forall>r\<in>set p. \<not> separator r" "p \<noteq> []"
  shows "y = plainFlags @ p \<or> hd y = 45 \<or> y = p"
proof -
  have len: "length plainFlags = 9" by (simp add: plainFlags_def)
  consider "x = []" | n where "0 < n" "n \<le> 9" "x = take n plainFlags" "y = drop n plainFlags @ p"
    | x' where "x' \<noteq> []" "x = plainFlags @ x'" "p = x' @ y"
  proof (cases "length x \<le> 9")
    case True
    have "x = take (length x) (plainFlags @ p)" "y = drop (length x) (plainFlags @ p)" using assms(1) by simp_all
    then have "x = take (length x) plainFlags" "y = drop (length x) plainFlags @ p" using True len by simp_all
    then show ?thesis using that(1) that(2) [of "length x"] True by auto
  next
    case False
    have "take 9 (plainFlags @ p) = take 9 (x @ y)" "drop 9 (plainFlags @ p) = drop 9 (x @ y)" using assms(1) by simp_all
    then have "plainFlags = take 9 x" "p = drop 9 x @ y" using False len by simp_all
    then have "x = plainFlags @ drop 9 x" "p = drop 9 x @ y" by (metis append_take_drop_id)+
    then show ?thesis using that(3) [of "drop 9 x"] False by auto
  qed
  then show ?thesis
  proof cases
    case 1
    then show ?thesis using assms(1) by simp
  next
    case 2
    then have "n \<in> {1, 2, 3, 4, 5, 6, 7, 8, 9}" by auto
    then show ?thesis using assms(2) 2(3,4)
      by (auto simp: plainFlags_def separator_def spaceClass_def among_def)
  next
    case 3
    then show ?thesis using assms(2,3) by (metis UnCI append_is_Nil_conv last_appendR last_in_set set_append)
  qed
qed

text \<open>The words a pattern begins with.\<close>

definition begins :: "rx \<Rightarrow> string set \<Rightarrow> bool" where
  "begins q ws \<longleftrightarrow> (\<forall>b v w. matches q b v w \<longrightarrow>
     (\<exists>cs\<in>ws. \<exists>v1 v2. v = v1 @ v2 \<and> list_all2 (\<lambda>c r. insensitive (\<lambda>q. q = byte c) r) cs v1))"

lemma begins_intros:
  "begins (word cs) {cs}"
  "begins q ws \<Longrightarrow> begins (thens (q # rs)) ws"
  "begins q ws \<Longrightarrow> begins r vs \<Longrightarrow> begins (Or q r) (ws \<union> vs)"
proof -
  show "begins (word cs) {cs}"
    by (auto simp: begins_def matches_word_iff)
  show "begins (thens (q # rs)) ws" if begins_q: "begins q ws"
    unfolding begins_def matches_thens
  proof (intro allI impI)
    fix b v w
    assume "\<exists>x y. v = x @ y \<and> matches q b x (y @ w) \<and> matches (thens rs) (b \<and> x = []) y w"
    then obtain x y where v: "v = x @ y" "matches q b x (y @ w)" by blast
    obtain cs v1 v2 where "cs \<in> ws" "x = v1 @ v2" "list_all2 (\<lambda>c r. insensitive (\<lambda>q. q = byte c) r) cs v1"
      using begins_q [unfolded begins_def, rule_format, OF v(2)] by blast
    then have "cs \<in> ws" "v = v1 @ v2 @ y" "list_all2 (\<lambda>c r. insensitive (\<lambda>q. q = byte c) r) cs v1" using v(1) by simp_all
    then show "\<exists>cs\<in>ws. \<exists>v1 v2. v = v1 @ v2 \<and> list_all2 (\<lambda>c r. insensitive (\<lambda>q. q = byte c) r) cs v1" by blast
  qed
  show "begins (Or q r) (ws \<union> vs)" if "begins q ws" "begins r vs"
    using that by (auto simp: begins_def) (metis UnCI)+
qed

lemma begins_ors: "xs \<noteq> [] \<Longrightarrow> begins (ors (map word xs)) (set xs)"
proof (induction xs rule: induct_list012)
  case (3 x y xs)
  then show ?case using begins_intros(3) [OF begins_intros(1), of "ors (map word (y # xs))" "set (y # xs)" x]
    by (simp add: insert_commute)
qed (simp_all add: begins_intros)

text \<open>The text with the two flags apart, and a path that holds neither blanks nor dashes.\<close>

definition plainPath :: "rune list \<Rightarrow> bool" where
  "plainPath p \<longleftrightarrow> p \<noteq> [] \<and> hd p = 47 \<and> (\<forall>r\<in>set p. alnum r \<or> among ''/._'' r)"

lemma plainPath_runes:
  assumes "plainPath p" "r \<in> set p"
  shows "\<not> separator r" "r \<noteq> 45" "r \<noteq> 58"
  using assms by (auto simp: plainPath_def separator_def spaceClass_def among_def alnum_def insensitive_def between_def
    orbit_def Let_def split: if_splits)

lemma word_at_flags:
  assumes "matchString (Then wordStart q) s" "runes s = plainFlags @ p" "plainPath p"
  shows "\<exists>b v w. matches q b v w \<and> (v @ w = plainFlags @ p \<or> hd (v @ w) \<in> {45, 47})"
proof -
  obtain x v w b where m: "plainFlags @ p = x @ v @ w" "x = [] \<or> separator (last x)" "matches q b v w"
    using wordStart_position [OF assms(1)] assms(2) by auto
  have "v @ w = plainFlags @ p \<or> hd (v @ w) = 45 \<or> v @ w = p"
    by (rule plain_positions [OF m(1,2)]) (use assms(3) plainPath_runes in \<open>auto simp: plainPath_def\<close>)
  then show ?thesis using m(3) assms(3) by (auto simp: plainPath_def)
qed

lemma other_words_fail:
  assumes "begins q ws" "\<And>cs. cs \<in> ws \<Longrightarrow> length cs \<ge> 2 \<and> \<not> insensitive (\<lambda>q. q = byte (hd cs)) 45 \<and>
      \<not> insensitive (\<lambda>q. q = byte (hd cs)) 47 \<and>
      \<not> (insensitive (\<lambda>q. q = byte (cs ! 0)) 114 \<and> insensitive (\<lambda>q. q = byte (cs ! 1)) 109)"
    and "runes s = plainFlags @ p" "plainPath p"
  shows "\<not> matchString (Then wordStart q) s"
proof
  assume "matchString (Then wordStart q) s"
  then obtain b v w where m: "matches q b v w" "v @ w = plainFlags @ p \<or> hd (v @ w) \<in> {45, 47}"
    using word_at_flags [OF _ assms(3,4)] by blast
  then obtain cs v1 v2 where cs: "cs \<in> ws" "v = v1 @ v2" "list_all2 (\<lambda>c r. insensitive (\<lambda>q. q = byte c) r) cs v1"
    using assms(1) unfolding begins_def by blast
  obtain c d cs' where c: "cs = c # d # cs'" using assms(2) [OF cs(1)] by (cases cs; cases "tl cs") auto
  then obtain r t v' where v1: "v1 = r # t # v'" "insensitive (\<lambda>q. q = byte c) r" "insensitive (\<lambda>q. q = byte d) t"
    using cs(3) by (auto simp: list_all2_Cons1)
  show False using m(2) assms(2) [OF cs(1)] v1 cs(2) c by (auto simp: plainFlags_def)
qed

lemma flags_apart:
  assumes "plainFlags @ p = x @ 45 # fl @ y" "plainPath p" "matches recursiveForce b fl z"
  shows False
proof -
  have len: "length plainFlags = 9" by (simp add: plainFlags_def)
  have fl: "\<exists>r\<in>set fl. insensitive (\<lambda>r. r = 114) r" "\<exists>r\<in>set fl. insensitive (\<lambda>r. r = 102) r" "32 \<notin> set fl"
    using matches_recursiveForce [OF assms(3)]
    by (auto simp: alnum_def insensitive_def between_def orbit_def Let_def split: if_splits)
  have at: "(plainFlags @ p) ! length x = 45" using assms(1) by simp
  have "length x < 9"
  proof (rule ccontr)
    assume "\<not> length x < 9"
    then have "p = drop 9 x @ 45 # fl @ y"
      using arg_cong [OF assms(1), of "drop 9"] len by simp
    then show False using plainPath_runes(2) [OF assms(2), of 45] by simp
  qed
  then have "length x \<in> {0, 1, 2, 3, 4, 5, 6, 7, 8}" by (simp only: insert_iff empty_iff) arith
  then have "length x = 3 \<or> length x = 6" using at by (auto simp: plainFlags_def)
  moreover have "drop (Suc (length x)) (plainFlags @ p) = fl @ y" using assms(1) by simp
  ultimately have "fl @ y = map byte ''r -f '' @ p \<or> fl @ y = map byte ''f '' @ p" by (auto simp: plainFlags_def)
  then have "fl = [] \<or> fl = [114] \<or> fl = [102] \<or> 32 \<in> set fl"
    by (auto simp: append_eq_Cons_conv Cons_eq_append_conv)
  then show False using fl by (auto simp: insensitive_def orbit_def)
qed

lemma rm_pattern_fails:
  assumes "runes s = plainFlags @ p" "plainPath p"
  shows "\<not> matchString (Then wordStart (thens (word ''rm'' # plus spaceClass # Many noSeparator # lit (CHR ''-'') # recursiveForce # rs))) s"
proof
  assume "matchString (Then wordStart (thens (word ''rm'' # plus spaceClass # Many noSeparator # lit (CHR ''-'') # recursiveForce # rs))) s"
  then obtain b v w where m:
    "matches (thens (word ''rm'' # plus spaceClass # Many noSeparator # lit (CHR ''-'') # recursiveForce # rs)) b v w"
    "v @ w = plainFlags @ p \<or> hd (v @ w) \<in> {45, 47}"
    using word_at_flags [OF _ assms] by blast
  note split = matches_thens(2) [THEN iffD1]
  from split [OF m(1)] obtain a v1 where a1: "v = a @ v1" "matches (word ''rm'') b a (v1 @ w)"
    "matches (thens (plus spaceClass # Many noSeparator # lit (CHR ''-'') # recursiveForce # rs)) (b \<and> a = []) v1 w" by blast
  from split [OF a1(3)] obtain g v2 b2 where g: "v1 = g @ v2"
    "matches (thens (Many noSeparator # lit (CHR ''-'') # recursiveForce # rs)) b2 v2 w" by blast
  from split [OF g(2)] obtain h v3 b3 where h: "v2 = h @ v3" "matches (thens (lit (CHR ''-'') # recursiveForce # rs)) b3 v3 w" by blast
  from split [OF h(2)] obtain d v4 b4 where d: "v3 = d @ v4" "matches (lit (CHR ''-'')) b3 d (v4 @ w)"
    "matches (thens (recursiveForce # rs)) b4 v4 w" by blast
  from split [OF d(3)] obtain fl y where fl: "v4 = fl @ y" "matches recursiveForce b4 fl (y @ w)" by blast
  obtain r t where a: "a = [r, t]" "insensitive (\<lambda>q. q = 114) r"
    using a1(2) by (auto simp: matches_word_iff list_all2_Cons1)
  have "hd (v @ w) \<notin> {45, 47}" using a a1(1) by (auto simp: insensitive_def orbit_def)
  then have t: "v @ w = plainFlags @ p" using m(2) by blast
  have "d = [45]" using d(2) by (auto simp: matches_lit insensitive_def orbit_def Let_def split: if_splits)
  then have "plainFlags @ p = (a @ g @ h) @ 45 # fl @ (y @ w)" using t a1(1) g(1) h(1) d(1) fl(1) by simp
  then show False using flags_apart [OF _ assms(2) fl(2)] by blast
qed

lemma thens_wordStart: "thens (wordStart # rs) = Then wordStart (thens rs)"
  by (simp add: thens_def)

lemma plain_never:
  assumes "runes s = plainFlags @ p" "plainPath p"
  shows "e \<in> set neverRunPatterns \<Longrightarrow> \<not> matchString (fst e) s"
proof -
  note fails = other_words_fail [OF _ _ assms]
  have other: "\<not> matchString (Then wordStart (thens (word cs # rs))) s"
    if "cs \<in> {''mkfs'', ''dd'', ''shred''}" for cs rs
    by (rule fails [OF begins_intros(2) [OF begins_intros(1)]]) (use that in \<open>auto simp: insensitive_def orbit_def\<close>)
  have "58 \<notin> set (runes s)" using plainPath_runes(3) [OF assms(2)] assms(1) by (auto simp: plainFlags_def)
  then have bomb: "\<not> matchString (thens (One (\<lambda>r. r = 58) # rs)) s" for rs by (auto simp: matchString_iff)
  assume "e \<in> set neverRunPatterns"
  then show "\<not> matchString (fst e) s"
    using rm_pattern_fails [OF assms] other bomb by (auto simp: neverRunPatterns_def thens_wordStart)
qed

lemma plain_approval:
  assumes "runes s = plainFlags @ p" "plainPath p"
  shows "e \<in> set approvalPatterns \<Longrightarrow> \<not> matchString (fst e) s"
proof -
  note fails = other_words_fail [OF _ _ assms]
  have other: "\<not> matchString (Then wordStart (thens (word cs # rs))) s"
    if "cs \<in> {''sudo'', ''chmod'', ''chown''}" for cs rs
    by (rule fails [OF begins_intros(2) [OF begins_intros(1)]]) (use that in \<open>auto simp: insensitive_def orbit_def\<close>)
  have service: "\<not> matchString (Then wordStart (Or (thens (word ''systemctl'' # rs)) (thens (word ''service'' # rs')))) s" for rs rs'
    by (rule fails [OF begins_intros(3) [OF begins_intros(2) [OF begins_intros(1)] begins_intros(2) [OF begins_intros(1)]]])
      (auto simp: insensitive_def orbit_def)
  have shutdown: "\<not> matchString (Then wordStart (thens (ors (map word [''reboot'', ''shutdown'', ''poweroff'', ''halt'']) # rs))) s" for rs
    by (rule fails [OF begins_intros(2) [OF begins_ors]]) (auto simp: insensitive_def orbit_def)
  assume "e \<in> set approvalPatterns"
  then show "\<not> matchString (fst e) s"
    using rm_pattern_fails [OF assms] other service shutdown by (auto simp: approvalPatterns_def thens_wordStart)
qed

lemma alnum_values:
  "alnum r \<Longrightarrow> 48 \<le> r \<and> r \<le> 57 \<or> 65 \<le> r \<and> r \<le> 90 \<or> 97 \<le> r \<and> r \<le> 122 \<or> r = 8490 \<or> r = 383"
  by (auto simp: alnum_def insensitive_def between_def orbit_def Let_def split: if_splits)

lemma plain_normal:
  assumes "plainPath (map byte p)"
  shows "normalizeCommand (''rm -r -f '' @ p) = ''rm -r -f '' @ p" "runes (''rm -r -f '' @ p) = plainFlags @ map byte p"
proof -
  have ok: "byte c < 128 \<and> \<not> is_space (byte c) \<and> c \<noteq> CHR 0x5C" if "c \<in> set p" for c
  proof -
    have "alnum (byte c) \<or> among ''/._'' (byte c)" using assms that by (auto simp: plainPath_def)
    moreover have lt: "byte c < 256" by simp
    moreover have "byte c \<noteq> 8490 \<and> byte c \<noteq> 383" using lt by linarith
    ultimately show ?thesis using alnum_values [of "byte c"] by (auto simp: among_def is_space_def)
  qed
  have ne: "p \<noteq> []" using assms by (auto simp: plainPath_def)
  have "joinContinuations (''rm -r -f '' @ p) = ''rm -r -f '' @ p"
    by (rule joinContinuations_none) (use ok in auto)
  moreover have "Utf8.fields (''rm -r -f '' @ p) = [''rm'', ''-r'', ''-f'', p]"
    using fields_word(1) [of p "[]"] ok ne by (simp add: Utf8.fields_def pieces_ascii is_space_def)
  ultimately show "normalizeCommand (''rm -r -f '' @ p) = ''rm -r -f '' @ p" by (simp add: normalizeCommand_def)
  show "runes (''rm -r -f '' @ p) = plainFlags @ map byte p"
    using ascii_string [of "''rm -r -f '' @ p"] ok by (simp add: plainFlags_def)
qed

subsection \<open>The decision does not look at case or spacing\<close>

definition same :: "rune \<Rightarrow> rune \<Rightarrow> bool" where
  "same x y \<longleftrightarrow> set (orbit x) = set (orbit y)"

fun blind :: "rx \<Rightarrow> bool" where
  "blind (One f) \<longleftrightarrow> (\<forall>x y. same x y \<longrightarrow> f x = f y)"
| "blind (Many f) \<longleftrightarrow> (\<forall>x y. same x y \<longrightarrow> f x = f y)"
| "blind (Then r q) \<longleftrightarrow> blind r \<and> blind q"
| "blind (Or r q) \<longleftrightarrow> blind r \<and> blind q"
| "blind _ \<longleftrightarrow> True"

lemma all_same: "list_all2 same u u' \<Longrightarrow> \<forall>x y. same x y \<longrightarrow> f x = f y \<Longrightarrow> \<forall>c\<in>set u. f c \<Longrightarrow> \<forall>c\<in>set u'. f c"
  by (induction rule: list_all2_induct) auto

lemma matches_same:
  "matches r b u v \<Longrightarrow> blind r \<Longrightarrow> list_all2 same u u' \<Longrightarrow> list_all2 same v v' \<Longrightarrow> matches r b u' v'"
proof (induction arbitrary: u' v' rule: matches.induct)
  case (one f c b v)
  then show ?case by (auto simp: list_all2_Cons1)
next
  case (many u f b v)
  have "\<forall>c\<in>set u'. f c" using all_same [of u u' f] many unfolding blind.simps by blast
  then show ?case by simp
next
  case (then_both r b u v w q)
  obtain x y where xy: "u' = x @ y" "list_all2 same u x" "list_all2 same v y"
    using then_both.prems(2) by (auto simp: list_all2_append1)
  have "matches r b x (y @ v')"
    using then_both.IH(1) then_both.prems(1,3) xy(2,3) by (simp add: list_all2_appendI)
  moreover have "matches q (b \<and> x = []) y v'"
  proof -
    have "u = [] \<longleftrightarrow> x = []" using xy(2) by auto
    then show ?thesis using then_both.IH(2) [of y v'] then_both.prems(1,3) xy(3) by simp
  qed
  ultimately show ?case unfolding xy(1) by (rule matches.then_both)
qed auto

lemma matchString_same:
  assumes "blind r" "list_all2 same (runes s) (runes t)" "matchString r s"
  shows "matchString r t"
proof -
  obtain u v w where m: "runes s = u @ v @ w" "matches r (u = []) v w" using assms(3) by (auto simp: matchString_iff)
  obtain u' v' w' where p: "runes t = u' @ v' @ w'" "list_all2 same u u'" "list_all2 same v v'" "list_all2 same w w'"
    using assms(2) unfolding m(1) list_all2_append1 by blast
  have "matches r (u = []) v' w'" by (rule matches_same [OF m(2) assms(1) p(3,4)])
  moreover have "u = [] \<longleftrightarrow> u' = []" using p(2) by auto
  ultimately have "matches r (u' = []) v' w'" by simp
  then show ?thesis using p(1) unfolding matchString_iff by blast
qed

lemma same_sym: "same x y \<Longrightarrow> same y x"
  by (simp add: same_def)

lemma same_apart:
  assumes "same x y" "\<And>r. f r \<Longrightarrow> orbit r = [r]"
  shows "f x = f y"
  using assms orbit_self [of x] orbit_self [of y] by (metis empty_set list.simps(15) same_def singletonD)

lemma blind_classes [simp]:
  "same x y \<Longrightarrow> insensitive f x = insensitive f y"
  "same x y \<Longrightarrow> separator x = separator y"
  "same x y \<Longrightarrow> spaceClass x = spaceClass y"
  "same x y \<Longrightarrow> perlSpace x = perlSpace y"
  "same x y \<Longrightarrow> digit x = digit y"
  "same x y \<Longrightarrow> among '';&|'' x = among '';&|'' y"
  "same x y \<Longrightarrow> among ''_.-'' x = among ''_.-'' y"
  "same x y \<Longrightarrow> among ''_+-'' x = among ''_+-'' y"
  "same x y \<Longrightarrow> noSeparator x = noSeparator y"
  "same x y \<Longrightarrow> alnum x = alnum y"
  "same x y \<Longrightarrow> letter x = letter y"
proof -
  assume xy: "same x y"
  note apart = same_apart [OF xy]
  show "insensitive f x = insensitive f y" using xy by (simp add: insensitive_def same_def)
  show "alnum x = alnum y" "letter x = letter y"
    using xy by (simp_all add: alnum_def letter_def insensitive_def same_def)
  show "separator x = separator y"
    by (rule apart) (auto simp: separator_def among_def spaceClass_def orbit_def)
  show "spaceClass x = spaceClass y"
    by (rule apart) (auto simp: spaceClass_def orbit_def)
  show "perlSpace x = perlSpace y"
    by (rule apart) (auto simp: perlSpace_def orbit_def)
  show "digit x = digit y"
    by (rule apart) (auto simp: digit_def between_def orbit_def)
  show m: "among '';&|'' x = among '';&|'' y"
    by (rule apart) (auto simp: among_def orbit_def)
  show "among ''_.-'' x = among ''_.-'' y"
    by (rule apart) (auto simp: among_def orbit_def)
  show "among ''_+-'' x = among ''_+-'' y"
    by (rule apart) (auto simp: among_def orbit_def)
  show "noSeparator x = noSeparator y" using m by (simp add: noSeparator_def)
qed

lemma blind_lit [simp]: "blind (lit c)"
  by (simp add: lit_def)

lemma blind_thens [simp]: "blind (thens rs) \<longleftrightarrow> (\<forall>r\<in>set rs. blind r)"
  by (induction rs) (auto simp: thens_def)

lemma blind_word [simp]: "blind (word cs)"
  by (simp add: word_def)

lemma blind_plus [simp]: "blind (plus f) \<longleftrightarrow> (\<forall>x y. same x y \<longrightarrow> f x = f y)"
  by (simp add: plus_def)

lemma blind_exactly: "orbit q = [q] \<Longrightarrow> blind (One (\<lambda>r. r = q))"
  using same_apart [where f = "\<lambda>r. r = q"] by simp

lemma blind_patterns: "\<forall>e\<in>set (neverRunPatterns @ approvalPatterns). blind (fst e)"
proof -
  have exact: "blind (One (\<lambda>r. r = q))" if "q \<in> {58, 40, 41, 123, 124, 38, 125, 59}" for q
    by (rule blind_exactly) (use that in \<open>auto simp: orbit_def\<close>)
  show ?thesis
    using exact by (simp add: neverRunPatterns_def approvalPatterns_def wordStart_def wordEnd_def recursiveForce_def device_def)
qed

definition upcase :: "char \<Rightarrow> char" where
  "upcase c = (if 97 \<le> byte c \<and> byte c \<le> 122 then char_of (byte c - 32) else c)"

lemma same_upcase: "upcase c = upcase d \<Longrightarrow> same (byte c) (byte d)"
proof -
  have shift: "65 \<le> n \<Longrightarrow> n \<le> 90 \<Longrightarrow> orbit (n + 32) = orbit n" for n by (simp add: orbit_def)
  have "same (byte c) (byte (upcase c))" for c
  proof (cases "97 \<le> byte c \<and> byte c \<le> 122")
    case True
    then have "byte c - 32 < 256" by linarith
    then have "byte (upcase c) = byte c - 32" using True by (simp add: upcase_def)
    moreover have "65 \<le> byte c - 32" "byte c - 32 \<le> 90" using True by linarith+
    ultimately show ?thesis using shift [of "byte c - 32"] True by (simp add: same_def)
  next
    case False
    then have "upcase c = c" by (metis upcase_def)
    then show ?thesis by (simp add: same_def)
  qed
  then show "upcase c = upcase d \<Longrightarrow> same (byte c) (byte d)" by (metis same_def)
qed

lemma map_join: "map f (join sep xs) = join (map f sep) (map (map f) xs)"
  by (induction xs rule: induct_list012) simp_all

lemma fields_bytes: "f \<in> set (fields_from acc ps) \<Longrightarrow> set f \<subseteq> set acc \<union> set (bytes_of ps)"
  by (induction acc ps rule: fields_from.induct) (fastforce simp: bytes_of_def split: if_splits)+

lemma set_joinContinuations: "set (joinContinuations s) \<subseteq> insert (CHR '' '') (set s)"
  by (induction s rule: joinContinuations.induct) auto

lemma set_join: "set (join sep xs) \<subseteq> set sep \<union> \<Union> (set ` set xs)"
  by (induction xs rule: induct_list012) auto

lemma normalize_ascii:
  assumes "\<forall>x\<in>set c. byte x < 128" "x \<in> set (normalizeCommand c)"
  shows "byte x < 128"
proof -
  have "set f \<subseteq> set (joinContinuations c)" if "f \<in> set (Utf8.fields (joinContinuations c))" for f
    using fields_bytes [of f "[]" "pieces (joinContinuations c)"] that
    by (simp add: Utf8.fields_def bytes_of_def concat_pieces flip: set_concat)
  then have "x = CHR '' '' \<or> x \<in> set (joinContinuations c)"
    using assms(2) set_join [of "'' ''" "Utf8.fields (joinContinuations c)"] by (fastforce simp: normalizeCommand_def)
  then show ?thesis using set_joinContinuations [of c] assms(1) by auto
qed

lemma evaluate_same:
  assumes "list_all2 same (runes (normalizeCommand c)) (runes (normalizeCommand d))"
    "normalizeCommand c = [] \<longleftrightarrow> normalizeCommand d = []"
  shows "evaluate c = evaluate d"
proof -
  have swapped: "list_all2 same (runes (normalizeCommand d)) (runes (normalizeCommand c))"
    using assms(1) by (auto simp: list_all2_conv_all_nth same_sym)
  have "matchString (fst e) (normalizeCommand c) = matchString (fst e) (normalizeCommand d)"
    if "e \<in> set (neverRunPatterns @ approvalPatterns)" for e
    using that blind_patterns matchString_same assms(1) swapped by blast
  then have "List.find (\<lambda>e. matchString (fst e) (normalizeCommand c)) neverRunPatterns =
      List.find (\<lambda>e. matchString (fst e) (normalizeCommand d)) neverRunPatterns"
    "List.find (\<lambda>e. matchString (fst e) (normalizeCommand c)) approvalPatterns =
      List.find (\<lambda>e. matchString (fst e) (normalizeCommand d)) approvalPatterns"
    by (intro find_cong refl; simp)+
  then show ?thesis unfolding evaluate_def Let_def assms(2) by (simp only:)
qed

lemma insensitive_letters:
  "insensitive (\<lambda>r. r = 114) 114" "insensitive (\<lambda>r. r = 114) 82" "insensitive (\<lambda>r. r = 102) 102" "insensitive (\<lambda>r. r = 102) 70"
  by (simp_all add: insensitive_def orbit_def)

subsection \<open>Properties\<close>


text \<open>The decision on a command of ASCII characters depends on its words alone, not on how they are spaced, broken over
  lines with a backslash or capitalised.\<close>

theorem decision_ignores_case_and_spacing:
  assumes "\<forall>x\<in>set c. byte x < 128" "\<forall>x\<in>set d. byte x < 128"
    and "map (map upcase) (Utf8.fields (joinContinuations c)) = map (map upcase) (Utf8.fields (joinContinuations d))"
  shows "evaluate c = evaluate d"
proof (rule evaluate_same)
  have e: "map upcase (normalizeCommand c) = map upcase (normalizeCommand d)"
    using assms(3) by (simp add: normalizeCommand_def map_join)
  then show "normalizeCommand c = [] \<longleftrightarrow> normalizeCommand d = []" by (metis map_is_Nil_conv)
  have "runes (normalizeCommand x) = map byte (normalizeCommand x)" if "\<forall>y\<in>set x. byte y < 128" for x
    using ascii_string [of "normalizeCommand x"] normalize_ascii [OF that] by simp
  then show "list_all2 same (runes (normalizeCommand c)) (runes (normalizeCommand d))"
    using e assms(1,2) same_upcase by (simp add: list_all2_map1 list_all2_map2 list_all2_conv_all_nth) (metis length_map nth_map)
qed

text \<open>C29: The same removal with its two flags apart is neither denied nor submitted for approval, for any absolute path of
  letters, digits, dots, underscores and slashes, the root included: the patterns look for both letters in one word
  of flags. The shell tool hands it to the shell.\<close>

theorem separate_flags_escape:
  assumes "plainPath (map byte p)"
  shows "evaluate (''rm -r -f '' @ p) = allowCommand \<and>
      (shellDirectory a \<noteq> [] \<longrightarrow>
        map_option processCommand (fst (shellExecute home exec (Some (a\<lparr> shellCommand := ''rm -r -f '' @ p \<rparr>)))) =
          Some [''sh'', ''-c'', ''rm -r -f '' @ p])"
proof -
  note n = plain_normal [OF assms]
  have "List.find (\<lambda>e. matchString (fst e) (''rm -r -f '' @ p)) ps = None" if "ps \<in> {neverRunPatterns, approvalPatterns}" for ps
    using plain_never [OF n(2) assms] plain_approval [OF n(2) assms] that by (auto simp: find_None_iff)
  then have "evaluate (''rm -r -f '' @ p) = allowCommand"
    unfolding evaluate_def n(1) Let_def by simp
  then show ?thesis by (simp add: shellExecute_def enforceShellCommandBlocklist_def allowCommand_def Let_def)
qed

text \<open>A timeout in seconds is kept between one second and ten minutes as long as it fits into 64 bits of nanoseconds;
  beyond that the product wraps around and the command gets a timeout that is already over.\<close>

theorem shell_timeout_bounds:
  "(t \<le> 9223372036 \<longrightarrow> resolveTimeout t = (if t \<le> 0 then 120 * second else min (t * second) (600 * second))) \<and>
   resolveTimeout 9223372037 < 0"
proof
  show "t \<le> 9223372036 \<longrightarrow> resolveTimeout t = (if t \<le> 0 then 120 * second else min (t * second) (600 * second))"
  proof
    assume t: "t \<le> 9223372036"
    show "resolveTimeout t = (if t \<le> 0 then 120 * second else min (t * second) (600 * second))"
    proof (cases "t \<le> 0")
      case False
      then have "wrap64 (t * second) = t * second"
        using t by (intro wrap64_id) (simp_all add: second_def min_int64_def max_int64_def)
      then show ?thesis using False by (simp add: resolveTimeout_def maxTimeout_def Let_def min_def)
    qed (simp add: resolveTimeout_def defaultTimeout_def)
  qed
  show "resolveTimeout 9223372037 < 0" by code_simp
qed

subsection \<open>Witnesses\<close>

lemma example_normal:
  "normalizeCommand ''cd x;rm  -Rf /'' = ''cd x;rm -Rf /''" "runes ''cd x;rm -Rf /'' = map byte ''cd x;rm -Rf /''"
  using ascii_string [of "''cd x;rm -Rf /''"]
  by (simp_all add: normalizeCommand_def Utf8.fields_def pieces_ascii is_space_def)


theorem separate_flags_escape_witness:
  "evaluate ''rm -r -f /'' = allowCommand"
proof -
  have "plainPath (map byte ''/'')" by (simp add: plainPath_def among_def)
  from conjunct1 [OF separate_flags_escape [OF this]] show ?thesis by (simp only: append.simps)
qed

theorem decision_ignores_case_and_spacing_witness:
  "evaluate ''ls  A'' = evaluate ''LS a''"
proof -
  have "Utf8.fields (joinContinuations ''ls  A'') = [''ls'', ''A'']" "Utf8.fields (joinContinuations ''LS a'') = [''LS'', ''a'']"
    by (simp_all add: Utf8.fields_def pieces_ascii is_space_def)
  moreover have "map (map upcase) [''ls'', ''A''] = map (map upcase) [''LS'', ''a'']" by code_simp
  ultimately show ?thesis by (intro decision_ignores_case_and_spacing) simp_all
qed

theorem shell_timeout_bounds_witness:
  "resolveTimeout 900 = 600 * second"
  using shell_timeout_bounds [of 900] by (simp add: second_def)

end
