(* ===== verification/JsonText.thy ===== *)
theory JsonText
  imports GoStrings
begin

text \<open>
  JSON texts as the package \<open>encoding/json\<close> scans them: a pushdown automaton that reads one byte at a
  time (\<open>scanner.go\<close> of the standard library), \<open>json.Valid\<close> and the compaction that \<open>json.Marshal\<close>
  applies to a \<open>json.RawMessage\<close>. Raw tool arguments pass through both on their way to a provider.
\<close>

subsection \<open>The scanner\<close>

datatype json_state =
    BeginValue | BeginValueOrEmpty | BeginString | BeginStringOrEmpty | EndValue | EndTop
  | InString | InEscape | InHex nat | Literal string
  | Minus | Integer | Zero | Point | Fraction | Exponent | ExponentSign | ExponentDigits

datatype json_frame = ObjectKey | ObjectValue | ArrayValue

type_synonym json_scan = "json_state \<times> json_frame list"

definition maxNestingDepth :: nat where
  "maxNestingDepth = 10000"

definition jsonSpace :: "char \<Rightarrow> bool" where
  "jsonSpace c \<longleftrightarrow> c = CHR '' '' \<or> byte c = 9 \<or> byte c = 13 \<or> byte c = 10"

definition jsonDigit :: "char \<Rightarrow> bool" where
  "jsonDigit c \<longleftrightarrow> 48 \<le> byte c \<and> byte c \<le> 57"

definition hexDigit :: "char \<Rightarrow> bool" where
  "hexDigit c \<longleftrightarrow> jsonDigit c \<or> 97 \<le> byte c \<and> byte c \<le> 102 \<or> 65 \<le> byte c \<and> byte c \<le> 70"

fun pushFrame :: "json_state \<Rightarrow> json_frame \<Rightarrow> json_frame list \<Rightarrow> json_scan option" where
  "pushFrame s f fs = (if length fs < maxNestingDepth then Some (s, f # fs) else None)"

fun popFrame :: "json_frame list \<Rightarrow> json_scan option" where
  "popFrame [] = None"
| "popFrame (f # fs) = Some (if fs = [] then EndTop else EndValue, fs)"

text \<open>\<open>stateEndValue\<close>: what may follow a value depends on the innermost open bracket.\<close>

fun endValue :: "char \<Rightarrow> json_frame list \<Rightarrow> json_scan option" where
  "endValue c [] = (if jsonSpace c then Some (EndTop, []) else None)"
| "endValue c (f # fs) =
     (if jsonSpace c then Some (EndValue, f # fs)
      else (case f of
          ObjectKey \<Rightarrow> if c = CHR '':'' then Some (BeginValue, ObjectValue # fs) else None
        | ObjectValue \<Rightarrow>
            if c = CHR '','' then Some (BeginString, ObjectKey # fs)
            else if c = CHR ''}'' then popFrame (f # fs) else None
        | ArrayValue \<Rightarrow>
            if c = CHR '','' then Some (BeginValue, f # fs)
            else if c = CHR '']'' then popFrame (f # fs) else None))"

definition beginValue :: "json_state \<Rightarrow> char \<Rightarrow> json_frame list \<Rightarrow> json_scan option" where
  "beginValue s c fs =
     (if jsonSpace c then Some (s, fs)
      else if c = CHR ''{'' then pushFrame BeginStringOrEmpty ObjectKey fs
      else if c = CHR ''['' then pushFrame BeginValueOrEmpty ArrayValue fs
      else if byte c = 34 then Some (InString, fs)
      else if c = CHR ''-'' then Some (Minus, fs)
      else if c = CHR ''0'' then Some (Zero, fs)
      else if c = CHR ''t'' then Some (Literal ''rue'', fs)
      else if c = CHR ''f'' then Some (Literal ''alse'', fs)
      else if c = CHR ''n'' then Some (Literal ''ull'', fs)
      else if jsonDigit c then Some (Integer, fs)
      else None)"

definition beginString :: "json_state \<Rightarrow> char \<Rightarrow> json_frame list \<Rightarrow> json_scan option" where
  "beginString s c fs =
     (if jsonSpace c then Some (s, fs) else if byte c = 34 then Some (InString, fs) else None)"

definition afterDigits :: "char \<Rightarrow> json_frame list \<Rightarrow> json_scan option" where
  "afterDigits c fs =
     (if c = CHR ''.'' then Some (Point, fs)
      else if c = CHR ''e'' \<or> c = CHR ''E'' then Some (Exponent, fs)
      else endValue c fs)"

text \<open>One byte; None is a syntax error.\<close>

fun scanStep :: "char \<Rightarrow> json_scan \<Rightarrow> json_scan option" where
  "scanStep c (BeginValue, fs) = beginValue BeginValue c fs"
| "scanStep c (BeginValueOrEmpty, fs) =
     (if c = CHR '']'' then endValue c fs else beginValue BeginValueOrEmpty c fs)"
| "scanStep c (BeginString, fs) = beginString BeginString c fs"
| "scanStep c (BeginStringOrEmpty, fs) =
     (if c = CHR ''}'' then popFrame fs else beginString BeginStringOrEmpty c fs)"
| "scanStep c (EndValue, fs) = endValue c fs"
| "scanStep c (EndTop, fs) = (if jsonSpace c then Some (EndTop, fs) else None)"
| "scanStep c (InString, fs) =
     (if byte c = 34 then Some (EndValue, fs)
      else if byte c = 92 then Some (InEscape, fs)
      else if byte c < 32 then None
      else Some (InString, fs))"
| "scanStep c (InEscape, fs) =
     (if c \<in> set ''bfnrt/'' \<or> byte c = 92 \<or> byte c = 34 then Some (InString, fs)
      else if c = CHR ''u'' then Some (InHex 3, fs) else None)"
| "scanStep c (InHex 0, fs) = (if hexDigit c then Some (InString, fs) else None)"
| "scanStep c (InHex (Suc n), fs) = (if hexDigit c then Some (InHex n, fs) else None)"
| "scanStep c (Literal [], fs) = None"
| "scanStep c (Literal (x # xs), fs) =
     (if c = x then Some (if xs = [] then EndValue else Literal xs, fs) else None)"
| "scanStep c (Minus, fs) =
     (if c = CHR ''0'' then Some (Zero, fs) else if jsonDigit c then Some (Integer, fs) else None)"
| "scanStep c (Integer, fs) = (if jsonDigit c then Some (Integer, fs) else afterDigits c fs)"
| "scanStep c (Zero, fs) = afterDigits c fs"
| "scanStep c (Point, fs) = (if jsonDigit c then Some (Fraction, fs) else None)"
| "scanStep c (Fraction, fs) =
     (if jsonDigit c then Some (Fraction, fs)
      else if c = CHR ''e'' \<or> c = CHR ''E'' then Some (Exponent, fs) else endValue c fs)"
| "scanStep c (Exponent, fs) =
     (if c = CHR ''+'' \<or> c = CHR ''-'' then Some (ExponentSign, fs)
      else if jsonDigit c then Some (ExponentDigits, fs) else None)"
| "scanStep c (ExponentSign, fs) = (if jsonDigit c then Some (ExponentDigits, fs) else None)"
| "scanStep c (ExponentDigits, fs) = (if jsonDigit c then Some (ExponentDigits, fs) else endValue c fs)"

fun scanAll :: "json_scan \<Rightarrow> string \<Rightarrow> json_scan option" where
  "scanAll s [] = Some s"
| "scanAll s (c # cs) = Option.bind (scanStep c s) (\<lambda>t. scanAll t cs)"

text \<open>\<open>eof\<close>: the input may end where a space would complete the top-level value.\<close>

definition scanEof :: "json_scan \<Rightarrow> bool" where
  "scanEof s \<longleftrightarrow> (case scanStep (CHR '' '') s of None \<Rightarrow> False | Some t \<Rightarrow> fst t = EndTop)"

definition jsonValid :: "string \<Rightarrow> bool" where
  "jsonValid s \<longleftrightarrow> (case scanAll (BeginValue, []) s of None \<Rightarrow> False | Some t \<Rightarrow> scanEof t)"

subsection \<open>Compaction\<close>

text \<open>
  The bytes that remain: spaces between tokens go, and the three characters that are special in
  HTML are escaped, as are the two line separators U+2028 and U+2029 (bytes E2 80 A8 and A9).
\<close>

definition htmlEscape :: "char \<Rightarrow> string" where
  "htmlEscape c =
     (if c = CHR ''<'' then CHR 0x5C # ''u003c''
      else if c = CHR ''>'' then CHR 0x5C # ''u003e''
      else if c = CHR ''&'' then CHR 0x5C # ''u0026''
      else [c])"

fun escapeSeparators :: "string \<Rightarrow> string" where
  "escapeSeparators (a # b # c # cs) =
     (if byte a = 0xE2 \<and> byte b = 0x80 \<and> (byte c = 0xA8 \<or> byte c = 0xA9)
      then CHR 0x5C # ''u202'' @ (if byte c = 0xA8 then CHR ''8'' else CHR ''9'') # escapeSeparators cs
      else a # escapeSeparators (b # c # cs))"
| "escapeSeparators cs = cs"

fun keptBytes :: "json_scan \<Rightarrow> string \<Rightarrow> string" where
  "keptBytes s [] = []"
| "keptBytes s (c # cs) =
     (case scanStep c s of
        None \<Rightarrow> []
      | Some t \<Rightarrow> (if jsonSpace c \<and> fst s \<noteq> InString then [] else htmlEscape c) @ keptBytes t cs)"

definition compactJson :: "string \<Rightarrow> string" where
  "compactJson s = escapeSeparators (keptBytes (BeginValue, []) s)"

text \<open>
  \<open>json.Marshal\<close> of a \<open>json.RawMessage\<close>: a nil message is \<open>null\<close>, an invalid one is an error.
\<close>

definition marshalRaw :: "string option \<Rightarrow> string option" where
  "marshalRaw r =
     (case r of
        None \<Rightarrow> Some ''null''
      | Some s \<Rightarrow> if jsonValid s then Some (compactJson s) else None)"

subsection \<open>Every value, nothing else\<close>

lemma scanAll_append: "scanAll s (xs @ ys) = Option.bind (scanAll s xs) (\<lambda>t. scanAll t ys)"
  by (induction xs arbitrary: s) (simp_all add: Option.bind_assoc)

text \<open>Only a complete top-level value reaches \<open>EndTop\<close>, so a text with an open bracket is never valid.\<close>

lemma scanStep_top:
  assumes "scanStep c s = Some t" and "fst s = EndTop \<longrightarrow> snd s = []"
  shows "fst t = EndTop \<longrightarrow> snd t = []"
  using assms
  by (cases "(c, s)" rule: scanStep.cases)
    (auto simp: beginValue_def beginString_def afterDigits_def elim!: endValue.elims popFrame.elims
      split: if_splits json_frame.splits)

lemma scanAll_top: "scanAll s cs = Some t \<Longrightarrow> fst s = EndTop \<longrightarrow> snd s = [] \<Longrightarrow> fst t = EndTop \<longrightarrow> snd t = []"
proof (induction cs arbitrary: s)
  case (Cons c cs)
  then obtain u where u: "scanStep c s = Some u" "scanAll u cs = Some t" by (auto simp: bind_eq_Some_conv)
  from Cons.IH [OF u(2)] scanStep_top [OF u(1) Cons.prems(2)] show ?case by blast
qed simp

lemma open_bracket_invalid:
  assumes "scanAll (BeginValue, []) s = Some (st, f # fs)"
  shows "\<not> jsonValid s"
proof -
  have "st \<noteq> EndTop" using scanAll_top [OF assms] by simp
  then have "fst t \<noteq> EndTop" if "scanStep (CHR '' '') (st, f # fs) = Some t" for t
    using that
    by (cases "(CHR '' '', (st, f # fs))" rule: scanStep.cases)
      (auto simp: beginValue_def beginString_def afterDigits_def jsonSpace_def jsonDigit_def
        hexDigit_def split: if_splits)
  then show ?thesis using assms by (auto simp: jsonValid_def scanEof_def split: option.splits)
qed

lemma empty_invalid [simp]: "\<not> jsonValid []"
  by (simp add: jsonValid_def scanEof_def beginValue_def jsonSpace_def)

lemma empty_object_valid [simp]: "jsonValid ''{}''"
  by (simp add: jsonValid_def scanEof_def beginValue_def beginString_def jsonSpace_def maxNestingDepth_def)

lemma compact_empty_object [simp]: "compactJson ''{}'' = ''{}''"
  by (simp add: compactJson_def beginValue_def beginString_def jsonSpace_def maxNestingDepth_def htmlEscape_def)

end
