(* ===== verification/Providers.thy ===== *)
theory Providers
  imports JsonText RunLoop "HOL-Library.Word"
begin

text \<open>
  What the clients of language models share (\<open>providers/openai.go\<close>, \<open>providers/anthropic.go\<close>,
  \<open>providers/gemini.go\<close>): requests, responses and the events of a stream, the loop over the lines of a
  streamed body with the contract of its body as the locale \<open>sse_reader\<close>, and the client of
  OpenAI-compatible services. The HTTP exchange and the decoding of JSON into records are arguments.
\<close>

subsection \<open>Requests and responses\<close>

text \<open>The request and the response the runner sees (\<open>ChatRequest\<close>, \<open>ChatResponse\<close>); floats are their bits.\<close>

record chat_request =
  crModel :: string
  crMessages :: "chat_message list"
  crMaxTokens :: int
  crMaxCompletionTokens :: int
  crTemperature :: "64 word option"
  crTools :: "tool_definition list"

record usage_information =
  promptTokenCount :: int
  completionTokenCount :: int
  totalTokenCount :: int
  cacheCreationCount :: int
  cacheReadCount :: int

record chat_response =
  crespId :: string
  crespModel :: string
  crespMessage :: chat_message
  crespFinish :: string
  crespUsage :: "usage_information option"

record model_information =
  miId :: string
  miCreated :: int
  miOwner :: string
  miContext :: int

definition modelNamed :: "string \<Rightarrow> model_information" where
  "modelNamed i = \<lparr>miId = i, miCreated = 0, miOwner = [], miContext = 0\<rparr>"

subsection \<open>Events\<close>

record stream_chunk =
  chunkId :: string
  chunkModel :: string
  chunkChoices :: "stream_choice list"
  chunkUsage :: "usage_information option"

datatype provider_event = ProviderChunk stream_chunk | ProviderError string | ProviderDone

text \<open>What the runner reads of an event.\<close>

fun runnerEvent :: "provider_event \<Rightarrow> stream_event" where
  "runnerEvent (ProviderChunk c) = StreamChunk (chunkChoices c)"
| "runnerEvent (ProviderError e) = StreamError"
| "runnerEvent ProviderDone = StreamDone"

text \<open>How the body of the loop over the lines leaves: with the next iteration, or with \<open>return\<close>.\<close>

datatype 's sse_step = Continue "provider_event list" 's | Return "provider_event list"

text \<open>
  The loop: \<open>gone k\<close> says whether the context is done when the k-th line is read, \<open>broken\<close> whether
  the scanner stopped with an error behind the last line, \<open>finish\<close> what is sent behind the loop.
\<close>

fun readLines ::
    "(string \<Rightarrow> 's \<Rightarrow> 's sse_step) \<Rightarrow> ('s \<Rightarrow> bool \<Rightarrow> provider_event list) \<Rightarrow> (nat \<Rightarrow> bool) \<Rightarrow> bool \<Rightarrow> nat \<Rightarrow> 's
     \<Rightarrow> string list \<Rightarrow> provider_event list" where
  "readLines onLine finish gone broken k st [] = finish st broken"
| "readLines onLine finish gone broken k st (l # ls) =
     (if gone k then []
      else (case onLine l st of
          Return es \<Rightarrow> es
        | Continue es st' \<Rightarrow> es @ readLines onLine finish gone broken (Suc k) st' ls))"

definition readFailed :: "'s \<Rightarrow> bool \<Rightarrow> provider_event list" where
  "readFailed st broken = (if broken then [ProviderError ''reading stream''] else [])"

definition collect :: "collected \<Rightarrow> provider_event list \<Rightarrow> collected option" where
  "collect c es = collectStream c (map runnerEvent es)"

datatype provider_error = CreatingRequest | SendingRequest | ApiStatus int string | DecodingResponse

datatype http_reply = BadRequest | NoReply | Reply int string


subsection \<open>What the runner takes from a stream\<close>

definition noUsage :: usage_information where
  "noUsage = \<lparr>promptTokenCount = 0, completionTokenCount = 0, totalTokenCount = 0, cacheCreationCount = 0, cacheReadCount = 0\<rparr>"

definition addUsage :: "usage_information \<Rightarrow> usage_information \<Rightarrow> usage_information" where
  "addUsage u v =
     \<lparr>promptTokenCount = wrap64 (promptTokenCount u + promptTokenCount v),
      completionTokenCount = wrap64 (completionTokenCount u + completionTokenCount v),
      totalTokenCount = wrap64 (totalTokenCount u + totalTokenCount v),
      cacheCreationCount = wrap64 (cacheCreationCount u + cacheCreationCount v),
      cacheReadCount = wrap64 (cacheReadCount u + cacheReadCount v)\<rparr>"

text \<open>The usage summed up over the chunks until the stream is done.\<close>

fun collectUsage :: "usage_information option \<Rightarrow> provider_event list \<Rightarrow> usage_information option" where
  "collectUsage u [] = u"
| "collectUsage u (ProviderDone # es) = u"
| "collectUsage u (ProviderError e # es) = u"
| "collectUsage u (ProviderChunk c # es) =
     collectUsage (case chunkUsage c of
         None \<Rightarrow> u
       | Some v \<Rightarrow> Some (addUsage (case u of None \<Rightarrow> noUsage | Some w \<Rightarrow> w) v)) es"

subsection \<open>Calls that arrive one behind the other\<close>

lemma referenceCall_cong: "deltasOf i ds = deltasOf i es \<Longrightarrow> referenceCall i ds = referenceCall i es"
  by (simp add: referenceCall_def)

lemma deltasOf_append: "deltasOf i (ds @ es) = deltasOf i ds @ deltasOf i es"
  by (simp add: deltasOf_def)

lemma deltasOf_none: "(\<And>d. d \<in> set ds \<Longrightarrow> deltaIndex d \<noteq> i) \<Longrightarrow> deltasOf i ds = []"
  by (simp add: deltasOf_def filter_empty_conv)

text \<open>Deltas of one index in front of deltas of later ones: one call more.\<close>

lemma assemble_next:
  assumes "ds \<noteq> []" and "\<And>d. d \<in> set ds \<Longrightarrow> deltaIndex d = k" and "\<And>d. d \<in> set es \<Longrightarrow> k < deltaIndex d"
  shows "assembleToolCalls (ds @ es) = referenceCall k ds # assembleToolCalls es"
proof -
  let ?I = "deltaIndex ` set es"
  have "deltaIndex ` set ds = {k}" using assms(1,2) by (cases ds) auto
  then have set: "deltaIndex ` set (ds @ es) = insert k ?I" by auto
  have later: "k < i" if "i \<in> ?I" for i using that assms(3) by auto
  then have "k \<notin> ?I" by blast
  then have s: "sorted_list_of_set (insert k ?I) = k # sorted_list_of_set ?I"
    using later by (subst sorted_list_of_set_insert) (auto intro!: insort_is_Cons simp: less_imp_le)
  have first: "referenceCall k (ds @ es) = referenceCall k ds"
    using assms(3) by (intro referenceCall_cong) (auto simp: deltasOf_append intro!: deltasOf_none)
  have "referenceCall i (ds @ es) = referenceCall i es" if "i \<in> ?I" for i
    using later [OF that] assms(2) by (intro referenceCall_cong) (auto simp: deltasOf_append intro!: deltasOf_none)
  then show ?thesis unfolding assembled_reference set s using first by simp
qed

subsection \<open>The contract of a line reader\<close>

fun is_chunk :: "provider_event \<Rightarrow> bool" where
  "is_chunk (ProviderChunk c) = True"
| "is_chunk e = False"

text \<open>
  What the body of the loop promises: chunks while it goes on, and one final event when it returns.
  Then a stream is chunks with at most one final event behind them, a cancelled stream is a
  beginning of the full one, and a failure of the connection always reaches the runner.
\<close>

locale sse_reader =
  fixes onLine :: "string \<Rightarrow> 's \<Rightarrow> 's sse_step"
  assumes goes_on: "onLine l st = Continue es st' \<Longrightarrow> list_all is_chunk es"
    and stops: "onLine l st = Return es \<Longrightarrow> \<exists>e. es = [e] \<and> \<not> is_chunk e"
begin

lemma one_final_event: "list_all is_chunk (butlast (readLines onLine readFailed gone broken k st ls))"
proof (induction ls arbitrary: k st)
  case Nil
  then show ?case by (simp add: readFailed_def)
next
  case (Cons l ls)
  show ?case
  proof (cases "onLine l st")
    case (Continue es st')
    then show ?thesis using goes_on [OF Continue] Cons [of "Suc k" st'] by (auto simp: butlast_append list_all_iff dest: in_set_butlastD)
  next
    case (Return es)
    then show ?thesis using stops [OF Return] by auto
  qed
qed

lemma cancelled_prefix:
  "prefix (readLines onLine readFailed gone broken k st ls) (readLines onLine readFailed (\<lambda>_. False) broken k st ls)"
  by (induction ls arbitrary: k st) (simp_all split: sse_step.splits)

lemma chunks_collect:
  "list_all is_chunk es \<Longrightarrow> \<exists>d. collect c (es @ rest) = collect d rest"
proof (induction es arbitrary: c)
  case (Cons e es)
  then show ?case by (cases e) (auto simp: collect_def)
qed auto

lemma failure_is_seen:
  assumes "ProviderDone \<notin> set (readLines onLine readFailed (\<lambda>_. False) True k st ls)"
  shows "collect c (readLines onLine readFailed (\<lambda>_. False) True k st ls) = None"
  using assms
proof (induction ls arbitrary: c k st)
  case Nil
  then show ?case by (simp add: readFailed_def collect_def)
next
  case (Cons l ls)
  show ?case
  proof (cases "onLine l st")
    case (Continue es st')
    obtain d where "collect c (es @ readLines onLine readFailed (\<lambda>_. False) True (Suc k) st' ls)
        = collect d (readLines onLine readFailed (\<lambda>_. False) True (Suc k) st' ls)"
      using chunks_collect goes_on [OF Continue] by blast
    then show ?thesis using Cons Continue by simp
  next
    case (Return es)
    then obtain e where e: "es = [e]" "\<not> is_chunk e" using stops by blast
    then show ?thesis using Cons.prems Return by (cases e) (auto simp: collect_def)
  qed
qed

end

subsection \<open>OpenAI-compatible services\<close>

definition usesMaxCompletionTokens :: "(string \<Rightarrow> string) \<Rightarrow> string \<Rightarrow> bool" where
  "usesMaxCompletionTokens low model = has_prefix (low model) ''gpt-5''"

definition normalizeMaxTokensParameter :: "(string \<Rightarrow> string) \<Rightarrow> chat_request \<Rightarrow> chat_request" where
  "normalizeMaxTokensParameter low r =
     (if crMaxCompletionTokens r > 0 \<or> crMaxTokens r \<le> 0 then r
      else if usesMaxCompletionTokens low (crModel r)
      then r\<lparr>crMaxCompletionTokens := crMaxTokens r, crMaxTokens := 0\<rparr>
      else r)"

definition openAiLine :: "(string \<Rightarrow> stream_chunk option) \<Rightarrow> string \<Rightarrow> unit \<Rightarrow> unit sse_step" where
  "openAiLine parse l st =
     (if \<not> has_prefix l ''data: '' then Continue [] ()
      else let d = trim_prefix l ''data: '' in
        if d = ''[DONE]'' then Return [ProviderDone]
        else (case parse d of
            None \<Rightarrow> Return [ProviderError ''parsing stream chunk'']
          | Some c \<Rightarrow> Continue [ProviderChunk c] ()))"

definition openAiReadSse :: "(string \<Rightarrow> stream_chunk option) \<Rightarrow> (nat \<Rightarrow> bool) \<Rightarrow> bool \<Rightarrow> string list \<Rightarrow> provider_event list" where
  "openAiReadSse parse gone broken ls = readLines (openAiLine parse) readFailed gone broken 0 () ls"

interpretation oai: sse_reader "openAiLine parse"
  by unfold_locales (auto simp: openAiLine_def Let_def split: if_splits option.splits)

text \<open>The request goes out as it is, with the flag that asks for a stream.\<close>

definition openAiChatCompletion ::
    "(string \<Rightarrow> string) \<Rightarrow> (string \<Rightarrow> 'r option) \<Rightarrow> (chat_request \<times> bool \<Rightarrow> http_reply) \<Rightarrow> chat_request \<Rightarrow> provider_error + 'r" where
  "openAiChatCompletion low decode http r =
     (case http (normalizeMaxTokensParameter low r, False) of
        BadRequest \<Rightarrow> Inl CreatingRequest
      | NoReply \<Rightarrow> Inl SendingRequest
      | Reply status body \<Rightarrow>
          if status \<noteq> 200 then Inl (ApiStatus status body)
          else (case decode body of None \<Rightarrow> Inl DecodingResponse | Some x \<Rightarrow> Inr x))"

definition openAiChatCompletionStream ::
    "(string \<Rightarrow> string) \<Rightarrow> (string \<Rightarrow> stream_chunk option) \<Rightarrow> (chat_request \<times> bool \<Rightarrow> http_reply) \<Rightarrow> (string \<Rightarrow> string list \<times> bool)
     \<Rightarrow> (nat \<Rightarrow> bool) \<Rightarrow> chat_request \<Rightarrow> provider_error + provider_event list" where
  "openAiChatCompletionStream low parse http linesOf gone r =
     (case http (normalizeMaxTokensParameter low r, True) of
        BadRequest \<Rightarrow> Inl CreatingRequest
      | NoReply \<Rightarrow> Inl SendingRequest
      | Reply status body \<Rightarrow>
          if status \<noteq> 200 then Inl (ApiStatus status body)
          else (let (ls, broken) = linesOf body in Inr (openAiReadSse parse gone broken ls)))"

definition openAiListModels :: "(string \<Rightarrow> model_information list option) \<Rightarrow> http_reply \<Rightarrow> provider_error + model_information list" where
  "openAiListModels decode reply =
     (case reply of
        BadRequest \<Rightarrow> Inl CreatingRequest
      | NoReply \<Rightarrow> Inl SendingRequest
      | Reply status body \<Rightarrow>
          if status \<noteq> 200 then Inl (ApiStatus status body)
          else (case decode body of None \<Rightarrow> Inl DecodingResponse | Some ms \<Rightarrow> Inr (sort_key miId ms)))"

end
