(* ===== verification/Anthropic.thy ===== *)
theory Anthropic
  imports Providers
begin

text \<open>
  The Anthropic client (\<open>providers/anthropic.go\<close>): how a chat request becomes a request of the Messages
  API, how a response comes back, and \<open>readSse\<close>, which turns the lines of a streamed response into
  the events that the runner collects. The JSON arrays of content blocks appear decoded: \<open>None\<close> is
  the nil \<open>json.RawMessage\<close> that is left behind when marshalling fails. Parsing the data of an SSE line is an
  argument (\<open>sse_parsers\<close>), and so are the HTTP exchange and the decoding of its body.
\<close>

subsection \<open>Data\<close>

record image_source =
  sourceType :: string
  sourceMedia :: string
  sourceData :: string
  sourceUrl :: string

record content_block =
  cbType :: string
  cbText :: string
  cbId :: string
  cbName :: string
  cbInput :: "string option"
  cbToolUseId :: string
  cbContent :: string
  cbSource :: "image_source option"

definition emptyBlock :: content_block where
  "emptyBlock = \<lparr>cbType = [], cbText = [], cbId = [], cbName = [], cbInput = None, cbToolUseId = [],
     cbContent = [], cbSource = None\<rparr>"

definition textBlock :: "string \<Rightarrow> content_block" where
  "textBlock t = emptyBlock\<lparr>cbType := ''text'', cbText := t\<rparr>"

record anthropic_message =
  amRole :: string
  amContent :: "content_block list option"

record system_block =
  sysText :: string
  sysCached :: bool

record anthropic_tool =
  atName :: string
  atDescription :: string
  atSchema :: "json option"
  atCached :: bool

record anthropic_request =
  arModel :: string
  arMessages :: "anthropic_message list"
  arSystem :: "system_block list"
  arMaxTokens :: int
  arTemperature :: "64 word option"
  arTools :: "anthropic_tool list"
  arStream :: bool

record anthropic_usage =
  inputTokens :: int
  outputTokens :: int
  cacheCreationTokens :: int
  cacheReadTokens :: int

record anthropic_response =
  respId :: string
  respModel :: string
  respContent :: "content_block list"
  respStop :: string
  respUsage :: anthropic_usage

subsection \<open>Requests\<close>

text \<open>
  \<open>json.Marshal\<close> of blocks, read back: an input that is empty is left out, one that is not valid JSON
  makes the whole marshalling fail.
\<close>

definition inputMarshals :: "content_block \<Rightarrow> bool" where
  "inputMarshals b \<longleftrightarrow> (case cbInput b of None \<Rightarrow> True | Some i \<Rightarrow> i = [] \<or> jsonValid i)"

definition marshalBlock :: "content_block \<Rightarrow> content_block" where
  "marshalBlock b = b\<lparr>cbInput := (case cbInput b of None \<Rightarrow> None
     | Some i \<Rightarrow> if i = [] then None else Some (compactJson i))\<rparr>"

definition marshalBlocks :: "content_block list \<Rightarrow> content_block list option" where
  "marshalBlocks bs = (if list_all inputMarshals bs then Some (map marshalBlock bs) else None)"

definition translateImagePart :: "string \<Rightarrow> content_block" where
  "translateImagePart url =
     (let parts = split_n 2 (CHR '','') url in
      if has_prefix url ''data:'' \<and> length parts = 2
      then emptyBlock\<lparr>cbType := ''image'', cbSource := Some \<lparr>sourceType = ''base64'',
             sourceMedia = trim_suffix (trim_prefix (parts ! 0) ''data:'') '';base64'',
             sourceData = parts ! 1, sourceUrl = []\<rparr>\<rparr>
      else emptyBlock\<lparr>cbType := ''image'', cbSource := Some \<lparr>sourceType = ''url'', sourceMedia = [],
             sourceData = [], sourceUrl = url\<rparr>\<rparr>)"

fun partBlock :: "content_part \<Rightarrow> content_block" where
  "partBlock (TextPart t) = textBlock t"
| "partBlock (ImagePart u) = translateImagePart u"

definition toolUseBlock :: "tool_call \<Rightarrow> content_block" where
  "toolUseBlock tc = emptyBlock\<lparr>cbType := ''tool_use'', cbId := callId tc, cbName := callName tc,
     cbInput := Some (if callArguments tc \<noteq> [] then callArguments tc else ''{}'')\<rparr>"

definition orEmptyText :: "content_block list \<Rightarrow> content_block list" where
  "orEmptyText bs = (if bs = [] then [textBlock []] else bs)"

definition translateAssistantMessage :: "chat_message \<Rightarrow> anthropic_message" where
  "translateAssistantMessage m =
     (let words = contentText (content m) in
      \<lparr>amRole = ''assistant'',
       amContent = marshalBlocks (orEmptyText
         ((if words \<noteq> [] then [textBlock words] else []) @ map toolUseBlock (toolCalls m)))\<rparr>)"

definition translateToolResultMessage :: "chat_message \<Rightarrow> anthropic_message" where
  "translateToolResultMessage m =
     \<lparr>amRole = ''user'', amContent = marshalBlocks [emptyBlock\<lparr>cbType := ''tool_result'',
        cbToolUseId := toolCallId m, cbContent := contentText (content m)\<rparr>]\<rparr>"

definition translateUserMessage :: "chat_message \<Rightarrow> anthropic_message" where
  "translateUserMessage m =
     \<lparr>amRole = ''user'', amContent = marshalBlocks
        (case content m of
           Parts ps \<Rightarrow> orEmptyText (map partBlock ps)
         | _ \<Rightarrow> [textBlock (contentText (content m))])\<rparr>"

definition translateMessage :: "chat_message \<Rightarrow> anthropic_message" where
  "translateMessage m =
     (if role m = ''assistant'' then translateAssistantMessage m
      else if role m = ''tool'' then translateToolResultMessage m
      else translateUserMessage m)"

text \<open>Appending two arrays re-marshals their blocks as they are; a nil content is no JSON array.\<close>

definition mergeMessages :: "anthropic_message \<Rightarrow> anthropic_message \<Rightarrow> anthropic_message" where
  "mergeMessages existing incoming =
     (case (amContent existing, amContent incoming) of
        (Some bs, Some cs) \<Rightarrow> existing\<lparr>amContent := Some (bs @ cs)\<rparr>
      | _ \<Rightarrow> existing)"

definition appendTranslated :: "anthropic_message list \<Rightarrow> anthropic_message \<Rightarrow> anthropic_message list" where
  "appendTranslated ms t =
     (if ms \<noteq> [] \<and> amRole (last ms) = amRole t
      then butlast ms @ [mergeMessages (last ms) t] else ms @ [t])"

definition systemAsUser :: "chat_message \<Rightarrow> chat_message" where
  "systemAsUser m =
     (if role m = ''system''
      then \<lparr>role = ''user'', content = Text (''[System] '' @ contentText (content m)), toolCalls = [],
            toolCallId = [], toolName = [], sourceMessageId = []\<rparr>
      else m)"

text \<open>The first loop, with \<open>leadingDone\<close> as the accumulator.\<close>

fun splitSystem :: "bool \<Rightarrow> chat_message list \<Rightarrow> system_block list \<times> chat_message list" where
  "splitSystem leadingDone [] = ([], [])"
| "splitSystem leadingDone (m # ms) =
     (if \<not> leadingDone \<and> role m = ''system''
      then (let (bs, rest) = splitSystem leadingDone ms in
            (\<lparr>sysText = contentText (content m), sysCached = False\<rparr> # bs, rest))
      else (let (bs, rest) = splitSystem True ms in (bs, systemAsUser m # rest)))"

definition extractSystemAndMessages :: "chat_message list \<Rightarrow> system_block list \<times> anthropic_message list" where
  "extractSystemAndMessages ms =
     (let (bs, remaining) = splitSystem False ms in
      (bs, foldl (\<lambda>acc m. appendTranslated acc (translateMessage m)) [] remaining))"

definition translateTools :: "tool_definition list \<Rightarrow> anthropic_tool list" where
  "translateTools ds = map (\<lambda>d. \<lparr>atName = definitionName d, atDescription = definitionDescription d,
     atSchema = definitionParameters d, atCached = False\<rparr>) ds"

definition translateRequest :: "chat_request \<Rightarrow> bool \<Rightarrow> anthropic_request" where
  "translateRequest r stream =
     (let (systems, messages) = extractSystemAndMessages (crMessages r);
          tools = translateTools (crTools r) in
      \<lparr>arModel = crModel r, arMessages = messages,
       arSystem = (if systems \<noteq> [] then butlast systems @ [(last systems)\<lparr>sysCached := True\<rparr>] else []),
       arMaxTokens = (if crMaxTokens r \<le> 0 then 8192 else crMaxTokens r),
       arTemperature = crTemperature r,
       arTools = (if tools \<noteq> [] then butlast tools @ [(last tools)\<lparr>atCached := True\<rparr>] else []),
       arStream = stream\<rparr>)"

subsection \<open>Responses\<close>

definition translateStopReason :: "string \<Rightarrow> string" where
  "translateStopReason s =
     (if s = ''end_turn'' then ''stop''
      else if s = ''tool_use'' then ''tool_calls''
      else if s = ''max_tokens'' then ''length''
      else s)"

definition responseCall :: "content_block \<Rightarrow> tool_call" where
  "responseCall b = \<lparr>callId = cbId b, callName = cbName b,
     callArguments = (case marshalRaw (cbInput b) of None \<Rightarrow> [] | Some i \<Rightarrow> i)\<rparr>"

definition translateResponse :: "anthropic_response \<Rightarrow> chat_response" where
  "translateResponse r =
     \<lparr>crespId = respId r, crespModel = respModel r,
      crespMessage = \<lparr>role = ''assistant'',
        content = Text (concat (map cbText (filter (\<lambda>b. cbType b = ''text'') (respContent r)))),
        toolCalls = map responseCall (filter (\<lambda>b. cbType b = ''tool_use'') (respContent r)),
        toolCallId = [], toolName = [], sourceMessageId = []\<rparr>,
      crespFinish = translateStopReason (respStop r),
      crespUsage = Some \<lparr>promptTokenCount = inputTokens (respUsage r), completionTokenCount = outputTokens (respUsage r),
        totalTokenCount = wrap64 (inputTokens (respUsage r) + outputTokens (respUsage r)),
        cacheCreationCount = cacheCreationTokens (respUsage r), cacheReadCount = cacheReadTokens (respUsage r)\<rparr>\<rparr>"

subsection \<open>Streams\<close>

record block_delta =
  bdText :: string
  bdPartialJson :: string

record sse_parsers =
  parseMessageStart :: "string \<Rightarrow> anthropic_response option"
  parseBlockStart :: "string \<Rightarrow> (int \<times> content_block) option"
  parseBlockDelta :: "string \<Rightarrow> (int \<times> block_delta) option"
  parseMessageDelta :: "string \<Rightarrow> (string \<times> anthropic_usage) option"

text \<open>The variables of \<open>readSse\<close>; a block that was not started has the zero value.\<close>

record sse_state =
  startedBlocks :: "int \<Rightarrow> string"
  sseId :: string
  sseModel :: string
  pendingEvent :: string

definition sseInit :: sse_state where
  "sseInit = \<lparr>startedBlocks = (\<lambda>_. []), sseId = [], sseModel = [], pendingEvent = []\<rparr>"

definition chunkOf :: "sse_state \<Rightarrow> stream_choice list \<Rightarrow> usage_information option \<Rightarrow> provider_event" where
  "chunkOf st xs u =
     ProviderChunk \<lparr>chunkId = sseId st, chunkModel = sseModel st, chunkChoices = xs, chunkUsage = u\<rparr>"

definition textChoice :: "string \<Rightarrow> stream_choice" where
  "textChoice t = \<lparr>choiceContent = t, choiceFinish = [], choiceDeltas = []\<rparr>"

definition callChoice :: "call_delta \<Rightarrow> stream_choice" where
  "callChoice d = \<lparr>choiceContent = [], choiceFinish = [], choiceDeltas = [d]\<rparr>"

definition onMessageStart :: "anthropic_response \<Rightarrow> sse_state \<Rightarrow> sse_state sse_step" where
  "onMessageStart r st =
     (let st' = st\<lparr>sseId := respId r, sseModel := respModel r\<rparr>; u = respUsage r in
      Continue
        (if inputTokens u > 0 \<or> cacheCreationTokens u > 0 \<or> cacheReadTokens u > 0
         then [chunkOf st' [] (Some \<lparr>promptTokenCount = inputTokens u, completionTokenCount = 0, totalTokenCount = 0,
                 cacheCreationCount = cacheCreationTokens u, cacheReadCount = cacheReadTokens u\<rparr>)]
         else []) st')"

definition onBlockStart :: "int \<Rightarrow> content_block \<Rightarrow> sse_state \<Rightarrow> sse_state sse_step" where
  "onBlockStart i b st =
     (let st' = st\<lparr>startedBlocks := (startedBlocks st)(i := cbType b)\<rparr> in
      Continue
        (if cbType b = ''tool_use''
         then [chunkOf st' [callChoice \<lparr>deltaIndex = i, deltaId = cbId b, deltaName = cbName b, deltaArguments = []\<rparr>] None]
         else []) st')"

definition onBlockDelta :: "int \<Rightarrow> block_delta \<Rightarrow> sse_state \<Rightarrow> sse_state sse_step" where
  "onBlockDelta i d st =
     Continue
       (if startedBlocks st i = ''text'' then [chunkOf st [textChoice (bdText d)] None]
        else if startedBlocks st i = ''tool_use''
        then [chunkOf st [callChoice \<lparr>deltaIndex = i, deltaId = [], deltaName = [], deltaArguments = bdPartialJson d\<rparr>] None]
        else []) st"

definition onMessageDelta :: "string \<Rightarrow> anthropic_usage \<Rightarrow> sse_state \<Rightarrow> sse_state sse_step" where
  "onMessageDelta stop u st =
     Continue [chunkOf st [\<lparr>choiceContent = [], choiceFinish = translateStopReason stop, choiceDeltas = []\<rparr>]
       (Some \<lparr>promptTokenCount = 0, completionTokenCount = outputTokens u, totalTokenCount = 0,
              cacheCreationCount = 0, cacheReadCount = 0\<rparr>)] st"

definition onData :: "sse_parsers \<Rightarrow> string \<Rightarrow> sse_state \<Rightarrow> sse_state sse_step" where
  "onData p d st =
     (let name = pendingEvent st in
      if name = ''message_start'' then
        (case parseMessageStart p d of
           None \<Rightarrow> Return [ProviderError ''parsing message_start''] | Some r \<Rightarrow> onMessageStart r st)
      else if name = ''content_block_start'' then
        (case parseBlockStart p d of
           None \<Rightarrow> Return [ProviderError ''parsing content_block_start''] | Some (i, b) \<Rightarrow> onBlockStart i b st)
      else if name = ''content_block_delta'' then
        (case parseBlockDelta p d of
           None \<Rightarrow> Return [ProviderError ''parsing content_block_delta''] | Some (i, x) \<Rightarrow> onBlockDelta i x st)
      else if name = ''message_delta'' then
        (case parseMessageDelta p d of
           None \<Rightarrow> Return [ProviderError ''parsing message_delta''] | Some (stop, u) \<Rightarrow> onMessageDelta stop u st)
      else if name = ''message_stop'' then Return [ProviderDone]
      else Continue [] st)"

definition sseLine :: "sse_parsers \<Rightarrow> string \<Rightarrow> sse_state \<Rightarrow> sse_state sse_step" where
  "sseLine p l st =
     (if has_prefix l ''event: '' then Continue [] (st\<lparr>pendingEvent := trim_prefix l ''event: ''\<rparr>)
      else if \<not> has_prefix l ''data: '' then Continue [] st
      else (case onData p (trim_prefix l ''data: '') st of
          Return es \<Rightarrow> Return es
        | Continue es st' \<Rightarrow> Continue es (st'\<lparr>pendingEvent := []\<rparr>)))"

interpretation anthropic: sse_reader "sseLine p"
  by unfold_locales
    (auto simp: sseLine_def onData_def onMessageStart_def onBlockStart_def onBlockDelta_def onMessageDelta_def chunkOf_def Let_def
      split: if_splits option.splits sse_step.splits)

definition readSse :: "sse_parsers \<Rightarrow> (nat \<Rightarrow> bool) \<Rightarrow> bool \<Rightarrow> string list \<Rightarrow> provider_event list" where
  "readSse p gone broken ls = readLines (sseLine p) readFailed gone broken 0 sseInit ls"

subsection \<open>The exchange\<close>

definition chatCompletion ::
    "(string \<Rightarrow> anthropic_response option) \<Rightarrow> (anthropic_request \<Rightarrow> http_reply) \<Rightarrow> chat_request \<Rightarrow> provider_error + chat_response" where
  "chatCompletion decode http r =
     (case http (translateRequest r False) of
        BadRequest \<Rightarrow> Inl CreatingRequest
      | NoReply \<Rightarrow> Inl SendingRequest
      | Reply status body \<Rightarrow>
          if status \<noteq> 200 then Inl (ApiStatus status body)
          else (case decode body of None \<Rightarrow> Inl DecodingResponse | Some a \<Rightarrow> Inr (translateResponse a)))"

text \<open>A streamed reply is the lines of its body and whether reading them ended with an error.\<close>

definition chatCompletionStream ::
    "sse_parsers \<Rightarrow> (anthropic_request \<Rightarrow> http_reply) \<Rightarrow> (string \<Rightarrow> string list \<times> bool) \<Rightarrow> (nat \<Rightarrow> bool)
     \<Rightarrow> chat_request \<Rightarrow> provider_error + provider_event list" where
  "chatCompletionStream p http linesOf gone r =
     (case http (translateRequest r True) of
        BadRequest \<Rightarrow> Inl CreatingRequest
      | NoReply \<Rightarrow> Inl SendingRequest
      | Reply status body \<Rightarrow>
          if status \<noteq> 200 then Inl (ApiStatus status body)
          else (let (ls, broken) = linesOf body in Inr (readSse p gone broken ls)))"

definition fallbackModels :: "model_information list" where
  "fallbackModels = map modelNamed [''claude-opus-4-20250514'', ''claude-sonnet-4-20250514'', ''claude-haiku-4-20250514'',
     ''claude-3-5-sonnet-20241022'', ''claude-3-5-haiku-20241022'']"

definition listModels :: "(string \<Rightarrow> string list option) \<Rightarrow> http_reply \<Rightarrow> model_information list" where
  "listModels decode reply =
     (case reply of
        Reply status body \<Rightarrow>
          if status \<noteq> 200 then fallbackModels
          else (case decode body of None \<Rightarrow> fallbackModels | Some ids \<Rightarrow> sort_key miId (map modelNamed ids))
      | _ \<Rightarrow> fallbackModels)"
end
