(* ===== verification/AnthropicPrompts.thy ===== *)
theory AnthropicPrompts
  imports Anthropic
begin

text \<open>
  What the requests of the Anthropic client say: roles alternate, the blocks of the prompt appear
  once and in order, and the pairing of tool calls and results that the runner established carries
  over to adjacent messages. An argument text that is not JSON breaks this.
\<close>

subsection \<open>Merging as grouping\<close>

definition apiRole :: "chat_message \<Rightarrow> string" where
  "apiRole m = (if role m = ''assistant'' then ''assistant'' else ''user'')"

definition blocksOf :: "anthropic_message \<Rightarrow> content_block list" where
  "blocksOf a = (case amContent a of None \<Rightarrow> [] | Some bs \<Rightarrow> bs)"

definition translated :: "anthropic_message \<Rightarrow> bool" where
  "translated a \<longleftrightarrow> amContent a \<noteq> None"

fun groupRuns :: "anthropic_message list \<Rightarrow> anthropic_message list" where
  "groupRuns [] = []"
| "groupRuns (t # ts) =
     (case groupRuns ts of
        [] \<Rightarrow> [t]
      | g # gs \<Rightarrow> if amRole g = amRole t then mergeMessages t g # gs else t # g # gs)"

lemma merge_role [simp]: "amRole (mergeMessages a b) = amRole a"
  by (simp add: mergeMessages_def split: option.splits)

lemma merge_blocks: "translated a \<Longrightarrow> translated b \<Longrightarrow> blocksOf (mergeMessages a b) = blocksOf a @ blocksOf b"
  by (auto simp: mergeMessages_def translated_def blocksOf_def)

lemma merge_translated [simp]: "translated (mergeMessages a b) = translated a"
  by (auto simp: mergeMessages_def translated_def split: option.splits)

lemma merge_assoc:
  "translated b \<Longrightarrow> mergeMessages (mergeMessages a b) c = mergeMessages a (mergeMessages b c)"
  by (auto simp: mergeMessages_def translated_def split: option.splits)

lemma group_translated: "list_all translated ts \<Longrightarrow> list_all translated (groupRuns ts)"
  by (induction ts) (auto split: list.splits)

lemma group_nonempty: "groupRuns ts = [] \<longleftrightarrow> ts = []"
  by (cases ts) (auto split: list.splits)

lemma group_hd_role: "ts \<noteq> [] \<Longrightarrow> amRole (hd (groupRuns ts)) = amRole (hd ts)"
  by (cases ts) (auto split: list.splits)

lemma group_roles: "map amRole (groupRuns ts) = remdups_adj (map amRole ts)"
proof (induction ts)
  case (Cons t ts)
  show ?case
  proof (cases ts)
    case (Cons u us)
    then obtain g gs where g: "groupRuns ts = g # gs" by (metis group_nonempty list.exhaust list.distinct(1))
    then have "amRole g = amRole u" using group_hd_role [of ts] Cons by simp
    then show ?thesis using Cons.IH g Cons by auto
  qed simp
qed simp

lemma group_blocks:
  "list_all translated ts \<Longrightarrow> concat (map blocksOf (groupRuns ts)) = concat (map blocksOf ts)"
proof (induction ts)
  case (Cons t ts)
  then show ?case using group_translated [of ts] by (auto simp: merge_blocks split: list.splits)
qed simp

lemma append_last:
  "appendTranslated (g # h # hs) t = g # appendTranslated (h # hs) t"
  by (simp add: appendTranslated_def)

lemma group_snoc:
  "list_all translated (ts @ [t]) \<Longrightarrow> groupRuns (ts @ [t]) = appendTranslated (groupRuns ts) t"
proof (induction ts)
  case Nil
  then show ?case by (simp add: appendTranslated_def)
next
  case (Cons x ts)
  then have ih: "groupRuns (ts @ [t]) = appendTranslated (groupRuns ts) t" by simp
  show ?case
  proof (cases "groupRuns ts")
    case Nil
    then show ?thesis using ih by (auto simp: appendTranslated_def)
  next
    case (Cons g gs)
    have tr: "translated g" using group_translated [of ts] Cons.prems Cons by simp
    show ?thesis
    proof (cases gs)
      case Nil
      then show ?thesis using ih Cons tr by (auto simp: appendTranslated_def merge_assoc)
    next
      case (Cons h hs)
      then show ?thesis using ih \<open>groupRuns ts = g # gs\<close> by (auto simp: append_last)
    qed
  qed
qed

lemma fold_groups: "list_all translated ts \<Longrightarrow> foldl appendTranslated [] ts = groupRuns ts"
  by (induction ts rule: rev_induct) (simp_all add: group_snoc)

subsection \<open>Translating one message\<close>

text \<open>The arguments of every call are empty or JSON.\<close>

definition arguments_ok :: "chat_message \<Rightarrow> bool" where
  "arguments_ok m \<longleftrightarrow> list_all (\<lambda>tc. callArguments tc = [] \<or> jsonValid (callArguments tc)) (toolCalls m)"

lemma translate_role [simp]: "amRole (translateMessage m) = apiRole m"
  by (simp add: translateMessage_def apiRole_def translateAssistantMessage_def translateToolResultMessage_def
      translateUserMessage_def Let_def)

definition promptBlocks :: "chat_message \<Rightarrow> content_block list" where
  "promptBlocks m =
     (if role m = ''assistant''
      then orEmptyText ((if contentText (content m) \<noteq> [] then [textBlock (contentText (content m))] else [])
             @ map toolUseBlock (toolCalls m))
      else if role m = ''tool''
      then [emptyBlock\<lparr>cbType := ''tool_result'', cbToolUseId := toolCallId m, cbContent := contentText (content m)\<rparr>]
      else (case content m of
              Parts ps \<Rightarrow> orEmptyText (map partBlock ps)
            | _ \<Rightarrow> [textBlock (contentText (content m))]))"

lemma translate_content [simp]: "amContent (translateMessage m) = marshalBlocks (promptBlocks m)"
  by (simp add: translateMessage_def promptBlocks_def translateAssistantMessage_def translateToolResultMessage_def
      translateUserMessage_def Let_def)

lemma no_input_marshals [simp]: "cbInput b = None \<Longrightarrow> inputMarshals b" "cbInput b = None \<Longrightarrow> marshalBlock b = b"
  by (simp_all add: inputMarshals_def marshalBlock_def)

lemma plain_input [simp]:
  "cbInput emptyBlock = None" "cbInput (textBlock t) = None" "cbInput (translateImagePart u) = None" "cbInput (partBlock x) = None"
  by (cases x; simp add: textBlock_def translateImagePart_def emptyBlock_def Let_def)+

lemma plain_types [simp]:
  "cbType (textBlock t) = ''text''" "cbType (translateImagePart u) = ''image''" "cbType (partBlock x) \<noteq> ''tool_use''"
  by (cases x; simp add: textBlock_def translateImagePart_def emptyBlock_def Let_def)+

lemma toolUse_block [simp]:
  "inputMarshals (toolUseBlock tc) \<longleftrightarrow> callArguments tc = [] \<or> jsonValid (callArguments tc)"
  "cbType (toolUseBlock tc) = ''tool_use''" "cbId (toolUseBlock tc) = callId tc"
  by (simp_all add: inputMarshals_def toolUseBlock_def)

lemma marshal_keeps [simp]:
  "cbType (marshalBlock b) = cbType b" "cbId (marshalBlock b) = cbId b" "cbToolUseId (marshalBlock b) = cbToolUseId b"
  by (simp_all add: marshalBlock_def)

lemma translate_translated:
  "translated (translateMessage m) \<longleftrightarrow> role m \<noteq> ''assistant'' \<or> arguments_ok m"
  by (auto simp: translated_def marshalBlocks_def promptBlocks_def orEmptyText_def list_all_iff arguments_ok_def
      split: content.splits)

lemma translate_blocks:
  "role m \<noteq> ''assistant'' \<or> arguments_ok m \<Longrightarrow> blocksOf (translateMessage m) = map marshalBlock (promptBlocks m)"
  using translate_translated [of m] by (auto simp: translated_def blocksOf_def marshalBlocks_def split: if_splits)

lemma translate_uses:
  assumes "b \<in> set (blocksOf (translateMessage m))" and "cbType b = ''tool_use''"
  shows "role m = ''assistant'' \<and> (\<exists>tc\<in>set (toolCalls m). callId tc = cbId b)"
  using assms
  by (auto simp: blocksOf_def marshalBlocks_def promptBlocks_def orEmptyText_def split: option.splits if_splits content.splits)

lemma translate_result:
  "role m = ''tool'' \<Longrightarrow> \<exists>b\<in>set (blocksOf (translateMessage m)). cbType b = ''tool_result'' \<and> cbToolUseId b = toolCallId m"
  by (simp add: translate_blocks promptBlocks_def)

subsection \<open>System messages\<close>

abbreviation leading_system :: "chat_message list \<Rightarrow> chat_message list" where
  "leading_system ms \<equiv> takeWhile (\<lambda>m. role m = ''system'') ms"

abbreviation conversation :: "chat_message list \<Rightarrow> chat_message list" where
  "conversation ms \<equiv> map systemAsUser (dropWhile (\<lambda>m. role m = ''system'') ms)"

lemma splitSystem_True: "splitSystem True ms = ([], map systemAsUser ms)"
  by (induction ms) simp_all

lemma splitSystem_False:
  "splitSystem False ms =
    (map (\<lambda>m. \<lparr>sysText = contentText (content m), sysCached = False\<rparr>) (leading_system ms), conversation ms)"
  by (induction ms) (simp_all add: splitSystem_True)

lemma systemAsUser_keeps [simp]:
  "role (systemAsUser m) = ''assistant'' \<longleftrightarrow> role m = ''assistant''"
  "role (systemAsUser m) = ''tool'' \<longleftrightarrow> role m = ''tool''"
  "role m = ''assistant'' \<Longrightarrow> systemAsUser m = m" "role m = ''tool'' \<Longrightarrow> systemAsUser m = m"
  by (simp_all add: systemAsUser_def)

lemma extract_messages:
  "snd (extractSystemAndMessages ms) = foldl appendTranslated [] (map translateMessage (conversation ms))"
  by (simp add: extractSystemAndMessages_def splitSystem_False foldl_map del: map_map)

definition prompt_ok :: "chat_message list \<Rightarrow> bool" where
  "prompt_ok ms \<longleftrightarrow> (\<forall>m\<in>set ms. role m = ''assistant'' \<longrightarrow> arguments_ok m)"

lemma conversation_ok:
  assumes "prompt_ok ms" and "m \<in> set (conversation ms)"
  shows "role m \<noteq> ''assistant'' \<or> arguments_ok m"
proof -
  obtain x where x: "x \<in> set ms" "m = systemAsUser x" using assms(2) set_dropWhileD by fastforce
  show ?thesis
  proof (cases "role x = ''assistant''")
    case True
    then show ?thesis using x assms(1) by (simp add: prompt_ok_def)
  qed (use x in simp)
qed

lemma extract_groups:
  assumes "prompt_ok ms"
  shows "snd (extractSystemAndMessages ms) = groupRuns (map translateMessage (conversation ms))"
    and "list_all translated (map translateMessage (conversation ms))"
proof -
  show t: "list_all translated (map translateMessage (conversation ms))"
    unfolding list_all_iff
  proof
    fix t assume "t \<in> set (map translateMessage (conversation ms))"
    then obtain m where "m \<in> set (conversation ms)" "t = translateMessage m" by auto
    then show "translated t" using conversation_ok [OF assms] translate_translated by blast
  qed
  show "snd (extractSystemAndMessages ms) = groupRuns (map translateMessage (conversation ms))"
    unfolding extract_messages by (rule fold_groups [OF t])
qed

subsection \<open>Calls and results in adjacent messages\<close>

fun answered_later :: "chat_message list \<Rightarrow> bool" where
  "answered_later [] = True"
| "answered_later (m # ms) =
     ((role m = ''assistant'' \<longrightarrow> (\<forall>tc\<in>set (toolCalls m).
         \<exists>t\<in>set (takeWhile (\<lambda>x. role x \<noteq> ''assistant'') ms). role t = ''tool'' \<and> toolCallId t = callId tc))
      \<and> answered_later ms)"

lemma turn_before: "set (turn ms) \<subseteq> set (takeWhile (\<lambda>x. role x \<noteq> ''assistant'') ms)"
  unfolding turn_def by (induction ms) auto

lemma answered_answered_later: "calls_answered ms \<Longrightarrow> answered_later ms"
proof (induction ms)
  case (Cons m ms)
  then show ?case using turn_before [of ms] by (simp add: subset_iff) blast
qed simp

lemma answered_later_conversation: "answered_later ms \<Longrightarrow> answered_later (map systemAsUser ms)"
proof (induction ms)
  case (Cons m ms)
  have "takeWhile (\<lambda>x. role x \<noteq> ''assistant'') (map systemAsUser ms)
      = map systemAsUser (takeWhile (\<lambda>x. role x \<noteq> ''assistant'') ms)"
    by (simp add: takeWhile_map comp_def)
  moreover have "\<exists>t\<in>systemAsUser ` set xs. role t = ''tool'' \<and> toolCallId t = i"
    if "\<exists>t\<in>set xs. role t = ''tool'' \<and> toolCallId t = i" for xs i
    using that by (metis image_eqI systemAsUser_keeps(4))
  ultimately show ?case using Cons by simp
qed simp

text \<open>The results that an API message carries, and the calls that the message before it makes.\<close>

definition has_result :: "anthropic_message \<Rightarrow> string \<Rightarrow> bool" where
  "has_result a i \<longleftrightarrow> amRole a = ''user''
     \<and> (\<exists>b\<in>set (blocksOf a). cbType b = ''tool_result'' \<and> cbToolUseId b = i)"

fun uses_answered :: "anthropic_message list \<Rightarrow> bool" where
  "uses_answered [] = True"
| "uses_answered (a # as) =
     ((\<forall>b\<in>set (blocksOf a). cbType b = ''tool_use'' \<longrightarrow>
         amRole a = ''assistant'' \<and> as \<noteq> [] \<and> has_result (hd as) (cbId b))
      \<and> uses_answered as)"

lemma group_hd_blocks:
  assumes "list_all translated (t # ts)"
  shows "blocksOf (hd (groupRuns (t # ts)))
    = concat (map blocksOf (takeWhile (\<lambda>x. amRole x = amRole t) (t # ts)))"
  using assms
proof (induction ts arbitrary: t)
  case (Cons u us)
  then have ih: "blocksOf (hd (groupRuns (u # us))) = concat (map blocksOf (takeWhile (\<lambda>x. amRole x = amRole u) (u # us)))"
    and tr: "translated t" "list_all translated (u # us)" by simp_all
  obtain g gs where g: "groupRuns (u # us) = g # gs" by (metis group_nonempty list.exhaust list.distinct(1))
  have r: "amRole g = amRole u" using group_hd_role [of "u # us"] g by simp
  have tg: "translated g" using group_translated [OF tr(2)] g by simp
  have e: "groupRuns (t # u # us) = (if amRole g = amRole t then mergeMessages t g # gs else t # g # gs)"
    by (subst groupRuns.simps(2)) (simp add: g del: groupRuns.simps)
  show ?case unfolding e using ih r g tr(1) tg by (auto simp: merge_blocks simp del: groupRuns.simps)
qed simp

lemma first_user_group:
  assumes "list_all translated (map translateMessage ms)" and "t \<in> set (takeWhile (\<lambda>x. role x \<noteq> ''assistant'') ms)"
    and "role t = ''tool''"
  shows "has_result (hd (groupRuns (map translateMessage ms))) (toolCallId t)"
proof -
  obtain m ns where ms: "ms = m # ns" "role m \<noteq> ''assistant''"
    using assms(2) by (cases ms) (auto split: if_splits)
  have u: "apiRole m = ''user''" using ms(2) by (simp add: apiRole_def)
  have w: "takeWhile (\<lambda>x. amRole x = apiRole m) (map translateMessage ms)
      = map translateMessage (takeWhile (\<lambda>x. role x \<noteq> ''assistant'') ms)"
    unfolding takeWhile_map u by (rule arg_cong [of _ _ "map translateMessage"], rule takeWhile_cong)
      (simp_all add: apiRole_def)
  obtain b where b: "b \<in> set (blocksOf (translateMessage t))" "cbType b = ''tool_result''" "cbToolUseId b = toolCallId t"
    using translate_result [OF assms(3)] by blast
  have "b \<in> set (blocksOf (hd (groupRuns (map translateMessage ms))))"
    using group_hd_blocks [of "translateMessage m" "map translateMessage ns"] assms(1,2) b(1) w
    unfolding ms(1) by (auto simp del: groupRuns.simps takeWhile.simps)
  moreover have "amRole (hd (groupRuns (map translateMessage ms))) = ''user''"
    using group_hd_role [of "map translateMessage ms"] ms u by simp
  ultimately show ?thesis using b by (auto simp: has_result_def)
qed

lemma groups_answered:
  assumes "list_all translated (map translateMessage ms)" and "answered_later ms"
  shows "uses_answered (groupRuns (map translateMessage ms))"
  using assms
proof (induction ms)
  case (Cons m ms)
  let ?gs = "groupRuns (map translateMessage ms)"
  have tr: "translated (translateMessage m)" "list_all translated (map translateMessage ms)" using Cons.prems by simp_all
  have ih: "uses_answered ?gs" using Cons by simp
  have use: "amRole (translateMessage m) = ''assistant'' \<and> ms \<noteq> [] \<and> has_result (hd ?gs) (cbId b)"
    if b: "b \<in> set (blocksOf (translateMessage m))" "cbType b = ''tool_use''" for b
  proof -
    obtain tc where tc: "role m = ''assistant''" "tc \<in> set (toolCalls m)" "callId tc = cbId b"
      using translate_uses [OF b] by blast
    then obtain t where t: "t \<in> set (takeWhile (\<lambda>x. role x \<noteq> ''assistant'') ms)" "role t = ''tool''" "toolCallId t = cbId b"
      using Cons.prems(2) by auto
    have "ms \<noteq> []" using t(1) by auto
    then show ?thesis using first_user_group [OF tr(2) t(1,2)] t(3) tc(1) by (simp add: apiRole_def)
  qed
  show ?case
  proof (cases ?gs)
    case Nil
    then show ?thesis using use by (auto simp: group_nonempty)
  next
    case (Cons g gs)
    have tg: "translated g" using group_translated [OF tr(2)] Cons by simp
    have ne: "ms \<noteq> []" using Cons by auto
    show ?thesis
    proof (cases "amRole g = amRole (translateMessage m)")
      case True
      have no: "cbType b \<noteq> ''tool_use''" if "b \<in> set (blocksOf (translateMessage m))" for b
      proof
        assume "cbType b = ''tool_use''"
        then have "amRole (translateMessage m) = ''assistant''" "amRole g = ''user''"
          using use [OF that] Cons by (auto simp: has_result_def)
        then show False using True by simp
      qed
      show ?thesis using ih Cons True no by (auto simp: merge_blocks [OF tr(1) tg])
    next
      case False
      then show ?thesis using ih Cons use by auto
    qed
  qed
qed simp

lemma conversation_answered: "calls_answered ms \<Longrightarrow> answered_later (conversation ms)"
  by (intro answered_later_conversation answered_answered_later calls_answered_drop)

subsection \<open>Properties of a request\<close>

lemma request_messages: "arMessages (translateRequest r stream) = snd (extractSystemAndMessages (crMessages r))"
  by (simp add: translateRequest_def Let_def split: prod.splits)

lemma mark_last_text: "map sysText (butlast bs @ [(last bs)\<lparr>sysCached := True\<rparr>]) = map sysText bs" if "bs \<noteq> []"
proof -
  have "map sysText bs = map sysText (butlast bs @ [last bs])" using that by simp
  then show ?thesis by simp
qed

lemma request_system:
  "map sysText (arSystem (translateRequest r stream)) = map (\<lambda>m. contentText (content m)) (leading_system (crMessages r))"
  by (auto simp: translateRequest_def extractSystemAndMessages_def splitSystem_False Let_def mark_last_text comp_def
      simp del: map_append)

text \<open>C30: As long as the arguments of every call of the prompt's assistant messages are valid JSON (or empty), the request
  says what the prompt says: the leading system messages become the system blocks, runs of messages from
  the same side become one message each, so that the roles alternate, and the content blocks of all
  messages are those of the prompt, each once and in order. (With one invalid argument the message
  that holds it loses all of its blocks.)\<close>

theorem request_keeps_the_prompt:
  assumes "prompt_ok (crMessages r)"
  shows "map sysText (arSystem (translateRequest r stream))
      = map (\<lambda>m. contentText (content m)) (leading_system (crMessages r))
    \<and> map amRole (arMessages (translateRequest r stream))
      = remdups_adj (map apiRole (conversation (crMessages r)))
    \<and> concat (map blocksOf (arMessages (translateRequest r stream)))
      = concat (map (\<lambda>m. map marshalBlock (promptBlocks m)) (conversation (crMessages r)))
    \<and> list_all translated (arMessages (translateRequest r stream))"
proof -
  note g = extract_groups [OF assms]
  have "blocksOf (translateMessage m) = map marshalBlock (promptBlocks m)" if "m \<in> set (conversation (crMessages r))" for m
    using conversation_ok [OF assms that] by (rule translate_blocks)
  then have "map (blocksOf \<circ> translateMessage) (conversation (crMessages r))
      = map (\<lambda>m. map marshalBlock (promptBlocks m)) (conversation (crMessages r))" by (simp only: map_eq_conv comp_apply) simp
  then have "concat (map blocksOf (arMessages (translateRequest r stream)))
      = concat (map (\<lambda>m. map marshalBlock (promptBlocks m)) (conversation (crMessages r)))"
    unfolding request_messages g(1) group_blocks [OF g(2)] map_map [of blocksOf translateMessage] by (simp only:)
  moreover have "map amRole (arMessages (translateRequest r stream)) = remdups_adj (map apiRole (conversation (crMessages r)))"
    unfolding request_messages g(1) group_roles map_map [of amRole translateMessage] by (simp add: comp_def)
  moreover have "list_all translated (arMessages (translateRequest r stream))"
    unfolding request_messages g(1) by (rule group_translated [OF g(2)])
  ultimately show ?thesis using request_system by blast
qed

text \<open>C31: Every prompt a run sends keeps its pairing on the wire: in the request that the client builds from
  it, each tool call stands in an assistant message and its result in the message right after it,
  provided the arguments of the calls are JSON.\<close>

theorem sent_calls_have_results:
  assumes "no_nil (live s)" and "prompts s = []" and "persisted s = []" and "groups_declared (toolset s)"
  shows "step_all (\<lambda>t. \<forall>ms\<in>set (prompts t). prompt_ok ms \<longrightarrow>
    uses_answered (arMessages (translateRequest (r\<lparr>crMessages := ms\<rparr>) stream))) (executeRun e s)"
proof -
  have "run_inv (live s) 0 s" using assms by (simp add: run_inv_def recorded_def)
  from rounds_inv [OF this, of 250 e] show ?thesis unfolding executeRun_def
  proof (rule step_all_mono, intro ballI impI)
    fix t ms assume t: "run_inv (live s) (0 + 250) t" "ms \<in> set (prompts t)" and ok: "prompt_ok ms"
    then have "calls_answered ms" by (simp add: run_inv_def list_all_iff paired_def)
    then show "uses_answered (arMessages (translateRequest (r\<lparr>crMessages := ms\<rparr>) stream))"
      using groups_answered [OF extract_groups(2) [OF ok] conversation_answered]
      by (simp add: request_messages extract_groups(1) [OF ok] del: map_map)
  qed
qed

lemma append_role: "ts \<noteq> [] \<Longrightarrow> foldl appendTranslated acc ts \<noteq> [] \<and> amRole (last (foldl appendTranslated acc ts)) = amRole (last ts)"
  by (induction ts rule: rev_induct) (auto simp: appendTranslated_def)

lemma append_nil_stays:
  "\<exists>a\<in>set acc. amRole a = x \<and> amContent a = None \<Longrightarrow> \<exists>a\<in>set (foldl appendTranslated acc ts). amRole a = x \<and> amContent a = None"
proof (induction ts arbitrary: acc)
  case (Cons t ts)
  from Cons.prems obtain a where a: "a \<in> set acc" "amRole a = x" "amContent a = None" by blast
  have "\<exists>b\<in>set (appendTranslated acc t). amRole b = x \<and> amContent b = None"
  proof (cases "a \<in> set (butlast acc)")
    case True
    then show ?thesis using a by (auto simp: appendTranslated_def)
  next
    case False
    then have "acc \<noteq> []" "a = last acc" using a(1) by (metis append_butlast_last_id insert_iff list.distinct(1) list.set(2) list.set_cases rotate1.simps(2) set_rotate1)+
    then show ?thesis using a by (auto simp: appendTranslated_def mergeMessages_def)
  qed
  from Cons.IH [OF this] show ?case by simp
qed simp

text \<open>C32: One tool call whose arguments are not JSON, as a reply that was cut off leaves it behind, erases the whole
  message on the wire: an assistant message with null content is sent in its place, now and with every later
  prompt that holds it, and its text and its other calls are gone.\<close>

theorem invalid_arguments_erase_the_message:
  assumes "crMessages r = pre @ m # post" and "role m = ''assistant''"
    and "tc \<in> set (toolCalls m)" and "callArguments tc \<noteq> []" and "\<not> jsonValid (callArguments tc)"
    and "pre = [] \<or> role (last pre) \<noteq> ''assistant''"
  shows "\<exists>a\<in>set (arMessages (translateRequest r stream)). amRole a = ''assistant'' \<and> amContent a = None"
proof -
  let ?pre = "conversation pre" and ?t = "translateMessage m"
  let ?acc = "foldl appendTranslated [] (map translateMessage ?pre)"
  have "conversation (pre @ m # post) = ?pre @ m # map systemAsUser post \<or>
      dropWhile (\<lambda>m. role m = ''system'') pre = [] \<and> conversation (pre @ m # post) = m # map systemAsUser post"
    using assms(2) by (induction pre) auto
  then have conv: "conversation (pre @ m # post) = ?pre @ m # map systemAsUser post" by auto
  have nil: "amRole ?t = ''assistant''" "amContent ?t = None"
    using translate_translated [of m] assms(2-5) by (auto simp: translated_def apiRole_def arguments_ok_def list_all_iff)
  have "?acc = [] \<or> amRole (last ?acc) \<noteq> ''assistant''"
  proof (cases "?pre = []")
    case False
    then have d: "dropWhile (\<lambda>m. role m = ''system'') pre \<noteq> []" by simp
    then have "last (dropWhile (\<lambda>m. role m = ''system'') pre) = last pre"
      by (metis last_appendR takeWhile_dropWhile_id)
    moreover have "pre \<noteq> []" using d by auto
    ultimately have "role (last ?pre) \<noteq> ''assistant''" using assms(6) d by (simp add: last_map)
    then have "amRole (last (map translateMessage ?pre)) \<noteq> ''assistant''"
      unfolding last_map [OF False] by (simp add: apiRole_def)
    then show ?thesis using append_role [of "map translateMessage ?pre" "[]"] False by (metis map_is_Nil_conv)
  next
    case True
    then have "?acc = []" by (simp only: list.map foldl.simps)
    then show ?thesis by blast
  qed
  then have "appendTranslated ?acc ?t = ?acc @ [?t]" using nil(1) by (auto simp: appendTranslated_def)
  then have "\<exists>a\<in>set (appendTranslated ?acc ?t). amRole a = ''assistant'' \<and> amContent a = None" using nil by auto
  from append_nil_stays [OF this, of "map translateMessage (map systemAsUser post)"]
  show ?thesis unfolding request_messages assms(1) extract_messages conv by (simp del: map_map)
qed

subsection \<open>A sample request\<close>

definition sampleRequest :: "string \<Rightarrow> chat_request" where
  "sampleRequest args =
     \<lparr>crModel = ''claude'', crMessages =
        [systemMessage ''Be brief.'',
         \<lparr>role = ''user'', content = Text ''Hi'', toolCalls = [], toolCallId = [], toolName = [], sourceMessageId = []\<rparr>,
         \<lparr>role = ''assistant'', content = Text ''Looking.'',
          toolCalls = [\<lparr>callId = ''c1'', callName = ''read'', callArguments = args\<rparr>],
          toolCallId = [], toolName = [], sourceMessageId = []\<rparr>,
         \<lparr>role = ''tool'', content = Text ''done'', toolCalls = [], toolCallId = ''c1'', toolName = ''read'', sourceMessageId = []\<rparr>],
      crMaxTokens = 0, crMaxCompletionTokens = 0, crTemperature = None, crTools = []\<rparr>"

lemma sampleRequest_ok: "prompt_ok (crMessages (sampleRequest ''{}''))"
  by (simp add: prompt_ok_def sampleRequest_def systemMessage_def arguments_ok_def)

lemma request_keeps_the_prompt_witness:
  "map amRole (arMessages (translateRequest (sampleRequest ''{}'') True)) = [''user'', ''assistant'', ''user'']
   \<and> map sysText (arSystem (translateRequest (sampleRequest ''{}'') True)) = [''Be brief.'']"
  using request_keeps_the_prompt [OF sampleRequest_ok, of True]
  by (simp add: sampleRequest_def systemMessage_def systemAsUser_def apiRole_def)

lemma sent_calls_have_results_witness:
  "step_all (\<lambda>t. \<forall>ms\<in>set (prompts t). prompt_ok ms \<longrightarrow>
     uses_answered (arMessages (translateRequest ((sampleRequest [])\<lparr>crMessages := ms\<rparr>) True)))
     (executeRun rejectingEnv freshRun)"
  using sent_calls_have_results [OF freshRun_ok(1-4)] .

lemma cut_arguments_invalid: "\<not> jsonValid ''{''"
  by (rule open_bracket_invalid [of _ BeginStringOrEmpty ObjectKey "[]"])
    (simp add: beginValue_def jsonSpace_def maxNestingDepth_def)

lemma invalid_arguments_erase_the_message_witness:
  "\<exists>a\<in>set (arMessages (translateRequest (sampleRequest ''{'') True)). amRole a = ''assistant'' \<and> amContent a = None"
  by (rule invalid_arguments_erase_the_message
      [where pre = "take 2 (crMessages (sampleRequest ''{''))" and m = "crMessages (sampleRequest ''{'') ! 2"
         and post = "drop 3 (crMessages (sampleRequest ''{''))"
         and tc = "\<lparr>callId = ''c1'', callName = ''read'', callArguments = ''{''\<rparr>"])
    (simp_all add: sampleRequest_def cut_arguments_invalid numeral_2_eq_2 numeral_3_eq_3)

end
