(* ===== verification/AnthropicStreams.thy ===== *)
theory AnthropicStreams
  imports Anthropic
begin

text \<open>
  What a streamed reply of the Anthropic API comes to: the runner assembles from it the text, the
  calls and the stop reason that the unstreamed response would have had. An error event of the
  API is not seen, and the reply ends where the stream ends.
\<close>

subsection \<open>Events on the wire\<close>

datatype sse =
    MessageStart anthropic_response | BlockStart int content_block | BlockDelta int block_delta
  | MessageDelta string anthropic_usage | MessageStop | Ignored string

definition handledEvents :: "string list" where
  "handledEvents = [''message_start'', ''content_block_start'', ''content_block_delta'', ''message_delta'', ''message_stop'']"

text \<open>\<open>carries p x (n, d)\<close>: the event named \<open>n\<close> with data \<open>d\<close> is \<open>x\<close> to the parsers \<open>p\<close>.\<close>

fun carries :: "sse_parsers \<Rightarrow> sse \<Rightarrow> string \<times> string \<Rightarrow> bool" where
  "carries p (MessageStart r) (n, d) \<longleftrightarrow> n = ''message_start'' \<and> parseMessageStart p d = Some r"
| "carries p (BlockStart i b) (n, d) \<longleftrightarrow> n = ''content_block_start'' \<and> parseBlockStart p d = Some (i, b)"
| "carries p (BlockDelta i x) (n, d) \<longleftrightarrow> n = ''content_block_delta'' \<and> parseBlockDelta p d = Some (i, x)"
| "carries p (MessageDelta t u) (n, d) \<longleftrightarrow> n = ''message_delta'' \<and> parseMessageDelta p d = Some (t, u)"
| "carries p MessageStop (n, d) \<longleftrightarrow> n = ''message_stop''"
| "carries p (Ignored x) (n, d) \<longleftrightarrow> n = x \<and> x \<notin> set handledEvents"

text \<open>An event is two lines and an empty one.\<close>

fun frameLines :: "string \<times> string \<Rightarrow> string list" where
  "frameLines (n, d) = [''event: '' @ n, ''data: '' @ d, []]"

definition wireLines :: "(string \<times> string) list \<Rightarrow> string list" where
  "wireLines fs = concat (map frameLines fs)"

text \<open>The reference: what one event emits, without lines and parsers.\<close>

fun sseStep :: "sse \<Rightarrow> sse_state \<Rightarrow> sse_state sse_step" where
  "sseStep (MessageStart r) st = onMessageStart r st"
| "sseStep (BlockStart i b) st = onBlockStart i b st"
| "sseStep (BlockDelta i x) st = onBlockDelta i x st"
| "sseStep (MessageDelta t u) st = onMessageDelta t u st"
| "sseStep MessageStop st = Return [ProviderDone]"
| "sseStep (Ignored x) st = Continue [] st"

fun emitted :: "sse_state \<Rightarrow> sse list \<Rightarrow> bool \<Rightarrow> provider_event list" where
  "emitted st [] broken = (if broken then [ProviderError ''reading stream''] else [])"
| "emitted st (x # xs) broken =
     (case sseStep x st of Return es \<Rightarrow> es | Continue es st' \<Rightarrow> es @ emitted st' xs broken)"

definition idle :: "sse_state \<Rightarrow> sse_state" where
  "idle st = st\<lparr>pendingEvent := []\<rparr>"

lemma trim_prefix_append [simp]: "trim_prefix (p @ s) p = s"
  by (simp add: trim_prefix_def)

lemma trim_markers [simp]:
  "has_prefix (CHR ''e'' # CHR ''v'' # CHR ''e'' # CHR ''n'' # CHR ''t'' # CHR '':'' # CHR '' '' # n) ''event: ''"
  "trim_prefix (CHR ''e'' # CHR ''v'' # CHR ''e'' # CHR ''n'' # CHR ''t'' # CHR '':'' # CHR '' '' # n) ''event: '' = n"
  "has_prefix (CHR ''d'' # CHR ''a'' # CHR ''t'' # CHR ''a'' # CHR '':'' # CHR '' '' # d) ''data: ''"
  "\<not> has_prefix (CHR ''d'' # CHR ''a'' # CHR ''t'' # CHR ''a'' # CHR '':'' # CHR '' '' # d) ''event: ''"
  "trim_prefix (CHR ''d'' # CHR ''a'' # CHR ''t'' # CHR ''a'' # CHR '':'' # CHR '' '' # d) ''data: '' = d"
  "\<not> has_prefix [] ''event: ''" "\<not> has_prefix [] ''data: ''"
  by (simp_all add: has_prefix_def trim_prefix_def)

lemma onData_carries:
  "carries p x (n, d) \<Longrightarrow> onData p d (st\<lparr>pendingEvent := n\<rparr>) = sseStep x (st\<lparr>pendingEvent := n\<rparr>)"
  by (cases x) (auto simp: onData_def handledEvents_def Let_def)

lemma sseStep_idle:
  "sseStep x (st\<lparr>pendingEvent := n\<rparr>) =
    (case sseStep x (idle st) of Return es \<Rightarrow> Return es | Continue es st' \<Rightarrow> Continue es (st'\<lparr>pendingEvent := n\<rparr>))"
  by (cases x) (simp_all add: onMessageStart_def onBlockStart_def onBlockDelta_def onMessageDelta_def chunkOf_def
      idle_def Let_def)

lemma sseStep_pending: "sseStep x (idle st) = Continue es st' \<Longrightarrow> idle st' = st'"
  by (cases x) (auto simp: onMessageStart_def onBlockStart_def onBlockDelta_def onMessageDelta_def idle_def Let_def)

lemma readSse_frame:
  assumes "carries p x f"
  shows "readLines (sseLine p) readFailed (\<lambda>_. False) broken k st (frameLines f @ ls) =
    (case sseStep x (idle st) of Return es \<Rightarrow> es
     | Continue es st' \<Rightarrow> es @ readLines (sseLine p) readFailed (\<lambda>_. False) broken (k + 3) st' ls)"
proof -
  obtain n d where f: "f = (n, d)" by fastforce
  have "onData p d (st\<lparr>pendingEvent := n\<rparr>) =
      (case sseStep x (idle st) of Return es \<Rightarrow> Return es | Continue es st' \<Rightarrow> Continue es (st'\<lparr>pendingEvent := n\<rparr>))"
    using onData_carries assms sseStep_idle unfolding f by simp
  moreover have "st'\<lparr>pendingEvent := []\<rparr> = st'" if "sseStep x (idle st) = Continue es st'" for es st'
    using sseStep_pending [OF that] by (simp add: idle_def)
  ultimately show ?thesis by (auto simp: f sseLine_def numeral_3_eq_3 split: sse_step.splits)
qed

lemma readLines_wire:
  assumes "list_all2 (carries p) xs fs"
  shows "readLines (sseLine p) readFailed (\<lambda>_. False) broken k st (wireLines fs) = emitted (idle st) xs broken"
  using assms
proof (induction xs fs arbitrary: k st rule: list_all2_induct)
  case Nil
  then show ?case by (simp add: wireLines_def readFailed_def)
next
  case (Cons x xs f fs)
  have w: "wireLines (f # fs) = frameLines f @ wireLines fs" by (simp add: wireLines_def)
  have "idle st' = st'" if "sseStep x (idle st) = Continue es st'" for es st'
    using sseStep_pending [OF that] .
  then show ?case unfolding w readSse_frame [OF Cons(1)]
    using Cons(3) by (simp split: sse_step.splits)
qed

lemma readSse_wire:
  "list_all2 (carries p) xs fs \<Longrightarrow> readSse p (\<lambda>_. False) broken (wireLines fs) = emitted (idle sseInit) xs broken"
  unfolding readSse_def by (rule readLines_wire)

subsection \<open>A reply, whole and in pieces\<close>

datatype api_block = ApiText "string list" | ApiCall string string "string list"

text \<open>The block of the unstreamed response; a call without arguments has the input \<open>{}\<close>.\<close>

fun wholeBlock :: "api_block \<Rightarrow> content_block" where
  "wholeBlock (ApiText ps) = textBlock (concat ps)"
| "wholeBlock (ApiCall i n ps) = emptyBlock\<lparr>cbType := ''tool_use'', cbId := i, cbName := n,
     cbInput := Some (if concat ps = [] then ''{}'' else concat ps)\<rparr>"

fun inputs_ok :: "api_block \<Rightarrow> bool" where
  "inputs_ok (ApiText ps) = True"
| "inputs_ok (ApiCall i n ps) = (concat ps = [] \<or> jsonValid (concat ps))"

fun blockSse :: "int \<Rightarrow> api_block \<Rightarrow> sse list" where
  "blockSse k (ApiText ps) = BlockStart k (textBlock [])
     # map (\<lambda>x. BlockDelta k \<lparr>bdText = x, bdPartialJson = []\<rparr>) ps"
| "blockSse k (ApiCall i n ps) = BlockStart k (emptyBlock\<lparr>cbType := ''tool_use'', cbId := i, cbName := n, cbInput := Some ''{}''\<rparr>)
     # map (\<lambda>x. BlockDelta k \<lparr>bdText = [], bdPartialJson = x\<rparr>) ps"

fun blocksSse :: "nat \<Rightarrow> api_block list \<Rightarrow> sse list" where
  "blocksSse k [] = []"
| "blocksSse k (b # bs) = blockSse (int k) b @ blocksSse (Suc k) bs"

definition replySse :: "anthropic_response \<Rightarrow> api_block list \<Rightarrow> string \<Rightarrow> anthropic_usage \<Rightarrow> sse list" where
  "replySse r bs stop u = MessageStart r # blocksSse 0 bs @ [MessageDelta stop u, MessageStop]"

fun is_ignored :: "sse \<Rightarrow> bool" where
  "is_ignored (Ignored n) = True"
| "is_ignored x = False"

abbreviation relevant :: "sse list \<Rightarrow> sse list" where
  "relevant xs \<equiv> filter (\<lambda>x. \<not> is_ignored x) xs"

lemma emitted_relevant: "emitted st xs broken = emitted st (relevant xs) broken"
proof (induction xs arbitrary: st)
  case (Cons x xs)
  then show ?case by (cases x) (simp_all split: sse_step.splits)
qed simp

subsection \<open>What the runner collects\<close>

fun blockText :: "api_block \<Rightarrow> string" where
  "blockText (ApiText ps) = concat ps"
| "blockText (ApiCall i n ps) = []"

fun blockDeltas :: "int \<Rightarrow> api_block \<Rightarrow> call_delta list" where
  "blockDeltas k (ApiText ps) = []"
| "blockDeltas k (ApiCall i n ps) = \<lparr>deltaIndex = k, deltaId = i, deltaName = n, deltaArguments = []\<rparr>
     # map (\<lambda>x. \<lparr>deltaIndex = k, deltaId = [], deltaName = [], deltaArguments = x\<rparr>) ps"

fun deltasFrom :: "nat \<Rightarrow> api_block list \<Rightarrow> call_delta list" where
  "deltasFrom k [] = []"
| "deltasFrom k (b # bs) = blockDeltas (int k) b @ deltasFrom (Suc k) bs"

lemma collect_chunk: "collect c (chunkOf st xs u # es) = collect (fold collectChoice xs c) es"
  by (simp add: collect_def chunkOf_def)

lemma collect_choices [simp]:
  "collectChoice (textChoice t) c = c\<lparr>streamText := streamText c @ t\<rparr>"
  "collectChoice (callChoice d) c = c\<lparr>streamDeltas := streamDeltas c @ [d]\<rparr>"
  by (cases c; simp add: collectChoice_def textChoice_def callChoice_def)+

lemma collect_texts:
  "startedBlocks st k = ''text'' \<Longrightarrow>
    collect c (emitted st (map (\<lambda>x. BlockDelta k \<lparr>bdText = x, bdPartialJson = []\<rparr>) ps @ rest) broken)
    = collect (c\<lparr>streamText := streamText c @ concat ps\<rparr>) (emitted st rest broken)"
  by (induction ps arbitrary: c)
    (simp_all add: onBlockDelta_def collect_chunk)

lemma collect_calls:
  "startedBlocks st k = ''tool_use'' \<Longrightarrow>
    collect c (emitted st (map (\<lambda>x. BlockDelta k \<lparr>bdText = [], bdPartialJson = x\<rparr>) ps @ rest) broken)
    = collect (c\<lparr>streamDeltas := streamDeltas c
        @ map (\<lambda>x. \<lparr>deltaIndex = k, deltaId = [], deltaName = [], deltaArguments = x\<rparr>) ps\<rparr>) (emitted st rest broken)"
  by (induction ps arbitrary: c)
    (simp_all add: onBlockDelta_def collect_chunk)

lemma collect_block:
  "\<exists>st'. collect c (emitted st (blockSse k b @ rest) broken)
    = collect (c\<lparr>streamText := streamText c @ blockText b, streamDeltas := streamDeltas c @ blockDeltas k b\<rparr>)
        (emitted st' rest broken)"
proof (cases b)
  case (ApiText ps)
  then show ?thesis
    by (intro exI [of _ "st\<lparr>startedBlocks := (startedBlocks st)(k := ''text'')\<rparr>"])
      (simp add: onBlockStart_def Let_def collect_texts textBlock_def)
next
  case (ApiCall i n ps)
  then show ?thesis
    by (intro exI [of _ "st\<lparr>startedBlocks := (startedBlocks st)(k := ''tool_use'')\<rparr>"])
      (simp add: onBlockStart_def Let_def collect_calls collect_chunk)
qed

lemma collect_blocks:
  "\<exists>st'. collect c (emitted st (blocksSse k bs @ rest) broken)
    = collect (c\<lparr>streamText := streamText c @ concat (map blockText bs), streamDeltas := streamDeltas c @ deltasFrom k bs\<rparr>)
        (emitted st' rest broken)"
proof (induction bs arbitrary: c st k)
  case Nil
  then show ?case by auto
next
  case (Cons b bs)
  let ?c = "c\<lparr>streamText := streamText c @ blockText b, streamDeltas := streamDeltas c @ blockDeltas (int k) b\<rparr>"
  obtain st1 where "collect c (emitted st (blocksSse k (b # bs) @ rest) broken)
      = collect ?c (emitted st1 (blocksSse (Suc k) bs @ rest) broken)"
    using collect_block [of c st "int k" b "blocksSse (Suc k) bs @ rest" broken] by auto
  moreover obtain st2 where "collect ?c (emitted st1 (blocksSse (Suc k) bs @ rest) broken)
      = collect (?c\<lparr>streamText := streamText ?c @ concat (map blockText bs), streamDeltas := streamDeltas ?c @ deltasFrom (Suc k) bs\<rparr>)
          (emitted st2 rest broken)"
    using Cons.IH by blast
  ultimately show ?case by (intro exI [of _ st2]) simp
qed

lemma collect_reply:
  "collect c (emitted st (replySse r bs stop u) broken) =
    Some \<lparr>streamText = streamText c @ concat (map blockText bs),
          streamStop = (if translateStopReason stop \<noteq> [] then translateStopReason stop else streamStop c),
          streamDeltas = streamDeltas c @ deltasFrom 0 bs\<rparr>"
proof -
  let ?rest = "[MessageDelta stop u, MessageStop]"
  obtain st1 where "collect c (emitted st (replySse r bs stop u) broken) = collect c (emitted st1 (blocksSse 0 bs @ ?rest) broken)"
    by (rule that [of "st\<lparr>sseId := respId r, sseModel := respModel r\<rparr>"])
      (simp add: replySse_def onMessageStart_def Let_def collect_chunk)
  moreover obtain st2 where "collect c (emitted st1 (blocksSse 0 bs @ ?rest) broken)
      = collect (c\<lparr>streamText := streamText c @ concat (map blockText bs), streamDeltas := streamDeltas c @ deltasFrom 0 bs\<rparr>)
          (emitted st2 ?rest broken)"
    using collect_blocks by blast
  ultimately show ?thesis by (simp add: onMessageDelta_def collect_chunk collectChoice_def) (simp add: collect_def)
qed

subsection \<open>The calls\<close>

fun blockCalls :: "api_block \<Rightarrow> tool_call list" where
  "blockCalls (ApiText ps) = []"
| "blockCalls (ApiCall i n ps) = [\<lparr>callId = i, callName = n, callArguments = concat ps\<rparr>]"

lemma deltasFrom_index: "d \<in> set (deltasFrom k bs) \<Longrightarrow> int k \<le> deltaIndex d"
proof (induction bs arbitrary: k)
  case (Cons b bs)
  then show ?case by (cases b) force+
qed simp

lemma blockDeltas_index: "d \<in> set (blockDeltas k b) \<Longrightarrow> deltaIndex d = k"
  by (cases b) auto

lemma referenceCall_block:
  "referenceCall k (blockDeltas k (ApiCall i n ps)) = \<lparr>callId = i, callName = n, callArguments = concat ps\<rparr>"
proof -
  have "deltasOf k (blockDeltas k (ApiCall i n ps)) = blockDeltas k (ApiCall i n ps)" by (simp add: deltasOf_def)
  moreover have "concat (map (\<lambda>x. []) ps) = []" by simp
  moreover have "filter (\<lambda>s. s \<noteq> []) (map (\<lambda>x. []) ps) = []" by (simp add: filter_empty_conv)
  ultimately show ?thesis by (simp add: referenceCall_def comp_def)
qed

lemma assemble_from: "assembleToolCalls (deltasFrom k bs) = concat (map blockCalls bs)"
proof (induction bs arbitrary: k)
  case Nil
  then show ?case by (simp add: assembleToolCalls_def)
next
  case (Cons b bs)
  show ?case
  proof (cases b)
    case (ApiText ps)
    then show ?thesis using Cons by simp
  next
    case (ApiCall i n ps)
    have "assembleToolCalls (blockDeltas (int k) b @ deltasFrom (Suc k) bs)
        = referenceCall (int k) (blockDeltas (int k) b) # assembleToolCalls (deltasFrom (Suc k) bs)"
    proof (rule assemble_next)
      show "int k < deltaIndex d" if "d \<in> set (deltasFrom (Suc k) bs)" for d
        using deltasFrom_index [OF that] by simp
    qed (use ApiCall in \<open>auto dest: blockDeltas_index\<close>)
    then show ?thesis using Cons by (simp only: ApiCall referenceCall_block deltasFrom.simps list.map concat.simps blockCalls.simps append.simps)
  qed
qed

text \<open>The arguments as they are sent back to the API.\<close>

definition resentCall :: "tool_call \<Rightarrow> tool_call" where
  "resentCall tc = tc\<lparr>callArguments := (if callArguments tc = [] then ''{}'' else compactJson (callArguments tc))\<rparr>"

lemma response_text: "concat (map cbText (filter (\<lambda>b. cbType b = ''text'') (map wholeBlock bs))) = concat (map blockText bs)"
proof (induction bs)
  case (Cons b bs)
  then show ?case by (cases b) (simp_all add: textBlock_def emptyBlock_def)
qed simp

lemma response_calls:
  "list_all inputs_ok bs \<Longrightarrow>
    map responseCall (filter (\<lambda>b. cbType b = ''tool_use'') (map wholeBlock bs)) = map resentCall (concat (map blockCalls bs))"
proof (induction bs)
  case (Cons b bs)
  then show ?case
    by (cases b) (auto simp: textBlock_def emptyBlock_def responseCall_def resentCall_def marshalRaw_def)
qed simp

subsection \<open>Properties of a stream\<close>

text \<open>C33: Streaming changes nothing: however the API cuts the text and the arguments of a reply into pieces and
  whatever other events it sends in between, the runner assembles the text, the stop reason and,
  as they are sent back, the calls that the unstreamed response has.\<close>

theorem streamed_reply_matches_response:
  assumes "list_all2 (carries p) xs fs" and "relevant xs = replySse start bs stop u"
    and "list_all inputs_ok bs" and "stop \<noteq> []"
  shows "\<exists>c. collectStream \<lparr>streamText = [], streamStop = previous, streamDeltas = []\<rparr>
      (map runnerEvent (readSse p (\<lambda>_. False) broken (wireLines fs))) = Some c
    \<and> (let reply = translateResponse (r\<lparr>respContent := map wholeBlock bs, respStop := stop\<rparr>) in
       content (crespMessage reply) = Text (streamText c)
       \<and> crespFinish reply = streamStop c
       \<and> toolCalls (crespMessage reply) = map resentCall (assembleToolCalls (streamDeltas c)))"
proof -
  let ?c = "\<lparr>streamText = [], streamStop = previous, streamDeltas = []\<rparr>"
  have "translateStopReason stop \<noteq> []" using assms(4) by (simp add: translateStopReason_def)
  moreover have "readSse p (\<lambda>_. False) broken (wireLines fs) = emitted (idle sseInit) (replySse start bs stop u) broken"
    unfolding readSse_wire [OF assms(1)] using emitted_relevant assms(2) by metis
  ultimately have "collectStream ?c (map runnerEvent (readSse p (\<lambda>_. False) broken (wireLines fs)))
      = Some \<lparr>streamText = concat (map blockText bs), streamStop = translateStopReason stop, streamDeltas = deltasFrom 0 bs\<rparr>"
    using collect_reply [of ?c] by (simp add: collect_def)
  then show ?thesis
    by (simp add: translateResponse_def Let_def response_text response_calls [OF assms(3)] assemble_from del: filter_map)
qed

lemma prefix_split: "has_prefix l p \<Longrightarrow> l = p @ trim_prefix l p"
  unfolding has_prefix_def trim_prefix_def by (metis append_take_drop_id)

lemma is_chunk_not_done: "list_all is_chunk es \<Longrightarrow> ProviderDone \<notin> set es"
  by (auto simp: list_all_iff)

text \<open>The clients report the end of a reply only when a line of the body has announced it.\<close>

lemma sse_done_announced:
  "ProviderDone \<in> set (readLines (sseLine p) readFailed gone broken k st ls) \<Longrightarrow>
   pendingEvent st = ''message_stop'' \<or> ''event: message_stop'' \<in> set ls"
proof (induction ls arbitrary: k st)
  case Nil
  then show ?case by (simp add: readFailed_def split: if_splits)
next
  case (Cons l ls)
  show ?case
  proof (cases "sseLine p l st")
    case (Return es)
    then obtain d where "onData p d st = Return es" by (auto simp: sseLine_def split: if_splits sse_step.splits)
    then have "ProviderDone \<in> set es \<Longrightarrow> pendingEvent st = ''message_stop''"
      by (auto simp: onData_def onMessageStart_def onBlockStart_def onBlockDelta_def onMessageDelta_def Let_def
          split: if_splits option.splits)
    then show ?thesis using Cons.prems Return by (simp split: if_splits)
  next
    case (Continue es st')
    have "ProviderDone \<notin> set es" using is_chunk_not_done anthropic.goes_on [OF Continue] by blast
    then have later: "pendingEvent st' = ''message_stop'' \<or> ''event: message_stop'' \<in> set ls"
      using Cons.prems Continue Cons.IH by (auto split: if_splits)
    have "pendingEvent st' = pendingEvent st \<or> pendingEvent st' = [] \<or> has_prefix l ''event: '' \<and> pendingEvent st' = trim_prefix l ''event: ''"
      using Continue by (auto simp: sseLine_def split: if_splits sse_step.splits)
    then consider "pendingEvent st' = pendingEvent st" | "pendingEvent st' = []"
      | "l = ''event: '' @ pendingEvent st'" using prefix_split by metis
    then show ?thesis
    proof cases
      case 3
      then show ?thesis using later by (metis append.simps list.set_intros)
    qed (use later in auto)
  qed
qed

lemma oai_done_announced:
  "ProviderDone \<in> set (readLines (openAiLine parse) readFailed gone broken k st ls) \<Longrightarrow> ''data: [DONE]'' \<in> set ls"
proof (induction ls arbitrary: k st)
  case Nil
  then show ?case by (simp add: readFailed_def split: if_splits)
next
  case (Cons l ls)
  show ?case
  proof (cases "openAiLine parse l st")
    case (Return es)
    then have "ProviderDone \<in> set es" using Cons.prems by (simp split: if_splits)
    then have "has_prefix l ''data: ''" "trim_prefix l ''data: '' = ''[DONE]''"
      using Return by (auto simp only: openAiLine_def Let_def list.set empty_iff insert_iff provider_event.distinct split: if_splits option.splits)
    then have "l = ''data: [DONE]''" using prefix_split by (metis append.simps)
    then show ?thesis by simp
  next
    case (Continue es st')
    have "ProviderDone \<notin> set es" using is_chunk_not_done oai.goes_on [OF Continue] by blast
    then show ?thesis using Cons.prems Continue Cons.IH by (auto split: if_splits)
  qed
qed

text \<open>C34: A connection that breaks is never taken for the end of a reply by the clients of Anthropic and of
  OpenAI-compatible services: unless a line of the body announced the end before (\<open>event: message_stop\<close>,
  \<open>data: [DONE]\<close>), the runner gets an error. And a cancelled stream delivers a beginning of what the whole
  stream would have delivered.\<close>

theorem read_failures_reach_the_runner:
  "(''event: message_stop'' \<in> set ls
     \<or> collectStream c (map runnerEvent (readSse p (\<lambda>_. False) True ls)) = None)
   \<and> (''data: [DONE]'' \<in> set ls
     \<or> collectStream c (map runnerEvent (openAiReadSse parse (\<lambda>_. False) True ls)) = None)
   \<and> prefix (readSse p gone broken ls) (readSse p (\<lambda>_. False) broken ls)
   \<and> prefix (openAiReadSse parse gone broken ls) (openAiReadSse parse (\<lambda>_. False) broken ls)"
proof (intro conjI)
  have "pendingEvent sseInit = []" by (simp add: sseInit_def)
  then show "''event: message_stop'' \<in> set ls \<or> collectStream c (map runnerEvent (readSse p (\<lambda>_. False) True ls)) = None"
    using sse_done_announced [of p "\<lambda>_. False" True 0 sseInit ls] anthropic.failure_is_seen
    unfolding readSse_def collect_def [symmetric] by fastforce
  show "''data: [DONE]'' \<in> set ls \<or> collectStream c (map runnerEvent (openAiReadSse parse (\<lambda>_. False) True ls)) = None"
    using oai_done_announced [of parse "\<lambda>_. False" True 0 "()" ls] oai.failure_is_seen
    unfolding openAiReadSse_def collect_def [symmetric] by metis
qed (unfold readSse_def openAiReadSse_def, rule anthropic.cancelled_prefix, rule oai.cancelled_prefix)

lemma usage_chunk: "collectUsage v (chunkOf st xs None # es) = collectUsage v es"
  by (simp add: chunkOf_def)

lemma usage_blocks: "\<exists>st'. collectUsage v (emitted st (blocksSse k bs @ rest) broken) = collectUsage v (emitted st' rest broken)"
proof (induction bs arbitrary: st k)
  case (Cons b bs)
  have texts: "collectUsage v (emitted st (map (\<lambda>x. BlockDelta i (d x)) ps @ rest) broken) = collectUsage v (emitted st rest broken)"
    for st i d ps rest
    by (induction ps) (simp_all add: onBlockDelta_def usage_chunk)
  have "\<exists>st'. collectUsage v (emitted st (blockSse (int k) b @ blocksSse (Suc k) bs @ rest) broken)
      = collectUsage v (emitted st' (blocksSse (Suc k) bs @ rest) broken)"
    by (cases b) (auto simp: onBlockStart_def Let_def usage_chunk texts)
  then show ?case using Cons by (metis append.assoc blocksSse.simps(2))
qed auto

text \<open>Streaming an Anthropic reply reports its prompt, completion and cache tokens, but a total of zero, where the
  unstreamed response reports the sum; the runner always streams.\<close>

theorem streamed_total_is_zero:
  assumes "list_all2 (carries p) xs fs" and "relevant xs = replySse start bs stop u"
    and "\<forall>n\<in>{inputTokens (respUsage start), cacheCreationTokens (respUsage start), cacheReadTokens (respUsage start), outputTokens u}.
      0 \<le> n \<and> n \<le> max_int64"
  shows "collectUsage None (readSse p (\<lambda>_. False) broken (wireLines fs)) =
      Some \<lparr>promptTokenCount = inputTokens (respUsage start), completionTokenCount = outputTokens u, totalTokenCount = 0,
        cacheCreationCount = cacheCreationTokens (respUsage start), cacheReadCount = cacheReadTokens (respUsage start)\<rparr>
    \<and> map_option totalTokenCount (crespUsage (translateResponse (start\<lparr>respUsage := respUsage start\<lparr>outputTokens := outputTokens u\<rparr>\<rparr>)))
      = Some (wrap64 (inputTokens (respUsage start) + outputTokens u))"
proof -
  have id: "wrap64 n = n" if "0 \<le> n" "n \<le> max_int64" for n
    using that by (intro wrap64_id) (simp_all add: min_int64_def)
  have w: "wrap64 0 = 0" by (simp add: wrap64_def)
  have e: "readSse p (\<lambda>_. False) broken (wireLines fs) = emitted (idle sseInit) (replySse start bs stop u) broken"
    unfolding readSse_wire [OF assms(1)] using emitted_relevant assms(2) by metis
  define usage where "usage = respUsage start"
  define first where "first = (if inputTokens usage > 0 \<or> cacheCreationTokens usage > 0 \<or> cacheReadTokens usage > 0
    then Some \<lparr>promptTokenCount = inputTokens usage, completionTokenCount = 0, totalTokenCount = 0,
      cacheCreationCount = cacheCreationTokens usage, cacheReadCount = cacheReadTokens usage\<rparr> else None)"
  have b: "0 \<le> n \<and> n \<le> max_int64"
    if "n \<in> {inputTokens usage, cacheCreationTokens usage, cacheReadTokens usage, outputTokens u}" for n
    using assms(3) that unfolding usage_def by blast
  obtain st1 where "collectUsage None (emitted (idle sseInit) (replySse start bs stop u) broken)
      = collectUsage first (emitted st1 (blocksSse 0 bs @ [MessageDelta stop u, MessageStop]) broken)"
    by (rule that [of "(idle sseInit)\<lparr>sseId := respId start, sseModel := respModel start\<rparr>"])
      (use b in \<open>simp add: replySse_def onMessageStart_def Let_def chunkOf_def first_def usage_def addUsage_def noUsage_def id w\<close>)
  moreover obtain st2 where "collectUsage first (emitted st1 (blocksSse 0 bs @ [MessageDelta stop u, MessageStop]) broken)
      = collectUsage first (emitted st2 [MessageDelta stop u, MessageStop] broken)" using usage_blocks by blast
  ultimately have "collectUsage None (readSse p (\<lambda>_. False) broken (wireLines fs))
      = collectUsage first (emitted st2 [MessageDelta stop u, MessageStop] broken)" unfolding e by simp
  moreover have "collectUsage first (emitted st2 [MessageDelta stop u, MessageStop] broken) =
      Some \<lparr>promptTokenCount = inputTokens usage, completionTokenCount = outputTokens u, totalTokenCount = 0,
        cacheCreationCount = cacheCreationTokens usage, cacheReadCount = cacheReadTokens usage\<rparr>"
    using b [of "inputTokens usage"] b [of "cacheCreationTokens usage"] b [of "cacheReadTokens usage"] b [of "outputTokens u"]
    by (auto simp: onMessageDelta_def chunkOf_def first_def addUsage_def noUsage_def id w)
  ultimately show ?thesis by (simp add: usage_def translateResponse_def)
qed

lemma emitted_no_error: "ProviderError e \<notin> set (emitted st xs False)"
proof (induction xs arbitrary: st)
  case (Cons x xs)
  then show ?case
    by (cases x) (auto simp: onMessageStart_def onBlockStart_def onBlockDelta_def onMessageDelta_def chunkOf_def Let_def)
qed simp

lemma collect_no_error: "(\<forall>e. ProviderError e \<notin> set es) \<Longrightarrow> collect c es \<noteq> None"
proof (induction es arbitrary: c)
  case (Cons x es)
  then show ?case by (cases x) (auto simp: collect_def)
qed (simp add: collect_def)

lemma emitted_ignored: "emitted st (xs @ [Ignored n]) False = emitted st xs False"
proof (induction xs arbitrary: st)
  case (Cons x xs)
  then show ?case by (simp split: sse_step.splits)
qed simp

text \<open>When the API breaks a reply off with an \<open>error\<close> event, nobody notices: the event is skipped, the stream
  ends like a finished one, and the runner takes what arrived so far as the whole reply.\<close>

theorem error_event_is_ignored:
  assumes "list_all2 (carries p) xs fs"
  shows "readSse p (\<lambda>_. False) False (wireLines (fs @ [(''error'', d)]))
      = readSse p (\<lambda>_. False) False (wireLines fs)
    \<and> collectStream c (map runnerEvent (readSse p (\<lambda>_. False) False (wireLines (fs @ [(''error'', d)])))) \<noteq> None"
proof -
  have "carries p (Ignored ''error'') (''error'', d)" by (simp add: handledEvents_def)
  then have w: "list_all2 (carries p) (xs @ [Ignored ''error'']) (fs @ [(''error'', d)])"
    using assms by (simp add: list_all2_appendI)
  have "collect c (emitted (idle sseInit) xs False) \<noteq> None"
    by (rule collect_no_error) (simp add: emitted_no_error)
  then show ?thesis unfolding readSse_wire [OF w] readSse_wire [OF assms] emitted_ignored by (simp add: collect_def)
qed

subsection \<open>A sample stream\<close>

definition sampleUsage :: anthropic_usage where
  "sampleUsage = \<lparr>inputTokens = 3, outputTokens = 5, cacheCreationTokens = 0, cacheReadTokens = 0\<rparr>"

definition sampleStart :: anthropic_response where
  "sampleStart = \<lparr>respId = ''m1'', respModel = ''claude'', respContent = [], respStop = [], respUsage = sampleUsage\<rparr>"

definition sampleReply :: "api_block list" where
  "sampleReply = [ApiText [''Lo'', ''oking''], ApiCall ''c1'' ''read'' [''{'', ''}'']]"

definition sampleSse :: "sse list" where
  "sampleSse = MessageStart sampleStart # Ignored ''ping'' # blocksSse 0 sampleReply
     @ [MessageDelta ''tool_use'' sampleUsage, MessageStop]"

definition sampleParsers :: sse_parsers where
  "sampleParsers =
     \<lparr>parseMessageStart = (\<lambda>d. Some sampleStart),
      parseBlockStart = (\<lambda>d. if d = ''0'' then Some (0, textBlock [])
        else Some (1, emptyBlock\<lparr>cbType := ''tool_use'', cbId := ''c1'', cbName := ''read'', cbInput := Some ''{}''\<rparr>)),
      parseBlockDelta = (\<lambda>d. if d = ''Lo'' \<or> d = ''oking'' then Some (0, \<lparr>bdText = d, bdPartialJson = []\<rparr>)
        else Some (1, \<lparr>bdText = [], bdPartialJson = d\<rparr>)),
      parseMessageDelta = (\<lambda>d. Some (''tool_use'', sampleUsage))\<rparr>"

definition sampleFrames :: "(string \<times> string) list" where
  "sampleFrames = [(''message_start'', ''''), (''ping'', ''''), (''content_block_start'', ''0''),
     (''content_block_delta'', ''Lo''), (''content_block_delta'', ''oking''), (''content_block_start'', ''1''),
     (''content_block_delta'', ''{''), (''content_block_delta'', ''}''), (''message_delta'', ''''), (''message_stop'', '''')]"

lemma sample_carried: "list_all2 (carries sampleParsers) sampleSse sampleFrames"
  by (simp add: sampleSse_def sampleFrames_def sampleParsers_def sampleReply_def handledEvents_def)

lemma streamed_reply_matches_response_witness:
  "\<exists>c. collectStream \<lparr>streamText = [], streamStop = [], streamDeltas = []\<rparr>
      (map runnerEvent (readSse sampleParsers (\<lambda>_. False) False (wireLines sampleFrames))) = Some c
    \<and> streamText c = ''Looking'' \<and> streamStop c = ''tool_calls''"
proof -
  have "relevant sampleSse = replySse sampleStart sampleReply ''tool_use'' sampleUsage"
    by (simp add: sampleSse_def replySse_def sampleReply_def)
  moreover have "list_all inputs_ok sampleReply" by (simp add: sampleReply_def)
  ultimately show ?thesis
    using streamed_reply_matches_response [OF sample_carried, of sampleStart sampleReply "''tool_use''" sampleUsage "[]" False sampleStart]
    by (simp add: Let_def translateResponse_def sampleReply_def translateStopReason_def textBlock_def emptyBlock_def) metis
qed

lemma streamed_total_is_zero_witness:
  "collectUsage None (readSse sampleParsers (\<lambda>_. False) False (wireLines sampleFrames)) =
     Some \<lparr>promptTokenCount = 3, completionTokenCount = 5, totalTokenCount = 0, cacheCreationCount = 0, cacheReadCount = 0\<rparr>"
proof -
  have "relevant sampleSse = replySse sampleStart sampleReply ''tool_use'' sampleUsage"
    by (simp add: sampleSse_def replySse_def sampleReply_def)
  then show ?thesis
    using streamed_total_is_zero [OF sample_carried, of sampleStart sampleReply "''tool_use''" sampleUsage False]
    by (simp add: sampleStart_def sampleUsage_def max_int64_def)
qed

lemma error_event_is_ignored_witness:
  "collectStream \<lparr>streamText = [], streamStop = [], streamDeltas = []\<rparr>
     (map runnerEvent (readSse sampleParsers (\<lambda>_. False) False (wireLines (take 4 sampleFrames @ [(''error'', '''')])))) \<noteq> None"
  using error_event_is_ignored [of sampleParsers "take 4 sampleSse" "take 4 sampleFrames"]
    list_all2_takeI [OF sample_carried] by blast

end
