(* ===== verification/Gemini.thy ===== *)
theory Gemini
  imports Providers
begin

text \<open>
  The Gemini client (\<open>providers/gemini.go\<close>): the translation of requests and responses and \<open>readSse\<close>.
  A streamed reply is assembled into what the unstreamed response would be, but a broken connection
  goes unnoticed, and calls of the same tool share their identifier.
\<close>

subsection \<open>Data\<close>

record gemini_part =
  gpText :: string
  gpInline :: "(string \<times> string) option"
  gpFile :: "string option"
  gpCall :: "(string \<times> string option) option"
  gpResponse :: "(string \<times> json) option"

definition emptyPart :: gemini_part where
  "emptyPart = \<lparr>gpText = [], gpInline = None, gpFile = None, gpCall = None, gpResponse = None\<rparr>"

definition textPart :: "string \<Rightarrow> gemini_part" where
  "textPart t = emptyPart\<lparr>gpText := t\<rparr>"

record gemini_content =
  gcRole :: string
  gcParts :: "gemini_part list"

record gemini_generation =
  ggTemperature :: "64 word option"
  ggMaxTokens :: int

record gemini_request =
  grContents :: "gemini_content list"
  grSystem :: "gemini_content option"
  grTools :: "tool_definition list"
  grGeneration :: "gemini_generation option"

record gemini_usage =
  guPrompt :: int
  guCandidates :: int
  guTotal :: int

record gemini_candidate =
  gnContent :: "gemini_part list"
  gnFinish :: string

record gemini_response =
  gsCandidates :: "gemini_candidate list"
  gsUsage :: "gemini_usage option"

subsection \<open>Requests\<close>

definition geminiImagePart :: "string \<Rightarrow> gemini_part" where
  "geminiImagePart url =
     (let parts = split_n 2 (CHR '','') url in
      if has_prefix url ''data:'' \<and> length parts = 2
      then emptyPart\<lparr>gpInline := Some (trim_suffix (trim_prefix (parts ! 0) ''data:'') '';base64'', parts ! 1)\<rparr>
      else emptyPart\<lparr>gpFile := Some url\<rparr>)"

fun geminiContentPart :: "content_part \<Rightarrow> gemini_part" where
  "geminiContentPart (TextPart t) = textPart t"
| "geminiContentPart (ImagePart u) = geminiImagePart u"

definition translateUserParts :: "chat_message \<Rightarrow> gemini_part list" where
  "translateUserParts m =
     (case content m of
        Parts ps \<Rightarrow> if ps = [] then [textPart []] else map geminiContentPart ps
      | _ \<Rightarrow> [textPart (contentText (content m))])"

definition callPart :: "tool_call \<Rightarrow> gemini_part" where
  "callPart tc = emptyPart\<lparr>gpCall := Some (callName tc, Some (if callArguments tc \<noteq> [] then callArguments tc else ''{}''))\<rparr>"

definition translateAssistantParts :: "chat_message \<Rightarrow> gemini_part list" where
  "translateAssistantParts m =
     (let words = contentText (content m);
          parts = (if words \<noteq> [] then [textPart words] else []) @ map callPart (toolCalls m) in
      if parts = [] then [textPart []] else parts)"

definition toolResultJson :: "string \<Rightarrow> json" where
  "toolResultJson t = JObject [(''result'', JString t)]"

text \<open>The two merging branches: append to the last content of the same role, or start a new one.\<close>

definition appendParts :: "string \<Rightarrow> gemini_part list \<Rightarrow> gemini_content list \<Rightarrow> gemini_content list" where
  "appendParts r ps cs =
     (if cs \<noteq> [] \<and> gcRole (last cs) = r
      then butlast cs @ [(last cs)\<lparr>gcParts := gcParts (last cs) @ ps\<rparr>]
      else cs @ [\<lparr>gcRole = r, gcParts = ps\<rparr>])"

definition translateOne :: "chat_message \<Rightarrow> gemini_part list \<times> gemini_content list \<Rightarrow> gemini_part list \<times> gemini_content list" where
  "translateOne m = (\<lambda>(systems, cs).
     if role m = ''system'' then (systems @ [textPart (contentText (content m))], cs)
     else if role m = ''user'' then (systems, appendParts ''user'' (translateUserParts m) cs)
     else if role m = ''assistant'' then (systems, appendParts ''model'' (translateAssistantParts m) cs)
     else if role m = ''tool'' then
       (systems, appendParts ''user''
          [emptyPart\<lparr>gpResponse := Some (toolName m, toolResultJson (contentText (content m)))\<rparr>] cs)
     else (systems, cs))"

definition translateMessages :: "chat_message list \<Rightarrow> gemini_content option \<times> gemini_content list" where
  "translateMessages ms =
     (let (systems, cs) = fold translateOne ms ([], []) in
      (if systems \<noteq> [] then Some \<lparr>gcRole = [], gcParts = systems\<rparr> else None, cs))"

definition geminiTranslateRequest :: "chat_request \<Rightarrow> gemini_request" where
  "geminiTranslateRequest r =
     (let (system, cs) = translateMessages (crMessages r) in
      \<lparr>grContents = cs, grSystem = system, grTools = crTools r,
       grGeneration = (if crTemperature r \<noteq> None \<or> crMaxTokens r > 0
         then Some \<lparr>ggTemperature = crTemperature r, ggMaxTokens = (if crMaxTokens r > 0 then crMaxTokens r else 0)\<rparr>
         else None)\<rparr>)"

text \<open>
  \<open>body, _ := json.Marshal(request)\<close>: the body is empty (None) when the arguments of a call are not JSON.
\<close>

definition partMarshals :: "gemini_part \<Rightarrow> bool" where
  "partMarshals x \<longleftrightarrow> (case gpCall x of Some (n, Some a) \<Rightarrow> a = [] \<or> jsonValid a | _ \<Rightarrow> True)"

definition geminiBody :: "chat_request \<Rightarrow> gemini_request option" where
  "geminiBody r =
     (let q = geminiTranslateRequest r in
      if list_all (\<lambda>c. list_all partMarshals (gcParts c)) (grContents q) then Some q else None)"

subsection \<open>Responses\<close>

definition translateFinishReason :: "string \<Rightarrow> string" where
  "translateFinishReason s =
     (if s = ''STOP'' then ''stop''
      else if s = ''MAX_TOKENS'' then ''length''
      else if s \<in> set [''SAFETY'', ''RECITATION'', ''BLOCKLIST'', ''PROHIBITED_CONTENT'', ''SPII''] then ''content_filter''
      else ''stop'')"

definition geminiCall :: "string \<times> string option \<Rightarrow> tool_call" where
  "geminiCall = (\<lambda>(n, a). \<lparr>callId = ''call_'' @ n, callName = n,
     callArguments = (case marshalRaw a of None \<Rightarrow> [] | Some i \<Rightarrow> i)\<rparr>)"

definition partCalls :: "gemini_part \<Rightarrow> tool_call list" where
  "partCalls x = (case gpCall x of None \<Rightarrow> [] | Some f \<Rightarrow> [geminiCall f])"

definition geminiUsageInformation :: "gemini_usage \<Rightarrow> usage_information" where
  "geminiUsageInformation u = \<lparr>promptTokenCount = guPrompt u, completionTokenCount = guCandidates u,
     totalTokenCount = guTotal u, cacheCreationCount = 0, cacheReadCount = 0\<rparr>"

definition geminiTranslateResponse :: "string \<Rightarrow> gemini_response \<Rightarrow> chat_response" where
  "geminiTranslateResponse model r =
     (let (parts, finish) = (case gsCandidates r of
            [] \<Rightarrow> ([], ''stop'')
          | c # cs \<Rightarrow> (gnContent c, translateFinishReason (gnFinish c))) in
      \<lparr>crespId = [], crespModel = model,
       crespMessage = \<lparr>role = ''assistant'', content = Text (concat (map gpText parts)),
         toolCalls = concat (map partCalls parts), toolCallId = [], toolName = [], sourceMessageId = []\<rparr>,
       crespFinish = finish, crespUsage = map_option geminiUsageInformation (gsUsage r)\<rparr>)"

subsection \<open>Streams\<close>

record gemini_state =
  toolCallIndex :: nat
  finalUsage :: "gemini_usage option"

definition geminiChunk :: "string \<Rightarrow> stream_choice list \<Rightarrow> usage_information option \<Rightarrow> provider_event" where
  "geminiChunk model xs u = ProviderChunk \<lparr>chunkId = [], chunkModel = model, chunkChoices = xs, chunkUsage = u\<rparr>"

definition callDelta :: "nat \<Rightarrow> tool_call \<Rightarrow> call_delta" where
  "callDelta n tc = \<lparr>deltaIndex = int n, deltaId = callId tc, deltaName = callName tc, deltaArguments = callArguments tc\<rparr>"

fun partEvents :: "string \<Rightarrow> nat \<Rightarrow> gemini_part list \<Rightarrow> provider_event list \<times> nat" where
  "partEvents model n [] = ([], n)"
| "partEvents model n (x # xs) =
     (let words = (if gpText x \<noteq> []
            then [geminiChunk model [\<lparr>choiceContent = gpText x, choiceFinish = [], choiceDeltas = []\<rparr>] None] else []);
          (calls, m) = (case gpCall x of
              None \<Rightarrow> ([], n)
            | Some f \<Rightarrow> ([geminiChunk model [\<lparr>choiceContent = [], choiceFinish = [], choiceDeltas = [callDelta n (geminiCall f)]\<rparr>] None],
                         Suc n));
          (rest, k) = partEvents model m xs in
      (words @ calls @ rest, k))"

definition finishEvents :: "string \<Rightarrow> string \<Rightarrow> provider_event list" where
  "finishEvents model reason =
     (if reason \<noteq> []
      then [geminiChunk model [\<lparr>choiceContent = [], choiceFinish = translateFinishReason reason, choiceDeltas = []\<rparr>] None]
      else [])"

definition onGeminiResponse :: "string \<Rightarrow> gemini_response \<Rightarrow> gemini_state \<Rightarrow> gemini_state sse_step" where
  "onGeminiResponse model r st =
     (let st' = st\<lparr>finalUsage := (case gsUsage r of None \<Rightarrow> finalUsage st | Some u \<Rightarrow> Some u)\<rparr> in
      case gsCandidates r of
        [] \<Rightarrow> Continue [] st'
      | c # cs \<Rightarrow>
          (let (es, n) = partEvents model (toolCallIndex st') (gnContent c) in
           Continue (es @ finishEvents model (gnFinish c)) (st'\<lparr>toolCallIndex := n\<rparr>)))"

definition geminiLine :: "(string \<Rightarrow> gemini_response option) \<Rightarrow> string \<Rightarrow> string \<Rightarrow> gemini_state \<Rightarrow> gemini_state sse_step" where
  "geminiLine parse model l st =
     (if \<not> has_prefix l ''data: '' then Continue [] st
      else (case parse (trim_prefix l ''data: '') of
          None \<Rightarrow> Return [ProviderError ''parsing stream chunk'']
        | Some r \<Rightarrow> onGeminiResponse model r st))"

text \<open>Behind the loop: the usage once, the end, and only then the failure of the scanner.\<close>

definition geminiFinish :: "string \<Rightarrow> gemini_state \<Rightarrow> bool \<Rightarrow> provider_event list" where
  "geminiFinish model st broken =
     (case finalUsage st of None \<Rightarrow> [] | Some u \<Rightarrow> [geminiChunk model [] (Some (geminiUsageInformation u))])
     @ [ProviderDone] @ (if broken then [ProviderError ''reading stream''] else [])"

definition geminiInit :: gemini_state where
  "geminiInit = \<lparr>toolCallIndex = 0, finalUsage = None\<rparr>"

definition geminiReadSse ::
    "(string \<Rightarrow> gemini_response option) \<Rightarrow> string \<Rightarrow> (nat \<Rightarrow> bool) \<Rightarrow> bool \<Rightarrow> string list \<Rightarrow> provider_event list" where
  "geminiReadSse parse model gone broken ls =
     readLines (geminiLine parse model) (geminiFinish model) gone broken 0 geminiInit ls"

subsection \<open>The exchange\<close>

definition geminiChatCompletion ::
    "(string \<Rightarrow> gemini_response option) \<Rightarrow> (gemini_request option \<Rightarrow> http_reply) \<Rightarrow> chat_request \<Rightarrow> provider_error + chat_response" where
  "geminiChatCompletion decode http r =
     (case http (geminiBody r) of
        BadRequest \<Rightarrow> Inl CreatingRequest
      | NoReply \<Rightarrow> Inl SendingRequest
      | Reply status body \<Rightarrow>
          if status \<noteq> 200 then Inl (ApiStatus status body)
          else (case decode body of None \<Rightarrow> Inl DecodingResponse | Some a \<Rightarrow> Inr (geminiTranslateResponse (crModel r) a)))"

definition geminiChatCompletionStream ::
    "(string \<Rightarrow> gemini_response option) \<Rightarrow> (gemini_request option \<Rightarrow> http_reply) \<Rightarrow> (string \<Rightarrow> string list \<times> bool)
     \<Rightarrow> (nat \<Rightarrow> bool) \<Rightarrow> chat_request \<Rightarrow> provider_error + provider_event list" where
  "geminiChatCompletionStream parse http linesOf gone r =
     (case http (geminiBody r) of
        BadRequest \<Rightarrow> Inl CreatingRequest
      | NoReply \<Rightarrow> Inl SendingRequest
      | Reply status body \<Rightarrow>
          if status \<noteq> 200 then Inl (ApiStatus status body)
          else (let (ls, broken) = linesOf body in Inr (geminiReadSse parse (crModel r) gone broken ls)))"

definition geminiFallbackModels :: "model_information list" where
  "geminiFallbackModels = map modelNamed [''gemini-2.5-pro'', ''gemini-2.5-flash'', ''gemini-2.0-flash'']"

definition geminiListModels :: "(string \<Rightarrow> string list option) \<Rightarrow> http_reply \<Rightarrow> model_information list" where
  "geminiListModels decode reply =
     (case reply of
        Reply status body \<Rightarrow>
          if status \<noteq> 200 then geminiFallbackModels
          else (case decode body of
              None \<Rightarrow> geminiFallbackModels
            | Some ns \<Rightarrow> sort_key miId (map modelNamed
                (filter (\<lambda>i. has_prefix i ''gemini'') (map (\<lambda>n. trim_prefix n ''models/'') ns))))
      | _ \<Rightarrow> geminiFallbackModels)"

subsection \<open>What the runner collects\<close>

fun callDeltas :: "nat \<Rightarrow> tool_call list \<Rightarrow> call_delta list" where
  "callDeltas n [] = []"
| "callDeltas n (tc # tcs) = callDelta n tc # callDeltas (Suc n) tcs"

lemma callDeltas_append: "callDeltas n (xs @ ys) = callDeltas n xs @ callDeltas (n + length xs) ys"
  by (induction xs arbitrary: n) simp_all

lemma callDeltas_index: "d \<in> set (callDeltas n tcs) \<Longrightarrow> int n \<le> deltaIndex d"
proof (induction tcs arbitrary: n)
  case (Cons tc tcs)
  then show ?case using Cons.IH [of "Suc n"] by (auto simp: callDelta_def)
qed simp

lemma referenceCall_delta: "referenceCall (int n) [callDelta n tc] = tc"
  by (simp add: referenceCall_def deltasOf_def callDelta_def)

lemma assemble_calls: "assembleToolCalls (callDeltas n tcs) = tcs"
proof (induction tcs arbitrary: n)
  case Nil
  then show ?case by (simp add: assembleToolCalls_def)
next
  case (Cons tc tcs)
  have "assembleToolCalls ([callDelta n tc] @ callDeltas (Suc n) tcs)
      = referenceCall (int n) [callDelta n tc] # assembleToolCalls (callDeltas (Suc n) tcs)"
    by (rule assemble_next) (auto simp: callDelta_def dest: callDeltas_index)
  then show ?case using Cons by (simp add: referenceCall_delta)
qed

abbreviation partsCalls :: "gemini_part list \<Rightarrow> tool_call list" where
  "partsCalls ps \<equiv> concat (map partCalls ps)"

lemma collect_gemini: "collect c (geminiChunk model xs u # es) = collect (fold collectChoice xs c) es"
  by (simp add: collect_def geminiChunk_def)

lemma usage_gemini: "collectUsage u (geminiChunk model xs None # es) = collectUsage u es"
  by (simp add: geminiChunk_def)

lemma collected_update:
  "\<lparr>streamText = t, streamStop = streamStop c, streamDeltas = ds\<rparr> = c\<lparr>streamText := t, streamDeltas := ds\<rparr>"
  by (cases c) simp

lemma part_events:
  assumes "partEvents model n ps = (es, k)"
  shows "k = n + length (partsCalls ps)
    \<and> collect c (es @ rest) = collect (c\<lparr>streamText := streamText c @ concat (map gpText ps),
        streamDeltas := streamDeltas c @ callDeltas n (partsCalls ps)\<rparr>) rest
    \<and> collectUsage u (es @ rest) = collectUsage u rest"
  using assms
proof (induction ps arbitrary: n c es k)
  case Nil
  then show ?case by simp
next
  case (Cons x xs)
  obtain rest' k' where r: "partEvents model (n + length (partCalls x)) xs = (rest', k')" by fastforce
  note ih = Cons.IH [OF r]
  show ?case
    using Cons.prems r ih
    by (cases "gpCall x")
      (auto simp: Let_def partCalls_def collect_gemini usage_gemini collectChoice_def collected_update callDeltas_append
        split: if_splits)
qed

subsection \<open>A reply in pieces\<close>

text \<open>The responses on the data lines of a body, and what they add up to.\<close>

definition responsesIn :: "(string \<Rightarrow> gemini_response option) \<Rightarrow> string list \<Rightarrow> gemini_response list" where
  "responsesIn parse ls =
     concat (map (\<lambda>l. if has_prefix l ''data: ''
       then (case parse (trim_prefix l ''data: '') of None \<Rightarrow> [] | Some r \<Rightarrow> [r]) else []) ls)"

definition lines_parse :: "(string \<Rightarrow> gemini_response option) \<Rightarrow> string list \<Rightarrow> bool" where
  "lines_parse parse ls \<longleftrightarrow> list_all (\<lambda>l. has_prefix l ''data: '' \<longrightarrow> parse (trim_prefix l ''data: '') \<noteq> None) ls"

definition firstParts :: "gemini_response \<Rightarrow> gemini_part list" where
  "firstParts r = (case gsCandidates r of [] \<Rightarrow> [] | c # cs \<Rightarrow> gnContent c)"

definition firstFinish :: "gemini_response \<Rightarrow> string" where
  "firstFinish r = (case gsCandidates r of [] \<Rightarrow> [] | c # cs \<Rightarrow> gnFinish c)"

definition latest :: "'a option \<Rightarrow> 'a option \<Rightarrow> 'a option" where
  "latest old new = (case new of None \<Rightarrow> old | Some u \<Rightarrow> Some u)"

definition latestFinish :: "string \<Rightarrow> string \<Rightarrow> string" where
  "latestFinish old new = (if new \<noteq> [] then new else old)"

text \<open>The response that was not streamed: all parts, the last reason, the last usage.\<close>

definition wholeResponse :: "gemini_response list \<Rightarrow> gemini_response" where
  "wholeResponse rs =
     \<lparr>gsCandidates = [\<lparr>gnContent = concat (map firstParts rs), gnFinish = foldl latestFinish [] (map firstFinish rs)\<rparr>],
      gsUsage = foldl latest None (map gsUsage rs)\<rparr>"

fun gemini_emitted :: "string \<Rightarrow> gemini_state \<Rightarrow> gemini_response list \<Rightarrow> bool \<Rightarrow> provider_event list" where
  "gemini_emitted model st [] broken = geminiFinish model st broken"
| "gemini_emitted model st (r # rs) broken =
     (case onGeminiResponse model r st of
        Return es \<Rightarrow> es | Continue es st' \<Rightarrow> es @ gemini_emitted model st' rs broken)"

lemma readLines_gemini:
  "lines_parse parse ls \<Longrightarrow>
    readLines (geminiLine parse model) (geminiFinish model) (\<lambda>_. False) broken k st ls
    = gemini_emitted model st (responsesIn parse ls) broken"
proof (induction ls arbitrary: k st)
  case Nil
  then show ?case by (simp add: responsesIn_def)
next
  case (Cons l ls)
  have tl: "lines_parse parse ls" using Cons.prems by (simp add: lines_parse_def)
  show ?case
  proof (cases "has_prefix l ''data: ''")
    case True
    then obtain r where r: "parse (trim_prefix l ''data: '') = Some r" using Cons.prems by (auto simp: lines_parse_def)
    have "responsesIn parse (l # ls) = r # responsesIn parse ls" using True r by (simp add: responsesIn_def)
    then show ?thesis using Cons.IH [OF tl] True r by (simp add: geminiLine_def split: sse_step.splits)
  next
    case False
    then have "responsesIn parse (l # ls) = responsesIn parse ls" by (simp add: responsesIn_def)
    then show ?thesis using Cons.IH [OF tl] False by (simp add: geminiLine_def)
  qed
qed

lemma translateFinish_nonempty [simp]: "translateFinishReason s \<noteq> []"
  by (simp add: translateFinishReason_def)

lemma collect_finish:
  "collect c (finishEvents model f @ rest)
    = collect (c\<lparr>streamStop := (if f \<noteq> [] then translateFinishReason f else streamStop c)\<rparr>) rest
   \<and> collectUsage u (finishEvents model f @ rest) = collectUsage u rest"
  by (cases c) (simp add: finishEvents_def collect_gemini usage_gemini collectChoice_def)

text \<open>The reason in force, in terms of what the runner held before.\<close>

definition stopAfter :: "string \<Rightarrow> string \<Rightarrow> string" where
  "stopAfter old f = (if f \<noteq> [] then translateFinishReason f else old)"

lemma gemini_response_step:
  "\<exists>es st'. onGeminiResponse model r st = Continue es st'
    \<and> finalUsage st' = latest (finalUsage st) (gsUsage r)
    \<and> toolCallIndex st' = toolCallIndex st + length (partsCalls (firstParts r))
    \<and> (\<forall>c rest. collect c (es @ rest) = collect (c\<lparr>streamText := streamText c @ concat (map gpText (firstParts r)),
        streamDeltas := streamDeltas c @ callDeltas (toolCallIndex st) (partsCalls (firstParts r)),
        streamStop := stopAfter (streamStop c) (firstFinish r)\<rparr>) rest)
    \<and> (\<forall>u rest. collectUsage u (es @ rest) = collectUsage u rest)"
proof (cases "gsCandidates r")
  case Nil
  then show ?thesis
    by (simp add: onGeminiResponse_def latest_def firstParts_def firstFinish_def stopAfter_def Let_def)
next
  case (Cons a as)
  obtain es n where p: "partEvents model (toolCallIndex st) (gnContent a) = (es, n)" by fastforce
  note pe = part_events [OF p]
  show ?thesis
    using Cons p pe collect_finish [of _ model "gnFinish a"]
    by (intro exI [of _ "es @ finishEvents model (gnFinish a)"] exI [of _ "st\<lparr>finalUsage := latest (finalUsage st) (gsUsage r), toolCallIndex := n\<rparr>"])
      (simp add: onGeminiResponse_def latest_def firstParts_def firstFinish_def stopAfter_def Let_def)
qed

lemma gemini_collected:
  "collect c (gemini_emitted model st rs broken) =
    Some \<lparr>streamText = streamText c @ concat (map gpText (concat (map firstParts rs))),
          streamStop = foldl stopAfter (streamStop c) (map firstFinish rs),
          streamDeltas = streamDeltas c @ callDeltas (toolCallIndex st) (partsCalls (concat (map firstParts rs)))\<rparr>
   \<and> collectUsage u (gemini_emitted model st rs broken) =
      (case foldl latest (finalUsage st) (map gsUsage rs) of
         None \<Rightarrow> u
       | Some v \<Rightarrow> Some (addUsage (case u of None \<Rightarrow> noUsage | Some w \<Rightarrow> w) (geminiUsageInformation v)))"
proof (induction rs arbitrary: c st)
  case Nil
  then show ?case by (cases c) (simp add: geminiFinish_def geminiChunk_def collect_def split: option.splits)
next
  case (Cons r rs)
  obtain es st' where s: "onGeminiResponse model r st = Continue es st'"
    and u: "finalUsage st' = latest (finalUsage st) (gsUsage r)"
    and i: "toolCallIndex st' = toolCallIndex st + length (partsCalls (firstParts r))"
    and c: "\<And>c rest. collect c (es @ rest) = collect (c\<lparr>streamText := streamText c @ concat (map gpText (firstParts r)),
        streamDeltas := streamDeltas c @ callDeltas (toolCallIndex st) (partsCalls (firstParts r)),
        streamStop := stopAfter (streamStop c) (firstFinish r)\<rparr>) rest"
    and v: "\<And>u rest. collectUsage u (es @ rest) = collectUsage u rest"
    using gemini_response_step [of model r st] by blast
  show ?case using Cons.IH [of _ st'] by (simp add: s u i c v callDeltas_append)
qed

lemma stop_of_finishes:
  "foldl latestFinish f fs \<noteq> [] \<Longrightarrow> (f \<noteq> [] \<Longrightarrow> old = translateFinishReason f)
    \<Longrightarrow> foldl stopAfter old fs = translateFinishReason (foldl latestFinish f fs)"
proof (induction fs arbitrary: f old)
  case (Cons g fs)
  have ne: "foldl latestFinish (latestFinish f g) fs \<noteq> []" using Cons.prems(1) by simp
  have "stopAfter old g = translateFinishReason (latestFinish f g)" if "latestFinish f g \<noteq> []"
    using that Cons.prems(2) by (auto simp: latestFinish_def stopAfter_def split: if_splits)
  from Cons.IH [OF ne this] show ?case by simp
qed simp

lemma geminiReadSse_emitted:
  "lines_parse parse ls \<Longrightarrow>
    geminiReadSse parse model (\<lambda>_. False) broken ls = gemini_emitted model geminiInit (responsesIn parse ls) broken"
  unfolding geminiReadSse_def by (rule readLines_gemini)

text \<open>C35: A streamed Gemini reply is the response: from any division of the parts over the lines the runner
  assembles the text, the calls, the stop reason and the usage that the unstreamed response with
  all parts has.\<close>

theorem gemini_stream_matches_response:
  assumes "lines_parse parse ls" and "foldl latestFinish [] (map firstFinish (responsesIn parse ls)) \<noteq> []"
  shows "\<exists>c. collectStream \<lparr>streamText = [], streamStop = previous, streamDeltas = []\<rparr>
      (map runnerEvent (geminiReadSse parse model (\<lambda>_. False) broken ls)) = Some c
    \<and> (let reply = geminiTranslateResponse model (wholeResponse (responsesIn parse ls)) in
       content (crespMessage reply) = Text (streamText c)
       \<and> crespFinish reply = streamStop c
       \<and> toolCalls (crespMessage reply) = assembleToolCalls (streamDeltas c)
       \<and> map_option (addUsage noUsage) (crespUsage reply)
         = collectUsage None (geminiReadSse parse model (\<lambda>_. False) broken ls))"
proof -
  let ?c = "\<lparr>streamText = [], streamStop = previous, streamDeltas = []\<rparr>"
  note g = gemini_collected [of ?c model geminiInit "responsesIn parse ls" broken None, folded geminiReadSse_emitted [OF assms(1)]]
  have stop: "foldl stopAfter previous (map firstFinish (responsesIn parse ls))
      = translateFinishReason (foldl latestFinish [] (map firstFinish (responsesIn parse ls)))"
    by (rule stop_of_finishes [OF assms(2)]) simp
  show ?thesis
    unfolding collect_def [symmetric] conjunct1 [OF g] conjunct2 [OF g]
    by (rule exI, rule conjI, rule refl)
      (simp add: geminiTranslateResponse_def wholeResponse_def Let_def geminiInit_def assemble_calls stop split: option.splits)
qed

text \<open>A connection that breaks while a Gemini reply is read goes unnoticed: the end of the stream is announced
  before the failure, so the runner takes the part that arrived for the whole reply.\<close>

theorem gemini_read_failure_is_lost:
  assumes "lines_parse parse ls"
  shows "collectStream c (map runnerEvent (geminiReadSse parse model (\<lambda>_. False) True ls))
      = collectStream c (map runnerEvent (geminiReadSse parse model (\<lambda>_. False) False ls))
    \<and> collectStream c (map runnerEvent (geminiReadSse parse model (\<lambda>_. False) True ls)) \<noteq> None"
  unfolding geminiReadSse_emitted [OF assms] collect_def [symmetric]
  by (simp add: gemini_collected)

lemma geminiCall_id: "callId (geminiCall (n, a)) = ''call_'' @ n"
  by (simp add: geminiCall_def)

lemma callPart_kind [simp]:
  "\<exists>i j. gpCall (callPart tc) = Some (i, j)" "gpResponse (callPart tc) = None" "gpCall (emptyPart\<lparr>gpResponse := x\<rparr>) = None"
  by (simp_all add: callPart_def emptyPart_def)

text \<open>Two calls of one tool in a Gemini reply carry the same identifier. When the run is interrupted behind the
  first result, the repair of the prompt takes both for answered, and the next request has two
  calls and one result.\<close>

theorem gemini_calls_share_their_id:
  "let m = crespMessage (geminiTranslateResponse model
         \<lparr>gsCandidates = [\<lparr>gnContent = [emptyPart\<lparr>gpCall := Some (n, a)\<rparr>, emptyPart\<lparr>gpCall := Some (n, b)\<rparr>], gnFinish = f\<rparr>],
          gsUsage = u\<rparr>);
       result = \<lparr>role = ''tool'', content = Text t, toolCalls = [], toolCallId = ''call_'' @ n, toolName = n,
          sourceMessageId = []\<rparr>;
       parts = concat (map gcParts (grContents (geminiTranslateRequest (q\<lparr>crMessages := repairMessages [m, result]\<rparr>)))) in
   repairMessages [m, result] = [m, result]
   \<and> length (filter (\<lambda>x. gpCall x \<noteq> None) parts) = 2 \<and> length (filter (\<lambda>x. gpResponse x \<noteq> None) parts) = 1"
proof -
  define m where "m = \<lparr>role = ''assistant'', content = Text [], toolCalls = [geminiCall (n, a), geminiCall (n, b)],
    toolCallId = [], toolName = [], sourceMessageId = []\<rparr>"
  define result where "result = \<lparr>role = ''tool'', content = Text t, toolCalls = [], toolCallId = ''call_'' @ n, toolName = n,
    sourceMessageId = []\<rparr>"
  have reply: "crespMessage (geminiTranslateResponse model
      \<lparr>gsCandidates = [\<lparr>gnContent = [emptyPart\<lparr>gpCall := Some (n, a)\<rparr>, emptyPart\<lparr>gpCall := Some (n, b)\<rparr>], gnFinish = f\<rparr>],
       gsUsage = u\<rparr>) = m"
    by (simp add: m_def geminiTranslateResponse_def partCalls_def emptyPart_def)
  have f: "role m = ''assistant''" "toolCalls m = [geminiCall (n, a), geminiCall (n, b)]"
    "role result = ''tool''" "toolCalls result = []" "toolCallId result = ''call_'' @ n"
    by (simp_all add: m_def result_def)
  have "answeredIds [result] = [''call_'' @ n]" unfolding answeredIds_def turn_def by (simp add: f)
  then have "missingResults m [result] = []" unfolding missingResults_def by (simp add: f geminiCall_id)
  then have "fixInterruptedToolCalls [m, result] = [m, result]" by (simp add: f Let_def)
  moreover have "dropUnpaired {} [m, result] = [m, result]" by (simp add: f Let_def geminiCall_id)
  ultimately have repair: "repairMessages [m, result] = [m, result]"
    by (simp add: repairMessages_def dropUnpairedToolResults_def)
  have "grContents (geminiTranslateRequest (q\<lparr>crMessages := [m, result]\<rparr>)) =
      [\<lparr>gcRole = ''model'', gcParts = [callPart (geminiCall (n, a)), callPart (geminiCall (n, b))]\<rparr>,
       \<lparr>gcRole = ''user'', gcParts = [emptyPart\<lparr>gpResponse := Some (n, toolResultJson t)\<rparr>]\<rparr>]"
    by (simp add: m_def result_def geminiTranslateRequest_def translateMessages_def translateOne_def
        translateAssistantParts_def appendParts_def)
  then show ?thesis
    unfolding Let_def reply result_def [symmetric] repair by simp
qed

text \<open>One call whose arguments are not JSON empties the whole request.\<close>

lemma gemini_body_lost:
  assumes "x \<in> set (grContents (geminiTranslateRequest r))" and "y \<in> set (gcParts x)"
    and "gpCall y = Some (n, Some a)" and "a \<noteq> []" and "\<not> jsonValid a"
  shows "geminiBody r = None"
proof -
  have "\<not> partMarshals y" using assms(3-5) by (simp add: partMarshals_def)
  then show ?thesis using assms(1,2) by (auto simp: geminiBody_def Let_def list_all_iff)
qed

subsection \<open>A sample stream\<close>

definition sampleGemini :: "string \<Rightarrow> gemini_response option" where
  "sampleGemini d =
     (if d = ''a'' then Some \<lparr>gsCandidates = [\<lparr>gnContent = [textPart ''Hel''], gnFinish = []\<rparr>], gsUsage = None\<rparr>
      else if d = ''b'' then Some \<lparr>gsCandidates = [\<lparr>gnContent = [textPart ''lo''], gnFinish = ''STOP''\<rparr>],
        gsUsage = Some \<lparr>guPrompt = 3, guCandidates = 2, guTotal = 5\<rparr>\<rparr>
      else None)"

definition sampleGeminiLines :: "string list" where
  "sampleGeminiLines = [''data: a'', [], ''data: b'', []]"

lemma sampleGemini_ok:
  "lines_parse sampleGemini sampleGeminiLines"
  "responsesIn sampleGemini sampleGeminiLines = map (the \<circ> sampleGemini) [''a'', ''b'']"
  by (simp_all add: lines_parse_def responsesIn_def sampleGeminiLines_def has_prefix_def trim_prefix_def sampleGemini_def)

lemma gemini_stream_matches_response_witness:
  "\<exists>c. collectStream \<lparr>streamText = [], streamStop = [], streamDeltas = []\<rparr>
      (map runnerEvent (geminiReadSse sampleGemini ''gemini'' (\<lambda>_. False) True sampleGeminiLines)) = Some c
    \<and> streamText c = ''Hello'' \<and> streamStop c = ''stop''"
proof -
  have "foldl latestFinish [] (map firstFinish (responsesIn sampleGemini sampleGeminiLines)) \<noteq> []"
    by (simp add: sampleGemini_ok sampleGemini_def latestFinish_def firstFinish_def)
  from gemini_stream_matches_response [OF sampleGemini_ok(1) this, of "[]" "''gemini''" True] show ?thesis
    by (simp add: Let_def geminiTranslateResponse_def wholeResponse_def sampleGemini_ok(2) sampleGemini_def firstParts_def
        firstFinish_def latestFinish_def translateFinishReason_def textPart_def emptyPart_def) metis
qed

lemma gemini_read_failure_is_lost_witness:
  "collectStream \<lparr>streamText = [], streamStop = [], streamDeltas = []\<rparr>
     (map runnerEvent (geminiReadSse sampleGemini ''gemini'' (\<lambda>_. False) True sampleGeminiLines)) \<noteq> None"
  using gemini_read_failure_is_lost [OF sampleGemini_ok(1)] by blast

end
