(* ===== verification/ProviderRegistry.thy ===== *)
theory ProviderRegistry
  imports Anthropic Gemini "HOL-Library.AList"
begin

text \<open>
  The registry of providers (\<open>providers/registry.go\<close>, \<open>providers/interface.go\<close>): it is built from the environment and
  the configuration, resolves provider model names, finds the provider of a capability and caches
  the lists of models. A client is its Go type with its address and key; what a service answers
  is an argument. Times are nanoseconds.
\<close>

subsection \<open>Clients\<close>

datatype client =
    OpenAiClient string string | AnthropicClient string string | GeminiClient string string
  | DeepgramClient string string | ElevenLabsClient string string

definition trimSlashes :: "string \<Rightarrow> string" where
  "trimSlashes s = rev (dropWhile (\<lambda>c. c = CHR ''/'') (rev s))"

definition newProvider :: "string \<Rightarrow> string \<Rightarrow> string \<Rightarrow> client" where
  "newProvider kind base key =
     (if kind = ''anthropic'' then AnthropicClient (trimSlashes base) key
      else if kind = ''gemini'' then GeminiClient (trimSlashes base) key
      else if kind = ''deepgram'' then DeepgramClient (trim_space base) (trim_space key)
      else if kind = ''elevenlabs'' then ElevenLabsClient (trim_space base) (trim_space key)
      else OpenAiClient (trimSlashes base) key)"

text \<open>The capability interfaces each Go type satisfies.\<close>

fun chats :: "client \<Rightarrow> bool" where
  "chats (OpenAiClient b k) = True" | "chats (AnthropicClient b k) = True" | "chats (GeminiClient b k) = True"
| "chats (DeepgramClient b k) = False" | "chats (ElevenLabsClient b k) = False"

fun transcribes :: "client \<Rightarrow> bool" where
  "transcribes (OpenAiClient b k) = True" | "transcribes (AnthropicClient b k) = False" | "transcribes (GeminiClient b k) = True"
| "transcribes (DeepgramClient b k) = False" | "transcribes (ElevenLabsClient b k) = False"

fun transcribesStreams :: "client \<Rightarrow> bool" where
  "transcribesStreams (DeepgramClient b k) = True"
| "transcribesStreams c = False"

fun synthesizes :: "client \<Rightarrow> bool" where
  "synthesizes (OpenAiClient b k) = True" | "synthesizes (AnthropicClient b k) = False" | "synthesizes (GeminiClient b k) = True"
| "synthesizes (DeepgramClient b k) = False" | "synthesizes (ElevenLabsClient b k) = True"

fun embeds :: "client \<Rightarrow> bool" where
  "embeds (OpenAiClient b k) = True"
| "embeds c = False"

subsection \<open>Configuration\<close>

record provider_configuration =
  pcName :: string
  pcBaseUrl :: string
  pcApiKey :: string

record models_configuration =
  mcProviders :: "provider_configuration list option"
  mcDefault :: string
  mcEmbedding :: string
  mcSummarizer :: string

record provider_registry =
  prClients :: "(string \<times> client) list"
  prDefaultProvider :: string
  prDefaultModel :: string
  prEmbeddingModel :: string
  prSummarizerModel :: string
  prCache :: "string \<Rightarrow> (model_information list \<times> int) option"

definition newEmptyProviderRegistry :: provider_registry where
  "newEmptyProviderRegistry = \<lparr>prClients = [], prDefaultProvider = [], prDefaultModel = [], prEmbeddingModel = [],
     prSummarizerModel = [], prCache = Map.empty\<rparr>"

definition environmentProviderDefaults :: "(string \<times> string \<times> string) list" where
  "environmentProviderDefaults =
     [(''openai'', ''OPENAI_API_KEY'', ''https://api.openai.com/v1''),
      (''anthropic'', ''ANTHROPIC_API_KEY'', ''https://api.anthropic.com''),
      (''openrouter'', ''OPENROUTER_API_KEY'', ''https://openrouter.ai/api/v1''),
      (''xai'', ''XAI_API_KEY'', ''https://api.x.ai/v1''),
      (''gemini'', ''GEMINI_API_KEY'', ''https://generativelanguage.googleapis.com''),
      (''deepgram'', ''DEEPGRAM_API_KEY'', ''https://api.deepgram.com''),
      (''elevenlabs'', ''ELEVENLABS_API_KEY'', ''https://api.elevenlabs.io'')]"

text \<open>\<open>env\<close> is the environment; an unset variable reads as the empty string.\<close>

definition defaultProvidersFromEnvironment :: "(string \<Rightarrow> string) \<Rightarrow> provider_configuration list" where
  "defaultProvidersFromEnvironment env =
     map (\<lambda>(n, v, u). \<lparr>pcName = n, pcBaseUrl = u, pcApiKey = env v\<rparr>)
       (filter (\<lambda>(n, v, u). env v \<noteq> []) environmentProviderDefaults)"

text \<open>The second loop, with the names seen so far as the accumulator.\<close>

fun keepUnseen :: "string set \<Rightarrow> provider_configuration list \<Rightarrow> provider_configuration list" where
  "keepUnseen seen [] = []"
| "keepUnseen seen (p # ps) =
     (if pcName p \<noteq> [] \<and> pcName p \<in> seen then keepUnseen seen ps
      else p # keepUnseen (if pcName p \<noteq> [] then insert (pcName p) seen else seen) ps)"

definition mergeProviderConfigurations ::
    "provider_configuration list \<Rightarrow> provider_configuration list \<Rightarrow> provider_configuration list" where
  "mergeProviderConfigurations es cs = es @ keepUnseen (set (map pcName es)) cs"

definition defaultProviderModelName :: "provider_configuration list \<Rightarrow> string" where
  "defaultProviderModelName ps =
     (let names = map pcName ps in
      if ''openai'' \<in> set names then ''openai:gpt-5.2''
      else if ''anthropic'' \<in> set names then ''anthropic:claude-sonnet-4-20250514''
      else if ''gemini'' \<in> set names then ''gemini:gemini-2.5-flash''
      else if ''openrouter'' \<in> set names then ''openrouter:anthropic/claude-sonnet-4-20250514''
      else if ''xai'' \<in> set names then ''xai:grok-4''
      else ''openai:gpt-5.2'')"

definition parseProviderModelName :: "string \<Rightarrow> string \<Rightarrow> string \<times> string" where
  "parseProviderModelName s fallback =
     (case index_byte s (CHR '':'') of
        Some i \<Rightarrow> (take i s, drop (Suc i) s)
      | None \<Rightarrow> (fallback, s))"

definition formatProviderModelName :: "string \<Rightarrow> string \<Rightarrow> string" where
  "formatProviderModelName p m = p @ '':'' @ m"

definition registerClient :: "string \<Rightarrow> client \<Rightarrow> provider_registry \<Rightarrow> provider_registry" where
  "registerClient n c r = r\<lparr>prClients := AList.update n c (prClients r)\<rparr>"

definition keylessOpenAi :: provider_configuration where
  "keylessOpenAi = \<lparr>pcName = ''openai'', pcBaseUrl = ''https://api.openai.com/v1'', pcApiKey = []\<rparr>"

definition configuredProviders :: "(string \<Rightarrow> string) \<Rightarrow> models_configuration \<Rightarrow> provider_configuration list" where
  "configuredProviders env c =
     (let merged = mergeProviderConfigurations (defaultProvidersFromEnvironment env)
            (case mcProviders c of None \<Rightarrow> [] | Some ps \<Rightarrow> ps) in
      if merged = [] then [keylessOpenAi] else merged)"

definition registerConfigured :: "provider_configuration \<Rightarrow> provider_registry \<Rightarrow> provider_registry" where
  "registerConfigured p r =
     (if pcName p = [] then r
      else registerClient (pcName p) (newProvider (pcName p) (pcBaseUrl p) (pcApiKey p)) r)"

definition effectiveConfiguration :: "(string \<Rightarrow> string) \<Rightarrow> models_configuration \<Rightarrow> models_configuration" where
  "effectiveConfiguration env c =
     (let ps = configuredProviders env c in
      c\<lparr>mcProviders := Some ps, mcDefault := (if mcDefault c = [] then defaultProviderModelName ps else mcDefault c)\<rparr>)"

definition unfilledRegistry :: "models_configuration \<Rightarrow> provider_registry" where
  "unfilledRegistry c =
     \<lparr>prClients = [], prDefaultProvider = fst (parseProviderModelName (mcDefault c) ''openai''),
      prDefaultModel = mcDefault c, prEmbeddingModel = mcEmbedding c, prSummarizerModel = mcSummarizer c,
      prCache = Map.empty\<rparr>"

text \<open>The registry, and the configuration as the constructor leaves it.\<close>

definition newProviderRegistry ::
    "(string \<Rightarrow> string) \<Rightarrow> models_configuration option \<Rightarrow> provider_registry \<times> models_configuration" where
  "newProviderRegistry env mc =
     (let c = (case mc of None \<Rightarrow> \<lparr>mcProviders = None, mcDefault = [], mcEmbedding = [], mcSummarizer = []\<rparr> | Some c \<Rightarrow> c);
          c' = effectiveConfiguration env c;
          r = fold registerConfigured (configuredProviders env c) (unfilledRegistry c') in
      (r\<lparr>prEmbeddingModel := (if prEmbeddingModel r = [] \<and> map_of (prClients r) ''openai'' \<noteq> None
           then ''openai:text-embedding-3-small'' else prEmbeddingModel r)\<rparr>, c'))"

definition setEmbeddingProviderModelName :: "string \<Rightarrow> provider_registry \<Rightarrow> provider_registry" where
  "setEmbeddingProviderModelName n r = r\<lparr>prEmbeddingModel := n\<rparr>"

subsection \<open>Resolution\<close>

datatype resolve_error = NoModel | UnknownProvider string

definition resolveProviderAndModel :: "provider_registry \<Rightarrow> string \<Rightarrow> resolve_error + client \<times> string \<times> string" where
  "resolveProviderAndModel r name =
     (let n = (if name = [] then prDefaultModel r else name) in
      if n = [] then Inl NoModel
      else (let (p, m) = parseProviderModelName n (prDefaultProvider r) in
        case map_of (prClients r) p of
          None \<Rightarrow> Inl (UnknownProvider p)
        | Some c \<Rightarrow> Inr (c, p, m)))"

definition clientByName :: "provider_registry \<Rightarrow> string \<Rightarrow> client option" where
  "clientByName r n = map_of (prClients r) n"

definition providerNames :: "provider_registry \<Rightarrow> string list" where
  "providerNames r = sort (map fst (prClients r))"

text \<open>The lookups by capability: the first name in order, or a given name.\<close>

fun findFirst :: "(client \<Rightarrow> bool) \<Rightarrow> provider_registry \<Rightarrow> string list \<Rightarrow> (client \<times> string) option" where
  "findFirst able r [] = None"
| "findFirst able r (n # ns) =
     (case map_of (prClients r) n of
        Some c \<Rightarrow> if able c then Some (c, n) else findFirst able r ns
      | None \<Rightarrow> findFirst able r ns)"

definition findByName :: "(client \<Rightarrow> bool) \<Rightarrow> provider_registry \<Rightarrow> string \<Rightarrow> client option" where
  "findByName able r n =
     (case map_of (prClients r) n of None \<Rightarrow> None | Some c \<Rightarrow> if able c then Some c else None)"

definition findTranscriber :: "provider_registry \<Rightarrow> (client \<times> string) option" where
  "findTranscriber r = findFirst transcribes r (providerNames r)"

definition findStreamingTranscriber :: "provider_registry \<Rightarrow> (client \<times> string) option" where
  "findStreamingTranscriber r = findFirst transcribesStreams r (providerNames r)"

definition findSynthesizer :: "provider_registry \<Rightarrow> (client \<times> string) option" where
  "findSynthesizer r = findFirst synthesizes r (providerNames r)"

definition findEmbedder :: "provider_registry \<Rightarrow> (client \<times> string) option" where
  "findEmbedder r = findFirst embeds r (providerNames r)"

subsection \<open>Speech over HTTP\<close>

datatype http_outcome = HttpError nat | HttpAudio string

text \<open>
  The handler behind the token of \<open>api/http.go\<close> from the lookup on; \<open>batch\<close> is what the batch synthesis of a
  client returns. The one of ElevenLabs is an error in its client.
\<close>

definition synthesize :: "(client \<Rightarrow> string option) \<Rightarrow> client \<Rightarrow> string option" where
  "synthesize batch c = (case c of ElevenLabsClient b k \<Rightarrow> None | _ \<Rightarrow> batch c)"

definition speechResponse :: "(client \<Rightarrow> string option) \<Rightarrow> provider_registry \<Rightarrow> http_outcome" where
  "speechResponse batch r =
     (case findSynthesizer r of
        None \<Rightarrow> HttpError 501
      | Some (c, n) \<Rightarrow> (case synthesize batch c of None \<Rightarrow> HttpError 500 | Some a \<Rightarrow> HttpAudio a))"

subsection \<open>Model lists\<close>

definition modelsCacheTtl :: int where
  "modelsCacheTtl = 5 * 60 * 1000000000"

text \<open>\<open>fetch\<close> is \<open>ListModels\<close> of the named client at this moment; None is an error.\<close>

definition refreshModels ::
    "(string \<Rightarrow> model_information list option) \<Rightarrow> string \<Rightarrow> int \<Rightarrow> model_information list \<Rightarrow> provider_registry
     \<Rightarrow> model_information list \<times> provider_registry" where
  "refreshModels fetch n now stale r =
     (case map_of (prClients r) n of
        None \<Rightarrow> ([], r)
      | Some c \<Rightarrow>
          if \<not> chats c then ([], r)
          else (case fetch n of
              None \<Rightarrow> (stale, r)
            | Some ms \<Rightarrow> (ms, r\<lparr>prCache := (prCache r)(n \<mapsto> (ms, now + modelsCacheTtl))\<rparr>)))"

definition cachedModelsForProvider ::
    "(string \<Rightarrow> model_information list option) \<Rightarrow> string \<Rightarrow> int \<Rightarrow> provider_registry \<Rightarrow> model_information list \<times> provider_registry" where
  "cachedModelsForProvider fetch n now r =
     (case prCache r n of
        Some (ms, expires) \<Rightarrow> if now < expires then (ms, r) else refreshModels fetch n now ms r
      | None \<Rightarrow> refreshModels fetch n now [] r)"

fun listModelsOf ::
    "(string \<Rightarrow> model_information list option) \<Rightarrow> int \<Rightarrow> string list \<Rightarrow> provider_registry
     \<Rightarrow> (string \<times> string \<times> int) list \<times> provider_registry" where
  "listModelsOf fetch now [] r = ([], r)"
| "listModelsOf fetch now (n # ns) r =
     (let (ms, r') = cachedModelsForProvider fetch n now r;
          (rest, r'') = listModelsOf fetch now ns r' in
      (map (\<lambda>m. (n, miId m, miContext m)) ms @ rest, r''))"

definition listAllModels ::
    "(string \<Rightarrow> model_information list option) \<Rightarrow> int \<Rightarrow> provider_registry \<Rightarrow> (string \<times> string \<times> int) list \<times> provider_registry" where
  "listAllModels fetch now r = listModelsOf fetch now (providerNames r) r"

subsection \<open>What is registered\<close>

lemma chats_newProvider: "chats (newProvider n b k) \<longleftrightarrow> n \<noteq> ''deepgram'' \<and> n \<noteq> ''elevenlabs''"
  by (simp add: newProvider_def)

lemma register_lookup:
  "map_of (prClients (registerConfigured p r)) n =
    (if pcName p \<noteq> [] \<and> n = pcName p then Some (newProvider n (pcBaseUrl p) (pcApiKey p)) else map_of (prClients r) n)"
  by (auto simp: registerConfigured_def registerClient_def update_conv)

lemma fold_keeps:
  "n \<notin> set (map pcName ps) \<Longrightarrow> map_of (prClients (fold registerConfigured ps r)) n = map_of (prClients r) n"
  by (induction ps arbitrary: r) (simp_all add: register_lookup)

lemma fold_last:
  "n \<noteq> [] \<Longrightarrow> pcName p = n \<Longrightarrow> n \<notin> set (map pcName ys) \<Longrightarrow>
    map_of (prClients (fold registerConfigured (xs @ p # ys) r)) n = Some (newProvider n (pcBaseUrl p) (pcApiKey p))"
  by (simp add: fold_keeps register_lookup)

lemma fold_registered:
  assumes "n \<noteq> []" and "n \<in> set (map pcName ps)"
  shows "\<exists>b k. map_of (prClients (fold registerConfigured ps r)) n = Some (newProvider n b k)"
proof -
  obtain p where p: "p \<in> set ps" "pcName p = n" using assms(2) by auto
  then obtain xs q ys where s: "ps = xs @ q # ys" "pcName q = n" "\<forall>y\<in>set ys. pcName y \<noteq> n"
    using split_list_last_prop [of ps "\<lambda>q. pcName q = n"] by blast
  have "n \<notin> set (map pcName ys)" using s(3) by auto
  from fold_last [OF assms(1) s(2) this, of xs r] show ?thesis unfolding s(1) by blast
qed

lemma fold_names: "fst ` set (prClients (fold registerConfigured ps r)) \<subseteq> set (map pcName ps) \<union> fst ` set (prClients r)"
proof (induction ps arbitrary: r)
  case (Cons p ps)
  have "fst ` set (prClients (registerConfigured p r)) \<subseteq> insert (pcName p) (fst ` set (prClients r))"
    by (auto simp: registerConfigured_def registerClient_def dom_update)
  then show ?case using Cons [of "registerConfigured p r"] by simp blast
qed simp

lemma fold_fields:
  "prDefaultProvider (fold registerConfigured ps r) = prDefaultProvider r"
  "prDefaultModel (fold registerConfigured ps r) = prDefaultModel r"
  "prCache (fold registerConfigured ps r) = prCache r"
  by (induction ps arbitrary: r) (simp_all add: registerConfigured_def registerClient_def)

abbreviation given_configuration :: "models_configuration option \<Rightarrow> models_configuration" where
  "given_configuration mc \<equiv> (case mc of None \<Rightarrow> \<lparr>mcProviders = None, mcDefault = [], mcEmbedding = [], mcSummarizer = []\<rparr> | Some c \<Rightarrow> c)"

lemma new_clients:
  "\<exists>r0. prClients r0 = [] \<and> prClients (fst (newProviderRegistry env mc))
     = prClients (fold registerConfigured (configuredProviders env (given_configuration mc)) r0)"
  by (rule exI [of _ "unfilledRegistry (effectiveConfiguration env (given_configuration mc))"])
    (simp add: newProviderRegistry_def Let_def unfilledRegistry_def [of "effectiveConfiguration env (given_configuration mc)", THEN arg_cong, of prClients])

lemma new_default:
  "prDefaultModel (fst (newProviderRegistry env mc)) =
    (if mcDefault (given_configuration mc) = []
     then defaultProviderModelName (configuredProviders env (given_configuration mc)) else mcDefault (given_configuration mc))"
  by (simp add: newProviderRegistry_def effectiveConfiguration_def Let_def fold_fields unfilledRegistry_def)

lemma keepUnseen_unseen: "n \<in> seen \<Longrightarrow> n \<noteq> [] \<Longrightarrow> n \<notin> set (map pcName (keepUnseen seen ps))"
  by (induction seen ps rule: keepUnseen.induct) auto

lemma environment_registered:
  assumes "(n, v, u) \<in> set environmentProviderDefaults" and "env v \<noteq> []"
  shows "clientByName (fst (newProviderRegistry env mc)) n = Some (newProvider n u (env v))"
proof -
  let ?p = "\<lparr>pcName = n, pcBaseUrl = u, pcApiKey = env v\<rparr>"
  let ?es = "defaultProvidersFromEnvironment env"
  have p: "?p \<in> set ?es" using assms by (auto simp: defaultProvidersFromEnvironment_def intro!: rev_image_eqI)
  then obtain xs ys where s: "?es = xs @ ?p # ys" by (meson split_list)
  have "distinct (map fst environmentProviderDefaults)" by (simp add: environmentProviderDefaults_def)
  then have "distinct (map fst (filter (\<lambda>(n, v, u). env v \<noteq> []) environmentProviderDefaults))" by (rule distinct_map_filter)
  then have "distinct (map pcName ?es)" by (simp add: defaultProvidersFromEnvironment_def comp_def case_prod_beta)
  then have ys: "n \<notin> set (map pcName ys)" unfolding s by simp
  have n: "n \<noteq> []" using assms(1) by (auto simp: environmentProviderDefaults_def)
  have "n \<in> set (map pcName ?es)" using p by force
  define cs where "cs = (case mcProviders (given_configuration mc) of None \<Rightarrow> [] | Some ps \<Rightarrow> ps)"
  have rest: "n \<notin> set (map pcName (keepUnseen (set (map pcName ?es)) cs))"
    using keepUnseen_unseen [OF \<open>n \<in> set (map pcName ?es)\<close> n] .
  have "configuredProviders env (given_configuration mc) = xs @ ?p # ys @ keepUnseen (set (map pcName ?es)) cs"
    unfolding configuredProviders_def mergeProviderConfigurations_def Let_def cs_def [symmetric] by (simp add: s)
  moreover obtain r0 where "prClients (fst (newProviderRegistry env mc))
      = prClients (fold registerConfigured (configuredProviders env (given_configuration mc)) r0)" using new_clients by blast
  ultimately show ?thesis
    using fold_last [OF n, of ?p "ys @ keepUnseen (set (map pcName ?es)) cs" xs r0] ys rest
    by (simp only: clientByName_def set_append map_append Un_iff simp_thms) simp
qed

text \<open>A key in the environment is honoured: whatever the configuration says, the provider of a set variable is
  registered with that key and its own address.\<close>

theorem environment_keys_win:
  assumes "(n, v, u) \<in> set environmentProviderDefaults" and "env v \<noteq> []"
  shows "clientByName (fst (newProviderRegistry env mc)) n = Some (newProvider n u (env v))"
  using assms by (rule environment_registered)

lemma parse_format: "CHR '':'' \<notin> set p \<Longrightarrow> parseProviderModelName (formatProviderModelName p m) d = (p, m)"
  by (simp add: parseProviderModelName_def formatProviderModelName_def index_byte_append)

text \<open>The name a reply is reported under leads back to its provider and model, also when the model name itself
  contains colons.\<close>

theorem formatted_name_resolves:
  assumes "clientByName r p = Some c" and "CHR '':'' \<notin> set p"
  shows "resolveProviderAndModel r (formatProviderModelName p m) = Inr (c, p, m)"
  using assms parse_format [OF assms(2), of m "prDefaultProvider r"]
  by (simp add: resolveProviderAndModel_def clientByName_def Let_def formatProviderModelName_def)

abbreviation chat_providers :: "string list" where
  "chat_providers \<equiv> [''openai'', ''anthropic'', ''gemini'', ''openrouter'', ''xai'']"

lemma default_names:
  assumes "set (map pcName ps) \<inter> set chat_providers \<noteq> {}"
  shows "\<exists>n m. n \<in> set chat_providers \<and> n \<in> set (map pcName ps) \<and> defaultProviderModelName ps = formatProviderModelName n m"
proof -
  have "\<exists>m. defaultProviderModelName ps = formatProviderModelName n m"
    if "n = hd (filter (\<lambda>n. n \<in> set (map pcName ps)) chat_providers)" for n
    using that assms unfolding defaultProviderModelName_def formatProviderModelName_def Let_def
    by (simp del: set_map split: if_splits)
  moreover have "filter (\<lambda>n. n \<in> set (map pcName ps)) chat_providers \<noteq> []" using assms by (auto simp: filter_empty_conv)
  then have "hd (filter (\<lambda>n. n \<in> set (map pcName ps)) chat_providers) \<in> set (filter (\<lambda>n. n \<in> set (map pcName ps)) chat_providers)"
    by (rule hd_in_set)
  ultimately show ?thesis unfolding set_filter by blast
qed

text \<open>Without a configured default a run finds a model as soon as one provider of language models is known by
  name: the default that is chosen resolves to a registered client that can chat.\<close>

theorem default_model_resolves:
  assumes "mcDefault (given_configuration mc) = []"
    and "set (map pcName (configuredProviders env (given_configuration mc))) \<inter> set chat_providers \<noteq> {}"
  shows "\<exists>c p m. resolveProviderAndModel (fst (newProviderRegistry env mc)) [] = Inr (c, p, m) \<and> chats c"
proof -
  let ?r = "fst (newProviderRegistry env mc)" and ?ps = "configuredProviders env (given_configuration mc)"
  obtain n m where n: "n \<in> set chat_providers" "n \<in> set (map pcName ?ps)"
    and d: "defaultProviderModelName ?ps = formatProviderModelName n m"
    using default_names [OF assms(2)] by blast
  have ok: "n \<noteq> []" "CHR '':'' \<notin> set n" "n \<noteq> ''deepgram''" "n \<noteq> ''elevenlabs''" using n(1) by auto
  obtain r0 where r0: "prClients ?r = prClients (fold registerConfigured ?ps r0)" using new_clients by blast
  obtain b k where "map_of (prClients ?r) n = Some (newProvider n b k)"
    using fold_registered [OF ok(1) n(2)] unfolding r0 by blast
  moreover have "prDefaultModel ?r = formatProviderModelName n m" using new_default [of env mc] assms(1) d by simp
  ultimately show ?thesis
    using parse_format [OF ok(2), of m "prDefaultProvider ?r"] ok(3,4)
    by (simp add: resolveProviderAndModel_def Let_def formatProviderModelName_def chats_newProvider)
qed

lemma fold_made:
  "map_of (prClients (fold registerConfigured ps r)) n = Some c \<Longrightarrow> (map_of (prClients r) n = Some c \<Longrightarrow> \<exists>b k. c = newProvider n b k)
    \<Longrightarrow> \<exists>b k. c = newProvider n b k"
proof (induction ps arbitrary: r)
  case (Cons p ps)
  show ?case
  proof (rule Cons.IH [of "registerConfigured p r"])
    show "map_of (prClients (fold registerConfigured ps (registerConfigured p r))) n = Some c" using Cons.prems(1) by simp
    show "\<exists>b k. c = newProvider n b k" if "map_of (prClients (registerConfigured p r)) n = Some c"
      using that Cons.prems(2) by (auto simp: register_lookup split: if_splits)
  qed
qed simp

lemma findFirst_least:
  assumes "sorted ns" and "n \<in> set ns" and "map_of (prClients r) n = Some c" and "able c"
    and "\<And>m d. m \<in> set ns \<Longrightarrow> m < n \<Longrightarrow> map_of (prClients r) m = Some d \<Longrightarrow> \<not> able d"
  shows "findFirst able r ns = Some (c, n)"
  using assms
proof (induction ns)
  case (Cons x ns)
  show ?case
  proof (cases "x = n")
    case True
    then show ?thesis using Cons.prems(3,4) by simp
  next
    case False
    then have "n \<in> set ns" using Cons.prems(2) by simp
    then have lt: "x < n" using Cons.prems(1) False by (auto simp: less_le)
    have "findFirst able r ns = Some (c, n)"
    proof (rule Cons.IH)
      show "\<not> able d" if "m \<in> set ns" "m < n" "map_of (prClients r) m = Some d" for m d
        using Cons.prems(5) [OF _ that(2,3)] that(1) by simp
    qed (use Cons.prems(1,3,4) \<open>n \<in> set ns\<close> in simp_all)
    then show ?thesis using Cons.prems(5) [of x] lt by (auto split: option.splits)
  qed
qed simp

text \<open>Without a configuration the registered names are those of the set variables.\<close>

abbreviation environment_registry :: "(string \<Rightarrow> string) \<Rightarrow> provider_registry" where
  "environment_registry env \<equiv> fst (newProviderRegistry env None)"

lemma environment_names:
  assumes "(n, v, u) \<in> set environmentProviderDefaults" and "env v \<noteq> []"
    and "m \<in> set (providerNames (environment_registry env))"
  shows "\<exists>w u'. (m, w, u') \<in> set environmentProviderDefaults \<and> env w \<noteq> []"
proof -
  have "defaultProvidersFromEnvironment env \<noteq> []"
    using assms(1,2) by (auto simp: defaultProvidersFromEnvironment_def filter_empty_conv)
  then have c: "configuredProviders env (given_configuration None) = defaultProvidersFromEnvironment env"
    by (simp add: configuredProviders_def mergeProviderConfigurations_def Let_def)
  obtain r0 where r0: "prClients r0 = []" "prClients (environment_registry env)
      = prClients (fold registerConfigured (defaultProvidersFromEnvironment env) r0)"
    using new_clients [of env None] unfolding c by blast
  have "m \<in> set (map pcName (defaultProvidersFromEnvironment env))"
    using assms(3) fold_names [of "defaultProvidersFromEnvironment env" r0] r0
    by (auto simp: providerNames_def)
  then show ?thesis by (auto simp: defaultProvidersFromEnvironment_def) blast
qed

lemma environment_made: "map_of (prClients (environment_registry env)) m = Some d \<Longrightarrow> \<exists>b k. d = newProvider m b k"
proof -
  assume d: "map_of (prClients (environment_registry env)) m = Some d"
  obtain r0 where r0: "prClients r0 = []" "prClients (environment_registry env)
      = prClients (fold registerConfigured (configuredProviders env (given_configuration None)) r0)"
    using new_clients [of env None] by blast
  show ?thesis using fold_made [of _ r0 m d] d r0 by (metis map_of.simps(1) option.distinct(1))
qed

lemma synthesizes_newProvider: "synthesizes (newProvider n b k) \<longleftrightarrow> n \<noteq> ''anthropic'' \<and> n \<noteq> ''deepgram''"
  by (simp add: newProvider_def)

text \<open>The environment's client is the one found when no set variable of an earlier name synthesizes.\<close>

lemma environment_synthesizer:
  assumes "(n, v, u) \<in> set environmentProviderDefaults" and "env v \<noteq> []" and "n \<noteq> ''anthropic''" and "n \<noteq> ''deepgram''"
    and "\<And>m w u'. (m, w, u') \<in> set environmentProviderDefaults \<Longrightarrow> env w \<noteq> [] \<Longrightarrow> m < n \<Longrightarrow> m \<in> {''anthropic'', ''deepgram''}"
    and "clientByName (environment_registry env) n = Some c"
  shows "findSynthesizer (environment_registry env) = Some (c, n)"
  unfolding findSynthesizer_def
proof (rule findFirst_least)
  show c: "map_of (prClients (environment_registry env)) n = Some c" using assms(6) by (simp add: clientByName_def)
  show "sorted (providerNames (environment_registry env))" by (simp add: providerNames_def)
  show "n \<in> set (providerNames (environment_registry env))" using c by (force simp: providerNames_def dest: map_of_SomeD)
  show "synthesizes c" using environment_made [OF c] assms(3,4) synthesizes_newProvider by blast
  show "\<not> synthesizes d" if "m \<in> set (providerNames (environment_registry env))" "m < n"
    "map_of (prClients (environment_registry env)) m = Some d" for m d
    using environment_names [OF assms(1,2) that(1)] assms(5) that(2) environment_made [OF that(3)] synthesizes_newProvider
    by fastforce
qed

lemma name_order:
  "\<not> ''openai'' < ''elevenlabs''" "\<not> ''openrouter'' < ''elevenlabs''" "\<not> ''xai'' < ''elevenlabs''" "\<not> ''gemini'' < ''elevenlabs''"
  "\<not> ''openrouter'' < ''openai''" "\<not> ''xai'' < ''openai''"
  by code_simp+

lemma environment_entry:
  "(m, w, u) \<in> set environmentProviderDefaults \<Longrightarrow>
    (m, w) \<in> {(''openai'', ''OPENAI_API_KEY''), (''anthropic'', ''ANTHROPIC_API_KEY''), (''openrouter'', ''OPENROUTER_API_KEY''),
      (''xai'', ''XAI_API_KEY''), (''gemini'', ''GEMINI_API_KEY''), (''deepgram'', ''DEEPGRAM_API_KEY''), (''elevenlabs'', ''ELEVENLABS_API_KEY'')}"
proof -
  assume "(m, w, u) \<in> set environmentProviderDefaults"
  then have "(\<lambda>(m, w, u). (m, w)) (m, w, u) \<in> (\<lambda>(m, w, u). (m, w)) ` set environmentProviderDefaults" by (rule imageI)
  then show ?thesis unfolding environmentProviderDefaults_def by (simp only: list.set image_insert image_empty prod.case)
qed

lemma before_elevenlabs:
  assumes "(m, w, u) \<in> set environmentProviderDefaults" and "m < ''elevenlabs''"
  shows "m \<in> {''anthropic'', ''deepgram''}"
  using environment_entry [OF assms(1)] assms(2) name_order less_irrefl [of "''elevenlabs''"]
  unfolding insert_iff empty_iff prod.inject by metis

lemma before_openai:
  assumes "(m, w, u) \<in> set environmentProviderDefaults" and "m < ''openai''"
  shows "m \<in> {''anthropic'', ''deepgram''} \<or> w = ''GEMINI_API_KEY'' \<or> w = ''ELEVENLABS_API_KEY''"
  using environment_entry [OF assms(1)] assms(2) name_order less_irrefl [of "''openai''"]
  unfolding insert_iff empty_iff prod.inject by metis

text \<open>Setting the key of ElevenLabs turns speech over HTTP off: the lookup finds ElevenLabs first, in alphabetical
  order, and its batch synthesis is an error, where the same environment without that key serves
  the audio of OpenAI.\<close>

theorem elevenlabs_key_breaks_speech:
  assumes "env ''ELEVENLABS_API_KEY'' \<noteq> []" and "env ''OPENAI_API_KEY'' \<noteq> []" and "env ''GEMINI_API_KEY'' = []"
    and "batch (OpenAiClient ''https://api.openai.com/v1'' (env ''OPENAI_API_KEY'')) = Some audio"
  shows "speechResponse batch (environment_registry env) = HttpError 500
    \<and> speechResponse batch (environment_registry (env(''ELEVENLABS_API_KEY'' := []))) = HttpAudio audio"
proof -
  let ?env = "env(''ELEVENLABS_API_KEY'' := [])"
  have e: "(''elevenlabs'', ''ELEVENLABS_API_KEY'', ''https://api.elevenlabs.io'') \<in> set environmentProviderDefaults"
    and o: "(''openai'', ''OPENAI_API_KEY'', ''https://api.openai.com/v1'') \<in> set environmentProviderDefaults"
    by (simp_all add: environmentProviderDefaults_def)
  have "\<exists>b k. findSynthesizer (environment_registry env) = Some (ElevenLabsClient b k, ''elevenlabs'')"
  proof -
    have "clientByName (environment_registry env) ''elevenlabs''
        = Some (newProvider ''elevenlabs'' ''https://api.elevenlabs.io'' (env ''ELEVENLABS_API_KEY''))"
      using e assms(1) by (rule environment_registered)
    then have "findSynthesizer (environment_registry env)
        = Some (newProvider ''elevenlabs'' ''https://api.elevenlabs.io'' (env ''ELEVENLABS_API_KEY''), ''elevenlabs'')"
      by (rule environment_synthesizer [where env = env, OF e assms(1), rotated 3]) (use before_elevenlabs in \<open>simp_all\<close>)
    then show ?thesis by (simp add: newProvider_def)
  qed
  moreover have "findSynthesizer (environment_registry ?env)
      = Some (OpenAiClient ''https://api.openai.com/v1'' (env ''OPENAI_API_KEY''), ''openai'')"
  proof -
    have k: "?env ''OPENAI_API_KEY'' \<noteq> []" using assms(2) by simp
    have "clientByName (environment_registry ?env) ''openai''
        = Some (newProvider ''openai'' ''https://api.openai.com/v1'' (?env ''OPENAI_API_KEY''))"
      using o k by (rule environment_registered)
    then have "findSynthesizer (environment_registry ?env)
        = Some (newProvider ''openai'' ''https://api.openai.com/v1'' (?env ''OPENAI_API_KEY''), ''openai'')"
      by (rule environment_synthesizer [where env = ?env, OF o k, rotated 3])
        (use assms(3) before_openai in \<open>fastforce simp: fun_upd_def split: if_splits\<close>)+
    then show ?thesis by (simp add: newProvider_def trimSlashes_def)
  qed
  ultimately show ?thesis using assms(4) by (auto simp: speechResponse_def synthesize_def)
qed

text \<open>A list of models is fetched at most once in five minutes: until it expires every call returns it whatever the
  service answers meanwhile, and afterwards a refresh that fails still returns it.\<close>

theorem model_lists_are_cached:
  assumes "clientByName r n = Some c" and "chats c" and "fetch n = Some ms"
    and "\<forall>old. prCache r n = Some old \<longrightarrow> snd old \<le> now"
  shows "\<exists>r'. cachedModelsForProvider fetch n now r = (ms, r')
    \<and> (\<forall>later answer. later < now + modelsCacheTtl \<longrightarrow> cachedModelsForProvider answer n later r' = (ms, r'))
    \<and> (\<forall>later answer. answer n = None \<longrightarrow> cachedModelsForProvider answer n later r' = (ms, r'))"
proof (intro exI conjI)
  let ?r = "r\<lparr>prCache := (prCache r)(n \<mapsto> (ms, now + modelsCacheTtl))\<rparr>"
  show "cachedModelsForProvider fetch n now r = (ms, ?r)"
    using assms by (auto simp: cachedModelsForProvider_def refreshModels_def clientByName_def split: option.splits)
  show "\<forall>later answer. later < now + modelsCacheTtl \<longrightarrow> cachedModelsForProvider answer n later ?r = (ms, ?r)"
    by (simp add: cachedModelsForProvider_def)
  show "\<forall>later answer. answer n = None \<longrightarrow> cachedModelsForProvider answer n later ?r = (ms, ?r)"
    using assms(1,2) by (simp add: cachedModelsForProvider_def refreshModels_def clientByName_def)
qed

subsection \<open>Samples\<close>

definition sampleEnvironment :: "string \<Rightarrow> string" where
  "sampleEnvironment v = (if v = ''OPENAI_API_KEY'' \<or> v = ''ELEVENLABS_API_KEY'' then ''k'' else [])"

lemma environment_keys_win_witness:
  "clientByName (environment_registry sampleEnvironment) ''openai'' = Some (newProvider ''openai'' ''https://api.openai.com/v1'' ''k'')"
  using environment_keys_win [of "''openai''" "''OPENAI_API_KEY''" "''https://api.openai.com/v1''" sampleEnvironment None]
  by (simp add: environmentProviderDefaults_def sampleEnvironment_def)

definition sampleRegistry :: provider_registry where
  "sampleRegistry = registerClient ''xai'' (newProvider ''xai'' ''https://api.x.ai/v1'' ''k'') newEmptyProviderRegistry"

lemma formatted_name_resolves_witness:
  "resolveProviderAndModel sampleRegistry (formatProviderModelName ''xai'' ''grok:4'')
    = Inr (newProvider ''xai'' ''https://api.x.ai/v1'' ''k'', ''xai'', ''grok:4'')"
  by (rule formatted_name_resolves) (simp_all add: sampleRegistry_def registerClient_def newEmptyProviderRegistry_def clientByName_def)

lemma default_model_resolves_witness:
  "\<exists>c p m. resolveProviderAndModel (environment_registry sampleEnvironment) [] = Inr (c, p, m) \<and> chats c"
  by (rule default_model_resolves)
    (simp_all add: configuredProviders_def defaultProvidersFromEnvironment_def environmentProviderDefaults_def
      mergeProviderConfigurations_def sampleEnvironment_def Let_def)

lemma elevenlabs_key_breaks_speech_witness:
  "speechResponse (\<lambda>c. Some ''audio'') (environment_registry sampleEnvironment) = HttpError 500"
  using elevenlabs_key_breaks_speech [of sampleEnvironment "\<lambda>c. Some ''audio''" "''audio''"]
  by (simp add: sampleEnvironment_def)

lemma model_lists_are_cached_witness:
  "\<exists>r'. cachedModelsForProvider (\<lambda>n. Some [modelNamed ''grok-4'']) ''xai'' 0 sampleRegistry = ([modelNamed ''grok-4''], r')
    \<and> cachedModelsForProvider (\<lambda>n. None) ''xai'' 7 r' = ([modelNamed ''grok-4''], r')"
proof -
  have "clientByName sampleRegistry ''xai'' = Some (newProvider ''xai'' ''https://api.x.ai/v1'' ''k'')"
    "\<forall>old. prCache sampleRegistry ''xai'' = Some old \<longrightarrow> snd old \<le> 0"
    by (simp_all add: sampleRegistry_def registerClient_def newEmptyProviderRegistry_def clientByName_def)
  from model_lists_are_cached [OF this(1) _ _ this(2), of "\<lambda>n. Some [modelNamed ''grok-4'']" "[modelNamed ''grok-4'']"]
  obtain r' where r: "cachedModelsForProvider (\<lambda>n. Some [modelNamed ''grok-4'']) ''xai'' 0 sampleRegistry = ([modelNamed ''grok-4''], r')"
    "\<And>later answer. answer ''xai'' = None \<Longrightarrow> cachedModelsForProvider answer ''xai'' later r' = ([modelNamed ''grok-4''], r')"
    by (auto simp: chats_newProvider)
  from r(1) r(2) [of "\<lambda>n. None" 7] show ?thesis by auto
qed

end
