(* ===== verification/Summarizer.thy ===== *)
theory Summarizer
  imports ProviderRegistry Transcript
begin

text \<open>
  The background summarizer (\<open>summarizers/summarizer.go\<close>): one pass over all conversations, users, agents and
  projects, the requests it sends and what it stores, on either store. The clock, the model's
  answers, failing transactions, cancellation and what others do to the world while a request is
  under way are functions that are asked with the number of the read, request, transaction or check.
  Times are nanoseconds.
\<close>

subsection \<open>The world\<close>

datatype store_kind = FileStore | DatabaseStore

datatype file_scope = AgentScope | UserScope | ProjectScope

record conv_record =
  convId :: string
  convUser :: string
  convAgent :: string
  convTitle :: string
  convSummary :: string
  convSummarized :: "int option"
  convCreated :: "int option"
  convModified :: "int option"
  convRows :: "row list"

record described =
  drId :: string
  drName :: string
  drDescription :: string
  drSummarized :: "int option"
  drModified :: "int option"

record summarizer_world =
  swConversations :: "conv_record list"
  swAgents :: "described list"
  swUsers :: "described list"
  swProjects :: "described list"
  swFile :: "file_scope \<Rightarrow> string \<Rightarrow> string \<Rightarrow> (string option \<times> int option) option"
  swModel :: string

record summarizer_env =
  seStore :: store_kind
  seClock :: "nat \<Rightarrow> int"
  seComplete :: "nat \<Rightarrow> client \<Rightarrow> chat_request \<Rightarrow> string option"
  seMeanwhile :: "nat \<Rightarrow> summarizer_world \<Rightarrow> summarizer_world"
  seFails :: "nat \<Rightarrow> bool"
  seStopped :: "nat \<Rightarrow> bool"
  seActive :: "string \<Rightarrow> bool"
  seRegistry :: provider_registry
  seDecode :: "string \<Rightarrow> (string \<times> string) option"
  seFormat :: "int \<Rightarrow> string"

record summarizer_state =
  ssWorld :: summarizer_world
  ssReads :: nat
  ssTransactions :: nat
  ssChecks :: nat
  ssSent :: "chat_request list"
  ssBroadcasts :: nat

definition readClock :: "summarizer_env \<Rightarrow> summarizer_state \<Rightarrow> int \<times> summarizer_state" where
  "readClock e s = (seClock e (ssReads s), s\<lparr>ssReads := Suc (ssReads s)\<rparr>)"

definition transact :: "summarizer_env \<Rightarrow> summarizer_state \<Rightarrow> bool \<times> summarizer_state" where
  "transact e s = (\<not> seFails e (ssTransactions s), s\<lparr>ssTransactions := Suc (ssTransactions s)\<rparr>)"

definition contextDone :: "summarizer_env \<Rightarrow> summarizer_state \<Rightarrow> bool \<times> summarizer_state" where
  "contextDone e s = (seStopped e (ssChecks s), s\<lparr>ssChecks := Suc (ssChecks s)\<rparr>)"

text \<open>
  The loops of a pass: the context is checked before every round, and a round may itself return.
  The flag says whether the function around the loop has returned.
\<close>

fun eachUnlessDone ::
    "summarizer_env \<Rightarrow> ('x \<Rightarrow> summarizer_state \<Rightarrow> bool \<times> summarizer_state) \<Rightarrow> 'x list \<Rightarrow> summarizer_state \<Rightarrow> bool \<times> summarizer_state" where
  "eachUnlessDone e f [] s = (False, s)"
| "eachUnlessDone e f (x # xs) s =
     (let (stop, s1) = contextDone e s in
      if stop then (True, s1)
      else (let (ret, s2) = f x s1 in if ret then (True, s2) else eachUnlessDone e f xs s2))"

subsection \<open>Texts\<close>

definition quoted :: "string \<Rightarrow> string" where
  "quoted t = CHR 0x22 # t @ [CHR 0x22]"

abbreviation newline :: string where
  "newline \<equiv> [CHR 0x0A]"

definition titleAndSummaryPrompt :: string where
  "titleAndSummaryPrompt =
     ''Analyze the following conversation. Output a JSON object with two fields:'' @ newline @
     ''- '' @ quoted ''title'' @ '': a short title (max 8 words)'' @ newline @
     ''- '' @ quoted ''summary'' @ '': a 2-4 sentence summary of the main topic, key decisions, and outcomes'' @ newline @ newline @
     ''Output only valid JSON, nothing else.''"

definition agentIdentitySuffix :: "string \<Rightarrow> string \<Rightarrow> string" where
  "agentIdentitySuffix i n =
     (if n \<noteq> [] then ''You are '' @ CHR 0x27 # n @ CHR 0x27 # '' (agent: '' @ i @ '').''
      else ''You are the '' @ CHR 0x27 # i @ CHR 0x27 # '' agent.'')"

definition resolveIdentityLine :: "string \<Rightarrow> string \<Rightarrow> string" where
  "resolveIdentityLine i n =
     ''You are a personal/family AI assistant running inside TeaNode.'' @ '' '' @ agentIdentitySuffix i n"

definition summarizeToolNames :: "string list \<Rightarrow> int \<Rightarrow> string" where
  "summarizeToolNames ns maxTools =
     (if ns = [] then ''none''
      else if maxTools \<le> 0 \<or> int (length ns) \<le> maxTools then join '', '' ns
      else join '', '' (take (nat maxTools) ns) @ '', ...'')"

definition emptyFallback :: "string \<Rightarrow> string" where
  "emptyFallback t = (if t = [] then ''(empty)'' else t)"

definition excerptLine :: "int \<Rightarrow> row \<Rightarrow> string" where
  "excerptLine maxMessage r =
     (let role = (if rowRole r = ''tool'' \<and> rowToolName r \<noteq> [] then ''tool('' @ rowToolName r @ '')'' else rowRole r);
          text = rowContent r;
          text' = (if maxMessage > 0 \<and> int (length text) > maxMessage then take (nat maxMessage) text @ ''...'' else text) in
      ''['' @ role @ '']: '' @ text' @ newline)"

text \<open>The loop from the last message to the first, with the characters used so far.\<close>

fun excerptLines :: "int \<Rightarrow> int \<Rightarrow> row list \<Rightarrow> int \<Rightarrow> string list" where
  "excerptLines maxTotal maxMessage [] used = []"
| "excerptLines maxTotal maxMessage (r # rs) used =
     (let l = excerptLine maxMessage r in
      if maxTotal > 0 \<and> used + int (length l) > maxTotal
      then (if maxTotal - used > 0 then [take (nat (maxTotal - used)) l] else [])
      else l # excerptLines maxTotal maxMessage rs (used + int (length l)))"

definition messagesText :: "row list \<Rightarrow> int \<Rightarrow> int \<Rightarrow> string" where
  "messagesText rs maxTotal maxMessage = concat (rev (excerptLines maxTotal maxMessage (rev rs) 0))"

text \<open>\<open>findLastSummaryIndex\<close> and the cut behind it: the text of the last summary and the messages after it.\<close>

fun splitAtLastSummary :: "row list \<Rightarrow> string \<times> row list" where
  "splitAtLastSummary [] = ([], [])"
| "splitAtLastSummary (r # rs) =
     (if list_ex isSummary rs then splitAtLastSummary rs
      else if isSummary r then (rowContent r, rs)
      else ([], r # rs))"

subsection \<open>Files and requests\<close>

definition zeroTime :: int where
  "zeroTime = - 62135596800 * 1000000000"

definition unixMilli :: "int \<Rightarrow> int" where
  "unixMilli t = t div 1000000"

definition loadWorkspaceFileFromStore ::
    "summarizer_env \<Rightarrow> file_scope \<Rightarrow> string \<Rightarrow> string \<Rightarrow> nat \<Rightarrow> summarizer_state \<Rightarrow> string \<times> summarizer_state" where
  "loadWorkspaceFileFromStore e sc i path maxCharacters s =
     (let (ok, s1) = transact e s;
          text = (if \<not> ok then []
            else (case swFile (ssWorld s1) sc i path of Some (Some t, m) \<Rightarrow> t | _ \<Rightarrow> [])) in
      (if length text > maxCharacters then take maxCharacters text @ newline @ ''... (truncated)'' else text, s1))"

definition workspaceFileModifiedAt ::
    "summarizer_env \<Rightarrow> file_scope \<Rightarrow> string \<Rightarrow> string \<Rightarrow> summarizer_state \<Rightarrow> int \<times> summarizer_state" where
  "workspaceFileModifiedAt e sc i path s =
     (let (ok, s1) = transact e s in
      (if \<not> ok then zeroTime
       else (case swFile (ssWorld s1) sc i path of Some (c, Some m) \<Rightarrow> m | _ \<Rightarrow> zeroTime), s1))"

definition resolveSynthesisProvider :: "summarizer_env \<Rightarrow> summarizer_state \<Rightarrow> (client \<times> string) option \<times> summarizer_state" where
  "resolveSynthesisProvider e s =
     (let (ok, s1) = transact e s in
      (if \<not> ok then None
       else (case resolveProviderAndModel (seRegistry e) (swModel (ssWorld s1)) of
           Inl err \<Rightarrow> None
         | Inr (c, p, m) \<Rightarrow> if chats c then Some (c, m) else None), s1))"

definition synthesisMessage :: "string \<Rightarrow> string \<Rightarrow> chat_message" where
  "synthesisMessage r t = \<lparr>role = r, content = Text t, toolCalls = [], toolCallId = [], toolName = [], sourceMessageId = []\<rparr>"

definition synthesisRequest :: "string \<Rightarrow> string \<Rightarrow> string \<Rightarrow> int \<Rightarrow> chat_request" where
  "synthesisRequest model system user maxTokens =
     \<lparr>crModel = model, crMessages = [synthesisMessage ''system'' system, synthesisMessage ''user'' user],
      crMaxTokens = (if maxTokens > 0 then maxTokens else 0), crMaxCompletionTokens = 0, crTemperature = None, crTools = []\<rparr>"

definition runSynthesisRequest ::
    "summarizer_env \<Rightarrow> client \<Rightarrow> string \<Rightarrow> string \<Rightarrow> string \<Rightarrow> int \<Rightarrow> summarizer_state \<Rightarrow> string option \<times> summarizer_state" where
  "runSynthesisRequest e c model system user maxTokens s =
     (let k = length (ssSent s); q = synthesisRequest model system user maxTokens in
      (case seComplete e k c q of None \<Rightarrow> None | Some t \<Rightarrow> if t = [] then None else Some t,
       s\<lparr>ssSent := ssSent s @ [q], ssWorld := seMeanwhile e k (ssWorld s)\<rparr>))"

subsection \<open>Saving\<close>

text \<open>
  What a successful modification leaves. The file store keeps milliseconds, the database microseconds. On the file store the time a conversation was
  changed is that of its file, which the update of the header puts back; its projects have no such
  time. The database store sets the time of the change to a second reading of the clock.
\<close>

definition storedTime :: "store_kind \<Rightarrow> int \<Rightarrow> int" where
  "storedTime k t = (case k of FileStore \<Rightarrow> unixMilli t * 1000000 | DatabaseStore \<Rightarrow> t div 1000 * 1000)"

definition savedConversation :: "store_kind \<Rightarrow> int \<Rightarrow> int \<Rightarrow> string \<Rightarrow> string \<Rightarrow> conv_record \<Rightarrow> conv_record" where
  "savedConversation k t1 t2 title gist c =
     c\<lparr>convTitle := trim_space title, convSummary := trim_space gist, convSummarized := Some (storedTime k t1),
       convModified := (case k of FileStore \<Rightarrow> convModified c | DatabaseStore \<Rightarrow> Some (storedTime k t2))\<rparr>"

definition savedDescription :: "store_kind \<Rightarrow> int \<Rightarrow> int \<Rightarrow> string \<Rightarrow> described \<Rightarrow> described" where
  "savedDescription k t1 t2 t d =
     d\<lparr>drDescription := trim_space t, drSummarized := Some (storedTime k t1),
       drModified := (case k of FileStore \<Rightarrow> drModified d | DatabaseStore \<Rightarrow> Some (storedTime k t2))\<rparr>"

definition modifyConversation :: "summarizer_env \<Rightarrow> string \<Rightarrow> string \<Rightarrow> string \<Rightarrow> summarizer_state \<Rightarrow> bool \<times> summarizer_state" where
  "modifyConversation e i title gist s =
     (let (ok, s1) = transact e s in
      if \<not> ok \<or> i \<notin> set (map convId (swConversations (ssWorld s1))) then (False, s1)
      else (let (t1, s2) = readClock e s1; (t2, s3) = readClock e s2; w = ssWorld s3 in
        (True, s3\<lparr>ssWorld := w\<lparr>swConversations := map (\<lambda>c. if convId c = i
           then savedConversation (seStore e) t1 t2 title gist c else c) (swConversations w)\<rparr>\<rparr>)))"

fun entities :: "file_scope \<Rightarrow> summarizer_world \<Rightarrow> described list" where
  "entities AgentScope w = swAgents w"
| "entities UserScope w = swUsers w"
| "entities ProjectScope w = swProjects w"

fun setEntities :: "file_scope \<Rightarrow> described list \<Rightarrow> summarizer_world \<Rightarrow> summarizer_world" where
  "setEntities AgentScope ds w = w\<lparr>swAgents := ds\<rparr>"
| "setEntities UserScope ds w = w\<lparr>swUsers := ds\<rparr>"
| "setEntities ProjectScope ds w = w\<lparr>swProjects := ds\<rparr>"

definition getDescribed :: "summarizer_env \<Rightarrow> file_scope \<Rightarrow> string \<Rightarrow> summarizer_state \<Rightarrow> described option \<times> summarizer_state" where
  "getDescribed e sc i s =
     (let (ok, s1) = transact e s in
      (if ok then find (\<lambda>d. drId d = i) (entities sc (ssWorld s1)) else None, s1))"

definition modifyDescribed :: "summarizer_env \<Rightarrow> file_scope \<Rightarrow> string \<Rightarrow> string \<Rightarrow> summarizer_state \<Rightarrow> summarizer_state" where
  "modifyDescribed e sc i t s =
     (let (ok, s1) = transact e s in
      if \<not> ok \<or> i \<notin> set (map drId (entities sc (ssWorld s1))) then s1
      else (let (t1, s2) = readClock e s1; (t2, s3) = readClock e s2; w = ssWorld s3 in
        s3\<lparr>ssWorld := setEntities sc (map (\<lambda>d. if drId d = i then savedDescription (seStore e) t1 t2 t d else d)
          (entities sc w)) w\<rparr>))"

subsection \<open>Conversations\<close>

definition summarizeConversationTitleAndSummary :: "summarizer_env \<Rightarrow> string \<Rightarrow> row list \<Rightarrow> summarizer_state \<Rightarrow> summarizer_state" where
  "summarizeConversationTitleAndSummary e i rs s =
     (let (previous, messages) = splitAtLastSummary rs;
          recent = messagesText messages 8000 2000;
          words = (if previous \<noteq> [] then ''[Previous summary]: '' @ previous @ newline @ recent else recent) in
      case resolveSynthesisProvider e s of
        (None, s1) \<Rightarrow> s1
      | (Some (c, m), s1) \<Rightarrow>
          (case runSynthesisRequest e c m titleAndSummaryPrompt words 0 s1 of
             (None, s2) \<Rightarrow> s2
           | (Some answer, s2) \<Rightarrow>
               (case seDecode e answer of
                  None \<Rightarrow> s2
                | Some (title, gist) \<Rightarrow>
                    if title = [] \<and> gist = [] then s2
                    else (let (title', s3) = (if title = [] then (let (t, s3) = readClock e s2 in (seFormat e t, s3)) else (title, s2));
                              (ok, s4) = modifyConversation e i title' gist s3 in
                          if ok then s4\<lparr>ssBroadcasts := Suc (ssBroadcasts s4)\<rparr> else s4))))"

text \<open>The guards of the loop, up to \<open>continue\<close>.\<close>

definition lastActive :: "conv_record \<Rightarrow> int" where
  "lastActive c =
     (case convModified c of
        Some t \<Rightarrow> unixMilli t
      | None \<Rightarrow> (case convCreated c of Some t \<Rightarrow> unixMilli t | None \<Rightarrow> 0))"

definition summarizedAt :: "conv_record \<Rightarrow> int" where
  "summarizedAt c = (case convSummarized c of Some t \<Rightarrow> unixMilli t | None \<Rightarrow> 0)"

definition skipConversation :: "summarizer_env \<Rightarrow> int \<Rightarrow> conv_record \<Rightarrow> bool" where
  "skipConversation e threshold c \<longleftrightarrow>
     summarizedAt c \<ge> lastActive c
     \<or> convTitle c \<noteq> [] \<and> (seActive e (convId c) \<or> lastActive c > threshold)"

definition listConversationMessages :: "summarizer_env \<Rightarrow> string \<Rightarrow> summarizer_state \<Rightarrow> row list option \<times> summarizer_state" where
  "listConversationMessages e i s =
     (let (ok, s1) = transact e s in
      (if \<not> ok then None
       else Some (case find (\<lambda>c. convId c = i) (swConversations (ssWorld s1)) of None \<Rightarrow> [] | Some c \<Rightarrow> convRows c), s1))"

definition summarizeOne :: "summarizer_env \<Rightarrow> int \<Rightarrow> conv_record \<Rightarrow> summarizer_state \<Rightarrow> summarizer_state" where
  "summarizeOne e threshold c s =
     (if skipConversation e threshold c then s
      else (case listConversationMessages e (convId c) s of
          (None, s1) \<Rightarrow> s1
        | (Some rs, s1) \<Rightarrow> if length rs < 1 then s1 else summarizeConversationTitleAndSummary e (convId c) rs s1))"

definition summarizeAgentConversations :: "summarizer_env \<Rightarrow> string \<Rightarrow> string \<Rightarrow> summarizer_state \<Rightarrow> summarizer_state" where
  "summarizeAgentConversations e user agent s =
     (let (ok, s1) = transact e s in
      if \<not> ok then s1
      else (let cs = filter (\<lambda>c. convUser c = user \<and> convAgent c = agent) (swConversations (ssWorld s1));
                (t, s2) = readClock e s1 in
            snd (eachUnlessDone e (\<lambda>c s. (False, summarizeOne e (unixMilli t - 3 * 60 * 1000) c s)) cs s2)))"

subsection \<open>Descriptions\<close>

text \<open>A description stands while nothing it was made from is newer.\<close>

definition upToDate :: "described \<Rightarrow> int \<Rightarrow> bool" where
  "upToDate d source \<longleftrightarrow> (case drSummarized d of None \<Rightarrow> False | Some t \<Rightarrow> \<not> source > t)"

definition newerFile :: "summarizer_env \<Rightarrow> file_scope \<Rightarrow> string \<Rightarrow> string \<Rightarrow> summarizer_state \<Rightarrow> int \<times> summarizer_state" where
  "newerFile e sc i path s =
     (let (a, s1) = workspaceFileModifiedAt e sc i path s; (b, s2) = workspaceFileModifiedAt e sc i ''MEMORY.md'' s1 in
      (if b > a then b else a, s2))"

definition describeWith ::
    "summarizer_env \<Rightarrow> file_scope \<Rightarrow> string \<Rightarrow> string \<Rightarrow> string \<Rightarrow> summarizer_state \<Rightarrow> summarizer_state" where
  "describeWith e sc i system user s =
     (case resolveSynthesisProvider e s of
        (None, s1) \<Rightarrow> s1
      | (Some (c, m), s1) \<Rightarrow>
          (case runSynthesisRequest e c m system user 120 s1 of
             (None, s2) \<Rightarrow> s2
           | (Some t, s2) \<Rightarrow> modifyDescribed e sc i t s2))"

definition summarizeAgentDescription :: "summarizer_env \<Rightarrow> string \<Rightarrow> summarizer_state \<Rightarrow> summarizer_state" where
  "summarizeAgentDescription e i s =
     (case getDescribed e AgentScope i s of
        (None, s1) \<Rightarrow> s1
      | (Some d, s1) \<Rightarrow>
          (let (fresh, s2) = (if drDescription d \<noteq> [] \<and> drSummarized d \<noteq> None
                 then (let (src, s2) = newerFile e AgentScope i ''AGENT.md'' s1 in (upToDate d src, s2)) else (False, s1)) in
           if fresh then s2
           else (let (own, s3) = loadWorkspaceFileFromStore e AgentScope i ''AGENT.md'' 4000 s2;
                     (memory, s4) = loadWorkspaceFileFromStore e AgentScope i ''MEMORY.md'' 4000 s3 in
             describeWith e AgentScope i
               (resolveIdentityLine i (drName d) @ newline @ newline
                @ ''Generate a concise self-description for inter-agent task routing.'' @ newline
                @ ''Use only plain text.'' @ newline @ newline @ ''AGENT.md:'' @ newline @ emptyFallback own
                @ newline @ newline @ ''MEMORY.md:'' @ newline @ emptyFallback memory)
               (''Write a plain-text routing description in 1-2 sentences. State your specialty, what tasks should be routed to you, and key tools. Tools: ''
                @ summarizeToolNames [] 20) s4)))"

definition summarizeUserDescription :: "summarizer_env \<Rightarrow> string \<Rightarrow> summarizer_state \<Rightarrow> summarizer_state" where
  "summarizeUserDescription e i s =
     (case getDescribed e UserScope i s of
        (None, s1) \<Rightarrow> s1
      | (Some d, s1) \<Rightarrow>
          (let (fresh, s2) = (if drDescription d \<noteq> [] \<and> drSummarized d \<noteq> None
                 then (let (src, s2) = newerFile e UserScope i ''USER.md'' s1 in (upToDate d src, s2)) else (False, s1)) in
           if fresh then s2
           else (let (own, s3) = loadWorkspaceFileFromStore e UserScope i ''USER.md'' 4000 s2;
                     (memory, s4) = loadWorkspaceFileFromStore e UserScope i ''MEMORY.md'' 4000 s3 in
             describeWith e UserScope i
               ''You generate concise user descriptions for personalization and routing. Use only plain text.''
               (''Write a plain-text user description in 1-2 sentences. Include preferences, goals, and relevant constraints.''
                @ newline @ newline @ ''USER.md:'' @ newline @ emptyFallback own
                @ newline @ newline @ ''MEMORY.md:'' @ newline @ emptyFallback memory) s4)))"

definition summarizeProjectDescription :: "summarizer_env \<Rightarrow> described \<Rightarrow> summarizer_state \<Rightarrow> summarizer_state" where
  "summarizeProjectDescription e d s =
     (if drId d = [] then s
      else (let (fresh, s2) = (if drDescription d \<noteq> [] \<and> drSummarized d \<noteq> None
                 then (let (a, s2) = workspaceFileModifiedAt e ProjectScope (drId d) ''PROJECT.md'' s;
                           src = (case drModified d of Some m \<Rightarrow> if m > a then m else a | None \<Rightarrow> a) in (upToDate d src, s2))
                 else (False, s)) in
         if fresh then s2
         else (let (own, s3) = loadWorkspaceFileFromStore e ProjectScope (drId d) ''PROJECT.md'' 4000 s2 in
           describeWith e ProjectScope (drId d)
             ''You generate concise project descriptions for routing and discovery. Use only plain text.''
             (''Write a plain-text project description in 1-2 sentences. Include what work belongs in this project.''
              @ newline @ newline @ ''PROJECT.md:'' @ newline @ emptyFallback own) s3)))"

subsection \<open>A pass\<close>

definition listIds :: "summarizer_env \<Rightarrow> file_scope \<Rightarrow> summarizer_state \<Rightarrow> string list \<times> summarizer_state" where
  "listIds e sc s =
     (let (ok, s1) = transact e s in
      (if ok then sort (filter (\<lambda>i. i \<noteq> []) (map drId (entities sc (ssWorld s1)))) else [], s1))"

definition summarizeConversations :: "summarizer_env \<Rightarrow> string list \<Rightarrow> summarizer_state \<Rightarrow> summarizer_state" where
  "summarizeConversations e users s =
     (let (agents, s1) = listIds e AgentScope s in
      snd (eachUnlessDone e (\<lambda>agent.
        eachUnlessDone e (\<lambda>user s. (False, summarizeAgentConversations e user agent s)) users) agents s1))"

definition summarizeUsers :: "summarizer_env \<Rightarrow> string list \<Rightarrow> summarizer_state \<Rightarrow> summarizer_state" where
  "summarizeUsers e users s = snd (eachUnlessDone e (\<lambda>i s. (False, summarizeUserDescription e i s)) users s)"

definition summarizeAgents :: "summarizer_env \<Rightarrow> summarizer_state \<Rightarrow> summarizer_state" where
  "summarizeAgents e s =
     (let (agents, s1) = listIds e AgentScope s in
      snd (eachUnlessDone e (\<lambda>i s. (False, summarizeAgentDescription e i s)) agents s1))"

definition summarizeAllProjects :: "summarizer_env \<Rightarrow> summarizer_state \<Rightarrow> summarizer_state" where
  "summarizeAllProjects e s =
     (let (ok, s1) = transact e s in
      if \<not> ok then s1
      else snd (eachUnlessDone e (\<lambda>d s. (False, summarizeProjectDescription e d s)) (swProjects (ssWorld s1)) s1))"

definition summarizeAll :: "summarizer_env \<Rightarrow> summarizer_state \<Rightarrow> summarizer_state" where
  "summarizeAll e s =
     (let (users, s1) = listIds e UserScope s;
          s2 = (if users \<noteq> [] then summarizeUsers e users (summarizeConversations e users s1) else s1) in
      summarizeAllProjects e (summarizeAgents e s2))"

end
