(* ===== verification/SummarizerProps.thy ===== *)
theory SummarizerProps
  imports Summarizer
begin

text \<open>
  What the summarizer does to the world: the excerpt of a conversation holds its newest messages and
  fits its limit, a message that arrives while a summary is being written is left out, and the
  database store makes every project due again by the very update that describes it.
\<close>

subsection \<open>Excerpts\<close>

lemma excerptLines_shape:
  assumes "0 < maxTotal" and "used \<le> maxTotal"
  shows "\<exists>k part. k \<le> length rs
    \<and> concat (rev (excerptLines maxTotal maxMessage rs used)) = part @ concat (rev (map (excerptLine maxMessage) (take k rs)))
    \<and> used + int (length part + length (concat (map (excerptLine maxMessage) (take k rs)))) \<le> maxTotal
    \<and> (k = length rs \<and> part = []
       \<or> k < length rs \<and> prefix part (excerptLine maxMessage (rs ! k))
         \<and> used + int (length part + length (concat (map (excerptLine maxMessage) (take k rs)))) = maxTotal)"
  using assms(2)
proof (induction rs arbitrary: used)
  case Nil
  then show ?case by (intro exI [of _ 0] exI [of _ "[]"]) simp
next
  case (Cons r rs)
  let ?l = "excerptLine maxMessage r"
  show ?case
  proof (cases "used + int (length ?l) > maxTotal")
    case True
    let ?part = "take (nat (maxTotal - used)) ?l"
    have "length ?part = nat (maxTotal - used)" using True by simp
    then show ?thesis using True assms(1) Cons.prems
      by (intro exI [of _ 0] exI [of _ ?part]) (auto simp: Let_def take_is_prefix)
  next
    case False
    then obtain k part where ih: "k \<le> length rs"
      "concat (rev (excerptLines maxTotal maxMessage rs (used + int (length ?l)))) = part @ concat (rev (map (excerptLine maxMessage) (take k rs)))"
      "used + int (length ?l) + int (length part + length (concat (map (excerptLine maxMessage) (take k rs)))) \<le> maxTotal"
      "k = length rs \<and> part = [] \<or> k < length rs \<and> prefix part (excerptLine maxMessage (rs ! k))
         \<and> used + int (length ?l) + int (length part + length (concat (map (excerptLine maxMessage) (take k rs)))) = maxTotal"
      using Cons.IH [of "used + int (length ?l)"] by auto
    show ?thesis using False ih
      by (intro exI [of _ "Suc k"] exI [of _ part]) (auto simp: Let_def)
  qed
qed

lemma length_concat_reversed: "length (concat (rev xs)) = length (concat xs)"
  by (induction xs) simp_all

text \<open>What the line of a message has to tell: who speaks, and the text, of which at most \<open>maxMessage\<close> bytes are kept.\<close>

definition tells :: "int \<Rightarrow> row \<Rightarrow> string \<Rightarrow> bool" where
  "tells maxMessage r l \<longleftrightarrow> (\<exists>who shown. l = ''['' @ who @ '']: '' @ shown @ newline
     \<and> (who = rowRole r \<or> rowRole r = ''tool'' \<and> who = ''tool('' @ rowToolName r @ '')'')
     \<and> (if maxMessage \<le> 0 \<or> int (length (rowContent r)) \<le> maxMessage then shown = rowContent r
        else shown = take (nat maxMessage) (rowContent r) @ ''...''))"

lemma excerptLine_tells: "tells maxMessage r (excerptLine maxMessage r)"
  unfolding tells_def excerptLine_def Let_def
  by (rule exI [of _ "if rowRole r = ''tool'' \<and> rowToolName r \<noteq> [] then ''tool('' @ rowToolName r @ '')'' else rowRole r"],
      rule exI [of _ "if maxMessage > 0 \<and> int (length (rowContent r)) > maxMessage
        then take (nat maxMessage) (rowContent r) @ ''...'' else rowContent r"]) auto

text \<open>The excerpt of a conversation that goes to the model never exceeds its limit, a positive number, whatever
  the messages hold, and it is the lines of the newest messages, in order, behind a beginning of the line of the
  next older one; unless all lines fit it uses the limit up. Each line tells who speaks and the text of the
  message: all of it, or when it is longer than the limit for one message its first bytes up to that limit and
  three dots.\<close>

theorem excerpt_is_recent_and_bounded:
  assumes "0 < maxTotal"
  shows "int (length (messagesText rs maxTotal maxMessage)) \<le> maxTotal
    \<and> (\<exists>older newer lines part. rs = older @ newer \<and> list_all2 (tells maxMessage) newer lines
        \<and> messagesText rs maxTotal maxMessage = part @ concat lines
        \<and> (older = [] \<and> part = []
           \<or> older \<noteq> [] \<and> (\<exists>l. tells maxMessage (last older) l \<and> prefix part l)
             \<and> int (length (messagesText rs maxTotal maxMessage)) = maxTotal))"
proof -
  obtain k part where k: "k \<le> length rs"
    "messagesText rs maxTotal maxMessage = part @ concat (rev (map (excerptLine maxMessage) (take k (rev rs))))"
    "int (length part + length (concat (map (excerptLine maxMessage) (take k (rev rs))))) \<le> maxTotal"
    "k = length rs \<and> part = [] \<or> k < length rs \<and> prefix part (excerptLine maxMessage (rev rs ! k))
       \<and> int (length part + length (concat (map (excerptLine maxMessage) (take k (rev rs))))) = maxTotal"
    using excerptLines_shape [OF assms, of 0 "rev rs" maxMessage] assms unfolding messagesText_def by auto
  let ?older = "take (length rs - k) rs" and ?newer = "drop (length rs - k) rs"
  have newer: "rev (map (excerptLine maxMessage) (take k (rev rs))) = map (excerptLine maxMessage) ?newer"
    by (simp add: take_rev rev_map)
  have len: "length (messagesText rs maxTotal maxMessage)
      = length part + length (concat (map (excerptLine maxMessage) (take k (rev rs))))"
    unfolding k(2) length_append length_concat_reversed ..
  have "last ?older = rev rs ! k" if "k < length rs"
    using that by (subst last_conv_nth) (auto simp: rev_nth)
  moreover have "list_all2 (tells maxMessage) ?newer (map (excerptLine maxMessage) ?newer)"
    by (simp add: list_all2_conv_all_nth excerptLine_tells)
  moreover have "k = length rs \<and> part = [] \<or> k < length rs \<and> (\<exists>l. tells maxMessage (rev rs ! k) l \<and> prefix part l)
      \<and> int (length (messagesText rs maxTotal maxMessage)) = maxTotal"
    using k(4) excerptLine_tells unfolding len by blast
  ultimately have "rs = ?older @ ?newer \<and> list_all2 (tells maxMessage) ?newer (map (excerptLine maxMessage) ?newer)
      \<and> messagesText rs maxTotal maxMessage = part @ concat (map (excerptLine maxMessage) ?newer)
      \<and> (?older = [] \<and> part = []
         \<or> ?older \<noteq> [] \<and> (\<exists>l. tells maxMessage (last ?older) l \<and> prefix part l)
           \<and> int (length (messagesText rs maxTotal maxMessage)) = maxTotal)"
    using k(2) newer by auto
  then show ?thesis using k(3) unfolding len by blast
qed

subsection \<open>A message in between\<close>

text \<open>While request \<open>k\<close> is under way a message arrives in a conversation.\<close>

definition arrives :: "string \<Rightarrow> row \<Rightarrow> int \<Rightarrow> summarizer_world \<Rightarrow> summarizer_world" where
  "arrives i x u w = w\<lparr>swConversations := map (\<lambda>c. if convId c = i
     then c\<lparr>convRows := convRows c @ [x], convModified := Some u\<rparr> else c) (swConversations w)\<rparr>"

lemma modifyConversation_ok:
  assumes "\<not> seFails e (ssTransactions s)" and "i \<in> set (map convId (swConversations (ssWorld s)))"
  shows "\<exists>s'. modifyConversation e i title gist s = (True, s') \<and> ssSent s' = ssSent s
    \<and> swConversations (ssWorld s') = map (\<lambda>c. if convId c = i
        then savedConversation (seStore e) (seClock e (ssReads s)) (seClock e (Suc (ssReads s))) title gist c else c)
      (swConversations (ssWorld s))"
  using assms by (simp add: modifyConversation_def transact_def readClock_def Let_def)

text \<open>C36: On the file store a message that arrives while the summary of its conversation is being written is
  missed: the request was made without it, and the time stored with the summary is later than its
  own, so every later pass skips the conversation until something else happens in it.\<close>

theorem message_during_request_is_missed:
  assumes "seStore e = FileStore" and "\<forall>k. \<not> seFails e k"
    and "resolveProviderAndModel (seRegistry e) (swModel (ssWorld s)) = Inr (cl, p, m)" and "chats cl"
    and "\<forall>q. seComplete e (length (ssSent s)) cl q = Some answer" and "answer \<noteq> []"
    and "seDecode e answer = Some (title, gist)" and "title \<noteq> []"
    and "seMeanwhile e (length (ssSent s)) = arrives i x u" and "u \<le> seClock e (ssReads s)"
    and "c \<in> set (swConversations (ssWorld s))" and "convId c = i"
    and "splitAtLastSummary (convRows c) = ([], messages)"
  shows "let s' = summarizeConversationTitleAndSummary e i (convRows c) s in
    ssSent s' = ssSent s @ [synthesisRequest m titleAndSummaryPrompt (messagesText messages 8000 2000) 0]
    \<and> (\<exists>c'\<in>set (swConversations (ssWorld s')). convId c' = i \<and> convRows c' = convRows c @ [x]
        \<and> (\<forall>threshold. skipConversation e threshold c'))"
proof -
  let ?q = "synthesisRequest m titleAndSummaryPrompt (messagesText messages 8000 2000) 0"
  let ?s1 = "s\<lparr>ssTransactions := Suc (ssTransactions s)\<rparr>"
  let ?s2 = "?s1\<lparr>ssSent := ssSent s @ [?q], ssWorld := arrives i x u (ssWorld s)\<rparr>"
  have r: "resolveSynthesisProvider e s = (Some (cl, m), ?s1)"
    using assms(2,3,4) by (simp add: resolveSynthesisProvider_def transact_def)
  have q: "runSynthesisRequest e cl m titleAndSummaryPrompt (messagesText messages 8000 2000) 0 ?s1 = (Some answer, ?s2)"
    using assms(5,6,9) by (simp add: runSynthesisRequest_def Let_def)
  have i: "i \<in> set (map convId (swConversations (arrives i x u (ssWorld s))))"
    using assms(11,12) by (force simp: arrives_def)
  define t1 t2 where "t1 = seClock e (ssReads s)" and "t2 = seClock e (Suc (ssReads s))"
  obtain s' where m: "modifyConversation e i title gist ?s2 = (True, s')" "t1 = seClock e (ssReads s)"
    "ssSent s' = ssSent s @ [?q]"
    "swConversations (ssWorld s') = map (\<lambda>c. if convId c = i then savedConversation FileStore t1 t2 title gist c else c)
       (swConversations (arrives i x u (ssWorld s)))"
    using modifyConversation_ok [of e ?s2 i title gist] assms(1,2) i by (auto simp: t1_def t2_def)
  let ?c = "c\<lparr>convRows := convRows c @ [x], convModified := Some u\<rparr>"
  have "?c \<in> set (swConversations (arrives i x u (ssWorld s)))" using assms(11,12) by (force simp: arrives_def)
  then have c': "savedConversation FileStore t1 t2 title gist ?c \<in> set (swConversations (ssWorld s'))"
    unfolding m(4) using assms(12) by force
  have "unixMilli u \<le> unixMilli t1" using assms(10) m(2) by (simp add: unixMilli_def zdiv_mono1)
  then have skip: "skipConversation e threshold (savedConversation FileStore t1 t2 title gist ?c)" for threshold
    by (simp add: skipConversation_def lastActive_def summarizedAt_def savedConversation_def storedTime_def unixMilli_def)
  have run: "summarizeConversationTitleAndSummary e i (convRows c) s = s'\<lparr>ssBroadcasts := Suc (ssBroadcasts s')\<rparr>"
    unfolding summarizeConversationTitleAndSummary_def using assms(7,8,13) r q m(1) by (simp add: Let_def)
  show ?thesis unfolding run Let_def
    using m(3) c' skip assms(12) by (auto intro!: bexI [OF _ c'] simp: savedConversation_def)
qed

subsection \<open>Projects without rest\<close>

text \<open>A project that was never described, or was changed after it was described.\<close>

definition restless :: "described \<Rightarrow> bool" where
  "restless d \<longleftrightarrow> (case drSummarized d of
     None \<Rightarrow> True
   | Some t \<Rightarrow> (case drModified d of None \<Rightarrow> False | Some u \<Rightarrow> t < u))"

text \<open>The database keeps microseconds; the two readings of one update fall in different ones.\<close>

definition clock_ticks :: "summarizer_env \<Rightarrow> bool" where
  "clock_ticks e \<longleftrightarrow> (\<forall>k. seClock e k div 1000 < seClock e (Suc k) div 1000)"

definition undisturbed :: "summarizer_env \<Rightarrow> bool" where
  "undisturbed e \<longleftrightarrow> (\<forall>k. \<not> seFails e k \<and> \<not> seStopped e k \<and> seMeanwhile e k = (\<lambda>w. w))"

definition projects_restless :: "summarizer_env \<Rightarrow> summarizer_state \<Rightarrow> bool" where
  "projects_restless e s \<longleftrightarrow>
     (\<exists>c p m. resolveProviderAndModel (seRegistry e) (swModel (ssWorld s)) = Inr (c, p, m) \<and> chats c)
     \<and> (\<forall>d\<in>set (swProjects (ssWorld s)). drId d \<noteq> [] \<and> restless d)"

lemma transact_ok [simp]: "undisturbed e \<Longrightarrow> transact e s = (True, s\<lparr>ssTransactions := Suc (ssTransactions s)\<rparr>)"
  by (simp add: transact_def undisturbed_def)

lemma restless_source: "restless d \<Longrightarrow> \<not> upToDate d (case drModified d of Some m \<Rightarrow> if m > a then m else a | None \<Rightarrow> a)"
  by (auto simp: restless_def upToDate_def split: option.splits if_splits)

lemma modifyDescribed_restless:
  assumes "undisturbed e" and "seStore e = DatabaseStore" and "clock_ticks e" and "projects_restless e s"
  shows "projects_restless e (modifyDescribed e ProjectScope i t s)
    \<and> length (swProjects (ssWorld (modifyDescribed e ProjectScope i t s))) = length (swProjects (ssWorld s))
    \<and> ssSent (modifyDescribed e ProjectScope i t s) = ssSent s"
proof -
  have "seClock e (ssReads s) div 1000 < seClock e (Suc (ssReads s)) div 1000" using assms(3) by (simp add: clock_ticks_def)
  then show ?thesis using assms(1,2,4)
    by (auto simp: modifyDescribed_def readClock_def Let_def projects_restless_def savedDescription_def restless_def storedTime_def)
qed

lemma describeWith_restless:
  assumes "undisturbed e" and "seStore e = DatabaseStore" and "clock_ticks e" and "projects_restless e s"
  shows "projects_restless e (describeWith e ProjectScope i sys usr s)
    \<and> length (swProjects (ssWorld (describeWith e ProjectScope i sys usr s))) = length (swProjects (ssWorld s))
    \<and> length (ssSent (describeWith e ProjectScope i sys usr s)) = Suc (length (ssSent s))"
proof -
  obtain c p m where r: "resolveProviderAndModel (seRegistry e) (swModel (ssWorld s)) = Inr (c, p, m)" "chats c"
    using assms(4) by (auto simp: projects_restless_def)
  let ?s2 = "s\<lparr>ssTransactions := Suc (ssTransactions s)\<rparr>"
  let ?s3 = "?s2\<lparr>ssSent := ssSent s @ [synthesisRequest m sys usr 120]\<rparr>"
  have "resolveSynthesisProvider e s = (Some (c, m), ?s2)" using assms(1) r by (simp add: resolveSynthesisProvider_def)
  moreover obtain a where "runSynthesisRequest e c m sys usr 120 ?s2 = (a, ?s3)"
    using assms(1) by (simp add: runSynthesisRequest_def Let_def undisturbed_def)
  ultimately have "describeWith e ProjectScope i sys usr s = (case a of None \<Rightarrow> ?s3 | Some t \<Rightarrow> modifyDescribed e ProjectScope i t ?s3)"
    by (simp add: describeWith_def)
  moreover have "projects_restless e ?s3" using assms(4) by (simp add: projects_restless_def)
  ultimately show ?thesis using modifyDescribed_restless [OF assms(1-3) \<open>projects_restless e ?s3\<close>]
    by (auto split: option.splits)
qed

lemma describe_project:
  assumes "undisturbed e" and "seStore e = DatabaseStore" and "clock_ticks e" and "projects_restless e s"
    and "drId d \<noteq> []" and "restless d"
  shows "projects_restless e (summarizeProjectDescription e d s)
    \<and> length (swProjects (ssWorld (summarizeProjectDescription e d s))) = length (swProjects (ssWorld s))
    \<and> length (ssSent (summarizeProjectDescription e d s)) = Suc (length (ssSent s))"
proof -
  have files: "workspaceFileModifiedAt e ProjectScope (drId d) ''PROJECT.md'' s1
        = (fst (workspaceFileModifiedAt e ProjectScope (drId d) ''PROJECT.md'' s1), s1\<lparr>ssTransactions := Suc (ssTransactions s1)\<rparr>)"
      "loadWorkspaceFileFromStore e ProjectScope (drId d) ''PROJECT.md'' 4000 s1
        = (fst (loadWorkspaceFileFromStore e ProjectScope (drId d) ''PROJECT.md'' 4000 s1), s1\<lparr>ssTransactions := Suc (ssTransactions s1)\<rparr>)" for s1
    using assms(1) by (simp_all add: workspaceFileModifiedAt_def loadWorkspaceFileFromStore_def Let_def)
  have "\<exists>k usr. summarizeProjectDescription e d s = describeWith e ProjectScope (drId d)
      ''You generate concise project descriptions for routing and discovery. Use only plain text.'' usr (s\<lparr>ssTransactions := k\<rparr>)"
  proof (cases "drDescription d \<noteq> [] \<and> drSummarized d \<noteq> None")
    case True
    show ?thesis unfolding summarizeProjectDescription_def if_P [OF True] if_not_P [OF assms(5)]
      by (subst files(1), simp only: Let_def prod.case restless_source [OF assms(6)] if_False, subst files(2),
        simp only: prod.case) auto
  next
    case False
    show ?thesis unfolding summarizeProjectDescription_def if_not_P [OF False] if_not_P [OF assms(5)]
      by (simp only: Let_def prod.case if_False, subst files(2), simp only: prod.case) auto
  qed
  then obtain k sys usr where d: "summarizeProjectDescription e d s = describeWith e ProjectScope (drId d) sys usr (s\<lparr>ssTransactions := k\<rparr>)"
    by blast
  have "projects_restless e (s\<lparr>ssTransactions := k\<rparr>)" using assms(4) by (simp add: projects_restless_def)
  from describeWith_restless [OF assms(1-3) this] show ?thesis unfolding d by simp
qed

lemma project_round:
  assumes "undisturbed e" and "seStore e = DatabaseStore" and "clock_ticks e" and "projects_restless e s"
    and "\<forall>d\<in>set ds. drId d \<noteq> [] \<and> restless d"
  shows "let s' = snd (eachUnlessDone e (\<lambda>d s. (False, summarizeProjectDescription e d s)) ds s) in
    projects_restless e s' \<and> length (swProjects (ssWorld s')) = length (swProjects (ssWorld s))
    \<and> length (ssSent s') = length (ssSent s) + length ds"
  using assms(4,5)
proof (induction ds arbitrary: s)
  case Nil
  then show ?case by simp
next
  case (Cons d ds)
  let ?s1 = "s\<lparr>ssChecks := Suc (ssChecks s)\<rparr>"
  have c: "contextDone e s = (False, ?s1)" using assms(1) by (simp add: contextDone_def undisturbed_def)
  have "projects_restless e ?s1" using Cons.prems(1) by (simp add: projects_restless_def)
  then have d: "projects_restless e (summarizeProjectDescription e d ?s1)
      \<and> length (swProjects (ssWorld (summarizeProjectDescription e d ?s1))) = length (swProjects (ssWorld s))
      \<and> length (ssSent (summarizeProjectDescription e d ?s1)) = Suc (length (ssSent s))"
    using describe_project [OF assms(1-3), of ?s1 d] Cons.prems(2) by simp
  show ?case using Cons.IH [of "summarizeProjectDescription e d ?s1"] d Cons.prems(2) by (simp add: c Let_def)
qed

text \<open>On the database store a description of a project does not settle: the update that saves it sets the time of
  the project's last change to a second reading of the clock, after the time of the description. As long as the
  two readings of an update do not fall in the same microsecond (which is what the database keeps of them), and a
  provider is configured, every pass of the summarizer, from projects not yet described on, asks the model to
  describe every project again, once a minute, though nothing has changed and no call fails.\<close>

theorem projects_are_described_at_every_pass:
  assumes "undisturbed e" and "seStore e = DatabaseStore" and "clock_ticks e"
    and "resolveProviderAndModel (seRegistry e) (swModel (ssWorld s)) = Inr (c, p, m)" and "chats c"
    and "\<forall>d\<in>set (swProjects (ssWorld s)). drId d \<noteq> [] \<and> drSummarized d = None"
  shows "length (ssSent ((summarizeAllProjects e ^^ n) s)) = length (ssSent s) + n * length (swProjects (ssWorld s))"
proof -
  have start: "projects_restless e s" using assms(4-6) by (auto simp: projects_restless_def restless_def)
  have "projects_restless e ((summarizeAllProjects e ^^ n) s)
      \<and> length (swProjects (ssWorld ((summarizeAllProjects e ^^ n) s))) = length (swProjects (ssWorld s))
      \<and> length (ssSent ((summarizeAllProjects e ^^ n) s)) = length (ssSent s) + n * length (swProjects (ssWorld s))"
  proof (induction n)
    case 0
    then show ?case using start by simp
  next
    case (Suc n)
    let ?s = "(summarizeAllProjects e ^^ n) s"
    let ?s1 = "?s\<lparr>ssTransactions := Suc (ssTransactions ?s)\<rparr>"
    have r: "projects_restless e ?s1" using Suc.IH by (simp add: projects_restless_def)
    have step: "summarizeAllProjects e ?s
        = snd (eachUnlessDone e (\<lambda>d s. (False, summarizeProjectDescription e d s)) (swProjects (ssWorld ?s1)) ?s1)"
      using assms(1) by (simp add: summarizeAllProjects_def)
    have ds: "\<forall>d\<in>set (swProjects (ssWorld ?s1)). drId d \<noteq> [] \<and> restless d"
      using r unfolding projects_restless_def by blast
    have "(summarizeAllProjects e ^^ Suc n) s = summarizeAllProjects e ?s" by simp
    then show ?case using project_round [OF assms(1-3) r ds, unfolded Let_def, folded step] Suc.IH by simp
  qed
  then show ?thesis by blast
qed

subsection \<open>Witnesses\<close>

definition sampleRow :: "string \<Rightarrow> string \<Rightarrow> row" where
  "sampleRow i t = \<lparr>rowId = i, rowRole = ''user'', rowContent = t, rowBlocks = [], rowCalls = [], rowToolCallId = [],
     rowToolName = [], rowStop = [], rowResume = [], rowCoverage = False\<rparr>"

definition sampleConversation :: conv_record where
  "sampleConversation = \<lparr>convId = ''c'', convUser = ''u'', convAgent = ''main'', convTitle = [], convSummary = [],
     convSummarized = None, convCreated = Some 0, convModified = Some 0, convRows = [sampleRow ''1'' ''hello'']\<rparr>"

definition sampleProject :: described where
  "sampleProject = \<lparr>drId = ''p'', drName = ''P'', drDescription = [], drSummarized = None, drModified = None\<rparr>"

definition sampleWorld :: summarizer_world where
  "sampleWorld = \<lparr>swConversations = [sampleConversation], swAgents = [], swUsers = [], swProjects = [sampleProject],
     swFile = (\<lambda>sc i p. None), swModel = ''xai:grok''\<rparr>"

definition sampleSummarizer :: "store_kind \<Rightarrow> (summarizer_world \<Rightarrow> summarizer_world) \<Rightarrow> summarizer_env" where
  "sampleSummarizer k f = \<lparr>seStore = k, seClock = (\<lambda>n. int (n * 1000000)), seComplete = (\<lambda>n c q. Some ''a''),
     seMeanwhile = (\<lambda>n. f), seFails = (\<lambda>n. False), seStopped = (\<lambda>n. False), seActive = (\<lambda>i. False),
     seRegistry = sampleRegistry, seDecode = (\<lambda>t. Some (''T'', ''S'')), seFormat = (\<lambda>t. ''now'')\<rparr>"

definition sampleSummarizerState :: summarizer_state where
  "sampleSummarizerState = \<lparr>ssWorld = sampleWorld, ssReads = 0, ssTransactions = 0, ssChecks = 0, ssSent = [], ssBroadcasts = 0\<rparr>"

lemma sample_model_parsed: "parseProviderModelName ''xai:grok'' [] = (''xai'', ''grok'')"
  by code_simp

lemma sample_model_resolves:
  "resolveProviderAndModel (seRegistry (sampleSummarizer k f)) (swModel (ssWorld sampleSummarizerState))
    = Inr (newProvider ''xai'' ''https://api.x.ai/v1'' ''k'', ''xai'', ''grok'')"
  by (simp add: sampleSummarizer_def sampleSummarizerState_def sampleWorld_def sampleRegistry_def registerClient_def
    newEmptyProviderRegistry_def clientByName_def resolveProviderAndModel_def Let_def
    sample_model_parsed)

lemma sample_chats: "chats (newProvider ''xai'' ''https://api.x.ai/v1'' ''k'')"
  by (simp add: newProvider_def)

lemma excerpt_is_recent_and_bounded_witness:
  "int (length (messagesText [sampleRow ''1'' ''hello'', sampleRow ''2'' ''bye''] 20 0)) \<le> 20"
  using excerpt_is_recent_and_bounded [of 20 "[sampleRow ''1'' ''hello'', sampleRow ''2'' ''bye'']" 0] by simp

lemma message_during_request_is_missed_witness:
  "\<exists>c'\<in>set (swConversations (ssWorld (summarizeConversationTitleAndSummary
       (sampleSummarizer FileStore (arrives ''c'' (sampleRow ''2'' ''more'') 0)) ''c'' [sampleRow ''1'' ''hello''] sampleSummarizerState))).
     convRows c' = [sampleRow ''1'' ''hello'', sampleRow ''2'' ''more'']"
proof -
  let ?e = "sampleSummarizer FileStore (arrives ''c'' (sampleRow ''2'' ''more'') 0)"
  have "splitAtLastSummary (convRows sampleConversation) = ([], [sampleRow ''1'' ''hello''])"
    by (simp add: sampleConversation_def isSummary_def sampleRow_def)
  from message_during_request_is_missed [OF _ _ sample_model_resolves [where k = FileStore and f = "arrives ''c'' (sampleRow ''2'' ''more'') 0"] sample_chats _ _ _ _ _ _ _ _ this,
      where i = "''c''" and x = "sampleRow ''2'' ''more''" and u = 0 and answer = "''a''" and title = "''T''" and gist = "''S''"]
  show ?thesis by (auto simp: sampleSummarizer_def sampleSummarizerState_def sampleWorld_def sampleConversation_def Let_def)
qed

lemma projects_are_described_at_every_pass_witness:
  "length (ssSent ((summarizeAllProjects (sampleSummarizer DatabaseStore (\<lambda>w. w)) ^^ 5) sampleSummarizerState)) = 5"
  using projects_are_described_at_every_pass [OF _ _ _ sample_model_resolves [where k = DatabaseStore and f = "\<lambda>w. w"] sample_chats, where n = 5]
  by (simp add: undisturbed_def clock_ticks_def sampleSummarizer_def sampleSummarizerState_def sampleWorld_def sampleProject_def)

end
