(* ===== verification/JsonStrings.thy ===== *)
theory JsonStrings
  imports JsonText
begin

text \<open>
  JSON strings as \<open>json.Marshal\<close> writes them, with the characters that are special in HTML escaped, and as
  \<open>json.Unmarshal\<close> reads them. A valid UTF-8 string comes back as it was; the scanner accepts what is written.
\<close>

subsection \<open>Writing\<close>

definition hexChar :: "nat \<Rightarrow> char" where
  "hexChar n = ''0123456789abcdef'' ! n"

abbreviation backslash :: char where
  "backslash \<equiv> CHR 0x5C"

text \<open>One rune with the bytes it was decoded from; a byte that is no part of a rune has width one.\<close>

fun quotePiece :: "rune \<times> string \<Rightarrow> string" where
  "quotePiece (r, b) =
     (if r = rune_error \<and> length b = 1 then backslash # ''ufffd''
      else if r = 92 \<or> r = 34 then [backslash, char_of r]
      else if r = 8 then [backslash, CHR ''b'']
      else if r = 12 then [backslash, CHR ''f'']
      else if r = 10 then [backslash, CHR ''n'']
      else if r = 13 then [backslash, CHR ''r'']
      else if r = 9 then [backslash, CHR ''t'']
      else if r < 32 \<or> r = 38 \<or> r = 60 \<or> r = 62 then backslash # ''u00'' @ [hexChar (r div 16), hexChar (r mod 16)]
      else if r = 8232 \<or> r = 8233 then backslash # ''u202'' @ [hexChar (r mod 16)]
      else b)"

definition quoteBody :: "string \<Rightarrow> string" where
  "quoteBody s = concat (map quotePiece (pieces s))"

definition marshalString :: "string \<Rightarrow> string" where
  "marshalString s = CHR 0x22 # quoteBody s @ [CHR 0x22]"

subsection \<open>Reading\<close>

definition hexValue :: "char \<Rightarrow> nat option" where
  "hexValue c =
     (if 48 \<le> byte c \<and> byte c \<le> 57 then Some (byte c - 48)
      else if 97 \<le> byte c \<and> byte c \<le> 102 then Some (byte c - 87)
      else if 65 \<le> byte c \<and> byte c \<le> 70 then Some (byte c - 55) else None)"

fun hex4 :: "string \<Rightarrow> nat option" where
  "hex4 (a # b # c # d # s) =
     (case (hexValue a, hexValue b, hexValue c, hexValue d) of
        (Some w, Some x, Some y, Some z) \<Rightarrow> Some (w * 4096 + x * 256 + y * 16 + z)
      | _ \<Rightarrow> None)"
| "hex4 s = None"

text \<open>\<open>getu4\<close>: the code of an escape with its backslash.\<close>

fun getu4 :: "string \<Rightarrow> nat option" where
  "getu4 (a # b # s) = (if a = backslash \<and> b = CHR ''u'' then hex4 s else None)"
| "getu4 s = None"

definition simpleEscape :: "char \<Rightarrow> char option" where
  "simpleEscape c =
     (if c = CHR 0x22 \<or> c = backslash \<or> c = CHR 0x2F \<or> c = CHR 0x27 then Some c
      else if c = CHR ''b'' then Some (CHR 0x08)
      else if c = CHR ''f'' then Some (CHR 0x0C)
      else if c = CHR ''n'' then Some (CHR 0x0A)
      else if c = CHR ''r'' then Some (CHR 0x0D)
      else if c = CHR ''t'' then Some (CHR 0x09)
      else None)"

text \<open>\<open>utf16.DecodeRune\<close>.\<close>

definition surrogatePair :: "nat \<Rightarrow> nat option \<Rightarrow> rune option" where
  "surrogatePair a b =
     (case b of
        None \<Rightarrow> None
      | Some l \<Rightarrow> if 55296 \<le> a \<and> a < 56320 \<and> 56320 \<le> l \<and> l < 57344
          then Some ((a - 55296) * 1024 + (l - 56320) + 65536) else None)"

text \<open>What is between the quotes of a string the scanner has accepted.\<close>

function unquoteBody :: "string \<Rightarrow> string option" where
  "unquoteBody [] = Some []"
| "unquoteBody (c # cs) =
     (if c = backslash then
        (case cs of
           [] \<Rightarrow> None
         | e # rest \<Rightarrow>
             if e = CHR ''u'' then
               (case hex4 rest of
                  None \<Rightarrow> None
                | Some r \<Rightarrow>
                    if 55296 \<le> r \<and> r < 57344 then
                      (case surrogatePair r (getu4 (drop 4 rest)) of
                         Some p \<Rightarrow> map_option ((@) (encode_rune p)) (unquoteBody (drop 10 rest))
                       | None \<Rightarrow> map_option ((@) (encode_rune rune_error)) (unquoteBody (drop 4 rest)))
                    else map_option ((@) (encode_rune r)) (unquoteBody (drop 4 rest)))
             else (case simpleEscape e of
                 None \<Rightarrow> None
               | Some x \<Rightarrow> map_option ((#) x) (unquoteBody rest)))
      else if byte c = 34 \<or> byte c < 32 then None
      else map_option ((@) (encode_rune (fst (decode_rune (c # cs))))) (unquoteBody (drop (snd (decode_rune (c # cs))) (c # cs))))"
  by pat_completeness auto
termination
proof (relation "measure length", goal_cases)
  case (6 c cs)
  then show ?case using decode_rune_width [of "c # cs"] by simp
qed auto

declare unquoteBody.simps(2) [simp del]

definition unquote :: "string \<Rightarrow> string option" where
  "unquote v = (if v \<noteq> [] \<and> hd v = CHR 0x22 then unquoteBody (butlast (tl v)) else None)"

subsection \<open>Round trip\<close>

lemma hexValue_hexChar: "n < 16 \<Longrightarrow> hexValue (hexChar n) = Some n"
  by (simp add: hexChar_def hexValue_def less_Suc_eq numeral_eq_Suc) auto

lemma encode_rune_ascii: "r < 128 \<Longrightarrow> encode_rune r = [char_of r]"
  by (simp add: encode_rune_def encode_valid_def valid_rune_def)

lemma encode_rune_high: "128 \<le> r \<Longrightarrow> c \<in> set (encode_rune r) \<Longrightarrow> 128 \<le> byte c"
proof -
  assume r: "128 \<le> r" "c \<in> set (encode_rune r)"
  have "r div 262144 \<le> 4" if "valid_rune r" using that by (auto simp: valid_rune_def)
  then show ?thesis using r by (auto simp: encode_rune_def encode_valid_def rune_error_def split: if_splits)
qed

lemma unquote_decoded:
  assumes "valid_rune r" and "r \<noteq> 34" and "r \<noteq> 92" and "32 \<le> r"
  shows "unquoteBody (encode_rune r @ x) = map_option ((@) (encode_rune r)) (unquoteBody x)"
proof -
  obtain c cs where c: "encode_rune r @ x = c # cs" by (cases "encode_rune r @ x") auto
  have d: "decode_rune (c # cs) = (r, length (encode_rune r))" using decode_encode [OF assms(1), of x] c by simp
  have "drop (length (encode_rune r)) (encode_rune r @ x) = x" by simp
  then have rest: "drop (length (encode_rune r)) (c # cs) = x" unfolding c .
  have b: "byte c \<noteq> 34 \<and> 32 \<le> byte c \<and> byte c \<noteq> 92"
  proof (cases "r < 128")
    case True
    then show ?thesis using c assms by (auto simp: encode_rune_ascii)
  next
    case False
    have "c \<in> set (encode_rune r)" using c by (cases "encode_rune r") auto
    then show ?thesis using encode_rune_high [of r c] False by auto
  qed
  then have "c \<noteq> backslash" by auto
  then show ?thesis using b unfolding c unquoteBody.simps(2) d by (simp add: rest)
qed

lemma unquote_simple: "simpleEscape e = Some y \<Longrightarrow> e \<noteq> CHR ''u'' \<Longrightarrow>
    unquoteBody (backslash # e # x) = map_option ((#) y) (unquoteBody x)"
  by (simp add: unquoteBody.simps(2))

lemma unquote_hex: "hex4 h = Some r \<Longrightarrow> length h = 4 \<Longrightarrow> r < 55296 \<Longrightarrow>
    unquoteBody (backslash # CHR ''u'' # h @ x) = map_option ((@) (encode_rune r)) (unquoteBody x)"
proof -
  assume h: "hex4 h = Some r" "length h = 4" "r < 55296"
  then obtain a b c d where "h = [a, b, c, d]" by (auto simp: length_Suc_conv numeral_eq_Suc)
  with h have "hex4 (h @ x) = Some r" by (simp split: option.splits)
  with h show ?thesis by (simp add: unquoteBody.simps(2))
qed

lemma unquote_piece:
  assumes "valid_rune r"
  shows "unquoteBody (quotePiece (r, encode_rune r) @ x) = map_option ((@) (encode_rune r)) (unquoteBody x)"
proof -
  have e: "\<not> (r = rune_error \<and> length (encode_rune r) = 1)"
    by (simp add: rune_error_def encode_rune_def encode_valid_def valid_rune_def)
  have single: "(@) [c] = (#) c" for c :: char by (rule ext) simp
  have codes: "char_of (92 :: nat) = backslash" "char_of (34 :: nat) = CHR 0x22" "char_of (8 :: nat) = CHR 0x08"
    "char_of (12 :: nat) = CHR 0x0C" "char_of (10 :: nat) = CHR 0x0A" "char_of (13 :: nat) = CHR 0x0D"
    "char_of (9 :: nat) = CHR 0x09" by code_simp+
  consider "r = 92 \<or> r = 34" | "r = 8" | "r = 12" | "r = 10" | "r = 13" | "r = 9"
    | "r \<notin> {8, 12, 10, 13, 9}" "r < 32 \<or> r = 38 \<or> r = 60 \<or> r = 62" | "r = 8232 \<or> r = 8233"
    | "32 \<le> r" "r \<notin> {34, 38, 60, 62, 92, 8232, 8233}" by fastforce
  then show ?thesis
  proof cases
    case 1
    then show ?thesis by (auto simp: unquote_simple simpleEscape_def encode_rune_ascii rune_error_def single codes)
  next
    case 7
    then have "hexValue (hexChar (r div 16)) = Some (r div 16)" "hexValue (hexChar (r mod 16)) = Some (r mod 16)"
      by (auto intro!: hexValue_hexChar)
    moreover have "hexValue (CHR ''0'') = Some 0" by (simp add: hexValue_def)
    moreover have "r div 16 * 16 + r mod 16 = r" by simp
    ultimately have "hex4 ([CHR ''0'', CHR ''0'', hexChar (r div 16), hexChar (r mod 16)]) = Some r"
      by (simp only: hex4.simps prod.case option.case) simp
    from unquote_hex [OF this _ , of x] 7 show ?thesis by (auto simp: rune_error_def)
  next
    case 8
    have h: "hexValue (CHR ''0'') = Some 0" "hexValue (CHR ''2'') = Some 2" "hexValue (hexChar 8) = Some 8" "hexValue (hexChar 9) = Some 9"
      by (simp_all add: hexValue_def hexChar_def)
    have "hex4 (''202'' @ [hexChar 8]) = Some 8232" "hex4 (''202'' @ [hexChar 9]) = Some 8233" by (simp_all add: h)
    from unquote_hex [OF this(1), of x] unquote_hex [OF this(2), of x] 8 show ?thesis by (auto simp: rune_error_def)
  next
    case 9
    with e assms show ?thesis using unquote_decoded [of r x] by auto
  qed (simp_all add: unquote_simple simpleEscape_def encode_rune_ascii rune_error_def single codes)
qed

lemma quoteBody_runes:
  "\<forall>r\<in>set rs. valid_rune r \<Longrightarrow> quoteBody (string_of_runes rs) = concat (map (\<lambda>r. quotePiece (r, encode_rune r)) rs)"
  by (simp only: quoteBody_def pieces_string_of_runes map_map o_def)

lemma unquote_quoteBody: "valid_utf8 s \<Longrightarrow> unquoteBody (quoteBody s) = Some s"
proof -
  assume "valid_utf8 s"
  then obtain rs where rs: "s = string_of_runes rs" "\<forall>r\<in>set rs. valid_rune r" using valid_utf8_runes by blast
  have "unquoteBody (concat (map (\<lambda>r. quotePiece (r, encode_rune r)) rs)) = Some (string_of_runes rs)"
    using rs(2)
  proof (induction rs)
    case (Cons r rs)
    then show ?case using unquote_piece [of r] by (simp del: quotePiece.simps add: string_of_runes_Cons)
  qed simp
  then show ?thesis using quoteBody_runes [OF rs(2)] by (simp add: rs(1))
qed

text \<open>A valid string comes back.\<close>

lemma unquote_marshalString [simp]: "valid_utf8 s \<Longrightarrow> unquote (marshalString s) = Some s"
  by (simp add: unquote_def marshalString_def butlast_append unquote_quoteBody)

subsection \<open>The scanner accepts what is written\<close>

lemma scan_plain: "\<forall>c\<in>set b. byte c \<noteq> 34 \<and> byte c \<noteq> 92 \<and> 32 \<le> byte c \<Longrightarrow> scanAll (InString, fs) b = Some (InString, fs)"
  by (induction b) simp_all

lemma hexDigit_hexChar: "n < 16 \<Longrightarrow> hexDigit (hexChar n)"
  by (simp add: hexChar_def hexDigit_def jsonDigit_def less_Suc_eq numeral_eq_Suc) auto

lemma scan_hex:
  assumes "hexDigit a" "hexDigit b" "hexDigit c" "hexDigit d"
  shows "scanAll (InString, fs) (backslash # CHR ''u'' # [a, b, c, d]) = Some (InString, fs)"
  using assms by (simp add: numeral_eq_Suc)

lemma scan_piece:
  assumes "valid_rune r"
  shows "scanAll (InString, fs) (quotePiece (r, encode_rune r)) = Some (InString, fs)"
proof -
  have "\<forall>c\<in>set (encode_rune r). byte c \<noteq> 34 \<and> byte c \<noteq> 92 \<and> 32 \<le> byte c" if "32 \<le> r" "r \<noteq> 34" "r \<noteq> 92"
  proof (cases "r < 128")
    case True
    with that show ?thesis by (simp add: encode_rune_ascii)
  next
    case False
    then show ?thesis using encode_rune_high [of r] by fastforce
  qed
  then have plain: "scanAll (InString, fs) (encode_rune r) = Some (InString, fs)" if "32 \<le> r" "r \<noteq> 34" "r \<noteq> 92"
    using that by (intro scan_plain) blast
  have e: "\<not> (r = rune_error \<and> length (encode_rune r) = 1)"
    by (simp add: rune_error_def encode_rune_def encode_valid_def valid_rune_def)
  have hex0: "hexDigit (CHR ''0'')" "hexDigit (CHR ''2'')" by (simp_all add: hexDigit_def jsonDigit_def)
  consider "r = 92 \<or> r = 34" | "r = 8 \<or> r = 12 \<or> r = 10 \<or> r = 13 \<or> r = 9"
    | "r \<notin> {8, 12, 10, 13, 9}" "r < 32 \<or> r = 38 \<or> r = 60 \<or> r = 62" | "r = 8232 \<or> r = 8233"
    | "32 \<le> r" "r \<notin> {34, 38, 60, 62, 92, 8232, 8233}" by fastforce
  then show ?thesis
  proof cases
    case 1
    then show ?thesis by (auto simp: rune_error_def)
  next
    case 2
    then show ?thesis by (auto simp: rune_error_def)
  next
    case 3
    have "hexDigit (hexChar (r div 16))" using 3 by (auto intro!: hexDigit_hexChar)
    moreover have "hexDigit (hexChar (r mod 16))" by (simp add: hexDigit_hexChar)
    ultimately have "scanAll (InString, fs) (backslash # ''u00'' @ [hexChar (r div 16), hexChar (r mod 16)]) = Some (InString, fs)"
      using scan_hex [OF hex0(1) hex0(1)] by simp
    moreover have "quotePiece (r, encode_rune r) = backslash # ''u00'' @ [hexChar (r div 16), hexChar (r mod 16)]"
      using 3 by (auto simp: rune_error_def)
    ultimately show ?thesis by (simp only:)
  next
    case 4
    have "hexDigit (hexChar (r mod 16))" by (simp add: hexDigit_hexChar)
    then have "scanAll (InString, fs) (backslash # ''u202'' @ [hexChar (r mod 16)]) = Some (InString, fs)"
      using scan_hex [OF hex0(2) hex0(1) hex0(2)] by simp
    moreover have "quotePiece (r, encode_rune r) = backslash # ''u202'' @ [hexChar (r mod 16)]"
      using 4 by (auto simp: rune_error_def)
    ultimately show ?thesis by (simp only:)
  next
    case 5
    then show ?thesis using plain e by auto
  qed
qed

lemma scan_quoteBody: "valid_utf8 s \<Longrightarrow> scanAll (InString, fs) (quoteBody s) = Some (InString, fs)"
proof -
  assume "valid_utf8 s"
  then obtain rs where rs: "s = string_of_runes rs" "\<forall>r\<in>set rs. valid_rune r" using valid_utf8_runes by blast
  have "scanAll (InString, fs) (concat (map (\<lambda>r. quotePiece (r, encode_rune r)) rs)) = Some (InString, fs)"
    using rs(2) by (induction rs) (simp_all del: quotePiece.simps add: scanAll_append scan_piece)
  then show ?thesis using quoteBody_runes [OF rs(2)] by (simp add: rs(1))
qed

lemma scan_marshalString:
  assumes "valid_utf8 s"
  shows "scanAll (BeginValue, fs) (marshalString s) = Some (EndValue, fs)"
    and "scanAll (BeginString, fs) (marshalString s) = Some (EndValue, fs)"
    and "scanAll (BeginStringOrEmpty, fs) (marshalString s) = Some (EndValue, fs)"
  using scan_quoteBody [OF assms, of fs]
  by (simp_all add: marshalString_def scanAll_append beginValue_def beginString_def jsonSpace_def)

end
