(* ===== verification/JsonObjects.thy ===== *)
theory JsonObjects
  imports JsonStrings
begin

text \<open>
  Objects as \<open>json.Marshal\<close> writes structs and as \<open>json.Unmarshal\<close> takes them apart: the members are the
  bytes the scanner reads while the outermost frame is the key or the value of one object. Written
  objects come back member by member, and raw values survive up to compaction.
\<close>

subsection \<open>Writing\<close>

fun marshalMember :: "string \<times> string \<Rightarrow> string" where
  "marshalMember (k, v) = marshalString k @ CHR '':'' # v"

definition marshalObject :: "(string \<times> string) list \<Rightarrow> string" where
  "marshalObject kvs = CHR 0x7B # join '','' (map marshalMember kvs) @ [CHR 0x7D]"

definition marshalInt :: "int \<Rightarrow> string" where
  "marshalInt i = (if i < 0 then CHR ''-'' # decimal (nat (- i)) else decimal (nat i))"

text \<open>Members that \<open>omitempty\<close> leaves out. A raw value that is not JSON fails.\<close>

definition textMember :: "string \<Rightarrow> string \<Rightarrow> (string \<times> string) list" where
  "textMember k v = (if v = [] then [] else [(k, marshalString v)])"

definition rawMember :: "string \<Rightarrow> string \<Rightarrow> (string \<times> string) list option" where
  "rawMember k v = (if v = [] then Some [] else map_option (\<lambda>t. [(k, t)]) (marshalRaw (Some v)))"

subsection \<open>Reading\<close>

definition trimJson :: "string \<Rightarrow> string" where
  "trimJson s = rev (dropWhile jsonSpace (rev (dropWhile jsonSpace s)))"

definition outermost :: "json_frame list \<Rightarrow> json_frame option" where
  "outermost fs = (if fs = [] then None else Some (last fs))"

text \<open>Keys and values as they stand in the text, from the state inside the object, with the key and the value read so far.\<close>

fun membersFrom :: "json_scan \<Rightarrow> string \<Rightarrow> string \<Rightarrow> string \<Rightarrow> (string \<times> string) list" where
  "membersFrom s k v [] = []"
| "membersFrom s k v (c # cs) =
     (case scanStep c s of
        None \<Rightarrow> []
      | Some t \<Rightarrow>
          (case (outermost (snd s), outermost (snd t)) of
             (Some ObjectKey, Some ObjectKey) \<Rightarrow> membersFrom t (k @ [c]) v cs
           | (Some ObjectKey, Some ObjectValue) \<Rightarrow> membersFrom t k [] cs
           | (Some ObjectValue, Some ObjectValue) \<Rightarrow> membersFrom t k (v @ [c]) cs
           | (Some ObjectValue, Some ObjectKey) \<Rightarrow> (k, v) # membersFrom t [] [] cs
           | (Some ObjectValue, None) \<Rightarrow> [(k, v)]
           | _ \<Rightarrow> []))"

definition readMember :: "string \<times> string \<Rightarrow> (string \<times> string) option" where
  "readMember m = map_option (\<lambda>k. (k, trimJson (snd m))) (unquote (trimJson (fst m)))"

text \<open>
  Decoding into a struct or a map: \<open>null\<close> sets nothing, any other value that is no object is an error.
\<close>

definition objectMembers :: "string \<Rightarrow> (string \<times> string) list option" where
  "objectMembers s =
     (let b = trimJson s in
      if \<not> jsonValid s then None
      else if b = ''null'' then Some []
      else if b \<noteq> [] \<and> hd b = CHR 0x7B
      then Some (List.map_filter readMember (membersFrom (BeginStringOrEmpty, [ObjectKey]) [] [] (tl b)))
      else None)"

text \<open>The field a key belongs to is found up to simple case folding.\<close>

definition foldRune :: "rune \<Rightarrow> rune" where
  "foldRune r = (if 65 \<le> r \<and> r \<le> 90 then r + 32 else if r = 8490 then 107 else if r = 383 then 115 else r)"

definition foldsTo :: "string \<Rightarrow> string \<Rightarrow> bool" where
  "foldsTo key name \<longleftrightarrow> map foldRune (runes key) = map foldRune (runes name)"

text \<open>Storing a value in a field: a value of another type is an error, \<open>null\<close> changes nothing but a raw field.\<close>

definition storeText :: "(string \<Rightarrow> 'r \<Rightarrow> 'r) \<Rightarrow> string \<Rightarrow> 'r \<Rightarrow> 'r option" where
  "storeText f v r = (if v = ''null'' then Some r else map_option (\<lambda>t. f t r) (unquote v))"

definition storeRaw :: "(string \<Rightarrow> 'r \<Rightarrow> 'r) \<Rightarrow> string \<Rightarrow> 'r \<Rightarrow> 'r option" where
  "storeRaw f v r = Some (f v r)"

definition storeInt :: "(int \<Rightarrow> 'r \<Rightarrow> 'r) \<Rightarrow> string \<Rightarrow> 'r \<Rightarrow> 'r option" where
  "storeInt f v r =
     (if v = ''null'' then Some r
      else if v \<noteq> [] \<and> (hd v = CHR ''-'' \<or> jsonDigit (hd v)) then map_option (\<lambda>i. f i r) (atoi_ok (atoi v)) else None)"

text \<open>The fields of a struct, each with what storing a value in it does.\<close>

fun storeMember :: "(string \<times> (string \<Rightarrow> 'r \<Rightarrow> 'r option)) list \<Rightarrow> string \<times> string \<Rightarrow> 'r \<Rightarrow> 'r option" where
  "storeMember [] m r = Some r"
| "storeMember ((name, f) # fs) (k, v) r = (if foldsTo k name then f v r else storeMember fs (k, v) r)"

fun storeMembers :: "(string \<times> (string \<Rightarrow> 'r \<Rightarrow> 'r option)) list \<Rightarrow> (string \<times> string) list \<Rightarrow> 'r \<Rightarrow> 'r option" where
  "storeMembers fs [] r = Some r"
| "storeMembers fs (m # ms) r = Option.bind (storeMember fs m r) (storeMembers fs ms)"

definition unmarshalStruct :: "(string \<times> (string \<Rightarrow> 'r \<Rightarrow> 'r option)) list \<Rightarrow> 'r \<Rightarrow> string \<Rightarrow> 'r option" where
  "unmarshalStruct fs zero s = Option.bind (objectMembers s) (\<lambda>ms. storeMembers fs ms zero)"

subsection \<open>Values inside objects\<close>

definition lifted :: "json_state \<Rightarrow> json_state" where
  "lifted s = (if s = EndTop then EndValue else s)"

text \<open>A frame under the frames of a value changes nothing but what the end of the value is called.\<close>

definition over :: "json_frame list \<Rightarrow> json_scan option \<Rightarrow> json_scan option \<Rightarrow> bool" where
  "over fs r r' \<longleftrightarrow> (\<forall>t hs. r = Some (t, hs) \<longrightarrow> r' \<noteq> None \<longrightarrow> r' = Some (lifted t, hs @ fs))"

lemma over_None [simp]: "over fs None r'" "over fs r None"
  by (simp_all add: over_def)

lemma over_Some [simp]: "over fs (Some (t, hs)) (Some (u, gs)) \<longleftrightarrow> u = lifted t \<and> gs = hs @ fs"
  by (auto simp: over_def)

lemma lifted_simps [simp]: "lifted EndTop = EndValue" "s \<noteq> EndTop \<Longrightarrow> lifted s = s"
  by (simp_all add: lifted_def)

lemma over_pop: "fs \<noteq> [] \<Longrightarrow> gs \<noteq> [] \<Longrightarrow> over fs (popFrame gs) (popFrame (gs @ fs))"
  by (cases gs) (auto simp: over_def lifted_def)

lemma over_push: "s \<noteq> EndTop \<Longrightarrow> over fs (pushFrame s f gs) (pushFrame s f (gs @ fs))"
  by (simp add: over_def)

lemma over_end:
  assumes "fs \<noteq> []"
  shows "over fs (endValue c gs) (endValue c (gs @ fs))"
proof (cases gs)
  case Nil
  obtain f fs' where "fs = f # fs'" using assms by (cases fs) auto
  with Nil show ?thesis by (simp add: over_def)
next
  case (Cons g gs')
  have "over fs (popFrame (g # gs')) (popFrame (g # gs' @ fs))" using over_pop [OF assms, of "g # gs'"] by simp
  then show ?thesis unfolding Cons by (cases g) simp_all
qed

lemma over_begin: "s \<noteq> EndTop \<Longrightarrow> over fs (beginValue s c gs) (beginValue s c (gs @ fs))"
  using over_push [of BeginStringOrEmpty fs ObjectKey gs] over_push [of BeginValueOrEmpty fs ArrayValue gs]
  by (simp add: beginValue_def del: pushFrame.simps)

lemma over_begin_string: "s \<noteq> EndTop \<Longrightarrow> over fs (beginString s c gs) (beginString s c (gs @ fs))"
  by (simp add: beginString_def)

lemma over_digits: "fs \<noteq> [] \<Longrightarrow> over fs (afterDigits c gs) (afterDigits c (gs @ fs))"
  using over_end [of fs c gs] by (simp add: afterDigits_def)

lemma scanStep_over:
  assumes "s = EndTop \<longrightarrow> gs = []" and "fs \<noteq> []"
  shows "over fs (scanStep c (s, gs)) (scanStep c (lifted s, gs @ fs))"
proof (cases s)
  case EndTop
  with assms show ?thesis by (cases fs) (simp_all add: over_def)
next
  case BeginStringOrEmpty
  show ?thesis
  proof (cases gs)
    case Nil
    then show ?thesis using BeginStringOrEmpty over_begin_string [of BeginStringOrEmpty fs c gs] by simp
  next
    case (Cons g gs')
    then show ?thesis using BeginStringOrEmpty over_begin_string [of BeginStringOrEmpty fs c gs] over_pop [OF assms(2), of gs] by simp
  qed
next
  case BeginValueOrEmpty
  then show ?thesis using over_end [OF assms(2), of c gs] over_begin [of BeginValueOrEmpty fs c gs] by auto
next
  case (InHex n)
  then show ?thesis by (cases n) simp_all
next
  case (Literal l)
  then show ?thesis by (cases l) simp_all
qed (use assms over_end [OF assms(2), of c gs] over_begin [of _ fs c gs] over_begin_string [of _ fs c gs] over_digits [OF assms(2), of c gs] in simp_all)

lemma scanStep_lifted:
  assumes "scanStep c (s, gs) = Some (t, hs)" and "s = EndTop \<longrightarrow> gs = []" and "fs \<noteq> []"
    and "scanStep c (lifted s, gs @ fs) \<noteq> None"
  shows "scanStep c (lifted s, gs @ fs) = Some (lifted t, hs @ fs)"
  using scanStep_over [OF assms(2,3), of c] assms(1,4) by (auto simp: over_def)

lemma value_run:
  assumes "scanAll (s, gs) xs = Some (t, hs)" and "s = EndTop \<longrightarrow> gs = []" and "scanAll (lifted s, gs @ [ObjectValue]) xs \<noteq> None"
  shows "scanAll (lifted s, gs @ [ObjectValue]) xs = Some (lifted t, hs @ [ObjectValue])
    \<and> membersFrom (lifted s, gs @ [ObjectValue]) k v (xs @ ys) = membersFrom (lifted t, hs @ [ObjectValue]) k (v @ xs) ys"
  using assms
proof (induction xs arbitrary: s gs v)
  case Nil
  then show ?case by simp
next
  case (Cons x xs)
  obtain u ws where u: "scanStep x (s, gs) = Some (u, ws)" "scanAll (u, ws) xs = Some (t, hs)"
    using Cons.prems(1) by (auto simp: bind_eq_Some_conv)
  have l: "scanStep x (lifted s, gs @ [ObjectValue]) = Some (lifted u, ws @ [ObjectValue])"
    using scanStep_lifted [OF u(1) Cons.prems(2)] Cons.prems(3) by (cases "scanStep x (lifted s, gs @ [ObjectValue])") auto
  have e: "u = EndTop \<longrightarrow> ws = []" using scanStep_top [OF u(1)] Cons.prems(2) by simp
  have "scanAll (lifted u, ws @ [ObjectValue]) xs \<noteq> None" using Cons.prems(3) l by simp
  from Cons.IH [OF u(2) e this, of "v @ [x]"] show ?case by (simp add: l outermost_def)
qed

lemma scanEof_end: "scanEof (t, hs) \<Longrightarrow> t = EndTop \<longrightarrow> hs = [] \<Longrightarrow>
    hs = [] \<and> (\<forall>c. c = CHR '','' \<or> c = CHR ''}'' \<longrightarrow> scanStep c (lifted t, [ObjectValue]) = endValue c [ObjectValue])"
proof -
  assume t: "scanEof (t, hs)" "t = EndTop \<longrightarrow> hs = []"
  then obtain u ws where u: "scanStep (CHR '' '') (t, hs) = Some (u, ws)" "u = EndTop"
    unfolding scanEof_def by (auto split: option.splits)
  have "hs = []" using u t(2)
    by (cases "(CHR '' '', (t, hs))" rule: scanStep.cases)
      (auto simp: beginValue_def beginString_def afterDigits_def jsonSpace_def jsonDigit_def hexDigit_def
        elim!: endValue.elims split: if_splits)
  moreover have "scanStep c (lifted t, [ObjectValue]) = endValue c [ObjectValue]" if "c = CHR '','' \<or> c = CHR ''}''" for c
    using u that t(2)
    by (cases "(CHR '' '', (t, hs))" rule: scanStep.cases)
      (auto simp: beginValue_def beginString_def afterDigits_def jsonSpace_def jsonDigit_def hexDigit_def
        split: if_splits)
  ultimately show ?thesis by blast
qed

text \<open>A value that may stand in an object: valid, and not nested too deeply for that.\<close>

definition valueText :: "string \<Rightarrow> bool" where
  "valueText v \<longleftrightarrow> jsonValid v \<and> scanAll (BeginValue, [ObjectValue]) v \<noteq> None"

lemma valueText_run:
  assumes "valueText v"
  shows "\<exists>t. scanAll (BeginValue, [ObjectValue]) v = Some (t, [ObjectValue])
    \<and> (\<forall>k w ys. membersFrom (BeginValue, [ObjectValue]) k w (v @ ys) = membersFrom (t, [ObjectValue]) k (w @ v) ys)
    \<and> (\<forall>c. c = CHR '','' \<or> c = CHR ''}'' \<longrightarrow> scanStep c (t, [ObjectValue]) = endValue c [ObjectValue])"
proof -
  obtain t hs where t: "scanAll (BeginValue, []) v = Some (t, hs)" "scanEof (t, hs)"
    using assms by (auto simp: valueText_def jsonValid_def split: option.splits)
  have "t = EndTop \<longrightarrow> hs = []" using scanAll_top [OF t(1)] by simp
  from scanEof_end [OF t(2) this] have hs: "hs = []"
    "\<forall>c. c = CHR '','' \<or> c = CHR ''}'' \<longrightarrow> scanStep c (lifted t, [ObjectValue]) = endValue c [ObjectValue]" by auto
  have b: "lifted BeginValue = BeginValue" by simp
  from value_run [OF t(1), unfolded hs(1) b append_Nil] assms
  have "scanAll (BeginValue, [ObjectValue]) v = Some (lifted t, [ObjectValue])"
    "\<And>k w ys. membersFrom (BeginValue, [ObjectValue]) k w (v @ ys) = membersFrom (lifted t, [ObjectValue]) k (w @ v) ys"
    unfolding valueText_def by blast+
  then show ?thesis using hs(2) by blast
qed

subsection \<open>Written objects\<close>

text \<open>The keys of the structs: nothing in them is escaped.\<close>

definition plainKey :: "string \<Rightarrow> bool" where
  "plainKey k \<longleftrightarrow> list_all (\<lambda>c. 65 \<le> byte c \<and> byte c \<le> 90 \<or> 97 \<le> byte c \<and> byte c \<le> 122) k"

lemma quote_plainKey: "plainKey k \<Longrightarrow> quoteBody k = k"
  unfolding quoteBody_def by (induction k) (auto simp: plainKey_def pieces_ascii rune_error_def)

lemma plainKey_utf8: "plainKey k \<Longrightarrow> valid_utf8 k"
  by (rule ascii_valid) (auto simp: plainKey_def list_all_iff)

lemma plainKey_run:
  "plainKey b \<Longrightarrow> membersFrom (InString, [ObjectKey]) k v (b @ ys) = membersFrom (InString, [ObjectKey]) (k @ b) v ys"
  by (induction b arbitrary: k) (auto simp: plainKey_def outermost_def)

lemma key_run:
  assumes "plainKey n" and "s = BeginString \<or> s = BeginStringOrEmpty"
  shows "membersFrom (s, [ObjectKey]) [] [] (marshalString n @ CHR '':'' # ys) = membersFrom (BeginValue, [ObjectValue]) (marshalString n) [] ys"
proof -
  have "membersFrom (s, [ObjectKey]) [] [] (marshalString n @ CHR '':'' # ys)
      = membersFrom (InString, [ObjectKey]) [CHR 0x22] [] (n @ CHR 0x22 # CHR '':'' # ys)"
    using assms(2) by (auto simp: marshalString_def quote_plainKey [OF assms(1)] outermost_def beginString_def jsonSpace_def)
  also have "\<dots> = membersFrom (InString, [ObjectKey]) (CHR 0x22 # n) [] (CHR 0x22 # CHR '':'' # ys)"
    using plainKey_run [OF assms(1), of "[CHR 0x22]"] by simp
  also have "\<dots> = membersFrom (BeginValue, [ObjectValue]) (marshalString n) [] ys"
    by (simp add: marshalString_def quote_plainKey [OF assms(1)] outermost_def jsonSpace_def)
  finally show ?thesis .
qed

definition memberText :: "string \<times> string \<Rightarrow> bool" where
  "memberText m \<longleftrightarrow> plainKey (fst m) \<and> valueText (snd m)"

lemma members_run:
  assumes "list_all memberText kvs" and "kvs \<noteq> []" and "s = BeginString \<or> s = BeginStringOrEmpty"
  shows "membersFrom (s, [ObjectKey]) [] [] (join '','' (map marshalMember kvs) @ [CHR 0x7D])
      = map (\<lambda>(k, v). (marshalString k, v)) kvs"
    and "scanAll (s, [ObjectKey]) (join '','' (map marshalMember kvs) @ [CHR 0x7D]) = Some (EndTop, [])"
proof -
  have "membersFrom (s, [ObjectKey]) [] [] (join '','' (map marshalMember kvs) @ [CHR 0x7D])
      = map (\<lambda>(k, v). (marshalString k, v)) kvs
    \<and> scanAll (s, [ObjectKey]) (join '','' (map marshalMember kvs) @ [CHR 0x7D]) = Some (EndTop, [])"
    using assms
  proof (induction kvs arbitrary: s)
    case (Cons m kvs)
    obtain k v where m: "m = (k, v)" by fastforce
    then have k: "plainKey k" and v: "valueText v" using Cons.prems(1) by (simp_all add: memberText_def)
    obtain t where t: "scanAll (BeginValue, [ObjectValue]) v = Some (t, [ObjectValue])"
      "\<And>k w ys. membersFrom (BeginValue, [ObjectValue]) k w (v @ ys) = membersFrom (t, [ObjectValue]) k (w @ v) ys"
      "\<And>c. c = CHR '','' \<or> c = CHR ''}'' \<Longrightarrow> scanStep c (t, [ObjectValue]) = endValue c [ObjectValue]"
      using valueText_run [OF v] by blast
    have key: "scanAll (s, [ObjectKey]) (marshalString k) = Some (EndValue, [ObjectKey])"
      using scan_marshalString [OF plainKey_utf8 [OF k]] Cons.prems(3) by auto
    have sk: "scanAll (s, [ObjectKey]) (marshalString k @ CHR '':'' # v @ ys) = scanAll (t, [ObjectValue]) ys" for ys
      by (simp add: scanAll_append key t(1) jsonSpace_def)
    note run = key_run [OF k Cons.prems(3)]
    show ?case
    proof (cases "kvs = []")
      case True
      then show ?thesis using run [of "v @ [CHR ''}'']"] sk [of "[CHR ''}'']"] t(3) [of "CHR ''}''"]
        by (simp add: m t(2) outermost_def jsonSpace_def)
    next
      case False
      then have j: "join '','' (map marshalMember (m # kvs)) @ [CHR 0x7D]
          = marshalString k @ CHR '':'' # v @ CHR '','' # join '','' (map marshalMember kvs) @ [CHR 0x7D]"
        by (simp add: m join_Cons)
      have c: "scanStep (CHR '','') (t, [ObjectValue]) = Some (BeginString, [ObjectKey])" using t(3) [of "CHR '',''"] by (simp add: jsonSpace_def)
      from Cons.IH [OF _ False, of BeginString] Cons.prems(1)
      show ?thesis unfolding j run sk t(2) by (simp add: c outermost_def m)
    qed
  qed simp
  then show "membersFrom (s, [ObjectKey]) [] [] (join '','' (map marshalMember kvs) @ [CHR 0x7D]) = map (\<lambda>(k, v). (marshalString k, v)) kvs"
    and "scanAll (s, [ObjectKey]) (join '','' (map marshalMember kvs) @ [CHR 0x7D]) = Some (EndTop, [])" by blast+
qed

end
