(* ===== verification/JsonCompact.thy ===== *)
theory JsonCompact
  imports JsonObjects
begin

text \<open>
  What compaction keeps of a JSON text: the compacted text is read to the same end as the original, has no
  space outside strings and no line end, and may stand as the value of a member wherever the original may.
  With that, structs come back from the lines they are written as.
\<close>

subsection \<open>Compacted texts\<close>

definition numberEnd :: "json_state \<Rightarrow> bool" where
  "numberEnd s \<longleftrightarrow> s = Integer \<or> s = Zero \<or> s = Fraction \<or> s = ExponentDigits"

text \<open>The rests of the three literals.\<close>

fun properState :: "json_state \<Rightarrow> bool" where
  "properState (Literal l) = list_all (\<lambda>c. c \<in> set ''rualsen'') l"
| "properState s = True"

text \<open>The state behind a text and the state behind its compaction.\<close>

definition keepsUp :: "json_scan \<Rightarrow> json_scan \<Rightarrow> bool" where
  "keepsUp s s' \<longleftrightarrow> snd s = snd s' \<and> properState (fst s)
     \<and> (fst s = fst s' \<or> (fst s = EndValue \<or> fst s = EndTop) \<and> numberEnd (fst s') \<or> fst s = EndTop \<and> fst s' = EndValue)
     \<and> (fst s = EndTop \<longrightarrow> snd s = [])"

lemma proper_end: "endValue c fs = Some t \<Longrightarrow> properState (fst t)"
  by (cases fs) (auto split: if_splits json_frame.splits)

lemma proper_step: "scanStep c s = Some t \<Longrightarrow> properState (fst s) \<Longrightarrow> properState (fst t)"
proof (cases "fst s")
  case BeginValueOrEmpty
  then show "scanStep c s = Some t \<Longrightarrow> ?thesis"
    by (cases s) (auto simp: beginValue_def dest: proper_end split: if_splits)
next
  case BeginStringOrEmpty
  then show "scanStep c s = Some t \<Longrightarrow> ?thesis"
    by (cases s) (auto simp: beginString_def elim: popFrame.elims split: if_splits)
next
  case (InHex n)
  then show "scanStep c s = Some t \<Longrightarrow> ?thesis" by (cases s; cases n) (auto split: if_splits)
next
  case (Literal l)
  then show "scanStep c s = Some t \<Longrightarrow> properState (fst s) \<Longrightarrow> ?thesis" by (cases s; cases l) (auto split: if_splits)
qed (cases s; auto simp: beginValue_def beginString_def afterDigits_def dest: proper_end split: if_splits)+

text \<open>Spaces only in strings.\<close>

fun tight :: "json_scan \<Rightarrow> string \<Rightarrow> bool" where
  "tight s [] = True"
| "tight s (c # cs) = ((jsonSpace c \<longrightarrow> fst s = InString) \<and> (case scanStep c s of None \<Rightarrow> True | Some t \<Rightarrow> tight t cs))"

lemma tight_append: "tight s (xs @ ys) \<longleftrightarrow> tight s xs \<and> (case scanAll s xs of None \<Rightarrow> True | Some t \<Rightarrow> tight t ys)"
  by (induction xs arbitrary: s) (auto split: option.splits)

lemma jsonSpace_byte: "jsonSpace c \<Longrightarrow> byte c = 32 \<or> byte c = 9 \<or> byte c = 13 \<or> byte c = 10"
  by (auto simp: jsonSpace_def)

lemma endValue_space: "jsonSpace c \<Longrightarrow> endValue c fs = Some (if fs = [] then EndTop else EndValue, fs)"
  by (cases fs) simp_all

lemma afterDigits_space: "jsonSpace c \<Longrightarrow> afterDigits c fs = endValue c fs"
  by (auto simp: afterDigits_def jsonSpace_def)

lemma space_not_hex: "jsonSpace c \<Longrightarrow> \<not> hexDigit c \<and> \<not> jsonDigit c"
  by (auto simp: hexDigit_def jsonDigit_def dest!: jsonSpace_byte)

lemma kept_space:
  assumes "jsonSpace c" and "fst s \<noteq> InString" and "scanStep c s = Some t" and "keepsUp s s'"
  shows "keepsUp t s'"
proof -
  note c = space_not_hex [OF assms(1)]
  have "c \<notin> set ''bfnrt/''" "c \<noteq> CHR ''u''" "c \<noteq> CHR ''0''" "c \<noteq> CHR ''+''" "c \<noteq> CHR ''-''" "c \<noteq> CHR '']''" "c \<noteq> CHR ''}''"
    "c \<notin> set ''rualsen''" "byte c \<noteq> 34" "byte c \<noteq> 92" "c \<noteq> CHR ''.''" "c \<noteq> CHR ''e''" "c \<noteq> CHR ''E''"
    using assms(1) by (auto dest: jsonSpace_byte)
  note n = this
  show ?thesis
  proof (cases "fst s")
    case (InHex k)
    then show ?thesis using assms c by (cases s; cases k) auto
  next
    case (Literal l)
    then show ?thesis using assms n by (cases s; cases l) (auto simp: keepsUp_def split: if_splits)
  qed (use assms c n in \<open>cases s; auto simp: keepsUp_def numberEnd_def beginValue_def beginString_def endValue_space afterDigits_def split: if_splits\<close>)+
qed

lemma kept_byte:
  assumes "\<not> (jsonSpace c \<and> fst s \<noteq> InString)" and "scanStep c s = Some t" and "keepsUp s s'"
  shows "scanStep c s' = Some t"
proof (cases "fst s = fst s'")
  case True
  then have "s' = s" using assms(3) by (simp add: keepsUp_def prod_eq_iff)
  with assms(2) show ?thesis by simp
next
  case False
  obtain fs where s: "fst s = EndValue" "s = (EndValue, fs)" "snd s' = fs"
    using False assms by (cases s) (auto simp: keepsUp_def split: if_splits)
  then have n: "numberEnd (fst s')" using False assms(3) by (auto simp: keepsUp_def)
  have e: "endValue c fs = Some t" "\<not> jsonSpace c" using assms(1,2) s by auto
  then obtain f fs' where "fs = f # fs'" by (cases fs) auto
  then have "c = CHR '':'' \<or> c = CHR '','' \<or> c = CHR ''}'' \<or> c = CHR '']''" using e by (auto split: json_frame.splits if_splits)
  then have "scanStep c (fst s', fs) = endValue c fs"
    using n by (auto simp: numberEnd_def afterDigits_def jsonDigit_def)
  then show ?thesis using e(1) s(3) by (cases s') simp
qed

lemma html_end: "c = CHR ''<'' \<or> c = CHR ''>'' \<or> c = CHR ''&'' \<Longrightarrow> endValue c fs = None"
  by (elim disjE; cases fs; simp add: jsonSpace_def split: json_frame.split)

lemma html_in_string:
  assumes "scanStep c s = Some t" and c: "c = CHR ''<'' \<or> c = CHR ''>'' \<or> c = CHR ''&''" and "properState (fst s)"
  shows "fst s = InString \<and> t = s"
proof (cases "fst s")
  case (InHex k)
  then show ?thesis using assms by (cases s; cases k) (auto simp: hexDigit_def jsonDigit_def)
next
  case (Literal l)
  then show ?thesis using assms by (cases s; cases l) (auto split: if_splits)
qed (use assms html_end [OF c] in \<open>cases s; auto simp: beginValue_def beginString_def afterDigits_def jsonSpace_def jsonDigit_def\<close>)+

lemma scan_escape:
  assumes "hexDigit a" "hexDigit b" "hexDigit c" "hexDigit d"
  shows "scanAll (InString, fs) (backslash # CHR ''u'' # [a, b, c, d] @ ys) = scanAll (InString, fs) ys"
    and "tight (InString, fs) (backslash # CHR ''u'' # [a, b, c, d])"
proof -
  have "\<not> jsonSpace a" "\<not> jsonSpace b" "\<not> jsonSpace c" "\<not> jsonSpace d" "\<not> jsonSpace backslash" "\<not> jsonSpace (CHR ''u'')"
    using assms space_not_hex by (blast, blast, blast, blast, auto dest: jsonSpace_byte)
  then show "tight (InString, fs) (backslash # CHR ''u'' # [a, b, c, d])" using assms by (simp add: numeral_eq_Suc)
qed (use assms in \<open>simp add: numeral_eq_Suc\<close>)

lemma hexDigit_used: "hexDigit (CHR ''0'')" "hexDigit (CHR ''2'')" "hexDigit (CHR ''3'')" "hexDigit (CHR ''6'')"
  "hexDigit (CHR ''8'')" "hexDigit (CHR ''9'')" "hexDigit (CHR ''c'')" "hexDigit (CHR ''e'')"
  by (simp_all add: hexDigit_def jsonDigit_def)

lemma html_scan:
  assumes "scanStep c s = Some t" and "jsonSpace c \<longrightarrow> fst s = InString" and "properState (fst s)"
  shows "scanAll s (htmlEscape c) = Some t \<and> tight s (htmlEscape c)"
proof (cases "c = CHR ''<'' \<or> c = CHR ''>'' \<or> c = CHR ''&''")
  case True
  obtain fs where s: "s = (InString, fs)" "t = s" using html_in_string [OF assms(1) True assms(3)] by (cases s) auto
  have e: "htmlEscape c = backslash # CHR ''u'' # [CHR ''0'', CHR ''0'', CHR ''3'', CHR ''c'']
      \<or> htmlEscape c = backslash # CHR ''u'' # [CHR ''0'', CHR ''0'', CHR ''3'', CHR ''e'']
      \<or> htmlEscape c = backslash # CHR ''u'' # [CHR ''0'', CHR ''0'', CHR ''2'', CHR ''6'']"
    using True by (auto simp: htmlEscape_def)
  note h = hexDigit_used
  from e show ?thesis unfolding s
  proof (elim disjE)
    assume e: "htmlEscape c = backslash # CHR ''u'' # [CHR ''0'', CHR ''0'', CHR ''3'', CHR ''c'']"
    show "scanAll (InString, fs) (htmlEscape c) = Some (InString, fs) \<and> tight (InString, fs) (htmlEscape c)"
      unfolding e using scan_escape(1) [OF h(1) h(1) h(3) h(7), of fs "[]"] scan_escape(2) [OF h(1) h(1) h(3) h(7), of fs]
      by simp
  next
    assume e: "htmlEscape c = backslash # CHR ''u'' # [CHR ''0'', CHR ''0'', CHR ''3'', CHR ''e'']"
    show "scanAll (InString, fs) (htmlEscape c) = Some (InString, fs) \<and> tight (InString, fs) (htmlEscape c)"
      unfolding e using scan_escape(1) [OF h(1) h(1) h(3) h(8), of fs "[]"] scan_escape(2) [OF h(1) h(1) h(3) h(8), of fs]
      by simp
  next
    assume e: "htmlEscape c = backslash # CHR ''u'' # [CHR ''0'', CHR ''0'', CHR ''2'', CHR ''6'']"
    show "scanAll (InString, fs) (htmlEscape c) = Some (InString, fs) \<and> tight (InString, fs) (htmlEscape c)"
      unfolding e using scan_escape(1) [OF h(1) h(1) h(2) h(4), of fs "[]"] scan_escape(2) [OF h(1) h(1) h(2) h(4), of fs]
      by simp
  qed
next
  case False
  then show ?thesis using assms by (simp add: htmlEscape_def)
qed

lemma keptBytes_scan:
  assumes "scanAll s v = Some t" and "keepsUp s s'"
  shows "\<exists>t'. scanAll s' (keptBytes s v) = Some t' \<and> keepsUp t t' \<and> tight s' (keptBytes s v)"
  using assms
proof (induction v arbitrary: s s')
  case Nil
  then show ?case by simp
next
  case (Cons c v)
  obtain u where u: "scanStep c s = Some u" "scanAll u v = Some t" using Cons.prems(1) by (auto simp: bind_eq_Some_conv)
  show ?case
  proof (cases "jsonSpace c \<and> fst s \<noteq> InString")
    case True
    then show ?thesis using Cons.IH [OF u(2) kept_space [OF _ _ u(1) Cons.prems(2)]] by (simp add: u(1))
  next
    case False
    from kept_byte [OF False u(1) Cons.prems(2)] have b: "scanStep c s' = Some u" .
    have "fst s = fst s'" if "fst s = InString" using Cons.prems(2) that by (auto simp: keepsUp_def)
    with False have "jsonSpace c \<longrightarrow> fst s' = InString" by auto
    have p: "properState (fst s')" using Cons.prems(2) by (auto simp: keepsUp_def numberEnd_def)
    from html_scan [OF b \<open>jsonSpace c \<longrightarrow> fst s' = InString\<close> p] have h: "scanAll s' (htmlEscape c) = Some u" "tight s' (htmlEscape c)" by simp_all
    have "fst s = EndTop \<longrightarrow> snd s = []" "properState (fst s)" using Cons.prems(2) unfolding keepsUp_def by blast+
    then have "keepsUp u u" using scanStep_top [OF u(1)] proper_step [OF u(1)] by (simp add: keepsUp_def)
    from Cons.IH [OF u(2) this] have "\<exists>t'. scanAll s' (htmlEscape c @ keptBytes u v) = Some t' \<and> keepsUp t t'
        \<and> tight s' (htmlEscape c @ keptBytes u v)" by (simp add: scanAll_append tight_append h)
    moreover have "keptBytes s (c # v) = htmlEscape c @ keptBytes u v" using False by (simp add: u(1) del: de_Morgan_conj)
    ultimately show ?thesis by (simp only:)
  qed
qed

lemma high_in_string: "scanStep c s = Some t \<Longrightarrow> byte c \<ge> 128 \<Longrightarrow> properState (fst s) \<Longrightarrow> fst s = InString \<and> t = s"
proof -
  assume a: "scanStep c s = Some t" "byte c \<ge> 128" "properState (fst s)"
  then have n: "c \<notin> set ''bfnrt/u0+-]}[{:,.eEtfn''" "c \<notin> set ''rualsen''" "\<not> jsonSpace c" "\<not> jsonDigit c" "\<not> hexDigit c"
    by (auto simp: jsonDigit_def hexDigit_def dest: jsonSpace_byte)
  then have e: "endValue c fs = None" for fs by (cases fs) (auto split: json_frame.split)
  show ?thesis
  proof (cases "fst s")
    case (InHex k)
    then show ?thesis using a n by (cases s; cases k) auto
  next
    case (Literal l)
    then show ?thesis using a n by (cases s; cases l) (auto split: if_splits)
  qed (use a n e in \<open>cases s; auto simp: beginValue_def beginString_def afterDigits_def\<close>)+
qed

lemma escapeSeparators_scan:
  assumes "scanAll s w = Some t" and "tight s w" and "properState (fst s)"
  shows "scanAll s (escapeSeparators w) = Some t \<and> tight s (escapeSeparators w)"
  using assms
proof (induction w arbitrary: s rule: escapeSeparators.induct)
  case (1 a b c cs)
  show ?case
  proof (cases "byte a = 0xE2 \<and> byte b = 0x80 \<and> (byte c = 0xA8 \<or> byte c = 0xA9)")
    case True
    obtain u1 where u1: "scanStep a s = Some u1" using "1.prems"(1) by (auto simp: bind_eq_Some_conv)
    then have s1: "fst s = InString" "u1 = s" using high_in_string [OF u1] True "1.prems"(3) by auto
    obtain fs where s: "s = (InString, fs)" using s1(1) by (cases s) auto
    have steps: "scanStep b s = Some s" "scanStep c s = Some s" using True unfolding s by auto
    then have rest: "scanAll s cs = Some t" "tight s cs" using "1.prems"(1,2) u1 s1 by auto
    from "1.IH"(1) [OF True rest "1.prems"(3)]
    have ih: "scanAll s (escapeSeparators cs) = Some t" "tight s (escapeSeparators cs)" by auto
    note h = hexDigit_used
    let ?x = "if byte c = 0xA8 then CHR ''8'' else CHR ''9''"
    have x: "hexDigit ?x" using h by simp
    have e: "escapeSeparators (a # b # c # cs) = (backslash # CHR ''u'' # [CHR ''2'', CHR ''0'', CHR ''2'', ?x]) @ escapeSeparators cs"
      using True by simp
    have "scanAll s (backslash # CHR ''u'' # [CHR ''2'', CHR ''0'', CHR ''2'', ?x]) = Some s"
      using scan_escape(1) [OF h(2) h(1) h(2) x, of fs "[]"] unfolding s by simp
    then show ?thesis unfolding e tight_append scanAll_append
      using ih scan_escape(2) [OF h(2) h(1) h(2) x, of fs] by (simp add: s del: scanAll.simps)
  next
    case False
    obtain u where u: "scanStep a s = Some u" "scanAll u (b # c # cs) = Some t" using "1.prems"(1) by (auto simp: bind_eq_Some_conv)
    have "tight u (b # c # cs)" using "1.prems"(2) u(1) by simp
    from "1.IH"(2) [OF False u(2) this] proper_step [OF u(1) "1.prems"(3)]
    have ih: "scanAll u (escapeSeparators (b # c # cs)) = Some t" "tight u (escapeSeparators (b # c # cs))" by auto
    have e: "escapeSeparators (a # b # c # cs) = a # escapeSeparators (b # c # cs)"
      by (subst escapeSeparators.simps(1)) (rule if_not_P [OF False])
    show ?thesis unfolding e using ih "1.prems"(2) by (simp add: u(1))
  qed
qed simp_all

lemma keptBytes_lifted:
  assumes "scanAll (s, gs) v \<noteq> None" and "scanAll (lifted s, gs @ fs) v \<noteq> None" and "s = EndTop \<longrightarrow> gs = []" and "fs \<noteq> []"
  shows "keptBytes (lifted s, gs @ fs) v = keptBytes (s, gs) v"
  using assms(1-3)
proof (induction v arbitrary: s gs)
  case (Cons c v)
  obtain t hs where t: "scanStep c (s, gs) = Some (t, hs)" "scanAll (t, hs) v \<noteq> None" using Cons.prems(1)
    by (cases "scanStep c (s, gs)") auto
  have l: "scanStep c (lifted s, gs @ fs) = Some (lifted t, hs @ fs)"
    using scanStep_lifted [OF t(1) Cons.prems(3) assms(4)] Cons.prems(2) by (cases "scanStep c (lifted s, gs @ fs)") auto
  have "t = EndTop \<longrightarrow> hs = []" using scanStep_top [OF t(1)] Cons.prems(3) by simp
  with Cons.IH [OF t(2)] Cons.prems(2) l have ih: "keptBytes (lifted t, hs @ fs) v = keptBytes (t, hs) v" by simp
  have "lifted s = InString \<longleftrightarrow> s = InString" by (simp add: lifted_def)
  then show ?case by (simp only: keptBytes.simps t(1) l option.case fst_conv ih)
qed simp

text \<open>A compacted value may stand where the value may, and is as tight as it can be.\<close>

lemma compact_value:
  assumes "valueText v"
  shows "valueText (compactJson v)" and "tight (BeginValue, []) (compactJson v)"
proof -
  let ?k = "keptBytes (BeginValue, []) v"
  have b: "keepsUp (BeginValue, fs) (BeginValue, fs)" for fs by (simp add: keepsUp_def)
  obtain t where t: "scanAll (BeginValue, []) v = Some t" "scanEof t"
    using assms by (auto simp: valueText_def jsonValid_def split: option.splits)
  obtain t' where t': "scanAll (BeginValue, []) ?k = Some t'" "keepsUp t t'" "tight (BeginValue, []) ?k"
    using keptBytes_scan [OF t(1) b] by blast
  have "scanAll (BeginValue, []) (compactJson v) = Some t' \<and> tight (BeginValue, []) (compactJson v)"
    unfolding compactJson_def using escapeSeparators_scan [OF t'(1,3)] by simp
  moreover have "scanEof t'"
  proof -
    obtain u where u: "scanStep (CHR '' '') t = Some u" "fst u = EndTop" using t(2) by (auto simp: scanEof_def split: option.splits)
    have "fst t = EndTop \<longrightarrow> snd t = []" using t'(2) unfolding keepsUp_def by blast
    from conjunct1 [OF scanEof_end [OF _ this]] t(2) have "snd t = []" by simp
    have "u = (EndTop, [])" using scanStep_top [OF u(1) \<open>fst t = EndTop \<longrightarrow> snd t = []\<close>] u(2) by (cases u) simp
    with \<open>snd t = []\<close> have "scanStep (CHR '' '') t' = Some (EndTop, [])"
      using t'(2) u by (cases t; cases t') (auto simp: keepsUp_def numberEnd_def jsonSpace_def jsonDigit_def afterDigits_def)
    then show ?thesis by (simp add: scanEof_def)
  qed
  ultimately have valid: "jsonValid (compactJson v)" "tight (BeginValue, []) (compactJson v)" by (simp_all add: jsonValid_def)
  obtain u where u: "scanAll (BeginValue, [ObjectValue]) v = Some u" using assms by (auto simp: valueText_def)
  have "keptBytes (lifted BeginValue, [] @ [ObjectValue]) v = ?k"
    by (rule keptBytes_lifted) (simp_all add: t(1) u)
  then have "keptBytes (BeginValue, [ObjectValue]) v = ?k" by simp
  with keptBytes_scan [OF u b] obtain u' where "scanAll (BeginValue, [ObjectValue]) ?k = Some u'" "tight (BeginValue, [ObjectValue]) ?k"
    by auto
  then have "scanAll (BeginValue, [ObjectValue]) (compactJson v) = Some u'"
    unfolding compactJson_def using escapeSeparators_scan by simp
  with valid show "valueText (compactJson v)" and "tight (BeginValue, []) (compactJson v)" by (simp_all add: valueText_def)
qed

subsection \<open>Outer spaces\<close>

lemma dropWhile_hd: "xs \<noteq> [] \<Longrightarrow> \<not> P (hd xs) \<Longrightarrow> dropWhile P xs = xs"
  by (cases xs) simp_all

lemma tight_trim:
  assumes "tight (BeginValue, []) w" and "jsonValid w"
  shows "trimJson w = w"
proof -
  have "w \<noteq> []" using assms(2) by auto
  moreover have "\<not> jsonSpace (hd w)" using assms(1) \<open>w \<noteq> []\<close> by (cases w) simp_all
  moreover have "\<not> jsonSpace (last w)"
  proof
    assume c: "jsonSpace (last w)"
    obtain t where t: "scanAll (BeginValue, []) w = Some t" "scanEof t"
      using assms(2) by (auto simp: jsonValid_def split: option.splits)
    have w: "w = butlast w @ [last w]" using \<open>w \<noteq> []\<close> by simp
    obtain u where u: "scanAll (BeginValue, []) (butlast w) = Some u" "scanStep (last w) u = Some t"
      using t(1) by (subst (asm) w) (auto simp: scanAll_append bind_eq_Some_conv)
    have "fst u = InString" using assms(1) c by (subst (asm) w) (simp add: tight_append u(1))
    then have "fst t = InString" using u(2) c by (cases u) (auto dest: jsonSpace_byte split: if_splits)
    then show False using t(2) by (cases t) (auto simp: scanEof_def)
  qed
  ultimately have "dropWhile jsonSpace w = w" "dropWhile jsonSpace (rev w) = rev w"
    using dropWhile_hd [of w jsonSpace] dropWhile_hd [of "rev w" jsonSpace] by (simp_all add: hd_rev)
  then show ?thesis by (simp add: trimJson_def)
qed

lemma trimJson_outer: "\<not> jsonSpace a \<Longrightarrow> \<not> jsonSpace b \<Longrightarrow> trimJson (a # w @ [b]) = a # w @ [b]"
  by (simp add: trimJson_def)

lemma trim_marshalString [simp]: "trimJson (marshalString s) = marshalString s"
  unfolding marshalString_def by (rule trimJson_outer) (simp_all add: jsonSpace_def)

lemma trim_compact [simp]: "valueText v \<Longrightarrow> trimJson (compactJson v) = compactJson v"
  using compact_value [of v] by (auto intro: tight_trim simp: valueText_def)

lemma compact_no_newline:
  assumes "valueText v"
  shows "CHR 0x0A \<notin> set (compactJson v)"
proof -
  have "CHR 0x0A \<notin> set w" if "tight s w" "scanAll s w \<noteq> None" for s w
    using that
  proof (induction w arbitrary: s)
    case (Cons c w)
    obtain t where t: "scanStep c s = Some t" using Cons.prems(2) by (cases "scanStep c s") auto
    have "c \<noteq> CHR 0x0A"
    proof
      assume c: "c = CHR 0x0A"
      then have "fst s = InString" using Cons.prems(1) by (simp add: jsonSpace_def)
      with t c show False by (cases s) (simp split: if_splits)
    qed
    moreover have "CHR 0x0A \<notin> set w" using Cons.IH [of t] Cons.prems t by simp
    ultimately show ?case by simp
  qed simp
  moreover have "scanAll (BeginValue, []) (compactJson v) \<noteq> None"
    using compact_value(1) [OF assms] by (auto simp: valueText_def jsonValid_def split: option.splits)
  ultimately show ?thesis using compact_value(2) [OF assms] by blast
qed

subsection \<open>Reading what was written\<close>

lemma marshalObject_valid:
  assumes "list_all memberText kvs" and "kvs \<noteq> []"
  shows "jsonValid (marshalObject kvs)"
proof -
  have "scanAll (BeginValue, []) (marshalObject kvs) = Some (EndTop, [])"
    using members_run(2) [OF assms, of BeginStringOrEmpty]
    by (simp add: marshalObject_def beginValue_def jsonSpace_def maxNestingDepth_def)
  then show ?thesis by (simp add: jsonValid_def scanEof_def jsonSpace_def)
qed

theorem object_comes_back:
  assumes "list_all memberText kvs" and "kvs \<noteq> []" and "\<forall>(k, v)\<in>set kvs. trimJson v = v"
  shows "objectMembers (marshalObject kvs) = Some kvs"
proof -
  have t: "trimJson (marshalObject kvs) = marshalObject kvs"
    unfolding marshalObject_def by (rule trimJson_outer) (simp_all add: jsonSpace_def)
  have "List.map_filter readMember (map (\<lambda>(k, v). (marshalString k, v)) kvs) = kvs"
    using assms(1,3)
  proof (induction kvs)
    case (Cons m kvs)
    obtain k v where m: "m = (k, v)" by fastforce
    have "unquote (marshalString k) = Some k" using Cons.prems(1) m by (simp add: memberText_def plainKey_utf8)
    then have "readMember (marshalString k, v) = Some (k, v)" using Cons.prems(2) by (simp add: m readMember_def)
    then show ?case using Cons by (simp add: m map_filter_simps)
  qed (simp add: map_filter_simps)
  then show ?thesis
    using members_run(1) [OF assms(1,2), of BeginStringOrEmpty] marshalObject_valid [OF assms(1,2)]
    unfolding objectMembers_def t Let_def by (simp add: marshalObject_def)
qed

text \<open>Values the structs hold: strings, numbers and compacted raw values.\<close>

lemma marshalString_value:
  assumes "valid_utf8 s"
  shows "valueText (marshalString s)"
  using scan_marshalString(1) [OF assms, of "[]"] scan_marshalString(1) [OF assms, of "[ObjectValue]"]
  by (simp add: valueText_def jsonValid_def scanEof_def jsonSpace_def)

lemma digits_scan: "\<forall>c\<in>set ds. jsonDigit c \<Longrightarrow> scanAll (Integer, fs) ds = Some (Integer, fs)"
  by (induction ds) simp_all

lemma decimal_leading: "decimal n = CHR ''0'' # cs \<Longrightarrow> n = 0 \<and> cs = []"
proof (induction n arbitrary: cs rule: decimal.induct)
  case (1 n)
  show ?case
  proof (cases "n < 10")
    case True
    then have c: "char_of (48 + n) = CHR ''0''" "cs = []" using "1.prems" by (simp_all add: decimal.simps [of n])
    have "byte (char_of (48 + n)) = 48 + n" by (rule byte_char_of) (use True in linarith)
    then have "n = 0" unfolding c(1) by simp
    then show ?thesis using c(2) by simp
  next
    case False
    obtain d ds where d: "decimal (n div 10) = d # ds" by (cases "decimal (n div 10)") auto
    then have "d = CHR ''0''" using "1.prems" False by (subst (asm) decimal.simps) simp
    with "1.IH" [OF False] d have "n div 10 = 0" by blast
    with False show ?thesis by simp
  qed
qed

lemma decimal_value: "valueText (decimal n)" "trimJson (decimal n) = decimal n"
proof -
  obtain d ds where d: "decimal n = d # ds" by (cases "decimal n") auto
  have digits: "\<forall>c\<in>set (decimal n). jsonDigit c" using decimal_digits by (auto simp: jsonDigit_def)
  then have dd: "jsonDigit d" "\<forall>c\<in>set ds. jsonDigit c" using d by simp_all
  have "scanAll (BeginValue, fs) (decimal n) = Some (if d = CHR ''0'' then Zero else Integer, fs)" for fs
  proof (cases "d = CHR ''0''")
    case True
    then show ?thesis using decimal_leading [of n ds] d by (simp add: beginValue_def jsonSpace_def)
  next
    case False
    have "\<not> jsonSpace d" using dd(1) space_not_hex by blast
    moreover have "d \<notin> set ''{[-tfn''" "byte d \<noteq> 34" using dd(1) by (auto simp: jsonDigit_def)
    ultimately show ?thesis using False dd digits_scan [OF dd(2)] d by (simp add: beginValue_def)
  qed
  then show "valueText (decimal n)" by (simp add: valueText_def jsonValid_def scanEof_def afterDigits_def jsonSpace_def jsonDigit_def)
  have n: "\<not> jsonSpace c" if "c \<in> set (decimal n)" for c using digits that space_not_hex by blast
  have "dropWhile jsonSpace (decimal n) = decimal n" "dropWhile jsonSpace (rev (decimal n)) = rev (decimal n)"
    using n by (auto intro!: dropWhile_hd simp: hd_rev)
  then show "trimJson (decimal n) = decimal n" by (simp add: trimJson_def)
qed

end
