(* ===== verification/ConversationFiles.thy ===== *)
theory ConversationFiles
  imports JsonCompact FileSystem "HOL-Library.List_Lexorder" "HOL-Library.Char_ord"
begin

text \<open>
  Conversations of the file store (\<open>store/fsstore/filesystem_conversation*.go\<close>): a conversation is a file of
  lines, the first a header, the others one message each. Reading, appending, the update of the header in
  place and the operations of a transaction over all files. Identifiers of users, agents and conversations
  hold no slash and no space; \<open>filepath.Glob\<close>, the formatting and parsing of RFC 3339 times, fresh identifiers
  and failing system calls are given by a record. Times of files are nanoseconds.
\<close>

subsection \<open>Lines\<close>

record file_message =
  fmId :: string
  fmRole :: string
  fmContent :: string
  fmTimestamp :: int
  fmMetadata :: string
  fmStop :: string
  fmUsage :: string
  fmModel :: string
  fmProvider :: string
  fmToolCalls :: string
  fmToolCallId :: string
  fmToolName :: string

record file_header =
  fhType :: string
  fhVersion :: int
  fhId :: string
  fhTimestamp :: string
  fhTitle :: string
  fhSummary :: string
  fhSummarizedAt :: int
  fhProvider :: string
  fhModel :: string

definition emptyMessage :: file_message where
  "emptyMessage = \<lparr>fmId = [], fmRole = [], fmContent = [], fmTimestamp = 0, fmMetadata = [], fmStop = [], fmUsage = [], fmModel = [],
     fmProvider = [], fmToolCalls = [], fmToolCallId = [], fmToolName = []\<rparr>"

definition emptyHeader :: file_header where
  "emptyHeader = \<lparr>fhType = [], fhVersion = 0, fhId = [], fhTimestamp = [], fhTitle = [], fhSummary = [], fhSummarizedAt = 0,
     fhProvider = [], fhModel = []\<rparr>"

definition messageFields :: "(string \<times> (string \<Rightarrow> file_message \<Rightarrow> file_message option)) list" where
  "messageFields =
     [(''id'', storeText (\<lambda>t r. r\<lparr>fmId := t\<rparr>)), (''role'', storeText (\<lambda>t r. r\<lparr>fmRole := t\<rparr>)),
      (''content'', storeRaw (\<lambda>t r. r\<lparr>fmContent := t\<rparr>)), (''timestamp'', storeInt (\<lambda>i r. r\<lparr>fmTimestamp := i\<rparr>)),
      (''metadata'', storeRaw (\<lambda>t r. r\<lparr>fmMetadata := t\<rparr>)), (''stopReason'', storeText (\<lambda>t r. r\<lparr>fmStop := t\<rparr>)),
      (''usage'', storeRaw (\<lambda>t r. r\<lparr>fmUsage := t\<rparr>)), (''model'', storeText (\<lambda>t r. r\<lparr>fmModel := t\<rparr>)),
      (''provider'', storeText (\<lambda>t r. r\<lparr>fmProvider := t\<rparr>)), (''toolCalls'', storeRaw (\<lambda>t r. r\<lparr>fmToolCalls := t\<rparr>)),
      (''toolCallId'', storeText (\<lambda>t r. r\<lparr>fmToolCallId := t\<rparr>)), (''toolName'', storeText (\<lambda>t r. r\<lparr>fmToolName := t\<rparr>))]"

definition headerFields :: "(string \<times> (string \<Rightarrow> file_header \<Rightarrow> file_header option)) list" where
  "headerFields =
     [(''type'', storeText (\<lambda>t r. r\<lparr>fhType := t\<rparr>)), (''version'', storeInt (\<lambda>i r. r\<lparr>fhVersion := i\<rparr>)),
      (''id'', storeText (\<lambda>t r. r\<lparr>fhId := t\<rparr>)), (''timestamp'', storeText (\<lambda>t r. r\<lparr>fhTimestamp := t\<rparr>)),
      (''title'', storeText (\<lambda>t r. r\<lparr>fhTitle := t\<rparr>)), (''summary'', storeText (\<lambda>t r. r\<lparr>fhSummary := t\<rparr>)),
      (''summarizedAt'', storeInt (\<lambda>i r. r\<lparr>fhSummarizedAt := i\<rparr>)), (''provider'', storeText (\<lambda>t r. r\<lparr>fhProvider := t\<rparr>)),
      (''model'', storeText (\<lambda>t r. r\<lparr>fhModel := t\<rparr>))]"

definition encodeMessage :: "file_message \<Rightarrow> string option" where
  "encodeMessage m =
     (case (marshalRaw (Some (fmContent m)), rawMember ''metadata'' (fmMetadata m), rawMember ''usage'' (fmUsage m),
            rawMember ''toolCalls'' (fmToolCalls m)) of
        (Some c, Some md, Some us, Some tc) \<Rightarrow>
          Some (marshalObject
            (textMember ''id'' (fmId m) @ [(''role'', marshalString (fmRole m)), (''content'', c), (''timestamp'', marshalInt (fmTimestamp m))]
             @ md @ textMember ''stopReason'' (fmStop m) @ us @ textMember ''model'' (fmModel m) @ textMember ''provider'' (fmProvider m)
             @ tc @ textMember ''toolCallId'' (fmToolCallId m) @ textMember ''toolName'' (fmToolName m)))
      | _ \<Rightarrow> None)"

definition encodeHeader :: "file_header \<Rightarrow> string" where
  "encodeHeader h = marshalObject
     ([(''type'', marshalString (fhType h)), (''version'', marshalInt (fhVersion h)), (''id'', marshalString (fhId h)),
       (''timestamp'', marshalString (fhTimestamp h))] @ textMember ''title'' (fhTitle h) @ textMember ''summary'' (fhSummary h)
      @ (if fhSummarizedAt h = 0 then [] else [(''summarizedAt'', marshalInt (fhSummarizedAt h))])
      @ textMember ''provider'' (fhProvider h) @ textMember ''model'' (fhModel h))"

definition decodeMessage :: "string \<Rightarrow> file_message option" where
  "decodeMessage = unmarshalStruct messageFields emptyMessage"

definition decodeHeader :: "string \<Rightarrow> file_header option" where
  "decodeHeader = unmarshalStruct headerFields emptyHeader"

definition peekType :: "string \<Rightarrow> string option" where
  "peekType = unmarshalStruct [(''type'', storeText (\<lambda>t r. t))] []"

subsection \<open>Files\<close>

text \<open>
  The lines of a file as a \<open>bufio.Scanner\<close> with a buffer of one megabyte delivers them, and whether it
  stopped at a line that fills the buffer.
\<close>

definition maxLine :: nat where
  "maxLine = 1024 * 1024"

fun linesUpTo :: "nat \<Rightarrow> string list \<Rightarrow> string list \<times> bool" where
  "linesUpTo n [] = ([], False)"
| "linesUpTo n (l # ls) =
     (if n \<le> length l then ([], True)
      else (case linesUpTo n ls of (xs, long) \<Rightarrow> (trim_suffix l [CHR 0x0D] # xs, long)))"

definition rawLines :: "string \<Rightarrow> string list" where
  "rawLines text = (let ls = split_byte (CHR 0x0A) text in if last ls = [] then butlast ls else ls)"

definition lineMessage :: "string \<Rightarrow> file_message option" where
  "lineMessage l =
     (if l = [] then None
      else if peekType l = Some ''conversation'' \<or> peekType l = Some ''session'' then None
      else (case decodeMessage l of None \<Rightarrow> None | Some m \<Rightarrow> if fmRole m = [] then None else Some m))"

definition loadConversationHeader :: "string \<Rightarrow> file_header option" where
  "loadConversationHeader text =
     (case linesUpTo maxLine (rawLines text) of (l # ls, long) \<Rightarrow> decodeHeader l | ([], long) \<Rightarrow> None)"

definition loadConversationData :: "string \<Rightarrow> (file_header \<times> file_message list) option" where
  "loadConversationData text =
     (case linesUpTo maxLine (rawLines text) of
        ([], long) \<Rightarrow> None
      | (l # ls, long) \<Rightarrow>
          (case decodeHeader l of
             None \<Rightarrow> None
           | Some h \<Rightarrow> if long then None else Some (h, List.map_filter lineMessage ls)))"

text \<open>\<open>updateConversationHeader\<close>: only the first line is replaced.\<close>

definition replaceHeader :: "(file_header \<Rightarrow> file_header) \<Rightarrow> string \<Rightarrow> string option" where
  "replaceHeader f text =
     (case index_byte text (CHR 0x0A) of
        None \<Rightarrow> None
      | Some i \<Rightarrow> map_option (\<lambda>h. encodeHeader (f h) @ drop i text) (decodeHeader (take i text)))"

subsection \<open>Models\<close>

definition trimmedString :: "string \<Rightarrow> string option" where
  "trimmedString t = (if trim_space t = [] then None else Some (trim_space t))"

definition pointed :: "string option \<Rightarrow> string" where
  "pointed p = (case p of None \<Rightarrow> [] | Some t \<Rightarrow> t)"

record conversation_message =
  cmId :: string
  cmConversation :: "string option"
  cmRole :: "string option"
  cmContent :: string
  cmToolCalls :: string
  cmUsage :: string
  cmMetadata :: string
  cmToolCallId :: "string option"
  cmToolName :: "string option"
  cmModel :: "string option"
  cmProvider :: "string option"
  cmStop :: "string option"
  cmCreated :: int

record stored_conversation =
  cvId :: string
  cvUser :: "string option"
  cvAgent :: "string option"
  cvDefault :: "bool option"
  cvTitle :: "string option"
  cvSummary :: "string option"
  cvSummarized :: "int option"
  cvCreated :: int
  cvModified :: int

text \<open>The three fields of a message, which older versions wrote into one object called metadata.\<close>

definition migrateMetadataEnvelope :: "file_message \<Rightarrow> string \<times> string \<times> string" where
  "migrateMetadataEnvelope m =
     (if fmToolCalls m \<noteq> [] \<or> fmUsage m \<noteq> [] then (fmToolCalls m, fmUsage m, fmMetadata m)
      else if fmMetadata m = [] then (fmToolCalls m, fmUsage m, [])
      else (case objectMembers (fmMetadata m) of
          None \<Rightarrow> (fmToolCalls m, fmUsage m, fmMetadata m)
        | Some ms \<Rightarrow>
            (let field = (\<lambda>k. pointed (map_of (rev ms) k)) in (field ''toolCalls'', field ''usage'', field ''metadata''))))"

definition conversationRawMessageToModel :: "string \<Rightarrow> file_message \<Rightarrow> conversation_message" where
  "conversationRawMessageToModel conv m =
     (let (calls, usage, metadata) = migrateMetadataEnvelope m in
      \<lparr>cmId = (if fmId m = [] then conv @ '':'' @ fmRole m @ '':'' @ marshalInt (fmTimestamp m) else fmId m),
       cmConversation = Some conv, cmRole = Some (fmRole m), cmContent = fmContent m, cmToolCalls = calls, cmUsage = usage,
       cmMetadata = metadata, cmToolCallId = trimmedString (fmToolCallId m), cmToolName = trimmedString (fmToolName m),
       cmModel = trimmedString (fmModel m), cmProvider = trimmedString (fmProvider m),
       cmStop = (if fmStop m = [] then None else Some (fmStop m)), cmCreated = fmTimestamp m * 1000000\<rparr>)"

end
