(* ===== verification/ConversationLines.thy ===== *)
theory ConversationLines
  imports ConversationFiles
begin

text \<open>
  What a conversation file holds after its operations: the line of a message is read back as that message, an
  append adds it behind the messages there are, and a new header leaves them alone.
\<close>

subsection \<open>Fields\<close>

definition fieldNames :: "string list" where
  "fieldNames = [''id'', ''role'', ''content'', ''timestamp'', ''metadata'', ''stopReason'', ''usage'', ''model'', ''provider'',
     ''toolCalls'', ''toolCallId'', ''toolName'', ''type'', ''version'', ''title'', ''summary'', ''summarizedAt'']"

lemma fieldNames_fold: "distinct (map (map (\<lambda>c. foldRune (byte c))) fieldNames)"
  by (simp add: fieldNames_def foldRune_def)

lemma fieldNames_plain: "list_all plainKey fieldNames"
  by (simp add: fieldNames_def plainKey_def)

lemma plain_runes: "plainKey a \<Longrightarrow> runes a = map of_char a"
  by (rule conjunct1 [OF ascii_string]) (auto simp: plainKey_def list_all_iff)

lemma foldsTo_fields: "a \<in> set fieldNames \<Longrightarrow> b \<in> set fieldNames \<Longrightarrow> foldsTo a b \<longleftrightarrow> a = b"
proof -
  assume a: "a \<in> set fieldNames" and b: "b \<in> set fieldNames"
  then have "runes a = map of_char a" "runes b = map of_char b"
    using fieldNames_plain plain_runes by (auto simp: list_all_iff)
  then have "foldsTo a b \<longleftrightarrow> map (\<lambda>c. foldRune (byte c)) a = map (\<lambda>c. foldRune (byte c)) b"
    by (simp add: foldsTo_def o_def)
  also have "\<dots> \<longleftrightarrow> a = b" using fieldNames_fold a b by (auto simp: distinct_map inj_on_def)
  finally show ?thesis .
qed

lemma storeMembers_append: "storeMembers fs (xs @ ys) r = Option.bind (storeMembers fs xs r) (storeMembers fs ys)"
  by (induction xs arbitrary: r) (simp_all split: Option.bind_split)

lemma marshalString_not_null [simp]: "marshalString s \<noteq> ''null''"
  by (simp add: marshalString_def)

lemma store_text:
  assumes "\<And>x r. storeMember fs (k, x) r = storeText f x r" and "valid_utf8 v" and "v = [] \<Longrightarrow> f v r = r"
  shows "storeMembers fs (textMember k v) r = Some (f v r)"
  using assms by (simp add: textMember_def storeText_def)

lemma store_string:
  assumes "\<And>x r. storeMember fs (k, x) r = storeText f x r" and "valid_utf8 v"
  shows "storeMember fs (k, marshalString v) r = Some (f v r)"
  using assms by (simp add: storeText_def)

lemma decimal_head: "\<exists>d ds. decimal n = d # ds \<and> jsonDigit d"
  using decimal_digits [of "hd (decimal n)" n] by (cases "decimal n") (auto simp: jsonDigit_def)

lemma store_number:
  assumes "\<And>x r. storeMember fs (k, x) r = storeInt f x r" and "0 \<le> i" and "i \<le> max_int64"
  shows "storeMember fs (k, marshalInt i) r = Some (f i r)"
proof -
  obtain d ds where d: "decimal (nat i) = d # ds" "jsonDigit d" using decimal_head by blast
  then have "d \<noteq> CHR ''n''" by (auto simp: jsonDigit_def)
  moreover have "atoi (decimal (nat i)) = AtoiOk i" using atoi_decimal [of "nat i"] assms(2,3) by simp
  ultimately show ?thesis using assms d by (simp add: storeInt_def marshalInt_def)
qed

lemma messageFields_store:
  "storeMember messageFields (''id'', x) r = storeText (\<lambda>t r. r\<lparr>fmId := t\<rparr>) x r"
  "storeMember messageFields (''role'', x) r = storeText (\<lambda>t r. r\<lparr>fmRole := t\<rparr>) x r"
  "storeMember messageFields (''content'', x) r = Some (r\<lparr>fmContent := x\<rparr>)"
  "storeMember messageFields (''timestamp'', x) r = storeInt (\<lambda>i r. r\<lparr>fmTimestamp := i\<rparr>) x r"
  "storeMember messageFields (''metadata'', x) r = Some (r\<lparr>fmMetadata := x\<rparr>)"
  "storeMember messageFields (''stopReason'', x) r = storeText (\<lambda>t r. r\<lparr>fmStop := t\<rparr>) x r"
  "storeMember messageFields (''usage'', x) r = Some (r\<lparr>fmUsage := x\<rparr>)"
  "storeMember messageFields (''model'', x) r = storeText (\<lambda>t r. r\<lparr>fmModel := t\<rparr>) x r"
  "storeMember messageFields (''provider'', x) r = storeText (\<lambda>t r. r\<lparr>fmProvider := t\<rparr>) x r"
  "storeMember messageFields (''toolCalls'', x) r = Some (r\<lparr>fmToolCalls := x\<rparr>)"
  "storeMember messageFields (''toolCallId'', x) r = storeText (\<lambda>t r. r\<lparr>fmToolCallId := t\<rparr>) x r"
  "storeMember messageFields (''toolName'', x) r = storeText (\<lambda>t r. r\<lparr>fmToolName := t\<rparr>) x r"
  by (simp_all add: messageFields_def foldsTo_fields fieldNames_def storeRaw_def)

lemma headerFields_store:
  "storeMember headerFields (''type'', x) r = storeText (\<lambda>t r. r\<lparr>fhType := t\<rparr>) x r"
  "storeMember headerFields (''version'', x) r = storeInt (\<lambda>i r. r\<lparr>fhVersion := i\<rparr>) x r"
  "storeMember headerFields (''id'', x) r = storeText (\<lambda>t r. r\<lparr>fhId := t\<rparr>) x r"
  "storeMember headerFields (''timestamp'', x) r = storeText (\<lambda>t r. r\<lparr>fhTimestamp := t\<rparr>) x r"
  "storeMember headerFields (''title'', x) r = storeText (\<lambda>t r. r\<lparr>fhTitle := t\<rparr>) x r"
  "storeMember headerFields (''summary'', x) r = storeText (\<lambda>t r. r\<lparr>fhSummary := t\<rparr>) x r"
  "storeMember headerFields (''summarizedAt'', x) r = storeInt (\<lambda>i r. r\<lparr>fhSummarizedAt := i\<rparr>) x r"
  "storeMember headerFields (''provider'', x) r = storeText (\<lambda>t r. r\<lparr>fhProvider := t\<rparr>) x r"
  "storeMember headerFields (''model'', x) r = storeText (\<lambda>t r. r\<lparr>fhModel := t\<rparr>) x r"
  by (simp_all add: headerFields_def foldsTo_fields fieldNames_def)

subsection \<open>Messages\<close>

definition rawText :: "string \<Rightarrow> bool" where
  "rawText v \<longleftrightarrow> v = [] \<or> valueText v"

definition compacted :: "string \<Rightarrow> string" where
  "compacted v = (if v = [] then [] else compactJson v)"

text \<open>A message whose texts are UTF-8 and whose raw fields are JSON, and what is read of its line.\<close>

definition goodMessage :: "file_message \<Rightarrow> bool" where
  "goodMessage m \<longleftrightarrow> valid_utf8 (fmId m) \<and> valid_utf8 (fmRole m) \<and> fmRole m \<noteq> [] \<and> valueText (fmContent m) \<and> 0 \<le> fmTimestamp m
     \<and> fmTimestamp m \<le> max_int64 \<and> rawText (fmMetadata m) \<and> valid_utf8 (fmStop m) \<and> rawText (fmUsage m) \<and> valid_utf8 (fmModel m)
     \<and> valid_utf8 (fmProvider m) \<and> rawText (fmToolCalls m) \<and> valid_utf8 (fmToolCallId m) \<and> valid_utf8 (fmToolName m)"

definition readForm :: "file_message \<Rightarrow> file_message" where
  "readForm m = m\<lparr>fmContent := compactJson (fmContent m), fmMetadata := compacted (fmMetadata m), fmUsage := compacted (fmUsage m),
     fmToolCalls := compacted (fmToolCalls m)\<rparr>"

definition messageMembers :: "file_message \<Rightarrow> (string \<times> string) list" where
  "messageMembers m =
     textMember ''id'' (fmId m) @ [(''role'', marshalString (fmRole m)), (''content'', compactJson (fmContent m)), (''timestamp'', marshalInt (fmTimestamp m))]
     @ (if fmMetadata m = [] then [] else [(''metadata'', compactJson (fmMetadata m))]) @ textMember ''stopReason'' (fmStop m)
     @ (if fmUsage m = [] then [] else [(''usage'', compactJson (fmUsage m))]) @ textMember ''model'' (fmModel m) @ textMember ''provider'' (fmProvider m)
     @ (if fmToolCalls m = [] then [] else [(''toolCalls'', compactJson (fmToolCalls m))]) @ textMember ''toolCallId'' (fmToolCallId m)
     @ textMember ''toolName'' (fmToolName m)"

lemma raw_member: "rawText v \<Longrightarrow> rawMember k v = Some (if v = [] then [] else [(k, compactJson v)])"
  by (auto simp: rawMember_def rawText_def marshalRaw_def valueText_def)

lemma encodeMessage_members: "goodMessage m \<Longrightarrow> encodeMessage m = Some (marshalObject (messageMembers m))"
  by (simp add: goodMessage_def encodeMessage_def raw_member marshalRaw_def messageMembers_def valueText_def)

definition writtenMember :: "string \<times> string \<Rightarrow> bool" where
  "writtenMember kv \<longleftrightarrow> fst kv \<in> set fieldNames \<and> valueText (snd kv) \<and> trimJson (snd kv) = snd kv \<and> CHR 0x0A \<notin> set (snd kv)"

lemma compact_written: "k \<in> set fieldNames \<Longrightarrow> valueText v \<Longrightarrow> writtenMember (k, compactJson v)"
  by (simp add: writtenMember_def compact_value compact_no_newline)

lemma quotePiece_no_newline: "valid_rune r \<Longrightarrow> CHR 0x0A \<notin> set (quotePiece (r, encode_rune r))"
proof
  assume r: "valid_rune r" and n: "CHR 0x0A \<in> set (quotePiece (r, encode_rune r))"
  have h: "CHR 0x0A \<noteq> hexChar k" if "k < 16" for k
  proof
    assume e: "CHR 0x0A = hexChar k"
    from hexDigit_hexChar [OF that] show False unfolding e [symmetric] by (simp add: hexDigit_def jsonDigit_def)
  qed
  show False
  proof (cases "128 \<le> r")
    case True
    have "CHR 0x0A \<notin> set (encode_rune r)" using encode_rune_high [OF True, of "CHR 0x0A"] by auto
    with n True h [of "r mod 16"] show False by (auto split: if_splits)
  next
    case False
    then have "encode_rune r = [char_of r]" by (simp add: encode_rune_ascii)
    moreover have "char_of r \<noteq> CHR 0x0A" if "r \<noteq> 10"
    proof
      assume c: "char_of r = CHR 0x0A"
      have "byte (char_of r) = r" by (rule byte_char_of) (use False in linarith)
      with that show False unfolding c by simp
    qed
    ultimately show False using n False h [of "r mod 16"] h [of "r div 16"] by (auto simp: rune_error_def split: if_splits)
  qed
qed

lemma marshalString_no_newline: "valid_utf8 s \<Longrightarrow> CHR 0x0A \<notin> set (marshalString s)"
proof -
  assume "valid_utf8 s"
  then obtain rs where rs: "s = string_of_runes rs" "\<forall>r\<in>set rs. valid_rune r" using valid_utf8_runes by blast
  then have "CHR 0x0A \<notin> set (quoteBody s)"
    unfolding rs(1) quoteBody_runes [OF rs(2)] using quotePiece_no_newline by (auto simp del: quotePiece.simps)
  then show ?thesis by (simp add: marshalString_def)
qed

lemma string_written: "k \<in> set fieldNames \<Longrightarrow> valid_utf8 v \<Longrightarrow> writtenMember (k, marshalString v)"
  by (simp add: writtenMember_def marshalString_value marshalString_no_newline)

lemma number_written: "k \<in> set fieldNames \<Longrightarrow> 0 \<le> i \<Longrightarrow> writtenMember (k, marshalInt i)"
  using decimal_value [of "nat i"] decimal_digits [of "CHR 0x0A" "nat i"] by (auto simp: writtenMember_def marshalInt_def)

lemma text_written: "k \<in> set fieldNames \<Longrightarrow> valid_utf8 v \<Longrightarrow> list_all writtenMember (textMember k v)"
  by (simp add: textMember_def string_written)

lemma known_names:
  "''id'' \<in> set fieldNames" "''role'' \<in> set fieldNames" "''content'' \<in> set fieldNames" "''timestamp'' \<in> set fieldNames"
  "''metadata'' \<in> set fieldNames" "''stopReason'' \<in> set fieldNames" "''usage'' \<in> set fieldNames" "''model'' \<in> set fieldNames"
  "''provider'' \<in> set fieldNames" "''toolCalls'' \<in> set fieldNames" "''toolCallId'' \<in> set fieldNames" "''toolName'' \<in> set fieldNames"
  "''type'' \<in> set fieldNames" "''version'' \<in> set fieldNames" "''title'' \<in> set fieldNames" "''summary'' \<in> set fieldNames"
  "''summarizedAt'' \<in> set fieldNames"
  by (simp_all add: fieldNames_def)

lemma raw_written: "k \<in> set fieldNames \<Longrightarrow> rawText v \<Longrightarrow> list_all writtenMember (if v = [] then [] else [(k, compactJson v)])"
  by (auto simp: rawText_def compact_written)

lemma messageMembers_written: "goodMessage m \<Longrightarrow> list_all writtenMember (messageMembers m)"
  unfolding messageMembers_def goodMessage_def list_all_append list.pred_inject
  by (elim conjE, intro conjI text_written raw_written string_written number_written compact_written known_names) (assumption | simp)+

lemma written_member: "writtenMember kv \<Longrightarrow> memberText kv"
  using fieldNames_plain by (auto simp: writtenMember_def memberText_def list_all_iff)

lemma written_object:
  assumes "list_all writtenMember kvs" and "kvs \<noteq> []"
  shows "objectMembers (marshalObject kvs) = Some kvs" and "CHR 0x0A \<notin> set (marshalObject kvs)"
    and "marshalObject kvs \<noteq> []" and "last (marshalObject kvs) = CHR 0x7D"
proof -
  have "list_all memberText kvs" "\<forall>(k, v)\<in>set kvs. trimJson v = v"
    using assms(1) written_member by (auto simp: list_all_iff writtenMember_def)
  then show "objectMembers (marshalObject kvs) = Some kvs" using object_comes_back assms(2) by blast
  have "CHR 0x0A \<notin> set (join '','' (map marshalMember kvs))" using assms(1)
  proof (induction kvs)
    case (Cons m kvs)
    obtain k v where m: "m = (k, v)" by fastforce
    then have "CHR 0x0A \<notin> set (marshalMember m)" using Cons.prems fieldNames_plain marshalString_no_newline [of k]
      by (auto simp: writtenMember_def list_all_iff plainKey_utf8)
    moreover have "CHR 0x0A \<notin> set (join '','' (map marshalMember kvs))" using Cons by simp
    ultimately show ?case by (cases "kvs = []") (simp_all add: join_Cons del: marshalMember.simps)
  qed simp
  then show "CHR 0x0A \<notin> set (marshalObject kvs)" by (simp add: marshalObject_def)
qed (simp_all add: marshalObject_def)

lemma optional_raw:
  assumes "\<And>x r. storeMember fs (k, x) r = Some (f x r)" and "v = [] \<Longrightarrow> f [] r = r"
  shows "storeMembers fs (if v = [] then [] else [(k, compactJson v)]) r = Some (f (compacted v) r)"
  using assms by (simp add: compacted_def)

lemma storeMembers_messages:
  assumes "goodMessage m"
  shows "storeMembers messageFields (messageMembers m) emptyMessage = Some (readForm m)"
proof -
  note g = assms [unfolded goodMessage_def]
  note s = messageFields_store
  let ?r1 = "emptyMessage\<lparr>fmId := fmId m\<rparr>"
  let ?r2 = "?r1\<lparr>fmRole := fmRole m, fmContent := compactJson (fmContent m), fmTimestamp := fmTimestamp m\<rparr>"
  let ?r3 = "?r2\<lparr>fmMetadata := compacted (fmMetadata m)\<rparr>"
  let ?r4 = "?r3\<lparr>fmStop := fmStop m\<rparr>"
  let ?r5 = "?r4\<lparr>fmUsage := compacted (fmUsage m)\<rparr>"
  let ?r6 = "?r5\<lparr>fmModel := fmModel m\<rparr>"
  let ?r7 = "?r6\<lparr>fmProvider := fmProvider m\<rparr>"
  let ?r8 = "?r7\<lparr>fmToolCalls := compacted (fmToolCalls m)\<rparr>"
  let ?r9 = "?r8\<lparr>fmToolCallId := fmToolCallId m\<rparr>"
  have 1: "storeMembers messageFields (textMember ''id'' (fmId m)) emptyMessage = Some ?r1"
    using g by (intro store_text s) (simp_all add: emptyMessage_def)
  have "storeMember messageFields (''role'', marshalString (fmRole m)) ?r1 = Some (?r1\<lparr>fmRole := fmRole m\<rparr>)"
    using g by (intro store_string s) simp
  moreover have "storeMember messageFields (''timestamp'', marshalInt (fmTimestamp m)) r = Some (r\<lparr>fmTimestamp := fmTimestamp m\<rparr>)" for r
    using g by (intro store_number s) simp_all
  ultimately have 2: "storeMembers messageFields [(''role'', marshalString (fmRole m)), (''content'', compactJson (fmContent m)),
      (''timestamp'', marshalInt (fmTimestamp m))] ?r1 = Some ?r2" by (simp add: s(3))
  have 3: "storeMembers messageFields (if fmMetadata m = [] then [] else [(''metadata'', compactJson (fmMetadata m))]) ?r2 = Some ?r3"
    by (intro optional_raw s) (simp add: emptyMessage_def)
  have 4: "storeMembers messageFields (textMember ''stopReason'' (fmStop m)) ?r3 = Some ?r4"
    using g by (intro store_text s) (simp_all add: emptyMessage_def)
  have 5: "storeMembers messageFields (if fmUsage m = [] then [] else [(''usage'', compactJson (fmUsage m))]) ?r4 = Some ?r5"
    by (intro optional_raw s) (simp add: emptyMessage_def)
  have 6: "storeMembers messageFields (textMember ''model'' (fmModel m)) ?r5 = Some ?r6"
    using g by (intro store_text s) (simp_all add: emptyMessage_def)
  have 7: "storeMembers messageFields (textMember ''provider'' (fmProvider m)) ?r6 = Some ?r7"
    using g by (intro store_text s) (simp_all add: emptyMessage_def)
  have 8: "storeMembers messageFields (if fmToolCalls m = [] then [] else [(''toolCalls'', compactJson (fmToolCalls m))]) ?r7 = Some ?r8"
    by (intro optional_raw s) (simp add: emptyMessage_def)
  have 9: "storeMembers messageFields (textMember ''toolCallId'' (fmToolCallId m)) ?r8 = Some ?r9"
    using g by (intro store_text s) (simp_all add: emptyMessage_def)
  have 10: "storeMembers messageFields (textMember ''toolName'' (fmToolName m)) ?r9 = Some (?r9\<lparr>fmToolName := fmToolName m\<rparr>)"
    using g by (intro store_text s) (simp_all add: emptyMessage_def)
  have "readForm m = ?r9\<lparr>fmToolName := fmToolName m\<rparr>" by (simp add: readForm_def emptyMessage_def)
  then show ?thesis unfolding messageMembers_def storeMembers_append by (simp only: 1 2 3 4 5 6 7 8 9 10 Option.bind.bind_lunit)
qed

text \<open>A message is read back from its line, up to the compaction of its raw fields.\<close>

lemma decode_encode_message:
  assumes "goodMessage m" and "encodeMessage m = Some l"
  shows "decodeMessage l = Some (readForm m)" and "CHR 0x0A \<notin> set l" and "l \<noteq> []" and "last l = CHR 0x7D"
    and "objectMembers l = Some (messageMembers m)"
proof -
  have l: "l = marshalObject (messageMembers m)" using assms encodeMessage_members by simp
  have n: "messageMembers m \<noteq> []" by (simp add: messageMembers_def)
  note w = written_object [OF messageMembers_written [OF assms(1)] n]
  show "decodeMessage l = Some (readForm m)"
    by (simp add: decodeMessage_def unmarshalStruct_def l w(1) storeMembers_messages [OF assms(1)])
  show "CHR 0x0A \<notin> set l" "l \<noteq> []" "last l = CHR 0x7D" "objectMembers l = Some (messageMembers m)" using w by (simp_all add: l)
qed

lemma peek_ignores: "list_all (\<lambda>m. \<not> foldsTo (fst m) ''type'') ms \<Longrightarrow> storeMembers [(''type'', f)] ms r = Some r"
  by (induction ms) auto

lemma peek_message:
  assumes "goodMessage m" and "encodeMessage m = Some l"
  shows "peekType l = Some []"
proof -
  have o: "list_all (\<lambda>kv. fst kv \<noteq> ''type'') (textMember k v)" if "k \<noteq> ''type''" for k v using that by (simp add: textMember_def)
  have "list_all (\<lambda>kv. fst kv \<noteq> ''type'') (messageMembers m)"
    unfolding messageMembers_def list_all_append by (intro conjI o) simp_all
  then have "list_all (\<lambda>kv. \<not> foldsTo (fst kv) ''type'') (messageMembers m)"
    using messageMembers_written [OF assms(1)] foldsTo_fields known_names(13) by (fastforce simp: list_all_iff writtenMember_def)
  then show ?thesis using decode_encode_message(5) [OF assms] by (simp add: peekType_def unmarshalStruct_def peek_ignores)
qed

lemma line_message:
  assumes "goodMessage m" and "encodeMessage m = Some l"
  shows "lineMessage l = Some (readForm m)"
proof -
  have "fmRole (readForm m) \<noteq> []" using assms(1) by (simp add: readForm_def goodMessage_def)
  then show ?thesis using decode_encode_message(1,3) [OF assms] peek_message [OF assms] by (simp add: lineMessage_def)
qed

subsection \<open>Headers\<close>

definition goodHeader :: "file_header \<Rightarrow> bool" where
  "goodHeader h \<longleftrightarrow> valid_utf8 (fhType h) \<and> 0 \<le> fhVersion h \<and> fhVersion h \<le> max_int64 \<and> valid_utf8 (fhId h) \<and> valid_utf8 (fhTimestamp h)
     \<and> valid_utf8 (fhTitle h) \<and> valid_utf8 (fhSummary h) \<and> 0 \<le> fhSummarizedAt h \<and> fhSummarizedAt h \<le> max_int64
     \<and> valid_utf8 (fhProvider h) \<and> valid_utf8 (fhModel h)"

definition headerMembers :: "file_header \<Rightarrow> (string \<times> string) list" where
  "headerMembers h =
     [(''type'', marshalString (fhType h)), (''version'', marshalInt (fhVersion h)), (''id'', marshalString (fhId h)),
       (''timestamp'', marshalString (fhTimestamp h))] @ textMember ''title'' (fhTitle h) @ textMember ''summary'' (fhSummary h)
      @ (if fhSummarizedAt h = 0 then [] else [(''summarizedAt'', marshalInt (fhSummarizedAt h))])
      @ textMember ''provider'' (fhProvider h) @ textMember ''model'' (fhModel h)"

lemma storeMembers_header:
  assumes "goodHeader h"
  shows "storeMembers headerFields (headerMembers h) emptyHeader = Some h"
proof -
  note g = assms [unfolded goodHeader_def]
  note s = headerFields_store
  let ?r1 = "emptyHeader\<lparr>fhType := fhType h, fhVersion := fhVersion h, fhId := fhId h, fhTimestamp := fhTimestamp h\<rparr>"
  let ?r2 = "?r1\<lparr>fhTitle := fhTitle h\<rparr>"
  let ?r3 = "?r2\<lparr>fhSummary := fhSummary h\<rparr>"
  let ?r4 = "?r3\<lparr>fhSummarizedAt := fhSummarizedAt h\<rparr>"
  let ?r5 = "?r4\<lparr>fhProvider := fhProvider h\<rparr>"
  have "storeMember headerFields (''type'', marshalString (fhType h)) r = Some (r\<lparr>fhType := fhType h\<rparr>)"
    "storeMember headerFields (''version'', marshalInt (fhVersion h)) r = Some (r\<lparr>fhVersion := fhVersion h\<rparr>)"
    "storeMember headerFields (''id'', marshalString (fhId h)) r = Some (r\<lparr>fhId := fhId h\<rparr>)"
    "storeMember headerFields (''timestamp'', marshalString (fhTimestamp h)) r = Some (r\<lparr>fhTimestamp := fhTimestamp h\<rparr>)" for r
    using g by (auto intro!: store_string store_number s)
  then have 1: "storeMembers headerFields [(''type'', marshalString (fhType h)), (''version'', marshalInt (fhVersion h)), (''id'', marshalString (fhId h)),
       (''timestamp'', marshalString (fhTimestamp h))] emptyHeader = Some ?r1" by simp
  have 2: "storeMembers headerFields (textMember ''title'' (fhTitle h)) ?r1 = Some ?r2"
    using g by (intro store_text s) (simp_all add: emptyHeader_def)
  have 3: "storeMembers headerFields (textMember ''summary'' (fhSummary h)) ?r2 = Some ?r3"
    using g by (intro store_text s) (simp_all add: emptyHeader_def)
  have "storeMember headerFields (''summarizedAt'', marshalInt (fhSummarizedAt h)) ?r3 = Some ?r4"
    using g by (intro store_number s) simp_all
  then have 4: "storeMembers headerFields (if fhSummarizedAt h = 0 then [] else [(''summarizedAt'', marshalInt (fhSummarizedAt h))]) ?r3 = Some ?r4"
    by (simp add: emptyHeader_def)
  have 5: "storeMembers headerFields (textMember ''provider'' (fhProvider h)) ?r4 = Some ?r5"
    using g by (intro store_text s) (simp_all add: emptyHeader_def)
  have 6: "storeMembers headerFields (textMember ''model'' (fhModel h)) ?r5 = Some (?r5\<lparr>fhModel := fhModel h\<rparr>)"
    using g by (intro store_text s) (simp_all add: emptyHeader_def)
  have "h = ?r5\<lparr>fhModel := fhModel h\<rparr>" by (simp add: emptyHeader_def)
  then show ?thesis unfolding headerMembers_def storeMembers_append by (simp only: 1 2 3 4 5 6 Option.bind.bind_lunit)
qed

lemma headerMembers_written: "goodHeader h \<Longrightarrow> list_all writtenMember (headerMembers h)"
  unfolding headerMembers_def goodHeader_def list_all_append list.pred_inject
  by (elim conjE, intro conjI text_written string_written number_written known_names)
    (assumption | rule TrueI | simp add: number_written known_names)+

lemma decode_encode_header:
  assumes "goodHeader h"
  shows "decodeHeader (encodeHeader h) = Some h" and "CHR 0x0A \<notin> set (encodeHeader h)" and "encodeHeader h \<noteq> []"
    and "last (encodeHeader h) = CHR 0x7D"
proof -
  have e: "encodeHeader h = marshalObject (headerMembers h)" by (simp add: encodeHeader_def headerMembers_def)
  have n: "headerMembers h \<noteq> []" by (simp add: headerMembers_def)
  note w = written_object [OF headerMembers_written [OF assms] n]
  show "decodeHeader (encodeHeader h) = Some h"
    by (simp add: decodeHeader_def unmarshalStruct_def e w(1) storeMembers_header [OF assms])
  show "CHR 0x0A \<notin> set (encodeHeader h)" "encodeHeader h \<noteq> []" "last (encodeHeader h) = CHR 0x7D" using w by (simp_all add: e)
qed

end
