(* ===== verification/ConversationStores.thy ===== *)
theory ConversationStores
  imports ConversationLines
begin

text \<open>
  The conversation operations of both stores (\<open>store/fsstore/filesystem_conversation*.go\<close>,
  \<open>store/dbstore/database_conversation*.go\<close>). The file store is the list of its conversation files and the
  default conversations of the user records; the database is the rows of two tables. Options for paging are
  left out, and the times of a file can be restored. The file store ignores whether only defaults are asked
  for. A blank name of a user or an agent, which the code would dereference as nil, is the empty name.
\<close>

subsection \<open>The file store\<close>

record conv_file =
  cfUser :: string
  cfAgent :: string
  cfName :: string
  cfBytes :: string
  cfTime :: int

record conv_store =
  csFiles :: "conv_file list"
  csDefaults :: "string \<Rightarrow> string \<Rightarrow> string"

text \<open>\<open>cwPartial\<close> is the number of bytes of a line that reach the file before the write fails.\<close>

record conv_weather =
  cwNow :: int
  cwUlid :: string
  cwHeaderId :: string
  cwStamp :: "int \<Rightarrow> string"
  cwParse :: "string \<Rightarrow> int option"
  cwGlob :: "string \<Rightarrow> string \<Rightarrow> bool"
  cwFault :: "os_call \<Rightarrow> bool"
  cwPartial :: "nat option"

definition findFile :: "string \<Rightarrow> string \<Rightarrow> string \<Rightarrow> conv_store \<Rightarrow> conv_file option" where
  "findFile u a i s = find (\<lambda>f. cfUser f = u \<and> cfAgent f = a \<and> cfName f = i) (csFiles s)"

definition writeFile :: "string \<Rightarrow> string \<Rightarrow> string \<Rightarrow> string \<Rightarrow> int \<Rightarrow> conv_store \<Rightarrow> conv_store" where
  "writeFile u a i b t s =
     (if findFile u a i s = None
      then s\<lparr>csFiles := csFiles s @ [\<lparr>cfUser = u, cfAgent = a, cfName = i, cfBytes = b, cfTime = t\<rparr>]\<rparr>
      else s\<lparr>csFiles := map (\<lambda>f. if cfUser f = u \<and> cfAgent f = a \<and> cfName f = i then f\<lparr>cfBytes := b, cfTime := t\<rparr> else f) (csFiles s)\<rparr>)"

definition conversationFromFile :: "conv_weather \<Rightarrow> string \<Rightarrow> conv_file \<Rightarrow> file_header \<Rightarrow> stored_conversation" where
  "conversationFromFile w i f h =
     \<lparr>cvId = i, cvUser = trimmedString (cfUser f), cvAgent = trimmedString (cfAgent f), cvDefault = None,
      cvTitle = trimmedString (fhTitle h), cvSummary = trimmedString (fhSummary h),
      cvSummarized = (if fhSummarizedAt h > 0 then Some (fhSummarizedAt h * 1000000) else None),
      cvCreated = (if fhTimestamp h = [] then cfTime f else (case cwParse w (fhTimestamp h) of None \<Rightarrow> cfTime f | Some t \<Rightarrow> t)),
      cvModified = cfTime f\<rparr>"

fun firstReadable :: "conv_weather \<Rightarrow> string \<Rightarrow> conv_file list \<Rightarrow> stored_conversation option" where
  "firstReadable w i [] = None"
| "firstReadable w i (f # fs) =
     (if cwFault w ReadCall \<or> cwFault w StatCall then firstReadable w i fs
      else (case loadConversationHeader (cfBytes f) of
          None \<Rightarrow> firstReadable w i fs
        | Some h \<Rightarrow> Some (conversationFromFile w i f h)))"

text \<open>The files of all users and agents that match, in the order of \<open>filepath.Glob\<close>.\<close>

definition fsGetConversation :: "conv_weather \<Rightarrow> string \<Rightarrow> conv_store \<Rightarrow> stored_conversation option" where
  "fsGetConversation w i s =
     firstReadable w i (sort_key cfUser (sort_key cfAgent (filter (\<lambda>f. cwGlob w i (cfName f)) (csFiles s))))"

definition fsCreateConversation :: "conv_weather \<Rightarrow> stored_conversation \<Rightarrow> conv_store \<Rightarrow> conv_store \<times> (store_error + stored_conversation)" where
  "fsCreateConversation w c s =
     (case (cvUser c, cvAgent c) of
        (Some u, Some a) \<Rightarrow>
          (let i = (if cvId c = [] then cwUlid w else cvId c);
               h = emptyHeader\<lparr>fhType := ''conversation'', fhVersion := 1, fhId := cwHeaderId w, fhTimestamp := cwStamp w (cwNow w)\<rparr> in
           if cwFault w MkdirCall \<or> cwFault w CreateCall \<or> cwFault w WriteCall \<or> cwFault w RenameCall then (s, Inl OsError)
           else (writeFile u a i (encodeHeader h @ [CHR 0x0A]) (cwNow w) s,
                 Inr (c\<lparr>cvId := i, cvCreated := cwNow w, cvModified := cwNow w\<rparr>)))
      | _ \<Rightarrow> (s, Inl OsError))"

definition fsListConversations :: "conv_weather \<Rightarrow> string option \<Rightarrow> string option \<Rightarrow> conv_store \<Rightarrow> store_error + stored_conversation list" where
  "fsListConversations w user agent s =
     (case (user, agent) of
        (Some u, Some a) \<Rightarrow>
          if cwFault w ReadCall then Inl OsError
          else Inr (sort_key (\<lambda>c. - cvModified c) (List.map_filter
            (\<lambda>f. case loadConversationHeader (cfBytes f) of None \<Rightarrow> None
                 | Some h \<Rightarrow> if cwFault w StatCall then None else Some (conversationFromFile w (cfName f) f h))
            (sort_key (\<lambda>f. cfName f @ ''.jsonl'') (filter (\<lambda>f. cfUser f = u \<and> cfAgent f = a) (csFiles s)))))
      | _ \<Rightarrow> Inr [])"

definition fsModifyConversation ::
    "conv_weather \<Rightarrow> string \<Rightarrow> (stored_conversation \<Rightarrow> stored_conversation option) \<Rightarrow> conv_store \<Rightarrow> conv_store \<times> (store_error + stored_conversation)" where
  "fsModifyConversation w i modifier s =
     (case fsGetConversation w i s of
        None \<Rightarrow> (s, Inl NotFound)
      | Some c0 \<Rightarrow>
          (case modifier c0 of
             None \<Rightarrow> (s, Inl OsError)
           | Some c \<Rightarrow>
               (case (cvUser c, cvAgent c) of
                  (Some u, Some a) \<Rightarrow>
                    if cvTitle c = None \<and> cvSummary c = None \<and> cvSummarized c = None then (s, Inr (c\<lparr>cvModified := cwNow w\<rparr>))
                    else (case findFile u a i s of
                        None \<Rightarrow> (s, Inl OsError)
                      | Some f \<Rightarrow>
                          if cwFault w ReadCall then (s, Inl OsError)
                          else (case replaceHeader (\<lambda>h. h\<lparr>fhTitle := pointed (cvTitle c), fhSummary := pointed (cvSummary c),
                                 fhSummarizedAt := (case cvSummarized c of None \<Rightarrow> fhSummarizedAt h | Some t \<Rightarrow> t div 1000000)\<rparr>) (cfBytes f) of
                              None \<Rightarrow> (s, Inl OsError)
                            | Some b \<Rightarrow>
                                if cwFault w CreateCall \<or> cwFault w WriteCall \<or> cwFault w RenameCall then (s, Inl OsError)
                                else (writeFile u a i b (cfTime f) s, Inr (c\<lparr>cvModified := cwNow w\<rparr>))))
                | _ \<Rightarrow> (s, Inl InvalidOptions))))"

definition fsDeleteConversation :: "conv_weather \<Rightarrow> string \<Rightarrow> conv_store \<Rightarrow> conv_store \<times> store_error option" where
  "fsDeleteConversation w i s =
     (case fsGetConversation w i s of
        None \<Rightarrow> (s, Some NotFound)
      | Some c \<Rightarrow>
          if cvUser c = None \<or> cvAgent c = None then (s, Some InvalidOptions)
          else (case findFile (pointed (cvUser c)) (pointed (cvAgent c)) i s of
             None \<Rightarrow> (s, None)
           | Some f \<Rightarrow>
               if cwFault w MkdirCall \<or> cwFault w RenameCall then (s, Some OsError)
               else (s\<lparr>csFiles := filter (\<lambda>g. \<not> (cfUser g = cfUser f \<and> cfAgent g = cfAgent f \<and> cfName g = i)) (csFiles s)\<rparr>, None)))"

definition fsFindDefaultConversation :: "conv_weather \<Rightarrow> string \<Rightarrow> string \<Rightarrow> conv_store \<Rightarrow> stored_conversation option" where
  "fsFindDefaultConversation w u a s =
     (if cwFault w ReadCall \<or> csDefaults s u a = [] then None else fsGetConversation w (csDefaults s u a) s)"

definition fsSetDefaultConversation :: "conv_weather \<Rightarrow> string \<Rightarrow> conv_store \<Rightarrow> conv_store \<times> store_error option" where
  "fsSetDefaultConversation w i s =
     (case fsGetConversation w i s of
        None \<Rightarrow> (s, Some NotFound)
      | Some c \<Rightarrow>
          (let u = pointed (cvUser c); a = pointed (cvAgent c) in
           if u = [] \<or> a = [] then (s, Some InvalidOptions)
           else if cwFault w ReadCall \<or> cwFault w WriteCall then (s, Some OsError)
           else (s\<lparr>csDefaults := (csDefaults s)(u := (csDefaults s u)(a := i))\<rparr>, None)))"

definition appendedMessage :: "conv_weather \<Rightarrow> conversation_message \<Rightarrow> file_message" where
  "appendedMessage w m =
     \<lparr>fmId = cwUlid w, fmRole = pointed (cmRole m), fmContent = cmContent m, fmTimestamp = cwNow w div 1000000,
      fmMetadata = cmMetadata m, fmStop = pointed (cmStop m), fmUsage = cmUsage m, fmModel = pointed (cmModel m),
      fmProvider = pointed (cmProvider m), fmToolCalls = cmToolCalls m, fmToolCallId = pointed (cmToolCallId m),
      fmToolName = pointed (cmToolName m)\<rparr>"

definition fsCreateMessage ::
    "conv_weather \<Rightarrow> conversation_message \<Rightarrow> conv_store \<Rightarrow> conv_store \<times> (store_error + conversation_message)" where
  "fsCreateMessage w m s =
     (case (cmConversation m, cmRole m) of
        (Some i, Some r) \<Rightarrow>
          if cmContent m = [] then (s, Inl InvalidOptions)
          else (case fsGetConversation w i s of
              None \<Rightarrow> (s, Inl NotFound)
            | Some c \<Rightarrow>
                (let u = pointed (cvUser c); a = pointed (cvAgent c); x = appendedMessage w m in
                 case findFile u a i s of
                   None \<Rightarrow> (s, Inl NotFound)
                 | Some f \<Rightarrow>
                     (case encodeMessage x of
                        None \<Rightarrow> (s, Inl OsError)
                      | Some l \<Rightarrow>
                          if cwFault w CreateCall then (s, Inl OsError)
                          else (case cwPartial w of
                              Some n \<Rightarrow> (writeFile u a i (cfBytes f @ take n (l @ [CHR 0x0A])) (cwNow w) s, Inl OsError)
                            | None \<Rightarrow>
                                (writeFile u a i (cfBytes f @ l @ [CHR 0x0A]) (cwNow w) s,
                                 if cwFault w WriteCall then Inl OsError else Inr (conversationRawMessageToModel i x))))))
      | _ \<Rightarrow> (s, Inl InvalidOptions))"

definition fsListMessages :: "conv_weather \<Rightarrow> string \<Rightarrow> conv_store \<Rightarrow> store_error + conversation_message list" where
  "fsListMessages w i s =
     (case fsGetConversation w i s of
        None \<Rightarrow> Inl NotFound
      | Some c \<Rightarrow>
          (case findFile (pointed (cvUser c)) (pointed (cvAgent c)) i s of
             None \<Rightarrow> Inl OsError
           | Some f \<Rightarrow>
               (case loadConversationData (cfBytes f) of
                  None \<Rightarrow> Inl OsError
                | Some (h, ms) \<Rightarrow> Inr (map (conversationRawMessageToModel i) ms))))"

subsection \<open>The database\<close>

record conv_tables =
  ctConversations :: "stored_conversation list"
  ctMessages :: "conversation_message list"

text \<open>
  \<open>dcFault\<close>: the statement fails; \<open>dcUlid\<close> is the next identifier, \<open>dcNow\<close> the time in the microseconds
  that a column keeps of it.
\<close>

record db_conv_weather =
  dcNow :: int
  dcUlid :: string
  dcFault :: bool

definition trimmedPointer :: "string option \<Rightarrow> string option" where
  "trimmedPointer p = trimmedString (pointed p)"

definition conversationRecord :: "stored_conversation \<Rightarrow> stored_conversation" where
  "conversationRecord c = c\<lparr>cvUser := trimmedPointer (cvUser c), cvAgent := trimmedPointer (cvAgent c),
     cvTitle := trimmedPointer (cvTitle c), cvSummary := trimmedPointer (cvSummary c)\<rparr>"

definition messageRecord :: "conversation_message \<Rightarrow> conversation_message" where
  "messageRecord m = m\<lparr>cmConversation := trimmedPointer (cmConversation m), cmRole := trimmedPointer (cmRole m),
     cmStop := trimmedPointer (cmStop m), cmModel := trimmedPointer (cmModel m), cmProvider := trimmedPointer (cmProvider m),
     cmToolCallId := trimmedPointer (cmToolCallId m), cmToolName := trimmedPointer (cmToolName m)\<rparr>"

definition dbGetConversation :: "db_conv_weather \<Rightarrow> string \<Rightarrow> conv_tables \<Rightarrow> store_error + stored_conversation" where
  "dbGetConversation w i s =
     (if dcFault w then Inl OsError
      else (case find (\<lambda>c. cvId c = i) (ctConversations s) of None \<Rightarrow> Inl NotFound | Some c \<Rightarrow> Inr (conversationRecord c)))"

definition dbCreateConversation :: "db_conv_weather \<Rightarrow> stored_conversation \<Rightarrow> conv_tables \<Rightarrow> conv_tables \<times> (store_error + stored_conversation)" where
  "dbCreateConversation w c s =
     (let r = (conversationRecord c)\<lparr>cvId := (if cvId c = [] then dcUlid w else cvId c), cvCreated := dcNow w, cvModified := dcNow w\<rparr> in
      if dcFault w then (s, Inl OsError)
      else if cvId r \<in> set (map cvId (ctConversations s)) then (s, Inl AlreadyExists)
      else (s\<lparr>ctConversations := ctConversations s @ [r]\<rparr>, Inr (conversationRecord r)))"

definition dbListConversations :: "db_conv_weather \<Rightarrow> string option \<Rightarrow> string option \<Rightarrow> bool option \<Rightarrow> conv_tables \<Rightarrow> store_error + stored_conversation list" where
  "dbListConversations w user agent standard s =
     (if user = None \<or> agent = None then Inr []
      else if dcFault w then Inl OsError
      else Inr (map conversationRecord (sort_key (\<lambda>c. - cvModified c) (sort_key (\<lambda>c. - cvCreated c)
        (filter (\<lambda>c. cvUser c = user \<and> cvAgent c = agent \<and> (standard = None \<or> cvDefault c = standard)) (ctConversations s))))))"

definition dbModifyConversation ::
    "db_conv_weather \<Rightarrow> string \<Rightarrow> (stored_conversation \<Rightarrow> stored_conversation option) \<Rightarrow> conv_tables \<Rightarrow> conv_tables \<times> (store_error + stored_conversation)" where
  "dbModifyConversation w i modifier s =
     (case dbGetConversation w i s of
        Inl err \<Rightarrow> (s, Inl err)
      | Inr c0 \<Rightarrow>
          (case modifier c0 of
             None \<Rightarrow> (s, Inl OsError)
           | Some c \<Rightarrow>
               (let r = conversationRecord c;
                    upd = (\<lambda>x. x\<lparr>cvUser := cvUser r, cvAgent := cvAgent r, cvDefault := cvDefault r, cvTitle := cvTitle r,
                      cvSummary := cvSummary r, cvSummarized := cvSummarized r, cvModified := dcNow w\<rparr>);
                    s' = s\<lparr>ctConversations := map (\<lambda>x. if cvId x = i then upd x else x) (ctConversations s)\<rparr> in
                (s', dbGetConversation w i s'))))"

definition dbDeleteConversation :: "db_conv_weather \<Rightarrow> string \<Rightarrow> conv_tables \<Rightarrow> conv_tables \<times> store_error option" where
  "dbDeleteConversation w i s =
     (if dcFault w then (s, Some OsError)
      else if i \<notin> set (map cvId (ctConversations s)) then (s, Some NotFound)
      else (\<lparr>ctConversations = filter (\<lambda>c. cvId c \<noteq> i) (ctConversations s),
             ctMessages = filter (\<lambda>m. cmConversation m \<noteq> Some i) (ctMessages s)\<rparr>, None))"

definition dbFindDefaultConversation :: "db_conv_weather \<Rightarrow> string \<Rightarrow> string \<Rightarrow> conv_tables \<Rightarrow> store_error + stored_conversation" where
  "dbFindDefaultConversation w u a s =
     (if dcFault w then Inl OsError
      else (case sort_key (\<lambda>c. - cvModified c) (filter (\<lambda>c. cvUser c = Some u \<and> cvAgent c = Some a \<and> cvDefault c = Some True) (ctConversations s)) of
          [] \<Rightarrow> Inl NotFound
        | c # cs \<Rightarrow> Inr (conversationRecord c)))"

definition dbSetDefaultConversation :: "db_conv_weather \<Rightarrow> string \<Rightarrow> conv_tables \<Rightarrow> conv_tables \<times> store_error option" where
  "dbSetDefaultConversation w i s =
     (if dcFault w then (s, Some OsError)
      else (case find (\<lambda>c. cvId c = i) (ctConversations s) of
          None \<Rightarrow> (s, Some NotFound)
        | Some c \<Rightarrow>
            (let cleared = map (\<lambda>x. if cvUser x = cvUser c \<and> cvUser c \<noteq> None \<and> cvAgent x = cvAgent c \<and> cvAgent c \<noteq> None
                   \<and> cvDefault x = Some True then x\<lparr>cvDefault := Some False\<rparr> else x) (ctConversations s) in
             (s\<lparr>ctConversations := map (\<lambda>x. if cvId x = i then x\<lparr>cvDefault := Some True, cvModified := dcNow w\<rparr> else x) cleared\<rparr>, None))))"

definition dbCreateMessage ::
    "db_conv_weather \<Rightarrow> conversation_message \<Rightarrow> conv_tables \<Rightarrow> conv_tables \<times> (store_error + conversation_message)" where
  "dbCreateMessage w m s =
     (if cmConversation m = None \<or> cmRole m = None \<or> cmContent m = [] then (s, Inl InvalidOptions)
      else (let r = (messageRecord m)\<lparr>cmId := (if cmId m = [] then dcUlid w else cmId m), cmCreated := dcNow w\<rparr> in
        if dcFault w then (s, Inl OsError)
        else if cmId r \<in> set (map cmId (ctMessages s)) then (s, Inl AlreadyExists)
        else if \<not> (case cmConversation r of None \<Rightarrow> True | Some i \<Rightarrow> i \<in> set (map cvId (ctConversations s))) then (s, Inl OsError)
        else (s\<lparr>ctMessages := ctMessages s @ [r]\<rparr>, Inr (messageRecord r))))"

definition dbListMessages :: "db_conv_weather \<Rightarrow> string \<Rightarrow> conv_tables \<Rightarrow> store_error + conversation_message list" where
  "dbListMessages w i s =
     (if dcFault w then Inl OsError
      else Inr (map messageRecord (sort_key cmId (filter (\<lambda>m. cmConversation m = Some i) (ctMessages s)))))"

end
