(* ===== verification/ConversationLog.thy ===== *)
theory ConversationLog
  imports ConversationStores
begin

text \<open>
  The contract both stores keep: a conversation is the list of its messages, an append adds one at the end
  and a new title leaves it alone. The contract is a locale; the file store and the database interpret it.
\<close>

subsection \<open>Appending to a file\<close>

definition endsLine :: "string \<Rightarrow> bool" where
  "endsLine b \<longleftrightarrow> b \<noteq> [] \<and> last b = CHR 0x0A"

lemma rawLines_append:
  assumes "endsLine b" and "CHR 0x0A \<notin> set l"
  shows "rawLines (b @ l @ [CHR 0x0A]) = rawLines b @ [l]"
proof -
  obtain b' where b: "b = b' @ [CHR 0x0A]" using assms(1) by (cases b rule: rev_cases) (auto simp: endsLine_def)
  have "split_byte (CHR 0x0A) b = split_byte (CHR 0x0A) b' @ [[]]"
    unfolding b using split_byte_snoc [of "CHR 0x0A" "[]" b'] by simp
  moreover have "split_byte (CHR 0x0A) (b @ l @ [CHR 0x0A]) = split_byte (CHR 0x0A) b' @ [l] @ [[]]"
    unfolding b using split_byte_snoc [of "CHR 0x0A" "[]" "b' @ CHR 0x0A # l"] split_byte_snoc [OF assms(2), of b'] by simp
  ultimately show ?thesis by (simp add: rawLines_def butlast_append)
qed

lemma rawLines_first: "CHR 0x0A \<notin> set x \<Longrightarrow> rawLines (x @ CHR 0x0A # rest) = x # rawLines rest"
  by (simp add: rawLines_def split_byte_append Let_def)

lemma linesUpTo_append:
  "linesUpTo n (xs @ ys) =
     (if snd (linesUpTo n xs) then linesUpTo n xs else (fst (linesUpTo n xs) @ fst (linesUpTo n ys), snd (linesUpTo n ys)))"
  by (induction xs) (auto split: prod.splits)

lemma trim_return: "l \<noteq> [] \<Longrightarrow> last l = CHR 0x7D \<Longrightarrow> trim_suffix l [CHR 0x0D] = l"
  by (cases l rule: rev_cases) (auto simp: trim_suffix_def has_suffix_def)

lemma linesUpTo_one:
  "linesUpTo n [l] = (if n \<le> length l then ([], True) else ([trim_suffix l [CHR 0x0D]], False))"
  by simp

lemma load_append:
  assumes "loadConversationData b = Some (h, ms)" and "endsLine b" and "CHR 0x0A \<notin> set l" and "l \<noteq> []" "last l = CHR 0x7D"
    and "length l < maxLine"
  shows "loadConversationData (b @ l @ [CHR 0x0A]) = Some (h, ms @ (case lineMessage l of None \<Rightarrow> [] | Some m \<Rightarrow> [m]))"
proof -
  obtain x xs where x: "linesUpTo maxLine (rawLines b) = (x # xs, False)" "decodeHeader x = Some h" "ms = List.map_filter lineMessage xs"
    using assms(1) by (auto simp: loadConversationData_def split: prod.splits list.splits option.splits if_splits)
  have "linesUpTo maxLine (rawLines (b @ l @ [CHR 0x0A])) = (x # xs @ [l], False)"
    using assms(6) unfolding rawLines_append [OF assms(2,3)] linesUpTo_append linesUpTo_one by (simp add: x(1) trim_return assms(4,5))
  then show ?thesis using x by (simp add: loadConversationData_def map_filter_def split: option.split)
qed

lemma load_long:
  assumes "endsLine b" and "CHR 0x0A \<notin> set l" and "maxLine \<le> length l"
  shows "loadConversationData (b @ l @ CHR 0x0A # rest) = None"
proof -
  obtain b' where b: "b = b' @ [CHR 0x0A]" using assms(1) by (cases b rule: rev_cases) (auto simp: endsLine_def)
  have "\<exists>ys. rawLines (b @ l @ CHR 0x0A # rest) = ys @ l # rawLines rest"
  proof -
    have s: "split_byte (CHR 0x0A) (xs @ CHR 0x0A # ys) = split_byte (CHR 0x0A) xs @ split_byte (CHR 0x0A) ys" for xs ys
    proof (induction xs)
      case (Cons a xs)
      obtain z zs where "split_byte (CHR 0x0A) xs = z # zs" by (meson neq_Nil_conv split_byte_nonempty)
      with Cons show ?case by simp
    qed simp
    have "split_byte (CHR 0x0A) (b @ l @ CHR 0x0A # rest) = split_byte (CHR 0x0A) b' @ l # split_byte (CHR 0x0A) rest"
      unfolding b using s [of b' "l @ CHR 0x0A # rest"] split_byte_append [OF assms(2), of rest] by simp
    then show ?thesis by (auto simp: rawLines_def Let_def butlast_append)
  qed
  then obtain ys where "rawLines (b @ l @ CHR 0x0A # rest) = ys @ l # rawLines rest" by blast
  then have "snd (linesUpTo maxLine (rawLines (b @ l @ CHR 0x0A # rest)))"
    using assms(3) by (simp add: linesUpTo_append)
  then show ?thesis by (auto simp: loadConversationData_def split: prod.splits list.splits option.splits)
qed

lemma load_header:
  assumes "loadConversationData b = Some (h, ms)"
  shows "loadConversationHeader b = Some h"
  using assms by (auto simp: loadConversationData_def loadConversationHeader_def split: prod.splits list.splits option.splits if_splits)

text \<open>A file as the operations leave it.\<close>

definition wholeFile :: "string \<Rightarrow> file_header \<Rightarrow> file_message list \<Rightarrow> bool" where
  "wholeFile b h ms \<longleftrightarrow> (\<exists>rest. b = encodeHeader h @ CHR 0x0A # rest) \<and> goodHeader h \<and> length (encodeHeader h) < maxLine
     \<and> endsLine b \<and> loadConversationData b = Some (h, ms)"

lemma whole_append:
  assumes "wholeFile b h ms" and "goodMessage m" and "encodeMessage m = Some l" and "length l < maxLine"
  shows "wholeFile (b @ l @ [CHR 0x0A]) h (ms @ [readForm m])"
proof -
  note l = decode_encode_message [OF assms(2,3)]
  have "loadConversationData (b @ l @ [CHR 0x0A]) = Some (h, ms @ [readForm m])"
    using load_append [of b h ms l] assms(1,4) l line_message [OF assms(2,3)] by (simp add: wholeFile_def)
  with assms(1) show ?thesis by (auto simp: wholeFile_def endsLine_def)
qed

lemma whole_replaced:
  assumes "wholeFile b h ms" and "goodHeader (f h)" and "length (encodeHeader (f h)) < maxLine"
  shows "\<exists>b'. replaceHeader f b = Some b' \<and> wholeFile b' (f h) ms"
proof -
  obtain rest where b: "b = encodeHeader h @ CHR 0x0A # rest" using assms(1) by (auto simp: wholeFile_def)
  have g: "goodHeader h" using assms(1) by (simp add: wholeFile_def)
  note h = decode_encode_header [OF g] and h' = decode_encode_header [OF assms(2)]
  have r: "replaceHeader f b = Some (encodeHeader (f h) @ CHR 0x0A # rest)"
    using index_byte_append [OF h(2), of rest] h(1) by (simp add: replaceHeader_def b)
  obtain ls where ls: "linesUpTo maxLine (rawLines rest) = (ls, False)" "ms = List.map_filter lineMessage ls"
    using assms(1) unfolding wholeFile_def loadConversationData_def b rawLines_first [OF h(2)]
    by (auto split: prod.splits list.splits option.splits if_splits)
  have "loadConversationData (encodeHeader (f h) @ CHR 0x0A # rest) = Some (f h, ms)"
    unfolding loadConversationData_def rawLines_first [OF h'(2)]
    using assms(3) h'(1) by (simp add: ls trim_return [OF h'(3,4)])
  moreover have "endsLine (encodeHeader (f h) @ CHR 0x0A # rest)" using assms(1) by (simp add: wholeFile_def endsLine_def b)
  ultimately show ?thesis using r assms(2,3) by (auto simp: wholeFile_def)
qed

lemma whole_new:
  assumes "goodHeader h" and "length (encodeHeader h) < maxLine"
  shows "wholeFile (encodeHeader h @ [CHR 0x0A]) h []"
proof -
  note h = decode_encode_header [OF assms(1)]
  have "rawLines [] = []" by (simp add: rawLines_def)
  then show ?thesis using assms h rawLines_first [OF h(2), of "[]"]
    by (simp add: wholeFile_def endsLine_def loadConversationData_def trim_return map_filter_def)
qed

subsection \<open>The contract\<close>

datatype 'w log_op =
    AppendMessage 'w conversation_message
  | Retitle 'w string "stored_conversation \<Rightarrow> stored_conversation option"

text \<open>A run of operations on a store, and the same operations on lists of messages.\<close>

fun runLog ::
    "('w \<Rightarrow> conversation_message \<Rightarrow> 's \<Rightarrow> 's \<times> 'a) \<Rightarrow> ('w \<Rightarrow> string \<Rightarrow> (stored_conversation \<Rightarrow> stored_conversation option) \<Rightarrow> 's \<Rightarrow> 's \<times> 'b)
     \<Rightarrow> 'w log_op list \<Rightarrow> 's \<Rightarrow> 's" where
  "runLog app ret [] s = s"
| "runLog app ret (AppendMessage w m # ops) s = runLog app ret ops (fst (app w m s))"
| "runLog app ret (Retitle w i f # ops) s = runLog app ret ops (fst (ret w i f s))"

fun logRun ::
    "('w \<Rightarrow> conversation_message \<Rightarrow> conversation_message) \<Rightarrow> 'w log_op list
     \<Rightarrow> (string \<Rightarrow> conversation_message list option) \<Rightarrow> string \<Rightarrow> conversation_message list option" where
  "logRun written [] L = L"
| "logRun written (AppendMessage w m # ops) L =
     logRun written ops (\<lambda>i. if cmConversation m = Some i then map_option (\<lambda>ms. ms @ [written w m]) (L i) else L i)"
| "logRun written (Retitle w i f # ops) L = logRun written ops L"

text \<open>Every operation of a run meets its condition in the state it starts in.\<close>

fun fineRun ::
    "('w \<Rightarrow> conversation_message \<Rightarrow> 's \<Rightarrow> bool) \<Rightarrow> ('w \<Rightarrow> string \<Rightarrow> (stored_conversation \<Rightarrow> stored_conversation option) \<Rightarrow> 's \<Rightarrow> bool)
     \<Rightarrow> ('w \<Rightarrow> conversation_message \<Rightarrow> 's \<Rightarrow> 's \<times> 'a) \<Rightarrow> ('w \<Rightarrow> string \<Rightarrow> (stored_conversation \<Rightarrow> stored_conversation option) \<Rightarrow> 's \<Rightarrow> 's \<times> 'b)
     \<Rightarrow> 'w log_op list \<Rightarrow> 's \<Rightarrow> bool" where
  "fineRun fa fr app ret [] s = True"
| "fineRun fa fr app ret (AppendMessage w m # ops) s = (fa w m s \<and> fineRun fa fr app ret ops (fst (app w m s)))"
| "fineRun fa fr app ret (Retitle w i f # ops) s = (fr w i f s \<and> fineRun fa fr app ret ops (fst (ret w i f s)))"

locale conversation_log =
  fixes app :: "'w \<Rightarrow> conversation_message \<Rightarrow> 's \<Rightarrow> 's \<times> (store_error + conversation_message)"
    and ret :: "'w \<Rightarrow> string \<Rightarrow> (stored_conversation \<Rightarrow> stored_conversation option) \<Rightarrow> 's \<Rightarrow> 's \<times> (store_error + stored_conversation)"
    and listing :: "'w \<Rightarrow> string \<Rightarrow> 's \<Rightarrow> store_error + conversation_message list"
    and sound :: "'s \<Rightarrow> bool"
    and logOf :: "'s \<Rightarrow> string \<Rightarrow> conversation_message list option"
    and fineAppend :: "'w \<Rightarrow> conversation_message \<Rightarrow> 's \<Rightarrow> bool"
    and fineRetitle :: "'w \<Rightarrow> string \<Rightarrow> (stored_conversation \<Rightarrow> stored_conversation option) \<Rightarrow> 's \<Rightarrow> bool"
    and ready :: "'w \<Rightarrow> bool"
    and written :: "'w \<Rightarrow> conversation_message \<Rightarrow> conversation_message"
  assumes appends: "sound s \<Longrightarrow> fineAppend w m s \<Longrightarrow>
      \<exists>s' r i ms. app w m s = (s', Inr r) \<and> sound s' \<and> cmConversation m = Some i \<and> logOf s i = Some ms
        \<and> logOf s' = (logOf s)(i \<mapsto> ms @ [written w m])"
    and retitles: "sound s \<Longrightarrow> fineRetitle w i f s \<Longrightarrow>
      \<exists>s' r. ret w i f s = (s', Inr r) \<and> sound s' \<and> logOf s' = logOf s"
    and lists: "sound s \<Longrightarrow> ready w \<Longrightarrow> logOf s i = Some ms \<Longrightarrow> listing w i s = Inr ms"
begin

lemma refines:
  assumes "sound s" and "fineRun fineAppend fineRetitle app ret ops s"
  shows "sound (runLog app ret ops s) \<and> logOf (runLog app ret ops s) = logRun written ops (logOf s)"
  using assms
proof (induction ops arbitrary: s)
  case (Cons x ops)
  show ?case
  proof (cases x)
    case (AppendMessage w m)
    with Cons.prems obtain s' r i ms where a: "app w m s = (s', Inr r)" "sound s'" "cmConversation m = Some i" "logOf s i = Some ms"
      "logOf s' = (logOf s)(i \<mapsto> ms @ [written w m])" using appends [of s w m] by auto
    then have "logOf s' = (\<lambda>j. if cmConversation m = Some j then map_option (\<lambda>ms. ms @ [written w m]) (logOf s j) else logOf s j)"
      by (auto simp: fun_eq_iff)
    with Cons.IH [of s'] Cons.prems AppendMessage a(1,2) show ?thesis by simp
  next
    case (Retitle w i f)
    with Cons.prems obtain s' r where "ret w i f s = (s', Inr r)" "sound s'" "logOf s' = logOf s"
      using retitles [of s w i f] by auto
    with Cons.IH [of s'] Cons.prems Retitle show ?thesis by simp
  qed
qed simp

lemma reads_back:
  assumes "sound s" and "fineRun fineAppend fineRetitle app ret ops s" and "ready w" and "logRun written ops (logOf s) i = Some ms"
  shows "listing w i (runLog app ret ops s) = Inr ms"
  using refines [OF assms(1,2)] lists [OF _ assms(3), of "runLog app ret ops s" i ms] assms(4) by simp

end

end
