(* ===== verification/ConversationContracts.thy ===== *)
theory ConversationContracts
  imports ConversationLog
begin

text \<open>
  The file store and the database keep the contract of \<open>ConversationLog\<close>: for the file store while no system
  call fails and every line stays below the buffer of the reader, for the database while identifiers grow.
\<close>

subsection \<open>The file store\<close>

definition calm :: "conv_weather \<Rightarrow> bool" where
  "calm w \<longleftrightarrow> (\<forall>a b. cwGlob w a b \<longleftrightarrow> a = b) \<and> (\<forall>c. \<not> cwFault w c) \<and> cwPartial w = None"

definition fsLog :: "conv_store \<Rightarrow> string \<Rightarrow> conversation_message list option" where
  "fsLog s i =
     (case find (\<lambda>f. cfName f = i) (csFiles s) of
        None \<Rightarrow> None
      | Some f \<Rightarrow> map_option (\<lambda>(h, ms). map (conversationRawMessageToModel i) ms) (loadConversationData (cfBytes f)))"

definition soundFile :: "conv_file \<Rightarrow> bool" where
  "soundFile f \<longleftrightarrow> trimmedString (cfUser f) = Some (cfUser f) \<and> trimmedString (cfAgent f) = Some (cfAgent f)
     \<and> (\<exists>h ms. wholeFile (cfBytes f) h ms)"

definition fsConversationsSound :: "conv_store \<Rightarrow> bool" where
  "fsConversationsSound s \<longleftrightarrow> distinct (map cfName (csFiles s)) \<and> (\<forall>f\<in>set (csFiles s). soundFile f)"

text \<open>What the file store reads of a message it has appended.\<close>

definition fsWritten :: "conv_weather \<Rightarrow> conversation_message \<Rightarrow> conversation_message" where
  "fsWritten w m = conversationRawMessageToModel (pointed (cmConversation m)) (readForm (appendedMessage w m))"

definition fsFineAppend :: "conv_weather \<Rightarrow> conversation_message \<Rightarrow> conv_store \<Rightarrow> bool" where
  "fsFineAppend w m s \<longleftrightarrow> calm w \<and> goodMessage (appendedMessage w m)
     \<and> (\<exists>l. encodeMessage (appendedMessage w m) = Some l \<and> length l < maxLine)
     \<and> cmRole m \<noteq> None \<and> (\<exists>i. cmConversation m = Some i \<and> i \<in> set (map cfName (csFiles s)))"

text \<open>A modifier that stays with the user and the agent and leaves a header that fits.\<close>

definition fsFineRetitle :: "conv_weather \<Rightarrow> string \<Rightarrow> (stored_conversation \<Rightarrow> stored_conversation option) \<Rightarrow> conv_store \<Rightarrow> bool" where
  "fsFineRetitle w i modifier s \<longleftrightarrow> calm w \<and> i \<in> set (map cfName (csFiles s))
     \<and> (\<forall>c. \<exists>c'. modifier c = Some c' \<and> cvUser c' = cvUser c \<and> cvAgent c' = cvAgent c)
     \<and> (\<forall>c c' h. modifier c = Some c' \<longrightarrow> goodHeader h \<longrightarrow>
          (let h' = h\<lparr>fhTitle := pointed (cvTitle c'), fhSummary := pointed (cvSummary c'),
                 fhSummarizedAt := (case cvSummarized c' of None \<Rightarrow> fhSummarizedAt h | Some t \<Rightarrow> t div 1000000)\<rparr> in
           goodHeader h' \<and> (length (encodeHeader h) < maxLine \<longrightarrow> length (encodeHeader h') < maxLine)))"

lemma find_named:
  "distinct (map cfName fs) \<Longrightarrow> f \<in> set fs \<Longrightarrow> find (\<lambda>g. cfName g = cfName f) fs = Some f"
  by (induction fs) auto

lemma find_exact:
  "distinct (map cfName fs) \<Longrightarrow> f \<in> set fs \<Longrightarrow> find (\<lambda>g. cfUser g = cfUser f \<and> cfAgent g = cfAgent f \<and> cfName g = cfName f) fs = Some f"
  by (induction fs) auto

lemma filter_named: "distinct (map cfName fs) \<Longrightarrow> f \<in> set fs \<Longrightarrow> filter (\<lambda>g. cfName f = cfName g) fs = [f]"
proof (induction fs)
  case (Cons a fs)
  show ?case
  proof (cases "a = f")
    case True
    with Cons.prems show ?thesis by (auto simp: filter_empty_conv)
  next
    case False
    with Cons.prems have "f \<in> set fs" by simp
    then have "cfName f \<in> cfName ` set fs" by (rule imageI)
    then have "cfName f \<noteq> cfName a" using Cons.prems(1) by auto
    with Cons \<open>f \<in> set fs\<close> show ?thesis by simp
  qed
qed simp

lemma fs_found:
  assumes "fsConversationsSound s" and "calm w" and "f \<in> set (csFiles s)"
  shows "\<exists>h ms. wholeFile (cfBytes f) h ms \<and> fsGetConversation w (cfName f) s = Some (conversationFromFile w (cfName f) f h)"
    and "pointed (cvUser (conversationFromFile w (cfName f) f h)) = cfUser f" and "pointed (cvAgent (conversationFromFile w (cfName f) f h)) = cfAgent f"
    and "findFile (cfUser f) (cfAgent f) (cfName f) s = Some f"
proof -
  have sf: "soundFile f" and d: "distinct (map cfName (csFiles s))" using assms by (simp_all add: fsConversationsSound_def)
  then obtain h ms where h: "wholeFile (cfBytes f) h ms" by (auto simp: soundFile_def)
  then have "loadConversationHeader (cfBytes f) = Some h" using load_header by (auto simp: wholeFile_def)
  moreover have "filter (\<lambda>g. cwGlob w (cfName f) (cfName g)) (csFiles s) = [f]"
    using assms(2) filter_named [OF d assms(3)] by (simp add: calm_def)
  ultimately have "fsGetConversation w (cfName f) s = Some (conversationFromFile w (cfName f) f h)"
    using assms(2) by (simp add: fsGetConversation_def calm_def)
  with h show "\<exists>h ms. wholeFile (cfBytes f) h ms \<and> fsGetConversation w (cfName f) s = Some (conversationFromFile w (cfName f) f h)" by blast
  show "pointed (cvUser (conversationFromFile w (cfName f) f h)) = cfUser f" "pointed (cvAgent (conversationFromFile w (cfName f) f h)) = cfAgent f" for h
    using sf by (simp_all add: conversationFromFile_def soundFile_def pointed_def)
  show "findFile (cfUser f) (cfAgent f) (cfName f) s = Some f"
    using find_exact [OF d assms(3)] by (simp add: findFile_def)
qed

lemma write_same:
  assumes "fsConversationsSound s" and "f \<in> set (csFiles s)"
  shows "csFiles (writeFile (cfUser f) (cfAgent f) (cfName f) b t s)
    = map (\<lambda>g. if cfName g = cfName f then g\<lparr>cfBytes := b, cfTime := t\<rparr> else g) (csFiles s)"
proof -
  have d: "distinct (map cfName (csFiles s))" using assms by (simp add: fsConversationsSound_def)
  then have "g = f" if "g \<in> set (csFiles s)" "cfName g = cfName f" for g
    using that assms(2) by (auto simp: distinct_map inj_on_def)
  moreover have "findFile (cfUser f) (cfAgent f) (cfName f) s \<noteq> None" using find_exact [OF d assms(2)] by (simp add: findFile_def)
  ultimately show ?thesis by (auto simp: writeFile_def)
qed

lemma find_map_named:
  assumes "\<And>g. cfName (u g) = cfName g"
  shows "find (\<lambda>g. cfName g = i) (map (\<lambda>g. if cfName g = j then u g else g) fs)
    = map_option (\<lambda>g. if cfName g = j then u g else g) (find (\<lambda>g. cfName g = i) fs)"
  by (induction fs) (auto simp: assms)

lemma write_sound:
  assumes "fsConversationsSound s" and "f \<in> set (csFiles s)" and "wholeFile b h ms"
  shows "fsConversationsSound (writeFile (cfUser f) (cfAgent f) (cfName f) b t s)"
    and "fsLog (writeFile (cfUser f) (cfAgent f) (cfName f) b t s)
      = (fsLog s)(cfName f \<mapsto> map (conversationRawMessageToModel (cfName f)) ms)"
proof -
  note w = write_same [OF assms(1,2), of b t]
  have "map cfName (csFiles (writeFile (cfUser f) (cfAgent f) (cfName f) b t s)) = map cfName (csFiles s)"
    unfolding w by simp
  moreover have "soundFile (x\<lparr>cfBytes := b, cfTime := t\<rparr>)" if "soundFile x" for x
    using that assms(3) by (simp add: soundFile_def) blast
  then have "soundFile g" if "g \<in> set (csFiles (writeFile (cfUser f) (cfAgent f) (cfName f) b t s))" for g
    using that assms(1) unfolding w by (auto simp: fsConversationsSound_def)
  ultimately show "fsConversationsSound (writeFile (cfUser f) (cfAgent f) (cfName f) b t s)"
    using assms(1) by (simp add: fsConversationsSound_def)
  have d: "distinct (map cfName (csFiles s))" using assms by (simp add: fsConversationsSound_def)
  have l: "loadConversationData b = Some (h, ms)" using assms(3) by (simp add: wholeFile_def)
  have "fsLog (writeFile (cfUser f) (cfAgent f) (cfName f) b t s) i
      = ((fsLog s)(cfName f \<mapsto> map (conversationRawMessageToModel (cfName f)) ms)) i" for i
  proof (cases "i = cfName f")
    case True
    have "find (\<lambda>g. cfName g = i) (csFiles (writeFile (cfUser f) (cfAgent f) (cfName f) b t s)) = Some (f\<lparr>cfBytes := b, cfTime := t\<rparr>)"
      unfolding w True by (subst find_map_named) (simp_all add: find_named [OF d assms(2)])
    then show ?thesis using True l by (simp add: fsLog_def)
  next
    case False
    have "find (\<lambda>g. cfName g = i) (csFiles (writeFile (cfUser f) (cfAgent f) (cfName f) b t s)) = find (\<lambda>g. cfName g = i) (csFiles s)"
    proof (cases "find (\<lambda>g. cfName g = i) (csFiles s)")
      case None
      then show ?thesis unfolding w by (subst find_map_named) simp_all
    next
      case (Some g)
      then have "cfName g \<noteq> cfName f" using False by (auto simp: find_Some_iff)
      with Some show ?thesis unfolding w by (subst find_map_named) simp_all
    qed
    then show ?thesis using False by (simp add: fsLog_def)
  qed
  then show "fsLog (writeFile (cfUser f) (cfAgent f) (cfName f) b t s)
      = (fsLog s)(cfName f \<mapsto> map (conversationRawMessageToModel (cfName f)) ms)" by blast
qed

lemma fs_log:
  assumes "fsConversationsSound s" and "f \<in> set (csFiles s)" and "wholeFile (cfBytes f) h ms"
  shows "fsLog s (cfName f) = Some (map (conversationRawMessageToModel (cfName f)) ms)"
  using assms find_named [of "csFiles s" f] by (simp add: fsLog_def fsConversationsSound_def wholeFile_def)

lemma fs_appends:
  assumes "fsConversationsSound s" and "fsFineAppend w m s"
  shows "\<exists>s' r i ms. fsCreateMessage w m s = (s', Inr r) \<and> fsConversationsSound s' \<and> cmConversation m = Some i \<and> fsLog s i = Some ms
    \<and> fsLog s' = (fsLog s)(i \<mapsto> ms @ [fsWritten w m])"
proof -
  obtain l r where l: "calm w" "goodMessage (appendedMessage w m)" "encodeMessage (appendedMessage w m) = Some l" "length l < maxLine"
    "cmRole m = Some r" using assms(2) by (auto simp: fsFineAppend_def)
  obtain f where f: "cmConversation m = Some (cfName f)" "f \<in> set (csFiles s)" using assms(2) by (auto simp: fsFineAppend_def)
  obtain h ms where h: "wholeFile (cfBytes f) h ms" "fsGetConversation w (cfName f) s = Some (conversationFromFile w (cfName f) f h)"
    using fs_found(1) [OF assms(1) l(1) f(2)] by blast
  note g = fs_found(2-4) [OF assms(1) l(1) f(2)]
  have c: "cmContent m \<noteq> []" using l(2) by (auto simp: goodMessage_def appendedMessage_def valueText_def)
  let ?s = "writeFile (cfUser f) (cfAgent f) (cfName f) (cfBytes f @ l @ [CHR 0x0A]) (cwNow w) s"
  have "fsCreateMessage w m s = (?s, Inr (conversationRawMessageToModel (cfName f) (appendedMessage w m)))"
    using l(1) by (simp add: fsCreateMessage_def f(1) l(3,5) c h(2) g Let_def calm_def)
  moreover note write_sound [OF assms(1) f(2) whole_append [OF h(1) l(2-4)], of "cwNow w"]
  moreover have "map (conversationRawMessageToModel (cfName f)) (ms @ [readForm (appendedMessage w m)])
      = map (conversationRawMessageToModel (cfName f)) ms @ [fsWritten w m]" by (simp add: fsWritten_def f(1) pointed_def)
  ultimately show ?thesis using f(1) fs_log [OF assms(1) f(2) h(1)] by auto
qed

lemma fs_retitles:
  assumes "fsConversationsSound s" and "fsFineRetitle w i modifier s"
  shows "\<exists>s' r. fsModifyConversation w i modifier s = (s', Inr r) \<and> fsConversationsSound s' \<and> fsLog s' = fsLog s"
proof -
  have c: "calm w" using assms(2) by (simp add: fsFineRetitle_def)
  obtain f where f: "i = cfName f" "f \<in> set (csFiles s)" using assms(2) by (auto simp: fsFineRetitle_def)
  obtain h ms where h: "wholeFile (cfBytes f) h ms" "fsGetConversation w (cfName f) s = Some (conversationFromFile w (cfName f) f h)"
    using fs_found(1) [OF assms(1) c f(2)] by blast
  let ?c = "conversationFromFile w (cfName f) f h"
  have "\<exists>c'. modifier ?c = Some c' \<and> cvUser c' = cvUser ?c \<and> cvAgent c' = cvAgent ?c"
    using assms(2) unfolding fsFineRetitle_def by blast
  then obtain c' where c': "modifier ?c = Some c'" "cvUser c' = cvUser ?c" "cvAgent c' = cvAgent ?c" by blast
  let ?g = "\<lambda>h. h\<lparr>fhTitle := pointed (cvTitle c'), fhSummary := pointed (cvSummary c'),
                 fhSummarizedAt := (case cvSummarized c' of None \<Rightarrow> fhSummarizedAt h | Some t \<Rightarrow> t div 1000000)\<rparr>"
  have "soundFile f" using assms(1) f(2) by (simp add: fsConversationsSound_def)
  then have u: "cvUser c' = Some (cfUser f)" "cvAgent c' = Some (cfAgent f)"
    using c'(2,3) by (simp_all add: conversationFromFile_def soundFile_def)
  have gh: "goodHeader h" "length (encodeHeader h) < maxLine" using h(1) by (simp_all add: wholeFile_def)
  have "goodHeader (?g h) \<and> length (encodeHeader (?g h)) < maxLine"
    using assms(2) c'(1) gh unfolding fsFineRetitle_def Let_def by blast
  then obtain b where b: "replaceHeader ?g (cfBytes f) = Some b" "wholeFile b (?g h) ms" using whole_replaced [OF h(1), of ?g] by auto
  let ?s = "writeFile (cfUser f) (cfAgent f) (cfName f) b (cfTime f) s"
  show ?thesis
  proof (cases "cvTitle c' = None \<and> cvSummary c' = None \<and> cvSummarized c' = None")
    case True
    then show ?thesis using assms(1) by (simp add: fsModifyConversation_def f(1) h(2) c'(1) u)
  next
    case False
    have "fsModifyConversation w i modifier s = (?s, Inr (c'\<lparr>cvModified := cwNow w\<rparr>))"
    proof -
      have nf: "\<not> cwFault w x" for x using c by (simp add: calm_def)
      show ?thesis unfolding fsModifyConversation_def f(1) h(2) option.case c'(1) u prod.case if_not_P [OF False]
          fs_found(4) [OF assms(1) c f(2)] if_not_P [OF nf] b(1) by (simp add: nf)
    qed
    moreover note write_sound [OF assms(1) f(2) b(2), of "cfTime f"]
    moreover have "(fsLog s)(cfName f \<mapsto> map (conversationRawMessageToModel (cfName f)) ms) = fsLog s"
      using fs_log [OF assms(1) f(2) h(1)] by (simp add: fun_upd_idem)
    ultimately show ?thesis by auto
  qed
qed

lemma fs_lists:
  assumes "fsConversationsSound s" and "calm w" and "fsLog s i = Some ms"
  shows "fsListMessages w i s = Inr ms"
proof -
  obtain f where f: "find (\<lambda>f. cfName f = i) (csFiles s) = Some f" using assms(3) by (auto simp: fsLog_def split: option.splits)
  then have i: "i = cfName f" "f \<in> set (csFiles s)" by (auto simp: find_Some_iff)
  obtain h ms' where h: "wholeFile (cfBytes f) h ms'" "fsGetConversation w (cfName f) s = Some (conversationFromFile w (cfName f) f h)"
    using fs_found(1) [OF assms(1,2) i(2)] by blast
  have "ms = map (conversationRawMessageToModel (cfName f)) ms'" using fs_log [OF assms(1) i(2) h(1)] assms(3) i(1) by simp
  then show ?thesis using h fs_found(2-4) [OF assms(1,2) i(2)] by (simp add: fsListMessages_def i(1) wholeFile_def)
qed

interpretation fsConversations: conversation_log fsCreateMessage fsModifyConversation fsListMessages fsConversationsSound fsLog
  fsFineAppend fsFineRetitle calm fsWritten
  by unfold_locales (rule fs_appends fs_retitles fs_lists; assumption)+

subsection \<open>The database\<close>

definition dbLog :: "conv_tables \<Rightarrow> string \<Rightarrow> conversation_message list option" where
  "dbLog s i =
     (if i \<in> set (map cvId (ctConversations s))
      then Some (map messageRecord (sort_key cmId (filter (\<lambda>m. cmConversation m = Some i) (ctMessages s)))) else None)"

definition dbWritten :: "db_conv_weather \<Rightarrow> conversation_message \<Rightarrow> conversation_message" where
  "dbWritten w m = messageRecord ((messageRecord m)\<lparr>cmId := (if cmId m = [] then dcUlid w else cmId m), cmCreated := dcNow w\<rparr>)"

text \<open>The identifier of a new message is greater than those of its conversation, and no row has it.\<close>

definition dbFineAppend :: "db_conv_weather \<Rightarrow> conversation_message \<Rightarrow> conv_tables \<Rightarrow> bool" where
  "dbFineAppend w m s \<longleftrightarrow> \<not> dcFault w \<and> cmRole m \<noteq> None \<and> cmContent m \<noteq> []
     \<and> (\<exists>i. cmConversation m = Some i \<and> trimmedString i = Some i \<and> i \<in> set (map cvId (ctConversations s))
          \<and> (\<forall>x\<in>set (ctMessages s). cmId x \<noteq> cmId (dbWritten w m) \<and> (cmConversation x = Some i \<longrightarrow> cmId x < cmId (dbWritten w m))))"

definition dbFineRetitle :: "db_conv_weather \<Rightarrow> string \<Rightarrow> (stored_conversation \<Rightarrow> stored_conversation option) \<Rightarrow> conv_tables \<Rightarrow> bool" where
  "dbFineRetitle w i modifier s \<longleftrightarrow> \<not> dcFault w \<and> i \<in> set (map cvId (ctConversations s)) \<and> (\<forall>c. modifier c \<noteq> None)"

lemma insort_key_snoc: "f a \<le> f x \<Longrightarrow> insort_key f a (xs @ [x]) = insort_key f a xs @ [x]"
  by (induction xs) auto

lemma sort_key_snoc: "\<forall>y\<in>set xs. f y \<le> f x \<Longrightarrow> sort_key f (xs @ [x]) = sort_key f xs @ [x]"
  by (induction xs) (simp_all add: insort_key_snoc)

lemma db_appends:
  assumes "dbFineAppend w m s"
  shows "\<exists>s' r i ms. dbCreateMessage w m s = (s', Inr r) \<and> cmConversation m = Some i \<and> dbLog s i = Some ms
    \<and> dbLog s' = (dbLog s)(i \<mapsto> ms @ [dbWritten w m])"
proof -
  let ?r = "(messageRecord m)\<lparr>cmId := (if cmId m = [] then dcUlid w else cmId m), cmCreated := dcNow w\<rparr>"
  have idr: "cmId (dbWritten w m) = cmId ?r" by (simp add: dbWritten_def messageRecord_def)
  obtain i where i: "cmConversation m = Some i" "trimmedString i = Some i" "i \<in> set (map cvId (ctConversations s))"
    "\<forall>x\<in>set (ctMessages s). cmId x \<noteq> cmId ?r \<and> (cmConversation x = Some i \<longrightarrow> cmId x < cmId ?r)"
    using assms unfolding dbFineAppend_def idr by blast
  have c: "cmConversation ?r = Some i" by (simp add: messageRecord_def trimmedPointer_def pointed_def i(1,2))
  have n: "\<not> dcFault w" "cmRole m \<noteq> None" "cmContent m \<noteq> []" using assms by (simp_all add: dbFineAppend_def)
  let ?s = "s\<lparr>ctMessages := ctMessages s @ [?r]\<rparr>"
  have fresh: "cmId ?r \<notin> set (map cmId (ctMessages s))" using i(4) by auto
  have known: "(case cmConversation ?r of None \<Rightarrow> True | Some i \<Rightarrow> i \<in> set (map cvId (ctConversations s)))"
    unfolding c using i(3) by simp
  have guard: "\<not> (cmConversation m = None \<or> cmRole m = None \<or> cmContent m = [])" using i(1) n by simp
  have run: "dbCreateMessage w m s = (?s, Inr (messageRecord ?r))"
    unfolding dbCreateMessage_def Let_def if_not_P [OF guard] if_not_P [OF n(1)] if_not_P [OF fresh]
    by (simp only: known not_True_eq_False if_False)
  have "sort_key cmId (filter (\<lambda>m. cmConversation m = Some i) (ctMessages s) @ [?r])
      = sort_key cmId (filter (\<lambda>m. cmConversation m = Some i) (ctMessages s)) @ [?r]"
    by (rule sort_key_snoc) (use i(4) in \<open>auto intro: less_imp_le simp del: select_convs\<close>)
  then have "dbLog ?s j = ((dbLog s)(i \<mapsto> map messageRecord (sort_key cmId (filter (\<lambda>m. cmConversation m = Some i) (ctMessages s))) @ [dbWritten w m])) j" for j
    using i(3) c by (simp add: dbLog_def dbWritten_def)
  then have l: "dbLog ?s = (dbLog s)(i \<mapsto> map messageRecord (sort_key cmId (filter (\<lambda>m. cmConversation m = Some i) (ctMessages s))) @ [dbWritten w m])"
    by (rule ext)
  have "dbLog s i = Some (map messageRecord (sort_key cmId (filter (\<lambda>m. cmConversation m = Some i) (ctMessages s))))"
    using i(3) by (simp add: dbLog_def)
  with run i(1) l show ?thesis by (intro exI conjI)
qed

lemma db_retitles:
  assumes "dbFineRetitle w i modifier s"
  shows "\<exists>s' r. dbModifyConversation w i modifier s = (s', Inr r) \<and> dbLog s' = dbLog s"
proof -
  have f: "\<not> dcFault w" "i \<in> set (map cvId (ctConversations s))" "\<forall>c. modifier c \<noteq> None"
    using assms by (simp_all add: dbFineRetitle_def)
  obtain c where c: "find (\<lambda>c. cvId c = i) (ctConversations s) = Some c"
    using f(2) by (cases "find (\<lambda>c. cvId c = i) (ctConversations s)") (auto simp: find_None_iff)
  obtain c' where c': "modifier (conversationRecord c) = Some c'" using f(3) by blast
  let ?u = "\<lambda>x. x\<lparr>cvUser := cvUser (conversationRecord c'), cvAgent := cvAgent (conversationRecord c'), cvDefault := cvDefault (conversationRecord c'),
     cvTitle := cvTitle (conversationRecord c'), cvSummary := cvSummary (conversationRecord c'),
     cvSummarized := cvSummarized (conversationRecord c'), cvModified := dcNow w\<rparr>"
  let ?s = "s\<lparr>ctConversations := map (\<lambda>x. if cvId x = i then ?u x else x) (ctConversations s)\<rparr>"
  have "find (\<lambda>c. cvId c = i) (map (\<lambda>x. if cvId x = i then ?u x else x) cs) = map_option ?u (find (\<lambda>c. cvId c = i) cs)" for cs
    by (induction cs) auto
  note found = this
  have "ctConversations ?s = map (\<lambda>x. if cvId x = i then ?u x else x) (ctConversations s)" by simp
  then have "dbGetConversation w i ?s = Inr (conversationRecord (?u c))"
    unfolding dbGetConversation_def by (simp only: found c f(1) if_False option.map option.case)
  moreover have "dbGetConversation w i s = Inr (conversationRecord c)" using f(1) c by (simp add: dbGetConversation_def)
  ultimately have "dbModifyConversation w i modifier s = (?s, Inr (conversationRecord (?u c)))"
    by (simp add: dbModifyConversation_def c' Let_def)
  moreover have "dbLog ?s = dbLog s"
  proof -
    have "map cvId (ctConversations ?s) = map cvId (ctConversations s)" by simp
    then show ?thesis unfolding dbLog_def by (intro ext) simp
  qed
  ultimately show ?thesis by blast
qed

interpretation dbConversations: conversation_log dbCreateMessage dbModifyConversation dbListMessages "\<lambda>s. True" dbLog
  dbFineAppend dbFineRetitle "\<lambda>w. \<not> dcFault w" dbWritten
proof unfold_locales
  show "\<exists>s' r i ms. dbCreateMessage w m s = (s', Inr r) \<and> True \<and> cmConversation m = Some i \<and> dbLog s i = Some ms
      \<and> dbLog s' = (dbLog s)(i \<mapsto> ms @ [dbWritten w m])" if "dbFineAppend w m s" for s w m
    using db_appends [OF that] by blast
  show "\<exists>s' r. dbModifyConversation w i f s = (s', Inr r) \<and> True \<and> dbLog s' = dbLog s" if "dbFineRetitle w i f s" for s w i f
    using db_retitles [OF that] by blast
qed (auto simp: dbListMessages_def dbLog_def split: if_splits)

end
