(* ===== verification/ConversationProps.thy ===== *)
theory ConversationProps
  imports ConversationContracts Transcript
begin

text \<open>
  What the stores do to a transcript: both read back the messages they were given; the file store loses the
  resume point that compaction records, every message behind one that is too long for its reader, and after
  a torn write the next message too.
\<close>

subsection \<open>What is read of a message\<close>

lemma compacted_nonempty: "rawText v \<Longrightarrow> compacted v = [] \<longleftrightarrow> v = []"
  using compact_value(1) [of v] by (auto simp: compacted_def rawText_def valueText_def jsonValid_def scanEof_def beginValue_def jsonSpace_def jsonDigit_def)

lemma dbWritten_form:
  "cmContent (dbWritten a m) = cmContent m \<and> cmToolCalls (dbWritten a m) = cmToolCalls m
    \<and> cmUsage (dbWritten a m) = cmUsage m \<and> cmMetadata (dbWritten a m) = cmMetadata m"
  by (simp add: dbWritten_def messageRecord_def)

lemma fsWritten_form:
  assumes "cwUlid a \<noteq> []"
  shows "cmId (fsWritten a m) = cwUlid a \<and> cmRole (fsWritten a m) = Some (pointed (cmRole m))
    \<and> cmContent (fsWritten a m) = compactJson (cmContent m)
    \<and> (rawText (cmToolCalls m) \<and> rawText (cmUsage m) \<and> (cmMetadata m = [] \<or> cmToolCalls m \<noteq> [] \<or> cmUsage m \<noteq> []) \<longrightarrow>
         cmToolCalls (fsWritten a m) = compacted (cmToolCalls m) \<and> cmUsage (fsWritten a m) = compacted (cmUsage m)
         \<and> cmMetadata (fsWritten a m) = compacted (cmMetadata m))"
proof -
  let ?x = "readForm (appendedMessage a m)"
  have f: "fmId ?x = cwUlid a" "fmRole ?x = pointed (cmRole m)" "fmContent ?x = compactJson (cmContent m)"
    "fmToolCalls ?x = compacted (cmToolCalls m)" "fmUsage ?x = compacted (cmUsage m)" "fmMetadata ?x = compacted (cmMetadata m)"
    by (simp_all add: readForm_def appendedMessage_def)
  have e: "migrateMetadataEnvelope ?x = (compacted (cmToolCalls m), compacted (cmUsage m), compacted (cmMetadata m))"
    if "rawText (cmToolCalls m)" "rawText (cmUsage m)" "cmMetadata m = [] \<or> cmToolCalls m \<noteq> [] \<or> cmUsage m \<noteq> []"
    using that compacted_nonempty [OF that(1)] compacted_nonempty [OF that(2)] by (auto simp: migrateMetadataEnvelope_def f compacted_def)
  show ?thesis using assms
    by (simp add: fsWritten_def conversationRawMessageToModel_def f e split: prod.split)
qed

subsection \<open>Both stores\<close>


subsection \<open>Long lines\<close>

lemma header_kept:
  assumes "wholeFile b h ms"
  shows "loadConversationHeader (b @ rest) = Some h"
proof -
  obtain r where b: "b = encodeHeader h @ CHR 0x0A # r" "goodHeader h" "length (encodeHeader h) < maxLine"
    using assms by (auto simp: wholeFile_def)
  note eh = decode_encode_header [OF b(2)]
  show ?thesis using b(3) eh(1) rawLines_first [OF eh(2), of "r @ rest"]
    by (simp add: loadConversationHeader_def b(1) trim_return [OF eh(3,4)] split: prod.split)
qed

text \<open>C40: One message whose line has a megabyte or more makes its conversation unreadable: it is reported as
  stored, and from then on listing the messages fails, whatever is appended.\<close>

theorem long_message_hides_the_conversation:
  assumes "fsConversationsSound s" and "calm w" and "f \<in> set (csFiles s)" and "cmConversation m = Some (cfName f)"
    and "cmRole m \<noteq> None" and "goodMessage (appendedMessage w m)" and "encodeMessage (appendedMessage w m) = Some l" and "maxLine \<le> length l"
  shows "\<exists>s' r. fsCreateMessage w m s = (s', Inr r) \<and> fsListMessages w (cfName f) s' = Inl OsError
    \<and> (\<forall>g rest. findFile (cfUser f) (cfAgent f) (cfName f) s' = Some g \<longrightarrow> loadConversationData (cfBytes g @ rest) = None)"
proof -
  obtain h ms where h: "wholeFile (cfBytes f) h ms" "fsGetConversation w (cfName f) s = Some (conversationFromFile w (cfName f) f h)"
    using fs_found(1) [OF assms(1-3)] by blast
  note g = fs_found(2-4) [OF assms(1-3)]
  note line = decode_encode_message [OF assms(6,7)]
  have c: "cmContent m \<noteq> []" using assms(6) by (auto simp: goodMessage_def appendedMessage_def valueText_def)
  let ?b = "cfBytes f @ l @ [CHR 0x0A]"
  let ?s = "writeFile (cfUser f) (cfAgent f) (cfName f) ?b (cwNow w) s"
  let ?f = "f\<lparr>cfBytes := ?b, cfTime := cwNow w\<rparr>"
  obtain r where "cmRole m = Some r" using assms(5) by blast
  then have run: "fsCreateMessage w m s = (?s, Inr (conversationRawMessageToModel (cfName f) (appendedMessage w m)))"
    using assms(2) by (simp add: fsCreateMessage_def assms(4,7) c h(2) g Let_def calm_def)
  have e: "endsLine (cfBytes f)" using h(1) by (simp add: wholeFile_def)
  have long: "loadConversationData (?b @ rest) = None" for rest
    using load_long [OF e line(2) assms(8), of rest] by simp
  have d: "distinct (map cfName (csFiles s))" using assms(1) by (simp add: fsConversationsSound_def)
  have files: "csFiles ?s = map (\<lambda>g. if cfName g = cfName f then g\<lparr>cfBytes := ?b, cfTime := cwNow w\<rparr> else g) (csFiles s)"
    by (rule write_same [OF assms(1,3)])
  then have f': "?f \<in> set (csFiles ?s)" "distinct (map cfName (csFiles ?s))" using assms(3) d by (force, simp add: o_def if_distrib cong: if_cong)
  have found: "findFile (cfUser f) (cfAgent f) (cfName f) ?s = Some ?f"
    using find_exact [OF f'(2,1)] by (simp add: findFile_def)
  have head: "loadConversationHeader ?b = Some h" by (rule header_kept [OF h(1)])
  have "filter (\<lambda>g. cwGlob w (cfName f) (cfName g)) (csFiles ?s) = [?f]"
    using filter_named [OF f'(2,1)] assms(2) by (simp add: calm_def)
  then have "fsGetConversation w (cfName f) ?s = Some (conversationFromFile w (cfName f) ?f h)"
    using assms(2) head by (simp add: fsGetConversation_def calm_def)
  moreover have "conversationFromFile w (cfName f) ?f h = (conversationFromFile w (cfName f) f h)\<lparr>cvModified := cwNow w,
      cvCreated := cvCreated (conversationFromFile w (cfName f) ?f h)\<rparr>" by (simp add: conversationFromFile_def)
  ultimately have "fsListMessages w (cfName f) ?s = Inl OsError"
    using g(1,2) [of h] found long [of "[]"] by (simp add: fsListMessages_def conversationFromFile_def)
  with run found long show ?thesis by auto
qed

subsection \<open>Torn writes\<close>

lemma closed_only_at_top:
  "scanAll s w = Some (st, []) \<Longrightarrow> snd s = [] \<longrightarrow> fst s = EndTop \<Longrightarrow> st = EndTop"
proof (induction w arbitrary: s)
  case (Cons c w)
  obtain u where u: "scanStep c s = Some u" "scanAll u w = Some (st, [])" using Cons.prems(1) by (auto simp: bind_eq_Some_conv)
  have e: "snd t = [] \<longrightarrow> fst t = EndTop" if "endValue c fs = Some t" "fs \<noteq> []" for fs t
    using that by (cases fs) (auto split: if_splits json_frame.splits)
  have "snd u = [] \<longrightarrow> fst u = EndTop"
  proof (cases "fst s = EndTop \<and> snd s = []")
    case True
    then show ?thesis using u(1) by (cases s) (auto split: if_splits)
  next
    case False
    then have n: "snd s \<noteq> []" using Cons.prems(2) by blast
    then show ?thesis using u(1) e
      by (cases "(c, s)" rule: scanStep.cases)
        (auto simp: beginValue_def beginString_def afterDigits_def simp del: endValue.simps elim: popFrame.elims split: if_splits)
  qed
  from Cons.IH [OF u(2) this] show ?case .
qed auto

lemma scanAll_lifted:
  assumes "scanAll (s, gs) xs = Some (t, hs)" and "s = EndTop \<longrightarrow> gs = []" and "fs \<noteq> []" and "scanAll (lifted s, gs @ fs) xs = Some r"
  shows "r = (lifted t, hs @ fs)"
  using assms
proof (induction xs arbitrary: s gs)
  case (Cons x xs)
  obtain u ws where u: "scanStep x (s, gs) = Some (u, ws)" "scanAll (u, ws) xs = Some (t, hs)"
    using Cons.prems(1) by (auto simp: bind_eq_Some_conv)
  have l: "scanStep x (lifted s, gs @ fs) = Some (lifted u, ws @ fs)"
    using scanStep_lifted [OF u(1) Cons.prems(2,3)] Cons.prems(4) by (cases "scanStep x (lifted s, gs @ fs)") auto
  have "u = EndTop \<longrightarrow> ws = []" using scanStep_top [OF u(1)] Cons.prems(2) by simp
  from Cons.IH [OF u(2) this Cons.prems(3)] Cons.prems(4) l show ?case by simp
qed simp

text \<open>Behind an open bracket an object leaves the bracket open, or is no JSON there.\<close>

lemma object_behind_open:
  assumes "scanAll (BeginValue, []) l = Some (EndTop, [])" and "l = CHR 0x7B # CHR 0x22 # CHR ''i'' # x"
    and "fs \<noteq> []" and "properState s" and "scanAll (s, fs) l = Some (t, hs)"
  shows "hs \<noteq> []"
proof -
  have e: "endValue (CHR ''i'') gs = None" "endValue (CHR 0x7B) gs = None" for gs
    by (cases gs; simp add: jsonSpace_def split: json_frame.split)+
  have same: "hs \<noteq> []" if "scanAll (BeginValue, fs) l = Some (t, hs)"
    using scanAll_lifted [OF assms(1) _ assms(3), of "(t, hs)"] that assms(3) by simp
  consider "s = BeginValue \<or> s = BeginValueOrEmpty" | "s = InString" | n where "s = InHex n" | w where "s = Literal w"
    | "s \<notin> {BeginValue, BeginValueOrEmpty, InString}" "\<forall>n. s \<noteq> InHex n" "\<forall>w. s \<noteq> Literal w" by blast
  then show ?thesis
  proof cases
    case 1
    then have "scanAll (s, fs) l = scanAll (BeginValue, fs) l" unfolding assms(2) by (auto simp: beginValue_def jsonSpace_def)
    with same assms(5) show ?thesis by simp
  next
    case 2
    with assms(3,5) e show ?thesis unfolding assms(2) by simp
  next
    case 3
    with assms(5) show ?thesis unfolding assms(2) by (cases n) (simp_all add: hexDigit_def jsonDigit_def)
  next
    case 4
    with assms(4,5) show ?thesis unfolding assms(2) by (cases w) (auto split: if_splits)
  next
    case 5
    with assms(3,5) e show ?thesis unfolding assms(2)
      by (cases s) (auto simp: beginValue_def beginString_def afterDigits_def jsonSpace_def jsonDigit_def)
  qed
qed

lemma torn_line_invalid:
  assumes "scanAll (BeginValue, []) l = Some (EndTop, [])" and "l = CHR 0x7B # CHR 0x22 # CHR ''i'' # x"
    and "scanAll (BeginValue, []) l' = Some (EndTop, [])" and "l' = p @ q" and "p \<noteq> []" and "hd l' = CHR 0x7B" and "last l' = CHR 0x7D"
  shows "\<not> jsonValid (p @ l)"
proof -
  obtain s fs where s: "scanAll (BeginValue, []) p = Some (s, fs)" "scanAll (s, fs) q = Some (EndTop, [])"
    using assms(3) unfolding assms(4) by (auto simp: scanAll_append bind_eq_Some_conv)
  obtain p' where p: "p = CHR 0x7B # p'" using assms(4-6) by (cases p) auto
  have first: "scanAll (BeginStringOrEmpty, [ObjectKey]) p' = Some (s, fs)"
    using s(1) unfolding p by (simp add: beginValue_def jsonSpace_def maxNestingDepth_def)
  have proper: "properState s"
  proof -
    have "properState (fst u)" if "scanAll r w = Some u" "properState (fst r)" for r w u
      using that by (induction w arbitrary: r) (auto simp: bind_eq_Some_conv dest: proper_step)
    from this [OF s(1)] show ?thesis by simp
  qed
  show ?thesis
  proof (cases "fs = []")
    case True
    then have "s = EndTop" using closed_only_at_top [OF first [unfolded True]] by simp
    then have "scanAll (s, fs) l = None" unfolding assms(2) by (simp add: jsonSpace_def)
    then show ?thesis using s(1) by (simp add: jsonValid_def scanAll_append)
  next
    case False
    show ?thesis
    proof (cases "scanAll (s, fs) l")
      case None
      then show ?thesis using s(1) by (simp add: jsonValid_def scanAll_append)
    next
      case (Some r)
      obtain t hs where r: "r = (t, hs)" by fastforce
      have "hs \<noteq> []" by (rule object_behind_open [OF assms(1,2) False proper Some [unfolded r]])
      then obtain g gs where "scanAll (BeginValue, []) (p @ l) = Some (t, g # gs)"
        using s(1) Some r by (cases hs) (simp_all add: scanAll_append)
      then show ?thesis by (rule open_bracket_invalid)
    qed
  qed
qed

lemma message_line_shape:
  assumes "goodMessage m" and "encodeMessage m = Some l" and "fmId m \<noteq> []"
  shows "scanAll (BeginValue, []) l = Some (EndTop, [])" and "\<exists>x. l = CHR 0x7B # CHR 0x22 # CHR ''i'' # x"
proof -
  have l: "l = marshalObject (messageMembers m)" using assms encodeMessage_members by simp
  have n: "messageMembers m \<noteq> []" by (simp add: messageMembers_def)
  have mt: "list_all memberText (messageMembers m)"
    using messageMembers_written [OF assms(1)] written_member by (simp add: list_all_iff)
  show "scanAll (BeginValue, []) l = Some (EndTop, [])"
    using members_run(2) [OF mt n, of BeginStringOrEmpty]
    by (simp add: l marshalObject_def beginValue_def jsonSpace_def maxNestingDepth_def)
  obtain ms where ms: "messageMembers m = (''id'', marshalString (fmId m)) # ms" "ms \<noteq> []"
    using assms(3) by (auto simp: messageMembers_def textMember_def)
  have "quoteBody ''id'' = ''id''" by (rule quote_plainKey) (simp add: plainKey_def)
  then show "\<exists>x. l = CHR 0x7B # CHR 0x22 # CHR ''i'' # x"
    by (simp add: l marshalObject_def ms join_Cons marshalString_def)
qed

lemma torn_bytes:
  assumes "wholeFile b h ms" and "goodMessage m1" "fmId m1 \<noteq> []" "encodeMessage m1 = Some l1"
    and "goodMessage m2" "fmId m2 \<noteq> []" "encodeMessage m2 = Some l2" and "goodMessage m3" "encodeMessage m3 = Some l3"
    and "0 < n" and "n \<le> length l1" and "n + length l2 < maxLine" and "length l3 < maxLine"
  shows "loadConversationData (b @ take n (l1 @ [CHR 0x0A]) @ l2 @ [CHR 0x0A]) = Some (h, ms)
    \<and> loadConversationData (b @ take n (l1 @ [CHR 0x0A]) @ l2 @ [CHR 0x0A] @ l3 @ [CHR 0x0A]) = Some (h, ms @ [readForm m3])"
proof -
  note s1 = message_line_shape [OF assms(2,4,3)] and s2 = message_line_shape [OF assms(5,7,6)]
  note d1 = decode_encode_message [OF assms(2,4)] and d2 = decode_encode_message [OF assms(5,7)] and d3 = decode_encode_message [OF assms(8,9)]
  let ?p = "take n l1"
  have p: "take n (l1 @ [CHR 0x0A]) = ?p" "?p \<noteq> []" using assms(10,11) d1(3) by simp_all
  obtain x where x: "l2 = CHR 0x7B # CHR 0x22 # CHR ''i'' # x" using s2(2) by blast
  have "hd l1 = CHR 0x7B" using s1(2) by auto
  then have inv: "\<not> jsonValid (?p @ l2)"
    using torn_line_invalid [OF s2(1) x s1(1) append_take_drop_id [symmetric] p(2) _ d1(4)] by simp
  then have lost: "lineMessage (?p @ l2) = None"
    by (simp add: lineMessage_def peekType_def decodeMessage_def unmarshalStruct_def objectMembers_def Let_def)
  have e: "endsLine b" "loadConversationData b = Some (h, ms)" using assms(1) by (simp_all add: wholeFile_def)
  have nn: "CHR 0x0A \<notin> set (?p @ l2)" using d1(2) d2(2) by (auto dest: in_set_takeD)
  have len: "length (?p @ l2) < maxLine" using assms(12) by simp
  have "loadConversationData (b @ (?p @ l2) @ [CHR 0x0A]) = Some (h, ms)"
    using load_append [OF e(2,1) nn _ _ len] d2(3,4) lost by simp
  then have one: "loadConversationData (b @ ?p @ l2 @ [CHR 0x0A]) = Some (h, ms)" by simp
  have "endsLine (b @ ?p @ l2 @ [CHR 0x0A])" by (simp add: endsLine_def)
  from load_append [OF one this d3(2-4) assms(13)] line_message [OF assms(8,9)] one
  show ?thesis unfolding p(1) by simp
qed

text \<open>A file in its place, whatever its bytes; an append that no fault stops before the write.\<close>

definition placed :: "conv_store \<Rightarrow> conv_file \<Rightarrow> bool" where
  "placed s f \<longleftrightarrow> distinct (map cfName (csFiles s)) \<and> f \<in> set (csFiles s)
     \<and> trimmedString (cfUser f) = Some (cfUser f) \<and> trimmedString (cfAgent f) = Some (cfAgent f)"

definition rewritten :: "conv_weather \<Rightarrow> string \<Rightarrow> conv_file \<Rightarrow> conv_file" where
  "rewritten w b f = f\<lparr>cfBytes := b, cfTime := cwNow w\<rparr>"

definition putBytes :: "conv_weather \<Rightarrow> string \<Rightarrow> conv_file \<Rightarrow> conv_store \<Rightarrow> conv_store" where
  "putBytes w b f s = writeFile (cfUser f) (cfAgent f) (cfName f) b (cwNow w) s"

lemma placed_named: "placed s f \<Longrightarrow> g \<in> set (csFiles s) \<Longrightarrow> cfName g = cfName f \<Longrightarrow> g = f"
  by (auto simp: placed_def distinct_map inj_on_def)

lemma placed_found: "placed s f \<Longrightarrow> findFile (cfUser f) (cfAgent f) (cfName f) s = Some f"
  using find_exact [of "csFiles s" f] by (simp add: placed_def findFile_def)

lemma placed_write:
  assumes "placed s f"
  shows "placed (putBytes w b f s) (rewritten w b f)"
proof -
  have "csFiles (putBytes w b f s) = map (\<lambda>g. if g = f then rewritten w b f else g) (csFiles s)"
    using placed_named [OF assms] placed_found [OF assms] by (auto simp: putBytes_def writeFile_def rewritten_def)
  moreover have "map cfName (map (\<lambda>g. if g = f then rewritten w b f else g) gs) = map cfName gs" for gs
    by (simp add: rewritten_def)
  ultimately have "map cfName (csFiles (putBytes w b f s)) = map cfName (csFiles s)" "rewritten w b f \<in> set (csFiles (putBytes w b f s))"
    using assms by (simp_all only: placed_def) force
  then show ?thesis using assms by (simp add: placed_def rewritten_def)
qed

lemma placed_conversation:
  assumes "placed s f" and "\<forall>a b. cwGlob w a b \<longleftrightarrow> a = b" and "\<forall>c. \<not> cwFault w c" and "loadConversationHeader (cfBytes f) = Some h"
  shows "\<exists>c. fsGetConversation w (cfName f) s = Some c \<and> pointed (cvUser c) = cfUser f \<and> pointed (cvAgent c) = cfAgent f"
proof -
  have "filter (\<lambda>g. cwGlob w (cfName f) (cfName g)) (csFiles s) = [f]"
    using filter_named [of "csFiles s" f] assms(1,2) by (simp add: placed_def)
  then have "fsGetConversation w (cfName f) s = Some (conversationFromFile w (cfName f) f h)"
    using assms(3,4) by (simp add: fsGetConversation_def)
  then show ?thesis using assms(1) by (simp add: conversationFromFile_def placed_def pointed_def)
qed

lemma placed_lists:
  assumes "placed s f" and "calm w" and "loadConversationHeader (cfBytes f) = Some h" and "loadConversationData (cfBytes f) = Some (h, ms)"
  shows "fsListMessages w (cfName f) s = Inr (map (conversationRawMessageToModel (cfName f)) ms)"
  using placed_conversation [OF assms(1) _ _ assms(3), of w] assms(2,4) placed_found [OF assms(1)]
  by (auto simp: fsListMessages_def calm_def)

lemma placed_append:
  assumes "placed s f" and "calm (w\<lparr>cwPartial := None\<rparr>)" and "loadConversationHeader (cfBytes f) = Some h"
    and "cmConversation m = Some (cfName f)" and "cmRole m \<noteq> None" and "goodMessage (appendedMessage w m)"
    and "encodeMessage (appendedMessage w m) = Some l"
  shows "fsCreateMessage w m s =
    (case cwPartial w of Some n \<Rightarrow> (putBytes w (cfBytes f @ take n (l @ [CHR 0x0A])) f s, Inl OsError)
     | None \<Rightarrow> (putBytes w (cfBytes f @ l @ [CHR 0x0A]) f s, Inr (conversationRawMessageToModel (cfName f) (appendedMessage w m))))"
proof -
  have c: "cmContent m \<noteq> []" using assms(6) by (auto simp: goodMessage_def appendedMessage_def valueText_def)
  have w: "\<forall>a b. cwGlob w a b \<longleftrightarrow> a = b" "\<forall>c. \<not> cwFault w c" using assms(2) by (simp_all add: calm_def)
  obtain v r where "fsGetConversation w (cfName f) s = Some v" "pointed (cvUser v) = cfUser f" "pointed (cvAgent v) = cfAgent f" "cmRole m = Some r"
    using placed_conversation [OF assms(1) w assms(3)] assms(5) by blast
  then show ?thesis using w(2) by (simp add: fsCreateMessage_def assms(4,7) c placed_found [OF assms(1)] Let_def putBytes_def split: option.split)
qed

text \<open>C39: An append whose write is cut off after \<open>n\<close> bytes, at least one and at most the line without its end,
  fails, and costs one message more: the next one is reported as stored, but the file store appends it to
  the torn line and it is not listed, neither then nor later. It costs no more than that: what was
  listed before is listed still, and a third message is listed behind it, provided that the torn line
  with the second message on it, and the third line, stay below the megabyte the reader accepts, the
  messages have identifiers and texts in UTF-8, and nothing else fails.\<close>

theorem torn_write_costs_two:
  assumes "fsConversationsSound s" and "f \<in> set (csFiles s)"
    and "\<forall>(w, m, l)\<in>{(w1, m1, l1), (w2, m2, l2), (w3, m3, l3)}. calm (w\<lparr>cwPartial := None\<rparr>) \<and> cwUlid w \<noteq> []
      \<and> cmConversation m = Some (cfName f) \<and> cmRole m \<noteq> None \<and> goodMessage (appendedMessage w m) \<and> encodeMessage (appendedMessage w m) = Some l"
    and "cwPartial w1 = Some n" and "cwPartial w2 = None" and "cwPartial w3 = None"
    and "0 < n" and "n \<le> length l1" and "n + length l2 < maxLine" and "length l3 < maxLine"
    and "fsCreateMessage w1 m1 s = (s1, r1)" and "fsCreateMessage w2 m2 s1 = (s2, r2)" and "fsCreateMessage w3 m3 s2 = (s3, r3)"
  shows "r1 = Inl OsError \<and> (\<exists>x2. r2 = Inr x2) \<and> (\<exists>x3. r3 = Inr x3)
    \<and> (\<exists>ms. fsListMessages w2 (cfName f) s = Inr ms \<and> fsListMessages w2 (cfName f) s2 = Inr ms
         \<and> fsListMessages w3 (cfName f) s3 = Inr (ms @ [fsWritten w3 m3]))"
proof -
  obtain h ms where h: "wholeFile (cfBytes f) h ms" using assms(1,2) by (auto simp: fsConversationsSound_def soundFile_def)
  have pf: "placed s f" using assms(1,2) by (simp add: placed_def fsConversationsSound_def soundFile_def)
  have c: "calm (w1\<lparr>cwPartial := None\<rparr>)" "calm w2" "calm w3" using assms(3,5,6) by (simp_all add: calm_def)
  have ids: "fmId (appendedMessage w1 m1) \<noteq> []" "fmId (appendedMessage w2 m2) \<noteq> []" using assms(3) by (simp_all add: appendedMessage_def)
  let ?t = "take n (l1 @ [CHR 0x0A])"
  let ?b1 = "cfBytes f @ ?t" let ?b2 = "cfBytes f @ ?t @ l2 @ [CHR 0x0A]" let ?b3 = "cfBytes f @ ?t @ l2 @ [CHR 0x0A] @ l3 @ [CHR 0x0A]"
  let ?f1 = "rewritten w1 ?b1 f" let ?f2 = "rewritten w2 ?b2 ?f1" let ?f3 = "rewritten w3 ?b3 ?f2"
  note kept = header_kept [OF h]
  have head: "loadConversationHeader (cfBytes f) = Some h" using kept [of "[]"] by simp
  have "fsCreateMessage w1 m1 s = (putBytes w1 ?b1 f s, Inl OsError)"
    using placed_append [OF pf c(1) head, of m1 l1] assms(3,4) by simp
  then have s1: "s1 = putBytes w1 ?b1 f s" "r1 = Inl OsError" using assms(11) by simp_all
  have p1: "placed s1 ?f1" unfolding s1 by (rule placed_write [OF pf])
  have "fsCreateMessage w2 m2 s1 = (putBytes w2 ?b2 ?f1 s1, Inr (conversationRawMessageToModel (cfName f) (appendedMessage w2 m2)))"
    using placed_append [OF p1, of w2 h m2 l2] assms(3,5) kept by (simp add: rewritten_def)
  then have s2: "s2 = putBytes w2 ?b2 ?f1 s1" "\<exists>x2. r2 = Inr x2" using assms(12) by simp_all
  have p2: "placed s2 ?f2" unfolding s2(1) by (rule placed_write [OF p1])
  have "fsCreateMessage w3 m3 s2 = (putBytes w3 ?b3 ?f2 s2, Inr (conversationRawMessageToModel (cfName f) (appendedMessage w3 m3)))"
    using placed_append [OF p2, of w3 h m3 l3] assms(3,6) kept by (simp add: rewritten_def)
  then have s3: "s3 = putBytes w3 ?b3 ?f2 s2" "\<exists>x3. r3 = Inr x3" using assms(13) by simp_all
  have p3: "placed s3 ?f3" unfolding s3(1) by (rule placed_write [OF p2])
  have loads: "loadConversationData ?b2 = Some (h, ms)" "loadConversationData ?b3 = Some (h, ms @ [readForm (appendedMessage w3 m3)])"
    using torn_bytes [OF h _ ids(1) _ _ ids(2) _ _ _ assms(7-10), of "appendedMessage w3 m3"] assms(3) by simp_all
  have "loadConversationData (cfBytes f) = Some (h, ms)" using h by (simp add: wholeFile_def)
  from placed_lists [OF pf c(2) head this] placed_lists [OF p2 c(2), of h ms] placed_lists [OF p3 c(3), of h] loads kept
  have "fsListMessages w2 (cfName f) s = Inr (map (conversationRawMessageToModel (cfName f)) ms)"
    "fsListMessages w2 (cfName f) s2 = Inr (map (conversationRawMessageToModel (cfName f)) ms)"
    "fsListMessages w3 (cfName f) s3 = Inr (map (conversationRawMessageToModel (cfName f)) ms @ [fsWritten w3 m3])"
    using assms(3) by (simp_all add: rewritten_def fsWritten_def pointed_def)
  with s1(2) s2(2) s3(2) show ?thesis by blast
qed

subsection \<open>The resume point\<close>

text \<open>\<open>summaryResumeFrom\<close> on the metadata of a row; a number too large for a float is left out.\<close>

definition metadataResume :: "string \<Rightarrow> string \<times> bool" where
  "metadataResume md =
     (case objectMembers md of
        None \<Rightarrow> ([], False)
      | Some ms \<Rightarrow>
          (case map_of (rev ms) ''resumeFromMessageId'' of None \<Rightarrow> [] | Some v \<Rightarrow> (case unquote v of None \<Rightarrow> [] | Some t \<Rightarrow> t),
           map_of (rev ms) ''coverageRecorded'' = Some ''true''))"

text \<open>
  The row the prompt builder sees, with the parsing of attachments and tool calls as arguments; the text of the
  content is the string it encodes, or the JSON itself.
\<close>

definition rowOf :: "(string \<Rightarrow> block list) \<Rightarrow> (string \<Rightarrow> tool_call list) \<Rightarrow> conversation_message \<Rightarrow> row" where
  "rowOf blocks calls m =
     \<lparr>rowId = cmId m, rowRole = pointed (cmRole m),
      rowContent = (if cmContent m = [] then [] else (case unquote (cmContent m) of None \<Rightarrow> cmContent m | Some t \<Rightarrow> t)),
      rowBlocks = blocks (cmContent m), rowCalls = calls (cmToolCalls m), rowToolCallId = pointed (cmToolCallId m),
      rowToolName = pointed (cmToolName m), rowStop = pointed (cmStop m), rowResume = fst (metadataResume (cmMetadata m)),
      rowCoverage = snd (metadataResume (cmMetadata m))\<rparr>"

text \<open>What \<open>summarizeAndPersist\<close> appends; \<open>json.Marshal\<close> writes the keys of a map in order.\<close>

definition summaryMetadata :: "string \<Rightarrow> bool \<Rightarrow> string" where
  "summaryMetadata resume degraded = marshalObject
     [(''coverageRecorded'', if degraded then ''false'' else ''true''), (''resumeFromMessageId'', marshalString resume), (''summary'', ''true'')]"

definition summaryMessage :: "string \<Rightarrow> string \<Rightarrow> string \<Rightarrow> bool \<Rightarrow> conversation_message" where
  "summaryMessage i t resume degraded =
     \<lparr>cmId = [], cmConversation = Some i, cmRole = Some ''system'', cmContent = marshalString t, cmToolCalls = [], cmUsage = [],
      cmMetadata = summaryMetadata resume degraded, cmToolCallId = None, cmToolName = None, cmModel = None, cmProvider = None,
      cmStop = Some ''context_summary'', cmCreated = 0\<rparr>"

text \<open>Identifiers of messages: ASCII without spaces, quotes and the characters JSON escapes.\<close>

definition plainId :: "string \<Rightarrow> bool" where
  "plainId s \<longleftrightarrow> list_all (\<lambda>c. 32 < byte c \<and> byte c < 127 \<and> byte c \<notin> {34, 38, 60, 62, 92}) s"

lemma quote_plainId: "plainId s \<Longrightarrow> quoteBody s = s"
  unfolding quoteBody_def by (induction s) (auto simp: plainId_def pieces_ascii rune_error_def)

lemma plainId_utf8: "plainId s \<Longrightarrow> valid_utf8 s"
  by (rule ascii_valid) (auto simp: plainId_def list_all_iff)

lemma compact_plain:
  assumes "\<forall>c\<in>set s. 32 < byte c \<and> byte c < 127 \<and> byte c \<notin> {38, 60, 62}" and "scanAll (BeginValue, []) s \<noteq> None"
  shows "compactJson s = s"
proof -
  have "keptBytes st w = w" if "\<forall>c\<in>set w. 32 < byte c \<and> byte c < 127 \<and> byte c \<notin> {38, 60, 62}" "scanAll st w \<noteq> None" for st w
    using that
  proof (induction w arbitrary: st)
    case (Cons c w)
    obtain u where u: "scanStep c st = Some u" using Cons.prems(2) by (cases "scanStep c st") auto
    have "\<not> jsonSpace c" using Cons.prems(1) by (auto dest: jsonSpace_byte)
    moreover have "htmlEscape c = [c]" using Cons.prems(1) by (auto simp: htmlEscape_def)
    ultimately show ?case using Cons.IH [of u] Cons.prems u by simp
  qed simp
  moreover have "escapeSeparators w = w" if "\<forall>c\<in>set w. byte c < 127" for w
    using that by (induction w rule: escapeSeparators.induct) auto
  ultimately show ?thesis using assms by (simp add: compactJson_def)
qed

lemma summary_members:
  assumes "plainId resume"
  shows "objectMembers (summaryMetadata resume degraded)
      = Some [(''coverageRecorded'', if degraded then ''false'' else ''true''), (''resumeFromMessageId'', marshalString resume), (''summary'', ''true'')]"
    and "valueText (summaryMetadata resume degraded)" and "compactJson (summaryMetadata resume degraded) = summaryMetadata resume degraded"
proof -
  let ?kvs = "[(''coverageRecorded'', if degraded then ''false'' else ''true''), (''resumeFromMessageId'', marshalString resume), (''summary'', ''true'')]"
  have v: "valueText ''true''" "valueText ''false''"
    by (simp_all add: valueText_def jsonValid_def scanEof_def beginValue_def jsonSpace_def jsonDigit_def)
  have mt: "list_all memberText ?kvs"
    using v marshalString_value [OF plainId_utf8 [OF assms]] by (simp add: memberText_def plainKey_def)
  have n: "?kvs \<noteq> []" by simp
  have "trimJson ''true'' = ''true''" "trimJson ''false'' = ''false''" by (simp_all add: trimJson_def jsonSpace_def)
  then have tr: "\<forall>(k, x)\<in>set ?kvs. trimJson x = x" by simp
  show "objectMembers (summaryMetadata resume degraded) = Some ?kvs"
    unfolding summaryMetadata_def using object_comes_back [OF mt n tr] .
  have valid: "jsonValid (summaryMetadata resume degraded)" unfolding summaryMetadata_def by (rule marshalObject_valid [OF mt n])
  have key: "valid_utf8 ''coverageRecorded''" "valid_utf8 ''resumeFromMessageId''" "valid_utf8 ''summary''"
    by (rule ascii_valid, simp)+
  have shape: "summaryMetadata resume degraded = CHR 0x7B # marshalString ''coverageRecorded'' @ CHR '':'' # (if degraded then ''false'' else ''true'')
      @ CHR '','' # marshalString ''resumeFromMessageId'' @ CHR '':'' # marshalString resume @ CHR '','' # marshalString ''summary'' @ '':true}''"
    by (simp add: summaryMetadata_def marshalObject_def)
  have "scanAll (BeginValue, [ObjectValue]) (summaryMetadata resume degraded) \<noteq> None"
    unfolding shape
    by (simp add: scanAll_append scan_marshalString key plainId_utf8 [OF assms] beginValue_def jsonSpace_def jsonDigit_def maxNestingDepth_def)
  with valid show "valueText (summaryMetadata resume degraded)" by (simp add: valueText_def)
  have q: "quoteBody ''coverageRecorded'' = ''coverageRecorded''" "quoteBody ''resumeFromMessageId'' = ''resumeFromMessageId''"
    "quoteBody ''summary'' = ''summary''" by (rule quote_plainKey, simp add: plainKey_def)+
  have "\<forall>c\<in>set resume. 32 < byte c \<and> byte c < 127 \<and> byte c \<notin> {38, 60, 62}" using assms by (auto simp: plainId_def list_all_iff)
  then have "\<forall>c\<in>set (summaryMetadata resume degraded). 32 < byte c \<and> byte c < 127 \<and> byte c \<notin> {38, 60, 62}"
    unfolding shape by (simp add: marshalString_def q quote_plainId [OF assms] ball_Un)
  then show "compactJson (summaryMetadata resume degraded) = summaryMetadata resume degraded"
    using valid by (intro compact_plain) (auto simp: jsonValid_def split: option.splits)
qed

lemma summary_row_file:
  assumes "plainId resume"
  shows "cmMetadata (fsWritten w (summaryMessage i t resume degraded)) = []"
proof -
  have e: "summaryMetadata resume degraded \<noteq> []" by (simp add: summaryMetadata_def marshalObject_def)
  show ?thesis
    by (simp add: fsWritten_def conversationRawMessageToModel_def migrateMetadataEnvelope_def readForm_def appendedMessage_def summaryMessage_def
      compacted_def e summary_members [OF assms] pointed_def Let_def)
qed

lemma skip_not_before: "start \<le> skipOrphanedTurnFragments h start"
proof -
  have "k \<le> i" if "skipLoop k rs = Some i" for k i rs
    using that
  proof (induction rs arbitrary: k)
    case (Cons r rs)
    then show ?case by (cases r) (fastforce split: if_splits)+
  qed simp
  then show ?thesis by (auto simp: skipOrphanedTurnFragments_def split: option.split)
qed

lemma latest_user_found: "j < n \<Longrightarrow> h ! j = Some r \<Longrightarrow> rowRole r = ''user'' \<Longrightarrow> \<exists>i\<ge>j. latestUserBefore n h = Some i"
proof (induction n)
  case (Suc n)
  then show ?case by (cases "j = n") (auto split: option.split simp: less_Suc_eq)
qed simp

text \<open>C38: Compaction records in its summary message where the transcript resumes, so that the messages it kept stay
  in the prompt; the file store takes that record for an old envelope and drops it, so after the next
  user message the prompt resumes behind the summary and every message that was kept is gone. The
  database returns the record.\<close>

theorem resume_point_is_lost_in_files:
  assumes "plainId resume" and "resume \<noteq> []"
    and "\<forall>r\<in>set later. \<exists>x. r = Some x \<and> \<not> isSummary x" and "\<exists>x. Some x \<in> set later \<and> rowRole x = ''user''"
  shows "(let s = rowOf blocks calls (fsWritten w (summaryMessage i t resume False)) in
      isSummary s \<and> summaryResumeFrom (Some s) = ([], False)
      \<and> (\<exists>k. summaryStartIndex (h @ Some s # later) = Done (k, rowContent s) \<and> length h < k))
    \<and> summaryResumeFrom (Some (rowOf blocks calls (dbWritten v (summaryMessage i t resume False)))) = (resume, True)"
proof (intro conjI)
  let ?m = "summaryMessage i t resume False"
  let ?s = "rowOf blocks calls (fsWritten w ?m)"
  have none: "metadataResume [] = ([], False)" by (simp add: metadataResume_def objectMembers_def Let_def)
  have s: "isSummary ?s" "summaryResumeFrom (Some ?s) = ([], False)"
    using none by (simp_all add: isSummary_def rowOf_def summaryResumeFrom_def summary_row_file [OF assms(1)])
      (simp_all add: fsWritten_def conversationRawMessageToModel_def readForm_def appendedMessage_def summaryMessage_def pointed_def
        split: prod.split)
  have last: "findLastSummaryIndex (h @ Some ?s # later) = Done (Some (length h))"
  proof -
    have "lastSummaryBefore (length (h @ Some ?s # later)) (h @ Some ?s # later) = lastSummaryBefore (Suc (length h)) (h @ Some ?s # later)"
    proof (rule lastSummaryBefore_skip, intro allI impI)
      fix j assume j: "Suc (length h) \<le> j" "j < length (h @ Some ?s # later)"
      then have "(h @ Some ?s # later) ! j = later ! (j - Suc (length h))" "j - Suc (length h) < length later"
        by (auto simp: nth_append nth_Cons' Suc_diff_Suc)
      then show "\<exists>r. (h @ Some ?s # later) ! j = Some r \<and> \<not> isSummary r" using assms(3) by (metis nth_mem)
    qed simp
    then show ?thesis using s(1) by (simp add: findLastSummaryIndex_def)
  qed
  have rec: "recordedResumeIndex (h @ Some ?s # later) (length h) = None"
    using s(2) by (simp add: recordedResumeIndex_def)
  obtain j x where j: "j < length later" "later ! j = Some x" "rowRole x = ''user''"
    using assms(4) by (auto simp: in_set_conv_nth)
  have "(h @ Some ?s # later) ! (length h + Suc j) = Some x" using j by (simp add: nth_append)
  from latest_user_found [OF _ this j(3), of "length (h @ Some ?s # later)"] j(1)
  obtain u where "latestUserBefore (length (h @ Some ?s # later)) (h @ Some ?s # later) = Some u" "length h + Suc j \<le> u" by auto
  then have "length h < latestUserMessageIndex (h @ Some ?s # later)" by (simp add: latestUserMessageIndex_def)
  moreover have "length h < skipOrphanedTurnFragments (h @ Some ?s # later) (length h + 1)"
    using skip_not_before [of "length h + 1" "h @ Some ?s # later"] by simp
  ultimately have "\<exists>k. summaryStartIndex (h @ Some ?s # later) = Done (k, rowContent ?s) \<and> length h < k"
    by (simp add: summaryStartIndex_def last rec rowTextOf_def)
  with s show "let s = ?s in isSummary s \<and> summaryResumeFrom (Some s) = ([], False)
      \<and> (\<exists>k. summaryStartIndex (h @ Some s # later) = Done (k, rowContent s) \<and> length h < k)" by (simp only: Let_def)
  have "metadataResume (summaryMetadata resume False) = (resume, True)"
    by (simp add: metadataResume_def summary_members [OF assms(1)] unquote_marshalString [OF plainId_utf8 [OF assms(1)]])
  then show "summaryResumeFrom (Some (rowOf blocks calls (dbWritten v ?m))) = (resume, True)"
    by (simp add: summaryResumeFrom_def rowOf_def dbWritten_def messageRecord_def summaryMessage_def)
qed

subsection \<open>Concrete inputs\<close>

definition sampleWeather :: conv_weather where
  "sampleWeather = \<lparr>cwNow = 5000000, cwUlid = ''m1'', cwHeaderId = ''h1'', cwStamp = (\<lambda>t. ''now''), cwParse = (\<lambda>t. None),
     cwGlob = (=), cwFault = (\<lambda>c. False), cwPartial = None\<rparr>"

definition sampleHeader :: file_header where
  "sampleHeader = emptyHeader\<lparr>fhType := ''conversation'', fhVersion := 1, fhId := ''h1'', fhTimestamp := ''now''\<rparr>"

definition sampleFile :: conv_file where
  "sampleFile = \<lparr>cfUser = ''u'', cfAgent = ''a'', cfName = ''c'', cfBytes = encodeHeader sampleHeader @ [CHR 0x0A], cfTime = 0\<rparr>"

definition sampleStore :: conv_store where
  "sampleStore = \<lparr>csFiles = [sampleFile], csDefaults = (\<lambda>u a. [])\<rparr>"

definition sampleMessage :: "string \<Rightarrow> conversation_message" where
  "sampleMessage t =
     \<lparr>cmId = [], cmConversation = Some ''c'', cmRole = Some ''user'', cmContent = marshalString t, cmToolCalls = [], cmUsage = [],
      cmMetadata = [], cmToolCallId = None, cmToolName = None, cmModel = None, cmProvider = None, cmStop = None, cmCreated = 0\<rparr>"

definition sampleTables :: conv_tables where
  "sampleTables = \<lparr>ctConversations = [\<lparr>cvId = ''c'', cvUser = Some ''u'', cvAgent = Some ''a'', cvDefault = None, cvTitle = None,
     cvSummary = None, cvSummarized = None, cvCreated = 0, cvModified = 0\<rparr>], ctMessages = []\<rparr>"

definition sampleLine :: file_message where
  "sampleLine = appendedMessage sampleWeather (sampleMessage ''hi'')"

lemma length_marshalObject: "kv \<in> set kvs \<Longrightarrow> length (snd kv) \<le> length (marshalObject kvs)"
proof -
  assume kv: "kv \<in> set kvs"
  have j: "y \<in> set ys \<Longrightarrow> length y \<le> length (join '','' ys)" for y :: string and ys
    by (induction ys rule: induct_list012) auto
  have "length (snd kv) \<le> length (marshalMember kv)" by (cases kv) simp
  also have "\<dots> \<le> length (join '','' (map marshalMember kvs))" using kv by (intro j) simp
  finally show "length (snd kv) \<le> length (marshalObject kvs)" by (simp add: marshalObject_def)
qed

lemma sample_calm: "calm sampleWeather"
  by (simp add: calm_def sampleWeather_def)

lemma sample_header: "goodHeader sampleHeader" "length (encodeHeader sampleHeader) < maxLine"
proof -
  have "encodeHeader sampleHeader = CHR 0x7B # marshalString ''type'' @ CHR '':'' # marshalString ''conversation'' @ CHR '','' # marshalString ''version''
      @ CHR '':'' # decimal (Suc 0) @ CHR '','' # marshalString ''id'' @ CHR '':'' # marshalString ''h1'' @ CHR '','' # marshalString ''timestamp'' @ CHR '':'' # marshalString ''now'' @ ''}''"
    by (simp add: encodeHeader_def sampleHeader_def emptyHeader_def marshalObject_def textMember_def marshalInt_def)
  moreover have "decimal (Suc 0) = ''1''" by code_simp
  moreover have "length (marshalString s) = length s + 2" if "plainId s" for s using quote_plainId [OF that] by (simp add: marshalString_def)
  ultimately show "length (encodeHeader sampleHeader) < maxLine" by (simp add: plainId_def maxLine_def)
  show "goodHeader sampleHeader" by (simp add: goodHeader_def sampleHeader_def emptyHeader_def max_int64_def ascii_valid)
qed

lemma sample_whole: "wholeFile (cfBytes sampleFile) sampleHeader []"
  using whole_new [OF sample_header] by (simp add: sampleFile_def)

lemma sample_sound: "fsConversationsSound sampleStore"
proof -
  have "trimmedString ''u'' = Some ''u''" "trimmedString ''a'' = Some ''a''"
    by (simp_all add: trimmedString_def trim_space_def bytes_of_def pieces_ascii is_space_def)
  then show ?thesis using sample_whole by (auto simp: fsConversationsSound_def sampleStore_def soundFile_def sampleFile_def)
qed

lemma sample_good: "plainId t \<Longrightarrow> goodMessage (appendedMessage sampleWeather (sampleMessage t))"
  using marshalString_value [OF plainId_utf8]
  by (simp add: goodMessage_def appendedMessage_def sampleWeather_def sampleMessage_def pointed_def rawText_def max_int64_def ascii_valid)

lemma compact_plain_string: "plainId t \<Longrightarrow> compactJson (marshalString t) = marshalString t"
proof (rule compact_plain)
  assume t: "plainId t"
  show "scanAll (BeginValue, []) (marshalString t) \<noteq> None" using scan_marshalString(1) [OF plainId_utf8 [OF t], of "[]"] by simp
  show "\<forall>c\<in>set (marshalString t). 32 < byte c \<and> byte c < 127 \<and> byte c \<notin> {38, 60, 62}"
    using t by (auto simp: marshalString_def quote_plainId plainId_def list_all_iff)
qed

lemma sample_line: "goodMessage sampleLine" "fmId sampleLine \<noteq> []" "\<exists>l. encodeMessage sampleLine = Some l \<and> length l < 500"
proof -
  show g: "goodMessage sampleLine" unfolding sampleLine_def by (rule sample_good) (simp add: plainId_def)
  show "fmId sampleLine \<noteq> []" by (simp add: sampleLine_def appendedMessage_def sampleWeather_def)
  have "length (marshalString s) = length s + 2" if "plainId s" for s using quote_plainId [OF that] by (simp add: marshalString_def)
  moreover have "decimal 5 = ''5''" by code_simp
  moreover have "compactJson (marshalString ''hi'') = marshalString ''hi''" by (rule compact_plain_string) (simp add: plainId_def)
  ultimately have "length (marshalObject (messageMembers sampleLine)) < 500"
    by (simp add: sampleLine_def appendedMessage_def sampleWeather_def sampleMessage_def pointed_def messageMembers_def marshalObject_def textMember_def
      marshalInt_def plainId_def)
  with encodeMessage_members [OF g] show "\<exists>l. encodeMessage sampleLine = Some l \<and> length l < 500" by simp
qed



lemma long_message_hides_the_conversation_witness:
  "\<exists>s' r. fsCreateMessage sampleWeather (sampleMessage (replicate maxLine CHR ''a'')) sampleStore = (s', Inr r)
    \<and> fsListMessages sampleWeather ''c'' s' = Inl OsError"
proof -
  let ?m = "sampleMessage (replicate maxLine CHR ''a'')"
  have p: "plainId (replicate maxLine CHR ''a'')" by (simp add: plainId_def list_all_iff)
  note g = sample_good [OF p]
  have "(''content'', marshalString (replicate maxLine CHR ''a'')) \<in> set (messageMembers (appendedMessage sampleWeather ?m))"
    using compact_plain_string [OF p] by (simp add: messageMembers_def appendedMessage_def sampleMessage_def)
  from length_marshalObject [OF this]
  have "maxLine \<le> length (marshalObject (messageMembers (appendedMessage sampleWeather ?m)))"
    by (simp add: marshalString_def quote_plainId [OF p])
  moreover have "sampleFile \<in> set (csFiles sampleStore)" "cmConversation ?m = Some (cfName sampleFile)" "cmRole ?m \<noteq> None"
    by (simp_all add: sampleStore_def sampleMessage_def sampleFile_def)
  ultimately have "\<exists>s' r. fsCreateMessage sampleWeather ?m sampleStore = (s', Inr r) \<and> fsListMessages sampleWeather (cfName sampleFile) s' = Inl OsError"
    using long_message_hides_the_conversation [OF sample_sound sample_calm _ _ _ g encodeMessage_members [OF g], of sampleFile] by blast
  then show ?thesis by (simp add: sampleFile_def)
qed

definition tornWeather :: conv_weather where
  "tornWeather = sampleWeather\<lparr>cwPartial := Some 1\<rparr>"

lemma torn_write_costs_two_witness:
  "\<exists>s1 s2 s3 x2 x3. fsCreateMessage tornWeather (sampleMessage ''hi'') sampleStore = (s1, Inl OsError)
    \<and> fsCreateMessage sampleWeather (sampleMessage ''hi'') s1 = (s2, Inr x2) \<and> fsCreateMessage sampleWeather (sampleMessage ''hi'') s2 = (s3, Inr x3)
    \<and> fsListMessages sampleWeather ''c'' s2 = fsListMessages sampleWeather ''c'' sampleStore
    \<and> (\<exists>ms. fsListMessages sampleWeather ''c'' s3 = Inr (ms @ [fsWritten sampleWeather (sampleMessage ''hi'')]))"
proof -
  let ?m = "sampleMessage ''hi''"
  obtain l where l: "encodeMessage sampleLine = Some l" "length l < 500" using sample_line(3) by blast
  have n: "1 \<le> length l" using decode_encode_message(3) [OF sample_line(1) l(1)] by (cases l) simp_all
  have line: "appendedMessage w ?m = sampleLine" if "w = sampleWeather \<or> w = tornWeather" for w
    using that by (auto simp: sampleLine_def appendedMessage_def tornWeather_def)
  have f: "sampleFile \<in> set (csFiles sampleStore)" "cfName sampleFile = ''c''" by (simp_all add: sampleStore_def sampleFile_def)
  have m: "cmConversation ?m = Some ''c''" "cmRole ?m \<noteq> None" by (simp_all add: sampleMessage_def)
  have u: "cwUlid sampleWeather \<noteq> []" "cwUlid tornWeather \<noteq> []" "cwPartial sampleWeather = None" "cwPartial tornWeather = Some 1"
    "sampleWeather\<lparr>cwPartial := None\<rparr> = sampleWeather" "tornWeather\<lparr>cwPartial := None\<rparr> = sampleWeather"
    by (simp_all add: tornWeather_def sampleWeather_def)
  obtain s1 r1 where 1: "fsCreateMessage tornWeather ?m sampleStore = (s1, r1)" by fastforce
  obtain s2 r2 where 2: "fsCreateMessage sampleWeather ?m s1 = (s2, r2)" by fastforce
  obtain s3 r3 where 3: "fsCreateMessage sampleWeather ?m s2 = (s3, r3)" by fastforce
  have c: "calm (sampleWeather\<lparr>cwPartial := None\<rparr>)" "calm (tornWeather\<lparr>cwPartial := None\<rparr>)"
    by (simp_all only: u sample_calm)
  have all: "\<forall>(w, m, k)\<in>{(tornWeather, ?m, l), (sampleWeather, ?m, l), (sampleWeather, ?m, l)}. calm (w\<lparr>cwPartial := None\<rparr>) \<and> cwUlid w \<noteq> []
      \<and> cmConversation m = Some (cfName sampleFile) \<and> cmRole m \<noteq> None \<and> goodMessage (appendedMessage w m) \<and> encodeMessage (appendedMessage w m) = Some k"
    using line sample_line(1) l(1) c m u(1,2) f(2) by auto
  from torn_write_costs_two [OF sample_sound f(1) all u(4,3,3) _ n _ _ 1 2 3] l(2)
  have "r1 = Inl OsError \<and> (\<exists>x2. r2 = Inr x2) \<and> (\<exists>x3. r3 = Inr x3)
    \<and> (\<exists>ms. fsListMessages sampleWeather ''c'' sampleStore = Inr ms \<and> fsListMessages sampleWeather ''c'' s2 = Inr ms
         \<and> fsListMessages sampleWeather ''c'' s3 = Inr (ms @ [fsWritten sampleWeather ?m]))"
    by (simp add: maxLine_def f(2))
  with 1 2 3 show ?thesis by (metis (no_types))
qed

lemma resume_point_is_lost_in_files_witness:
  "summaryResumeFrom (Some (rowOf (\<lambda>t. []) (\<lambda>t. []) (fsWritten sampleWeather (summaryMessage ''c'' ''gist'' ''m0'' False)))) = ([], False)
    \<and> summaryResumeFrom (Some (rowOf (\<lambda>t. []) (\<lambda>t. []) (dbWritten \<lparr>dcNow = 0, dcUlid = ''m1'', dcFault = False\<rparr>
        (summaryMessage ''c'' ''gist'' ''m0'' False)))) = (''m0'', True)"
proof -
  let ?x = "rowOf (\<lambda>t. []) (\<lambda>t. []) (sampleMessage ''hi'')"
  have "\<not> isSummary ?x" "rowRole ?x = ''user''" by (simp_all add: isSummary_def rowOf_def sampleMessage_def pointed_def)
  then have "\<forall>r\<in>set [Some ?x]. \<exists>x. r = Some x \<and> \<not> isSummary x" "\<exists>x. Some x \<in> set [Some ?x] \<and> rowRole x = ''user''" by auto
  from resume_point_is_lost_in_files [OF _ _ this, of "''m0''" "\<lambda>t. []" "\<lambda>t. []" sampleWeather "''c''" "''gist''" "[]"
    "\<lparr>dcNow = 0, dcUlid = ''m1'', dcFault = False\<rparr>"]
  show ?thesis by (simp add: plainId_def Let_def)
qed

end
