(* ===== verification/Spec2Isabelle.thy ===== *)
theory Spec2Isabelle
  imports ScreenBufferSession ScreenBufferText ScreenBufferWrite QuestionBroker ApprovalBroker TabBroker
    PendingRequests SessionTracker Surfaces CoordinatorProps CoordinatorPanics CoordinatorRuns RunLoop Updater Scheduler
    TextSplit VoiceWav VoiceCalls VoiceReplies VoiceInput WorkspaceTool TodoTools CommandPolicy
    AnthropicPrompts AnthropicStreams ProviderRegistry SummarizerProps ConversationProps
begin

text \<open>
  TeaNode is an assistant server in Go: users talk to agents over chat channels, a websocket and an
  HTTP API; a coordinator queues their messages, a runner drives a language model in a loop of tool
  calls, and brokers hand questions, approvals and browser commands to whoever can answer them. The
  theories below model its core, one theory or a small group per component, and prove what makes
  each component correct. Source paths are relative to \<open>src/internal\<close>.

  Shared ground.
  \<^item> \<open>Prelude\<close>: how a statement ends (it returns, it panics, it does not return), 64-bit \<open>int\<close> with its
    wrap-around, maps ranged over in any order, and the locales \<open>machine\<close> and \<open>failing_machine\<close> (a
    state, steps, an invariant every step keeps) that the components interpret on their own steps.
  \<^item> \<open>Utf8\<close>, \<open>GoStrings\<close>: strings are byte lists; decoding to runes, and the functions of the packages
    \<open>strings\<close> and \<open>strconv\<close> that the program calls, written out with their edge cases.
  \<^item> \<open>Channels\<close>: buffered channels in an explicit heap, and the locale \<open>one_shot\<close>: a registry whose
    waiters own a channel of capacity one until the first delivery or cancellation.

  Terminal (\<open>util/screenbuffer/screenbuffer.go\<close>): \<open>ScreenBuffer\<close> has the record of the screen, its two
  cursors, the scrollback and the escape-sequence parser and one definition per method; \<open>writeByte\<close> is
  the body of the loop of \<open>Write\<close>. \<open>ScreenBufferProps\<close> shows that every operation keeps the grid in
  shape, \<open>ScreenBufferWrite\<close> that \<open>Write\<close> never indexes out of range and that only a tab in the last
  tab stop keeps it from returning, \<open>ScreenBufferText\<close> and \<open>ScreenBufferSession\<close> what it shows.

  Brokers (\<open>integrations\<close>, \<open>util/pending\<close>, \<open>util/sessiontracker\<close>, \<open>pubsub\<close>): \<open>QuestionBroker\<close>,
  \<open>ApprovalBroker\<close>, \<open>TabBroker\<close> and \<open>PendingRequests\<close> each interpret \<open>one_shot\<close>: the first answer decides,
  nothing blocks, batches are all or nothing. \<open>SessionTracker\<close> also holds the event broadcast,
  \<open>Surfaces\<close> the component trees that an agent shows and their validation. A mutex is taken for
  granted: an operation that holds it is one step.

  Coordinator (\<open>coordinators\<close>): \<open>Coordinator\<close> is a step relation, one step per critical section of the
  code, between which goroutines interleave; \<open>CoordinatorProps\<close> proves by induction over all
  interleavings that a message is answered once and by one processor, save what a panic strands, and exhibits
  the interleavings that escape it; \<open>CoordinatorPanics\<close> shows what a recovered panic of a run leaves behind.
  \<open>CoordinatorRuns\<close> has the index of active runs and the handle of a run.

  Runner (\<open>runners\<close>, \<open>providers\<close>, \<open>tools\<close>): \<open>Messages\<close> repairs the pairing of tool calls and results,
  \<open>Transcript\<close> builds the prompt from the rows of a conversation, \<open>CompactionCut\<close> estimates tokens and
  chooses where compaction cuts, \<open>CompactionSummary\<close> writes the summary that replaces the prefix, \<open>ToolRegistry\<close>
  has the tool registry, the policies, the tool search and the prompt profile, and \<open>RunLoop\<close> composes
  them: rounds, streaming, tool execution, mid-run messages, the retry after a full context. The
  loop of a run is bounded by the 250 rounds of the code, which is the fuel of its recursion; a run
  that ends so ends with the code's own error.

  Providers (\<open>providers\<close>): \<open>JsonText\<close> is the scanner of \<open>encoding/json\<close> with the validity and the compaction of raw JSON,
  \<open>Providers\<close> the requests, responses and stream events that the clients share, the loop over the lines of a
  streamed body with the contract of its body (the locale \<open>sse_reader\<close>) and the client of OpenAI-compatible
  services. \<open>Anthropic\<close> and \<open>Gemini\<close> translate requests and responses and read streams; \<open>AnthropicPrompts\<close> shows
  what a request keeps of the prompt that the runner built, \<open>AnthropicStreams\<close> and \<open>Gemini\<close> that streaming a
  reply comes to the same as not streaming it, and which failures the runner never sees.
  \<open>ProviderRegistry\<close> builds the registry from environment and configuration, resolves names and caches lists.

  Summarizer (\<open>summarizers\<close>): \<open>Summarizer\<close> is one pass over conversations, users, agents and projects with the requests
  it makes and what either store keeps of the answer; the clock, the answers, failing transactions and what
  others do while a request is under way are functions of the environment, asked with the number of the
  event; the times the database keeps are cut to microseconds. \<open>SummarizerProps\<close> shows that an excerpt holds the
  newest messages within its limit, and two ways in which the times that decide what is due go wrong.

  Updater (\<open>updater\<close>): \<open>Semver\<close> orders versions (an instance of \<open>linorder\<close>), \<open>UpdateApply\<close> swaps the executable
  on a disk whose calls may fail and whose process may die between any two system calls, and shows what two swaps
  that interleave can lose; \<open>Updater\<close> checks, downloads, verifies and applies releases, one call after the other.
  What a power failure does to files that were never synced is not modelled.

  Jobs (\<open>util/cronexpr\<close>, \<open>jobs\<close>): \<open>CronExpr\<close> parses schedules, with the 64-bit counter of the step loop (the
  fuel of \<open>setBits\<close> is one more than the number of bits, and every iteration but the one that panics moves up
  by at least one bit); \<open>Scheduler\<close> fires jobs, records runs and dies with a panic. A run has, beside the
  start time that is stored, the time of the tick that fired it, which is not.

  Chat channels: \<open>TextSplit\<close> cuts long texts at rune boundaries and sends them chunk by chunk
  (\<open>util/textsplit\<close>, \<open>channels\<close>); the loop is a partial function and proved to end.

  Voice calls (\<open>voice\<close>): \<open>VoiceFrames\<close> encodes audio frames, \<open>VoiceWav\<close> unwraps speech from WAV files,
  \<open>VoiceSentences\<close> cuts a streamed reply into the pieces to speak. \<open>VoiceSession\<close> is the state of a call and
  its critical sections, \<open>VoiceTurns\<close> and \<open>VoiceCalls\<close> the goroutines of a call (transcription, commit, forwarding
  of the reply, synthesis, barge-in) as steps that interleave, and what a turn may lead to. \<open>VoiceReplies\<close> follows
  the events of the replies through the bounded channel and the forwarder, interrupted replies included. \<open>VoiceInput\<close> is the
  loop that reads audio: the voice activity detector and the strategy that ends turns; the loudness of a
  frame is a real number and an input.

  Workspaces (\<open>util/atomicfile\<close>, \<open>util/trash\<close>, \<open>store\<close>, \<open>tools/workspace\<close>): \<open>Paths\<close> writes out the lexical part of
  \<open>path/filepath\<close>, \<open>FileSystem\<close> is a disk whose calls may fail, with the atomic write and the trash.
  \<open>WorkspaceStores\<close> has the workspace files of both stores behind the locale \<open>workspace_store\<close>, and
  \<open>WorkspaceTool\<close> the actions of the tool on either.

  Todos (\<open>store\<close>, \<open>tools/conversations\<close>, \<open>tools/projects\<close>, \<open>api\<close>): \<open>TodoStores\<close> has the todos of both stores behind
  the locale \<open>todo_store\<close>, with writes of a file that break off behind the truncation, the widths of the columns
  and transactions that a failing statement aborts; \<open>TodoTools\<close> has the two tools and the websocket methods over
  either, and what a batch does to the stored todos. Texts hold no NUL byte, which the database would refuse.

  Conversations (\<open>store/fsstore\<close>, \<open>store/dbstore\<close>): \<open>JsonStrings\<close>, \<open>JsonObjects\<close> and \<open>JsonCompact\<close> write out what
  \<open>encoding/json\<close> does with strings, objects and raw values: what is written comes back, up to compaction.
  \<open>ConversationFiles\<close> has the lines of a conversation file, \<open>ConversationLines\<close> shows that each is read as what was
  written, \<open>ConversationStores\<close> the operations of both stores. The locale \<open>conversation_log\<close> of \<open>ConversationLog\<close> says
  that a conversation is the list of its messages; \<open>ConversationContracts\<close> interprets it on both stores.
  \<open>ConversationProps\<close> has what follows, and where the file store departs from it: long lines, torn writes and
  the resume point of a compaction.

  Shell commands (\<open>util/commandpolicy\<close>, \<open>tools/shell\<close>): \<open>CommandPolicy\<close> has the regular expressions of the policy with
  their meaning and a matcher proved to decide it, the decision, and the tool up to the process it starts.

  Parameters of the models, always arguments of the definitions: outside the conversation stores the JSON codec, the
  parsing of JSON into the records of an API, Unicode lower-casing, the provider's answers and the summarizer, what a tool
  returns, the outcome of system calls, HTTP responses, SHA-256 and archive contents, the calendar, glob
  matching, the verdict of a chat platform. Times are numbers, identifiers are strings or numbers handed
  out by a counter.

  Not modelled: the stores of everything but workspace files, todos and conversations, the HTTP and websocket layers, the
  clients of speech and other third-party services, browsers and pseudo-terminals, the codecs of audio, the
  command line and the frontend. They are input and output around the modelled components, or translate
  between them and services whose code is not here.
\<close>

end
